(* ===== verification/Prelude.thy ===== *)
theory Prelude
  imports Main "HOL-Library.Word" "HOL-Library.AList"
begin

text \<open>
  Shared vocabulary of the development: the machine integers of the C++ sources, results that
  may be an exception (\<open>Inl\<close> the error, \<open>Inr\<close> the value), association lists standing for
  \<^verbatim>\<open>std::unordered_map\<close>, time points, and the generic lemmas the components share.

  \<^item> \<^verbatim>\<open>std::uint8_t .. std::uint64_t\<close> are \<open>8 word .. 64 word\<close>; \<open>+\<close> wraps around as in C++.
    \<^verbatim>\<open>std::int32_t\<close> and \<^verbatim>\<open>std::int64_t\<close> are words read with \<open>sint\<close>.
  \<^item> \<^verbatim>\<open>std::size_t\<close> is \<open>nat\<close> where it only counts the elements of a container.
  \<^item> \<^verbatim>\<open>steady_clock::time_point\<close> is an \<open>int\<close> number of nanoseconds, and a duration in
    milliseconds \<open>n\<close> is \<open>ms n\<close>.
  \<^item> An unordered map is an association list with distinct keys; the list order is one of the
    iteration orders the C++ container may have, and no property below depends on which.
\<close>

unbundle bit_operations_syntax

type_synonym byte = "8 word"
type_synonym u16 = "16 word"
type_synonym u32 = "32 word"
type_synonym u64 = "64 word"
type_synonym i32 = "32 word"
type_synonym i64 = "64 word"
type_synonym time = int

definition ms :: "int \<Rightarrow> time" where
  "ms n = n * 1000000"

lemma ms_pos_iff [simp]: "0 < ms n \<longleftrightarrow> 0 < n"
  by (simp add: ms_def)

lemma ms_le_iff [simp]: "ms m \<le> ms n \<longleftrightarrow> m \<le> n"
  by (simp add: ms_def)

named_theorems wire_simps \<open>reading back what was written\<close>
named_theorems inv_intros \<open>operations that keep a component's invariant\<close>

lemma xor_zero_iff [simp]: "a XOR b = 0 \<longleftrightarrow> a = b" for a b :: "'a::len word"
proof
  assume "a XOR b = 0"
  then have "a XOR (a XOR b) = a" by simp
  then show "a = b" by (simp flip: xor.assoc)
qed simp

lemma unat_of_nat_small: "n < 2 ^ LENGTH('a) \<Longrightarrow> unat (word_of_nat n :: 'a::len word) = n"
  by (simp add: unsigned_of_nat take_bit_nat_eq_self)

lemma unat_succ:
  fixes w v :: "'a::len word"
  assumes "w < v"
  shows "unat (w + 1) = unat w + 1"
proof -
  have "unat w < unat v" using assms by (simp add: word_less_nat_alt)
  moreover have "unat v < 2 ^ LENGTH('a)" by (rule unsigned_less)
  ultimately have "unat w + 1 < 2 ^ LENGTH('a)" by linarith
  then show ?thesis by (simp add: unat_word_ariths)
qed

text \<open>64-bit arithmetic that does not wrap.\<close>

lemma u64_bound: "unat (w :: u64) < 2 ^ 64"
  using unsigned_less [of w] by (rule order_less_le_trans) simp

lemma u32_bound: "unat (w :: u32) < 2 ^ 32"
  using unsigned_less [of w] by (rule order_less_le_trans) simp

lemma unat_add_small: "unat a + unat b < 2 ^ 64 \<Longrightarrow> unat (a + b) = unat a + unat b" for a b :: u64
  by (simp add: unat_word_ariths)

lemma unat_mult_small: "unat a * unat b < 2 ^ 64 \<Longrightarrow> unat (a * b) = unat a * unat b" for a b :: u64
  by (simp add: unat_word_ariths)

lemma unat_diff: "b \<le> a \<Longrightarrow> unat (a - b) = unat a - unat b" for a b :: u64
  by (simp add: unat_sub)

lemma unat_ucast_u32: "unat (ucast (w :: u32) :: u64) = unat w"
  by (simp add: unsigned_ucast_eq take_bit_nat_eq_self order_less_le_trans [OF u32_bound])

subsection \<open>Results with errors\<close>

definition try_bind :: "'e + 'a \<Rightarrow> ('a \<Rightarrow> 'e + 'b) \<Rightarrow> 'e + 'b" where
  "try_bind r f = (case r of Inl e \<Rightarrow> Inl e | Inr x \<Rightarrow> f x)"

lemma try_bind_simps [simp]:
  "try_bind (Inl e) f = Inl e"
  "try_bind (Inr x) f = f x"
  by (simp_all add: try_bind_def)

lemma try_bind_Inr_iff: "try_bind r f = Inr y \<longleftrightarrow> (\<exists>x. r = Inr x \<and> f x = Inr y)"
  by (cases r) auto

text \<open>A guard that throws: what a successful run says about it.\<close>

lemma guard_Inr_iff [simp]: "(if b then Inl e else r) = Inr x \<longleftrightarrow> \<not> b \<and> r = Inr x"
  by simp

text \<open>Translating one layer's exception into another layer's.\<close>

definition map_error :: "('e \<Rightarrow> 'f) \<Rightarrow> 'e + 'a \<Rightarrow> 'f + 'a" where
  "map_error g r = (case r of Inl e \<Rightarrow> Inl (g e) | Inr x \<Rightarrow> Inr x)"

lemma map_error_simps [simp]:
  "map_error g (Inl e) = Inl (g e)"
  "map_error g (Inr x) = Inr x"
  by (simp_all add: map_error_def)

lemma map_error_Inr_iff [simp]: "map_error g r = Inr x \<longleftrightarrow> r = Inr x"
  by (cases r) auto

text \<open>A loop that applies a fallible step to every element and stops at the first error.\<close>

fun traverse :: "('a \<Rightarrow> 'e + 'b) \<Rightarrow> 'a list \<Rightarrow> 'e + 'b list" where
  "traverse f [] = Inr []"
| "traverse f (x # xs) =
     (case f x of Inl e \<Rightarrow> Inl e
      | Inr y \<Rightarrow> (case traverse f xs of Inl e \<Rightarrow> Inl e | Inr ys \<Rightarrow> Inr (y # ys)))"

lemma traverse_Inr_iff:
  "traverse f xs = Inr ys \<longleftrightarrow> list_all2 (\<lambda>x y. f x = Inr y) xs ys"
proof (induction xs arbitrary: ys)
  case Nil
  then show ?case by auto
next
  case (Cons x xs)
  show ?case
  proof (cases ys)
    case Nil
    then show ?thesis by (auto split: sum.splits)
  next
    case (Cons y ys')
    with Cons.IH [of ys'] show ?thesis
      by (cases "f x"; cases "traverse f xs") auto
  qed
qed

lemma traverse_all_Inr:
  "(\<And>x. x \<in> set xs \<Longrightarrow> f x = Inr (g x)) \<Longrightarrow> traverse f xs = Inr (map g xs)"
  by (induction xs) auto

lemma traverse_length: "traverse f xs = Inr ys \<Longrightarrow> length ys = length xs"
  by (auto simp: traverse_Inr_iff dest: list_all2_lengthD)

subsection \<open>Splitting byte sequences\<close>

text \<open>
  The first \<open>n\<close> chunks of width \<open>w\<close>, as a decoder walks over
  \<^verbatim>\<open>payload.data() + index * w\<close>.
\<close>

fun chunks :: "nat \<Rightarrow> nat \<Rightarrow> 'a list \<Rightarrow> 'a list list" where
  "chunks w 0 xs = []"
| "chunks w (Suc n) xs = take w xs # chunks w n (drop w xs)"

lemma length_chunks [simp]: "length (chunks w n xs) = n"
  by (induction n arbitrary: xs) auto

lemma chunks_concat:
  "(\<And>c. c \<in> set cs \<Longrightarrow> length c = w) \<Longrightarrow> chunks w (length cs) (concat cs @ rest) = cs"
  by (induction cs arbitrary: rest) auto

lemma concat_chunks: "concat (chunks w n xs) = take (w * n) xs"
proof (induction n arbitrary: xs)
  case 0
  then show ?case by simp
next
  case (Suc n)
  have "take (w + w * n) xs = take w xs @ take (w * n) (drop w xs)"
    by (rule take_add)
  with Suc show ?case by simp
qed

lemma chunks_widths:
  "w * n \<le> length xs \<Longrightarrow> c \<in> set (chunks w n xs) \<Longrightarrow> length c = w"
proof (induction n arbitrary: xs)
  case 0
  then show ?case by simp
next
  case (Suc n)
  have "w * n \<le> length (drop w xs)" using Suc.prems(1) by simp
  moreover have "w \<le> length xs" using Suc.prems(1) by simp
  ultimately show ?case using Suc.IH [of "drop w xs"] Suc.prems(2) by auto
qed

lemma concat_same_width_length:
  "(\<And>c. c \<in> set cs \<Longrightarrow> length c = w) \<Longrightarrow> length (concat cs) = w * length cs"
  by (induction cs) auto

subsection \<open>Association lists as hash maps\<close>

type_synonym ('k, 'v) hmap = "('k \<times> 'v) list"

abbreviation hkeys :: "('k, 'v) hmap \<Rightarrow> 'k list" where
  "hkeys m \<equiv> map fst m"

abbreviation hmap_ok :: "('k, 'v) hmap \<Rightarrow> bool" where
  "hmap_ok m \<equiv> distinct (hkeys m)"

text \<open>\<^verbatim>\<open>m[k] = v\<close>, and \<^verbatim>\<open>m.emplace(k, v)\<close>, which leaves a present key alone.\<close>

definition hput :: "'k \<Rightarrow> 'v \<Rightarrow> ('k, 'v) hmap \<Rightarrow> ('k, 'v) hmap" where
  "hput k v m = AList.update k v m"

definition hemplace :: "'k \<Rightarrow> 'v \<Rightarrow> ('k, 'v) hmap \<Rightarrow> ('k, 'v) hmap" where
  "hemplace k v m = (if map_of m k = None then m @ [(k, v)] else m)"

definition herase :: "'k \<Rightarrow> ('k, 'v) hmap \<Rightarrow> ('k, 'v) hmap" where
  "herase k m = filter (\<lambda>e. fst e \<noteq> k) m"

lemma map_of_hput [simp]: "map_of (hput k v m) = (map_of m)(k \<mapsto> v)"
  by (simp add: hput_def update_conv')

lemma hmap_ok_hput [simp, intro]: "hmap_ok m \<Longrightarrow> hmap_ok (hput k v m)"
  by (simp add: hput_def distinct_update)

lemma map_of_hemplace:
  "map_of (hemplace k v m) = (if map_of m k = None then (map_of m)(k \<mapsto> v) else map_of m)"
  by (auto simp: hemplace_def map_of_append map_add_def fun_eq_iff split: option.splits)

lemma hmap_ok_hemplace [simp, intro]: "hmap_ok m \<Longrightarrow> hmap_ok (hemplace k v m)"
  by (auto simp: hemplace_def map_of_eq_None_iff)

lemma map_of_herase [simp]: "map_of (herase k m) = (map_of m)(k := None)"
proof
  fix x
  show "map_of (herase k m) x = ((map_of m)(k := None)) x"
    by (induction m) (auto simp: herase_def)
qed

lemma hmap_ok_filter [simp, intro]: "hmap_ok m \<Longrightarrow> hmap_ok (filter P m)"
  by (rule distinct_map_filter)

lemma hmap_ok_herase [simp, intro]: "hmap_ok m \<Longrightarrow> hmap_ok (herase k m)"
  by (simp add: herase_def)

lemma map_of_filter_ok:
  "hmap_ok m \<Longrightarrow>
   map_of (filter P m) k =
     (case map_of m k of None \<Rightarrow> None | Some v \<Rightarrow> if P (k, v) then Some v else None)"
proof (induction m)
  case Nil
  then show ?case by simp
next
  case (Cons e m)
  obtain k' v' where e: "e = (k', v')" by (cases e)
  have "map_of m k' = None" using Cons.prems e by (simp add: map_of_eq_None_iff)
  with Cons e show ?case by (auto split: option.splits)
qed

lemma set_hmap_iff: "hmap_ok m \<Longrightarrow> (k, v) \<in> set m \<longleftrightarrow> map_of m k = Some v"
  by (auto dest: map_of_SomeD)

lemma length_herase:
  "hmap_ok m \<Longrightarrow> length (herase k m) = length m - (if map_of m k = None then 0 else 1)"
proof (induction m)
  case Nil
  then show ?case by (simp add: herase_def)
next
  case (Cons e m)
  show ?case
  proof (cases "fst e = k")
    case True
    from Cons.prems have "fst e \<notin> fst ` set m" by simp
    with True have "\<forall>x \<in> set m. fst x \<noteq> k" by (metis imageI)
    then have "herase k m = m" by (simp add: herase_def filter_id_conv)
    with True show ?thesis by (cases e) (simp add: herase_def)
  next
    case False
    then have "herase k (e # m) = e # herase k m" by (simp add: herase_def)
    moreover have "map_of m k \<noteq> None \<Longrightarrow> m \<noteq> []" by auto
    ultimately show ?thesis
      using Cons False by (cases e; cases m) auto
  qed
qed

text \<open>Applying a function to the values only keeps keys and lookups in step.\<close>

definition hmap_values :: "('v \<Rightarrow> 'w) \<Rightarrow> ('k, 'v) hmap \<Rightarrow> ('k, 'w) hmap" where
  "hmap_values f m = map (\<lambda>e. (fst e, f (snd e))) m"

lemma hkeys_hmap_values [simp]: "hkeys (hmap_values f m) = hkeys m"
  by (simp add: hmap_values_def comp_def)

lemma map_of_hmap_values [simp]: "map_of (hmap_values f m) k = map_option f (map_of m k)"
  by (induction m) (auto simp: hmap_values_def)

text \<open>A loop over the entries that updates or erases each of them.\<close>

fun hmap_keep :: "('v \<Rightarrow> 'w option) \<Rightarrow> ('k, 'v) hmap \<Rightarrow> ('k, 'w) hmap" where
  "hmap_keep g [] = []"
| "hmap_keep g ((k, v) # m) =
     (case g v of None \<Rightarrow> hmap_keep g m | Some w \<Rightarrow> (k, w) # hmap_keep g m)"

lemma hmap_keep_keys: "set (hkeys (hmap_keep g m)) \<subseteq> set (hkeys m)"
  by (induction g m rule: hmap_keep.induct) (auto split: option.splits)

lemma hmap_ok_keep [simp, intro]: "hmap_ok m \<Longrightarrow> hmap_ok (hmap_keep g m)"
proof (induction g m rule: hmap_keep.induct)
  case (2 g k v m)
  then have "k \<notin> set (hkeys (hmap_keep g m))" using hmap_keep_keys [of g m] by auto
  with 2 show ?case by (auto split: option.split)
qed simp

lemma map_of_hmap_keep:
  "hmap_ok m \<Longrightarrow>
   map_of (hmap_keep g m) k = (case map_of m k of None \<Rightarrow> None | Some v \<Rightarrow> g v)"
proof (induction g m rule: hmap_keep.induct)
  case (2 g k' v m)
  then have "k' \<notin> set (hkeys (hmap_keep g m))" using hmap_keep_keys [of g m] by auto
  then have "map_of (hmap_keep g m) k' = None" by (simp add: map_of_eq_None_iff)
  with 2 show ?case by (auto split: option.split)
qed simp

subsection \<open>Stores whose entries expire\<close>

text \<open>
  The loop of every \<^verbatim>\<open>expire\<close> function: erase the stale entries while iterating, count them.
\<close>

definition hexpire :: "('v \<Rightarrow> bool) \<Rightarrow> ('k, 'v) hmap \<Rightarrow> nat \<times> ('k, 'v) hmap" where
  "hexpire stale m =
     (length (filter (\<lambda>e. stale (snd e)) m), filter (\<lambda>e. \<not> stale (snd e)) m)"

lemma hexpire_empty [simp]: "hexpire stale [] = (0, [])"
  by (simp add: hexpire_def)

lemma hexpire_count: "fst (hexpire stale m) + length (snd (hexpire stale m)) = length m"
  by (simp add: hexpire_def sum_length_filter_compl)

lemma hmap_ok_hexpire [simp, intro]: "hmap_ok m \<Longrightarrow> hmap_ok (snd (hexpire stale m))"
  by (simp add: hexpire_def)

lemma set_hexpire: "set (snd (hexpire stale m)) = {e \<in> set m. \<not> stale (snd e)}"
  by (auto simp: hexpire_def)

lemma map_of_hexpire:
  "hmap_ok m \<Longrightarrow>
   map_of (snd (hexpire stale m)) k =
     (case map_of m k of None \<Rightarrow> None | Some v \<Rightarrow> if stale v then None else Some v)"
  by (auto simp: hexpire_def map_of_filter_ok split: option.splits)

text \<open>
  The contract of an expiring store: once an entry is stale it stays so. Then expiring is
  idempotent, late calls subsume early ones, and an entry that is still fresh survives every
  earlier call.
\<close>

locale expiring =
  fixes stale :: "time \<Rightarrow> 'v \<Rightarrow> bool"
  assumes stale_mono: "stale t v \<Longrightarrow> t \<le> t' \<Longrightarrow> stale t' v"
begin

lemma expire_later: "t \<le> t' \<Longrightarrow> snd (hexpire (stale t') (snd (hexpire (stale t) m))) = snd (hexpire (stale t') m)"
  by (auto simp: hexpire_def intro!: filter_cong dest: stale_mono)

lemma expire_idem: "hexpire (stale t) (snd (hexpire (stale t) m)) = (0, snd (hexpire (stale t) m))"
  by (simp add: hexpire_def filter_empty_conv)

lemma fresh_kept:
  "hmap_ok m \<Longrightarrow> map_of m k = Some v \<Longrightarrow> \<not> stale t' v \<Longrightarrow> t \<le> t' \<Longrightarrow>
   map_of (snd (hexpire (stale t) m)) k = Some v"
  using stale_mono [of t v t'] by (auto simp: map_of_hexpire)

lemma stale_gone:
  "hmap_ok m \<Longrightarrow> map_of m k = Some v \<Longrightarrow> stale t v \<Longrightarrow> t \<le> t' \<Longrightarrow>
   map_of (snd (hexpire (stale t') m)) k = None"
  using stale_mono [of t v t'] by (auto simp: map_of_hexpire)

end

end
