(* ===== verification/Wire.thy ===== *)
theory Wire
  imports Prelude
begin

text \<open>
  The little-endian field helpers every codec of the repository declares in its anonymous
  namespace (\<^verbatim>\<open>append_u16/put_u16\<close>, \<^verbatim>\<open>append_u32\<close>, \<^verbatim>\<open>append_u64\<close> and \<^verbatim>\<open>read_u16/get_u16\<close>,
  \<^verbatim>\<open>read_u32\<close>, \<^verbatim>\<open>read_u64\<close>), and the contract between an encoder and a decoder as locales:
  \<open>codec\<close> (what is encoded decodes to itself), \<open>canonical_codec\<close> (what decodes is the
  encoding of the result) and \<open>record_codec\<close> (fixed width, with lists of records).
  A pointer into the payload, \<^verbatim>\<open>payload.data() + n\<close>, is \<open>drop n payload\<close>.
\<close>

subsection \<open>Little-endian fields\<close>

definition put_u16 :: "u16 \<Rightarrow> byte list" where
  "put_u16 value = [ucast value, ucast (drop_bit 8 value)]"

definition put_u32 :: "u32 \<Rightarrow> byte list" where
  "put_u32 value = map (\<lambda>i. ucast (drop_bit (8 * i) value)) [0..<4]"

definition put_u64 :: "u64 \<Rightarrow> byte list" where
  "put_u64 value = map (\<lambda>i. ucast (drop_bit (i * 8) value)) [0..<8]"

definition get_u16 :: "byte list \<Rightarrow> u16" where
  "get_u16 inp = ucast (inp ! 0) OR push_bit 8 (ucast (inp ! 1))"

definition get_u32 :: "byte list \<Rightarrow> u32" where
  "get_u32 inp = ucast (inp ! 0) OR push_bit 8 (ucast (inp ! 1)) OR
     push_bit 16 (ucast (inp ! 2)) OR push_bit 24 (ucast (inp ! 3))"

definition get_u64 :: "byte list \<Rightarrow> u64" where
  "get_u64 inp = fold (\<lambda>i value. value OR push_bit (i * 8) (ucast (inp ! i))) [0..<8] 0"

lemma put_u32_bytes:
  "put_u32 v = [ucast v, ucast (drop_bit 8 v), ucast (drop_bit 16 v), ucast (drop_bit 24 v)]"
  by (simp add: put_u32_def upt_rec)

lemma put_u64_bytes:
  "put_u64 v = [ucast v, ucast (drop_bit 8 v), ucast (drop_bit 16 v), ucast (drop_bit 24 v),
     ucast (drop_bit 32 v), ucast (drop_bit 40 v), ucast (drop_bit 48 v), ucast (drop_bit 56 v)]"
  by (simp add: put_u64_def upt_rec)

lemma get_u64_bytes:
  "get_u64 b = ucast (b ! 0) OR push_bit 8 (ucast (b ! 1)) OR push_bit 16 (ucast (b ! 2)) OR
     push_bit 24 (ucast (b ! 3)) OR push_bit 32 (ucast (b ! 4)) OR push_bit 40 (ucast (b ! 5)) OR
     push_bit 48 (ucast (b ! 6)) OR push_bit 56 (ucast (b ! 7))"
  by (simp add: get_u64_def upt_rec or.assoc eval_nat_numeral)

text \<open>One byte of a value, put back in its place, holds exactly the bits of its window.\<close>

lemma bit_byte_window:
  "bit (push_bit k (ucast (ucast (drop_bit k v) :: byte)) :: 'a::len word) n \<longleftrightarrow>
     k \<le> n \<and> n < k + 8 \<and> bit v n" for v :: "'a::len word"
  by (auto simp: bit_simps dest: bit_imp_le_length)

lemma bit_byte_window0:
  "bit (ucast (ucast v :: byte) :: 'a::len word) n \<longleftrightarrow> n < 8 \<and> bit v n" for v :: "'a::len word"
  by (auto simp: bit_simps dest: bit_imp_le_length)

lemma bit_byte_placed:
  "bit (push_bit k (ucast (b :: byte)) :: 'a::len word) n \<longleftrightarrow>
     n < LENGTH('a) \<and> k \<le> n \<and> n < k + 8 \<and> bit b (n - k)"
  by (auto simp: bit_simps dest: bit_imp_le_length)

lemma bit_byte_placed0:
  "bit (ucast (b :: byte) :: 'a::len word) n \<longleftrightarrow> n < LENGTH('a) \<and> n < 8 \<and> bit b n"
  by (auto simp: bit_simps dest: bit_imp_le_length)

lemma byte_bit_high [simp]: "8 \<le> n \<Longrightarrow> \<not> bit (b :: byte) n"
  by (auto dest: bit_imp_le_length)

lemma byte_eqI: "(\<And>n. n < 8 \<Longrightarrow> bit a n = bit b n) \<Longrightarrow> a = b" for a b :: byte
  by (rule bit_word_eqI) simp

lemma length_put [simp, wire_simps]:
  "length (put_u16 a) = 2" "length (put_u32 b) = 4" "length (put_u64 c) = 8"
  by (simp_all add: put_u16_def put_u32_def put_u64_def)

lemma get_put_u16 [simp, wire_simps]: "get_u16 (put_u16 v @ rest) = v"
proof (rule bit_word_eqI)
  fix n assume "n < LENGTH(16)"
  then show "bit (get_u16 (put_u16 v @ rest)) n = bit v n"
    by (auto simp: put_u16_def get_u16_def bit_or_iff bit_byte_window bit_byte_window0)
qed

lemma get_put_u32 [simp, wire_simps]: "get_u32 (put_u32 v @ rest) = v"
proof (rule bit_word_eqI)
  fix n assume "n < LENGTH(32)"
  then show "bit (get_u32 (put_u32 v @ rest)) n = bit v n"
    by (auto simp: put_u32_bytes get_u32_def bit_or_iff bit_byte_window bit_byte_window0)
qed

lemma get_put_u64 [simp, wire_simps]: "get_u64 (put_u64 v @ rest) = v"
proof (rule bit_word_eqI)
  fix n assume "n < LENGTH(64)"
  then have n: "n < 64" by simp
  show "bit (get_u64 (put_u64 v @ rest)) n = bit v n"
  proof (cases "bit v n")
    case True
    with n show ?thesis
      by (simp add: put_u64_bytes get_u64_bytes bit_or_iff bit_byte_window bit_byte_window0)
        linarith
  next
    case False
    then show ?thesis
      by (simp add: put_u64_bytes get_u64_bytes bit_or_iff bit_byte_window bit_byte_window0)
  qed
qed

lemmas get_put_end [simp, wire_simps] =
  get_put_u16 [where rest = "[]", simplified]
  get_put_u32 [where rest = "[]", simplified]
  get_put_u64 [where rest = "[]", simplified]

text \<open>Writing back what was read gives the bytes that were read.\<close>

lemma put_get_u16: "put_u16 (get_u16 [a, b]) = [a, b]"
  by (auto simp: put_u16_def get_u16_def bit_simps bit_byte_placed intro!: byte_eqI
      dest: bit_imp_le_length)

lemma put_get_u32: "put_u32 (get_u32 [a, b, c, d]) = [a, b, c, d]"
  by (auto simp: put_u32_bytes get_u32_def bit_or_iff bit_ucast_iff bit_drop_bit_eq
      bit_byte_placed bit_byte_placed0 intro!: byte_eqI)

lemma put_get_u64: "put_u64 (get_u64 [a, b, c, d, e, f, g, h]) = [a, b, c, d, e, f, g, h]"
  by (simp add: put_u64_bytes get_u64_bytes, intro conjI; rule byte_eqI)
    (simp_all add: bit_or_iff bit_ucast_iff bit_drop_bit_eq bit_byte_placed bit_byte_placed0)

text \<open>The same on a longer buffer: a field rewritten in place.\<close>

lemma put_get_take:
  "2 \<le> length bs \<Longrightarrow> put_u16 (get_u16 bs) = take 2 bs"
  "4 \<le> length bs \<Longrightarrow> put_u32 (get_u32 bs) = take 4 bs"
  "8 \<le> length bs \<Longrightarrow> put_u64 (get_u64 bs) = take 8 bs"
proof -
  assume "2 \<le> length bs"
  then obtain a b r where "bs = a # b # r"
    by (auto simp: numeral_eq_Suc Suc_le_length_iff)
  then show "put_u16 (get_u16 bs) = take 2 bs"
    using put_get_u16 [of a b] by (simp add: get_u16_def)
next
  assume "4 \<le> length bs"
  then obtain a b c d r where "bs = a # b # c # d # r"
    by (auto simp: numeral_eq_Suc Suc_le_length_iff)
  then show "put_u32 (get_u32 bs) = take 4 bs"
    using put_get_u32 [of a b c d] by (simp add: get_u32_def)
next
  assume "8 \<le> length bs"
  then obtain a b c d e f g h r where "bs = a # b # c # d # e # f # g # h # r"
    by (auto simp: numeral_eq_Suc Suc_le_length_iff)
  then show "put_u64 (get_u64 bs) = take 8 bs"
    using put_get_u64 [of a b c d e f g h] by (simp add: get_u64_bytes)
qed

lemma put_get_at:
  "n + 2 \<le> length bs \<Longrightarrow> put_u16 (get_u16 (drop n bs)) = take 2 (drop n bs)"
  "n + 4 \<le> length bs \<Longrightarrow> put_u32 (get_u32 (drop n bs)) = take 4 (drop n bs)"
  "n + 8 \<le> length bs \<Longrightarrow> put_u64 (get_u64 (drop n bs)) = take 8 (drop n bs)"
  by (simp_all add: put_get_take)

text \<open>
  Consecutive fields, read at their offsets, are the buffer again: with these rules the
  simplifier glues a decoded record back together from left to right.
\<close>

named_theorems join_simps \<open>gluing consecutive slices of a buffer\<close>

lemma slice_join [join_simps]:
  "n' = n + m \<Longrightarrow> take m (drop n bs) @ take k (drop n' bs) = take (m + k) (drop n bs)"
  "n' = n + m \<Longrightarrow> take m (drop n bs) @ take k (drop n' bs) @ r = take (m + k) (drop n bs) @ r"
  by (simp_all add: take_add add.commute [of n m])

lemma slice_join_end [join_simps]:
  "n' = n + m \<Longrightarrow> take m (drop n bs) @ drop n' bs = drop n bs"
  "take m bs @ drop m bs = bs"
  by (simp_all add: add.commute flip: drop_drop)

lemma prefix_join [join_simps]:
  "take m bs @ take k (drop m bs) = take (m + k) bs"
  "take m bs @ take k (drop m bs) @ r = take (m + k) bs @ r"
  by (simp_all add: take_add)

lemma byte_join [join_simps]:
  "n < length bs \<Longrightarrow> n' = Suc n \<Longrightarrow> bs ! n # take k (drop n' bs) = take (Suc k) (drop n bs)"
  "n < length bs \<Longrightarrow> n' = Suc n \<Longrightarrow>
     bs ! n # take k (drop n' bs) @ r = take (Suc k) (drop n bs) @ r"
  "n < length bs \<Longrightarrow> n' = Suc n \<Longrightarrow> bs ! n # drop n' bs = drop n bs"
  by (simp_all add: Cons_nth_drop_Suc [symmetric])

lemma first_byte_join [join_simps]:
  "1 \<le> length bs \<Longrightarrow> bs ! 0 # take k (drop (Suc 0) bs) = take (Suc k) bs"
  "1 \<le> length bs \<Longrightarrow> bs ! 0 # take k (drop (Suc 0) bs) @ r = take (Suc k) bs @ r"
  by (cases bs; simp)+

lemma byte_end_join [join_simps]: "Suc n = length bs \<Longrightarrow> [bs ! n] = drop n bs"
  by (simp add: Cons_nth_drop_Suc [symmetric])

subsection \<open>Contracts between encoders and decoders\<close>

text \<open>
  \<open>norm x\<close> is what the receiver sees of \<open>x\<close>: the identity for most codecs, the header with its
  length and CRC filled in for packets.
\<close>

locale codec =
  fixes enc :: "'a \<Rightarrow> 'e + byte list"
    and dec :: "byte list \<Rightarrow> 'e + 'a"
    and norm :: "'a \<Rightarrow> 'a"
  assumes dec_enc: "enc x = Inr bs \<Longrightarrow> dec bs = Inr (norm x)"
begin

lemma enc_inj: "enc x = Inr bs \<Longrightarrow> enc y = Inr bs \<Longrightarrow> norm x = norm y"
  using dec_enc [of x bs] dec_enc [of y bs] by simp

lemma dec_list_enc: "traverse enc xs = Inr bss \<Longrightarrow> traverse dec bss = Inr (map norm xs)"
proof (induction xs arbitrary: bss)
  case Nil
  then show ?case by simp
next
  case (Cons x xs)
  then show ?case by (auto simp: dec_enc split: sum.splits)
qed

end

locale canonical_codec = codec +
  assumes enc_dec: "dec bs = Inr x \<Longrightarrow> enc x = Inr bs"
begin

lemma dec_inj: "dec bs = Inr x \<Longrightarrow> dec bs' = Inr x \<Longrightarrow> bs = bs'"
  using enc_dec [of bs x] enc_dec [of bs' x] by simp

lemma norm_dec: "dec bs = Inr x \<Longrightarrow> norm x = x"
  using enc_dec [of bs x] dec_enc [of x bs] by simp

lemma dec_iff: "dec bs = Inr x \<longleftrightarrow> enc x = Inr bs \<and> norm x = x"
  using enc_dec [of bs x] dec_enc [of x bs] norm_dec [of bs x] by auto

lemma enc_list_dec: "traverse dec bss = Inr xs \<Longrightarrow> traverse enc xs = Inr bss"
proof (induction bss arbitrary: xs)
  case Nil
  then show ?case by simp
next
  case (Cons bs bss)
  then show ?case by (auto simp: enc_dec split: sum.splits)
qed

end

text \<open>
  Entries of width \<open>w\<close> in a table: the entry decoder reads \<open>w\<close> bytes without checking the length,
  the table's length having been checked before.
\<close>

locale entry_codec = codec +
  fixes w :: nat
  assumes enc_width: "enc x = Inr bs \<Longrightarrow> length bs = w"
    and enc_dec_entry: "length bs = w \<Longrightarrow> dec bs = Inr x \<Longrightarrow> enc x = Inr bs"
begin

lemma enc_list_widths: "traverse enc xs = Inr bss \<Longrightarrow> c \<in> set bss \<Longrightarrow> length c = w"
  by (auto simp: traverse_Inr_iff list_all2_conv_all_nth in_set_conv_nth dest: enc_width)

lemma enc_list_length: "traverse enc xs = Inr bss \<Longrightarrow> length (concat bss) = w * length xs"
  using concat_same_width_length [of bss w] enc_list_widths [of xs bss] traverse_length [of enc xs bss]
  by auto

text \<open>A table of entries survives being written out and walked over entry by entry.\<close>

lemma dec_table:
  assumes "traverse enc xs = Inr bss"
  shows "traverse dec (chunks w (length xs) (concat bss @ rest)) = Inr (map norm xs)"
proof -
  have "length bss = length xs" using assms by (rule traverse_length)
  moreover have "chunks w (length bss) (concat bss @ rest) = bss"
    by (rule chunks_concat) (rule enc_list_widths [OF assms])
  ultimately show ?thesis using dec_list_enc [OF assms] by simp
qed

lemma enc_table:
  assumes len: "length bs = w * n" and dec: "traverse dec (chunks w n bs) = Inr xs"
  shows "\<exists>bss. traverse enc xs = Inr bss \<and> concat bss = bs"
proof -
  have "enc y = Inr c" if "c \<in> set (chunks w n bs)" "dec c = Inr y" for c y
    using that chunks_widths [of w n bs c] len by (intro enc_dec_entry) simp_all
  then have "traverse enc xs = Inr (chunks w n bs)"
    using dec by (auto simp: traverse_Inr_iff list_all2_conv_all_nth)
  then show ?thesis using concat_chunks [of w n bs] len by auto
qed

end

locale record_codec = canonical_codec +
  fixes w :: nat
  assumes enc_record_width: "enc x = Inr bs \<Longrightarrow> length bs = w"

sublocale record_codec \<subseteq> entry_codec enc dec norm w
  by unfold_locales (auto intro: enc_record_width enc_dec)

end
