(* ===== verification/Crc32.thy ===== *)
theory Crc32
  imports Wire
begin

text \<open>
  \<^verbatim>\<open>protocol/src/crc32.cpp\<close>: the bitwise IEEE CRC-32 loop, as the code writes it. The lemmas
  show that one loop iteration is linear over \<open>XOR\<close> and injective, that what happens after a
  difference cannot cancel it, and that a difference confined to four consecutive bytes always
  changes the checksum. The packet decoder rests on the last fact.
\<close>

subsection \<open>The loop\<close>

definition crc_bit :: "u32 \<Rightarrow> u32" where
  "crc_bit crc = (let mask = - (crc AND 1) in drop_bit 1 crc XOR (0xEDB88320 AND mask))"

definition crc_byte :: "u32 \<Rightarrow> byte \<Rightarrow> u32" where
  "crc_byte crc b = (crc_bit ^^ 8) (crc XOR ucast b)"

definition crc32 :: "byte list \<Rightarrow> u32" where
  "crc32 data = NOT (foldl crc_byte 0xFFFFFFFF data)"

subsection \<open>One iteration is linear and injective\<close>

lemma crc_bit_cases: "crc_bit x = drop_bit 1 x XOR (if bit x 0 then 0xEDB88320 else 0)"
proof (cases "bit x 0")
  case True
  then have "x AND 1 = 1" by (simp add: and_one_eq mod_2_eq_odd bit_0)
  with True show ?thesis by (simp add: crc_bit_def)
next
  case False
  then have "x AND 1 = 0" by (simp add: and_one_eq mod_2_eq_odd bit_0)
  with False show ?thesis by (simp add: crc_bit_def)
qed

lemma crc_bit_xor: "crc_bit (x XOR y) = crc_bit x XOR crc_bit y"
  by (simp add: crc_bit_cases drop_bit_xor bit_xor_iff xor.assoc xor.left_commute)

lemma crc_bit_0 [simp]: "crc_bit 0 = 0"
  by (simp add: crc_bit_cases)

lemma crc_bit_eq_0: "crc_bit x = 0 \<Longrightarrow> x = 0"
proof -
  assume z: "crc_bit x = 0"
  have "\<not> bit x 0"
  proof
    assume "bit x 0"
    with z have "drop_bit 1 x = (0xEDB88320 :: u32)"
      by (simp add: crc_bit_cases)
    then have "bit (drop_bit 1 x) 31 = bit (0xEDB88320 :: u32) 31" by simp
    then show False by (auto simp: bit_drop_bit_eq dest: bit_imp_le_length)
  qed
  with z have "drop_bit 1 x = 0" by (simp add: crc_bit_cases)
  show "x = 0"
  proof (rule bit_word_eqI)
    fix n assume "n < LENGTH(32)"
    show "bit x n = bit (0 :: u32) n"
    proof (cases n)
      case 0
      with \<open>\<not> bit x 0\<close> show ?thesis by simp
    next
      case (Suc m)
      have "bit (drop_bit 1 x) m = bit (0 :: u32) m" using \<open>drop_bit 1 x = 0\<close> by simp
      with Suc show ?thesis by (simp add: bit_drop_bit_eq)
    qed
  qed
qed

lemma crc_bits_xor: "(crc_bit ^^ n) (x XOR y) = (crc_bit ^^ n) x XOR (crc_bit ^^ n) y"
  by (induction n) (auto simp: crc_bit_xor)

lemma crc_bits_eq_0: "(crc_bit ^^ n) x = 0 \<Longrightarrow> x = 0"
  by (induction n) (auto dest: crc_bit_eq_0)

subsection \<open>The difference of two runs\<close>

definition diff_byte :: "u32 \<Rightarrow> byte \<Rightarrow> u32" where
  "diff_byte d b = (crc_bit ^^ 8) (d XOR ucast b)"

lemma crc_byte_diff: "crc_byte s a XOR crc_byte t b = diff_byte (s XOR t) (a XOR b)"
proof -
  have "(s XOR ucast a) XOR (t XOR ucast b) = (s XOR t) XOR (ucast (a XOR b) :: u32)"
    by (auto intro!: bit_word_eqI simp: bit_xor_iff bit_ucast_iff)
  then show ?thesis
    by (simp add: crc_byte_def diff_byte_def flip: crc_bits_xor)
qed

lemma crc_run_diff:
  "length a = length b \<Longrightarrow>
   foldl crc_byte s a XOR foldl crc_byte t b =
     foldl diff_byte (s XOR t) (map2 (XOR) a b)"
proof (induction a b arbitrary: s t rule: list_induct2)
  case Nil
  then show ?case by simp
next
  case (Cons x xs y ys)
  then show ?case by (simp add: crc_byte_diff)
qed

lemma diff_run_equal_bytes: "foldl diff_byte d (map2 (XOR) ys ys) = 0 \<Longrightarrow> d = 0"
proof (induction ys arbitrary: d)
  case Nil
  then show ?case by simp
next
  case (Cons y ys)
  then have "diff_byte d 0 = 0" by simp
  then show ?case by (auto simp: diff_byte_def dest: crc_bits_eq_0)
qed

text \<open>The bytes of a burst side by side in the register, the first one lowest.\<close>

fun burst_word :: "byte list \<Rightarrow> u32" where
  "burst_word [] = 0"
| "burst_word (b # bs) = ucast b XOR push_bit 8 (burst_word bs)"

lemma burst_word_bits: "bit (burst_word bs) n \<Longrightarrow> n < 8 * length bs"
proof (induction bs arbitrary: n)
  case Nil
  then show ?case by simp
next
  case (Cons b bs)
  from Cons.prems have "n < 8 \<or> (8 \<le> n \<and> bit (burst_word bs) (n - 8))"
    by (auto simp: bit_xor_iff bit_push_bit_iff bit_byte_placed0)
  then show ?case using Cons.IH by fastforce
qed

lemma crc_bit_push: "\<not> bit w 31 \<Longrightarrow> crc_bit (push_bit 1 w) = w"
proof -
  assume top: "\<not> bit w 31"
  have "drop_bit 1 (push_bit 1 w) = w"
  proof (rule bit_word_eqI)
    fix n assume "n < LENGTH(32)"
    then show "bit (drop_bit 1 (push_bit 1 w)) n = bit w n"
      using top unfolding bit_drop_bit_eq comp_apply bit_push_bit_iff
      by (cases "n = 31") auto
  qed
  moreover have "\<not> bit (push_bit 1 w) 0"
    unfolding bit_push_bit_iff by simp
  ultimately show ?thesis unfolding crc_bit_cases by simp
qed

lemma crc_bits_push: "(\<And>n. bit w n \<Longrightarrow> n + k < 32) \<Longrightarrow> (crc_bit ^^ k) (push_bit k w) = w"
proof (induction k arbitrary: w)
  case 0
  then show ?case by simp
next
  case (Suc k)
  have "\<not> bit (push_bit k w) 31"
    using Suc.prems [of "31 - k"] by (auto simp: bit_push_bit_iff)
  then have "crc_bit (push_bit 1 (push_bit k w)) = push_bit k w"
    by (rule crc_bit_push)
  moreover have "(crc_bit ^^ k) (push_bit k w) = w"
    by (rule Suc.IH) (use Suc.prems in force)
  ultimately show ?case
    by (simp add: funpow_Suc_right push_bit_push_bit del: funpow.simps)
qed

lemma diff_run_burst:
  "length bs \<le> 4 \<Longrightarrow>
   foldl diff_byte d bs = (crc_bit ^^ (8 * length bs)) (d XOR burst_word bs)"
proof (induction bs arbitrary: d)
  case Nil
  then show ?case by simp
next
  case (Cons b bs)
  have low: "(crc_bit ^^ 8) (push_bit 8 (burst_word bs)) = burst_word bs"
  proof (rule crc_bits_push)
    fix n assume "bit (burst_word bs) n"
    then have "n < 8 * length bs" by (rule burst_word_bits)
    with Cons.prems show "n + 8 < 32" by simp
  qed
  have "foldl diff_byte d (b # bs) =
        (crc_bit ^^ (8 * length bs)) (diff_byte d b XOR burst_word bs)"
    using Cons by simp
  also have "diff_byte d b XOR burst_word bs =
        (crc_bit ^^ 8) (d XOR burst_word (b # bs))"
    by (simp add: diff_byte_def crc_bits_xor low xor.assoc)
  finally have "foldl diff_byte d (b # bs) =
      ((crc_bit ^^ (8 * length bs)) \<circ> (crc_bit ^^ 8)) (d XOR burst_word (b # bs))"
    by simp
  then show ?case
    unfolding funpow_add [symmetric] by (simp only: list.size) (simp add: algebra_simps)
qed

lemma burst_word_eq_0:
  "length bs \<le> 4 \<Longrightarrow> burst_word bs = 0 \<Longrightarrow> set bs \<subseteq> {0}"
proof (induction bs)
  case Nil
  then show ?case by simp
next
  case (Cons b bs)
  have bits: "bit (ucast b XOR push_bit 8 (burst_word bs)) n \<longleftrightarrow> False" for n
    using Cons.prems(2) by simp
  have "b = 0"
  proof (rule byte_eqI)
    fix n :: nat assume "n < 8"
    then show "bit b n = bit 0 n"
      using bits [of n] by (simp add: bit_xor_iff bit_push_bit_iff bit_byte_placed0)
  qed
  moreover have "burst_word bs = 0"
  proof (rule bit_word_eqI)
    fix n
    show "bit (burst_word bs) n = bit 0 n"
      using bits [of "n + 8"] burst_word_bits [of bs n] Cons.prems(1)
      by (auto simp: bit_xor_iff bit_push_bit_iff bit_byte_placed0)
  qed
  ultimately show ?case using Cons by simp
qed

lemma map2_xor_zero: "length a = length b \<Longrightarrow> set (map2 (XOR) a b) \<subseteq> {0} \<Longrightarrow> a = (b :: byte list)"
  by (induction a b rule: list_induct2) auto

lemma crc32_burst_differs:
  assumes "length a = length b" and "length a \<le> 4" and "a \<noteq> b"
  shows "crc32 (xs @ a @ ys) \<noteq> crc32 (xs @ b @ ys)"
proof
  assume "crc32 (xs @ a @ ys) = crc32 (xs @ b @ ys)"
  then have same: "foldl crc_byte 0xFFFFFFFF (xs @ a @ ys) XOR
      foldl crc_byte 0xFFFFFFFF (xs @ b @ ys) = 0"
    by (simp add: crc32_def)
  define s where "s = foldl crc_byte 0xFFFFFFFF xs"
  define d where "d = foldl diff_byte 0 (map2 (XOR) a b)"
  have da: "foldl crc_byte s a XOR foldl crc_byte s b = d"
    using crc_run_diff [OF assms(1), of s s] by (simp add: d_def)
  have "foldl diff_byte d (map2 (XOR) ys ys) = 0"
    using same crc_run_diff [of ys ys "foldl crc_byte s a" "foldl crc_byte s b"]
    by (simp add: s_def da flip: s_def)
  then have "d = 0" by (rule diff_run_equal_bytes)
  then have "burst_word (map2 (XOR) a b) = 0"
    using diff_run_burst [of "map2 (XOR) a b" 0] assms(1,2)
    by (auto simp: d_def dest: crc_bits_eq_0)
  then have "set (map2 (XOR) a b) \<subseteq> {0}"
    using assms(1,2) by (intro burst_word_eq_0) auto
  then show False using map2_xor_zero [OF assms(1)] assms(3) by blast
qed

text \<open>Evaluation on concrete bytes; the check value of the published algorithm.\<close>

lemma funpow_8: "(f ^^ 8) x = f (f (f (f (f (f (f (f x)))))))"
  by (simp add: eval_nat_numeral)

lemmas crc_eval = crc32_def crc_byte_def crc_bit_def funpow_8

lemma crc32_check_value: "crc32 [0x31, 0x32, 0x33, 0x34, 0x35, 0x36, 0x37, 0x38, 0x39] = 0xCBF43926"
  by (simp add: crc_eval)

end
