(* ===== verification/Packet.thy ===== *)
theory Packet
  imports Crc32
begin

text \<open>
  \<^verbatim>\<open>protocol/include/remotebsp/protocol/packet.hpp\<close> and \<^verbatim>\<open>protocol/src/packet.cpp\<close>: the version 1
  packet, its 24-byte header and its CRC. A header field of an enumeration type holds any value
  of the underlying integer, as a C++ \<^verbatim>\<open>enum class\<close> does, and \<open>message_type_code\<close> and
  \<open>command_code\<close> give the declared enumerators. Record fields carry the prefix \<open>ph_\<close> of the
  struct they come from.
\<close>

subsection \<open>Constants and data\<close>

definition kProtocolVersion :: byte where
  "kProtocolVersion = 1"

definition kPacketHeaderSize :: nat where
  "kPacketHeaderSize = 24"

definition kMaximumPacketSize :: nat where
  "kMaximumPacketSize = 2048"

definition kMaximumPayloadSize :: nat where
  "kMaximumPayloadSize = kMaximumPacketSize - kPacketHeaderSize"

definition kErrorResponseFlag :: u16 where
  "kErrorResponseFlag = 0x0001"

lemmas packet_consts = kProtocolVersion_def kPacketHeaderSize_def kMaximumPacketSize_def
  kMaximumPayloadSize_def kErrorResponseFlag_def

datatype message_type = Request | Response | Event

fun message_type_code :: "message_type \<Rightarrow> byte" where
  "message_type_code Request = 1"
| "message_type_code Response = 2"
| "message_type_code Event = 3"

datatype command =
    DiscoveryRequest | DiscoveryResponse | NodeAssign | Heartbeat
  | GetInfo | GetCapability | Ping | BootloaderEnter | BootloaderEnterUsb
  | ResourceEnum | ResourceDescribe | ResourceStatus | ResourceReset | ResourceContract
  | ResourceAcquire | ResourceRenew | ResourceRelease | ResourceLeaseStatus
  | GpioCreate | GpioRead | GpioWrite
  | UartCreate | UartRead | UartWrite | UartRxEvent
  | MotionEnqueue | MotionStatus | MotionAbort | MotionClearFault

fun command_code :: "command \<Rightarrow> u16" where
  "command_code DiscoveryRequest = 0x0001"
| "command_code DiscoveryResponse = 0x0002"
| "command_code NodeAssign = 0x0003"
| "command_code Heartbeat = 0x0004"
| "command_code GetInfo = 0x0010"
| "command_code GetCapability = 0x0011"
| "command_code Ping = 0x0012"
| "command_code BootloaderEnter = 0x0013"
| "command_code BootloaderEnterUsb = 0x0014"
| "command_code ResourceEnum = 0x0030"
| "command_code ResourceDescribe = 0x0031"
| "command_code ResourceStatus = 0x0032"
| "command_code ResourceReset = 0x0033"
| "command_code ResourceContract = 0x0034"
| "command_code ResourceAcquire = 0x0035"
| "command_code ResourceRenew = 0x0036"
| "command_code ResourceRelease = 0x0037"
| "command_code ResourceLeaseStatus = 0x0038"
| "command_code GpioCreate = 0x0100"
| "command_code GpioRead = 0x0101"
| "command_code GpioWrite = 0x0102"
| "command_code UartCreate = 0x0200"
| "command_code UartRead = 0x0201"
| "command_code UartWrite = 0x0202"
| "command_code UartRxEvent = 0x0280"
| "command_code MotionEnqueue = 0x0900"
| "command_code MotionStatus = 0x0901"
| "command_code MotionAbort = 0x0902"
| "command_code MotionClearFault = 0x0903"

record packet_header =
  ph_version :: byte
  ph_message_type :: byte
  ph_command :: u16
  ph_session_id :: u32
  ph_request_id :: u32
  ph_object_id :: u32
  ph_payload_length :: u16
  ph_flags :: u16
  ph_crc :: u32

record packet =
  header :: packet_header
  payload :: "byte list"

text \<open>The default member initialisers of the two structs.\<close>

definition default_header :: packet_header where
  "default_header = \<lparr>ph_version = kProtocolVersion, ph_message_type = message_type_code Request,
     ph_command = 0, ph_session_id = 0, ph_request_id = 0, ph_object_id = 0,
     ph_payload_length = 0, ph_flags = 0, ph_crc = 0\<rparr>"

definition default_packet :: packet where
  "default_packet = \<lparr>header = default_header, payload = []\<rparr>"

datatype packet_error =
  TooShort | TooLarge | UnsupportedVersion | InvalidMessageType | LengthMismatch | CrcMismatch

subsection \<open>Encoder and decoder\<close>

definition valid_message_type :: "byte \<Rightarrow> bool" where
  "valid_message_type value \<longleftrightarrow>
     message_type_code Request \<le> value \<and> value \<le> message_type_code Event"

definition write_header_without_crc :: "packet_header \<Rightarrow> byte list" where
  "write_header_without_crc h =
     [ph_version h, ph_message_type h] @ put_u16 (ph_command h) @ put_u32 (ph_session_id h) @
     put_u32 (ph_request_id h) @ put_u32 (ph_object_id h) @ put_u16 (ph_payload_length h) @
     put_u16 (ph_flags h)"

definition encode :: "packet \<Rightarrow> packet_error + byte list" where
  "encode p =
     (if ph_version (header p) \<noteq> kProtocolVersion then Inl UnsupportedVersion
      else if \<not> valid_message_type (ph_message_type (header p)) then Inl InvalidMessageType
      else if length (payload p) > kMaximumPayloadSize \<or> length (payload p) > 65535
        then Inl TooLarge
      else let h = (header p)\<lparr>ph_payload_length := word_of_nat (length (payload p))\<rparr>;
               crc_input = write_header_without_crc h @ payload p
           in Inr (write_header_without_crc h @ put_u32 (crc32 crc_input) @ payload p))"

definition decode :: "byte list \<Rightarrow> packet_error + packet" where
  "decode data =
     (if length data < kPacketHeaderSize then Inl TooShort
      else if length data > kMaximumPacketSize then Inl TooLarge
      else if data ! 0 \<noteq> kProtocolVersion then Inl UnsupportedVersion
      else if \<not> valid_message_type (data ! 1) then Inl InvalidMessageType
      else let payload_length = get_u16 (drop 16 data) in
        if length data \<noteq> kPacketHeaderSize + unat payload_length then Inl LengthMismatch
        else let crc_input = take 20 data @ drop kPacketHeaderSize data;
                 expected_crc = crc32 crc_input;
                 received_crc = get_u32 (drop 20 data) in
          if expected_crc \<noteq> received_crc then Inl CrcMismatch
          else Inr \<lparr>header =
                     \<lparr>ph_version = data ! 0, ph_message_type = data ! 1,
                      ph_command = get_u16 (drop 2 data), ph_session_id = get_u32 (drop 4 data),
                      ph_request_id = get_u32 (drop 8 data),
                      ph_object_id = get_u32 (drop 12 data),
                      ph_payload_length = payload_length, ph_flags = get_u16 (drop 18 data),
                      ph_crc = received_crc\<rparr>,
                    payload = drop kPacketHeaderSize data\<rparr>)"

subsection \<open>What the encoder accepts and produces\<close>

text \<open>What the receiver sees of a packet: the length and the CRC are those of the wire.\<close>

definition sealed :: "packet \<Rightarrow> packet" where
  "sealed p =
     (let h = (header p)\<lparr>ph_payload_length := word_of_nat (length (payload p))\<rparr>
      in p\<lparr>header := h\<lparr>ph_crc := crc32 (write_header_without_crc h @ payload p)\<rparr>\<rparr>)"

definition encodable :: "packet \<Rightarrow> bool" where
  "encodable p \<longleftrightarrow> ph_version (header p) = 1 \<and>
     ph_message_type (header p) \<in> {1, 2, 3} \<and> length (payload p) \<le> 2024"

lemma valid_message_type_iff: "valid_message_type v \<longleftrightarrow> v \<in> {1, 2, 3}"
proof -
  have "1 \<le> v \<and> v \<le> 3 \<longleftrightarrow> 1 \<le> unat v \<and> unat v \<le> 3"
    by (simp add: word_le_nat_alt)
  also have "\<dots> \<longleftrightarrow> unat v \<in> {1, 2, 3}" by auto
  also have "\<dots> \<longleftrightarrow> v \<in> {1, 2, 3}"
    by (auto simp flip: word_unat_eq_iff simp: word_unat_eq_iff)
  finally show ?thesis by (simp add: valid_message_type_def)
qed

lemma length_header [simp]: "length (write_header_without_crc h) = 20"
  by (simp add: write_header_without_crc_def)

lemma header_ignores_crc [simp]:
  "write_header_without_crc (h\<lparr>ph_crc := c\<rparr>) = write_header_without_crc h"
  by (simp add: write_header_without_crc_def)

lemma encode_eq:
  "encodable p \<Longrightarrow>
   encode p = Inr (write_header_without_crc (header (sealed p)) @
                   put_u32 (ph_crc (header (sealed p))) @ payload p)"
  by (simp add: encodable_def encode_def sealed_def packet_consts valid_message_type_iff Let_def)

lemma encode_Inr_encodable: "encode p = Inr bs \<Longrightarrow> encodable p"
  by (auto simp: encodable_def encode_def packet_consts valid_message_type_iff split: if_splits)

lemma encode_length: "encode p = Inr bs \<Longrightarrow> length bs = 24 + length (payload p)"
  using encode_eq [OF encode_Inr_encodable] by fastforce

lemma encode_length_le: "encode p = Inr bs \<Longrightarrow> length bs \<le> kMaximumPacketSize"
  using encode_length [of p bs] encode_Inr_encodable [of p bs]
  by (simp add: encodable_def packet_consts)

subsection \<open>The two laws of the codec\<close>

lemma unat_payload_length:
  "length xs \<le> 2024 \<Longrightarrow> unat (word_of_nat (length xs) :: u16) = length xs"
  by (simp add: unat_of_nat_small)

lemma decode_encode:
  assumes "encode p = Inr bs"
  shows "decode bs = Inr (sealed p)"
proof -
  have e: "encodable p" using assms by (rule encode_Inr_encodable)
  define h where "h = (header p)\<lparr>ph_payload_length := word_of_nat (length (payload p))\<rparr>"
  define c where "c = crc32 (write_header_without_crc h @ payload p)"
  have bs: "bs = write_header_without_crc h @ put_u32 c @ payload p"
    using assms encode_eq [OF e] by (simp add: sealed_def Let_def h_def c_def)
  have len: "unat (ph_payload_length h) = length (payload p)"
    using e by (simp add: h_def encodable_def unat_payload_length)
  have ver: "ph_version h = 1" and mt: "ph_message_type h \<in> {1, 2, 3}"
    using e by (simp_all add: h_def encodable_def)
  have fields: "bs ! 0 = ph_version h" "bs ! 1 = ph_message_type h"
    "get_u16 (drop 2 bs) = ph_command h" "get_u32 (drop 4 bs) = ph_session_id h"
    "get_u32 (drop 8 bs) = ph_request_id h" "get_u32 (drop 12 bs) = ph_object_id h"
    "get_u16 (drop 16 bs) = ph_payload_length h" "get_u16 (drop 18 bs) = ph_flags h"
    "get_u32 (drop 20 bs) = c" "take 20 bs = write_header_without_crc h"
    "drop 24 bs = payload p"
    by (simp_all add: bs write_header_without_crc_def)
  have "sealed p = \<lparr>header = h\<lparr>ph_crc := c\<rparr>, payload = payload p\<rparr>"
    by (simp add: sealed_def Let_def h_def c_def)
  then show ?thesis
    using e len ver mt fields
    by (simp add: decode_def packet_consts valid_message_type_iff Let_def encodable_def c_def
        bs del: sealed_def)
qed

lemma write_header_read:
  assumes "24 \<le> length bs"
  shows "write_header_without_crc
     \<lparr>ph_version = bs ! 0, ph_message_type = bs ! 1, ph_command = get_u16 (drop 2 bs),
      ph_session_id = get_u32 (drop 4 bs), ph_request_id = get_u32 (drop 8 bs),
      ph_object_id = get_u32 (drop 12 bs), ph_payload_length = get_u16 (drop 16 bs),
      ph_flags = get_u16 (drop 18 bs), ph_crc = c\<rparr> = take 20 bs"
  using assms
  by (simp add: write_header_without_crc_def put_get_at join_simps)

lemma decode_InrD:
  assumes "decode bs = Inr p"
  shows "24 \<le> length bs" and "length bs \<le> 2048"
    and "bs ! 0 = 1" and "valid_message_type (bs ! 1)"
    and "length bs = 24 + unat (get_u16 (drop 16 bs))"
    and "crc32 (take 20 bs @ drop 24 bs) = get_u32 (drop 20 bs)"
    and "p = \<lparr>header =
         \<lparr>ph_version = bs ! 0, ph_message_type = bs ! 1,
          ph_command = get_u16 (drop 2 bs), ph_session_id = get_u32 (drop 4 bs),
          ph_request_id = get_u32 (drop 8 bs), ph_object_id = get_u32 (drop 12 bs),
          ph_payload_length = get_u16 (drop 16 bs), ph_flags = get_u16 (drop 18 bs),
          ph_crc = get_u32 (drop 20 bs)\<rparr>, payload = drop 24 bs\<rparr>"
proof -
  note all = assms [unfolded decode_def packet_consts Let_def guard_Inr_iff not_less not_not
      sum.inject]
  show "24 \<le> length bs" and "length bs \<le> 2048" and "bs ! 0 = 1"
    and "valid_message_type (bs ! 1)" and "length bs = 24 + unat (get_u16 (drop 16 bs))"
    and "crc32 (take 20 bs @ drop 24 bs) = get_u32 (drop 20 bs)"
    using all by - (elim conjE; assumption)+
  show "p = \<lparr>header =
         \<lparr>ph_version = bs ! 0, ph_message_type = bs ! 1,
          ph_command = get_u16 (drop 2 bs), ph_session_id = get_u32 (drop 4 bs),
          ph_request_id = get_u32 (drop 8 bs), ph_object_id = get_u32 (drop 12 bs),
          ph_payload_length = get_u16 (drop 16 bs), ph_flags = get_u16 (drop 18 bs),
          ph_crc = get_u32 (drop 20 bs)\<rparr>, payload = drop 24 bs\<rparr>"
    using all by - (elim conjE; erule sym)
qed

lemma encode_decode:
  assumes "decode bs = Inr p"
  shows "encode p = Inr bs"
proof -
  note d = decode_InrD [OF assms]
  note len = d(1,2) and plen = d(5) and crc = d(6) and p = d(7)
  have mt: "bs ! 0 = 1" "bs ! 1 \<in> {1, 2, 3}"
    using d(3,4) by (simp_all only: valid_message_type_iff)
  have same: "(word_of_nat (length (payload p)) :: u16) = ph_payload_length (header p)"
    using plen by (simp add: p del: drop_all)
  have e: "encodable p"
    using len mt by (auto simp: p encodable_def)
  have hdr: "write_header_without_crc (header p) = take 20 bs"
    unfolding p using write_header_read [OF len(1)] by simp
  have "header p\<lparr>ph_payload_length := ph_payload_length (header p)\<rparr> = header p" by simp
  then have "write_header_without_crc (header (sealed p)) = take 20 bs"
    and "ph_crc (header (sealed p)) = crc32 (take 20 bs @ drop 24 bs)"
    unfolding sealed_def Let_def same by (simp_all add: hdr) (simp add: p)
  then have "encode p = Inr (take 20 bs @ put_u32 (get_u32 (drop 20 bs)) @ drop 24 bs)"
    using encode_eq [OF e] crc by (simp add: p)
  also have "\<dots> = Inr bs"
    using len by (simp add: put_get_at join_simps)
  finally show ?thesis .
qed

interpretation packet_wire: canonical_codec encode decode sealed
  by unfold_locales (auto intro: decode_encode encode_decode)

subsection \<open>Properties\<close>

text \<open>
  C1. The encoder accepts exactly the well-formed packets, produces 24 bytes plus the payload, and
  the decoder gives back the packet with the length and CRC fields filled in.
\<close>

theorem packet_roundtrip:
  "encodable p \<longleftrightarrow>
   (\<exists>bs. encode p = Inr bs \<and> decode bs = Inr (sealed p) \<and>
         length bs = 24 + length (payload p) \<and> length bs \<le> kMaximumPacketSize)"
  using encode_eq [of p] decode_encode [of p] encode_length [of p] encode_length_le [of p]
    encode_Inr_encodable [of p]
  by blast

text \<open>
  The decoder accepts a byte sequence only as the encoding of the packet it returns: no two
  sequences decode to the same packet, and what it returns has its length and CRC in place.
\<close>

theorem packet_canonical: "decode bs = Inr p \<longleftrightarrow> encode p = Inr bs \<and> sealed p = p"
  by (rule packet_wire.dec_iff)

text \<open>
  C2. Corruption is detected: if the CRC field arrives intact and the other bytes of an encoded
  packet differ from the original in a window of at most four consecutive protected bytes (header
  bytes 0 to 19 followed by the payload), the decoder throws.
\<close>

theorem decode_rejects_burst:
  assumes enc: "encode p = Inr bs"
    and intact: "length bs' = length bs" "get_u32 (drop 20 bs') = get_u32 (drop 20 bs)"
    and sent: "take 20 bs @ drop 24 bs = xs @ a @ ys"
    and received: "take 20 bs' @ drop 24 bs' = xs @ b @ ys"
    and burst: "length a = length b" "length a \<le> 4" "a \<noteq> b"
  shows "\<exists>e. decode bs' = Inl e"
proof (cases "decode bs'")
  case (Inr q)
  have "crc32 (take 20 bs' @ drop 24 bs') = get_u32 (drop 20 bs')"
    using Inr by (rule decode_InrD(6))
  moreover have "crc32 (take 20 bs @ drop 24 bs) = get_u32 (drop 20 bs)"
    using decode_encode [OF enc] by (rule decode_InrD(6))
  ultimately have "crc32 (xs @ a @ ys) = crc32 (xs @ b @ ys)"
    using intact sent received by simp
  then show ?thesis using crc32_burst_differs [OF burst] by blast
qed simp

text \<open>
  A ping of session 1 with payload 7, used by the witnesses. The hypotheses of the theorem hold
  when its payload byte is damaged to 9.
\<close>

lemma ping_crc: "crc32 [1, 1, 0x12, 0, 1, 0, 0, 0, 2, 0, 0, 0, 0, 0, 0, 0, 1, 0, 0, 0, 7] = 0x98B182B3"
  by (simp add: crc_eval)

lemma ping_encoded:
  "encode \<lparr>header = default_header\<lparr>ph_command := command_code Ping, ph_session_id := 1,
             ph_request_id := 2\<rparr>, payload = [7]\<rparr> =
   Inr [1, 1, 0x12, 0, 1, 0, 0, 0, 2, 0, 0, 0, 0, 0, 0, 0, 1, 0, 0, 0, 0xb3, 0x82, 0xb1, 0x98, 7]"
  by (simp add: encode_def packet_consts default_header_def valid_message_type_def
      write_header_without_crc_def put_u16_def put_u32_bytes ping_crc)

theorem decode_rejects_burst_witness:
  "\<exists>e. decode [1, 1, 0x12, 0, 1, 0, 0, 0, 2, 0, 0, 0, 0, 0, 0, 0, 1, 0, 0, 0,
                0xb3, 0x82, 0xb1, 0x98, 9] = Inl e"
  by (rule decode_rejects_burst [OF ping_encoded, where xs = "[1, 1, 0x12, 0, 1, 0, 0, 0, 2, 0, 0,
        0, 0, 0, 0, 0, 1, 0, 0, 0]" and a = "[7]" and b = "[9]" and ys = "[]"]) (simp_all add: get_u32_def)

end
