(* ===== verification/Request_Manager.thy ===== *)
theory Request_Manager
  imports Packet
begin

text \<open>
  \<^verbatim>\<open>toolbusd/include/remotebsp/toolbusd/request_manager.hpp\<close> and
  \<^verbatim>\<open>toolbusd/src/request_manager.cpp\<close>: request ids, retries, time-outs and duplicate detection
  of responses. \<^verbatim>\<open>pending_\<close> and \<^verbatim>\<open>completed_\<close> are keyed by session and request id. The lemmas
  give the invariant, fresh id allocation, at most one match per request, and the sequence of
  retries that ends in a time-out.
\<close>

subsection \<open>State\<close>

datatype request_manager_error = RM_InvalidConfiguration | RM_NotRequest | RM_RequestIdExhausted

datatype request_event_type = Retry | TimedOut

record request_event =
  re_type :: request_event_type
  re_session_id :: u32
  re_request_id :: u32
  re_packet :: "packet option"

datatype response_status = Matched | RS_Duplicate | Unexpected

record pending_request =
  pr_packet :: packet
  pr_deadline :: time
  pr_retries_remaining :: nat

record request_manager =
  rm_timeout :: time
  rm_maximum_retries :: nat
  rm_duplicate_window :: time
  rm_next_request_id :: u32
  rm_pending :: "(u64, pending_request) hmap"
  rm_completed :: "(u64, time) hmap"

definition request_manager_new ::
  "time \<Rightarrow> nat \<Rightarrow> time \<Rightarrow> request_manager_error + request_manager" where
  "request_manager_new timeout retries window =
     (if timeout \<le> 0 \<or> window \<le> 0 then Inl RM_InvalidConfiguration
      else Inr \<lparr>rm_timeout = timeout, rm_maximum_retries = retries, rm_duplicate_window = window,
                rm_next_request_id = 1, rm_pending = [], rm_completed = []\<rparr>)"

subsection \<open>Operations\<close>

definition request_key :: "u32 \<Rightarrow> u32 \<Rightarrow> u64" where
  "request_key session_id request_id = push_bit 32 (ucast session_id) OR ucast request_id"

definition completed_stale :: "time \<Rightarrow> time \<Rightarrow> bool" where
  "completed_stale now until_time \<longleftrightarrow> now \<ge> until_time"

definition expire_completed :: "time \<Rightarrow> request_manager \<Rightarrow> request_manager" where
  "expire_completed now m =
     m\<lparr>rm_completed := snd (hexpire (completed_stale now) (rm_completed m))\<rparr>"

definition remember_completed :: "u64 \<Rightarrow> time \<Rightarrow> request_manager \<Rightarrow> request_manager" where
  "remember_completed k now m =
     m\<lparr>rm_completed := hput k (now + rm_duplicate_window m) (rm_completed m)\<rparr>"

text \<open>The counter's increment, which skips zero.\<close>

definition next_id :: "u32 \<Rightarrow> u32" where
  "next_id candidate = (if candidate + 1 = 0 then 1 else candidate + 1)"

text \<open>The allocation loop with \<open>n\<close> attempts left; it returns the counter as well.\<close>

fun allocate_loop ::
  "nat \<Rightarrow> (u32 \<Rightarrow> bool) \<Rightarrow> u32 \<Rightarrow> (request_manager_error + u32) \<times> u32" where
  "allocate_loop 0 used counter = (Inl RM_RequestIdExhausted, counter)"
| "allocate_loop (Suc n) used counter =
     (let candidate = counter; counter' = next_id counter in
      if \<not> used candidate then (Inr candidate, counter')
      else allocate_loop n used counter')"

definition maximum_attempts :: nat where
  "maximum_attempts = 2 ^ 32 - 1"

definition allocate_request_id ::
  "u32 \<Rightarrow> request_manager \<Rightarrow> (request_manager_error + u32) \<times> request_manager" where
  "allocate_request_id session_id m =
     (let used = (\<lambda>candidate. let k = request_key session_id candidate in
                    map_of (rm_pending m) k \<noteq> None \<or> map_of (rm_completed m) k \<noteq> None);
          (r, counter) = allocate_loop maximum_attempts used (rm_next_request_id m)
      in (r, m\<lparr>rm_next_request_id := counter\<rparr>))"

definition submit ::
  "packet \<Rightarrow> time \<Rightarrow> request_manager \<Rightarrow>
   (request_manager_error + u32 \<times> packet) \<times> request_manager" where
  "submit request now m =
     (let m1 = expire_completed now m in
      if ph_message_type (header request) \<noteq> message_type_code Request
      then (Inl RM_NotRequest, m1)
      else case allocate_request_id (ph_session_id (header request)) m1 of
          (Inl e, m2) \<Rightarrow> (Inl e, m2)
        | (Inr rid, m2) \<Rightarrow>
            let request' = request\<lparr>header := (header request)\<lparr>ph_request_id := rid\<rparr>\<rparr>;
                k = request_key (ph_session_id (header request')) rid
            in (Inr (rid, request'),
                m2\<lparr>rm_pending := hemplace k
                     \<lparr>pr_packet = request', pr_deadline = now + rm_timeout m2,
                      pr_retries_remaining = rm_maximum_retries m2\<rparr> (rm_pending m2)\<rparr>))"

definition creates_object :: "packet \<Rightarrow> bool" where
  "creates_object request \<longleftrightarrow>
     ph_command (header request) = command_code GpioCreate \<or>
     ph_command (header request) = command_code UartCreate"

definition object_matches :: "packet \<Rightarrow> packet \<Rightarrow> bool" where
  "object_matches request response \<longleftrightarrow>
     (if creates_object request
      then (if ph_flags (header response) AND kErrorResponseFlag \<noteq> 0
            then ph_object_id (header response) = ph_object_id (header request)
            else ph_object_id (header request) = 0 \<and> ph_object_id (header response) \<noteq> 0)
      else ph_object_id (header request) = ph_object_id (header response))"

definition accept_response ::
  "packet \<Rightarrow> time \<Rightarrow> request_manager \<Rightarrow>
   (response_status \<times> packet option) \<times> request_manager" where
  "accept_response response now m =
     (let m1 = expire_completed now m in
      if ph_message_type (header response) \<noteq> message_type_code Response
      then ((Unexpected, None), m1)
      else let k = request_key (ph_session_id (header response)) (ph_request_id (header response)) in
        (case map_of (rm_pending m1) k of
           None \<Rightarrow>
             if map_of (rm_completed m1) k \<noteq> None then ((RS_Duplicate, None), m1)
             else ((Unexpected, None), m1)
         | Some p \<Rightarrow>
             if ph_command (header (pr_packet p)) \<noteq> ph_command (header response) \<or>
                \<not> object_matches (pr_packet p) response
             then ((Unexpected, None), m1)
             else ((Matched, Some response),
                   remember_completed k now (m1\<lparr>rm_pending := herase k (rm_pending m1)\<rparr>))))"

text \<open>The loop of \<^verbatim>\<open>poll\<close>: events, what stays pending, and the completed map.\<close>

fun poll_loop ::
  "time \<Rightarrow> time \<Rightarrow> time \<Rightarrow> (u64, pending_request) hmap \<Rightarrow> (u64, time) hmap \<Rightarrow>
   request_event list \<times> (u64, pending_request) hmap \<times> (u64, time) hmap" where
  "poll_loop timeout window now [] completed = ([], [], completed)"
| "poll_loop timeout window now ((k, p) # rest) completed =
     (if now < pr_deadline p
      then let (events, kept, completed') = poll_loop timeout window now rest completed
           in (events, (k, p) # kept, completed')
      else if pr_retries_remaining p > 0
      then let p' = p\<lparr>pr_retries_remaining := pr_retries_remaining p - 1,
                      pr_deadline := now + timeout\<rparr>;
               (events, kept, completed') = poll_loop timeout window now rest completed
           in (\<lparr>re_type = Retry, re_session_id = ph_session_id (header (pr_packet p)),
                re_request_id = ph_request_id (header (pr_packet p)),
                re_packet = Some (pr_packet p)\<rparr> # events, (k, p') # kept, completed')
      else let (events, kept, completed') =
                 poll_loop timeout window now rest (hput k (now + window) completed)
           in (\<lparr>re_type = TimedOut, re_session_id = ucast (drop_bit 32 k),
                re_request_id = ph_request_id (header (pr_packet p)), re_packet = None\<rparr> # events,
               kept, completed'))"

definition poll :: "time \<Rightarrow> request_manager \<Rightarrow> request_event list \<times> request_manager" where
  "poll now m =
     (let m1 = expire_completed now m;
          (events, kept, completed) =
            poll_loop (rm_timeout m1) (rm_duplicate_window m1) now (rm_pending m1) (rm_completed m1)
      in (events, m1\<lparr>rm_pending := kept, rm_completed := completed\<rparr>))"

definition cancel :: "u32 \<Rightarrow> u32 \<Rightarrow> request_manager \<Rightarrow> bool \<times> request_manager" where
  "cancel session_id request_id m =
     (let k = request_key session_id request_id in
      (map_of (rm_pending m) k \<noteq> None, m\<lparr>rm_pending := herase k (rm_pending m)\<rparr>))"

definition pending_count :: "request_manager \<Rightarrow> nat" where
  "pending_count m = length (rm_pending m)"

definition completed_count :: "request_manager \<Rightarrow> nat" where
  "completed_count m = length (rm_completed m)"

interpretation completed: expiring completed_stale
  by unfold_locales (auto simp: completed_stale_def)

subsection \<open>Keys\<close>

lemma request_key_inject [simp]:
  "request_key s r = request_key s' r' \<longleftrightarrow> s = s' \<and> r = r'"
proof
  assume eq: "request_key s r = request_key s' r'"
  have bits: "bit (request_key s r) n \<longleftrightarrow> (if n < 32 then bit r n else n < 64 \<and> bit s (n - 32))"
    for s r n
    by (auto simp: request_key_def bit_simps dest: bit_imp_le_length)
  have "s = s'"
  proof (rule bit_word_eqI)
    fix n assume "n < LENGTH(32)"
    then show "bit s n = bit s' n"
      using bits [of s r "n + 32"] bits [of s' r' "n + 32"] eq by simp
  qed
  moreover have "r = r'"
  proof (rule bit_word_eqI)
    fix n assume "n < LENGTH(32)"
    then show "bit r n = bit r' n"
      using bits [of s r n] bits [of s' r' n] eq by simp
  qed
  ultimately show "s = s' \<and> r = r'" by simp
qed simp

lemma request_key_session [simp]: "ucast (drop_bit 32 (request_key s r)) = s"
  by (rule bit_word_eqI) (auto simp: request_key_def bit_simps dest: bit_imp_le_length)

lemma expire_completed_fields [simp]:
  "rm_timeout (expire_completed now m) = rm_timeout m"
  "rm_maximum_retries (expire_completed now m) = rm_maximum_retries m"
  "rm_duplicate_window (expire_completed now m) = rm_duplicate_window m"
  "rm_next_request_id (expire_completed now m) = rm_next_request_id m"
  "rm_pending (expire_completed now m) = rm_pending m"
  "rm_completed (expire_completed now m) =
     snd (hexpire (completed_stale now) (rm_completed m))"
  by (simp_all add: expire_completed_def)

subsection \<open>Allocation\<close>

lemma unat_u32_less: "unat (w :: u32) < 4294967296"
  by (rule order_less_le_trans [OF unsigned_less]) simp

lemma next_id_nonzero [simp]: "next_id c \<noteq> 0"
  by (simp add: next_id_def)

lemma next_id_iterate:
  assumes "c \<noteq> 0"
  shows "unat ((next_id ^^ k) c) = (unat c - 1 + k) mod (2 ^ 32 - 1) + 1"
proof (induction k)
  case 0
  have "0 < unat c" using assms by (simp add: unat_gt_0)
  then show ?case using unat_u32_less [of c] by simp
next
  case (Suc k)
  define d where "d = (next_id ^^ k) c"
  have step: "unat (next_id d) = unat d mod (2 ^ 32 - 1) + 1"
  proof (cases "d = -1")
    case True
    then show ?thesis by (simp add: next_id_def unsigned_minus_1_eq_mask mask_eq_exp_minus_1)
  next
    case False
    then have "d + 1 \<noteq> 0" by (metis add.right_inverse add_right_cancel add.commute add_eq_0_iff)
    moreover have "unat d < 2 ^ 32 - 1"
    proof -
      have "unat d \<noteq> unat (-1 :: u32)" using False by (simp add: word_unat_eq_iff)
      then show ?thesis
        using unat_u32_less [of d] by (simp add: unsigned_minus_1_eq_mask mask_eq_exp_minus_1)
    qed
    ultimately show ?thesis
      by (simp add: next_id_def unat_word_ariths unat_plus_if')
  qed
  have "unat ((next_id ^^ Suc k) c) = unat d mod (2 ^ 32 - 1) + 1"
    using step by (simp add: d_def)
  also have "unat d = (unat c - 1 + k) mod (2 ^ 32 - 1) + 1" using Suc by (simp add: d_def)
  also have "\<dots> mod (2 ^ 32 - 1) = (unat c - 1 + Suc k) mod (2 ^ 32 - 1)"
    by (simp add: mod_Suc_eq)
  finally show ?case .
qed

lemma next_id_reaches:
  assumes "c \<noteq> 0" and "x \<noteq> 0"
  shows "\<exists>k < maximum_attempts. (next_id ^^ k) c = x"
proof -
  define N :: nat where "N = 2 ^ 32 - 1"
  have ux: "0 < unat x" "unat x \<le> N" and uc: "0 < unat c" "unat c \<le> N"
    using assms unat_u32_less [of x] unat_u32_less [of c] by (simp_all add: unat_gt_0 N_def)
  define k where "k = (unat x - 1 + (N - (unat c - 1))) mod N"
  have N0: "0 < N" by (simp add: N_def)
  have "(unat c - 1 + k) mod N = (unat c - 1 + (unat x - 1 + (N - (unat c - 1)))) mod N"
    unfolding k_def by (rule mod_add_right_eq)
  also have "unat c - 1 + (unat x - 1 + (N - (unat c - 1))) = (unat x - 1) + N"
    using ux uc by simp
  also have "\<dots> mod N = unat x - 1"
    unfolding mod_add_self2 using ux by (intro mod_less) linarith
  finally have "unat ((next_id ^^ k) c) = unat x"
    using next_id_iterate [OF assms(1), of k] ux by (simp add: N_def)
  then have "(next_id ^^ k) c = x" by (simp add: word_unat_eq_iff)
  moreover have "k < maximum_attempts" using N0 by (simp add: k_def maximum_attempts_def N_def)
  ultimately show ?thesis by blast
qed

lemma allocate_loop_fails:
  "allocate_loop n used c = (Inl e, c') \<Longrightarrow> k < n \<Longrightarrow> used ((next_id ^^ k) c)"
proof (induction n arbitrary: c k)
  case 0
  then show ?case by simp
next
  case (Suc n)
  then have "used c" and "allocate_loop n used (next_id c) = (Inl e, c')"
    by (auto simp: Let_def split: if_splits)
  with Suc show ?case
    by (cases k) (auto simp: funpow_Suc_right simp del: funpow.simps(2))
qed

lemma allocate_loop_result:
  "allocate_loop n used c = (Inr i, c') \<Longrightarrow> c \<noteq> 0 \<Longrightarrow> \<not> used i \<and> i \<noteq> 0 \<and> c' \<noteq> 0"
  by (induction n arbitrary: c) (auto simp: Let_def split: if_splits)

lemma allocate_loop_error: "allocate_loop n used c = (Inl e, c') \<Longrightarrow> e = RM_RequestIdExhausted"
  by (induction n arbitrary: c) (auto simp: Let_def split: if_splits)

lemma allocate_loop_counter: "c \<noteq> 0 \<Longrightarrow> snd (allocate_loop n used c) \<noteq> 0"
  by (induction n arbitrary: c) (auto simp: Let_def)

lemma allocate_counter:
  "rm_next_request_id m \<noteq> 0 \<Longrightarrow>
   \<exists>c. c \<noteq> 0 \<and> snd (allocate_request_id s m) = m\<lparr>rm_next_request_id := c\<rparr>"
  using allocate_loop_counter [of "rm_next_request_id m"]
  unfolding allocate_request_id_def by (auto simp: Let_def split_beta)

lemma card_nonzero_u32: "card {x :: u32. x \<noteq> 0} = maximum_attempts"
proof -
  have "{x :: u32. x \<noteq> 0} = UNIV - {0}" by auto
  then show ?thesis by (simp add: card_Diff_singleton card_word maximum_attempts_def)
qed

lemma allocation_succeeds:
  assumes "rm_next_request_id m \<noteq> 0"
    and room: "pending_count m + completed_count m < maximum_attempts"
  shows "\<exists>i m'. allocate_request_id s m = (Inr i, m')"
proof -
  define used where "used = (\<lambda>candidate. let k = request_key s candidate in
      map_of (rm_pending m) k \<noteq> None \<or> map_of (rm_completed m) k \<noteq> None)"
  obtain r c' where loop: "allocate_loop maximum_attempts used (rm_next_request_id m) = (r, c')"
    by (cases "allocate_loop maximum_attempts used (rm_next_request_id m)")
  have "r \<noteq> Inl e" for e
  proof
    assume "r = Inl e"
    have "used x" if "x \<noteq> 0" for x
      using next_id_reaches [OF assms(1) that] allocate_loop_fails [OF loop [unfolded \<open>r = Inl e\<close>]]
      by blast
    then have "request_key s ` {x. x \<noteq> 0} \<subseteq> set (hkeys (rm_pending m)) \<union> set (hkeys (rm_completed m))"
      by (auto simp: used_def Let_def map_of_eq_None_iff)
    then have "card (request_key s ` {x. x \<noteq> 0}) \<le>
        card (set (hkeys (rm_pending m)) \<union> set (hkeys (rm_completed m)))"
      by (intro card_mono) auto
    also have "\<dots> \<le> card (set (hkeys (rm_pending m))) + card (set (hkeys (rm_completed m)))"
      by (rule card_Un_le)
    also have "\<dots> \<le> pending_count m + completed_count m"
      unfolding pending_count_def completed_count_def
      by (intro add_mono order_trans [OF card_length]) simp_all
    finally have "maximum_attempts \<le> pending_count m + completed_count m"
      by (simp add: card_image inj_on_def card_nonzero_u32)
    then show False using room by simp
  qed
  then obtain i where "r = Inr i" by (cases r) auto
  then show ?thesis using loop by (simp add: allocate_request_id_def used_def)
qed

lemma allocated_fresh:
  assumes "allocate_request_id s m = (Inr i, m')" and "rm_next_request_id m \<noteq> 0"
  shows "i \<noteq> 0" and "map_of (rm_pending m) (request_key s i) = None"
    and "map_of (rm_completed m) (request_key s i) = None"
    and "\<exists>c. c \<noteq> 0 \<and> m' = m\<lparr>rm_next_request_id := c\<rparr>"
proof -
  define used where "used = (\<lambda>candidate. let k = request_key s candidate in
      map_of (rm_pending m) k \<noteq> None \<or> map_of (rm_completed m) k \<noteq> None)"
  obtain r c' where loop: "allocate_loop maximum_attempts used (rm_next_request_id m) = (r, c')"
    by (cases "allocate_loop maximum_attempts used (rm_next_request_id m)")
  then have "r = Inr i" "m' = m\<lparr>rm_next_request_id := c'\<rparr>"
    using assms(1) by (simp_all add: allocate_request_id_def used_def)
  then show "i \<noteq> 0" "map_of (rm_pending m) (request_key s i) = None"
    "map_of (rm_completed m) (request_key s i) = None"
    "\<exists>c. c \<noteq> 0 \<and> m' = m\<lparr>rm_next_request_id := c\<rparr>"
    using allocate_loop_result [of maximum_attempts used "rm_next_request_id m" i c'] loop assms(2)
    by (auto simp: used_def Let_def)
qed

subsection \<open>One entry in a poll\<close>

definition entry_events :: "time \<Rightarrow> u64 \<times> pending_request \<Rightarrow> request_event list" where
  "entry_events now = (\<lambda>(k, p).
     if now < pr_deadline p then []
     else if pr_retries_remaining p > 0
     then [\<lparr>re_type = Retry, re_session_id = ph_session_id (header (pr_packet p)),
            re_request_id = ph_request_id (header (pr_packet p)),
            re_packet = Some (pr_packet p)\<rparr>]
     else [\<lparr>re_type = TimedOut, re_session_id = ucast (drop_bit 32 k),
            re_request_id = ph_request_id (header (pr_packet p)), re_packet = None\<rparr>])"

definition entry_next :: "time \<Rightarrow> time \<Rightarrow> pending_request \<Rightarrow> pending_request option" where
  "entry_next timeout now p =
     (if now < pr_deadline p then Some p
      else if pr_retries_remaining p > 0
      then Some (p\<lparr>pr_retries_remaining := pr_retries_remaining p - 1,
                   pr_deadline := now + timeout\<rparr>)
      else None)"

lemma poll_loop_events:
  "fst (poll_loop timeout window now ps c) = concat (map (entry_events now) ps)"
  by (induction ps arbitrary: c)
    (auto simp: entry_events_def Let_def split_beta)

lemma poll_loop_kept:
  "fst (snd (poll_loop timeout window now ps c)) =
   hmap_keep (entry_next timeout now) ps"
  by (induction ps arbitrary: c)
    (auto simp: entry_next_def Let_def split_beta)

lemma poll_loop_completed:
  "map_of (snd (snd (poll_loop timeout window now ps c))) k =
     (if \<exists>p. (k, p) \<in> set ps \<and> entry_next timeout now p = None then Some (now + window)
      else map_of c k)"
  by (induction ps arbitrary: c)
    (auto simp: entry_next_def Let_def split_beta, blast)

lemma poll_loop_completed_ok: "hmap_ok c \<Longrightarrow> hmap_ok (snd (snd (poll_loop timeout window now ps c)))"
  by (induction ps arbitrary: c)
    (auto simp: Let_def split_beta simp flip: set_map)

lemma poll_fields [simp]:
  "rm_timeout (snd (poll now m)) = rm_timeout m"
  "rm_maximum_retries (snd (poll now m)) = rm_maximum_retries m"
  "rm_duplicate_window (snd (poll now m)) = rm_duplicate_window m"
  "rm_next_request_id (snd (poll now m)) = rm_next_request_id m"
  "fst (poll now m) = concat (map (entry_events now) (rm_pending m))"
  by (simp_all add: poll_def Let_def split_beta poll_loop_events)

lemma poll_lookup:
  "hmap_ok (rm_pending m) \<Longrightarrow>
   map_of (rm_pending (snd (poll now m))) k =
     (case map_of (rm_pending m) k of None \<Rightarrow> None | Some p \<Rightarrow> entry_next (rm_timeout m) now p)"
  by (simp add: poll_def Let_def split_beta poll_loop_kept map_of_hmap_keep)

subsection \<open>The invariant\<close>

definition pending_ok :: "nat \<Rightarrow> u64 \<times> pending_request \<Rightarrow> bool" where
  "pending_ok retries = (\<lambda>(k, p).
     let h = header (pr_packet p) in
     k = request_key (ph_session_id h) (ph_request_id h) \<and> ph_request_id h \<noteq> 0 \<and>
     ph_message_type h = message_type_code Request \<and> pr_retries_remaining p \<le> retries)"

definition request_manager_ok :: "request_manager \<Rightarrow> bool" where
  "request_manager_ok m \<longleftrightarrow>
     0 < rm_timeout m \<and> 0 < rm_duplicate_window m \<and> rm_next_request_id m \<noteq> 0 \<and>
     hmap_ok (rm_pending m) \<and> hmap_ok (rm_completed m) \<and>
     set (hkeys (rm_pending m)) \<inter> set (hkeys (rm_completed m)) = {} \<and>
     list_all (pending_ok (rm_maximum_retries m)) (rm_pending m)"

lemma rm_okD:
  assumes "request_manager_ok m"
  shows "0 < rm_timeout m" "0 < rm_duplicate_window m" "rm_next_request_id m \<noteq> 0"
    "hmap_ok (rm_pending m)" "hmap_ok (rm_completed m)"
  using assms by (simp_all add: request_manager_ok_def)

lemma rm_ok_lookup:
  assumes "request_manager_ok m" and "map_of (rm_pending m) k = Some p"
  shows "map_of (rm_completed m) k = None" and "pending_ok (rm_maximum_retries m) (k, p)"
proof -
  have "(k, p) \<in> set (rm_pending m)" using assms(2) by (rule map_of_SomeD)
  moreover from this have "k \<in> set (hkeys (rm_pending m))" by force
  ultimately have "k \<notin> set (hkeys (rm_completed m))" "pending_ok (rm_maximum_retries m) (k, p)"
    using assms(1) by (auto simp only: request_manager_ok_def list_all_iff)
  then show "map_of (rm_completed m) k = None" "pending_ok (rm_maximum_retries m) (k, p)"
    by (simp_all add: map_of_eq_None_iff)
qed

text \<open>The invariant in terms of lookups.\<close>

lemma rm_okI:
  assumes "0 < rm_timeout m" "0 < rm_duplicate_window m" "rm_next_request_id m \<noteq> 0"
    and ok: "hmap_ok (rm_pending m)" "hmap_ok (rm_completed m)"
    and "\<And>k p. map_of (rm_pending m) k = Some p \<Longrightarrow> map_of (rm_completed m) k = None"
    and "\<And>k p. map_of (rm_pending m) k = Some p \<Longrightarrow> pending_ok (rm_maximum_retries m) (k, p)"
  shows "request_manager_ok m"
proof -
  have "k \<notin> set (hkeys (rm_completed m))" if "k \<in> set (hkeys (rm_pending m))" for k
    using that assms(6) [of k] by (cases "map_of (rm_pending m) k") (auto simp: map_of_eq_None_iff)
  moreover have "pending_ok (rm_maximum_retries m) (k, p)" if "(k, p) \<in> set (rm_pending m)" for k p
    using that assms(7) [of k p] ok(1) by simp
  ultimately show ?thesis using assms(1-5) by (auto simp: request_manager_ok_def list_all_iff)
qed

lemma request_manager_new_ok: "request_manager_new t r w = Inr m \<Longrightarrow> request_manager_ok m"
  by (auto simp: request_manager_new_def request_manager_ok_def not_le split: if_splits)

lemma expire_completed_ok [inv_intros]:
  "request_manager_ok m \<Longrightarrow> request_manager_ok (expire_completed now m)"
  using rm_okD [of m] rm_ok_lookup [of m]
  by (intro rm_okI) (simp_all add: map_of_hexpire)

lemma submit_ok [inv_intros]:
  assumes "request_manager_ok m"
  shows "request_manager_ok (snd (submit request now m))"
proof (cases "ph_message_type (header request) = message_type_code Request")
  case False
  then show ?thesis using expire_completed_ok [OF assms] by (simp add: submit_def Let_def)
next
  case True
  define m1 where "m1 = expire_completed now m"
  have m1: "request_manager_ok m1" using assms by (simp add: m1_def expire_completed_ok)
  obtain r m2 where a: "allocate_request_id (ph_session_id (header request)) m1 = (r, m2)"
    by (cases "allocate_request_id (ph_session_id (header request)) m1")
  show ?thesis
  proof (cases r)
    case (Inl e)
    have "\<exists>c. c \<noteq> 0 \<and> m2 = m1\<lparr>rm_next_request_id := c\<rparr>"
      using a allocate_counter [OF rm_okD(3) [OF m1], of "ph_session_id (header request)"] by simp
    then have "request_manager_ok m2" using m1 by (elim exE conjE) (simp add: request_manager_ok_def)
    then show ?thesis using True a Inl by (simp add: submit_def Let_def flip: m1_def)
  next
    case (Inr i)
    note fresh = allocated_fresh [OF a [unfolded Inr] rm_okD(3) [OF m1]]
    obtain c where c: "c \<noteq> 0" "m2 = m1\<lparr>rm_next_request_id := c\<rparr>" using fresh(4) by blast
    have st: "snd (submit request now m) = m2\<lparr>rm_pending := hemplace
          (request_key (ph_session_id (header request)) i)
          \<lparr>pr_packet = request\<lparr>header := (header request)\<lparr>ph_request_id := i\<rparr>\<rparr>,
           pr_deadline = now + rm_timeout m2, pr_retries_remaining = rm_maximum_retries m2\<rparr>
          (rm_pending m2)\<rparr>"
      using True a Inr by (simp add: submit_def Let_def flip: m1_def)
    show ?thesis
      unfolding st
    proof (rule rm_okI, goal_cases)
      case 4
      show ?case using c rm_okD(4) [OF m1] by (simp add: hmap_ok_hemplace)
    next
      case (6 k p)
      then show ?case using c fresh(2,3) rm_ok_lookup(1) [OF m1, of k p]
        by (simp add: map_of_hemplace split: if_splits)
    next
      case (7 k p)
      then show ?case using c fresh(1,2) rm_ok_lookup(2) [OF m1, of k p] True
        by (auto simp: map_of_hemplace pending_ok_def Let_def split: if_splits)
    qed (use c rm_okD [OF m1] in simp_all)
  qed
qed

lemma accept_response_ok [inv_intros]:
  assumes "request_manager_ok m"
  shows "request_manager_ok (snd (accept_response response now m))"
proof -
  define m1 where "m1 = expire_completed now m"
  have m1: "request_manager_ok m1" using assms by (simp add: m1_def expire_completed_ok)
  have "request_manager_ok (remember_completed k now (m1\<lparr>rm_pending := herase k (rm_pending m1)\<rparr>))"
    for k
  proof (rule rm_okI, goal_cases)
    case (6 k' p)
    then show ?case using rm_ok_lookup(1) [OF m1, of k' p]
      by (simp add: remember_completed_def split: if_splits)
  next
    case (7 k' p)
    then show ?case using rm_ok_lookup(2) [OF m1, of k' p]
      by (simp add: remember_completed_def split: if_splits)
  qed (use rm_okD [OF m1] in \<open>simp_all add: remember_completed_def hmap_ok_herase hmap_ok_hput\<close>)
  then show ?thesis
    using m1 by (auto simp: accept_response_def Let_def simp flip: m1_def split: option.split)
qed

lemma poll_completed_lookup:
  "map_of (rm_completed (snd (poll now m))) k =
     (if \<exists>p. (k, p) \<in> set (rm_pending m) \<and> entry_next (rm_timeout m) now p = None
      then Some (now + rm_duplicate_window m)
      else map_of (rm_completed (expire_completed now m)) k)"
  by (auto simp: poll_def Let_def split_beta poll_loop_completed)

lemma entry_next_packet: "entry_next timeout now p = Some p' \<Longrightarrow>
   pr_packet p' = pr_packet p \<and> pr_retries_remaining p' \<le> pr_retries_remaining p"
  by (auto simp: entry_next_def split: if_splits)

lemma poll_ok [inv_intros]:
  assumes m: "request_manager_ok m"
  shows "request_manager_ok (snd (poll now m))"
proof -
  note look = poll_lookup [OF rm_okD(4) [OF m]]
  show ?thesis
  proof (rule rm_okI, goal_cases)
    case 4
    show ?case using rm_okD [OF m]
      by (simp add: poll_def Let_def split_beta poll_loop_kept hmap_ok_keep)
  next
    case 5
    show ?case using rm_okD [OF m]
      by (simp add: poll_def Let_def split_beta poll_loop_completed_ok hmap_ok_hexpire)
  next
    case (6 k p')
    then obtain p where p: "map_of (rm_pending m) k = Some p" "entry_next (rm_timeout m) now p = Some p'"
      by (auto simp: look split: option.splits)
    then have "q = p" if "(k, q) \<in> set (rm_pending m)" for q
      using that rm_okD(4) [OF m] map_of_is_SomeI by fastforce
    then show ?case
      using p rm_ok_lookup(1) [OF m p(1)] rm_okD(5) [OF m]
      by (auto simp: poll_completed_lookup map_of_hexpire)
  next
    case (7 k p')
    then obtain p where "map_of (rm_pending m) k = Some p" "entry_next (rm_timeout m) now p = Some p'"
      by (auto simp: look split: option.splits)
    then show ?case
      using rm_ok_lookup(2) [OF m] entry_next_packet [of "rm_timeout m" now p p']
      by (fastforce simp: pending_ok_def Let_def)
  qed (use rm_okD [OF m] in simp_all)
qed

lemma cancel_ok [inv_intros]:
  assumes "request_manager_ok m"
  shows "request_manager_ok (snd (cancel s r m))"
  using rm_okD [OF assms] rm_ok_lookup [OF assms]
  by (intro rm_okI) (auto simp: cancel_def Let_def hmap_ok_herase split: if_splits simp flip: set_map)

subsection \<open>Properties\<close>

text \<open>
  The steps a request manager can take strictly before the time \<open>limit\<close>, in any order.
\<close>

inductive request_step :: "time \<Rightarrow> request_manager \<Rightarrow> request_manager \<Rightarrow> bool" for limit where
  submitted: "now < limit \<Longrightarrow> request_step limit m (snd (submit request now m))"
| answered: "now < limit \<Longrightarrow> request_step limit m (snd (accept_response response now m))"
| polled: "now < limit \<Longrightarrow> request_step limit m (snd (poll now m))"
| cancelled: "request_step limit m (snd (cancel s r m))"

inductive_cases request_stepE: "request_step limit m m'"

inductive request_manager_reachable :: "request_manager \<Rightarrow> bool" where
  created: "request_manager_new timeout retries window = Inr m \<Longrightarrow> request_manager_reachable m"
| stepped: "request_manager_reachable m \<Longrightarrow> request_step limit m m' \<Longrightarrow>
    request_manager_reachable m'"

lemma request_step_ok: "request_step limit m m' \<Longrightarrow> request_manager_ok m \<Longrightarrow> request_manager_ok m'"
  by (erule request_stepE) (simp_all add: inv_intros)

lemma request_manager_reachable_ok: "request_manager_reachable m \<Longrightarrow> request_manager_ok m"
  by (induction rule: request_manager_reachable.induct)
    (auto intro: request_manager_new_ok request_step_ok)

text \<open>
  In every reachable state the pending and completed tables have distinct keys and do not
  overlap, each pending entry is a request stored under its own session and non-zero request id
  with at most the configured retries, and a submission of a request message succeeds whenever
  fewer than $2^{32} - 1$ ids are in use: its id is non-zero and neither pending nor completed,
  and the packet stored and returned is the submitted one with that id.
\<close>

theorem submit_fresh:
  assumes "request_manager_reachable m"
    and "ph_message_type (header request) = message_type_code Request"
    and "pending_count m + completed_count m < maximum_attempts"
  shows "request_manager_ok m \<and>
    (\<exists>rid m'. submit request now m = (Inr (rid, request\<lparr>header := header request\<lparr>ph_request_id := rid\<rparr>\<rparr>), m') \<and>
       rid \<noteq> 0 \<and> (let k = request_key (ph_session_id (header request)) rid in
         map_of (rm_pending m) k = None \<and>
         map_of (rm_completed (expire_completed now m)) k = None \<and>
         map_of (rm_pending m') k =
           Some \<lparr>pr_packet = request\<lparr>header := header request\<lparr>ph_request_id := rid\<rparr>\<rparr>,
                 pr_deadline = now + rm_timeout m, pr_retries_remaining = rm_maximum_retries m\<rparr>))"
proof -
  have m: "request_manager_ok m" using assms(1) by (rule request_manager_reachable_ok)
  define m1 where "m1 = expire_completed now m"
  have m1: "request_manager_ok m1" using m by (simp add: m1_def expire_completed_ok)
  have "length (rm_completed m1) \<le> length (rm_completed m)"
    using hexpire_count [of "completed_stale now" "rm_completed m"] by (simp add: m1_def)
  then have "pending_count m1 + completed_count m1 < maximum_attempts"
    using assms(3) by (simp add: m1_def pending_count_def completed_count_def)
  then obtain rid m2 where a: "allocate_request_id (ph_session_id (header request)) m1 = (Inr rid, m2)"
    using allocation_succeeds [OF rm_okD(3) [OF m1]] by blast
  note fresh = allocated_fresh [OF a rm_okD(3) [OF m1]]
  obtain c where c: "m2 = m1\<lparr>rm_next_request_id := c\<rparr>" using fresh(4) by blast
  show ?thesis
    using m a assms(2) fresh(1-3) c
    by (auto simp: submit_def Let_def map_of_hemplace simp flip: m1_def) (simp_all add: m1_def)
qed

lemma start_reachable:
  "request_manager_reachable \<lparr>rm_timeout = 750, rm_maximum_retries = 2, rm_duplicate_window = 2000,
     rm_next_request_id = 1, rm_pending = [], rm_completed = []\<rparr>"
  by (rule created [of 750 2 2000]) (simp add: request_manager_new_def)

theorem submit_fresh_witness:
  "\<exists>rid m'. submit default_packet 5 \<lparr>rm_timeout = 750, rm_maximum_retries = 2,
     rm_duplicate_window = 2000, rm_next_request_id = 1, rm_pending = [], rm_completed = []\<rparr> =
     (Inr (rid, default_packet\<lparr>header := header default_packet\<lparr>ph_request_id := rid\<rparr>\<rparr>), m') \<and> rid \<noteq> 0"
proof -
  have "ph_message_type (header default_packet) = message_type_code Request"
    by (simp add: default_packet_def default_header_def)
  moreover have "pending_count \<lparr>rm_timeout = 750, rm_maximum_retries = 2, rm_duplicate_window = 2000,
      rm_next_request_id = 1, rm_pending = [], rm_completed = []\<rparr> +
    completed_count \<lparr>rm_timeout = 750, rm_maximum_retries = 2, rm_duplicate_window = 2000,
      rm_next_request_id = 1, rm_pending = [], rm_completed = []\<rparr> < maximum_attempts"
    by (simp add: pending_count_def completed_count_def maximum_attempts_def)
  ultimately show ?thesis using submit_fresh [OF start_reachable, of default_packet 5] by blast
qed

text \<open>Once completed, a key stays completed until its window is over.\<close>

lemma completed_stays:
  assumes "request_step limit m m'" and m: "request_manager_ok m"
    and old: "map_of (rm_completed m) k = Some d" "limit \<le> d"
  shows "\<exists>d'. map_of (rm_completed m') k = Some d' \<and> limit \<le> d'"
proof -
  have keep: "map_of (rm_completed (expire_completed now m)) k = Some d" if "now < limit" for now
    using that old rm_okD(5) [OF m] by (simp add: map_of_hexpire completed_stale_def)
  have no_pending: "map_of (rm_pending m) k = None"
    using rm_ok_lookup(1) [OF m, of k] old(1) by (cases "map_of (rm_pending m) k") auto
  from assms(1) show ?thesis
  proof (cases rule: request_step.cases)
    case (submitted now request)
    have "rm_completed m' = rm_completed (expire_completed now m)"
      using allocate_counter [OF rm_okD(3) [OF expire_completed_ok [OF m]], of "ph_session_id (header request)" now]
      unfolding submitted(1) by (auto simp: submit_def Let_def split_beta split: sum.split)
    then show ?thesis using keep [OF submitted(2)] old by auto
  next
    case (answered now response)
    have "map_of (rm_completed m') k = Some d \<or>
        (\<exists>k'. map_of (rm_completed m') k = Some d \<and> k' \<noteq> k)"
      using keep [OF answered(2)] no_pending unfolding answered(1)
      by (auto simp: accept_response_def Let_def remember_completed_def split: option.split)
    then show ?thesis using old by auto
  next
    case (polled now)
    then show ?thesis
      using keep [OF polled(2)] no_pending old by (auto simp: poll_completed_lookup map_of_eq_None_iff) force
  next
    case (cancelled s r)
    then show ?thesis using old by (auto simp: cancel_def Let_def)
  qed
qed

lemma completed_stays_run:
  assumes "(request_step limit)\<^sup>*\<^sup>* m m'" and "request_manager_ok m"
    and "map_of (rm_completed m) k = Some d" "limit \<le> d"
  shows "request_manager_ok m' \<and> (\<exists>d'. map_of (rm_completed m') k = Some d' \<and> limit \<le> d')"
  using assms
proof (induction rule: rtranclp_induct)
  case base
  then show ?case by blast
next
  case (step m1 m2)
  then show ?case using completed_stays [OF step.hyps(2)] request_step_ok [OF step.hyps(2)] by blast
qed

text \<open>
  C6. A request is answered at most once: after a response has been matched, every response with
  the same session and request id that arrives within the duplicate window is reported as a
  duplicate, whatever submissions, responses, polls and cancellations happen in between, and the
  id is not given out again in that window.
\<close>

theorem matched_once:
  assumes "request_manager_reachable m"
    and "accept_response response now m = ((Matched, answer), m1)"
    and "(request_step (now + rm_duplicate_window m))\<^sup>*\<^sup>* m1 m2"
    and "later < now + rm_duplicate_window m"
    and "ph_message_type (header again) = message_type_code Response"
    and "ph_session_id (header again) = ph_session_id (header response)"
    and "ph_request_id (header again) = ph_request_id (header response)"
  shows "fst (accept_response again later m2) = (RS_Duplicate, None) \<and>
    (\<forall>request p m3. submit request later m2 = (Inr (ph_request_id (header response), p), m3) \<longrightarrow>
       ph_session_id (header request) \<noteq> ph_session_id (header response))"
proof -
  define k where "k = request_key (ph_session_id (header response)) (ph_request_id (header response))"
  have m: "request_manager_ok m" using assms(1) by (rule request_manager_reachable_ok)
  have m1: "request_manager_ok m1" using accept_response_ok [OF m, of response now] assms(2) by simp
  have "map_of (rm_completed m1) k = Some (now + rm_duplicate_window m)"
    using assms(2) by (auto simp: accept_response_def Let_def k_def remember_completed_def
        split: if_splits option.splits)
  then obtain d where m2: "request_manager_ok m2" and d: "map_of (rm_completed m2) k = Some d"
      "now + rm_duplicate_window m \<le> d"
    using completed_stays_run [OF assms(3) m1] by blast
  have kept: "map_of (rm_completed (expire_completed later m2)) k = Some d"
    using d assms(4) rm_okD(5) [OF m2] by (simp add: map_of_hexpire completed_stale_def)
  have "map_of (rm_pending m2) k = None"
    using rm_ok_lookup(1) [OF m2, of k] d(1) by (cases "map_of (rm_pending m2) k") auto
  then have "fst (accept_response again later m2) = (RS_Duplicate, None)"
    using kept assms(5-7) by (simp add: accept_response_def Let_def k_def)
  moreover have "ph_session_id (header request) \<noteq> ph_session_id (header response)"
    if sub: "submit request later m2 = (Inr (ph_request_id (header response), p), m3)" for request p m3
  proof
    assume s: "ph_session_id (header request) = ph_session_id (header response)"
    define m2' where "m2' = expire_completed later m2"
    obtain m4 where "allocate_request_id (ph_session_id (header request)) m2' =
        (Inr (ph_request_id (header response)), m4)"
      using sub by (auto simp: submit_def Let_def m2'_def split: if_splits prod.splits sum.splits)
    from allocated_fresh(3) [OF this] have "map_of (rm_completed m2') k = None"
      using rm_okD(3) [OF m2] s by (simp add: m2'_def k_def)
    then show False using kept by (simp add: m2'_def)
  qed
  ultimately show ?thesis by blast
qed

text \<open>A ping submitted at time 5, answered at 20 and again at 30, with another submission between.\<close>

definition ping_manager :: request_manager where
  "ping_manager = snd (submit default_packet 5 \<lparr>rm_timeout = 750, rm_maximum_retries = 2,
     rm_duplicate_window = 2000, rm_next_request_id = 1, rm_pending = [], rm_completed = []\<rparr>)"

definition ping_response :: packet where
  "ping_response = default_packet\<lparr>header := default_header\<lparr>
     ph_message_type := message_type_code Response, ph_request_id := 1\<rparr>\<rparr>"

lemma allocate_first: "\<not> used c \<Longrightarrow> allocate_loop maximum_attempts used c = (Inr c, next_id c)"
proof -
  assume a: "\<not> used c"
  have "\<exists>n. maximum_attempts = Suc n"
    by (rule exI [of _ "maximum_attempts - 1"]) (simp add: maximum_attempts_def)
  then obtain n where n: "maximum_attempts = Suc n" by blast
  show ?thesis unfolding n using a by (simp add: Let_def)
qed

lemma ping_manager_eq:
  "ping_manager = \<lparr>rm_timeout = 750, rm_maximum_retries = 2, rm_duplicate_window = 2000,
     rm_next_request_id = 2, rm_pending = [(request_key 0 1,
       \<lparr>pr_packet = default_packet\<lparr>header := default_header\<lparr>ph_request_id := 1\<rparr>\<rparr>,
        pr_deadline = 755, pr_retries_remaining = 2\<rparr>)], rm_completed = []\<rparr>"
  by (simp add: ping_manager_def submit_def Let_def default_packet_def default_header_def
      allocate_request_id_def allocate_first hemplace_def next_id_def expire_completed_def)

lemma ping_manager_reachable: "request_manager_reachable ping_manager"
  unfolding ping_manager_def
  by (rule stepped [OF start_reachable submitted [of 5 6]]) simp

theorem matched_once_witness:
  "fst (accept_response ping_response 30
     (snd (submit default_packet 25 (snd (accept_response ping_response 20 ping_manager))))) =
     (RS_Duplicate, None)"
proof -
  let ?m1 = "snd (accept_response ping_response 20 ping_manager)"
  have matched: "accept_response ping_response 20 ping_manager = ((Matched, Some ping_response), ?m1)"
    by (simp add: accept_response_def ping_manager_eq ping_response_def default_packet_def
        default_header_def Let_def object_matches_def creates_object_def expire_completed_def)
  have "request_step (20 + rm_duplicate_window ping_manager) ?m1 (snd (submit default_packet 25 ?m1))"
    by (rule submitted) (simp add: ping_manager_eq)
  then have run: "(request_step (20 + rm_duplicate_window ping_manager))\<^sup>*\<^sup>* ?m1
      (snd (submit default_packet 25 ?m1))"
    by blast
  show ?thesis
    by (rule matched_once [OF ping_manager_reachable matched run, THEN conjunct1])
      (simp_all add: ping_manager_eq ping_response_def)
qed

text \<open>Polling at the times \<open>ts\<close>, one event list per poll.\<close>

fun poll_run :: "time list \<Rightarrow> request_manager \<Rightarrow> request_event list list \<times> request_manager" where
  "poll_run [] m = ([], m)"
| "poll_run (t # ts) m =
     (let (events, m1) = poll t m; (rest, m2) = poll_run ts m1 in (events # rest, m2))"

text \<open>Each poll happens when the request is due again.\<close>

fun due_times :: "time \<Rightarrow> time \<Rightarrow> time list \<Rightarrow> bool" where
  "due_times timeout deadline [] \<longleftrightarrow> True"
| "due_times timeout deadline (t # ts) \<longleftrightarrow> deadline \<le> t \<and> due_times timeout (t + timeout) ts"

definition about_request :: "u32 \<Rightarrow> u32 \<Rightarrow> request_event \<Rightarrow> bool" where
  "about_request s r e \<longleftrightarrow> re_session_id e = s \<and> re_request_id e = r"

lemma entry_events_key:
  "pending_ok n (k, p) \<Longrightarrow> e \<in> set (entry_events now (k, p)) \<Longrightarrow>
   about_request s r e \<longleftrightarrow> k = request_key s r"
  by (auto simp: entry_events_def pending_ok_def Let_def about_request_def split: if_splits)

lemma events_of_others:
  "list_all (pending_ok n) ps \<Longrightarrow> request_key s r \<notin> set (hkeys ps) \<Longrightarrow>
   filter (about_request s r) (concat (map (entry_events now) ps)) = []"
  by (induction ps) (force simp: filter_empty_conv dest: entry_events_key)+

lemma poll_events_of:
  assumes "request_manager_ok m"
  shows "filter (about_request s r) (fst (poll now m)) =
    (case map_of (rm_pending m) (request_key s r) of
       None \<Rightarrow> [] | Some p \<Rightarrow> entry_events now (request_key s r, p))"
proof -
  have "hmap_ok ps \<Longrightarrow> list_all (pending_ok n) ps \<Longrightarrow>
     filter (about_request s r) (concat (map (entry_events now) ps)) =
     (case map_of ps (request_key s r) of None \<Rightarrow> [] | Some p \<Rightarrow> entry_events now (request_key s r, p))"
    for ps n
  proof (induction ps)
    case Nil
    then show ?case by simp
  next
    case (Cons e ps)
    obtain k p where e: "e = (k, p)" by (cases e)
    have own: "filter (about_request s r) (entry_events now e) =
        (if k = request_key s r then entry_events now e else [])"
      using Cons.prems(2) entry_events_key [of n k p]
      by (auto simp: e filter_id_conv filter_empty_conv)
    show ?case
      using Cons own events_of_others [of n ps s r now] by (auto simp: e)
  qed
  from this [of "rm_pending m" "rm_maximum_retries m"] show ?thesis
    using assms by (simp add: request_manager_ok_def)
qed

text \<open>
  C7. Bounded retries, then a time-out: when a pending request with \<open>n\<close> retries left is polled
  \<open>n + 1\<close> times, each time once it is due, the first \<open>n\<close> polls report exactly one retry of the
  same packet, the last reports exactly one time-out, and the request is then no longer pending.
\<close>

theorem retries_then_timeout:
  assumes "request_manager_reachable m"
    and "map_of (rm_pending m) (request_key s r) = Some p"
    and "due_times (rm_timeout m) (pr_deadline p) ts"
    and "length ts = Suc (pr_retries_remaining p)"
  shows "map (filter (about_request s r)) (fst (poll_run ts m)) =
      replicate (pr_retries_remaining p)
        [\<lparr>re_type = Retry, re_session_id = s, re_request_id = r, re_packet = Some (pr_packet p)\<rparr>] @
      [[\<lparr>re_type = TimedOut, re_session_id = s, re_request_id = r, re_packet = None\<rparr>]] \<and>
    map_of (rm_pending (snd (poll_run ts m))) (request_key s r) = None"
proof -
  have "request_manager_ok m" using assms(1) by (rule request_manager_reachable_ok)
  then show ?thesis
    using assms(2-4)
  proof (induction ts arbitrary: m p)
    case Nil
    then show ?case by simp
  next
    case (Cons t ts)
    let ?k = "request_key s r"
    have h: "ph_session_id (header (pr_packet p)) = s" "ph_request_id (header (pr_packet p)) = r"
      using rm_ok_lookup(2) [OF Cons.prems(1,2)] by (auto simp: pending_ok_def Let_def)
    note now = poll_events_of [OF Cons.prems(1), of s r t]
    note look = poll_lookup [OF rm_okD(4) [OF Cons.prems(1)], of t ?k]
    show ?case
    proof (cases "pr_retries_remaining p")
      case 0
      then show ?thesis
        using Cons.prems(2-4) now look h
        by (simp add: entry_events_def entry_next_def Let_def split_beta)
    next
      case (Suc n)
      define p' where "p' = p\<lparr>pr_retries_remaining := n, pr_deadline := t + rm_timeout m\<rparr>"
      have "map_of (rm_pending (snd (poll t m))) ?k = Some p'"
        using Cons.prems(2,3) look Suc by (simp add: entry_next_def p'_def)
      from Cons.IH [OF poll_ok [OF Cons.prems(1)] this] show ?thesis
        using Cons.prems(2-4) now h Suc
        by (simp add: entry_events_def Let_def split_beta p'_def)
    qed
  qed
qed

theorem retries_then_timeout_witness:
  "map (filter (about_request 0 1)) (fst (poll_run [755, 1600, 2400] ping_manager)) =
     replicate 2 [\<lparr>re_type = Retry, re_session_id = 0, re_request_id = 1,
       re_packet = Some (default_packet\<lparr>header := default_header\<lparr>ph_request_id := 1\<rparr>\<rparr>)\<rparr>] @
     [[\<lparr>re_type = TimedOut, re_session_id = 0, re_request_id = 1, re_packet = None\<rparr>]]"
proof -
  have p: "map_of (rm_pending ping_manager) (request_key 0 1) = Some
      \<lparr>pr_packet = default_packet\<lparr>header := default_header\<lparr>ph_request_id := 1\<rparr>\<rparr>,
       pr_deadline = 755, pr_retries_remaining = 2\<rparr>"
    by (simp add: ping_manager_eq)
  show ?thesis
    using retries_then_timeout [OF ping_manager_reachable p, of "[755, 1600, 2400]"]
    by (simp add: ping_manager_eq)
qed

end
