(* ===== verification/Discovery_Payload.thy ===== *)
theory Discovery_Payload
  imports Wire
begin

text \<open>
  \<^verbatim>\<open>protocol/include/remotebsp/protocol/discovery.hpp\<close> and \<^verbatim>\<open>protocol/src/discovery.cpp\<close>: the
  payloads of discovery, assignment and heartbeat packets. \<open>node_uuid\<close> is
  \<^verbatim>\<open>std::array<std::uint8_t, 16>\<close>. Each codec is interpreted as a record codec, so a payload
  is accepted exactly when it is the encoding of a valid record.
\<close>

subsection \<open>Node identifiers\<close>

typedef node_uuid = "{xs :: byte list. length xs = 16}"
  morphisms uuid_bytes Uuid
  by (rule exI [of _ "replicate 16 0"]) simp

text \<open>\<^verbatim>\<open>std::copy_n(payload.begin(), uuid.size(), uuid.begin())\<close>.\<close>

definition copy_uuid :: "byte list \<Rightarrow> node_uuid" where
  "copy_uuid bs = Uuid (take 16 (bs @ replicate 16 0))"

lemma length_uuid_bytes [simp]: "length (uuid_bytes u) = 16"
  using uuid_bytes [of u] by simp

lemma uuid_bytes_copy [simp]: "16 \<le> length bs \<Longrightarrow> uuid_bytes (copy_uuid bs) = take 16 bs"
  by (simp add: copy_uuid_def Uuid_inverse)

lemma copy_uuid_bytes [simp]: "copy_uuid (uuid_bytes u @ rest) = u"
  by (simp add: copy_uuid_def uuid_bytes_inverse)

lemma copy_uuid_bytes_end [simp]: "copy_uuid (uuid_bytes u) = u"
  using copy_uuid_bytes [of u "[]"] by simp

text \<open>Identifiers compare bytewise, and can be computed with.\<close>

lemma uuid_code [code abstype]: "Uuid (uuid_bytes u) = u"
  by (rule uuid_bytes_inverse)

lemma copy_uuid_code [code abstract]: "uuid_bytes (copy_uuid bs) = take 16 (bs @ replicate 16 0)"
  by (simp add: copy_uuid_def Uuid_inverse)

instantiation node_uuid :: equal
begin

definition equal_node_uuid :: "node_uuid \<Rightarrow> node_uuid \<Rightarrow> bool" where
  "equal_node_uuid u v \<longleftrightarrow> uuid_bytes u = uuid_bytes v"

instance
  by standard (simp add: equal_node_uuid_def uuid_bytes_inject)

end

subsection \<open>Data and codecs\<close>

record discovery_request_payload =
  dr_minimum_protocol_version :: byte
  dr_maximum_protocol_version :: byte

record node_identity =
  ni_uuid :: node_uuid
  ni_firmware_major :: u16
  ni_firmware_minor :: u16
  ni_firmware_patch :: u16
  ni_board_type :: u32
  ni_protocol_version :: byte

record node_assignment =
  na_uuid :: node_uuid
  na_node_id :: u32

record heartbeat_payload =
  hb_uuid :: node_uuid
  hb_protocol_version :: byte

datatype discovery_payload_error = DPE_InvalidLength | DPE_InvalidVersionRange | DPE_InvalidNodeId

definition encode_discovery_request ::
  "discovery_request_payload \<Rightarrow> discovery_payload_error + byte list" where
  "encode_discovery_request p =
     (if dr_minimum_protocol_version p = 0 \<or>
         dr_minimum_protocol_version p > dr_maximum_protocol_version p
      then Inl DPE_InvalidVersionRange
      else Inr [dr_minimum_protocol_version p, dr_maximum_protocol_version p])"

definition decode_discovery_request ::
  "byte list \<Rightarrow> discovery_payload_error + discovery_request_payload" where
  "decode_discovery_request p =
     (if length p \<noteq> 2 then Inl DPE_InvalidLength
      else let decoded = \<lparr>dr_minimum_protocol_version = p ! 0, dr_maximum_protocol_version = p ! 1\<rparr>
           in try_bind (encode_discovery_request decoded) (\<lambda>_. Inr decoded))"

definition encode_node_identity :: "node_identity \<Rightarrow> byte list" where
  "encode_node_identity i =
     uuid_bytes (ni_uuid i) @ put_u16 (ni_firmware_major i) @ put_u16 (ni_firmware_minor i) @
     put_u16 (ni_firmware_patch i) @ put_u32 (ni_board_type i) @ [ni_protocol_version i]"

definition decode_node_identity :: "byte list \<Rightarrow> discovery_payload_error + node_identity" where
  "decode_node_identity p =
     (if length p \<noteq> 27 then Inl DPE_InvalidLength
      else Inr \<lparr>ni_uuid = copy_uuid p, ni_firmware_major = get_u16 (drop 16 p),
                ni_firmware_minor = get_u16 (drop 18 p), ni_firmware_patch = get_u16 (drop 20 p),
                ni_board_type = get_u32 (drop 22 p), ni_protocol_version = p ! 26\<rparr>)"

definition encode_node_assignment :: "node_assignment \<Rightarrow> discovery_payload_error + byte list" where
  "encode_node_assignment a =
     (if na_node_id a = 0 then Inl DPE_InvalidNodeId
      else Inr (uuid_bytes (na_uuid a) @ put_u32 (na_node_id a)))"

definition decode_node_assignment :: "byte list \<Rightarrow> discovery_payload_error + node_assignment" where
  "decode_node_assignment p =
     (if length p \<noteq> 20 then Inl DPE_InvalidLength
      else let a = \<lparr>na_uuid = copy_uuid p, na_node_id = get_u32 (drop 16 p)\<rparr> in
        if na_node_id a = 0 then Inl DPE_InvalidNodeId else Inr a)"

definition encode_heartbeat :: "heartbeat_payload \<Rightarrow> byte list" where
  "encode_heartbeat h = uuid_bytes (hb_uuid h) @ [hb_protocol_version h]"

definition decode_heartbeat :: "byte list \<Rightarrow> discovery_payload_error + heartbeat_payload" where
  "decode_heartbeat p =
     (if length p \<noteq> 17 then Inl DPE_InvalidLength
      else Inr \<lparr>hb_uuid = copy_uuid p, hb_protocol_version = p ! 16\<rparr>)"

subsection \<open>The codec laws\<close>

interpretation discovery_request_wire:
  record_codec encode_discovery_request decode_discovery_request id 2
  by unfold_locales
    (auto simp: encode_discovery_request_def decode_discovery_request_def length_Suc_conv
      numeral_2_eq_2 Let_def try_bind_def split: if_splits)

interpretation node_identity_wire:
  record_codec "\<lambda>i. Inr (encode_node_identity i)" decode_node_identity id 27
proof
  fix x bs
  show "Inr (encode_node_identity x) = Inr bs \<Longrightarrow> decode_node_identity bs = Inr (id x)"
    by (auto simp: encode_node_identity_def decode_node_identity_def nth_append)
  show "decode_node_identity bs = Inr x \<Longrightarrow> Inr (encode_node_identity x) = Inr bs"
    by (auto simp: encode_node_identity_def decode_node_identity_def put_get_at join_simps split: if_splits)
  show "Inr (encode_node_identity x) = Inr bs \<Longrightarrow> length bs = 27"
    by (auto simp: encode_node_identity_def)
qed

interpretation node_assignment_wire:
  record_codec encode_node_assignment decode_node_assignment id 20
proof
  fix x bs
  show "encode_node_assignment x = Inr bs \<Longrightarrow> decode_node_assignment bs = Inr (id x)"
    by (auto simp: encode_node_assignment_def decode_node_assignment_def split: if_splits)
  show "decode_node_assignment bs = Inr x \<Longrightarrow> encode_node_assignment x = Inr bs"
    by (auto simp: encode_node_assignment_def decode_node_assignment_def Let_def put_get_at join_simps
        split: if_splits)
  show "encode_node_assignment x = Inr bs \<Longrightarrow> length bs = 20"
    by (auto simp: encode_node_assignment_def split: if_splits)
qed

interpretation heartbeat_wire: record_codec "\<lambda>h. Inr (encode_heartbeat h)" decode_heartbeat id 17
proof
  fix x bs
  show "Inr (encode_heartbeat x) = Inr bs \<Longrightarrow> decode_heartbeat bs = Inr (id x)"
    by (auto simp: encode_heartbeat_def decode_heartbeat_def nth_append)
  show "decode_heartbeat bs = Inr x \<Longrightarrow> Inr (encode_heartbeat x) = Inr bs"
    by (auto simp: encode_heartbeat_def decode_heartbeat_def join_simps split: if_splits)
  show "Inr (encode_heartbeat x) = Inr bs \<Longrightarrow> length bs = 17"
    by (auto simp: encode_heartbeat_def)
qed

subsection \<open>Properties\<close>

text \<open>
  Every discovery-phase decoder accepts a payload exactly when it is the encoding of the
  record it returns: wrong lengths, an empty or inverted protocol version range and node id zero
  are the only payloads refused, on both sides of the wire.
\<close>

lemma discovery_payloads_canonical:
  "(decode_discovery_request bs = Inr r \<longleftrightarrow> encode_discovery_request r = Inr bs) \<and>
   (decode_node_identity bs = Inr i \<longleftrightarrow> encode_node_identity i = bs) \<and>
   (decode_node_assignment bs = Inr a \<longleftrightarrow> encode_node_assignment a = Inr bs) \<and>
   (decode_heartbeat bs = Inr h \<longleftrightarrow> encode_heartbeat h = bs)"
  by (simp add: discovery_request_wire.dec_iff node_identity_wire.dec_iff
      node_assignment_wire.dec_iff heartbeat_wire.dec_iff)

end
