(* ===== verification/Node_Registry.thy ===== *)
theory Node_Registry
  imports Packet Discovery_Payload
begin

text \<open>
  \<^verbatim>\<open>toolbusd/include/remotebsp/toolbusd/node_registry.hpp\<close> and
  \<^verbatim>\<open>toolbusd/src/node_registry.cpp\<close>: the daemon's table of discovered nodes, keyed by UUID.
  The lemmas give the table's invariant, the effect of discovery, assignment and heartbeat, and
  that a silent node is reported offline exactly once.
\<close>

subsection \<open>State\<close>

datatype node_update = Added | Updated

datatype registry_error = RegistryInvalidArgument | RegistryPayload discovery_payload_error

record node_record =
  nr_identity :: node_identity
  nr_node_id :: u32
  nr_online :: bool
  nr_assigned :: bool
  nr_last_seen :: time

record node_registry =
  reg_offline_timeout :: time
  reg_nodes :: "(node_uuid, node_record) hmap"

definition node_registry_new :: "time \<Rightarrow> registry_error + node_registry" where
  "node_registry_new timeout =
     (if timeout \<le> 0 then Inl RegistryInvalidArgument
      else Inr \<lparr>reg_offline_timeout = timeout, reg_nodes = []\<rparr>)"

subsection \<open>Operations\<close>

definition make_discovery_request :: "u32 \<Rightarrow> byte \<Rightarrow> byte \<Rightarrow> registry_error + packet" where
  "make_discovery_request request_id minimum_version maximum_version =
     try_bind (map_error RegistryPayload (encode_discovery_request
        \<lparr>dr_minimum_protocol_version = minimum_version,
         dr_maximum_protocol_version = maximum_version\<rparr>))
      (\<lambda>bs. Inr \<lparr>header = default_header\<lparr>ph_message_type := message_type_code Request,
                   ph_command := command_code DiscoveryRequest, ph_request_id := request_id\<rparr>,
                payload = bs\<rparr>)"

definition accept_discovery_response ::
  "packet \<Rightarrow> time \<Rightarrow> node_registry \<Rightarrow> (registry_error + node_update) \<times> node_registry" where
  "accept_discovery_response response now reg =
     (if ph_message_type (header response) \<noteq> message_type_code Response \<or>
         ph_command (header response) \<noteq> command_code DiscoveryResponse
      then (Inl RegistryInvalidArgument, reg)
      else case decode_node_identity (payload response) of
        Inl e \<Rightarrow> (Inl (RegistryPayload e), reg)
      | Inr identity \<Rightarrow>
          (case map_of (reg_nodes reg) (ni_uuid identity) of
             None \<Rightarrow> (Inr Added, reg\<lparr>reg_nodes := hemplace (ni_uuid identity)
                        \<lparr>nr_identity = identity, nr_node_id = 0, nr_online = True,
                         nr_assigned = False, nr_last_seen = now\<rparr> (reg_nodes reg)\<rparr>)
           | Some node \<Rightarrow> (Inr Updated, reg\<lparr>reg_nodes := hput (ni_uuid identity)
                        (node\<lparr>nr_identity := identity, nr_online := True, nr_last_seen := now\<rparr>)
                        (reg_nodes reg)\<rparr>)))"

definition make_node_assignment ::
  "node_uuid \<Rightarrow> u32 \<Rightarrow> u32 \<Rightarrow> node_registry \<Rightarrow> (registry_error + packet) \<times> node_registry" where
  "make_node_assignment uuid node_id request_id reg =
     (case map_of (reg_nodes reg) uuid of
        None \<Rightarrow> (Inl RegistryInvalidArgument, reg)
      | Some node \<Rightarrow>
          (case encode_node_assignment \<lparr>na_uuid = uuid, na_node_id = node_id\<rparr> of
             Inl e \<Rightarrow> (Inl (RegistryPayload e), reg)
           | Inr bs \<Rightarrow>
               (Inr \<lparr>header = default_header\<lparr>ph_message_type := message_type_code Request,
                       ph_command := command_code NodeAssign, ph_request_id := request_id\<rparr>,
                     payload = bs\<rparr>,
                reg\<lparr>reg_nodes := hput uuid (node\<lparr>nr_node_id := node_id, nr_assigned := False\<rparr>)
                      (reg_nodes reg)\<rparr>)))"

definition mark_assignment_unconfirmed :: "node_uuid \<Rightarrow> node_registry \<Rightarrow> bool \<times> node_registry" where
  "mark_assignment_unconfirmed uuid reg =
     (case map_of (reg_nodes reg) uuid of
        None \<Rightarrow> (False, reg)
      | Some node \<Rightarrow>
          (True, reg\<lparr>reg_nodes := hput uuid (node\<lparr>nr_assigned := False\<rparr>) (reg_nodes reg)\<rparr>))"

definition accept_heartbeat ::
  "packet \<Rightarrow> time \<Rightarrow> node_registry \<Rightarrow> (registry_error + bool) \<times> node_registry" where
  "accept_heartbeat heartbeat now reg =
     (if ph_message_type (header heartbeat) \<noteq> message_type_code Event \<or>
         ph_command (header heartbeat) \<noteq> command_code Heartbeat
      then (Inr False, reg)
      else case decode_heartbeat (payload heartbeat) of
        Inl e \<Rightarrow> (Inl (RegistryPayload e), reg)
      | Inr decoded \<Rightarrow>
          (case map_of (reg_nodes reg) (hb_uuid decoded) of
             None \<Rightarrow> (Inr False, reg)
           | Some node \<Rightarrow>
               if ni_protocol_version (nr_identity node) \<noteq> hb_protocol_version decoded
               then (Inr False, reg)
               else let node1 = node\<lparr>nr_online := True, nr_last_seen := now\<rparr>;
                        node2 = (if ph_object_id (header heartbeat) \<noteq> 0
                                 then node1\<lparr>nr_node_id := ph_object_id (header heartbeat),
                                            nr_assigned := True\<rparr>
                                 else node1)
                    in (Inr True, reg\<lparr>reg_nodes := hput (hb_uuid decoded) node2 (reg_nodes reg)\<rparr>)))"

definition node_silent :: "time \<Rightarrow> time \<Rightarrow> node_record \<Rightarrow> bool" where
  "node_silent timeout now node \<longleftrightarrow> nr_online node \<and> now - nr_last_seen node \<ge> timeout"

definition registry_expire :: "time \<Rightarrow> node_registry \<Rightarrow> node_uuid list \<times> node_registry" where
  "registry_expire now reg =
     (let silent = node_silent (reg_offline_timeout reg) now in
      (map fst (filter (\<lambda>entry. silent (snd entry)) (reg_nodes reg)),
       reg\<lparr>reg_nodes :=
             hmap_values (\<lambda>node. if silent node then node\<lparr>nr_online := False\<rparr> else node)
               (reg_nodes reg)\<rparr>))"

definition find_node :: "node_uuid \<Rightarrow> node_registry \<Rightarrow> node_record option" where
  "find_node uuid reg = map_of (reg_nodes reg) uuid"

definition find_by_node_id :: "u32 \<Rightarrow> node_registry \<Rightarrow> node_record option" where
  "find_by_node_id node_id reg =
     map_option snd (List.find (\<lambda>entry. nr_node_id (snd entry) = node_id) (reg_nodes reg))"

definition registry_size :: "node_registry \<Rightarrow> nat" where
  "registry_size reg = length (reg_nodes reg)"

definition online_count :: "node_registry \<Rightarrow> nat" where
  "online_count reg = length (filter (\<lambda>entry. nr_online (snd entry)) (reg_nodes reg))"

text \<open>
  \<^verbatim>\<open>std::sort\<close> leaves the order of records with equal node ids open; the model takes the stable
  one.
\<close>

definition records :: "node_registry \<Rightarrow> node_record list" where
  "records reg = sort_key nr_node_id (map snd (reg_nodes reg))"

definition uuid_hash :: "node_uuid \<Rightarrow> u64" where
  "uuid_hash uuid =
     foldl (\<lambda>hash b. (hash XOR ucast b) * 1099511628211) 1469598103934665603 (uuid_bytes uuid)"

subsection \<open>The invariant\<close>

definition node_ok :: "node_uuid \<Rightarrow> node_record \<Rightarrow> bool" where
  "node_ok uuid node \<longleftrightarrow>
     ni_uuid (nr_identity node) = uuid \<and> (nr_assigned node \<longrightarrow> nr_node_id node \<noteq> 0)"

definition registry_ok :: "node_registry \<Rightarrow> bool" where
  "registry_ok reg \<longleftrightarrow> 0 < reg_offline_timeout reg \<and> hmap_ok (reg_nodes reg) \<and>
     (\<forall>uuid node. map_of (reg_nodes reg) uuid = Some node \<longrightarrow> node_ok uuid node)"

lemma registry_okD:
  assumes "registry_ok reg"
  shows "0 < reg_offline_timeout reg" "hmap_ok (reg_nodes reg)"
    "map_of (reg_nodes reg) uuid = Some node \<Longrightarrow> node_ok uuid node"
  using assms by (simp_all add: registry_ok_def del: map_of_eq_Some_iff)

lemma registry_okI:
  assumes "0 < reg_offline_timeout reg" "hmap_ok (reg_nodes reg)"
    "\<And>uuid node. map_of (reg_nodes reg) uuid = Some node \<Longrightarrow> node_ok uuid node"
  shows "registry_ok reg"
  using assms by (simp add: registry_ok_def del: map_of_eq_Some_iff)

lemma put_node_ok:
  "registry_ok reg \<Longrightarrow> node_ok uuid node \<Longrightarrow>
   registry_ok (reg\<lparr>reg_nodes := hput uuid node (reg_nodes reg)\<rparr>)"
  by (rule registry_okI)
    (auto simp: registry_okD hmap_ok_hput simp del: map_of_eq_Some_iff split: if_splits)

lemma discovery_response_ok [inv_intros]:
  assumes "registry_ok reg"
  shows "registry_ok (snd (accept_discovery_response response now reg))"
proof -
  have new: "registry_ok (reg\<lparr>reg_nodes := hemplace (ni_uuid i)
     \<lparr>nr_identity = i, nr_node_id = 0, nr_online = True, nr_assigned = False, nr_last_seen = now\<rparr>
     (reg_nodes reg)\<rparr>)" for i
    by (rule registry_okI)
      (use registry_okD [OF assms] in \<open>auto simp: map_of_hemplace node_ok_def hmap_ok_hemplace
        simp del: map_of_eq_Some_iff split: if_splits\<close>)
  have known: "registry_ok (reg\<lparr>reg_nodes := hput (ni_uuid i)
     (node\<lparr>nr_identity := i, nr_online := True, nr_last_seen := now\<rparr>) (reg_nodes reg)\<rparr>)"
    if "map_of (reg_nodes reg) (ni_uuid i) = Some node" for i node
    using registry_okD(3) [OF assms that] by (intro put_node_ok assms) (simp add: node_ok_def)
  show ?thesis
    using assms new known by (auto simp: accept_discovery_response_def split: sum.split option.split)
qed

lemma assignment_ok [inv_intros]:
  "registry_ok reg \<Longrightarrow> registry_ok (snd (make_node_assignment uuid node_id rid reg))"
  using registry_okD(3) [of reg uuid]
  by (auto simp: make_node_assignment_def node_ok_def intro!: put_node_ok split: sum.split option.split)

lemma unconfirmed_ok [inv_intros]:
  "registry_ok reg \<Longrightarrow> registry_ok (snd (mark_assignment_unconfirmed uuid reg))"
  using registry_okD(3) [of reg uuid]
  by (auto simp: mark_assignment_unconfirmed_def node_ok_def intro!: put_node_ok split: option.split)

lemma heartbeat_ok [inv_intros]:
  "registry_ok reg \<Longrightarrow> registry_ok (snd (accept_heartbeat heartbeat now reg))"
  using registry_okD(3) [of reg]
  by (auto simp: accept_heartbeat_def node_ok_def Let_def intro!: put_node_ok
      split: sum.split option.split)

lemma registry_expire_ok [inv_intros]:
  "registry_ok reg \<Longrightarrow> registry_ok (snd (registry_expire now reg))"
  by (rule registry_okI)
    (auto simp: registry_expire_def Let_def registry_okD node_ok_def simp del: map_of_eq_Some_iff
      dest!: registry_okD(3) split: if_splits)

inductive registry_reachable :: "node_registry \<Rightarrow> bool" where
  created: "node_registry_new timeout = Inr reg \<Longrightarrow> registry_reachable reg"
| discovered: "registry_reachable reg \<Longrightarrow>
    registry_reachable (snd (accept_discovery_response response now reg))"
| assigned: "registry_reachable reg \<Longrightarrow>
    registry_reachable (snd (make_node_assignment uuid node_id rid reg))"
| unconfirmed: "registry_reachable reg \<Longrightarrow>
    registry_reachable (snd (mark_assignment_unconfirmed uuid reg))"
| heartbeat: "registry_reachable reg \<Longrightarrow>
    registry_reachable (snd (accept_heartbeat hb now reg))"
| expired: "registry_reachable reg \<Longrightarrow> registry_reachable (snd (registry_expire now reg))"

lemma registry_reachable_ok: "registry_reachable reg \<Longrightarrow> registry_ok reg"
proof (induction rule: registry_reachable.induct)
  case (created timeout reg)
  then show ?case by (auto simp: node_registry_new_def registry_ok_def split: if_splits)
qed (simp_all add: inv_intros)

subsection \<open>Properties\<close>

lemma expire_members:
  "hmap_ok (reg_nodes reg) \<Longrightarrow>
   uuid \<in> set (fst (registry_expire now reg)) \<longleftrightarrow>
     (\<exists>node. map_of (reg_nodes reg) uuid = Some node \<and>
             node_silent (reg_offline_timeout reg) now node)"
  by (force simp: registry_expire_def Let_def)

text \<open>
  In every reachable registry each record is stored under the UUID of its identity and an
  assigned node has a non-zero id. \<open>expire\<close> reports exactly the online nodes that have been
  silent for the timeout, each once; afterwards every online node was heard within the timeout,
  and a further \<open>expire\<close> does not report the same nodes again.
\<close>

lemma expire_reports_once:
  assumes "registry_reachable reg" and "registry_expire now reg = (gone, reg')"
  shows "registry_ok reg \<and> distinct gone \<and>
    (\<forall>uuid. uuid \<in> set gone \<longleftrightarrow>
       (\<exists>node. find_node uuid reg = Some node \<and> node_silent (reg_offline_timeout reg) now node)) \<and>
    (\<forall>uuid node. find_node uuid reg' = Some node \<longrightarrow>
       \<not> node_silent (reg_offline_timeout reg') now node) \<and>
    set (fst (registry_expire later reg')) \<inter> set gone = {}"
proof -
  have ok: "registry_ok reg" using assms(1) by (rule registry_reachable_ok)
  have dist: "hmap_ok (reg_nodes reg)" by (rule registry_okD(2) [OF ok])
  define silent where "silent = node_silent (reg_offline_timeout reg) now"
  have gone: "gone = map fst (filter (\<lambda>entry. silent (snd entry)) (reg_nodes reg))"
    and reg': "reg' = reg\<lparr>reg_nodes :=
      hmap_values (\<lambda>node. if silent node then node\<lparr>nr_online := False\<rparr> else node) (reg_nodes reg)\<rparr>"
    using assms(2) by (simp_all add: registry_expire_def Let_def silent_def)
  have members: "uuid \<in> set gone \<longleftrightarrow> (\<exists>node. find_node uuid reg = Some node \<and> silent node)" for uuid
    using expire_members [OF dist, of uuid now] assms(2) by (simp add: find_node_def silent_def)
  have after: "\<not> node_silent (reg_offline_timeout reg') now node"
    if "find_node uuid reg' = Some node" for uuid node
  proof -
    obtain n where "node = (if silent n then n\<lparr>nr_online := False\<rparr> else n)"
      using \<open>find_node uuid reg' = Some node\<close>
      by (auto simp: find_node_def reg' simp del: map_of_eq_Some_iff)
    then show ?thesis by (cases "silent n") (simp_all add: reg' silent_def node_silent_def)
  qed
  have "uuid \<notin> set (fst (registry_expire later reg'))" if u: "uuid \<in> set gone" for uuid
  proof -
    obtain node where "find_node uuid reg = Some node" "silent node"
      using members [of uuid] u by blast
    then have "map_of (reg_nodes reg') uuid = Some (node\<lparr>nr_online := False\<rparr>)"
      by (simp add: reg' find_node_def del: map_of_eq_Some_iff)
    moreover have "hmap_ok (reg_nodes reg')" using dist by (simp add: reg')
    ultimately show ?thesis
      by (simp add: expire_members node_silent_def del: map_of_eq_Some_iff)
  qed
  moreover have "distinct gone" using dist by (auto simp: gone)
  ultimately show ?thesis using ok members after by (auto simp: silent_def)
qed

text \<open>A registry that has seen one node, for the witnesses.\<close>

definition first_uuid :: node_uuid where
  "first_uuid = copy_uuid []"

definition first_identity :: node_identity where
  "first_identity = \<lparr>ni_uuid = first_uuid, ni_firmware_major = 1, ni_firmware_minor = 0,
     ni_firmware_patch = 0, ni_board_type = 7, ni_protocol_version = 1\<rparr>"

definition discovery_answer :: packet where
  "discovery_answer = \<lparr>header = default_header\<lparr>ph_message_type := message_type_code Response,
     ph_command := command_code DiscoveryResponse\<rparr>, payload = encode_node_identity first_identity\<rparr>"

definition one_node :: node_registry where
  "one_node = \<lparr>reg_offline_timeout = 2000, reg_nodes = [(first_uuid, \<lparr>nr_identity = first_identity,
     nr_node_id = 0, nr_online = True, nr_assigned = False, nr_last_seen = 10\<rparr>)]\<rparr>"

lemma decode_first: "decode_node_identity (encode_node_identity i) = Inr i"
  using node_identity_wire.dec_enc by simp

lemma one_node_reachable: "registry_reachable one_node"
proof -
  have "registry_reachable \<lparr>reg_offline_timeout = 2000, reg_nodes = []\<rparr>"
    by (rule registry_reachable.created [of 2000]) (simp add: node_registry_new_def)
  from registry_reachable.discovered [OF this, of discovery_answer 10] show ?thesis
    by (simp add: accept_discovery_response_def discovery_answer_def decode_first hemplace_def
        one_node_def first_identity_def)
qed

text \<open>
  The assignment handshake: assigning a non-zero id to a known node produces a NODE_ASSIGN
  request whose payload decodes to exactly that UUID and id and leaves the node unconfirmed; the
  heartbeat the node then sends with that id confirms it, marks the node online at that time, and
  the id is found.
\<close>

theorem assignment_handshake:
  assumes "find_node uuid reg = Some node" and "node_id \<noteq> 0"
    and "ph_message_type (header hb) = message_type_code Event"
    and "ph_command (header hb) = command_code Heartbeat"
    and "ph_object_id (header hb) = node_id"
    and "payload hb = encode_heartbeat
           \<lparr>hb_uuid = uuid, hb_protocol_version = ni_protocol_version (nr_identity node)\<rparr>"
  shows "\<exists>p reg1 reg2. make_node_assignment uuid node_id rid reg = (Inr p, reg1) \<and>
    decode_node_assignment (payload p) = Inr \<lparr>na_uuid = uuid, na_node_id = node_id\<rparr> \<and>
    ph_command (header p) = command_code NodeAssign \<and> ph_request_id (header p) = rid \<and>
    find_node uuid reg1 = Some (node\<lparr>nr_node_id := node_id, nr_assigned := False\<rparr>) \<and>
    accept_heartbeat hb now reg1 = (Inr True, reg2) \<and>
    find_node uuid reg2 = Some (node\<lparr>nr_online := True, nr_last_seen := now,
                                      nr_node_id := node_id, nr_assigned := True\<rparr>) \<and>
    find_by_node_id node_id reg2 \<noteq> None"
proof -
  obtain bs where bs: "encode_node_assignment \<lparr>na_uuid = uuid, na_node_id = node_id\<rparr> = Inr bs"
    using assms(2) by (simp add: encode_node_assignment_def)
  define p where "p = \<lparr>header = default_header\<lparr>ph_message_type := message_type_code Request,
     ph_command := command_code NodeAssign, ph_request_id := rid\<rparr>, payload = bs\<rparr>"
  define reg1 where "reg1 = reg\<lparr>reg_nodes :=
     hput uuid (node\<lparr>nr_node_id := node_id, nr_assigned := False\<rparr>) (reg_nodes reg)\<rparr>"
  define node2 where "node2 = node\<lparr>nr_online := True, nr_last_seen := now,
     nr_node_id := node_id, nr_assigned := True\<rparr>"
  define reg2 where "reg2 = reg1\<lparr>reg_nodes := hput uuid node2 (reg_nodes reg1)\<rparr>"
  have "make_node_assignment uuid node_id rid reg = (Inr p, reg1)"
    using assms(1) bs by (simp add: make_node_assignment_def find_node_def p_def reg1_def)
  moreover have "decode_node_assignment (payload p) = Inr \<lparr>na_uuid = uuid, na_node_id = node_id\<rparr>"
    using node_assignment_wire.dec_enc [OF bs] by (simp add: p_def)
  moreover have "accept_heartbeat hb now reg1 = (Inr True, reg2)"
    using assms heartbeat_wire.dec_enc [OF refl]
    by (simp add: accept_heartbeat_def reg1_def reg2_def node2_def Let_def)
  moreover have "find_by_node_id node_id reg2 \<noteq> None"
  proof -
    have "(uuid, node2) \<in> set (reg_nodes reg2)"
      by (rule map_of_SomeD) (simp add: reg2_def)
    then have "\<exists>entry. entry \<in> set (reg_nodes reg2) \<and> nr_node_id (snd entry) = node_id"
      by (intro exI [of _ "(uuid, node2)"]) (simp add: node2_def)
    then show ?thesis unfolding find_by_node_id_def option.map_disc_iff find_None_iff by blast
  qed
  ultimately show ?thesis
    by (intro exI [of _ p] exI [of _ reg1] exI [of _ reg2])
      (simp_all add: p_def reg1_def reg2_def node2_def find_node_def)
qed

theorem assignment_handshake_witness:
  "\<exists>p reg1 reg2. make_node_assignment first_uuid 5 3 one_node = (Inr p, reg1) \<and>
     find_by_node_id 5 reg2 \<noteq> None"
  using assignment_handshake [of first_uuid one_node
      "\<lparr>nr_identity = first_identity, nr_node_id = 0, nr_online = True, nr_assigned = False,
        nr_last_seen = 10\<rparr>" 5
      "\<lparr>header = default_header\<lparr>ph_message_type := message_type_code Event,
          ph_command := command_code Heartbeat, ph_object_id := 5\<rparr>,
        payload = encode_heartbeat \<lparr>hb_uuid = first_uuid, hb_protocol_version = 1\<rparr>\<rparr>" 3 20]
  by (simp add: one_node_def find_node_def first_identity_def) blast

end
