(* ===== verification/Resource_Payload.thy ===== *)
theory Resource_Payload
  imports Wire
begin

text \<open>
  \<^verbatim>\<open>protocol/include/remotebsp/protocol/resource.hpp\<close> and \<^verbatim>\<open>protocol/src/resource.cpp\<close>: resource
  descriptors, lists, status, contracts and leases on the wire. Fields of an enumeration type
  hold the raw byte; the \<open>_code\<close> functions give the enumerators. All codecs are interpreted as
  record codecs and the resource list as a canonical codec on top of the descriptor's.
\<close>

subsection \<open>Constants and data\<close>

datatype resource_type =
  RT_Gpio | RT_Uart | RT_Spi | RT_I2c | RT_Adc | RT_Pwm | RT_Timer | RT_Storage | RT_StepgenAxis

fun resource_type_code :: "resource_type \<Rightarrow> byte" where
  "resource_type_code RT_Gpio = 1"
| "resource_type_code RT_Uart = 2"
| "resource_type_code RT_Spi = 3"
| "resource_type_code RT_I2c = 4"
| "resource_type_code RT_Adc = 5"
| "resource_type_code RT_Pwm = 6"
| "resource_type_code RT_Timer = 7"
| "resource_type_code RT_Storage = 8"
| "resource_type_code RT_StepgenAxis = 9"

definition kResourceFlagNative :: u16 where "kResourceFlagNative = 0x0001"
definition kResourceFlagExpanded :: u16 where "kResourceFlagExpanded = 0x0002"
definition kResourceContractVersion :: u16 where "kResourceContractVersion = 1"
definition kResourceAccessReadable :: u16 where "kResourceAccessReadable = 0x0001"
definition kResourceAccessWritable :: u16 where "kResourceAccessWritable = 0x0002"
definition kResourceAccessSharedRead :: u16 where "kResourceAccessSharedRead = 0x0004"
definition kResourceAccessExclusiveWrite :: u16 where "kResourceAccessExclusiveWrite = 0x0008"
definition kResourceAccessLeaseSupported :: u16 where "kResourceAccessLeaseSupported = 0x0010"
definition kResourceAccessLeaseRequired :: u16 where "kResourceAccessLeaseRequired = 0x0020"

record resource_descriptor =
  rd_resource_id :: u32
  rd_type :: byte
  rd_instance :: u16
  rd_flags :: u16
  rd_rx_capacity :: u32
  rd_tx_capacity :: u32

datatype resource_health = RH_Normal | RH_Busy | RH_Degraded | RH_Failed | RH_Disabled

fun resource_health_code :: "resource_health \<Rightarrow> byte" where
  "resource_health_code RH_Normal = 0"
| "resource_health_code RH_Busy = 1"
| "resource_health_code RH_Degraded = 2"
| "resource_health_code RH_Failed = 3"
| "resource_health_code RH_Disabled = 4"

record resource_status_payload =
  rs_resource_id :: u32
  rs_health :: byte
  rs_error_flags :: u32
  rs_rx_buffered :: u32
  rs_tx_buffered :: u32
  rs_rx_overruns :: u32
  rs_tx_overruns :: u32

record resource_contract =
  rc_resource_id :: u32
  rc_version :: u16
  rc_access_flags :: u16
  rc_timing_resolution_ns :: u32
  rc_worst_case_latency_us :: u32
  rc_maximum_operations_per_second :: u32
  rc_queue_capacity :: u32
  rc_maximum_rx_bits_per_second :: u32
  rc_maximum_tx_bits_per_second :: u32

datatype lease_mode = LM_None | LM_SharedRead | LM_Exclusive

fun lease_mode_code :: "lease_mode \<Rightarrow> byte" where
  "lease_mode_code LM_None = 0"
| "lease_mode_code LM_SharedRead = 1"
| "lease_mode_code LM_Exclusive = 2"

record resource_lease_request =
  lr_resource_id :: u32
  lr_duration_ms :: u32
  lr_mode :: byte

record resource_lease_token_request =
  lt_resource_id :: u32
  lt_lease_id :: u64
  lt_duration_ms :: u32

record resource_lease_info =
  li_resource_id :: u32
  li_lease_id :: u64
  li_owner_session_id :: u32
  li_granted_duration_ms :: u32
  li_remaining_ms :: u32
  li_mode :: byte
  li_active_lease_count :: u16

definition kResourceErrorRxOverflow :: u32 where "kResourceErrorRxOverflow = 0x00000001"
definition kResourceErrorTxOverflow :: u32 where "kResourceErrorTxOverflow = 0x00000002"
definition kResourceErrorBackendFailure :: u32 where "kResourceErrorBackendFailure = 0x00000004"
definition kResourceErrorRxHighWater :: u32 where "kResourceErrorRxHighWater = 0x00000008"
definition kResourceErrorTxHighWater :: u32 where "kResourceErrorTxHighWater = 0x00000010"

datatype resource_payload_error =
    RPE_InvalidLength | RPE_InvalidType | RPE_InvalidHealth | RPE_InvalidContractVersion
  | RPE_InvalidLeaseMode | RPE_TooManyResources

definition kDescriptorSize :: nat where "kDescriptorSize = 17"
definition kContractSize :: nat where "kContractSize = 32"
definition kLeaseRequestSize :: nat where "kLeaseRequestSize = 9"
definition kLeaseTokenRequestSize :: nat where "kLeaseTokenRequestSize = 16"
definition kLeaseInfoSize :: nat where "kLeaseInfoSize = 27"

lemmas resource_sizes = kDescriptorSize_def kContractSize_def kLeaseRequestSize_def
  kLeaseTokenRequestSize_def kLeaseInfoSize_def

subsection \<open>Codecs\<close>

definition valid_type :: "byte \<Rightarrow> bool" where
  "valid_type value \<longleftrightarrow>
     resource_type_code RT_Gpio \<le> value \<and> value \<le> resource_type_code RT_StepgenAxis"

definition valid_lease_mode :: "byte \<Rightarrow> bool \<Rightarrow> bool" where
  "valid_lease_mode value allow_none \<longleftrightarrow>
     (let minimum = (if allow_none then LM_None else LM_SharedRead)
      in lease_mode_code minimum \<le> value \<and> value \<le> lease_mode_code LM_Exclusive)"

definition encode_resource_id :: "u32 \<Rightarrow> byte list" where
  "encode_resource_id resource_id = put_u32 resource_id"

definition decode_resource_id :: "byte list \<Rightarrow> resource_payload_error + u32" where
  "decode_resource_id p = (if length p \<noteq> 4 then Inl RPE_InvalidLength else Inr (get_u32 p))"

definition encode_resource_descriptor ::
  "resource_descriptor \<Rightarrow> resource_payload_error + byte list" where
  "encode_resource_descriptor d =
     (if \<not> valid_type (rd_type d) then Inl RPE_InvalidType
      else Inr (put_u32 (rd_resource_id d) @ [rd_type d] @ put_u16 (rd_instance d) @
                put_u16 (rd_flags d) @ put_u32 (rd_rx_capacity d) @ put_u32 (rd_tx_capacity d)))"

definition decode_resource_descriptor ::
  "byte list \<Rightarrow> resource_payload_error + resource_descriptor" where
  "decode_resource_descriptor p =
     (if length p \<noteq> kDescriptorSize then Inl RPE_InvalidLength
      else if \<not> valid_type (p ! 4) then Inl RPE_InvalidType
      else Inr \<lparr>rd_resource_id = get_u32 p, rd_type = p ! 4, rd_instance = get_u16 (drop 5 p),
                rd_flags = get_u16 (drop 7 p), rd_rx_capacity = get_u32 (drop 9 p),
                rd_tx_capacity = get_u32 (drop 13 p)\<rparr>)"

definition encode_resource_list ::
  "resource_descriptor list \<Rightarrow> resource_payload_error + byte list" where
  "encode_resource_list resources =
     (if length resources > 0xFFFF then Inl RPE_TooManyResources
      else try_bind (traverse encode_resource_descriptor resources)
        (\<lambda>encoded. Inr (put_u16 (word_of_nat (length resources)) @ concat encoded)))"

definition decode_resource_list ::
  "byte list \<Rightarrow> resource_payload_error + resource_descriptor list" where
  "decode_resource_list p =
     (if length p < 2 then Inl RPE_InvalidLength
      else let count = unat (get_u16 p) in
        if length p \<noteq> 2 + count * kDescriptorSize then Inl RPE_InvalidLength
        else traverse decode_resource_descriptor (chunks kDescriptorSize count (drop 2 p)))"

definition encode_resource_status ::
  "resource_status_payload \<Rightarrow> resource_payload_error + byte list" where
  "encode_resource_status s =
     (if rs_health s > resource_health_code RH_Disabled then Inl RPE_InvalidHealth
      else Inr (put_u32 (rs_resource_id s) @ [rs_health s] @ put_u32 (rs_error_flags s) @
                put_u32 (rs_rx_buffered s) @ put_u32 (rs_tx_buffered s) @
                put_u32 (rs_rx_overruns s) @ put_u32 (rs_tx_overruns s)))"

definition decode_resource_status ::
  "byte list \<Rightarrow> resource_payload_error + resource_status_payload" where
  "decode_resource_status p =
     (if length p \<noteq> 25 then Inl RPE_InvalidLength
      else if p ! 4 > resource_health_code RH_Disabled then Inl RPE_InvalidHealth
      else Inr \<lparr>rs_resource_id = get_u32 p, rs_health = p ! 4, rs_error_flags = get_u32 (drop 5 p),
                rs_rx_buffered = get_u32 (drop 9 p), rs_tx_buffered = get_u32 (drop 13 p),
                rs_rx_overruns = get_u32 (drop 17 p), rs_tx_overruns = get_u32 (drop 21 p)\<rparr>)"

definition encode_resource_contract ::
  "resource_contract \<Rightarrow> resource_payload_error + byte list" where
  "encode_resource_contract c =
     (if rc_version c \<noteq> kResourceContractVersion then Inl RPE_InvalidContractVersion
      else Inr (put_u32 (rc_resource_id c) @ put_u16 (rc_version c) @ put_u16 (rc_access_flags c) @
                put_u32 (rc_timing_resolution_ns c) @ put_u32 (rc_worst_case_latency_us c) @
                put_u32 (rc_maximum_operations_per_second c) @ put_u32 (rc_queue_capacity c) @
                put_u32 (rc_maximum_rx_bits_per_second c) @
                put_u32 (rc_maximum_tx_bits_per_second c)))"

definition decode_resource_contract ::
  "byte list \<Rightarrow> resource_payload_error + resource_contract" where
  "decode_resource_contract p =
     (if length p \<noteq> kContractSize then Inl RPE_InvalidLength
      else if get_u16 (drop 4 p) \<noteq> kResourceContractVersion then Inl RPE_InvalidContractVersion
      else Inr \<lparr>rc_resource_id = get_u32 p, rc_version = get_u16 (drop 4 p),
                rc_access_flags = get_u16 (drop 6 p),
                rc_timing_resolution_ns = get_u32 (drop 8 p),
                rc_worst_case_latency_us = get_u32 (drop 12 p),
                rc_maximum_operations_per_second = get_u32 (drop 16 p),
                rc_queue_capacity = get_u32 (drop 20 p),
                rc_maximum_rx_bits_per_second = get_u32 (drop 24 p),
                rc_maximum_tx_bits_per_second = get_u32 (drop 28 p)\<rparr>)"

definition encode_resource_lease_request ::
  "resource_lease_request \<Rightarrow> resource_payload_error + byte list" where
  "encode_resource_lease_request r =
     (if \<not> valid_lease_mode (lr_mode r) False then Inl RPE_InvalidLeaseMode
      else Inr (put_u32 (lr_resource_id r) @ put_u32 (lr_duration_ms r) @ [lr_mode r]))"

definition decode_resource_lease_request ::
  "byte list \<Rightarrow> resource_payload_error + resource_lease_request" where
  "decode_resource_lease_request p =
     (if length p \<noteq> kLeaseRequestSize then Inl RPE_InvalidLength
      else if \<not> valid_lease_mode (p ! 8) False then Inl RPE_InvalidLeaseMode
      else Inr \<lparr>lr_resource_id = get_u32 p, lr_duration_ms = get_u32 (drop 4 p), lr_mode = p ! 8\<rparr>)"

definition encode_resource_lease_token_request :: "resource_lease_token_request \<Rightarrow> byte list" where
  "encode_resource_lease_token_request r =
     put_u32 (lt_resource_id r) @ put_u64 (lt_lease_id r) @ put_u32 (lt_duration_ms r)"

definition decode_resource_lease_token_request ::
  "byte list \<Rightarrow> resource_payload_error + resource_lease_token_request" where
  "decode_resource_lease_token_request p =
     (if length p \<noteq> kLeaseTokenRequestSize then Inl RPE_InvalidLength
      else Inr \<lparr>lt_resource_id = get_u32 p, lt_lease_id = get_u64 (drop 4 p),
                lt_duration_ms = get_u32 (drop 12 p)\<rparr>)"

definition encode_resource_lease_info ::
  "resource_lease_info \<Rightarrow> resource_payload_error + byte list" where
  "encode_resource_lease_info i =
     (if \<not> valid_lease_mode (li_mode i) True then Inl RPE_InvalidLeaseMode
      else Inr (put_u32 (li_resource_id i) @ put_u64 (li_lease_id i) @
                put_u32 (li_owner_session_id i) @ put_u32 (li_granted_duration_ms i) @
                put_u32 (li_remaining_ms i) @ [li_mode i] @ put_u16 (li_active_lease_count i)))"

definition decode_resource_lease_info ::
  "byte list \<Rightarrow> resource_payload_error + resource_lease_info" where
  "decode_resource_lease_info p =
     (if length p \<noteq> kLeaseInfoSize then Inl RPE_InvalidLength
      else if \<not> valid_lease_mode (p ! 24) True then Inl RPE_InvalidLeaseMode
      else Inr \<lparr>li_resource_id = get_u32 p, li_lease_id = get_u64 (drop 4 p),
                li_owner_session_id = get_u32 (drop 12 p),
                li_granted_duration_ms = get_u32 (drop 16 p),
                li_remaining_ms = get_u32 (drop 20 p), li_mode = p ! 24,
                li_active_lease_count = get_u16 (drop 25 p)\<rparr>)"

subsection \<open>The codec laws\<close>

text \<open>One record: unfold both directions, read back or glue the slices together.\<close>

interpretation resource_id_wire: record_codec "\<lambda>i. Inr (encode_resource_id i)" decode_resource_id id 4
  by unfold_locales (auto simp: encode_resource_id_def decode_resource_id_def put_get_take split: if_splits)

lemmas descriptor_defs = encode_resource_descriptor_def decode_resource_descriptor_def resource_sizes

interpretation descriptor_wire:
  record_codec encode_resource_descriptor decode_resource_descriptor id 17
proof
  fix x bs
  show "encode_resource_descriptor x = Inr bs \<Longrightarrow> decode_resource_descriptor bs = Inr (id x)"
    by (auto simp: descriptor_defs nth_append)
  show "decode_resource_descriptor bs = Inr x \<Longrightarrow> encode_resource_descriptor x = Inr bs"
    by (auto simp: descriptor_defs put_get_at put_get_take join_simps split: if_splits)
  show "encode_resource_descriptor x = Inr bs \<Longrightarrow> length bs = 17"
    by (auto simp: descriptor_defs)
qed

lemmas status_defs = encode_resource_status_def decode_resource_status_def

interpretation status_wire: record_codec encode_resource_status decode_resource_status id 25
proof
  fix x bs
  show "encode_resource_status x = Inr bs \<Longrightarrow> decode_resource_status bs = Inr (id x)"
    by (auto simp: status_defs nth_append)
  show "decode_resource_status bs = Inr x \<Longrightarrow> encode_resource_status x = Inr bs"
    by (auto simp: status_defs put_get_at put_get_take join_simps split: if_splits)
  show "encode_resource_status x = Inr bs \<Longrightarrow> length bs = 25"
    by (auto simp: status_defs)
qed

lemmas contract_defs = encode_resource_contract_def decode_resource_contract_def resource_sizes

interpretation contract_wire: record_codec encode_resource_contract decode_resource_contract id 32
proof
  fix x bs
  show "encode_resource_contract x = Inr bs \<Longrightarrow> decode_resource_contract bs = Inr (id x)"
    by (auto simp: contract_defs)
  show "decode_resource_contract bs = Inr x \<Longrightarrow> encode_resource_contract x = Inr bs"
    using put_get_at(1) [of 4 bs]
    by (auto simp: contract_defs put_get_at put_get_take join_simps split: if_splits)
  show "encode_resource_contract x = Inr bs \<Longrightarrow> length bs = 32"
    by (auto simp: contract_defs)
qed

lemmas lease_request_defs = encode_resource_lease_request_def decode_resource_lease_request_def
  resource_sizes

interpretation lease_request_wire:
  record_codec encode_resource_lease_request decode_resource_lease_request id 9
proof
  fix x bs
  show "encode_resource_lease_request x = Inr bs \<Longrightarrow> decode_resource_lease_request bs = Inr (id x)"
    by (auto simp: lease_request_defs nth_append)
  show "decode_resource_lease_request bs = Inr x \<Longrightarrow> encode_resource_lease_request x = Inr bs"
    by (auto simp: lease_request_defs put_get_at put_get_take join_simps split: if_splits)
  show "encode_resource_lease_request x = Inr bs \<Longrightarrow> length bs = 9"
    by (auto simp: lease_request_defs)
qed

lemmas lease_token_defs = encode_resource_lease_token_request_def
  decode_resource_lease_token_request_def resource_sizes

interpretation lease_token_wire:
  record_codec "\<lambda>r. Inr (encode_resource_lease_token_request r)"
    decode_resource_lease_token_request id 16
proof
  fix x bs
  show "Inr (encode_resource_lease_token_request x) = Inr bs \<Longrightarrow>
      decode_resource_lease_token_request bs = Inr (id x)"
    by (auto simp: lease_token_defs)
  show "decode_resource_lease_token_request bs = Inr x \<Longrightarrow>
      Inr (encode_resource_lease_token_request x) = Inr bs"
    by (auto simp: lease_token_defs put_get_at put_get_take join_simps split: if_splits)
  show "Inr (encode_resource_lease_token_request x) = Inr bs \<Longrightarrow> length bs = 16"
    by (auto simp: lease_token_defs)
qed

lemmas lease_info_defs = encode_resource_lease_info_def decode_resource_lease_info_def resource_sizes

interpretation lease_info_wire:
  record_codec encode_resource_lease_info decode_resource_lease_info id 27
proof
  fix x bs
  show "encode_resource_lease_info x = Inr bs \<Longrightarrow> decode_resource_lease_info bs = Inr (id x)"
    by (auto simp: lease_info_defs nth_append)
  show "decode_resource_lease_info bs = Inr x \<Longrightarrow> encode_resource_lease_info x = Inr bs"
    by (auto simp: lease_info_defs put_get_at put_get_take join_simps split: if_splits)
  show "encode_resource_lease_info x = Inr bs \<Longrightarrow> length bs = 27"
    by (auto simp: lease_info_defs)
qed

text \<open>The list rests on the table lemmas of the descriptor's codec.\<close>

interpretation resource_list_wire: canonical_codec encode_resource_list decode_resource_list id
proof
  fix xs bs
  show "decode_resource_list bs = Inr (id xs)" if enc: "encode_resource_list xs = Inr bs"
  proof -
    have n: "length xs \<le> 0xFFFF" using enc by (auto simp: encode_resource_list_def split: if_splits)
    then obtain bss where bss: "traverse encode_resource_descriptor xs = Inr bss"
      and bs: "bs = put_u16 (word_of_nat (length xs)) @ concat bss"
      using enc by (auto simp: encode_resource_list_def try_bind_Inr_iff)
    have "unat (word_of_nat (length xs) :: u16) = length xs"
      using n by (simp add: unat_of_nat_small)
    then show ?thesis
      using descriptor_wire.enc_list_length [OF bss]
        descriptor_wire.dec_table [OF bss, of "[]"]
      by (simp add: decode_resource_list_def bs resource_sizes)
  qed
  show "encode_resource_list xs = Inr bs" if dec: "decode_resource_list bs = Inr xs"
  proof -
    define n where "n = unat (get_u16 bs)"
    have len: "length bs = 2 + n * 17" "2 \<le> length bs"
      and t: "traverse decode_resource_descriptor (chunks 17 n (drop 2 bs)) = Inr xs"
      using dec by (auto simp: decode_resource_list_def resource_sizes n_def Let_def split: if_splits)
    have xs: "length xs = n" using traverse_length [OF t] by simp
    obtain bss where bss: "traverse encode_resource_descriptor xs = Inr bss" "concat bss = drop 2 bs"
      using descriptor_wire.enc_table [of "drop 2 bs" n xs] t len by auto
    have "n < 2 ^ 16" unfolding n_def using unsigned_less [of "get_u16 bs"] by simp
    moreover have "(word_of_nat n :: u16) = get_u16 bs" by (simp add: n_def)
    ultimately show ?thesis
      using bss len by (simp add: encode_resource_list_def xs put_get_take)
  qed
qed

subsection \<open>Properties\<close>

text \<open>
  Every resource decoder accepts a payload exactly when it is the encoding of the value it
  returns; in particular a resource list is accepted exactly when its count field, its length and
  every 17-byte descriptor agree.
\<close>

lemma resource_payloads_canonical:
  "(decode_resource_id bs = Inr rid \<longleftrightarrow> encode_resource_id rid = bs) \<and>
   (decode_resource_descriptor bs = Inr d \<longleftrightarrow> encode_resource_descriptor d = Inr bs) \<and>
   (decode_resource_list bs = Inr ds \<longleftrightarrow> encode_resource_list ds = Inr bs) \<and>
   (decode_resource_status bs = Inr s \<longleftrightarrow> encode_resource_status s = Inr bs) \<and>
   (decode_resource_contract bs = Inr c \<longleftrightarrow> encode_resource_contract c = Inr bs) \<and>
   (decode_resource_lease_request bs = Inr lr \<longleftrightarrow> encode_resource_lease_request lr = Inr bs) \<and>
   (decode_resource_lease_token_request bs = Inr lt \<longleftrightarrow>
      encode_resource_lease_token_request lt = bs) \<and>
   (decode_resource_lease_info bs = Inr li \<longleftrightarrow> encode_resource_lease_info li = Inr bs)"
  by (simp add: resource_id_wire.dec_iff descriptor_wire.dec_iff resource_list_wire.dec_iff
      status_wire.dec_iff contract_wire.dec_iff lease_request_wire.dec_iff
      lease_token_wire.dec_iff lease_info_wire.dec_iff)

end
