(* ===== verification/Gpio_Bsp.thy ===== *)
theory Gpio_Bsp
  imports Prelude
begin

text \<open>
  \<^verbatim>\<open>mock_mcu/include/remotebsp/mock_mcu/gpio_bsp.hpp\<close> and \<^verbatim>\<open>mock_mcu/src/gpio_bsp.cpp\<close>: the
  simulated pins. \<open>gpio_backend\<close> is the contract of the abstract class \<^verbatim>\<open>GpioBsp\<close> that the remote
  core relies on, interpreted on the simulation.
\<close>

subsection \<open>State and operations\<close>

datatype gpio_direction = GD_Input | GD_Output

fun gpio_direction_code :: "gpio_direction \<Rightarrow> byte" where
  "gpio_direction_code GD_Input = 0"
| "gpio_direction_code GD_Output = 1"

datatype mock_gpio_error = PinNotConfigured | WriteToInput | InjectToOutput

record pin_state =
  pin_direction :: gpio_direction
  pin_value :: bool

record mock_gpio_bsp =
  gb_pins :: "(u16, pin_state) hmap"
  gb_pending_input_values :: "(u16, bool) hmap"
  gb_configure_count :: u64
  gb_read_count :: u64
  gb_write_count :: u64

definition mock_gpio_new :: mock_gpio_bsp where
  "mock_gpio_new = \<lparr>gb_pins = [], gb_pending_input_values = [], gb_configure_count = 0,
     gb_read_count = 0, gb_write_count = 0\<rparr>"

definition gpio_configure :: "u16 \<Rightarrow> gpio_direction \<Rightarrow> bool \<Rightarrow> mock_gpio_bsp \<Rightarrow> mock_gpio_bsp" where
  "gpio_configure pin direction initial_value b =
     (let v = (if direction = GD_Input
               then (case map_of (gb_pending_input_values b) pin of
                       Some p \<Rightarrow> p | None \<Rightarrow> initial_value)
               else initial_value)
      in b\<lparr>gb_pins := hput pin \<lparr>pin_direction = direction, pin_value = v\<rparr> (gb_pins b),
           gb_configure_count := gb_configure_count b + 1\<rparr>)"

definition gpio_read :: "u16 \<Rightarrow> mock_gpio_bsp \<Rightarrow> (mock_gpio_error + bool) \<times> mock_gpio_bsp" where
  "gpio_read pin b =
     (case map_of (gb_pins b) pin of
        None \<Rightarrow> (Inl PinNotConfigured, b)
      | Some st \<Rightarrow> (Inr (pin_value st), b\<lparr>gb_read_count := gb_read_count b + 1\<rparr>))"

definition gpio_write ::
  "u16 \<Rightarrow> bool \<Rightarrow> mock_gpio_bsp \<Rightarrow> (mock_gpio_error + unit) \<times> mock_gpio_bsp" where
  "gpio_write pin v b =
     (case map_of (gb_pins b) pin of
        None \<Rightarrow> (Inl PinNotConfigured, b)
      | Some st \<Rightarrow>
          if pin_direction st \<noteq> GD_Output then (Inl WriteToInput, b)
          else (Inr (), b\<lparr>gb_pins := hput pin (st\<lparr>pin_value := v\<rparr>) (gb_pins b),
                          gb_write_count := gb_write_count b + 1\<rparr>))"

definition set_input_value ::
  "u16 \<Rightarrow> bool \<Rightarrow> mock_gpio_bsp \<Rightarrow> (mock_gpio_error + unit) \<times> mock_gpio_bsp" where
  "set_input_value pin v b =
     (case map_of (gb_pins b) pin of
        None \<Rightarrow> (Inr (), b\<lparr>gb_pending_input_values := hput pin v (gb_pending_input_values b)\<rparr>)
      | Some st \<Rightarrow>
          if pin_direction st \<noteq> GD_Input then (Inl InjectToOutput, b)
          else (Inr (), b\<lparr>gb_pins := hput pin (st\<lparr>pin_value := v\<rparr>) (gb_pins b),
                  gb_pending_input_values := hput pin v (gb_pending_input_values b)\<rparr>))"

subsection \<open>The contract of a GPIO back end\<close>

text \<open>
  \<open>level s pin\<close> is the level an output pin drives, \<open>None\<close> for pins that are not outputs. The laws
  say what configuring, writing and reading do to it.
\<close>

locale gpio_backend =
  fixes configure :: "u16 \<Rightarrow> gpio_direction \<Rightarrow> bool \<Rightarrow> 's \<Rightarrow> 's"
    and read_pin :: "u16 \<Rightarrow> 's \<Rightarrow> ('e + bool) \<times> 's"
    and write_pin :: "u16 \<Rightarrow> bool \<Rightarrow> 's \<Rightarrow> ('e + unit) \<times> 's"
    and level :: "'s \<Rightarrow> u16 \<Rightarrow> bool option"
  assumes configure_level:
      "level (configure pin d v s) =
         (level s)(pin := (if d = GD_Output then Some v else None))"
    and write_output: "level s pin = Some w \<Longrightarrow>
      fst (write_pin pin v s) = Inr () \<and> level (snd (write_pin pin v s)) = (level s)(pin \<mapsto> v)"
    and write_rejected: "level s pin = None \<Longrightarrow>
      (\<exists>e. fst (write_pin pin v s) = Inl e) \<and> level (snd (write_pin pin v s)) = level s"
    and read_output: "level s pin = Some w \<Longrightarrow> fst (read_pin pin s) = Inr w"
    and read_keeps: "level (snd (read_pin pin s)) = level s"
begin

text \<open>What a pin drives after a sequence of writes is the last value written to it.\<close>

fun writes :: "(u16 \<times> bool) list \<Rightarrow> 's \<Rightarrow> 's" where
  "writes [] s = s"
| "writes ((pin, v) # ws) s = writes ws (snd (write_pin pin v s))"

lemma writes_level:
  "level s pin = Some w \<Longrightarrow>
   level (writes ws s) pin = Some (fold (\<lambda>(q, v) cur. if q = pin then v else cur) ws w)"
proof (induction ws arbitrary: s w)
  case Nil
  then show ?case by simp
next
  case (Cons e ws)
  obtain q v where e: "e = (q, v)" by (cases e)
  have "level (snd (write_pin q v s)) pin = Some (if q = pin then v else w)"
    using Cons.prems write_output [of s q _ v] write_rejected [of s q v]
    by (cases "level s q") auto
  from Cons.IH [OF this] show ?case by (simp add: e)
qed

lemma read_after_writes:
  "level s pin = Some w \<Longrightarrow>
   fst (read_pin pin (writes ws s)) = Inr (fold (\<lambda>(q, v) cur. if q = pin then v else cur) ws w)"
  by (rule read_output) (rule writes_level)

lemma configure_then_write:
  "fst (write_pin pin v (configure pin d w s)) = Inr () \<longleftrightarrow> d = GD_Output"
  using write_output [of "configure pin d w s" pin w v] write_rejected [of "configure pin d w s" pin v]
  by (cases d) (auto simp: configure_level)

end

definition output_level :: "mock_gpio_bsp \<Rightarrow> u16 \<Rightarrow> bool option" where
  "output_level b pin =
     (case map_of (gb_pins b) pin of
        None \<Rightarrow> None
      | Some st \<Rightarrow> if pin_direction st = GD_Output then Some (pin_value st) else None)"

interpretation mock_gpio: gpio_backend gpio_configure gpio_read gpio_write output_level
  by unfold_locales
    (auto simp: output_level_def gpio_configure_def gpio_read_def gpio_write_def Let_def fun_eq_iff
      split: option.splits if_splits)

subsection \<open>Properties\<close>

text \<open>
  An output pin reads back the last level written to it: after any sequence of writes, to any
  pins and including rejected ones, reading an output pin returns the value of the last write to
  that pin, or the level it drove before when there was none.
\<close>

lemma gpio_last_write:
  assumes "output_level b pin = Some w"
  shows "fst (gpio_read pin (mock_gpio.writes ws b)) =
    Inr (fold (\<lambda>(q, v) cur. if q = pin then v else cur) ws w)"
  using assms by (rule mock_gpio.read_after_writes)

end
