(* ===== verification/Uart_Bsp.thy ===== *)
theory Uart_Bsp
  imports Prelude
begin

text \<open>
  \<^verbatim>\<open>mock_mcu/include/remotebsp/mock_mcu/uart_bsp.hpp\<close> and \<^verbatim>\<open>mock_mcu/src/uart_bsp.cpp\<close>: the
  simulated serial ports with bounded buffers and saturating overrun counters. \<open>uart_backend\<close> is
  the contract of the abstract class \<^verbatim>\<open>UartBsp\<close>: received bytes are read in order and exactly
  once, a rejected transmission changes nothing in the buffers.
\<close>

subsection \<open>State\<close>

datatype uart_parity = UP_None | UP_Odd | UP_Even

fun uart_parity_code :: "uart_parity \<Rightarrow> byte" where
  "uart_parity_code UP_None = 0"
| "uart_parity_code UP_Odd = 1"
| "uart_parity_code UP_Even = 2"

record uart_config =
  uc_baud_rate :: u32
  uc_data_bits :: byte
  uc_stop_bits :: byte
  uc_parity :: byte

record uart_runtime_status =
  us_failed :: bool
  us_rx_buffered :: u32
  us_tx_buffered :: u32
  us_rx_overruns :: u32
  us_tx_overruns :: u32

datatype uart_error = PortNotConfigured | BufferOverflow | PortFailed | UartInvalidArgument

record port_state =
  ps_config :: uart_config
  ps_rx :: "byte list"
  ps_tx :: "byte list"
  ps_configured :: bool
  ps_failed :: bool
  ps_rx_overruns :: u32
  ps_tx_overruns :: u32

definition default_port :: port_state where
  "default_port = \<lparr>ps_config = \<lparr>uc_baud_rate = 0, uc_data_bits = 0, uc_stop_bits = 0, uc_parity = 0\<rparr>,
     ps_rx = [], ps_tx = [], ps_configured = False, ps_failed = False, ps_rx_overruns = 0,
     ps_tx_overruns = 0\<rparr>"

record mock_uart_bsp =
  ub_ports :: "(byte, port_state) hmap"
  ub_rx_capacity :: nat
  ub_tx_capacity :: nat
  ub_configure_count :: u64
  ub_read_count :: u64
  ub_write_count :: u64

definition uint32_max :: nat where
  "uint32_max = 2 ^ 32 - 1"

definition mock_uart_new :: "nat \<Rightarrow> nat \<Rightarrow> uart_error + mock_uart_bsp" where
  "mock_uart_new rx_capacity tx_capacity =
     (if rx_capacity = 0 \<or> tx_capacity = 0 \<or> rx_capacity > uint32_max \<or> tx_capacity > uint32_max
      then Inl UartInvalidArgument
      else Inr \<lparr>ub_ports = [], ub_rx_capacity = rx_capacity, ub_tx_capacity = tx_capacity,
                ub_configure_count = 0, ub_read_count = 0, ub_write_count = 0\<rparr>)"

subsection \<open>Operations\<close>

text \<open>\<^verbatim>\<open>ports_[port]\<close> inserts a default port when there is none.\<close>

definition port_at :: "byte \<Rightarrow> mock_uart_bsp \<Rightarrow> port_state" where
  "port_at port u = (case map_of (ub_ports u) port of Some st \<Rightarrow> st | None \<Rightarrow> default_port)"

definition put_port :: "byte \<Rightarrow> port_state \<Rightarrow> mock_uart_bsp \<Rightarrow> mock_uart_bsp" where
  "put_port port st u = u\<lparr>ub_ports := hput port st (ub_ports u)\<rparr>"

definition require_port :: "byte \<Rightarrow> mock_uart_bsp \<Rightarrow> uart_error + port_state" where
  "require_port port u =
     (case map_of (ub_ports u) port of
        None \<Rightarrow> Inl PortNotConfigured
      | Some st \<Rightarrow> if \<not> ps_configured st then Inl PortNotConfigured else Inr st)"

text \<open>The saturating addition of a count of lost bytes to an overrun counter.\<close>

definition add_overruns :: "u32 \<Rightarrow> nat \<Rightarrow> u32" where
  "add_overruns overruns lost =
     (let overflow = word_of_nat (min lost uint32_max)
      in if 0xFFFFFFFF - overruns < overflow then 0xFFFFFFFF else overruns + overflow)"

definition uart_configure ::
  "byte \<Rightarrow> uart_config \<Rightarrow> mock_uart_bsp \<Rightarrow> (uart_error + unit) \<times> mock_uart_bsp" where
  "uart_configure port config u =
     (let st = port_at port u; u1 = put_port port st u in
      if ps_failed st then (Inl PortFailed, u1)
      else (Inr (), (put_port port (st\<lparr>ps_config := config, ps_rx := [], ps_tx := [],
                        ps_configured := True, ps_rx_overruns := 0, ps_tx_overruns := 0\<rparr>) u1)
                     \<lparr>ub_configure_count := ub_configure_count u + 1\<rparr>))"

definition uart_read ::
  "byte \<Rightarrow> nat \<Rightarrow> mock_uart_bsp \<Rightarrow> (uart_error + byte list) \<times> mock_uart_bsp" where
  "uart_read port maximum_length u =
     (case require_port port u of
        Inl e \<Rightarrow> (Inl e, u)
      | Inr st \<Rightarrow>
          if ps_failed st then (Inl PortFailed, u)
          else let len = min maximum_length (length (ps_rx st)) in
            (Inr (take len (ps_rx st)),
             (put_port port (st\<lparr>ps_rx := drop len (ps_rx st)\<rparr>) u)
               \<lparr>ub_read_count := ub_read_count u + 1\<rparr>))"

text \<open>
  The transmit buffer never exceeds its capacity (\<open>uart_ok\<close> below), so the unsigned difference
  does not wrap.
\<close>

definition uart_write ::
  "byte \<Rightarrow> byte list \<Rightarrow> mock_uart_bsp \<Rightarrow> (uart_error + unit) \<times> mock_uart_bsp" where
  "uart_write port data u =
     (case require_port port u of
        Inl e \<Rightarrow> (Inl e, u)
      | Inr st \<Rightarrow>
          if ps_failed st then (Inl PortFailed, u)
          else if length data > ub_tx_capacity u - length (ps_tx st)
          then (Inl BufferOverflow,
                put_port port (st\<lparr>ps_tx_overruns := add_overruns (ps_tx_overruns st)
                  (length data - (ub_tx_capacity u - length (ps_tx st)))\<rparr>) u)
          else (Inr (), (put_port port (st\<lparr>ps_tx := ps_tx st @ data\<rparr>) u)
                          \<lparr>ub_write_count := ub_write_count u + 1\<rparr>))"

definition inject_rx ::
  "byte \<Rightarrow> byte list \<Rightarrow> mock_uart_bsp \<Rightarrow> (uart_error + unit) \<times> mock_uart_bsp" where
  "inject_rx port data u =
     (case require_port port u of
        Inl e \<Rightarrow> (Inl e, u)
      | Inr st \<Rightarrow>
          if ps_failed st then (Inl PortFailed, u)
          else let available = ub_rx_capacity u - length (ps_rx st);
                   accepted = min available (length data) in
            (Inr (), put_port port (st\<lparr>ps_rx := ps_rx st @ take accepted data,
               ps_rx_overruns := add_overruns (ps_rx_overruns st) (length data - accepted)\<rparr>) u))"

definition take_tx :: "byte \<Rightarrow> mock_uart_bsp \<Rightarrow> (uart_error + byte list) \<times> mock_uart_bsp" where
  "take_tx port u =
     (case require_port port u of
        Inl e \<Rightarrow> (Inl e, u)
      | Inr st \<Rightarrow> (Inr (ps_tx st), put_port port (st\<lparr>ps_tx := []\<rparr>) u))"

definition uart_status :: "byte \<Rightarrow> mock_uart_bsp \<Rightarrow> uart_runtime_status" where
  "uart_status port u =
     (case map_of (ub_ports u) port of
        None \<Rightarrow> \<lparr>us_failed = False, us_rx_buffered = 0, us_tx_buffered = 0, us_rx_overruns = 0,
                 us_tx_overruns = 0\<rparr>
      | Some st \<Rightarrow> \<lparr>us_failed = ps_failed st, us_rx_buffered = word_of_nat (length (ps_rx st)),
                    us_tx_buffered = word_of_nat (length (ps_tx st)),
                    us_rx_overruns = ps_rx_overruns st, us_tx_overruns = ps_tx_overruns st\<rparr>)"

definition uart_set_failed :: "byte \<Rightarrow> bool \<Rightarrow> mock_uart_bsp \<Rightarrow> mock_uart_bsp" where
  "uart_set_failed port failed u = put_port port ((port_at port u)\<lparr>ps_failed := failed\<rparr>) u"

definition uart_reset :: "byte \<Rightarrow> mock_uart_bsp \<Rightarrow> (uart_error + unit) \<times> mock_uart_bsp" where
  "uart_reset port u =
     (case require_port port u of
        Inl e \<Rightarrow> (Inl e, u)
      | Inr st \<Rightarrow> (Inr (), put_port port (st\<lparr>ps_rx := [], ps_tx := [], ps_rx_overruns := 0,
                             ps_tx_overruns := 0, ps_failed := False\<rparr>) u))"

definition uart_config_of :: "byte \<Rightarrow> mock_uart_bsp \<Rightarrow> uart_config option" where
  "uart_config_of port u = map_option ps_config (map_of (ub_ports u) port)"

subsection \<open>Buffers stay within their capacities\<close>

definition uart_ok :: "mock_uart_bsp \<Rightarrow> bool" where
  "uart_ok u \<longleftrightarrow> hmap_ok (ub_ports u) \<and>
     0 < ub_rx_capacity u \<and> ub_rx_capacity u \<le> uint32_max \<and>
     0 < ub_tx_capacity u \<and> ub_tx_capacity u \<le> uint32_max \<and>
     (\<forall>port st. map_of (ub_ports u) port = Some st \<longrightarrow>
        length (ps_rx st) \<le> ub_rx_capacity u \<and> length (ps_tx st) \<le> ub_tx_capacity u)"

lemma require_port_Inr_iff:
  "require_port port u = Inr st \<longleftrightarrow> map_of (ub_ports u) port = Some st \<and> ps_configured st"
  by (auto simp: require_port_def split: option.splits if_splits)

lemma put_port_ok:
  "uart_ok u \<Longrightarrow> length (ps_rx st) \<le> ub_rx_capacity u \<Longrightarrow> length (ps_tx st) \<le> ub_tx_capacity u \<Longrightarrow>
   uart_ok (put_port port st u)"
  by (auto simp: uart_ok_def put_port_def hmap_ok_hput simp del: map_of_eq_Some_iff)

lemma uart_ok_port:
  "uart_ok u \<Longrightarrow> map_of (ub_ports u) port = Some st \<Longrightarrow>
   length (ps_rx st) \<le> ub_rx_capacity u \<and> length (ps_tx st) \<le> ub_tx_capacity u"
  by (auto simp: uart_ok_def simp del: map_of_eq_Some_iff)

lemma uart_ok_counts [simp]:
  "uart_ok (u\<lparr>ub_configure_count := a\<rparr>) = uart_ok u"
  "uart_ok (u\<lparr>ub_read_count := b\<rparr>) = uart_ok u"
  "uart_ok (u\<lparr>ub_write_count := c\<rparr>) = uart_ok u"
  by (simp_all add: uart_ok_def)

lemma port_at_ok:
  "uart_ok u \<Longrightarrow> length (ps_rx (port_at port u)) \<le> ub_rx_capacity u \<and>
     length (ps_tx (port_at port u)) \<le> ub_tx_capacity u"
  using uart_ok_port [of u port] by (auto simp: port_at_def default_port_def split: option.split)

lemma put_port_fields [simp]:
  "ub_rx_capacity (put_port port st u) = ub_rx_capacity u"
  "ub_tx_capacity (put_port port st u) = ub_tx_capacity u"
  "ub_ports (put_port port st u) = hput port st (ub_ports u)"
  by (simp_all add: put_port_def)

lemma uart_ops_ok [inv_intros]:
  assumes "uart_ok u"
  shows "uart_ok (snd (uart_configure port config u))"
    and "uart_ok (snd (uart_read port n u))"
    and "uart_ok (snd (uart_write port data u))"
    and "uart_ok (snd (inject_rx port data u))"
    and "uart_ok (snd (take_tx port u))"
    and "uart_ok (uart_set_failed port failed u)"
    and "uart_ok (snd (uart_reset port u))"
proof -
  note at = port_at_ok [OF assms, of port] uart_ok_port [OF assms, of port]
  have put: "uart_ok (put_port port st (put_port port (port_at port u) u))"
    if "length (ps_rx st) \<le> ub_rx_capacity u" "length (ps_tx st) \<le> ub_tx_capacity u" for st
    using that at by (intro put_port_ok) (simp_all add: assms)
  show "uart_ok (snd (uart_configure port config u))"
    using assms at put by (simp add: uart_configure_def Let_def put_port_ok)
  show "uart_ok (snd (uart_read port n u))"
    using assms at by (auto simp: uart_read_def require_port_Inr_iff Let_def
        intro!: put_port_ok split: sum.split simp del: map_of_eq_Some_iff)
  show "uart_ok (snd (uart_write port data u))"
    using assms at by (auto simp: uart_write_def require_port_Inr_iff Let_def
        intro!: put_port_ok split: sum.split simp del: map_of_eq_Some_iff)
  show "uart_ok (snd (inject_rx port data u))"
    using assms at by (auto simp: inject_rx_def require_port_Inr_iff Let_def
        intro!: put_port_ok split: sum.split simp del: map_of_eq_Some_iff)
  show "uart_ok (snd (take_tx port u))"
    using assms at by (auto simp: take_tx_def require_port_Inr_iff
        intro!: put_port_ok split: sum.split simp del: map_of_eq_Some_iff)
  show "uart_ok (uart_set_failed port failed u)"
    using assms at by (auto simp: uart_set_failed_def intro!: put_port_ok)
  show "uart_ok (snd (uart_reset port u))"
    using assms at by (auto simp: uart_reset_def require_port_Inr_iff
        intro!: put_port_ok split: sum.split simp del: map_of_eq_Some_iff)
qed

subsection \<open>The contract of a UART back end\<close>

text \<open>
  \<open>received s port\<close> is what a healthy, configured port still has to deliver. Reading delivers a
  prefix and keeps the rest; other ports are not touched; writing and a failed call do not touch
  what is received.
\<close>

locale uart_backend =
  fixes read_port :: "byte \<Rightarrow> nat \<Rightarrow> 's \<Rightarrow> ('e + byte list) \<times> 's"
    and write_port :: "byte \<Rightarrow> byte list \<Rightarrow> 's \<Rightarrow> ('e + unit) \<times> 's"
    and received :: "'s \<Rightarrow> byte \<Rightarrow> byte list option"
  assumes read_received: "received s port = Some bs \<Longrightarrow>
      fst (read_port port n s) = Inr (take n bs) \<and>
      received (snd (read_port port n s)) = (received s)(port \<mapsto> drop n bs)"
    and read_rejected: "received s port = None \<Longrightarrow>
      (\<exists>e. fst (read_port port n s) = Inl e) \<and> received (snd (read_port port n s)) = received s"
    and write_keeps: "received (snd (write_port port data s)) = received s"
begin

text \<open>A sequence of reads of given sizes, and of writes in between.\<close>

fun transfers :: "byte \<Rightarrow> (nat + byte list) list \<Rightarrow> 's \<Rightarrow> byte list \<times> 's" where
  "transfers port [] s = ([], s)"
| "transfers port (Inl n # ops) s =
     (let (r, s1) = read_port port n s; (rest, s2) = transfers port ops s1
      in ((case r of Inl e \<Rightarrow> [] | Inr bs \<Rightarrow> bs) @ rest, s2))"
| "transfers port (Inr data # ops) s = transfers port ops (snd (write_port port data s))"

lemma transfers_in_order:
  "received s port = Some bs \<Longrightarrow>
   \<exists>rest. received (snd (transfers port ops s)) port = Some rest \<and>
          fst (transfers port ops s) @ rest = bs"
proof (induction ops arbitrary: s bs)
  case Nil
  then show ?case by simp
next
  case (Cons a ops)
  show ?case
  proof (cases a)
    case (Inl n)
    have r: "fst (read_port port n s) = Inr (take n bs)"
      "received (snd (read_port port n s)) port = Some (drop n bs)"
      using read_received [OF Cons.prems, of n] by auto
    from Cons.IH [OF r(2)] obtain rest
      where "received (snd (transfers port ops (snd (read_port port n s)))) port = Some rest"
        "fst (transfers port ops (snd (read_port port n s))) @ rest = drop n bs" by blast
    then show ?thesis
      using r(1) append_take_drop_id [of n bs] by (auto simp: Inl Let_def split_beta)
  next
    case (Inr data)
    then show ?thesis using Cons.IH [of "snd (write_port port data s)"] Cons.prems write_keeps by simp
  qed
qed

end

definition uart_received :: "mock_uart_bsp \<Rightarrow> byte \<Rightarrow> byte list option" where
  "uart_received u port =
     (case require_port port u of
        Inl e \<Rightarrow> None | Inr st \<Rightarrow> if ps_failed st then None else Some (ps_rx st))"

lemma require_put_port:
  "require_port q (put_port port st u) =
     (if q = port then (if ps_configured st then Inr st else Inl PortNotConfigured)
      else require_port q u)"
  by (simp add: require_port_def)

lemma require_port_counts [simp]:
  "require_port port (u\<lparr>ub_read_count := n\<rparr>) = require_port port u"
  "require_port port (u\<lparr>ub_write_count := n\<rparr>) = require_port port u"
  by (simp_all add: require_port_def)

lemma received_put_port:
  "uart_received (put_port port st u) =
     (uart_received u)(port := (if ps_configured st \<and> \<not> ps_failed st then Some (ps_rx st) else None))"
  by (auto simp: uart_received_def require_put_port fun_eq_iff)

lemma received_counts [simp]:
  "uart_received (u\<lparr>ub_read_count := n\<rparr>) = uart_received u"
  "uart_received (u\<lparr>ub_write_count := n\<rparr>) = uart_received u"
  by (simp_all add: uart_received_def fun_eq_iff)

lemma min_length_slices: "take (min n (length xs)) xs = take n xs" "drop (min n (length xs)) xs = drop n xs"
  by (simp_all add: min_def)

interpretation mock_uart: uart_backend uart_read uart_write uart_received
proof
  fix u :: mock_uart_bsp and port n data bs
  show "fst (uart_read port n u) = Inr (take n bs) \<and>
      uart_received (snd (uart_read port n u)) = (uart_received u)(port \<mapsto> drop n bs)"
    if bs: "uart_received u port = Some bs"
  proof -
    obtain st where "require_port port u = Inr st" "\<not> ps_failed st" "bs = ps_rx st"
      using bs by (auto simp: uart_received_def split: sum.splits if_splits)
    moreover from this have "ps_configured st" by (simp add: require_port_Inr_iff)
    ultimately show ?thesis
      by (simp add: uart_read_def Let_def received_put_port min_length_slices)
  qed
  show "(\<exists>e. fst (uart_read port n u) = Inl e) \<and>
      uart_received (snd (uart_read port n u)) = uart_received u"
    if "uart_received u port = None"
    using that by (auto simp: uart_received_def [of u port] uart_read_def split: sum.splits if_splits)
  show "uart_received (snd (uart_write port data u)) = uart_received u"
  proof (cases "require_port port u")
    case (Inr st)
    then have "ps_configured st" by (simp add: require_port_Inr_iff)
    moreover have "uart_received u port = (if ps_failed st then None else Some (ps_rx st))"
      by (simp add: uart_received_def Inr)
    ultimately show ?thesis
      using Inr by (auto simp: uart_write_def received_put_port fun_eq_iff)
  qed (simp add: uart_write_def)
qed

subsection \<open>Properties\<close>

inductive uart_reachable :: "mock_uart_bsp \<Rightarrow> bool" where
  created: "mock_uart_new rx tx = Inr u \<Longrightarrow> uart_reachable u"
| configured: "uart_reachable u \<Longrightarrow> uart_reachable (snd (uart_configure port config u))"
| read: "uart_reachable u \<Longrightarrow> uart_reachable (snd (uart_read port n u))"
| written: "uart_reachable u \<Longrightarrow> uart_reachable (snd (uart_write port data u))"
| injected: "uart_reachable u \<Longrightarrow> uart_reachable (snd (inject_rx port data u))"
| taken: "uart_reachable u \<Longrightarrow> uart_reachable (snd (take_tx port u))"
| failed: "uart_reachable u \<Longrightarrow> uart_reachable (uart_set_failed port b u)"
| reset: "uart_reachable u \<Longrightarrow> uart_reachable (snd (uart_reset port u))"

lemma uart_reachable_ok: "uart_reachable u \<Longrightarrow> uart_ok u"
proof (induction rule: uart_reachable.induct)
  case (created rx tx u)
  then show ?case by (auto simp: mock_uart_new_def uart_ok_def split: if_splits)
qed (simp_all add: inv_intros)

lemma add_overruns_saturates:
  "unat (add_overruns overruns lost) = min (unat overruns + lost) uint32_max"
proof -
  have u: "unat overruns < 4294967296" by (rule order_less_le_trans [OF unsigned_less]) simp
  have w: "unat (word_of_nat (min lost uint32_max) :: u32) = min lost uint32_max"
    by (simp add: unat_of_nat_small uint32_max_def)
  have m: "unat (0xFFFFFFFF - overruns) = 4294967295 - unat overruns"
    using unat_sub [of overruns "0xFFFFFFFF"] u by (simp add: word_le_nat_alt)
  show ?thesis
  proof (cases "0xFFFFFFFF - overruns < (word_of_nat (min lost uint32_max) :: u32)")
    case True
    then have "4294967295 - unat overruns < min lost uint32_max"
      unfolding word_less_nat_alt w m by simp
    then show ?thesis
      using True u by (auto simp: add_overruns_def Let_def uint32_max_def min_def)
  next
    case False
    then have "min lost uint32_max \<le> 4294967295 - unat overruns"
      unfolding word_less_nat_alt w m by (simp only: not_less)
    moreover from this have "unat (overruns + word_of_nat (min lost uint32_max)) = unat overruns + min lost uint32_max"
      using u w by (subst unat_add_lem [THEN iffD1]) simp_all
    ultimately show ?thesis
      using False u by (simp add: add_overruns_def Let_def uint32_max_def)
  qed
qed

text \<open>
  In every reachable state the buffers of every port are within the configured capacities, so
  the 32-bit fields of the runtime status are exact, and injecting received bytes stores exactly
  the prefix that fits while the overrun counter grows by the number of bytes lost, saturating.
\<close>

lemma uart_status_exact:
  assumes "uart_reachable u" and "map_of (ub_ports u) port = Some st"
  shows "unat (us_rx_buffered (uart_status port u)) = length (ps_rx st) \<and>
    unat (us_tx_buffered (uart_status port u)) = length (ps_tx st) \<and>
    length (ps_rx st) \<le> ub_rx_capacity u \<and> length (ps_tx st) \<le> ub_tx_capacity u \<and>
    (ps_configured st \<and> \<not> ps_failed st \<longrightarrow>
      (\<exists>st' room. snd (inject_rx port data u) = put_port port st' u \<and>
         room = ub_rx_capacity u - length (ps_rx st) \<and>
         ps_rx st' = ps_rx st @ take room data \<and>
         unat (ps_rx_overruns st') =
           min (unat (ps_rx_overruns st) + (length data - room)) uint32_max))"
proof -
  have ok: "uart_ok u" using assms(1) by (rule uart_reachable_ok)
  have len: "length (ps_rx st) \<le> ub_rx_capacity u" "length (ps_tx st) \<le> ub_tx_capacity u"
    using uart_ok_port [OF ok assms(2)] by simp_all
  have cap: "ub_rx_capacity u < 4294967296" "ub_tx_capacity u < 4294967296"
    using ok by (simp_all add: uart_ok_def uint32_max_def)
  have req: "ps_configured st \<Longrightarrow> require_port port u = Inr st"
    using assms(2) by (simp add: require_port_def)
  have cut: "take (min room (length data)) data = take room data"
    "length data - min room (length data) = length data - room" for room
    by (simp_all add: min_def)
  show ?thesis
    using len cap assms(2) req
    by (simp add: uart_status_def unat_of_nat_small inject_rx_def Let_def cut add_overruns_saturates
        del: map_of_eq_Some_iff)
      (auto simp: add_overruns_saturates)
qed

definition small_uart :: mock_uart_bsp where
  "small_uart = snd (uart_configure 1 \<lparr>uc_baud_rate = 9600, uc_data_bits = 8, uc_stop_bits = 1,
     uc_parity = 0\<rparr> \<lparr>ub_ports = [], ub_rx_capacity = 4, ub_tx_capacity = 4,
     ub_configure_count = 0, ub_read_count = 0, ub_write_count = 0\<rparr>)"

lemma small_uart_reachable: "uart_reachable small_uart"
  unfolding small_uart_def
  by (rule uart_reachable.configured, rule uart_reachable.created [of 4 4])
    (simp add: mock_uart_new_def uint32_max_def)

lemma small_uart_port:
  "map_of (ub_ports small_uart) 1 = Some (default_port\<lparr>ps_config := \<lparr>uc_baud_rate = 9600,
     uc_data_bits = 8, uc_stop_bits = 1, uc_parity = 0\<rparr>, ps_configured := True\<rparr>)"
  by (simp add: small_uart_def uart_configure_def Let_def port_at_def default_port_def)

text \<open>
  A port delivers what it received in order and exactly once: any sequence of reads of any
  sizes, with writes in between, returns a prefix of the received bytes and leaves the rest.
\<close>

theorem uart_in_order:
  assumes "uart_received u port = Some bs"
  shows "\<exists>rest. uart_received (snd (mock_uart.transfers port ops u)) port = Some rest \<and>
    fst (mock_uart.transfers port ops u) @ rest = bs"
  using assms by (rule mock_uart.transfers_in_order)

theorem uart_in_order_witness:
  "\<exists>rest. uart_received (snd (mock_uart.transfers 1 [Inl 2, Inr [9], Inl 1]
       (snd (inject_rx 1 [1, 2, 3, 4] small_uart)))) 1 = Some rest \<and>
     fst (mock_uart.transfers 1 [Inl 2, Inr [9], Inl 1]
       (snd (inject_rx 1 [1, 2, 3, 4] small_uart))) @ rest = [1, 2, 3, 4]"
  by (rule uart_in_order)
    (simp add: small_uart_def uart_configure_def port_at_def default_port_def Let_def inject_rx_def
      require_port_def put_port_def uart_received_def hput_def)

end
