(* ===== verification/Motion_Payload.thy ===== *)
theory Motion_Payload
  imports Wire
begin

text \<open>
  \<^verbatim>\<open>protocol/include/remotebsp/protocol/motion.hpp\<close> and \<^verbatim>\<open>protocol/src/motion.cpp\<close>: motion
  segments, acceptances and status on the wire. The status' state and fault are datatypes of the
  enumerators: the encoder writes them unchecked, the decoder refuses any other byte. Signed
  fields are words, \<open>decode_i32\<close> and \<open>decode_i64\<close> the portable casts of the code.
\<close>

subsection \<open>Data\<close>

definition kMaximumMotionAxes :: nat where "kMaximumMotionAxes = 64"

record motion_axis_move_payload =
  mv_resource_id :: u32
  mv_steps :: i32

record motion_segment_payload =
  ms_sequence :: u32
  ms_start_time_ns :: u64
  ms_duration_ns :: u64
  ms_final_segment :: bool
  ms_axes :: "motion_axis_move_payload list"

record motion_acceptance_payload =
  mc_sequence :: u32
  mc_start_time_ns :: u64
  mc_duration_ns :: u64
  mc_final_segment :: bool

datatype motion_state = MS_Idle | MS_Armed | MS_Running | MS_Faulted

fun motion_state_code :: "motion_state \<Rightarrow> byte" where
  "motion_state_code MS_Idle = 0"
| "motion_state_code MS_Armed = 1"
| "motion_state_code MS_Running = 2"
| "motion_state_code MS_Faulted = 3"

datatype motion_fault = MF_None | MF_Aborted | MF_LimitTriggered | MF_QueueUnderrun

fun motion_fault_code :: "motion_fault \<Rightarrow> byte" where
  "motion_fault_code MF_None = 0"
| "motion_fault_code MF_Aborted = 1"
| "motion_fault_code MF_LimitTriggered = 2"
| "motion_fault_code MF_QueueUnderrun = 3"

text \<open>\<^verbatim>\<open>static_cast\<close> of a byte already checked to be an enumerator.\<close>

definition motion_state_of :: "byte \<Rightarrow> motion_state" where
  "motion_state_of b = (if b = 0 then MS_Idle else if b = 1 then MS_Armed
     else if b = 2 then MS_Running else MS_Faulted)"

definition motion_fault_of :: "byte \<Rightarrow> motion_fault" where
  "motion_fault_of b = (if b = 0 then MF_None else if b = 1 then MF_Aborted
     else if b = 2 then MF_LimitTriggered else MF_QueueUnderrun)"

record motion_axis_status_payload =
  as_resource_id :: u32
  as_enabled :: bool
  as_direction_positive :: bool
  as_step_level :: bool
  as_position_steps :: i64
  as_emitted_steps :: u64

record motion_metrics_payload =
  mp_accepted_segments :: u64
  mp_rejected_segments :: u64
  mp_completed_segments :: u64
  mp_emitted_edges :: u64
  mp_emitted_steps :: u64
  mp_safety_stops :: u64
  mp_limit_stops :: u64
  mp_queue_underruns :: u64
  mp_maximum_queue_depth :: u16

record motion_status_payload =
  st_state :: motion_state
  st_fault :: motion_fault
  st_node_time_ns :: u64
  st_queue_depth :: u16
  st_queue_capacity :: u16
  st_last_accepted_sequence :: u32
  st_last_completed_sequence :: u32
  st_metrics :: motion_metrics_payload
  st_axes :: "motion_axis_status_payload list"

datatype motion_payload_error = MPE_InvalidLength | MPE_InvalidValue | MPE_TooManyAxes

definition kSegmentHeaderSize :: nat where "kSegmentHeaderSize = 24"
definition kMoveSize :: nat where "kMoveSize = 8"
definition kStatusHeaderSize :: nat where "kStatusHeaderSize = 92"
definition kAxisStatusSize :: nat where "kAxisStatusSize = 24"

lemmas motion_sizes = kMaximumMotionAxes_def kSegmentHeaderSize_def kMoveSize_def
  kStatusHeaderSize_def kAxisStatusSize_def

subsection \<open>Segments\<close>

definition validate_axis_count :: "nat \<Rightarrow> motion_payload_error + unit" where
  "validate_axis_count count =
     (if count = 0 \<or> count > kMaximumMotionAxes then Inl MPE_TooManyAxes else Inr ())"

definition decode_i32 :: "u32 \<Rightarrow> i32" where
  "decode_i32 value = (if value \<le> 0x7FFFFFFF then value else -1 - (0xFFFFFFFF - value))"

definition decode_i64 :: "u64 \<Rightarrow> i64" where
  "decode_i64 value =
     (if value \<le> 0x7FFFFFFFFFFFFFFF then value else -1 - (0xFFFFFFFFFFFFFFFF - value))"

definition bool_byte :: "bool \<Rightarrow> byte" where
  "bool_byte b = (if b then 1 else 0)"

definition encode_move :: "motion_axis_move_payload \<Rightarrow> motion_payload_error + byte list" where
  "encode_move axis =
     (if mv_resource_id axis = 0 then Inl MPE_InvalidValue
      else Inr (put_u32 (mv_resource_id axis) @ put_u32 (mv_steps axis)))"

definition decode_move :: "byte list \<Rightarrow> motion_payload_error + motion_axis_move_payload" where
  "decode_move entry =
     (let resource_id = get_u32 entry in
      if resource_id = 0 then Inl MPE_InvalidValue
      else Inr \<lparr>mv_resource_id = resource_id, mv_steps = decode_i32 (get_u32 (drop 4 entry))\<rparr>)"

definition encode_motion_segment :: "motion_segment_payload \<Rightarrow> motion_payload_error + byte list" where
  "encode_motion_segment s = try_bind (validate_axis_count (length (ms_axes s))) (\<lambda>_.
     if ms_sequence s = 0 \<or> ms_duration_ns s = 0 then Inl MPE_InvalidValue
     else try_bind (traverse encode_move (ms_axes s)) (\<lambda>moves.
       Inr (put_u32 (ms_sequence s) @ put_u64 (ms_start_time_ns s) @ put_u64 (ms_duration_ns s) @
            [bool_byte (ms_final_segment s), word_of_nat (length (ms_axes s))] @ put_u16 0 @
            concat moves)))"

definition decode_motion_segment :: "byte list \<Rightarrow> motion_payload_error + motion_segment_payload" where
  "decode_motion_segment p =
     (if length p < kSegmentHeaderSize then Inl MPE_InvalidLength
      else let axis_count = unat (p ! 21) in
        try_bind (validate_axis_count axis_count) (\<lambda>_.
          if length p \<noteq> kSegmentHeaderSize + axis_count * kMoveSize \<or> p ! 20 > 1 \<or>
             get_u16 (drop 22 p) \<noteq> 0
          then Inl MPE_InvalidLength
          else let sequence = get_u32 p; duration = get_u64 (drop 12 p) in
            if sequence = 0 \<or> duration = 0 then Inl MPE_InvalidValue
            else try_bind (traverse decode_move
                             (chunks kMoveSize axis_count (drop kSegmentHeaderSize p)))
              (\<lambda>moves. Inr \<lparr>ms_sequence = sequence, ms_start_time_ns = get_u64 (drop 4 p),
                            ms_duration_ns = duration, ms_final_segment = (p ! 20 \<noteq> 0),
                            ms_axes = moves\<rparr>)))"

definition encode_motion_acceptance ::
  "motion_acceptance_payload \<Rightarrow> motion_payload_error + byte list" where
  "encode_motion_acceptance a =
     (if mc_sequence a = 0 \<or> mc_duration_ns a = 0 then Inl MPE_InvalidValue
      else Inr (put_u32 (mc_sequence a) @ put_u64 (mc_start_time_ns a) @
                put_u64 (mc_duration_ns a) @ [bool_byte (mc_final_segment a), 0] @ put_u16 0))"

definition decode_motion_acceptance ::
  "byte list \<Rightarrow> motion_payload_error + motion_acceptance_payload" where
  "decode_motion_acceptance p =
     (if length p \<noteq> kSegmentHeaderSize \<or> p ! 20 > 1 \<or> p ! 21 \<noteq> 0 \<or> get_u16 (drop 22 p) \<noteq> 0
      then Inl MPE_InvalidLength
      else let a = \<lparr>mc_sequence = get_u32 p, mc_start_time_ns = get_u64 (drop 4 p),
                    mc_duration_ns = get_u64 (drop 12 p), mc_final_segment = (p ! 20 \<noteq> 0)\<rparr> in
        if mc_sequence a = 0 \<or> mc_duration_ns a = 0 then Inl MPE_InvalidValue else Inr a)"

subsection \<open>Status\<close>

definition axis_flags :: "motion_axis_status_payload \<Rightarrow> byte" where
  "axis_flags a =
     (if as_enabled a then 0x01 else 0) OR (if as_direction_positive a then 0x02 else 0) OR
     (if as_step_level a then 0x04 else 0)"

definition encode_axis_status ::
  "motion_axis_status_payload \<Rightarrow> motion_payload_error + byte list" where
  "encode_axis_status a =
     (if as_resource_id a = 0 then Inl MPE_InvalidValue
      else Inr (put_u32 (as_resource_id a) @ [axis_flags a, 0, 0, 0] @
                put_u64 (as_position_steps a) @ put_u64 (as_emitted_steps a)))"

definition decode_axis_status ::
  "byte list \<Rightarrow> motion_payload_error + motion_axis_status_payload" where
  "decode_axis_status entry =
     (let flags = entry ! 4 in
      if get_u32 (drop 4 entry) > 0x07 \<or> get_u32 entry = 0 then Inl MPE_InvalidValue
      else Inr \<lparr>as_resource_id = get_u32 entry, as_enabled = (flags AND 0x01 \<noteq> 0),
                as_direction_positive = (flags AND 0x02 \<noteq> 0),
                as_step_level = (flags AND 0x04 \<noteq> 0),
                as_position_steps = decode_i64 (get_u64 (drop 8 entry)),
                as_emitted_steps = get_u64 (drop 16 entry)\<rparr>)"

definition encode_metrics :: "motion_metrics_payload \<Rightarrow> byte list" where
  "encode_metrics m =
     put_u64 (mp_accepted_segments m) @ put_u64 (mp_rejected_segments m) @
     put_u64 (mp_completed_segments m) @ put_u64 (mp_emitted_edges m) @
     put_u64 (mp_emitted_steps m) @ put_u64 (mp_safety_stops m) @ put_u64 (mp_limit_stops m) @
     put_u64 (mp_queue_underruns m) @ put_u16 (mp_maximum_queue_depth m)"

definition decode_metrics :: "byte list \<Rightarrow> motion_metrics_payload" where
  "decode_metrics p =
     \<lparr>mp_accepted_segments = get_u64 (drop 24 p), mp_rejected_segments = get_u64 (drop 32 p),
      mp_completed_segments = get_u64 (drop 40 p), mp_emitted_edges = get_u64 (drop 48 p),
      mp_emitted_steps = get_u64 (drop 56 p), mp_safety_stops = get_u64 (drop 64 p),
      mp_limit_stops = get_u64 (drop 72 p), mp_queue_underruns = get_u64 (drop 80 p),
      mp_maximum_queue_depth = get_u16 (drop 88 p)\<rparr>"

definition encode_motion_status :: "motion_status_payload \<Rightarrow> motion_payload_error + byte list" where
  "encode_motion_status s = try_bind (validate_axis_count (length (st_axes s))) (\<lambda>_.
     if st_queue_depth s > st_queue_capacity s \<or>
        mp_maximum_queue_depth (st_metrics s) > st_queue_capacity s
     then Inl MPE_InvalidValue
     else try_bind (traverse encode_axis_status (st_axes s)) (\<lambda>axes.
       Inr ([motion_state_code (st_state s), motion_fault_code (st_fault s),
             word_of_nat (length (st_axes s)), 0] @
            put_u64 (st_node_time_ns s) @ put_u16 (st_queue_depth s) @
            put_u16 (st_queue_capacity s) @ put_u32 (st_last_accepted_sequence s) @
            put_u32 (st_last_completed_sequence s) @ encode_metrics (st_metrics s) @
            put_u16 0 @ concat axes)))"

definition decode_motion_status :: "byte list \<Rightarrow> motion_payload_error + motion_status_payload" where
  "decode_motion_status p =
     (if length p < kStatusHeaderSize then Inl MPE_InvalidLength
      else let state = p ! 0; fault = p ! 1; axis_count = unat (p ! 2) in
        try_bind (validate_axis_count axis_count) (\<lambda>_.
          if state > motion_state_code MS_Faulted \<or> fault > motion_fault_code MF_QueueUnderrun \<or>
             p ! 3 \<noteq> 0 \<or> length p \<noteq> kStatusHeaderSize + axis_count * kAxisStatusSize \<or>
             get_u16 (drop 90 p) \<noteq> 0
          then Inl MPE_InvalidValue
          else let queue_depth = get_u16 (drop 12 p); queue_capacity = get_u16 (drop 14 p);
                   metrics = decode_metrics p in
            if queue_depth > queue_capacity \<or> mp_maximum_queue_depth metrics > queue_capacity
            then Inl MPE_InvalidValue
            else try_bind (traverse decode_axis_status
                             (chunks kAxisStatusSize axis_count (drop kStatusHeaderSize p)))
              (\<lambda>axes. Inr
                \<lparr>st_state = motion_state_of state, st_fault = motion_fault_of fault,
                 st_node_time_ns = get_u64 (drop 4 p), st_queue_depth = queue_depth,
                 st_queue_capacity = queue_capacity,
                 st_last_accepted_sequence = get_u32 (drop 16 p),
                 st_last_completed_sequence = get_u32 (drop 20 p),
                 st_metrics = metrics,
                 st_axes = axes\<rparr>)))"

subsection \<open>The codec laws\<close>

lemma decode_signed [simp, wire_simps]: "decode_i32 v = v" "decode_i64 w = w"
proof -
  have "(0xFFFFFFFF :: u32) = -1" "(0xFFFFFFFFFFFFFFFF :: u64) = -1" by simp_all
  then show "decode_i32 v = v" "decode_i64 w = w"
    unfolding decode_i32_def decode_i64_def by simp_all
qed

lemma bool_byte_simps [simp, wire_simps]:
  "\<not> bool_byte b > 1" "bool_byte b = 0 \<longleftrightarrow> \<not> b"
  by (simp_all add: bool_byte_def)

lemma byte_le_cases:
  "v \<le> 1 \<Longrightarrow> v = 0 \<or> v = (1 :: byte)"
  "v \<le> 3 \<Longrightarrow> v = 0 \<or> v = 1 \<or> v = 2 \<or> v = (3 :: byte)"
proof -
  have eqs: "v = 0 \<longleftrightarrow> unat v = 0" "v = 1 \<longleftrightarrow> unat v = 1" "v = 2 \<longleftrightarrow> unat v = 2" "v = 3 \<longleftrightarrow> unat v = 3"
    by (simp_all add: word_unat_eq_iff)
  show "v \<le> 1 \<Longrightarrow> v = 0 \<or> v = (1 :: byte)"
    unfolding eqs by (simp add: word_le_nat_alt, presburger)
  show "v \<le> 3 \<Longrightarrow> v = 0 \<or> v = 1 \<or> v = 2 \<or> v = (3 :: byte)"
    unfolding eqs by (simp add: word_le_nat_alt, presburger)
qed

lemma bool_byte_read [wire_simps]: "v \<le> 1 \<Longrightarrow> bool_byte (v \<noteq> 0) = v"
  using byte_le_cases(1) [of v] by (auto simp: bool_byte_def)

lemma motion_codes [simp, wire_simps]:
  "motion_state_of (motion_state_code st) = st" "motion_state_code st \<le> 3"
  "motion_fault_of (motion_fault_code ft) = ft" "motion_fault_code ft \<le> 3"
  by (cases st; simp add: motion_state_of_def) (cases st; simp; fail | cases ft; simp add: motion_fault_of_def)+

lemma motion_codes_read [wire_simps]:
  "v \<le> 3 \<Longrightarrow> motion_state_code (motion_state_of v) = v"
  "v \<le> 3 \<Longrightarrow> motion_fault_code (motion_fault_of v) = v"
  using byte_le_cases(2) [of v] by (auto simp: motion_state_of_def motion_fault_of_def)

interpretation move_wire: entry_codec encode_move decode_move id 8
  by unfold_locales
    (auto simp: encode_move_def decode_move_def Let_def put_get_at put_get_take join_simps split: if_splits)

lemma axis_flags_read [simp]:
  "axis_flags a AND 1 \<noteq> 0 \<longleftrightarrow> as_enabled a" "axis_flags a AND 2 \<noteq> 0 \<longleftrightarrow> as_direction_positive a"
  "axis_flags a AND 4 \<noteq> 0 \<longleftrightarrow> as_step_level a"
  by (cases "as_enabled a"; cases "as_direction_positive a"; cases "as_step_level a"; simp add: axis_flags_def)+

lemma axis_flags_word: "get_u32 (axis_flags a # 0 # 0 # 0 # rest) \<le> 7"
  by (cases "as_enabled a"; cases "as_direction_positive a"; cases "as_step_level a";
      simp add: axis_flags_def get_u32_def)

lemma small_u32_cases:
  "w \<le> 7 \<Longrightarrow> w = 0 \<or> w = 1 \<or> w = 2 \<or> w = 3 \<or> w = 4 \<or> w = 5 \<or> w = 6 \<or> w = (7 :: u32)"
proof -
  assume "w \<le> 7"
  then have "unat w \<le> 7" by (simp add: word_le_nat_alt)
  then have "unat w = 0 \<or> unat w = 1 \<or> unat w = 2 \<or> unat w = 3 \<or> unat w = 4 \<or> unat w = 5 \<or>
      unat w = 6 \<or> unat w = 7" by presburger
  then show ?thesis by (simp add: word_unat_eq_iff)
qed

lemma axis_flags_bytes:
  assumes "4 \<le> length b" and "get_u32 b \<le> 7"
  shows "take 4 b = [axis_flags \<lparr>as_resource_id = r, as_enabled = (b ! 0 AND 1 \<noteq> 0),
     as_direction_positive = (b ! 0 AND 2 \<noteq> 0), as_step_level = (b ! 0 AND 4 \<noteq> 0),
     as_position_steps = pos, as_emitted_steps = n\<rparr>, 0, 0, 0]"
proof -
  have t: "take 4 b = put_u32 (get_u32 b)" using assms(1) by (simp add: put_get_take)
  then have "b ! 0 = put_u32 (get_u32 b) ! 0" by (metis nth_take zero_less_numeral)
  then show ?thesis
    using small_u32_cases [OF assms(2)] unfolding t
    by (elim disjE) (simp_all add: put_u32_bytes axis_flags_def)
qed

interpretation axis_status_wire: entry_codec encode_axis_status decode_axis_status id 24
proof
  fix x bs
  show "encode_axis_status x = Inr bs \<Longrightarrow> decode_axis_status bs = Inr (id x)"
    using axis_flags_word [of x "put_u64 (as_position_steps x) @ put_u64 (as_emitted_steps x)"]
    by (auto simp: encode_axis_status_def decode_axis_status_def Let_def nth_append simp flip: not_le)
  show "encode_axis_status x = Inr bs \<Longrightarrow> length bs = 24"
    by (auto simp: encode_axis_status_def split: if_splits)
  show "encode_axis_status x = Inr bs" if len: "length bs = 24" and dec: "decode_axis_status bs = Inr x"
  proof -
    have r: "get_u32 (drop 4 bs) \<le> 7" "get_u32 bs \<noteq> 0"
      and x: "x = \<lparr>as_resource_id = get_u32 bs, as_enabled = (bs ! 4 AND 1 \<noteq> 0),
        as_direction_positive = (bs ! 4 AND 2 \<noteq> 0), as_step_level = (bs ! 4 AND 4 \<noteq> 0),
        as_position_steps = get_u64 (drop 8 bs), as_emitted_steps = get_u64 (drop 16 bs)\<rparr>"
      using dec by (auto simp: decode_axis_status_def Let_def not_less split: if_splits)
    have "[axis_flags x, 0, 0, 0] = take 4 (drop 4 bs)"
      using axis_flags_bytes [of "drop 4 bs"] r len by (simp add: x)
    then have "encode_axis_status x = Inr (take 4 bs @ take 4 (drop 4 bs) @ take 8 (drop 8 bs) @ drop 16 bs)"
      using r len by (simp add: encode_axis_status_def put_get_at put_get_take) (simp add: x put_get_at put_get_take)
    then show ?thesis using len by (simp add: join_simps)
  qed
qed

lemma axis_count_read:
  "validate_axis_count n = Inr u \<Longrightarrow> unat (word_of_nat n :: byte) = n"
  by (auto simp: validate_axis_count_def motion_sizes unat_of_nat_small split: if_splits)

interpretation segment_wire: canonical_codec encode_motion_segment decode_motion_segment id
proof
  fix s bs
  show "decode_motion_segment bs = Inr (id s)" if enc: "encode_motion_segment s = Inr bs"
  proof -
    obtain moves where v: "validate_axis_count (length (ms_axes s)) = Inr ()"
      and nz: "ms_sequence s \<noteq> 0" "ms_duration_ns s \<noteq> 0"
      and moves: "traverse encode_move (ms_axes s) = Inr moves"
      and bs: "bs = put_u32 (ms_sequence s) @ put_u64 (ms_start_time_ns s) @ put_u64 (ms_duration_ns s) @
            [bool_byte (ms_final_segment s), word_of_nat (length (ms_axes s))] @ put_u16 0 @ concat moves"
      using enc by (auto simp: encode_motion_segment_def try_bind_Inr_iff)
    have at: "bs ! 20 = bool_byte (ms_final_segment s)" "bs ! 21 = word_of_nat (length (ms_axes s))"
      by (simp_all add: bs nth_append)
    have "length bs = 24 + 8 * length (ms_axes s)" "drop 24 bs = concat moves"
      using move_wire.enc_list_length [OF moves] by (simp_all add: bs)
    moreover have "get_u32 bs = ms_sequence s" "get_u64 (drop 4 bs) = ms_start_time_ns s"
      "get_u64 (drop 12 bs) = ms_duration_ns s" "get_u16 (drop 22 bs) = 0"
      by (simp_all add: bs)
    ultimately show ?thesis
      using v nz move_wire.dec_table [OF moves, of "[]"] axis_count_read [OF v]
      by (simp add: decode_motion_segment_def Let_def at motion_sizes del: drop_drop)
  qed
  show "encode_motion_segment s = Inr bs" if dec: "decode_motion_segment bs = Inr s"
  proof -
    define n where "n = unat (bs ! 21)"
    have v: "validate_axis_count n = Inr ()" and len: "length bs = 24 + n * 8" and b20: "bs ! 20 \<le> 1"
      and z: "get_u16 (drop 22 bs) = 0" "get_u32 bs \<noteq> 0" "get_u64 (drop 12 bs) \<noteq> 0"
      and t: "traverse decode_move (chunks 8 n (drop 24 bs)) = Inr (ms_axes s)"
      and s: "s = \<lparr>ms_sequence = get_u32 bs, ms_start_time_ns = get_u64 (drop 4 bs),
         ms_duration_ns = get_u64 (drop 12 bs), ms_final_segment = (bs ! 20 \<noteq> 0), ms_axes = ms_axes s\<rparr>"
      using dec unfolding decode_motion_segment_def motion_sizes n_def
      by (auto simp: Let_def try_bind_Inr_iff not_less simp del: drop_drop split: if_splits)
    obtain moves where m: "traverse encode_move (ms_axes s) = Inr moves" "concat moves = drop 24 bs"
      using move_wire.enc_table [of "drop 24 bs" n, OF _ t] len by auto
    have "length (ms_axes s) = n" using traverse_length [OF t] by simp
    moreover have "(word_of_nat n :: byte) = bs ! 21" by (simp add: n_def)
    moreover have "put_u16 0 = take 2 (drop 22 bs)" using put_get_at(1) [of 22 bs] len z by simp
    moreover have "bool_byte (ms_final_segment s) = bs ! 20"
      by (subst s) (simp add: bool_byte_read b20)
    moreover have "ms_sequence s = get_u32 bs" "ms_start_time_ns s = get_u64 (drop 4 bs)"
      "ms_duration_ns s = get_u64 (drop 12 bs)"
      by (subst s, simp)+
    ultimately show ?thesis
      using v z m len by (simp add: encode_motion_segment_def put_get_at put_get_take join_simps)
  qed
qed

lemmas acceptance_defs = encode_motion_acceptance_def decode_motion_acceptance_def motion_sizes

interpretation acceptance_wire:
  record_codec encode_motion_acceptance decode_motion_acceptance id 24
proof
  fix a bs
  show "encode_motion_acceptance a = Inr bs \<Longrightarrow> decode_motion_acceptance bs = Inr (id a)"
    by (auto simp: acceptance_defs nth_append Let_def)
  show "encode_motion_acceptance a = Inr bs \<Longrightarrow> length bs = 24"
    by (auto simp: acceptance_defs split: if_splits)
  show "encode_motion_acceptance a = Inr bs" if dec: "decode_motion_acceptance bs = Inr a"
  proof -
    have len: "length bs = 24" and b: "bs ! 20 \<le> 1" "bs ! 21 = 0" "get_u16 (drop 22 bs) = 0"
      and nz: "get_u32 bs \<noteq> 0" "get_u64 (drop 12 bs) \<noteq> 0"
      and a: "a = \<lparr>mc_sequence = get_u32 bs, mc_start_time_ns = get_u64 (drop 4 bs),
         mc_duration_ns = get_u64 (drop 12 bs), mc_final_segment = (bs ! 20 \<noteq> 0)\<rparr>"
      using dec unfolding acceptance_defs
      by (auto simp: Let_def not_less simp del: drop_drop split: if_splits)
    have "put_u16 0 = take 2 (drop 22 bs)" using put_get_at(1) [of 22 bs] len b by simp
    moreover have "bool_byte (bs ! 20 \<noteq> 0) = bs ! 20" using b(1) by (rule bool_byte_read)
    ultimately have "encode_motion_acceptance a =
        Inr (take 4 bs @ take 8 (drop 4 bs) @ take 8 (drop 12 bs) @ [bs ! 20, bs ! 21] @ take 2 (drop 22 bs))"
      using nz len b(2) by (simp add: encode_motion_acceptance_def a put_get_at put_get_take)
    then show ?thesis using len by (simp add: join_simps)
  qed
qed

lemma length_metrics [simp]: "length (encode_metrics m) = 66"
  by (simp add: encode_metrics_def)

lemma metrics_read: "length h = 24 \<Longrightarrow> decode_metrics (h @ encode_metrics m @ rest) = m"
  by (simp add: decode_metrics_def encode_metrics_def)

lemma metrics_write: "90 \<le> length p \<Longrightarrow> encode_metrics (decode_metrics p) = take 66 (drop 24 p)"
  by (simp add: decode_metrics_def encode_metrics_def put_get_at join_simps)

interpretation status_wire: canonical_codec encode_motion_status decode_motion_status id
proof
  fix s bs
  show "decode_motion_status bs = Inr (id s)" if enc: "encode_motion_status s = Inr bs"
  proof -
    obtain axes where v: "validate_axis_count (length (st_axes s)) = Inr ()"
      and q: "\<not> st_queue_depth s > st_queue_capacity s"
        "\<not> mp_maximum_queue_depth (st_metrics s) > st_queue_capacity s"
      and axes: "traverse encode_axis_status (st_axes s) = Inr axes"
      and bs: "bs = [motion_state_code (st_state s), motion_fault_code (st_fault s),
             word_of_nat (length (st_axes s)), 0] @
            put_u64 (st_node_time_ns s) @ put_u16 (st_queue_depth s) @
            put_u16 (st_queue_capacity s) @ put_u32 (st_last_accepted_sequence s) @
            put_u32 (st_last_completed_sequence s) @ encode_metrics (st_metrics s) @
            put_u16 0 @ concat axes"
      using enc by (auto simp: encode_motion_status_def try_bind_Inr_iff split: if_splits)
    define h where "h = [motion_state_code (st_state s), motion_fault_code (st_fault s),
             word_of_nat (length (st_axes s)), 0] @
            put_u64 (st_node_time_ns s) @ put_u16 (st_queue_depth s) @
            put_u16 (st_queue_capacity s) @ put_u32 (st_last_accepted_sequence s) @
            put_u32 (st_last_completed_sequence s)"
    have bs_h: "bs = h @ encode_metrics (st_metrics s) @ put_u16 0 @ concat axes" and "length h = 24"
      by (simp_all add: bs h_def)
    then have m: "decode_metrics bs = st_metrics s" by (simp add: metrics_read)
    have at: "bs ! 0 = motion_state_code (st_state s)" "bs ! 1 = motion_fault_code (st_fault s)"
      "bs ! 2 = word_of_nat (length (st_axes s))" "bs ! 3 = 0"
      by (simp_all add: bs)
    have "length bs = 92 + 24 * length (st_axes s)" "drop 92 bs = concat axes"
      using axis_status_wire.enc_list_length [OF axes] by (simp_all add: bs)
    moreover have "get_u64 (drop 4 bs) = st_node_time_ns s" "get_u16 (drop 12 bs) = st_queue_depth s"
      "get_u16 (drop 14 bs) = st_queue_capacity s" "get_u32 (drop 16 bs) = st_last_accepted_sequence s"
      "get_u32 (drop 20 bs) = st_last_completed_sequence s" "get_u16 (drop 90 bs) = 0"
      by (simp_all add: bs)
    ultimately show ?thesis
      using v q m axis_status_wire.dec_table [OF axes, of "[]"] axis_count_read [OF v]
      by (simp add: decode_motion_status_def Let_def at at(2) [simplified]
          motion_sizes not_less del: drop_drop)
  qed
  show "encode_motion_status s = Inr bs" if dec: "decode_motion_status bs = Inr s"
  proof -
    define n where "n = unat (bs ! 2)"
    have v: "validate_axis_count n = Inr ()" and len: "length bs = 92 + n * 24"
      and b: "bs ! 0 \<le> 3" "bs ! 1 \<le> 3" "bs ! 3 = 0" "get_u16 (drop 90 bs) = 0"
      and q: "\<not> get_u16 (drop 12 bs) > get_u16 (drop 14 bs)"
        "\<not> mp_maximum_queue_depth (decode_metrics bs) > get_u16 (drop 14 bs)"
      and t: "traverse decode_axis_status (chunks 24 n (drop 92 bs)) = Inr (st_axes s)"
      and s: "s = \<lparr>st_state = motion_state_of (bs ! 0), st_fault = motion_fault_of (bs ! 1),
                 st_node_time_ns = get_u64 (drop 4 bs), st_queue_depth = get_u16 (drop 12 bs),
                 st_queue_capacity = get_u16 (drop 14 bs),
                 st_last_accepted_sequence = get_u32 (drop 16 bs),
                 st_last_completed_sequence = get_u32 (drop 20 bs),
                 st_metrics = decode_metrics bs, st_axes = st_axes s\<rparr>"
      using dec unfolding decode_motion_status_def motion_sizes n_def
      by (auto simp: Let_def try_bind_Inr_iff not_less simp del: drop_drop split: if_splits)
    obtain axes where m: "traverse encode_axis_status (st_axes s) = Inr axes" "concat axes = drop 92 bs"
      using axis_status_wire.enc_table [of "drop 92 bs" n, OF _ t] len by auto
    have axes_n: "length (st_axes s) = n" using traverse_length [OF t] by simp
    have n_byte: "(word_of_nat n :: byte) = bs ! 2" by (simp add: n_def)
    have zero: "put_u16 0 = take 2 (drop 90 bs)" using put_get_at(1) [of 90 bs] len b by simp
    have fields: "motion_state_code (st_state s) = bs ! 0" "motion_fault_code (st_fault s) = bs ! 1"
      "st_node_time_ns s = get_u64 (drop 4 bs)" "st_queue_depth s = get_u16 (drop 12 bs)"
      "st_queue_capacity s = get_u16 (drop 14 bs)" "st_last_accepted_sequence s = get_u32 (drop 16 bs)"
      "st_last_completed_sequence s = get_u32 (drop 20 bs)" "st_metrics s = decode_metrics bs"
      by (subst s, simp add: motion_codes_read b b(2) [simplified])+
    have "encode_motion_status s = Inr ([bs ! 0, bs ! 1, bs ! 2, bs ! 3] @ take 8 (drop 4 bs) @
        take 2 (drop 12 bs) @ take 2 (drop 14 bs) @ take 4 (drop 16 bs) @ take 4 (drop 20 bs) @
        take 66 (drop 24 bs) @ take 2 (drop 90 bs) @ drop 92 bs)"
      using v q m len b(3) unfolding encode_motion_status_def fields axes_n n_byte zero
      by (simp add: put_get_at metrics_write)
    moreover have "[bs ! 0, bs ! 1, bs ! 2, bs ! 3] = take 4 bs"
      using len by (intro nth_equalityI) (auto simp: less_Suc_eq numeral_eq_Suc)
    ultimately show ?thesis using len by (simp add: join_simps)
  qed
qed

subsection \<open>Properties\<close>

text \<open>
  The motion decoders accept a payload exactly when it is the encoding of the value they
  return: signed step counts and positions survive, reserved bytes must be zero, the axis table
  has 1 to 64 entries with non-zero resource ids and fills the payload exactly, and the queue
  fields are within the capacity.
\<close>

lemma motion_payloads_canonical:
  "(decode_motion_segment bs = Inr seg \<longleftrightarrow> encode_motion_segment seg = Inr bs) \<and>
   (decode_motion_acceptance bs = Inr acc \<longleftrightarrow> encode_motion_acceptance acc = Inr bs) \<and>
   (decode_motion_status bs = Inr st \<longleftrightarrow> encode_motion_status st = Inr bs)"
  by (simp add: segment_wire.dec_iff acceptance_wire.dec_iff status_wire.dec_iff)

end
