(* ===== verification/Motion_Executor.thy ===== *)
theory Motion_Executor
  imports Motion_Payload "HOL-Library.Product_Lexorder" "HOL-Library.Multiset"
begin

text \<open>
  \<^verbatim>\<open>mock_mcu/include/remotebsp/mock_mcu/motion_executor.hpp\<close> and
  \<^verbatim>\<open>mock_mcu/src/motion_executor.cpp\<close>: the queue of motion segments, the edges they emit as time
  advances, and the safe stop. Times and counters are 64-bit words, positions 64-bit words read
  with \<open>sint\<close>. \<^verbatim>\<open>MotionState\<close> and \<^verbatim>\<open>MotionFault\<close> have the enumerators of the payload's
  enumerations and share their datatypes. \<^verbatim>\<open>std::sort\<close> by \<^verbatim>\<open>edge_less\<close> is the stable sort by the
  key that \<open>edge_less\<close> compares. The lemmas of the theory \<open>Motion_Safety\<close> build on this one.
\<close>

subsection \<open>Data\<close>

record motion_axis_config =
  cf_resource_id :: u32
  cf_maximum_step_rate_hz :: u32
  cf_step_pulse_width_ns :: u32
  cf_minimum_step_low_ns :: u32
  cf_direction_setup_ns :: u32

record motion_axis_move =
  mo_resource_id :: u32
  mo_steps :: i32

record motion_segment =
  sg_sequence :: u32
  sg_start_time_ns :: u64
  sg_duration_ns :: u64
  sg_final_segment :: bool
  sg_axes :: "motion_axis_move list"

datatype motion_signal = Enable | Direction | Step

record motion_edge =
  ed_global_time_ns :: u64
  ed_local_tick :: u64
  ed_axis_resource_id :: u32
  ed_signal :: motion_signal
  ed_level :: bool

record motion_metrics =
  mm_accepted_segments :: u64
  mm_rejected_segments :: u64
  mm_completed_segments :: u64
  mm_emitted_edges :: u64
  mm_emitted_steps :: u64
  mm_safety_stops :: u64
  mm_limit_stops :: u64
  mm_queue_underruns :: u64
  mm_maximum_queue_depth :: nat

datatype motion_error =
    InvalidConfiguration | InvalidSegment | InvalidAxis | DuplicateAxis | SequenceMismatch
  | SegmentLate | SegmentOverlap | QueueFull | RateExceeded | FaultLatched | TimeWentBackwards

record axis_runtime =
  ax_config :: motion_axis_config
  ax_enabled :: bool
  ax_direction_positive :: bool
  ax_step_level :: bool
  ax_position_steps :: i64
  ax_emitted_steps :: u64

record move_runtime =
  mr_move :: motion_axis_move
  mr_step_count :: u64
  mr_rises_emitted :: u64
  mr_falls_emitted :: u64
  mr_controls_emitted :: bool

record segment_runtime =
  qs_segment :: motion_segment
  qs_moves :: "move_runtime list"

record motion_executor =
  me_axis_configs :: "motion_axis_config list"
  me_axes :: "axis_runtime list"
  me_axis_indices :: "(u32, nat) hmap"
  me_queue :: "segment_runtime list"
  me_queue_capacity :: nat
  me_minimum_lead_time_ns :: u64
  me_now_ns :: u64
  me_next_available_time_ns :: u64
  me_last_accepted_sequence :: u32
  me_last_completed_sequence :: u32
  me_state :: motion_state
  me_fault :: motion_fault
  me_metrics :: motion_metrics

record motion_axis_status =
  xs_resource_id :: u32
  xs_enabled :: bool
  xs_direction_positive :: bool
  xs_step_level :: bool
  xs_position_steps :: i64
  xs_emitted_steps :: u64

record motion_status =
  ex_state :: motion_state
  ex_fault :: motion_fault
  ex_node_time_ns :: u64
  ex_queue_depth :: nat
  ex_queue_capacity :: nat
  ex_last_accepted_sequence :: u32
  ex_last_completed_sequence :: u32
  ex_axes :: "motion_axis_status list"
  ex_metrics :: motion_metrics

subsection \<open>Helpers\<close>

definition absolute_steps :: "i32 \<Rightarrow> u64" where
  "absolute_steps steps =
     (if sint steps < 0 then word_of_int (- sint steps) else word_of_int (sint steps))"

definition edge_order :: "motion_edge \<Rightarrow> nat" where
  "edge_order e = (case ed_signal e of
     Step \<Rightarrow> if ed_level e then 3 else 0 | Enable \<Rightarrow> 1 | Direction \<Rightarrow> 2)"

definition edge_less :: "motion_edge \<Rightarrow> motion_edge \<Rightarrow> bool" where
  "edge_less l r =
     (if ed_global_time_ns l \<noteq> ed_global_time_ns r
      then ed_global_time_ns l < ed_global_time_ns r
      else if edge_order l \<noteq> edge_order r then edge_order l < edge_order r
      else ed_axis_resource_id l < ed_axis_resource_id r)"

definition edge_key :: "motion_edge \<Rightarrow> u64 \<times> nat \<times> u32" where
  "edge_key e = (ed_global_time_ns e, edge_order e, ed_axis_resource_id e)"

definition sort_edges :: "motion_edge list \<Rightarrow> motion_edge list" where
  "sort_edges es = sort_key edge_key es"

lemma edge_less_key: "edge_less l r \<longleftrightarrow> edge_key l < edge_key r"
  by (auto simp: edge_less_def edge_key_def less_prod_def)

definition interpolate_offset :: "u64 \<Rightarrow> u64 \<Rightarrow> u64 \<Rightarrow> u64" where
  "interpolate_offset span index denominator =
     (if denominator = 0 then 0
      else (span div denominator) * index + ((span mod denominator) * index) div denominator)"

definition rate_allows :: "u64 \<Rightarrow> u64 \<Rightarrow> u32 \<Rightarrow> bool" where
  "rate_allows step_count duration_ns maximum_step_rate_hz =
     (let whole_seconds = duration_ns div 1000000000;
          remaining_ns = duration_ns mod 1000000000;
          rate = ucast maximum_step_rate_hz :: u64
      in if whole_seconds > step_count div rate then True
         else step_count \<le> whole_seconds * rate + (remaining_ns * rate) div 1000000000)"

subsection \<open>Construction\<close>

definition new_axis :: "motion_axis_config \<Rightarrow> axis_runtime" where
  "new_axis config = \<lparr>ax_config = config, ax_enabled = False, ax_direction_positive = False,
     ax_step_level = False, ax_position_steps = 0, ax_emitted_steps = 0\<rparr>"

fun add_axes ::
  "motion_axis_config list \<Rightarrow> axis_runtime list \<Rightarrow> (u32, nat) hmap \<Rightarrow>
   motion_error + axis_runtime list \<times> (u32, nat) hmap" where
  "add_axes [] axes indices = Inr (axes, indices)"
| "add_axes (config # configs) axes indices =
     (if cf_resource_id config = 0 \<or> cf_maximum_step_rate_hz config = 0 \<or>
         cf_step_pulse_width_ns config = 0 \<or> cf_minimum_step_low_ns config = 0 \<or>
         cf_direction_setup_ns config = 0 \<or> map_of indices (cf_resource_id config) \<noteq> None
      then Inl InvalidConfiguration
      else let minimum_period = (ucast (cf_step_pulse_width_ns config) :: u64) +
                 ucast (cf_minimum_step_low_ns config) in
        if ucast (cf_maximum_step_rate_hz config) * minimum_period > 1000000000
        then Inl InvalidConfiguration
        else add_axes configs (axes @ [new_axis config])
               (hemplace (cf_resource_id config) (length axes) indices))"

definition motion_executor_new ::
  "motion_axis_config list \<Rightarrow> nat \<Rightarrow> u64 \<Rightarrow> motion_error + motion_executor" where
  "motion_executor_new configs queue_capacity minimum_lead_time_ns =
     (if configs = [] \<or> length configs > kMaximumMotionAxes \<or> queue_capacity = 0 \<or>
         queue_capacity > 1024 \<or> minimum_lead_time_ns = 0
      then Inl InvalidConfiguration
      else try_bind (add_axes configs [] []) (\<lambda>(axes, indices). Inr
        \<lparr>me_axis_configs = configs, me_axes = axes, me_axis_indices = indices, me_queue = [],
         me_queue_capacity = queue_capacity, me_minimum_lead_time_ns = minimum_lead_time_ns,
         me_now_ns = 0, me_next_available_time_ns = 0, me_last_accepted_sequence = 0,
         me_last_completed_sequence = 0, me_state = MS_Idle, me_fault = MF_None,
         me_metrics = \<lparr>mm_accepted_segments = 0, mm_rejected_segments = 0,
           mm_completed_segments = 0, mm_emitted_edges = 0, mm_emitted_steps = 0,
           mm_safety_stops = 0, mm_limit_stops = 0, mm_queue_underruns = 0,
           mm_maximum_queue_depth = 0\<rparr>\<rparr>))"

definition find_axis :: "u32 \<Rightarrow> motion_executor \<Rightarrow> axis_runtime option" where
  "find_axis resource_id e = map_option (\<lambda>i. me_axes e ! i) (map_of (me_axis_indices e) resource_id)"

text \<open>\<^verbatim>\<open>reject\<close> counts the rejection and throws.\<close>

definition count_rejection :: "motion_executor \<Rightarrow> motion_executor" where
  "count_rejection e = e\<lparr>me_metrics := (me_metrics e)
     \<lparr>mm_rejected_segments := mm_rejected_segments (me_metrics e) + 1\<rparr>\<rparr>"

subsection \<open>Enqueue\<close>

fun check_moves ::
  "motion_executor \<Rightarrow> u64 \<Rightarrow> u32 list \<Rightarrow> motion_axis_move list \<Rightarrow>
   motion_error + move_runtime list" where
  "check_moves e duration_ns seen [] = Inr []"
| "check_moves e duration_ns seen (move # moves) =
     (if mo_resource_id move \<in> set seen then Inl DuplicateAxis
      else case find_axis (mo_resource_id move) e of
        None \<Rightarrow> Inl InvalidAxis
      | Some axis \<Rightarrow>
          let config = ax_config axis;
              step_count = absolute_steps (mo_steps move);
              setup = ucast (cf_direction_setup_ns config) :: u64;
              pulse = ucast (cf_step_pulse_width_ns config) :: u64;
              available_after_setup = (if duration_ns > setup then duration_ns - setup else 0);
              minimum_period = pulse + ucast (cf_minimum_step_low_ns config) in
          if step_count \<noteq> 0 \<and>
             (available_after_setup < pulse \<or>
              step_count > available_after_setup div minimum_period + 1 \<or>
              \<not> rate_allows step_count duration_ns (cf_maximum_step_rate_hz config))
          then Inl RateExceeded
          else try_bind (check_moves e duration_ns (mo_resource_id move # seen) moves)
            (\<lambda>rest. Inr (\<lparr>mr_move = move, mr_step_count = step_count, mr_rises_emitted = 0,
                          mr_falls_emitted = 0, mr_controls_emitted = False\<rparr> # rest)))"

definition u64_max :: u64 where
  "u64_max = 0xFFFFFFFFFFFFFFFF"

text \<open>All checks of \<^verbatim>\<open>enqueue\<close> in order: nothing is changed before the last of them has passed.\<close>

definition enqueue_check ::
  "motion_segment \<Rightarrow> u64 \<Rightarrow> motion_executor \<Rightarrow> motion_error + segment_runtime" where
  "enqueue_check segment now_ns e =
     (if me_fault e \<noteq> MF_None then Inl FaultLatched
      else if now_ns < me_now_ns e then Inl TimeWentBackwards
      else if length (me_queue e) \<ge> me_queue_capacity e then Inl QueueFull
      else if me_queue e \<noteq> [] \<and> sg_final_segment (qs_segment (last (me_queue e)))
        then Inl InvalidSegment
      else if sg_sequence segment = 0 \<or> sg_sequence segment \<noteq> me_last_accepted_sequence e + 1
        then Inl SequenceMismatch
      else if sg_duration_ns segment = 0 \<or> length (sg_axes segment) \<noteq> length (me_axes e)
        then Inl InvalidSegment
      else if sg_start_time_ns segment \<noteq> 0 \<and>
              (sg_start_time_ns segment < now_ns \<or>
               sg_start_time_ns segment - now_ns < me_minimum_lead_time_ns e)
        then Inl SegmentLate
      else let segment =
             (if sg_start_time_ns segment = 0
              then let earliest = (if now_ns > u64_max - me_minimum_lead_time_ns e then u64_max
                                   else now_ns + me_minimum_lead_time_ns e)
                   in segment\<lparr>sg_start_time_ns := max earliest (me_next_available_time_ns e)\<rparr>
              else segment) in
        if me_queue e \<noteq> [] \<and> sg_start_time_ns segment \<noteq> me_next_available_time_ns e
        then Inl SegmentOverlap
        else if sg_start_time_ns segment > u64_max - sg_duration_ns segment then Inl InvalidSegment
        else try_bind (check_moves e (sg_duration_ns segment) [] (sg_axes segment))
          (\<lambda>moves. Inr \<lparr>qs_segment = segment, qs_moves = moves\<rparr>))"

definition enqueue ::
  "motion_segment \<Rightarrow> u64 \<Rightarrow> motion_executor \<Rightarrow> (motion_error + motion_segment) \<times> motion_executor" where
  "enqueue segment now_ns e =
     (case enqueue_check segment now_ns e of
        Inl err \<Rightarrow> (Inl err, count_rejection e)
      | Inr runtime \<Rightarrow>
          let seg = qs_segment runtime;
              queue = me_queue e @ [runtime] in
          (Inr seg,
           e\<lparr>me_next_available_time_ns := sg_start_time_ns seg + sg_duration_ns seg,
             me_last_accepted_sequence := sg_sequence seg,
             me_queue := queue,
             me_state := MS_Armed,
             me_metrics := (me_metrics e)
               \<lparr>mm_accepted_segments := mm_accepted_segments (me_metrics e) + 1,
                mm_maximum_queue_depth := max (mm_maximum_queue_depth (me_metrics e)) (length queue)\<rparr>\<rparr>))"

subsection \<open>Edges\<close>

definition mk_edge :: "u64 \<Rightarrow> u32 \<Rightarrow> motion_signal \<Rightarrow> bool \<Rightarrow> motion_edge" where
  "mk_edge t resource_id signal lev = \<lparr>ed_global_time_ns = t, ed_local_tick = t,
     ed_axis_resource_id = resource_id, ed_signal = signal, ed_level = lev\<rparr>"

text \<open>The loops that emit rising or falling edges while their time has come.\<close>

function emit_steps :: "(u64 \<Rightarrow> u64) \<Rightarrow> u64 \<Rightarrow> u64 \<Rightarrow> u64 \<Rightarrow> u64 list \<times> u64" where
  "emit_steps time_of limit steps emitted =
     (if emitted < steps
      then if time_of emitted > limit then ([], emitted)
           else let (rest, emitted') = emit_steps time_of limit steps (emitted + 1)
                in (time_of emitted # rest, emitted')
      else ([], emitted))"
  by pat_completeness auto
termination
proof (relation "measure (\<lambda>(time_of, limit, steps, emitted). unat steps - unat emitted)", goal_cases)
  case (2 time_of limit steps emitted)
  then have "unat (emitted + 1) = unat emitted + 1" by (intro unat_succ)
  moreover have "unat emitted < unat steps" using 2 by (simp add: word_less_nat_alt)
  ultimately show ?case by simp
qed simp

declare emit_steps.simps [simp del]

text \<open>The time of the rising edge with the given index.\<close>

definition rise_time :: "motion_axis_config \<Rightarrow> motion_segment \<Rightarrow> u64 \<Rightarrow> u64 \<Rightarrow> u64" where
  "rise_time config segment step_count index =
     (let start = sg_start_time_ns segment;
          finish = start + sg_duration_ns segment;
          first_rise = start + ucast (cf_direction_setup_ns config);
          last_rise = finish - ucast (cf_step_pulse_width_ns config);
          span = last_rise - first_rise
      in first_rise + (if step_count = 1 then 0 else interpolate_offset span index (step_count - 1)))"

definition fall_time :: "motion_axis_config \<Rightarrow> motion_segment \<Rightarrow> u64 \<Rightarrow> u64 \<Rightarrow> u64" where
  "fall_time config segment step_count index =
     rise_time config segment step_count index + ucast (cf_step_pulse_width_ns config)"

text \<open>The body of the loop over the moves for one move whose axis is \<open>axis\<close>.\<close>

definition collect_move ::
  "motion_segment \<Rightarrow> u64 \<Rightarrow> axis_runtime \<Rightarrow> move_runtime \<Rightarrow> motion_edge list \<times> move_runtime" where
  "collect_move segment until_ns axis m =
     (if mr_step_count m = 0 then ([], m)
      else let start = sg_start_time_ns segment;
               finish = start + sg_duration_ns segment;
               effective_until = min until_ns finish;
               rid = mo_resource_id (mr_move m);
               direction_positive = (0 \<le> sint (mo_steps (mr_move m)));
               controls = \<not> mr_controls_emitted m \<and> effective_until \<ge> start;
               control_edges =
                 (if controls
                  then (if \<not> ax_enabled axis then [mk_edge start rid Enable True] else []) @
                       (if ax_direction_positive axis \<noteq> direction_positive
                        then [mk_edge start rid Direction direction_positive] else [])
                  else []);
               (rises, rises_emitted) =
                 emit_steps (rise_time (ax_config axis) segment (mr_step_count m)) effective_until
                   (mr_step_count m) (mr_rises_emitted m);
               (falls, falls_emitted) =
                 emit_steps (fall_time (ax_config axis) segment (mr_step_count m)) effective_until
                   (mr_step_count m) (mr_falls_emitted m)
        in (control_edges @ map (\<lambda>t. mk_edge t rid Step True) rises @
              map (\<lambda>t. mk_edge t rid Step False) falls,
            m\<lparr>mr_rises_emitted := rises_emitted, mr_falls_emitted := falls_emitted,
              mr_controls_emitted := (controls \<or> mr_controls_emitted m)\<rparr>))"

text \<open>
  The loop over the moves; a move on an unknown axis throws, leaving the moves before it advanced.
\<close>

fun collect_moves ::
  "motion_executor \<Rightarrow> motion_segment \<Rightarrow> u64 \<Rightarrow> move_runtime list \<Rightarrow>
   (motion_error + motion_edge list) \<times> move_runtime list" where
  "collect_moves e segment until_ns [] = (Inr [], [])"
| "collect_moves e segment until_ns (m # rest) =
     (case find_axis (mo_resource_id (mr_move m)) e of
        None \<Rightarrow> (Inl InvalidAxis, m # rest)
      | Some axis \<Rightarrow>
          let (edges, m') = collect_move segment until_ns axis m;
              (r, rest') = collect_moves e segment until_ns rest
          in (case r of Inl err \<Rightarrow> Inl err | Inr later \<Rightarrow> Inr (edges @ later), m' # rest'))"

definition axis_apply :: "motion_edge \<Rightarrow> axis_runtime \<Rightarrow> axis_runtime" where
  "axis_apply edge axis =
     (case ed_signal edge of
        Enable \<Rightarrow> axis\<lparr>ax_enabled := ed_level edge\<rparr>
      | Direction \<Rightarrow> axis\<lparr>ax_direction_positive := ed_level edge\<rparr>
      | Step \<Rightarrow>
          let axis1 = axis\<lparr>ax_step_level := ed_level edge\<rparr> in
          if ed_level edge
          then axis1\<lparr>ax_position_steps := ax_position_steps axis +
                       (if ax_direction_positive axis then 1 else -1),
                     ax_emitted_steps := ax_emitted_steps axis + 1\<rparr>
          else axis1)"

definition count_step :: "motion_edge \<Rightarrow> motion_executor \<Rightarrow> motion_executor" where
  "count_step edge e =
     (if ed_signal edge = Step \<and> ed_level edge
      then e\<lparr>me_metrics := (me_metrics e)
             \<lparr>mm_emitted_steps := mm_emitted_steps (me_metrics e) + 1\<rparr>\<rparr>
      else e)"

fun apply_edges :: "motion_edge list \<Rightarrow> motion_executor \<Rightarrow> (motion_error + unit) \<times> motion_executor" where
  "apply_edges [] e = (Inr (), e)"
| "apply_edges (edge # edges) e =
     (case map_of (me_axis_indices e) (ed_axis_resource_id edge) of
        None \<Rightarrow> (Inl InvalidAxis, count_rejection e)
      | Some i \<Rightarrow>
          apply_edges edges
            (count_step edge (e\<lparr>me_axes := (me_axes e)[i := axis_apply edge (me_axes e ! i)]\<rparr>)))"

definition count_edges :: "nat \<Rightarrow> motion_executor \<Rightarrow> motion_executor" where
  "count_edges n e = e\<lparr>me_metrics := (me_metrics e)
     \<lparr>mm_emitted_edges := mm_emitted_edges (me_metrics e) + word_of_nat n\<rparr>\<rparr>"

definition collect_segment_edges ::
  "segment_runtime \<Rightarrow> u64 \<Rightarrow> motion_executor \<Rightarrow>
   (motion_error + motion_edge list) \<times> segment_runtime \<times> motion_executor" where
  "collect_segment_edges runtime until_ns e =
     (let (r, moves) = collect_moves e (qs_segment runtime) until_ns (qs_moves runtime);
          runtime' = runtime\<lparr>qs_moves := moves\<rparr>
      in case r of
           Inl err \<Rightarrow> (Inl err, runtime', count_rejection e)
         | Inr edges \<Rightarrow>
             let sorted_edges = sort_edges edges in
             (case apply_edges sorted_edges e of
                (Inl err, e1) \<Rightarrow> (Inl err, runtime', e1)
              | (Inr _, e1) \<Rightarrow> (Inr sorted_edges, runtime', count_edges (length sorted_edges) e1)))"

definition enter_safe_state :: "u64 \<Rightarrow> motion_fault \<Rightarrow> motion_executor \<Rightarrow> motion_edge list \<times> motion_executor" where
  "enter_safe_state at_ns fault e =
     (concat (map (\<lambda>axis.
        (if ax_step_level axis
         then [mk_edge at_ns (cf_resource_id (ax_config axis)) Step False] else []) @
        (if ax_enabled axis
         then [mk_edge at_ns (cf_resource_id (ax_config axis)) Enable False] else [])) (me_axes e)),
      let e1 = e\<lparr>me_queue := [], me_next_available_time_ns := at_ns\<rparr> in
      if fault = MF_None then e1\<lparr>me_state := MS_Idle, me_fault := MF_None\<rparr>
      else e1\<lparr>me_state := MS_Faulted, me_fault := fault,
              me_metrics := (me_metrics e)
                \<lparr>mm_safety_stops := mm_safety_stops (me_metrics e) + 1\<rparr>\<rparr>)"

text \<open>The block that follows every call of \<^verbatim>\<open>enter_safe_state\<close>.\<close>

definition safe_stop ::
  "u64 \<Rightarrow> motion_fault \<Rightarrow> motion_executor \<Rightarrow> (motion_error + motion_edge list) \<times> motion_executor" where
  "safe_stop at_ns fault e =
     (let (edges, e1) = enter_safe_state at_ns fault e; safe = sort_edges edges in
      case apply_edges safe e1 of
        (Inl err, e2) \<Rightarrow> (Inl err, e2)
      | (Inr _, e2) \<Rightarrow> (Inr safe, count_edges (length safe) e2))"

subsection \<open>Advancing time\<close>

definition complete_segment :: "motion_segment \<Rightarrow> segment_runtime list \<Rightarrow> motion_executor \<Rightarrow> motion_executor" where
  "complete_segment segment rest e =
     e\<lparr>me_last_completed_sequence := sg_sequence segment, me_queue := rest,
       me_metrics := (me_metrics e)
         \<lparr>mm_completed_segments := mm_completed_segments (me_metrics e) + 1\<rparr>\<rparr>"

definition count_underrun :: "motion_executor \<Rightarrow> motion_executor" where
  "count_underrun e = e\<lparr>me_metrics := (me_metrics e)
     \<lparr>mm_queue_underruns := mm_queue_underruns (me_metrics e) + 1\<rparr>\<rparr>"

text \<open>The loop of \<^verbatim>\<open>advance_to\<close> over the queue; the front segment is \<open>current\<close>.\<close>

fun advance_loop ::
  "u64 \<Rightarrow> segment_runtime list \<Rightarrow> motion_executor \<Rightarrow>
   (motion_error + motion_edge list) \<times> motion_executor" where
  "advance_loop now_ns [] e = (Inr [], e)"
| "advance_loop now_ns (current # rest) e =
     (if now_ns < sg_start_time_ns (qs_segment current) then (Inr [], e)
      else case collect_segment_edges current now_ns (e\<lparr>me_state := MS_Running\<rparr>) of
        (Inl err, current', e1) \<Rightarrow> (Inl err, e1\<lparr>me_queue := current' # rest\<rparr>)
      | (Inr edges, current', e1) \<Rightarrow>
          let e2 = e1\<lparr>me_queue := current' # rest\<rparr>;
              segment = qs_segment current;
              end_time = sg_start_time_ns segment + sg_duration_ns segment in
          if now_ns < end_time then (Inr edges, e2)
          else let e3 = complete_segment segment rest e2 in
            if sg_final_segment segment
            then (case safe_stop end_time MF_None e3 of
                    (Inl err, e4) \<Rightarrow> (Inl err, e4)
                  | (Inr safe, e4) \<Rightarrow> (Inr (edges @ safe), e4))
            else if rest = []
            then (case safe_stop end_time MF_QueueUnderrun (count_underrun e3) of
                    (Inl err, e4) \<Rightarrow> (Inl err, e4)
                  | (Inr safe, e4) \<Rightarrow> (Inr (edges @ safe), e4))
            else (case advance_loop now_ns rest e3 of
                    (Inl err, e4) \<Rightarrow> (Inl err, e4)
                  | (Inr later, e4) \<Rightarrow> (Inr (edges @ later), e4)))"

definition advance_to ::
  "u64 \<Rightarrow> motion_executor \<Rightarrow> (motion_error + motion_edge list) \<times> motion_executor" where
  "advance_to now_ns e =
     (if now_ns < me_now_ns e then (Inl TimeWentBackwards, e)
      else case advance_loop now_ns (me_queue e) e of
        (Inl err, e1) \<Rightarrow> (Inl err, e1)
      | (Inr output, e1) \<Rightarrow>
          let e2 = e1\<lparr>me_now_ns := now_ns\<rparr> in
          (Inr (sort_edges output),
           if me_queue e2 = [] \<and> me_fault e2 = MF_None \<and> me_state e2 \<noteq> MS_Faulted
           then e2\<lparr>me_state := MS_Idle\<rparr> else e2))"

definition abort ::
  "u64 \<Rightarrow> motion_fault \<Rightarrow> motion_executor \<Rightarrow> (motion_error + motion_edge list) \<times> motion_executor" where
  "abort now_ns fault e =
     (if fault = MF_None \<or> fault = MF_QueueUnderrun then (Inl InvalidSegment, e)
      else if me_fault e \<noteq> MF_None then (Inl FaultLatched, e)
      else case advance_to now_ns e of
        (Inl err, e1) \<Rightarrow> (Inl err, e1)
      | (Inr output, e1) \<Rightarrow>
          (case safe_stop now_ns fault e1 of
             (Inl err, e2) \<Rightarrow> (Inl err, e2)
           | (Inr safe, e2) \<Rightarrow> (Inr (sort_edges (output @ safe)), e2)))"

definition trigger_limit ::
  "u32 \<Rightarrow> u64 \<Rightarrow> motion_executor \<Rightarrow> (motion_error + motion_edge list) \<times> motion_executor" where
  "trigger_limit axis_resource_id now_ns e =
     (case find_axis axis_resource_id e of
        None \<Rightarrow> (Inl InvalidAxis, count_rejection e)
      | Some _ \<Rightarrow>
          abort now_ns MF_LimitTriggered
            (e\<lparr>me_metrics := (me_metrics e)
                \<lparr>mm_limit_stops := mm_limit_stops (me_metrics e) + 1\<rparr>\<rparr>))"

definition clear_fault :: "motion_executor \<Rightarrow> (motion_error + unit) \<times> motion_executor" where
  "clear_fault e =
     (if me_queue e \<noteq> [] then (Inl FaultLatched, e)
      else (Inr (), e\<lparr>me_fault := MF_None, me_state := MS_Idle,
                      me_next_available_time_ns := me_now_ns e\<rparr>))"

definition executor_status :: "motion_executor \<Rightarrow> motion_status" where
  "executor_status e =
     \<lparr>ex_state = me_state e, ex_fault = me_fault e, ex_node_time_ns = me_now_ns e,
      ex_queue_depth = length (me_queue e), ex_queue_capacity = me_queue_capacity e,
      ex_last_accepted_sequence = me_last_accepted_sequence e,
      ex_last_completed_sequence = me_last_completed_sequence e,
      ex_axes = map (\<lambda>axis. \<lparr>xs_resource_id = cf_resource_id (ax_config axis),
         xs_enabled = ax_enabled axis, xs_direction_positive = ax_direction_positive axis,
         xs_step_level = ax_step_level axis, xs_position_steps = ax_position_steps axis,
         xs_emitted_steps = ax_emitted_steps axis\<rparr>) (me_axes e),
      ex_metrics = me_metrics e\<rparr>"

end
