(* ===== verification/Remote_Core.thy ===== *)
theory Remote_Core
  imports Packet Discovery_Payload Resource_Payload Gpio_Bsp Uart_Bsp Motion_Executor
begin

text \<open>
  \<^verbatim>\<open>mock_mcu/include/remotebsp/mock_mcu/remote_core.hpp\<close> and \<^verbatim>\<open>mock_mcu/src/remote_core.cpp\<close>: the
  node's command handlers. A core holds the resource catalogue, the leases of each resource, the
  GPIO and UART objects created by the sessions, and the back ends (\<open>None\<close> for a null pointer).
  An operation that may throw returns \<open>Inl\<close> the exception with the state it leaves. Exceptions the
  handlers catch become their status codes. Invariants and properties are in \<open>Core_Leases\<close> and
  \<open>Core_Safety\<close>.
\<close>

subsection \<open>Data\<close>

definition kMinimumLeaseDurationMs :: u32 where "kMinimumLeaseDurationMs = 100"
definition kMaximumLeaseDurationMs :: u32 where "kMaximumLeaseDurationMs = 60000"

datatype capability =
    Cap_Gpio | Cap_Uart | Cap_Spi | Cap_I2c | Cap_Adc | Cap_Pwm | Cap_Timer | Cap_Storage
  | Cap_Bootloader | Cap_Motion

fun capability_mask :: "capability \<Rightarrow> u64" where
  "capability_mask Cap_Gpio = 1"
| "capability_mask Cap_Uart = 2"
| "capability_mask Cap_Spi = 4"
| "capability_mask Cap_I2c = 8"
| "capability_mask Cap_Adc = 16"
| "capability_mask Cap_Pwm = 32"
| "capability_mask Cap_Timer = 64"
| "capability_mask Cap_Storage = 128"
| "capability_mask Cap_Bootloader = 256"
| "capability_mask Cap_Motion = 512"

datatype status_code =
    SC_Ok | SC_UnknownCommand | SC_InvalidPayload | SC_ObjectNotFound | SC_AccessDenied
  | SC_ResourceExhausted | SC_UnsupportedCapability | SC_ResourceFailed | SC_ResourceBusy

fun status_code_value :: "status_code \<Rightarrow> byte" where
  "status_code_value SC_Ok = 0"
| "status_code_value SC_UnknownCommand = 1"
| "status_code_value SC_InvalidPayload = 2"
| "status_code_value SC_ObjectNotFound = 3"
| "status_code_value SC_AccessDenied = 4"
| "status_code_value SC_ResourceExhausted = 5"
| "status_code_value SC_UnsupportedCapability = 6"
| "status_code_value SC_ResourceFailed = 7"
| "status_code_value SC_ResourceBusy = 8"

record node_info =
  nf_uuid :: node_uuid
  nf_firmware_major :: u16
  nf_firmware_minor :: u16
  nf_firmware_patch :: u16
  nf_board_type :: u32
  nf_protocol_version :: byte

datatype core_error = CE_NotRequest | CE_UnsupportedVersion | CE_InvalidResourceCatalog

text \<open>The exceptions that leave the core: its own, and those of the calls it does not guard.\<close>

datatype core_exception =
    CoreException core_error
  | ResourcePayloadException resource_payload_error
  | MotionPayloadException motion_payload_error
  | GpioException mock_gpio_error
  | InvalidArgument

record gpio_object =
  go_pin :: u16
  go_direction :: gpio_direction
  go_resource_id :: u32
  go_owner_session_id :: u32

record uart_object =
  uo_port :: byte
  uo_resource_id :: u32
  uo_owner_session_id :: u32
  uo_streaming :: bool
  uo_event_sequence :: u32

record lease =
  le_lease_id :: u64
  le_owner_session_id :: u32
  le_granted_duration_ms :: u32
  le_mode :: byte
  le_expires_at :: time

record remote_core =
  co_node_info :: node_info
  co_capabilities :: u64
  co_gpio_bsp :: "mock_gpio_bsp option"
  co_uart_bsp :: "mock_uart_bsp option"
  co_motion :: "motion_executor option"
  co_resources :: "resource_descriptor list"
  co_contracts :: "resource_contract list"
  co_leases :: "(u32, lease list) hmap"
  co_gpio_objects :: "(u32, gpio_object) hmap"
  co_uart_objects :: "(u32, uart_object) hmap"
  co_next_object_id :: u32
  co_next_lease_id :: u64
  co_bootloader_requested :: bool

type_synonym core_result = "(core_exception + packet) \<times> remote_core"

subsection \<open>Construction\<close>

fun check_resources :: "u32 list \<Rightarrow> resource_descriptor list \<Rightarrow> core_error + u32 list" where
  "check_resources ids [] = Inr ids"
| "check_resources ids (r # rs) =
     (if rd_resource_id r = 0 \<or> rd_resource_id r \<in> set ids then Inl CE_InvalidResourceCatalog
      else check_resources (rd_resource_id r # ids) rs)"

definition has_flag :: "u16 \<Rightarrow> u16 \<Rightarrow> bool" where
  "has_flag flags flag \<longleftrightarrow> flags AND flag \<noteq> 0"

fun check_contracts :: "u32 list \<Rightarrow> u32 list \<Rightarrow> resource_contract list \<Rightarrow> core_error + unit" where
  "check_contracts resource_ids ids [] = Inr ()"
| "check_contracts resource_ids ids (c # cs) =
     (let lease_required = has_flag (rc_access_flags c) kResourceAccessLeaseRequired;
          lease_supported = has_flag (rc_access_flags c) kResourceAccessLeaseSupported in
      if rc_resource_id c = 0 \<or> rc_version c \<noteq> kResourceContractVersion \<or>
         rc_resource_id c \<notin> set resource_ids \<or> rc_resource_id c \<in> set ids \<or>
         (lease_required \<and> \<not> lease_supported)
      then Inl CE_InvalidResourceCatalog
      else check_contracts resource_ids (rc_resource_id c # ids) cs)"

definition remote_core_new ::
  "node_info \<Rightarrow> u64 \<Rightarrow> mock_gpio_bsp option \<Rightarrow> mock_uart_bsp option \<Rightarrow>
   resource_descriptor list \<Rightarrow> resource_contract list \<Rightarrow> motion_executor option \<Rightarrow>
   core_error + remote_core" where
  "remote_core_new info capabilities gpio_bsp uart_bsp resources contracts motion =
     (if nf_protocol_version info \<noteq> kProtocolVersion then Inl CE_UnsupportedVersion
      else try_bind (check_resources [] resources) (\<lambda>resource_ids.
        try_bind (check_contracts resource_ids [] contracts) (\<lambda>_. Inr
          \<lparr>co_node_info = info, co_capabilities = capabilities, co_gpio_bsp = gpio_bsp,
           co_uart_bsp = uart_bsp, co_motion = motion, co_resources = resources,
           co_contracts = contracts, co_leases = [], co_gpio_objects = [], co_uart_objects = [],
           co_next_object_id = 1, co_next_lease_id = 1, co_bootloader_requested = False\<rparr>)))"

subsection \<open>Lookups\<close>

definition find_resource :: "u32 \<Rightarrow> remote_core \<Rightarrow> resource_descriptor option" where
  "find_resource resource_id c = find (\<lambda>r. rd_resource_id r = resource_id) (co_resources c)"

definition find_instance :: "resource_type \<Rightarrow> u16 \<Rightarrow> remote_core \<Rightarrow> resource_descriptor option" where
  "find_instance t inst c =
     find (\<lambda>r. rd_type r = resource_type_code t \<and> rd_instance r = inst) (co_resources c)"

definition find_contract :: "u32 \<Rightarrow> remote_core \<Rightarrow> resource_contract option" where
  "find_contract resource_id c = find (\<lambda>k. rc_resource_id k = resource_id) (co_contracts c)"

definition resource_has_objects :: "u32 \<Rightarrow> remote_core \<Rightarrow> bool" where
  "resource_has_objects resource_id c \<longleftrightarrow>
     list_ex (\<lambda>e. go_resource_id (snd e) = resource_id) (co_gpio_objects c) \<or>
     list_ex (\<lambda>e. uo_resource_id (snd e) = resource_id) (co_uart_objects c)"

definition session_has_exclusive_lease :: "u32 \<Rightarrow> u32 \<Rightarrow> remote_core \<Rightarrow> bool" where
  "session_has_exclusive_lease resource_id session_id c \<longleftrightarrow>
     (case map_of (co_leases c) resource_id of
        None \<Rightarrow> False
      | Some entries \<Rightarrow> list_ex (\<lambda>l. le_owner_session_id l = session_id \<and>
                                    le_mode l = lease_mode_code LM_Exclusive) entries)"

definition resource_access_allowed :: "u32 \<Rightarrow> u32 \<Rightarrow> remote_core \<Rightarrow> bool" where
  "resource_access_allowed resource_id session_id c \<longleftrightarrow>
     (case map_of (co_leases c) resource_id of
        None \<Rightarrow> True
      | Some entries \<Rightarrow> entries = [] \<or> list_ex (\<lambda>l. le_owner_session_id l = session_id) entries)"

text \<open>The test on \<^verbatim>\<open>lease_required\<close>, \<^verbatim>\<open>lease_active\<close> and the exclusive lease that guards a use.\<close>

definition lease_denies :: "u32 \<Rightarrow> u32 \<Rightarrow> remote_core \<Rightarrow> bool" where
  "lease_denies resource_id session_id c \<longleftrightarrow>
     (let lease_required = (case find_contract resource_id c of
            None \<Rightarrow> False
          | Some k \<Rightarrow> has_flag (rc_access_flags k) kResourceAccessLeaseRequired);
          lease_active = (map_of (co_leases c) resource_id \<noteq> None)
      in (lease_required \<or> lease_active) \<and> \<not> session_has_exclusive_lease resource_id session_id c)"

subsection \<open>Releasing\<close>

definition motion_active :: "motion_executor \<Rightarrow> bool" where
  "motion_active m \<longleftrightarrow> me_state m = MS_Armed \<or> me_state m = MS_Running"

text \<open>The stop on releasing a step generator; an exception of \<^verbatim>\<open>abort\<close> is swallowed.\<close>

definition stop_motion :: "u32 \<Rightarrow> remote_core \<Rightarrow> remote_core" where
  "stop_motion resource_id c =
     (case (find_resource resource_id c, co_motion c) of
        (Some r, Some m) \<Rightarrow>
          if rd_type r = resource_type_code RT_StepgenAxis \<and> motion_active m
          then c\<lparr>co_motion := Some (snd (abort (me_now_ns m) MF_Aborted m))\<rparr> else c
      | _ \<Rightarrow> c)"

fun release_gpio ::
  "u32 \<Rightarrow> u32 \<Rightarrow> (u32, gpio_object) hmap \<Rightarrow> mock_gpio_bsp option \<Rightarrow>
   (u32, gpio_object) hmap \<times> mock_gpio_bsp option" where
  "release_gpio resource_id owner [] bsp = ([], bsp)"
| "release_gpio resource_id owner ((k, obj) # objs) bsp =
     (if go_resource_id obj \<noteq> resource_id \<or> go_owner_session_id obj \<noteq> owner
      then let (objs', bsp') = release_gpio resource_id owner objs bsp in ((k, obj) # objs', bsp')
      else release_gpio resource_id owner objs
        (case bsp of
           None \<Rightarrow> None
         | Some b \<Rightarrow> if go_direction obj = GD_Output
                     then Some (snd (gpio_write (go_pin obj) False b)) else Some b))"

fun release_uart ::
  "u32 \<Rightarrow> u32 \<Rightarrow> (u32, uart_object) hmap \<Rightarrow> mock_uart_bsp option \<Rightarrow>
   (u32, uart_object) hmap \<times> mock_uart_bsp option" where
  "release_uart resource_id owner [] bsp = ([], bsp)"
| "release_uart resource_id owner ((k, obj) # objs) bsp =
     (if uo_resource_id obj \<noteq> resource_id \<or> uo_owner_session_id obj \<noteq> owner
      then let (objs', bsp') = release_uart resource_id owner objs bsp in ((k, obj) # objs', bsp')
      else release_uart resource_id owner objs
        (map_option (\<lambda>b. snd (uart_reset (uo_port obj) b)) bsp))"

definition release_resource_objects :: "u32 \<Rightarrow> u32 \<Rightarrow> remote_core \<Rightarrow> remote_core" where
  "release_resource_objects resource_id owner c =
     (let c1 = stop_motion resource_id c;
          (gpios, gpio_bsp) = release_gpio resource_id owner (co_gpio_objects c1) (co_gpio_bsp c1);
          (uarts, uart_bsp) = release_uart resource_id owner (co_uart_objects c1) (co_uart_bsp c1)
      in c1\<lparr>co_gpio_objects := gpios, co_gpio_bsp := gpio_bsp,
            co_uart_objects := uarts, co_uart_bsp := uart_bsp\<rparr>)"

text \<open>
  The two nested loops of \<^verbatim>\<open>expire_leases\<close> and \<^verbatim>\<open>release_session\<close>, which differ in which leases
  they erase. Releasing objects does not touch the leases.
\<close>

fun purge_entries ::
  "(lease \<Rightarrow> bool) \<Rightarrow> u32 \<Rightarrow> lease list \<Rightarrow> remote_core \<Rightarrow> lease list \<times> nat \<times> remote_core" where
  "purge_entries gone resource_id [] c = ([], 0, c)"
| "purge_entries gone resource_id (l # ls) c =
     (if \<not> gone l
      then let (kept, n, c') = purge_entries gone resource_id ls c in (l # kept, n, c')
      else let (kept, n, c') = purge_entries gone resource_id ls
                 (release_resource_objects resource_id (le_owner_session_id l) c)
           in (kept, Suc n, c'))"

fun purge_map ::
  "(lease \<Rightarrow> bool) \<Rightarrow> (u32, lease list) hmap \<Rightarrow> remote_core \<Rightarrow>
   (u32, lease list) hmap \<times> nat \<times> remote_core" where
  "purge_map gone [] c = ([], 0, c)"
| "purge_map gone ((resource_id, entries) # m) c =
     (let (kept, n, c1) = purge_entries gone resource_id entries c;
          (m', n', c2) = purge_map gone m c1
      in (if kept = [] then m' else (resource_id, kept) # m', n + n', c2))"

definition purge_leases :: "(lease \<Rightarrow> bool) \<Rightarrow> remote_core \<Rightarrow> nat \<times> remote_core" where
  "purge_leases gone c =
     (let (leases, n, c') = purge_map gone (co_leases c) c in (n, c'\<lparr>co_leases := leases\<rparr>))"

definition expire_leases :: "time \<Rightarrow> remote_core \<Rightarrow> nat \<times> remote_core" where
  "expire_leases now c = purge_leases (\<lambda>l. \<not> le_expires_at l > now) c"

definition release_session :: "u32 \<Rightarrow> remote_core \<Rightarrow> nat \<times> remote_core" where
  "release_session session_id c = purge_leases (\<lambda>l. le_owner_session_id l = session_id) c"

subsection \<open>Responses\<close>

definition make_lease_info :: "u32 \<Rightarrow> u32 \<Rightarrow> time \<Rightarrow> remote_core \<Rightarrow> resource_lease_info" where
  "make_lease_info resource_id requester now c =
     (let info = \<lparr>li_resource_id = resource_id, li_lease_id = 0, li_owner_session_id = 0,
            li_granted_duration_ms = 0, li_remaining_ms = 0, li_mode = lease_mode_code LM_None,
            li_active_lease_count = 0\<rparr>
      in case map_of (co_leases c) resource_id of
           None \<Rightarrow> info
         | Some entries \<Rightarrow>
             if entries = [] then info
             else let owned = find (\<lambda>l. le_owner_session_id l = requester) entries;
                      selected = (case owned of None \<Rightarrow> hd entries | Some l \<Rightarrow> l)
                  in info\<lparr>li_active_lease_count := word_of_nat (min (length entries) 0xFFFF),
                          li_owner_session_id := le_owner_session_id selected,
                          li_granted_duration_ms := le_granted_duration_ms selected,
                          li_mode := le_mode selected,
                          li_lease_id := (if owned = None then 0 else le_lease_id selected),
                          li_remaining_ms :=
                            (if le_expires_at selected > now
                             then word_of_int (min ((le_expires_at selected - now) div ms 1) 0xFFFFFFFF)
                             else 0)\<rparr>)"

definition make_response :: "packet \<Rightarrow> status_code \<Rightarrow> packet" where
  "make_response request status =
     \<lparr>header = default_header\<lparr>ph_version := kProtocolVersion,
        ph_message_type := message_type_code Response,
        ph_command := ph_command (header request),
        ph_session_id := ph_session_id (header request),
        ph_request_id := ph_request_id (header request),
        ph_object_id := ph_object_id (header request),
        ph_flags := (if status = SC_Ok then 0 else kErrorResponseFlag)\<rparr>,
      payload = [status_code_value status]\<rparr>"

text \<open>A successful response with further bytes, and one with an object id.\<close>

definition ok_response :: "packet \<Rightarrow> byte list \<Rightarrow> packet" where
  "ok_response request body =
     (let r = make_response request SC_Ok in r\<lparr>payload := payload r @ body\<rparr>)"

definition object_response :: "packet \<Rightarrow> u32 \<Rightarrow> packet" where
  "object_response request object_id =
     (let r = make_response request SC_Ok in r\<lparr>header := (header r)\<lparr>ph_object_id := object_id\<rparr>\<rparr>)"

text \<open>Leaving a handler with a status, and with an encoded record.\<close>

definition reply :: "packet \<Rightarrow> status_code \<Rightarrow> remote_core \<Rightarrow> core_result" where
  "reply request status c = (Inr (make_response request status), c)"

definition reply_encoded ::
  "packet \<Rightarrow> core_exception + byte list \<Rightarrow> remote_core \<Rightarrow> core_result" where
  "reply_encoded request encoded c = (try_bind encoded (\<lambda>body. Inr (ok_response request body)), c)"

subsection \<open>Node handlers\<close>

definition handle_get_info :: "packet \<Rightarrow> remote_core \<Rightarrow> core_result" where
  "handle_get_info request c =
     (if payload request \<noteq> [] then reply request SC_InvalidPayload c
      else let info = co_node_info c in
        (Inr (ok_response request
           (uuid_bytes (nf_uuid info) @ put_u16 (nf_firmware_major info) @
            put_u16 (nf_firmware_minor info) @ put_u16 (nf_firmware_patch info) @
            put_u32 (nf_board_type info) @ [nf_protocol_version info])), c))"

definition handle_get_capability :: "packet \<Rightarrow> remote_core \<Rightarrow> core_result" where
  "handle_get_capability request c =
     (if payload request \<noteq> [] then reply request SC_InvalidPayload c
      else (Inr (ok_response request (put_u64 (co_capabilities c))), c))"

definition handle_ping :: "packet \<Rightarrow> remote_core \<Rightarrow> core_result" where
  "handle_ping request c =
     (if length (payload request) \<ge> kMaximumPayloadSize then reply request SC_InvalidPayload c
      else (Inr (ok_response request (payload request)), c))"

definition boot_confirmation :: "byte list" where
  "boot_confirmation = [0x52, 0x42, 0x53, 0x50, 0x42, 0x4F, 0x4F, 0x54]"

definition has_capability :: "capability \<Rightarrow> remote_core \<Rightarrow> bool" where
  "has_capability k c \<longleftrightarrow> co_capabilities c AND capability_mask k \<noteq> 0"

definition handle_bootloader_enter :: "packet \<Rightarrow> remote_core \<Rightarrow> core_result" where
  "handle_bootloader_enter request c =
     (if ph_object_id (header request) \<noteq> 0 \<or> payload request \<noteq> boot_confirmation
      then reply request SC_InvalidPayload c
      else if \<not> has_capability Cap_Bootloader c then reply request SC_UnsupportedCapability c
      else reply request SC_Ok (c\<lparr>co_bootloader_requested := True\<rparr>))"

subsection \<open>Resource handlers\<close>

definition handle_resource_enum :: "packet \<Rightarrow> remote_core \<Rightarrow> core_result" where
  "handle_resource_enum request c =
     (if payload request \<noteq> [] \<or> ph_object_id (header request) \<noteq> 0
      then reply request SC_InvalidPayload c
      else case encode_resource_list (co_resources c) of
          Inl e \<Rightarrow> (Inl (ResourcePayloadException e), c)
        | Inr encoded \<Rightarrow>
            if length encoded + 1 > kMaximumPayloadSize then reply request SC_ResourceExhausted c
            else (Inr (ok_response request encoded), c))"

text \<open>
  The beginning of the handlers that take a resource id as their payload. \<^verbatim>\<open>decode_resource_id\<close>
  cannot fail after the length check.
\<close>

definition with_resource ::
  "packet \<Rightarrow> remote_core \<Rightarrow> (u32 \<Rightarrow> resource_descriptor \<Rightarrow> core_result) \<Rightarrow> core_result" where
  "with_resource request c act =
     (if ph_object_id (header request) \<noteq> 0 \<or> length (payload request) \<noteq> 4
      then reply request SC_InvalidPayload c
      else case decode_resource_id (payload request) of
          Inl e \<Rightarrow> (Inl (ResourcePayloadException e), c)
        | Inr resource_id \<Rightarrow>
            (case find_resource resource_id c of
               None \<Rightarrow> reply request SC_ObjectNotFound c
             | Some found \<Rightarrow> act resource_id found))"

definition handle_resource_describe :: "packet \<Rightarrow> remote_core \<Rightarrow> core_result" where
  "handle_resource_describe request c = with_resource request c (\<lambda>resource_id found.
     reply_encoded request (map_error ResourcePayloadException (encode_resource_descriptor found)) c)"

text \<open>The status of a UART resource from the status of its port.\<close>

definition uart_resource_status ::
  "u32 \<Rightarrow> resource_descriptor \<Rightarrow> uart_runtime_status \<Rightarrow> resource_status_payload" where
  "uart_resource_status resource_id found u =
     (let high = (\<lambda>buffered capacity. capacity \<noteq> (0 :: u32) \<and>
            (ucast capacity :: u64) * 3 \<le> ucast (buffered :: u32) * 4);
          flags =
            (if us_rx_overruns u \<noteq> 0 then kResourceErrorRxOverflow else 0) OR
            (if us_tx_overruns u \<noteq> 0 then kResourceErrorTxOverflow else 0) OR
            (if high (us_rx_buffered u) (rd_rx_capacity found) then kResourceErrorRxHighWater else 0) OR
            (if high (us_tx_buffered u) (rd_tx_capacity found) then kResourceErrorTxHighWater else 0) OR
            (if us_failed u then kResourceErrorBackendFailure else 0);
          health =
            (if us_failed u then RH_Failed
             else if flags AND (kResourceErrorRxOverflow OR kResourceErrorTxOverflow) \<noteq> 0 then RH_Degraded
             else if flags \<noteq> 0 then RH_Busy else RH_Normal)
      in \<lparr>rs_resource_id = resource_id, rs_health = resource_health_code health,
          rs_error_flags = flags, rs_rx_buffered = us_rx_buffered u,
          rs_tx_buffered = us_tx_buffered u, rs_rx_overruns = us_rx_overruns u,
          rs_tx_overruns = us_tx_overruns u\<rparr>)"

text \<open>The status call of the simulated ports does not throw, so the catch block is not reached.\<close>

definition resource_status_of :: "u32 \<Rightarrow> resource_descriptor \<Rightarrow> remote_core \<Rightarrow> resource_status_payload" where
  "resource_status_of resource_id found c =
     (let normal = \<lparr>rs_resource_id = resource_id, rs_health = resource_health_code RH_Normal,
            rs_error_flags = 0, rs_rx_buffered = 0, rs_tx_buffered = 0, rs_rx_overruns = 0,
            rs_tx_overruns = 0\<rparr>
      in if rd_type found = resource_type_code RT_Uart \<and> co_uart_bsp c \<noteq> None \<and>
            rd_instance found \<le> 255
         then uart_resource_status resource_id found
                (uart_status (ucast (rd_instance found)) (the (co_uart_bsp c)))
         else if rd_type found = resource_type_code RT_StepgenAxis
         then (case co_motion c of
                 None \<Rightarrow> normal
               | Some m \<Rightarrow>
                   if me_fault m \<noteq> MF_None
                   then normal\<lparr>rs_error_flags := kResourceErrorBackendFailure,
                               rs_health := resource_health_code RH_Failed\<rparr>
                   else if motion_active m
                   then normal\<lparr>rs_health := resource_health_code RH_Busy\<rparr> else normal)
         else normal)"

definition handle_resource_status :: "packet \<Rightarrow> remote_core \<Rightarrow> core_result" where
  "handle_resource_status request c = with_resource request c (\<lambda>resource_id found.
     reply_encoded request
       (map_error ResourcePayloadException
         (encode_resource_status (resource_status_of resource_id found c))) c)"

definition uart_error_status :: "uart_error \<Rightarrow> status_code" where
  "uart_error_status e = (case e of
     PortNotConfigured \<Rightarrow> SC_ObjectNotFound | BufferOverflow \<Rightarrow> SC_ResourceExhausted
   | PortFailed \<Rightarrow> SC_ResourceFailed | UartInvalidArgument \<Rightarrow> SC_ResourceFailed)"

text \<open>The reset of a step generator: abort when active, then clear the fault.\<close>

definition reset_motion :: "motion_executor \<Rightarrow> (motion_error + unit) \<times> motion_executor" where
  "reset_motion m =
     (case (if motion_active m
            then (case abort (me_now_ns m) MF_Aborted m of (Inl e, m') \<Rightarrow> (Inl e, m') | (Inr _, m') \<Rightarrow> (Inr (), m'))
            else (Inr (), m)) of
        (Inl e, m1) \<Rightarrow> (Inl e, m1)
      | (Inr _, m1) \<Rightarrow> clear_fault m1)"

definition handle_resource_reset :: "packet \<Rightarrow> remote_core \<Rightarrow> core_result" where
  "handle_resource_reset request c = with_resource request c (\<lambda>resource_id found.
     let session_id = ph_session_id (header request) in
     if \<not> resource_access_allowed resource_id session_id c \<or>
        (map_of (co_leases c) resource_id \<noteq> None \<and>
         \<not> session_has_exclusive_lease resource_id session_id c)
     then reply request SC_AccessDenied c
     else if rd_type found = resource_type_code RT_StepgenAxis \<and> co_motion c \<noteq> None
     then (case reset_motion (the (co_motion c)) of
             (Inl _, m) \<Rightarrow> reply request SC_ResourceFailed (c\<lparr>co_motion := Some m\<rparr>)
           | (Inr _, m) \<Rightarrow> reply request SC_Ok (c\<lparr>co_motion := Some m\<rparr>))
     else if rd_type found \<noteq> resource_type_code RT_Uart \<or> co_uart_bsp c = None \<or>
             rd_instance found > 255
     then reply request SC_UnsupportedCapability c
     else (case uart_reset (ucast (rd_instance found)) (the (co_uart_bsp c)) of
             (Inl e, u) \<Rightarrow> reply request (uart_error_status e) (c\<lparr>co_uart_bsp := Some u\<rparr>)
           | (Inr _, u) \<Rightarrow> reply request SC_Ok (c\<lparr>co_uart_bsp := Some u\<rparr>)))"

definition handle_resource_contract :: "packet \<Rightarrow> remote_core \<Rightarrow> core_result" where
  "handle_resource_contract request c = with_resource request c (\<lambda>resource_id found.
     case find_contract resource_id c of
       None \<Rightarrow> reply request SC_UnsupportedCapability c
     | Some k \<Rightarrow> reply_encoded request (map_error ResourcePayloadException (encode_resource_contract k)) c)"

subsection \<open>Lease handlers\<close>

definition lease_supported :: "u32 \<Rightarrow> remote_core \<Rightarrow> bool" where
  "lease_supported resource_id c \<longleftrightarrow>
     (case find_contract resource_id c of
        None \<Rightarrow> False
      | Some k \<Rightarrow> has_flag (rc_access_flags k) kResourceAccessLeaseSupported)"

definition shared_read_allowed :: "u32 \<Rightarrow> remote_core \<Rightarrow> bool" where
  "shared_read_allowed resource_id c \<longleftrightarrow>
     (case find_contract resource_id c of
        None \<Rightarrow> False
      | Some k \<Rightarrow> has_flag (rc_access_flags k) kResourceAccessSharedRead)"

definition lease_conflict :: "u32 \<Rightarrow> u32 \<Rightarrow> byte \<Rightarrow> lease list \<Rightarrow> remote_core \<Rightarrow> bool" where
  "lease_conflict resource_id session_id mode entries c \<longleftrightarrow>
     list_ex (\<lambda>l. le_owner_session_id l = session_id) entries \<or>
     (mode = lease_mode_code LM_Exclusive \<and>
      (entries \<noteq> [] \<or> resource_has_objects resource_id c)) \<or>
     (mode = lease_mode_code LM_SharedRead \<and>
      (list_ex (\<lambda>l. le_mode l = lease_mode_code LM_Exclusive) entries \<or>
       resource_has_objects resource_id c))"

text \<open>The lease counter after handing out an id skips zero.\<close>

definition next_lease_id :: "u64 \<Rightarrow> u64" where
  "next_lease_id n = (if n + 1 = 0 then 1 else n + 1)"

definition lease_info_reply :: "packet \<Rightarrow> u32 \<Rightarrow> time \<Rightarrow> remote_core \<Rightarrow> core_result" where
  "lease_info_reply request resource_id now c =
     reply_encoded request (map_error ResourcePayloadException (encode_resource_lease_info
       (make_lease_info resource_id (ph_session_id (header request)) now c))) c"

text \<open>
  \<^verbatim>\<open>leases_[resource_id]\<close> inserts an empty entry that is erased again on the busy path when it is
  still empty; a non-empty entry stays as it is.
\<close>

definition handle_resource_acquire :: "packet \<Rightarrow> time \<Rightarrow> remote_core \<Rightarrow> core_result" where
  "handle_resource_acquire request now c =
     (let session_id = ph_session_id (header request) in
      if ph_object_id (header request) \<noteq> 0 \<or> session_id = 0 then reply request SC_InvalidPayload c
      else case decode_resource_lease_request (payload request) of
        Inl _ \<Rightarrow> reply request SC_InvalidPayload c
      | Inr q \<Rightarrow>
          if lr_duration_ms q < kMinimumLeaseDurationMs \<or> lr_duration_ms q > kMaximumLeaseDurationMs
          then reply request SC_InvalidPayload c
          else if find_resource (lr_resource_id q) c = None then reply request SC_ObjectNotFound c
          else if \<not> lease_supported (lr_resource_id q) c then reply request SC_UnsupportedCapability c
          else if lr_mode q = lease_mode_code LM_SharedRead \<and> \<not> shared_read_allowed (lr_resource_id q) c
          then reply request SC_AccessDenied c
          else let entries = (case map_of (co_leases c) (lr_resource_id q) of None \<Rightarrow> [] | Some es \<Rightarrow> es) in
            if lease_conflict (lr_resource_id q) session_id (lr_mode q) entries c
            then reply request SC_ResourceBusy
              (if entries = [] then c\<lparr>co_leases := herase (lr_resource_id q) (co_leases c)\<rparr> else c)
            else let l = \<lparr>le_lease_id = co_next_lease_id c, le_owner_session_id = session_id,
                      le_granted_duration_ms = lr_duration_ms q, le_mode = lr_mode q,
                      le_expires_at = now + ms (uint (lr_duration_ms q))\<rparr>;
                   c1 = c\<lparr>co_next_lease_id := next_lease_id (co_next_lease_id c),
                          co_leases := hput (lr_resource_id q) (entries @ [l]) (co_leases c)\<rparr>
                 in lease_info_reply request (lr_resource_id q) now c1)"

text \<open>Changing and erasing the element \<^verbatim>\<open>std::find_if\<close> points at.\<close>

fun update_first :: "('a \<Rightarrow> bool) \<Rightarrow> ('a \<Rightarrow> 'a) \<Rightarrow> 'a list \<Rightarrow> 'a list" where
  "update_first P f [] = []"
| "update_first P f (x # xs) = (if P x then f x # xs else x # update_first P f xs)"

fun remove_first :: "('a \<Rightarrow> bool) \<Rightarrow> 'a list \<Rightarrow> 'a list" where
  "remove_first P [] = []"
| "remove_first P (x # xs) = (if P x then xs else x # remove_first P xs)"

definition is_lease :: "u64 \<Rightarrow> u32 \<Rightarrow> lease \<Rightarrow> bool" where
  "is_lease lease_id session_id l \<longleftrightarrow> le_lease_id l = lease_id \<and> le_owner_session_id l = session_id"

definition handle_resource_renew :: "packet \<Rightarrow> time \<Rightarrow> remote_core \<Rightarrow> core_result" where
  "handle_resource_renew request now c =
     (let session_id = ph_session_id (header request) in
      if ph_object_id (header request) \<noteq> 0 \<or> session_id = 0 then reply request SC_InvalidPayload c
      else case decode_resource_lease_token_request (payload request) of
        Inl _ \<Rightarrow> reply request SC_InvalidPayload c
      | Inr q \<Rightarrow>
          if lt_lease_id q = 0 \<or> lt_duration_ms q < kMinimumLeaseDurationMs \<or>
             lt_duration_ms q > kMaximumLeaseDurationMs
          then reply request SC_InvalidPayload c
          else if find_resource (lt_resource_id q) c = None then reply request SC_ObjectNotFound c
          else case map_of (co_leases c) (lt_resource_id q) of
            None \<Rightarrow> reply request SC_AccessDenied c
          | Some entries \<Rightarrow>
              if \<not> list_ex (is_lease (lt_lease_id q) session_id) entries
              then reply request SC_AccessDenied c
              else let renewed = update_first (is_lease (lt_lease_id q) session_id)
                         (\<lambda>l. l\<lparr>le_granted_duration_ms := lt_duration_ms q,
                                le_expires_at := now + ms (uint (lt_duration_ms q))\<rparr>) entries
                   in lease_info_reply request (lt_resource_id q) now
                        (c\<lparr>co_leases := hput (lt_resource_id q) renewed (co_leases c)\<rparr>))"

definition handle_resource_release :: "packet \<Rightarrow> remote_core \<Rightarrow> core_result" where
  "handle_resource_release request c =
     (let session_id = ph_session_id (header request) in
      if ph_object_id (header request) \<noteq> 0 \<or> session_id = 0 then reply request SC_InvalidPayload c
      else case decode_resource_lease_token_request (payload request) of
        Inl _ \<Rightarrow> reply request SC_InvalidPayload c
      | Inr q \<Rightarrow>
          if lt_lease_id q = 0 \<or> lt_duration_ms q \<noteq> 0 then reply request SC_InvalidPayload c
          else if find_resource (lt_resource_id q) c = None then reply request SC_ObjectNotFound c
          else case map_of (co_leases c) (lt_resource_id q) of
            None \<Rightarrow> reply request SC_AccessDenied c
          | Some entries \<Rightarrow>
              if \<not> list_ex (is_lease (lt_lease_id q) session_id) entries
              then reply request SC_AccessDenied c
              else let c1 = release_resource_objects (lt_resource_id q) session_id c;
                       left = remove_first (is_lease (lt_lease_id q) session_id) entries
                   in reply request SC_Ok
                        (c1\<lparr>co_leases := (if left = [] then herase (lt_resource_id q) (co_leases c1)
                                         else hput (lt_resource_id q) left (co_leases c1))\<rparr>))"

definition handle_resource_lease_status :: "packet \<Rightarrow> time \<Rightarrow> remote_core \<Rightarrow> core_result" where
  "handle_resource_lease_status request now c = with_resource request c (\<lambda>resource_id found.
     if \<not> lease_supported resource_id c then reply request SC_UnsupportedCapability c
     else reply_encoded request (map_error ResourcePayloadException (encode_resource_lease_info
       ((make_lease_info resource_id (ph_session_id (header request)) now c)\<lparr>li_lease_id := 0\<rparr>))) c)"

subsection \<open>GPIO handlers\<close>

text \<open>
  The owner an object on a catalogued resource gets, and the checks before: \<open>Inl\<close> the status the
  handler leaves with. Without a catalogue entry for the type the object has no resource.
\<close>

definition claim_resource ::
  "resource_type \<Rightarrow> u16 \<Rightarrow> u32 \<Rightarrow> remote_core \<Rightarrow> status_code + u32 \<times> u32" where
  "claim_resource t inst session_id c =
     (case find_instance t inst c of
        None \<Rightarrow> if list_ex (\<lambda>r. rd_type r = resource_type_code t) (co_resources c)
                then Inl SC_ObjectNotFound else Inr (0, 0)
      | Some r \<Rightarrow>
          if lease_denies (rd_resource_id r) session_id c then Inl SC_AccessDenied
          else Inr (rd_resource_id r,
                    if session_has_exclusive_lease (rd_resource_id r) session_id c
                    then session_id else 0))"

definition handle_gpio_create :: "packet \<Rightarrow> remote_core \<Rightarrow> core_result" where
  "handle_gpio_create request c =
     (case co_gpio_bsp c of
        None \<Rightarrow> reply request SC_UnsupportedCapability c
      | Some b \<Rightarrow>
          if \<not> has_capability Cap_Gpio c then reply request SC_UnsupportedCapability c
          else if ph_object_id (header request) \<noteq> 0 \<or> length (payload request) \<noteq> 4 \<or>
                  payload request ! 2 > gpio_direction_code GD_Output \<or> payload request ! 3 > 1
          then reply request SC_InvalidPayload c
          else if co_next_object_id c = 0 \<or> length (co_gpio_objects c) \<ge> 4294967294
          then reply request SC_ResourceExhausted c
          else let pin = get_u16 (payload request);
                   direction = (if payload request ! 2 = 0 then GD_Input else GD_Output);
                   initial_value = (payload request ! 3 \<noteq> 0)
            in case claim_resource RT_Gpio pin (ph_session_id (header request)) c of
                 Inl status \<Rightarrow> reply request status c
               | Inr (resource_id, owner) \<Rightarrow>
                   if list_ex (\<lambda>e. go_pin (snd e) = pin) (co_gpio_objects c)
                   then reply request SC_ResourceBusy c
                   else let object_id = co_next_object_id c;
                            obj = \<lparr>go_pin = pin, go_direction = direction,
                                   go_resource_id = resource_id, go_owner_session_id = owner\<rparr>
                     in (Inr (object_response request object_id),
                         c\<lparr>co_gpio_bsp := Some (gpio_configure pin direction initial_value b),
                           co_next_object_id := object_id + 1,
                           co_gpio_objects := hemplace object_id obj (co_gpio_objects c)\<rparr>))"

definition foreign_owner :: "u32 \<Rightarrow> packet \<Rightarrow> bool" where
  "foreign_owner owner request \<longleftrightarrow> owner \<noteq> 0 \<and> owner \<noteq> ph_session_id (header request)"

definition handle_gpio_read :: "packet \<Rightarrow> remote_core \<Rightarrow> core_result" where
  "handle_gpio_read request c =
     (case co_gpio_bsp c of
        None \<Rightarrow> reply request SC_UnsupportedCapability c
      | Some b \<Rightarrow>
          if \<not> has_capability Cap_Gpio c then reply request SC_UnsupportedCapability c
          else if payload request \<noteq> [] \<or> ph_object_id (header request) = 0
          then reply request SC_InvalidPayload c
          else case map_of (co_gpio_objects c) (ph_object_id (header request)) of
            None \<Rightarrow> reply request SC_ObjectNotFound c
          | Some obj \<Rightarrow>
              if foreign_owner (go_owner_session_id obj) request then reply request SC_AccessDenied c
              else case gpio_read (go_pin obj) b of
                (Inl e, b') \<Rightarrow> (Inl (GpioException e), c\<lparr>co_gpio_bsp := Some b'\<rparr>)
              | (Inr v, b') \<Rightarrow> (Inr (ok_response request [if v then 1 else 0]), c\<lparr>co_gpio_bsp := Some b'\<rparr>))"

definition handle_gpio_write :: "packet \<Rightarrow> remote_core \<Rightarrow> core_result" where
  "handle_gpio_write request c =
     (case co_gpio_bsp c of
        None \<Rightarrow> reply request SC_UnsupportedCapability c
      | Some b \<Rightarrow>
          if \<not> has_capability Cap_Gpio c then reply request SC_UnsupportedCapability c
          else if length (payload request) \<noteq> 1 \<or> payload request ! 0 > 1 \<or>
                  ph_object_id (header request) = 0
          then reply request SC_InvalidPayload c
          else case map_of (co_gpio_objects c) (ph_object_id (header request)) of
            None \<Rightarrow> reply request SC_ObjectNotFound c
          | Some obj \<Rightarrow>
              if foreign_owner (go_owner_session_id obj) request then reply request SC_AccessDenied c
              else if go_direction obj \<noteq> GD_Output then reply request SC_AccessDenied c
              else case gpio_write (go_pin obj) (payload request ! 0 \<noteq> 0) b of
                (Inl e, b') \<Rightarrow> (Inl (GpioException e), c\<lparr>co_gpio_bsp := Some b'\<rparr>)
              | (Inr _, b') \<Rightarrow> reply request SC_Ok (c\<lparr>co_gpio_bsp := Some b'\<rparr>))"

subsection \<open>UART handlers\<close>

definition uart_request_ok :: "byte list \<Rightarrow> bool" where
  "uart_request_ok p \<longleftrightarrow>
     get_u32 (drop 1 p) \<noteq> 0 \<and> 5 \<le> p ! 5 \<and> p ! 5 \<le> 8 \<and> (p ! 6 = 1 \<or> p ! 6 = 2) \<and>
     p ! 7 \<le> uart_parity_code UP_Even \<and> \<not> (length p = 9 \<and> p ! 8 > 1)"

definition handle_uart_create :: "packet \<Rightarrow> remote_core \<Rightarrow> core_result" where
  "handle_uart_create request c =
     (case co_uart_bsp c of
        None \<Rightarrow> reply request SC_UnsupportedCapability c
      | Some u \<Rightarrow>
          let p = payload request in
          if \<not> has_capability Cap_Uart c then reply request SC_UnsupportedCapability c
          else if ph_object_id (header request) \<noteq> 0 \<or> (length p \<noteq> 8 \<and> length p \<noteq> 9)
          then reply request SC_InvalidPayload c
          else if \<not> uart_request_ok p then reply request SC_InvalidPayload c
          else if co_next_object_id c = 0 then reply request SC_ResourceExhausted c
          else let port = p ! 0
            in case claim_resource RT_Uart (ucast port) (ph_session_id (header request)) c of
                 Inl status \<Rightarrow> reply request status c
               | Inr (resource_id, owner) \<Rightarrow>
                   if list_ex (\<lambda>e. uo_port (snd e) = port) (co_uart_objects c)
                   then reply request SC_ResourceBusy c
                   else case uart_configure port
                       \<lparr>uc_baud_rate = get_u32 (drop 1 p), uc_data_bits = p ! 5,
                        uc_stop_bits = p ! 6, uc_parity = p ! 7\<rparr> u of
                     (Inl e, u') \<Rightarrow> reply request (uart_error_status e) (c\<lparr>co_uart_bsp := Some u'\<rparr>)
                   | (Inr _, u') \<Rightarrow>
                       let object_id = co_next_object_id c;
                           obj = \<lparr>uo_port = port, uo_resource_id = resource_id,
                                  uo_owner_session_id = owner,
                                  uo_streaming = (length p = 9 \<and> p ! 8 = 1), uo_event_sequence = 0\<rparr>
                       in (Inr (object_response request object_id),
                           c\<lparr>co_uart_bsp := Some u', co_next_object_id := object_id + 1,
                             co_uart_objects := hemplace object_id obj (co_uart_objects c)\<rparr>))"

definition handle_uart_read :: "packet \<Rightarrow> remote_core \<Rightarrow> core_result" where
  "handle_uart_read request c =
     (case co_uart_bsp c of
        None \<Rightarrow> reply request SC_UnsupportedCapability c
      | Some u \<Rightarrow>
          if \<not> has_capability Cap_Uart c then reply request SC_UnsupportedCapability c
          else if ph_object_id (header request) = 0 \<or> length (payload request) \<noteq> 2
          then reply request SC_InvalidPayload c
          else let maximum_length = unat (get_u16 (payload request)) in
            if maximum_length = 0 \<or> maximum_length > kMaximumPayloadSize - 1
            then reply request SC_InvalidPayload c
            else case map_of (co_uart_objects c) (ph_object_id (header request)) of
              None \<Rightarrow> reply request SC_ObjectNotFound c
            | Some obj \<Rightarrow>
                if foreign_owner (uo_owner_session_id obj) request then reply request SC_AccessDenied c
                else if uo_streaming obj then reply request SC_AccessDenied c
                else case uart_read (uo_port obj) maximum_length u of
                  (Inl e, u') \<Rightarrow> reply request (uart_error_status e) (c\<lparr>co_uart_bsp := Some u'\<rparr>)
                | (Inr data, u') \<Rightarrow>
                    if length data > maximum_length \<or> length data > kMaximumPayloadSize - 1
                    then reply request SC_InvalidPayload (c\<lparr>co_uart_bsp := Some u'\<rparr>)
                    else (Inr (ok_response request data), c\<lparr>co_uart_bsp := Some u'\<rparr>))"

definition handle_uart_write :: "packet \<Rightarrow> remote_core \<Rightarrow> core_result" where
  "handle_uart_write request c =
     (case co_uart_bsp c of
        None \<Rightarrow> reply request SC_UnsupportedCapability c
      | Some u \<Rightarrow>
          if \<not> has_capability Cap_Uart c then reply request SC_UnsupportedCapability c
          else if ph_object_id (header request) = 0 \<or> payload request = []
          then reply request SC_InvalidPayload c
          else case map_of (co_uart_objects c) (ph_object_id (header request)) of
            None \<Rightarrow> reply request SC_ObjectNotFound c
          | Some obj \<Rightarrow>
              if foreign_owner (uo_owner_session_id obj) request then reply request SC_AccessDenied c
              else case uart_write (uo_port obj) (payload request) u of
                (Inl e, u') \<Rightarrow> reply request (uart_error_status e) (c\<lparr>co_uart_bsp := Some u'\<rparr>)
              | (Inr _, u') \<Rightarrow> reply request SC_Ok (c\<lparr>co_uart_bsp := Some u'\<rparr>))"

text \<open>The loop of \<^verbatim>\<open>poll_uart_events\<close> over the objects.\<close>

definition uart_event :: "u32 \<Rightarrow> u32 \<Rightarrow> byte list \<Rightarrow> packet" where
  "uart_event object_id sequence data =
     \<lparr>header = default_header\<lparr>ph_message_type := message_type_code Event,
        ph_command := command_code UartRxEvent, ph_request_id := sequence,
        ph_object_id := object_id\<rparr>, payload = data\<rparr>"

fun poll_objects ::
  "nat \<Rightarrow> (u32, uart_object) hmap \<Rightarrow> mock_uart_bsp \<Rightarrow>
   packet list \<times> (u32, uart_object) hmap \<times> mock_uart_bsp" where
  "poll_objects maximum [] u = ([], [], u)"
| "poll_objects maximum ((object_id, obj) # objs) u =
     (if \<not> uo_streaming obj
      then let (events, objs', u') = poll_objects maximum objs u in (events, (object_id, obj) # objs', u')
      else case uart_read (uo_port obj) maximum u of
        (Inl _, u1) \<Rightarrow>
          let (events, objs', u') = poll_objects maximum objs u1 in (events, (object_id, obj) # objs', u')
      | (Inr data, u1) \<Rightarrow>
          let (events, objs', u') = poll_objects maximum objs u1 in
          if data = [] then (events, (object_id, obj) # objs', u')
          else let n = uo_event_sequence obj + 1
               in (uart_event object_id n data # events,
                   (object_id, obj\<lparr>uo_event_sequence := n\<rparr>) # objs', u'))"

definition poll_uart_events ::
  "nat \<Rightarrow> remote_core \<Rightarrow> (core_exception + packet list) \<times> remote_core" where
  "poll_uart_events maximum_payload c =
     (if maximum_payload = 0 \<or> maximum_payload > kMaximumPayloadSize then (Inl InvalidArgument, c)
      else case co_uart_bsp c of
          None \<Rightarrow> (Inr [], c)
        | Some u \<Rightarrow>
            let (events, objs, u') = poll_objects maximum_payload (co_uart_objects c) u
            in (Inr events, c\<lparr>co_uart_objects := objs, co_uart_bsp := Some u'\<rparr>))"

subsection \<open>Motion handlers\<close>

text \<open>The checks on every axis of a segment, with the status of the first that fails.\<close>

fun check_axes :: "u32 \<Rightarrow> motion_axis_move_payload list \<Rightarrow> remote_core \<Rightarrow> status_code + unit" where
  "check_axes session_id [] c = Inr ()"
| "check_axes session_id (axis # axes) c =
     (case find_resource (mv_resource_id axis) c of
        None \<Rightarrow> Inl SC_ObjectNotFound
      | Some r \<Rightarrow>
          if rd_type r \<noteq> resource_type_code RT_StepgenAxis then Inl SC_ObjectNotFound
          else if lease_denies (mv_resource_id axis) session_id c then Inl SC_AccessDenied
          else check_axes session_id axes c)"

definition segment_of :: "motion_segment_payload \<Rightarrow> motion_segment" where
  "segment_of d = \<lparr>sg_sequence = ms_sequence d, sg_start_time_ns = ms_start_time_ns d,
     sg_duration_ns = ms_duration_ns d, sg_final_segment = ms_final_segment d,
     sg_axes = map (\<lambda>a. \<lparr>mo_resource_id = mv_resource_id a, mo_steps = mv_steps a\<rparr>) (ms_axes d)\<rparr>"

definition handle_motion_enqueue :: "packet \<Rightarrow> remote_core \<Rightarrow> core_result" where
  "handle_motion_enqueue request c =
     (case co_motion c of
        None \<Rightarrow> reply request SC_UnsupportedCapability c
      | Some m \<Rightarrow>
          if \<not> has_capability Cap_Motion c then reply request SC_UnsupportedCapability c
          else if ph_object_id (header request) \<noteq> 0 then reply request SC_InvalidPayload c
          else case decode_motion_segment (payload request) of
            Inl _ \<Rightarrow> reply request SC_InvalidPayload c
          | Inr d \<Rightarrow>
              (case check_axes (ph_session_id (header request)) (ms_axes d) c of
                 Inl status \<Rightarrow> reply request status c
               | Inr _ \<Rightarrow>
                   (case enqueue (segment_of d) (me_now_ns m) m of
                      (Inl e, m') \<Rightarrow>
                        reply request
                          (if e = QueueFull then SC_ResourceExhausted
                           else if e = FaultLatched then SC_ResourceFailed else SC_InvalidPayload)
                          (c\<lparr>co_motion := Some m'\<rparr>)
                    | (Inr accepted, m') \<Rightarrow>
                        reply_encoded request (map_error MotionPayloadException
                          (encode_motion_acceptance
                             \<lparr>mc_sequence = ms_sequence d, mc_start_time_ns = sg_start_time_ns accepted,
                              mc_duration_ns = ms_duration_ns d,
                              mc_final_segment = ms_final_segment d\<rparr>))
                          (c\<lparr>co_motion := Some m'\<rparr>))))"

definition motion_status_payload_of :: "motion_status \<Rightarrow> motion_status_payload" where
  "motion_status_payload_of s =
     (let x = ex_metrics s in
      \<lparr>st_state = ex_state s, st_fault = ex_fault s, st_node_time_ns = ex_node_time_ns s,
       st_queue_depth = word_of_nat (ex_queue_depth s),
       st_queue_capacity = word_of_nat (ex_queue_capacity s),
       st_last_accepted_sequence = ex_last_accepted_sequence s,
       st_last_completed_sequence = ex_last_completed_sequence s,
       st_metrics = \<lparr>mp_accepted_segments = mm_accepted_segments x,
         mp_rejected_segments = mm_rejected_segments x,
         mp_completed_segments = mm_completed_segments x,
         mp_emitted_edges = mm_emitted_edges x, mp_emitted_steps = mm_emitted_steps x,
         mp_safety_stops = mm_safety_stops x, mp_limit_stops = mm_limit_stops x,
         mp_queue_underruns = mm_queue_underruns x,
         mp_maximum_queue_depth = word_of_nat (mm_maximum_queue_depth x)\<rparr>,
       st_axes = map (\<lambda>a. \<lparr>as_resource_id = xs_resource_id a, as_enabled = xs_enabled a,
         as_direction_positive = xs_direction_positive a, as_step_level = xs_step_level a,
         as_position_steps = xs_position_steps a, as_emitted_steps = xs_emitted_steps a\<rparr>) (ex_axes s)\<rparr>)"

text \<open>The guard the handlers of the motion commands without a payload share.\<close>

definition with_motion ::
  "packet \<Rightarrow> remote_core \<Rightarrow> (motion_executor \<Rightarrow> core_result) \<Rightarrow> core_result" where
  "with_motion request c act =
     (case co_motion c of
        None \<Rightarrow> reply request SC_UnsupportedCapability c
      | Some m \<Rightarrow>
          if \<not> has_capability Cap_Motion c then reply request SC_UnsupportedCapability c
          else if ph_object_id (header request) \<noteq> 0 \<or> payload request \<noteq> []
          then reply request SC_InvalidPayload c
          else act m)"

definition handle_motion_status :: "packet \<Rightarrow> remote_core \<Rightarrow> core_result" where
  "handle_motion_status request c = with_motion request c (\<lambda>m.
     reply_encoded request (map_error MotionPayloadException
       (encode_motion_status (motion_status_payload_of (executor_status m)))) c)"

definition handle_motion_abort :: "packet \<Rightarrow> remote_core \<Rightarrow> core_result" where
  "handle_motion_abort request c = with_motion request c (\<lambda>m.
     case abort (me_now_ns m) MF_Aborted m of
       (Inl e, m') \<Rightarrow> reply request
         (if e = FaultLatched then SC_ResourceFailed else SC_InvalidPayload) (c\<lparr>co_motion := Some m'\<rparr>)
     | (Inr _, m') \<Rightarrow> reply request SC_Ok (c\<lparr>co_motion := Some m'\<rparr>))"

definition handle_motion_clear_fault :: "packet \<Rightarrow> remote_core \<Rightarrow> core_result" where
  "handle_motion_clear_fault request c = with_motion request c (\<lambda>m.
     case clear_fault m of
       (Inl _, m') \<Rightarrow> reply request SC_ResourceBusy (c\<lparr>co_motion := Some m'\<rparr>)
     | (Inr _, m') \<Rightarrow> reply request SC_Ok (c\<lparr>co_motion := Some m'\<rparr>))"

subsection \<open>Dispatch\<close>

text \<open>The commands with a case of their own in the switch of \<^verbatim>\<open>handle\<close>.\<close>

definition core_commands :: "command list" where
  "core_commands = [GetInfo, GetCapability, Ping, BootloaderEnter, BootloaderEnterUsb, ResourceEnum,
     ResourceDescribe, ResourceStatus, ResourceReset, ResourceContract, ResourceAcquire, ResourceRenew,
     ResourceRelease, ResourceLeaseStatus, GpioCreate, GpioRead, GpioWrite, UartCreate, UartRead,
     UartWrite, MotionEnqueue, MotionStatus, MotionAbort, MotionClearFault]"

definition command_of :: "u16 \<Rightarrow> command option" where
  "command_of code = find (\<lambda>k. command_code k = code) core_commands"

definition dispatch :: "command \<Rightarrow> packet \<Rightarrow> time \<Rightarrow> remote_core \<Rightarrow> core_result" where
  "dispatch k request now c =
     (case k of
        GetInfo \<Rightarrow> handle_get_info request c
      | GetCapability \<Rightarrow> handle_get_capability request c
      | Ping \<Rightarrow> handle_ping request c
      | BootloaderEnter \<Rightarrow> handle_bootloader_enter request c
      | BootloaderEnterUsb \<Rightarrow> handle_bootloader_enter request c
      | ResourceEnum \<Rightarrow> handle_resource_enum request c
      | ResourceDescribe \<Rightarrow> handle_resource_describe request c
      | ResourceStatus \<Rightarrow> handle_resource_status request c
      | ResourceReset \<Rightarrow> handle_resource_reset request c
      | ResourceContract \<Rightarrow> handle_resource_contract request c
      | ResourceAcquire \<Rightarrow> handle_resource_acquire request now c
      | ResourceRenew \<Rightarrow> handle_resource_renew request now c
      | ResourceRelease \<Rightarrow> handle_resource_release request c
      | ResourceLeaseStatus \<Rightarrow> handle_resource_lease_status request now c
      | GpioCreate \<Rightarrow> handle_gpio_create request c
      | GpioRead \<Rightarrow> handle_gpio_read request c
      | GpioWrite \<Rightarrow> handle_gpio_write request c
      | UartCreate \<Rightarrow> handle_uart_create request c
      | UartRead \<Rightarrow> handle_uart_read request c
      | UartWrite \<Rightarrow> handle_uart_write request c
      | MotionEnqueue \<Rightarrow> handle_motion_enqueue request c
      | MotionStatus \<Rightarrow> handle_motion_status request c
      | MotionAbort \<Rightarrow> handle_motion_abort request c
      | MotionClearFault \<Rightarrow> handle_motion_clear_fault request c
      | _ \<Rightarrow> reply request SC_UnknownCommand c)"

definition handle :: "packet \<Rightarrow> time \<Rightarrow> remote_core \<Rightarrow> core_result" where
  "handle request now c =
     (if ph_message_type (header request) \<noteq> message_type_code Request
      then (Inl (CoreException CE_NotRequest), c)
      else if ph_version (header request) \<noteq> kProtocolVersion
      then (Inl (CoreException CE_UnsupportedVersion), c)
      else let c1 = snd (expire_leases now c) in
        case command_of (ph_command (header request)) of
          None \<Rightarrow> reply request SC_UnknownCommand c1
        | Some k \<Rightarrow> dispatch k request now c1)"

end
