(* ===== verification/Motion_Safety.thy ===== *)
theory Motion_Safety
  imports Motion_Executor
begin

text \<open>
  The invariant of the motion executor and what it guarantees: every step of an accepted segment
  is emitted exactly once and in the commanded direction, however time is advanced; advancing
  never fails and drains the queue; a stop leaves every output low and disabled.
\<close>

subsection \<open>Emission times\<close>

declare unat_ucast_u32 [simp]

text \<open>The interpolation computes the exact quotient: no intermediate product wraps.\<close>

lemma interpolate_exact:
  assumes i: "unat i \<le> unat d" and d: "0 < unat d" "unat d < 2 ^ 32"
  shows "unat (interpolate_offset s i d) = unat s * unat i div unat d"
proof -
  let ?s = "unat s" and ?i = "unat i" and ?d = "unat d"
  have "?s div ?d * ?i \<le> ?s div ?d * ?d" using i by simp
  also have "\<dots> \<le> ?s" by simp
  finally have q: "?s div ?d * ?i \<le> ?s" .
  have "?s mod ?d * ?i < ?d * 2 ^ 32"
    using d i mod_less_divisor [OF d(1), of ?s] by (intro mult_strict_mono) auto
  also have "\<dots> < 2 ^ 64" using d(2) by simp
  finally have r: "?s mod ?d * ?i < 2 ^ 64" .
  have eq: "?s * ?i div ?d = ?s div ?d * ?i + ?s mod ?d * ?i div ?d"
  proof -
    define q r where "q = ?s div ?d" and "r = ?s mod ?d"
    have "?s = q * ?d + r" by (simp add: q_def r_def)
    then have "?s * ?i = r * ?i + (q * ?i) * ?d" by (simp add: algebra_simps)
    then have "?s * ?i div ?d = q * ?i + r * ?i div ?d" using d(1) by simp
    then show ?thesis by (simp add: q_def r_def)
  qed
  have "?s * ?i div ?d \<le> ?s"
    using div_le_mono [of "?s * ?i" "?s * ?d" ?d] i d(1) by simp
  then have sum: "?s div ?d * ?i + ?s mod ?d * ?i div ?d < 2 ^ 64"
    using u64_bound [of s] unfolding eq by simp
  have "unat (s div d * i) = ?s div ?d * ?i"
    using q u64_bound [of s] by (subst unat_mult_small) (simp_all add: unat_div)
  moreover have "unat (s mod d * i div d) = ?s mod ?d * ?i div ?d"
    using r by (simp add: unat_div unat_mult_small unat_mod)
  ultimately have "unat (s div d * i + s mod d * i div d) = ?s div ?d * ?i + ?s mod ?d * ?i div ?d"
    using sum by (subst unat_add_small) simp_all
  then show ?thesis using eq d(1) by (auto simp: interpolate_offset_def)
qed

lemma interpolate_le:
  assumes "unat i \<le> unat d" "unat d < 2 ^ 32"
  shows "unat (interpolate_offset s i d) \<le> unat s"
proof (cases "d = 0")
  case True
  then show ?thesis by (simp add: interpolate_offset_def)
next
  case False
  then have "0 < unat d" by (simp add: unat_gt_0)
  with assms show ?thesis
    using div_le_mono [of "unat s * unat i" "unat s * unat d" "unat d"]
    by (simp add: interpolate_exact)
qed

text \<open>What the enqueue checks leave of a segment's timing for an axis that moves.\<close>

definition timing_ok :: "motion_axis_config \<Rightarrow> motion_segment \<Rightarrow> bool" where
  "timing_ok c seg \<longleftrightarrow>
     0 < unat (cf_direction_setup_ns c) \<and> 0 < unat (cf_step_pulse_width_ns c) \<and>
     unat (cf_direction_setup_ns c) + unat (cf_step_pulse_width_ns c) \<le> unat (sg_duration_ns seg) \<and>
     unat (sg_start_time_ns seg) + unat (sg_duration_ns seg) < 2 ^ 64"

lemma rise_time_bounds:
  assumes t: "timing_ok c seg" and i: "unat i < unat n" "unat n < 2 ^ 32"
  shows "unat (sg_start_time_ns seg) < unat (rise_time c seg n i)"
    and "unat (rise_time c seg n i) + unat (cf_step_pulse_width_ns c) \<le>
         unat (sg_start_time_ns seg) + unat (sg_duration_ns seg)"
proof -
  let ?st = "sg_start_time_ns seg" and ?du = "sg_duration_ns seg"
  let ?su = "ucast (cf_direction_setup_ns c) :: u64" and ?pulse = "ucast (cf_step_pulse_width_ns c) :: u64"
  note t' = t [unfolded timing_ok_def]
  have fin: "unat (?st + ?du) = unat ?st + unat ?du" using t' by (intro unat_add_small) simp
  have first: "unat (?st + ?su) = unat ?st + unat ?su"
    using t' by (intro unat_add_small) simp
  have last: "unat (?st + ?du - ?pulse) = unat ?st + unat ?du - unat ?pulse"
    using t' fin by (subst unat_diff) (simp_all add: word_le_nat_alt)
  have span: "unat (?st + ?du - ?pulse - (?st + ?su)) = unat ?du - unat ?pulse - unat ?su"
    using t' first last by (subst unat_diff) (auto simp: word_le_nat_alt)
  define off where "off = (if n = 1 then 0
      else interpolate_offset (?st + ?du - ?pulse - (?st + ?su)) i (n - 1))"
  have off: "unat off \<le> unat ?du - unat ?pulse - unat ?su"
  proof (cases "n = 1")
    case True
    then show ?thesis by (simp add: off_def)
  next
    case False
    have "(1 :: u64) \<le> n" using i(1) by (simp add: word_le_nat_alt)
    then have "unat (n - 1) = unat n - 1" by (simp add: unat_diff)
    then show ?thesis
      using interpolate_le [of i "n - 1" "?st + ?du - ?pulse - (?st + ?su)"] i False span
      by (simp add: off_def)
  qed
  have "rise_time c seg n i = ?st + ?su + off"
    by (simp add: rise_time_def Let_def off_def)
  moreover have "unat (?st + ?su + off) = unat ?st + unat ?su + unat off"
    using t' off first by (subst unat_add_small) auto
  ultimately show "unat ?st < unat (rise_time c seg n i)"
    and "unat (rise_time c seg n i) + unat (cf_step_pulse_width_ns c) \<le> unat ?st + unat ?du"
    using t' off by auto
qed

lemma emit_steps_spec:
  assumes "unat i \<le> unat n"
  shows "emit_steps f lim n i = (ts, i') \<Longrightarrow>
    unat i \<le> unat i' \<and> unat i' \<le> unat n \<and> length ts = unat i' - unat i \<and>
    set ts \<subseteq> {f j | j. unat j < unat n} \<and>
    ((\<forall>j. unat j < unat n \<longrightarrow> f j \<le> lim) \<longrightarrow> i' = n)"
  using assms
proof (induction f lim n i arbitrary: ts i' rule: emit_steps.induct)
  case (1 f lim n i)
  show ?case
  proof (cases "i < n \<and> \<not> f i > lim")
    case True
    obtain ts1 where e: "emit_steps f lim n (i + 1) = (ts1, i')" "ts = f i # ts1"
      using "1.prems"(1) True
      by (subst (asm) emit_steps.simps) (auto simp: Let_def split: prod.splits)
    have s: "unat (i + 1) = unat i + 1" using True unat_succ [of i n] by simp
    have lt: "unat i < unat n" using True by (simp add: word_less_nat_alt)
    from "1.IH" [OF _ _ e(1)] True s lt show ?thesis
      by (auto simp: e(2))
  next
    case False
    have "emit_steps f lim n i = ([], i)" using False by (subst emit_steps.simps) auto
    then show ?thesis
      using "1.prems" False by (auto simp: not_less word_le_nat_alt word_less_nat_alt word_unat_eq_iff)
        (metis order_le_less)
  qed
qed

subsection \<open>Applying edges to one axis\<close>

definition is_rise :: "motion_edge \<Rightarrow> bool" where
  "is_rise e \<longleftrightarrow> ed_signal e = Step \<and> ed_level e"

definition run_axis :: "motion_edge list \<Rightarrow> axis_runtime \<Rightarrow> axis_runtime" where
  "run_axis es a = fold axis_apply es a"

definition signed :: "bool \<Rightarrow> u64 \<Rightarrow> u64" where
  "signed positive n = (if positive then n else - n)"

lemma axis_apply_config [simp]: "ax_config (axis_apply e a) = ax_config a"
  by (simp add: axis_apply_def Let_def split: motion_signal.split)

lemma run_axis_config [simp]: "ax_config (run_axis es a) = ax_config a"
  unfolding run_axis_def by (induction es arbitrary: a) simp_all

lemma run_axis_simps [simp]:
  "run_axis [] a = a" "run_axis (e # es) a = run_axis es (axis_apply e a)"
  by (simp_all add: run_axis_def)

text \<open>
  In a list sorted by time, direction edges at the start come before all later rising edges, so
  every rise counts in the commanded direction.
\<close>

lemma run_axis_position:
  assumes "sorted (map ed_global_time_ns es)"
    and "\<And>e. e \<in> set es \<Longrightarrow> ed_signal e = Direction \<Longrightarrow> ed_level e = dir \<and> ed_global_time_ns e \<le> t0"
    and "\<And>e. e \<in> set es \<Longrightarrow> is_rise e \<Longrightarrow> t0 < ed_global_time_ns e"
    and "ax_direction_positive a = dir \<or> (\<exists>e \<in> set es. ed_signal e = Direction)"
  shows "ax_position_steps (run_axis es a) =
      ax_position_steps a + signed dir (word_of_nat (length (filter is_rise es))) \<and>
    ax_direction_positive (run_axis es a) = dir"
  using assms
proof (induction es arbitrary: a)
  case Nil
  then show ?case by (simp add: signed_def)
next
  case (Cons e es)
  have later: "ed_global_time_ns e \<le> ed_global_time_ns x" if "x \<in> set es" for x
    using Cons.prems(1) that by simp
  have none: "ed_signal x \<noteq> Direction" if "is_rise e" "x \<in> set es" for x
    using that later [OF that(2)] Cons.prems(2) [of x] Cons.prems(3) [of e] by fastforce
  have next_dir: "ax_direction_positive (axis_apply e a) = dir \<or> (\<exists>x \<in> set es. ed_signal x = Direction)"
    using Cons.prems(4) Cons.prems(2) [of e]
    by (auto simp: axis_apply_def Let_def split: motion_signal.splits)
  have IH: "ax_position_steps (run_axis es (axis_apply e a)) =
      ax_position_steps (axis_apply e a) + signed dir (word_of_nat (length (filter is_rise es)))"
    "ax_direction_positive (run_axis es (axis_apply e a)) = dir"
    using Cons.IH [of "axis_apply e a"] Cons.prems next_dir by simp_all
  have here: "ax_position_steps (axis_apply e a) = ax_position_steps a + (if is_rise e then signed dir 1 else 0)"
  proof (cases "is_rise e")
    case True
    then have "ax_direction_positive a = dir"
      using Cons.prems(4) none by (auto simp: is_rise_def)
    then show ?thesis using True by (simp add: axis_apply_def is_rise_def signed_def)
  next
    case False
    then show ?thesis
      by (auto simp: axis_apply_def is_rise_def Let_def split: motion_signal.split)
  qed
  show ?case using IH here by (simp add: signed_def algebra_simps)
qed

lemma run_axis_enabled:
  "(\<And>e. e \<in> set es \<Longrightarrow> ed_signal e = Enable \<Longrightarrow> ed_level e = lev) \<Longrightarrow>
   ax_enabled a = lev \<or> (\<exists>e \<in> set es. ed_signal e = Enable) \<Longrightarrow> ax_enabled (run_axis es a) = lev"
proof (induction es arbitrary: a)
  case Nil
  then show ?case by simp
next
  case (Cons e es)
  have "ax_enabled (axis_apply e a) = lev \<or> (\<exists>x \<in> set es. ed_signal x = Enable)"
    using Cons.prems by (auto simp: axis_apply_def Let_def split: motion_signal.splits)
  then show ?case using Cons by simp
qed

lemma run_axis_step_low:
  "(\<And>e. e \<in> set es \<Longrightarrow> \<not> is_rise e) \<Longrightarrow>
   \<not> ax_step_level a \<or> (\<exists>e \<in> set es. ed_signal e = Step) \<Longrightarrow> \<not> ax_step_level (run_axis es a)"
proof (induction es arbitrary: a)
  case Nil
  then show ?case by simp
next
  case (Cons e es)
  have "\<not> ax_step_level (axis_apply e a) \<or> (\<exists>x \<in> set es. ed_signal x = Step)"
    using Cons.prems by (auto simp: axis_apply_def is_rise_def Let_def split: motion_signal.splits)
  then show ?case using Cons by simp
qed

lemma sort_edges_facts [simp]:
  "set (sort_edges es) = set es"
  "sorted (map ed_global_time_ns (sort_edges es))"
  "length (filter P (sort_edges es)) = length (filter P es)"
  "filter P (sort_edges es) = sort_edges (filter P es)"
  "length (sort_edges es) = length es"
proof -
  show "set (sort_edges es) = set es" by (simp add: sort_edges_def)
  have "sorted (map edge_key (sort_edges es))" by (simp add: sort_edges_def)
  then show "sorted (map ed_global_time_ns (sort_edges es))"
    by (simp add: sorted_iff_nth_mono edge_key_def less_eq_prod_def) (metis order.strict_implies_order order_refl)
  have "mset (filter P (sort_edges es)) = mset (filter P es)"
    by (simp add: sort_edges_def)
  then show "length (filter P (sort_edges es)) = length (filter P es)" by (metis size_mset)
  show "filter P (sort_edges es) = sort_edges (filter P es)"
    by (simp add: sort_edges_def filter_sort)
  show "length (sort_edges es) = length es" by (simp add: sort_edges_def)
qed

subsection \<open>One move\<close>

definition move_id :: "move_runtime \<Rightarrow> u32" where
  "move_id m = mo_resource_id (mr_move m)"

definition forward :: "move_runtime \<Rightarrow> bool" where
  "forward m \<longleftrightarrow> 0 \<le> sint (mo_steps (mr_move m))"

text \<open>A queued move: its counters and the timing of its axis.\<close>

definition move_ok :: "motion_axis_config \<Rightarrow> motion_segment \<Rightarrow> move_runtime \<Rightarrow> bool" where
  "move_ok c seg m \<longleftrightarrow>
     mr_step_count m = absolute_steps (mo_steps (mr_move m)) \<and>
     unat (mr_rises_emitted m) \<le> unat (mr_step_count m) \<and>
     unat (mr_falls_emitted m) \<le> unat (mr_step_count m) \<and>
     (mr_step_count m \<noteq> 0 \<longrightarrow> timing_ok c seg)"

text \<open>A move that has emitted its controls finds its axis enabled and in its direction.\<close>

definition controls_ok :: "axis_runtime \<Rightarrow> move_runtime \<Rightarrow> bool" where
  "controls_ok a m \<longleftrightarrow>
     (mr_controls_emitted m \<longrightarrow> ax_direction_positive a = forward m \<and> ax_enabled a)"

text \<open>A move nothing of which has been emitted yet.\<close>

definition fresh_move :: "move_runtime \<Rightarrow> bool" where
  "fresh_move m \<longleftrightarrow>
     mr_rises_emitted m = 0 \<and> mr_falls_emitted m = 0 \<and> \<not> mr_controls_emitted m"

lemma absolute_steps_bound: "unat (absolute_steps st) < 2 ^ 32"
proof -
  have b: "- (2 ^ 31) \<le> sint st" "sint st < 2 ^ 31"
    using sint_range_size [of st] by (simp_all add: word_size)
  have small: "uint (word_of_int k :: u64) = k" if "0 \<le> k" "k < 2 ^ 64" for k
    using that by (simp add: unsigned_of_int take_bit_int_eq_self)
  have "uint (absolute_steps st) = \<bar>sint st\<bar>"
  proof (cases "sint st < 0")
    case True
    have "uint (word_of_int (- sint st) :: u64) = - sint st"
      by (rule small) (use True b in auto)
    then show ?thesis using True by (simp only: absolute_steps_def if_True abs_of_neg)
  next
    case False
    have "uint (word_of_int (sint st) :: u64) = sint st"
      by (rule small) (use False b in auto)
    then show ?thesis using False by (simp add: absolute_steps_def)
  qed
  then have "uint (absolute_steps st) < 2 ^ 32" using b by simp
  then have "nat (uint (absolute_steps st)) < 2 ^ 32" by (subst nat_less_iff) simp_all
  then show ?thesis by (simp only: unat_eq_nat_uint)
qed

lemma absolute_steps_signed:
  "signed (0 \<le> sint st) (absolute_steps st) = (scast st :: u64)"
  by (auto simp: signed_def absolute_steps_def)

lemma collect_move_facts:
  assumes m: "move_ok (ax_config a) seg m" and c: "controls_ok a m"
    and now: "sg_start_time_ns seg \<le> until_ns"
    and res: "collect_move seg until_ns a m = (es, m')"
  shows "\<forall>e \<in> set es. ed_axis_resource_id e = move_id m"
    and "move_ok (ax_config a) seg m' \<and> mr_move m' = mr_move m"
    and "controls_ok (run_axis (sort_edges es) a) m'"
    and "ax_position_steps (run_axis (sort_edges es) a) =
         ax_position_steps a + signed (forward m) (mr_rises_emitted m' - mr_rises_emitted m)"
    and "sg_start_time_ns seg + sg_duration_ns seg \<le> until_ns \<Longrightarrow>
         mr_rises_emitted m' = mr_step_count m"
proof -
  let ?cfg = "ax_config a" and ?n = "mr_step_count m" and ?start = "sg_start_time_ns seg"
  have "(\<forall>e \<in> set es. ed_axis_resource_id e = move_id m) \<and>
    (move_ok ?cfg seg m' \<and> mr_move m' = mr_move m) \<and>
    controls_ok (run_axis (sort_edges es) a) m' \<and>
    ax_position_steps (run_axis (sort_edges es) a) =
         ax_position_steps a + signed (forward m) (mr_rises_emitted m' - mr_rises_emitted m) \<and>
    (?start + sg_duration_ns seg \<le> until_ns \<longrightarrow> mr_rises_emitted m' = ?n)"
  proof (cases "?n = 0")
    case True
    then have "es = []" "m' = m" using res by (simp_all add: collect_move_def)
    moreover have "mr_rises_emitted m = 0"
      using m True by (auto simp: move_ok_def word_unat_eq_iff)
    ultimately show ?thesis using m c True by (simp add: sort_edges_def signed_def)
  next
    case False
    define finish where "finish = ?start + sg_duration_ns seg"
    define lim where "lim = min until_ns finish"
    have t: "timing_ok ?cfg seg" using m False by (simp add: move_ok_def)
    have fin: "unat finish = unat ?start + unat (sg_duration_ns seg)"
      unfolding finish_def using t by (intro unat_add_small) (simp add: timing_ok_def)
    have lim: "?start \<le> lim" using now fin by (simp add: lim_def word_le_nat_alt)
    have n32: "unat ?n < 2 ^ 32" using m absolute_steps_bound by (simp add: move_ok_def)
    note rb = rise_time_bounds [OF t _ n32]
    obtain rises r' where r: "emit_steps (rise_time ?cfg seg ?n) lim ?n (mr_rises_emitted m) = (rises, r')"
      by (cases "emit_steps (rise_time ?cfg seg ?n) lim ?n (mr_rises_emitted m)")
    obtain falls f' where f: "emit_steps (fall_time ?cfg seg ?n) lim ?n (mr_falls_emitted m) = (falls, f')"
      by (cases "emit_steps (fall_time ?cfg seg ?n) lim ?n (mr_falls_emitted m)")
    have r_le: "unat (mr_rises_emitted m) \<le> unat ?n" and f_le: "unat (mr_falls_emitted m) \<le> unat ?n"
      using m unfolding move_ok_def by blast+
    note rs = emit_steps_spec [OF r_le r] and fs = emit_steps_spec [OF f_le f]
    define controls where "controls = (\<not> mr_controls_emitted m)"
    define ces where "ces = (if controls
        then (if \<not> ax_enabled a then [mk_edge ?start (move_id m) Enable True] else []) @
             (if ax_direction_positive a \<noteq> forward m
              then [mk_edge ?start (move_id m) Direction (forward m)] else [])
        else [])"
    have es: "es = ces @ map (\<lambda>t. mk_edge t (move_id m) Step True) rises @
          map (\<lambda>t. mk_edge t (move_id m) Step False) falls"
      and m': "m' = m\<lparr>mr_rises_emitted := r', mr_falls_emitted := f', mr_controls_emitted := True\<rparr>"
      using res False r f lim
      by (auto simp: collect_move_def Let_def ces_def controls_def lim_def finish_def move_id_def forward_def)
    have ids: "\<forall>e \<in> set es. ed_axis_resource_id e = move_id m"
      by (auto simp: es ces_def mk_edge_def)
    have dirs: "ed_level e = forward m \<and> ed_global_time_ns e \<le> ?start"
      if "e \<in> set (sort_edges es)" "ed_signal e = Direction" for e
      using that by (auto simp: es ces_def mk_edge_def split: if_splits)
    have rise_set: "set rises \<subseteq> {rise_time ?cfg seg ?n j |j. unat j < unat ?n}" using rs by blast
    have rises_later: "?start < ed_global_time_ns e" if e: "e \<in> set (sort_edges es)" "is_rise e" for e
    proof -
      have "ed_global_time_ns e \<in> set rises"
        using e by (auto simp: es ces_def mk_edge_def is_rise_def split: if_splits)
      then obtain j where "unat j < unat ?n" "ed_global_time_ns e = rise_time ?cfg seg ?n j"
        using rise_set by blast
      then show ?thesis using rb(1) by (simp add: word_less_nat_alt)
    qed
    have dir: "ax_direction_positive a = forward m \<or>
        (\<exists>e \<in> set (sort_edges es). ed_signal e = Direction)"
    proof (cases "ax_direction_positive a = forward m")
      case False
      then have "mk_edge ?start (move_id m) Direction (forward m) \<in> set (sort_edges es)"
        using c by (simp add: es ces_def controls_def controls_ok_def)
      then show ?thesis by (rule bexI [rotated, THEN disjI2]) (simp add: mk_edge_def)
    qed simp
    have en: "ax_enabled a = True \<or> (\<exists>e \<in> set (sort_edges es). ed_signal e = Enable)"
    proof (cases "ax_enabled a")
      case False
      then have "mk_edge ?start (move_id m) Enable True \<in> set (sort_edges es)"
        using c by (simp add: es ces_def controls_def controls_ok_def)
      then show ?thesis by (rule bexI [rotated, THEN disjI2]) (simp add: mk_edge_def)
    qed simp
    have "length (filter is_rise es) = unat r' - unat (mr_rises_emitted m)"
      using rs by (simp add: es ces_def is_rise_def mk_edge_def comp_def filter_map)
    then have "(word_of_nat (length (filter is_rise es)) :: u64) = r' - mr_rises_emitted m"
      using rs by (simp add: of_nat_diff)
    then have pos: "ax_position_steps (run_axis (sort_edges es) a) =
        ax_position_steps a + signed (forward m) (r' - mr_rises_emitted m)"
      and dir': "ax_direction_positive (run_axis (sort_edges es) a) = forward m"
      using run_axis_position [OF sort_edges_facts(2) dirs rises_later dir] by simp_all
    have ens: "ed_level e = True" if "e \<in> set (sort_edges es)" "ed_signal e = Enable" for e
      using that by (auto simp: es ces_def mk_edge_def split: if_splits)
    have "ax_enabled (run_axis (sort_edges es) a)"
      using run_axis_enabled [OF ens en] by simp
    then have ctl: "controls_ok (run_axis (sort_edges es) a) m'"
      using dir' by (simp add: controls_ok_def m' forward_def)
    have "r' = ?n" if "finish \<le> until_ns"
    proof -
      have "lim = finish" using that by (simp add: lim_def)
      then have "rise_time ?cfg seg ?n j \<le> lim" if "unat j < unat ?n" for j
        using rb(2) [OF that] fin by (simp add: word_le_nat_alt)
      then show ?thesis using rs by blast
    qed
    then show ?thesis
      using ids m rs fs t ctl pos by (auto simp: m' move_ok_def finish_def)
  qed
  then show "\<forall>e \<in> set es. ed_axis_resource_id e = move_id m"
    "move_ok ?cfg seg m' \<and> mr_move m' = mr_move m"
    "controls_ok (run_axis (sort_edges es) a) m'"
    "ax_position_steps (run_axis (sort_edges es) a) =
         ax_position_steps a + signed (forward m) (mr_rises_emitted m' - mr_rises_emitted m)"
    "?start + sg_duration_ns seg \<le> until_ns \<Longrightarrow> mr_rises_emitted m' = ?n"
    by blast+
qed

end
