(* ===== verification/Motion_Queue.thy ===== *)
theory Motion_Queue
  imports Motion_Safety
begin

text \<open>
  The executor as a whole: its invariant, kept by every operation, and the theorems about
  emitted steps, faults and the safe state.
\<close>

subsection \<open>Edges over all axes\<close>

abbreviation axis_id :: "axis_runtime \<Rightarrow> u32" where
  "axis_id a \<equiv> cf_resource_id (ax_config a)"

definition axis_index_ok :: "motion_executor \<Rightarrow> bool" where
  "axis_index_ok e \<longleftrightarrow>
     (\<forall>r i. map_of (me_axis_indices e) r = Some i \<longleftrightarrow>
            i < length (me_axes e) \<and> axis_id (me_axes e ! i) = r)"

lemma axis_indexD:
  "axis_index_ok e \<Longrightarrow> map_of (me_axis_indices e) r = Some i \<Longrightarrow>
   i < length (me_axes e) \<and> axis_id (me_axes e ! i) = r"
  unfolding axis_index_ok_def by blast

lemma axis_index_unique:
  "axis_index_ok e \<Longrightarrow> i < length (me_axes e) \<Longrightarrow>
   map_of (me_axis_indices e) (axis_id (me_axes e ! i)) = Some i"
  unfolding axis_index_ok_def by blast

lemma axis_index_okI:
  assumes "axis_index_ok e" "me_axis_indices e' = me_axis_indices e"
    and "map axis_id (me_axes e') = map axis_id (me_axes e)"
  shows "axis_index_ok e'"
proof -
  have len: "length (me_axes e') = length (me_axes e)"
    using assms(3) by (rule map_eq_imp_length_eq)
  have "axis_id (me_axes e' ! i) = axis_id (me_axes e ! i)" if "i < length (me_axes e)" for i
    using arg_cong [OF assms(3), of "\<lambda>xs. xs ! i"] that len by simp
  then show ?thesis using assms(1) unfolding axis_index_ok_def assms(2) len by metis
qed

definition for_axis :: "u32 \<Rightarrow> motion_edge list \<Rightarrow> motion_edge list" where
  "for_axis r es = filter (\<lambda>x. ed_axis_resource_id x = r) es"

lemma for_axis_simps [simp]:
  "for_axis r [] = []"
  "for_axis r (x # es) = (if ed_axis_resource_id x = r then x # for_axis r es else for_axis r es)"
  "for_axis r (es @ es') = for_axis r es @ for_axis r es'"
  "for_axis r (sort_edges es) = sort_edges (for_axis r es)"
  by (simp_all add: for_axis_def)

lemma sort_edges_Nil [simp]: "sort_edges [] = []"
  by (simp add: sort_edges_def)

lemma for_axis_all: "(\<And>x. x \<in> set es \<Longrightarrow> ed_axis_resource_id x = r) \<Longrightarrow> for_axis r es = es"
  by (simp add: for_axis_def)

lemma for_axis_none: "(\<And>x. x \<in> set es \<Longrightarrow> ed_axis_resource_id x \<noteq> r) \<Longrightarrow> for_axis r es = []"
  by (auto simp: for_axis_def filter_empty_conv)

text \<open>Applying edges in order runs, on every axis, the edges of that axis.\<close>

definition apply_all :: "motion_edge list \<Rightarrow> motion_executor \<Rightarrow> motion_executor" where
  "apply_all es e = e
     \<lparr>me_axes := map (\<lambda>a. run_axis (for_axis (axis_id a) es) a) (me_axes e),
      me_metrics := (me_metrics e)
        \<lparr>mm_emitted_steps := mm_emitted_steps (me_metrics e) + word_of_nat (length (filter is_rise es))\<rparr>\<rparr>"

lemma apply_edges_all:
  "axis_index_ok e \<Longrightarrow>
   (\<And>x. x \<in> set es \<Longrightarrow> map_of (me_axis_indices e) (ed_axis_resource_id x) \<noteq> None) \<Longrightarrow>
   apply_edges es e = (Inr (), apply_all es e)"
proof (induction es arbitrary: e)
  case Nil
  then show ?case by (simp add: apply_all_def)
next
  case (Cons x es)
  obtain i where i: "map_of (me_axis_indices e) (ed_axis_resource_id x) = Some i"
    using Cons.prems(2) [of x] by auto
  note ii = axis_indexD [OF Cons.prems(1) i]
  define e1 where "e1 = count_step x (e\<lparr>me_axes := (me_axes e)[i := axis_apply x (me_axes e ! i)]\<rparr>)"
  have e1: "me_axis_indices e1 = me_axis_indices e"
    "me_axes e1 = (me_axes e)[i := axis_apply x (me_axes e ! i)]"
    by (simp_all add: e1_def count_step_def)
  have ids: "map axis_id (me_axes e1) = map axis_id (me_axes e)"
    using ii by (intro nth_equalityI) (auto simp: e1 nth_list_update)
  have ok: "axis_index_ok e1"
    by (rule axis_index_okI [OF Cons.prems(1)]) (simp_all add: ids e1(1))
  have other: "axis_id (me_axes e ! j) \<noteq> ed_axis_resource_id x" if "j < length (me_axes e)" "j \<noteq> i" for j
    using axis_index_unique [OF Cons.prems(1) that(1)] i that(2) by auto
  have "me_axes (apply_all es e1) = me_axes (apply_all (x # es) e)"
  proof (rule nth_equalityI)
    fix j
    assume "j < length (me_axes (apply_all es e1))"
    then have j: "j < length (me_axes e)" by (simp add: apply_all_def e1)
    show "me_axes (apply_all es e1) ! j = me_axes (apply_all (x # es) e) ! j"
    proof (cases "j = i")
      case True
      then show ?thesis using ii by (simp add: apply_all_def e1)
    next
      case False
      then show ?thesis using j other [OF j False] by (simp add: apply_all_def e1)
    qed
  qed (simp add: apply_all_def e1)
  moreover have "me_metrics (apply_all es e1) = me_metrics (apply_all (x # es) e)"
    by (simp add: apply_all_def e1_def count_step_def is_rise_def)
  ultimately have "apply_all es e1 = apply_all (x # es) e"
    by (simp add: apply_all_def e1_def count_step_def)
  then show ?case
    using Cons.IH [OF ok] Cons.prems(2) i by (simp add: e1 flip: e1_def)
qed

lemma apply_all_fields [simp]:
  "me_axis_indices (apply_all es e) = me_axis_indices e"
  "me_queue (apply_all es e) = me_queue e"
  "me_state (apply_all es e) = me_state e"
  "me_fault (apply_all es e) = me_fault e"
  "map axis_id (me_axes (apply_all es e)) = map axis_id (me_axes e)"
  by (simp_all add: apply_all_def comp_def)

lemma find_axis_apply_all:
  assumes "axis_index_ok e"
  shows "find_axis r (apply_all es e) = map_option (run_axis (for_axis r es)) (find_axis r e)"
proof (cases "map_of (me_axis_indices e) r")
  case None
  then show ?thesis by (simp add: find_axis_def)
next
  case (Some i)
  then show ?thesis using axis_indexD [OF assms Some] by (simp add: find_axis_def apply_all_def)
qed

subsection \<open>The queue\<close>

definition segment_end :: "motion_segment \<Rightarrow> u64" where
  "segment_end seg = sg_start_time_ns seg + sg_duration_ns seg"

text \<open>
  A queued segment moves every axis at most once, each move fits the timing of its axis, and
  its interval is positive and does not wrap.
\<close>

definition segment_ok :: "(u32 \<Rightarrow> motion_axis_config option) \<Rightarrow> segment_runtime \<Rightarrow> bool" where
  "segment_ok cfg q \<longleftrightarrow>
     distinct (map move_id (qs_moves q)) \<and>
     (\<forall>m \<in> set (qs_moves q). \<exists>c. cfg (move_id m) = Some c \<and> move_ok c (qs_segment q) m) \<and>
     0 < unat (sg_duration_ns (qs_segment q)) \<and>
     unat (sg_start_time_ns (qs_segment q)) + unat (sg_duration_ns (qs_segment q)) < 2 ^ 64"

definition axis_config :: "motion_executor \<Rightarrow> u32 \<Rightarrow> motion_axis_config option" where
  "axis_config e r = map_option ax_config (find_axis r e)"

text \<open>Steps of axis \<open>r\<close> that a queued segment still has to emit, with their sign.\<close>

definition remaining :: "u32 \<Rightarrow> segment_runtime \<Rightarrow> i64" where
  "remaining r q = sum_list (map
     (\<lambda>m. if move_id m = r then signed (forward m) (mr_step_count m - mr_rises_emitted m) else 0)
     (qs_moves q))"

definition position :: "motion_executor \<Rightarrow> u32 \<Rightarrow> i64" where
  "position e r = (case find_axis r e of None \<Rightarrow> 0 | Some a \<Rightarrow> ax_position_steps a)"

text \<open>Where axis \<open>r\<close> will be when the queue has been executed.\<close>

definition target :: "motion_executor \<Rightarrow> u32 \<Rightarrow> i64" where
  "target e r = position e r + sum_list (map (remaining r) (me_queue e))"

definition moves_ready :: "motion_executor \<Rightarrow> segment_runtime \<Rightarrow> bool" where
  "moves_ready e q \<longleftrightarrow>
     (\<forall>m \<in> set (qs_moves q). \<forall>a. find_axis (move_id m) e = Some a \<longrightarrow> controls_ok a m)"

lemma collect_moves_all:
  "(\<And>m. m \<in> set mvs \<Longrightarrow> find_axis (move_id m) e = Some (f m)) \<Longrightarrow>
   collect_moves e seg t mvs =
     (Inr (concat (map (\<lambda>m. fst (collect_move seg t (f m) m)) mvs)),
      map (\<lambda>m. snd (collect_move seg t (f m) m)) mvs)"
proof (induction mvs)
  case (Cons m mvs)
  then have "collect_moves e seg t mvs =
     (Inr (concat (map (\<lambda>m. fst (collect_move seg t (f m) m)) mvs)),
      map (\<lambda>m. snd (collect_move seg t (f m) m)) mvs)" by simp
  then show ?case using Cons.prems [of m] by (simp add: move_id_def split_beta)
qed simp

lemma for_axis_concat:
  fixes key :: "'a \<Rightarrow> u32"
  assumes "distinct (map key mvs)"
    and "\<And>m x. m \<in> set mvs \<Longrightarrow> x \<in> set (g m) \<Longrightarrow> ed_axis_resource_id x = key m"
  shows "for_axis r (concat (map g mvs)) =
    (case find (\<lambda>m. key m = r) mvs of None \<Rightarrow> [] | Some m \<Rightarrow> g m)"
  using assms
proof (induction mvs)
  case (Cons m mvs)
  have rest: "for_axis r (concat (map g mvs)) =
      (case find (\<lambda>m. key m = r) mvs of None \<Rightarrow> [] | Some m \<Rightarrow> g m)"
    using Cons.IH Cons.prems by simp
  show ?case
  proof (cases "key m = r")
    case True
    then have "\<forall>x \<in> set mvs. key x \<noteq> r" using Cons.prems(1) by (simp, metis imageI)
    then have "find (\<lambda>m. key m = r) mvs = None" by (simp add: find_None_iff)
    moreover have "for_axis r (g m) = g m" using Cons.prems(2) [of m] True by (intro for_axis_all) auto
    ultimately show ?thesis using True rest by simp
  next
    case False
    then have "for_axis r (g m) = []" using Cons.prems(2) [of m] by (intro for_axis_none) auto
    then show ?thesis using False rest by simp
  qed
qed simp

lemma find_unique:
  "distinct (map f mvs) \<Longrightarrow> m \<in> set mvs \<Longrightarrow> find (\<lambda>x. f x = f m) mvs = Some m"
  by (induction mvs) auto

lemma sum_list_none:
  "r \<notin> f ` set xs \<Longrightarrow> sum_list (map (\<lambda>x. if f x = r then h x else (0 :: 'a::monoid_add)) xs) = 0"
  by (induction xs) auto

lemma sum_list_unique:
  "distinct (map f xs) \<Longrightarrow> x \<in> set xs \<Longrightarrow>
   sum_list (map (\<lambda>y. if f y = f x then h y else (0 :: 'a::comm_monoid_add)) xs) = h x"
proof (induction xs)
  case (Cons y xs)
  show ?case
  proof (cases "x = y")
    case True
    then show ?thesis using Cons.prems sum_list_none [of "f x" f xs h] by simp
  next
    case False
    then have "x \<in> set xs" using Cons.prems by simp
    moreover have "f y \<noteq> f x" using Cons.prems(1) \<open>x \<in> set xs\<close> by auto
    ultimately show ?thesis using Cons by simp
  qed
qed simp

lemma remaining_unique:
  assumes "distinct (map move_id (qs_moves q))" "m \<in> set (qs_moves q)"
  shows "remaining (move_id m) q = signed (forward m) (mr_step_count m - mr_rises_emitted m)"
  unfolding remaining_def by (rule sum_list_unique [OF assms])

lemma remaining_none: "r \<notin> move_id ` set (qs_moves q) \<Longrightarrow> remaining r q = 0"
  unfolding remaining_def by (rule sum_list_none)

subsection \<open>One segment\<close>

lemma find_axis_id: "axis_index_ok e \<Longrightarrow> find_axis r e = Some a \<Longrightarrow> axis_id a = r"
  using axis_indexD by (fastforce simp: find_axis_def)

lemma collect_segment_all:
  assumes ix: "axis_index_ok e" and q: "segment_ok (axis_config e) q" and rdy: "moves_ready e q"
    and now: "sg_start_time_ns (qs_segment q) \<le> t"
  obtains es q' where
    "collect_segment_edges q t e = (Inr (sort_edges es), q',
       count_edges (length es) (apply_all (sort_edges es) e))"
    "qs_segment q' = qs_segment q" "segment_ok (axis_config e) q'"
    "moves_ready (apply_all (sort_edges es) e) q'"
    "\<And>r. position (apply_all (sort_edges es) e) r + remaining r q' = position e r + remaining r q"
    "segment_end (qs_segment q) \<le> t \<Longrightarrow> (\<And>r. remaining r q' = 0)"
    "map mr_move (qs_moves q') = map mr_move (qs_moves q)"
    "\<And>x. x \<in> set es \<Longrightarrow> find_axis (ed_axis_resource_id x) e \<noteq> None"
proof -
  let ?seg = "qs_segment q" and ?mvs = "qs_moves q"
  define f where "f m = the (find_axis (move_id m) e)" for m
  define g where "g m = collect_move ?seg t (f m) m" for m
  define es where "es = concat (map (\<lambda>m. fst (g m)) ?mvs)"
  define q' where "q' = q\<lparr>qs_moves := map (\<lambda>m. snd (g m)) ?mvs\<rparr>"
  define e' where "e' = apply_all (sort_edges es) e"
  have dist: "distinct (map move_id ?mvs)" using q by (simp add: segment_ok_def)
  have f: "find_axis (move_id m) e = Some (f m)" "move_ok (ax_config (f m)) ?seg m"
    "controls_ok (f m) m" if "m \<in> set ?mvs" for m
    using q rdy that by (auto simp: segment_ok_def axis_config_def moves_ready_def f_def)
  have facts: "\<forall>x \<in> set (fst (g m)). ed_axis_resource_id x = move_id m"
    "move_ok (ax_config (f m)) ?seg (snd (g m))" "mr_move (snd (g m)) = mr_move m"
    "controls_ok (run_axis (sort_edges (fst (g m))) (f m)) (snd (g m))"
    "ax_position_steps (run_axis (sort_edges (fst (g m))) (f m)) =
         ax_position_steps (f m) + signed (forward m) (mr_rises_emitted (snd (g m)) - mr_rises_emitted m)"
    "segment_end ?seg \<le> t \<Longrightarrow> mr_rises_emitted (snd (g m)) = mr_step_count m"
    if "m \<in> set ?mvs" for m
    using collect_move_facts [OF f(2,3) [OF that] now, of "fst (g m)" "snd (g m)"]
    by (simp_all add: g_def segment_end_def)
  have id': "move_id (snd (g m)) = move_id m" "forward (snd (g m)) = forward m"
    "mr_step_count (snd (g m)) = mr_step_count m" if "m \<in> set ?mvs" for m
    using facts(2,3) [OF that] f(2) [OF that] by (simp_all add: move_id_def forward_def move_ok_def)
  have ids': "map move_id (qs_moves q') = map move_id ?mvs"
    using id'(1) by (simp add: q'_def)
  have mine: "for_axis r es = (case find (\<lambda>m. move_id m = r) ?mvs of None \<Rightarrow> [] | Some m \<Rightarrow> fst (g m))" for r
    unfolding es_def using facts(1) by (intro for_axis_concat [OF dist]) blast
  have on: "find_axis (move_id m) e' = Some (run_axis (sort_edges (fst (g m))) (f m))"
    if "m \<in> set ?mvs" for m
    using find_unique [OF dist that] f(1) [OF that]
    by (simp add: e'_def find_axis_apply_all [OF ix] mine)
  have known: "find_axis (ed_axis_resource_id x) e \<noteq> None" if x: "x \<in> set es" for x
  proof -
    obtain m where "m \<in> set ?mvs" "x \<in> set (fst (g m))" using x by (auto simp: es_def)
    then show ?thesis using facts(1) f(1) by auto
  qed
  have "collect_moves e ?seg t ?mvs = (Inr es, map (\<lambda>m. snd (g m)) ?mvs)"
    using collect_moves_all [of ?mvs e f] f(1) by (simp add: es_def g_def)
  moreover have "apply_edges (sort_edges es) e = (Inr (), e')"
    using known apply_edges_all [OF ix, of "sort_edges es"] by (simp add: e'_def find_axis_def)
  ultimately have res: "collect_segment_edges q t e = (Inr (sort_edges es), q', count_edges (length es) e')"
    by (simp add: collect_segment_edges_def q'_def)
  have seg_ok: "segment_ok (axis_config e) q'"
  proof -
    have "distinct (map move_id (qs_moves q'))" using ids' dist by simp
    then show ?thesis using q facts(2) id'(1) f(1)
      by (auto simp: segment_ok_def axis_config_def q'_def)
  qed
  have rdy': "moves_ready e' q'"
    using on facts(4) id'(1) by (auto simp: moves_ready_def q'_def)
  have pos: "position e' r + remaining r q' = position e r + remaining r q" for r
  proof (cases "r \<in> move_id ` set ?mvs")
    case True
    then obtain m where m: "m \<in> set ?mvs" "r = move_id m" by blast
    have "snd (g m) \<in> set (qs_moves q')" using m by (simp add: q'_def)
    then have "remaining r q' = signed (forward m) (mr_step_count m - mr_rises_emitted (snd (g m)))"
      using remaining_unique [of q' "snd (g m)"] ids' dist m id' by simp
    moreover have "remaining r q = signed (forward m) (mr_step_count m - mr_rises_emitted m)"
      using remaining_unique [OF dist m(1)] m(2) by simp
    ultimately show ?thesis
      using on [OF m(1)] f(1) [OF m(1)] facts(5) [OF m(1)] m(2)
      by (simp add: position_def signed_def)
  next
    case False
    have "remaining r q' = 0" "remaining r q = 0"
      using False id'(1) by (auto intro!: remaining_none simp: q'_def)
    moreover have "find (\<lambda>m. move_id m = r) ?mvs = None" using False by (auto simp: find_None_iff)
    ultimately show ?thesis
      by (simp add: position_def e'_def find_axis_apply_all [OF ix] mine split: option.split)
  qed
  have rem0: "remaining r q' = 0" if "segment_end ?seg \<le> t" for r
  proof (cases "r \<in> move_id ` set ?mvs")
    case True
    then obtain m where m: "m \<in> set ?mvs" "r = move_id m" by blast
    have "snd (g m) \<in> set (qs_moves q')" using m by (simp add: q'_def)
    then show ?thesis
      using remaining_unique [of q' "snd (g m)"] ids' dist m id' facts(6) [OF m(1) that]
      by (simp add: signed_def)
  next
    case False
    then show ?thesis using id'(1) by (auto intro!: remaining_none simp: q'_def)
  qed
  have "map mr_move (qs_moves q') = map mr_move ?mvs" using facts(3) by (simp add: q'_def)
  from that [OF res [unfolded e'_def] _ seg_ok rdy' [unfolded e'_def] pos [unfolded e'_def] rem0 this known]
  show thesis by (simp add: q'_def)
qed

subsection \<open>The safe state\<close>

definition all_off :: "motion_executor \<Rightarrow> bool" where
  "all_off e \<longleftrightarrow> (\<forall>a \<in> set (me_axes e). \<not> ax_enabled a \<and> \<not> ax_step_level a)"

lemma run_axis_no_rise:
  "(\<And>x. x \<in> set es \<Longrightarrow> \<not> is_rise x) \<Longrightarrow> ax_position_steps (run_axis es a) = ax_position_steps a"
proof (induction es arbitrary: a)
  case (Cons x es)
  have "ax_position_steps (axis_apply x a) = ax_position_steps a"
    using Cons.prems [of x] by (auto simp: axis_apply_def is_rise_def Let_def split: motion_signal.split)
  then show ?case using Cons by simp
qed simp

lemma axis_ids_distinct:
  assumes "axis_index_ok e"
  shows "distinct (map axis_id (me_axes e))"
  unfolding distinct_conv_nth
proof clarsimp
  fix i j
  assume "i < length (me_axes e)" "j < length (me_axes e)" "i \<noteq> j"
    "axis_id (me_axes e ! i) = axis_id (me_axes e ! j)"
  then show False
    using axis_index_unique [OF assms, of i] axis_index_unique [OF assms, of j] by simp
qed

lemma find_axis_mem:
  assumes "axis_index_ok e"
  shows "find_axis r e = Some a \<longleftrightarrow> a \<in> set (me_axes e) \<and> axis_id a = r"
proof
  assume "find_axis r e = Some a"
  then obtain i where i: "map_of (me_axis_indices e) r = Some i" "a = me_axes e ! i"
    by (auto simp: find_axis_def simp del: map_of_eq_Some_iff)
  from axis_indexD [OF assms i(1)] i(2)
  show "a \<in> set (me_axes e) \<and> axis_id a = r" by simp
next
  assume "a \<in> set (me_axes e) \<and> axis_id a = r"
  then obtain i where "i < length (me_axes e)" "a = me_axes e ! i" "axis_id a = r"
    by (auto simp: in_set_conv_nth)
  with axis_index_unique [OF assms, of i] show "find_axis r e = Some a"
    by (simp add: find_axis_def del: map_of_eq_Some_iff)
qed

text \<open>The edges that switch one axis off.\<close>

definition off_edges :: "u64 \<Rightarrow> axis_runtime \<Rightarrow> motion_edge list" where
  "off_edges t a = (if ax_step_level a then [mk_edge t (axis_id a) Step False] else []) @
     (if ax_enabled a then [mk_edge t (axis_id a) Enable False] else [])"

lemma off_edges_off:
  fixes t :: u64 and a :: axis_runtime
  defines "es \<equiv> sort_edges (off_edges t a)"
  shows "\<not> ax_enabled (run_axis es a) \<and> \<not> ax_step_level (run_axis es a)"
    and "ax_position_steps (run_axis es a) = ax_position_steps a"
proof -
  have low: "\<not> is_rise x" if "x \<in> set es" for x
    using that by (auto simp: es_def off_edges_def is_rise_def mk_edge_def split: if_splits)
  have dis: "ed_level x = False" if "x \<in> set es" "ed_signal x = Enable" for x
    using that by (auto simp: es_def off_edges_def mk_edge_def split: if_splits)
  have some: "ax_enabled a = False \<or> (\<exists>x \<in> set es. ed_signal x = Enable)"
    "\<not> ax_step_level a \<or> (\<exists>x \<in> set es. ed_signal x = Step)"
    by (auto simp: es_def off_edges_def mk_edge_def)
  show "\<not> ax_enabled (run_axis es a) \<and> \<not> ax_step_level (run_axis es a)"
    using run_axis_enabled [OF dis some(1)] run_axis_step_low [OF low some(2)] by simp
  show "ax_position_steps (run_axis es a) = ax_position_steps a"
    by (rule run_axis_no_rise [OF low])
qed

lemma safe_stop_all:
  assumes ix: "axis_index_ok e"
  obtains es e' where "safe_stop t f e = (Inr (sort_edges es), e')"
    "axis_index_ok e'" "axis_config e' = axis_config e" "\<And>r. position e' r = position e r"
    "all_off e'" "me_queue e' = []" "me_fault e' = f"
    "me_state e' = (if f = MF_None then MS_Idle else MS_Faulted)"
    "me_queue_capacity e' = me_queue_capacity e" "me_now_ns e' = me_now_ns e"
    "map ax_config (me_axes e') = map ax_config (me_axes e)" "\<forall>x \<in> set es. \<not> is_rise x"
    "me_next_available_time_ns e' = t"
    "me_last_accepted_sequence e' = me_last_accepted_sequence e"
proof -
  define es where "es = concat (map (off_edges t) (me_axes e))"
  define e1 where "e1 = snd (enter_safe_state t f e)"
  have e1: "me_axes e1 = me_axes e" "me_axis_indices e1 = me_axis_indices e" "me_queue e1 = []"
    "me_fault e1 = f" "me_state e1 = (if f = MF_None then MS_Idle else MS_Faulted)"
    "me_queue_capacity e1 = me_queue_capacity e" "me_now_ns e1 = me_now_ns e"
    "me_next_available_time_ns e1 = t" "me_last_accepted_sequence e1 = me_last_accepted_sequence e"
    by (simp_all add: e1_def enter_safe_state_def Let_def)
  have enter: "enter_safe_state t f e = (es, e1)"
    by (simp add: es_def e1_def enter_safe_state_def off_edges_def [abs_def])
  have ix1: "axis_index_ok e1" by (rule axis_index_okI [OF ix]) (simp_all add: e1)
  have find1: "find_axis r e1 = find_axis r e" for r by (simp add: find_axis_def e1)
  have mine: "for_axis (axis_id a) es = off_edges t a" if "a \<in> set (me_axes e)" for a
  proof -
    have "for_axis (axis_id a) es =
      (case find (\<lambda>b. axis_id b = axis_id a) (me_axes e) of None \<Rightarrow> [] | Some b \<Rightarrow> off_edges t b)"
      unfolding es_def by (intro for_axis_concat [OF axis_ids_distinct [OF ix]])
        (auto simp: off_edges_def mk_edge_def split: if_splits)
    then show ?thesis using find_unique [OF axis_ids_distinct [OF ix] that] by simp
  qed
  have known: "map_of (me_axis_indices e1) (ed_axis_resource_id x) \<noteq> None" if x: "x \<in> set es" for x
  proof -
    obtain a where "a \<in> set (me_axes e)" "ed_axis_resource_id x = axis_id a"
      using x by (auto simp: es_def off_edges_def mk_edge_def split: if_splits)
    then obtain i where "i < length (me_axes e)" "ed_axis_resource_id x = axis_id (me_axes e ! i)"
      by (metis in_set_conv_nth)
    then show ?thesis using axis_index_unique [OF ix] e1(2) by simp
  qed
  define e' where "e' = count_edges (length es) (apply_all (sort_edges es) e1)"
  have axes': "me_axes e' = map (\<lambda>a. run_axis (sort_edges (off_edges t a)) a) (me_axes e)"
    by (simp add: e'_def count_edges_def apply_all_def e1 mine)
  have find': "find_axis r e' = map_option (run_axis (sort_edges (for_axis r es))) (find_axis r e)" for r
    using find_axis_apply_all [OF ix1, of r "sort_edges es"] find1
    by (simp add: e'_def count_edges_def find_axis_def)
  have step: "safe_stop t f e = (Inr (sort_edges es), e')"
    using apply_edges_all [OF ix1, of "sort_edges es"] known
    by (simp add: safe_stop_def enter e'_def Let_def)
  have pos: "position e' r = position e r" for r
  proof (cases "find_axis r e")
    case (Some a)
    then have "a \<in> set (me_axes e)" "axis_id a = r" using find_axis_mem [OF ix] by auto
    then show ?thesis using Some mine [of a] off_edges_off(2) [of t a] by (simp add: position_def find')
  qed (simp add: position_def find')
  have low: "\<forall>x \<in> set es. \<not> is_rise x"
    by (auto simp: es_def off_edges_def is_rise_def mk_edge_def split: if_splits)
  have off: "all_off e'" using off_edges_off(1) [of t] by (simp add: all_off_def axes')
  have ix': "axis_index_ok e'"
    by (rule axis_index_okI [OF ix]) (simp_all add: axes' comp_def e'_def count_edges_def e1)
  have conf: "axis_config e' = axis_config e"
    by (simp add: axis_config_def find' fun_eq_iff option.map_comp comp_def)
  show thesis
    by (rule that [OF step ix' conf pos off _ _ _ _ _ _ low])
      (simp_all add: e1 axes' comp_def, simp_all add: e'_def count_edges_def apply_all_def e1)
qed

subsection \<open>The invariant\<close>

text \<open>Neighbouring segments are contiguous, and only the last one may be final.\<close>

fun chained :: "segment_runtime list \<Rightarrow> bool" where
  "chained (p # q # qs) \<longleftrightarrow>
     \<not> sg_final_segment (qs_segment p) \<and>
     segment_end (qs_segment p) = sg_start_time_ns (qs_segment q) \<and> chained (q # qs)"
| "chained _ \<longleftrightarrow> True"

definition axis_timing_ok :: "motion_axis_config \<Rightarrow> bool" where
  "axis_timing_ok c \<longleftrightarrow> cf_direction_setup_ns c \<noteq> 0 \<and> cf_step_pulse_width_ns c \<noteq> 0"

definition executor_ok :: "motion_executor \<Rightarrow> bool" where
  "executor_ok e \<longleftrightarrow>
     axis_index_ok e \<and> list_all axis_timing_ok (map ax_config (me_axes e)) \<and>
     length (me_queue e) \<le> me_queue_capacity e \<and>
     (me_fault e \<noteq> MF_None \<longleftrightarrow> me_state e = MS_Faulted) \<and>
     list_all (segment_ok (axis_config e)) (me_queue e) \<and> chained (me_queue e) \<and>
     (\<forall>q \<in> set (tl (me_queue e)). list_all fresh_move (qs_moves q)) \<and>
     (if me_queue e = [] then all_off e \<and> me_state e \<in> {MS_Idle, MS_Faulted}
      else me_fault e = MF_None \<and> moves_ready e (hd (me_queue e)) \<and>
           me_next_available_time_ns e = segment_end (qs_segment (last (me_queue e))))"

lemma chained_append:
  "chained (qs @ [q]) \<longleftrightarrow> chained qs \<and>
     (qs \<noteq> [] \<longrightarrow> \<not> sg_final_segment (qs_segment (last qs)) \<and>
        segment_end (qs_segment (last qs)) = sg_start_time_ns (qs_segment q))"
  by (induction qs rule: chained.induct) auto

lemma fresh_ready: "list_all fresh_move (qs_moves q) \<Longrightarrow> moves_ready e q"
  by (auto simp: moves_ready_def fresh_move_def controls_ok_def list_all_iff)

text \<open>A check of the moves that succeeds leaves fresh moves that fit their axes.\<close>

lemma check_moves_Inr:
  "check_moves e dur seen axes = Inr mvs \<Longrightarrow>
   axis_index_ok e \<Longrightarrow> list_all axis_timing_ok (map ax_config (me_axes e)) \<Longrightarrow>
   map mr_move mvs = axes \<and> distinct (map move_id mvs) \<and>
   set (map move_id mvs) \<inter> set seen = {} \<and> list_all fresh_move mvs \<and>
   (\<forall>m \<in> set mvs. mr_step_count m = absolute_steps (mo_steps (mr_move m)) \<and>
      (\<exists>c. axis_config e (move_id m) = Some c \<and> axis_timing_ok c \<and>
         (mr_step_count m \<noteq> 0 \<longrightarrow>
            unat (cf_direction_setup_ns c) + unat (cf_step_pulse_width_ns c) \<le> unat dur)))"
proof (induction axes arbitrary: seen mvs)
  case (Cons mv axes)
  let ?r = "mo_resource_id mv" and ?n = "absolute_steps (mo_steps mv)"
  have new: "?r \<notin> set seen" using Cons.prems(1) by (auto split: if_splits)
  obtain a where a: "find_axis ?r e = Some a"
    using Cons.prems(1) new by (cases "find_axis ?r e") auto
  define su where "su = (ucast (cf_direction_setup_ns (ax_config a)) :: u64)"
  define pulse where "pulse = (ucast (cf_step_pulse_width_ns (ax_config a)) :: u64)"
  define avail where "avail = (if su < dur then dur - su else 0)"
  have fits: "?n \<noteq> 0 \<Longrightarrow> \<not> avail < pulse"
    and rest: "try_bind (check_moves e dur (?r # seen) axes)
      (\<lambda>rest. Inr (\<lparr>mr_move = mv, mr_step_count = ?n, mr_rises_emitted = 0,
         mr_falls_emitted = 0, mr_controls_emitted = False\<rparr> # rest)) = Inr mvs"
    using Cons.prems(1) new a
    by (auto simp: Let_def su_def pulse_def avail_def split: if_splits)
  obtain mvs' where mvs': "check_moves e dur (?r # seen) axes = Inr mvs'"
    "mvs = \<lparr>mr_move = mv, mr_step_count = ?n, mr_rises_emitted = 0,
         mr_falls_emitted = 0, mr_controls_emitted = False\<rparr> # mvs'"
    using rest by (auto simp: try_bind_Inr_iff)
  note IH = Cons.IH [OF mvs'(1) Cons.prems(2,3)]
  have conf: "axis_timing_ok (ax_config a)"
    using a find_axis_mem [OF Cons.prems(2)] Cons.prems(3) by (auto simp: list_all_iff)
  have "unat (cf_direction_setup_ns (ax_config a)) + unat (cf_step_pulse_width_ns (ax_config a)) \<le> unat dur"
    if "?n \<noteq> 0"
  proof -
    have "0 < unat pulse" using conf by (simp add: pulse_def axis_timing_ok_def unat_gt_0)
    then have "su < dur" "pulse \<le> dur - su"
      using fits [OF that] by (auto simp: avail_def not_less unat_gt_0 split: if_splits)
    then show ?thesis
      using unat_diff [of su dur] by (simp add: word_le_nat_alt word_less_nat_alt su_def pulse_def)
  qed
  then show ?case
    using IH new conf a
    by (auto simp: mvs'(2) move_id_def fresh_move_def axis_config_def)
qed simp

subsection \<open>Enqueue\<close>

lemma enqueue_check_Inr:
  assumes ok: "executor_ok e" and chk: "enqueue_check seg t e = Inr q"
  shows "segment_ok (axis_config e) q" "list_all fresh_move (qs_moves q)"
    "map mr_move (qs_moves q) = sg_axes seg"
    "\<And>m. m \<in> set (qs_moves q) \<Longrightarrow> mr_step_count m = absolute_steps (mo_steps (mr_move m))"
    "length (me_queue e) < me_queue_capacity e" "me_fault e = MF_None"
    "me_queue e \<noteq> [] \<Longrightarrow> \<not> sg_final_segment (qs_segment (last (me_queue e))) \<and>
       me_next_available_time_ns e = sg_start_time_ns (qs_segment q)"
    "sg_sequence (qs_segment q) = me_last_accepted_sequence e + 1"
proof -
  define s1 where "s1 = (if sg_start_time_ns seg = 0
    then seg\<lparr>sg_start_time_ns := max (if t > u64_max - me_minimum_lead_time_ns e then u64_max
           else t + me_minimum_lead_time_ns e) (me_next_available_time_ns e)\<rparr> else seg)"
  have s1: "sg_duration_ns s1 = sg_duration_ns seg" "sg_axes s1 = sg_axes seg" "sg_sequence s1 = sg_sequence seg"
    by (simp_all add: s1_def)
  have g: "me_fault e = MF_None" "length (me_queue e) < me_queue_capacity e"
    "me_queue e \<noteq> [] \<Longrightarrow> \<not> sg_final_segment (qs_segment (last (me_queue e)))"
    "sg_duration_ns seg \<noteq> 0" "me_queue e \<noteq> [] \<Longrightarrow> me_next_available_time_ns e = sg_start_time_ns s1"
    "sg_start_time_ns s1 \<le> u64_max - sg_duration_ns seg"
    "sg_sequence seg = me_last_accepted_sequence e + 1"
    and "\<exists>mvs. check_moves e (sg_duration_ns seg) [] (sg_axes seg) = Inr mvs \<and>
       q = \<lparr>qs_segment = s1, qs_moves = mvs\<rparr>"
    using chk unfolding enqueue_check_def Let_def s1_def
    by (auto simp: try_bind_Inr_iff not_less split: if_splits)
  then obtain mvs where mvs: "check_moves e (sg_duration_ns seg) [] (sg_axes seg) = Inr mvs"
    "q = \<lparr>qs_segment = s1, qs_moves = mvs\<rparr>" by blast
  have ix: "axis_index_ok e" "list_all axis_timing_ok (map ax_config (me_axes e))"
    using ok by (simp_all add: executor_ok_def)
  note cm = check_moves_Inr [OF mvs(1) ix]
  have "unat (u64_max - sg_duration_ns seg) = 2 ^ 64 - 1 - unat (sg_duration_ns seg)"
    using u64_bound [of "sg_duration_ns seg"]
    by (subst unat_diff) (simp_all add: u64_max_def word_le_nat_alt)
  then have fits: "unat (sg_start_time_ns s1) + unat (sg_duration_ns seg) < 2 ^ 64"
    using g(6) u64_bound [of "sg_duration_ns seg"] by (simp add: word_le_nat_alt)
  have pos: "0 < unat (sg_duration_ns seg)" using g(4) by (simp add: unat_gt_0)
  have "\<exists>c. axis_config e (move_id m) = Some c \<and> move_ok c s1 m" if m: "m \<in> set mvs" for m
  proof -
    obtain c where c: "axis_config e (move_id m) = Some c" "axis_timing_ok c"
      "mr_step_count m \<noteq> 0 \<Longrightarrow>
         unat (cf_direction_setup_ns c) + unat (cf_step_pulse_width_ns c) \<le> unat (sg_duration_ns seg)"
      "mr_step_count m = absolute_steps (mo_steps (mr_move m))" "fresh_move m"
      using cm m by (auto simp: list_all_iff)
    have "move_ok c s1 m"
      using c fits by (auto simp: move_ok_def timing_ok_def s1 axis_timing_ok_def unat_gt_0 fresh_move_def)
    then show ?thesis using c(1) by blast
  qed
  then show "segment_ok (axis_config e) q"
    using cm fits pos by (simp add: segment_ok_def mvs(2) s1)
  show "list_all fresh_move (qs_moves q)" "map mr_move (qs_moves q) = sg_axes seg"
    "\<And>m. m \<in> set (qs_moves q) \<Longrightarrow> mr_step_count m = absolute_steps (mo_steps (mr_move m))"
    using cm by (simp_all add: mvs(2))
  show "length (me_queue e) < me_queue_capacity e" "me_fault e = MF_None"
    "me_queue e \<noteq> [] \<Longrightarrow> \<not> sg_final_segment (qs_segment (last (me_queue e))) \<and>
       me_next_available_time_ns e = sg_start_time_ns (qs_segment q)"
    "sg_sequence (qs_segment q) = me_last_accepted_sequence e + 1"
    using g by (simp_all add: mvs(2) s1)
qed

text \<open>The commanded steps of a segment on one axis.\<close>

definition commanded :: "u32 \<Rightarrow> motion_segment \<Rightarrow> i64" where
  "commanded r seg = sum_list (map
     (\<lambda>m. if mo_resource_id m = r then scast (mo_steps m) else 0) (sg_axes seg))"

lemma fresh_remaining:
  assumes "list_all fresh_move (qs_moves q)" "map mr_move (qs_moves q) = sg_axes seg"
    and "\<And>m. m \<in> set (qs_moves q) \<Longrightarrow> mr_step_count m = absolute_steps (mo_steps (mr_move m))"
  shows "remaining r q = commanded r seg"
proof -
  have "remaining r q = sum_list (map (\<lambda>m. if move_id m = r then scast (mo_steps (mr_move m)) else 0) (qs_moves q))"
    unfolding remaining_def
  proof (rule arg_cong [where f = sum_list], rule map_cong [OF refl])
    fix m
    assume m: "m \<in> set (qs_moves q)"
    have "signed (forward m) (mr_step_count m - mr_rises_emitted m) = scast (mo_steps (mr_move m))"
      using assms(1,3) m absolute_steps_signed [of "mo_steps (mr_move m)"]
      by (auto simp: fresh_move_def forward_def list_all_iff)
    then show "(if move_id m = r then signed (forward m) (mr_step_count m - mr_rises_emitted m) else 0) =
      (if move_id m = r then scast (mo_steps (mr_move m)) else 0)" by simp
  qed
  also have "\<dots> = commanded r seg"
    by (simp add: commanded_def comp_def move_id_def flip: assms(2))
  finally show ?thesis .
qed

lemma enqueue_spec:
  assumes ok: "executor_ok e"
  shows "case enqueue seg t e of
      (Inl err, e') \<Rightarrow> e' = count_rejection e
    | (Inr seg', e') \<Rightarrow> executor_ok e' \<and> (\<forall>r. target e' r = target e r + commanded r seg)"
proof (cases "enqueue_check seg t e")
  case (Inl err)
  then show ?thesis by (simp add: enqueue_def)
next
  case (Inr q)
  note c = enqueue_check_Inr [OF ok Inr]
  define e' where "e' = snd (enqueue seg t e)"
  have f: "me_axes e' = me_axes e" "me_axis_indices e' = me_axis_indices e"
    "me_queue e' = me_queue e @ [q]" "me_queue_capacity e' = me_queue_capacity e"
    "me_fault e' = me_fault e" "me_state e' = MS_Armed"
    "me_next_available_time_ns e' = segment_end (qs_segment q)"
    by (simp_all add: e'_def enqueue_def Inr Let_def segment_end_def)
  have find: "find_axis r e' = find_axis r e" for r by (simp add: find_axis_def f)
  then have cfg: "axis_config e' = axis_config e" by (simp add: axis_config_def fun_eq_iff)
  have ix: "axis_index_ok e'" using ok by (simp add: executor_ok_def axis_index_ok_def f)
  have ready: "moves_ready e' (hd (me_queue e @ [q]))"
    using ok c(2) fresh_ready [of q e'] by (cases "me_queue e") (auto simp: executor_ok_def moves_ready_def find)
  have fresh: "\<forall>p \<in> set (tl (me_queue e @ [q])). list_all fresh_move (qs_moves p)"
    using ok c(2) by (cases "me_queue e") (auto simp: executor_ok_def)
  have chain: "chained (me_queue e @ [q])"
    using ok c(7) by (auto simp: executor_ok_def chained_append)
  have "executor_ok e'"
    using ok c(1,5,6) ix ready fresh chain
    by (simp add: executor_ok_def f cfg)
  moreover have "target e' r = target e r + commanded r seg" for r
    using fresh_remaining [OF c(2,3,4), of r] by (simp add: target_def f position_def find)
  moreover have "fst (enqueue seg t e) = Inr (qs_segment q)" by (simp add: enqueue_def Inr Let_def)
  ultimately show ?thesis by (cases "enqueue seg t e") (simp add: e'_def)
qed

subsection \<open>Advancing time\<close>

lemma executor_ok_rest:
  assumes ok: "executor_ok e" and q: "me_queue e = q # rest" "rest \<noteq> []"
  shows "\<not> sg_final_segment (qs_segment q)" "list_all fresh_move (qs_moves (hd rest))"
    "segment_end (qs_segment q) = sg_start_time_ns (qs_segment (hd rest))" "chained rest"
    "\<forall>p \<in> set (tl rest). list_all fresh_move (qs_moves p)"
proof -
  obtain p qs where "rest = p # qs" using q(2) by (cases rest) auto
  then show "\<not> sg_final_segment (qs_segment q)" "list_all fresh_move (qs_moves (hd rest))"
    "segment_end (qs_segment q) = sg_start_time_ns (qs_segment (hd rest))" "chained rest"
    "\<forall>p \<in> set (tl rest). list_all fresh_move (qs_moves p)"
    using ok q by (auto simp: executor_ok_def)
qed

lemma segment_end_unat:
  "segment_ok cfg q \<Longrightarrow> unat (segment_end (qs_segment q)) =
     unat (sg_start_time_ns (qs_segment q)) + unat (sg_duration_ns (qs_segment q))"
  unfolding segment_end_def segment_ok_def by (intro unat_add_small) blast

lemma chained_ends:
  "chained (q # rest) \<Longrightarrow> list_all (segment_ok cfg) (q # rest) \<Longrightarrow>
   segment_end (qs_segment q) \<le> segment_end (qs_segment (last (q # rest)))"
proof (induction rest arbitrary: q)
  case (Cons p rest)
  have "segment_end (qs_segment p) \<le> segment_end (qs_segment (last (p # rest)))"
    using Cons by simp
  moreover have "segment_end (qs_segment q) \<le> segment_end (qs_segment p)"
    using Cons.prems segment_end_unat [of cfg p] by (simp add: word_le_nat_alt)
  ultimately show ?case by simp
qed simp

lemma safe_stop_ok:
  assumes "axis_index_ok e" "list_all axis_timing_ok (map ax_config (me_axes e))"
  obtains es e' where "safe_stop t f e = (Inr (sort_edges es), e')" "executor_ok e'"
    "target e' = position e" "axis_config e' = axis_config e" "me_queue e' = []" "me_fault e' = f"
    "me_queue_capacity e' = me_queue_capacity e" "me_now_ns e' = me_now_ns e" "all_off e'"
    "me_last_accepted_sequence e' = me_last_accepted_sequence e"
    "map ax_config (me_axes e') = map ax_config (me_axes e)"
proof -
  obtain es e' where s: "safe_stop t f e = (Inr (sort_edges es), e')"
    "axis_index_ok e'" "axis_config e' = axis_config e" "\<And>r. position e' r = position e r"
    "all_off e'" "me_queue e' = []" "me_fault e' = f"
    "me_state e' = (if f = MF_None then MS_Idle else MS_Faulted)"
    "me_queue_capacity e' = me_queue_capacity e" "me_now_ns e' = me_now_ns e"
    "map ax_config (me_axes e') = map ax_config (me_axes e)"
    "me_last_accepted_sequence e' = me_last_accepted_sequence e"
    by (rule safe_stop_all [OF assms(1), of t f]) blast
  have "executor_ok e'" using s assms(2) by (simp add: executor_ok_def)
  moreover have "target e' = position e" using s(4,6) by (simp add: target_def fun_eq_iff)
  ultimately show thesis using that s by blast
qed

text \<open>What one run of the loop over the queue guarantees.\<close>

definition loop_result :: "motion_executor \<Rightarrow> u64 \<Rightarrow> motion_executor \<Rightarrow> bool" where
  "loop_result e t e' \<longleftrightarrow>
     executor_ok e' \<and> target e' = target e \<and>
     axis_config e' = axis_config e \<and> me_now_ns e' = me_now_ns e \<and>
     me_queue_capacity e' = me_queue_capacity e \<and>
     (me_next_available_time_ns e \<le> t \<longrightarrow> me_queue e' = []) \<and>
     me_last_accepted_sequence e' = me_last_accepted_sequence e \<and>
     map ax_config (me_axes e') = map ax_config (me_axes e)"

lemma advance_loop_ok:
  "executor_ok e \<Longrightarrow> me_queue e = qs \<Longrightarrow>
   \<exists>out e'. advance_loop t qs e = (Inr out, e') \<and> loop_result e t e'"
proof (induction qs arbitrary: e)
  case Nil
  then show ?case by (simp add: loop_result_def)
next
  case (Cons q rest)
  note ok = Cons.prems(1) and qe = Cons.prems(2)
  let ?seg = "qs_segment q" and ?e0 = "e\<lparr>me_state := MS_Running\<rparr>"
  have find0: "find_axis r ?e0 = find_axis r e" for r by (simp add: find_axis_def)
  have ix: "axis_index_ok ?e0" and cfg0: "axis_config ?e0 = axis_config e"
    and rdy: "moves_ready ?e0 q" and seg: "segment_ok (axis_config e) q"
    and fault: "me_fault e = MF_None"
    and nat: "me_next_available_time_ns e = segment_end (qs_segment (last (q # rest)))"
    and chain: "chained (q # rest)" and segs: "list_all (segment_ok (axis_config e)) (q # rest)"
    using ok qe by (auto simp: executor_ok_def axis_index_ok_def axis_config_def moves_ready_def find0)
  show ?case
  proof (cases "t < sg_start_time_ns ?seg")
    case True
    have "\<not> me_next_available_time_ns e \<le> t"
    proof -
      have "sg_start_time_ns ?seg \<le> segment_end ?seg"
        using segment_end_unat [OF seg] by (simp add: word_le_nat_alt)
      also have "\<dots> \<le> me_next_available_time_ns e" unfolding nat by (rule chained_ends [OF chain segs])
      finally show ?thesis using True by auto
    qed
    then show ?thesis using True ok by (simp add: loop_result_def)
  next
    case False
    then have started: "sg_start_time_ns ?seg \<le> t" by simp
    from collect_segment_all [OF ix _ rdy started]
    obtain es q' where c: "collect_segment_edges q t ?e0 = (Inr (sort_edges es), q',
          count_edges (length es) (apply_all (sort_edges es) ?e0))"
      "qs_segment q' = ?seg" "segment_ok (axis_config e) q'"
      "moves_ready (apply_all (sort_edges es) ?e0) q'"
      "\<forall>r. position (apply_all (sort_edges es) ?e0) r + remaining r q' = position ?e0 r + remaining r q"
      "segment_end ?seg \<le> t \<longrightarrow> (\<forall>r. remaining r q' = 0)"
      unfolding cfg0 using seg by metis
    define e1 where "e1 = count_edges (length es) (apply_all (sort_edges es) ?e0)"
    define e2 where "e2 = e1\<lparr>me_queue := q' # rest\<rparr>"
    have find2: "find_axis r e2 = find_axis r (apply_all (sort_edges es) ?e0)" for r
      by (simp add: find_axis_def e2_def e1_def count_edges_def)
    have f2: "me_axis_indices e2 = me_axis_indices e" "me_queue_capacity e2 = me_queue_capacity e"
      "me_now_ns e2 = me_now_ns e" "me_fault e2 = MF_None" "me_state e2 = MS_Running"
      "me_next_available_time_ns e2 = me_next_available_time_ns e" "me_queue e2 = q' # rest"
      "me_last_accepted_sequence e2 = me_last_accepted_sequence e"
      "map ax_config (me_axes e2) = map ax_config (me_axes e)"
      by (simp_all add: e2_def e1_def count_edges_def apply_all_def fault comp_def)
    have ix2: "axis_index_ok e2"
      using arg_cong [OF f2(9), of "map cf_resource_id"]
      by (intro axis_index_okI [OF ix]) (simp_all add: f2(1) comp_def)
    have cfg2: "axis_config e2 = axis_config e"
      by (simp add: axis_config_def find2 find_axis_apply_all [OF ix] find0 fun_eq_iff
          option.map_comp comp_def)
    have tim: "list_all axis_timing_ok (map ax_config (me_axes e2))"
      using ok unfolding f2(9) by (simp add: executor_ok_def)
    have pos2: "position e2 r + remaining r q' = position e r + remaining r q" for r
      using c(5) by (simp add: position_def find2 find0)
    have last2: "segment_end (qs_segment (last (q' # rest))) = segment_end (qs_segment (last (q # rest)))"
      using c(2) by (cases rest) simp_all
    have ok2: "executor_ok e2"
    proof -
      have "chained (q' # rest)" using chain c(2) by (cases rest) simp_all
      moreover have "moves_ready e2 q'" using c(4) by (simp add: moves_ready_def find2)
      moreover have "\<forall>p \<in> set rest. list_all fresh_move (qs_moves p)" "length (q # rest) \<le> me_queue_capacity e"
        using ok by (simp_all add: executor_ok_def qe)
      ultimately show ?thesis
        using ix2 tim segs c(3) last2 nat by (simp add: executor_ok_def f2 cfg2)
    qed
    have tgt2: "target e2 = target e"
      using pos2 by (simp add: target_def f2 qe fun_eq_iff flip: add.assoc)
    have run: "collect_segment_edges q t ?e0 = (Inr (sort_edges es), q', e1)" by (simp add: c(1) e1_def)
    have ends: "segment_end ?seg \<le> me_next_available_time_ns e"
      unfolding nat by (rule chained_ends [OF chain segs])
    show ?thesis
    proof (cases "t < segment_end ?seg")
      case True
      then have "advance_loop t (q # rest) e = (Inr (sort_edges es), e2)"
        using started run by (auto simp: e2_def segment_end_def)
      moreover have "loop_result e t e2"
        using ok2 tgt2 cfg2 f2 ends True by (simp add: loop_result_def)
      ultimately show ?thesis by blast
    next
      case False
      then have rem0: "remaining r q' = 0" for r using c(6) by simp
      define e3 where "e3 = complete_segment ?seg rest e2"
      define e3' where "e3' = (if sg_final_segment ?seg then e3 else count_underrun e3)"
      have e3: "me_axes e3 = me_axes e2" "me_axis_indices e3 = me_axis_indices e2" "me_queue e3 = rest"
        "me_queue_capacity e3 = me_queue_capacity e2" "me_fault e3 = me_fault e2"
        "me_state e3 = me_state e2" "me_next_available_time_ns e3 = me_next_available_time_ns e2"
        "me_now_ns e3 = me_now_ns e2" "me_last_accepted_sequence e3 = me_last_accepted_sequence e2"
        by (simp_all add: e3_def complete_segment_def)
      have e3': "me_axes e3' = me_axes e2" "me_axis_indices e3' = me_axis_indices e2"
        "me_queue_capacity e3' = me_queue_capacity e2" "me_now_ns e3' = me_now_ns e2"
        "me_last_accepted_sequence e3' = me_last_accepted_sequence e2"
        by (simp_all add: e3'_def count_underrun_def e3)
      have find3: "find_axis r e3 = find_axis r e2" "find_axis r e3' = find_axis r e2" for r
        by (simp_all add: find_axis_def e3 e3')
      have pos3: "position e3 = position e2" "position e3' = position e2"
        and cfg3: "axis_config e3 = axis_config e2" "axis_config e3' = axis_config e2"
        by (simp_all add: position_def axis_config_def find3 fun_eq_iff)
      have ix3: "axis_index_ok e3" "axis_index_ok e3'"
        using ix2 by (simp_all add: axis_index_ok_def e3 e3')
      have not_before: "\<not> t < sg_start_time_ns ?seg + sg_duration_ns ?seg"
        using False by (simp add: segment_end_def)
      show ?thesis
      proof (cases "rest = []")
        case True
        define f where "f = (if sg_final_segment ?seg then MF_None else MF_QueueUnderrun)"
        obtain sf e4 where s: "safe_stop (segment_end ?seg) f e3' = (Inr (sort_edges sf), e4)" "executor_ok e4"
          "target e4 = position e3'" "axis_config e4 = axis_config e3'" "me_queue e4 = []"
          "me_queue_capacity e4 = me_queue_capacity e3'" "me_now_ns e4 = me_now_ns e3'"
          "me_last_accepted_sequence e4 = me_last_accepted_sequence e3'"
          "map ax_config (me_axes e4) = map ax_config (me_axes e3')"
          by (rule safe_stop_ok [OF ix3(2), of "segment_end ?seg" f]) (use tim e3'(1) in auto)
        have "advance_loop t (q # rest) e = (Inr (sort_edges es @ sort_edges sf), e4)"
          using started run not_before True s(1)
          by (auto simp: e3'_def e3_def e2_def f_def segment_end_def Let_def split: if_splits)
        moreover have "target e4 = target e"
        proof -
          have "target e4 = position e2" using s(3) pos3 by simp
          also have "\<dots> = target e2" by (simp add: target_def [abs_def] f2 rem0 True)
          finally show ?thesis using tgt2 by simp
        qed
        ultimately show ?thesis
          using s f2 cfg3 cfg2 e3' by (auto simp: loop_result_def)
      next
        case False
        note r = executor_ok_rest [OF ok qe False]
        have "executor_ok e3"
        proof -
          have "moves_ready e3 (hd rest)" using r(2) by (rule fresh_ready)
          moreover have "last (q # rest) = last rest" using False by simp
          moreover have "length rest \<le> me_queue_capacity e"
            using ok by (simp add: executor_ok_def qe)
          ultimately show ?thesis
            using False r ix3 tim segs nat
            by (simp add: executor_ok_def e3 f2 cfg3 cfg2)
        qed
        from Cons.IH [OF this e3(3)]
        obtain out e4 where l: "advance_loop t rest e3 = (Inr out, e4)" "loop_result e3 t e4" by blast
        have "advance_loop t (q # rest) e = (Inr (sort_edges es @ out), e4)"
          using started run not_before False r(1) l(1)
          by (auto simp: e3_def e2_def Let_def)
        moreover have "target e3 = target e2"
          by (simp add: target_def [abs_def] pos3 f2 e3 rem0)
        then have "target e3 = target e" using tgt2 by simp
        ultimately show ?thesis
          using l(2) f2 e3 cfg3 cfg2 by (auto simp: loop_result_def)
      qed
    qed
  qed
qed

lemma advance_to_ok:
  assumes ok: "executor_ok e" and t: "me_now_ns e \<le> t"
  shows "\<exists>out e'. advance_to t e = (Inr out, e') \<and> me_now_ns e' = t \<and> executor_ok e' \<and>
    target e' = target e \<and> axis_config e' = axis_config e \<and>
    (me_next_available_time_ns e \<le> t \<longrightarrow> me_queue e' = []) \<and>
    map ax_config (me_axes e') = map ax_config (me_axes e)"
proof -
  obtain out e1 where l: "advance_loop t (me_queue e) e = (Inr out, e1)" and r: "loop_result e t e1"
    using advance_loop_ok [OF ok refl] by blast
  define e2 where "e2 = e1\<lparr>me_now_ns := t\<rparr>"
  define e3 where "e3 = (if me_queue e2 = [] \<and> me_fault e2 = MF_None \<and> me_state e2 \<noteq> MS_Faulted
    then e2\<lparr>me_state := MS_Idle\<rparr> else e2)"
  have f: "me_axes e3 = me_axes e1" "me_axis_indices e3 = me_axis_indices e1" "me_queue e3 = me_queue e1"
    "me_queue_capacity e3 = me_queue_capacity e1" "me_fault e3 = me_fault e1" "me_now_ns e3 = t"
    "me_next_available_time_ns e3 = me_next_available_time_ns e1"
    by (simp_all add: e3_def e2_def)
  have find3: "find_axis r e3 = find_axis r e1" for r by (simp add: find_axis_def f)
  have cfg3: "axis_config e3 = axis_config e1" and pos3: "position e3 = position e1"
    by (simp_all add: axis_config_def position_def find3 fun_eq_iff)
  have ok1: "executor_ok e1" using r by (simp add: loop_result_def)
  have st: "me_state e3 = me_state e1"
    using ok1 by (auto simp: e3_def e2_def executor_ok_def)
  have "executor_ok e3"
    using ok1 unfolding executor_ok_def axis_index_ok_def moves_ready_def all_off_def f st cfg3 find3 .
  moreover have "target e3 = target e1" by (simp add: target_def [abs_def] pos3 f)
  moreover have "advance_to t e = (Inr (sort_edges out), e3)"
    using t l by (auto simp: advance_to_def e3_def e2_def Let_def)
  ultimately show ?thesis using r f cfg3 by (auto simp: loop_result_def)
qed

lemma executor_stop_ok:
  assumes "executor_ok e"
  obtains es e' where "safe_stop t f e = (Inr (sort_edges es), e')" "executor_ok e'"
    "target e' = position e" "axis_config e' = axis_config e" "me_queue e' = []" "me_fault e' = f"
    "me_now_ns e' = me_now_ns e" "all_off e'"
proof -
  have "axis_index_ok e" "list_all axis_timing_ok (map ax_config (me_axes e))"
    using assms unfolding executor_ok_def by blast+
  then show thesis by (rule safe_stop_ok [of e t f]) (rule that)
qed

lemma executor_ok_metrics: "executor_ok (e\<lparr>me_metrics := x\<rparr>) = executor_ok e"
proof -
  have "find_axis r (e\<lparr>me_metrics := x\<rparr>) = find_axis r e" for r by (simp add: find_axis_def)
  then show ?thesis
    by (simp add: executor_ok_def axis_index_ok_def moves_ready_def all_off_def axis_config_def [abs_def])
qed

lemma count_rejection_ok [simp]: "executor_ok (count_rejection e) = executor_ok e"
  by (simp add: count_rejection_def executor_ok_metrics)

lemma abort_ok:
  assumes ok: "executor_ok e"
  shows "case abort t f e of
      (Inl err, e') \<Rightarrow> e' = e
    | (Inr out, e') \<Rightarrow> executor_ok e' \<and> me_queue e' = [] \<and> all_off e' \<and> me_fault e' = f \<and>
        f \<noteq> MF_None \<and> me_state e' = MS_Faulted"
proof (cases "f = MF_None \<or> f = MF_QueueUnderrun \<or> me_fault e \<noteq> MF_None \<or> t < me_now_ns e")
  case True
  then show ?thesis by (auto simp: abort_def advance_to_def)
next
  case False
  have "me_now_ns e \<le> t" using False by (simp add: not_less)
  from advance_to_ok [OF ok this]
  obtain out e1 where a: "advance_to t e = (Inr out, e1)" "executor_ok e1" by blast
  obtain es e2 where s: "safe_stop t f e1 = (Inr (sort_edges es), e2)" "executor_ok e2"
    "me_queue e2 = []" "me_fault e2 = f" "all_off e2"
    by (rule executor_stop_ok [OF a(2), of t f])
  have "me_state e2 = MS_Faulted" using s(2,4) False by (simp add: executor_ok_def)
  then show ?thesis using False a s by (simp add: abort_def)
qed

subsection \<open>Reachable executors\<close>

inductive executor_step :: "motion_executor \<Rightarrow> motion_executor \<Rightarrow> bool" where
  step_enqueue: "enqueue seg t e = (r, e') \<Longrightarrow> executor_step e e'"
| step_advance: "advance_to t e = (r, e') \<Longrightarrow> executor_step e e'"
| step_abort: "abort t f e = (r, e') \<Longrightarrow> executor_step e e'"
| step_limit: "trigger_limit axis t e = (r, e') \<Longrightarrow> executor_step e e'"
| step_clear: "clear_fault e = (r, e') \<Longrightarrow> executor_step e e'"

inductive executor_reachable :: "motion_executor \<Rightarrow> bool" where
  reach_new: "motion_executor_new configs capacity lead = Inr e \<Longrightarrow> executor_reachable e"
| reach_step: "executor_reachable e \<Longrightarrow> executor_step e e' \<Longrightarrow> executor_reachable e'"

lemma add_axes_ok:
  "add_axes configs axes ix = Inr (axes', ix') \<Longrightarrow>
   (\<forall>r i. map_of ix r = Some i \<longleftrightarrow> i < length axes \<and> axis_id (axes ! i) = r) \<Longrightarrow>
   (\<forall>a \<in> set axes. axis_timing_ok (ax_config a) \<and> \<not> ax_enabled a \<and> \<not> ax_step_level a) \<Longrightarrow>
   (\<forall>r i. map_of ix' r = Some i \<longleftrightarrow> i < length axes' \<and> axis_id (axes' ! i) = r) \<and>
   (\<forall>a \<in> set axes'. axis_timing_ok (ax_config a) \<and> \<not> ax_enabled a \<and> \<not> ax_step_level a)"
proof (induction configs arbitrary: axes ix)
  case (Cons c configs)
  let ?ix = "hemplace (cf_resource_id c) (length axes) ix" and ?axes = "axes @ [new_axis c]"
  have new: "map_of ix (cf_resource_id c) = None" "axis_timing_ok c"
    "add_axes configs ?axes ?ix = Inr (axes', ix')"
    using Cons.prems(1) by (auto simp: Let_def axis_timing_ok_def split: if_splits)
  have none: "axis_id (axes ! i) \<noteq> cf_resource_id c" if "i < length axes" for i
    using Cons.prems(2) new(1) that by (metis option.distinct(1))
  have "map_of ?ix r = Some i \<longleftrightarrow> i < length ?axes \<and> axis_id (?axes ! i) = r" for r i
  proof (cases "r = cf_resource_id c")
    case True
    then show ?thesis using none new(1)
      by (auto simp: map_of_hemplace nth_append new_axis_def less_Suc_eq)
  next
    case False
    then show ?thesis using Cons.prems(2) new(1)
      by (auto simp: map_of_hemplace nth_append new_axis_def less_Suc_eq simp del: map_of_eq_Some_iff)
  qed
  moreover have "\<forall>a \<in> set ?axes. axis_timing_ok (ax_config a) \<and> \<not> ax_enabled a \<and> \<not> ax_step_level a"
    using Cons.prems(3) new(2) by (simp add: new_axis_def)
  ultimately show ?case using Cons.IH [OF new(3)] by blast
qed simp

lemma motion_executor_new_ok:
  assumes "motion_executor_new configs capacity lead = Inr e"
  shows "executor_ok e \<and> me_queue e = []"
proof -
  obtain axes ix where a: "add_axes configs [] [] = Inr (axes, ix)" "me_axes e = axes"
    "me_axis_indices e = ix" "me_queue e = []" "me_state e = MS_Idle" "me_fault e = MF_None"
    using assms by (auto simp: motion_executor_new_def try_bind_Inr_iff split: if_splits)
  show ?thesis
    using add_axes_ok [OF a(1)] a
    by (simp add: executor_ok_def axis_index_ok_def all_off_def list_all_iff)
qed

lemma clear_fault_ok: "executor_ok e \<Longrightarrow> executor_ok (snd (clear_fault e))"
  by (auto simp: clear_fault_def executor_ok_def axis_index_ok_def all_off_def)

lemma trigger_limit_ok: "executor_ok e \<Longrightarrow> executor_ok (snd (trigger_limit axis t e))"
proof -
  assume ok: "executor_ok e"
  have "executor_ok (snd (abort t MF_LimitTriggered (e\<lparr>me_metrics := x\<rparr>)))" for x
    using abort_ok [of "e\<lparr>me_metrics := x\<rparr>" MF_LimitTriggered t] ok
    by (auto simp: executor_ok_metrics split: prod.splits sum.splits)
  then show ?thesis using ok by (auto simp: trigger_limit_def split: option.split)
qed

lemma executor_step_ok: "executor_step e e' \<Longrightarrow> executor_ok e \<Longrightarrow> executor_ok e'"
proof (induction rule: executor_step.induct)
  case (step_enqueue seg t e r e')
  then show ?case
    using enqueue_spec [of e seg t] by (auto split: sum.splits)
next
  case (step_advance t e r e')
  then show ?case
  proof (cases "t < me_now_ns e")
    case True
    then show ?thesis using step_advance by (simp add: advance_to_def)
  next
    case False
    then show ?thesis using step_advance advance_to_ok [of e t] by auto
  qed
next
  case (step_abort t f e r e')
  then show ?case using abort_ok [of e f t] by (auto split: sum.splits)
next
  case (step_limit axis t e r e')
  then show ?case using trigger_limit_ok [of e axis t] by simp
next
  case (step_clear e r e')
  then show ?case using clear_fault_ok [of e] by simp
qed

lemma executor_reachable_ok: "executor_reachable e \<Longrightarrow> executor_ok e"
  by (induction rule: executor_reachable.induct)
    (auto dest: motion_executor_new_ok executor_step_ok)

lemma latched_refuses: "me_fault e \<noteq> MF_None \<Longrightarrow> fst (enqueue seg t e) = Inl FaultLatched"
  by (simp add: enqueue_def enqueue_check_def)

lemma clear_fault_idle:
  "me_queue e = [] \<Longrightarrow> \<exists>e'. clear_fault e = (Inr (), e') \<and> me_fault e' = MF_None \<and> me_state e' = MS_Idle"
  by (simp add: clear_fault_def)

subsection \<open>Properties\<close>

text \<open>
  C11. Advancing a reachable executor to a time that is not in the past never fails, loses no step
  and duplicates none: the position every axis will have once the queue is done is unchanged, and
  when the time is at or past the end of the last queued segment the queue is empty and every
  axis stands exactly there.
\<close>

theorem motion_steps_conserved:
  assumes "executor_reachable e" "me_now_ns e \<le> t"
  shows "\<exists>out e'. advance_to t e = (Inr out, e') \<and> me_now_ns e' = t \<and> target e' = target e \<and>
    (me_next_available_time_ns e \<le> t \<longrightarrow> me_queue e' = [] \<and> position e' = target e)"
proof -
  obtain out e' where a: "advance_to t e = (Inr out, e')" "me_now_ns e' = t" "target e' = target e"
    "me_next_available_time_ns e \<le> t \<longrightarrow> me_queue e' = []"
    using advance_to_ok [OF executor_reachable_ok [OF assms(1)] assms(2)] by blast
  have "position e' = target e" if "me_queue e' = []"
    using a(3) that by (simp add: target_def [abs_def])
  then show ?thesis using a by blast
qed

text \<open>
  Enqueueing a segment either fails, and then nothing but the counter of rejected segments
  changes, or it appends one segment whose commanded steps are added to the position every axis
  will reach, without moving any axis yet.
\<close>

theorem enqueue_effect:
  assumes "executor_reachable e"
  shows "case enqueue seg t e of
      (Inl err, e') \<Rightarrow> e' = count_rejection e
    | (Inr seg', e') \<Rightarrow> me_axes e' = me_axes e \<and> length (me_queue e') = Suc (length (me_queue e)) \<and>
        length (me_queue e') \<le> me_queue_capacity e \<and>
        (\<forall>r. target e' r = target e r + commanded r seg)"
proof -
  have ok: "executor_ok e" by (rule executor_reachable_ok [OF assms])
  have "me_axes e' = me_axes e \<and> length (me_queue e') = Suc (length (me_queue e)) \<and>
      me_queue_capacity e' = me_queue_capacity e"
    if r: "enqueue seg t e = (Inr seg', e')" for seg' e'
    using r by (auto simp: enqueue_def Let_def split: sum.splits)
  moreover have "length (me_queue e') \<le> me_queue_capacity e'" if "executor_ok e'" for e'
    using that by (simp add: executor_ok_def)
  ultimately show ?thesis
    using enqueue_spec [OF ok, of seg t] by (cases "enqueue seg t e") (force split: sum.splits)
qed

text \<open>
  On an idle executor an accepted segment moves every axis by exactly the signed number of
  steps it commands once time has passed its end, and leaves the queue empty.
\<close>

theorem commanded_motion_executed:
  assumes e: "executor_reachable e" "me_queue e = []"
    and enq: "enqueue seg t e = (Inr seg', e1)"
    and t': "segment_end seg' \<le> t'" "me_now_ns e \<le> t'"
  shows "\<exists>out e2. advance_to t' e1 = (Inr out, e2) \<and> me_queue e2 = [] \<and>
    (\<forall>r. position e2 r = position e r + commanded r seg)"
proof -
  have ok: "executor_ok e" by (rule executor_reachable_ok [OF e(1)])
  have ok1: "executor_ok e1" and tgt: "\<forall>r. target e1 r = target e r + commanded r seg"
    using enqueue_spec [OF ok, of seg t] enq by auto
  have "me_now_ns e1 \<le> t'" "me_next_available_time_ns e1 \<le> t'"
    using enq t' by (auto simp: enqueue_def Let_def segment_end_def split: sum.splits)
  then obtain out e2 where a: "advance_to t' e1 = (Inr out, e2)" "target e2 = target e1" "me_queue e2 = []"
    using advance_to_ok [OF ok1] by blast
  have "position e2 = target e2" using a(3) by (simp add: target_def [abs_def])
  moreover have "position e = target e" using e(2) by (simp add: target_def [abs_def])
  ultimately show ?thesis using a tgt by auto
qed

text \<open>
  C12. In every reachable state an executor that holds a fault, or has nothing queued, drives no
  output: no axis is enabled and no step line is high; and a fault is latched exactly in the
  faulted state, with the queue emptied.
\<close>

theorem motion_outputs_safe:
  assumes "executor_reachable e" "me_fault e \<noteq> MF_None \<or> me_queue e = []"
  shows "me_queue e = [] \<and> all_off e \<and> (me_fault e \<noteq> MF_None \<longleftrightarrow> me_state e = MS_Faulted)"
  using executor_reachable_ok [OF assms(1)] assms(2) by (auto simp: executor_ok_def split: if_splits)

text \<open>
  Aborting either is refused and changes nothing, or latches the given fault, empties the
  queue, switches every output off and refuses further segments until the fault is cleared.
\<close>

theorem abort_latches:
  assumes "executor_reachable e"
  shows "case abort t f e of
      (Inl err, e') \<Rightarrow> e' = e
    | (Inr out, e') \<Rightarrow> me_fault e' = f \<and> f \<noteq> MF_None \<and> me_queue e' = [] \<and> all_off e' \<and>
        (\<forall>seg t'. fst (enqueue seg t' e') = Inl FaultLatched) \<and>
        (\<exists>e''. clear_fault e' = (Inr (), e'') \<and> me_fault e'' = MF_None \<and> me_state e'' = MS_Idle)"
proof (cases "abort t f e")
  case (Pair r e')
  note a = abort_ok [OF executor_reachable_ok [OF assms], of f t]
  show ?thesis
  proof (cases r)
    case (Inl err)
    then show ?thesis using a Pair by simp
  next
    case (Inr out)
    then have "me_fault e' = f" "f \<noteq> MF_None" "me_queue e' = []" "all_off e'"
      using a Pair by auto
    then show ?thesis using Pair Inr latched_refuses clear_fault_idle by simp
  qed
qed

subsection \<open>A concrete executor\<close>

definition demo_axis :: motion_axis_config where
  "demo_axis = \<lparr>cf_resource_id = 7, cf_maximum_step_rate_hz = 1000000, cf_step_pulse_width_ns = 100,
     cf_minimum_step_low_ns = 100, cf_direction_setup_ns = 50\<rparr>"

definition demo_segment :: "u32 \<Rightarrow> i32 \<Rightarrow> motion_segment" where
  "demo_segment n steps = \<lparr>sg_sequence = n, sg_start_time_ns = 1000, sg_duration_ns = 10000,
     sg_final_segment = False, sg_axes = [\<lparr>mo_resource_id = 7, mo_steps = steps\<rparr>]\<rparr>"

definition demo_idle :: motion_executor where
  "demo_idle = \<lparr>me_axis_configs = [demo_axis], me_axes = [new_axis demo_axis], me_axis_indices = [(7, 0)],
     me_queue = [], me_queue_capacity = 4, me_minimum_lead_time_ns = 100,
     me_now_ns = 0, me_next_available_time_ns = 0, me_last_accepted_sequence = 0,
     me_last_completed_sequence = 0, me_state = MS_Idle, me_fault = MF_None,
     me_metrics = \<lparr>mm_accepted_segments = 0, mm_rejected_segments = 0,
       mm_completed_segments = 0, mm_emitted_edges = 0, mm_emitted_steps = 0,
       mm_safety_stops = 0, mm_limit_stops = 0, mm_queue_underruns = 0, mm_maximum_queue_depth = 0\<rparr>\<rparr>"

lemma demo_reachable: "executor_reachable demo_idle"
proof (rule reach_new)
  show "motion_executor_new [demo_axis] 4 100 = Inr demo_idle"
    by (simp add: motion_executor_new_def demo_axis_def demo_idle_def new_axis_def hemplace_def
        kMaximumMotionAxes_def)
qed

definition demo_running :: motion_executor where
  "demo_running = snd (enqueue (demo_segment 1 (- 3)) 10 demo_idle)"

lemma demo_enqueue: "enqueue (demo_segment 1 (- 3)) 10 demo_idle = (Inr (demo_segment 1 (- 3)), demo_running)"
proof -
  have "fst (enqueue (demo_segment 1 (- 3)) 10 demo_idle) = Inr (demo_segment 1 (- 3))" by code_simp
  then show ?thesis by (simp add: demo_running_def prod_eq_iff)
qed

lemma demo_running_reachable: "executor_reachable demo_running"
  using reach_step [OF demo_reachable] step_enqueue [OF demo_enqueue] by blast

lemma motion_steps_conserved_witness:
  "\<exists>out e'. advance_to 5000 demo_running = (Inr out, e') \<and> me_now_ns e' = 5000 \<and>
     target e' = target demo_running \<and>
    (me_next_available_time_ns demo_running \<le> 5000 \<longrightarrow> me_queue e' = [] \<and> position e' = target demo_running)"
proof (rule motion_steps_conserved [OF demo_running_reachable])
  show "me_now_ns demo_running \<le> 5000" by code_simp
qed

lemma enqueue_effect_witness:
  "case enqueue (demo_segment 1 5) 10 demo_idle of
      (Inl err, e') \<Rightarrow> e' = count_rejection demo_idle
    | (Inr seg', e') \<Rightarrow> me_axes e' = me_axes demo_idle \<and>
        length (me_queue e') = Suc (length (me_queue demo_idle)) \<and>
        length (me_queue e') \<le> me_queue_capacity demo_idle \<and>
        (\<forall>r. target e' r = target demo_idle r + commanded r (demo_segment 1 5))"
  by (rule enqueue_effect [OF demo_reachable])

lemma commanded_motion_executed_witness:
  "\<exists>out e2. advance_to 20000 demo_running = (Inr out, e2) \<and> me_queue e2 = [] \<and>
    (\<forall>r. position e2 r = position demo_idle r + commanded r (demo_segment 1 (- 3)))"
  by (rule commanded_motion_executed [OF demo_reachable _ demo_enqueue]) code_simp+

lemma motion_outputs_safe_witness:
  "me_queue demo_idle = [] \<and> all_off demo_idle \<and> (me_fault demo_idle \<noteq> MF_None \<longleftrightarrow> me_state demo_idle = MS_Faulted)"
proof (rule motion_outputs_safe [OF demo_reachable])
  show "me_fault demo_idle \<noteq> MF_None \<or> me_queue demo_idle = []" by (simp add: demo_idle_def)
qed

lemma abort_latches_witness:
  "case abort 5000 MF_Aborted demo_running of
      (Inl err, e') \<Rightarrow> e' = demo_running
    | (Inr out, e') \<Rightarrow> me_fault e' = MF_Aborted \<and> MF_Aborted \<noteq> MF_None \<and> me_queue e' = [] \<and> all_off e' \<and>
        (\<forall>seg t'. fst (enqueue seg t' e') = Inl FaultLatched) \<and>
        (\<exists>e''. clear_fault e' = (Inr (), e'') \<and> me_fault e'' = MF_None \<and> me_state e'' = MS_Idle)"
  by (rule abort_latches [OF demo_running_reachable])

subsection \<open>Findings\<close>

text \<open>
  The check of \<^verbatim>\<open>enqueue\<close> divides the whole time after the direction setup by the step period,
  while the rising edges only span that time less one pulse: with a setup of 13 ns, a pulse of
  10 ns, a low time of 2 ns and two steps in 25 ns, the segment is accepted and the second rising
  edge comes before the first falling edge.
\<close>

lemma accepted_pulses_overlap:
  "(case motion_executor_new
       [\<lparr>cf_resource_id = 7, cf_maximum_step_rate_hz = 80000000, cf_step_pulse_width_ns = 10,
         cf_minimum_step_low_ns = 2, cf_direction_setup_ns = 13\<rparr>] 4 100 of
     Inl _ \<Rightarrow> False
   | Inr e \<Rightarrow> (case enqueue \<lparr>sg_sequence = 1, sg_start_time_ns = 1000, sg_duration_ns = 25,
         sg_final_segment = True, sg_axes = [\<lparr>mo_resource_id = 7, mo_steps = 2\<rparr>]\<rparr> 0 e of
       (Inl _, _) \<Rightarrow> False
     | (Inr _, e1) \<Rightarrow> (case advance_to 2000 e1 of
         (Inl _, _) \<Rightarrow> False
       | (Inr out, _) \<Rightarrow>
           map (\<lambda>x. (ed_global_time_ns x, ed_level x)) (filter (\<lambda>x. ed_signal x = Step) out) =
             [(1013, True), (1015, True), (1023, False), (1025, False)])))"
  by code_simp

text \<open>
  \<^verbatim>\<open>abort\<close> checks for a latched fault before it advances time: when advancing runs into an
  underrun, the abort overwrites that fault and counts a second safety stop.
\<close>

lemma abort_overwrites_underrun:
  "(case advance_to 20000 demo_running of (_, e1) \<Rightarrow>
      me_fault e1 = MF_QueueUnderrun \<and> mm_safety_stops (me_metrics e1) = 1) \<and>
   (case abort 20000 MF_Aborted demo_running of (_, e1) \<Rightarrow>
      me_fault e1 = MF_Aborted \<and> mm_safety_stops (me_metrics e1) = 2)"
  by code_simp

end
