(* ===== verification/Core_Leases.thy ===== *)
theory Core_Leases
  imports Remote_Core Motion_Queue
begin

text \<open>
  What releasing, expiring and acquiring leases do to a remote core: closed forms of the nested
  release loops, the invariant of leases and objects, and its preservation by every operation.
\<close>

subsection \<open>Releasing objects\<close>

lemma stop_motion_fields [simp]:
  "co_node_info (stop_motion r c) = co_node_info c"
  "co_capabilities (stop_motion r c) = co_capabilities c"
  "co_gpio_bsp (stop_motion r c) = co_gpio_bsp c"
  "co_uart_bsp (stop_motion r c) = co_uart_bsp c"
  "co_resources (stop_motion r c) = co_resources c"
  "co_contracts (stop_motion r c) = co_contracts c"
  "co_leases (stop_motion r c) = co_leases c"
  "co_gpio_objects (stop_motion r c) = co_gpio_objects c"
  "co_uart_objects (stop_motion r c) = co_uart_objects c"
  "co_next_object_id (stop_motion r c) = co_next_object_id c"
  "co_next_lease_id (stop_motion r c) = co_next_lease_id c"
  by (simp_all add: stop_motion_def split: option.split)

definition gpio_owned :: "u32 \<Rightarrow> u32 \<Rightarrow> gpio_object \<Rightarrow> bool" where
  "gpio_owned r s obj \<longleftrightarrow> go_resource_id obj = r \<and> go_owner_session_id obj = s"

definition uart_owned :: "u32 \<Rightarrow> u32 \<Rightarrow> uart_object \<Rightarrow> bool" where
  "uart_owned r s obj \<longleftrightarrow> uo_resource_id obj = r \<and> uo_owner_session_id obj = s"

lemma release_gpio_kept:
  "fst (release_gpio r s objs bsp) = filter (\<lambda>e. \<not> gpio_owned r s (snd e)) objs"
  by (induction r s objs bsp rule: release_gpio.induct) (auto simp: gpio_owned_def split_beta)

lemma release_uart_kept:
  "fst (release_uart r s objs bsp) = filter (\<lambda>e. \<not> uart_owned r s (snd e)) objs"
  by (induction r s objs bsp rule: release_uart.induct) (auto simp: uart_owned_def split_beta)

lemma release_gpio_None [simp]: "snd (release_gpio r s objs None) = None"
  by (induction objs) (auto simp: split_beta)

lemma release_uart_None_iff [simp]: "snd (release_uart r s objs bsp) = None \<longleftrightarrow> bsp = None"
  by (induction r s objs bsp rule: release_uart.induct) (auto simp: split_beta)

text \<open>Releasing drives the released outputs low and leaves every other output alone.\<close>

lemma release_gpio_Some:
  "\<exists>b'. snd (release_gpio r s objs (Some b)) = Some b' \<and>
     (\<forall>pin. map_option pin_direction (map_of (gb_pins b') pin) =
            map_option pin_direction (map_of (gb_pins b) pin)) \<and>
     (\<forall>pin. output_level b' pin =
        (if output_level b pin \<noteq> None \<and>
            (\<exists>e \<in> set objs. gpio_owned r s (snd e) \<and> go_direction (snd e) = GD_Output \<and> go_pin (snd e) = pin)
         then Some False else output_level b pin))"
proof (induction objs arbitrary: b)
  case Nil
  then show ?case by simp
next
  case (Cons e objs)
  obtain k obj where e: "e = (k, obj)" by (cases e)
  show ?case
  proof (cases "gpio_owned r s obj \<and> go_direction obj = GD_Output")
    case True
    define b1 where "b1 = snd (gpio_write (go_pin obj) False b)"
    have dirs: "map_option pin_direction (map_of (gb_pins b1) pin) = map_option pin_direction (map_of (gb_pins b) pin)" for pin
      by (auto simp: b1_def gpio_write_def split: option.split)
    have level: "output_level b1 pin =
        (if output_level b pin \<noteq> None \<and> pin = go_pin obj then Some False else output_level b pin)" for pin
      using mock_gpio.write_output [of b "go_pin obj" _ False] mock_gpio.write_rejected [of b "go_pin obj" False]
      by (cases "output_level b (go_pin obj)") (auto simp: b1_def)
    have "snd (release_gpio r s (e # objs) (Some b)) = snd (release_gpio r s objs (Some b1))"
      using True by (simp add: e gpio_owned_def b1_def)
    then show ?thesis using Cons.IH [of b1] dirs level True
      by (auto simp: e)
  next
    case False
    then have "snd (release_gpio r s (e # objs) (Some b)) = snd (release_gpio r s objs (Some b))"
      by (auto simp: e gpio_owned_def split_beta)
    then show ?thesis using Cons.IH [of b] False by (auto simp: e)
  qed
qed

lemma release_fields [simp]:
  "co_node_info (release_resource_objects r s c) = co_node_info c"
  "co_capabilities (release_resource_objects r s c) = co_capabilities c"
  "co_resources (release_resource_objects r s c) = co_resources c"
  "co_contracts (release_resource_objects r s c) = co_contracts c"
  "co_leases (release_resource_objects r s c) = co_leases c"
  "co_next_object_id (release_resource_objects r s c) = co_next_object_id c"
  "co_next_lease_id (release_resource_objects r s c) = co_next_lease_id c"
  "co_gpio_objects (release_resource_objects r s c) =
     filter (\<lambda>e. \<not> gpio_owned r s (snd e)) (co_gpio_objects c)"
  "co_uart_objects (release_resource_objects r s c) =
     filter (\<lambda>e. \<not> uart_owned r s (snd e)) (co_uart_objects c)"
  "co_gpio_bsp (release_resource_objects r s c) = snd (release_gpio r s (co_gpio_objects c) (co_gpio_bsp c))"
  "co_uart_bsp (release_resource_objects r s c) = snd (release_uart r s (co_uart_objects c) (co_uart_bsp c))"
  "co_motion (release_resource_objects r s c) = co_motion (stop_motion r c)"
  by (simp_all add: release_resource_objects_def Let_def split_beta release_gpio_kept release_uart_kept)

subsection \<open>Purging leases\<close>

definition release_all :: "(u32 \<times> u32) list \<Rightarrow> remote_core \<Rightarrow> remote_core" where
  "release_all rs c = fold (\<lambda>(r, s). release_resource_objects r s) rs c"

lemma release_all_simps [simp]:
  "release_all [] c = c"
  "release_all (p # rs) c = release_all rs (release_resource_objects (fst p) (snd p) c)"
  "release_all (rs @ rs') c = release_all rs' (release_all rs c)"
  by (simp_all add: release_all_def split_beta)

lemma release_all_fields [simp]:
  "co_node_info (release_all rs c) = co_node_info c"
  "co_capabilities (release_all rs c) = co_capabilities c"
  "co_resources (release_all rs c) = co_resources c"
  "co_contracts (release_all rs c) = co_contracts c"
  "co_leases (release_all rs c) = co_leases c"
  "co_next_object_id (release_all rs c) = co_next_object_id c"
  "co_next_lease_id (release_all rs c) = co_next_lease_id c"
  by (induction rs arbitrary: c) simp_all

lemma release_all_objects:
  "co_gpio_objects (release_all rs c) =
     filter (\<lambda>e. (go_resource_id (snd e), go_owner_session_id (snd e)) \<notin> set rs) (co_gpio_objects c)"
  "co_uart_objects (release_all rs c) =
     filter (\<lambda>e. (uo_resource_id (snd e), uo_owner_session_id (snd e)) \<notin> set rs) (co_uart_objects c)"
  by (induction rs arbitrary: c) (auto simp: gpio_owned_def uart_owned_def intro!: filter_cong)

lemma purge_entries_eq:
  "purge_entries gone r es c =
     (filter (\<lambda>l. \<not> gone l) es, length (filter gone es),
      release_all (map (\<lambda>l. (r, le_owner_session_id l)) (filter gone es)) c)"
  by (induction gone r es c rule: purge_entries.induct) simp_all

text \<open>The owners whose objects a purge releases, and the leases it keeps.\<close>

definition purged :: "(lease \<Rightarrow> bool) \<Rightarrow> (u32, lease list) hmap \<Rightarrow> (u32 \<times> u32) list" where
  "purged gone m = concat (map (\<lambda>(r, es). map (\<lambda>l. (r, le_owner_session_id l)) (filter gone es)) m)"

definition kept_leases :: "(lease \<Rightarrow> bool) \<Rightarrow> (u32, lease list) hmap \<Rightarrow> (u32, lease list) hmap" where
  "kept_leases gone m =
     hmap_keep (\<lambda>es. if filter (\<lambda>l. \<not> gone l) es = [] then None else Some (filter (\<lambda>l. \<not> gone l) es)) m"

definition purge_count :: "(lease \<Rightarrow> bool) \<Rightarrow> (u32, lease list) hmap \<Rightarrow> nat" where
  "purge_count gone m = sum_list (map (\<lambda>e. length (filter gone (snd e))) m)"

lemma purge_map_eq:
  "purge_map gone m c = (kept_leases gone m, purge_count gone m, release_all (purged gone m) c)"
proof (induction m arbitrary: c)
  case Nil
  then show ?case by (simp add: kept_leases_def purge_count_def purged_def)
next
  case (Cons e m)
  then show ?case
    by (cases e) (simp add: purge_entries_eq kept_leases_def purge_count_def purged_def)
qed

lemma purge_leases_eq:
  "purge_leases gone c =
     (purge_count gone (co_leases c),
      (release_all (purged gone (co_leases c)) c)\<lparr>co_leases := kept_leases gone (co_leases c)\<rparr>)"
  by (simp add: purge_leases_def purge_map_eq)

lemma kept_leases_lookup:
  "hmap_ok m \<Longrightarrow> map_of (kept_leases gone m) r =
     (case map_of m r of None \<Rightarrow> None
      | Some es \<Rightarrow> if filter (\<lambda>l. \<not> gone l) es = [] then None else Some (filter (\<lambda>l. \<not> gone l) es))"
  by (simp add: kept_leases_def map_of_hmap_keep del: map_of_eq_Some_iff)

lemma purged_iff:
  assumes "hmap_ok m"
  shows "(r, s) \<in> set (purged gone m) \<longleftrightarrow>
     (\<exists>es l. map_of m r = Some es \<and> l \<in> set es \<and> gone l \<and> le_owner_session_id l = s)"
proof -
  have "(r, s) \<in> set (purged gone m) \<longleftrightarrow>
     (\<exists>es l. (r, es) \<in> set m \<and> l \<in> set es \<and> gone l \<and> le_owner_session_id l = s)"
    unfolding purged_def by (induction m) (auto simp del: map_of_eq_Some_iff)
  then show ?thesis unfolding set_hmap_iff [OF assms] .
qed

lemma expire_leases_eq:
  "snd (expire_leases now c) =
     (release_all (purged (\<lambda>l. le_expires_at l \<le> now) (co_leases c)) c)
       \<lparr>co_leases := kept_leases (\<lambda>l. le_expires_at l \<le> now) (co_leases c)\<rparr>"
  by (simp add: expire_leases_def purge_leases_eq not_less)

subsection \<open>The invariant\<close>

definition entries_ok :: "lease list \<Rightarrow> bool" where
  "entries_ok es \<longleftrightarrow>
     es \<noteq> [] \<and> distinct (map le_owner_session_id es) \<and>
     (\<forall>l \<in> set es. valid_lease_mode (le_mode l) False \<and> le_owner_session_id l \<noteq> 0 \<and> le_lease_id l \<noteq> 0) \<and>
     ((\<exists>l \<in> set es. le_mode l = lease_mode_code LM_Exclusive) \<longrightarrow> length es = 1)"

definition exclusive :: "(u32, lease list) hmap \<Rightarrow> u32 \<Rightarrow> u32 \<Rightarrow> bool" where
  "exclusive leases r s \<longleftrightarrow> (\<exists>es l. map_of leases r = Some es \<and> l \<in> set es \<and>
     le_owner_session_id l = s \<and> le_mode l = lease_mode_code LM_Exclusive)"

text \<open>
  An object of a resource either belongs to the session with the exclusive lease, or to nobody
  while the resource is not leased at all.
\<close>

definition holder_ok :: "(u32, lease list) hmap \<Rightarrow> u32 \<times> u32 \<Rightarrow> bool" where
  "holder_ok leases p \<longleftrightarrow>
     (snd p \<noteq> 0 \<longrightarrow> exclusive leases (fst p) (snd p)) \<and> (map_of leases (fst p) \<noteq> None \<longrightarrow> snd p \<noteq> 0)"

definition gpio_holder :: "gpio_object \<Rightarrow> u32 \<times> u32" where
  "gpio_holder obj = (go_resource_id obj, go_owner_session_id obj)"

definition uart_holder :: "uart_object \<Rightarrow> u32 \<times> u32" where
  "uart_holder obj = (uo_resource_id obj, uo_owner_session_id obj)"

definition ids_ok :: "u32 \<Rightarrow> u32 list \<Rightarrow> bool" where
  "ids_ok next_id ks \<longleftrightarrow> distinct ks \<and> (\<forall>k \<in> set ks. k \<noteq> 0 \<and> (next_id = 0 \<or> k < next_id))"

definition pins_ok :: "gpio_object list \<Rightarrow> mock_gpio_bsp option \<Rightarrow> bool" where
  "pins_ok objs bsp \<longleftrightarrow> distinct (map go_pin objs) \<and>
     (\<forall>obj \<in> set objs. \<exists>b. bsp = Some b \<and>
        map_option pin_direction (map_of (gb_pins b) (go_pin obj)) = Some (go_direction obj))"

definition core_ok :: "remote_core \<Rightarrow> bool" where
  "core_ok c \<longleftrightarrow>
     (\<forall>d \<in> set (co_resources c). rd_resource_id d \<noteq> 0) \<and>
     (\<forall>k \<in> set (co_contracts c). rc_version k = kResourceContractVersion) \<and>
     hmap_ok (co_leases c) \<and> co_next_lease_id c \<noteq> 0 \<and>
     (\<forall>r es. map_of (co_leases c) r = Some es \<longrightarrow> entries_ok es \<and> r \<noteq> 0) \<and>
     ids_ok (co_next_object_id c) (hkeys (co_gpio_objects c) @ hkeys (co_uart_objects c)) \<and>
     pins_ok (map snd (co_gpio_objects c)) (co_gpio_bsp c) \<and>
     distinct (map (\<lambda>e. uo_port (snd e)) (co_uart_objects c)) \<and>
     (\<forall>e \<in> set (co_gpio_objects c). holder_ok (co_leases c) (gpio_holder (snd e))) \<and>
     (\<forall>e \<in> set (co_uart_objects c). holder_ok (co_leases c) (uart_holder (snd e))) \<and>
     (\<forall>m. co_motion c = Some m \<longrightarrow> executor_reachable m)"

lemma core_okD:
  assumes "core_ok c"
  shows "\<And>d. d \<in> set (co_resources c) \<Longrightarrow> rd_resource_id d \<noteq> 0"
    and "\<And>k. k \<in> set (co_contracts c) \<Longrightarrow> rc_version k = kResourceContractVersion"
    and "hmap_ok (co_leases c)" and "co_next_lease_id c \<noteq> 0"
    and "\<And>r es. map_of (co_leases c) r = Some es \<Longrightarrow> entries_ok es \<and> r \<noteq> 0"
    and "ids_ok (co_next_object_id c) (hkeys (co_gpio_objects c) @ hkeys (co_uart_objects c))"
    and "pins_ok (map snd (co_gpio_objects c)) (co_gpio_bsp c)"
    and "distinct (map (\<lambda>e. uo_port (snd e)) (co_uart_objects c))"
    and "\<And>e. e \<in> set (co_gpio_objects c) \<Longrightarrow> holder_ok (co_leases c) (gpio_holder (snd e))"
    and "\<And>e. e \<in> set (co_uart_objects c) \<Longrightarrow> holder_ok (co_leases c) (uart_holder (snd e))"
    and "\<And>m. co_motion c = Some m \<Longrightarrow> executor_reachable m"
  using assms unfolding core_ok_def by blast+

lemma core_okI:
  assumes "\<And>d. d \<in> set (co_resources c) \<Longrightarrow> rd_resource_id d \<noteq> 0"
    and "\<And>k. k \<in> set (co_contracts c) \<Longrightarrow> rc_version k = kResourceContractVersion"
    and "hmap_ok (co_leases c)" and "co_next_lease_id c \<noteq> 0"
    and "\<And>r es. map_of (co_leases c) r = Some es \<Longrightarrow> entries_ok es \<and> r \<noteq> 0"
    and "ids_ok (co_next_object_id c) (hkeys (co_gpio_objects c) @ hkeys (co_uart_objects c))"
    and "pins_ok (map snd (co_gpio_objects c)) (co_gpio_bsp c)"
    and "distinct (map (\<lambda>e. uo_port (snd e)) (co_uart_objects c))"
    and "\<And>e. e \<in> set (co_gpio_objects c) \<Longrightarrow> holder_ok (co_leases c) (gpio_holder (snd e))"
    and "\<And>e. e \<in> set (co_uart_objects c) \<Longrightarrow> holder_ok (co_leases c) (uart_holder (snd e))"
    and "\<And>m. co_motion c = Some m \<Longrightarrow> executor_reachable m"
  shows "core_ok c"
  using assms unfolding core_ok_def by blast

lemma exclusive_iff: "session_has_exclusive_lease r s c \<longleftrightarrow> exclusive (co_leases c) r s"
  by (auto simp: session_has_exclusive_lease_def exclusive_def list_ex_iff
      simp del: map_of_eq_Some_iff split: option.split)

lemma has_objects_iff:
  "resource_has_objects r c \<longleftrightarrow>
     (\<exists>e \<in> set (co_gpio_objects c). fst (gpio_holder (snd e)) = r) \<or>
     (\<exists>e \<in> set (co_uart_objects c). fst (uart_holder (snd e)) = r)"
  by (auto simp: resource_has_objects_def list_ex_iff gpio_holder_def uart_holder_def)

lemma core_ok_fields [simp]:
  "core_ok (c\<lparr>co_uart_bsp := u\<rparr>) = core_ok c"
  "core_ok (c\<lparr>co_bootloader_requested := f\<rparr>) = core_ok c"
  by (simp_all add: core_ok_def)

lemma core_ok_motion: "core_ok c \<Longrightarrow> executor_reachable m \<Longrightarrow> core_ok (c\<lparr>co_motion := Some m\<rparr>)"
  by (simp add: core_ok_def)

lemma core_ok_gpio:
  "core_ok c \<Longrightarrow> co_gpio_bsp c = Some b \<Longrightarrow>
   (\<And>pin. map_option pin_direction (map_of (gb_pins b') pin) = map_option pin_direction (map_of (gb_pins b) pin)) \<Longrightarrow>
   core_ok (c\<lparr>co_gpio_bsp := Some b'\<rparr>)"
  by (simp add: core_ok_def pins_ok_def del: map_option_eq_Some)

lemma gpio_read_dirs:
  "map_option pin_direction (map_of (gb_pins (snd (gpio_read p b))) pin) =
     map_option pin_direction (map_of (gb_pins b) pin)"
  by (auto simp: gpio_read_def split: option.split)

lemma gpio_write_dirs:
  "map_option pin_direction (map_of (gb_pins (snd (gpio_write p v b))) pin) =
     map_option pin_direction (map_of (gb_pins b) pin)"
  by (auto simp: gpio_write_def split: option.split)

lemma executor_reachable_abort: "executor_reachable m \<Longrightarrow> executor_reachable (snd (abort t f m))"
  by (metis prod.collapse reach_step step_abort)

lemma executor_reachable_clear: "executor_reachable m \<Longrightarrow> executor_reachable (snd (clear_fault m))"
  by (metis prod.collapse reach_step step_clear)

lemma executor_reachable_enqueue: "executor_reachable m \<Longrightarrow> executor_reachable (snd (enqueue seg t m))"
  by (metis prod.collapse reach_step step_enqueue)

subsection \<open>Purging keeps the invariant\<close>

lemma ids_ok_subseq: "ids_ok n ks \<Longrightarrow> set ks' \<subseteq> set ks \<Longrightarrow> distinct ks' \<Longrightarrow> ids_ok n ks'"
  by (auto simp: ids_ok_def)

lemma pins_ok_release:
  assumes "pins_ok (map snd objs) bsp"
  shows "pins_ok (map snd (filter P objs)) (snd (release_gpio r s objs' bsp))"
proof -
  have d: "distinct (map go_pin (map snd (filter P objs)))"
    using assms distinct_map_filter [of "\<lambda>e. go_pin (snd e)" objs P] by (simp add: pins_ok_def comp_def)
  show ?thesis
  proof (cases bsp)
    case None
    then have "objs = []" using assms by (cases objs) (auto simp: pins_ok_def)
    then show ?thesis by (simp add: pins_ok_def)
  next
    case (Some b)
    obtain b' where "snd (release_gpio r s objs' (Some b)) = Some b'"
      "\<And>pin. map_option pin_direction (map_of (gb_pins b') pin) =
            map_option pin_direction (map_of (gb_pins b) pin)"
      using release_gpio_Some [of r s objs' b] by blast
    then show ?thesis using assms d Some by (auto simp: pins_ok_def simp del: map_option_eq_Some)
  qed
qed

lemma release_all_pins:
  "pins_ok (map snd (co_gpio_objects c)) (co_gpio_bsp c) \<Longrightarrow>
   pins_ok (map snd (co_gpio_objects (release_all rs c))) (co_gpio_bsp (release_all rs c))"
proof (induction rs arbitrary: c)
  case (Cons p rs)
  show ?case using Cons.prems by (simp add: Cons.IH pins_ok_release)
qed simp

lemma release_all_motion:
  "(\<And>m. co_motion c = Some m \<Longrightarrow> executor_reachable m) \<Longrightarrow>
   co_motion (release_all rs c) = Some m \<Longrightarrow> executor_reachable m"
proof (induction rs arbitrary: c)
  case (Cons p rs)
  have "executor_reachable m'" if "co_motion (release_resource_objects (fst p) (snd p) c) = Some m'" for m'
    using that Cons.prems(1)
    by (auto simp: stop_motion_def executor_reachable_abort split: option.splits if_splits)
  then show ?case using Cons.IH [of "release_resource_objects (fst p) (snd p) c"] Cons.prems(2)
    by (simp del: release_fields)
qed simp

lemma entries_ok_filter:
  "entries_ok es \<Longrightarrow> filter P es \<noteq> [] \<Longrightarrow> entries_ok (filter P es)"
proof -
  assume a: "entries_ok es" "filter P es \<noteq> []"
  have "length (filter P es) = 1" if "length es = 1"
    using a(2) that length_filter_le [of P es] by (cases "filter P es") auto
  then show ?thesis using a by (auto simp: entries_ok_def intro: distinct_map_filter)
qed

lemma holder_kept:
  assumes m: "hmap_ok m" and h: "holder_ok m p" and p: "p \<notin> set (purged gone m)"
  shows "holder_ok (kept_leases gone m) p"
proof -
  have "exclusive (kept_leases gone m) (fst p) (snd p)" if s: "snd p \<noteq> 0"
  proof -
    obtain es l where l: "map_of m (fst p) = Some es" "l \<in> set es" "le_owner_session_id l = snd p"
      "le_mode l = lease_mode_code LM_Exclusive"
      using h s unfolding holder_ok_def exclusive_def by blast
    have "\<not> gone l" using p purged_iff [OF m, of "fst p" "snd p" gone] l by auto
    then have "map_of (kept_leases gone m) (fst p) = Some (filter (\<lambda>l. \<not> gone l) es)"
      using l(1,2) kept_leases_lookup [OF m, of gone "fst p"]
      by (auto simp: filter_empty_conv simp del: map_of_eq_Some_iff)
    then show ?thesis using l \<open>\<not> gone l\<close> unfolding exclusive_def
      by (intro exI conjI) (assumption | simp)+
  qed
  moreover have "snd p \<noteq> 0" if "map_of (kept_leases gone m) (fst p) \<noteq> None"
    using h that kept_leases_lookup [OF m, of gone "fst p"]
    by (auto simp: holder_ok_def simp del: map_of_eq_Some_iff split: option.splits)
  ultimately show ?thesis by (simp add: holder_ok_def)
qed

lemma purge_ok:
  assumes "core_ok c"
  shows "core_ok ((release_all (purged gone (co_leases c)) c)\<lparr>co_leases := kept_leases gone (co_leases c)\<rparr>)"
    (is "core_ok ?c'")
proof (rule core_okI)
  let ?m = "co_leases c" and ?c = "release_all (purged gone (co_leases c)) c"
  note ok = core_okD [OF assms]
  show "rd_resource_id d \<noteq> 0" if "d \<in> set (co_resources ?c')" for d using that ok(1) by simp
  show "rc_version k = kResourceContractVersion" if "k \<in> set (co_contracts ?c')" for k
    using that ok(2) by simp
  show "hmap_ok (co_leases ?c')" using ok(3) by (simp add: kept_leases_def)
  show "co_next_lease_id ?c' \<noteq> 0" using ok(4) by simp
  show "entries_ok es \<and> r \<noteq> 0" if "map_of (co_leases ?c') r = Some es" for r es
  proof (cases "map_of ?m r")
    case None
    then show ?thesis using that kept_leases_lookup [OF ok(3), of gone r] by simp
  next
    case (Some es0)
    then show ?thesis
      using that kept_leases_lookup [OF ok(3), of gone r] ok(5) [OF Some] entries_ok_filter [of es0]
      by (auto simp del: map_of_eq_Some_iff split: if_splits)
  qed
  have "distinct (hkeys (co_gpio_objects ?c) @ hkeys (co_uart_objects ?c))"
    using ok(6) by (auto simp: ids_ok_def release_all_objects distinct_map_filter)
  then show "ids_ok (co_next_object_id ?c') (hkeys (co_gpio_objects ?c') @ hkeys (co_uart_objects ?c'))"
    using ids_ok_subseq [OF ok(6), of "hkeys (co_gpio_objects ?c) @ hkeys (co_uart_objects ?c)"]
    by (auto simp: release_all_objects)
  show "pins_ok (map snd (co_gpio_objects ?c')) (co_gpio_bsp ?c')"
    using release_all_pins [OF ok(7)] by simp
  show "distinct (map (\<lambda>e. uo_port (snd e)) (co_uart_objects ?c'))"
    using ok(8) by (simp add: release_all_objects distinct_map_filter)
  show "holder_ok (co_leases ?c') (gpio_holder (snd e))" if "e \<in> set (co_gpio_objects ?c')" for e
    using that ok(9) holder_kept [OF ok(3), of "gpio_holder (snd e)" gone]
    by (simp add: release_all_objects gpio_holder_def)
  show "holder_ok (co_leases ?c') (uart_holder (snd e))" if "e \<in> set (co_uart_objects ?c')" for e
    using that ok(10) holder_kept [OF ok(3), of "uart_holder (snd e)" gone]
    by (simp add: release_all_objects uart_holder_def)
  show "executor_reachable m" if "co_motion ?c' = Some m" for m
    using release_all_motion [of c "purged gone ?m" m] ok(11) that by simp
qed

end
