(* ===== verification/Motion_Shape.thy ===== *)
theory Motion_Shape
  imports Motion_Queue
begin

text \<open>
  What no operation of the executor changes: the configuration of its axes and its capacity; and
  the bound on the recorded maximum queue depth. The status report relies on these.
\<close>

definition executor_static :: "motion_executor \<Rightarrow> motion_axis_config list \<times> nat \<times> nat" where
  "executor_static e =
     (map ax_config (me_axes e), me_queue_capacity e, mm_maximum_queue_depth (me_metrics e))"

lemma executor_static_simps [simp]:
  "executor_static (count_rejection e) = executor_static e"
  "executor_static (count_edges n e) = executor_static e"
  "executor_static (count_step x e) = executor_static e"
  "executor_static (count_underrun e) = executor_static e"
  "executor_static (complete_segment seg rest e) = executor_static e"
  "executor_static (snd (enter_safe_state t f e)) = executor_static e"
  "executor_static (snd (clear_fault e)) = executor_static e"
  "executor_static (e\<lparr>me_queue := q\<rparr>) = executor_static e"
  "executor_static (e\<lparr>me_state := s\<rparr>) = executor_static e"
  "executor_static (e\<lparr>me_now_ns := t\<rparr>) = executor_static e"
  by (simp_all add: executor_static_def count_rejection_def count_edges_def count_step_def
      count_underrun_def complete_segment_def enter_safe_state_def clear_fault_def Let_def)

lemma executor_static_axes:
  "executor_static (e\<lparr>me_axes := (me_axes e)[i := axis_apply x (me_axes e ! i)]\<rparr>) = executor_static e"
proof (cases "i < length (me_axes e)")
  case True
  then have "(map ax_config (me_axes e))[i := ax_config (me_axes e ! i)] = map ax_config (me_axes e)"
    by (metis list_update_id nth_map)
  then show ?thesis by (simp add: executor_static_def map_update)
qed (simp add: executor_static_def list_update_beyond)

lemma executor_static_edges [simp]: "executor_static (snd (apply_edges es e)) = executor_static e"
proof (induction es e rule: apply_edges.induct)
  case (2 x es e)
  then show ?case
    using executor_static_axes [of e] by (cases "map_of (me_axis_indices e) (ed_axis_resource_id x)") auto
qed simp

lemma executor_static_collect [simp]:
  "executor_static (snd (snd (collect_segment_edges q t e))) = executor_static e"
proof -
  have "executor_static e1 = executor_static e" if "apply_edges es e = (r, e1)" for es r e1
    using executor_static_edges [of es e] that by simp
  then show ?thesis
    by (auto simp: collect_segment_edges_def Let_def split_beta split: sum.split prod.split)
qed

lemma executor_static_stop [simp]: "executor_static (snd (safe_stop t f e)) = executor_static e"
proof -
  define es where "es = sort_edges (fst (enter_safe_state t f e))"
  obtain r e2 where a: "apply_edges es (snd (enter_safe_state t f e)) = (r, e2)" by (cases "apply_edges es (snd (enter_safe_state t f e))")
  have "executor_static e2 = executor_static e"
    using executor_static_edges [of es "snd (enter_safe_state t f e)"] a by simp
  then show ?thesis
    using a by (cases r) (simp_all add: safe_stop_def split_beta Let_def es_def)
qed

lemma executor_static_loop: "executor_static (snd (advance_loop t qs e)) = executor_static e"
proof (induction qs arbitrary: e)
  case (Cons q rest)
  obtain r q' e1 where c: "collect_segment_edges q t (e\<lparr>me_state := MS_Running\<rparr>) = (r, q', e1)"
    by (cases "collect_segment_edges q t (e\<lparr>me_state := MS_Running\<rparr>)") auto
  have e1: "executor_static e1 = executor_static e"
    using executor_static_collect [of q t "e\<lparr>me_state := MS_Running\<rparr>"] c by simp
  have stop: "executor_static e4 = executor_static e3" if "safe_stop x f e3 = (r', e4)" for x f e3 r' e4
    using executor_static_stop [of x f e3] that by simp
  have loop: "executor_static e4 = executor_static e3" if "advance_loop t rest e3 = (r', e4)" for e3 r' e4
    using Cons.IH [of e3] that by simp
  show ?case
    using e1 by (auto simp: c Let_def dest!: stop loop split: sum.splits prod.splits)
qed simp

lemma executor_static_advance [simp]: "executor_static (snd (advance_to t e)) = executor_static e"
proof -
  obtain r e1 where l: "advance_loop t (me_queue e) e = (r, e1)" by (cases "advance_loop t (me_queue e) e")
  then have "executor_static e1 = executor_static e"
    using executor_static_loop [of t "me_queue e" e] by simp
  then show ?thesis by (cases r) (simp_all add: advance_to_def l Let_def)
qed

lemma executor_static_abort [simp]: "executor_static (snd (abort t f e)) = executor_static e"
proof -
  obtain r e1 where a: "advance_to t e = (r, e1)" by (cases "advance_to t e")
  obtain r' e2 where s: "safe_stop t f e1 = (r', e2)" by (cases "safe_stop t f e1")
  have "executor_static e1 = executor_static e" using executor_static_advance [of t e] a by simp
  moreover have "executor_static e2 = executor_static e1" using executor_static_stop [of t f e1] s by simp
  ultimately show ?thesis by (cases r; cases r') (simp_all add: abort_def a s)
qed

lemma executor_static_limit [simp]: "executor_static (snd (trigger_limit r t e)) = executor_static e"
proof -
  have "executor_static (e\<lparr>me_metrics := (me_metrics e)\<lparr>mm_limit_stops := n\<rparr>\<rparr>) = executor_static e" for n
    by (simp add: executor_static_def)
  then show ?thesis by (simp add: trigger_limit_def split: option.split)
qed

text \<open>The bounds the status report needs.\<close>

definition executor_shape :: "motion_executor \<Rightarrow> bool" where
  "executor_shape e \<longleftrightarrow>
     (case executor_static e of (configs, capacity, depth) \<Rightarrow>
        configs \<noteq> [] \<and> length configs \<le> kMaximumMotionAxes \<and>
        (\<forall>c \<in> set configs. cf_resource_id c \<noteq> 0) \<and> capacity \<le> 1024 \<and> depth \<le> capacity)"

lemma executor_shape_enqueue:
  assumes "executor_shape e" "executor_ok e"
  shows "executor_shape (snd (enqueue seg t e))"
proof (cases "enqueue_check seg t e")
  case (Inl err)
  then show ?thesis using assms(1) by (simp add: enqueue_def executor_shape_def)
next
  case (Inr q)
  have "length (me_queue e) < me_queue_capacity e" by (rule enqueue_check_Inr(5) [OF assms(2) Inr])
  then show ?thesis
    using assms(1) by (simp add: enqueue_def Inr executor_shape_def executor_static_def Let_def)
qed

lemma add_axes_ids:
  "add_axes configs axes ix = Inr (axes', ix') \<Longrightarrow>
   map ax_config axes' = map ax_config axes @ configs \<and> (\<forall>c \<in> set configs. cf_resource_id c \<noteq> 0)"
  by (induction configs axes ix rule: add_axes.induct)
    (auto simp: Let_def new_axis_def split: if_splits)

lemma executor_reachable_shape: "executor_reachable e \<Longrightarrow> executor_shape e"
proof (induction rule: executor_reachable.induct)
  case (reach_new configs capacity lead e)
  then show ?case
    by (auto simp: motion_executor_new_def try_bind_Inr_iff executor_shape_def executor_static_def
        kMaximumMotionAxes_def split: if_splits dest!: add_axes_ids)
next
  case (reach_step e e')
  note ok = executor_reachable_ok [OF reach_step.hyps(1)]
  from reach_step.hyps(2) show ?case
  proof cases
    case (step_enqueue seg t r)
    then show ?thesis using executor_shape_enqueue [OF reach_step.IH ok, of seg t] by simp
  next
    case (step_advance t r)
    then show ?thesis using executor_static_advance [of t e] reach_step.IH by (simp add: executor_shape_def)
  next
    case (step_abort t f r)
    then show ?thesis using executor_static_abort [of t f e] reach_step.IH by (simp add: executor_shape_def)
  next
    case (step_limit axis t r)
    then show ?thesis using executor_static_limit [of axis t e] reach_step.IH by (simp add: executor_shape_def)
  next
    case (step_clear r)
    then show ?thesis using executor_static_simps(7) [of e] reach_step.IH by (simp add: executor_shape_def)
  qed
qed

end
