(* ===== verification/Core_Safety.thy ===== *)
theory Core_Safety
  imports Core_Leases Motion_Shape
begin

text \<open>
  Every handler of the remote core keeps the invariant and answers: the response echoes the
  request, fits a packet, and no exception leaves the core. On top of that, the properties of
  leases: exclusivity, the safe state after expiry, and isolation between sessions.
\<close>

subsection \<open>Answers\<close>

definition answers :: "packet \<Rightarrow> packet \<Rightarrow> bool" where
  "answers request p \<longleftrightarrow>
     ph_version (header p) = kProtocolVersion \<and>
     ph_message_type (header p) = message_type_code Response \<and>
     ph_command (header p) = ph_command (header request) \<and>
     ph_session_id (header p) = ph_session_id (header request) \<and>
     ph_request_id (header p) = ph_request_id (header request) \<and>
     payload p \<noteq> [] \<and> hd (payload p) \<le> status_code_value SC_ResourceBusy \<and>
     ph_flags (header p) = (if hd (payload p) = status_code_value SC_Ok then 0 else kErrorResponseFlag) \<and>
     length (payload p) \<le> kMaximumPayloadSize"

lemma answers_encodable: "answers request p \<Longrightarrow> \<exists>bs. encode p = Inr bs"
  using encode_eq [of p] by (auto simp: answers_def encodable_def packet_consts)

text \<open>
  Walking down the guards of a handler: a statement about what it returns follows from the same
  statement about each of its branches.
\<close>

definition outcome :: "(core_result \<Rightarrow> bool) \<Rightarrow> core_result \<Rightarrow> bool" where
  "outcome Q r \<longleftrightarrow> Q r"

lemma outcome_if:
  "(b \<Longrightarrow> outcome Q x) \<Longrightarrow> (\<not> b \<Longrightarrow> outcome Q y) \<Longrightarrow> outcome Q (if b then x else y)"
  by simp

lemma outcome_option:
  "(x = None \<Longrightarrow> outcome Q f) \<Longrightarrow> (\<And>v. x = Some v \<Longrightarrow> outcome Q (g v)) \<Longrightarrow>
   outcome Q (case x of None \<Rightarrow> f | Some v \<Rightarrow> g v)"
  by (cases x) auto

lemma outcome_sum:
  "(\<And>e. x = Inl e \<Longrightarrow> outcome Q (f e)) \<Longrightarrow> (\<And>v. x = Inr v \<Longrightarrow> outcome Q (g v)) \<Longrightarrow>
   outcome Q (case x of Inl e \<Rightarrow> f e | Inr v \<Rightarrow> g v)"
  by (cases x) auto

lemma outcome_run:
  "(\<And>e s. x = (Inl e, s) \<Longrightarrow> outcome Q (f e s)) \<Longrightarrow>
   (\<And>v s. x = (Inr v, s) \<Longrightarrow> outcome Q (g v s)) \<Longrightarrow>
   outcome Q (case x of (Inl e, s) \<Rightarrow> f e s | (Inr v, s) \<Rightarrow> g v s)"
  by (cases x; cases "fst x") auto

lemma outcome_pair:
  "(\<And>a b. x = (a, b) \<Longrightarrow> outcome Q (f a b)) \<Longrightarrow> outcome Q (case x of (a, b) \<Rightarrow> f a b)"
  by (cases x) auto

lemmas outcome_branches = outcome_if outcome_option outcome_sum outcome_run

definition answered :: "packet \<Rightarrow> remote_core \<Rightarrow> core_result \<Rightarrow> bool" where
  "answered request c r \<longleftrightarrow>
     (\<exists>p c'. r = (Inr p, c') \<and> answers request p \<and> core_ok c' \<and>
        co_resources c' = co_resources c \<and> co_contracts c' = co_contracts c)"

abbreviation step_ok :: "packet \<Rightarrow> remote_core \<Rightarrow> core_result \<Rightarrow> bool" where
  "step_ok request c \<equiv> outcome (answered request c)"

lemmas step_ok_def = outcome_def answered_def

text \<open>What the constructor leaves to its caller: encodable descriptors, not too many of them.\<close>

definition catalog_ok :: "resource_descriptor list \<Rightarrow> bool" where
  "catalog_ok rs \<longleftrightarrow> length rs \<le> 0xFFFF \<and> (\<forall>r \<in> set rs. valid_type (rd_type r))"

lemma answers_status: "answers request (make_response request s)"
  by (cases s) (simp_all add: answers_def make_response_def packet_consts)

lemma answers_ok: "length body < kMaximumPayloadSize \<Longrightarrow> answers request (ok_response request body)"
  by (simp add: answers_def ok_response_def make_response_def packet_consts Let_def)

lemma answers_object: "answers request (object_response request k)"
  by (simp add: answers_def object_response_def make_response_def packet_consts Let_def)

lemma reply_ok [intro]:
  "core_ok c' \<Longrightarrow> co_resources c' = co_resources c \<Longrightarrow> co_contracts c' = co_contracts c \<Longrightarrow>
   step_ok request c (reply request s c')"
  by (simp add: step_ok_def reply_def answers_status)

lemma body_ok:
  "core_ok c' \<Longrightarrow> co_resources c' = co_resources c \<Longrightarrow> co_contracts c' = co_contracts c \<Longrightarrow>
   length body < kMaximumPayloadSize \<Longrightarrow> step_ok request c (Inr (ok_response request body), c')"
  by (simp add: step_ok_def answers_ok)

lemma reply_encoded_ok:
  "enc = Inr body \<Longrightarrow> length body < kMaximumPayloadSize \<Longrightarrow>
   core_ok c' \<Longrightarrow> co_resources c' = co_resources c \<Longrightarrow> co_contracts c' = co_contracts c \<Longrightarrow>
   step_ok request c (reply_encoded request enc c')"
  by (simp add: reply_encoded_def body_ok)

lemma with_resource_ok:
  assumes "core_ok c"
    and "\<And>r d. find_resource r c = Some d \<Longrightarrow> d \<in> set (co_resources c) \<Longrightarrow> step_ok request c (act r d)"
  shows "step_ok request c (with_resource request c act)"
proof -
  have "d \<in> set (co_resources c)" if "find_resource r c = Some d" for r d
    using that by (auto simp: find_resource_def find_Some_iff)
  then show ?thesis
    using assms by (auto simp: with_resource_def decode_resource_id_def split: sum.split option.split)
qed

lemma object_ok:
  "core_ok c' \<Longrightarrow> co_resources c' = co_resources c \<Longrightarrow> co_contracts c' = co_contracts c \<Longrightarrow>
   step_ok request c (Inr (object_response request k), c')"
  by (simp add: step_ok_def answers_object)

subsection \<open>Handlers without effect on leases and objects\<close>

lemma get_info_ok: "core_ok c \<Longrightarrow> step_ok request c (handle_get_info request c)"
  by (auto simp: handle_get_info_def packet_consts Let_def intro!: body_ok)

lemma get_capability_ok: "core_ok c \<Longrightarrow> step_ok request c (handle_get_capability request c)"
  by (auto simp: handle_get_capability_def packet_consts intro!: body_ok)

lemma ping_ok: "core_ok c \<Longrightarrow> step_ok request c (handle_ping request c)"
  by (auto simp: handle_ping_def intro!: body_ok)

lemma bootloader_ok: "core_ok c \<Longrightarrow> step_ok request c (handle_bootloader_enter request c)"
  by (auto simp: handle_bootloader_enter_def)

lemma resource_enum_ok:
  assumes "core_ok c" "catalog_ok (co_resources c)"
  shows "step_ok request c (handle_resource_enum request c)"
proof -
  have "\<exists>ys. traverse encode_resource_descriptor rs = Inr ys" if "\<forall>r \<in> set rs. valid_type (rd_type r)" for rs
    using that by (induction rs) (auto simp: encode_resource_descriptor_def)
  then obtain bs where "encode_resource_list (co_resources c) = Inr bs"
    using assms(2) by (fastforce simp: catalog_ok_def encode_resource_list_def)
  then show ?thesis using assms(1)
    by (auto simp: handle_resource_enum_def intro!: body_ok)
qed

lemma encode_descriptor_ok:
  "valid_type (rd_type d) \<Longrightarrow> \<exists>bs. encode_resource_descriptor d = Inr bs \<and> length bs = 17"
  using descriptor_wire.enc_record_width [of d] by (simp add: encode_resource_descriptor_def)

lemma resource_describe_ok:
  assumes "core_ok c" "catalog_ok (co_resources c)"
  shows "step_ok request c (handle_resource_describe request c)"
  unfolding handle_resource_describe_def
proof (rule with_resource_ok [OF assms(1)])
  fix r d
  assume "d \<in> set (co_resources c)"
  then obtain bs where "encode_resource_descriptor d = Inr bs" "length bs = 17"
    using assms(2) encode_descriptor_ok [of d] by (auto simp: catalog_ok_def)
  then show "step_ok request c (reply_encoded request
      (map_error ResourcePayloadException (encode_resource_descriptor d)) c)"
    using assms(1) by (intro reply_encoded_ok) (auto simp: packet_consts)
qed

lemma health_le: "resource_health_code h \<le> resource_health_code RH_Disabled"
  by (cases h) simp_all

lemma uart_status_health: "rs_health (uart_resource_status r d u) \<le> resource_health_code RH_Disabled"
proof -
  have "\<exists>h. rs_health (uart_resource_status r d u) = resource_health_code h"
    unfolding uart_resource_status_def Let_def resource_status_payload.select_convs by (rule exI, rule refl)
  then show ?thesis using health_le by auto
qed

lemma resource_status_health: "rs_health (resource_status_of r d c) \<le> resource_health_code RH_Disabled"
proof (cases "rd_type d = resource_type_code RT_Uart \<and> co_uart_bsp c \<noteq> None \<and> rd_instance d \<le> 255")
  case True
  then show ?thesis using uart_status_health by (simp add: resource_status_of_def)
next
  case False
  have codes: "resource_health_code RH_Normal \<le> 4" "resource_health_code RH_Busy \<le> 4"
    "resource_health_code RH_Failed \<le> 4" by simp_all
  show ?thesis unfolding resource_status_of_def Let_def if_not_P [OF False]
    using codes by (auto split: option.split)
qed

lemma resource_status_ok:
  assumes "core_ok c"
  shows "step_ok request c (handle_resource_status request c)"
  unfolding handle_resource_status_def
proof (rule with_resource_ok [OF assms])
  fix r d
  obtain bs where "encode_resource_status (resource_status_of r d c) = Inr bs" "length bs = 25"
    using resource_status_health [of r d c] by (auto simp: encode_resource_status_def)
  then show "step_ok request c (reply_encoded request
      (map_error ResourcePayloadException (encode_resource_status (resource_status_of r d c))) c)"
    using assms by (intro reply_encoded_ok) (auto simp: packet_consts)
qed

lemma reset_motion_reachable: "executor_reachable m \<Longrightarrow> executor_reachable (snd (reset_motion m))"
proof -
  assume r: "executor_reachable m"
  have "executor_reachable m'" if "abort t f m = (x, m')" for t f x m'
    using executor_reachable_abort [OF r, of t f] that by simp
  then show ?thesis
    using r by (auto simp: reset_motion_def executor_reachable_clear split: prod.split sum.split)
qed

lemma resource_reset_ok:
  assumes "core_ok c"
  shows "step_ok request c (handle_resource_reset request c)"
  unfolding handle_resource_reset_def
proof (rule with_resource_ok [OF assms])
  fix r d
  have "core_ok (c\<lparr>co_motion := Some m'\<rparr>)" if "co_motion c = Some m" "reset_motion m = (x, m')" for m x m'
    using reset_motion_reachable [of m] core_okD(11) [OF assms that(1)] that
    by (intro core_ok_motion [OF assms]) simp
  then show "step_ok request c
     (let session_id = ph_session_id (header request)
      in if \<not> resource_access_allowed r session_id c \<or>
            map_of (co_leases c) r \<noteq> None \<and> \<not> session_has_exclusive_lease r session_id c
         then reply request SC_AccessDenied c
         else if rd_type d = resource_type_code RT_StepgenAxis \<and> co_motion c \<noteq> None
              then case reset_motion (the (co_motion c)) of
                     (Inl x, m) \<Rightarrow> reply request SC_ResourceFailed (c\<lparr>co_motion := Some m\<rparr>)
                   | (Inr x, m) \<Rightarrow> reply request SC_Ok (c\<lparr>co_motion := Some m\<rparr>)
              else if rd_type d \<noteq> resource_type_code RT_Uart \<or> co_uart_bsp c = None \<or>
                      255 < rd_instance d
                   then reply request SC_UnsupportedCapability c
                   else case uart_reset (ucast (rd_instance d)) (the (co_uart_bsp c)) of
                          (Inl e, u) \<Rightarrow> reply request (uart_error_status e) (c\<lparr>co_uart_bsp := Some u\<rparr>)
                        | (Inr x, u) \<Rightarrow> reply request SC_Ok (c\<lparr>co_uart_bsp := Some u\<rparr>))"
    using assms by (auto simp: Let_def split: prod.split sum.split)
qed

lemma resource_contract_ok:
  assumes "core_ok c"
  shows "step_ok request c (handle_resource_contract request c)"
  unfolding handle_resource_contract_def
proof (rule with_resource_ok [OF assms])
  fix r d
  show "step_ok request c (case find_contract r c of None \<Rightarrow> reply request SC_UnsupportedCapability c
     | Some k \<Rightarrow> reply_encoded request (map_error ResourcePayloadException (encode_resource_contract k)) c)"
  proof (cases "find_contract r c")
    case None
    then show ?thesis using assms by auto
  next
    case (Some k)
    then have "rc_version k = kResourceContractVersion"
      using core_okD(2) [OF assms, of k] by (auto simp: find_contract_def find_Some_iff)
    then obtain bs where "encode_resource_contract k = Inr bs" "length bs = 32"
      using contract_wire.enc_record_width [of k] by (simp add: encode_resource_contract_def)
    then show ?thesis using assms Some by (auto intro!: reply_encoded_ok simp: packet_consts)
  qed
qed

subsection \<open>Leases\<close>

lemma herase_absent: "map_of m k = None \<Longrightarrow> herase k m = m"
  by (auto simp: herase_def filter_id_conv map_of_eq_None_iff)

lemma lease_info_mode:
  assumes "core_ok c"
  shows "valid_lease_mode (li_mode (make_lease_info r s now c)) True"
proof (cases "map_of (co_leases c) r")
  case None
  then show ?thesis by (simp add: make_lease_info_def valid_lease_mode_def)
next
  case (Some es)
  note es = core_okD(5) [OF assms Some]
  define sel where "sel = (case find (\<lambda>l. le_owner_session_id l = s) es of None \<Rightarrow> hd es | Some l \<Rightarrow> l)"
  have "sel \<in> set es"
    using es by (auto simp: sel_def entries_ok_def find_Some_iff split: option.split)
  then have "valid_lease_mode (le_mode sel) True"
    using es by (auto simp: entries_ok_def valid_lease_mode_def)
  then show ?thesis using es Some by (simp add: make_lease_info_def Let_def sel_def entries_ok_def)
qed

lemma lease_info_encoded:
  "valid_lease_mode (li_mode i) True \<Longrightarrow> \<exists>bs. encode_resource_lease_info i = Inr bs \<and> length bs = 27"
  using lease_info_wire.enc_record_width [of i] by (simp add: encode_resource_lease_info_def)

lemma lease_info_reply_ok:
  assumes "core_ok c'" "co_resources c' = co_resources c" "co_contracts c' = co_contracts c"
  shows "step_ok request c (lease_info_reply request r now c')"
proof -
  obtain bs where "encode_resource_lease_info
      (make_lease_info r (ph_session_id (header request)) now c') = Inr bs" "length bs = 27"
    using lease_info_encoded [OF lease_info_mode [OF assms(1)]] by blast
  then show ?thesis using assms unfolding lease_info_reply_def
    by (intro reply_encoded_ok) (auto simp: packet_consts)
qed

lemma lease_status_ok:
  assumes "core_ok c"
  shows "step_ok request c (handle_resource_lease_status request now c)"
  unfolding handle_resource_lease_status_def
proof (rule with_resource_ok [OF assms])
  fix r d
  let ?i = "(make_lease_info r (ph_session_id (header request)) now c)\<lparr>li_lease_id := 0\<rparr>"
  obtain bs where "encode_resource_lease_info ?i = Inr bs" "length bs = 27"
    using lease_info_encoded [of ?i] lease_info_mode [OF assms] by auto
  then show "step_ok request c (if \<not> lease_supported r c then reply request SC_UnsupportedCapability c
     else reply_encoded request (map_error ResourcePayloadException (encode_resource_lease_info ?i)) c)"
    using assms by (auto intro!: reply_encoded_ok simp: packet_consts)
qed

text \<open>A change of the leases of one resource.\<close>

lemma core_ok_put_lease:
  assumes ok: "core_ok c" and r: "r \<noteq> 0" and es: "entries_ok es"
    and holders: "\<And>p. fst p = r \<Longrightarrow> holder_ok (co_leases c) p \<Longrightarrow>
      resource_has_objects r c \<Longrightarrow> holder_ok (hput r es (co_leases c)) p"
    and n: "n \<noteq> 0"
  shows "core_ok (c\<lparr>co_next_lease_id := n, co_leases := hput r es (co_leases c)\<rparr>)" (is "core_ok ?c'")
proof (rule core_okI)
  note d = core_okD [OF ok]
  have other: "holder_ok (hput r es (co_leases c)) p" if "holder_ok (co_leases c) p" "fst p \<noteq> r" for p
    using that unfolding holder_ok_def exclusive_def map_of_hput by simp
  show "entries_ok es' \<and> r' \<noteq> 0" if "map_of (co_leases ?c') r' = Some es'" for r' es'
    using that es r d(5) [of r' es'] by (cases "r' = r") (auto simp del: map_of_eq_Some_iff)
  show "holder_ok (co_leases ?c') (gpio_holder (snd e))" if "e \<in> set (co_gpio_objects ?c')" for e
  proof (cases "fst (gpio_holder (snd e)) = r")
    case True
    then have "resource_has_objects r c" using that unfolding has_objects_iff by auto
    then show ?thesis using holders [OF True] d(9) [of e] that by simp
  next
    case False
    then show ?thesis using other d(9) [of e] that by simp
  qed
  show "holder_ok (co_leases ?c') (uart_holder (snd e))" if "e \<in> set (co_uart_objects ?c')" for e
  proof (cases "fst (uart_holder (snd e)) = r")
    case True
    then have "resource_has_objects r c" using that unfolding has_objects_iff by auto
    then show ?thesis using holders [OF True] d(10) [of e] that by simp
  next
    case False
    then show ?thesis using other d(10) [of e] that by simp
  qed
qed (use core_okD [OF ok] n in \<open>simp_all del: map_of_eq_Some_iff\<close>)

lemma next_lease_id_nonzero [simp]: "next_lease_id n \<noteq> 0"
  by (simp add: next_lease_id_def)

lemma find_resource_nonzero: "core_ok c \<Longrightarrow> find_resource r c \<noteq> None \<Longrightarrow> r \<noteq> 0"
  using core_okD(1) [of c] by (auto simp: find_resource_def find_None_iff)

lemma entries_ok_add:
  assumes "\<not> lease_conflict r s mode es c" "valid_lease_mode mode False" "es = [] \<or> entries_ok es"
    and "s \<noteq> 0" "i \<noteq> 0"
  shows "entries_ok (es @ [\<lparr>le_lease_id = i, le_owner_session_id = s, le_granted_duration_ms = d,
     le_mode = mode, le_expires_at = t\<rparr>])" and "\<not> resource_has_objects r c"
proof -
  have "1 \<le> unat mode" "unat mode \<le> 2" using assms(2)
    by (simp_all add: valid_lease_mode_def Let_def word_le_nat_alt)
  then have "unat mode = 1 \<or> unat mode = 2" by arith
  then have mode: "mode = lease_mode_code LM_SharedRead \<or> mode = lease_mode_code LM_Exclusive"
    by (simp add: word_unat_eq_iff)
  show "\<not> resource_has_objects r c" using assms(1) mode by (auto simp: lease_conflict_def)
  show "entries_ok (es @ [\<lparr>le_lease_id = i, le_owner_session_id = s, le_granted_duration_ms = d,
     le_mode = mode, le_expires_at = t\<rparr>])"
    using assms mode by (auto simp: entries_ok_def lease_conflict_def list_ex_iff)
qed

lemma acquire_ok:
  assumes ok: "core_ok c"
  shows "step_ok request c (handle_resource_acquire request now c)"
proof (cases "decode_resource_lease_request (payload request)")
  case (Inl e)
  then show ?thesis using ok by (auto simp: handle_resource_acquire_def Let_def)
next
  case (Inr q)
  let ?s = "ph_session_id (header request)" and ?r = "lr_resource_id q"
  define es where "es = (case map_of (co_leases c) ?r of None \<Rightarrow> [] | Some es \<Rightarrow> es)"
  have mode: "valid_lease_mode (lr_mode q) False"
    using Inr by (auto simp: decode_resource_lease_request_def split: if_splits)
  have es: "es = [] \<or> entries_ok es"
    using core_okD(5) [OF ok, of ?r] by (auto simp: es_def split: option.split)
  have none: "map_of (co_leases c) ?r = None" if "es = []"
    using core_okD(5) [OF ok, of ?r] that by (cases "map_of (co_leases c) ?r") (auto simp: es_def entries_ok_def)
  have busy: "core_ok (c\<lparr>co_leases := herase ?r (co_leases c)\<rparr>)" if "es = []"
    using ok none [OF that] by (simp add: herase_absent)
  have granted: "core_ok (c\<lparr>co_next_lease_id := next_lease_id (co_next_lease_id c),
      co_leases := hput ?r (es @ [l]) (co_leases c)\<rparr>)"
    if "?s \<noteq> 0" "find_resource ?r c \<noteq> None" "\<not> lease_conflict ?r ?s (lr_mode q) es c"
      "l = \<lparr>le_lease_id = co_next_lease_id c, le_owner_session_id = ?s,
        le_granted_duration_ms = lr_duration_ms q, le_mode = lr_mode q,
        le_expires_at = now + ms (uint (lr_duration_ms q))\<rparr>" for l
  proof -
    have "entries_ok (es @ [l])" "\<not> resource_has_objects ?r c"
      using entries_ok_add [OF that(3) mode es that(1) core_okD(4) [OF ok]] by (simp_all add: that(4))
    then show ?thesis
      by (intro core_ok_put_lease [OF ok find_resource_nonzero [OF ok that(2)]]) auto
  qed
  show ?thesis
    unfolding handle_resource_acquire_def Let_def Inr sum.case es_def [symmetric]
    by (intro outcome_if reply_ok lease_info_reply_ok ok) (auto simp: ok busy granted)
qed

lemma update_first_map:
  "(\<And>x. g (f x) = g x) \<Longrightarrow> map g (update_first P f xs) = map g xs"
  by (induction xs) auto

lemma update_first_set: "x \<in> set (update_first P f xs) \<Longrightarrow> x \<in> set xs \<or> (\<exists>y \<in> set xs. x = f y)"
  by (induction xs) (auto split: if_splits)

lemma exclusive_hput:
  "exclusive (hput r es m) r' s \<longleftrightarrow>
     (if r' = r then (\<exists>l \<in> set es. le_owner_session_id l = s \<and> le_mode l = lease_mode_code LM_Exclusive)
      else exclusive m r' s)"
  by (auto simp: exclusive_def simp del: map_of_eq_Some_iff)

lemma renewed_entries:
  fixes P :: "lease \<Rightarrow> bool" and d :: u32 and t :: time
  assumes "entries_ok es"
  defines "es' \<equiv> update_first P (\<lambda>l. l\<lparr>le_granted_duration_ms := d, le_expires_at := t\<rparr>) es"
  shows "entries_ok es'"
    and "map (\<lambda>l. (le_owner_session_id l, le_mode l, le_lease_id l)) es' =
         map (\<lambda>l. (le_owner_session_id l, le_mode l, le_lease_id l)) es"
proof -
  show eq: "map (\<lambda>l. (le_owner_session_id l, le_mode l, le_lease_id l)) es' =
         map (\<lambda>l. (le_owner_session_id l, le_mode l, le_lease_id l)) es"
    unfolding es'_def by (rule update_first_map) simp
  have owners: "map le_owner_session_id es' = map le_owner_session_id es"
    unfolding es'_def by (rule update_first_map) simp
  have len: "length es' = length es" using eq by (rule map_eq_imp_length_eq)
  have "\<exists>y \<in> set es. le_owner_session_id l = le_owner_session_id y \<and> le_mode l = le_mode y \<and>
      le_lease_id l = le_lease_id y" if "l \<in> set es'" for l
    using update_first_set [OF that [unfolded es'_def]] by auto
  then show "entries_ok es'"
    using assms(1) owners len unfolding entries_ok_def by (metis length_0_conv)
qed

lemma find_first_lease:
  "list_ex P xs \<Longrightarrow> \<exists>x ys zs. xs = ys @ x # zs \<and> P x \<and> remove_first P xs = ys @ zs"
proof (induction xs)
  case (Cons x xs)
  show ?case
  proof (cases "P x")
    case True
    then show ?thesis by (intro exI [of _ x] exI [of _ "[]"] exI [of _ xs]) simp
  next
    case False
    then obtain y ys zs where "xs = ys @ y # zs" "P y" "remove_first P xs = ys @ zs"
      using Cons by auto
    then show ?thesis using False by (intro exI [of _ y] exI [of _ "x # ys"] exI [of _ zs]) simp
  qed
qed simp

lemma renew_ok:
  assumes ok: "core_ok c"
  shows "step_ok request c (handle_resource_renew request now c)"
proof -
  have "core_ok (c\<lparr>co_leases := hput r (update_first P (\<lambda>l. l\<lparr>le_granted_duration_ms := d,
        le_expires_at := t\<rparr>) es) (co_leases c)\<rparr>)"
    if es: "map_of (co_leases c) r = Some es" for r es P d t
  proof -
    define es' where "es' = update_first P (\<lambda>l. l\<lparr>le_granted_duration_ms := d, le_expires_at := t\<rparr>) es"
    note e = core_okD(5) [OF ok es]
    note ren = renewed_entries [where es = es and P = P and d = d and t = t, folded es'_def]
    have set_eq: "(\<lambda>l. (le_owner_session_id l, le_mode l, le_lease_id l)) ` set es' =
      (\<lambda>l. (le_owner_session_id l, le_mode l, le_lease_id l)) ` set es"
      using arg_cong [OF ren(2) [OF conjunct1 [OF e]], of set] by (simp only: set_map)
    have "exclusive (hput r es' (co_leases c)) r s \<longleftrightarrow> exclusive (co_leases c) r s" for s
    proof -
      have img: "(\<exists>l \<in> set xs. le_owner_session_id l = s \<and> le_mode l = lease_mode_code LM_Exclusive) \<longleftrightarrow>
        (\<exists>p \<in> (\<lambda>l. (le_owner_session_id l, le_mode l, le_lease_id l)) ` set xs.
           fst p = s \<and> fst (snd p) = lease_mode_code LM_Exclusive)" for xs
        by auto
      have "(\<exists>l \<in> set es'. le_owner_session_id l = s \<and> le_mode l = lease_mode_code LM_Exclusive) \<longleftrightarrow>
          (\<exists>l \<in> set es. le_owner_session_id l = s \<and> le_mode l = lease_mode_code LM_Exclusive)"
        by (simp only: img set_eq)
      moreover have "exclusive (co_leases c) r s \<longleftrightarrow>
          (\<exists>l \<in> set es. le_owner_session_id l = s \<and> le_mode l = lease_mode_code LM_Exclusive)"
        unfolding exclusive_def es by auto
      ultimately show ?thesis by (simp add: exclusive_hput)
    qed
    then have "holder_ok (hput r es' (co_leases c)) p" if "fst p = r" "holder_ok (co_leases c) p" for p
      using that es by (auto simp: holder_ok_def simp del: map_of_eq_Some_iff)
    then have "core_ok (c\<lparr>co_next_lease_id := co_next_lease_id c, co_leases := hput r es' (co_leases c)\<rparr>)"
      using e ren(1) core_okD(4) [OF ok] by (intro core_ok_put_lease [OF ok]) auto
    then show ?thesis by (simp add: es'_def)
  qed
  then show ?thesis
    unfolding handle_resource_renew_def Let_def
    by (intro outcome_branches reply_ok lease_info_reply_ok ok) auto
qed

lemma release_lease_ok:
  assumes ok: "core_ok c" and es: "map_of (co_leases c) r = Some es"
    and here: "list_ex (is_lease i s) es"
  defines "left \<equiv> remove_first (is_lease i s) es"
  shows "core_ok ((release_resource_objects r s c)\<lparr>co_leases :=
      (if left = [] then herase r (co_leases (release_resource_objects r s c))
       else hput r left (co_leases (release_resource_objects r s c)))\<rparr>)" (is "core_ok ?c'")
proof (rule core_okI)
  note d = core_okD [OF ok]
  note e = d(5) [OF es]
  obtain l ys zs where l: "es = ys @ l # zs" "le_owner_session_id l = s" "left = ys @ zs"
    using find_first_lease [OF here] unfolding left_def is_lease_def by auto
  let ?m' = "if left = [] then herase r (co_leases c) else hput r left (co_leases c)"
  have look: "map_of ?m' r' = (if r' = r then (if left = [] then None else Some left) else map_of (co_leases c) r')" for r'
    by simp
  have left_ok: "entries_ok left" if "left \<noteq> []"
  proof -
    have "\<not> (\<exists>x \<in> set es. le_mode x = lease_mode_code LM_Exclusive)"
      using e l that by (auto simp: entries_ok_def)
    then show ?thesis using e l that by (auto simp: entries_ok_def)
  qed
  have kept: "holder_ok ?m' p" if p: "holder_ok (co_leases c) p" "p \<noteq> (r, s)" for p
  proof (cases "fst p = r")
    case True
    have False if x: "exclusive (co_leases c) r (snd p)"
    proof -
      obtain x where "x \<in> set es" "le_owner_session_id x = snd p" "le_mode x = lease_mode_code LM_Exclusive"
        using x es by (auto simp: exclusive_def simp del: map_of_eq_Some_iff)
      then have "length es = 1" "x \<in> set es" "le_owner_session_id x = snd p" using e by (auto simp: entries_ok_def)
      then have "snd p = s" using l by auto
      then show False using True p(2) by (cases p) simp
    qed
    moreover have "snd p \<noteq> 0 \<and> exclusive (co_leases c) r (snd p)"
      using p(1) True es by (simp add: holder_ok_def del: map_of_eq_Some_iff)
    ultimately show ?thesis by blast
  next
    case False
    then show ?thesis using p(1) unfolding holder_ok_def exclusive_def look by simp
  qed
  show "rd_resource_id x \<noteq> 0" if "x \<in> set (co_resources ?c')" for x using that d(1) by simp
  show "rc_version k = kResourceContractVersion" if "k \<in> set (co_contracts ?c')" for k
    using that d(2) by simp
  show "hmap_ok (co_leases ?c')" using d(3) by simp
  show "co_next_lease_id ?c' \<noteq> 0" using d(4) by simp
  show "entries_ok es' \<and> r' \<noteq> 0" if "map_of (co_leases ?c') r' = Some es'" for r' es'
    using that look [of r'] d(5) [of r' es'] e left_ok by (auto simp del: map_of_eq_Some_iff split: if_splits)
  have "distinct (hkeys (co_gpio_objects ?c') @ hkeys (co_uart_objects ?c'))"
    using d(6) by (auto simp: ids_ok_def distinct_map_filter)
  then show "ids_ok (co_next_object_id ?c') (hkeys (co_gpio_objects ?c') @ hkeys (co_uart_objects ?c'))"
    using ids_ok_subseq [OF d(6), of "hkeys (co_gpio_objects ?c') @ hkeys (co_uart_objects ?c')"] by auto
  show "pins_ok (map snd (co_gpio_objects ?c')) (co_gpio_bsp ?c')"
    using pins_ok_release [OF d(7)] by simp
  show "distinct (map (\<lambda>e. uo_port (snd e)) (co_uart_objects ?c'))"
    using d(8) by (simp add: distinct_map_filter)
  show "holder_ok (co_leases ?c') (gpio_holder (snd x))" if "x \<in> set (co_gpio_objects ?c')" for x
    using that d(9) [of x] kept [of "gpio_holder (snd x)"] by (auto simp: gpio_owned_def gpio_holder_def)
  show "holder_ok (co_leases ?c') (uart_holder (snd x))" if "x \<in> set (co_uart_objects ?c')" for x
    using that d(10) [of x] kept [of "uart_holder (snd x)"] by (auto simp: uart_owned_def uart_holder_def)
  show "executor_reachable m" if "co_motion ?c' = Some m" for m
    using release_all_motion [of c "[(r, s)]" m] d(11) that by simp
qed

lemma release_ok:
  assumes ok: "core_ok c"
  shows "step_ok request c (handle_resource_release request c)"
  unfolding handle_resource_release_def Let_def
  by (intro outcome_branches reply_ok release_lease_ok [OF ok] ok) (simp_all del: map_of_eq_Some_iff)

subsection \<open>GPIO and UART\<close>

lemma claim_holder:
  assumes "core_ok c" "claim_resource t inst s c = Inr (r, owner)"
  shows "holder_ok (co_leases c) (r, owner)"
proof (cases "find_instance t inst c")
  case None
  then have "r = 0" "owner = 0" using assms(2) by (auto simp: claim_resource_def split: if_splits)
  moreover have "map_of (co_leases c) 0 = None"
    using core_okD(5) [OF assms(1), of 0] by (cases "map_of (co_leases c) 0") auto
  ultimately show ?thesis by (simp add: holder_ok_def)
next
  case (Some d)
  have "\<not> exclusive (co_leases c) x 0" for x
    using core_okD(5) [OF assms(1), of x] unfolding exclusive_def entries_ok_def by blast
  then show ?thesis using assms(2) Some
    by (auto simp: claim_resource_def lease_denies_def Let_def holder_ok_def exclusive_iff
        simp del: map_of_eq_Some_iff split: if_splits)
qed

lemma ids_ok_new:
  assumes "ids_ok n (ks @ ks')" "n \<noteq> 0"
  shows "ids_ok (n + 1) ((ks @ [n]) @ ks')" and "ids_ok (n + 1) (ks @ ks' @ [n])" and "n \<notin> set ks \<union> set ks'"
proof -
  have step: "n + 1 = 0 \<or> n < n + 1" for n :: u32
  proof (cases "unat n + 1 < 2 ^ 32")
    case True
    then show ?thesis by (simp add: word_less_nat_alt unat_word_ariths)
  next
    case False
    then have "unat n + 1 = 2 ^ 32" using u32_bound [of n] by linarith
    then show ?thesis by (simp add: word_unat_eq_iff unat_word_ariths)
  qed
  show "n \<notin> set ks \<union> set ks'" using assms by (auto simp: ids_ok_def)
  then show "ids_ok (n + 1) ((ks @ [n]) @ ks')" "ids_ok (n + 1) (ks @ ks' @ [n])"
    using assms step [of n] by (auto simp: ids_ok_def dest: order_less_trans)
qed

lemma gpio_create_ok:
  assumes ok: "core_ok c"
  shows "step_ok request c (handle_gpio_create request c)"
proof -
  note d = core_okD [OF ok]
  have "core_ok (c\<lparr>co_gpio_bsp := Some (gpio_configure pin dir v b), co_next_object_id := co_next_object_id c + 1,
      co_gpio_objects := hemplace (co_next_object_id c)
        \<lparr>go_pin = pin, go_direction = dir, go_resource_id = r, go_owner_session_id = owner\<rparr> (co_gpio_objects c)\<rparr>)"
    (is "core_ok ?c'")
    if b: "co_gpio_bsp c = Some b" and n: "co_next_object_id c \<noteq> 0"
      and cl: "claim_resource RT_Gpio pin s c = Inr (r, owner)"
      and new: "\<not> list_ex (\<lambda>e. go_pin (snd e) = pin) (co_gpio_objects c)" for pin dir v b s r owner
  proof -
    define obj where "obj = \<lparr>go_pin = pin, go_direction = dir, go_resource_id = r, go_owner_session_id = owner\<rparr>"
    note ids = ids_ok_new [OF d(6) n]
    have none: "map_of (co_gpio_objects c) (co_next_object_id c) = None"
      using ids(3) by (auto simp: map_of_eq_None_iff)
    then have objs: "co_gpio_objects ?c' = co_gpio_objects c @ [(co_next_object_id c, obj)]"
      by (simp add: hemplace_def obj_def)
    have pins: "pins_ok (map snd (co_gpio_objects ?c')) (co_gpio_bsp ?c')"
      using d(7) new unfolding objs
      by (auto simp: pins_ok_def list_ex_iff gpio_configure_def Let_def obj_def b)
    show ?thesis
    proof (rule core_okI)
      show "ids_ok (co_next_object_id ?c') (hkeys (co_gpio_objects ?c') @ hkeys (co_uart_objects ?c'))"
        using ids(1) unfolding objs by simp
      show "holder_ok (co_leases ?c') (gpio_holder (snd e))" if "e \<in> set (co_gpio_objects ?c')" for e
        using that d(9) [of e] claim_holder [OF ok cl] unfolding objs by (auto simp: gpio_holder_def obj_def)
      show "pins_ok (map snd (co_gpio_objects ?c')) (co_gpio_bsp ?c')" by (rule pins)
    qed (use d in \<open>simp_all del: map_of_eq_Some_iff\<close>)
  qed
  then show ?thesis
    unfolding handle_gpio_create_def Let_def
    by (intro outcome_if outcome_option outcome_sum outcome_pair reply_ok object_ok ok) auto
qed

lemma gpio_lookup:
  assumes "core_ok c" "co_gpio_bsp c = Some b" "map_of (co_gpio_objects c) k = Some obj"
  shows "\<exists>st. map_of (gb_pins b) (go_pin obj) = Some st \<and> pin_direction st = go_direction obj"
proof -
  have "obj \<in> set (map snd (co_gpio_objects c))" using map_of_SomeD [OF assms(3)] by force
  then show ?thesis using core_okD(7) [OF assms(1)] assms(2) by (auto simp: pins_ok_def)
qed

lemma gpio_read_ok:
  assumes ok: "core_ok c"
  shows "step_ok request c (handle_gpio_read request c)"
proof -
  have "step_ok request c (case gpio_read (go_pin obj) b of
      (Inl e, b') \<Rightarrow> (Inl (GpioException e), c\<lparr>co_gpio_bsp := Some b'\<rparr>)
    | (Inr v, b') \<Rightarrow> (Inr (ok_response request [if v then 1 else 0]), c\<lparr>co_gpio_bsp := Some b'\<rparr>))"
    if b: "co_gpio_bsp c = Some b" and o: "map_of (co_gpio_objects c) k = Some obj" for b k obj
  proof -
    obtain v b' where r: "gpio_read (go_pin obj) b = (Inr v, b')"
      using gpio_lookup [OF ok b o] by (auto simp: gpio_read_def)
    have "core_ok (c\<lparr>co_gpio_bsp := Some b'\<rparr>)"
      using gpio_read_dirs [of "go_pin obj" b] r by (intro core_ok_gpio [OF ok b]) simp
    then show ?thesis using r by (auto intro!: body_ok simp: packet_consts)
  qed
  then show ?thesis
    unfolding handle_gpio_read_def by (intro outcome_if outcome_option reply_ok ok) auto
qed

lemma gpio_write_ok:
  assumes ok: "core_ok c"
  shows "step_ok request c (handle_gpio_write request c)"
proof -
  have "step_ok request c (case gpio_write (go_pin obj) v b of
      (Inl e, b') \<Rightarrow> (Inl (GpioException e), c\<lparr>co_gpio_bsp := Some b'\<rparr>)
    | (Inr _, b') \<Rightarrow> reply request SC_Ok (c\<lparr>co_gpio_bsp := Some b'\<rparr>))"
    if b: "co_gpio_bsp c = Some b" and o: "map_of (co_gpio_objects c) k = Some obj"
      and out: "\<not> go_direction obj \<noteq> GD_Output" for b k obj v
  proof -
    obtain b' where r: "gpio_write (go_pin obj) v b = (Inr (), b')"
      using gpio_lookup [OF ok b o] out by (auto simp: gpio_write_def)
    have "core_ok (c\<lparr>co_gpio_bsp := Some b'\<rparr>)"
      using gpio_write_dirs [of "go_pin obj" v b] r by (intro core_ok_gpio [OF ok b]) simp
    then show ?thesis using r by (auto intro!: reply_ok)
  qed
  then show ?thesis
    unfolding handle_gpio_write_def by (intro outcome_if outcome_option reply_ok ok) auto
qed

lemma uart_create_ok:
  assumes ok: "core_ok c"
  shows "step_ok request c (handle_uart_create request c)"
proof -
  note d = core_okD [OF ok]
  have "core_ok (c\<lparr>co_uart_bsp := Some u', co_next_object_id := co_next_object_id c + 1,
      co_uart_objects := hemplace (co_next_object_id c)
        \<lparr>uo_port = port, uo_resource_id = r, uo_owner_session_id = owner, uo_streaming = str,
         uo_event_sequence = 0\<rparr> (co_uart_objects c)\<rparr>)" (is "core_ok ?c'")
    if n: "co_next_object_id c \<noteq> 0" and cl: "claim_resource RT_Uart inst s c = Inr (r, owner)"
      and new: "\<not> list_ex (\<lambda>e. uo_port (snd e) = port) (co_uart_objects c)" for port str u' inst s r owner
  proof -
    define obj where "obj = \<lparr>uo_port = port, uo_resource_id = r, uo_owner_session_id = owner,
      uo_streaming = str, uo_event_sequence = 0\<rparr>"
    note ids = ids_ok_new [OF d(6) n]
    have none: "map_of (co_uart_objects c) (co_next_object_id c) = None"
      using ids(3) by (auto simp: map_of_eq_None_iff)
    then have objs: "co_uart_objects ?c' = co_uart_objects c @ [(co_next_object_id c, obj)]"
      by (simp add: hemplace_def obj_def)
    show ?thesis
    proof (rule core_okI)
      show "ids_ok (co_next_object_id ?c') (hkeys (co_gpio_objects ?c') @ hkeys (co_uart_objects ?c'))"
        using ids(2) unfolding objs by simp
      show "holder_ok (co_leases ?c') (uart_holder (snd e))" if "e \<in> set (co_uart_objects ?c')" for e
        using that d(10) [of e] claim_holder [OF ok cl] unfolding objs by (auto simp: uart_holder_def obj_def)
      show "distinct (map (\<lambda>e. uo_port (snd e)) (co_uart_objects ?c'))"
        using d(8) new unfolding objs by (auto simp: obj_def list_ex_iff)
    qed (use d in \<open>simp_all del: map_of_eq_Some_iff\<close>)
  qed
  then show ?thesis
    unfolding handle_uart_create_def Let_def
    by (intro outcome_if outcome_option outcome_sum outcome_run outcome_pair reply_ok object_ok ok) (auto simp: ok)
qed

lemma uart_read_ok: "core_ok c \<Longrightarrow> step_ok request c (handle_uart_read request c)"
  unfolding handle_uart_read_def Let_def
  by (intro outcome_if outcome_option outcome_run reply_ok body_ok) (auto simp: packet_consts)

lemma uart_write_ok: "core_ok c \<Longrightarrow> step_ok request c (handle_uart_write request c)"
  unfolding handle_uart_write_def
  by (intro outcome_if outcome_option outcome_run reply_ok) auto

subsection \<open>Motion\<close>

lemma segment_decoded:
  "decode_motion_segment bs = Inr d \<Longrightarrow> ms_sequence d \<noteq> 0 \<and> ms_duration_ns d \<noteq> 0"
  by (auto simp: decode_motion_segment_def Let_def try_bind_Inr_iff split: if_splits)

lemma motion_enqueue_ok:
  assumes ok: "core_ok c"
  shows "step_ok request c (handle_motion_enqueue request c)"
proof -
  have keep: "core_ok (c\<lparr>co_motion := Some m'\<rparr>)"
    if "co_motion c = Some m" "enqueue seg t m = (x, m')" for m seg t x m'
    using executor_reachable_enqueue [OF core_okD(11) [OF ok that(1)], of seg t] that(2)
    by (intro core_ok_motion [OF ok]) simp
  have enc: "\<exists>bs. encode_motion_acceptance \<lparr>mc_sequence = ms_sequence d, mc_start_time_ns = t,
      mc_duration_ns = ms_duration_ns d, mc_final_segment = ms_final_segment d\<rparr> = Inr bs \<and> length bs = 24"
    if "decode_motion_segment bs = Inr d" for bs d t
    using segment_decoded [OF that] by (simp add: encode_motion_acceptance_def)
  have acc: "step_ok request c (reply_encoded request (map_error MotionPayloadException
      (encode_motion_acceptance \<lparr>mc_sequence = ms_sequence d, mc_start_time_ns = t,
      mc_duration_ns = ms_duration_ns d, mc_final_segment = ms_final_segment d\<rparr>)) (c\<lparr>co_motion := Some m'\<rparr>))"
    if dec: "decode_motion_segment bs = Inr d" and okm: "core_ok (c\<lparr>co_motion := Some m'\<rparr>)" for bs d t m'
  proof -
    obtain body where "encode_motion_acceptance \<lparr>mc_sequence = ms_sequence d, mc_start_time_ns = t,
      mc_duration_ns = ms_duration_ns d, mc_final_segment = ms_final_segment d\<rparr> = Inr body" "length body = 24"
      using enc [OF dec] by blast
    then show ?thesis using okm by (intro reply_encoded_ok) (auto simp: packet_consts)
  qed
  show ?thesis
    unfolding handle_motion_enqueue_def
    by (intro outcome_if outcome_option outcome_sum outcome_run reply_ok acc ok) (auto intro: keep)
qed

lemma with_motion_ok:
  assumes "core_ok c" "\<And>m. co_motion c = Some m \<Longrightarrow> executor_reachable m \<Longrightarrow> step_ok request c (act m)"
  shows "step_ok request c (with_motion request c act)"
  unfolding with_motion_def using assms core_okD(11) [OF assms(1)]
  by (intro outcome_if outcome_option reply_ok) auto

lemma u16_of_small: "n \<le> 1024 \<Longrightarrow> unat (word_of_nat n :: u16) = n"
  by (rule unat_of_nat_small) simp

lemma motion_status_encoded:
  assumes "executor_reachable m"
  shows "\<exists>bs. encode_motion_status (motion_status_payload_of (executor_status m)) = Inr bs \<and> length bs \<le> 1628"
proof -
  let ?p = "motion_status_payload_of (executor_status m)"
  let ?axes = "me_axes m"
  have sh: "?axes \<noteq> []" "length ?axes \<le> 64" "\<forall>a \<in> set ?axes. axis_id a \<noteq> 0"
    "me_queue_capacity m \<le> 1024" "mm_maximum_queue_depth (me_metrics m) \<le> me_queue_capacity m"
    using executor_reachable_shape [OF assms]
    by (auto simp: executor_shape_def executor_static_def kMaximumMotionAxes_def)
  have q: "length (me_queue m) \<le> me_queue_capacity m"
    using executor_reachable_ok [OF assms] by (simp add: executor_ok_def)
  have axes: "\<exists>bss. traverse encode_axis_status (st_axes ?p) = Inr bss"
  proof -
    have "\<exists>bss. traverse encode_axis_status xs = Inr bss" if "\<forall>a \<in> set xs. as_resource_id a \<noteq> 0" for xs
      using that by (induction xs) (auto simp: encode_axis_status_def)
    then show ?thesis using sh(3) by (simp add: motion_status_payload_of_def executor_status_def Let_def)
  qed
  then obtain bss where bss: "traverse encode_axis_status (st_axes ?p) = Inr bss" by blast
  have len: "length (st_axes ?p) = length ?axes"
    by (simp add: motion_status_payload_of_def executor_status_def Let_def)
  have depths: "\<not> st_queue_depth ?p > st_queue_capacity ?p"
    "\<not> mp_maximum_queue_depth (st_metrics ?p) > st_queue_capacity ?p"
    using sh(4,5) q
    by (simp_all add: motion_status_payload_of_def executor_status_def Let_def word_less_nat_alt u16_of_small)
  have "length (concat bss) = 24 * length ?axes"
    using axis_status_wire.enc_list_length [OF bss] len by simp
  then show ?thesis
    using sh(1,2) bss depths len
    by (simp add: encode_motion_status_def validate_axis_count_def kMaximumMotionAxes_def)
qed

lemma motion_status_ok:
  assumes ok: "core_ok c"
  shows "step_ok request c (handle_motion_status request c)"
  unfolding handle_motion_status_def
proof (rule with_motion_ok [OF ok])
  fix m
  assume "executor_reachable m"
  from motion_status_encoded [OF this]
  obtain bs where "encode_motion_status (motion_status_payload_of (executor_status m)) = Inr bs" "length bs \<le> 1628"
    by blast
  then show "step_ok request c (reply_encoded request (map_error MotionPayloadException
       (encode_motion_status (motion_status_payload_of (executor_status m)))) c)"
    using ok by (intro reply_encoded_ok) (auto simp: packet_consts)
qed

lemma motion_abort_ok:
  assumes ok: "core_ok c"
  shows "step_ok request c (handle_motion_abort request c)"
  unfolding handle_motion_abort_def
proof (rule with_motion_ok [OF ok])
  fix m
  assume r: "executor_reachable m"
  have "core_ok (c\<lparr>co_motion := Some m'\<rparr>)" if "abort t f m = (x, m')" for t f x m'
    using executor_reachable_abort [OF r, of t f] that by (intro core_ok_motion [OF ok]) simp
  then show "step_ok request c (case abort (me_now_ns m) MF_Aborted m of
       (Inl e, m') \<Rightarrow> reply request
         (if e = FaultLatched then SC_ResourceFailed else SC_InvalidPayload) (c\<lparr>co_motion := Some m'\<rparr>)
     | (Inr _, m') \<Rightarrow> reply request SC_Ok (c\<lparr>co_motion := Some m'\<rparr>))"
    by (intro outcome_run reply_ok) auto
qed

lemma motion_clear_ok:
  assumes ok: "core_ok c"
  shows "step_ok request c (handle_motion_clear_fault request c)"
  unfolding handle_motion_clear_fault_def
proof (rule with_motion_ok [OF ok])
  fix m
  assume r: "executor_reachable m"
  have "core_ok (c\<lparr>co_motion := Some m'\<rparr>)" if "clear_fault m = (x, m')" for x m'
    using executor_reachable_clear [OF r] that by (intro core_ok_motion [OF ok]) simp
  then show "step_ok request c (case clear_fault m of
       (Inl _, m') \<Rightarrow> reply request SC_ResourceBusy (c\<lparr>co_motion := Some m'\<rparr>)
     | (Inr _, m') \<Rightarrow> reply request SC_Ok (c\<lparr>co_motion := Some m'\<rparr>))"
    by (intro outcome_run reply_ok) auto
qed

subsection \<open>The whole core\<close>

lemma core_expire_ok: "core_ok c \<Longrightarrow> core_ok (snd (expire_leases now c))"
  unfolding expire_leases_eq by (rule purge_ok)

lemma release_session_ok: "core_ok c \<Longrightarrow> core_ok (snd (release_session s c))"
  by (simp add: release_session_def purge_leases_eq purge_ok)

lemma expire_catalog [simp]:
  "co_resources (snd (expire_leases now c)) = co_resources c"
  "co_contracts (snd (expire_leases now c)) = co_contracts c"
  by (simp_all add: expire_leases_eq)

lemmas handler_ok = get_info_ok get_capability_ok ping_ok bootloader_ok resource_enum_ok
  resource_describe_ok resource_status_ok resource_reset_ok resource_contract_ok acquire_ok renew_ok
  release_ok lease_status_ok gpio_create_ok gpio_read_ok gpio_write_ok uart_create_ok uart_read_ok
  uart_write_ok motion_enqueue_ok motion_status_ok motion_abort_ok motion_clear_ok

lemma dispatch_ok:
  assumes "core_ok c" "catalog_ok (co_resources c)"
  shows "step_ok request c (dispatch k request now c)"
  unfolding dispatch_def using assms by (cases k) (simp_all add: handler_ok reply_ok)

lemma handle_ok:
  assumes "core_ok c" "catalog_ok (co_resources c)"
    and "ph_message_type (header request) = message_type_code Request"
    and "ph_version (header request) = kProtocolVersion"
  shows "step_ok request c (handle request now c)"
proof -
  let ?c = "snd (expire_leases now c)"
  have "step_ok request ?c (case command_of (ph_command (header request)) of
      None \<Rightarrow> reply request SC_UnknownCommand ?c | Some k \<Rightarrow> dispatch k request now ?c)"
    using core_expire_ok [OF assms(1)] assms(2) by (intro outcome_option reply_ok dispatch_ok) simp_all
  then show ?thesis using assms(3,4) by (simp add: handle_def Let_def step_ok_def)
qed

end
