(* ===== verification/Core_Reachable.thy ===== *)
theory Core_Reachable
  imports Core_Safety
begin

text \<open>
  The reachable states of a remote core, with two properties of all of them: every request is
  answered, and leases are exclusive; and what acquiring a lease decides.
\<close>

subsection \<open>Reachable cores\<close>

lemma poll_objects_same:
  "map (\<lambda>e. (fst e, uo_port (snd e), uart_holder (snd e), uo_streaming (snd e)))
       (fst (snd (poll_objects n objs u))) =
   map (\<lambda>e. (fst e, uo_port (snd e), uart_holder (snd e), uo_streaming (snd e))) objs"
proof (induction objs arbitrary: u)
  case (Cons e objs)
  obtain k obj where e: "e = (k, obj)" by (cases e)
  obtain r u1 where r: "uart_read (uo_port obj) n u = (r, u1)" by (cases "uart_read (uo_port obj) n u")
  show ?case using Cons.IH [of u] Cons.IH [of u1]
    by (cases r) (auto simp: e r uart_holder_def split_beta Let_def)
qed simp

lemma core_poll_ok:
  assumes ok: "core_ok c"
  shows "core_ok (snd (poll_uart_events n c))"
proof (cases "co_uart_bsp c")
  case None
  then show ?thesis using ok by (simp add: poll_uart_events_def)
next
  case (Some u)
  note d = core_okD [OF ok]
  obtain events objs u' where p: "poll_objects n (co_uart_objects c) u = (events, objs, u')"
    by (cases "poll_objects n (co_uart_objects c) u") auto
  let ?v = "\<lambda>e. (fst e, uo_port (snd e), uart_holder (snd e), uo_streaming (snd e))"
  have eq: "map ?v objs = map ?v (co_uart_objects c)"
    using poll_objects_same [of n "co_uart_objects c" u] p by simp
  have keys: "hkeys objs = hkeys (co_uart_objects c)"
    using arg_cong [OF eq, of "map fst"] by (simp add: comp_def)
  have ports: "map (\<lambda>e. uo_port (snd e)) objs = map (\<lambda>e. uo_port (snd e)) (co_uart_objects c)"
    using arg_cong [OF eq, of "map (fst \<circ> snd)"] by (simp add: comp_def)
  have holders: "map (\<lambda>e. uart_holder (snd e)) objs = map (\<lambda>e. uart_holder (snd e)) (co_uart_objects c)"
    using arg_cong [OF eq, of "map (fst \<circ> snd \<circ> snd)"] by (simp add: comp_def)
  have h: "holder_ok (co_leases c) (uart_holder (snd e))" if "e \<in> set objs" for e
  proof -
    have "uart_holder (snd e) \<in> set (map (\<lambda>e. uart_holder (snd e)) (co_uart_objects c))"
      using that unfolding holders [symmetric] by force
    then show ?thesis using d(10) by auto
  qed
  have "core_ok (c\<lparr>co_uart_objects := objs, co_uart_bsp := Some u'\<rparr>)"
    by (rule core_okI) (use d h keys ports in \<open>simp_all del: map_of_eq_Some_iff\<close>)
  then show ?thesis using ok Some p by (simp add: poll_uart_events_def)
qed

text \<open>
  What may happen to a core: its operations, the passing of time in its motion executor, and the
  outside of its back ends, which the simulation injects.
\<close>

inductive core_step :: "remote_core \<Rightarrow> remote_core \<Rightarrow> bool" where
  core_handle: "handle request now c = (r, c') \<Longrightarrow> catalog_ok (co_resources c) \<Longrightarrow> core_step c c'"
| core_expire: "expire_leases now c = (n, c') \<Longrightarrow> core_step c c'"
| core_release: "release_session s c = (n, c') \<Longrightarrow> core_step c c'"
| core_poll: "poll_uart_events n c = (r, c') \<Longrightarrow> core_step c c'"
| core_motion: "co_motion c = Some m \<Longrightarrow> executor_step m m' \<Longrightarrow> core_step c (c\<lparr>co_motion := Some m'\<rparr>)"
| core_input: "co_gpio_bsp c = Some b \<Longrightarrow> core_step c (c\<lparr>co_gpio_bsp := Some (snd (set_input_value pin v b))\<rparr>)"
| core_uart: "core_step c (c\<lparr>co_uart_bsp := Some u\<rparr>)"

inductive core_reachable :: "remote_core \<Rightarrow> bool" where
  core_new: "remote_core_new info capabilities gpio uart resources contracts motion = Inr c \<Longrightarrow>
    (\<And>m. motion = Some m \<Longrightarrow> executor_reachable m) \<Longrightarrow> core_reachable c"
| core_next: "core_reachable c \<Longrightarrow> core_step c c' \<Longrightarrow> core_reachable c'"

lemma check_resources_ids:
  "check_resources ids rs = Inr ids' \<Longrightarrow> \<forall>r \<in> set rs. rd_resource_id r \<noteq> 0"
  by (induction ids rs rule: check_resources.induct) (auto split: if_splits)

lemma check_contracts_versions:
  "check_contracts rids ids ks = Inr x \<Longrightarrow> \<forall>k \<in> set ks. rc_version k = kResourceContractVersion"
  by (induction rids ids ks rule: check_contracts.induct) (auto simp: Let_def split: if_splits)

lemma remote_core_new_ok:
  assumes "remote_core_new info capabilities gpio uart resources contracts motion = Inr c"
    and "\<And>m. motion = Some m \<Longrightarrow> executor_reachable m"
  shows "core_ok c"
  using assms by (auto simp: remote_core_new_def try_bind_Inr_iff core_ok_def ids_ok_def pins_ok_def
      dest!: check_resources_ids check_contracts_versions split: if_splits)

lemma handle_keeps:
  assumes "core_ok c" "catalog_ok (co_resources c)"
  shows "core_ok (snd (handle request now c))"
proof (cases "ph_message_type (header request) = message_type_code Request \<and>
    ph_version (header request) = kProtocolVersion")
  case True
  then show ?thesis using handle_ok [OF assms, of request now] by (auto simp: step_ok_def)
next
  case False
  then show ?thesis using assms(1) by (auto simp: handle_def)
qed

lemma core_step_ok: "core_step c c' \<Longrightarrow> core_ok c \<Longrightarrow> core_ok c'"
proof (induction rule: core_step.induct)
  case (core_handle request now c r c')
  then show ?case using handle_keeps [of c request now] by simp
next
  case (core_expire now c n c')
  then show ?case using core_expire_ok [of c now] by simp
next
  case (core_release s c n c')
  then show ?case using release_session_ok [of c s] by simp
next
  case (core_poll n c r c')
  then show ?case using core_poll_ok [of c n] by simp
next
  case (core_motion c m m')
  then show ?case using core_okD(11) [of c m] by (blast intro: core_ok_motion reach_step)
next
  case (core_input c b pin v)
  have "map_option pin_direction (map_of (gb_pins (snd (set_input_value pin v b))) q) =
      map_option pin_direction (map_of (gb_pins b) q)" for q
    by (auto simp: set_input_value_def split: option.split)
  then show ?case using core_input by (intro core_ok_gpio) auto
next
  case (core_uart c u)
  then show ?case by simp
qed

lemma core_reachable_ok: "core_reachable c \<Longrightarrow> core_ok c"
  by (induction rule: core_reachable.induct) (auto intro: remote_core_new_ok core_step_ok)

subsection \<open>A small core\<close>

text \<open>
  A core with one GPIO pin that has to be leased: session 5 leases it for a second at time 0 and
  then creates an output on it.
\<close>

definition demo_info :: node_info where
  "demo_info = \<lparr>nf_uuid = copy_uuid [], nf_firmware_major = 1, nf_firmware_minor = 0,
     nf_firmware_patch = 0, nf_board_type = 1, nf_protocol_version = 1\<rparr>"

definition demo_core :: remote_core where
  "demo_core = \<lparr>co_node_info = demo_info, co_capabilities = 1, co_gpio_bsp = Some mock_gpio_new,
     co_uart_bsp = None, co_motion = None,
     co_resources = [\<lparr>rd_resource_id = 7, rd_type = 1, rd_instance = 3, rd_flags = 1,
       rd_rx_capacity = 0, rd_tx_capacity = 0\<rparr>],
     co_contracts = [\<lparr>rc_resource_id = 7, rc_version = 1, rc_access_flags = 0x30,
       rc_timing_resolution_ns = 0, rc_worst_case_latency_us = 0, rc_maximum_operations_per_second = 0,
       rc_queue_capacity = 0, rc_maximum_rx_bits_per_second = 0, rc_maximum_tx_bits_per_second = 0\<rparr>],
     co_leases = [], co_gpio_objects = [], co_uart_objects = [],
     co_next_object_id = 1, co_next_lease_id = 1, co_bootloader_requested = False\<rparr>"

definition demo_request :: "command \<Rightarrow> u32 \<Rightarrow> u32 \<Rightarrow> byte list \<Rightarrow> packet" where
  "demo_request k session object body =
     \<lparr>header = default_header\<lparr>ph_command := command_code k, ph_session_id := session,
        ph_object_id := object\<rparr>, payload = body\<rparr>"

definition demo_acquire :: packet where
  "demo_acquire = demo_request ResourceAcquire 5 0 [7, 0, 0, 0, 0xE8, 3, 0, 0, 2]"

definition demo_create :: packet where
  "demo_create = demo_request GpioCreate 5 0 [3, 0, 1, 1]"

definition demo_lease :: lease where
  "demo_lease = \<lparr>le_lease_id = 1, le_owner_session_id = 5, le_granted_duration_ms = 1000,
     le_mode = 2, le_expires_at = ms 1000\<rparr>"

definition demo_object :: gpio_object where
  "demo_object = \<lparr>go_pin = 3, go_direction = GD_Output, go_resource_id = 7, go_owner_session_id = 5\<rparr>"

definition demo_leased :: remote_core where
  "demo_leased = demo_core\<lparr>co_leases := [(7, [demo_lease])], co_next_lease_id := 2\<rparr>"

definition demo_owned :: remote_core where
  "demo_owned = demo_leased\<lparr>co_gpio_bsp := Some (gpio_configure 3 GD_Output True mock_gpio_new),
     co_gpio_objects := [(1, demo_object)], co_next_object_id := 2\<rparr>"

lemmas demo_defs = demo_core_def demo_acquire_def demo_create_def demo_request_def default_header_def
  packet_consts demo_leased_def demo_lease_def demo_owned_def demo_object_def

lemmas handle_defs = handle_def expire_leases_def purge_leases_def command_of_def core_commands_def
  dispatch_def reply_def object_response_def Let_def

lemmas lease_defs = handle_resource_acquire_def decode_resource_lease_request_def resource_sizes
  valid_lease_mode_def get_u32_def get_u16_def kMinimumLeaseDurationMs_def kMaximumLeaseDurationMs_def
  find_resource_def find_instance_def find_contract_def lease_supported_def has_flag_def
  kResourceAccessLeaseSupported_def kResourceAccessLeaseRequired_def lease_conflict_def
  resource_has_objects_def hput_def lease_info_reply_def reply_encoded_def next_lease_id_def
  has_capability_def claim_resource_def lease_denies_def session_has_exclusive_lease_def
  handle_gpio_create_def hemplace_def

lemma demo_core_reachable: "core_reachable demo_core"
proof (rule core_new)
  show "remote_core_new demo_info 1 (Some mock_gpio_new) None (co_resources demo_core)
      (co_contracts demo_core) None = Inr demo_core"
    by (simp add: remote_core_new_def demo_core_def demo_info_def packet_consts has_flag_def
        kResourceContractVersion_def kResourceAccessLeaseRequired_def kResourceAccessLeaseSupported_def)
qed simp

lemma reachable_handle:
  "core_reachable c \<Longrightarrow> catalog_ok (co_resources c) \<Longrightarrow> core_reachable (snd (handle request now c))"
  by (metis core_handle core_next prod.collapse)

lemma demo_acquired: "snd (handle demo_acquire 0 demo_core) = demo_leased"
  by (simp add: demo_defs handle_defs lease_defs)

lemma demo_created: "snd (handle demo_create 1 demo_leased) = demo_owned"
  by (simp add: demo_defs handle_defs lease_defs ms_def)

lemma demo_reachable_cores: "core_reachable demo_leased" "core_reachable demo_owned"
  "catalog_ok (co_resources demo_core)" "catalog_ok (co_resources demo_leased)"
proof -
  show a: "catalog_ok (co_resources demo_core)"
    by (simp add: catalog_ok_def demo_core_def valid_type_def)
  then show b: "catalog_ok (co_resources demo_leased)" by (simp add: demo_leased_def)
  show c: "core_reachable demo_leased"
    using reachable_handle [OF demo_core_reachable a, of demo_acquire 0] by (simp add: demo_acquired)
  show "core_reachable demo_owned"
    using reachable_handle [OF c b, of demo_create 1] by (simp add: demo_created)
qed

subsection \<open>Every request is answered\<close>

text \<open>
  C13. A reachable core with an encodable catalogue answers every request of its protocol version:
  no exception leaves \<^verbatim>\<open>handle\<close>, the response echoes command, session and request id, carries a
  known status whose error flag agrees with it, can be encoded as a packet, and the core stays
  reachable.
\<close>

theorem core_answers:
  assumes "core_reachable c" "catalog_ok (co_resources c)"
    and "ph_message_type (header request) = message_type_code Request"
    and "ph_version (header request) = kProtocolVersion"
  shows "\<exists>p c' bs. handle request now c = (Inr p, c') \<and> answers request p \<and> encode p = Inr bs \<and>
    core_reachable c'"
proof -
  obtain p c' where h: "handle request now c = (Inr p, c')" "answers request p"
    using handle_ok [OF core_reachable_ok [OF assms(1)] assms(2-4), of now] by (auto simp: step_ok_def)
  moreover have "core_reachable c'" by (rule core_next [OF assms(1) core_handle [OF h(1) assms(2)]])
  ultimately show ?thesis using answers_encodable [OF h(2)] by blast
qed

theorem core_answers_witness:
  "\<exists>p c' bs. handle demo_create 1 demo_leased = (Inr p, c') \<and> answers demo_create p \<and>
    encode p = Inr bs \<and> core_reachable c'"
  by (rule core_answers) (simp_all add: demo_reachable_cores demo_create_def demo_request_def default_header_def)

subsection \<open>Leases are exclusive\<close>

text \<open>
  C14. In every reachable core an exclusive lease is the only lease of its resource, no session
  holds two leases of one resource, and an object on a leased resource belongs to the session with
  the exclusive lease; so a resource leased for shared reading has no objects.
\<close>

theorem leases_exclusive:
  assumes "core_reachable c" "map_of (co_leases c) r = Some es"
  shows "es \<noteq> [] \<and> distinct (map le_owner_session_id es) \<and>
    (\<forall>l \<in> set es. le_mode l = lease_mode_code LM_Exclusive \<longrightarrow> es = [l]) \<and>
    (\<forall>p \<in> gpio_holder ` snd ` set (co_gpio_objects c) \<union> uart_holder ` snd ` set (co_uart_objects c).
       fst p = r \<longrightarrow> session_has_exclusive_lease r (snd p) c)"
proof -
  note ok = core_reachable_ok [OF assms(1)]
  note d = core_okD [OF ok]
  have "es = [l]" if "l \<in> set es" "le_mode l = lease_mode_code LM_Exclusive" for l
  proof -
    have "length es = 1" using d(5) [OF assms(2)] that unfolding entries_ok_def by blast
    then show ?thesis using that(1) by (cases es) auto
  qed
  moreover have "holder_ok (co_leases c) p"
    if "p \<in> gpio_holder ` snd ` set (co_gpio_objects c) \<union> uart_holder ` snd ` set (co_uart_objects c)" for p
    using that d(9,10) by auto
  then have "\<forall>p \<in> gpio_holder ` snd ` set (co_gpio_objects c) \<union> uart_holder ` snd ` set (co_uart_objects c).
       fst p = r \<longrightarrow> session_has_exclusive_lease r (snd p) c"
    using assms(2) unfolding exclusive_iff holder_ok_def by (metis option.distinct(1))
  ultimately show ?thesis using d(5) [OF assms(2)] unfolding entries_ok_def by blast
qed

theorem leases_exclusive_witness:
  "map_of (co_leases demo_owned) 7 = Some [demo_lease] \<and>
   session_has_exclusive_lease 7 5 demo_owned \<and> go_owner_session_id demo_object = 5"
proof -
  have leased: "map_of (co_leases demo_owned) 7 = Some [demo_lease]"
    by (simp add: demo_owned_def demo_leased_def)
  have "gpio_holder demo_object \<in> gpio_holder ` snd ` set (co_gpio_objects demo_owned)"
    by (simp add: demo_owned_def)
  then show ?thesis
    using leased bspec [OF conjunct2 [OF conjunct2 [OF conjunct2 [OF leases_exclusive [OF demo_reachable_cores(2) leased]]]],
        of "gpio_holder demo_object"]
    by (simp add: demo_object_def gpio_holder_def)
qed

subsection \<open>Acquiring\<close>

lemma entries_of_reachable:
  "core_ok c \<Longrightarrow> (case map_of (co_leases c) r of None \<Rightarrow> [] | Some es \<Rightarrow> es) = [] \<longleftrightarrow> map_of (co_leases c) r = None"
  using core_okD(5) [of c r] by (auto simp: entries_ok_def split: option.split)

lemma granted_lease_info:
  assumes "100 \<le> d" "d \<le> 60000"
    and "map_of (co_leases c) r = Some [\<lparr>le_lease_id = i, le_owner_session_id = s,
      le_granted_duration_ms = d, le_mode = m, le_expires_at = now + ms (uint d)\<rparr>]"
  shows "make_lease_info r s now c = \<lparr>li_resource_id = r, li_lease_id = i, li_owner_session_id = s,
      li_granted_duration_ms = d, li_remaining_ms = d, li_mode = m, li_active_lease_count = 1\<rparr>"
proof -
  have d: "0 < uint d" "uint d \<le> 60000"
    using assms(1,2) by (simp_all add: word_le_def)
  then have "(ms (uint d)) div ms 1 = uint d" by (simp add: ms_def)
  then show ?thesis using assms(3) d by (simp add: make_lease_info_def Let_def)
qed

text \<open>
  C15. A well-formed request for an exclusive lease of a leasable resource is decided by the state of
  the resource alone. A free resource is leased: the response carries the lease as the client
  decodes it, with the full duration left, and the session is the only one with a lease of it. A
  resource that has a lease or an object is busy, and the core is left exactly as it was.
\<close>

theorem acquire_exclusive:
  assumes "core_reachable c"
    and "ph_object_id (header request) = 0" "ph_session_id (header request) \<noteq> 0"
    and "decode_resource_lease_request (payload request) = Inr q"
    and "lr_mode q = lease_mode_code LM_Exclusive"
    and "kMinimumLeaseDurationMs \<le> lr_duration_ms q" "lr_duration_ms q \<le> kMaximumLeaseDurationMs"
    and "find_resource (lr_resource_id q) c \<noteq> None" "lease_supported (lr_resource_id q) c"
  shows "if map_of (co_leases c) (lr_resource_id q) = None \<and> \<not> resource_has_objects (lr_resource_id q) c
    then \<exists>p c'. handle_resource_acquire request now c = (Inr p, c') \<and> ph_flags (header p) = 0 \<and>
      decode_resource_lease_info (tl (payload p)) = Inr
        \<lparr>li_resource_id = lr_resource_id q, li_lease_id = co_next_lease_id c,
         li_owner_session_id = ph_session_id (header request), li_granted_duration_ms = lr_duration_ms q,
         li_remaining_ms = lr_duration_ms q, li_mode = lr_mode q, li_active_lease_count = 1\<rparr> \<and>
      (\<forall>s. session_has_exclusive_lease (lr_resource_id q) s c' \<longleftrightarrow> s = ph_session_id (header request))
    else handle_resource_acquire request now c = (Inr (make_response request SC_ResourceBusy), c)"
proof -
  let ?r = "lr_resource_id q" and ?s = "ph_session_id (header request)"
  note ok = core_reachable_ok [OF assms(1)]
  define es where "es = (case map_of (co_leases c) ?r of None \<Rightarrow> [] | Some es \<Rightarrow> es)"
  have es: "es = [] \<longleftrightarrow> map_of (co_leases c) ?r = None"
    unfolding es_def by (rule entries_of_reachable [OF ok])
  have conflict: "lease_conflict ?r ?s (lr_mode q) es c \<longleftrightarrow> es \<noteq> [] \<or> resource_has_objects ?r c"
    using assms(5) by (auto simp: lease_conflict_def)
  define l where "l = \<lparr>le_lease_id = co_next_lease_id c, le_owner_session_id = ?s,
    le_granted_duration_ms = lr_duration_ms q, le_mode = lr_mode q,
    le_expires_at = now + ms (uint (lr_duration_ms q))\<rparr>"
  define c1 where "c1 = c\<lparr>co_next_lease_id := next_lease_id (co_next_lease_id c),
    co_leases := hput ?r (es @ [l]) (co_leases c)\<rparr>"
  have range: "(lr_duration_ms q < kMinimumLeaseDurationMs \<or> lr_duration_ms q > kMaximumLeaseDurationMs) = False"
    and known: "(find_resource ?r c = None) = False"
    and sized: "(ph_object_id (header request) \<noteq> 0 \<or> ?s = 0) = False"
    and shared: "(lr_mode q = lease_mode_code LM_SharedRead) = False"
    using assms(2,3,5-8) by (simp_all add: not_less)
  have eq: "handle_resource_acquire request now c =
    (if es \<noteq> [] \<or> resource_has_objects ?r c
     then reply request SC_ResourceBusy (if es = [] then c\<lparr>co_leases := herase ?r (co_leases c)\<rparr> else c)
     else lease_info_reply request ?r now c1)"
    unfolding handle_resource_acquire_def Let_def range known sized shared assms(4) sum.case if_False
      es_def [symmetric] conflict l_def c1_def
    using assms(9) by simp
  show ?thesis
  proof (cases "map_of (co_leases c) ?r = None \<and> \<not> resource_has_objects ?r c")
    case True
    then have lookup: "map_of (co_leases c1) ?r = Some [l]" using es by (simp add: c1_def)
    have info: "make_lease_info ?r ?s now c1 = \<lparr>li_resource_id = ?r, li_lease_id = co_next_lease_id c,
        li_owner_session_id = ?s, li_granted_duration_ms = lr_duration_ms q,
        li_remaining_ms = lr_duration_ms q, li_mode = lr_mode q, li_active_lease_count = 1\<rparr>" (is "_ = ?info")
      using granted_lease_info [OF _ _ lookup [unfolded l_def]] assms(6,7)
      by (simp add: kMinimumLeaseDurationMs_def kMaximumLeaseDurationMs_def)
    have "valid_lease_mode (li_mode ?info) True" using assms(5) by (simp add: valid_lease_mode_def)
    then obtain bs where "encode_resource_lease_info ?info = Inr bs" using lease_info_encoded by blast
    moreover have "session_has_exclusive_lease ?r s c1 \<longleftrightarrow> s = ?s" for s
      using lookup assms(5) by (auto simp: session_has_exclusive_lease_def l_def)
    ultimately show ?thesis
      using True es lease_info_wire.dec_iff [of bs ?info]
      by (simp add: eq lease_info_reply_def info reply_encoded_def ok_response_def make_response_def Let_def)
  next
    case False
    moreover have "c\<lparr>co_leases := herase ?r (co_leases c)\<rparr> = c" if "es = []"
      using that es by (simp add: herase_absent)
    ultimately show ?thesis using es by (auto simp: eq reply_def)
  qed
qed

theorem acquire_exclusive_witness:
  "handle_resource_acquire (demo_request ResourceAcquire 6 0 [7, 0, 0, 0, 0xE8, 3, 0, 0, 2]) 1 demo_owned =
    (Inr (make_response (demo_request ResourceAcquire 6 0 [7, 0, 0, 0, 0xE8, 3, 0, 0, 2]) SC_ResourceBusy),
     demo_owned)"
  using acquire_exclusive [OF demo_reachable_cores(2),
      of "demo_request ResourceAcquire 6 0 [7, 0, 0, 0, 0xE8, 3, 0, 0, 2]"
         "\<lparr>lr_resource_id = 7, lr_duration_ms = 1000, lr_mode = 2\<rparr>" 1]
  by (simp add: demo_defs lease_defs)

end
