(* ===== verification/Core_Isolation.thy ===== *)
theory Core_Isolation
  imports Core_Reachable
begin

text \<open>
  What leases are for: an expired session leaves safe outputs, and no session disturbs the objects
  of another session that holds an exclusive lease.
\<close>

subsection \<open>Expired leases leave safe outputs\<close>

definition core_level :: "remote_core \<Rightarrow> u16 \<Rightarrow> bool option" where
  "core_level c pin = (case co_gpio_bsp c of None \<Rightarrow> None | Some b \<Rightarrow> output_level b pin)"

definition released_output :: "(u32 \<times> u32) set \<Rightarrow> u16 \<Rightarrow> remote_core \<Rightarrow> bool" where
  "released_output P pin c \<longleftrightarrow> (\<exists>e \<in> set (co_gpio_objects c).
     gpio_holder (snd e) \<in> P \<and> go_direction (snd e) = GD_Output \<and> go_pin (snd e) = pin)"

lemma release_level:
  "core_level (release_resource_objects r s c) pin =
     (if core_level c pin \<noteq> None \<and> released_output {(r, s)} pin c then Some False else core_level c pin)"
proof (cases "co_gpio_bsp c")
  case None
  then show ?thesis by (simp add: core_level_def)
next
  case (Some b)
  obtain b' where b': "snd (release_gpio r s (co_gpio_objects c) (Some b)) = Some b'"
    "\<And>pin. output_level b' pin =
        (if output_level b pin \<noteq> None \<and>
            (\<exists>e \<in> set (co_gpio_objects c). gpio_owned r s (snd e) \<and> go_direction (snd e) = GD_Output \<and>
               go_pin (snd e) = pin)
         then Some False else output_level b pin)"
    using release_gpio_Some [of r s "co_gpio_objects c" b] by blast
  have eq: "gpio_owned r s obj \<longleftrightarrow> gpio_holder obj \<in> {(r, s)}" for obj
    by (auto simp: gpio_owned_def gpio_holder_def)
  show ?thesis unfolding core_level_def released_output_def release_fields Some option.case b'(1) b'(2) eq
    by simp
qed

lemma release_all_level:
  "core_level (release_all rs c) pin =
     (if core_level c pin \<noteq> None \<and> released_output (set rs) pin c then Some False else core_level c pin)"
proof (induction rs arbitrary: c)
  case Nil
  then show ?case by (simp add: released_output_def)
next
  case (Cons p rs)
  let ?c = "release_resource_objects (fst p) (snd p) c"
  have eq: "co_gpio_objects ?c = filter (\<lambda>e. gpio_holder (snd e) \<noteq> p) (co_gpio_objects c)"
    by (cases p) (auto simp: gpio_owned_def gpio_holder_def intro!: filter_cong)
  have "released_output (set rs) pin ?c \<longleftrightarrow>
    (\<exists>e \<in> set (co_gpio_objects c). gpio_holder (snd e) \<in> set rs - {p} \<and>
       go_direction (snd e) = GD_Output \<and> go_pin (snd e) = pin)"
    unfolding released_output_def eq set_filter by blast
  moreover have "released_output (set (p # rs)) pin c \<longleftrightarrow> released_output {p} pin c \<or>
    (\<exists>e \<in> set (co_gpio_objects c). gpio_holder (snd e) \<in> set rs - {p} \<and>
       go_direction (snd e) = GD_Output \<and> go_pin (snd e) = pin)"
    by (auto simp: released_output_def)
  ultimately show ?case using Cons.IH [of ?c] release_level [of "fst p" "snd p" c pin] by auto
qed

text \<open>The objects have distinct pins, so only its own release touches the level of an object.\<close>

lemma pins_distinct:
  assumes "core_ok c" "e \<in> set (co_gpio_objects c)" "x \<in> set (co_gpio_objects c)"
    "go_pin (snd x) = go_pin (snd e)"
  shows "x = e"
proof -
  have "inj_on (\<lambda>e. go_pin (snd e)) (set (co_gpio_objects c))"
    using core_okD(7) [OF assms(1)] by (simp add: pins_ok_def comp_def distinct_map)
  then show ?thesis by (rule inj_onD [OF _ assms(4,3,2)])
qed

lemma released_own:
  "core_ok c \<Longrightarrow> e \<in> set (co_gpio_objects c) \<Longrightarrow>
   released_output P (go_pin (snd e)) c \<longleftrightarrow> gpio_holder (snd e) \<in> P \<and> go_direction (snd e) = GD_Output"
  using pins_distinct [of c e] by (auto simp: released_output_def)

lemma object_level:
  assumes "core_ok c" "e \<in> set (co_gpio_objects c)" "go_direction (snd e) = GD_Output"
  shows "core_level c (go_pin (snd e)) \<noteq> None"
proof -
  have "snd e \<in> set (map snd (co_gpio_objects c))" using assms(2) by simp
  then show ?thesis using core_okD(7) [OF assms(1)] assms(3)
    by (auto simp: pins_ok_def core_level_def output_level_def)
qed

text \<open>A session whose lease on a resource has expired.\<close>

definition lease_expired :: "time \<Rightarrow> remote_core \<Rightarrow> u32 \<times> u32 \<Rightarrow> bool" where
  "lease_expired now c p \<longleftrightarrow> (\<exists>es l. map_of (co_leases c) (fst p) = Some es \<and> l \<in> set es \<and>
     le_expires_at l \<le> now \<and> le_owner_session_id l = snd p)"

text \<open>
  C16. After expiring leases at a time, exactly the leases that end later are left; an object of a
  session whose lease on the resource has expired is gone, and the output it drove is low; the
  objects and levels of all other sessions are as before.
\<close>

theorem expiry_safe:
  assumes "core_reachable c" "expire_leases now c = (n, c')"
  shows "(\<forall>r l. (\<exists>es. map_of (co_leases c') r = Some es \<and> l \<in> set es) \<longleftrightarrow>
           (\<exists>es. map_of (co_leases c) r = Some es \<and> l \<in> set es) \<and> now < le_expires_at l) \<and>
    (\<forall>e. e \<in> set (co_gpio_objects c') \<longleftrightarrow> e \<in> set (co_gpio_objects c) \<and> \<not> lease_expired now c (gpio_holder (snd e))) \<and>
    (\<forall>e. e \<in> set (co_uart_objects c') \<longleftrightarrow> e \<in> set (co_uart_objects c) \<and> \<not> lease_expired now c (uart_holder (snd e))) \<and>
    (\<forall>e \<in> set (co_gpio_objects c). go_direction (snd e) = GD_Output \<longrightarrow>
       core_level c' (go_pin (snd e)) =
         (if lease_expired now c (gpio_holder (snd e)) then Some False else core_level c (go_pin (snd e))))"
proof -
  note ok = core_reachable_ok [OF assms(1)]
  note m = core_okD(3) [OF ok]
  let ?gone = "\<lambda>l. le_expires_at l \<le> now" and ?m = "co_leases c"
  have c': "c' = (release_all (purged ?gone ?m) c)\<lparr>co_leases := kept_leases ?gone ?m\<rparr>"
    using expire_leases_eq [of now c] assms(2) by simp
  have ex: "p \<in> set (purged ?gone ?m) \<longleftrightarrow> lease_expired now c p" for p
    using purged_iff [OF m, of "fst p" "snd p" ?gone] by (simp add: lease_expired_def)
  have kept: "(\<exists>es. map_of (kept_leases ?gone ?m) r = Some es \<and> l \<in> set es) \<longleftrightarrow>
      (\<exists>es. map_of ?m r = Some es \<and> l \<in> set es) \<and> now < le_expires_at l" for r l
    unfolding kept_leases_lookup [OF m]
    by (cases "map_of ?m r") (auto simp: filter_empty_conv not_le simp del: map_of_eq_Some_iff)
  have level: "core_level c' pin = (if core_level c pin \<noteq> None \<and> released_output (set (purged ?gone ?m)) pin c
      then Some False else core_level c pin)" for pin
    using release_all_level [of "purged ?gone ?m" c pin] by (simp add: c' core_level_def)
  have own: "released_output (set (purged ?gone ?m)) (go_pin (snd e)) c \<longleftrightarrow> lease_expired now c (gpio_holder (snd e))"
    if e: "e \<in> set (co_gpio_objects c)" "go_direction (snd e) = GD_Output" for e
    using released_own [OF ok e(1)] e(2) ex by simp
  show ?thesis
  proof (intro conjI allI ballI impI)
    fix r l
    show "(\<exists>es. map_of (co_leases c') r = Some es \<and> l \<in> set es) \<longleftrightarrow>
        (\<exists>es. map_of ?m r = Some es \<and> l \<in> set es) \<and> now < le_expires_at l"
      using kept [of r l] by (simp add: c' del: map_of_eq_Some_iff)
  next
    fix e
    show "e \<in> set (co_gpio_objects c') \<longleftrightarrow> e \<in> set (co_gpio_objects c) \<and> \<not> lease_expired now c (gpio_holder (snd e))"
      using ex by (simp add: c' release_all_objects gpio_holder_def)
  next
    fix e
    show "e \<in> set (co_uart_objects c') \<longleftrightarrow> e \<in> set (co_uart_objects c) \<and> \<not> lease_expired now c (uart_holder (snd e))"
      using ex by (simp add: c' release_all_objects uart_holder_def)
  next
    fix e
    assume e: "e \<in> set (co_gpio_objects c)" "go_direction (snd e) = GD_Output"
    show "core_level c' (go_pin (snd e)) =
         (if lease_expired now c (gpio_holder (snd e)) then Some False else core_level c (go_pin (snd e)))"
      unfolding level own [OF e] using object_level [OF ok e] by simp
  qed
qed

lemma demo_level: "core_level demo_owned 3 = Some True"
  by (simp add: core_level_def demo_owned_def mock_gpio.configure_level)

theorem expiry_safe_witness:
  "lease_expired (ms 1000) demo_owned (gpio_holder demo_object) \<and>
   core_level (snd (expire_leases (ms 1000) demo_owned)) 3 = Some False"
proof -
  obtain n c' where e: "expire_leases (ms 1000) demo_owned = (n, c')" by (meson surj_pair)
  have gone: "lease_expired (ms 1000) demo_owned (gpio_holder demo_object)"
    by (simp add: lease_expired_def gpio_holder_def demo_defs)
  have "(1, demo_object) \<in> set (co_gpio_objects demo_owned)" by (simp add: demo_owned_def)
  then show ?thesis
    using expiry_safe [OF demo_reachable_cores(2) e] gone by (fastforce simp: e demo_object_def)
qed

subsection \<open>Sessions do not disturb each other\<close>

text \<open>An object with its output level, while its owner holds the resource exclusively.\<close>

definition undisturbed :: "u32 \<Rightarrow> gpio_object \<Rightarrow> bool option \<Rightarrow> remote_core \<Rightarrow> bool" where
  "undisturbed k obj v c \<longleftrightarrow> map_of (co_gpio_objects c) k = Some obj \<and>
     core_level c (go_pin obj) = v \<and>
     exclusive (co_leases c) (go_resource_id obj) (go_owner_session_id obj)"

abbreviation spares :: "u32 \<Rightarrow> gpio_object \<Rightarrow> bool option \<Rightarrow> core_result \<Rightarrow> bool" where
  "spares k obj v \<equiv> outcome (\<lambda>r. undisturbed k obj v (snd r))"

lemma undisturbed_fields [simp]:
  "undisturbed k obj v (c\<lparr>co_uart_bsp := u\<rparr>) = undisturbed k obj v c"
  "undisturbed k obj v (c\<lparr>co_uart_objects := us\<rparr>) = undisturbed k obj v c"
  "undisturbed k obj v (c\<lparr>co_next_object_id := n\<rparr>) = undisturbed k obj v c"
  "undisturbed k obj v (c\<lparr>co_next_lease_id := i\<rparr>) = undisturbed k obj v c"
  "undisturbed k obj v (c\<lparr>co_motion := m\<rparr>) = undisturbed k obj v c"
  "undisturbed k obj v (c\<lparr>co_bootloader_requested := f\<rparr>) = undisturbed k obj v c"
  by (simp_all add: undisturbed_def core_level_def)

lemma spares_reply [simp]:
  "spares k obj v (reply request s c) = undisturbed k obj v c"
  "spares k obj v (reply_encoded request enc c) = undisturbed k obj v c"
  "spares k obj v (Inr p, c) = undisturbed k obj v c"
  "spares k obj v (Inl e, c) = undisturbed k obj v c"
  "spares k obj v (lease_info_reply request r now c) = undisturbed k obj v c"
  by (simp_all add: outcome_def reply_def reply_encoded_def lease_info_reply_def)

lemma spares_with_resource:
  "undisturbed k obj v c \<Longrightarrow> (\<And>r d. spares k obj v (act r d)) \<Longrightarrow>
   spares k obj v (with_resource request c act)"
  by (auto simp: with_resource_def split: sum.split option.split)

lemma spares_with_motion:
  "undisturbed k obj v c \<Longrightarrow> (\<And>m. spares k obj v (act m)) \<Longrightarrow>
   spares k obj v (with_motion request c act)"
  by (auto simp: with_motion_def split: option.split)

lemmas simple_handlers = handle_get_info_def handle_get_capability_def handle_ping_def
  handle_bootloader_enter_def handle_resource_enum_def handle_resource_describe_def
  handle_resource_status_def handle_resource_reset_def handle_resource_contract_def
  handle_resource_lease_status_def handle_uart_create_def handle_uart_read_def
  handle_uart_write_def handle_motion_enqueue_def handle_motion_status_def
  handle_motion_abort_def handle_motion_clear_fault_def

lemma simple_spares:
  assumes "undisturbed k obj v c"
  shows "spares k obj v (handle_get_info request c)"
    "spares k obj v (handle_get_capability request c)"
    "spares k obj v (handle_ping request c)"
    "spares k obj v (handle_bootloader_enter request c)"
    "spares k obj v (handle_resource_enum request c)"
    "spares k obj v (handle_resource_describe request c)"
    "spares k obj v (handle_resource_status request c)"
    "spares k obj v (handle_resource_reset request c)"
    "spares k obj v (handle_resource_contract request c)"
    "spares k obj v (handle_resource_lease_status request now c)"
    "spares k obj v (handle_uart_create request c)"
    "spares k obj v (handle_uart_read request c)"
    "spares k obj v (handle_uart_write request c)"
    "spares k obj v (handle_motion_enqueue request c)"
    "spares k obj v (handle_motion_status request c)"
    "spares k obj v (handle_motion_abort request c)"
    "spares k obj v (handle_motion_clear_fault request c)"
  unfolding simple_handlers Let_def
  by (intro spares_with_resource spares_with_motion outcome_if outcome_option outcome_sum outcome_run
      outcome_pair; simp add: assms)+

text \<open>Another session than the owner of the object, whose lease has not expired.\<close>

lemma undisturbed_leases:
  "undisturbed k obj v c \<Longrightarrow>
   exclusive m (go_resource_id obj) (go_owner_session_id obj) \<Longrightarrow>
   undisturbed k obj v (c\<lparr>co_leases := m\<rparr>)"
  by (simp add: undisturbed_def core_level_def)

lemma undisturbed_gpio:
  "undisturbed k obj v c \<Longrightarrow> co_gpio_bsp c = Some b \<Longrightarrow>
   output_level b' (go_pin obj) = output_level b (go_pin obj) \<Longrightarrow>
   undisturbed k obj v (c\<lparr>co_gpio_bsp := Some b'\<rparr>)"
  by (simp add: undisturbed_def core_level_def)

lemma acquire_spares:
  assumes u: "undisturbed k obj v c"
  shows "spares k obj v (handle_resource_acquire request now c)"
proof -
  let ?r = "go_resource_id obj" and ?s = "go_owner_session_id obj"
  obtain es l where l: "map_of (co_leases c) ?r = Some es" "l \<in> set es" "le_owner_session_id l = ?s"
    "le_mode l = lease_mode_code LM_Exclusive"
    using u by (auto simp: undisturbed_def exclusive_def simp del: map_of_eq_Some_iff)
  have old: "exclusive (co_leases c) ?r ?s" using u by (simp add: undisturbed_def)
  have put: "exclusive (hput r (xs @ [n]) (co_leases c)) ?r ?s"
    if "(case map_of (co_leases c) r of None \<Rightarrow> [] | Some es \<Rightarrow> es) = xs" for r xs n
    using that old l by (auto simp: exclusive_hput simp del: map_of_eq_Some_iff)
  have erased: "exclusive (herase r (co_leases c)) ?r ?s"
    if "(case map_of (co_leases c) r of None \<Rightarrow> [] | Some es \<Rightarrow> es) = []" for r
  proof -
    have "r \<noteq> ?r" using that l by auto
    then show ?thesis using old by (simp add: exclusive_def del: map_of_eq_Some_iff)
  qed
  have "undisturbed k obj v (c\<lparr>co_next_lease_id := i, co_leases := hput r (xs @ [n]) (co_leases c)\<rparr>)"
    if "(case map_of (co_leases c) r of None \<Rightarrow> [] | Some es \<Rightarrow> es) = xs" for i r xs n
    using u put [OF that] by (intro undisturbed_leases) simp_all
  moreover have "undisturbed k obj v (c\<lparr>co_leases := herase r (co_leases c)\<rparr>)"
    if "(case map_of (co_leases c) r of None \<Rightarrow> [] | Some es \<Rightarrow> es) = []" for r
    using u erased [OF that] by (intro undisturbed_leases)
  ultimately show ?thesis
    unfolding handle_resource_acquire_def Let_def using u
    by (intro outcome_if outcome_sum) (simp_all del: map_of_eq_Some_iff)
qed

lemma update_first_keeps:
  "(\<And>x. Q x \<Longrightarrow> Q (f x)) \<Longrightarrow> \<exists>x \<in> set xs. Q x \<Longrightarrow> \<exists>x \<in> set (update_first P f xs). Q x"
  by (induction xs) auto

lemma renew_spares:
  assumes u: "undisturbed k obj v c"
  shows "spares k obj v (handle_resource_renew request now c)"
proof -
  let ?r = "go_resource_id obj" and ?s = "go_owner_session_id obj"
  have old: "exclusive (co_leases c) ?r ?s" using u by (simp add: undisturbed_def)
  have "exclusive (hput r (update_first P (\<lambda>l. l\<lparr>le_granted_duration_ms := d, le_expires_at := t\<rparr>) es)
      (co_leases c)) ?r ?s"
    if "map_of (co_leases c) r = Some es" for r es P d t
  proof (cases "r = ?r")
    case True
    then have "\<exists>l \<in> set es. le_owner_session_id l = ?s \<and> le_mode l = lease_mode_code LM_Exclusive"
      using old that by (auto simp: exclusive_def simp del: map_of_eq_Some_iff)
    then show ?thesis unfolding exclusive_hput using True by (auto intro!: update_first_keeps)
  next
    case False
    then show ?thesis using old by (simp add: exclusive_hput)
  qed
  note kept = undisturbed_leases [OF u this]
  show ?thesis
    unfolding handle_resource_renew_def Let_def using u kept
    by (intro outcome_branches) (simp_all del: map_of_eq_Some_iff)
qed

lemma undisturbed_entry: "undisturbed k obj v c \<Longrightarrow> (k, obj) \<in> set (co_gpio_objects c)"
  unfolding undisturbed_def by (blast dest: map_of_SomeD)

lemma undisturbed_release:
  assumes ok: "core_ok c" and u: "undisturbed k obj v c" and p: "(r, s) \<noteq> gpio_holder obj"
  shows "undisturbed k obj v (release_resource_objects r s c)"
proof -
  have "distinct (hkeys (co_gpio_objects c))" using core_okD(6) [OF ok] by (simp add: ids_ok_def)
  then have "map_of (co_gpio_objects (release_resource_objects r s c)) k = Some obj"
    using undisturbed_entry [OF u] p
    by (auto simp: gpio_owned_def gpio_holder_def distinct_map_filter)
  moreover have "core_level (release_resource_objects r s c) (go_pin obj) = core_level c (go_pin obj)"
    unfolding release_level using released_own [OF ok undisturbed_entry [OF u], of "{(r, s)}"] p by auto
  ultimately show ?thesis using u by (simp add: undisturbed_def del: map_of_eq_Some_iff)
qed

lemma release_spares:
  assumes ok: "core_ok c" and u: "undisturbed k obj v c"
    and s: "ph_session_id (header request) \<noteq> go_owner_session_id obj"
  shows "spares k obj v (handle_resource_release request c)"
proof -
  let ?r = "go_resource_id obj" and ?s = "ph_session_id (header request)"
  have old: "exclusive (co_leases c) ?r (go_owner_session_id obj)" using u by (simp add: undisturbed_def)
  have "r \<noteq> ?r" if es: "map_of (co_leases c) r = Some es" "list_ex (is_lease i ?s) es" for r es i
  proof
    assume "r = ?r"
    then obtain l where "l \<in> set es" "le_owner_session_id l = go_owner_session_id obj"
      "le_mode l = lease_mode_code LM_Exclusive"
      using old es(1) by (auto simp: exclusive_def simp del: map_of_eq_Some_iff)
    moreover obtain x where "x \<in> set es" "le_owner_session_id x = ?s"
      using es(2) by (auto simp: list_ex_iff is_lease_def)
    moreover have "length es = 1"
      using core_okD(5) [OF ok es(1)] calculation unfolding entries_ok_def by blast
    ultimately show False using s by (cases es) auto
  qed
  then have "undisturbed k obj v ((release_resource_objects r ?s c)\<lparr>co_leases := herase r (co_leases c)\<rparr>)"
    "undisturbed k obj v ((release_resource_objects r ?s c)\<lparr>co_leases := hput r left (co_leases c)\<rparr>)"
    if "map_of (co_leases c) r = Some es" "list_ex (is_lease i ?s) es" for r es i left
    using that old s
    by (intro undisturbed_leases undisturbed_release ok u;
        auto simp: gpio_holder_def exclusive_def simp del: map_of_eq_Some_iff)+
  then show ?thesis
    unfolding handle_resource_release_def Let_def using u
    by (intro outcome_branches) (simp_all del: map_of_eq_Some_iff)
qed

lemma write_other:
  "q \<noteq> pin \<Longrightarrow> output_level (snd (gpio_write q w b)) pin = output_level b pin"
  using mock_gpio.write_output [of b q _ w] mock_gpio.write_rejected [of b q w]
  by (cases "output_level b q") auto

lemma gpio_create_spares:
  assumes ok: "core_ok c" and u: "undisturbed k obj v c"
  shows "spares k obj v (handle_gpio_create request c)"
proof -
  have "undisturbed k obj v (c\<lparr>co_gpio_bsp := Some (gpio_configure pin d w b), co_next_object_id := n,
      co_gpio_objects := hemplace i new (co_gpio_objects c)\<rparr>)"
    if "co_gpio_bsp c = Some b" "\<not> list_ex (\<lambda>e. go_pin (snd e) = pin) (co_gpio_objects c)" for b pin d w n i new
  proof -
    have "go_pin obj \<noteq> pin" using undisturbed_entry [OF u] that(2) by (force simp: list_ex_iff)
    then show ?thesis using u that(1)
      by (auto simp: undisturbed_def core_level_def mock_gpio.configure_level map_of_hemplace
          simp del: map_of_eq_Some_iff)
  qed
  then show ?thesis
    unfolding handle_gpio_create_def Let_def using u
    by (intro outcome_if outcome_option outcome_sum outcome_pair) simp_all
qed

lemma gpio_read_spares:
  assumes u: "undisturbed k obj v c"
  shows "spares k obj v (handle_gpio_read request c)"
proof -
  have "undisturbed k obj v (c\<lparr>co_gpio_bsp := Some b'\<rparr>)"
    if "co_gpio_bsp c = Some b" "gpio_read pin b = (x, b')" for b pin x b'
    using mock_gpio.read_keeps [of pin b] that(2) by (intro undisturbed_gpio [OF u that(1)]) simp
  then show ?thesis
    unfolding handle_gpio_read_def using u
    by (intro outcome_if outcome_option outcome_run) simp_all
qed

lemma gpio_write_spares:
  assumes ok: "core_ok c" and u: "undisturbed k obj v c" and owner: "go_owner_session_id obj \<noteq> 0"
    and s: "ph_session_id (header request) \<noteq> go_owner_session_id obj"
  shows "spares k obj v (handle_gpio_write request c)"
proof -
  have "undisturbed k obj v (c\<lparr>co_gpio_bsp := Some b'\<rparr>)"
    if b: "co_gpio_bsp c = Some b" and o: "map_of (co_gpio_objects c) i = Some obj'"
      and "\<not> foreign_owner (go_owner_session_id obj') request" and w: "gpio_write (go_pin obj') w b = (x, b')"
    for b i obj' w x b'
  proof -
    have "obj' \<noteq> obj" using that(3) owner s by (auto simp: foreign_owner_def)
    then have "go_pin obj' \<noteq> go_pin obj"
      using pins_distinct [OF ok undisturbed_entry [OF u] map_of_SomeD [OF o]] by auto
    then show ?thesis using write_other [of "go_pin obj'" "go_pin obj" w b] w
      by (intro undisturbed_gpio [OF u b]) simp
  qed
  then show ?thesis
    unfolding handle_gpio_write_def using u
    by (intro outcome_if outcome_option outcome_run) (simp_all del: map_of_eq_Some_iff)
qed

lemma expire_spares:
  assumes ok: "core_ok c" and u: "undisturbed k obj v c" and kept: "\<not> lease_expired now c (gpio_holder obj)"
  shows "undisturbed k obj v (snd (expire_leases now c))"
proof -
  let ?gone = "\<lambda>l. le_expires_at l \<le> now" and ?m = "co_leases c"
  let ?ps = "purged ?gone ?m"
  note m = core_okD(3) [OF ok] and entry = undisturbed_entry [OF u]
  have spared: "gpio_holder obj \<notin> set ?ps"
    using kept purged_iff [OF m, of "go_resource_id obj" "go_owner_session_id obj" ?gone]
    by (simp add: lease_expired_def gpio_holder_def)
  have "distinct (hkeys (co_gpio_objects c))" using core_okD(6) [OF ok] by (simp add: ids_ok_def)
  then have object: "map_of (co_gpio_objects (release_all ?ps c)) k = Some obj"
    using entry spared by (simp add: release_all_objects gpio_holder_def distinct_map_filter)
  have level: "core_level (release_all ?ps c) (go_pin obj) = core_level c (go_pin obj)"
    unfolding release_all_level using released_own [OF ok entry, of "set ?ps"] spared by simp
  obtain es l where l: "map_of ?m (go_resource_id obj) = Some es" "l \<in> set es"
      "le_owner_session_id l = go_owner_session_id obj" "le_mode l = lease_mode_code LM_Exclusive"
    using u by (auto simp: undisturbed_def exclusive_def simp del: map_of_eq_Some_iff)
  have "\<not> ?gone l" using kept l by (auto simp: lease_expired_def gpio_holder_def)
  then have "exclusive (kept_leases ?gone ?m) (go_resource_id obj) (go_owner_session_id obj)"
    using l kept_leases_lookup [OF m, of ?gone "go_resource_id obj"]
    by (auto simp: exclusive_def filter_empty_conv simp del: map_of_eq_Some_iff)
  then show ?thesis using object level u unfolding expire_leases_eq
    by (intro undisturbed_leases) (simp_all add: undisturbed_def del: map_of_eq_Some_iff)
qed

lemma dispatch_spares:
  assumes "core_ok c" "undisturbed k obj v c" "go_owner_session_id obj \<noteq> 0"
    and "ph_session_id (header request) \<noteq> go_owner_session_id obj"
  shows "spares k obj v (dispatch i request now c)"
  unfolding dispatch_def using assms
  by (cases i) (simp_all add: simple_spares acquire_spares renew_spares release_spares
      gpio_create_spares gpio_read_spares gpio_write_spares)

lemma handle_spares:
  assumes ok: "core_ok c" and u: "undisturbed k obj v c" and owner: "go_owner_session_id obj \<noteq> 0"
    and s: "ph_session_id (header request) \<noteq> go_owner_session_id obj"
    and kept: "\<not> lease_expired now c (gpio_holder obj)"
  shows "spares k obj v (handle request now c)"
proof -
  let ?c = "snd (expire_leases now c)"
  have "undisturbed k obj v ?c" by (rule expire_spares [OF ok u kept])
  then show ?thesis unfolding handle_def Let_def using u
    by (intro outcome_if outcome_option dispatch_spares core_expire_ok ok owner s) simp_all
qed

end
