(* ===== verification/Core_Sessions.thy ===== *)
theory Core_Sessions
  imports Core_Isolation
begin

text \<open>
  The leases and the UART objects of a session under the requests of another one, and the isolation of
  the sessions as a whole.
\<close>

subsection \<open>Leases\<close>

text \<open>The leases of a session with all their contents, and the resources they are for.\<close>

definition own_leases :: "u32 \<Rightarrow> remote_core \<Rightarrow> (u32 \<times> lease) set" where
  "own_leases own c = {(r, l). \<exists>es. map_of (co_leases c) r = Some es \<and> l \<in> set es \<and> le_owner_session_id l = own}"

abbreviation keeps_leases :: "u32 \<Rightarrow> (u32 \<times> lease) set \<Rightarrow> core_result \<Rightarrow> bool" where
  "keeps_leases own S \<equiv> outcome (\<lambda>r. own_leases own (snd r) = S)"

lemma own_leases_fields [simp]:
  "own_leases own (c\<lparr>co_uart_bsp := u\<rparr>) = own_leases own c"
  "own_leases own (c\<lparr>co_gpio_bsp := g\<rparr>) = own_leases own c"
  "own_leases own (c\<lparr>co_uart_objects := us\<rparr>) = own_leases own c"
  "own_leases own (c\<lparr>co_gpio_objects := gs\<rparr>) = own_leases own c"
  "own_leases own (c\<lparr>co_next_object_id := n\<rparr>) = own_leases own c"
  "own_leases own (c\<lparr>co_next_lease_id := i\<rparr>) = own_leases own c"
  "own_leases own (c\<lparr>co_motion := m\<rparr>) = own_leases own c"
  "own_leases own (c\<lparr>co_bootloader_requested := f\<rparr>) = own_leases own c"
  "own_leases own (release_resource_objects r s c) = own_leases own c"
  by (simp_all add: own_leases_def)

lemma keeps_leases_reply [simp]:
  "keeps_leases own S (reply request s c) \<longleftrightarrow> own_leases own c = S"
  "keeps_leases own S (reply_encoded request enc c) \<longleftrightarrow> own_leases own c = S"
  "keeps_leases own S (Inr p, c) \<longleftrightarrow> own_leases own c = S"
  "keeps_leases own S (Inl e, c) \<longleftrightarrow> own_leases own c = S"
  "keeps_leases own S (lease_info_reply request r now c) \<longleftrightarrow> own_leases own c = S"
  by (simp_all add: outcome_def reply_def reply_encoded_def lease_info_reply_def)

lemma outcome_with_resource:
  assumes "\<And>s. outcome Q (reply request s c)" "\<And>e. outcome Q (Inl e, c)"
    and "\<And>i r. find_resource i c = Some r \<Longrightarrow> outcome Q (act i r)"
  shows "outcome Q (with_resource request c act)"
  using assms unfolding with_resource_def by (intro outcome_if outcome_sum outcome_option) simp_all

lemma outcome_with_motion:
  "(\<And>s. outcome Q (reply request s c)) \<Longrightarrow> (\<And>m. outcome Q (act m)) \<Longrightarrow> outcome Q (with_motion request c act)"
  by (auto simp: with_motion_def split: option.split)

lemmas plain_handlers = simple_handlers handle_gpio_create_def handle_gpio_read_def handle_gpio_write_def

lemma plain_keep_leases:
  assumes "own_leases own c = S"
  shows "keeps_leases own S (handle_get_info request c)"
    "keeps_leases own S (handle_get_capability request c)"
    "keeps_leases own S (handle_ping request c)"
    "keeps_leases own S (handle_bootloader_enter request c)"
    "keeps_leases own S (handle_resource_enum request c)"
    "keeps_leases own S (handle_resource_describe request c)"
    "keeps_leases own S (handle_resource_status request c)"
    "keeps_leases own S (handle_resource_reset request c)"
    "keeps_leases own S (handle_resource_contract request c)"
    "keeps_leases own S (handle_resource_lease_status request now c)"
    "keeps_leases own S (handle_uart_create request c)"
    "keeps_leases own S (handle_uart_read request c)"
    "keeps_leases own S (handle_uart_write request c)"
    "keeps_leases own S (handle_gpio_create request c)"
    "keeps_leases own S (handle_gpio_read request c)"
    "keeps_leases own S (handle_gpio_write request c)"
    "keeps_leases own S (handle_motion_enqueue request c)"
    "keeps_leases own S (handle_motion_status request c)"
    "keeps_leases own S (handle_motion_abort request c)"
    "keeps_leases own S (handle_motion_clear_fault request c)"
  unfolding plain_handlers Let_def
  by (intro outcome_with_resource outcome_with_motion outcome_if outcome_option outcome_sum outcome_run
      outcome_pair; simp add: assms)+

text \<open>What a request of another session writes into the list of a resource.\<close>

lemma own_leases_hput:
  assumes "\<And>l. le_owner_session_id l = own \<Longrightarrow>
    l \<in> set es' \<longleftrightarrow> (\<exists>es. map_of (co_leases c) r = Some es \<and> l \<in> set es)"
  shows "own_leases own (c\<lparr>co_leases := hput r es' (co_leases c)\<rparr>) = own_leases own c"
  using assms by (auto simp: own_leases_def simp del: map_of_eq_Some_iff split: if_splits)

lemma own_leases_herase:
  assumes "\<And>l es. map_of (co_leases c) r = Some es \<Longrightarrow> l \<in> set es \<Longrightarrow> le_owner_session_id l \<noteq> own" "hmap_ok (co_leases c)"
  shows "own_leases own (c\<lparr>co_leases := herase r (co_leases c)\<rparr>) = own_leases own c"
  using assms(2) by (auto simp: own_leases_def map_of_herase dest: assms(1) simp del: map_of_eq_Some_iff split: if_splits)

lemma update_first_own:
  assumes "\<And>x. P x \<Longrightarrow> \<not> Q x" "\<And>x. P x \<Longrightarrow> \<not> Q (f x)" "Q y"
  shows "y \<in> set (update_first P f xs) \<longleftrightarrow> y \<in> set xs"
  using assms by (induction xs) auto

lemma remove_first_own:
  assumes "\<And>x. P x \<Longrightarrow> \<not> Q x" "Q y"
  shows "y \<in> set (remove_first P xs) \<longleftrightarrow> y \<in> set xs"
  using assms by (induction xs) auto

lemma acquire_keeps_leases:
  assumes "hmap_ok (co_leases c)" "ph_session_id (header request) \<noteq> own"
  shows "keeps_leases own (own_leases own c) (handle_resource_acquire request now c)"
proof -
  have "own_leases own (c\<lparr>co_leases := hput r ((case map_of (co_leases c) r of None \<Rightarrow> [] | Some es \<Rightarrow> es) @ [l]) (co_leases c)\<rparr>) =
      own_leases own c" if "le_owner_session_id l = ph_session_id (header request)" for r l
    using that assms(2) by (intro own_leases_hput; cases "map_of (co_leases c) r") (auto simp del: map_of_eq_Some_iff)
  moreover have "own_leases own (c\<lparr>co_leases := herase r (co_leases c)\<rparr>) = own_leases own c"
    if "(case map_of (co_leases c) r of None \<Rightarrow> [] | Some es \<Rightarrow> es) = []" for r
    using that by (intro own_leases_herase assms(1)) (auto simp del: map_of_eq_Some_iff)
  moreover have swap: "c\<lparr>co_next_lease_id := i, co_leases := m\<rparr> = c\<lparr>co_leases := m\<rparr>\<lparr>co_next_lease_id := i\<rparr>" for i m by simp
  ultimately show ?thesis
    unfolding handle_resource_acquire_def Let_def swap
    by (intro outcome_if outcome_sum) (simp_all del: map_of_eq_Some_iff)
qed

lemma renew_keeps_leases:
  assumes "ph_session_id (header request) \<noteq> own"
  shows "keeps_leases own (own_leases own c) (handle_resource_renew request now c)"
proof -
  have "own_leases own (c\<lparr>co_leases := hput r (update_first (is_lease i (ph_session_id (header request)))
      (\<lambda>l. l\<lparr>le_granted_duration_ms := d, le_expires_at := t\<rparr>) es) (co_leases c)\<rparr>) = own_leases own c"
    if "map_of (co_leases c) r = Some es" for r es i d t
  proof (rule own_leases_hput)
    fix l :: lease assume "le_owner_session_id l = own"
    then have "l \<in> set (update_first (is_lease i (ph_session_id (header request)))
        (\<lambda>l. l\<lparr>le_granted_duration_ms := d, le_expires_at := t\<rparr>) es) \<longleftrightarrow> l \<in> set es"
      using assms by (intro update_first_own [where Q = "\<lambda>l. le_owner_session_id l = own"]) (auto simp: is_lease_def)
    then show "l \<in> set (update_first (is_lease i (ph_session_id (header request)))
        (\<lambda>l. l\<lparr>le_granted_duration_ms := d, le_expires_at := t\<rparr>) es) \<longleftrightarrow>
        (\<exists>es. map_of (co_leases c) r = Some es \<and> l \<in> set es)" using that by simp
  qed
  then show ?thesis
    unfolding handle_resource_renew_def Let_def
    by (intro outcome_branches) (simp_all del: map_of_eq_Some_iff)
qed

lemma release_keeps_leases:
  assumes "hmap_ok (co_leases c)" "ph_session_id (header request) \<noteq> own"
  shows "keeps_leases own (own_leases own c) (handle_resource_release request c)"
proof -
  let ?s = "ph_session_id (header request)"
  let ?c = "\<lambda>r. release_resource_objects r ?s c"
  have same: "l \<in> set (remove_first (is_lease i ?s) es) \<longleftrightarrow> l \<in> set es" if "le_owner_session_id l = own"
    for l :: lease and i es
    using that assms(2) by (intro remove_first_own [where Q = "\<lambda>l. le_owner_session_id l = own"]) (auto simp: is_lease_def)
  have "own_leases own ((?c r)\<lparr>co_leases := hput r (remove_first (is_lease i ?s) es) (co_leases c)\<rparr>) = own_leases own c"
    if "map_of (co_leases c) r = Some es" for r es i
    using own_leases_hput [where c = "?c r" and r = r and own = own and es' = "remove_first (is_lease i ?s) es"] that same
    by (simp del: map_of_eq_Some_iff)
  moreover have "own_leases own ((?c r)\<lparr>co_leases := herase r (co_leases c)\<rparr>) = own_leases own c"
    if "map_of (co_leases c) r = Some es" "remove_first (is_lease i ?s) es = []" for r es i
  proof -
    have "le_owner_session_id l \<noteq> own" if "l \<in> set es" for l
      using same [of l i es] that \<open>remove_first (is_lease i ?s) es = []\<close> by auto
    then have "own_leases own ((?c r)\<lparr>co_leases := herase r (co_leases (?c r))\<rparr>) = own_leases own (?c r)"
      using that(1) assms(1) by (intro own_leases_herase) (simp_all del: map_of_eq_Some_iff)
    then show ?thesis by simp
  qed
  ultimately show ?thesis
    unfolding handle_resource_release_def Let_def
    by (intro outcome_branches) (simp_all del: map_of_eq_Some_iff)
qed

lemma dispatch_keeps_leases:
  assumes "hmap_ok (co_leases c)" "ph_session_id (header request) \<noteq> own"
  shows "keeps_leases own (own_leases own c) (dispatch k request now c)"
  unfolding dispatch_def using assms
  by (cases k) (simp_all add: plain_keep_leases acquire_keeps_leases renew_keeps_leases release_keeps_leases)

lemma expire_own_leases:
  assumes "hmap_ok (co_leases c)"
  shows "own_leases own (snd (expire_leases now c)) = {p \<in> own_leases own c. now < le_expires_at (snd p)}"
  using kept_leases_lookup [OF assms, of "\<lambda>l. le_expires_at l \<le> now"]
  by (auto simp: own_leases_def expire_leases_eq filter_empty_conv not_le simp del: map_of_eq_Some_iff
      split: option.splits if_splits)

lemma handle_keeps_leases:
  assumes ok: "core_ok c" and s: "ph_session_id (header request) \<noteq> own"
  shows "own_leases own (snd (handle request now c)) \<subseteq> own_leases own c"
    "{p \<in> own_leases own c. now < le_expires_at (snd p)} \<subseteq> own_leases own (snd (handle request now c))"
proof -
  let ?c = "snd (expire_leases now c)"
  note e = expire_own_leases [OF core_okD(3) [OF ok], of own now]
  have "keeps_leases own (own_leases own ?c) (dispatch k request now ?c)" for k
    using dispatch_keeps_leases [OF core_okD(3) [OF core_expire_ok [OF ok]] s] .
  then have "own_leases own (snd (handle request now c)) \<in> {own_leases own c, own_leases own ?c}"
    by (auto simp: handle_def Let_def outcome_def reply_def split: option.split)
  then show "own_leases own (snd (handle request now c)) \<subseteq> own_leases own c"
    "{p \<in> own_leases own c. now < le_expires_at (snd p)} \<subseteq> own_leases own (snd (handle request now c))"
    using e by auto
qed

subsection \<open>Serial ports\<close>

text \<open>The state of a port: configuration, both buffers, overrun counts and failure.\<close>

definition core_port :: "remote_core \<Rightarrow> byte \<Rightarrow> port_state option" where
  "core_port c port = (case co_uart_bsp c of None \<Rightarrow> None | Some u \<Rightarrow> map_of (ub_ports u) port)"

text \<open>A UART object with its port, while its owner holds the resource exclusively, as the only one of the port.\<close>

definition port_undisturbed :: "u32 \<Rightarrow> uart_object \<Rightarrow> port_state option \<Rightarrow> remote_core \<Rightarrow> bool" where
  "port_undisturbed k obj st c \<longleftrightarrow> map_of (co_uart_objects c) k = Some obj \<and>
     core_port c (uo_port obj) = st \<and>
     exclusive (co_leases c) (uo_resource_id obj) (uo_owner_session_id obj) \<and>
     (\<forall>r \<in> set (co_resources c). rd_type r = resource_type_code RT_Uart \<and> rd_instance r = ucast (uo_port obj) \<longrightarrow>
        rd_resource_id r = uo_resource_id obj)"

abbreviation spares_port :: "u32 \<Rightarrow> uart_object \<Rightarrow> port_state option \<Rightarrow> core_result \<Rightarrow> bool" where
  "spares_port k obj st \<equiv> outcome (\<lambda>r. port_undisturbed k obj st (snd r))"

lemma port_undisturbed_fields [simp]:
  "port_undisturbed k obj st (c\<lparr>co_gpio_bsp := g\<rparr>) = port_undisturbed k obj st c"
  "port_undisturbed k obj st (c\<lparr>co_gpio_objects := gs\<rparr>) = port_undisturbed k obj st c"
  "port_undisturbed k obj st (c\<lparr>co_next_object_id := n\<rparr>) = port_undisturbed k obj st c"
  "port_undisturbed k obj st (c\<lparr>co_next_lease_id := i\<rparr>) = port_undisturbed k obj st c"
  "port_undisturbed k obj st (c\<lparr>co_motion := m\<rparr>) = port_undisturbed k obj st c"
  "port_undisturbed k obj st (c\<lparr>co_bootloader_requested := f\<rparr>) = port_undisturbed k obj st c"
  by (simp_all add: port_undisturbed_def core_port_def)

lemma spares_port_reply [simp]:
  "spares_port k obj st (reply request s c) = port_undisturbed k obj st c"
  "spares_port k obj st (reply_encoded request enc c) = port_undisturbed k obj st c"
  "spares_port k obj st (Inr p, c) = port_undisturbed k obj st c"
  "spares_port k obj st (Inl e, c) = port_undisturbed k obj st c"
  "spares_port k obj st (lease_info_reply request r now c) = port_undisturbed k obj st c"
  by (simp_all add: outcome_def reply_def reply_encoded_def lease_info_reply_def)

lemma plain_spare_port:
  assumes "port_undisturbed k obj st c"
  shows "spares_port k obj st (handle_get_info request c)"
    "spares_port k obj st (handle_get_capability request c)"
    "spares_port k obj st (handle_ping request c)"
    "spares_port k obj st (handle_bootloader_enter request c)"
    "spares_port k obj st (handle_resource_enum request c)"
    "spares_port k obj st (handle_resource_describe request c)"
    "spares_port k obj st (handle_resource_status request c)"
    "spares_port k obj st (handle_resource_contract request c)"
    "spares_port k obj st (handle_resource_lease_status request now c)"
    "spares_port k obj st (handle_gpio_create request c)"
    "spares_port k obj st (handle_gpio_read request c)"
    "spares_port k obj st (handle_gpio_write request c)"
    "spares_port k obj st (handle_motion_enqueue request c)"
    "spares_port k obj st (handle_motion_status request c)"
    "spares_port k obj st (handle_motion_abort request c)"
    "spares_port k obj st (handle_motion_clear_fault request c)"
  unfolding plain_handlers Let_def
  by (intro outcome_with_resource outcome_with_motion outcome_if outcome_option outcome_sum outcome_run
      outcome_pair; simp add: assms)+

text \<open>An operation on another port.\<close>

lemma uart_ops_other:
  assumes "q \<noteq> port"
  shows "map_of (ub_ports (snd (uart_configure port config u))) q = map_of (ub_ports u) q"
    "map_of (ub_ports (snd (uart_read port n u))) q = map_of (ub_ports u) q"
    "map_of (ub_ports (snd (uart_write port data u))) q = map_of (ub_ports u) q"
    "map_of (ub_ports (snd (uart_reset port u))) q = map_of (ub_ports u) q"
  using assms by (auto simp: uart_configure_def uart_read_def uart_write_def uart_reset_def Let_def
      simp del: map_of_eq_Some_iff split: sum.split)

lemma port_undisturbed_uart:
  "port_undisturbed k obj st c \<Longrightarrow> co_uart_bsp c = Some u \<Longrightarrow>
   map_of (ub_ports u') (uo_port obj) = map_of (ub_ports u) (uo_port obj) \<Longrightarrow>
   port_undisturbed k obj st (c\<lparr>co_uart_bsp := Some u'\<rparr>)"
  by (simp add: port_undisturbed_def core_port_def del: map_of_eq_Some_iff)

lemma port_undisturbed_leases:
  "port_undisturbed k obj st c \<Longrightarrow> exclusive m (uo_resource_id obj) (uo_owner_session_id obj) \<Longrightarrow>
   port_undisturbed k obj st (c\<lparr>co_leases := m\<rparr>)"
  by (simp add: port_undisturbed_def core_port_def del: map_of_eq_Some_iff)

lemma port_undisturbed_entry: "port_undisturbed k obj st c \<Longrightarrow> (k, obj) \<in> set (co_uart_objects c)"
  unfolding port_undisturbed_def by (blast dest: map_of_SomeD)

lemma ports_distinct:
  assumes "core_ok c" "e \<in> set (co_uart_objects c)" "x \<in> set (co_uart_objects c)"
    "uo_port (snd x) = uo_port (snd e)"
  shows "x = e"
proof -
  have "inj_on (\<lambda>e. uo_port (snd e)) (set (co_uart_objects c))"
    using core_okD(8) [OF assms(1)] by (simp add: distinct_map)
  then show ?thesis by (rule inj_onD [OF _ assms(4,3,2)])
qed

text \<open>An exclusive lease is the only one of its resource.\<close>

lemma exclusive_only:
  assumes ok: "core_ok c" and "exclusive (co_leases c) r s" "exclusive (co_leases c) r s'"
  shows "s = s'"
proof -
  obtain es l l' where l: "map_of (co_leases c) r = Some es" "l \<in> set es" "l' \<in> set es" "le_owner_session_id l = s"
    "le_owner_session_id l' = s'" "le_mode l = lease_mode_code LM_Exclusive"
    using assms(2,3) by (auto simp: exclusive_def simp del: map_of_eq_Some_iff)
  then have "length es = 1" using core_okD(5) [OF ok l(1)] unfolding entries_ok_def by blast
  then show ?thesis using l by (cases es) auto
qed

lemma exclusive_kept:
  assumes "own_leases s c' = own_leases s c"
  shows "exclusive (co_leases c') r s = exclusive (co_leases c) r s"
proof -
  have "exclusive (co_leases c) r s \<longleftrightarrow> (\<exists>l. (r, l) \<in> own_leases s c \<and> le_mode l = lease_mode_code LM_Exclusive)" for c
    by (auto simp: exclusive_def own_leases_def simp del: map_of_eq_Some_iff)
  then show ?thesis using assms by simp
qed

lemma instance_port: "x \<le> 255 \<Longrightarrow> ucast (ucast x :: byte) = x" for x :: u16
proof -
  assume "x \<le> 255"
  then have "unat x < 256" by (simp add: word_le_nat_alt)
  then show ?thesis by (simp add: word_unat_eq_iff unsigned_ucast_eq unsigned_take_bit_eq take_bit_nat_eq_self)
qed

lemma reset_spares_port:
  assumes ok: "core_ok c" and u: "port_undisturbed k obj st c"
    and s: "ph_session_id (header request) \<noteq> uo_owner_session_id obj"
  shows "spares_port k obj st (handle_resource_reset request c)"
proof -
  have mine: "exclusive (co_leases c) (uo_resource_id obj) (uo_owner_session_id obj)"
    "\<And>r. r \<in> set (co_resources c) \<Longrightarrow> rd_type r = resource_type_code RT_Uart \<Longrightarrow>
      rd_instance r = ucast (uo_port obj) \<Longrightarrow> rd_resource_id r = uo_resource_id obj"
    using u by (auto simp: port_undisturbed_def)
  have kept: "port_undisturbed k obj st (c\<lparr>co_uart_bsp := Some u'\<rparr>)"
    if a: "map_of (co_leases c) i = None \<or> session_has_exclusive_lease i (ph_session_id (header request)) c"
      and b: "rd_type r = resource_type_code RT_Uart" "co_uart_bsp c = Some u" "\<not> rd_instance r > 255"
      and f: "find_resource i c = Some r"
      and run: "uart_reset (ucast (rd_instance r)) (the (co_uart_bsp c)) = (x, u')" for i r x u u'
  proof -
    have r: "r \<in> set (co_resources c)" "rd_resource_id r = i"
      using f by (auto simp: find_resource_def find_Some_iff)
    have "i \<noteq> uo_resource_id obj"
    proof
      assume i: "i = uo_resource_id obj"
      then have "map_of (co_leases c) i \<noteq> None" using mine(1) by (auto simp: exclusive_def)
      with a have "exclusive (co_leases c) i (ph_session_id (header request))" by (simp add: exclusive_iff del: map_of_eq_Some_iff)
      then show False using exclusive_only [OF ok mine(1)] i s by simp
    qed
    then have "rd_instance r \<noteq> ucast (uo_port obj)" using mine(2) [OF r(1)] r(2) b by auto
    then have "uo_port obj \<noteq> ucast (rd_instance r)"
      using instance_port [of "rd_instance r"] b(3) by (auto simp: not_less)
    then show ?thesis
      using uart_ops_other(4) [of "uo_port obj" "ucast (rd_instance r)" "the (co_uart_bsp c)"] run b
      by (intro port_undisturbed_uart [OF u]) auto
  qed
  show ?thesis
    unfolding handle_resource_reset_def Let_def using u
    by (intro outcome_with_resource outcome_if outcome_run) (auto intro: kept [simplified])
qed

text \<open>The operations on leases.\<close>

lemma acquire_spares_port:
  assumes ok: "core_ok c" and u: "port_undisturbed k obj st c"
    and s: "ph_session_id (header request) \<noteq> uo_owner_session_id obj"
  shows "spares_port k obj st (handle_resource_acquire request now c)"
proof -
  have "outcome (\<lambda>r. \<exists>i m. snd r = c \<or> snd r = c\<lparr>co_leases := m\<rparr> \<or> snd r = c\<lparr>co_next_lease_id := i, co_leases := m\<rparr>)
      (handle_resource_acquire request now c)"
    unfolding handle_resource_acquire_def Let_def
    by (intro outcome_if outcome_sum) (auto simp: outcome_def reply_def lease_info_reply_def reply_encoded_def)
  then obtain i m where "snd (handle_resource_acquire request now c) \<in>
      {c, c\<lparr>co_leases := m\<rparr>, c\<lparr>co_next_lease_id := i, co_leases := m\<rparr>}"
    by (auto simp: outcome_def)
  moreover have "own_leases (uo_owner_session_id obj) (snd (handle_resource_acquire request now c)) =
      own_leases (uo_owner_session_id obj) c"
    using acquire_keeps_leases [OF core_okD(3) [OF ok] s, where now = now] by (simp add: outcome_def)
  ultimately show ?thesis
    using u exclusive_kept [of "uo_owner_session_id obj" "snd (handle_resource_acquire request now c)" c "uo_resource_id obj"]
    by (auto simp: outcome_def port_undisturbed_def core_port_def simp del: map_of_eq_Some_iff)
qed

lemma renew_spares_port:
  assumes u: "port_undisturbed k obj st c"
    and s: "ph_session_id (header request) \<noteq> uo_owner_session_id obj"
  shows "spares_port k obj st (handle_resource_renew request now c)"
proof -
  have "outcome (\<lambda>r. \<exists>m. snd r = c \<or> snd r = c\<lparr>co_leases := m\<rparr>) (handle_resource_renew request now c)"
    unfolding handle_resource_renew_def Let_def
    by (intro outcome_branches) (auto simp: outcome_def reply_def lease_info_reply_def reply_encoded_def)
  then obtain m where "snd (handle_resource_renew request now c) \<in> {c, c\<lparr>co_leases := m\<rparr>}"
    by (auto simp: outcome_def)
  moreover have "own_leases (uo_owner_session_id obj) (snd (handle_resource_renew request now c)) =
      own_leases (uo_owner_session_id obj) c"
    using renew_keeps_leases [OF s, where now = now and c = c] by (simp add: outcome_def)
  ultimately show ?thesis
    using u exclusive_kept [of "uo_owner_session_id obj" "snd (handle_resource_renew request now c)" c "uo_resource_id obj"]
    by (auto simp: outcome_def port_undisturbed_def core_port_def simp del: map_of_eq_Some_iff)
qed

text \<open>Releasing objects resets the ports of the released objects only.\<close>

abbreviation port_in :: "byte \<Rightarrow> mock_uart_bsp option \<Rightarrow> port_state option option" where
  "port_in q \<equiv> map_option (\<lambda>u. map_of (ub_ports u) q)"

lemma core_port_in: "port_in q (co_uart_bsp c') = port_in q (co_uart_bsp c) \<Longrightarrow> core_port c' q = core_port c q"
  by (auto simp: core_port_def split: option.splits)

lemma release_uart_port:
  "(\<And>e. e \<in> set objs \<Longrightarrow> uart_owned r s (snd e) \<Longrightarrow> uo_port (snd e) \<noteq> q) \<Longrightarrow>
   port_in q (snd (release_uart r s objs bsp)) = port_in q bsp"
proof (induction r s objs bsp rule: release_uart.induct)
  case (1 resource_id owner bsp)
  then show ?case by simp
next
  case (2 resource_id owner k obj objs bsp)
  show ?case
  proof (cases "uart_owned resource_id owner obj")
    case True
    then have "uo_port obj \<noteq> q" using "2.prems" [of "(k, obj)"] by simp
    then have "port_in q (map_option (\<lambda>b. snd (uart_reset (uo_port obj) b)) bsp) = port_in q bsp"
      using uart_ops_other(4) [of q "uo_port obj"] by (cases bsp) auto
    then show ?thesis using "2.IH"(2) "2.prems" True by (simp add: uart_owned_def)
  next
    case False
    then show ?thesis using "2.IH"(1) "2.prems" by (auto simp: uart_owned_def split_beta)
  qed
qed

lemma release_all_port:
  "(\<And>e. e \<in> set (co_uart_objects c) \<Longrightarrow> uart_holder (snd e) \<in> set rs \<Longrightarrow> uo_port (snd e) \<noteq> q) \<Longrightarrow>
   port_in q (co_uart_bsp (release_all rs c)) = port_in q (co_uart_bsp c)"
proof (induction rs arbitrary: c)
  case Nil
  then show ?case by simp
next
  case (Cons p rs)
  have "port_in q (co_uart_bsp (release_resource_objects (fst p) (snd p) c)) = port_in q (co_uart_bsp c)"
    unfolding release_fields
    by (rule release_uart_port) (use Cons.prems in \<open>auto simp: uart_owned_def uart_holder_def\<close>)
  moreover have "port_in q (co_uart_bsp (release_all rs (release_resource_objects (fst p) (snd p) c))) =
      port_in q (co_uart_bsp (release_resource_objects (fst p) (snd p) c))"
    by (rule Cons.IH) (use Cons.prems in auto)
  ultimately show ?case by simp
qed

lemma release_all_spares_port:
  assumes ok: "core_ok c" and u: "port_undisturbed k obj st c" and p: "uart_holder obj \<notin> set rs"
  shows "map_of (co_uart_objects (release_all rs c)) k = Some obj" "core_port (release_all rs c) (uo_port obj) = st"
proof -
  have "distinct (hkeys (co_uart_objects c))" using core_okD(6) [OF ok] by (simp add: ids_ok_def)
  then show "map_of (co_uart_objects (release_all rs c)) k = Some obj"
    using port_undisturbed_entry [OF u] p by (simp add: release_all_objects uart_holder_def distinct_map_filter)
  have "port_in (uo_port obj) (co_uart_bsp (release_all rs c)) = port_in (uo_port obj) (co_uart_bsp c)"
    using ports_distinct [OF ok port_undisturbed_entry [OF u]] p by (intro release_all_port) fastforce
  then show "core_port (release_all rs c) (uo_port obj) = st"
    using u core_port_in unfolding port_undisturbed_def by metis
qed

lemma released_port_undisturbed:
  assumes "core_ok c" "port_undisturbed k obj st c" "uart_holder obj \<notin> set rs"
    "exclusive m (uo_resource_id obj) (uo_owner_session_id obj)"
  shows "port_undisturbed k obj st ((release_all rs c)\<lparr>co_leases := m\<rparr>)"
  using release_all_spares_port [OF assms(1-3)] assms(2,4)
  by (simp add: port_undisturbed_def core_port_def del: map_of_eq_Some_iff release_all_simps)

lemma release_spares_port:
  assumes ok: "core_ok c" and u: "port_undisturbed k obj st c"
    and s: "ph_session_id (header request) \<noteq> uo_owner_session_id obj"
  shows "spares_port k obj st (handle_resource_release request c)"
proof -
  let ?c' = "snd (handle_resource_release request c)"
  have "outcome (\<lambda>x. \<exists>r m. snd x = c \<or>
      snd x = (release_all [(r, ph_session_id (header request))] c)\<lparr>co_leases := m\<rparr>) (handle_resource_release request c)"
    unfolding handle_resource_release_def Let_def
    by (intro outcome_branches) (auto simp: outcome_def reply_def)
  then obtain r m where "?c' = c \<or> ?c' = (release_all [(r, ph_session_id (header request))] c)\<lparr>co_leases := m\<rparr>"
    by (auto simp: outcome_def)
  moreover have "exclusive (co_leases ?c') (uo_resource_id obj) (uo_owner_session_id obj)"
    using exclusive_kept [of "uo_owner_session_id obj" ?c' c] release_keeps_leases [OF core_okD(3) [OF ok] s] u
    by (simp add: outcome_def port_undisturbed_def)
  moreover have "uart_holder obj \<notin> set [(r, ph_session_id (header request))]"
    using s by (simp add: uart_holder_def)
  note released_port_undisturbed [OF ok u this]
  ultimately show ?thesis
    using u by (elim disjE) (simp_all add: outcome_def del: release_all_simps)
qed

lemma expire_spares_port:
  assumes ok: "core_ok c" and u: "port_undisturbed k obj st c" and kept: "\<not> lease_expired now c (uart_holder obj)"
  shows "port_undisturbed k obj st (snd (expire_leases now c))"
proof -
  let ?gone = "\<lambda>l. le_expires_at l \<le> now" and ?m = "co_leases c"
  let ?ps = "purged ?gone ?m"
  note m = core_okD(3) [OF ok]
  have spared: "uart_holder obj \<notin> set ?ps"
    using kept purged_iff [OF m, of "uo_resource_id obj" "uo_owner_session_id obj" ?gone]
    by (simp add: lease_expired_def uart_holder_def)
  obtain es l where l: "map_of ?m (uo_resource_id obj) = Some es" "l \<in> set es"
      "le_owner_session_id l = uo_owner_session_id obj" "le_mode l = lease_mode_code LM_Exclusive"
    using u by (auto simp: port_undisturbed_def exclusive_def simp del: map_of_eq_Some_iff)
  have "\<not> ?gone l" using kept l by (auto simp: lease_expired_def uart_holder_def)
  then have "exclusive (kept_leases ?gone ?m) (uo_resource_id obj) (uo_owner_session_id obj)"
    using l kept_leases_lookup [OF m, of ?gone "uo_resource_id obj"]
    by (auto simp: exclusive_def filter_empty_conv simp del: map_of_eq_Some_iff)
  then show ?thesis using released_port_undisturbed [OF ok u spared] by (simp add: expire_leases_eq)
qed

text \<open>The operations on serial ports.\<close>

lemma uart_create_spares_port:
  assumes ok: "core_ok c" and u: "port_undisturbed k obj st c"
  shows "spares_port k obj st (handle_uart_create request c)"
proof -
  have busy: "uo_port obj \<noteq> port" if "\<not> list_ex (\<lambda>e. uo_port (snd e) = port) (co_uart_objects c)" for port
    using port_undisturbed_entry [OF u] that by (force simp: list_ex_iff)
  have configured: "port_undisturbed k obj st (c\<lparr>co_uart_bsp := Some b'\<rparr>)"
    if "co_uart_bsp c = Some b" "\<not> list_ex (\<lambda>e. uo_port (snd e) = port) (co_uart_objects c)"
      "uart_configure port config b = (x, b')" for b port config x b'
    using uart_ops_other(1) [OF busy [OF that(2)], of config b] that(3)
    by (intro port_undisturbed_uart [OF u that(1)]) simp
  have created: "port_undisturbed k obj st (c'\<lparr>co_next_object_id := n, co_uart_objects := hemplace i new (co_uart_objects c)\<rparr>)"
    if "port_undisturbed k obj st c'" for c' n i new
    using that u by (auto simp: port_undisturbed_def core_port_def map_of_hemplace simp del: map_of_eq_Some_iff)
  have "port_undisturbed k obj st (c\<lparr>co_uart_bsp := Some b', co_next_object_id := n,
      co_uart_objects := hemplace i new (co_uart_objects c)\<rparr>)"
    if "co_uart_bsp c = Some b" "\<not> list_ex (\<lambda>e. uo_port (snd e) = port) (co_uart_objects c)"
      "uart_configure port config b = (x, b')" for b port config x b' n i new
    using created [OF configured [OF that]] .
  with configured show ?thesis
    unfolding handle_uart_create_def Let_def using u
    by (intro outcome_if outcome_option outcome_sum outcome_pair outcome_run) (simp_all del: map_of_eq_Some_iff)
qed

lemma foreign_port:
  assumes ok: "core_ok c" and u: "port_undisturbed k obj st c" and owner: "uo_owner_session_id obj \<noteq> 0"
    and s: "ph_session_id (header request) \<noteq> uo_owner_session_id obj"
    and o: "map_of (co_uart_objects c) i = Some obj'" "\<not> foreign_owner (uo_owner_session_id obj') request"
  shows "uo_port obj \<noteq> uo_port obj'"
proof
  assume "uo_port obj = uo_port obj'"
  then have "(i, obj') = (k, obj)"
    using ports_distinct [OF ok port_undisturbed_entry [OF u] map_of_SomeD [OF o(1)]] by simp
  then show False using o(2) owner s by (auto simp: foreign_owner_def)
qed

lemma uart_read_spares_port:
  assumes ok: "core_ok c" and u: "port_undisturbed k obj st c" and owner: "uo_owner_session_id obj \<noteq> 0"
    and s: "ph_session_id (header request) \<noteq> uo_owner_session_id obj"
  shows "spares_port k obj st (handle_uart_read request c)"
proof -
  have "port_undisturbed k obj st (c\<lparr>co_uart_bsp := Some b'\<rparr>)"
    if "co_uart_bsp c = Some b" "map_of (co_uart_objects c) i = Some obj'"
      "\<not> foreign_owner (uo_owner_session_id obj') request" "uart_read (uo_port obj') n b = (x, b')" for b i obj' n x b'
    using uart_ops_other(2) [OF foreign_port [OF ok u owner s that(2,3)], of n b] that(4)
    by (intro port_undisturbed_uart [OF u that(1)]) simp
  then show ?thesis
    unfolding handle_uart_read_def Let_def using u
    by (intro outcome_if outcome_option outcome_sum outcome_pair outcome_run) (simp_all del: map_of_eq_Some_iff)
qed

lemma uart_write_spares_port:
  assumes ok: "core_ok c" and u: "port_undisturbed k obj st c" and owner: "uo_owner_session_id obj \<noteq> 0"
    and s: "ph_session_id (header request) \<noteq> uo_owner_session_id obj"
  shows "spares_port k obj st (handle_uart_write request c)"
proof -
  have "port_undisturbed k obj st (c\<lparr>co_uart_bsp := Some b'\<rparr>)"
    if "co_uart_bsp c = Some b" "map_of (co_uart_objects c) i = Some obj'"
      "\<not> foreign_owner (uo_owner_session_id obj') request" "uart_write (uo_port obj') d b = (x, b')" for b i obj' d x b'
    using uart_ops_other(3) [OF foreign_port [OF ok u owner s that(2,3)], of d b] that(4)
    by (intro port_undisturbed_uart [OF u that(1)]) simp
  then show ?thesis
    unfolding handle_uart_write_def Let_def using u
    by (intro outcome_if outcome_option outcome_sum outcome_pair outcome_run) (simp_all del: map_of_eq_Some_iff)
qed

lemma dispatch_spares_port:
  assumes "core_ok c" "port_undisturbed k obj st c" "uo_owner_session_id obj \<noteq> 0"
    and "ph_session_id (header request) \<noteq> uo_owner_session_id obj"
  shows "spares_port k obj st (dispatch i request now c)"
  unfolding dispatch_def using assms
  by (cases i) (simp_all add: plain_spare_port reset_spares_port acquire_spares_port renew_spares_port
      release_spares_port uart_create_spares_port uart_read_spares_port uart_write_spares_port)

lemma handle_spares_port:
  assumes ok: "core_ok c" and u: "port_undisturbed k obj st c" and owner: "uo_owner_session_id obj \<noteq> 0"
    and s: "ph_session_id (header request) \<noteq> uo_owner_session_id obj"
    and kept: "\<not> lease_expired now c (uart_holder obj)"
  shows "spares_port k obj st (handle request now c)"
proof -
  have "port_undisturbed k obj st (snd (expire_leases now c))" by (rule expire_spares_port [OF ok u kept])
  then show ?thesis unfolding handle_def Let_def using u
    by (intro outcome_if outcome_option dispatch_spares_port core_expire_ok ok owner s) simp_all
qed

subsection \<open>Sessions do not disturb each other\<close>

text \<open>The catalogue has no second resource for the port of a UART object.\<close>

definition port_has_one_resource :: "remote_core \<Rightarrow> uart_object \<Rightarrow> bool" where
  "port_has_one_resource c obj \<longleftrightarrow> (\<forall>r \<in> set (co_resources c).
     rd_type r = resource_type_code RT_Uart \<and> rd_instance r = ucast (uo_port obj) \<longrightarrow>
     rd_resource_id r = uo_resource_id obj)"

text \<open>
  C17. A session is isolated from the others: whatever request another session sends, with any command
  and payload, the leases of the session that have not expired stay as they are in every field (holder,
  mode, duration, end), exclusive and shared ones, and it gets no other leases. Each of its GPIO objects
  whose lease has not expired is still there unchanged, and its pin drives the same level; each of its
  UART objects whose lease has not expired is still there unchanged, and its port has the same
  configuration, buffers, overrun count and failure, when the catalogue has no second resource for the
  same port. The parser of board manifests sees to that, the core itself does not: through a second
  resource another session could reset the port.
\<close>

theorem session_isolation:
  assumes "core_reachable c"
    and "own \<noteq> 0" "ph_session_id (header request) \<noteq> own"
    and "handle request now c = (r, c')"
  shows "own_leases own c' \<subseteq> own_leases own c \<and>
    {p \<in> own_leases own c. now < le_expires_at (snd p)} \<subseteq> own_leases own c' \<and>
    (\<forall>k obj. map_of (co_gpio_objects c) k = Some obj \<and> go_owner_session_id obj = own \<and>
       \<not> lease_expired now c (gpio_holder obj) \<longrightarrow>
       map_of (co_gpio_objects c') k = Some obj \<and> core_level c' (go_pin obj) = core_level c (go_pin obj) \<and>
       session_has_exclusive_lease (go_resource_id obj) own c') \<and>
    (\<forall>k obj. map_of (co_uart_objects c) k = Some obj \<and> uo_owner_session_id obj = own \<and>
       \<not> lease_expired now c (uart_holder obj) \<and> port_has_one_resource c obj \<longrightarrow>
       map_of (co_uart_objects c') k = Some obj \<and> core_port c' (uo_port obj) = core_port c (uo_port obj) \<and>
       session_has_exclusive_lease (uo_resource_id obj) own c')"
proof -
  note ok = core_reachable_ok [OF assms(1)]
  have pin: "map_of (co_gpio_objects c') k = Some obj \<and> core_level c' (go_pin obj) = core_level c (go_pin obj) \<and>
      session_has_exclusive_lease (go_resource_id obj) own c'"
    if o: "map_of (co_gpio_objects c) k = Some obj" "go_owner_session_id obj = own"
      and e: "\<not> lease_expired now c (gpio_holder obj)" for k obj
  proof -
    have "exclusive (co_leases c) (go_resource_id obj) (go_owner_session_id obj)"
      using core_okD(9) [OF ok map_of_SomeD [OF o(1)]] o(2) assms(2) by (simp add: holder_ok_def gpio_holder_def)
    then have "undisturbed k obj (core_level c (go_pin obj)) c"
      using o(1) by (simp add: undisturbed_def del: map_of_eq_Some_iff)
    from handle_spares [OF ok this _ _ e] show ?thesis
      using assms(2-4) o(2) unfolding outcome_def undisturbed_def exclusive_iff by fastforce
  qed
  have port: "map_of (co_uart_objects c') k = Some obj \<and> core_port c' (uo_port obj) = core_port c (uo_port obj) \<and>
      session_has_exclusive_lease (uo_resource_id obj) own c'"
    if o: "map_of (co_uart_objects c) k = Some obj" "uo_owner_session_id obj = own"
      and e: "\<not> lease_expired now c (uart_holder obj)" and one: "port_has_one_resource c obj" for k obj
  proof -
    have "exclusive (co_leases c) (uo_resource_id obj) (uo_owner_session_id obj)"
      using core_okD(10) [OF ok map_of_SomeD [OF o(1)]] o(2) assms(2) by (simp add: holder_ok_def uart_holder_def)
    then have "port_undisturbed k obj (core_port c (uo_port obj)) c"
      using o(1) one by (simp add: port_undisturbed_def port_has_one_resource_def del: map_of_eq_Some_iff)
    from handle_spares_port [OF ok this _ _ e] show ?thesis
      using assms(2-4) o(2) unfolding outcome_def port_undisturbed_def exclusive_iff by fastforce
  qed
  have "snd (handle request now c) = c'" using assms(4) by simp
  with handle_keeps_leases [OF ok assms(3), of now] show ?thesis
    by (intro conjI allI impI; (elim conjE)?; simp add: pin port del: map_of_eq_Some_iff)
qed

theorem session_isolation_witness:
  "own_leases 5 (snd (handle (demo_request ResourceRenew 6 0 [7, 0, 0, 0, 1, 0, 0, 0, 200, 0, 0, 0]) 2 demo_owned)) =
     {(7, demo_lease)} \<and>
   core_level (snd (handle (demo_request ResourceRenew 6 0 [7, 0, 0, 0, 1, 0, 0, 0, 200, 0, 0, 0]) 2 demo_owned)) 3 =
     Some True"
proof -
  let ?request = "demo_request ResourceRenew 6 0 [7, 0, 0, 0, 1, 0, 0, 0, 200, 0, 0, 0]"
  obtain r c' where h: "handle ?request 2 demo_owned = (r, c')" by (meson surj_pair)
  have a: "\<not> lease_expired 2 demo_owned (gpio_holder demo_object)"
    by (simp add: lease_expired_def gpio_holder_def demo_defs ms_def)
  have b: "map_of (co_gpio_objects demo_owned) 1 = Some demo_object" "go_owner_session_id demo_object = 5"
    "ph_session_id (header ?request) \<noteq> 5"
    by (simp_all add: demo_owned_def demo_object_def demo_request_def default_header_def)
  have own: "own_leases 5 demo_owned = {(7, demo_lease)}"
    by (auto simp: own_leases_def demo_owned_def demo_leased_def demo_lease_def split: if_splits)
  have c: "2 < le_expires_at demo_lease" by (simp add: demo_lease_def ms_def)
  note isolated = session_isolation [OF demo_reachable_cores(2) _ b(3) h]
  have "core_level c' (go_pin demo_object) = core_level demo_owned (go_pin demo_object)"
    using isolated a b(1,2) by (simp del: map_of_eq_Some_iff)
  moreover have "own_leases 5 c' = {(7, demo_lease)}"
    using isolated c unfolding own by auto
  ultimately show ?thesis using demo_level by (simp add: h demo_object_def)
qed

end
