(* ===== verification/Fragmentation.thy ===== *)
theory Fragmentation
  imports Packet
begin

text \<open>
  \<^verbatim>\<open>protocol/include/remotebsp/protocol/fragmentation.hpp\<close> and \<^verbatim>\<open>protocol/src/fragmentation.cpp\<close>:
  the 5-byte fragment frame, \<^verbatim>\<open>Fragmenter::split\<close>. The reassembler is in the theory
  \<open>Reassembly\<close>. The lemmas give the exact domain of the frame codec (with the zero padding a
  CAN-FD controller appends) and the shape of what \<open>split\<close> produces for every legal MTU.
\<close>

definition kFragmentHeaderSize :: nat where
  "kFragmentHeaderSize = 5"

definition kFragmentFirst :: byte where
  "kFragmentFirst = 0x01"

definition kFragmentLast :: byte where
  "kFragmentLast = 0x02"

definition kFragmentFlagMask :: byte where
  "kFragmentFlagMask = kFragmentFirst OR kFragmentLast"

definition kFragmentLengthShift :: nat where
  "kFragmentLengthShift = 2"

definition kFragmentLengthMask :: byte where
  "kFragmentLengthMask = 0xFC"

lemmas fragment_consts = kFragmentHeaderSize_def kFragmentFirst_def kFragmentLast_def
  kFragmentFlagMask_def kFragmentLengthShift_def kFragmentLengthMask_def

record fragment =
  fr_transfer_id :: u16
  fr_sequence :: u16
  fr_flags :: byte
  fr_payload :: "byte list"

datatype fragment_error =
    InvalidMtu | EmptyPacket | PacketTooLarge | FrameTooShort | FrameTooLarge | InvalidFlags
  | InvalidPadding | InvalidSequence | UnknownTransfer | ConflictingDuplicate | DataAfterLast
  | ReassembledPacketTooLarge

definition validate_mtu :: "nat \<Rightarrow> fragment_error + unit" where
  "validate_mtu mtu = (if mtu \<le> kFragmentHeaderSize then Inl InvalidMtu else Inr ())"

definition encode_fragment :: "fragment \<Rightarrow> nat \<Rightarrow> fragment_error + byte list" where
  "encode_fragment f mtu = try_bind (validate_mtu mtu) (\<lambda>_.
     if fr_flags f AND NOT kFragmentFlagMask \<noteq> 0 then Inl InvalidFlags
     else if (fr_flags f AND kFragmentFirst \<noteq> 0) \<noteq> (fr_sequence f = 0) then Inl InvalidSequence
     else if fr_payload f = [] then Inl EmptyPacket
     else if kFragmentHeaderSize + length (fr_payload f) > mtu then Inl FrameTooLarge
     else if length (fr_payload f) > unat (drop_bit kFragmentLengthShift kFragmentLengthMask)
       then Inl FrameTooLarge
     else Inr (put_u16 (fr_transfer_id f) @ put_u16 (fr_sequence f) @
               [fr_flags f OR
                  push_bit kFragmentLengthShift (word_of_nat (length (fr_payload f)))] @
               fr_payload f))"

definition encoded_payload_length :: "byte \<Rightarrow> nat" where
  "encoded_payload_length b = unat (drop_bit kFragmentLengthShift (b AND kFragmentLengthMask))"

definition decode_fragment :: "byte list \<Rightarrow> nat \<Rightarrow> fragment_error + fragment" where
  "decode_fragment data mtu = try_bind (validate_mtu mtu) (\<lambda>_.
     if length data \<le> kFragmentHeaderSize then Inl FrameTooShort
     else if length data > mtu then Inl FrameTooLarge
     else let payload_length = encoded_payload_length (data ! 4) in
       if payload_length = 0 then Inl EmptyPacket
       else if kFragmentHeaderSize + payload_length > mtu then Inl FrameTooLarge
       else if length data < kFragmentHeaderSize + payload_length then Inl FrameTooShort
       else if \<not> list_all (\<lambda>b. b = 0) (drop (kFragmentHeaderSize + payload_length) data)
         then Inl InvalidPadding
       else let f = \<lparr>fr_transfer_id = get_u16 data, fr_sequence = get_u16 (drop 2 data),
                     fr_flags = data ! 4 AND kFragmentFlagMask,
                     fr_payload = take payload_length (drop kFragmentHeaderSize data)\<rparr> in
         if (fr_flags f AND kFragmentFirst \<noteq> 0) \<noteq> (fr_sequence f = 0) then Inl InvalidSequence
         else Inr f)"

text \<open>
  \<^verbatim>\<open>Fragmenter\<close> holds the MTU its constructor validated; \<open>split_fragment\<close> is the body of the
  loop for index \<open>i\<close>.
\<close>

definition fragmenter_new :: "nat \<Rightarrow> fragment_error + nat" where
  "fragmenter_new mtu = try_bind (validate_mtu mtu) (\<lambda>_. Inr mtu)"

definition fragment_count :: "nat \<Rightarrow> nat \<Rightarrow> nat" where
  "fragment_count mtu n =
     (let capacity = mtu - kFragmentHeaderSize in (n + capacity - 1) div capacity)"

definition split_fragment :: "nat \<Rightarrow> byte list \<Rightarrow> u16 \<Rightarrow> nat \<Rightarrow> fragment" where
  "split_fragment mtu pkt transfer_id i =
     (let capacity = mtu - kFragmentHeaderSize;
          count = fragment_count mtu (length pkt);
          offset = i * capacity;
          len = min capacity (length pkt - offset)
      in \<lparr>fr_transfer_id = transfer_id, fr_sequence = word_of_nat i,
          fr_flags = (if i = 0 then kFragmentFirst else 0) OR
                     (if i + 1 = count then kFragmentLast else 0),
          fr_payload = take len (drop offset pkt)\<rparr>)"

definition fragmenter_split :: "nat \<Rightarrow> byte list \<Rightarrow> u16 \<Rightarrow> fragment_error + byte list list" where
  "fragmenter_split mtu pkt transfer_id =
     (if pkt = [] then Inl EmptyPacket
      else if length pkt > kMaximumPacketSize then Inl PacketTooLarge
      else let count = fragment_count mtu (length pkt) in
        if count > 65535 then Inl PacketTooLarge
        else traverse (\<lambda>i. encode_fragment (split_fragment mtu pkt transfer_id i) mtu) [0..<count])"

subsection \<open>The frame codec\<close>

text \<open>What \<open>encode_fragment\<close> accepts: at most 63 payload bytes, whatever the MTU.\<close>

definition frame_ok :: "nat \<Rightarrow> fragment \<Rightarrow> bool" where
  "frame_ok mtu f \<longleftrightarrow> 5 < mtu \<and> fr_flags f \<in> {0, 1, 2, 3} \<and>
     (bit (fr_flags f) 0 \<longleftrightarrow> fr_sequence f = 0) \<and>
     0 < length (fr_payload f) \<and> 5 + length (fr_payload f) \<le> mtu \<and> length (fr_payload f) \<le> 63"

text \<open>The flag byte: two flag bits below six length bits.\<close>

lemma flag_mask_eq: "kFragmentFlagMask = mask 2" "kFragmentLengthMask = NOT (mask 2)"
  by (simp_all add: fragment_consts mask_numeral)

lemma byte_zero_iff: "v = 0 \<longleftrightarrow> (\<forall>n. \<not> bit v n)" for v :: byte
proof
  assume "\<forall>n. \<not> bit v n"
  then show "v = 0" by (intro byte_eqI) simp
qed simp

lemma byte_low_two_iff: "v \<in> {0, 1, 2, 3} \<longleftrightarrow> (\<forall>n \<ge> 2. \<not> bit v n)" for v :: byte
proof
  have "3 = (mask 2 :: byte)" by (simp add: mask_numeral)
  moreover assume "v \<in> {0, 1, 2, 3}"
  ultimately consider "v = 0" | "v = 1" | "v = 2" | "v = mask 2" by blast
  then show "\<forall>n \<ge> 2. \<not> bit v n"
    by cases (auto simp: bit_mask_iff bit_2_iff bit_1_iff)
next
  assume z: "\<forall>n \<ge> 2. \<not> bit v n"
  have "v = v AND mask 2"
    using z by (intro byte_eqI) (auto simp: bit_and_iff bit_mask_iff, meson not_less)
  then have "v \<le> mask 2" by (metis word_and_le1)
  then have "unat v < 4" by (simp add: mask_numeral word_le_nat_alt)
  then have "unat v = 0 \<or> unat v = 1 \<or> unat v = 2 \<or> unat v = 3" by presburger
  then show "v \<in> {0, 1, 2, 3}"
    by (auto simp flip: word_unat_eq_iff simp: word_unat_eq_iff)
qed

lemma low_two_bit: "v \<in> {0, 1, 2, 3} \<Longrightarrow> bit v n \<Longrightarrow> n < 2" for v :: byte
  using byte_low_two_iff [of v] leI by blast

lemma flags_masked_iff: "v AND NOT kFragmentFlagMask = 0 \<longleftrightarrow> v \<in> {0, 1, 2, 3}"
proof -
  have "v AND NOT kFragmentFlagMask = 0 \<longleftrightarrow> (\<forall>n \<ge> 2. \<not> bit v n)"
    by (auto simp: byte_zero_iff flag_mask_eq bit_and_iff bit_not_iff bit_mask_iff not_less
        dest: bit_imp_le_length)
  then show ?thesis by (simp only: byte_low_two_iff)
qed

lemma first_flag_iff [simp]: "v AND kFragmentFirst = 0 \<longleftrightarrow> \<not> bit v 0"
  by (simp add: fragment_consts and_one_eq mod_2_eq_odd bit_0)

lemma last_flag_iff [simp]: "v AND kFragmentLast = 0 \<longleftrightarrow> \<not> bit v 1"
  unfolding kFragmentLast_def byte_zero_iff bit_and_iff bit_2_iff by auto

lemma max_fragment_payload [simp]:
  "unat (drop_bit kFragmentLengthShift kFragmentLengthMask) = 63"
  by (simp add: fragment_consts)

lemma length_field_read:
  assumes "v \<in> {0, 1, 2, 3}" and "n \<le> 63"
  shows "encoded_payload_length (v OR push_bit kFragmentLengthShift (word_of_nat n)) = n"
proof -
  have "word_of_nat n = (word_of_nat n AND mask 6 :: byte)"
    using assms(2)
    by (simp add: word_unat_eq_iff unat_of_nat_small flip: take_bit_eq_mask)
      (simp add: unsigned_take_bit_eq unat_of_nat_small take_bit_nat_eq_self)
  then have n: "bit (word_of_nat n :: byte) k \<Longrightarrow> k < 6" for k
    by (metis bit_and_iff bit_mask_iff)
  have v: "\<not> bit v (Suc (Suc k))" for k
    using low_two_bit [OF assms(1), of "Suc (Suc k)"] by auto
  have "drop_bit kFragmentLengthShift
     ((v OR push_bit kFragmentLengthShift (word_of_nat n)) AND kFragmentLengthMask)
     = (word_of_nat n :: byte)"
    by (rule byte_eqI)
      (use n v in \<open>auto simp: flag_mask_eq kFragmentLengthShift_def
         bit_drop_bit_eq bit_and_iff bit_or_iff bit_push_bit_iff bit_not_iff bit_mask_iff
         dest: bit_imp_le_length\<close>)
  then show ?thesis using assms(2) by (simp add: encoded_payload_length_def unat_of_nat_small)
qed

lemma flags_field_read:
  "v \<in> {0, 1, 2, 3} \<Longrightarrow> (v OR push_bit kFragmentLengthShift x) AND kFragmentFlagMask = v"
  by (rule byte_eqI)
    (use low_two_bit [of v] in \<open>auto simp del: insert_iff simp: flag_mask_eq
      kFragmentLengthShift_def bit_and_iff bit_or_iff bit_push_bit_iff bit_mask_iff\<close>)

lemma flag_byte_write:
  "(b AND kFragmentFlagMask) OR push_bit kFragmentLengthShift
     (word_of_nat (encoded_payload_length b)) = b"
proof (rule byte_eqI)
  fix n :: nat assume "n < 8"
  moreover have "2 \<le> n \<Longrightarrow> Suc (Suc (n - 2)) = n" by simp
  ultimately show "bit ((b AND kFragmentFlagMask) OR push_bit kFragmentLengthShift
     (word_of_nat (encoded_payload_length b))) n = bit b n"
    by (cases "2 \<le> n") (auto simp: encoded_payload_length_def flag_mask_eq kFragmentLengthShift_def bit_and_iff bit_or_iff
      bit_drop_bit_eq bit_push_bit_iff bit_mask_iff bit_not_iff)
qed


lemma length_field_bound: "encoded_payload_length b \<le> 63"
proof -
  have "drop_bit kFragmentLengthShift (b AND kFragmentLengthMask) \<le> mask 6"
  proof -
    have "drop_bit kFragmentLengthShift (b AND kFragmentLengthMask)
        = drop_bit kFragmentLengthShift (b AND kFragmentLengthMask) AND mask 6"
      by (rule byte_eqI) (auto simp: kFragmentLengthShift_def bit_and_iff bit_drop_bit_eq
          bit_mask_iff dest: bit_imp_le_length)
    then show ?thesis by (metis word_and_le1)
  qed
  then show ?thesis
    unfolding encoded_payload_length_def by (simp add: mask_numeral word_le_nat_alt)
qed

lemma masked_flags: "b AND kFragmentFlagMask \<in> {0, 1, 2, 3}"
  by (simp only: byte_low_two_iff) (auto simp: flag_mask_eq bit_and_iff bit_mask_iff)

lemma encode_fragment_iff:
  "encode_fragment f mtu = Inr bs \<longleftrightarrow> frame_ok mtu f \<and>
     bs = put_u16 (fr_transfer_id f) @ put_u16 (fr_sequence f) @
       [fr_flags f OR push_bit kFragmentLengthShift (word_of_nat (length (fr_payload f)))] @
       fr_payload f"
  by (auto simp: encode_fragment_def frame_ok_def validate_mtu_def flags_masked_iff
      kFragmentHeaderSize_def not_less simp del: insert_iff)

lemma encode_fragment_length:
  "encode_fragment f mtu = Inr bs \<Longrightarrow> length bs = 5 + length (fr_payload f)"
  by (auto simp: encode_fragment_iff)

lemma decode_padded:
  assumes "encode_fragment f mtu = Inr bs" and "length bs + n \<le> mtu"
  shows "decode_fragment (bs @ replicate n 0) mtu = Inr f"
proof -
  have ok: "frame_ok mtu f" and bs: "bs = put_u16 (fr_transfer_id f) @ put_u16 (fr_sequence f) @
       [fr_flags f OR push_bit kFragmentLengthShift (word_of_nat (length (fr_payload f)))] @
       fr_payload f"
    using assms(1) by (simp_all add: encode_fragment_iff)
  note f = ok [unfolded frame_ok_def]
  let ?data = "bs @ replicate n 0"
  have b4: "?data ! 4 = fr_flags f OR push_bit kFragmentLengthShift (word_of_nat (length (fr_payload f)))"
    by (simp add: bs nth_append put_u16_def)
  have len: "encoded_payload_length (?data ! 4) = length (fr_payload f)"
    unfolding b4 by (rule length_field_read) (use f in simp_all)
  have flags: "?data ! 4 AND kFragmentFlagMask = fr_flags f"
    unfolding b4 by (rule flags_field_read) (use f in simp)
  define data where "data = ?data"
  have d: "get_u16 data = fr_transfer_id f" "get_u16 (drop 2 data) = fr_sequence f"
    using get_put_u16 [of "fr_sequence f"]
    by (simp_all add: data_def bs numeral_2_eq_2)
  have d5: "drop 5 data = fr_payload f @ replicate n 0" "length data = 5 + length (fr_payload f) + n"
    by (simp_all add: data_def bs put_u16_def)
  have tail: "drop (5 + length (fr_payload f)) data = replicate n 0"
    using d5(1) by (metis append_eq_conv_conj drop_drop add.commute)
  have "length bs = 5 + length (fr_payload f)" by (simp add: bs)
  then show ?thesis
    using f assms(2) len flags d5(2) tail
    unfolding data_def [symmetric]
    by (simp add: decode_fragment_def validate_mtu_def kFragmentHeaderSize_def d d5(1)
        list_all_iff)
qed

lemma decode_fragment_InrD:
  assumes "decode_fragment data mtu = Inr f"
  defines "n \<equiv> encoded_payload_length (data ! 4)"
  shows "5 < mtu" "length data \<le> mtu" "0 < n" "5 + n \<le> length data"
    and "list_all (\<lambda>b. b = 0) (drop (5 + n) data)"
    and "f = \<lparr>fr_transfer_id = get_u16 data, fr_sequence = get_u16 (drop 2 data),
              fr_flags = data ! 4 AND kFragmentFlagMask, fr_payload = take n (drop 5 data)\<rparr>"
    and "bit (fr_flags f) 0 \<longleftrightarrow> fr_sequence f = 0"
  using assms(1)
  by (auto simp: decode_fragment_def validate_mtu_def kFragmentHeaderSize_def Let_def n_def
      try_bind_def not_less split: if_splits simp del: drop_drop drop_append drop_all)

lemma encode_decoded:
  assumes dec: "decode_fragment data mtu = Inr f"
  shows "encode_fragment f mtu = Inr (take (5 + length (fr_payload f)) data)"
    and "data = take (5 + length (fr_payload f)) data
           @ replicate (length data - (5 + length (fr_payload f))) 0"
proof -
  define n where "n = encoded_payload_length (data ! 4)"
  note d = decode_fragment_InrD [OF dec, folded n_def]
  have len: "length (fr_payload f) = n" using d(4,6) by simp
  have "n \<le> 63" unfolding n_def by (rule length_field_bound)
  then have ok: "frame_ok mtu f"
    using d masked_flags [of "data ! 4"] len by (simp add: frame_ok_def del: insert_iff)
  have b4: "data ! 4 # take n (drop 5 data) = take (Suc n) (drop 4 data)"
    using d(4) by (intro byte_join) simp_all
  have "put_u16 (fr_transfer_id f) @ put_u16 (fr_sequence f) @
       [fr_flags f OR push_bit kFragmentLengthShift (word_of_nat (length (fr_payload f)))] @
       fr_payload f = take 2 data @ take 2 (drop 2 data) @ data ! 4 # take n (drop 5 data)"
    using d(4) flag_byte_write [of "data ! 4"] len
    by (simp add: d(6) put_get_take put_get_at n_def)
  also have "\<dots> = take 4 data @ take (Suc n) (drop 4 data)"
    using b4 take_add [of 2 2 data] by simp
  also have "\<dots> = take (5 + n) data"
    using take_add [of 4 "Suc n" data] by simp
  finally show "encode_fragment f mtu = Inr (take (5 + length (fr_payload f)) data)"
    using ok by (simp add: encode_fragment_iff len)
  have "drop (5 + n) data = replicate (length data - (5 + n)) 0"
    using replicate_length_same [of "drop (5 + n) data" 0] d(5)
    by (simp only: list_all_iff length_drop)
  then show "data = take (5 + length (fr_payload f)) data
           @ replicate (length data - (5 + length (fr_payload f))) 0"
    unfolding len using append_take_drop_id [of "5 + n" data] by argo
qed

subsection \<open>Splitting\<close>

lemma div_ceil_bounds:
  "0 < (c::nat) \<Longrightarrow> 0 < n \<Longrightarrow> (n + c - 1) div c * c < n + c \<and> n \<le> (n + c - 1) div c * c"
proof -
  assume c: "0 < c" and n: "0 < n"
  have "(n + c - 1) div c * c + (n + c - 1) mod c = n + c - 1" by simp
  moreover have "(n + c - 1) mod c < c" using c by simp
  ultimately show ?thesis using n by linarith
qed

lemma fragment_count_bounds:
  assumes "5 < mtu" "0 < n"
  shows "0 < fragment_count mtu n" "n \<le> fragment_count mtu n * (mtu - 5)"
    "(fragment_count mtu n - 1) * (mtu - 5) < n" "fragment_count mtu n \<le> n"
proof -
  define c where "c = mtu - 5"
  define k where "k = fragment_count mtu n"
  have c: "0 < c" using assms by (simp add: c_def)
  have k: "k = (n + c - 1) div c"
    by (simp add: k_def c_def fragment_count_def kFragmentHeaderSize_def Let_def)
  have b: "k * c < n + c" "n \<le> k * c"
    using div_ceil_bounds [OF c assms(2)] k by simp_all
  show "0 < k" using b assms(2) by (cases k) auto
  show "n \<le> k * c" by (rule b)
  show "(k - 1) * c < n" using b(1) \<open>0 < k\<close> by (cases k) (auto)
  then have "k - 1 < n" using c
    by (metis One_nat_def Suc_leI mult.right_neutral mult_le_mono2 order_le_less_trans)
  then show "k \<le> n" by simp
qed

lemma split_payloads:
  assumes "0 < c"
  shows "concat (map (\<lambda>i. take (min c (length pkt - i * c)) (drop (i * c) pkt)) [0..<k]) =
         take (k * c) pkt"
proof (induction k)
  case 0
  then show ?case by simp
next
  case (Suc k)
  have "take (min c (length pkt - k * c)) (drop (k * c) pkt) = take c (drop (k * c) pkt)"
    by (simp add: min_def)
  with Suc show ?case by (simp add: take_add add.commute [of c])
qed

text \<open>The frame that goes out for index \<open>i\<close>.\<close>

definition split_frame :: "nat \<Rightarrow> byte list \<Rightarrow> u16 \<Rightarrow> nat \<Rightarrow> byte list" where
  "split_frame mtu pkt transfer_id i =
     (case encode_fragment (split_fragment mtu pkt transfer_id i) mtu of
        Inr frame \<Rightarrow> frame | Inl _ \<Rightarrow> [])"

definition splittable :: "nat \<Rightarrow> byte list \<Rightarrow> bool" where
  "splittable mtu pkt \<longleftrightarrow> 5 < mtu \<and> 0 < length pkt \<and> length pkt \<le> kMaximumPacketSize \<and>
     min (mtu - 5) (length pkt) \<le> 63"

lemma flag_bits: "bit kFragmentFirst n \<longleftrightarrow> n = 0" "bit kFragmentLast n \<longleftrightarrow> n = 1"
  by (auto simp: kFragmentFirst_def kFragmentLast_def bit_1_iff bit_2_iff)

lemma split_fragment_flags:
  "fr_flags (split_fragment mtu pkt tid i) \<in> {0, 1, 2, 3}"
  "bit (fr_flags (split_fragment mtu pkt tid i)) 0 \<longleftrightarrow> i = 0"
  "bit (fr_flags (split_fragment mtu pkt tid i)) 1 \<longleftrightarrow> i + 1 = fragment_count mtu (length pkt)"
proof -
  have "fr_flags (split_fragment mtu pkt tid i) = (if i = 0 then kFragmentFirst else 0) OR
      (if i + 1 = fragment_count mtu (length pkt) then kFragmentLast else 0)"
    by (simp add: split_fragment_def Let_def)
  then have "bit (fr_flags (split_fragment mtu pkt tid i)) n \<longleftrightarrow>
      n = 0 \<and> i = 0 \<or> n = 1 \<and> i + 1 = fragment_count mtu (length pkt)" for n
    by (simp only: bit_or_iff) (auto simp: flag_bits)
  then show "fr_flags (split_fragment mtu pkt tid i) \<in> {0, 1, 2, 3}"
    "bit (fr_flags (split_fragment mtu pkt tid i)) 0 \<longleftrightarrow> i = 0"
    "bit (fr_flags (split_fragment mtu pkt tid i)) 1 \<longleftrightarrow> i + 1 = fragment_count mtu (length pkt)"
    by (simp_all only: byte_low_two_iff) auto
qed

lemma split_fragment_ok:
  assumes s: "splittable mtu pkt" and i: "i < fragment_count mtu (length pkt)"
  shows "frame_ok mtu (split_fragment mtu pkt tid i)"
proof -
  define c where "c = mtu - 5"
  define k where "k = fragment_count mtu (length pkt)"
  have s': "5 < mtu" "0 < length pkt" "length pkt \<le> 2048" "min c (length pkt) \<le> 63"
    using s by (simp_all add: splittable_def packet_consts c_def)
  note b = fragment_count_bounds [OF s'(1,2), folded c_def k_def]
  have "i \<le> k - 1" using i by (simp add: k_def)
  then have "i * c \<le> (k - 1) * c" by (rule mult_le_mono1)
  then have ic: "i * c < length pkt" using b(3) by (rule order_le_less_trans)
  have len: "length (fr_payload (split_fragment mtu pkt tid i)) = min c (length pkt - i * c)"
    by (simp add: split_fragment_def Let_def c_def kFragmentHeaderSize_def)
  have "i < 2048" using i b(4) s'(3) by (simp add: k_def)
  then have seq: "fr_sequence (split_fragment mtu pkt tid i) = 0 \<longleftrightarrow> i = 0"
    by (simp add: split_fragment_def Let_def word_unat_eq_iff unat_of_nat_small)
  show ?thesis
    unfolding frame_ok_def len seq using s' ic split_fragment_flags [of mtu pkt tid i]
    by (auto simp: c_def simp del: insert_iff)
qed

lemma splittable_count:
  "splittable mtu pkt \<Longrightarrow> fragment_count mtu (length pkt) \<le> 2048"
  using fragment_count_bounds(4) [of mtu "length pkt"]
  by (simp add: splittable_def packet_consts)

lemma split_frame_encoded:
  "splittable mtu pkt \<Longrightarrow> i < fragment_count mtu (length pkt) \<Longrightarrow>
   encode_fragment (split_fragment mtu pkt tid i) mtu = Inr (split_frame mtu pkt tid i)"
  unfolding split_frame_def
  using encode_fragment_iff [THEN iffD2, OF conjI, OF split_fragment_ok refl, of mtu pkt i tid]
  by (metis sum.case(2))

lemma fragmenter_split_Inr:
  assumes "splittable mtu pkt"
  shows "fragmenter_split mtu pkt tid =
         Inr (map (split_frame mtu pkt tid) [0..<fragment_count mtu (length pkt)])"
  using assms splittable_count [OF assms]
  by (auto simp: fragmenter_split_def Let_def splittable_def split_frame_encoded
      intro!: traverse_all_Inr)

lemma fragmenter_split_Inl:
  assumes "5 < mtu" and "\<not> splittable mtu pkt"
  shows "\<exists>e. fragmenter_split mtu pkt tid = Inl e"
proof (cases "fragmenter_split mtu pkt tid")
  case (Inr frames)
  then have p: "pkt \<noteq> []" "length pkt \<le> kMaximumPacketSize" and
    t: "traverse (\<lambda>i. encode_fragment (split_fragment mtu pkt tid i) mtu)
          [0..<fragment_count mtu (length pkt)] = Inr frames"
    by (auto simp: fragmenter_split_def Let_def split: if_splits)
  have "0 < fragment_count mtu (length pkt)"
    using fragment_count_bounds(1) assms(1) p(1) by simp
  then have "encode_fragment (split_fragment mtu pkt tid 0) mtu = Inr (frames ! 0)"
    using t by (auto simp: traverse_Inr_iff list_all2_conv_all_nth)
  then have "length (fr_payload (split_fragment mtu pkt tid 0)) \<le> 63"
    by (simp add: encode_fragment_iff frame_ok_def)
  then show ?thesis
    using assms p by (simp add: splittable_def split_fragment_def Let_def kFragmentHeaderSize_def)
qed simp

subsection \<open>Properties\<close>

text \<open>
  C3. A frame decodes to a fragment exactly when it is that fragment's encoding followed by zero
  padding, as a CAN-FD controller adds it, within the MTU.
\<close>

theorem fragment_decode_iff:
  "decode_fragment data mtu = Inr f \<longleftrightarrow>
   (\<exists>bs n. encode_fragment f mtu = Inr bs \<and> data = bs @ replicate n 0 \<and> length data \<le> mtu)"
  using decode_padded [of f mtu] encode_decoded [of data mtu f] decode_fragment_InrD(2) [of data mtu f]
  by auto

text \<open>
  With a legal MTU, splitting succeeds exactly for packets of 1 to 2048 bytes whose largest
  fragment fits the six-bit length field (any MTU up to 68 guarantees it). The frames then decode,
  in order, to fragments with consecutive sequence numbers, FIRST on the first only, LAST on the
  last only, whose payloads concatenate to the packet.
\<close>

theorem split_frames:
  assumes mtu: "5 < mtu"
  shows "if splittable mtu pkt
         then \<exists>frames frs. fragmenter_split mtu pkt tid = Inr frames \<and>
           traverse (\<lambda>d. decode_fragment d mtu) frames = Inr frs \<and>
           map fr_sequence frs = map word_of_nat [0..<length frs] \<and>
           map (\<lambda>f. bit (fr_flags f) 0) frs = map (\<lambda>i. i = 0) [0..<length frs] \<and>
           map (\<lambda>f. bit (fr_flags f) 1) frs = map (\<lambda>i. i + 1 = length frs) [0..<length frs] \<and>
           list_all (\<lambda>f. fr_transfer_id f = tid) frs \<and>
           concat (map fr_payload frs) = pkt
         else \<exists>e. fragmenter_split mtu pkt tid = Inl e"
proof (cases "splittable mtu pkt")
  case True
  define k where "k = fragment_count mtu (length pkt)"
  define frs where "frs = map (split_fragment mtu pkt tid) [0..<k]"
  have dec: "decode_fragment (split_frame mtu pkt tid i) mtu = Inr (split_fragment mtu pkt tid i)"
    if i: "i < k" for i
  proof -
    have "encode_fragment (split_fragment mtu pkt tid i) mtu = Inr (split_frame mtu pkt tid i)"
      using True i by (intro split_frame_encoded) (simp_all add: k_def)
    moreover from this have "length (split_frame mtu pkt tid i) + 0 \<le> mtu"
      by (auto simp: encode_fragment_iff frame_ok_def)
    ultimately show ?thesis using decode_padded [where n = 0] by fastforce
  qed
  have t: "traverse (\<lambda>d. decode_fragment d mtu) (map (split_frame mtu pkt tid) [0..<k]) = Inr frs"
    by (auto simp: traverse_Inr_iff list_all2_conv_all_nth frs_def dec)
  have c: "0 < mtu - 5" "pkt \<noteq> []" using True by (auto simp: splittable_def)
  have "concat (map fr_payload frs) = take (k * (mtu - 5)) pkt"
    unfolding split_payloads [OF c(1), symmetric]
    by (simp add: frs_def split_fragment_def Let_def comp_def kFragmentHeaderSize_def)
  moreover have "0 < k" "length pkt \<le> k * (mtu - 5)"
    using fragment_count_bounds(1,2) [OF mtu, of "length pkt"] c by (simp_all add: k_def)
  ultimately have "concat (map fr_payload frs) = pkt" "0 < k" by simp_all
  then show ?thesis
    using True t split_fragment_flags [of mtu pkt tid] fragmenter_split_Inr [OF True, of tid]
    by (auto simp: frs_def k_def [symmetric] comp_def)
      (simp_all add: split_fragment_def Let_def list_all_iff)
next
  case False
  then show ?thesis using fragmenter_split_Inl [OF mtu False] by simp
qed

theorem split_frames_witness:
  "\<exists>frames frs. fragmenter_split 7 [1, 2, 3] 9 = Inr frames \<and>
     traverse (\<lambda>d. decode_fragment d 7) frames = Inr frs \<and> concat (map fr_payload frs) = [1, 2, 3]"
  using split_frames [of 7 "[1, 2, 3]" 9] by (auto simp: splittable_def packet_consts)

end
