(* ===== verification/Reassembly.thy ===== *)
theory Reassembly
  imports Fragmentation
begin

text \<open>
  \<^verbatim>\<open>class Reassembler\<close> of \<^verbatim>\<open>protocol/src/fragmentation.cpp\<close>: one \<open>transfer\<close> per (stream, transfer
  id), filled by \<open>accept\<close> and dropped by \<open>expire\<close>. The lemmas give the invariant of every
  reachable reassembler and show that the frames of a split packet, delivered in any order with
  any repetitions among frames of other transfers, produce the packet exactly once.
\<close>

subsection \<open>State and operations\<close>

datatype reassembly_status = InProgress | Complete | Duplicate

datatype reassembly_error =
  FragmentException fragment_error | ReassemblyInvalidArgument | ReassemblyOutOfRange

record transfer =
  tr_last_update :: time
  tr_pieces :: "(u16, byte list) hmap"
  tr_piece_flags :: "(u16, byte) hmap"
  tr_last_sequence :: "u16 option"
  tr_received_size :: nat
  tr_complete :: bool
  tr_completed_packet :: "byte list"

record reassembler =
  ra_mtu :: nat
  ra_timeout :: time
  ra_transfers :: "(u64, transfer) hmap"

definition reassembler_new :: "nat \<Rightarrow> time \<Rightarrow> reassembly_error + reassembler" where
  "reassembler_new mtu timeout =
     try_bind (map_error FragmentException (validate_mtu mtu)) (\<lambda>_.
       if timeout \<le> 0 then Inl ReassemblyInvalidArgument
       else Inr \<lparr>ra_mtu = mtu, ra_timeout = timeout, ra_transfers = []\<rparr>)"

definition transfer_key :: "u32 \<Rightarrow> u16 \<Rightarrow> u64" where
  "transfer_key stream_id transfer_id = push_bit 16 (ucast stream_id) OR ucast transfer_id"

definition transfer_stale :: "time \<Rightarrow> time \<Rightarrow> transfer \<Rightarrow> bool" where
  "transfer_stale timeout now t \<longleftrightarrow> now - tr_last_update t \<ge> timeout"

definition expire :: "time \<Rightarrow> reassembler \<Rightarrow> nat \<times> reassembler" where
  "expire now ra =
     (let (removed, kept) = hexpire (transfer_stale (ra_timeout ra) now) (ra_transfers ra)
      in (removed, ra\<lparr>ra_transfers := kept\<rparr>))"

text \<open>The loop of \<open>try_complete\<close> over the remaining sequence numbers.\<close>

fun collect_pieces :: "(u16, byte list) hmap \<Rightarrow> nat list \<Rightarrow> byte list \<Rightarrow> byte list option" where
  "collect_pieces pieces [] pkt = Some pkt"
| "collect_pieces pieces (sequence # rest) pkt =
     (case map_of pieces (word_of_nat sequence) of
        None \<Rightarrow> None
      | Some piece \<Rightarrow> collect_pieces pieces rest (pkt @ piece))"

definition try_complete :: "transfer \<Rightarrow> byte list option" where
  "try_complete t =
     (case tr_last_sequence t of
        None \<Rightarrow> None
      | Some final \<Rightarrow> collect_pieces (tr_pieces t) [0..<Suc (unat final)] [])"

definition new_transfer :: "time \<Rightarrow> transfer" where
  "new_transfer now = \<lparr>tr_last_update = now, tr_pieces = [], tr_piece_flags = [],
     tr_last_sequence = None, tr_received_size = 0, tr_complete = False,
     tr_completed_packet = []\<rparr>"

type_synonym reassembly_result = "reassembly_status \<times> byte list option"

text \<open>
  \<open>accept_piece\<close> is \<open>accept\<close> from the duplicate check on, for the transfer \<open>t\<close> found or emplaced
  under the key \<open>k\<close>.
\<close>

definition insert_piece :: "fragment \<Rightarrow> time \<Rightarrow> transfer \<Rightarrow> transfer" where
  "insert_piece f now t =
     t\<lparr>tr_last_update := now,
       tr_received_size := tr_received_size t + length (fr_payload f),
       tr_pieces := hemplace (fr_sequence f) (fr_payload f) (tr_pieces t),
       tr_piece_flags := hemplace (fr_sequence f) (fr_flags f) (tr_piece_flags t),
       tr_last_sequence := (if fr_flags f AND kFragmentLast \<noteq> 0 then Some (fr_sequence f)
                            else tr_last_sequence t)\<rparr>"

definition accept_piece ::
  "u64 \<Rightarrow> transfer \<Rightarrow> fragment \<Rightarrow> time \<Rightarrow> reassembler \<Rightarrow>
   (reassembly_error + reassembly_result) \<times> reassembler" where
  "accept_piece k t f now ra =
     (case map_of (tr_pieces t) (fr_sequence f) of
        Some piece \<Rightarrow>
          if piece \<noteq> fr_payload f then (Inl (FragmentException ConflictingDuplicate), ra)
          else (case map_of (tr_piece_flags t) (fr_sequence f) of
                  None \<Rightarrow> (Inl ReassemblyOutOfRange, ra)
                | Some flags \<Rightarrow>
                    if flags \<noteq> fr_flags f
                    then (Inl (FragmentException ConflictingDuplicate), ra)
                    else (Inr (Duplicate,
                            if tr_complete t then Some (tr_completed_packet t) else None),
                          ra\<lparr>ra_transfers :=
                               hput k (t\<lparr>tr_last_update := now\<rparr>) (ra_transfers ra)\<rparr>))
      | None \<Rightarrow>
          if tr_complete t \<or>
             (case tr_last_sequence t of None \<Rightarrow> False | Some final \<Rightarrow> fr_sequence f > final)
          then (Inl (FragmentException DataAfterLast), ra)
          else if fr_flags f AND kFragmentLast \<noteq> 0 \<and>
             (case tr_last_sequence t of None \<Rightarrow> False | Some final \<Rightarrow> final \<noteq> fr_sequence f)
          then (Inl (FragmentException InvalidSequence), ra)
          else if tr_received_size t + length (fr_payload f) > kMaximumPacketSize
          then (Inl (FragmentException ReassembledPacketTooLarge),
                ra\<lparr>ra_transfers := herase k (ra_transfers ra)\<rparr>)
          else let t1 = insert_piece f now t in
            (case try_complete t1 of
               Some pkt \<Rightarrow>
                 (Inr (Complete, Some pkt),
                  ra\<lparr>ra_transfers :=
                       hput k (t1\<lparr>tr_complete := True, tr_completed_packet := pkt\<rparr>)
                         (ra_transfers ra)\<rparr>)
             | None \<Rightarrow>
                 (Inr (InProgress, None),
                  ra\<lparr>ra_transfers := hput k t1 (ra_transfers ra)\<rparr>)))"

definition accept ::
  "u32 \<Rightarrow> byte list \<Rightarrow> time \<Rightarrow> reassembler \<Rightarrow>
   (reassembly_error + reassembly_result) \<times> reassembler" where
  "accept stream_id frame now ra =
     (let ra1 = snd (expire now ra) in
      case decode_fragment frame (ra_mtu ra1) of
        Inl e \<Rightarrow> (Inl (FragmentException e), ra1)
      | Inr f \<Rightarrow>
          let k = transfer_key stream_id (fr_transfer_id f) in
          (case map_of (ra_transfers ra1) k of
             Some t \<Rightarrow> accept_piece k t f now ra1
           | None \<Rightarrow>
               if fr_flags f AND kFragmentFirst = 0
               then (Inl (FragmentException UnknownTransfer), ra1)
               else let t = new_transfer now in
                 accept_piece k t f now
                   (ra1\<lparr>ra_transfers := hemplace k t (ra_transfers ra1)\<rparr>)))"

definition pending :: "reassembler \<Rightarrow> nat" where
  "pending ra = length (ra_transfers ra)"

interpretation transfers: expiring "transfer_stale timeout" for timeout
  by unfold_locales (auto simp: transfer_stale_def)

subsection \<open>Keys and lookups\<close>

lemma transfer_key_inject [simp]:
  "transfer_key s t = transfer_key s' t' \<longleftrightarrow> s = s' \<and> t = t'"
proof
  assume eq: "transfer_key s t = transfer_key s' t'"
  have bits: "bit (transfer_key s t) n \<longleftrightarrow> (if n < 16 then bit t n else n < 64 \<and> bit s (n - 16))"
    for s t n
    by (auto simp: transfer_key_def bit_simps dest: bit_imp_le_length)
  have "s = s'"
  proof (rule bit_word_eqI)
    fix n assume "n < LENGTH(32)"
    then show "bit s n = bit s' n"
      using bits [of s t "n + 16"] bits [of s' t' "n + 16"] eq by simp
  qed
  moreover have "t = t'"
  proof (rule bit_word_eqI)
    fix n assume "n < LENGTH(16)"
    then show "bit t n = bit t' n"
      using bits [of s t n] bits [of s' t' n] eq by simp
  qed
  ultimately show "s = s' \<and> t = t'" by simp
qed simp

lemma expire_fields [simp]:
  "ra_mtu (snd (expire now ra)) = ra_mtu ra"
  "ra_timeout (snd (expire now ra)) = ra_timeout ra"
  "ra_transfers (snd (expire now ra)) =
     snd (hexpire (transfer_stale (ra_timeout ra) now) (ra_transfers ra))"
  by (simp_all add: expire_def split_beta)

lemma accept_piece_fields [simp]:
  "ra_mtu (snd (accept_piece k t f now ra)) = ra_mtu ra"
  "ra_timeout (snd (accept_piece k t f now ra)) = ra_timeout ra"
  by (simp_all add: accept_piece_def Let_def split: option.split)

lemma accept_fields [simp]:
  "ra_mtu (snd (accept s frame now ra)) = ra_mtu ra"
  "ra_timeout (snd (accept s frame now ra)) = ra_timeout ra"
  by (simp_all add: accept_def Let_def split: option.split sum.split)

lemma accept_piece_keys:
  "hmap_ok (ra_transfers ra) \<Longrightarrow> hmap_ok (ra_transfers (snd (accept_piece k t f now ra)))"
  by (auto simp: accept_piece_def Let_def split: option.split)

lemma accept_keys:
  "hmap_ok (ra_transfers ra) \<Longrightarrow> hmap_ok (ra_transfers (snd (accept s frame now ra)))"
  by (auto simp: accept_def Let_def intro!: accept_piece_keys split: option.split sum.split)

text \<open>A frame of another transfer leaves a transfer alone, apart from the expiry it triggers.\<close>

lemma accept_piece_other:
  "k \<noteq> k' \<Longrightarrow> map_of (ra_transfers (snd (accept_piece k t f now ra))) k' = map_of (ra_transfers ra) k'"
  by (auto simp: accept_piece_def Let_def split: option.split)

definition foreign :: "u32 \<Rightarrow> u16 \<Rightarrow> nat \<Rightarrow> u32 \<Rightarrow> byte list \<Rightarrow> bool" where
  "foreign s tid mtu s' frame \<longleftrightarrow>
     (case decode_fragment frame mtu of Inl _ \<Rightarrow> True | Inr f \<Rightarrow> (s', fr_transfer_id f) \<noteq> (s, tid))"

lemma accept_foreign:
  "foreign s tid (ra_mtu ra) s' frame \<Longrightarrow>
   map_of (ra_transfers (snd (accept s' frame now ra))) (transfer_key s tid) =
   map_of (ra_transfers (snd (expire now ra))) (transfer_key s tid)"
  by (auto simp: accept_def Let_def foreign_def accept_piece_other map_of_hemplace
      split: option.split sum.splits)

subsection \<open>Collecting the pieces\<close>

lemma collect_pieces_all:
  "(\<And>i. i \<in> set is \<Longrightarrow> map_of pieces (word_of_nat i) = Some (g i)) \<Longrightarrow>
   collect_pieces pieces is acc = Some (acc @ concat (map g is))"
  by (induction "is" arbitrary: acc) auto

lemma collect_pieces_missing:
  "i \<in> set is \<Longrightarrow> map_of pieces (word_of_nat i) = None \<Longrightarrow> collect_pieces pieces is acc = None"
  by (induction "is" arbitrary: acc) (auto split: option.split)

subsection \<open>The invariant of a reassembler\<close>

text \<open>
  \<open>transfer_pre\<close> is the part of the invariant that also holds of a transfer just emplaced; a
  stored transfer has its first piece as well.
\<close>

definition transfer_pre :: "transfer \<Rightarrow> bool" where
  "transfer_pre t \<longleftrightarrow>
     hmap_ok (tr_pieces t) \<and> hkeys (tr_piece_flags t) = hkeys (tr_pieces t) \<and>
     tr_received_size t = sum_list (map (length \<circ> snd) (tr_pieces t)) \<and>
     tr_received_size t \<le> kMaximumPacketSize \<and>
     list_all (\<lambda>e. bit (snd e) 1 \<longleftrightarrow> tr_last_sequence t = Some (fst e)) (tr_piece_flags t) \<and>
     (case tr_last_sequence t of None \<Rightarrow> True | Some l \<Rightarrow> l \<in> set (hkeys (tr_pieces t))) \<and>
     try_complete t = (if tr_complete t then Some (tr_completed_packet t) else None)"

definition transfer_ok :: "transfer \<Rightarrow> bool" where
  "transfer_ok t \<longleftrightarrow> transfer_pre t \<and> 0 \<in> set (hkeys (tr_pieces t))"

definition reassembler_ok :: "reassembler \<Rightarrow> bool" where
  "reassembler_ok ra \<longleftrightarrow> kFragmentHeaderSize < ra_mtu ra \<and> 0 < ra_timeout ra \<and>
     hmap_ok (ra_transfers ra) \<and> list_all (\<lambda>e. transfer_ok (snd e)) (ra_transfers ra)"

lemma reassembler_new_ok: "reassembler_new mtu timeout = Inr ra \<Longrightarrow> reassembler_ok ra"
  by (auto simp: reassembler_new_def validate_mtu_def reassembler_ok_def try_bind_def map_error_def
      not_le split: sum.splits if_splits)

lemma expire_ok [inv_intros]: "reassembler_ok ra \<Longrightarrow> reassembler_ok (snd (expire now ra))"
  by (auto simp: reassembler_ok_def list_all_iff set_hexpire)

lemma reassembler_ok_lookup:
  "reassembler_ok ra \<Longrightarrow> map_of (ra_transfers ra) k = Some t \<Longrightarrow> transfer_ok t"
  by (auto simp: reassembler_ok_def list_all_iff dest: map_of_SomeD)

lemma list_all_hput:
  assumes "hmap_ok m" and "list_all (\<lambda>e. P (snd e)) (herase k m)" and "P v"
  shows "list_all (\<lambda>e. P (snd e)) (hput k v m)"
proof -
  have "hmap_ok (hput k v m)" using assms(1) by simp
  have "P y" if "(x, y) \<in> set (hput k v m)" for x y
  proof -
    have "map_of (hput k v m) x = Some y"
      using that \<open>hmap_ok (hput k v m)\<close> by (simp add: set_hmap_iff)
    then have "x = k \<and> y = v \<or> x \<noteq> k \<and> map_of m x = Some y"
      by (auto split: if_splits)
    then show "P y"
    proof
      assume "x \<noteq> k \<and> map_of m x = Some y"
      then have "(x, y) \<in> set (herase k m)"
        by (auto simp: herase_def dest: map_of_SomeD)
      then show "P y" using assms(2) by (auto simp: list_all_iff)
    qed (simp add: assms(3))
  qed
  then show ?thesis by (auto simp: list_all_iff)
qed

lemma new_transfer_pre: "transfer_pre (new_transfer now)"
  by (simp add: transfer_pre_def new_transfer_def packet_consts try_complete_def)

lemma touched_ok: "transfer_ok t \<Longrightarrow> transfer_ok (t\<lparr>tr_last_update := now\<rparr>)"
  by (cases "tr_last_sequence t")
    (auto simp: transfer_ok_def transfer_pre_def try_complete_def split: if_splits)

lemma insert_piece_pre:
  assumes t: "transfer_pre t" "map_of (tr_pieces t) (fr_sequence f) = None" "\<not> tr_complete t"
    and last: "bit (fr_flags f) 1 \<Longrightarrow> tr_last_sequence t = None"
    and size: "tr_received_size t + length (fr_payload f) \<le> kMaximumPacketSize"
    and first: "0 \<in> set (hkeys (tr_pieces t)) \<or> fr_sequence f = 0"
    and t1: "t1 = insert_piece f now t"
  shows "case try_complete t1 of
           None \<Rightarrow> transfer_ok t1
         | Some pkt \<Rightarrow> transfer_ok (t1\<lparr>tr_complete := True, tr_completed_packet := pkt\<rparr>)"
proof -
  have new: "fr_sequence f \<notin> set (hkeys (tr_pieces t))" "map_of (tr_piece_flags t) (fr_sequence f) = None"
    using t(1,2) by (auto simp: map_of_eq_None_iff transfer_pre_def simp flip: set_map)
  note pre = t(1) [unfolded transfer_pre_def]
  have seq: "x \<in> set (tr_piece_flags t) \<Longrightarrow> fst x \<noteq> fr_sequence f" for x
    using new(2) by (force simp: map_of_eq_None_iff)
  show ?thesis
    using new pre t(2,3) last size first seq
    by (auto simp: t1 insert_piece_def transfer_ok_def transfer_pre_def hemplace_def try_complete_def
        list_all_iff split: option.splits if_splits)
qed

lemma accept_piece_ok:
  assumes ra: "reassembler_ok (ra\<lparr>ra_transfers := herase k (ra_transfers ra)\<rparr>)"
    and keys: "hmap_ok (ra_transfers ra)"
    and k: "map_of (ra_transfers ra) k = Some t"
    and t: "transfer_pre t"
    and first: "0 \<in> set (hkeys (tr_pieces t)) \<or>
      tr_pieces t = [] \<and> fr_sequence f = 0 \<and> length (fr_payload f) \<le> 63"
  shows "reassembler_ok (snd (accept_piece k t f now ra))"
    and "fst (accept_piece k t f now ra) \<noteq> Inl ReassemblyOutOfRange"
proof -
  have put: "reassembler_ok (ra\<lparr>ra_transfers := hput k t' (ra_transfers ra)\<rparr>)" if "transfer_ok t'" for t'
    using ra keys that list_all_hput [of "ra_transfers ra" transfer_ok k t']
    by (simp add: reassembler_ok_def)
  have same: "reassembler_ok ra" if "transfer_ok t"
  proof -
    have "transfer_ok t'" if "(k', t') \<in> set (ra_transfers ra)" for k' t'
    proof (cases "k' = k")
      case True
      then have "t' = t" using that k set_hmap_iff [OF keys] by force
      then show ?thesis using \<open>transfer_ok t\<close> by simp
    next
      case False
      then have "(k', t') \<in> set (herase k (ra_transfers ra))" using that by (simp add: herase_def)
      then show ?thesis using ra by (auto simp: reassembler_ok_def list_all_iff)
    qed
    then show ?thesis using ra keys by (auto simp: reassembler_ok_def list_all_iff)
  qed
  have dom: "map_of (tr_piece_flags t) x = None \<longleftrightarrow> map_of (tr_pieces t) x = None" for x
  proof -
    have "hkeys (tr_piece_flags t) = hkeys (tr_pieces t)" using t by (simp add: transfer_pre_def)
    then show ?thesis unfolding map_of_eq_None_iff by (metis list.set_map)
  qed
  show "fst (accept_piece k t f now ra) \<noteq> Inl ReassemblyOutOfRange"
    using dom [of "fr_sequence f"]
    by (cases "map_of (tr_pieces t) (fr_sequence f)"; cases "map_of (tr_piece_flags t) (fr_sequence f)")
      (simp_all add: accept_piece_def Let_def split: option.split)
  show "reassembler_ok (snd (accept_piece k t f now ra))"
  proof (cases "0 \<in> set (hkeys (tr_pieces t))")
    case True
    then have ok: "transfer_ok t" using t by (simp add: transfer_ok_def)
    show ?thesis
    proof (cases "map_of (tr_pieces t) (fr_sequence f)")
      case None
      have "tr_last_sequence t \<noteq> Some (fr_sequence f)"
        using t None by (auto simp: transfer_pre_def map_of_eq_None_iff)
      then show ?thesis
        using None insert_piece_pre [OF t None _ _ _ disjI1 [OF True] refl, of now]
          put same [OF ok] ra
        by (auto simp: accept_piece_def Let_def split: option.splits)
    next
      case (Some piece)
      then show ?thesis
        using put [OF touched_ok [OF ok]] same [OF ok]
        by (auto simp: accept_piece_def Let_def split: option.split)
    qed
  next
    case False
    then have new: "tr_pieces t = []" "fr_sequence f = 0" "length (fr_payload f) \<le> 63"
      using first by auto
    have none: "map_of (tr_pieces t) (fr_sequence f) = None" by (simp add: new)
    have "tr_last_sequence t = None" "tr_received_size t = 0" "\<not> tr_complete t"
      using t new(1) by (auto simp: transfer_pre_def try_complete_def split: option.splits if_splits)
    then show ?thesis
      using insert_piece_pre [OF t none _ _ _ disjI2 [OF new(2)] refl, of now] new put
      by (auto simp: accept_piece_def Let_def packet_consts split: option.splits)
  qed
qed

lemma decoded_payload_length: "decode_fragment frame mtu = Inr f \<Longrightarrow> length (fr_payload f) \<le> 63"
  by (drule encode_decoded(1)) (simp add: encode_fragment_iff frame_ok_def)

lemma accept_ok:
  assumes ra: "reassembler_ok ra"
  shows "reassembler_ok (snd (accept s frame now ra))" (is ?ok)
    and "fst (accept s frame now ra) \<noteq> Inl ReassemblyOutOfRange" (is ?range)
proof -
  define ra1 where "ra1 = snd (expire now ra)"
  have ra1: "reassembler_ok ra1" using ra by (simp add: ra1_def expire_ok)
  have "?ok \<and> ?range"
  proof (cases "decode_fragment frame (ra_mtu ra1)")
    case (Inl e)
    then show ?thesis using ra1 by (simp add: accept_def Let_def flip: ra1_def)
  next
    case (Inr f)
    define k where "k = transfer_key s (fr_transfer_id f)"
    show ?thesis
    proof (cases "map_of (ra_transfers ra1) k")
      case None
      define ra2 where "ra2 = ra1\<lparr>ra_transfers := hemplace k (new_transfer now) (ra_transfers ra1)\<rparr>"
      have ok2: "hmap_ok (ra_transfers ra2)"
        using ra1 by (auto simp: ra2_def reassembler_ok_def simp flip: set_map)
      have "herase k (ra_transfers ra2) = ra_transfers ra1"
        using None unfolding ra2_def hemplace_def herase_def
        by (auto simp: filter_id_conv map_of_eq_None_iff)
      then have erased: "reassembler_ok (ra2\<lparr>ra_transfers := herase k (ra_transfers ra2)\<rparr>)"
        using ra1 by (simp add: ra2_def)
      have found: "map_of (ra_transfers ra2) k = Some (new_transfer now)"
        using None by (simp add: ra2_def map_of_hemplace)
      have "fr_sequence f = 0" if "bit (fr_flags f) 0"
        using decode_fragment_InrD(7) [OF Inr] that by simp
      then have "reassembler_ok (snd (accept_piece k (new_transfer now) f now ra2)) \<and>
          fst (accept_piece k (new_transfer now) f now ra2) \<noteq> Inl ReassemblyOutOfRange"
        if "bit (fr_flags f) 0"
        using accept_piece_ok [OF erased ok2 found new_transfer_pre, of f] that
          decoded_payload_length [OF Inr] by (simp add: new_transfer_def)
      then show ?thesis
        using ra1 None Inr unfolding ra2_def
        by (simp add: accept_def Let_def flip: ra1_def k_def)
    next
      case (Some t)
      have t: "transfer_ok t" using ra1 Some by (rule reassembler_ok_lookup)
      have "reassembler_ok (ra1\<lparr>ra_transfers := herase k (ra_transfers ra1)\<rparr>)"
        using ra1 by (auto simp: reassembler_ok_def list_all_iff herase_def)
      moreover have "hmap_ok (ra_transfers ra1)" using ra1 by (simp add: reassembler_ok_def)
      ultimately show ?thesis
        using accept_piece_ok [where ra = ra1 and k = k and t = t and f = f and now = now] Some Inr t
        by (simp add: accept_def Let_def transfer_ok_def flip: ra1_def k_def)
    qed
  qed
  then show ?ok ?range by simp_all
qed

subsection \<open>The frames of one packet\<close>

text \<open>
  What a stored transfer holds after the fragments with indices in \<open>S\<close> of the packet \<open>pkt\<close>
  have arrived, none earlier than \<open>t0\<close>.
\<close>

definition piece_of :: "nat \<Rightarrow> byte list \<Rightarrow> nat \<Rightarrow> byte list" where
  "piece_of mtu pkt i = fr_payload (split_fragment mtu pkt 0 i)"

definition holds ::
  "nat \<Rightarrow> byte list \<Rightarrow> u16 \<Rightarrow> time \<Rightarrow> nat set \<Rightarrow> transfer \<Rightarrow> bool" where
  "holds mtu pkt tid t0 S t \<longleftrightarrow>
     (let k = fragment_count mtu (length pkt) in
      t0 \<le> tr_last_update t \<and>
      map_of (tr_pieces t) =
        (\<lambda>s. if unat s \<in> S then Some (piece_of mtu pkt (unat s)) else None) \<and>
      map_of (tr_piece_flags t) =
        (\<lambda>s. if unat s \<in> S then Some (fr_flags (split_fragment mtu pkt tid (unat s))) else None) \<and>
      tr_last_sequence t = (if k - 1 \<in> S then Some (word_of_nat (k - 1)) else None) \<and>
      tr_received_size t = (\<Sum>i\<in>S. length (piece_of mtu pkt i)) \<and>
      (tr_complete t \<longleftrightarrow> S = {..<k}) \<and>
      (tr_complete t \<longrightarrow> tr_completed_packet t = pkt))"

lemma split_fragment_fields:
  "fr_transfer_id (split_fragment mtu pkt tid i) = tid"
  "fr_sequence (split_fragment mtu pkt tid i) = word_of_nat i"
  "fr_payload (split_fragment mtu pkt tid i) = piece_of mtu pkt i"
  by (simp_all add: split_fragment_def piece_of_def Let_def)

lemma pieces_concat:
  assumes "splittable mtu pkt"
  shows "concat (map (piece_of mtu pkt) [0..<fragment_count mtu (length pkt)]) = pkt"
proof -
  let ?c = "mtu - 5" and ?k = "fragment_count mtu (length pkt)"
  have m: "5 < mtu" "0 < length pkt" "0 < ?c" using assms by (auto simp: splittable_def)
  have "concat (map (piece_of mtu pkt) [0..<?k]) = take (?k * ?c) pkt"
    unfolding split_payloads [OF m(3), symmetric]
    by (intro arg_cong [where f = concat] map_cong refl)
      (simp add: piece_of_def split_fragment_def Let_def kFragmentHeaderSize_def)
  then show ?thesis using fragment_count_bounds(2) [OF m(1,2)] by simp
qed

lemma pieces_size:
  assumes "splittable mtu pkt" and "S \<subseteq> {..<fragment_count mtu (length pkt)}"
  shows "(\<Sum>i\<in>S. length (piece_of mtu pkt i)) \<le> kMaximumPacketSize"
proof -
  let ?k = "fragment_count mtu (length pkt)"
  have "(\<Sum>i\<in>S. length (piece_of mtu pkt i)) \<le> (\<Sum>i<?k. length (piece_of mtu pkt i))"
    using assms(2) by (intro sum_mono2) auto
  also have "\<dots> = length (concat (map (piece_of mtu pkt) [0..<?k]))"
    by (simp add: length_concat comp_def interv_sum_list_conv_sum_set_nat atLeast0LessThan)
  also have "\<dots> \<le> kMaximumPacketSize"
    using assms(1) by (simp add: pieces_concat splittable_def)
  finally show ?thesis .
qed

lemma holds_new:
  assumes "splittable mtu pkt" and "t0 \<le> now"
  shows "holds mtu pkt tid t0 {} (new_transfer now)"
proof -
  have "0 < fragment_count mtu (length pkt)"
    using assms(1) by (intro fragment_count_bounds) (simp_all add: splittable_def)
  then have "{} \<noteq> {..<fragment_count mtu (length pkt)}" by auto
  with assms(2) show ?thesis by (simp add: holds_def new_transfer_def)
qed

lemma small_index:
  "splittable mtu pkt \<Longrightarrow> i < fragment_count mtu (length pkt) \<Longrightarrow> unat (word_of_nat i :: u16) = i"
  using splittable_count [of mtu pkt] by (simp add: unat_of_nat_small)

lemma holds_insert:
  assumes s: "splittable mtu pkt" and S: "S \<subseteq> {..<fragment_count mtu (length pkt)}"
    and i: "i < fragment_count mtu (length pkt)" "i \<notin> S"
    and t: "holds mtu pkt tid t0 S t" and now: "t0 \<le> now"
    and t1: "t1 = insert_piece (split_fragment mtu pkt tid i) now t"
  shows "try_complete t1 =
           (if insert i S = {..<fragment_count mtu (length pkt)} then Some pkt else None)"
    and "insert i S \<noteq> {..<fragment_count mtu (length pkt)} \<Longrightarrow> holds mtu pkt tid t0 (insert i S) t1"
    and "insert i S = {..<fragment_count mtu (length pkt)} \<Longrightarrow>
      holds mtu pkt tid t0 (insert i S) (t1\<lparr>tr_complete := True, tr_completed_packet := pkt\<rparr>)"
proof -
  let ?k = "fragment_count mtu (length pkt)" and ?f = "split_fragment mtu pkt tid i"
  have ui: "unat (word_of_nat i :: u16) = i" using s i(1) by (rule small_index)
  have seq: "unat x = i \<longleftrightarrow> x = word_of_nat i" for x :: u16
    using ui by (metis word_unat_eq_iff)
  note h = t [unfolded holds_def Let_def]
  have fin: "finite S" using S by (rule finite_subset) simp
  have none: "map_of (tr_pieces t) (fr_sequence ?f) = None"
    "map_of (tr_piece_flags t) (fr_sequence ?f) = None"
    using h i(2) by (simp_all add: split_fragment_fields ui)
  have pieces: "map_of (tr_pieces t1) =
      (\<lambda>s. if unat s \<in> insert i S then Some (piece_of mtu pkt (unat s)) else None)"
    using h none by (auto simp: t1 insert_piece_def map_of_hemplace split_fragment_fields fun_eq_iff seq ui)
  have flags: "map_of (tr_piece_flags t1) =
      (\<lambda>s. if unat s \<in> insert i S then Some (fr_flags (split_fragment mtu pkt tid (unat s))) else None)"
    using h none by (auto simp: t1 insert_piece_def map_of_hemplace split_fragment_fields fun_eq_iff seq ui)
  have last: "tr_last_sequence t1 = (if ?k - 1 \<in> insert i S then Some (word_of_nat (?k - 1)) else None)"
  proof -
    have "bit (fr_flags ?f) 1 \<longleftrightarrow> i = ?k - 1" 
      using i(1) split_fragment_flags(3) [of mtu pkt tid i] by auto
    moreover have "tr_last_sequence t = (if ?k - 1 \<in> S then Some (word_of_nat (?k - 1)) else None)"
      using h by blast
    moreover have "tr_last_sequence t1 = (if bit (fr_flags ?f) 1 then Some (word_of_nat i) else tr_last_sequence t)"
      by (simp add: t1 insert_piece_def split_fragment_fields)
    ultimately show ?thesis by auto
  qed
  have size: "tr_received_size t1 = (\<Sum>i\<in>insert i S. length (piece_of mtu pkt i))"
    using h fin i(2) by (simp add: t1 insert_piece_def split_fragment_fields)
  have "S \<noteq> {..<?k}" using i by auto
  then have rest: "\<not> tr_complete t1" "tr_last_update t1 = now"
    using h by (simp_all add: t1 insert_piece_def)
  show "try_complete t1 = (if insert i S = {..<?k} then Some pkt else None)"
  proof (cases "insert i S = {..<?k}")
    case True
    have "?k - 1 \<in> insert i S" using True i(1) by simp
    moreover have "Suc (unat (word_of_nat (?k - 1) :: u16)) = ?k"
      using small_index [OF s, of "?k - 1"] i(1) by simp
    moreover have "collect_pieces (tr_pieces t1) [0..<?k] [] =
        Some ([] @ concat (map (piece_of mtu pkt) [0..<?k]))"
    proof (rule collect_pieces_all)
      fix j assume "j \<in> set [0..<?k]"
      then have "j \<in> insert i S" "unat (word_of_nat j :: u16) = j"
        using True small_index [OF s] by auto
      then show "map_of (tr_pieces t1) (word_of_nat j) = Some (piece_of mtu pkt j)"
        by (simp add: pieces)
    qed
    ultimately show ?thesis
      unfolding try_complete_def last
      by (simp only: if_True option.case append_Nil pieces_concat [OF s] True simp_thms)
  next
    case False
    then obtain j where j: "j < ?k" "j \<notin> insert i S" using S i(1) by auto
    have "map_of (tr_pieces t1) (word_of_nat j) = None"
      using j by (simp add: pieces small_index [OF s])
    moreover have "j \<in> set [0..<Suc (unat (word_of_nat (?k - 1) :: u16))]"
      using small_index [OF s, of "?k - 1"] j(1) by simp
    ultimately have "collect_pieces (tr_pieces t1) [0..<Suc (unat (word_of_nat (?k - 1) :: u16))] [] = None"
      by (intro collect_pieces_missing)
    then show ?thesis using False by (simp only: try_complete_def last) simp
  qed
  show "holds mtu pkt tid t0 (insert i S) t1" if "insert i S \<noteq> {..<?k}"
    unfolding holds_def Let_def using pieces flags last size rest now that by simp
  show "holds mtu pkt tid t0 (insert i S) (t1\<lparr>tr_complete := True, tr_completed_packet := pkt\<rparr>)"
    if "insert i S = {..<?k}"
    unfolding holds_def Let_def using pieces flags last size rest now that by simp
qed

text \<open>What the reassembler should answer to the indices \<open>is\<close> after those in \<open>S\<close>.\<close>

definition expected_result :: "nat \<Rightarrow> byte list \<Rightarrow> nat set \<Rightarrow> nat \<Rightarrow> reassembly_result" where
  "expected_result k pkt S i =
     (if i \<in> S then (Duplicate, if S = {..<k} then Some pkt else None)
      else if insert i S = {..<k} then (Complete, Some pkt)
      else (InProgress, None))"

fun expected_results :: "nat \<Rightarrow> byte list \<Rightarrow> nat set \<Rightarrow> nat list \<Rightarrow> reassembly_result list" where
  "expected_results k pkt S [] = []"
| "expected_results k pkt S (i # is) =
     expected_result k pkt S i # expected_results k pkt (insert i S) is"

lemma accept_piece_own:
  assumes s: "splittable mtu pkt" and S: "S \<subseteq> {..<fragment_count mtu (length pkt)}"
    and i: "i < fragment_count mtu (length pkt)"
    and t: "holds mtu pkt tid t0 S t" and now: "t0 \<le> now"
  shows "\<exists>t'. holds mtu pkt tid t0 (insert i S) t' \<and>
     accept_piece k t (split_fragment mtu pkt tid i) now ra =
       (Inr (expected_result (fragment_count mtu (length pkt)) pkt S i),
        ra\<lparr>ra_transfers := hput k t' (ra_transfers ra)\<rparr>)"
proof -
  let ?k = "fragment_count mtu (length pkt)" and ?f = "split_fragment mtu pkt tid i"
  note h = t [unfolded holds_def Let_def]
  have ui: "unat (word_of_nat i :: u16) = i" using s i by (rule small_index)
  have at: "map_of (tr_pieces t) (fr_sequence ?f) = (if i \<in> S then Some (piece_of mtu pkt i) else None)"
    "map_of (tr_piece_flags t) (fr_sequence ?f) = (if i \<in> S then Some (fr_flags ?f) else None)"
    using h by (simp_all add: split_fragment_fields ui)
  show ?thesis
  proof (cases "i \<in> S")
    case True
    have "holds mtu pkt tid t0 (insert i S) (t\<lparr>tr_last_update := now\<rparr>)"
      unfolding holds_def Let_def insert_absorb [OF True] using h now by simp
    moreover have "tr_complete t \<longleftrightarrow> S = {..<?k}" "tr_complete t \<Longrightarrow> tr_completed_packet t = pkt"
      using h by blast+
    ultimately show ?thesis
      using True at
      by (intro exI [of _ "t\<lparr>tr_last_update := now\<rparr>"])
        (simp add: accept_piece_def expected_result_def split_fragment_fields)
  next
    case False
    have "S \<noteq> {..<?k}" using False i by auto
    then have open_t: "\<not> tr_complete t" using h by blast
    have last: "tr_last_sequence t = (if ?k - 1 \<in> S then Some (word_of_nat (?k - 1)) else None)"
      using h by blast
    have seq_le: "\<not> fr_sequence ?f > (word_of_nat (?k - 1) :: u16)"
      using i ui small_index [OF s, of "?k - 1"] by (simp add: split_fragment_fields word_less_nat_alt)
    have no_last: "\<not> (bit (fr_flags ?f) 1 \<and> ?k - 1 \<in> S)"
    proof
      assume a: "bit (fr_flags ?f) 1 \<and> ?k - 1 \<in> S"
      then have "i + 1 = ?k" using split_fragment_flags(3) [of mtu pkt tid i] by blast
      then have "?k - 1 = i" by simp
      with a False show False by simp
    qed
    have "tr_received_size t + length (piece_of mtu pkt i) =
        (\<Sum>i\<in>insert i S. length (piece_of mtu pkt i))"
      using h False finite_subset [OF S] by simp
    also have "\<dots> \<le> kMaximumPacketSize" using S i by (intro pieces_size [OF s]) auto
    finally have size: "\<not> tr_received_size t + length (fr_payload ?f) > kMaximumPacketSize"
      by (simp add: split_fragment_fields)
    note ins = holds_insert [OF s S i False t now refl]
    have guards: "(case tr_last_sequence t of None \<Rightarrow> False | Some l \<Rightarrow> fr_sequence ?f > l) = False"
      "(fr_flags ?f AND kFragmentLast \<noteq> 0 \<and>
        (case tr_last_sequence t of None \<Rightarrow> False | Some l \<Rightarrow> l \<noteq> fr_sequence ?f)) = False"
      using seq_le no_last unfolding last last_flag_iff by auto
    have "accept_piece k t ?f now ra =
       (let t1 = insert_piece ?f now t in
        case try_complete t1 of
          Some pkt \<Rightarrow> (Inr (Complete, Some pkt), ra\<lparr>ra_transfers :=
            hput k (t1\<lparr>tr_complete := True, tr_completed_packet := pkt\<rparr>) (ra_transfers ra)\<rparr>)
        | None \<Rightarrow> (Inr (InProgress, None), ra\<lparr>ra_transfers := hput k t1 (ra_transfers ra)\<rparr>))"
      by (simp only: accept_piece_def at False if_False option.case open_t guards size simp_thms)
    then show ?thesis
      using ins False by (cases "insert i S = {..<?k}") (auto simp: expected_result_def)
  qed
qed

text \<open>
  Arrivals at the reassembler of the stream \<open>s\<close>: our frame number \<open>i\<close>, or any other frame.
\<close>

datatype arrival = Own nat time | Other u32 "byte list" time

fun arrival_ok :: "u32 \<Rightarrow> u16 \<Rightarrow> nat \<Rightarrow> byte list list \<Rightarrow> time \<Rightarrow> time \<Rightarrow> arrival \<Rightarrow> bool" where
  "arrival_ok s tid mtu frames t0 timeout (Own i now) \<longleftrightarrow>
     i < length frames \<and> t0 \<le> now \<and> now < t0 + timeout"
| "arrival_ok s tid mtu frames t0 timeout (Other s' frame now) \<longleftrightarrow>
     foreign s tid mtu s' frame \<and> t0 \<le> now \<and> now < t0 + timeout"

fun own_indices :: "arrival list \<Rightarrow> nat list" where
  "own_indices [] = []"
| "own_indices (Own i now # as) = i # own_indices as"
| "own_indices (Other s frame now # as) = own_indices as"

fun run_arrivals ::
  "u32 \<Rightarrow> byte list list \<Rightarrow> arrival list \<Rightarrow> reassembler \<Rightarrow>
   (reassembly_error + reassembly_result) list" where
  "run_arrivals s frames [] ra = []"
| "run_arrivals s frames (Own i now # as) ra =
     (let (r, ra') = accept s (frames ! i) now ra in r # run_arrivals s frames as ra')"
| "run_arrivals s frames (Other s' frame now # as) ra =
     run_arrivals s frames as (snd (accept s' frame now ra))"

lemma accept_own:
  assumes s: "splittable (ra_mtu ra) pkt" and i: "i < fragment_count (ra_mtu ra) (length pkt)"
    and ok: "hmap_ok (ra_transfers ra)" and now: "t0 \<le> now" "now < t0 + ra_timeout ra"
    and S: "S \<subseteq> {..<fragment_count (ra_mtu ra) (length pkt)}"
    and state: "case map_of (ra_transfers ra) (transfer_key stream tid) of
        None \<Rightarrow> S = {} \<and> i = 0
      | Some t \<Rightarrow> holds (ra_mtu ra) pkt tid t0 S t"
  shows "fst (accept stream (split_frame (ra_mtu ra) pkt tid i) now ra) =
      Inr (expected_result (fragment_count (ra_mtu ra) (length pkt)) pkt S i)"
    and "\<exists>t'. map_of (ra_transfers (snd (accept stream (split_frame (ra_mtu ra) pkt tid i) now ra)))
        (transfer_key stream tid) = Some t' \<and> holds (ra_mtu ra) pkt tid t0 (insert i S) t'"
proof -
  let ?f = "split_fragment (ra_mtu ra) pkt tid i" and ?k = "transfer_key stream tid"
  define ra1 where "ra1 = snd (expire now ra)"
  have "encode_fragment ?f (ra_mtu ra) = Inr (split_frame (ra_mtu ra) pkt tid i)"
    using s i by (rule split_frame_encoded)
  then have dec: "decode_fragment (split_frame (ra_mtu ra) pkt tid i) (ra_mtu ra) = Inr ?f"
    using decode_padded [where n = 0 and f = ?f and mtu = "ra_mtu ra"]
    by (fastforce simp: encode_fragment_iff frame_ok_def)
  have mtu1: "ra_mtu ra1 = ra_mtu ra" by (simp add: ra1_def)
  have kept: "map_of (ra_transfers ra1) ?k = map_of (ra_transfers ra) ?k"
    using state now
    by (auto simp: ra1_def map_of_hexpire [OF ok] transfer_stale_def holds_def Let_def split: option.split)
  show "fst (accept stream (split_frame (ra_mtu ra) pkt tid i) now ra) =
      Inr (expected_result (fragment_count (ra_mtu ra) (length pkt)) pkt S i)" (is ?result)
    and "\<exists>t'. map_of (ra_transfers (snd (accept stream (split_frame (ra_mtu ra) pkt tid i) now ra))) ?k
        = Some t' \<and> holds (ra_mtu ra) pkt tid t0 (insert i S) t'" (is ?state)
  proof -
    have "?result \<and> ?state"
    proof (cases "map_of (ra_transfers ra) ?k")
      case None
      with state have S0: "S = {}" "i = 0" by auto
      have first: "bit (fr_flags ?f) 0" by (simp add: split_fragment_flags S0)
      show ?thesis
        using None kept dec mtu1 first accept_piece_own [OF s S i, of tid t0 "new_transfer now" now ?k
            "ra1\<lparr>ra_transfers := hemplace ?k (new_transfer now) (ra_transfers ra1)\<rparr>"]
          holds_new [OF s now(1)] now(1)
        by (auto simp: accept_def Let_def S0 split_fragment_fields map_of_hemplace simp flip: ra1_def)
    next
      case (Some t)
      with state have "holds (ra_mtu ra) pkt tid t0 S t" by simp
      then show ?thesis
        using Some kept dec mtu1 accept_piece_own [OF s S i, of tid t0 t now ?k ra1] now(1)
        by (auto simp: accept_def Let_def split_fragment_fields simp flip: ra1_def)
    qed
    then show ?result ?state by simp_all
  qed
qed

lemma run_arrivals_correct:
  assumes s: "splittable mtu pkt"
    and frames: "frames = map (split_frame mtu pkt tid) [0..<fragment_count mtu (length pkt)]"
    and "ra_mtu ra = mtu" and "ra_timeout ra = timeout" and "hmap_ok (ra_transfers ra)"
    and "list_all (arrival_ok s tid mtu frames t0 timeout) as"
    and "S \<subseteq> {..<fragment_count mtu (length pkt)}"
    and "case map_of (ra_transfers ra) (transfer_key s tid) of
        None \<Rightarrow> S = {} \<and> (case own_indices as of [] \<Rightarrow> True | i # _ \<Rightarrow> i = 0)
      | Some t \<Rightarrow> holds mtu pkt tid t0 S t"
  shows "run_arrivals s frames as ra =
    map Inr (expected_results (fragment_count mtu (length pkt)) pkt S (own_indices as))"
  using assms(3-)
proof (induction "as" arbitrary: ra S)
  case Nil
  then show ?case by simp
next
  case (Cons a as)
  let ?k = "fragment_count mtu (length pkt)"
  show ?case
  proof (cases a)
    case (Own i now)
    have i: "i < ?k" "t0 \<le> now" "now < t0 + timeout" "frames ! i = split_frame mtu pkt tid i"
      using Cons.prems(4) by (simp_all add: Own frames)
    obtain r ra' where acc: "accept s (split_frame mtu pkt tid i) now ra = (r, ra')"
      by (cases "accept s (split_frame mtu pkt tid i) now ra")
    have state: "case map_of (ra_transfers ra) (transfer_key s tid) of
        None \<Rightarrow> S = {} \<and> i = 0 | Some t \<Rightarrow> holds (ra_mtu ra) pkt tid t0 S t"
      using Cons.prems(1,6) by (auto simp: Own split: option.splits)
    have res: "r = Inr (expected_result ?k pkt S i)"
      and next_state: "\<exists>t'. map_of (ra_transfers ra') (transfer_key s tid) = Some t' \<and>
        holds mtu pkt tid t0 (insert i S) t'"
      using accept_own [where stream = s and now = now, OF _ _ _ _ _ _ state] s i acc Cons.prems(1-3,5)
      by auto
    have "run_arrivals s frames as ra' = map Inr (expected_results ?k pkt (insert i S) (own_indices as))"
      using Cons.prems acc i next_state accept_fields [of s "split_frame mtu pkt tid i" now ra]
        accept_keys [of ra s "split_frame mtu pkt tid i" now]
      by (intro Cons.IH) auto
    then show ?thesis using acc res i(4) by (simp add: Own)
  next
    case (Other s' frame now)
    define ra' where "ra' = snd (accept s' frame now ra)"
    have f: "foreign s tid mtu s' frame" "t0 \<le> now" "now < t0 + timeout"
      using Cons.prems(4) by (simp_all add: Other)
    have "map_of (ra_transfers ra') (transfer_key s tid) = map_of (ra_transfers ra) (transfer_key s tid)"
      using accept_foreign [of s tid ra s' frame now] f Cons.prems(1,2,6)
      by (auto simp: ra'_def map_of_hexpire [OF Cons.prems(3)] transfer_stale_def holds_def Let_def
          split: option.splits)
    moreover have "own_indices (a # as) = own_indices as" by (simp add: Other)
    note Cons.prems(6) [unfolded this]
    ultimately have "run_arrivals s frames as ra' = map Inr (expected_results ?k pkt S (own_indices as))"
      using Cons.prems accept_keys [OF Cons.prems(3), of s' frame now]
      by (intro Cons.IH) (auto simp: ra'_def)
    then show ?thesis by (simp add: Other ra'_def)
  qed
qed

subsection \<open>Properties\<close>

text \<open>
  The states a reassembler reaches from its constructor by any sequence of \<open>accept\<close> and
  \<open>expire\<close> calls, failing ones included.
\<close>

inductive reassembler_reachable :: "nat \<Rightarrow> time \<Rightarrow> reassembler \<Rightarrow> bool" for mtu timeout where
  created: "reassembler_new mtu timeout = Inr ra \<Longrightarrow> reassembler_reachable mtu timeout ra"
| accepted: "reassembler_reachable mtu timeout ra \<Longrightarrow> reassembler_reachable mtu timeout (snd (accept s frame now ra))"
| expired: "reassembler_reachable mtu timeout ra \<Longrightarrow> reassembler_reachable mtu timeout (snd (expire now ra))"

lemma reachable_inv:
  "reassembler_reachable mtu timeout ra \<Longrightarrow>
   reassembler_ok ra \<and> ra_mtu ra = mtu \<and> ra_timeout ra = timeout"
proof (induction rule: reassembler_reachable.induct)
  case (created ra)
  then show ?case
    by (auto simp: reassembler_new_ok)
      (auto simp: reassembler_new_def try_bind_def split: sum.splits if_splits)
next
  case (accepted ra s frame now)
  then show ?case by (simp add: accept_ok)
next
  case (expired ra now)
  then show ?case by (simp add: expire_ok)
qed

text \<open>
  In every reachable state each stored transfer is consistent: its pieces have distinct
  sequence numbers and start at 0, flags are kept for exactly the pieces, the byte counter is the
  sum of the piece sizes and at most 2048, at most one piece is LAST, and the transfer is
  complete exactly when all pieces up to it are there, the completed packet being their
  concatenation. The lookup \<^verbatim>\<open>piece_flags.at\<close> never fails.
\<close>

theorem reachable_ok:
  assumes "reassembler_reachable mtu timeout ra"
  shows "reassembler_ok ra \<and> fst (accept s frame now ra) \<noteq> Inl ReassemblyOutOfRange"
  using reachable_inv [OF assms] accept_ok(2) by blast

lemma reachable_start: "reassembler_reachable 20 5 \<lparr>ra_mtu = 20, ra_timeout = 5, ra_transfers = []\<rparr>"
  by (rule created) (simp add: reassembler_new_def validate_mtu_def kFragmentHeaderSize_def)

theorem reachable_ok_witness:
  "reassembler_ok \<lparr>ra_mtu = 20, ra_timeout = 5, ra_transfers = []\<rparr> \<and>
   fst (accept 1 [] 0 \<lparr>ra_mtu = 20, ra_timeout = 5, ra_transfers = []\<rparr>) \<noteq> Inl ReassemblyOutOfRange"
  using reachable_ok [OF reachable_start] by blast

text \<open>
  C4. Fragmentation and reassembly are inverse under reordering, duplication and interleaving:
  when a packet is split and its frames, the first frame first, arrive in any order with any
  repetitions and any foreign frames in between, all within the timeout, a reachable reassembler
  that does not know the transfer yet answers every new frame with InProgress, the frame that
  makes the set of frames full with Complete and exactly the packet, and every repeated frame
  with Duplicate, with the packet once it is complete.
\<close>

theorem reassembly_correct:
  assumes split: "fragmenter_split mtu pkt tid = Inr frames"
    and ra: "reassembler_reachable mtu timeout ra" "map_of (ra_transfers ra) (transfer_key s tid) = None"
    and arrivals: "list_all (arrival_ok s tid mtu frames t0 timeout) as"
    and first: "case own_indices as of [] \<Rightarrow> True | i # _ \<Rightarrow> i = 0"
  shows "run_arrivals s frames as ra =
    map Inr (expected_results (length frames) pkt {} (own_indices as))"
proof -
  have ok: "reassembler_ok ra" "ra_mtu ra = mtu" "ra_timeout ra = timeout"
    using reachable_inv [OF ra(1)] by auto
  then have "5 < mtu" by (simp add: reassembler_ok_def kFragmentHeaderSize_def)
  then have sp: "splittable mtu pkt" using fragmenter_split_Inl [of mtu pkt tid] split by auto
  then have f: "frames = map (split_frame mtu pkt tid) [0..<fragment_count mtu (length pkt)]"
    using fragmenter_split_Inr [OF sp, of tid] split by simp
  then have "length frames = fragment_count mtu (length pkt)" by simp
  then show ?thesis
    using run_arrivals_correct [OF sp f ok(2,3) _ arrivals, of "{}"] ok(1) ra(2) first
    by (simp add: reassembler_ok_def)
qed

text \<open>A packet of three bytes in frames of at most seven, delivered out of order.\<close>

lemma split_three:
  "fragmenter_split 7 [1, 2, 3] 9 = Inr [[9, 0, 0, 0, 9, 1, 2], [9, 0, 1, 0, 6, 3]]"
  by (simp add: fragmenter_split_def fragment_count_def kFragmentHeaderSize_def packet_consts
      split_fragment_def encode_fragment_def validate_mtu_def fragment_consts put_u16_def upt_rec)

theorem reassembly_correct_witness:
  "run_arrivals 4 [[9, 0, 0, 0, 9, 1, 2], [9, 0, 1, 0, 6, 3]]
     [Own 0 10, Other 5 [] 11, Own 0 12, Own 1 12, Own 1 14]
     \<lparr>ra_mtu = 7, ra_timeout = 5, ra_transfers = []\<rparr> =
   map Inr [(InProgress, None), (Duplicate, None), (Complete, Some [1, 2, 3]),
            (Duplicate, Some [1, 2, 3])]"
proof -
  have r: "reassembler_reachable 7 5 \<lparr>ra_mtu = 7, ra_timeout = 5, ra_transfers = []\<rparr>"
    by (rule created) (simp add: reassembler_new_def validate_mtu_def kFragmentHeaderSize_def)
  have "decode_fragment [] 7 = Inl FrameTooShort"
    by (simp add: decode_fragment_def validate_mtu_def kFragmentHeaderSize_def)
  then have "list_all (arrival_ok 4 9 7 [[9, 0, 0, 0, 9, 1, 2], [9, 0, 1, 0, 6, 3]] 10 5)
      [Own 0 10, Other 5 [] 11, Own 0 12, Own 1 12, Own 1 14]"
    by (simp add: foreign_def)
  from reassembly_correct [OF split_three r _ this] show ?thesis
    by (simp add: expected_result_def lessThan_nat_numeral lessThan_Suc doubleton_eq_iff insert_commute numeral_2_eq_2)
qed

end
