(* ===== verification/Mock_Node.thy ===== *)
theory Mock_Node
  imports Reassembly Core_Reachable
begin

text \<open>
  \<^verbatim>\<open>mock_mcu/include/remotebsp/mock_mcu/mock_node.hpp\<close> and \<^verbatim>\<open>mock_mcu/src/mock_node.cpp\<close>: a node
  puts a reassembler in front of its core and a fragmenter behind it, answers discovery itself, and
  keeps the responses of its latest requests, so that a request that arrives twice is executed once.
\<close>

subsection \<open>Data\<close>

record node_reply =
  nr_transfer_id :: u16
  nr_frames :: "byte list list"

datatype mock_node_error = InvalidCacheSize | ConflictingDuplicateRequest

text \<open>The exceptions that leave a node: its own, and those of the components it calls.\<close>

datatype node_exception =
    NodeException mock_node_error
  | NodeCore core_exception
  | NodeReassembly reassembly_error
  | NodeFragment fragment_error
  | NodePacket packet_error
  | NodeDiscovery discovery_payload_error

record cached_request =
  cq_request :: packet
  cq_encoded_response :: "byte list"

record mock_node =
  mn_core :: remote_core
  mn_mtu :: nat
  mn_reassembler :: reassembler
  mn_node_id :: u32
  mn_maximum_cached_requests :: nat
  mn_next_outbound_transfer_id :: u16
  mn_cache :: "(u64, cached_request) hmap"
  mn_cache_order :: "u64 list"
  mn_executed_request_count :: u64
  mn_cached_response_count :: u64

type_synonym 'a node_result = "(node_exception + 'a) \<times> mock_node"

definition mock_node_new :: "remote_core \<Rightarrow> nat \<Rightarrow> u32 \<Rightarrow> time \<Rightarrow> nat \<Rightarrow> node_exception + mock_node" where
  "mock_node_new core mtu node_id timeout maximum_cached_requests =
     try_bind (map_error NodeFragment (fragmenter_new mtu)) (\<lambda>f.
     try_bind (map_error NodeReassembly (reassembler_new mtu timeout)) (\<lambda>ra.
       if maximum_cached_requests = 0 then Inl (NodeException InvalidCacheSize)
       else Inr \<lparr>mn_core = core, mn_mtu = f, mn_reassembler = ra, mn_node_id = node_id,
                 mn_maximum_cached_requests = maximum_cached_requests,
                 mn_next_outbound_transfer_id = 1, mn_cache = [], mn_cache_order = [],
                 mn_executed_request_count = 0, mn_cached_response_count = 0\<rparr>))"

subsection \<open>Sending\<close>

definition allocate_transfer_id :: "mock_node \<Rightarrow> u16 \<times> mock_node" where
  "allocate_transfer_id n =
     (let result = mn_next_outbound_transfer_id n
      in (result, n\<lparr>mn_next_outbound_transfer_id := (if result + 1 = 0 then 1 else result + 1)\<rparr>))"

text \<open>
  Allocating a transfer id and splitting an encoded packet, as at the end of every operation that
  sends. An exception of the fragmenter leaves the id used.
\<close>

definition send_encoded :: "byte list \<Rightarrow> mock_node \<Rightarrow> node_reply node_result" where
  "send_encoded encoded n =
     (let (transfer_id, n1) = allocate_transfer_id n
      in (try_bind (map_error NodeFragment (fragmenter_split (mn_mtu n1) encoded transfer_id))
            (\<lambda>frames. Inr \<lparr>nr_transfer_id = transfer_id, nr_frames = frames\<rparr>), n1))"

definition encode_and_send :: "packet \<Rightarrow> mock_node \<Rightarrow> node_reply node_result" where
  "encode_and_send p n =
     (let (transfer_id, n1) = allocate_transfer_id n
      in (try_bind (map_error NodePacket (encode p)) (\<lambda>encoded.
            try_bind (map_error NodeFragment (fragmenter_split (mn_mtu n1) encoded transfer_id))
              (\<lambda>frames. Inr \<lparr>nr_transfer_id = transfer_id, nr_frames = frames\<rparr>)), n1))"

definition heartbeat_packet :: "mock_node \<Rightarrow> packet" where
  "heartbeat_packet n =
     \<lparr>header = default_header\<lparr>ph_message_type := message_type_code Event,
        ph_command := command_code Heartbeat, ph_object_id := mn_node_id n\<rparr>,
      payload = encode_heartbeat \<lparr>hb_uuid = nf_uuid (co_node_info (mn_core n)),
        hb_protocol_version = nf_protocol_version (co_node_info (mn_core n))\<rparr>\<rparr>"

definition make_heartbeat :: "mock_node \<Rightarrow> node_reply node_result" where
  "make_heartbeat n = encode_and_send (heartbeat_packet n) n"

fun send_events :: "packet list \<Rightarrow> mock_node \<Rightarrow> node_reply list node_result" where
  "send_events [] n = (Inr [], n)"
| "send_events (e # es) n =
     (case encode_and_send e n of
        (Inl x, n1) \<Rightarrow> (Inl x, n1)
      | (Inr sent, n1) \<Rightarrow>
          (case send_events es n1 of
             (Inl x, n2) \<Rightarrow> (Inl x, n2)
           | (Inr replies, n2) \<Rightarrow> (Inr (sent # replies), n2)))"

definition node_poll_uart_events :: "nat \<Rightarrow> mock_node \<Rightarrow> node_reply list node_result" where
  "node_poll_uart_events maximum_payload n =
     (case poll_uart_events maximum_payload (mn_core n) of
        (Inl e, c) \<Rightarrow> (Inl (NodeCore e), n\<lparr>mn_core := c\<rparr>)
      | (Inr events, c) \<Rightarrow> send_events events (n\<lparr>mn_core := c\<rparr>))"

definition node_expire :: "time \<Rightarrow> mock_node \<Rightarrow> nat \<times> mock_node" where
  "node_expire now n =
     (let (a, ra) = expire now (mn_reassembler n);
          (b, c) = expire_leases now (mn_core n)
      in (a + b, n\<lparr>mn_reassembler := ra, mn_core := c\<rparr>))"

subsection \<open>The request cache\<close>

definition node_request_key :: "u32 \<Rightarrow> u32 \<Rightarrow> u64" where
  "node_request_key session_id request_id = push_bit 32 (ucast session_id) OR ucast request_id"

definition key_session :: "u64 \<Rightarrow> u32" where
  "key_session k = ucast (drop_bit 32 k)"

definition same_request :: "packet \<Rightarrow> packet \<Rightarrow> bool" where
  "same_request left right \<longleftrightarrow>
     ph_version (header left) = ph_version (header right) \<and>
     ph_message_type (header left) = ph_message_type (header right) \<and>
     ph_command (header left) = ph_command (header right) \<and>
     ph_session_id (header left) = ph_session_id (header right) \<and>
     ph_request_id (header left) = ph_request_id (header right) \<and>
     ph_object_id (header left) = ph_object_id (header right) \<and>
     ph_flags (header left) = ph_flags (header right) \<and>
     payload left = payload right"

text \<open>
  The front of an empty deque is undefined in C++; \<open>mock_node_ok\<close> below shows that a full cache has a
  non-empty order.
\<close>

definition insert_cache :: "u64 \<Rightarrow> cached_request \<Rightarrow> mock_node \<Rightarrow> mock_node" where
  "insert_cache k entry n =
     (let n1 = (if length (mn_cache n) = mn_maximum_cached_requests n
                then n\<lparr>mn_cache := herase (hd (mn_cache_order n)) (mn_cache n),
                       mn_cache_order := tl (mn_cache_order n)\<rparr>
                else n)
      in n1\<lparr>mn_cache := hemplace k entry (mn_cache n1), mn_cache_order := mn_cache_order n1 @ [k]\<rparr>)"

definition clear_session :: "u32 \<Rightarrow> mock_node \<Rightarrow> nat \<times> mock_node" where
  "clear_session session_id n =
     (let keep = (\<lambda>k. key_session k \<noteq> session_id);
          kept = filter (\<lambda>e. keep (fst e)) (mn_cache n);
          (released, c) = release_session session_id (mn_core n)
      in (length (mn_cache n) - length kept + released,
          n\<lparr>mn_cache := kept, mn_cache_order := filter keep (mn_cache_order n), mn_core := c\<rparr>))"

subsection \<open>Requests\<close>

definition node_response :: "packet \<Rightarrow> u16 \<Rightarrow> u32 \<Rightarrow> byte list \<Rightarrow> packet" where
  "node_response request command_value object_id body =
     \<lparr>header = default_header\<lparr>ph_version := kProtocolVersion,
        ph_message_type := message_type_code Response, ph_command := command_value,
        ph_session_id := ph_session_id (header request),
        ph_request_id := ph_request_id (header request), ph_object_id := object_id\<rparr>,
      payload = body\<rparr>"

definition identity_of :: "node_info \<Rightarrow> node_identity" where
  "identity_of i = \<lparr>ni_uuid = nf_uuid i, ni_firmware_major = nf_firmware_major i,
     ni_firmware_minor = nf_firmware_minor i, ni_firmware_patch = nf_firmware_patch i,
     ni_board_type = nf_board_type i, ni_protocol_version = nf_protocol_version i\<rparr>"

text \<open>The three branches that make the response; \<open>None\<close> where the node stays silent.\<close>

definition respond :: "packet \<Rightarrow> time \<Rightarrow> mock_node \<Rightarrow> packet option node_result" where
  "respond request now n =
     (let info = co_node_info (mn_core n) in
      if ph_command (header request) = command_code DiscoveryRequest
      then (case decode_discovery_request (payload request) of
              Inl e \<Rightarrow> (Inl (NodeDiscovery e), n)
            | Inr d \<Rightarrow>
                if nf_protocol_version info < dr_minimum_protocol_version d \<or>
                   nf_protocol_version info > dr_maximum_protocol_version d
                then (Inr None, n)
                else (Inr (Some (node_response request (command_code DiscoveryResponse) 0
                            (encode_node_identity (identity_of info)))), n))
      else if ph_command (header request) = command_code NodeAssign
      then (case decode_node_assignment (payload request) of
              Inl e \<Rightarrow> (Inl (NodeDiscovery e), n)
            | Inr a \<Rightarrow>
                if na_uuid a \<noteq> nf_uuid info then (Inr None, n)
                else (Inr (Some (node_response request (ph_command (header request))
                            (na_node_id a) [0])), n\<lparr>mn_node_id := na_node_id a\<rparr>))
      else (case handle request now (mn_core n) of
              (Inl e, c) \<Rightarrow> (Inl (NodeCore e), n\<lparr>mn_core := c\<rparr>)
            | (Inr p, c) \<Rightarrow> (Inr (Some p), n\<lparr>mn_core := c\<rparr>)))"

definition process_request :: "packet \<Rightarrow> time \<Rightarrow> mock_node \<Rightarrow> node_reply option node_result" where
  "process_request request now n =
     (let k = node_request_key (ph_session_id (header request)) (ph_request_id (header request)) in
      case map_of (mn_cache n) k of
        Some found \<Rightarrow>
          if \<not> same_request (cq_request found) request
          then (Inl (NodeException ConflictingDuplicateRequest), n)
          else let (r, n1) = send_encoded (cq_encoded_response found)
                     (n\<lparr>mn_cached_response_count := mn_cached_response_count n + 1\<rparr>)
               in (try_bind r (\<lambda>sent. Inr (Some sent)), n1)
      | None \<Rightarrow>
          (case respond request now n of
             (Inl e, n1) \<Rightarrow> (Inl e, n1)
           | (Inr None, n1) \<Rightarrow> (Inr None, n1)
           | (Inr (Some response), n1) \<Rightarrow>
               (case encode response of
                  Inl e \<Rightarrow> (Inl (NodePacket e), n1)
                | Inr encoded \<Rightarrow>
                    let n2 = insert_cache k \<lparr>cq_request = request, cq_encoded_response = encoded\<rparr>
                          (n1\<lparr>mn_executed_request_count := mn_executed_request_count n1 + 1\<rparr>);
                        (r, n3) = send_encoded encoded n2
                    in (try_bind r (\<lambda>sent. Inr (Some sent)), n3))))"

text \<open>
  A duplicate of the last fragment of a complete transfer carries the packet again, and so repeats
  its request.
\<close>

definition handle_frame :: "u32 \<Rightarrow> byte list \<Rightarrow> time \<Rightarrow> mock_node \<Rightarrow> node_reply option node_result" where
  "handle_frame stream_id frame now n =
     (case accept stream_id frame now (mn_reassembler n) of
        (Inl e, ra) \<Rightarrow> (Inl (NodeReassembly e), n\<lparr>mn_reassembler := ra\<rparr>)
      | (Inr (status, pkt), ra) \<Rightarrow>
          let n1 = n\<lparr>mn_reassembler := ra\<rparr> in
          (case (if status = Duplicate
                 then try_bind (map_error NodeFragment (decode_fragment frame (mn_mtu n1)))
                        (\<lambda>f. Inr (fr_flags f AND kFragmentLast \<noteq> 0))
                 else Inr False) of
             Inl e \<Rightarrow> (Inl e, n1)
           | Inr repeated_last \<Rightarrow>
               (case pkt of
                  None \<Rightarrow> (Inr None, n1)
                | Some bytes \<Rightarrow>
                    if status \<noteq> Complete \<and> \<not> repeated_last then (Inr None, n1)
                    else (case decode bytes of
                            Inl e \<Rightarrow> (Inl (NodePacket e), n1)
                          | Inr request \<Rightarrow> process_request request now n1))))"

end
