(* ===== verification/Node_Cache.thy ===== *)
theory Node_Cache
  imports Mock_Node
begin

text \<open>
  The request cache of a node: the invariant that ties the cache to its order, and at-most-once
  execution: a request that is repeated before enough newer requests were executed is answered with
  the bytes of the first response, and the core does not see it.
\<close>

subsection \<open>The invariant\<close>

lemma set_hkeys_herase: "fst ` set (herase k m) = fst ` set m - {k}"
  by (auto simp: herase_def)

definition mock_node_ok :: "mock_node \<Rightarrow> bool" where
  "mock_node_ok n \<longleftrightarrow>
     core_ok (mn_core n) \<and> catalog_ok (co_resources (mn_core n)) \<and>
     reassembler_ok (mn_reassembler n) \<and> ra_mtu (mn_reassembler n) = mn_mtu n \<and>
     mn_next_outbound_transfer_id n \<noteq> 0 \<and>
     0 < mn_maximum_cached_requests n \<and> length (mn_cache n) \<le> mn_maximum_cached_requests n \<and>
     hmap_ok (mn_cache n) \<and> distinct (mn_cache_order n) \<and>
     set (mn_cache_order n) = set (hkeys (mn_cache n)) \<and>
     (\<forall>k e. map_of (mn_cache n) k = Some e \<longrightarrow>
        k = node_request_key (ph_session_id (header (cq_request e))) (ph_request_id (header (cq_request e))) \<and>
        (\<exists>p. encode p = Inr (cq_encoded_response e)))"

lemma mock_node_okD:
  assumes "mock_node_ok n"
  shows "core_ok (mn_core n)" "catalog_ok (co_resources (mn_core n))"
    "reassembler_ok (mn_reassembler n)" "ra_mtu (mn_reassembler n) = mn_mtu n"
    "mn_next_outbound_transfer_id n \<noteq> 0" "0 < mn_maximum_cached_requests n"
    "length (mn_cache n) \<le> mn_maximum_cached_requests n" "hmap_ok (mn_cache n)"
    "distinct (mn_cache_order n)" "set (mn_cache_order n) = set (hkeys (mn_cache n))"
    "\<And>k e. map_of (mn_cache n) k = Some e \<Longrightarrow>
        k = node_request_key (ph_session_id (header (cq_request e))) (ph_request_id (header (cq_request e))) \<and>
        (\<exists>p. encode p = Inr (cq_encoded_response e))"
  using assms unfolding mock_node_ok_def by blast+

lemma order_length: "mock_node_ok n \<Longrightarrow> length (mn_cache_order n) = length (mn_cache n)"
  using mock_node_okD(8-10) [of n] distinct_card [of "mn_cache_order n"] distinct_card [of "hkeys (mn_cache n)"]
  by simp

lemma mock_node_ok_fields [simp]:
  "mock_node_ok (n\<lparr>mn_node_id := i\<rparr>) = mock_node_ok n"
  "mock_node_ok (n\<lparr>mn_executed_request_count := x\<rparr>) = mock_node_ok n"
  "mock_node_ok (n\<lparr>mn_cached_response_count := y\<rparr>) = mock_node_ok n"
  by (simp_all add: mock_node_ok_def)

lemma mock_node_ok_core:
  "mock_node_ok n \<Longrightarrow> core_ok c \<Longrightarrow> co_resources c = co_resources (mn_core n) \<Longrightarrow> mock_node_ok (n\<lparr>mn_core := c\<rparr>)"
  by (simp add: mock_node_ok_def)

lemma mock_node_ok_reassembler:
  "mock_node_ok n \<Longrightarrow> reassembler_ok ra \<Longrightarrow> ra_mtu ra = mn_mtu n \<Longrightarrow> mock_node_ok (n\<lparr>mn_reassembler := ra\<rparr>)"
  by (simp add: mock_node_ok_def)

lemma insert_cache_ok:
  assumes ok: "mock_node_ok n" and new: "map_of (mn_cache n) k = None"
    and k: "k = node_request_key (ph_session_id (header (cq_request e))) (ph_request_id (header (cq_request e)))"
    and enc: "encode p = Inr (cq_encoded_response e)"
  shows "mock_node_ok (insert_cache k e n)"
proof -
  note d = mock_node_okD [OF ok] and len = order_length [OF ok]
  define full where "full \<longleftrightarrow> length (mn_cache n) = mn_maximum_cached_requests n"
  define order where "order = (if full then tl (mn_cache_order n) else mn_cache_order n)"
  define cache where "cache = (if full then herase (hd (mn_cache_order n)) (mn_cache n) else mn_cache n)"
  obtain x xs where front: "full \<Longrightarrow> mn_cache_order n = x # xs"
    using d(6) len unfolding full_def by (cases "mn_cache_order n") auto
  have order_keys: "distinct order" "hmap_ok cache"
    using d(8,9) front unfolding order_def cache_def by auto
  have keys: "set order = set (hkeys cache)"
  proof (cases full)
    case True
    then have "fst ` set (mn_cache n) = insert x (set xs)" "x \<notin> set xs" using d(9,10) front by simp_all
    then show ?thesis using front True by (simp add: order_def cache_def set_hkeys_herase)
  next
    case False
    then show ?thesis using d(10) by (simp add: order_def cache_def)
  qed
  then have "length order = length cache"
    using keys order_keys distinct_card [of order] distinct_card [of "hkeys cache"] by simp
  moreover have "length order < mn_maximum_cached_requests n"
    using d(6,7) len front unfolding order_def full_def by auto
  ultimately have room: "length cache < mn_maximum_cached_requests n" by simp
  have none: "map_of cache k = None" using new by (simp add: cache_def)
  have eq: "insert_cache k e n = n\<lparr>mn_cache := cache @ [(k, e)], mn_cache_order := order @ [k]\<rparr>"
    using new by (simp add: insert_cache_def Let_def cache_def order_def full_def hemplace_def)
  have entries: "k' = node_request_key (ph_session_id (header (cq_request e'))) (ph_request_id (header (cq_request e'))) \<and>
      (\<exists>p. encode p = Inr (cq_encoded_response e'))"
    if "map_of (cache @ [(k, e)]) k' = Some e'" for k' e'
  proof (cases "k' = k")
    case True
    then show ?thesis using that none k enc by (auto simp: map_add_def simp del: map_of_eq_Some_iff)
  next
    case False
    then have "map_of (mn_cache n) k' = Some e'"
      using that by (auto simp: map_add_def cache_def simp del: map_of_eq_Some_iff split: option.splits if_splits)
    then show ?thesis by (rule d(11))
  qed
  have "k \<notin> set (hkeys cache)" using none by (simp add: map_of_eq_None_iff)
  then show ?thesis
    using order_keys keys room d(1-6) entries unfolding eq mock_node_ok_def
    by (simp del: map_of_eq_Some_iff map_of_append)
qed

subsection \<open>What the operations leave alone\<close>

lemma send_encoded_state:
  "snd (send_encoded bs n) = snd (allocate_transfer_id n)"
  "snd (encode_and_send p n) = snd (allocate_transfer_id n)"
  by (simp_all add: send_encoded_def encode_and_send_def split_beta)

lemma allocate_ok: "mock_node_ok n \<Longrightarrow> mock_node_ok (snd (allocate_transfer_id n))"
  by (simp add: allocate_transfer_id_def Let_def mock_node_ok_def)

lemma allocate_fields [simp]:
  "mn_core (snd (allocate_transfer_id n)) = mn_core n"
  "mn_mtu (snd (allocate_transfer_id n)) = mn_mtu n"
  "mn_cache (snd (allocate_transfer_id n)) = mn_cache n"
  "mn_cache_order (snd (allocate_transfer_id n)) = mn_cache_order n"
  "mn_reassembler (snd (allocate_transfer_id n)) = mn_reassembler n"
  "mn_maximum_cached_requests (snd (allocate_transfer_id n)) = mn_maximum_cached_requests n"
  "mn_executed_request_count (snd (allocate_transfer_id n)) = mn_executed_request_count n"
  by (simp_all add: allocate_transfer_id_def Let_def)

lemma insert_cache_fields [simp]:
  "mn_core (insert_cache k e n) = mn_core n"
  "mn_mtu (insert_cache k e n) = mn_mtu n"
  "mn_maximum_cached_requests (insert_cache k e n) = mn_maximum_cached_requests n"
  "mn_executed_request_count (insert_cache k e n) = mn_executed_request_count n"
  by (simp_all add: insert_cache_def Let_def)

lemma respond_fields:
  assumes "respond request now n = (r, n')"
  shows "mn_mtu n' = mn_mtu n" "mn_reassembler n' = mn_reassembler n"
    "mn_maximum_cached_requests n' = mn_maximum_cached_requests n"
    "mn_next_outbound_transfer_id n' = mn_next_outbound_transfer_id n"
    "mn_cache n' = mn_cache n" "mn_cache_order n' = mn_cache_order n"
    "mn_executed_request_count n' = mn_executed_request_count n"
  using assms by (auto simp: respond_def Let_def split: if_splits sum.splits prod.splits)

lemma handle_catalog:
  assumes "core_ok c" "catalog_ok (co_resources c)"
  shows "co_resources (snd (handle request now c)) = co_resources c"
proof (cases "ph_message_type (header request) = message_type_code Request \<and>
    ph_version (header request) = kProtocolVersion")
  case True
  then show ?thesis using handle_ok [OF assms, of request now] by (auto simp: step_ok_def)
next
  case False
  then show ?thesis by (auto simp: handle_def)
qed

lemma respond_ok:
  assumes ok: "mock_node_ok n" and "respond request now n = (r, n')"
  shows "mock_node_ok n'"
proof -
  note d = mock_node_okD [OF ok]
  have "mock_node_ok (n\<lparr>mn_core := c\<rparr>)" if "handle request now (mn_core n) = (x, c)" for x c
    using handle_keeps [OF d(1,2), of request now] handle_catalog [OF d(1,2), of request now] that
    by (intro mock_node_ok_core [OF ok]) simp_all
  then show ?thesis using assms
    by (auto simp: respond_def Let_def split: if_splits sum.splits prod.splits)
qed

subsection \<open>Requests\<close>

text \<open>The state changes of a request: none beyond the counters for a repeated one.\<close>

lemma process_repeated:
  assumes "map_of (mn_cache n) (node_request_key (ph_session_id (header request)) (ph_request_id (header request))) = Some e"
  shows "process_request request now n =
    (if same_request (cq_request e) request
     then (try_bind (fst (send_encoded (cq_encoded_response e) n)) (\<lambda>sent. Inr (Some sent)),
           snd (send_encoded (cq_encoded_response e) (n\<lparr>mn_cached_response_count := mn_cached_response_count n + 1\<rparr>)))
     else (Inl (NodeException ConflictingDuplicateRequest), n))"
  using assms by (simp add: process_request_def Let_def split_beta send_encoded_def allocate_transfer_id_def)

definition new_entry :: "packet \<Rightarrow> byte list \<Rightarrow> cached_request" where
  "new_entry request bs = \<lparr>cq_request = request, cq_encoded_response = bs\<rparr>"

definition executed :: "packet \<Rightarrow> byte list \<Rightarrow> mock_node \<Rightarrow> mock_node" where
  "executed request bs n =
     insert_cache (node_request_key (ph_session_id (header request)) (ph_request_id (header request)))
       (new_entry request bs) (n\<lparr>mn_executed_request_count := mn_executed_request_count n + 1\<rparr>)"

lemma process_new:
  assumes "map_of (mn_cache n) (node_request_key (ph_session_id (header request)) (ph_request_id (header request))) = None"
  shows "process_request request now n =
    (case respond request now n of
       (Inl e, n1) \<Rightarrow> (Inl e, n1)
     | (Inr None, n1) \<Rightarrow> (Inr None, n1)
     | (Inr (Some response), n1) \<Rightarrow>
         (case encode response of
            Inl e \<Rightarrow> (Inl (NodePacket e), n1)
          | Inr bs \<Rightarrow>
              (try_bind (fst (send_encoded bs (executed request bs n1))) (\<lambda>sent. Inr (Some sent)),
               snd (send_encoded bs (executed request bs n1)))))"
  using assms
  by (simp add: process_request_def Let_def split_beta executed_def new_entry_def cong: sum.case_cong option.case_cong)

lemma executed_ok:
  assumes "mock_node_ok n" "encode response = Inr bs"
    and "map_of (mn_cache n) (node_request_key (ph_session_id (header request)) (ph_request_id (header request))) = None"
  shows "mock_node_ok (executed request bs n)"
  unfolding executed_def by (rule insert_cache_ok) (use assms in \<open>simp_all add: new_entry_def\<close>)

text \<open>What a step of the node may do: a frame, a transmission, an expiry, the end of a session, or the world around the core.\<close>

datatype node_event = NE_Frame | NE_Send | NE_Expire | NE_Clear u32 | NE_World

inductive node_step :: "node_event \<Rightarrow> mock_node \<Rightarrow> mock_node \<Rightarrow> bool" where
  node_frame: "handle_frame stream frame now n = (r, n') \<Longrightarrow> node_step NE_Frame n n'"
| node_request: "process_request request now n = (r, n') \<Longrightarrow> node_step NE_Frame n n'"
| node_heartbeat: "make_heartbeat n = (x, n') \<Longrightarrow> node_step NE_Send n n'"
| node_poll: "node_poll_uart_events k n = (y, n') \<Longrightarrow> node_step NE_Send n n'"
| node_expires: "node_expire now n = (i, n') \<Longrightarrow> node_step NE_Expire n n'"
| node_clear: "clear_session s n = (i, n') \<Longrightarrow> node_step (NE_Clear s) n n'"
| node_world: "core_step (mn_core n) c \<Longrightarrow> node_step NE_World n (n\<lparr>mn_core := c\<rparr>)"

inductive node_reachable :: "mock_node \<Rightarrow> bool" where
  node_new: "mock_node_new c mtu i timeout k = Inr n \<Longrightarrow> core_reachable c \<Longrightarrow>
    catalog_ok (co_resources c) \<Longrightarrow> node_reachable n"
| node_next: "node_reachable n \<Longrightarrow> node_step e n n' \<Longrightarrow> node_reachable n'"

lemma process_ok:
  assumes ok: "mock_node_ok n" and p: "process_request request now n = (r, n')"
  shows "mock_node_ok n'"
proof (cases "map_of (mn_cache n) (node_request_key (ph_session_id (header request)) (ph_request_id (header request)))")
  case None
  obtain x n1 where resp: "respond request now n = (x, n1)" by (cases "respond request now n")
  have ok1: "mock_node_ok n1" by (rule respond_ok [OF ok resp])
  have none: "map_of (mn_cache n1) (node_request_key (ph_session_id (header request)) (ph_request_id (header request))) = None"
    using None respond_fields(5) [OF resp] by simp
  have "mock_node_ok (snd (send_encoded bs (executed request bs n1)))" if "encode response = Inr bs" for response bs
    unfolding send_encoded_state by (rule allocate_ok) (rule executed_ok [OF ok1 that none])
  then show ?thesis using p ok1 unfolding process_new [OF None] resp
    by (auto split: sum.splits option.splits)
next
  case (Some e)
  have "mock_node_ok (snd (allocate_transfer_id (n\<lparr>mn_cached_response_count := x\<rparr>)))" for x
    using ok by (intro allocate_ok) simp
  then show ?thesis using p ok unfolding process_repeated [OF Some]
    by (auto simp: send_encoded_state split: if_splits)
qed

lemma handle_frame_cases:
  assumes "handle_frame stream frame now n = (r, n')"
  shows "\<exists>n1. n1 = n\<lparr>mn_reassembler := snd (accept stream frame now (mn_reassembler n))\<rparr> \<and>
    (n' = n1 \<or> (\<exists>request. process_request request now n1 = (r, n')))"
  using assms by (auto simp: handle_frame_def Let_def try_bind_def map_error_def
      split: sum.splits prod.splits option.splits if_splits)

lemma send_events_state:
  "mock_node_ok n \<Longrightarrow> mock_node_ok (snd (send_events es n))"
proof (induction es arbitrary: n)
  case (Cons e es)
  have "mock_node_ok (snd (encode_and_send e n))"
    unfolding send_encoded_state by (rule allocate_ok) (rule Cons.prems)
  then show ?case using Cons.IH [of "snd (encode_and_send e n)"]
    by (auto split: sum.split prod.split)
qed simp

lemma poll_catalog: "co_resources (snd (poll_uart_events k c)) = co_resources c"
  by (auto simp: poll_uart_events_def split: option.split prod.split)

lemma core_step_catalog:
  "core_step c c' \<Longrightarrow> core_ok c \<Longrightarrow> catalog_ok (co_resources c) \<Longrightarrow> co_resources c' = co_resources c"
proof (induction rule: core_step.induct)
  case (core_handle request now c r c')
  then show ?case using handle_catalog [of c request now] by simp
next
  case (core_expire now c n c')
  then show ?case by (metis expire_catalog(1) snd_conv)
next
  case (core_release s c n c')
  then show ?case by (auto simp: release_session_def purge_leases_eq)
next
  case (core_poll n c r c')
  then show ?case using poll_catalog [of n c] by simp
qed simp_all

lemma clear_cache_ok:
  assumes "mock_node_ok n"
  shows "mock_node_ok (n\<lparr>mn_cache := filter (\<lambda>e. P (fst e)) (mn_cache n), mn_cache_order := filter P (mn_cache_order n)\<rparr>)"
proof -
  note d = mock_node_okD [OF assms]
  have entry: "map_of (mn_cache n) k = Some e" if "map_of (filter (\<lambda>e. P (fst e)) (mn_cache n)) k = Some e" for k e
    using map_of_SomeD [OF that] d(8) by auto
  have keys: "fst ` {e \<in> set (mn_cache n). P (fst e)} = {k \<in> fst ` set (mn_cache n). P k}" by force
  show ?thesis
    using d(1-6) d(8-10) order_trans [OF length_filter_le d(7)] d(11) [OF entry]
    unfolding mock_node_ok_def by (simp add: keys distinct_map_filter del: map_of_eq_Some_iff)
qed

lemma node_step_ok: "node_step e n n' \<Longrightarrow> mock_node_ok n \<Longrightarrow> mock_node_ok n'"
proof (induction rule: node_step.induct)
  case (node_frame stream frame now n r n')
  have ok: "mock_node_ok (n\<lparr>mn_reassembler := snd (accept stream frame now (mn_reassembler n))\<rparr>)"
    using mock_node_okD(3,4) [OF node_frame(2)]
    by (intro mock_node_ok_reassembler [OF node_frame(2)]) (simp_all add: accept_ok)
  show ?case using handle_frame_cases [OF node_frame(1)] ok process_ok by blast
next
  case (node_request request now n r n')
  then show ?case using process_ok by blast
next
  case (node_heartbeat n x n')
  then show ?case using send_encoded_state(2) [of _ n] allocate_ok [of n]
    unfolding make_heartbeat_def by (metis snd_conv)
next
  case (node_poll k n y n')
  let ?c = "snd (poll_uart_events k (mn_core n))"
  have "mock_node_ok (n\<lparr>mn_core := ?c\<rparr>)"
    using mock_node_okD(1) [OF node_poll(2)] by (intro mock_node_ok_core [OF node_poll(2)] core_poll_ok poll_catalog)
  then have "mock_node_ok (n\<lparr>mn_core := ?c\<rparr>)" "\<forall>es. mock_node_ok (snd (send_events es (n\<lparr>mn_core := ?c\<rparr>)))"
    by (simp_all add: send_events_state)
  then show ?case using node_poll(1)
    unfolding node_poll_uart_events_def by (auto split: prod.splits sum.splits) (metis snd_conv)
next
  case (node_expires now n i n')
  let ?ra = "snd (expire now (mn_reassembler n))" and ?c = "snd (expire_leases now (mn_core n))"
  have "mock_node_ok (n\<lparr>mn_reassembler := ?ra\<rparr>)"
    using mock_node_okD(3,4) [OF node_expires(2)]
    by (intro mock_node_ok_reassembler [OF node_expires(2)]) (simp_all add: expire_ok)
  then have "mock_node_ok (n\<lparr>mn_reassembler := ?ra, mn_core := ?c\<rparr>)"
    using mock_node_okD(1) [OF node_expires(2)] by (intro mock_node_ok_core) (simp_all add: core_expire_ok)
  then show ?case using node_expires(1) by (simp add: node_expire_def split_beta Let_def)
next
  case (node_clear s n i n')
  let ?n = "n\<lparr>mn_cache := filter (\<lambda>e. key_session (fst e) \<noteq> s) (mn_cache n),
      mn_cache_order := filter (\<lambda>k. key_session k \<noteq> s) (mn_cache_order n)\<rparr>"
  have "mock_node_ok ?n" by (rule clear_cache_ok [OF node_clear(2), of "\<lambda>k. key_session k \<noteq> s"])
  then have "mock_node_ok (?n\<lparr>mn_core := snd (release_session s (mn_core n))\<rparr>)"
    using mock_node_okD(1) [OF node_clear(2)]
    by (intro mock_node_ok_core release_session_ok) (simp_all add: release_session_def purge_leases_eq)
  then show ?case using node_clear(1) by (auto simp: clear_session_def Let_def split_beta)
next
  case (node_world n c)
  show ?case
    using mock_node_okD(1,2) [OF node_world(2)] core_step_catalog [OF node_world(1)] core_step_ok [OF node_world(1)]
    by (intro mock_node_ok_core [OF node_world(2)]) simp_all
qed

lemma mock_node_new_ok:
  assumes "mock_node_new c mtu i timeout k = Inr n" "core_reachable c" "catalog_ok (co_resources c)"
  shows "mock_node_ok n"
  using assms core_reachable_ok [OF assms(2)]
  by (auto simp: mock_node_new_def mock_node_ok_def try_bind_Inr_iff map_error_def fragmenter_new_def
      reassembler_new_def reassembler_ok_def validate_mtu_def split: sum.splits if_splits)

lemma node_reachable_ok: "node_reachable n \<Longrightarrow> mock_node_ok n"
  by (induction rule: node_reachable.induct) (auto intro: mock_node_new_ok node_step_ok)

subsection \<open>How long a response is kept\<close>

text \<open>An entry that survives the execution of \<open>room\<close> further requests.\<close>

definition retained :: "u64 \<Rightarrow> cached_request \<Rightarrow> nat \<Rightarrow> mock_node \<Rightarrow> bool" where
  "retained k e room n \<longleftrightarrow> map_of (mn_cache n) k = Some e \<and>
     (\<exists>xs ys. mn_cache_order n = xs @ k # ys \<and> room + length ys < mn_maximum_cached_requests n)"

definition same_cache :: "mock_node \<Rightarrow> mock_node \<Rightarrow> bool" where
  "same_cache n n' \<longleftrightarrow> mn_cache n' = mn_cache n \<and> mn_cache_order n' = mn_cache_order n \<and>
     mn_maximum_cached_requests n' = mn_maximum_cached_requests n \<and>
     mn_executed_request_count n' = mn_executed_request_count n"

lemma retained_same: "same_cache n n' \<Longrightarrow> retained k e room n' = retained k e room n"
  by (simp add: same_cache_def retained_def)

lemma key_session_key [simp]: "key_session (node_request_key s i) = s"
proof (rule bit_word_eqI)
  fix m assume "m < LENGTH(32)"
  then show "bit (key_session (node_request_key s i)) m = bit s m"
    by (auto simp: key_session_def node_request_key_def bit_simps dest: bit_imp_le_length)
qed

lemma retained_insert:
  assumes ok: "mock_node_ok n" and r: "retained k e (Suc room) n" and new: "map_of (mn_cache n) k' = None"
  shows "retained k e room (insert_cache k' e' n)"
proof -
  obtain xs ys where order: "mn_cache_order n = xs @ k # ys" "Suc room + length ys < mn_maximum_cached_requests n"
    using r unfolding retained_def by blast
  have cached: "map_of (mn_cache n) k = Some e" using r by (simp add: retained_def)
  have k: "k \<noteq> k'" using cached new by auto
  show ?thesis
  proof (cases "length (mn_cache n) = mn_maximum_cached_requests n")
    case True
    then have "xs \<noteq> []" using order order_length [OF ok] by auto
    then obtain x xs' where xs: "xs = x # xs'" by (cases xs) auto
    have "x \<noteq> k" using mock_node_okD(9) [OF ok] order(1) xs by auto
    then have "map_of (mn_cache (insert_cache k' e' n)) k = Some e"
      using True cached k xs order(1)
      by (simp add: insert_cache_def Let_def map_of_hemplace del: map_of_eq_Some_iff)
    moreover have "mn_cache_order (insert_cache k' e' n) = xs' @ k # (ys @ [k'])"
      using True order(1) xs by (simp add: insert_cache_def Let_def)
    ultimately show ?thesis using order(2) unfolding retained_def insert_cache_fields
      by (intro conjI exI [of _ xs'] exI [of _ "ys @ [k']"]) simp_all
  next
    case False
    then have "map_of (mn_cache (insert_cache k' e' n)) k = Some e"
      using cached k by (simp add: insert_cache_def map_of_hemplace del: map_of_eq_Some_iff)
    moreover have "mn_cache_order (insert_cache k' e' n) = xs @ k # (ys @ [k'])"
      using False order(1) by (simp add: insert_cache_def)
    ultimately show ?thesis using order(2) unfolding retained_def insert_cache_fields
      by (intro conjI exI [of _ xs] exI [of _ "ys @ [k']"]) simp_all
  qed
qed

lemma retained_own:
  assumes "mock_node_ok n" "map_of (mn_cache n) k = None" "room < mn_maximum_cached_requests n"
  shows "retained k e room (insert_cache k e n)"
proof -
  obtain xs where "mn_cache_order (insert_cache k e n) = xs @ k # []"
    by (simp add: insert_cache_def Let_def)
  moreover have "map_of (mn_cache (insert_cache k e n)) k = Some e"
    using assms(2) by (simp add: insert_cache_def Let_def map_of_hemplace del: map_of_eq_Some_iff)
  ultimately show ?thesis using assms(3) unfolding retained_def insert_cache_fields
    by (intro conjI exI [of _ xs] exI [of _ "[]"]) simp_all
qed

lemma process_cache:
  assumes "process_request request now n = (r, n')"
  shows "same_cache n n' \<or>
    (\<exists>e n1. same_cache n n1 \<and> (mock_node_ok n \<longrightarrow> mock_node_ok n1) \<and>
       map_of (mn_cache n1) (node_request_key (ph_session_id (header request)) (ph_request_id (header request))) = None \<and>
       mn_executed_request_count n' \<noteq> mn_executed_request_count n \<and>
       (\<forall>k e' room. retained k e' room n' = retained k e' room
          (insert_cache (node_request_key (ph_session_id (header request)) (ph_request_id (header request))) e n1)))"
proof (cases "map_of (mn_cache n) (node_request_key (ph_session_id (header request)) (ph_request_id (header request)))")
  case None
  obtain x n1 where resp: "respond request now n = (x, n1)" by (cases "respond request now n")
  have same: "same_cache n n1" using respond_fields [OF resp] by (simp add: same_cache_def)
  let ?k = "node_request_key (ph_session_id (header request)) (ph_request_id (header request))"
  have "retained k e' room (snd (send_encoded bs (executed request bs n1))) =
      retained k e' room (insert_cache ?k (new_entry request bs) n1)" for k e' room bs
    by (simp add: send_encoded_state executed_def retained_def insert_cache_def Let_def)
  moreover have "mn_executed_request_count (snd (send_encoded bs (executed request bs n1))) =
      mn_executed_request_count n + 1" for bs
    using same by (simp add: send_encoded_state executed_def same_cache_def)
  moreover have "map_of (mn_cache n1) ?k = None" using None same by (simp add: same_cache_def)
  moreover have "mock_node_ok n \<longrightarrow> mock_node_ok n1" using respond_ok [OF _ resp] by blast
  ultimately show ?thesis using assms same unfolding process_new [OF None] resp
    by (fastforce split: sum.splits option.splits)
next
  case (Some e)
  then show ?thesis using assms unfolding process_repeated [OF Some]
    by (auto simp: send_encoded_state same_cache_def split: if_splits)
qed

lemma retained_process:
  assumes ok: "mock_node_ok n" and p: "process_request request now n = (r, n')"
    and e: "retained k e (room + (if mn_executed_request_count n' = mn_executed_request_count n then 0 else 1)) n"
  shows "retained k e room n'"
  using process_cache [OF p]
proof (elim disjE exE conjE)
  assume "same_cache n n'"
  then show ?thesis using e retained_same [of n n' k e room] by (simp add: same_cache_def)
next
  fix e' n1
  assume a: "same_cache n n1" "mock_node_ok n \<longrightarrow> mock_node_ok n1"
    "map_of (mn_cache n1) (node_request_key (ph_session_id (header request)) (ph_request_id (header request))) = None"
    "mn_executed_request_count n' \<noteq> mn_executed_request_count n"
    "\<forall>k e'' room. retained k e'' room n' = retained k e'' room
       (insert_cache (node_request_key (ph_session_id (header request)) (ph_request_id (header request))) e' n1)"
  have "retained k e (Suc room) n1" using e a(4) retained_same [OF a(1)] by simp
  from retained_insert [OF a(2) [THEN mp, OF ok] this a(3)] show ?thesis using a(5) by blast
qed

lemma send_events_cache: "same_cache n (snd (send_events es n))"
proof (induction es arbitrary: n)
  case (Cons e es)
  have "same_cache n (snd (encode_and_send e n))" by (simp add: send_encoded_state same_cache_def)
  then show ?case using Cons.IH [of "snd (encode_and_send e n)"]
    by (auto simp: same_cache_def split: sum.split prod.split)
qed (simp add: same_cache_def)

lemma retained_filter:
  assumes "mock_node_ok n" "retained k e room n" "P k"
  shows "retained k e room (n\<lparr>mn_cache := filter (\<lambda>e. P (fst e)) (mn_cache n),
    mn_cache_order := filter P (mn_cache_order n), mn_core := c\<rparr>)"
proof -
  obtain xs ys where order: "mn_cache_order n = xs @ k # ys" "room + length ys < mn_maximum_cached_requests n"
    using assms(2) unfolding retained_def by blast
  have "map_of (filter (\<lambda>e. P (fst e)) (mn_cache n)) k = Some e"
    using assms mock_node_okD(8) [OF assms(1)] by (auto simp: retained_def distinct_map_filter)
  moreover have "filter P (mn_cache_order n) = filter P xs @ k # filter P ys" using order(1) assms(3) by simp
  moreover have "room + length (filter P ys) < mn_maximum_cached_requests n"
    using order(2) length_filter_le [of P ys] by linarith
  ultimately show ?thesis unfolding retained_def by simp blast
qed

lemma retained_step:
  assumes "node_step ev n n'" "mock_node_ok n" "ev \<noteq> NE_Clear (key_session k)"
    and "retained k e (room + (if mn_executed_request_count n' = mn_executed_request_count n then 0 else 1)) n"
  shows "retained k e room n'"
  using assms
proof (induction rule: node_step.induct)
  case (node_frame stream frame now n r n')
  define n1 where "n1 = n\<lparr>mn_reassembler := snd (accept stream frame now (mn_reassembler n))\<rparr>"
  have same: "same_cache n n1" by (simp add: n1_def same_cache_def)
  have ok: "mock_node_ok n1" unfolding n1_def using mock_node_okD(3,4) [OF node_frame(2)]
    by (intro mock_node_ok_reassembler [OF node_frame(2)]) (simp_all add: accept_ok)
  have count: "mn_executed_request_count n1 = mn_executed_request_count n" using same by (simp add: same_cache_def)
  from handle_frame_cases [OF node_frame(1)] consider
    "n' = n1" | request where "process_request request now n1 = (r, n')"
    unfolding n1_def by blast
  then show ?case
  proof cases
    case 1
    then show ?thesis using node_frame(4) retained_same [OF same] count by simp
  next
    case 2
    then show ?thesis using retained_process [OF ok 2] node_frame(4) retained_same [OF same] count by simp
  qed
next
  case (node_request request now n r n')
  then show ?case using retained_process by blast
next
  case (node_heartbeat n x n')
  have "same_cache n n'" using node_heartbeat(1) send_encoded_state(2) [of "heartbeat_packet n" n]
    by (simp add: make_heartbeat_def same_cache_def)
  then show ?case using node_heartbeat(4) retained_same [of n n'] by (simp add: same_cache_def)
next
  case (node_poll i n y n')
  have "same_cache (n\<lparr>mn_core := c\<rparr>) n'" if "send_events es (n\<lparr>mn_core := c\<rparr>) = (y, n')" for es c
    using send_events_cache [of "n\<lparr>mn_core := c\<rparr>" es] that by simp
  then have "same_cache n n'" using node_poll(1)
    by (auto simp: node_poll_uart_events_def same_cache_def split: prod.splits sum.splits)
  then show ?case using node_poll(4) retained_same [of n n'] by (simp add: same_cache_def)
next
  case (node_expires now n i n')
  then have "same_cache n n'" by (auto simp: node_expire_def same_cache_def split_beta Let_def)
  then show ?case using node_expires(4) retained_same [of n n'] by (simp add: same_cache_def)
next
  case (node_clear s n i n')
  have n': "n' = n\<lparr>mn_cache := filter (\<lambda>e. key_session (fst e) \<noteq> s) (mn_cache n),
      mn_cache_order := filter (\<lambda>k. key_session k \<noteq> s) (mn_cache_order n), mn_core := snd (release_session s (mn_core n))\<rparr>"
    using node_clear(1) by (auto simp: clear_session_def Let_def split_beta)
  show ?case using node_clear(3,4) unfolding n'
    by (intro retained_filter [OF node_clear(2)]) auto
next
  case (node_world n c)
  then show ?case by (simp add: retained_def)
qed

text \<open>
  Runs of a node in which session \<open>s\<close> is not cleared, with the number of requests executed on the
  way; the node's own counter tells which steps execute one.
\<close>

inductive node_run :: "u32 \<Rightarrow> nat \<Rightarrow> mock_node \<Rightarrow> mock_node \<Rightarrow> bool" for s where
  run_start: "node_run s 0 n n"
| run_step: "node_run s j n n1 \<Longrightarrow> node_step ev n1 n2 \<Longrightarrow> ev \<noteq> NE_Clear s \<Longrightarrow>
    i = j + (if mn_executed_request_count n2 = mn_executed_request_count n1 then 0 else 1) \<Longrightarrow>
    node_run s i n n2"

lemma retained_run:
  "node_run s j n n' \<Longrightarrow> mock_node_ok n \<Longrightarrow> s = key_session k \<Longrightarrow> retained k e (room + j) n \<Longrightarrow>
   mock_node_ok n' \<and> retained k e room n'"
proof (induction arbitrary: room rule: node_run.induct)
  case (run_start n)
  then show ?case by simp
next
  case (run_step j n n1 ev n2 i)
  let ?d = "if mn_executed_request_count n2 = mn_executed_request_count n1 then 0 else 1 :: nat"
  have "retained k e ((room + ?d) + j) n" using run_step.prems(3) run_step.hyps(4) by (simp add: ac_simps)
  from run_step.IH [OF run_step.prems(1,2) this] have n1: "mock_node_ok n1" "retained k e (room + ?d) n1"
    by blast+
  show ?case
    using node_step_ok [OF run_step.hyps(2) n1(1)] retained_step [OF run_step.hyps(2) n1(1) _ n1(2)]
      run_step.hyps(3) run_step.prems(2) by blast
qed

lemma process_mtu: "process_request request now n = (r, n') \<Longrightarrow> mn_mtu n' = mn_mtu n"
proof (cases "map_of (mn_cache n) (node_request_key (ph_session_id (header request)) (ph_request_id (header request)))")
  case None
  assume p: "process_request request now n = (r, n')"
  obtain x n1 where resp: "respond request now n = (x, n1)" by (cases "respond request now n")
  then show ?thesis using p respond_fields(1) [OF resp] unfolding process_new [OF None] resp
    by (auto simp: send_encoded_state executed_def split: sum.splits option.splits)
next
  case (Some e)
  assume "process_request request now n = (r, n')"
  then show ?thesis unfolding process_repeated [OF Some]
    by (auto simp: send_encoded_state split: if_splits)
qed

lemma send_events_mtu: "mn_mtu (snd (send_events es n)) = mn_mtu n"
proof (induction es arbitrary: n)
  case (Cons e es)
  have "mn_mtu (snd (encode_and_send e n)) = mn_mtu n" by (simp add: send_encoded_state)
  then show ?case using Cons.IH [of "snd (encode_and_send e n)"]
    by (auto split: sum.split prod.split)
qed simp

lemma step_mtu: "node_step ev n n' \<Longrightarrow> mn_mtu n' = mn_mtu n"
proof (induction rule: node_step.induct)
  case (node_frame stream frame now n r n')
  then show ?case using handle_frame_cases [OF node_frame(1)] process_mtu by fastforce
next
  case (node_request request now n r n')
  then show ?case by (rule process_mtu)
next
  case (node_heartbeat n x n')
  then show ?case using send_encoded_state(2) [of "heartbeat_packet n" n] by (simp add: make_heartbeat_def)
next
  case (node_poll i n y n')
  have "mn_mtu n' = mn_mtu n" if "send_events es (n\<lparr>mn_core := c\<rparr>) = (y, n')" for es c
    using send_events_mtu [of es "n\<lparr>mn_core := c\<rparr>"] that by simp
  then show ?case using node_poll by (auto simp: node_poll_uart_events_def split: prod.splits sum.splits)
qed (auto simp: node_expire_def clear_session_def Let_def split_beta)

lemma run_mtu: "node_run s j n n' \<Longrightarrow> mn_mtu n' = mn_mtu n"
  by (induction rule: node_run.induct) (auto dest: step_mtu)

subsection \<open>Answering\<close>

lemma sent_frames:
  "fst (send_encoded bs n) = Inr sent \<Longrightarrow> fragmenter_split (mn_mtu n) bs (nr_transfer_id sent) = Inr (nr_frames sent)"
  by (auto simp: send_encoded_def split_beta try_bind_Inr_iff map_error_def split: sum.splits)

lemma encoded_splittable:
  assumes "encode p = Inr bs" "5 < mtu" "mtu \<le> 68"
  shows "splittable mtu bs"
proof -
  have "encodable p" using encode_Inr_encodable [OF assms(1)] .
  then have "0 < length bs" "length bs \<le> kMaximumPacketSize"
    using encode_length [OF assms(1)] encode_length_le [OF assms(1)] by simp_all
  then show ?thesis using assms(2,3) by (simp add: splittable_def)
qed

text \<open>A request that the node has not seen is executed, and its response fits the frames.\<close>

lemma process_executes:
  assumes ok: "mock_node_ok n" and mtu: "mn_mtu n \<le> 68"
    and new: "map_of (mn_cache n) (node_request_key (ph_session_id (header request)) (ph_request_id (header request))) = None"
    and cmd: "ph_command (header request) \<noteq> command_code DiscoveryRequest"
      "ph_command (header request) \<noteq> command_code NodeAssign"
    and req: "ph_message_type (header request) = message_type_code Request"
      "ph_version (header request) = kProtocolVersion"
  shows "\<exists>p c bs sent n'. handle request now (mn_core n) = (Inr p, c) \<and> answers request p \<and>
    encode p = Inr bs \<and> process_request request now n = (Inr (Some sent), n') \<and> mn_core n' = c \<and>
    fragmenter_split (mn_mtu n) bs (nr_transfer_id sent) = Inr (nr_frames sent)"
proof -
  obtain p c where p: "handle request now (mn_core n) = (Inr p, c)" "answers request p"
    using handle_ok [OF mock_node_okD(1,2) [OF ok] req, of now] by (auto simp: step_ok_def)
  obtain bs where bs: "encode p = Inr bs" using answers_encodable [OF p(2)] by blast
  have resp: "respond request now n = (Inr (Some p), n\<lparr>mn_core := c\<rparr>)"
    using cmd p(1) by (simp add: respond_def)
  let ?n = "executed request bs (n\<lparr>mn_core := c\<rparr>)"
  have m: "mn_mtu ?n = mn_mtu n" "mn_core ?n = c" by (simp_all add: executed_def)
  have "5 < mn_mtu n" using mock_node_okD(3,4) [OF ok] by (simp add: reassembler_ok_def kFragmentHeaderSize_def)
  from fragmenter_split_Inr [OF encoded_splittable [OF bs this mtu]]
  obtain sent where sent: "fst (send_encoded bs ?n) = Inr sent"
    by (simp add: send_encoded_def split_beta map_error_def m)
  have "process_request request now n = (Inr (Some sent), snd (send_encoded bs ?n))"
    using process_new [OF new, of now] resp bs sent by simp
  then show ?thesis using p bs sent_frames [OF sent] m by (auto simp: send_encoded_state)
qed

subsection \<open>A small node\<close>

definition demo_node :: mock_node where
  "demo_node = \<lparr>mn_core = demo_leased, mn_mtu = 40,
     mn_reassembler = \<lparr>ra_mtu = 40, ra_timeout = ms 5, ra_transfers = []\<rparr>, mn_node_id = 9,
     mn_maximum_cached_requests = 2, mn_next_outbound_transfer_id = 1, mn_cache = [],
     mn_cache_order = [], mn_executed_request_count = 0, mn_cached_response_count = 0\<rparr>"

lemma demo_node_reachable: "node_reachable demo_node"
proof (rule node_new)
  show "mock_node_new demo_leased 40 9 (ms 5) 2 = Inr demo_node"
    by (simp add: mock_node_new_def fragmenter_new_def reassembler_new_def validate_mtu_def
        kFragmentHeaderSize_def demo_node_def ms_def)
qed (simp_all add: demo_reachable_cores)

subsection \<open>Properties\<close>

text \<open>
  The request cache of a reachable node is consistent: it holds at most the configured number of
  responses, its eviction order lists exactly the cached keys without repetition, every entry is
  filed under the session and request id of its request and holds an encoded packet, and the next
  transfer id is never 0.
\<close>

theorem cache_consistent:
  assumes "node_reachable n"
  shows "length (mn_cache n) \<le> mn_maximum_cached_requests n \<and>
    length (mn_cache_order n) = length (mn_cache n) \<and> distinct (mn_cache_order n) \<and>
    set (mn_cache_order n) = set (hkeys (mn_cache n)) \<and> mn_next_outbound_transfer_id n \<noteq> 0 \<and>
    (\<forall>k e. map_of (mn_cache n) k = Some e \<longrightarrow>
       k = node_request_key (ph_session_id (header (cq_request e))) (ph_request_id (header (cq_request e))) \<and>
       (\<exists>p. decode (cq_encoded_response e) = Inr p))"
proof -
  note ok = node_reachable_ok [OF assms]
  have "\<exists>p. decode bs = Inr p" if "encode q = Inr bs" for q bs
    using packet_wire.dec_enc [OF that] by blast
  then have "k = node_request_key (ph_session_id (header (cq_request e))) (ph_request_id (header (cq_request e))) \<and>
      (\<exists>p. decode (cq_encoded_response e) = Inr p)" if "map_of (mn_cache n) k = Some e" for k e
    using mock_node_okD(11) [OF ok that] by blast
  then show ?thesis using mock_node_okD(5-10) [OF ok] order_length [OF ok] by blast
qed

lemma resend:
  assumes "5 < mn_mtu n" "fragmenter_split (mn_mtu n) bs tid = Inr frames"
  shows "\<exists>sent. fst (send_encoded bs n) = Inr sent"
proof -
  have "splittable (mn_mtu n) bs" using fragmenter_split_Inl [OF assms(1), of bs tid] assms(2) by auto
  from fragmenter_split_Inr [OF this] show ?thesis by (simp add: send_encoded_def split_beta map_error_def)
qed

theorem cache_consistent_witness:
  "length (mn_cache demo_node) \<le> 2 \<and> mn_next_outbound_transfer_id demo_node \<noteq> 0"
  using cache_consistent [OF demo_node_reachable] by (simp add: demo_node_def)

text \<open>
  C18. Requests are executed at most once: after a node executed a request, whatever happens short of
  clearing its session, a repetition of the request that comes before as many further requests were
  executed as the cache can hold is answered with the frames of the very same response, and neither
  the core nor the count of executed requests changes.
\<close>

theorem retry_not_executed:
  assumes "node_reachable n" and "process_request request now n = (Inr (Some first_reply), n1)"
    and "map_of (mn_cache n) (node_request_key (ph_session_id (header request)) (ph_request_id (header request))) = None"
    and "node_run (ph_session_id (header request)) j n1 n2" "j < mn_maximum_cached_requests n"
    and "same_request request again"
  shows "\<exists>bs second_reply n3. process_request again later n2 = (Inr (Some second_reply), n3) \<and>
    fragmenter_split (mn_mtu n) bs (nr_transfer_id first_reply) = Inr (nr_frames first_reply) \<and>
    fragmenter_split (mn_mtu n) bs (nr_transfer_id second_reply) = Inr (nr_frames second_reply) \<and>
    mn_core n3 = mn_core n2 \<and> mn_executed_request_count n3 = mn_executed_request_count n2"
proof -
  let ?k = "node_request_key (ph_session_id (header request)) (ph_request_id (header request))"
  note ok = node_reachable_ok [OF assms(1)]
  obtain x n0 where resp: "respond request now n = (x, n0)" by (cases "respond request now n")
  obtain response bs where bs: "x = Inr (Some response)" "encode response = Inr bs"
    "fst (send_encoded bs (executed request bs n0)) = Inr first_reply"
    "n1 = snd (send_encoded bs (executed request bs n0))"
    using assms(2) unfolding process_new [OF assms(3)] resp
    by (auto simp: try_bind_Inr_iff split: sum.splits option.splits)
  have ok0: "mock_node_ok n0" by (rule respond_ok [OF ok resp])
  have none: "map_of (mn_cache n0) ?k = None" using assms(3) respond_fields(5) [OF resp] by simp
  have max: "mn_maximum_cached_requests n0 = mn_maximum_cached_requests n" using respond_fields [OF resp] by simp
  have "retained ?k (new_entry request bs) (0 + j) (executed request bs n0)"
    unfolding executed_def using ok0 none assms(5) max by (intro retained_own) simp_all
  then have "retained ?k (new_entry request bs) (0 + j) n1" unfolding bs(4) send_encoded_state
    by (simp add: retained_def)
  moreover have "mock_node_ok n1" using process_ok [OF ok assms(2)] .
  ultimately have n2: "mock_node_ok n2" "map_of (mn_cache n2) ?k = Some (new_entry request bs)"
    using retained_run [OF assms(4), of ?k "new_entry request bs" 0]
    by (simp_all add: retained_def del: map_of_eq_Some_iff)
  have mtu: "mn_mtu n2 = mn_mtu n" using run_mtu [OF assms(4)] process_mtu [OF assms(2)] by simp
  have first: "fragmenter_split (mn_mtu n) bs (nr_transfer_id first_reply) = Inr (nr_frames first_reply)"
    using sent_frames [OF bs(3)] respond_fields(1) [OF resp] by (simp add: executed_def)
  have "5 < mn_mtu n2" using mock_node_okD(3,4) [OF n2(1)] by (simp add: reassembler_ok_def kFragmentHeaderSize_def)
  then obtain second_reply where second: "fst (send_encoded bs n2) = Inr second_reply"
    using resend first mtu by metis
  have k: "node_request_key (ph_session_id (header again)) (ph_request_id (header again)) = ?k"
    using assms(6) by (simp add: same_request_def)
  have "process_request again later n2 = (Inr (Some second_reply),
      snd (send_encoded bs (n2\<lparr>mn_cached_response_count := mn_cached_response_count n2 + 1\<rparr>)))"
    using process_repeated [OF n2(2) [folded k], of later] assms(6) second by (simp add: new_entry_def)
  then show ?thesis
    using first sent_frames [OF second] mtu by (auto simp: send_encoded_state)
qed

theorem retry_not_executed_witness:
  "\<exists>first_reply n1 bs second_reply n3. process_request demo_create 1 demo_node = (Inr (Some first_reply), n1) \<and>
    process_request demo_create 2 n1 = (Inr (Some second_reply), n3) \<and>
    fragmenter_split 40 bs (nr_transfer_id first_reply) = Inr (nr_frames first_reply) \<and>
    fragmenter_split 40 bs (nr_transfer_id second_reply) = Inr (nr_frames second_reply) \<and>
    mn_core n3 = mn_core n1"
proof -
  have new: "map_of (mn_cache demo_node) (node_request_key (ph_session_id (header demo_create)) (ph_request_id (header demo_create))) = None"
    and demo: "mn_mtu demo_node = 40" "mn_maximum_cached_requests demo_node = 2"
    by (simp_all add: demo_node_def)
  obtain first_reply n1 where first: "process_request demo_create 1 demo_node = (Inr (Some first_reply), n1)"
    using process_executes [OF node_reachable_ok [OF demo_node_reachable] _ new, of 1] demo
    by (auto simp: demo_create_def demo_request_def default_header_def)
  show ?thesis
    using retry_not_executed [OF demo_node_reachable first new run_start, of demo_create 2] first demo
    by (auto simp: same_request_def)
qed

end
