(* ===== verification/Node_Exchange.thy ===== *)
theory Node_Exchange
  imports Node_Cache
begin

text \<open>
  A request and its response on the way through the whole stack: packet encoder, fragmenter, the
  node's reassembler, the core, and back.
\<close>

subsection \<open>Fragments in order\<close>

lemma expected_in_order:
  "i < k \<Longrightarrow> expected_results k pkt {..<i} [i..<k] =
     replicate (k - 1 - i) (InProgress, None) @ [(Complete, Some pkt)]"
proof (induction "k - i" arbitrary: i)
  case (Suc d)
  show ?case
  proof (cases "Suc i = k")
    case True
    then show ?thesis by (auto simp: expected_result_def upt_rec [of i k] lessThan_Suc [symmetric])
  next
    case False
    then have i: "Suc i < k" using Suc.prems by simp
    have neq: "{..<Suc i} \<noteq> {..<k}" using i by auto
    have IH: "expected_results k pkt {..<Suc i} [Suc i..<k] =
        replicate (k - 1 - Suc i) (InProgress, None) @ [(Complete, Some pkt)]"
      using Suc.hyps i by simp
    have d: "k - 1 - i = Suc (k - 1 - Suc i)" using i by simp
    show ?thesis using Suc.prems IH neq unfolding d
      by (simp add: expected_result_def upt_rec [of i k] lessThan_Suc [symmetric])
  qed
qed simp

lemma received_in_order:
  assumes "fragmenter_split mtu pkt tid = Inr frames"
    and "reassembler_ok ra" "ra_mtu ra = mtu" "map_of (ra_transfers ra) (transfer_key s tid) = None"
  shows "run_arrivals s frames (map (\<lambda>i. Own i now) [0..<length frames]) ra =
    replicate (length frames - 1) (Inr (InProgress, None)) @ [Inr (Complete, Some pkt)]"
proof -
  have "5 < mtu" "0 < ra_timeout ra" "hmap_ok (ra_transfers ra)"
    using assms(2,3) by (auto simp: reassembler_ok_def kFragmentHeaderSize_def)
  then have sp: "splittable mtu pkt" using fragmenter_split_Inl [of mtu pkt tid] assms(1) by auto
  then have f: "frames = map (split_frame mtu pkt tid) [0..<fragment_count mtu (length pkt)]"
    using fragmenter_split_Inr [OF sp, of tid] assms(1) by simp
  have k: "0 < fragment_count mtu (length pkt)"
    using sp fragment_count_bounds(1) [of mtu "length pkt"] by (simp add: splittable_def)
  have own: "own_indices (map (\<lambda>i. Own i now) is) = is" for "is" by (induction "is") auto
  have "list_all (arrival_ok s tid mtu frames now (ra_timeout ra)) (map (\<lambda>i. Own i now) [0..<length frames])"
    using \<open>0 < ra_timeout ra\<close> by (simp add: list_all_iff)
  from run_arrivals_correct [OF sp f assms(3) refl \<open>hmap_ok _\<close> this, of "{}"]
  have "run_arrivals s frames (map (\<lambda>i. Own i now) [0..<length frames]) ra =
      map Inr (expected_results (length frames) pkt {..<0} [0..<length frames])"
    using assms(4) k f by (simp add: own upt_conv_Cons)
  then show ?thesis using expected_in_order [of 0 "length frames" pkt] k f by simp
qed

text \<open>Frames arriving at a node, each with its time.\<close>

fun deliver ::
  "u32 \<Rightarrow> (byte list \<times> time) list \<Rightarrow> mock_node \<Rightarrow> (node_exception + node_reply option) list \<times> mock_node" where
  "deliver s [] n = ([], n)"
| "deliver s ((frame, now) # fs) n =
     (let (r, n1) = handle_frame s frame now n; (rs, n2) = deliver s fs n1 in (r # rs, n2))"

lemma deliver_in_order:
  assumes s: "splittable (mn_mtu n) pkt" and i: "i < fragment_count (mn_mtu n) (length pkt)"
    and dec: "decode pkt = Inr request"
    and ra: "ra_mtu (mn_reassembler n) = mn_mtu n" "hmap_ok (ra_transfers (mn_reassembler n))"
    and ts: "length ts = fragment_count (mn_mtu n) (length pkt) - i"
      "\<forall>t \<in> set ts. t0 \<le> t \<and> t < t0 + ra_timeout (mn_reassembler n)"
    and state: "case map_of (ra_transfers (mn_reassembler n)) (transfer_key stream tid) of
        None \<Rightarrow> i = 0 | Some t \<Rightarrow> holds (mn_mtu n) pkt tid t0 {..<i} t"
  shows "\<exists>ra'. deliver stream (zip (map (split_frame (mn_mtu n) pkt tid)
        [i..<fragment_count (mn_mtu n) (length pkt)]) ts) n =
      (replicate (fragment_count (mn_mtu n) (length pkt) - 1 - i) (Inr None) @
         [fst (process_request request (last ts) (n\<lparr>mn_reassembler := ra'\<rparr>))],
       snd (process_request request (last ts) (n\<lparr>mn_reassembler := ra'\<rparr>))) \<and>
      (reassembler_ok (mn_reassembler n) \<longrightarrow> reassembler_ok ra') \<and> ra_mtu ra' = mn_mtu n"
  using i ra ts state s
proof (induction "fragment_count (mn_mtu n) (length pkt) - i" arbitrary: i n ts)
  case 0
  then show ?case by simp
next
  case (Suc d)
  let ?mtu = "mn_mtu n" and ?ra = "mn_reassembler n"
  let ?k = "fragment_count ?mtu (length pkt)"
  let ?frame = "split_frame ?mtu pkt tid i"
  obtain t ts' where t: "ts = t # ts'" using Suc.prems(1,4) by (cases ts) auto
  have now: "t0 \<le> t" "t < t0 + ra_timeout ?ra" using Suc.prems(5) t by auto
  define ra1 where "ra1 = snd (accept stream ?frame t ?ra)"
  have st: "case map_of (ra_transfers ?ra) (transfer_key stream tid) of
        None \<Rightarrow> {..<i} = {} \<and> i = 0 | Some t \<Rightarrow> holds (ra_mtu ?ra) pkt tid t0 {..<i} t"
    using Suc.prems(2,6) by (auto split: option.splits)
  note own = accept_own [where ra = "?ra" and pkt = pkt and i = i and stream = stream and now = t
      and tid = tid and S = "{..<i}", unfolded Suc.prems(2), OF Suc.prems(7,1,3) now _ st [unfolded Suc.prems(2)]]
  have res: "fst (accept stream ?frame t ?ra) =
      Inr (if Suc i = ?k then (Complete, Some pkt) else (InProgress, None))"
    using own(1) Suc.prems(1) by (simp add: subset_eq expected_result_def lessThan_Suc [symmetric] del: One_nat_def)
  have next_state: "\<exists>t'. map_of (ra_transfers ra1) (transfer_key stream tid) = Some t' \<and>
      holds ?mtu pkt tid t0 {..<Suc i} t'"
    using own(2) Suc.prems(1) unfolding ra1_def lessThan_Suc by (simp add: subset_eq)
  have acc: "accept stream ?frame t ?ra = (Inr (if Suc i = ?k then (Complete, Some pkt) else (InProgress, None)), ra1)"
    using res by (simp add: ra1_def prod_eq_iff)
  have ra1: "ra_mtu ra1 = ?mtu" "ra_timeout ra1 = ra_timeout ?ra" "hmap_ok (ra_transfers ra1)"
    "reassembler_ok ?ra \<longrightarrow> reassembler_ok ra1"
    using Suc.prems(2,3) accept_keys accept_ok(1) by (simp_all add: ra1_def)
  show ?case
  proof (cases "Suc i = ?k")
    case True
    then have "length ts' = 0" using Suc.prems(4) t by (simp flip: True)
    then have "ts' = []" by simp
    moreover have "handle_frame stream ?frame t n = process_request request t (n\<lparr>mn_reassembler := ra1\<rparr>)"
      using acc True dec by (simp add: handle_frame_def)
    ultimately show ?thesis using True ra1 t
      by (intro exI [of _ ra1]) (simp add: upt_rec [of i ?k] split_beta Let_def flip: True)
  next
    case False
    define n1 where "n1 = n\<lparr>mn_reassembler := ra1\<rparr>"
    have h: "handle_frame stream ?frame t n = (Inr None, n1)"
      using acc False by (simp add: handle_frame_def n1_def)
    have i: "Suc i < ?k" using False Suc.prems(1) by simp
    have "\<exists>ra'. deliver stream (zip (map (split_frame (mn_mtu n1) pkt tid)
          [Suc i..<fragment_count (mn_mtu n1) (length pkt)]) ts') n1 =
        (replicate (fragment_count (mn_mtu n1) (length pkt) - 1 - Suc i) (Inr None) @
           [fst (process_request request (last ts') (n1\<lparr>mn_reassembler := ra'\<rparr>))],
         snd (process_request request (last ts') (n1\<lparr>mn_reassembler := ra'\<rparr>))) \<and>
        (reassembler_ok (mn_reassembler n1) \<longrightarrow> reassembler_ok ra') \<and> ra_mtu ra' = mn_mtu n1"
      using Suc.hyps(2) Suc.prems i ra1 next_state t
      by (intro Suc.hyps(1)) (auto simp: n1_def)
    then obtain ra' where ra': "deliver stream (zip (map (split_frame ?mtu pkt tid) [Suc i..<?k]) ts') n1 =
        (replicate (?k - 1 - Suc i) (Inr None) @
           [fst (process_request request (last ts') (n\<lparr>mn_reassembler := ra'\<rparr>))],
         snd (process_request request (last ts') (n\<lparr>mn_reassembler := ra'\<rparr>)))"
      "reassembler_ok ra1 \<longrightarrow> reassembler_ok ra'" "ra_mtu ra' = ?mtu"
      by (auto simp: n1_def)
    have "ts' \<noteq> []" using Suc.prems(4) t i by auto
    moreover have "?k - 1 - i = Suc (?k - 1 - Suc i)" using i by simp
    ultimately show ?thesis using ra' h i t ra1(4)
      by (intro exI [of _ ra']) (simp add: upt_rec [of i ?k] split_beta Let_def)
  qed
qed

subsection \<open>The exchange\<close>

text \<open>
  C19. A request reaches the core and its answer comes back: when a client's encoded request, split
  for the node's MTU, arrives frame by frame within the reassembly timeout at a reachable node that
  has not seen it, the node is silent until the last frame; then it executes the request on its core
  once, at that frame's time, and the frames it sends reassemble, on the client's side, to an encoded
  packet that answers the request.
\<close>

theorem request_answered:
  assumes n: "node_reachable n" "mn_mtu n \<le> 68"
    and req: "encode request = Inr bs" "ph_message_type (header request) = message_type_code Request"
      "ph_command (header request) \<noteq> command_code DiscoveryRequest"
      "ph_command (header request) \<noteq> command_code NodeAssign"
    and frames: "fragmenter_split (mn_mtu n) bs tid = Inr frames"
    and new: "map_of (ra_transfers (mn_reassembler n)) (transfer_key client tid) = None"
      "map_of (mn_cache n) (node_request_key (ph_session_id (header request)) (ph_request_id (header request))) = None"
    and ts: "length ts = length frames" "\<forall>t \<in> set ts. t0 \<le> t \<and> t < t0 + ra_timeout (mn_reassembler n)"
    and ra: "reassembler_reachable (mn_mtu n) timeout ra"
      "\<forall>tid'. map_of (ra_transfers ra) (transfer_key node tid') = None"
  shows "\<exists>sent n' p answer.
    deliver client (zip frames ts) n = (replicate (length frames - 1) (Inr None) @ [Inr (Some sent)], n') \<and>
    handle (sealed request) (last ts) (mn_core n) = (Inr p, mn_core n') \<and> answers request p \<and>
    encode p = Inr answer \<and> decode answer = Inr (sealed p) \<and>
    run_arrivals node (nr_frames sent) (map (\<lambda>i. Own i later) [0..<length (nr_frames sent)]) ra =
      replicate (length (nr_frames sent) - 1) (Inr (InProgress, None)) @ [Inr (Complete, Some answer)]"
proof -
  note ok = node_reachable_ok [OF n(1)]
  let ?mtu = "mn_mtu n"
  have mtu: "5 < ?mtu" using mock_node_okD(3,4) [OF ok] by (simp add: reassembler_ok_def kFragmentHeaderSize_def)
  have sp: "splittable ?mtu bs" by (rule encoded_splittable [OF req(1) mtu n(2)])
  have f: "frames = map (split_frame ?mtu bs tid) [0..<fragment_count ?mtu (length bs)]"
    using fragmenter_split_Inr [OF sp, of tid] frames by simp
  have k: "0 < fragment_count ?mtu (length bs)"
    using sp fragment_count_bounds(1) [of ?mtu "length bs"] by (simp add: splittable_def)
  have dec: "decode bs = Inr (sealed request)" by (rule packet_wire.dec_enc [OF req(1)])
  have hm: "hmap_ok (ra_transfers (mn_reassembler n))"
    using mock_node_okD(3) [OF ok] by (simp add: reassembler_ok_def)
  obtain ra' where ra': "deliver client (zip frames ts) n =
      (replicate (length frames - 1) (Inr None) @
         [fst (process_request (sealed request) (last ts) (n\<lparr>mn_reassembler := ra'\<rparr>))],
       snd (process_request (sealed request) (last ts) (n\<lparr>mn_reassembler := ra'\<rparr>)))"
    "reassembler_ok ra'" "ra_mtu ra' = ?mtu"
    using deliver_in_order [OF sp k dec mock_node_okD(4) [OF ok] hm _ ts(2), where stream = client and tid = tid] new(1)
      mock_node_okD(3) [OF ok] ts(1) f by (auto simp del: map_of_eq_Some_iff)
  let ?n = "n\<lparr>mn_reassembler := ra'\<rparr>"
  have ok': "mock_node_ok ?n" by (rule mock_node_ok_reassembler [OF ok ra'(2,3)])
  have same: "ph_command (header (sealed request)) = ph_command (header request)"
    "ph_session_id (header (sealed request)) = ph_session_id (header request)"
    "ph_request_id (header (sealed request)) = ph_request_id (header request)"
    "ph_message_type (header (sealed request)) = ph_message_type (header request)"
    "ph_version (header (sealed request)) = ph_version (header request)"
    by (simp_all add: sealed_def Let_def)
  have version: "ph_version (header request) = kProtocolVersion"
    using encode_Inr_encodable [OF req(1)] by (simp add: encodable_def packet_consts)
  obtain p c answer sent n' where x: "handle (sealed request) (last ts) (mn_core n) = (Inr p, c)"
    "answers (sealed request) p" "encode p = Inr answer"
    "process_request (sealed request) (last ts) ?n = (Inr (Some sent), n')" "mn_core n' = c"
    "fragmenter_split ?mtu answer (nr_transfer_id sent) = Inr (nr_frames sent)"
    using process_executes [OF ok', of "sealed request" "last ts"] n(2) new(2) req(2-4) version
    by (auto simp: same)
  have "answers request p" using x(2) by (simp add: answers_def same)
  moreover have "run_arrivals node (nr_frames sent) (map (\<lambda>i. Own i later) [0..<length (nr_frames sent)]) ra =
      replicate (length (nr_frames sent) - 1) (Inr (InProgress, None)) @ [Inr (Complete, Some answer)]"
    using reachable_inv [OF ra(1)] ra(2) by (intro received_in_order [OF x(6)]) simp_all
  ultimately show ?thesis using ra'(1) x(1,3-5) packet_wire.dec_enc [OF x(3)] by auto
qed

lemma demo_create_encodable: "encodable demo_create"
  by (simp add: encodable_def demo_create_def demo_request_def default_header_def packet_consts)

theorem request_answered_witness:
  "\<exists>bs frames sent n' p. encode demo_create = Inr bs \<and> fragmenter_split 40 bs 3 = Inr frames \<and>
    deliver 8 (zip frames (replicate (length frames) 1)) demo_node =
      (replicate (length frames - 1) (Inr None) @ [Inr (Some sent)], n') \<and> answers demo_create p"
proof -
  obtain bs where bs: "encode demo_create = Inr bs" using encode_eq [OF demo_create_encodable] by blast
  obtain frames where frames: "fragmenter_split 40 bs 3 = Inr frames"
    using fragmenter_split_Inr [OF encoded_splittable [OF bs, of 40]] by simp
  have demo: "mn_mtu demo_node = 40" "mn_cache demo_node = []" "ra_transfers (mn_reassembler demo_node) = []"
    "ra_timeout (mn_reassembler demo_node) = ms 5" "mn_core demo_node = demo_leased"
    by (simp_all add: demo_node_def)
  have r: "reassembler_reachable 40 5 \<lparr>ra_mtu = 40, ra_timeout = 5, ra_transfers = []\<rparr>"
    by (rule reassembler_reachable.created) (simp add: reassembler_new_def validate_mtu_def kFragmentHeaderSize_def)
  have c: "ph_message_type (header demo_create) = message_type_code Request"
    "ph_command (header demo_create) \<noteq> command_code DiscoveryRequest"
    "ph_command (header demo_create) \<noteq> command_code NodeAssign"
    by (simp_all add: demo_create_def demo_request_def default_header_def)
  show ?thesis
    using request_answered [OF demo_node_reachable _ bs c, unfolded demo, OF _ frames, of 8
        "replicate (length frames) 1" 1 5 _ 0 0, OF _ _ _ _ _ r] bs frames
    by (fastforce simp: ms_def)
qed

end
