(* ===== verification/Can_Frame.thy ===== *)
theory Can_Frame
  imports Fragmentation
begin

text \<open>
  \<^verbatim>\<open>transport/src/can_frame_codec.cpp\<close>: messages in the frames of \<^verbatim>\<open>linux/can.h\<close>, classical and FD.
  The constants and the two frame types are those of the kernel header; the payload array is a list
  of 8 or 64 bytes, and the padding fields, which stay zero, are left out.
\<close>

subsection \<open>Data\<close>

definition CAN_EFF_FLAG :: u32 where "CAN_EFF_FLAG = 0x80000000"
definition CAN_RTR_FLAG :: u32 where "CAN_RTR_FLAG = 0x40000000"
definition CAN_ERR_FLAG :: u32 where "CAN_ERR_FLAG = 0x20000000"
definition CAN_SFF_MASK :: u32 where "CAN_SFF_MASK = 0x7FF"
definition CAN_EFF_MASK :: u32 where "CAN_EFF_MASK = 0x1FFFFFFF"
definition CAN_MAX_DLEN :: nat where "CAN_MAX_DLEN = 8"
definition CANFD_MAX_DLEN :: nat where "CANFD_MAX_DLEN = 64"
definition CANFD_BRS :: byte where "CANFD_BRS = 1"

lemmas can_consts = CAN_EFF_FLAG_def CAN_RTR_FLAG_def CAN_ERR_FLAG_def CAN_SFF_MASK_def
  CAN_EFF_MASK_def CAN_MAX_DLEN_def CANFD_MAX_DLEN_def CANFD_BRS_def

record can_frame =
  cf_can_id :: u32
  cf_can_dlc :: byte
  cf_data :: "byte list"

record canfd_frame =
  cfd_can_id :: u32
  cfd_len :: byte
  cfd_flags :: byte
  cfd_data :: "byte list"

record can_message =
  cm_identifier :: u32
  cm_extended_identifier :: bool
  cm_data :: "byte list"
  cm_bit_rate_switch :: bool

datatype can_frame_error =
    CFE_PayloadTooLarge | CFE_InvalidIdentifier | CFE_InvalidLength | CFE_InvalidFlags
  | CFE_RemoteTransmissionRequest | CFE_ErrorFrame

subsection \<open>Codec\<close>

definition fd_lengths :: "nat list" where "fd_lengths = [12, 16, 20, 24, 32, 48, 64]"

definition canonical_fd_length :: "nat \<Rightarrow> nat" where
  "canonical_fd_length n =
     (if n \<le> 8 then n
      else case find (\<lambda>candidate. n \<le> candidate) fd_lengths of Some k \<Rightarrow> k | None \<Rightarrow> CANFD_MAX_DLEN)"

definition encode_identifier :: "can_message \<Rightarrow> can_frame_error + u32" where
  "encode_identifier m =
     (if cm_identifier m > (if cm_extended_identifier m then CAN_EFF_MASK else CAN_SFF_MASK)
      then Inl CFE_InvalidIdentifier
      else Inr (if cm_extended_identifier m then cm_identifier m OR CAN_EFF_FLAG else cm_identifier m))"

definition decode_identifier :: "u32 \<Rightarrow> can_frame_error + can_message" where
  "decode_identifier i =
     (if i AND CAN_ERR_FLAG \<noteq> 0 then Inl CFE_ErrorFrame
      else if i AND CAN_RTR_FLAG \<noteq> 0 then Inl CFE_RemoteTransmissionRequest
      else let extended = (i AND CAN_EFF_FLAG \<noteq> 0) in
        Inr \<lparr>cm_identifier = i AND (if extended then CAN_EFF_MASK else CAN_SFF_MASK),
             cm_extended_identifier = extended, cm_data = [], cm_bit_rate_switch = False\<rparr>)"

text \<open>\<^verbatim>\<open>std::copy\<close> into the zero-initialised array of \<open>n\<close> bytes.\<close>

definition zero_padded :: "nat \<Rightarrow> byte list \<Rightarrow> byte list" where
  "zero_padded n bs = bs @ replicate (n - length bs) 0"

definition encode_classical_frame :: "can_message \<Rightarrow> can_frame_error + can_frame" where
  "encode_classical_frame m =
     (if cm_bit_rate_switch m then Inl CFE_InvalidFlags
      else if length (cm_data m) > CAN_MAX_DLEN then Inl CFE_PayloadTooLarge
      else try_bind (encode_identifier m) (\<lambda>i. Inr
        \<lparr>cf_can_id = i, cf_can_dlc = word_of_nat (length (cm_data m)),
         cf_data = zero_padded CAN_MAX_DLEN (cm_data m)\<rparr>))"

definition decode_classical_frame :: "can_frame \<Rightarrow> can_frame_error + can_message" where
  "decode_classical_frame f =
     (if unat (cf_can_dlc f) > CAN_MAX_DLEN then Inl CFE_InvalidLength
      else try_bind (decode_identifier (cf_can_id f)) (\<lambda>m. Inr
        (m\<lparr>cm_data := take (unat (cf_can_dlc f)) (cf_data f)\<rparr>)))"

definition encode_fd_frame :: "can_message \<Rightarrow> can_frame_error + canfd_frame" where
  "encode_fd_frame m =
     (if length (cm_data m) > CANFD_MAX_DLEN then Inl CFE_PayloadTooLarge
      else try_bind (encode_identifier m) (\<lambda>i. Inr
        \<lparr>cfd_can_id = i, cfd_len = word_of_nat (canonical_fd_length (length (cm_data m))),
         cfd_flags = (if cm_bit_rate_switch m then CANFD_BRS else 0),
         cfd_data = zero_padded CANFD_MAX_DLEN (cm_data m)\<rparr>))"

definition decode_fd_frame :: "canfd_frame \<Rightarrow> can_frame_error + can_message" where
  "decode_fd_frame f =
     (if unat (cfd_len f) > CANFD_MAX_DLEN then Inl CFE_InvalidLength
      else try_bind (decode_identifier (cfd_can_id f)) (\<lambda>m. Inr
        (m\<lparr>cm_data := take (unat (cfd_len f)) (cfd_data f),
           cm_bit_rate_switch := (cfd_flags f AND CANFD_BRS \<noteq> 0)\<rparr>)))"

subsection \<open>Identifiers\<close>

lemma can_bits:
  "CAN_EFF_FLAG = 2 ^ 31" "CAN_RTR_FLAG = 2 ^ 30" "CAN_ERR_FLAG = 2 ^ 29"
  "CAN_SFF_MASK = mask 11" "CAN_EFF_MASK = mask 29"
  by (simp_all add: can_consts mask_eq_exp_minus_1)

lemma small_bits:
  fixes x :: u32
  assumes "x < 2 ^ n" "bit x m" shows "m < n"
proof (rule ccontr)
  assume "\<not> m < n"
  have "x AND mask n = x" using less_mask_eq [OF assms(1)] by simp
  then have "bit x m \<longleftrightarrow> bit (x AND mask n) m" by simp
  then show False using assms(2) \<open>\<not> m < n\<close> by (simp add: bit_and_iff bit_mask_iff)
qed

lemma mask_bounds: "x > mask 29 \<longleftrightarrow> \<not> x < 2 ^ 29" "x > mask 11 \<longleftrightarrow> \<not> x < 2 ^ 11" for x :: u32
  by (auto simp: mask_eq_exp_minus_1 word_less_nat_alt)

lemma identifier_decodes:
  assumes "encode_identifier m = Inr i"
  shows "decode_identifier i = Inr \<lparr>cm_identifier = cm_identifier m,
    cm_extended_identifier = cm_extended_identifier m, cm_data = [], cm_bit_rate_switch = False\<rparr>"
proof -
  let ?w = "if cm_extended_identifier m then 29 else 11 :: nat"
  have le: "cm_identifier m < 2 ^ ?w"
    and i: "i = (if cm_extended_identifier m then cm_identifier m OR CAN_EFF_FLAG else cm_identifier m)"
    using assms by (auto simp: encode_identifier_def can_bits(4,5) mask_bounds not_le split: if_splits)
  have high: "bit CAN_EFF_FLAG k \<longleftrightarrow> k = 31" for k
    unfolding can_bits(1) by (auto simp: bit_exp_iff simp del: power_numeral)
  have "\<not> bit (cm_identifier m) k" if "29 \<le> k" for k
    using small_bits [OF le, of k] that by (auto split: if_splits)
  then have flags: "\<not> bit i 29" "\<not> bit i 30" "bit i 31 \<longleftrightarrow> cm_extended_identifier m"
    by (auto simp: i bit_or_iff high)
  have "i AND mask ?w = cm_identifier m"
    using small_bits [OF le] by (intro bit_word_eqI) (auto simp: i bit_and_iff bit_or_iff bit_mask_iff high)
  then show ?thesis
    using flags unfolding decode_identifier_def can_bits and_exp_eq_0_iff_not_bit Let_def
    by (auto split: if_splits)
qed

lemma identifier_ok:
  "(\<exists>i. encode_identifier m = Inr i) \<longleftrightarrow>
   cm_identifier m < 2 ^ (if cm_extended_identifier m then 29 else 11)"
  by (auto simp: encode_identifier_def can_bits mask_bounds)

subsection \<open>Lengths\<close>

lemma canonical_fd_length_ge: "n \<le> 64 \<Longrightarrow> n \<le> canonical_fd_length n"
  by (auto simp: canonical_fd_length_def fd_lengths_def)

lemma canonical_fd_length_in: "canonical_fd_length n \<in> {..8} \<union> set fd_lengths"
  by (auto simp: canonical_fd_length_def fd_lengths_def CANFD_MAX_DLEN_def)

lemma canonical_fd_length_le: "canonical_fd_length n \<le> 64"
  by (auto simp: canonical_fd_length_def fd_lengths_def CANFD_MAX_DLEN_def)

lemma take_zero_padded:
  "length bs \<le> k \<Longrightarrow> k \<le> n \<Longrightarrow> take k (zero_padded n bs) = bs @ replicate (k - length bs) 0"
  by (auto simp: zero_padded_def min_def)

definition identifier_in_range :: "can_message \<Rightarrow> bool" where
  "identifier_in_range m \<longleftrightarrow> cm_identifier m < 2 ^ (if cm_extended_identifier m then 29 else 11)"

lemma classical_roundtrip:
  assumes "\<not> cm_bit_rate_switch m" "length (cm_data m) \<le> 8" "identifier_in_range m"
  shows "\<exists>f. encode_classical_frame m = Inr f \<and> decode_classical_frame f = Inr m"
proof -
  obtain i where i: "encode_identifier m = Inr i" using assms(3) identifier_ok [of m] by (auto simp: identifier_in_range_def)
  have "unat (word_of_nat (length (cm_data m)) :: byte) = length (cm_data m)"
    using assms(2) by (simp add: unat_of_nat_small)
  then show ?thesis
    using assms(1,2) i identifier_decodes [OF i]
    by (simp add: encode_classical_frame_def decode_classical_frame_def CAN_MAX_DLEN_def take_zero_padded)
qed

lemma fd_roundtrip:
  assumes "length (cm_data m) \<le> 64" "identifier_in_range m"
  shows "\<exists>f. encode_fd_frame m = Inr f \<and> unat (cfd_len f) = canonical_fd_length (length (cm_data m)) \<and>
    decode_fd_frame f = Inr (m\<lparr>cm_data := cm_data m @
      replicate (canonical_fd_length (length (cm_data m)) - length (cm_data m)) 0\<rparr>)"
proof -
  obtain i where i: "encode_identifier m = Inr i" using assms(2) identifier_ok [of m] by (auto simp: identifier_in_range_def)
  let ?n = "canonical_fd_length (length (cm_data m))"
  have n: "?n \<le> 64" "length (cm_data m) \<le> ?n"
    by (rule canonical_fd_length_le) (rule canonical_fd_length_ge [OF assms(1)])
  then have "unat (word_of_nat ?n :: byte) = ?n" by (simp add: unat_of_nat_small)
  then show ?thesis
    using assms(1) i identifier_decodes [OF i] n
    by (auto simp: encode_fd_frame_def decode_fd_frame_def CANFD_MAX_DLEN_def CANFD_BRS_def take_zero_padded)
qed

subsection \<open>Properties\<close>

text \<open>
  C20. The CAN codec carries exactly the messages that fit: a classical frame is made for a message
  without rate switch, of at most 8 bytes and with an identifier of 11 or 29 bits, and gives it
  back; an FD frame is made for at most 64 bytes, has one of the lengths a controller accepts, and
  gives the message back with zeros up to that length. Every other message is refused.
\<close>

theorem can_frames_roundtrip:
  "(if \<not> cm_bit_rate_switch m \<and> length (cm_data m) \<le> 8 \<and> identifier_in_range m
    then \<exists>f. encode_classical_frame m = Inr f \<and> decode_classical_frame f = Inr m
    else \<exists>e. encode_classical_frame m = Inl e) \<and>
   (if length (cm_data m) \<le> 64 \<and> identifier_in_range m
    then \<exists>f n. encode_fd_frame m = Inr f \<and> unat (cfd_len f) = length (cm_data m) + n \<and>
      unat (cfd_len f) \<in> {..8} \<union> set fd_lengths \<and>
      decode_fd_frame f = Inr (m\<lparr>cm_data := cm_data m @ replicate n 0\<rparr>)
    else \<exists>e. encode_fd_frame m = Inl e)"
proof -
  have bad: "\<exists>e. encode_identifier m = Inl e" if "\<not> identifier_in_range m"
    using that identifier_ok [of m] by (cases "encode_identifier m") (auto simp: identifier_in_range_def)
  have "\<exists>e. encode_classical_frame m = Inl e"
    if "\<not> (\<not> cm_bit_rate_switch m \<and> length (cm_data m) \<le> 8 \<and> identifier_in_range m)"
    using that bad by (auto simp: encode_classical_frame_def CAN_MAX_DLEN_def)
  moreover have "\<exists>e. encode_fd_frame m = Inl e" if "\<not> (length (cm_data m) \<le> 64 \<and> identifier_in_range m)"
    using that bad by (auto simp: encode_fd_frame_def CANFD_MAX_DLEN_def)
  moreover have "\<exists>f n. encode_fd_frame m = Inr f \<and> unat (cfd_len f) = length (cm_data m) + n \<and>
      unat (cfd_len f) \<in> {..8} \<union> set fd_lengths \<and>
      decode_fd_frame f = Inr (m\<lparr>cm_data := cm_data m @ replicate n 0\<rparr>)"
    if fits: "length (cm_data m) \<le> 64" "identifier_in_range m"
  proof -
    obtain f where f: "encode_fd_frame m = Inr f" "unat (cfd_len f) = canonical_fd_length (length (cm_data m))"
      "decode_fd_frame f = Inr (m\<lparr>cm_data := cm_data m @
        replicate (canonical_fd_length (length (cm_data m)) - length (cm_data m)) 0\<rparr>)"
      using fd_roundtrip [OF fits] by blast
    then show ?thesis
      using canonical_fd_length_ge [OF fits(1)] canonical_fd_length_in [of "length (cm_data m)"]
      by (intro exI [of _ f] exI [of _ "canonical_fd_length (length (cm_data m)) - length (cm_data m)"]) simp
  qed
  ultimately show ?thesis using classical_roundtrip [of m] by simp
qed

text \<open>
  Fragments survive the bus: a fragment encoded for an MTU of at most 8 sent in a classical
  frame, and one encoded for the MTU 64 sent in an FD frame, decode at the receiver to the same
  fragment, padding and all.
\<close>

theorem fragment_over_can:
  assumes "encode_fragment fr mtu = Inr bs" "mtu \<le> 8 \<or> mtu = 64"
    and "m = \<lparr>cm_identifier = i, cm_extended_identifier = x, cm_data = bs, cm_bit_rate_switch = (mtu = 64)\<rparr>"
    and "identifier_in_range m"
  shows "\<exists>m'. (if mtu = 64 then try_bind (encode_fd_frame m) decode_fd_frame
      else try_bind (encode_classical_frame m) decode_classical_frame) = Inr m' \<and>
    decode_fragment (cm_data m') mtu = Inr fr"
proof -
  have len: "length bs \<le> mtu"
    using encode_fragment_length [OF assms(1)] assms(1) by (simp add: encode_fragment_iff frame_ok_def)
  show ?thesis
  proof (cases "mtu = 64")
    case True
    let ?n = "canonical_fd_length (length bs)"
    obtain f where f: "encode_fd_frame m = Inr f"
      "decode_fd_frame f = Inr (m\<lparr>cm_data := bs @ replicate (?n - length bs) 0\<rparr>)"
      using fd_roundtrip [OF _ assms(4)] len True by (auto simp: assms(3))
    have "length bs + (?n - length bs) \<le> mtu" using canonical_fd_length_le [of "length bs"] len True by simp
    from decode_padded [OF assms(1) this] show ?thesis using f True by simp
  next
    case False
    then have "\<exists>f. encode_classical_frame m = Inr f \<and> decode_classical_frame f = Inr m"
      using assms(2,4) len by (intro classical_roundtrip) (auto simp: assms(3))
    then show ?thesis using False decode_padded [OF assms(1), of 0] len by (auto simp: assms(3))
  qed
qed

theorem fragment_over_can_witness:
  "\<exists>bs m'. encode_fragment \<lparr>fr_transfer_id = 9, fr_sequence = 0, fr_flags = 3, fr_payload = [7, 8, 9, 10]\<rparr> 64 = Inr bs \<and>
    try_bind (encode_fd_frame \<lparr>cm_identifier = 0x123, cm_extended_identifier = False, cm_data = bs,
      cm_bit_rate_switch = True\<rparr>) decode_fd_frame = Inr m' \<and>
    decode_fragment (cm_data m') 64 =
      Inr \<lparr>fr_transfer_id = 9, fr_sequence = 0, fr_flags = 3, fr_payload = [7, 8, 9, 10]\<rparr>"
proof -
  let ?fr = "\<lparr>fr_transfer_id = 9, fr_sequence = 0, fr_flags = 3, fr_payload = [7, 8, 9, 10]\<rparr>"
  have "frame_ok 64 ?fr" by (simp add: frame_ok_def bit_numeral_rec)
  then obtain bs where bs: "encode_fragment ?fr 64 = Inr bs" by (auto simp: encode_fragment_iff)
  show ?thesis
    using fragment_over_can [OF bs _ refl, where i = "0x123" and x = False] bs by (auto simp: identifier_in_range_def)
qed

end
