(* ===== verification/Traffic_Control.thy ===== *)
theory Traffic_Control
  imports Complex_Main "HOL-Library.Log_Nat" Packet
begin

text \<open>
  \<^verbatim>\<open>toolbusd/include/remotebsp/toolbusd/traffic_control.hpp\<close> and \<^verbatim>\<open>toolbusd/src/traffic_control.cpp\<close>:
  how long a CAN frame occupies the bus, and the token buckets that limit the share of the bus each
  traffic class gets.

  The code computes the buckets in \<^verbatim>\<open>long double\<close>. Here they are rational numbers, and every
  floating-point operation is followed by a rounding \<open>rnd\<close>, the first argument of the definitions
  that compute with them: the rounding of the machine. What the properties need of it are named
  hypotheses. Wire times are natural numbers; the one addition that could leave 64 bits is guarded
  by the code.
\<close>

subsection \<open>Data\<close>

datatype traffic_bus_mode = TB_Classical | TB_CanFd

datatype traffic_class =
  TC_Safety | TC_Motion | TC_System | TC_Interactive | TC_Streaming | TC_Bulk | TC_Count

fun traffic_class_index :: "traffic_class \<Rightarrow> nat" where
  "traffic_class_index TC_Safety = 0"
| "traffic_class_index TC_Motion = 1"
| "traffic_class_index TC_System = 2"
| "traffic_class_index TC_Interactive = 3"
| "traffic_class_index TC_Streaming = 4"
| "traffic_class_index TC_Bulk = 5"
| "traffic_class_index TC_Count = 6"

definition kTrafficClassCount :: nat where "kTrafficClassCount = traffic_class_index TC_Count"

record traffic_config =
  tf_mode :: traffic_bus_mode
  tf_arbitration_bits_per_second :: u32
  tf_data_bits_per_second :: u32
  tf_maximum_utilization_permille :: u16
  tf_burst_window :: int
  tf_class_limit_permille :: "u16 list"

record can_frame_cost =
  fc_nominal_phase_bits :: u16
  fc_data_phase_bits :: u16
  fc_wire_time_ns :: nat
  fc_wire_payload_length :: byte

datatype traffic_error = TE_InvalidConfiguration | TE_InvalidFrameLength

record traffic_class_counters =
  cc_admitted_packets :: u64
  cc_rejected_packets :: u64
  cc_admitted_frames :: u64
  cc_estimated_wire_time_ns :: u64

record traffic_snapshot =
  ts_version :: u16
  ts_mode :: traffic_bus_mode
  ts_arbitration_bits_per_second :: u32
  ts_data_bits_per_second :: u32
  ts_maximum_utilization_permille :: u16
  ts_burst_window_ms :: u32
  ts_global_capacity_ns :: u64
  ts_global_available_ns :: u64
  ts_admitted_packets :: u64
  ts_rejected_packets :: u64
  ts_guaranteed_overruns :: u64
  ts_admitted_frames :: u64
  ts_estimated_wire_time_ns :: u64
  ts_classes :: "traffic_class_counters list"

datatype admission_policy = AP_Enforce | AP_Guaranteed

record bucket =
  bu_available_ns :: rat
  bu_capacity_ns :: rat
  bu_refill_permille :: u16

record traffic_controller =
  tc_config :: traffic_config
  tc_last_refill :: time
  tc_global :: bucket
  tc_classes :: "bucket list"
  tc_counters :: traffic_snapshot

subsection \<open>Frame costs\<close>

definition divide_round_up :: "nat \<Rightarrow> nat \<Rightarrow> nat" where
  "divide_round_up numerator denominator =
     numerator div denominator + (if numerator mod denominator \<noteq> 0 then 1 else 0)"

definition wire_fd_length :: "nat \<Rightarrow> traffic_error + nat" where
  "wire_fd_length n =
     (if n \<le> 8 then Inr n
      else case find (\<lambda>candidate. n \<le> candidate) [12, 16, 20, 24, 32, 48, 64] of
          Some k \<Rightarrow> Inr k | None \<Rightarrow> Inl TE_InvalidFrameLength)"

definition class_index :: "traffic_class \<Rightarrow> traffic_error + nat" where
  "class_index c =
     (if traffic_class_index c \<ge> kTrafficClassCount then Inl TE_InvalidConfiguration
      else Inr (traffic_class_index c))"

definition estimate_can_frame_cost ::
  "traffic_bus_mode \<Rightarrow> nat \<Rightarrow> u32 \<Rightarrow> u32 \<Rightarrow> bool \<Rightarrow> traffic_error + can_frame_cost" where
  "estimate_can_frame_cost mode payload_length arbitration data_rate bit_rate_switch =
     (if arbitration = 0 \<or> data_rate = 0 then Inl TE_InvalidConfiguration
      else if mode = TB_Classical
      then if payload_length > 8 then Inl TE_InvalidFrameLength
           else let stuffed_region_bits = 34 + payload_length * 8;
                    stuff_bits = (if stuffed_region_bits = 0 then 0 else (stuffed_region_bits - 1) div 4);
                    total_bits = 47 + payload_length * 8 + stuff_bits
                in Inr \<lparr>fc_nominal_phase_bits = word_of_nat total_bits, fc_data_phase_bits = 0,
                     fc_wire_time_ns = divide_round_up (total_bits * 1000000000) (unat arbitration),
                     fc_wire_payload_length = word_of_nat payload_length\<rparr>
      else try_bind (wire_fd_length payload_length) (\<lambda>wire_length.
        let crc_bits = (if wire_length \<le> 16 then 17 else 21);
            raw_data_phase_bits = wire_length * 8 + crc_bits;
            data_phase_bits = raw_data_phase_bits + divide_round_up raw_data_phase_bits 4 + 4;
            nominal_phase_bits = 43;
            effective_data_rate = (if bit_rate_switch then data_rate else arbitration)
        in Inr \<lparr>fc_nominal_phase_bits = word_of_nat nominal_phase_bits,
             fc_data_phase_bits = word_of_nat data_phase_bits,
             fc_wire_time_ns = divide_round_up (nominal_phase_bits * 1000000000) (unat arbitration) +
               divide_round_up (data_phase_bits * 1000000000) (unat effective_data_rate),
             fc_wire_payload_length = word_of_nat wire_length\<rparr>))"

definition classify_traffic :: "packet \<Rightarrow> traffic_class" where
  "classify_traffic p =
     (let code = ph_command (header p) in
      if code \<in> {command_code DiscoveryRequest, command_code DiscoveryResponse,
                  command_code NodeAssign, command_code Heartbeat} then TC_System
      else if code \<in> {command_code UartWrite, command_code UartRxEvent} then TC_Streaming
      else if code \<in> {command_code MotionEnqueue, command_code MotionStatus} then TC_Motion
      else if code = command_code MotionAbort then TC_Safety
      else if code \<in> {command_code BootloaderEnter, command_code BootloaderEnterUsb} then TC_Bulk
      else TC_Interactive)"

fun traffic_class_name :: "traffic_class \<Rightarrow> string" where
  "traffic_class_name TC_Safety = ''safety''"
| "traffic_class_name TC_Motion = ''motion''"
| "traffic_class_name TC_System = ''system''"
| "traffic_class_name TC_Interactive = ''interactive''"
| "traffic_class_name TC_Streaming = ''streaming''"
| "traffic_class_name TC_Bulk = ''bulk''"
| "traffic_class_name TC_Count = ''unknown''"

subsection \<open>The controller\<close>

definition new_bucket :: "(rat \<Rightarrow> rat) \<Rightarrow> int \<Rightarrow> u16 \<Rightarrow> bucket" where
  "new_bucket rnd window_ns limit =
     (let capacity = rnd (rnd (rnd (rat_of_int window_ns) * rat_of_nat (unat limit)) / 1000)
      in \<lparr>bu_available_ns = capacity, bu_capacity_ns = capacity, bu_refill_permille = limit\<rparr>)"

fun new_buckets :: "(rat \<Rightarrow> rat) \<Rightarrow> int \<Rightarrow> u16 list \<Rightarrow> traffic_error + bucket list" where
  "new_buckets rnd window_ns [] = Inr []"
| "new_buckets rnd window_ns (limit # limits) =
     (if limit = 0 \<or> limit > 1000 then Inl TE_InvalidConfiguration
      else try_bind (new_buckets rnd window_ns limits) (\<lambda>bs. Inr (new_bucket rnd window_ns limit # bs)))"

text \<open>\<^verbatim>\<open>static_cast<std::uint64_t>\<close> of a floating-point number truncates.\<close>

definition truncated :: "rat \<Rightarrow> u64" where "truncated x = word_of_int \<lfloor>x\<rfloor>"

definition traffic_controller_new ::
  "(rat \<Rightarrow> rat) \<Rightarrow> traffic_config \<Rightarrow> time \<Rightarrow> traffic_error + traffic_controller" where
  "traffic_controller_new rnd config now =
     (if tf_arbitration_bits_per_second config = 0 \<or> tf_data_bits_per_second config = 0 \<or>
         tf_maximum_utilization_permille config = 0 \<or> tf_maximum_utilization_permille config > 1000 \<or>
         tf_burst_window config \<le> 0
      then Inl TE_InvalidConfiguration
      else let window_ns = ms (tf_burst_window config);
               global = new_bucket rnd window_ns (tf_maximum_utilization_permille config)
        in try_bind (new_buckets rnd window_ns (tf_class_limit_permille config)) (\<lambda>classes. Inr
          \<lparr>tc_config = config, tc_last_refill = now, tc_global = global, tc_classes = classes,
           tc_counters = \<lparr>ts_version = 1, ts_mode = tf_mode config,
             ts_arbitration_bits_per_second = tf_arbitration_bits_per_second config,
             ts_data_bits_per_second = tf_data_bits_per_second config,
             ts_maximum_utilization_permille = tf_maximum_utilization_permille config,
             ts_burst_window_ms = word_of_int (tf_burst_window config),
             ts_global_capacity_ns = truncated (bu_capacity_ns global),
             ts_global_available_ns = truncated (bu_capacity_ns global),
             ts_admitted_packets = 0, ts_rejected_packets = 0, ts_guaranteed_overruns = 0,
             ts_admitted_frames = 0, ts_estimated_wire_time_ns = 0,
             ts_classes = replicate kTrafficClassCount
               \<lparr>cc_admitted_packets = 0, cc_rejected_packets = 0, cc_admitted_frames = 0,
                cc_estimated_wire_time_ns = 0\<rparr>\<rparr>\<rparr>))"

definition refill_bucket :: "(rat \<Rightarrow> rat) \<Rightarrow> int \<Rightarrow> bucket \<Rightarrow> bucket" where
  "refill_bucket rnd elapsed_ns b =
     b\<lparr>bu_available_ns := min (bu_capacity_ns b)
         (rnd (bu_available_ns b +
            rnd (rnd (rnd (rat_of_int elapsed_ns) * rat_of_nat (unat (bu_refill_permille b))) / 1000)))\<rparr>"

definition traffic_refill :: "(rat \<Rightarrow> rat) \<Rightarrow> time \<Rightarrow> traffic_controller \<Rightarrow> traffic_controller" where
  "traffic_refill rnd now t =
     (if now \<le> tc_last_refill t then t
      else let elapsed_ns = now - tc_last_refill t
        in t\<lparr>tc_global := refill_bucket rnd elapsed_ns (tc_global t),
             tc_classes := map (refill_bucket rnd elapsed_ns) (tc_classes t),
             tc_last_refill := now\<rparr>)"

fun total_wire_time :: "traffic_config \<Rightarrow> nat list \<Rightarrow> nat \<Rightarrow> traffic_error + nat" where
  "total_wire_time config [] acc = Inr acc"
| "total_wire_time config (n # ns) acc =
     try_bind (estimate_can_frame_cost (tf_mode config) n (tf_arbitration_bits_per_second config)
         (tf_data_bits_per_second config) True) (\<lambda>cost.
       if acc > 2 ^ 64 - 1 - fc_wire_time_ns cost then Inl TE_InvalidFrameLength
       else total_wire_time config ns (acc + fc_wire_time_ns cost))"

definition charge :: "(rat \<Rightarrow> rat) \<Rightarrow> nat \<Rightarrow> bucket \<Rightarrow> bucket" where
  "charge rnd wire_time_ns b =
     b\<lparr>bu_available_ns := max 0 (rnd (bu_available_ns b - rnd (rat_of_nat wire_time_ns)))\<rparr>"

definition admit ::
  "(rat \<Rightarrow> rat) \<Rightarrow> traffic_class \<Rightarrow> nat list \<Rightarrow> admission_policy \<Rightarrow> time \<Rightarrow> traffic_controller \<Rightarrow>
   (traffic_error + bool) \<times> traffic_controller" where
  "admit rnd c lengths policy now t =
     (case class_index c of
        Inl e \<Rightarrow> (Inl e, t)
      | Inr i \<Rightarrow>
          let t1 = traffic_refill rnd now t in
          (case total_wire_time (tc_config t1) lengths 0 of
             Inl e \<Rightarrow> (Inl e, t1)
           | Inr wire_time_ns \<Rightarrow>
               let b = tc_classes t1 ! i;
                   n = tc_counters t1;
                   k = ts_classes n ! i;
                   fits = (bu_available_ns (tc_global t1) \<ge> rnd (rat_of_nat wire_time_ns) \<and>
                           bu_available_ns b \<ge> rnd (rat_of_nat wire_time_ns));
                   frames = word_of_nat (length lengths);
                   wire = word_of_nat wire_time_ns
               in if \<not> fits \<and> policy = AP_Enforce
                  then (Inr False, t1\<lparr>tc_counters := n\<lparr>ts_rejected_packets := ts_rejected_packets n + 1,
                          ts_classes := (ts_classes n)[i := k\<lparr>cc_rejected_packets := cc_rejected_packets k + 1\<rparr>]\<rparr>\<rparr>)
                  else (Inr True, t1\<lparr>tc_global := charge rnd wire_time_ns (tc_global t1),
                          tc_classes := (tc_classes t1)[i := charge rnd wire_time_ns b],
                          tc_counters := n\<lparr>
                            ts_guaranteed_overruns := ts_guaranteed_overruns n + (if fits then 0 else 1),
                            ts_admitted_packets := ts_admitted_packets n + 1,
                            ts_admitted_frames := ts_admitted_frames n + frames,
                            ts_estimated_wire_time_ns := ts_estimated_wire_time_ns n + wire,
                            ts_classes := (ts_classes n)[i := k\<lparr>
                              cc_admitted_packets := cc_admitted_packets k + 1,
                              cc_admitted_frames := cc_admitted_frames k + frames,
                              cc_estimated_wire_time_ns := cc_estimated_wire_time_ns k + wire\<rparr>]\<rparr>\<rparr>)))"

definition traffic_snapshot_at ::
  "(rat \<Rightarrow> rat) \<Rightarrow> time \<Rightarrow> traffic_controller \<Rightarrow> traffic_snapshot \<times> traffic_controller" where
  "traffic_snapshot_at rnd now t =
     (let t1 = traffic_refill rnd now t;
          n = (tc_counters t1)\<lparr>ts_global_available_ns := truncated (bu_available_ns (tc_global t1))\<rparr>
      in (n, t1\<lparr>tc_counters := n\<rparr>))"

subsection \<open>Bit stuffing\<close>

text \<open>
  The bus standard: after five equal bits the sender inserts the opposite one, which starts a new
  run. \<open>last_bit\<close> has been sent \<open>run\<close> times in a row.
\<close>

fun stuff_run :: "bool \<Rightarrow> nat \<Rightarrow> bool list \<Rightarrow> bool list" where
  "stuff_run last_bit run [] = []"
| "stuff_run last_bit run (b # bs) =
     (if b \<noteq> last_bit then b # stuff_run b 1 bs
      else if run + 1 = 5 then b # (\<not> b) # stuff_run (\<not> b) 1 bs
      else b # stuff_run b (run + 1) bs)"

fun stuffed :: "bool list \<Rightarrow> bool list" where
  "stuffed [] = []"
| "stuffed (b # bs) = b # stuff_run b 1 bs"

lemma stuff_run_length:
  "1 \<le> run \<Longrightarrow> run \<le> 4 \<Longrightarrow> 4 * length (stuff_run b run bs) + 1 \<le> 5 * length bs + run"
proof (induction b run bs rule: stuff_run.induct)
  case (2 last_bit run b bs)
  consider "b \<noteq> last_bit" | "b = last_bit" "run = 4" | "b = last_bit" "run \<noteq> 4" by blast
  then show ?case
  proof cases
    case 1
    then show ?thesis using 2 by simp
  next
    case 2
    then show ?thesis using "2.IH"(2) by simp
  next
    case 3
    then show ?thesis using "2.IH"(3) "2.prems" by simp
  qed
qed simp

lemma stuffed_length: "length (stuffed bs) \<le> length bs + (length bs - 1) div 4"
proof (cases bs)
  case (Cons b bs')
  have "4 * length (stuff_run b 1 bs') \<le> 5 * length bs'" using stuff_run_length [of 1 b bs'] by simp
  then have "length (stuff_run b 1 bs') \<le> length bs' + length bs' div 4" by linarith
  then show ?thesis by (simp add: Cons)
qed simp

lemma divide_round_up_ge: "0 < d \<Longrightarrow> n \<le> divide_round_up n d * d"
proof -
  assume "0 < d"
  then have "n mod d < d" by simp
  moreover have "n = n div d * d + n mod d" by simp
  moreover have "divide_round_up n d * d = n div d * d + (if n mod d \<noteq> 0 then d else 0)"
    by (simp add: divide_round_up_def algebra_simps)
  moreover have "n mod d \<le> (if n mod d \<noteq> 0 then d else 0)" using calculation(1) by auto
  ultimately show ?thesis by linarith
qed

subsection \<open>Buckets\<close>

text \<open>
  A rounding of the machine: monotone, exact on 0 and on its own results. Its error is at most the part
  \<open>u\<close> of the value, and at most \<open>tiny\<close> more where the exponent has ended; this is asked only up to
  2^128, far below the largest value of the format. For \<^verbatim>\<open>long double\<close> with 64 bits of significand \<open>u\<close> is
  2^-63 and \<open>tiny\<close> below 2^-16000.
\<close>

definition rounding :: "rat \<Rightarrow> rat \<Rightarrow> (rat \<Rightarrow> rat) \<Rightarrow> bool" where
  "rounding u tiny rnd \<longleftrightarrow> mono rnd \<and> rnd 0 = 0 \<and> (\<forall>x. rnd (rnd x) = rnd x) \<and>
     0 \<le> u \<and> u \<le> 1 / 2 \<and> 0 \<le> tiny \<and> tiny \<le> 1 \<and> (\<forall>x. 0 \<le> x \<and> x \<le> 2 ^ 128 \<longrightarrow> \<bar>rnd x - x\<bar> \<le> u * x + tiny)"

lemma roundingD:
  assumes "rounding u tiny rnd"
  shows "x \<le> y \<Longrightarrow> rnd x \<le> rnd y" "rnd 0 = 0" "rnd (rnd x) = rnd x"
    "0 \<le> x \<Longrightarrow> x \<le> B \<Longrightarrow> B \<le> 2 ^ 128 \<Longrightarrow> rnd x \<le> x + (u * B + tiny)"
    "0 \<le> x \<Longrightarrow> x \<le> B \<Longrightarrow> B \<le> 2 ^ 128 \<Longrightarrow> x \<le> rnd x + (u * B + tiny)"
    "0 \<le> u" "u \<le> 1 / 2" "0 \<le> tiny" "tiny \<le> 1"
proof -
  show "x \<le> y \<Longrightarrow> rnd x \<le> rnd y" using assms by (simp add: rounding_def monoD)
  show "rnd 0 = 0" "rnd (rnd x) = rnd x" and u: "0 \<le> u" and "u \<le> 1 / 2" "0 \<le> tiny" "tiny \<le> 1"
    using assms by (simp_all add: rounding_def)
  have err: "\<bar>rnd x - x\<bar> \<le> u * B + tiny" if x: "0 \<le> x" "x \<le> B" "B \<le> 2 ^ 128"
  proof -
    have "x \<le> 2 ^ 128" using x(2,3) by linarith
    then have "\<bar>rnd x - x\<bar> \<le> u * x + tiny" using assms x(1) by (simp add: rounding_def)
    moreover have "u * x \<le> u * B" using x(2) u by (rule mult_left_mono)
    ultimately show ?thesis by linarith
  qed
  show "0 \<le> x \<Longrightarrow> x \<le> B \<Longrightarrow> B \<le> 2 ^ 128 \<Longrightarrow> rnd x \<le> x + (u * B + tiny)"
    "0 \<le> x \<Longrightarrow> x \<le> B \<Longrightarrow> B \<le> 2 ^ 128 \<Longrightarrow> x \<le> rnd x + (u * B + tiny)"
    using err by (simp_all add: abs_le_iff)
qed

text \<open>
  The largest error of a single rounding in the arithmetic of a bucket, whose values stay below 2048
  capacities: what matters of a refill that is longer is only that it fills the bucket.
\<close>

definition slack :: "rat \<Rightarrow> rat \<Rightarrow> bucket \<Rightarrow> rat" where
  "slack u tiny b = u * (2048 * bu_capacity_ns b + 2048) + tiny"

definition bucket_ok :: "(rat \<Rightarrow> rat) \<Rightarrow> bucket \<Rightarrow> bool" where
  "bucket_ok rnd b \<longleftrightarrow> 0 \<le> bu_available_ns b \<and> bu_available_ns b \<le> bu_capacity_ns b \<and>
     rnd (bu_available_ns b) = bu_available_ns b \<and> rnd (bu_capacity_ns b) = bu_capacity_ns b \<and>
     bu_refill_permille b \<noteq> 0 \<and> bu_refill_permille b \<le> 1000"

lemma rounding_nonneg: "rounding u tiny rnd \<Longrightarrow> 0 \<le> x \<Longrightarrow> 0 \<le> rnd x"
  using roundingD(1) [of u tiny rnd 0 x] roundingD(2) [of u tiny rnd] by simp

lemma slack_nonneg: "rounding u tiny rnd \<Longrightarrow> bucket_ok rnd b \<Longrightarrow> 0 \<le> slack u tiny b"
  using roundingD(6,8) [of u tiny rnd] by (simp add: slack_def bucket_ok_def)

lemma unsigned_nonneg [simp]: "0 \<le> (unsigned w :: rat)"
proof -
  have "(unsigned w :: rat) = rat_of_nat (unat w)" by simp
  then show ?thesis by (metis of_nat_0_le_iff)
qed

lemma new_bucket_ok:
  "rounding u tiny rnd \<Longrightarrow> 0 \<le> window_ns \<Longrightarrow> limit \<noteq> 0 \<Longrightarrow> limit \<le> 1000 \<Longrightarrow> bucket_ok rnd (new_bucket rnd window_ns limit)"
  by (simp add: bucket_ok_def new_bucket_def Let_def roundingD(3) rounding_nonneg)

lemma refill_bucket_ok:
  assumes r: "rounding u tiny rnd" and b: "bucket_ok rnd b" and "0 \<le> elapsed"
  shows "bucket_ok rnd (refill_bucket rnd elapsed b)"
proof -
  have "0 \<le> rnd (bu_available_ns b + rnd (rnd (rnd (rat_of_int elapsed) * rat_of_nat (unat (bu_refill_permille b))) / 1000))"
    using assms by (intro rounding_nonneg [OF r] add_nonneg_nonneg) (auto simp: bucket_ok_def intro!: rounding_nonneg [OF r] mult_nonneg_nonneg)
  then show ?thesis using b roundingD(3) [OF r] by (auto simp: bucket_ok_def refill_bucket_def min_def)
qed

lemma charge_ok:
  assumes r: "rounding u tiny rnd" and b: "bucket_ok rnd b"
  shows "bucket_ok rnd (charge rnd w b)"
proof -
  have "rnd (bu_available_ns b - rnd (rat_of_nat w)) \<le> rnd (bu_available_ns b)"
    using rounding_nonneg [OF r, of "rat_of_nat w"] by (intro roundingD(1) [OF r]) simp
  also have "\<dots> \<le> bu_capacity_ns b" using b by (simp add: bucket_ok_def)
  finally show ?thesis using b roundingD(2,3) [OF r] by (auto simp: bucket_ok_def charge_def max_def)
qed

lemma refill_bucket_gain:
  assumes r: "rounding u tiny rnd" and b: "bucket_ok rnd b" and el: "0 \<le> elapsed" and small: "bu_capacity_ns b \<le> 2 ^ 100"
  shows "bu_available_ns (refill_bucket rnd elapsed b) \<le>
    bu_available_ns b + rat_of_int elapsed * rat_of_nat (unat (bu_refill_permille b)) / 1000 + 4 * slack u tiny b"
proof -
  let ?el = "rat_of_int elapsed" and ?p = "rat_of_nat (unat (bu_refill_permille b))"
    and ?cap = "bu_capacity_ns b" and ?av = "bu_available_ns b"
  define e where "e = slack u tiny b"
  define B where "B = 2048 * ?cap + 2048"
  have av: "0 \<le> ?av" "?av \<le> ?cap" using b by (simp_all add: bucket_ok_def)
  have e0: "0 \<le> e" using slack_nonneg [OF r b] by (simp add: e_def)
  show ?thesis
  proof (cases "?cap \<le> ?el * ?p / 1000")
    case True
    then have "bu_available_ns (refill_bucket rnd elapsed b) \<le> ?av + ?el * ?p / 1000 + 4 * e"
      using av e0 by (simp add: refill_bucket_def min_le_iff_disj)
    then show ?thesis by (simp add: e_def)
  next
    case False
    have p: "1 \<le> ?p" "?p \<le> 1000"
    proof -
      have "unat (bu_refill_permille b) \<le> 1000" "1 \<le> unat (bu_refill_permille b)"
        using b unat_gt_0 [of "bu_refill_permille b"] by (simp_all add: bucket_ok_def word_le_nat_alt)
      then have "?p \<le> rat_of_nat 1000" "rat_of_nat 1 \<le> ?p" by (simp_all only: of_nat_le_iff)
      then show "1 \<le> ?p" "?p \<le> 1000" by simp_all
    qed
    have el0: "0 \<le> ?el" using el by simp
    have B: "B \<le> 2 ^ 128" using small by (simp add: B_def)
    note up = roundingD(4) [OF r _ _ B, folded B_def]
    note up = up [unfolded B_def, folded slack_def, folded e_def]
    have rel: "rnd x \<le> 2 * x + 1" if "0 \<le> x" "x \<le> 2 ^ 128" for x
      using roundingD(4) [OF r that(1) order_refl that(2)] mult_right_mono [OF roundingD(7) [OF r] that(1)] roundingD(9) [OF r]
        that(1) by linarith
    have c1: "?el * ?p < 1000 * ?cap" using False by simp
    have "?el * 1 \<le> ?el * ?p" using p(1) el0 by (rule mult_left_mono)
    then have elB: "?el \<le> 1000 * ?cap" using c1 by linarith
    let ?x1 = "rnd ?el" and ?x2 = "rnd (rnd ?el * ?p)" and ?x3 = "rnd (rnd (rnd ?el * ?p) / 1000)"
    have x1: "0 \<le> ?x1" "?x1 \<le> ?el + e" "?x1 \<le> 2 * ?el + 1"
      using rounding_nonneg [OF r el0] up [OF el0] rel [OF el0] elB av small by (simp_all add: B_def)
    have "?x1 * ?p \<le> (2 * ?el + 1) * ?p" using x1(3) p by (intro mult_right_mono) simp_all
    also have "\<dots> \<le> 2000 * ?cap + 1000" using c1 p(2) by (simp add: algebra_simps)
    finally have y1: "?x1 * ?p \<le> 2000 * ?cap + 1000" .
    have y0: "0 \<le> ?x1 * ?p" using x1(1) p(1) by simp
    have "?x1 * ?p \<le> (?el + e) * ?p" using x1(2) p(1) by (intro mult_right_mono) simp_all
    also have "\<dots> \<le> ?el * ?p + e * 1000" using mult_left_mono [OF p(2) e0] by (simp add: algebra_simps)
    finally have y2: "?x1 * ?p \<le> ?el * ?p + e * 1000" .
    have x2: "0 \<le> ?x2" "?x2 \<le> ?el * ?p + e * 1000 + e" "?x2 \<le> 4000 * ?cap + 2001"
      using rounding_nonneg [OF r y0] up [OF y0] rel [OF y0] y1 y2 av small by (simp_all add: B_def)
    have z: "0 \<le> ?x2 / 1000" "?x2 / 1000 \<le> 4 * ?cap + 3" "?x2 / 1000 \<le> ?el * ?p / 1000 + 2 * e"
      using x2 e0 by (simp_all add: field_simps)
    have x3: "0 \<le> ?x3" "?x3 \<le> ?el * ?p / 1000 + 3 * e" "?x3 \<le> 8 * ?cap + 7"
      using rounding_nonneg [OF r z(1)] up [OF z(1)] rel [OF z(1)] z(2,3) av small by (simp_all add: B_def)
    have "rnd (?av + ?x3) \<le> ?av + ?x3 + e" using up [of "?av + ?x3"] x3 av by (simp add: B_def)
    then have "bu_available_ns (refill_bucket rnd elapsed b) \<le> ?av + ?el * ?p / 1000 + 4 * e"
      using x3(2) by (simp add: refill_bucket_def min_le_iff_disj)
    then show ?thesis by (simp add: e_def)
  qed
qed

lemma charge_le: "rounding u tiny rnd \<Longrightarrow> bucket_ok rnd b \<Longrightarrow> bu_available_ns (charge rnd w b) \<le> bu_available_ns b"
  using roundingD(1) [of u tiny rnd "bu_available_ns b - rnd (rat_of_nat w)" "bu_available_ns b"]
    rounding_nonneg [of u tiny rnd "rat_of_nat w"]
  by (auto simp: charge_def bucket_ok_def)

lemma charge_spends:
  assumes r: "rounding u tiny rnd" and b: "bucket_ok rnd b" and small: "bu_capacity_ns b \<le> 2 ^ 100"
    and fits: "rnd (rat_of_nat w) \<le> bu_available_ns b"
  shows "bu_available_ns (charge rnd w b) \<le> bu_available_ns b - rat_of_nat w + 2 * slack u tiny b"
proof -
  let ?w = "rat_of_nat w" and ?cap = "bu_capacity_ns b" and ?av = "bu_available_ns b"
  define B where "B = 2048 * ?cap + 2048"
  have av: "0 \<le> ?av" "?av \<le> ?cap" using b by (simp_all add: bucket_ok_def)
  have B: "0 \<le> B" "B \<le> 2 ^ 128" using small av by (simp_all add: B_def)
  have e: "slack u tiny b = u * B + tiny" by (simp add: slack_def B_def)
  have "?w \<le> B"
  proof (rule ccontr)
    assume "\<not> ?w \<le> B"
    then have "rnd B \<le> rnd ?w" by (intro roundingD(1) [OF r]) simp
    moreover have "B \<le> rnd B + (B / 2 + 1)"
      using roundingD(5) [OF r B(1) order_refl B(2)] mult_right_mono [OF roundingD(7) [OF r] B(1)] roundingD(9) [OF r] by linarith
    moreover have "B - (B / 2 + 1) = 1024 * ?cap + 1023" by (simp add: B_def field_simps)
    ultimately have "1024 * ?cap + 1023 \<le> ?cap" using fits av by linarith
    then show False using av by linarith
  qed
  then have w: "?w \<le> rnd ?w + (u * B + tiny)" using B(2) by (intro roundingD(5) [OF r]) simp_all
  have "0 \<le> rnd ?w" using rounding_nonneg [OF r] by simp
  then have "rnd (?av - rnd ?w) \<le> ?av - rnd ?w + (u * B + tiny)"
    using fits av B by (intro roundingD(4) [OF r]) (simp_all add: B_def)
  then show ?thesis using w fits slack_nonneg [OF r b] e by (simp add: charge_def max_def)
qed

subsection \<open>Reachable controllers\<close>

inductive traffic_reachable :: "(rat \<Rightarrow> rat) \<Rightarrow> traffic_controller \<Rightarrow> bool" for rnd where
  traffic_new: "traffic_controller_new rnd config now = Inr t \<Longrightarrow>
    length (tf_class_limit_permille config) = kTrafficClassCount \<Longrightarrow> traffic_reachable rnd t"
| traffic_admit: "traffic_reachable rnd t \<Longrightarrow> traffic_reachable rnd (snd (admit rnd c lengths policy now t))"
| traffic_look: "traffic_reachable rnd t \<Longrightarrow> traffic_reachable rnd (snd (traffic_snapshot_at rnd now t))"

definition traffic_ok :: "(rat \<Rightarrow> rat) \<Rightarrow> traffic_controller \<Rightarrow> bool" where
  "traffic_ok rnd t \<longleftrightarrow> bucket_ok rnd (tc_global t) \<and> length (tc_classes t) = 6 \<and>
     (\<forall>b \<in> set (tc_classes t). bucket_ok rnd b)"

lemma new_buckets_ok:
  "new_buckets rnd window_ns limits = Inr bs \<Longrightarrow> rounding u tiny rnd \<Longrightarrow> 0 \<le> window_ns \<Longrightarrow>
   length bs = length limits \<and> (\<forall>b \<in> set bs. bucket_ok rnd b)"
  by (induction limits arbitrary: bs) (auto simp: try_bind_Inr_iff new_bucket_ok not_less split: if_splits)

lemma traffic_refill_ok:
  "rounding u tiny rnd \<Longrightarrow> traffic_ok rnd t \<Longrightarrow> traffic_ok rnd (traffic_refill rnd now t)"
  by (auto simp: traffic_ok_def traffic_refill_def Let_def refill_bucket_ok)

lemma class_index_bound: "class_index c = Inr i \<Longrightarrow> i < 6"
  by (cases c) (auto simp: class_index_def kTrafficClassCount_def)

text \<open>What a call of \<open>admit\<close> does to the buckets.\<close>

definition wire_of :: "traffic_config \<Rightarrow> nat list \<Rightarrow> nat" where
  "wire_of config lengths = (case total_wire_time config lengths 0 of Inr w \<Rightarrow> w | Inl _ \<Rightarrow> 0)"

lemma traffic_refill_config [simp]:
  "tc_config (traffic_refill rnd now t) = tc_config t" "tc_counters (traffic_refill rnd now t) = tc_counters t"
  by (simp_all add: traffic_refill_def Let_def)

abbreviation overruns :: "traffic_controller \<Rightarrow> u64" where
  "overruns t \<equiv> ts_guaranteed_overruns (tc_counters t)"

lemma admit_buckets:
  assumes "admit rnd c lengths policy now t = (r, t')"
  shows "tc_config t' = tc_config t \<and>
    (t' = t \<and> r \<noteq> Inr True \<or>
     (let t1 = traffic_refill rnd now t in tc_last_refill t' = tc_last_refill t1 \<and>
       (policy = AP_Enforce \<longrightarrow> overruns t' = overruns t) \<and>
       (if r = Inr True
        then \<exists>i. class_index c = Inr i \<and>
          tc_global t' = charge rnd (wire_of (tc_config t) lengths) (tc_global t1) \<and>
          tc_classes t' = (tc_classes t1)[i := charge rnd (wire_of (tc_config t) lengths) (tc_classes t1 ! i)] \<and>
          (overruns t' = overruns t \<longrightarrow>
             rnd (rat_of_nat (wire_of (tc_config t) lengths)) \<le> bu_available_ns (tc_global t1) \<and>
             rnd (rat_of_nat (wire_of (tc_config t) lengths)) \<le> bu_available_ns (tc_classes t1 ! i))
        else tc_global t' = tc_global t1 \<and> tc_classes t' = tc_classes t1)))"
proof (cases "class_index c")
  case (Inl e)
  then show ?thesis using assms by (auto simp: admit_def)
next
  case (Inr i)
  show ?thesis
  proof (cases "total_wire_time (tc_config t) lengths 0")
    case (Inl e)
    then show ?thesis using assms Inr by (auto simp: admit_def Let_def)
  next
    case w: (Inr w)
    then have "wire_of (tc_config t) lengths = w" by (simp add: wire_of_def)
    then show ?thesis using assms Inr w by (auto simp: admit_def Let_def split: if_splits)
  qed
qed

lemma admit_ok:
  assumes r: "rounding u tiny rnd" and t: "traffic_ok rnd t"
  shows "traffic_ok rnd (snd (admit rnd c lengths policy now t))"
proof -
  obtain x t' where a: "admit rnd c lengths policy now t = (x, t')" by (cases "admit rnd c lengths policy now t")
  let ?t1 = "traffic_refill rnd now t"
  have ok1: "traffic_ok rnd ?t1" by (rule traffic_refill_ok [OF r t])
  have "traffic_ok rnd t'"
    using admit_buckets [OF a] t ok1 class_index_bound [of c]
    by (auto simp: traffic_ok_def Let_def charge_ok [OF r] split: if_splits
        dest!: set_update_subset_insert [THEN subsetD])
  then show ?thesis by (simp add: a)
qed

lemma traffic_reachable_ok:
  assumes r: "rounding u tiny rnd" and "traffic_reachable rnd t"
  shows "traffic_ok rnd t"
  using assms(2)
proof induction
  case (traffic_new config now t)
  have "bucket_ok rnd (new_bucket rnd (ms (tf_burst_window config)) (tf_maximum_utilization_permille config))"
    if "tf_maximum_utilization_permille config \<noteq> 0" "\<not> tf_maximum_utilization_permille config > 1000" "0 < tf_burst_window config"
    using that by (intro new_bucket_ok [OF r]) (auto simp: not_less ms_def)
  then show ?case using traffic_new
    by (auto simp: traffic_controller_new_def Let_def try_bind_Inr_iff traffic_ok_def kTrafficClassCount_def
        ms_def dest!: new_buckets_ok [OF _ r] split: if_splits)
next
  case (traffic_admit t c lengths policy now)
  then show ?case using admit_ok [OF r] by blast
next
  case (traffic_look t now)
  then show ?case using traffic_refill_ok [OF r, of t now]
    by (simp add: traffic_snapshot_at_def Let_def traffic_ok_def)
qed

subsection \<open>What a sequence of admissions spends\<close>

text \<open>
  The calls of the daemon in any order: requests under the enforcing policy, repetitions and assignments
  under the guaranteeing one, and queries of the status. \<open>traffic_run\<close> gives the admitted packets;
  \<open>ad_overrun\<close> says that the controller counted the packet as an overrun.
\<close>

datatype traffic_op = TO_Admit traffic_class "nat list" admission_policy time | TO_Look time

record admission =
  ad_class :: traffic_class
  ad_wire :: nat
  ad_policy :: admission_policy
  ad_overrun :: bool

fun traffic_op_run ::
  "(rat \<Rightarrow> rat) \<Rightarrow> traffic_op \<Rightarrow> traffic_controller \<Rightarrow> admission list \<times> traffic_controller" where
  "traffic_op_run rnd (TO_Admit c lengths policy now) t =
     (let (r, t1) = admit rnd c lengths policy now t
      in (if r = Inr True then [\<lparr>ad_class = c, ad_wire = wire_of (tc_config t) lengths, ad_policy = policy,
            ad_overrun = (overruns t1 \<noteq> overruns t)\<rparr>] else [], t1))"
| "traffic_op_run rnd (TO_Look now) t = ([], snd (traffic_snapshot_at rnd now t))"

fun traffic_run ::
  "(rat \<Rightarrow> rat) \<Rightarrow> traffic_op list \<Rightarrow> traffic_controller \<Rightarrow> admission list \<times> traffic_controller" where
  "traffic_run rnd [] t = ([], t)"
| "traffic_run rnd (x # xs) t =
     (let (ads, t1) = traffic_op_run rnd x t; (bs, t2) = traffic_run rnd xs t1 in (ads @ bs, t2))"

text \<open>The wire time of the admitted packets that were no overruns and that \<open>P\<close> asks for.\<close>

definition regular_wire :: "(traffic_class \<Rightarrow> bool) \<Rightarrow> admission list \<Rightarrow> nat" where
  "regular_wire P ads = sum_list (map ad_wire (filter (\<lambda>a. P (ad_class a) \<and> \<not> ad_overrun a) ads))"

lemma regular_wire_simps [simp]:
  "regular_wire P [] = 0" "regular_wire P (ads @ bs) = regular_wire P ads + regular_wire P bs"
  "regular_wire P [a] = (if P (ad_class a) \<and> \<not> ad_overrun a then ad_wire a else 0)"
  by (simp_all add: regular_wire_def)

text \<open>The bucket of a class, or the global one, and what an admission to \<open>c\<close> takes from it.\<close>

fun view :: "nat option \<Rightarrow> traffic_controller \<Rightarrow> bucket" where
  "view None t = tc_global t"
| "view (Some i) t = tc_classes t ! i"

fun takes :: "nat option \<Rightarrow> traffic_class \<Rightarrow> bool" where
  "takes None c \<longleftrightarrow> True"
| "takes (Some i) c \<longleftrightarrow> class_index c = Inr i"

definition viewable :: "nat option \<Rightarrow> bool" where
  "viewable j \<longleftrightarrow> (\<forall>i. j = Some i \<longrightarrow> i < 6)"

lemma view_ok: "traffic_ok rnd t \<Longrightarrow> viewable j \<Longrightarrow> bucket_ok rnd (view j t)"
  by (cases j) (auto simp: traffic_ok_def viewable_def)

text \<open>What may be gained between two states: the share of the time between them, and roundings.\<close>

definition share :: "nat option \<Rightarrow> traffic_controller \<Rightarrow> traffic_controller \<Rightarrow> rat" where
  "share j t t' = rat_of_int (tc_last_refill t' - tc_last_refill t) *
     rat_of_nat (unat (bu_refill_permille (view j t))) / 1000"

definition same_limits :: "nat option \<Rightarrow> traffic_controller \<Rightarrow> traffic_controller \<Rightarrow> bool" where
  "same_limits j t t' \<longleftrightarrow> bu_refill_permille (view j t') = bu_refill_permille (view j t) \<and>
     bu_capacity_ns (view j t') = bu_capacity_ns (view j t)"

lemma view_refill:
  assumes r: "rounding u tiny rnd" and t: "traffic_ok rnd t" and j: "viewable j"
    and small: "bu_capacity_ns (view j t) \<le> 2 ^ 100"
  shows "bu_available_ns (view j (traffic_refill rnd now t)) \<le>
      bu_available_ns (view j t) + share j t (traffic_refill rnd now t) + 4 * slack u tiny (view j t)"
    and "same_limits j t (traffic_refill rnd now t)"
proof -
  have view: "view j (traffic_refill rnd now t) = refill_bucket rnd (now - tc_last_refill t) (view j t)"
    if "\<not> now \<le> tc_last_refill t"
    using that t j by (cases j) (auto simp: traffic_refill_def Let_def traffic_ok_def viewable_def)
  show "bu_available_ns (view j (traffic_refill rnd now t)) \<le>
      bu_available_ns (view j t) + share j t (traffic_refill rnd now t) + 4 * slack u tiny (view j t)"
  proof (cases "now \<le> tc_last_refill t")
    case True
    then show ?thesis using slack_nonneg [OF r view_ok [OF t j]] by (simp add: traffic_refill_def share_def)
  next
    case False
    then show ?thesis
      using refill_bucket_gain [OF r view_ok [OF t j] _ small, of "now - tc_last_refill t"] view
      by (simp add: traffic_refill_def Let_def share_def)
  qed
  show "same_limits j t (traffic_refill rnd now t)"
    using view by (cases "now \<le> tc_last_refill t") (simp_all add: traffic_refill_def refill_bucket_def same_limits_def)
qed

lemma admit_spends:
  assumes r: "rounding u tiny rnd" and t: "traffic_ok rnd t" and j: "viewable j"
    and small: "bu_capacity_ns (view j t) \<le> 2 ^ 100"
    and a: "admit rnd c lengths policy now t = (x, t')"
  shows "bu_available_ns (view j t') +
      (if x = Inr True \<and> takes j c \<and> overruns t' = overruns t then rat_of_nat (wire_of (tc_config t) lengths) else 0) \<le>
    bu_available_ns (view j t) + share j t t' + 6 * slack u tiny (view j t)"
    and "same_limits j t t'"
proof -
  let ?w = "wire_of (tc_config t) lengths" and ?t1 = "traffic_refill rnd now t"
  note gain = view_refill [OF r t j small, of now] and e0 = slack_nonneg [OF r view_ok [OF t j]]
  have ok1: "traffic_ok rnd ?t1" by (rule traffic_refill_ok [OF r t])
  note view1 = view_ok [OF ok1 j]
  have cap: "slack u tiny (view j ?t1) = slack u tiny (view j t)" "bu_capacity_ns (view j ?t1) \<le> 2 ^ 100"
    using gain(2) small by (simp_all add: same_limits_def slack_def)
  consider "t' = t" "x \<noteq> Inr True"
    | "tc_last_refill t' = tc_last_refill ?t1" "x \<noteq> Inr True" "view j t' = view j ?t1"
    | "tc_last_refill t' = tc_last_refill ?t1" "x = Inr True" "\<not> takes j c" "view j t' = view j ?t1"
    | "tc_last_refill t' = tc_last_refill ?t1" "x = Inr True" "takes j c" "view j t' = charge rnd ?w (view j ?t1)"
      "overruns t' = overruns t \<longrightarrow> rnd (rat_of_nat ?w) \<le> bu_available_ns (view j ?t1)"
    using admit_buckets [OF a] j ok1
    by (cases j) (auto simp: Let_def viewable_def traffic_ok_def nth_list_update split: if_splits, blast+)
  note step = this
  have time: "share j t t' = share j t ?t1" if "tc_last_refill t' = tc_last_refill ?t1" using that by (simp add: share_def)
  show "bu_available_ns (view j t') +
      (if x = Inr True \<and> takes j c \<and> overruns t' = overruns t then rat_of_nat ?w else 0) \<le>
    bu_available_ns (view j t) + share j t t' + 6 * slack u tiny (view j t)"
  proof (rule step)
    assume s: "tc_last_refill t' = tc_last_refill ?t1" "x = Inr True" "takes j c" "view j t' = charge rnd ?w (view j ?t1)"
      "overruns t' = overruns t \<longrightarrow> rnd (rat_of_nat ?w) \<le> bu_available_ns (view j ?t1)"
    show ?thesis
    proof (cases "overruns t' = overruns t")
      case True
      then show ?thesis using charge_spends [OF r view1 cap(2), of ?w] s gain(1) time by (simp add: cap(1))
    next
      case False
      then show ?thesis using charge_le [OF r view1, of ?w] s gain(1) time e0 by simp
    qed
  qed (use gain(1) e0 time in \<open>auto simp: share_def\<close>)
  show "same_limits j t t'"
    by (rule step) (use gain(2) in \<open>auto simp: charge_def same_limits_def\<close>)
qed

lemma op_spends:
  assumes r: "rounding u tiny rnd" and t: "traffic_ok rnd t" and j: "viewable j"
    and small: "bu_capacity_ns (view j t) \<le> 2 ^ 100" and run: "traffic_op_run rnd x t = (ads, t')"
  shows "bu_available_ns (view j t') + rat_of_nat (regular_wire (takes j) ads) \<le>
      bu_available_ns (view j t) + share j t t' + 6 * slack u tiny (view j t)"
    and "same_limits j t t'" and "traffic_ok rnd t'"
    and "\<forall>a \<in> set ads. ad_policy a = AP_Enforce \<longrightarrow> \<not> ad_overrun a"
proof -
  have "bu_available_ns (view j t') + rat_of_nat (regular_wire (takes j) ads) \<le>
      bu_available_ns (view j t) + share j t t' + 6 * slack u tiny (view j t) \<and> same_limits j t t' \<and>
      traffic_ok rnd t' \<and> (\<forall>a \<in> set ads. ad_policy a = AP_Enforce \<longrightarrow> \<not> ad_overrun a)"
  proof (cases x)
    case (TO_Admit c lengths policy now)
    obtain y t1 where a: "admit rnd c lengths policy now t = (y, t1)" by fastforce
    then have t': "t' = t1" "ads = (if y = Inr True then [\<lparr>ad_class = c, ad_wire = wire_of (tc_config t) lengths,
        ad_policy = policy, ad_overrun = (overruns t1 \<noteq> overruns t)\<rparr>] else [])"
      using run by (simp_all add: TO_Admit)
    have "traffic_ok rnd t1" using admit_ok [OF r t, of c lengths policy now] a by simp
    moreover have "policy = AP_Enforce \<Longrightarrow> overruns t1 = overruns t"
      using admit_buckets [OF a] by (auto simp: Let_def)
    ultimately show ?thesis using admit_spends [OF r t j small a] t' by (auto split: if_splits)
  next
    case (TO_Look now)
    have "view j t' = view j (traffic_refill rnd now t)" "tc_last_refill t' = tc_last_refill (traffic_refill rnd now t)"
      "traffic_ok rnd t'" "ads = []"
      using run traffic_refill_ok [OF r t, of now]
      by (cases j; auto simp: TO_Look traffic_snapshot_at_def Let_def traffic_ok_def)+
    then show ?thesis using view_refill [OF r t j small, of now] slack_nonneg [OF r view_ok [OF t j]]
      by (simp add: share_def same_limits_def)
  qed
  then show "bu_available_ns (view j t') + rat_of_nat (regular_wire (takes j) ads) \<le>
      bu_available_ns (view j t) + share j t t' + 6 * slack u tiny (view j t)"
    "same_limits j t t'" "traffic_ok rnd t'" "\<forall>a \<in> set ads. ad_policy a = AP_Enforce \<longrightarrow> \<not> ad_overrun a" by blast+
qed

lemma run_spends:
  assumes r: "rounding u tiny rnd" and j: "viewable j"
  shows "traffic_ok rnd t \<Longrightarrow> bu_capacity_ns (view j t) \<le> 2 ^ 100 \<Longrightarrow> traffic_run rnd xs t = (ads, t') \<Longrightarrow>
    bu_available_ns (view j t') + rat_of_nat (regular_wire (takes j) ads) \<le>
      bu_available_ns (view j t) + share j t t' + 6 * slack u tiny (view j t) * rat_of_nat (length xs) \<and>
    traffic_ok rnd t' \<and> (\<forall>a \<in> set ads. ad_policy a = AP_Enforce \<longrightarrow> \<not> ad_overrun a)"
proof (induction xs arbitrary: t ads)
  case Nil
  then show ?case by (simp add: share_def)
next
  case (Cons x xs)
  obtain ads1 t1 where a: "traffic_op_run rnd x t = (ads1, t1)" by fastforce
  obtain bs t2 where b: "traffic_run rnd xs t1 = (bs, t2)" by fastforce
  have run: "traffic_run rnd xs t1 = (bs, t')" and ads: "ads = ads1 @ bs" using Cons.prems(3) a b by auto
  note one = op_spends [OF r Cons.prems(1) j Cons.prems(2) a]
  have same: "slack u tiny (view j t1) = slack u tiny (view j t)" "bu_capacity_ns (view j t1) \<le> 2 ^ 100"
    "share j t1 t' = rat_of_int (tc_last_refill t' - tc_last_refill t1) *
       rat_of_nat (unat (bu_refill_permille (view j t))) / 1000"
    using one(2) Cons.prems(2) by (simp_all add: same_limits_def slack_def share_def)
  have time: "share j t t' = share j t t1 + share j t1 t'"
    unfolding same(3) by (simp add: share_def algebra_simps flip: add_divide_distrib)
  note rest = Cons.IH [OF one(3) same(2) run]
  have "6 * slack u tiny (view j t) * rat_of_nat (length (x # xs)) =
      6 * slack u tiny (view j t) + 6 * slack u tiny (view j t) * rat_of_nat (length xs)"
    by (simp add: algebra_simps)
  then show ?case using one(1,4) rest unfolding ads time same(1) by (auto simp: algebra_simps)
qed

subsection \<open>Properties\<close>

text \<open>
  C21. The cost estimate of a classical frame is never too small: whatever the bits of its stuffed
  region are, the bits that bit stuffing puts on the wire, with the 13 bits that follow the region,
  are sent within the estimated time.
\<close>

theorem classical_cost_covers:
  assumes "estimate_can_frame_cost TB_Classical n arbitration data_rate brs = Inr cost"
    and "length bits = 34 + 8 * n"
  shows "(length (stuffed bits) + 13) * 10 ^ 9 \<le> fc_wire_time_ns cost * unat arbitration"
proof -
  define total_bits where "total_bits = 47 + n * 8 + (34 + n * 8 - 1) div 4"
  have rate: "0 < unat arbitration" and cost: "fc_wire_time_ns cost = divide_round_up (total_bits * 10 ^ 9) (unat arbitration)"
    using assms(1) by (auto simp: estimate_can_frame_cost_def Let_def total_bits_def unat_gt_0 split: if_splits)
  have "length (stuffed bits) + 13 \<le> total_bits"
    using stuffed_length [of bits] assms(2) by (simp add: total_bits_def algebra_simps)
  then have "(length (stuffed bits) + 13) * 10 ^ 9 \<le> total_bits * 10 ^ 9" by simp
  also have "\<dots> \<le> divide_round_up (total_bits * 10 ^ 9) (unat arbitration) * unat arbitration"
    by (rule divide_round_up_ge [OF rate])
  finally show ?thesis by (simp add: cost)
qed

theorem classical_cost_covers_witness:
  "\<exists>cost. estimate_can_frame_cost TB_Classical 8 1000000 1000000 True = Inr cost \<and>
    (length (stuffed (replicate 98 False)) + 13) * 10 ^ 9 \<le> fc_wire_time_ns cost * 1000000"
proof -
  obtain cost where c: "estimate_can_frame_cost TB_Classical 8 1000000 1000000 True = Inr cost"
    by (simp add: estimate_can_frame_cost_def Let_def)
  show ?thesis using classical_cost_covers [OF c, of "replicate 98 False"] c by simp
qed

text \<open>
  C22. No class gets more than its share: in any sequence of requests under both policies and of
  status queries, at any times, the admitted packets that were not counted as overruns take, in all and
  for each class, at most the wire time of a full bucket plus the configured share of the time that
  passes, up to six roundings an operation; and no packet admitted under the enforcing policy is an
  overrun. Capacities are below 2^100, as \<^verbatim>\<open>window_ns\<close> has 64 bits.
\<close>

theorem enforced_share:
  assumes "rounding u tiny rnd" and "traffic_reachable rnd t" and "traffic_run rnd xs t = (ads, t')"
    and "bu_capacity_ns (tc_global t) \<le> 2 ^ 100" "\<forall>b \<in> set (tc_classes t). bu_capacity_ns b \<le> 2 ^ 100"
  defines "elapsed \<equiv> rat_of_int (tc_last_refill t' - tc_last_refill t)" and "n \<equiv> rat_of_nat (length xs)"
  shows "rat_of_nat (regular_wire (\<lambda>c. True) ads) \<le> bu_capacity_ns (tc_global t) +
      elapsed * rat_of_nat (unat (bu_refill_permille (tc_global t))) / 1000 + 6 * slack u tiny (tc_global t) * n \<and>
    (\<forall>c i. class_index c = Inr i \<longrightarrow>
      rat_of_nat (regular_wire (\<lambda>c. class_index c = Inr i) ads) \<le> bu_capacity_ns (tc_classes t ! i) +
        elapsed * rat_of_nat (unat (bu_refill_permille (tc_classes t ! i))) / 1000 + 6 * slack u tiny (tc_classes t ! i) * n) \<and>
    (\<forall>a \<in> set ads. ad_policy a = AP_Enforce \<longrightarrow> \<not> ad_overrun a)"
proof -
  have ok: "traffic_ok rnd t" by (rule traffic_reachable_ok [OF assms(1,2)])
  have bound: "rat_of_nat (regular_wire (takes j) ads) \<le> bu_capacity_ns (view j t) + share j t t' +
      6 * slack u tiny (view j t) * n \<and> (\<forall>a \<in> set ads. ad_policy a = AP_Enforce \<longrightarrow> \<not> ad_overrun a)"
    if j: "viewable j" for j
  proof -
    have small: "bu_capacity_ns (view j t) \<le> 2 ^ 100"
      using assms(4,5) ok j by (cases j) (auto simp: viewable_def traffic_ok_def)
    note run = run_spends [OF assms(1) j ok small assms(3)]
    have "0 \<le> bu_available_ns (view j t')" "bu_available_ns (view j t) \<le> bu_capacity_ns (view j t)"
      using view_ok [OF conjunct1 [OF conjunct2 [OF run]] j] view_ok [OF ok j] by (simp_all add: bucket_ok_def)
    then show ?thesis using run by (auto simp: n_def)
  qed
  have "takes None = (\<lambda>c. True)" "takes (Some i) = (\<lambda>c. class_index c = Inr i)" for i by (simp_all add: fun_eq_iff)
  then show ?thesis
    using bound [of None] bound [of "Some _"] class_index_bound by (auto simp: viewable_def share_def elapsed_def)
qed

text \<open>
  A floating-point format: 64 bits of significand for values from 1 on, fixed point below, rounding
  towards zero. A number with an integral part of \<open>k\<close> bits is cut to a multiple of \<open>2 ^ k / 2 ^ 64\<close>.
\<close>

definition unit_of :: "rat \<Rightarrow> rat" where
  "unit_of x = 2 ^ floorlog 2 (nat \<lfloor>x\<rfloor>) / 2 ^ 64"

definition cut :: "rat \<Rightarrow> rat" where
  "cut x = of_int \<lfloor>x / unit_of x\<rfloor> * unit_of x"

definition float64 :: "rat \<Rightarrow> rat" where
  "float64 x = (if x < 0 then - cut (- x) else cut x)"

lemma floorlog_below: "0 \<le> x \<Longrightarrow> x < 2 ^ floorlog 2 (nat \<lfloor>x\<rfloor>)" for x :: rat
proof (cases "nat \<lfloor>x\<rfloor> = 0")
  case True
  assume "0 \<le> x"
  then have "\<lfloor>x\<rfloor> = 0" using True by (simp add: floor_eq_iff)
  then show ?thesis by (simp add: floor_eq_iff floorlog_def)
next
  case False
  have "nat \<lfloor>x\<rfloor> < 2 ^ floorlog 2 (nat \<lfloor>x\<rfloor>)" using floorlog_bounds [of "nat \<lfloor>x\<rfloor>" 2] False by simp
  then have "\<lfloor>x\<rfloor> < 2 ^ floorlog 2 (nat \<lfloor>x\<rfloor>)" by (simp add: nat_less_iff)
  then show ?thesis by (simp add: floor_less_iff)
qed

lemma floorlog_above:
  fixes x :: rat
  assumes "floorlog 2 (nat \<lfloor>x\<rfloor>) = Suc k"
  shows "2 ^ k \<le> x"
proof -
  have pos: "nat \<lfloor>x\<rfloor> > 0" using assms by (auto simp: floorlog_def split: if_splits)
  then have "2 ^ k \<le> nat \<lfloor>x\<rfloor>" using floorlog_bounds [of "nat \<lfloor>x\<rfloor>" 2] assms by simp
  then have "2 ^ k \<le> \<lfloor>x\<rfloor>" using pos by (simp add: nat_le_iff le_nat_iff)
  then show ?thesis by (simp add: le_floor_iff)
qed

lemma cut_bounds:
  assumes "0 \<le> x"
  shows "0 \<le> cut x" "cut x \<le> x" "x < cut x + unit_of x" "0 < unit_of x"
    "floorlog 2 (nat \<lfloor>x\<rfloor>) = Suc k \<Longrightarrow> 2 ^ k \<le> cut x"
proof -
  show pos: "0 < unit_of x" by (simp add: unit_of_def)
  show "0 \<le> cut x" using assms pos by (simp add: cut_def)
  have "of_int \<lfloor>x / unit_of x\<rfloor> \<le> x / unit_of x" by (rule of_int_floor_le)
  then show "cut x \<le> x" unfolding cut_def using pos by (simp only: pos_le_divide_eq)
  have "x / unit_of x < of_int \<lfloor>x / unit_of x\<rfloor> + 1" by linarith
  then show "x < cut x + unit_of x" using pos by (simp add: cut_def pos_divide_less_eq algebra_simps)
  assume k: "floorlog 2 (nat \<lfloor>x\<rfloor>) = Suc k"
  have "rat_of_int (2 ^ 63) = 2 ^ k / unit_of x" by (simp add: unit_of_def k)
  also have "\<dots> \<le> x / unit_of x" using floorlog_above [OF k] pos by (intro divide_right_mono) simp_all
  finally have "2 ^ 63 \<le> \<lfloor>x / unit_of x\<rfloor>" by (simp only: le_floor_iff)
  then have "rat_of_int (2 ^ 63) * unit_of x \<le> cut x" unfolding cut_def using pos by (intro mult_right_mono) (simp_all only: of_int_le_iff)
  then show "2 ^ k \<le> cut x" by (simp add: unit_of_def k)
qed

lemma unit_cut:
  assumes "0 \<le> x"
  shows "unit_of (cut x) = unit_of x"
proof (cases "floorlog 2 (nat \<lfloor>x\<rfloor>)")
  case 0
  then have x: "nat \<lfloor>x\<rfloor> = 0" by (simp add: floorlog_eq_zero_iff)
  have "nat \<lfloor>cut x\<rfloor> \<le> nat \<lfloor>x\<rfloor>" using cut_bounds(2) [OF assms] by (intro nat_mono floor_mono)
  then have "nat \<lfloor>cut x\<rfloor> = nat \<lfloor>x\<rfloor>" unfolding x by (rule le_zero_eq [THEN iffD1])
  then show ?thesis unfolding unit_of_def by argo
next
  case (Suc k)
  have le: "cut x \<le> x" "2 ^ k \<le> cut x" using cut_bounds(2,5) [OF assms] Suc by blast+
  have "\<lfloor>cut x\<rfloor> \<le> \<lfloor>x\<rfloor>" using le(1) by (rule floor_mono)
  moreover have "2 ^ k \<le> \<lfloor>cut x\<rfloor>" using le(2) by (simp add: le_floor_iff)
  ultimately have "nat \<lfloor>cut x\<rfloor> \<le> nat \<lfloor>x\<rfloor>" "2 ^ k \<le> nat \<lfloor>cut x\<rfloor>" by (simp_all only: nat_mono) (simp add: le_nat_iff)
  then have "floorlog 2 (nat \<lfloor>cut x\<rfloor>) = Suc k"
    using floorlog_mono [of "nat \<lfloor>cut x\<rfloor>" "nat \<lfloor>x\<rfloor>" 2] floorlog_ge_SucI [of 2 k "nat \<lfloor>cut x\<rfloor>"] Suc by simp
  then show ?thesis by (simp add: unit_of_def Suc)
qed

lemma cut_mono: "0 \<le> x \<Longrightarrow> x \<le> y \<Longrightarrow> cut x \<le> cut y"
proof -
  assume x: "0 \<le> x" "x \<le> y"
  then have y: "0 \<le> y" by simp
  let ?kx = "floorlog 2 (nat \<lfloor>x\<rfloor>)" and ?ky = "floorlog 2 (nat \<lfloor>y\<rfloor>)"
  have "?kx \<le> ?ky" using x(2) by (intro floorlog_mono nat_mono floor_mono)
  then consider "?kx = ?ky" | k where "?ky = Suc k" "?kx \<le> k" by (metis le_Suc_eq le_eq_less_or_eq less_imp_Suc_add not0_implies_Suc not_less_zero Suc_leI Suc_le_mono)
  then show ?thesis
  proof cases
    case 1
    then have "unit_of x = unit_of y" by (simp add: unit_of_def)
    then show ?thesis unfolding cut_def using x(2) cut_bounds(4) [OF y]
      by (auto intro!: mult_right_mono floor_mono divide_right_mono)
  next
    case (2 k)
    have "cut x \<le> x" by (rule cut_bounds(2) [OF x(1)])
    also have "\<dots> \<le> 2 ^ ?kx" using floorlog_below [OF x(1)] by simp
    also have "\<dots> \<le> 2 ^ k" using 2(2) by (simp add: power_increasing)
    also have "\<dots> \<le> cut y" by (rule cut_bounds(5) [OF y 2(1)])
    finally show ?thesis .
  qed
qed

lemma float64_rounding: "rounding (1 / 2 ^ 63) (1 / 2 ^ 64) float64"
proof -
  have again: "cut (cut x) = cut x" if "0 \<le> x" for x
    using unit_cut [OF that] cut_bounds(4) [OF that] by (simp add: cut_def [of "cut x"]) (simp add: cut_def)
  have mono: "float64 x \<le> float64 y" if "x \<le> y" for x y
    using that cut_mono [of x y] cut_mono [of "- y" "- x"] cut_bounds(1) [of "- x"] cut_bounds(1) [of y]
    by (auto simp: float64_def)
  have idem: "float64 (float64 x) = float64 x" for x
    using again [of x] again [of "- x"] cut_bounds(1) [of x] cut_bounds(1) [of "- x"]
    by (cases "cut (- x) = 0") (auto simp: float64_def not_less)
  have close: "\<bar>float64 x - x\<bar> \<le> 1 / 2 ^ 63 * x + 1 / 2 ^ 64" if "0 \<le> x" for x
  proof -
    have "unit_of x \<le> 1 / 2 ^ 63 * x + 1 / 2 ^ 64"
    proof (cases "floorlog 2 (nat \<lfloor>x\<rfloor>)")
      case 0
      then show ?thesis using that by (simp add: unit_of_def)
    next
      case (Suc k)
      then show ?thesis using floorlog_above [OF Suc] by (simp add: unit_of_def)
    qed
    then show ?thesis using cut_bounds(2,3) [OF that] that by (simp add: float64_def)
  qed
  have "float64 0 = 0" by (simp add: float64_def cut_def)
  then show ?thesis using mono idem close by (simp add: rounding_def mono_def)
qed

definition demo_traffic :: traffic_config where
  "demo_traffic = \<lparr>tf_mode = TB_Classical, tf_arbitration_bits_per_second = 1000000,
     tf_data_bits_per_second = 1000000, tf_maximum_utilization_permille = 700, tf_burst_window = 250,
     tf_class_limit_permille = [1000, 500, 250, 500, 200, 100]\<rparr>"

theorem enforced_share_witness:
  "\<exists>t ads t'. traffic_controller_new float64 demo_traffic 0 = Inr t \<and>
    traffic_run float64 [TO_Admit TC_Motion [8, 8] AP_Enforce 0, TO_Admit TC_Bulk [8] AP_Guaranteed 5, TO_Look 9] t = (ads, t') \<and>
    rat_of_nat (regular_wire (\<lambda>c. class_index c = Inr 1) ads) \<le>
      bu_capacity_ns (tc_classes t ! 1) + rat_of_int (tc_last_refill t' - tc_last_refill t) *
        rat_of_nat (unat (bu_refill_permille (tc_classes t ! 1))) / 1000 +
      18 * slack (1 / 2 ^ 63) (1 / 2 ^ 64) (tc_classes t ! 1)"
proof -
  let ?xs = "[TO_Admit TC_Motion [8, 8] AP_Enforce 0, TO_Admit TC_Bulk [8] AP_Guaranteed 5, TO_Look 9]"
  obtain t where t: "traffic_controller_new float64 demo_traffic 0 = Inr t"
    by (simp add: traffic_controller_new_def demo_traffic_def Let_def)
  obtain ads t' where run: "traffic_run float64 ?xs t = (ads, t')" by (meson surj_pair)
  have reach: "traffic_reachable float64 t"
    using t by (rule traffic_new) (simp add: demo_traffic_def kTrafficClassCount_def)
  have le: "float64 x \<le> x" if "0 \<le> x" for x using cut_bounds(2) [OF that] that by (simp add: float64_def)
  have cap: "bu_capacity_ns (new_bucket float64 (ms 250) limit) \<le> 2 ^ 100" for limit
  proof -
    note nn = rounding_nonneg [OF float64_rounding]
    have p: "rat_of_nat (unat limit) \<le> 2 ^ 16" (is "?l \<le> _")
    proof -
      have "unat limit < 2 ^ 16" using unsigned_less [of limit] by simp
      then have "?l < rat_of_nat (2 ^ 16)" by (simp only: of_nat_less_iff)
      then show ?thesis by simp
    qed
    let ?w = "float64 (rat_of_int (ms 250))"
    have w: "0 \<le> ?w" "?w \<le> 250000000" using nn [of "rat_of_int (ms 250)"] le [of "rat_of_int (ms 250)"] by (simp_all add: ms_def)
    have "?w * rat_of_nat (unat limit) \<le> 250000000 * 2 ^ 16" using w p by (intro mult_mono) simp_all
    then have "float64 (?w * rat_of_nat (unat limit)) \<le> 250000000 * 2 ^ 16" using le [of "?w * rat_of_nat (unat limit)"] w by simp
    then have "float64 (float64 (?w * rat_of_nat (unat limit)) / 1000) \<le> 2 ^ 100"
      using le [of "float64 (?w * rat_of_nat (unat limit)) / 1000"] nn [of "?w * rat_of_nat (unat limit)"] w by simp
    then show ?thesis by (simp add: new_bucket_def Let_def)
  qed
  have "bu_capacity_ns (tc_global t) \<le> 2 ^ 100" "\<forall>b \<in> set (tc_classes t). bu_capacity_ns b \<le> 2 ^ 100"
    using t cap by (auto simp: traffic_controller_new_def demo_traffic_def Let_def)
  from enforced_share [OF float64_rounding reach run this]
  have "class_index TC_Motion = Inr 1 \<Longrightarrow> rat_of_nat (regular_wire (\<lambda>c. class_index c = Inr 1) ads) \<le>
      bu_capacity_ns (tc_classes t ! 1) + rat_of_int (tc_last_refill t' - tc_last_refill t) *
        rat_of_nat (unat (bu_refill_permille (tc_classes t ! 1))) / 1000 +
      6 * slack (1 / 2 ^ 63) (1 / 2 ^ 64) (tc_classes t ! 1) * rat_of_nat (length ?xs)" by blast
  moreover have "class_index TC_Motion = Inr 1" by (simp add: class_index_def kTrafficClassCount_def)
  ultimately show ?thesis using t run by (auto simp: mult.commute)
qed

end
