(* ===== verification/Tmc2209.thy ===== *)
theory Tmc2209
  imports Wire
begin

text \<open>
  \<^verbatim>\<open>libremotebsp/src/tmc2209.cpp\<close>: UART datagrams of the TMC2209 stepper driver with their CRC-8.
  \<^verbatim>\<open>std::invalid_argument\<close> and \<^verbatim>\<open>std::runtime_error\<close> are the two values of \<open>tmc_error\<close>.
\<close>

subsection \<open>Datagrams\<close>

datatype tmc_error = TmcInvalidArgument | TmcInvalidResponse

definition kSync :: byte where "kSync = 0x05"
definition kMasterReplyAddress :: byte where "kMasterReplyAddress = 0xff"
definition kWriteMask :: byte where "kWriteMask = 0x80"

definition validate_address :: "byte \<Rightarrow> tmc_error + unit" where
  "validate_address a = (if a > 0x03 then Inl TmcInvalidArgument else Inr ())"

definition validate_register :: "byte \<Rightarrow> tmc_error + unit" where
  "validate_register r = (if r AND kWriteMask \<noteq> 0 then Inl TmcInvalidArgument else Inr ())"

text \<open>One turn of the inner loop, the eight turns of a byte, and the loop over the bytes.\<close>

definition tmc_crc_bit :: "byte \<times> byte \<Rightarrow> byte \<times> byte" where
  "tmc_crc_bit = (\<lambda>(crc, current).
     (if drop_bit 7 crc XOR (current AND 0x01) \<noteq> 0 then push_bit 1 crc XOR 0x07 else push_bit 1 crc,
      drop_bit 1 current))"

definition tmc_crc_byte :: "byte \<Rightarrow> byte \<Rightarrow> byte" where
  "tmc_crc_byte crc v = fst ((tmc_crc_bit ^^ 8) (crc, v))"

definition calculate_crc :: "byte list \<Rightarrow> byte" where
  "calculate_crc bs = foldl tmc_crc_byte 0 bs"

definition make_read_request :: "byte \<Rightarrow> byte \<Rightarrow> tmc_error + byte list" where
  "make_read_request node_address register_address =
     try_bind (validate_address node_address) (\<lambda>_.
     try_bind (validate_register register_address) (\<lambda>_.
       let request = [kSync, node_address, register_address]
       in Inr (request @ [calculate_crc request])))"

definition make_write_request :: "byte \<Rightarrow> byte \<Rightarrow> u32 \<Rightarrow> tmc_error + byte list" where
  "make_write_request node_address register_address v =
     try_bind (validate_address node_address) (\<lambda>_.
     try_bind (validate_register register_address) (\<lambda>_.
       let request = [kSync, node_address, register_address OR kWriteMask, ucast (drop_bit 24 v),
             ucast (drop_bit 16 v), ucast (drop_bit 8 v), ucast v]
       in Inr (request @ [calculate_crc request])))"

definition decode_read_response :: "byte list \<Rightarrow> byte \<Rightarrow> tmc_error + u32" where
  "decode_read_response response expected =
     try_bind (validate_register expected) (\<lambda>_.
       if length response \<noteq> 8 \<or> response ! 0 \<noteq> kSync \<or> response ! 1 \<noteq> kMasterReplyAddress \<or>
          response ! 2 \<noteq> expected \<or> calculate_crc (butlast response) \<noteq> last response
       then Inl TmcInvalidResponse
       else Inr (push_bit 24 (ucast (response ! 3)) OR push_bit 16 (ucast (response ! 4)) OR
                 push_bit 8 (ucast (response ! 5)) OR ucast (response ! 6)))"

lemmas tmc_consts = kSync_def kMasterReplyAddress_def kWriteMask_def

subsection \<open>The CRC detects a damaged byte\<close>

lemma feedback_iff: "drop_bit 7 c XOR (v AND 1) \<noteq> 0 \<longleftrightarrow> (bit c 7 \<noteq> bit v 0)" for c v :: byte
proof -
  have "drop_bit 7 c = (if bit c 7 then 1 else 0)"
  proof (rule byte_eqI)
    fix n :: nat assume "n < 8"
    then show "bit (drop_bit 7 c) n \<longleftrightarrow> bit (if bit c 7 then 1 else 0 :: byte) n"
      by (cases n) (auto simp: bit_drop_bit_eq bit_1_iff)
  qed
  moreover have "v AND 1 = (if bit v 0 then 1 else 0)" by (simp add: and_one_eq odd_iff_mod_2_eq_one bit_0)
  ultimately show ?thesis by auto
qed

definition feedback :: "byte \<times> byte \<Rightarrow> bool" where
  "feedback s \<longleftrightarrow> (bit (fst s) 7 \<noteq> bit (snd s) 0)"

lemma tmc_crc_bit_eq:
  "tmc_crc_bit s = (push_bit 1 (fst s) XOR (if feedback s then 7 else 0), drop_bit 1 (snd s))"
  unfolding tmc_crc_bit_def feedback_def by (cases s) (simp only: split_conv feedback_iff fst_conv snd_conv if_distrib, simp)

abbreviation pair_xor :: "byte \<times> byte \<Rightarrow> byte \<times> byte \<Rightarrow> byte \<times> byte" where
  "pair_xor s t \<equiv> (fst s XOR fst t, snd s XOR snd t)"

text \<open>Register and data are processed linearly.\<close>

lemma tmc_crc_bit_linear: "tmc_crc_bit (pair_xor s t) = pair_xor (tmc_crc_bit s) (tmc_crc_bit t)"
proof -
  have "feedback (pair_xor s t) \<longleftrightarrow> (feedback s \<noteq> feedback t)" by (auto simp: feedback_def bit_xor_iff)
  then show ?thesis
    by (auto simp: tmc_crc_bit_eq push_bit_xor drop_bit_xor ac_simps xor.left_commute)
qed

lemma tmc_crc_bits_linear: "(tmc_crc_bit ^^ n) (pair_xor s t) = pair_xor ((tmc_crc_bit ^^ n) s) ((tmc_crc_bit ^^ n) t)"
  by (induction n) (simp_all only: funpow.simps id_apply comp_apply tmc_crc_bit_linear)

lemma tmc_crc_byte_linear: "tmc_crc_byte (c XOR d) (v XOR w) = tmc_crc_byte c v XOR tmc_crc_byte d w"
  using tmc_crc_bits_linear [of 8 "(c, v)" "(d, w)"] by (simp add: tmc_crc_byte_def)

text \<open>A register that ends with zeros has seen no feedback, so the data repeats the register.\<close>

lemma tmc_crc_bits_zero:
  "n \<le> 8 \<Longrightarrow> \<forall>i < n. \<not> bit (fst ((tmc_crc_bit ^^ n) (c, v))) i \<Longrightarrow>
   (tmc_crc_bit ^^ n) (c, v) = (push_bit n c, drop_bit n v) \<and> (\<forall>i < n. bit v i \<longleftrightarrow> bit c (7 - i))"
proof (induction n)
  case (Suc n)
  define s where "s = (tmc_crc_bit ^^ n) (c, v)"
  have step: "(tmc_crc_bit ^^ Suc n) (c, v) = tmc_crc_bit s" by (simp add: s_def)
  have "\<not> bit (fst (tmc_crc_bit s)) 0" using Suc.prems(2) step by auto
  moreover have "bit (fst (tmc_crc_bit s)) 0 \<longleftrightarrow> feedback s"
    unfolding tmc_crc_bit_eq fst_conv bit_xor_iff bit_push_bit_iff by (simp add: bit_0)
  ultimately have fb: "\<not> feedback s" by simp
  then have r: "tmc_crc_bit s = (push_bit 1 (fst s), drop_bit 1 (snd s))" by (simp add: tmc_crc_bit_eq)
  have low: "\<not> bit (fst s) i" if "i < n" for i
  proof -
    have "\<not> bit (push_bit 1 (fst s)) (Suc i)" using Suc.prems(2) that step r by auto
    then show ?thesis unfolding bit_push_bit_iff using that Suc.prems(1) by simp
  qed
  have IH: "s = (push_bit n c, drop_bit n v)" "\<forall>i < n. bit v i \<longleftrightarrow> bit c (7 - i)"
    using Suc.IH Suc.prems(1) low by (auto simp: s_def)
  have "bit v n \<longleftrightarrow> bit c (7 - n)"
    using fb Suc.prems(1) by (simp add: feedback_def IH(1) bit_simps)
  then show ?case using IH r step by (auto simp: less_Suc_eq)
qed simp

lemma tmc_crc_byte_zero: "tmc_crc_byte c v = 0 \<Longrightarrow> i < 8 \<Longrightarrow> bit v i \<longleftrightarrow> bit c (7 - i)"
  using tmc_crc_bits_zero [of 8 c v] by (simp add: tmc_crc_byte_def)

lemma tmc_crc_byte_inject: "tmc_crc_byte c v = tmc_crc_byte d v \<longleftrightarrow> c = d" "tmc_crc_byte c v = tmc_crc_byte c w \<longleftrightarrow> v = w"
proof -
  have "c = d" if "tmc_crc_byte c v = tmc_crc_byte d v"
  proof (rule byte_eqI)
    fix i :: nat assume "i < 8"
    have "tmc_crc_byte (c XOR d) 0 = 0" using that tmc_crc_byte_linear [of c d v v] by simp
    from tmc_crc_byte_zero [OF this, of "7 - i"] show "bit c i \<longleftrightarrow> bit d i"
      using \<open>i < 8\<close> by (simp add: bit_xor_iff)
  qed
  then show "tmc_crc_byte c v = tmc_crc_byte d v \<longleftrightarrow> c = d" by blast
  have "v = w" if "tmc_crc_byte c v = tmc_crc_byte c w"
  proof (rule byte_eqI)
    fix i :: nat assume "i < 8"
    have "tmc_crc_byte 0 (v XOR w) = 0" using that tmc_crc_byte_linear [of c c v w] by simp
    from tmc_crc_byte_zero [OF this \<open>i < 8\<close>] show "bit v i \<longleftrightarrow> bit w i" by (simp add: bit_xor_iff)
  qed
  then show "tmc_crc_byte c v = tmc_crc_byte c w \<longleftrightarrow> v = w" by blast
qed

lemma crc_same_tail: "foldl tmc_crc_byte c bs = foldl tmc_crc_byte d bs \<longleftrightarrow> c = d"
  by (induction bs arbitrary: c d) (simp_all add: tmc_crc_byte_inject)

lemma crc_damaged:
  assumes "i < length bs" "b \<noteq> bs ! i"
  shows "calculate_crc (bs[i := b]) \<noteq> calculate_crc bs"
proof -
  have "bs = take i bs @ bs ! i # drop (Suc i) bs" using assms(1) by (rule id_take_nth_drop)
  then have "calculate_crc bs = foldl tmc_crc_byte (tmc_crc_byte (foldl tmc_crc_byte 0 (take i bs)) (bs ! i)) (drop (Suc i) bs)"
    unfolding calculate_crc_def by (metis foldl_Cons foldl_append)
  moreover have "calculate_crc (bs[i := b]) = foldl tmc_crc_byte (tmc_crc_byte (foldl tmc_crc_byte 0 (take i bs)) b) (drop (Suc i) bs)"
    using assms(1) by (simp add: calculate_crc_def upd_conv_take_nth_drop)
  ultimately show ?thesis using assms(2) by (simp add: crc_same_tail tmc_crc_byte_inject)
qed

subsection \<open>Properties\<close>

text \<open>
  The driver's answer is accepted in exactly one form: the decoder returns \<open>v\<close> just for the
  datagram of sync byte, master address, the expected register, the bytes of \<open>v\<close> from the most
  significant one, and their CRC.
\<close>

lemma tmc_response_exact:
  "decode_read_response response expected = Inr v \<longleftrightarrow>
   expected AND kWriteMask = 0 \<and>
   (let body = [kSync, kMasterReplyAddress, expected, ucast (drop_bit 24 v), ucast (drop_bit 16 v),
      ucast (drop_bit 8 v), ucast v]
    in response = body @ [calculate_crc body])"
proof -
  have bytes: "put_u32 v = [ucast v, ucast (drop_bit 8 v), ucast (drop_bit 16 v), ucast (drop_bit 24 v)]"
    by (rule put_u32_bytes)
  have big_endian: "push_bit 24 (ucast a) OR push_bit 16 (ucast b) OR push_bit 8 (ucast c) OR ucast d =
      get_u32 [d, c, b, a]" for a b c d :: byte
    by (simp add: get_u32_def ac_simps)
  have eq: "get_u32 [d, c, b, a] = v \<longleftrightarrow> [d, c, b, a] = put_u32 v" for a b c d :: byte
    using put_get_u32 [of d c b a] get_put_u32 [of v "[]"] by auto
  show ?thesis
  proof (cases "length response = 8")
    case True
    then obtain r0 r1 r2 r3 r4 r5 r6 r7 where r: "response = [r0, r1, r2, r3, r4, r5, r6, r7]"
      by (auto simp: length_Suc_conv eval_nat_numeral)
    show ?thesis
      by (auto simp: decode_read_response_def validate_register_def r big_endian eq bytes Let_def)
  next
    case False
    then show ?thesis by (auto simp: decode_read_response_def validate_register_def Let_def)
  qed
qed

text \<open>
  C23. A damaged byte never goes unnoticed: when any one byte of an accepted answer is changed, the
  decoder refuses it.
\<close>

theorem tmc_damage_detected:
  assumes "decode_read_response response expected = Inr v"
    and "i < length response" "b \<noteq> response ! i"
  shows "decode_read_response (response[i := b]) expected = Inl TmcInvalidResponse"
proof -
  have reg: "validate_register expected = Inr ()" and len: "length response = 8"
    and crc: "calculate_crc (butlast response) = last response"
    using assms(1) by (auto simp: decode_read_response_def validate_register_def split: if_splits)
  have "calculate_crc (butlast (response[i := b])) \<noteq> last (response[i := b])"
  proof (cases "i = 7")
    case True
    have ne: "response \<noteq> []" using len by auto
    have "butlast (response[i := b]) = butlast response"
      using len True by (simp add: butlast_list_update)
    moreover have "last (response[i := b]) = b" "last response = response ! i"
      using len True ne by (simp_all add: last_conv_nth)
    ultimately show ?thesis using assms(3) crc by simp
  next
    case False
    then have i: "i < length (butlast response)" using assms(2) len by simp
    have "response \<noteq> []" using len by auto
    then have "butlast (response[i := b]) = (butlast response)[i := b]" "last (response[i := b]) = last response"
      using len False by (auto simp: butlast_list_update last_conv_nth)
    moreover have "butlast response ! i = response ! i" using i by (rule nth_butlast)
    ultimately show ?thesis using crc_damaged [OF i] assms(3) crc by simp
  qed
  then show ?thesis using reg len by (simp add: decode_read_response_def)
qed

theorem tmc_damage_detected_witness:
  "decode_read_response [5, 255, 6, 0, 0, 0, 7, calculate_crc [5, 255, 6, 0, 0, 0, 7]] 6 = Inr 7 \<and>
   decode_read_response [5, 255, 6, 0, 1, 0, 7, calculate_crc [5, 255, 6, 0, 0, 0, 7]] 6 = Inl TmcInvalidResponse"
proof -
  have ok: "decode_read_response [5, 255, 6, 0, 0, 0, 7, calculate_crc [5, 255, 6, 0, 0, 0, 7]] 6 = Inr 7"
    by (simp add: decode_read_response_def validate_register_def kSync_def kMasterReplyAddress_def kWriteMask_def)
  show ?thesis using ok tmc_damage_detected [OF ok, of 4 1] by simp
qed

end
