(* ===== verification/Byte_Ring.thy ===== *)
theory Byte_Ring
  imports Wire
begin

text \<open>
  \<^verbatim>\<open>firmware/src/byte_ring.c\<close>: the ring between the interrupt handlers and the main loop. A pointer
  that may be \<^verbatim>\<open>NULL\<close> is an option; the byte or buffer an output pointer names is passed in and
  returned. The storage holds at least \<open>br_storage_size\<close> bytes, as the callers see to.
\<close>

subsection \<open>Operations\<close>

record byte_ring =
  br_storage :: "byte list option"
  br_storage_size :: nat
  br_head :: nat
  br_tail :: nat

definition byte_ring_init :: "byte_ring option \<Rightarrow> byte list option \<Rightarrow> nat \<Rightarrow> bool \<times> byte_ring option" where
  "byte_ring_init ring storage storage_size =
     (case ring of
        None \<Rightarrow> (False, ring)
      | Some r \<Rightarrow>
          if storage = None \<or> storage_size < 2 then (False, ring)
          else (True, Some (r\<lparr>br_storage := storage, br_storage_size := storage_size,
                              br_head := 0, br_tail := 0\<rparr>)))"

definition byte_ring_clear :: "byte_ring option \<Rightarrow> byte_ring option" where
  "byte_ring_clear ring = map_option (\<lambda>r. r\<lparr>br_head := 0, br_tail := 0\<rparr>) ring"

definition byte_ring_size :: "byte_ring option \<Rightarrow> nat" where
  "byte_ring_size ring =
     (case ring of
        None \<Rightarrow> 0
      | Some r \<Rightarrow>
          if br_storage r = None \<or> br_storage_size r < 2 then 0
          else let head = br_head r; tail = br_tail r
            in if head \<ge> tail then head - tail else br_storage_size r - tail + head)"

definition byte_ring_free :: "byte_ring option \<Rightarrow> nat" where
  "byte_ring_free ring =
     (case ring of
        None \<Rightarrow> 0
      | Some r \<Rightarrow>
          if br_storage r = None \<or> br_storage_size r < 2 then 0
          else br_storage_size r - 1 - byte_ring_size ring)"

text \<open>The successor of an index, as push and pop compute it.\<close>

definition ring_next :: "byte_ring \<Rightarrow> nat \<Rightarrow> nat" where
  "ring_next r i = (let next = i + 1 in if next = br_storage_size r then 0 else next)"

definition byte_ring_push :: "byte_ring option \<Rightarrow> byte \<Rightarrow> bool \<times> byte_ring option" where
  "byte_ring_push ring v =
     (case ring of
        None \<Rightarrow> (False, ring)
      | Some r \<Rightarrow>
          (case br_storage r of
             None \<Rightarrow> (False, ring)
           | Some s \<Rightarrow>
               if br_storage_size r < 2 then (False, ring)
               else let next = ring_next r (br_head r) in
                 if next = br_tail r then (False, ring)
                 else (True, Some (r\<lparr>br_storage := Some (s[br_head r := v]), br_head := next\<rparr>))))"

definition byte_ring_pop :: "byte_ring option \<Rightarrow> byte option \<Rightarrow> bool \<times> byte option \<times> byte_ring option" where
  "byte_ring_pop ring target =
     (case ring of
        None \<Rightarrow> (False, target, ring)
      | Some r \<Rightarrow>
          (case br_storage r of
             None \<Rightarrow> (False, target, ring)
           | Some s \<Rightarrow>
               if target = None \<or> br_storage_size r < 2 \<or> br_head r = br_tail r
               then (False, target, ring)
               else (True, Some (s ! br_tail r), Some (r\<lparr>br_tail := ring_next r (br_tail r)\<rparr>))))"

fun push_loop :: "byte list \<Rightarrow> byte_ring option \<Rightarrow> bool \<times> byte_ring option" where
  "push_loop [] ring = (True, ring)"
| "push_loop (v # vs) ring =
     (let (pushed, ring') = byte_ring_push ring v in
      if \<not> pushed then (False, ring') else push_loop vs ring')"

definition byte_ring_write_exact :: "byte_ring option \<Rightarrow> byte list option \<Rightarrow> nat \<Rightarrow> bool \<times> byte_ring option" where
  "byte_ring_write_exact ring data n =
     (if n = 0 then (True, ring)
      else case data of
        None \<Rightarrow> (False, ring)
      | Some bs \<Rightarrow> if n > byte_ring_free ring then (False, ring) else push_loop (take n bs) ring)"

text \<open>The loop of \<^verbatim>\<open>rbsp_byte_ring_read\<close> from \<open>count\<close> on, and the buffer it fills.\<close>

function pop_loop :: "nat \<Rightarrow> nat \<Rightarrow> byte list \<Rightarrow> byte_ring option \<Rightarrow> nat \<times> byte list \<times> byte_ring option" where
  "pop_loop capacity n buffer ring =
     (if n < capacity
      then (case byte_ring_pop ring (Some (buffer ! n)) of
          (True, Some v, ring') \<Rightarrow> pop_loop capacity (n + 1) (buffer[n := v]) ring'
        | (_, _, ring') \<Rightarrow> (n, buffer, ring'))
      else (n, buffer, ring))"
  by auto
termination by (relation "measure (\<lambda>(capacity, n, _). capacity - n)") auto

declare pop_loop.simps [simp del]

definition byte_ring_read ::
  "byte_ring option \<Rightarrow> byte list option \<Rightarrow> nat \<Rightarrow> nat \<times> byte list option \<times> byte_ring option" where
  "byte_ring_read ring data capacity =
     (case (ring, data) of
        (Some _, Some buffer) \<Rightarrow>
          (let (n, buffer', ring') = pop_loop capacity 0 buffer ring in (n, Some buffer', ring'))
      | _ \<Rightarrow> (0, data, ring))"

subsection \<open>The bytes in the ring\<close>

definition ring_ok :: "byte_ring \<Rightarrow> bool" where
  "ring_ok r \<longleftrightarrow> (\<exists>s. br_storage r = Some s \<and> br_storage_size r \<le> length s) \<and>
     2 \<le> br_storage_size r \<and> br_head r < br_storage_size r \<and> br_tail r < br_storage_size r"

definition ring_bytes :: "byte_ring \<Rightarrow> byte list" where
  "ring_bytes r = map (\<lambda>i. the (br_storage r) ! ((br_tail r + i) mod br_storage_size r))
     [0..<byte_ring_size (Some r)]"

lemma ring_next_mod: "i < br_storage_size r \<Longrightarrow> ring_next r i = (i + 1) mod br_storage_size r"
  by (auto simp: ring_next_def Let_def)

lemma ring_size_less: "ring_ok r \<Longrightarrow> byte_ring_size (Some r) < br_storage_size r"
  by (auto simp: byte_ring_size_def ring_ok_def Let_def)

lemma length_ring_bytes [simp]: "length (ring_bytes r) = byte_ring_size (Some r)"
  by (simp add: ring_bytes_def)

lemma ring_head:
  assumes "ring_ok r"
  shows "br_head r = (br_tail r + byte_ring_size (Some r)) mod br_storage_size r"
  using assms by (auto simp: ring_ok_def byte_ring_size_def Let_def)

lemma ring_full:
  assumes "ring_ok r"
  shows "ring_next r (br_head r) = br_tail r \<longleftrightarrow> byte_ring_size (Some r) = br_storage_size r - 1"
  using assms by (auto simp: ring_ok_def byte_ring_size_def ring_next_def Let_def)

lemma ring_empty: "ring_ok r \<Longrightarrow> br_head r = br_tail r \<longleftrightarrow> byte_ring_size (Some r) = 0"
  by (auto simp: ring_ok_def byte_ring_size_def Let_def)

lemma mod_shift_inject_le:
  fixes n :: nat
  assumes "(t + i) mod n = (t + j) mod n" "j < n" "i \<le> j"
  shows "i = j"
proof -
  have "n dvd (t + j) - (t + i)" using assms mod_eq_dvd_iff_nat [of "t + i" "t + j" n] by simp
  then show ?thesis using assms(2,3) by (auto dest: dvd_imp_le)
qed

lemma mod_shift_inject: "i < n \<Longrightarrow> j < n \<Longrightarrow> (t + i) mod n = (t + j) mod n \<longleftrightarrow> i = j" for n :: nat
  using mod_shift_inject_le [of t i n j] mod_shift_inject_le [of t j n i] by (cases "i \<le> j") auto

lemma byte_ring_size_storage [simp]:
  "br_storage r = Some s \<Longrightarrow> byte_ring_size (Some (r\<lparr>br_storage := Some s'\<rparr>)) = byte_ring_size (Some r)"
  by (simp add: byte_ring_size_def Let_def)

text \<open>The slot under the head holds none of the bytes.\<close>

lemma unused_slot:
  assumes "ring_ok r"
  shows "ring_bytes (r\<lparr>br_storage := map_option (\<lambda>s. s[br_head r := v]) (br_storage r)\<rparr>) = ring_bytes r"
proof -
  obtain s where s: "br_storage r = Some s" using assms by (auto simp: ring_ok_def)
  have "s[br_head r := v] ! ((br_tail r + i) mod br_storage_size r) = s ! ((br_tail r + i) mod br_storage_size r)"
    if "i < byte_ring_size (Some r)" for i
  proof -
    have "(br_tail r + i) mod br_storage_size r \<noteq> (br_tail r + byte_ring_size (Some r)) mod br_storage_size r"
      using that ring_size_less [OF assms] by (subst mod_shift_inject) auto
    then show ?thesis by (simp add: ring_head [OF assms])
  qed
  then show ?thesis by (simp add: ring_bytes_def s)
qed

lemma push_ok:
  assumes "ring_ok r"
  shows "if length (ring_bytes r) < br_storage_size r - 1
    then \<exists>r'. byte_ring_push (Some r) v = (True, Some r') \<and> ring_ok r' \<and>
      ring_bytes r' = ring_bytes r @ [v] \<and> br_storage_size r' = br_storage_size r
    else byte_ring_push (Some r) v = (False, Some r)"
proof -
  obtain s where s: "br_storage r = Some s" "br_storage_size r \<le> length s" using assms by (auto simp: ring_ok_def)
  let ?n = "br_storage_size r" and ?k = "byte_ring_size (Some r)"
  have n: "2 \<le> ?n" "br_head r < ?n" "br_tail r < ?n" using assms by (auto simp: ring_ok_def)
  show ?thesis
  proof (cases "?k < ?n - 1")
    case False
    then show ?thesis using ring_full [OF assms] ring_size_less [OF assms] n s by (auto simp: byte_ring_push_def)
  next
    case True
    then have free: "ring_next r (br_head r) \<noteq> br_tail r" using ring_full [OF assms] by simp
    define r' where "r' = r\<lparr>br_storage := Some (s[br_head r := v]), br_head := ring_next r (br_head r)\<rparr>"
    have push: "byte_ring_push (Some r) v = (True, Some r')"
      using n s free by (simp add: byte_ring_push_def r'_def Let_def)
    have ok: "ring_ok r'" using n s by (auto simp: ring_ok_def r'_def ring_next_def Let_def)
    have size: "byte_ring_size (Some r') = Suc ?k"
      using n s free by (auto simp: byte_ring_size_def r'_def ring_next_def Let_def)
    have new: "s[br_head r := v] ! ((br_tail r + ?k) mod ?n) = v"
      using n s by (simp flip: ring_head [OF assms])
    have "ring_bytes r' = map (\<lambda>i. s[br_head r := v] ! ((br_tail r + i) mod ?n)) [0..<?k] @ [v]"
      using new unfolding ring_bytes_def size by (simp add: r'_def)
    also have "map (\<lambda>i. s[br_head r := v] ! ((br_tail r + i) mod ?n)) [0..<?k] = ring_bytes r"
      using unused_slot [OF assms, of v] by (simp add: ring_bytes_def s)
    finally show ?thesis using True push ok by (auto simp: r'_def)
  qed
qed

lemma pop_ok:
  assumes "ring_ok r"
  shows "case ring_bytes r of
      [] \<Rightarrow> byte_ring_pop (Some r) (Some x) = (False, Some x, Some r)
    | v # vs \<Rightarrow> \<exists>r'. byte_ring_pop (Some r) (Some x) = (True, Some v, Some r') \<and> ring_ok r' \<and>
        ring_bytes r' = vs \<and> br_storage_size r' = br_storage_size r"
proof -
  obtain s where s: "br_storage r = Some s" "br_storage_size r \<le> length s" using assms by (auto simp: ring_ok_def)
  let ?n = "br_storage_size r" and ?k = "byte_ring_size (Some r)"
  have n: "2 \<le> ?n" "br_head r < ?n" "br_tail r < ?n" using assms by (auto simp: ring_ok_def)
  show ?thesis
  proof (cases "?k = 0")
    case True
    then have "ring_bytes r = []" by (simp flip: length_0_conv)
    then show ?thesis using True ring_empty [OF assms] s by (simp add: byte_ring_pop_def)
  next
    case False
    then have ne: "br_head r \<noteq> br_tail r" using ring_empty [OF assms] by simp
    define r' where "r' = r\<lparr>br_tail := ring_next r (br_tail r)\<rparr>"
    have pop: "byte_ring_pop (Some r) (Some x) = (True, Some (s ! br_tail r), Some r')"
      using n s ne by (simp add: byte_ring_pop_def r'_def)
    have ok: "ring_ok r'" using n s by (auto simp: ring_ok_def r'_def ring_next_def Let_def)
    have size: "byte_ring_size (Some r') = ?k - 1"
      using n s ne by (auto simp: byte_ring_size_def r'_def ring_next_def Let_def)
    have "(br_tail r' + i) mod ?n = (br_tail r + Suc i) mod ?n" for i
      using n by (simp add: r'_def ring_next_mod mod_simps)
    then have "ring_bytes r' = map (\<lambda>i. s ! ((br_tail r + Suc i) mod ?n)) [0..<?k - 1]"
      unfolding ring_bytes_def size by (simp add: r'_def s)
    moreover have "[0..<?k] = 0 # map Suc [0..<?k - 1]"
      using False by (cases ?k) (simp_all add: upt_conv_Cons map_Suc_upt)
    then have "ring_bytes r = s ! br_tail r # map (\<lambda>i. s ! ((br_tail r + Suc i) mod ?n)) [0..<?k - 1]"
      using n unfolding ring_bytes_def by (simp add: s)
    ultimately show ?thesis using pop ok by (simp add: r'_def)
  qed
qed

subsection \<open>The ring is a bounded queue\<close>

datatype ring_op =
  RingPush byte | RingPop byte | RingWrite "byte list" | RingRead "byte list" | RingClear | RingSize

datatype ring_answer = RingDone bool | RingByte bool byte | RingBytes nat "byte list" | RingCleared | RingCounts nat nat

fun ring_step :: "ring_op \<Rightarrow> byte_ring option \<Rightarrow> ring_answer \<times> byte_ring option" where
  "ring_step (RingPush v) ring = (let (done, ring') = byte_ring_push ring v in (RingDone done, ring'))"
| "ring_step (RingPop x) ring =
     (let (done, target, ring') = byte_ring_pop ring (Some x) in (RingByte done (the target), ring'))"
| "ring_step (RingWrite bs) ring =
     (let (done, ring') = byte_ring_write_exact ring (Some bs) (length bs) in (RingDone done, ring'))"
| "ring_step (RingRead buffer) ring =
     (let (n, data, ring') = byte_ring_read ring (Some buffer) (length buffer) in (RingBytes n (the data), ring'))"
| "ring_step RingClear ring = (RingCleared, byte_ring_clear ring)"
| "ring_step RingSize ring = (RingCounts (byte_ring_size ring) (byte_ring_free ring), ring)"

text \<open>The specification: a list of at most \<open>room\<close> bytes.\<close>

fun queue_step :: "nat \<Rightarrow> ring_op \<Rightarrow> byte list \<Rightarrow> ring_answer \<times> byte list" where
  "queue_step room (RingPush v) q = (if length q < room then (RingDone True, q @ [v]) else (RingDone False, q))"
| "queue_step room (RingPop x) q = (case q of [] \<Rightarrow> (RingByte False x, q) | v # vs \<Rightarrow> (RingByte True v, vs))"
| "queue_step room (RingWrite bs) q =
     (if length q + length bs \<le> room then (RingDone True, q @ bs) else (RingDone False, q))"
| "queue_step room (RingRead buffer) q =
     (let n = min (length q) (length buffer) in (RingBytes n (take n q @ drop n buffer), drop n q))"
| "queue_step room RingClear q = (RingCleared, [])"
| "queue_step room RingSize q = (RingCounts (length q) (room - length q), q)"

fun run_ops :: "(ring_op \<Rightarrow> 's \<Rightarrow> ring_answer \<times> 's) \<Rightarrow> ring_op list \<Rightarrow> 's \<Rightarrow> ring_answer list" where
  "run_ops step [] s = []"
| "run_ops step (q # qs) s = (let (a, s') = step q s in a # run_ops step qs s')"

lemma push_loop_ok:
  assumes "ring_ok r" "length (ring_bytes r) + length bs \<le> br_storage_size r - 1"
  shows "\<exists>r'. push_loop bs (Some r) = (True, Some r') \<and> ring_ok r' \<and> ring_bytes r' = ring_bytes r @ bs \<and>
    br_storage_size r' = br_storage_size r"
  using assms
proof (induction bs arbitrary: r)
  case (Cons v vs)
  then obtain r1 where r1: "byte_ring_push (Some r) v = (True, Some r1)" "ring_ok r1"
      "ring_bytes r1 = ring_bytes r @ [v]" "br_storage_size r1 = br_storage_size r"
    using push_ok [of r v] by auto
  then show ?case using Cons.IH [OF r1(2)] Cons.prems(2) by fastforce
qed simp

lemma pop_loop_ok:
  assumes "ring_ok r" "n \<le> length buffer"
  shows "\<exists>r'. let m = min (length (ring_bytes r)) (length buffer - n) in
      pop_loop (length buffer) n buffer (Some r) =
        (n + m, take n buffer @ take m (ring_bytes r) @ drop (n + m) buffer, Some r') \<and>
      ring_ok r' \<and> ring_bytes r' = drop m (ring_bytes r) \<and> br_storage_size r' = br_storage_size r"
  using assms
proof (induction "length buffer - n" arbitrary: n buffer r)
  case 0
  then show ?case by (subst pop_loop.simps) auto
next
  case (Suc k)
  note pop = pop_ok [OF Suc.prems(1), of "buffer ! n"]
  show ?case
  proof (cases "ring_bytes r")
    case Nil
    then have "pop_loop (length buffer) n buffer (Some r) = (n, buffer, Some r)"
      using pop by (subst pop_loop.simps) simp
    then show ?thesis using Nil Suc.prems by (simp del: length_ring_bytes)
  next
    case (Cons v vs)
    then obtain r1 where r1: "byte_ring_pop (Some r) (Some (buffer ! n)) = (True, Some v, Some r1)"
        "ring_ok r1" "ring_bytes r1 = vs" "br_storage_size r1 = br_storage_size r"
      using pop by auto
    have n: "n < length buffer" using Suc.hyps(2) by simp
    have step: "pop_loop (length buffer) n buffer (Some r) = pop_loop (length (buffer[n := v])) (Suc n) (buffer[n := v]) (Some r1)"
      using n r1(1) by (subst pop_loop.simps) simp
    have k: "k = length (buffer[n := v]) - Suc n" and n': "Suc n \<le> length (buffer[n := v])"
      using Suc.hyps(2) n by simp_all
    obtain r' where r': "let m = min (length vs) (length (buffer[n := v]) - Suc n) in
        pop_loop (length (buffer[n := v])) (Suc n) (buffer[n := v]) (Some r1) =
          (Suc n + m, take (Suc n) (buffer[n := v]) @ take m vs @ drop (Suc n + m) (buffer[n := v]), Some r') \<and>
        ring_ok r' \<and> ring_bytes r' = drop m vs \<and> br_storage_size r' = br_storage_size r"
      using Suc.hyps(1) [OF k r1(2) n', unfolded r1(3,4)] by blast
    have m: "min (length (ring_bytes r)) (length buffer - n) = Suc (min (length vs) (length buffer - Suc n))"
      using Cons n by simp
    show ?thesis unfolding m step Let_def
      using r' n by (intro exI [of _ r']) (simp add: Cons Let_def take_Suc_conv_app_nth)
  qed
qed

lemma ring_clear_ok:
  "ring_ok r \<Longrightarrow> \<exists>r'. byte_ring_clear (Some r) = Some r' \<and> ring_ok r' \<and> ring_bytes r' = [] \<and>
     br_storage_size r' = br_storage_size r"
  by (auto simp: byte_ring_clear_def ring_ok_def ring_bytes_def byte_ring_size_def)

lemma ring_free: "ring_ok r \<Longrightarrow> byte_ring_free (Some r) = br_storage_size r - 1 - length (ring_bytes r)"
  by (auto simp: byte_ring_free_def ring_ok_def)

lemma ring_step_refines:
  assumes "ring_ok r" "br_storage_size r = Suc room"
  shows "\<exists>r'. ring_step q (Some r) = (fst (queue_step room q (ring_bytes r)), Some r') \<and> ring_ok r' \<and>
    ring_bytes r' = snd (queue_step room q (ring_bytes r)) \<and> br_storage_size r' = Suc room"
proof (cases q)
  case (RingPush v)
  then show ?thesis using push_ok [OF assms(1), of v] assms by (auto split: if_splits)
next
  case (RingPop x)
  then show ?thesis using pop_ok [OF assms(1), of x] assms by (auto split: list.splits)
next
  case (RingWrite bs)
  have "length (ring_bytes r) \<le> room" using ring_size_less [OF assms(1)] assms(2) by simp
  then show ?thesis
    using push_loop_ok [OF assms(1), of bs] ring_free [OF assms(1)] assms RingWrite
    by (auto simp: byte_ring_write_exact_def)
next
  case (RingRead buffer)
  then show ?thesis using pop_loop_ok [OF assms(1), of 0 buffer] assms(2)
    by (auto simp: byte_ring_read_def Let_def)
next
  case RingClear
  then show ?thesis using ring_clear_ok [OF assms(1)] assms(2) by auto
next
  case RingSize
  then show ?thesis using ring_free [OF assms(1)] assms by simp
qed

lemma ring_run_refines:
  "ring_ok r \<Longrightarrow> br_storage_size r = Suc room \<Longrightarrow>
   run_ops ring_step qs (Some r) = run_ops (queue_step room) qs (ring_bytes r)"
proof (induction qs arbitrary: r)
  case (Cons q qs)
  then show ?case using ring_step_refines [OF Cons.prems, of q] by (auto simp: split_beta Let_def)
qed simp

lemma ring_init_ok:
  "byte_ring_init (Some junk) (Some s) n = (True, ring) \<Longrightarrow> n \<le> length s \<Longrightarrow>
   \<exists>r. ring = Some r \<and> ring_ok r \<and> ring_bytes r = [] \<and> br_storage_size r = n \<and> 2 \<le> n"
  by (intro exI [of _ "the ring"])
    (auto simp: byte_ring_init_def ring_ok_def ring_bytes_def byte_ring_size_def Let_def split: if_splits)

subsection \<open>Property\<close>

text \<open>
  C24. The ring implements a bounded queue: from an initialised ring, every sequence of pushes, pops,
  whole writes, reads, clears and queries answers as a list of at most \<open>n - 1\<close> bytes does, whatever
  the storage held before.
\<close>

theorem ring_refines_queue:
  assumes "byte_ring_init (Some junk) (Some s) n = (True, ring)" "n \<le> length s"
  shows "run_ops ring_step qs ring = run_ops (queue_step (n - 1)) qs []"
proof -
  obtain r where r: "ring = Some r" "ring_ok r" "ring_bytes r = []" "br_storage_size r = n" "2 \<le> n"
    using ring_init_ok [OF assms] by blast
  then have "br_storage_size r = Suc (n - 1)" by simp
  from ring_run_refines [OF r(2) this] show ?thesis by (simp add: r(1,3))
qed

theorem ring_refines_queue_witness:
  "run_ops ring_step [RingWrite [1, 2], RingPop 0, RingPush 3, RingPush 4, RingRead [9, 9, 9], RingSize]
     (snd (byte_ring_init (Some \<lparr>br_storage = None, br_storage_size = 0, br_head = 7, br_tail = 7\<rparr>)
        (Some [0, 0, 0]) 3)) =
   [RingDone True, RingByte True 1, RingDone True, RingDone False, RingBytes 2 [2, 3, 9], RingCounts 0 2]"
proof -
  have "byte_ring_init (Some \<lparr>br_storage = None, br_storage_size = 0, br_head = 7, br_tail = 7\<rparr>)
        (Some [0, 0, 0]) 3 = (True, Some \<lparr>br_storage = Some [0, 0, 0], br_storage_size = 3, br_head = 0, br_tail = 0\<rparr>)"
    by (simp add: byte_ring_init_def)
  note run = ring_refines_queue [OF this] and ring = this
  show ?thesis unfolding ring snd_conv by (subst run) simp_all
qed

end
