(* ===== verification/Ring_Race.thy ===== *)
theory Ring_Race
  imports Byte_Ring
begin

text \<open>
  The byte ring between an interrupt handler and the main loop: \<^verbatim>\<open>rbsp_byte_ring_push\<close> on one side and
  \<^verbatim>\<open>rbsp_byte_ring_pop\<close> on the other, cut into their accesses to the shared fields. The producer
  alone writes \<^verbatim>\<open>head\<close>, the consumer alone \<^verbatim>\<open>tail\<close>; each access is one step and the steps of the two
  sides interleave in any order. What the two sides have handed over so far is kept in
  \<open>rc_pushed\<close> and \<open>rc_popped\<close>, which no step reads.
\<close>

subsection \<open>Steps\<close>

text \<open>Where a side stands: after its test, and after the access to the storage.\<close>

datatype producer = P_Idle | P_Checked byte | P_Stored byte
datatype consumer = C_Idle | C_Checked | C_Taken byte

record ring_race =
  rc_ring :: byte_ring
  rc_producer :: producer
  rc_consumer :: consumer
  rc_pushed :: "byte list"
  rc_popped :: "byte list"

definition ring_store :: "byte \<Rightarrow> byte_ring \<Rightarrow> byte_ring" where
  "ring_store v r = r\<lparr>br_storage := map_option (\<lambda>s. s[br_head r := v]) (br_storage r)\<rparr>"

definition publish_head :: "byte_ring \<Rightarrow> byte_ring" where
  "publish_head r = r\<lparr>br_head := ring_next r (br_head r)\<rparr>"

definition ring_load :: "byte_ring \<Rightarrow> byte" where
  "ring_load r = the (br_storage r) ! br_tail r"

definition publish_tail :: "byte_ring \<Rightarrow> byte_ring" where
  "publish_tail r = r\<lparr>br_tail := ring_next r (br_tail r)\<rparr>"

inductive race_step :: "ring_race \<Rightarrow> ring_race \<Rightarrow> bool" where
  push_check: "rc_producer x = P_Idle \<Longrightarrow> ring_next (rc_ring x) (br_head (rc_ring x)) \<noteq> br_tail (rc_ring x) \<Longrightarrow>
    race_step x (x\<lparr>rc_producer := P_Checked v\<rparr>)"
| push_full: "rc_producer x = P_Idle \<Longrightarrow> ring_next (rc_ring x) (br_head (rc_ring x)) = br_tail (rc_ring x) \<Longrightarrow>
    race_step x x"
| push_store: "rc_producer x = P_Checked v \<Longrightarrow>
    race_step x (x\<lparr>rc_ring := ring_store v (rc_ring x), rc_producer := P_Stored v\<rparr>)"
| push_publish: "rc_producer x = P_Stored v \<Longrightarrow>
    race_step x (x\<lparr>rc_ring := publish_head (rc_ring x), rc_producer := P_Idle, rc_pushed := rc_pushed x @ [v]\<rparr>)"
| pop_check: "rc_consumer x = C_Idle \<Longrightarrow> br_head (rc_ring x) \<noteq> br_tail (rc_ring x) \<Longrightarrow>
    race_step x (x\<lparr>rc_consumer := C_Checked\<rparr>)"
| pop_empty: "rc_consumer x = C_Idle \<Longrightarrow> br_head (rc_ring x) = br_tail (rc_ring x) \<Longrightarrow> race_step x x"
| pop_take: "rc_consumer x = C_Checked \<Longrightarrow>
    race_step x (x\<lparr>rc_consumer := C_Taken (ring_load (rc_ring x))\<rparr>)"
| pop_publish: "rc_consumer x = C_Taken v \<Longrightarrow>
    race_step x (x\<lparr>rc_ring := publish_tail (rc_ring x), rc_consumer := C_Idle, rc_popped := rc_popped x @ [v]\<rparr>)"

inductive race_reachable :: "nat \<Rightarrow> ring_race \<Rightarrow> bool" for n where
  race_start: "byte_ring_init (Some junk) (Some s) n = (True, Some r) \<Longrightarrow> n \<le> length s \<Longrightarrow>
    race_reachable n \<lparr>rc_ring = r, rc_producer = P_Idle, rc_consumer = C_Idle, rc_pushed = [], rc_popped = []\<rparr>"
| race_next: "race_reachable n x \<Longrightarrow> race_step x y \<Longrightarrow> race_reachable n y"

text \<open>Without interference the steps are the two functions.\<close>

lemma push_steps:
  "ring_ok r \<Longrightarrow> byte_ring_push (Some r) v =
     (if ring_next r (br_head r) = br_tail r then (False, Some r)
      else (True, Some (publish_head (ring_store v r))))"
  by (auto simp: byte_ring_push_def ring_ok_def publish_head_def ring_store_def ring_next_def Let_def)

lemma pop_steps:
  "ring_ok r \<Longrightarrow> byte_ring_pop (Some r) (Some x) =
     (if br_head r = br_tail r then (False, Some x, Some r)
      else (True, Some (ring_load r), Some (publish_tail r)))"
  by (auto simp: byte_ring_pop_def ring_ok_def publish_tail_def ring_load_def)

subsection \<open>Invariant\<close>

definition race_ok :: "nat \<Rightarrow> ring_race \<Rightarrow> bool" where
  "race_ok n x \<longleftrightarrow>
     ring_ok (rc_ring x) \<and> br_storage_size (rc_ring x) = n \<and>
     rc_popped x @ ring_bytes (rc_ring x) = rc_pushed x \<and>
     (rc_producer x \<noteq> P_Idle \<longrightarrow> ring_next (rc_ring x) (br_head (rc_ring x)) \<noteq> br_tail (rc_ring x)) \<and>
     (\<forall>v. rc_producer x = P_Stored v \<longrightarrow> the (br_storage (rc_ring x)) ! br_head (rc_ring x) = v) \<and>
     (rc_consumer x \<noteq> C_Idle \<longrightarrow> br_head (rc_ring x) \<noteq> br_tail (rc_ring x)) \<and>
     (\<forall>v. rc_consumer x = C_Taken v \<longrightarrow> ring_load (rc_ring x) = v)"

lemma store_keeps:
  assumes "ring_ok r"
  shows "ring_ok (ring_store v r)" "ring_bytes (ring_store v r) = ring_bytes r"
    "the (br_storage (ring_store v r)) ! br_head r = v" "br_head r \<noteq> br_tail r \<Longrightarrow> ring_load (ring_store v r) = ring_load r"
    "br_head (ring_store v r) = br_head r" "br_tail (ring_store v r) = br_tail r"
    "br_storage_size (ring_store v r) = br_storage_size r" "ring_next (ring_store v r) = ring_next r"
  using assms unused_slot [OF assms]
  by (auto simp: ring_store_def ring_ok_def ring_load_def ring_next_def fun_eq_iff)

lemma publish_head_ok:
  assumes "ring_ok r" "ring_next r (br_head r) \<noteq> br_tail r" "the (br_storage r) ! br_head r = v"
  shows "ring_ok (publish_head r)" "ring_bytes (publish_head r) = ring_bytes r @ [v]"
    "br_storage_size (publish_head r) = br_storage_size r"
proof -
  have "ring_store v r = r" using assms(1,3) by (auto simp: ring_store_def ring_ok_def)
  then show "ring_ok (publish_head r)" "ring_bytes (publish_head r) = ring_bytes r @ [v]"
    "br_storage_size (publish_head r) = br_storage_size r"
    using push_ok [OF assms(1), of v] push_steps [OF assms(1), of v] assms(2) by (auto split: if_splits)
qed

lemma publish_tail_ok:
  assumes "ring_ok r" "br_head r \<noteq> br_tail r"
  shows "ring_ok (publish_tail r)" "ring_bytes r = ring_load r # ring_bytes (publish_tail r)"
    "br_storage_size (publish_tail r) = br_storage_size r"
  using pop_ok [OF assms(1), of 0] pop_steps [OF assms(1), of 0] assms(2) by (auto split: list.splits)

lemma race_ok_step:
  assumes "race_step x y" "race_ok n x"
  shows "race_ok n y"
  using assms
proof cases
  case (push_store v)
  then show ?thesis using assms(2) store_keeps [of "rc_ring x" v] by (auto simp: race_ok_def)
next
  case (push_publish v)
  then have full: "ring_next (rc_ring x) (br_head (rc_ring x)) \<noteq> br_tail (rc_ring x)"
    and ok: "ring_ok (rc_ring x)" "the (br_storage (rc_ring x)) ! br_head (rc_ring x) = v"
    using assms(2) by (auto simp: race_ok_def)
  show ?thesis
    using push_publish assms(2) publish_head_ok [OF ok(1) full ok(2)] full
    by (auto simp: race_ok_def publish_head_def ring_load_def)
next
  case (pop_publish v)
  then have ok: "ring_ok (rc_ring x)" "br_head (rc_ring x) \<noteq> br_tail (rc_ring x)" "ring_load (rc_ring x) = v"
    using assms(2) by (auto simp: race_ok_def)
  have room: "ring_next (publish_tail (rc_ring x)) (br_head (rc_ring x)) \<noteq> br_tail (publish_tail (rc_ring x))"
    using ok by (auto simp: publish_tail_def ring_next_def ring_ok_def Let_def split: if_splits)
  show ?thesis
    using pop_publish assms(2) publish_tail_ok [OF ok(1,2)] ok room
    by (auto simp: race_ok_def publish_tail_def)
qed (auto simp: race_ok_def)

lemma race_reachable_ok: "race_reachable n x \<Longrightarrow> race_ok n x"
proof (induction rule: race_reachable.induct)
  case (race_start junk s r)
  then show ?case using ring_init_ok [of junk s n "Some r"] by (auto simp: race_ok_def)
qed (rule race_ok_step)

subsection \<open>Property\<close>

text \<open>
  C25. However the accesses of the interrupt and the main loop interleave, no byte is lost, repeated
  or reordered: what the consumer has popped, followed by what is in the ring, is what the producer
  has pushed; a byte the consumer has taken but not yet released is the oldest one in the ring; the
  ring never holds more than \<open>n - 1\<close> bytes; and an idle consumer can start a pop as long as any
  pushed byte is outstanding.
\<close>

theorem race_fifo:
  assumes "race_reachable n x"
  shows "rc_popped x @ ring_bytes (rc_ring x) = rc_pushed x \<and>
    length (ring_bytes (rc_ring x)) \<le> n - 1 \<and>
    (\<forall>v. rc_consumer x = C_Taken v \<longrightarrow> (\<exists>vs. ring_bytes (rc_ring x) = v # vs)) \<and>
    (rc_popped x \<noteq> rc_pushed x \<and> rc_consumer x = C_Idle \<longrightarrow>
       (\<exists>y. race_step x y \<and> rc_consumer y = C_Checked))"
proof -
  have ok: "race_ok n x" using assms by (rule race_reachable_ok)
  then have r: "ring_ok (rc_ring x)" "br_storage_size (rc_ring x) = n" by (simp_all add: race_ok_def)
  have taken: "\<exists>vs. ring_bytes (rc_ring x) = v # vs" if "rc_consumer x = C_Taken v" for v
    using ok that publish_tail_ok(2) [OF r(1)] by (auto simp: race_ok_def)
  have starts: "\<exists>y. race_step x y \<and> rc_consumer y = C_Checked"
    if out: "rc_popped x \<noteq> rc_pushed x" "rc_consumer x = C_Idle"
  proof -
    have "ring_bytes (rc_ring x) \<noteq> []" using ok out(1) by (auto simp: race_ok_def)
    then have "br_head (rc_ring x) \<noteq> br_tail (rc_ring x)" using ring_empty [OF r(1)] by (simp flip: length_0_conv)
    from pop_check [OF out(2) this] show ?thesis
      by (intro exI [of _ "x\<lparr>rc_consumer := C_Checked\<rparr>"]) simp
  qed
  have "length (ring_bytes (rc_ring x)) \<le> n - 1" using ring_size_less [OF r(1)] r(2) by simp
  then show ?thesis using ok taken starts by (auto simp: race_ok_def)
qed

theorem race_fifo_witness:
  "\<exists>x. race_reachable 3 x \<and> rc_pushed x = [5, 6] \<and> rc_popped x = [5] \<and> ring_bytes (rc_ring x) = [6]"
proof -
  define r0 where "r0 = \<lparr>br_storage = Some [0, 0, 0], br_storage_size = 3, br_head = 0, br_tail = 0\<rparr>"
  have "byte_ring_init (Some r0) (Some [0, 0, 0]) 3 = (True, Some r0)" by (simp add: byte_ring_init_def r0_def)
  from race_start [OF this]
  have x0: "race_reachable 3 \<lparr>rc_ring = r0, rc_producer = P_Idle, rc_consumer = C_Idle, rc_pushed = [], rc_popped = []\<rparr>"
    by simp
  note defs = r0_def ring_store_def publish_head_def publish_tail_def ring_load_def ring_next_def
  note x1 = race_next [OF x0 push_check [where v = 5], simplified, simplified defs, simplified]
  note x2 = race_next [OF x1 push_store [where v = 5], simplified, simplified defs, simplified]
  note x3 = race_next [OF x2 push_publish [where v = 5], simplified, simplified defs, simplified]
  note x4 = race_next [OF x3 pop_check, simplified, simplified defs, simplified]
  note x5 = race_next [OF x4 push_check [where v = 6], simplified, simplified defs, simplified]
  note x6 = race_next [OF x5 pop_take, simplified, simplified defs, simplified]
  note x7 = race_next [OF x6 push_store [where v = 6], simplified, simplified defs, simplified]
  note x8 = race_next [OF x7 pop_publish [where v = 5], simplified, simplified defs, simplified]
  note x9 = race_next [OF x8 push_publish [where v = 6], simplified, simplified defs, simplified]
  show ?thesis by (rule exI, rule conjI, rule x9) (use race_fifo [OF x9] in simp)
qed

end
