(* ===== verification/Soft_Uart.thy ===== *)
theory Soft_Uart
  imports Byte_Ring
begin

text \<open>
  \<^verbatim>\<open>firmware/src/soft_half_duplex_uart.c\<close>: the single-wire UART bit by bit over the board's callbacks. The
  callbacks are parameters, functions on a context of any type, which \<open>su_context\<close> holds; they may
  fail, take the line anywhere and change the context in any way. The number of ports and the size of
  their buffers are those of \<open>su_ports\<close>. A call that never returns is \<open>None\<close>.
\<close>

subsection \<open>Data\<close>

record 'c uart_hal =
  hal_port_prepare :: "'c \<Rightarrow> byte \<Rightarrow> bool \<times> 'c"
  hal_set_output :: "'c \<Rightarrow> byte \<Rightarrow> bool \<Rightarrow> bool \<times> 'c"
  hal_set_input :: "'c \<Rightarrow> byte \<Rightarrow> bool \<times> 'c"
  hal_read_input :: "'c \<Rightarrow> byte \<Rightarrow> bool \<Rightarrow> bool \<times> bool \<times> 'c"
  hal_timing_hz :: u32
  hal_delay_ticks :: "'c \<Rightarrow> u32 \<Rightarrow> 'c"
  hal_irq_save_disable :: "'c \<Rightarrow> u32 \<times> 'c"
  hal_irq_restore :: "'c \<Rightarrow> u32 \<Rightarrow> 'c"

text \<open>The callbacks as the board passes them, each of which may be \<^verbatim>\<open>NULL\<close>.\<close>

record 'c uart_hal_pointers =
  hp_port_prepare :: "('c \<Rightarrow> byte \<Rightarrow> bool \<times> 'c) option"
  hp_set_output :: "('c \<Rightarrow> byte \<Rightarrow> bool \<Rightarrow> bool \<times> 'c) option"
  hp_set_input :: "('c \<Rightarrow> byte \<Rightarrow> bool \<times> 'c) option"
  hp_read_input :: "('c \<Rightarrow> byte \<Rightarrow> bool \<Rightarrow> bool \<times> bool \<times> 'c) option"
  hp_timing_hz :: u32
  hp_delay_ticks :: "('c \<Rightarrow> u32 \<Rightarrow> 'c) option"
  hp_irq_save_disable :: "('c \<Rightarrow> u32 \<times> 'c) option"
  hp_irq_restore :: "('c \<Rightarrow> u32 \<Rightarrow> 'c) option"
  hp_context :: 'c

record soft_uart_port =
  sp_receive_ring :: byte_ring
  sp_receive_storage :: "byte list"
  sp_configured :: bool

record 'c soft_uart =
  su_hal :: "'c uart_hal"
  su_context :: 'c
  su_ports :: "soft_uart_port list"

record soft_uart_timing =
  tm_whole_ticks :: u32
  tm_remainder :: u32
  tm_divisor :: u32
  tm_accumulator :: u32

definition SOFT_UART_BAUD :: u32 where "SOFT_UART_BAUD = 40000"
definition SOFT_UART_MAX_WRITE_BYTES :: nat where "SOFT_UART_MAX_WRITE_BYTES = 32"
definition SOFT_UART_FIRST_RESPONSE_TIMEOUT_US :: u16 where "SOFT_UART_FIRST_RESPONSE_TIMEOUT_US = 3000"
definition SOFT_UART_NEXT_RESPONSE_TIMEOUT_US :: u16 where "SOFT_UART_NEXT_RESPONSE_TIMEOUT_US = 250"
definition SOFT_UART_START_POLL_HZ :: u32 where "SOFT_UART_START_POLL_HZ = 2000000"

subsection \<open>Timing\<close>

definition port_valid :: "'c soft_uart option \<Rightarrow> byte \<Rightarrow> bool" where
  "port_valid uart port \<longleftrightarrow> (case uart of None \<Rightarrow> False | Some u \<Rightarrow> unat port < length (su_ports u))"

definition timing_init :: "'c soft_uart \<Rightarrow> soft_uart_timing option" where
  "timing_init u =
     (let divisor = SOFT_UART_BAUD * 2; hz = hal_timing_hz (su_hal u) in
      if divisor = 0 \<or> hz < divisor then None
      else if hz div divisor = 0 then None
      else Some \<lparr>tm_whole_ticks = hz div divisor, tm_remainder = hz mod divisor, tm_divisor = divisor,
                 tm_accumulator = 0\<rparr>)"

definition hal_delay :: "u32 \<Rightarrow> 'c soft_uart \<Rightarrow> 'c soft_uart" where
  "hal_delay ticks u = u\<lparr>su_context := hal_delay_ticks (su_hal u) (su_context u) ticks\<rparr>"

definition delay_half_bit :: "'c soft_uart \<times> soft_uart_timing \<Rightarrow> 'c soft_uart \<times> soft_uart_timing" where
  "delay_half_bit = (\<lambda>(u, timing).
     (let sum = tm_accumulator timing + tm_remainder timing;
          carry = (sum \<ge> tm_divisor timing)
      in (hal_delay (if carry then tm_whole_ticks timing + 1 else tm_whole_ticks timing) u,
          timing\<lparr>tm_accumulator := (if carry then sum - tm_divisor timing else sum)\<rparr>)))"

definition delay_bit :: "'c soft_uart \<times> soft_uart_timing \<Rightarrow> 'c soft_uart \<times> soft_uart_timing" where
  "delay_bit s = delay_half_bit (delay_half_bit s)"

subsection \<open>Sending\<close>

definition drive :: "byte \<Rightarrow> bool \<Rightarrow> 'c soft_uart \<Rightarrow> bool \<times> 'c soft_uart" where
  "drive port high u =
     (let (done, c) = hal_set_output (su_hal u) (su_context u) port high in (done, u\<lparr>su_context := c\<rparr>))"

text \<open>A level for the length of a bit; whether the callback succeeds is not looked at.\<close>

definition send_level ::
  "byte \<Rightarrow> bool \<Rightarrow> 'c soft_uart \<times> soft_uart_timing \<Rightarrow> 'c soft_uart \<times> soft_uart_timing" where
  "send_level port high = (\<lambda>(u, timing). delay_bit (snd (drive port high u), timing))"

definition transmit_byte ::
  "byte \<Rightarrow> byte \<Rightarrow> 'c soft_uart \<times> soft_uart_timing \<Rightarrow> 'c soft_uart \<times> soft_uart_timing" where
  "transmit_byte port v s =
     send_level port True
       (fold (\<lambda>i. send_level port (v AND push_bit i 1 \<noteq> 0)) [0..<8] (send_level port False s))"

subsection \<open>Receiving\<close>

definition sense :: "byte \<Rightarrow> bool \<Rightarrow> 'c soft_uart \<Rightarrow> bool \<times> bool \<times> 'c soft_uart" where
  "sense port high u =
     (let (done, level, c) = hal_read_input (su_hal u) (su_context u) port high
      in (done, level, u\<lparr>su_context := c\<rparr>))"

partial_function (option) wait_loop ::
  "byte \<Rightarrow> u32 \<Rightarrow> u32 \<Rightarrow> u32 \<Rightarrow> 'c soft_uart \<Rightarrow> (bool \<times> 'c soft_uart) option" where
  "wait_loop port poll_ticks timeout_ticks elapsed u =
     (if elapsed < timeout_ticks
      then if \<not> fst (sense port True u) then Some (False, snd (snd (sense port True u)))
           else if \<not> fst (snd (sense port True u)) then Some (True, snd (snd (sense port True u)))
           else wait_loop port poll_ticks timeout_ticks (elapsed + poll_ticks)
                  (hal_delay poll_ticks (snd (snd (sense port True u))))
      else Some (False, u))"

definition wait_for_start :: "byte \<Rightarrow> u16 \<Rightarrow> 'c soft_uart \<Rightarrow> (bool \<times> 'c soft_uart) option" where
  "wait_for_start port timeout_us u =
     (let hz = hal_timing_hz (su_hal u);
          poll_ticks = (hz + SOFT_UART_START_POLL_HZ - 1) div SOFT_UART_START_POLL_HZ;
          timeout_ticks = ucast ((ucast hz * ucast timeout_us :: u64) div 1000000)
      in wait_loop port poll_ticks timeout_ticks 0 u)"

text \<open>The loop over the data bits, then the stop bit.\<close>

fun receive_bits ::
  "byte \<Rightarrow> nat list \<Rightarrow> byte \<Rightarrow> 'c soft_uart \<times> soft_uart_timing \<Rightarrow>
   byte option \<times> 'c soft_uart \<times> soft_uart_timing" where
  "receive_bits port [] received s = (Some received, s)"
| "receive_bits port (i # is) received (u, timing) =
     (let (done, high, u1) = sense port False u in
      if \<not> done then (None, u1, timing)
      else receive_bits port is (if high then received OR push_bit i 1 else received) (delay_bit (u1, timing)))"

definition receive_byte ::
  "byte \<Rightarrow> 'c soft_uart \<times> soft_uart_timing \<Rightarrow> byte option \<times> 'c soft_uart \<times> soft_uart_timing" where
  "receive_byte port s =
     (case receive_bits port [0..<8] 0 (delay_half_bit (delay_half_bit (delay_half_bit s))) of
        (None, s1) \<Rightarrow> (None, s1)
      | (Some received, u, timing) \<Rightarrow>
          (let (done, stop_high, u1) = sense port False u
           in (if \<not> done \<or> \<not> stop_high then None else Some received, u1, timing)))"

subsection \<open>The functions of the driver\<close>

definition soft_uart_init ::
  "'c soft_uart option \<Rightarrow> 'c uart_hal_pointers option \<Rightarrow> bool \<times> 'c soft_uart option" where
  "soft_uart_init uart hal =
     (case (uart, hal) of
        (Some u, Some h) \<Rightarrow>
          (case (hp_port_prepare h, hp_set_output h, hp_set_input h, hp_read_input h) of
             (Some prepare, Some output, Some input, Some read) \<Rightarrow>
               (case (hp_delay_ticks h, hp_irq_save_disable h, hp_irq_restore h) of
                  (Some delay, Some save, Some restore) \<Rightarrow>
                    if hp_timing_hz h = 0 then (False, uart)
                    else
                      let u1 = u\<lparr>su_hal := \<lparr>hal_port_prepare = prepare, hal_set_output = output,
                                 hal_set_input = input, hal_read_input = read,
                                 hal_timing_hz = hp_timing_hz h, hal_delay_ticks = delay,
                                 hal_irq_save_disable = save, hal_irq_restore = restore\<rparr>,
                               su_context := hp_context h\<rparr>;
                          init = (\<lambda>p. byte_ring_init (Some (sp_receive_ring p))
                                   (Some (sp_receive_storage p)) (length (sp_receive_storage p)));
                          ready = takeWhile (\<lambda>p. fst (init p)) (su_ports u1);
                          ports = map (\<lambda>p. p\<lparr>sp_receive_ring := the (snd (init p)), sp_configured := False\<rparr>)
                                    ready @ drop (length ready) (su_ports u1)
                      in (length ready = length (su_ports u1), Some (u1\<lparr>su_ports := ports\<rparr>))
                | _ \<Rightarrow> (False, uart))
           | _ \<Rightarrow> (False, uart))
      | _ \<Rightarrow> (False, uart))"

definition soft_uart_configure ::
  "'c soft_uart option \<Rightarrow> byte \<Rightarrow> u32 \<Rightarrow> byte \<Rightarrow> byte \<Rightarrow> byte \<Rightarrow> bool \<times> 'c soft_uart option" where
  "soft_uart_configure uart port baud_rate data_bits stop_bits parity =
     (case uart of
        None \<Rightarrow> (False, uart)
      | Some u \<Rightarrow>
          if \<not> port_valid uart port \<or> baud_rate \<noteq> SOFT_UART_BAUD \<or> data_bits \<noteq> 8 \<or> stop_bits \<noteq> 1 \<or>
             parity \<noteq> 0 \<or> timing_init u = None
          then (False, uart)
          else let (prepared, c1) = hal_port_prepare (su_hal u) (su_context u) port in
            if \<not> prepared then (False, Some (u\<lparr>su_context := c1\<rparr>))
            else let (listening, c2) = hal_set_input (su_hal u) c1 port in
              if \<not> listening then (False, Some (u\<lparr>su_context := c2\<rparr>))
              else let p = su_ports u ! unat port in
                (True, Some (u\<lparr>su_context := c2,
                   su_ports := (su_ports u)[unat port := p\<lparr>sp_receive_ring :=
                     the (byte_ring_clear (Some (sp_receive_ring p))), sp_configured := True\<rparr>]\<rparr>)))"

definition soft_uart_read ::
  "'c soft_uart option \<Rightarrow> byte \<Rightarrow> byte list option \<Rightarrow> nat \<Rightarrow> nat \<times> byte list option \<times> 'c soft_uart option" where
  "soft_uart_read uart port data capacity =
     (case uart of
        None \<Rightarrow> (0, data, uart)
      | Some u \<Rightarrow>
          if \<not> port_valid uart port \<or> data = None \<or> \<not> sp_configured (su_ports u ! unat port)
          then (0, data, uart)
          else let p = su_ports u ! unat port;
                   (n, data', ring) = byte_ring_read (Some (sp_receive_ring p)) data capacity
            in (n, data', Some (u\<lparr>su_ports := (su_ports u)[unat port := p\<lparr>sp_receive_ring := the ring\<rparr>]\<rparr>)))"

text \<open>The loop that stores the bytes of the response; its timing starts anew for every byte.\<close>

partial_function (option) response_loop :: "byte \<Rightarrow> u16 \<Rightarrow> 'c soft_uart \<Rightarrow> (bool \<times> 'c soft_uart) option" where
  "response_loop port timeout_us u =
     Option.bind (wait_for_start port timeout_us u) (\<lambda>started.
       if \<not> fst started then Some (True, snd started)
       else case timing_init (snd started) of
         None \<Rightarrow> Some (True, snd started)
       | Some timing \<Rightarrow>
           (case fst (receive_byte port (snd started, timing)) of
              None \<Rightarrow> Some (True, fst (snd (receive_byte port (snd started, timing))))
            | Some received \<Rightarrow>
                (let u1 = fst (snd (receive_byte port (snd started, timing)));
                     p = su_ports u1 ! unat port;
                     pushed = byte_ring_push (Some (sp_receive_ring p)) received;
                     u2 = u1\<lparr>su_ports := (su_ports u1)[unat port := p\<lparr>sp_receive_ring := the (snd pushed)\<rparr>]\<rparr>
                 in if \<not> fst pushed then Some (False, u2)
                    else response_loop port SOFT_UART_NEXT_RESPONSE_TIMEOUT_US u2)))"

definition soft_uart_write ::
  "'c soft_uart option \<Rightarrow> byte \<Rightarrow> byte list option \<Rightarrow> nat \<Rightarrow> (bool \<times> 'c soft_uart option) option" where
  "soft_uart_write uart port data n =
     (case (uart, data) of
        (Some u, Some bs) \<Rightarrow>
          if \<not> port_valid uart port \<or> n = 0 \<or> n > SOFT_UART_MAX_WRITE_BYTES \<or>
             \<not> sp_configured (su_ports u ! unat port)
          then Some (False, uart)
          else (case timing_init u of
            None \<Rightarrow> Some (False, uart)
          | Some timing \<Rightarrow>
              let (interrupt_state, c) = hal_irq_save_disable (su_hal u) (su_context u);
                  (driven, u1) = drive port True (u\<lparr>su_context := c\<rparr>);
                  finish = (\<lambda>(success, w). (success, Some (w\<lparr>su_context :=
                    hal_irq_restore (su_hal w) (su_context w) interrupt_state\<rparr>)))
              in if \<not> driven then Some (finish (False, u1))
                 else let (u2, _) = fold (transmit_byte port) (take n bs) (delay_bit (delay_bit (u1, timing)));
                          (listening, c2) = hal_set_input (su_hal u2) (su_context u2) port;
                          u3 = u2\<lparr>su_context := c2\<rparr>
                   in if \<not> listening then Some (finish (False, u3))
                      else map_option finish (response_loop port SOFT_UART_FIRST_RESPONSE_TIMEOUT_US u3))
      | _ \<Rightarrow> Some (False, uart))"

end
