(* ===== verification/Soft_Uart_Line.thy ===== *)
theory Soft_Uart_Line
  imports Soft_Uart
begin

text \<open>
  Properties of the single-wire UART: a write always returns, and the receiver's sampling reads what
  the sender's timing puts on the line.
\<close>

subsection \<open>What a transfer leaves alone\<close>

lemma hal_delay_same [simp]: "su_ports (hal_delay t u) = su_ports u" "su_hal (hal_delay t u) = su_hal u"
  by (simp_all add: hal_delay_def)

lemma sense_same [simp]:
  "su_ports (snd (snd (sense port high u))) = su_ports u" "su_hal (snd (snd (sense port high u))) = su_hal u"
  by (simp_all add: sense_def split_beta)

lemma drive_same [simp]:
  "su_ports (snd (drive port high u)) = su_ports u" "su_hal (snd (drive port high u)) = su_hal u"
  by (simp_all add: drive_def split_beta)

lemma delay_half_bit_same [simp]:
  "su_ports (fst (delay_half_bit s)) = su_ports (fst s)" "su_hal (fst (delay_half_bit s)) = su_hal (fst s)"
  by (simp_all add: delay_half_bit_def split_beta Let_def)

lemma delay_bit_same [simp]:
  "su_ports (fst (delay_bit s)) = su_ports (fst s)" "su_hal (fst (delay_bit s)) = su_hal (fst s)"
  by (simp_all add: delay_bit_def)

lemma send_level_same [simp]:
  "su_ports (fst (send_level port high s)) = su_ports (fst s)" "su_hal (fst (send_level port high s)) = su_hal (fst s)"
  by (simp_all add: send_level_def split_beta)

lemma send_levels_same [simp]:
  "su_ports (fst (fold (\<lambda>i. send_level port (f i)) is s)) = su_ports (fst s)"
  "su_hal (fst (fold (\<lambda>i. send_level port (f i)) is s)) = su_hal (fst s)"
  by (induction "is" arbitrary: s) simp_all

lemma transmit_byte_same [simp]:
  "su_ports (fst (transmit_byte port v s)) = su_ports (fst s)" "su_hal (fst (transmit_byte port v s)) = su_hal (fst s)"
  by (simp_all add: transmit_byte_def)

lemma transmit_bytes_same [simp]:
  "su_ports (fst (fold (transmit_byte port) bs s)) = su_ports (fst s)"
  "su_hal (fst (fold (transmit_byte port) bs s)) = su_hal (fst s)"
  by (induction bs arbitrary: s) simp_all

lemma receive_bits_same [simp]:
  "su_ports (fst (snd (receive_bits port is r s))) = su_ports (fst s)"
  "su_hal (fst (snd (receive_bits port is r s))) = su_hal (fst s)"
proof (induction "is" arbitrary: r s)
  case (Cons i "is")
  case 1
  show ?case using Cons.IH by (cases s) (simp add: split_beta Let_def)
  case 2
  show ?case using Cons.IH by (cases s) (simp add: split_beta Let_def)
qed simp_all

lemma receive_byte_same [simp]:
  "su_ports (fst (snd (receive_byte port s))) = su_ports (fst s)"
  "su_hal (fst (snd (receive_byte port s))) = su_hal (fst s)"
  using receive_bits_same [of port "[0..<8]" 0 "delay_half_bit (delay_half_bit (delay_half_bit s))"]
  by (auto simp: receive_byte_def split_beta Let_def split: option.splits prod.splits)

subsection \<open>A write returns\<close>

definition soft_uart_ok :: "'c soft_uart \<Rightarrow> bool" where
  "soft_uart_ok u \<longleftrightarrow> (\<forall>p \<in> set (su_ports u). sp_configured p \<longrightarrow> ring_ok (sp_receive_ring p))"

lemma wait_loop_returns:
  assumes "poll_ticks \<noteq> 0" "unat timeout_ticks + unat poll_ticks < 2 ^ 32"
  shows "\<exists>b v. wait_loop port poll_ticks timeout_ticks elapsed u = Some (b, v) \<and>
    su_ports v = su_ports u \<and> su_hal v = su_hal u"
proof (induction "unat timeout_ticks - unat elapsed" arbitrary: elapsed u rule: less_induct)
  case less
  let ?u1 = "snd (snd (sense port True u))"
  show ?case
  proof (cases "elapsed < timeout_ticks")
    case True
    then have less': "unat elapsed < unat timeout_ticks" by (simp add: word_less_nat_alt)
    then have sum: "unat (elapsed + poll_ticks) = unat elapsed + unat poll_ticks"
      using assms(2) by (intro unat_add_lem [THEN iffD1]) simp
    have "0 < unat poll_ticks" using assms(1) by (simp add: unat_gt_0)
    then have "unat timeout_ticks - unat (elapsed + poll_ticks) < unat timeout_ticks - unat elapsed"
      using less' sum by simp
    from less.hyps [OF this, of "hal_delay poll_ticks ?u1"] show ?thesis
      by (subst wait_loop.simps) (auto simp: True)
  next
    case False
    then show ?thesis by (subst wait_loop.simps) auto
  qed
qed

lemma wait_for_start_returns:
  assumes "unat (hal_timing_hz (su_hal u)) \<le> 2 ^ 32 - 2000000" "hal_timing_hz (su_hal u) \<noteq> 0" "timeout_us \<le> 3000"
  shows "\<exists>b v. wait_for_start port timeout_us u = Some (b, v) \<and> su_ports v = su_ports u \<and> su_hal v = su_hal u"
proof -
  define hz where "hz = hal_timing_hz (su_hal u)"
  have hz: "unat hz \<le> 2 ^ 32 - 2000000" "0 < unat hz" using assms(1,2) by (simp_all add: hz_def unat_gt_0)
  have "unat (hz + 1999999) = unat hz + unat (1999999 :: u32)"
    using hz(1) by (intro unat_add_lem [THEN iffD1]) simp
  then have sum': "unat (hz + 1999999) = unat hz + 1999999" by simp
  have shift: "hz + 2000000 - 1 = hz + 1999999" by simp
  have sum: "unat (hz + SOFT_UART_START_POLL_HZ - 1) = unat hz + 1999999"
    unfolding SOFT_UART_START_POLL_HZ_def by (simp only: shift sum')
  then have poll: "unat ((hz + SOFT_UART_START_POLL_HZ - 1) div SOFT_UART_START_POLL_HZ) = (unat hz + 1999999) div 2000000"
    by (simp add: unat_div SOFT_UART_START_POLL_HZ_def)
  have t: "unat timeout_us \<le> 3000" using assms(3) by (simp add: word_le_nat_alt)
  have prod: "unat hz * unat timeout_us \<le> 2 ^ 32 * 3000"
    using hz(1) t by (intro mult_le_mono) simp_all
  have "unat (ucast hz * ucast timeout_us :: u64) = unat hz * unat timeout_us"
  proof -
    have "unat (ucast hz :: u64) = unat hz" "unat (ucast timeout_us :: u64) = unat timeout_us"
      using unsigned_less [of hz, where 'a = nat] unsigned_less [of timeout_us, where 'a = nat]
      by (simp_all add: unsigned_ucast_eq take_bit_nat_eq_self)
    then show ?thesis using prod by (simp add: unat_word_ariths)
  qed
  then have "unat ((ucast hz * ucast timeout_us :: u64) div 1000000) \<le> 2 ^ 32 * 3000 div 1000000"
    using prod by (simp add: unat_div div_le_mono)
  moreover have "unat (ucast w :: u32) \<le> unat w" for w :: u64
    by (simp add: unsigned_ucast_eq)
  ultimately have timeout: "unat (ucast ((ucast hz * ucast timeout_us :: u64) div 1000000) :: u32) \<le> 2 ^ 32 * 3000 div 1000000"
    by (meson le_trans)
  have "(unat hz + 1999999) div 2000000 \<le> (2 ^ 32 - 2000000 + 1999999) div 2000000"
    using hz(1) by (intro div_le_mono) simp
  moreover have "0 < (unat hz + 1999999) div 2000000" using hz(2) by (simp add: div_greater_zero_iff)
  ultimately show ?thesis
    unfolding wait_for_start_def Let_def hz_def [symmetric]
    using timeout poll by (intro wait_loop_returns) (auto simp: unat_gt_0 [symmetric])
qed

lemma ports_update_ok:
  assumes "soft_uart_ok u" "ring_ok ring"
  shows "soft_uart_ok (u\<lparr>su_ports := (su_ports u)[i := (su_ports u ! i)\<lparr>sp_receive_ring := ring\<rparr>]\<rparr>)"
proof -
  have "x \<in> set (su_ports u) \<or> x = (su_ports u ! i)\<lparr>sp_receive_ring := ring\<rparr>"
    if "x \<in> set ((su_ports u)[i := (su_ports u ! i)\<lparr>sp_receive_ring := ring\<rparr>])" for x
    using that set_update_subset_insert [of "su_ports u" i] by auto
  then show ?thesis using assms unfolding soft_uart_ok_def by fastforce
qed

text \<open>Every turn of the loop fills a place of the ring or ends it.\<close>

lemma response_loop_returns:
  assumes "unat (hal_timing_hz (su_hal u)) \<le> 2 ^ 32 - 2000000" "hal_timing_hz (su_hal u) \<noteq> 0"
    and "timeout_us \<le> 3000" "soft_uart_ok u" "unat port < length (su_ports u)"
    and "sp_configured (su_ports u ! unat port)"
  shows "\<exists>b v. response_loop port timeout_us u = Some (b, v) \<and> soft_uart_ok v"
  using assms
proof (induction "byte_ring_free (Some (sp_receive_ring (su_ports u ! unat port)))" arbitrary: u timeout_us rule: less_induct)
  case less
  let ?p = "su_ports u ! unat port"
  have ring: "ring_ok (sp_receive_ring ?p)" using less.prems(4-6) by (auto simp: soft_uart_ok_def)
  obtain b v where w: "wait_for_start port timeout_us u = Some (b, v)" "su_ports v = su_ports u" "su_hal v = su_hal u"
    using wait_for_start_returns [OF less.prems(1-3)] by blast
  have v: "soft_uart_ok v" using less.prems(4) w(2) by (simp add: soft_uart_ok_def)
  show ?case
  proof (cases b)
    case True
    show ?thesis
    proof (cases "timing_init v")
      case None
      then show ?thesis using w v True by (subst response_loop.simps) auto
    next
      case (Some timing)
      let ?r = "receive_byte port (v, timing)"
      have same: "su_ports (fst (snd ?r)) = su_ports u" "su_hal (fst (snd ?r)) = su_hal u" using w by simp_all
      then have ok1: "soft_uart_ok (fst (snd ?r))" using less.prems(4) by (simp add: soft_uart_ok_def)
      show ?thesis
      proof (cases "fst ?r")
        case None
        then show ?thesis using w True Some ok1 by (subst response_loop.simps) auto
      next
        case (Some received)
        let ?pushed = "byte_ring_push (Some (sp_receive_ring ?p)) received"
        let ?u2 = "(fst (snd ?r))\<lparr>su_ports := (su_ports u)[unat port := ?p\<lparr>sp_receive_ring := the (snd ?pushed)\<rparr>]\<rparr>"
        have loop: "response_loop port timeout_us u =
            (if \<not> fst ?pushed then Some (False, ?u2)
             else response_loop port SOFT_UART_NEXT_RESPONSE_TIMEOUT_US ?u2)"
          by (subst response_loop.simps) (simp add: w True Some \<open>timing_init v = Some timing\<close> same Let_def)
        note push = push_ok [OF ring, of received]
        have ring2: "ring_ok (the (snd ?pushed))" using push ring by (auto split: if_splits)
        have ok2: "soft_uart_ok ?u2"
          using ports_update_ok [OF ok1 ring2, of "unat port"] by (simp add: same w(2))
        show ?thesis
        proof (cases "fst ?pushed")
          case True
          have port2: "su_ports ?u2 ! unat port = ?p\<lparr>sp_receive_ring := the (snd ?pushed)\<rparr>"
            using less.prems(5) by simp
          have "byte_ring_free (Some (sp_receive_ring (su_ports ?u2 ! unat port))) <
              byte_ring_free (Some (sp_receive_ring ?p))"
            unfolding port2 using push True ring_free [OF ring] by (auto simp: ring_free split: if_splits)
          from less.hyps [OF this] show ?thesis
            using less.prems ok2 True port2 same
            by (simp add: loop SOFT_UART_NEXT_RESPONSE_TIMEOUT_US_def)
        next
          case False
          then show ?thesis using loop ok2 by auto
        qed
      qed
    qed
  next
    case False
    then show ?thesis using w v by (subst response_loop.simps) auto
  qed
qed

lemma timing_init_Some:
  "timing_init u = Some tm \<longleftrightarrow> 80000 \<le> hal_timing_hz (su_hal u) \<and>
   tm = \<lparr>tm_whole_ticks = hal_timing_hz (su_hal u) div 80000, tm_remainder = hal_timing_hz (su_hal u) mod 80000,
         tm_divisor = 80000, tm_accumulator = 0\<rparr>"
proof -
  have "hal_timing_hz (su_hal u) div 80000 \<noteq> 0" if "80000 \<le> hal_timing_hz (su_hal u)"
  proof -
    have "80000 \<le> unat (hal_timing_hz (su_hal u))" using that by (simp add: word_le_nat_alt)
    then have "0 < unat (hal_timing_hz (su_hal u) div 80000)" by (simp add: unat_div div_greater_zero_iff)
    then show ?thesis by auto
  qed
  then show ?thesis by (auto simp: timing_init_def Let_def SOFT_UART_BAUD_def not_less)
qed

subsection \<open>The line\<close>

text \<open>
  A line as the board sees it: the time in timer ticks and the level at every time. Driving it sets
  the level from now on, reading it looks at the level now, waiting moves the time on. Releasing the
  line leaves it to the pull-up.
\<close>

record line =
  ln_now :: nat
  ln_wave :: "nat \<Rightarrow> bool"

definition line_drive :: "line \<Rightarrow> bool \<Rightarrow> line" where
  "line_drive l high = l\<lparr>ln_wave := (\<lambda>t. if ln_now l \<le> t then high else ln_wave l t)\<rparr>"

definition line_hal :: "u32 \<Rightarrow> line uart_hal" where
  "line_hal hz =
     \<lparr>hal_port_prepare = (\<lambda>l port. (True, l)),
      hal_set_output = (\<lambda>l port high. (True, line_drive l high)),
      hal_set_input = (\<lambda>l port. (True, line_drive l True)),
      hal_read_input = (\<lambda>l port high. (True, ln_wave l (ln_now l), l)),
      hal_timing_hz = hz,
      hal_delay_ticks = (\<lambda>l ticks. l\<lparr>ln_now := ln_now l + unat ticks\<rparr>),
      hal_irq_save_disable = (\<lambda>l. (0, l)),
      hal_irq_restore = (\<lambda>l state. l)\<rparr>"

abbreviation on_line :: "u32 \<Rightarrow> soft_uart_port list \<Rightarrow> line \<Rightarrow> line soft_uart" where
  "on_line hz ports l \<equiv> \<lparr>su_hal = line_hal hz, su_context = l, su_ports = ports\<rparr>"

text \<open>The timing with a carry of \<open>a\<close> ticks of the divisor, as it is after some half bits.\<close>

definition timing_at :: "u32 \<Rightarrow> nat \<Rightarrow> soft_uart_timing" where
  "timing_at hz a = \<lparr>tm_whole_ticks = hz div 80000, tm_remainder = hz mod 80000, tm_divisor = 80000,
     tm_accumulator = word_of_nat a\<rparr>"

lemma delay_half_bit_line:
  assumes "a < 80000"
  shows "delay_half_bit (on_line hz ports l, timing_at hz a) =
    (on_line hz ports (l\<lparr>ln_now := ln_now l + (a + unat hz) div 80000\<rparr>), timing_at hz ((a + unat hz) mod 80000))"
proof -
  have small: "x < 160000 \<Longrightarrow> unat (word_of_nat x :: u32) = x" for x
    by (simp add: unsigned_of_nat take_bit_nat_eq_self)
  let ?r = "unat hz mod 80000" and ?q = "unat hz div 80000"
  have r: "?r < 80000" by simp
  have w: "hz mod 80000 = word_of_nat ?r" "hz div 80000 = word_of_nat ?q"
    by (simp_all add: word_arith_nat_defs)
  have sum: "word_of_nat a + hz mod 80000 = (word_of_nat (a + ?r) :: u32)" by (simp add: w(1))
  have ge: "(80000 :: u32) \<le> word_of_nat (a + ?r) \<longleftrightarrow> 80000 \<le> a + ?r"
    using small [of "a + ?r"] assms r by (simp add: word_le_nat_alt)
  have q: "?q + 1 < 2 ^ 32"
    using unsigned_less [of hz, where 'a = nat] by (simp add: less_mult_imp_div_less)
  have whole: "unat (hz div 80000) = ?q" "unat (hz div 80000 + 1) = ?q + 1"
    using q by (simp_all add: unat_div unat_word_ariths)
  have "(a + h) div n = h div n + (a + h mod n) div n" if "0 < n" for h n :: nat
  proof -
    have "(a + h mod n + h div n * n) div n = h div n + (a + h mod n) div n"
      using that by (simp only: div_mult_self1)
    then show ?thesis by (simp only: add.assoc mod_div_mult_eq)
  qed
  from this [of 80000 "unat hz"] have split_hz: "(a + unat hz) div 80000 = ?q + (a + ?r) div 80000" "(a + unat hz) mod 80000 = (a + ?r) mod 80000"
    by (simp_all only: mod_add_right_eq)
  have delay: "hal_delay ticks (on_line hz ports l) = on_line hz ports (l\<lparr>ln_now := ln_now l + unat ticks\<rparr>)" for ticks
    by (simp add: hal_delay_def line_hal_def)
  show ?thesis
  proof (cases "80000 \<le> a + ?r")
    case True
    note split_hz
    moreover have "(a + ?r) div 80000 = 1" "(a + ?r) mod 80000 = a + ?r - 80000"
      using True assms r by (auto simp: le_div_geq le_mod_geq)
    moreover have "word_of_nat (a + ?r) - 80000 = (word_of_nat (a + ?r - 80000) :: u32)" using True by (simp add: of_nat_diff)
    ultimately show ?thesis
      unfolding delay_half_bit_def timing_at_def split soft_uart_timing.select_convs sum Let_def ge delay
      by (simp only: True if_True whole soft_uart_timing.update_convs)
  next
    case False
    note split_hz
    moreover have "(a + ?r) div 80000 = 0" "(a + ?r) mod 80000 = a + ?r" using False by simp_all
    ultimately show ?thesis
      unfolding delay_half_bit_def timing_at_def split soft_uart_timing.select_convs sum Let_def ge delay
      by (simp only: False if_False whole soft_uart_timing.update_convs add_0_right)
  qed
qed

lemma split_ticks:
  "(a + k * h) div n + ((a + k * h) mod n + m * h) div n = (a + (k + m) * h) div n"
  "((a + k * h) mod n + m * h) mod n = (a + (k + m) * h) mod n" if "0 < n" for a h n :: nat
proof -
  have "(x + y) div n = x div n + (x mod n + y) div n" for x y
  proof -
    have "(x mod n + y + x div n * n) div n = x div n + (x mod n + y) div n"
      using that by (simp only: div_mult_self1)
    moreover have "x mod n + y + x div n * n = x + y" using div_mult_mod_eq [of x n] by linarith
    ultimately show ?thesis by simp
  qed
  from this [of "a + k * h" "m * h"]
  show "(a + k * h) div n + ((a + k * h) mod n + m * h) div n = (a + (k + m) * h) div n"
    by (simp add: algebra_simps)
  show "((a + k * h) mod n + m * h) mod n = (a + (k + m) * h) mod n"
    unfolding mod_add_left_eq by (simp add: algebra_simps)
qed

text \<open>The time and the carry after \<open>k\<close> half bits.\<close>

definition half_bits :: "u32 \<Rightarrow> nat \<Rightarrow> nat \<Rightarrow> nat" where
  "half_bits hz a k = (a + k * unat hz) div 80000"

definition half_bit_carry :: "u32 \<Rightarrow> nat \<Rightarrow> nat \<Rightarrow> nat" where
  "half_bit_carry hz a k = (a + k * unat hz) mod 80000"

lemma half_bits_add:
  "half_bits hz a k + half_bits hz (half_bit_carry hz a k) m = half_bits hz a (k + m)"
  "half_bit_carry hz (half_bit_carry hz a k) m = half_bit_carry hz a (k + m)"
  unfolding half_bits_def half_bit_carry_def by (simp_all only: split_ticks zero_less_numeral)

lemma half_bits_0 [simp]: "a < 80000 \<Longrightarrow> half_bits hz a 0 = 0" by (simp add: half_bits_def)

lemma half_bit_carry_less [simp]: "half_bit_carry hz a k < 80000" by (simp add: half_bit_carry_def)

abbreviation later :: "nat \<Rightarrow> line \<Rightarrow> line" where
  "later n l \<equiv> l\<lparr>ln_now := ln_now l + n\<rparr>"

lemma half_bit_line:
  "a < 80000 \<Longrightarrow> delay_half_bit (on_line hz ports l, timing_at hz a) =
     (on_line hz ports (later (half_bits hz a 1) l), timing_at hz (half_bit_carry hz a 1))"
  using delay_half_bit_line by (simp add: half_bits_def half_bit_carry_def)

lemma half_bit_line_next:
  "delay_half_bit (on_line hz ports (later (n + half_bits hz a k) l), timing_at hz (half_bit_carry hz a k)) =
     (on_line hz ports (later (n + half_bits hz a (Suc k)) l), timing_at hz (half_bit_carry hz a (Suc k)))"
  using half_bits_add(1) [of hz a k 1] half_bits_add(2) [of hz a k 1] by (simp add: half_bit_line add.assoc)

lemma bit_line:
  "a < 80000 \<Longrightarrow> delay_bit (on_line hz ports l, timing_at hz a) =
     (on_line hz ports (later (half_bits hz a 2) l), timing_at hz (half_bit_carry hz a 2))"
  using half_bit_line_next [where n = 0 and k = 1 and a = a] by (simp add: delay_bit_def half_bit_line numeral_2_eq_2)

subsection \<open>What the sender puts on the line\<close>

lemma send_levels_line:
  assumes "a < 80000"
  shows "\<exists>w. fold (send_level port) ls (on_line hz ports l, timing_at hz a) =
      (on_line hz ports \<lparr>ln_now = ln_now l + half_bits hz a (2 * length ls), ln_wave = w\<rparr>,
       timing_at hz (half_bit_carry hz a (2 * length ls))) \<and>
    (\<forall>t < ln_now l. w t = ln_wave l t) \<and>
    (\<forall>i < length ls. \<forall>t. ln_now l + half_bits hz a (2 * i) \<le> t \<and>
       (t < ln_now l + half_bits hz a (2 * Suc i) \<or> Suc i = length ls) \<longrightarrow> w t = ls ! i)"
  using assms
proof (induction ls arbitrary: l a)
  case Nil
  then show ?case by (auto simp: half_bit_carry_def intro!: exI [of _ "ln_wave l"])
next
  case (Cons x ls)
  define l1 where "l1 = later (half_bits hz a 2) (line_drive l x)"
  have now: "ln_now l1 = ln_now l + half_bits hz a 2" by (simp add: l1_def line_drive_def)
  have step: "send_level port x (on_line hz ports l, timing_at hz a) =
      (on_line hz ports l1, timing_at hz (half_bit_carry hz a 2))"
    using bit_line [OF Cons.prems, where l = "line_drive l x"]
    by (simp add: send_level_def drive_def line_hal_def l1_def)
  obtain w where w: "fold (send_level port) ls (on_line hz ports l1, timing_at hz (half_bit_carry hz a 2)) =
      (on_line hz ports \<lparr>ln_now = ln_now l1 + half_bits hz (half_bit_carry hz a 2) (2 * length ls), ln_wave = w\<rparr>,
       timing_at hz (half_bit_carry hz (half_bit_carry hz a 2) (2 * length ls)))"
    and before: "\<forall>t < ln_now l1. w t = ln_wave l1 t"
    and levels: "\<forall>i < length ls. \<forall>t. ln_now l1 + half_bits hz (half_bit_carry hz a 2) (2 * i) \<le> t \<and>
       (t < ln_now l1 + half_bits hz (half_bit_carry hz a 2) (2 * Suc i) \<or> Suc i = length ls) \<longrightarrow> w t = ls ! i"
    using Cons.IH [OF half_bit_carry_less, of l1 hz a 2] by blast
  have shift: "ln_now l1 + half_bits hz (half_bit_carry hz a 2) (2 * i) = ln_now l + half_bits hz a (2 * Suc i)" for i
    using half_bits_add(1) [of hz a 2 "2 * i"] by (simp add: now)
  have own: "w t = x" if "ln_now l \<le> t" "t < ln_now l1" for t
    using before that by (simp add: l1_def line_drive_def)
  have "ls = [] \<Longrightarrow> w = ln_wave l1" using w by (cases l1) simp
  then have own': "w t = x" if "ls = []" "ln_now l \<le> t" for t
    using that by (simp add: l1_def line_drive_def)
  have "w t = (x # ls) ! i"
    if "i < length (x # ls)" "ln_now l + half_bits hz a (2 * i) \<le> t"
      "t < ln_now l + half_bits hz a (2 * Suc i) \<or> Suc i = length (x # ls)" for i t
  proof (cases i)
    case 0
    then show ?thesis using that own own' Cons.prems by (cases "ls = []") (auto simp: now)
  next
    case (Suc j)
    then show ?thesis using that levels unfolding shift by auto
  qed
  moreover have "w t = ln_wave l t" if "t < ln_now l" for t
    using before that now by (simp add: l1_def line_drive_def)
  moreover have "fold (send_level port) (x # ls) (on_line hz ports l, timing_at hz a) =
      (on_line hz ports \<lparr>ln_now = ln_now l + half_bits hz a (2 * length (x # ls)), ln_wave = w\<rparr>,
       timing_at hz (half_bit_carry hz a (2 * length (x # ls))))"
    using w unfolding shift half_bits_add by (simp add: step)
  ultimately show ?case by blast
qed

lemma transmit_byte_levels:
  "transmit_byte port v = fold (send_level port) (False # map (bit v) [0..<8] @ [True])"
proof
  fix s :: "'a soft_uart \<times> soft_uart_timing"
  have eq: "fold (\<lambda>i. send_level port (v AND push_bit i 1 \<noteq> 0)) is = fold (send_level port) (map (bit v) is)" for "is"
    by (simp add: fold_map comp_def bit_iff_and_push_bit_not_eq_0)
  show "transmit_byte port v s = fold (send_level port) (False # map (bit v) [0..<8] @ [True]) s"
    unfolding transmit_byte_def eq by simp
qed

subsection \<open>What the receiver reads\<close>

lemma receive_bits_line:
  assumes "a < 80000" and "\<forall>j < length is. ln_wave l (ln_now l + half_bits hz a (2 * j)) = f (is ! j)"
  shows "receive_bits port is r (on_line hz ports l, timing_at hz a) =
    (Some (fold (\<lambda>i r. if f i then r OR push_bit i 1 else r) is r),
     on_line hz ports (later (half_bits hz a (2 * length is)) l), timing_at hz (half_bit_carry hz a (2 * length is)))"
  using assms
proof (induction "is" arbitrary: r l a)
  case Nil
  then show ?case by (simp add: half_bit_carry_def)
next
  case (Cons i "is")
  let ?l = "later (half_bits hz a 2) l" and ?a = "half_bit_carry hz a 2"
  have "ln_wave l (ln_now l) = f i" using Cons.prems by (auto dest: spec [of _ 0])
  then have sense: "sense port False (on_line hz ports l) = (True, f i, on_line hz ports l)"
    by (simp add: sense_def line_hal_def)
  have "ln_wave ?l (ln_now ?l + half_bits hz ?a (2 * j)) = f (is ! j)" if "j < length is" for j
    using Cons.prems(2) [rule_format, of "Suc j"] that half_bits_add(1) [of hz a 2 "2 * j"] by (simp add: add.assoc)
  from Cons.IH [OF half_bit_carry_less, where l = ?l] this show ?case
    using half_bits_add [of hz a 2 "2 * length is"]
    by (simp add: sense bit_line Cons.prems(1) add.assoc)
qed

lemma bits_upto:
  "bit (fold (\<lambda>i r. if bit v i then r OR push_bit i 1 else r) [0..<n] (0 :: byte)) k \<longleftrightarrow> k < n \<and> bit v k" for v :: byte
proof (induction n)
  case (Suc n)
  have "bit (push_bit n 1 :: byte) k \<longleftrightarrow> n < 8 \<and> k = n" by (auto simp only: bit_push_bit_iff bit_1_iff) auto
  moreover have "bit v k \<Longrightarrow> k < 8" using bit_imp_le_length [of v k] by simp
  ultimately show ?case
    using Suc.IH by (auto simp: bit_or_iff less_Suc_eq simp del: push_bit_of_1)
qed simp

lemma bits_of_byte: "fold (\<lambda>i r. if bit v i then r OR push_bit i 1 else r) [0..<8] 0 = v" for v :: byte
  by (rule byte_eqI) (simp add: bits_upto)

lemma receive_byte_line:
  assumes "\<forall>i < 8. ln_wave l (ln_now l + half_bits hz 0 (3 + 2 * i)) = bit v i"
    and "ln_wave l (ln_now l + half_bits hz 0 19)"
  shows "\<exists>s. receive_byte port (on_line hz ports l, timing_at hz 0) = (Some v, s)"
proof -
  let ?l = "later (half_bits hz 0 3) l" and ?a = "half_bit_carry hz 0 3"
  have start: "delay_half_bit (delay_half_bit (delay_half_bit (on_line hz ports l, timing_at hz 0))) =
      (on_line hz ports ?l, timing_at hz ?a)"
    using half_bit_line_next [where n = 0 and k = 1 and a = 0] half_bit_line_next [where n = 0 and k = 2 and a = 0]
    by (simp add: half_bit_line numeral_2_eq_2 numeral_3_eq_3)
  have "ln_wave ?l (ln_now ?l + half_bits hz ?a (2 * j)) = bit v ([0..<8] ! j)" if "j < length [0..<8]" for j
    using assms(1) that half_bits_add(1) [of hz 0 3 "2 * j"] by (simp add: add.assoc)
  then have bits: "receive_bits port [0..<8] 0 (on_line hz ports ?l, timing_at hz ?a) =
      (Some v, on_line hz ports (later (half_bits hz ?a 16) ?l), timing_at hz (half_bit_carry hz ?a 16))"
    using receive_bits_line [of ?a "[0..<8]" ?l hz "bit v" port 0] bits_of_byte [of v] by simp
  have "ln_wave l (ln_now l + half_bits hz 0 3 + half_bits hz ?a 16)"
    using assms(2) half_bits_add(1) [of hz 0 3 16] by (simp add: add.assoc)
  then have "sense port False (on_line hz ports (later (half_bits hz ?a 16) ?l)) =
      (True, True, on_line hz ports (later (half_bits hz ?a 16) ?l))"
    by (simp add: sense_def line_hal_def)
  then show ?thesis unfolding receive_byte_def start bits by simp
qed

text \<open>
  A frame on the line: a low start bit, the data bits from the lowest and a high stop bit, the bits
  parted by the edges \<open>e 0\<close> to \<open>e 10\<close>.
\<close>

definition frame_on_line :: "byte \<Rightarrow> (nat \<Rightarrow> nat) \<Rightarrow> (nat \<Rightarrow> bool) \<Rightarrow> bool" where
  "frame_on_line v e w \<longleftrightarrow>
     (\<forall>t. e 0 \<le> t \<and> t < e 1 \<longrightarrow> \<not> w t) \<and>
     (\<forall>i < 8. \<forall>t. e (Suc i) \<le> t \<and> t < e (Suc (Suc i)) \<longrightarrow> w t = bit v i) \<and>
     (\<forall>t. e 9 \<le> t \<and> t < e 10 \<longrightarrow> w t)"

text \<open>Edges in step with a bit of \<open>hz / 40000\<close> ticks: off by at most a 40th and a tick.\<close>

definition edges_in_step :: "u32 \<Rightarrow> nat \<Rightarrow> (nat \<Rightarrow> nat) \<Rightarrow> bool" where
  "edges_in_step hz t0 e \<longleftrightarrow> e 0 = t0 \<and>
     (\<forall>j \<in> {1..10}. t0 \<le> e j \<and> 39 * j * unat hz \<le> 1600000 * (e j - t0 + 1) \<and>
        1600000 * (e j - t0) \<le> 41 * j * unat hz + 1600000)"

lemma sample_in_bit:
  assumes "edges_in_step hz t0 e" "400000 \<le> unat hz" "320000 * late \<le> unat hz" "i \<le> 8"
  shows "e (Suc i) \<le> t0 + late + half_bits hz 0 (3 + 2 * i) \<and>
    t0 + late + half_bits hz 0 (3 + 2 * i) < e (Suc (Suc i))"
proof -
  define s where "s = half_bits hz 0 (3 + 2 * i)"
  define p where "p = i * unat hz"
  have p: "p \<le> 8 * unat hz" unfolding p_def using assms(4) by (rule mult_le_mono1)
  have "80000 * s \<le> (3 + 2 * i) * unat hz" "(3 + 2 * i) * unat hz < 80000 * s + 80000"
    using div_mult_mod_eq [of "(3 + 2 * i) * unat hz" 80000] mod_less_divisor [of 80000 "(3 + 2 * i) * unat hz"]
    unfolding s_def half_bits_def by linarith+
  then have s: "80000 * s \<le> 3 * unat hz + 2 * p" "3 * unat hz + 2 * p < 80000 * s + 80000"
    by (simp_all add: p_def algebra_simps)
  define d d' where "d = e (Suc i) - t0" and "d' = e (Suc (Suc i)) - t0"
  have "t0 \<le> e (Suc i)" "t0 \<le> e (Suc (Suc i))" "1600000 * d \<le> 41 * Suc i * unat hz + 1600000"
    "39 * Suc (Suc i) * unat hz \<le> 1600000 * (d' + 1)"
    using assms(1,4) unfolding edges_in_step_def d_def d'_def by (auto simp del: mult_Suc mult_Suc_right)
  then have e: "t0 \<le> e (Suc i)" "t0 \<le> e (Suc (Suc i))" "1600000 * d \<le> 41 * unat hz + 41 * p + 1600000"
    "78 * unat hz + 39 * p \<le> 1600000 * d' + 1600000"
    by (simp_all add: p_def algebra_simps)
  have "d \<le> late + s \<and> late + s < d'" using p s e(3,4) assms(2,3) by linarith
  then show ?thesis using e(1,2) by (auto simp: s_def d_def d'_def)
qed

text \<open>The sender's own frames are such frames.\<close>

lemma transmit_frame:
  assumes "a < 80000"
  shows "\<exists>w n tm. transmit_byte port v (on_line hz ports l, timing_at hz a) =
      (on_line hz ports \<lparr>ln_now = n, ln_wave = w\<rparr>, tm) \<and>
    frame_on_line v (\<lambda>j. ln_now l + half_bits hz a (2 * j)) w \<and>
    edges_in_step hz (ln_now l) (\<lambda>j. ln_now l + half_bits hz a (2 * j))"
proof -
  let ?ls = "False # map (bit v) [0..<8] @ [True]"
  obtain w where w: "fold (send_level port) ?ls (on_line hz ports l, timing_at hz a) =
      (on_line hz ports \<lparr>ln_now = ln_now l + half_bits hz a (2 * length ?ls), ln_wave = w\<rparr>,
       timing_at hz (half_bit_carry hz a (2 * length ?ls)))"
    and levels: "\<forall>i < length ?ls. \<forall>t. ln_now l + half_bits hz a (2 * i) \<le> t \<and>
       (t < ln_now l + half_bits hz a (2 * Suc i) \<or> Suc i = length ?ls) \<longrightarrow> w t = ?ls ! i"
    using send_levels_line [OF assms, of port ?ls hz] by blast
  have level: "w t = ?ls ! i"
    if "i < 10" "ln_now l + half_bits hz a (2 * i) \<le> t" "t < ln_now l + half_bits hz a (2 * Suc i)" for i t
    using levels that by simp
  have "frame_on_line v (\<lambda>j. ln_now l + half_bits hz a (2 * j)) w"
    unfolding frame_on_line_def
  proof (intro conjI allI impI)
    fix t assume "ln_now l + half_bits hz a (2 * 0) \<le> t \<and> t < ln_now l + half_bits hz a (2 * 1)"
    then show "\<not> w t" using level [of 0 t] by simp
  next
    fix i t assume i: "i < 8"
      "ln_now l + half_bits hz a (2 * Suc i) \<le> t \<and> t < ln_now l + half_bits hz a (2 * Suc (Suc i))"
    then have "?ls ! Suc i = bit v i" by (simp add: nth_append)
    then show "w t = bit v i" using level [of "Suc i" t] i by simp
  next
    fix t assume "ln_now l + half_bits hz a (2 * 9) \<le> t \<and> t < ln_now l + half_bits hz a (2 * 10)"
    then show "w t" using level [of 9 t] by (simp add: nth_append)
  qed
  moreover have "edges_in_step hz (ln_now l) (\<lambda>j. ln_now l + half_bits hz a (2 * j))"
    unfolding edges_in_step_def
  proof (intro conjI ballI)
    fix j :: nat
    define p where "p = j * unat hz"
    define x where "x = half_bits hz a (2 * j)"
    have x: "80000 * x \<le> a + 2 * p" "a + 2 * p < 80000 * x + 80000"
      using div_mult_mod_eq [of "a + 2 * p" 80000] mod_less_divisor [of 80000 "a + 2 * p"]
      unfolding x_def half_bits_def p_def by (simp_all add: mult.assoc)
    have "39 * p \<le> 1600000 * (x + 1)" using x(2) by (simp add: algebra_simps)
    then show "39 * j * unat hz \<le> 1600000 * (ln_now l + half_bits hz a (2 * j) - ln_now l + 1)"
      by (simp add: p_def x_def mult.assoc)
    have "1600000 * x \<le> 41 * p + 1600000" using x(1) assms by linarith
    then show "1600000 * (ln_now l + half_bits hz a (2 * j) - ln_now l) \<le> 41 * j * unat hz + 1600000"
      by (simp add: p_def x_def mult.assoc)
  qed (use assms in simp_all)
  ultimately show ?thesis unfolding transmit_byte_levels w by blast
qed

subsection \<open>Properties\<close>

text \<open>
  C26. A write returns: whatever the callbacks do, as long as the timer runs below \<open>2^32 - 2000000\<close>
  ticks a second the function ends, since a response fills the ring or falls silent, and it leaves
  the rings in order.
\<close>

theorem write_returns:
  assumes "unat (hal_timing_hz (su_hal u)) \<le> 2 ^ 32 - 2000000" "soft_uart_ok u"
  shows "\<exists>done u'. soft_uart_write (Some u) port data n = Some (done, Some u') \<and> soft_uart_ok u'"
proof (cases "data = None \<or> \<not> port_valid (Some u) port \<or> n = 0 \<or> n > SOFT_UART_MAX_WRITE_BYTES \<or>
    \<not> sp_configured (su_ports u ! unat port) \<or> timing_init u = None")
  case True
  then show ?thesis using assms(2) by (auto simp: soft_uart_write_def split: option.splits)
next
  case False
  then obtain bs timing where data: "data = Some bs" and timing: "timing_init u = Some timing"
    and port: "unat port < length (su_ports u)" "sp_configured (su_ports u ! unat port)"
    and guards: "n \<noteq> 0" "\<not> n > SOFT_UART_MAX_WRITE_BYTES" "port_valid (Some u) port"
    by (auto simp: port_valid_def)
  have "80000 \<le> hal_timing_hz (su_hal u)" using timing unfolding timing_init_Some by blast
  then have hz: "hal_timing_hz (su_hal u) \<noteq> 0" by auto
  define u1 where "u1 = u\<lparr>su_context := snd (hal_irq_save_disable (su_hal u) (su_context u))\<rparr>"
  define u2 where "u2 = snd (drive port True u1)"
  define u3 where "u3 = fst (fold (transmit_byte port) (take n bs) (delay_bit (delay_bit (u2, timing))))"
  define u4 where "u4 = u3\<lparr>su_context := snd (hal_set_input (su_hal u3) (su_context u3) port)\<rparr>"
  have same: "su_ports u2 = su_ports u" "su_hal u2 = su_hal u" "su_ports u4 = su_ports u" "su_hal u4 = su_hal u"
    by (simp_all add: u1_def u2_def u3_def u4_def)
  then have ok: "soft_uart_ok u2" "soft_uart_ok u4" using assms(2) by (simp_all add: soft_uart_ok_def)
  have "SOFT_UART_FIRST_RESPONSE_TIMEOUT_US \<le> 3000" by (simp add: SOFT_UART_FIRST_RESPONSE_TIMEOUT_US_def)
  then obtain b v where loop: "response_loop port SOFT_UART_FIRST_RESPONSE_TIMEOUT_US u4 = Some (b, v)" "soft_uart_ok v"
    using response_loop_returns [of u4 SOFT_UART_FIRST_RESPONSE_TIMEOUT_US port] assms(1) hz ok(2) port same by auto
  have ctx: "soft_uart_ok (x\<lparr>su_context := c\<rparr>) = soft_uart_ok x" for x :: "'a soft_uart" and c
    by (simp add: soft_uart_ok_def)
  show ?thesis
    using loop ok ctx guards port timing
    by (auto simp: soft_uart_write_def data split_beta Let_def u1_def [symmetric] u2_def [symmetric]
        u3_def [symmetric] u4_def [symmetric])
qed

definition demo_port :: soft_uart_port where
  "demo_port = \<lparr>sp_receive_ring = \<lparr>br_storage = Some [0, 0, 0, 0], br_storage_size = 4, br_head = 0, br_tail = 0\<rparr>,
     sp_receive_storage = [0, 0, 0, 0], sp_configured = True\<rparr>"

theorem write_returns_witness:
  "\<exists>done u'. soft_uart_write (Some (on_line 72000000 [demo_port] \<lparr>ln_now = 0, ln_wave = \<lambda>_. True\<rparr>)) 0 (Some [5, 0, 6]) 3 =
    Some (done, Some u')"
  using write_returns [of "on_line 72000000 [demo_port] \<lparr>ln_now = 0, ln_wave = \<lambda>_. True\<rparr>" 0 "Some [5, 0, 6]" 3]
  by (auto simp: line_hal_def soft_uart_ok_def demo_port_def ring_ok_def)

text \<open>
  C27. The receiver reads every frame that comes in time: when the bits of a frame, of a peer whose
  clock is off by up to 2.5 percent, are on the line and the start bit is seen at most an eighth of a
  bit late, the eight samples and the stop bit give the byte of the frame.
\<close>

theorem frame_received:
  assumes "frame_on_line v e w" "edges_in_step hz t0 e"
    and "400000 \<le> unat hz" "320000 * late \<le> unat hz"
  shows "\<exists>timing s. timing_init (on_line hz ports \<lparr>ln_now = t0 + late, ln_wave = w\<rparr>) = Some timing \<and>
    receive_byte port (on_line hz ports \<lparr>ln_now = t0 + late, ln_wave = w\<rparr>, timing) = (Some v, s)"
proof -
  note inside = sample_in_bit [OF assms(2-4)]
  have "w (t0 + late + half_bits hz 0 (3 + 2 * i)) = bit v i" if "i < 8" for i
    using inside [of i] that assms(1) unfolding frame_on_line_def by simp
  moreover have "w (t0 + late + half_bits hz 0 19)"
    using inside [of 8] assms(1) unfolding frame_on_line_def by simp
  ultimately obtain s where "receive_byte port (on_line hz ports \<lparr>ln_now = t0 + late, ln_wave = w\<rparr>, timing_at hz 0) = (Some v, s)"
    using receive_byte_line [of "\<lparr>ln_now = t0 + late, ln_wave = w\<rparr>" hz v port ports] by auto
  moreover have "timing_init (on_line hz ports \<lparr>ln_now = t0 + late, ln_wave = w\<rparr>) = Some (timing_at hz 0)"
    using assms(3) by (simp add: timing_init_Some timing_at_def line_hal_def word_le_nat_alt)
  ultimately show ?thesis by blast
qed

theorem frame_received_witness:
  "\<exists>w n tm timing s. transmit_byte 0 0xA5 (on_line 72000000 [] \<lparr>ln_now = 1000, ln_wave = \<lambda>_. True\<rparr>, timing_at 72000000 0) =
      (on_line 72000000 [] \<lparr>ln_now = n, ln_wave = w\<rparr>, tm) \<and>
    receive_byte 0 (on_line 72000000 [] \<lparr>ln_now = 1036, ln_wave = w\<rparr>, timing) = (Some 0xA5, s)"
proof -
  obtain w n tm where sent: "transmit_byte 0 0xA5 (on_line 72000000 [] \<lparr>ln_now = 1000, ln_wave = \<lambda>_. True\<rparr>, timing_at 72000000 0) =
      (on_line 72000000 [] \<lparr>ln_now = n, ln_wave = w\<rparr>, tm)"
    and frame: "frame_on_line 0xA5 (\<lambda>j. 1000 + half_bits 72000000 0 (2 * j)) w"
      "edges_in_step 72000000 1000 (\<lambda>j. 1000 + half_bits 72000000 0 (2 * j))"
    using transmit_frame [where a = 0 and port = 0 and v = "0xA5" and hz = 72000000 and ports = "[]"
        and l = "\<lparr>ln_now = 1000, ln_wave = \<lambda>_. True\<rparr>"] by auto
  show ?thesis using frame_received [OF frame, where late = 36 and ports = "[]" and port = 0] sent by fastforce
qed

end
