(* ===== verification/Firmware_Motion.thy ===== *)
theory Firmware_Motion
  imports Motion_Payload
begin

text \<open>
  \<^verbatim>\<open>firmware/include/remotebsp_embedded/motion.h\<close> and \<^verbatim>\<open>firmware/src/motion.c\<close>: the queue of motion
  segments and the timer tick that turns the front segment into step pulses. The build's
  \<^verbatim>\<open>CONFIG_MOTION_*\<close> values are an argument; the board's callbacks are functions on a context of any
  type, each possibly \<^verbatim>\<open>NULL\<close>; the tests for a null queue or segment are left out, as \<^verbatim>\<open>core.c\<close> passes
  the addresses of objects. The arrays per axis are lists of the configured length; indices into the
  ring stay below its depth (at most 128) and are natural numbers. The enumerations of states and
  faults have the codes of the protocol's, whose datatypes they share.

  Properties are in \<open>Firmware_Steps\<close>.
\<close>

subsection \<open>Data\<close>

record motion_build =
  mb_max_axes :: nat
  mb_queue_depth :: nat
  mb_min_lead_time_us :: u64
  mb_timer_hz :: u64

datatype fw_enqueue_result =
    FE_Ok | FE_Invalid | FE_Sequence | FE_Late | FE_Discontinuous | FE_Full | FE_Faulted

record fw_segment =
  fw_sequence :: u32
  fw_start_time_ns :: u64
  fw_duration_ns :: u64
  fw_axis_count :: nat
  fw_final_segment :: bool
  fw_steps :: "i32 list"

record fw_motion =
  fq_segments :: "fw_segment list"
  fq_axis_count :: nat
  fq_head :: nat
  fq_size :: nat
  fq_last_accepted_sequence :: u32
  fq_last_completed_sequence :: u32
  fq_next_available_time_ns :: u64
  fq_state :: motion_state
  fq_fault :: motion_fault
  fq_active_emitted :: "u64 list"
  fq_active_phase :: "u64 list"
  fq_active_last_tick_ns :: u64
  fq_emitted_steps :: "u64 list"
  fq_position_steps :: "i64 list"
  fq_step_high :: "bool list"
  fq_enabled :: "bool list"
  fq_direction_positive :: "bool list"
  fq_accepted_segments :: u64
  fq_rejected_segments :: u64
  fq_completed_segments :: u64
  fq_emitted_edges :: u64
  fq_safety_stops :: u64
  fq_limit_stops :: u64
  fq_queue_underruns :: u64
  fq_maximum_queue_depth :: nat

text \<open>The callbacks; \<open>io_limit_active\<close> is given the initial value of the flag it may write.\<close>

record 'c motion_io =
  io_set_enable :: "('c \<Rightarrow> nat \<Rightarrow> bool \<Rightarrow> bool \<times> 'c) option"
  io_set_direction :: "('c \<Rightarrow> nat \<Rightarrow> bool \<Rightarrow> bool \<times> 'c) option"
  io_set_step :: "('c \<Rightarrow> nat \<Rightarrow> bool \<Rightarrow> bool \<times> 'c) option"
  io_limit_active :: "('c \<Rightarrow> nat \<Rightarrow> bool \<Rightarrow> bool \<times> bool \<times> 'c) option"

subsection \<open>Helpers\<close>

definition uint64_max :: u64 where
  "uint64_max = - 1"

definition tail_index :: "motion_build \<Rightarrow> fw_motion \<Rightarrow> nat" where
  "tail_index b q = (fq_head q + fq_size q) mod mb_queue_depth b"

definition minimum_start_time :: "motion_build \<Rightarrow> u64 \<Rightarrow> u64" where
  "minimum_start_time b now_ns =
     (let lead_ns = mb_min_lead_time_us b * 1000 in
      if uint64_max - now_ns < lead_ns then uint64_max else now_ns + lead_ns)"

definition step_count :: "i32 \<Rightarrow> u64" where
  "step_count steps = (if sint steps < 0 then of_int (- sint steps) else of_int (sint steps))"

definition maximum_steps_for_duration :: "motion_build \<Rightarrow> u64 \<Rightarrow> u64" where
  "maximum_steps_for_duration b duration_ns =
     (let whole_seconds = duration_ns div 1000000000;
          remainder_ns = duration_ns mod 1000000000;
          half_rate = mb_timer_hz b div 2 in
      if whole_seconds > uint64_max div half_rate then uint64_max
      else let whole = whole_seconds * half_rate;
               partial = remainder_ns * mb_timer_hz b div 2000000000
        in if uint64_max - whole < partial then uint64_max else whole + partial)"

definition empty_segment :: "motion_build \<Rightarrow> fw_segment" where
  "empty_segment b = \<lparr>fw_sequence = 0, fw_start_time_ns = 0, fw_duration_ns = 0, fw_axis_count = 0,
     fw_final_segment = False, fw_steps = replicate (mb_max_axes b) 0\<rparr>"

subsection \<open>The queue\<close>

definition zero_motion :: "motion_build \<Rightarrow> fw_motion" where
  "zero_motion b = \<lparr>fq_segments = replicate (mb_queue_depth b) (empty_segment b), fq_axis_count = 0,
     fq_head = 0, fq_size = 0, fq_last_accepted_sequence = 0, fq_last_completed_sequence = 0,
     fq_next_available_time_ns = 0, fq_state = MS_Idle, fq_fault = MF_None,
     fq_active_emitted = replicate (mb_max_axes b) 0, fq_active_phase = replicate (mb_max_axes b) 0,
     fq_active_last_tick_ns = 0, fq_emitted_steps = replicate (mb_max_axes b) 0,
     fq_position_steps = replicate (mb_max_axes b) 0, fq_step_high = replicate (mb_max_axes b) False,
     fq_enabled = replicate (mb_max_axes b) False,
     fq_direction_positive = replicate (mb_max_axes b) False, fq_accepted_segments = 0,
     fq_rejected_segments = 0, fq_completed_segments = 0, fq_emitted_edges = 0, fq_safety_stops = 0,
     fq_limit_stops = 0, fq_queue_underruns = 0, fq_maximum_queue_depth = 0\<rparr>"

text \<open>\<^verbatim>\<open>memset\<close> and the assignments of \<^verbatim>\<open>rbsp_motion_init\<close>; a failing call leaves the queue alone.\<close>

definition fw_motion_init :: "motion_build \<Rightarrow> nat \<Rightarrow> fw_motion \<Rightarrow> bool \<times> fw_motion" where
  "fw_motion_init b axis_count q =
     (if axis_count = 0 \<or> axis_count > mb_max_axes b then (False, q)
      else (True, (zero_motion b)\<lparr>fq_axis_count := axis_count, fq_state := MS_Idle\<rparr>))"

definition segment_at :: "nat \<Rightarrow> fw_motion \<Rightarrow> fw_segment" where
  "segment_at i q = fq_segments q ! i"

text \<open>The test of the step counts: too many for the timer, or a phase that would overflow.\<close>

definition steps_rejected :: "motion_build \<Rightarrow> fw_motion \<Rightarrow> fw_segment \<Rightarrow> bool" where
  "steps_rejected b q seg =
     list_ex (\<lambda>axis. let steps = step_count (fw_steps seg ! axis) in
         steps > maximum_steps_for_duration b (fw_duration_ns seg) \<or>
         steps \<noteq> 0 \<and> fw_duration_ns seg > uint64_max div steps)
       [0..<fq_axis_count q]"

definition reject_segment :: "fw_motion \<Rightarrow> fw_motion" where
  "reject_segment q = q\<lparr>fq_rejected_segments := fq_rejected_segments q + 1\<rparr>"

definition last_is_final :: "motion_build \<Rightarrow> fw_motion \<Rightarrow> bool" where
  "last_is_final b q \<longleftrightarrow>
     fq_size q > 0 \<and>
     fw_final_segment (segment_at ((fq_head q + fq_size q - 1) mod mb_queue_depth b) q)"

text \<open>The start time of a segment that asks for none, or the one it asks for.\<close>

definition effective_start :: "motion_build \<Rightarrow> u64 \<Rightarrow> fw_motion \<Rightarrow> fw_segment \<Rightarrow> u64" where
  "effective_start b now_ns q seg =
     (let earliest = minimum_start_time b now_ns in
      if fw_start_time_ns seg = 0 then
        (if fq_next_available_time_ns q > earliest then fq_next_available_time_ns q else earliest)
      else fw_start_time_ns seg)"

definition append_segment :: "motion_build \<Rightarrow> fw_segment \<Rightarrow> fw_motion \<Rightarrow> fw_motion" where
  "append_segment b value q =
     (let q1 = q\<lparr>fq_segments := (fq_segments q)[tail_index b q := value], fq_size := fq_size q + 1,
          fq_last_accepted_sequence := fw_sequence value,
          fq_next_available_time_ns := fw_start_time_ns value + fw_duration_ns value,
          fq_state := MS_Armed, fq_accepted_segments := fq_accepted_segments q + 1\<rparr>
      in if fq_size q1 > fq_maximum_queue_depth q1
         then q1\<lparr>fq_maximum_queue_depth := fq_size q1\<rparr> else q1)"

text \<open>\<open>Inr\<close> is \<open>FE_Ok\<close> with the accepted segment.\<close>

definition fw_motion_enqueue ::
  "motion_build \<Rightarrow> fw_segment \<Rightarrow> u64 \<Rightarrow> fw_motion \<Rightarrow> (fw_enqueue_result + fw_segment) \<times> fw_motion" where
  "fw_motion_enqueue b requested now_ns q =
     (if fw_sequence requested = 0 \<or> fw_duration_ns requested = 0 \<or>
         fw_axis_count requested \<noteq> fq_axis_count q \<or>
         uint64_max - fw_start_time_ns requested < fw_duration_ns requested
      then (Inl FE_Invalid, q)
      else if steps_rejected b q requested then (Inl FE_Invalid, reject_segment q)
      else if fq_fault q \<noteq> MF_None then (Inl FE_Faulted, reject_segment q)
      else if fq_size q \<ge> mb_queue_depth b then (Inl FE_Full, reject_segment q)
      else if fw_sequence requested \<noteq> fq_last_accepted_sequence q + 1 then (Inl FE_Sequence, q)
      else if last_is_final b q then (Inl FE_Invalid, q)
      else if fw_start_time_ns requested \<noteq> 0 \<and> fw_start_time_ns requested < minimum_start_time b now_ns
      then (Inl FE_Late, q)
      else let value = requested\<lparr>fw_start_time_ns := effective_start b now_ns q requested\<rparr> in
        if fq_size q > 0 \<and> fw_start_time_ns value \<noteq> fq_next_available_time_ns q
        then (Inl FE_Discontinuous, q)
        else if uint64_max - fw_start_time_ns value < fw_duration_ns value then (Inl FE_Invalid, q)
        else (Inr value, append_segment b value q))"

definition fw_motion_front :: "fw_motion \<Rightarrow> fw_segment option" where
  "fw_motion_front q = (if fq_size q = 0 then None else Some (segment_at (fq_head q) q))"

definition fw_complete_front :: "motion_build \<Rightarrow> fw_motion \<Rightarrow> bool \<times> fw_motion" where
  "fw_complete_front b q =
     (if fq_size q = 0 \<or> fq_fault q \<noteq> MF_None then (False, q)
      else let front = segment_at (fq_head q) q;
               q1 = q\<lparr>fq_last_completed_sequence := fw_sequence front,
                 fq_segments := (fq_segments q)[fq_head q := empty_segment b],
                 fq_head := (fq_head q + 1) mod mb_queue_depth b, fq_size := fq_size q - 1\<rparr>;
               q2 = (if fw_final_segment front then q1\<lparr>fq_size := 0, fq_state := MS_Idle\<rparr>
                     else if fq_size q1 = 0 then
                       q1\<lparr>fq_state := MS_Faulted, fq_fault := MF_QueueUnderrun,
                          fq_queue_underruns := fq_queue_underruns q1 + 1,
                          fq_safety_stops := fq_safety_stops q1 + 1\<rparr>
                     else q1\<lparr>fq_state := MS_Armed\<rparr>)
        in (True, q2\<lparr>fq_completed_segments := fq_completed_segments q2 + 1\<rparr>))"

definition fw_motion_abort :: "motion_build \<Rightarrow> motion_fault \<Rightarrow> fw_motion \<Rightarrow> fw_motion" where
  "fw_motion_abort b fault q =
     (if fault = MF_None then q
      else let q1 = q\<lparr>fq_segments := replicate (mb_queue_depth b) (empty_segment b), fq_head := 0,
               fq_size := 0, fq_state := MS_Faulted, fq_fault := fault,
               fq_safety_stops := fq_safety_stops q + 1\<rparr>
        in if fault = MF_LimitTriggered then q1\<lparr>fq_limit_stops := fq_limit_stops q1 + 1\<rparr> else q1)"

definition fw_clear_fault :: "u64 \<Rightarrow> fw_motion \<Rightarrow> bool \<times> fw_motion" where
  "fw_clear_fault now_ns q =
     (if fq_size q \<noteq> 0 then (False, q)
      else (True, q\<lparr>fq_fault := MF_None, fq_state := MS_Idle, fq_next_available_time_ns := now_ns\<rparr>))"

subsection \<open>Outputs\<close>

type_synonym 'c motion_run = "fw_motion \<times> 'c"

text \<open>A callback that is present. Only \<open>fw_tick\<close> uses them, after its test that they are.\<close>

definition call_io ::
  "('c \<Rightarrow> nat \<Rightarrow> bool \<Rightarrow> bool \<times> 'c) option \<Rightarrow> nat \<Rightarrow> bool \<Rightarrow> 'c \<Rightarrow> bool \<times> 'c" where
  "call_io f axis v c = (case f of None \<Rightarrow> (False, c) | Some g \<Rightarrow> g c axis v)"

definition set_step_low :: "nat \<Rightarrow> fw_motion \<Rightarrow> fw_motion" where
  "set_step_low axis q = q\<lparr>fq_step_high := (fq_step_high q)[axis := False],
     fq_emitted_edges := fq_emitted_edges q + 1\<rparr>"

definition stop_axis :: "'c motion_io \<Rightarrow> nat \<Rightarrow> 'c motion_run \<Rightarrow> 'c motion_run" where
  "stop_axis io axis = (\<lambda>(q, c).
     let (q1, c1) = (if fq_step_high q ! axis
           then (set_step_low axis q, snd (call_io (io_set_step io) axis False c)) else (q, c))
     in if fq_enabled q1 ! axis
        then (q1\<lparr>fq_enabled := (fq_enabled q1)[axis := False]\<rparr>,
              snd (call_io (io_set_enable io) axis False c1))
        else (q1, c1))"

definition stop_outputs :: "'c motion_io \<Rightarrow> 'c motion_run \<Rightarrow> 'c motion_run" where
  "stop_outputs io run = fold (stop_axis io) [0..<fq_axis_count (fst run)] run"

text \<open>Where the code aborts, stops the outputs and returns.\<close>

definition stop_with :: "motion_build \<Rightarrow> 'c motion_io \<Rightarrow> motion_fault \<Rightarrow> 'c motion_run \<Rightarrow> 'c motion_run" where
  "stop_with b io fault run = stop_outputs io (fw_motion_abort b fault (fst run), snd run)"

text \<open>
  The loops over the axes: \<open>Inl (r, run)\<close> is a return of \<open>r\<close> from the tick, \<open>Inr run\<close> its going on.
\<close>

type_synonym 'c loop_exit = "(bool \<times> 'c motion_run) + 'c motion_run"

fun limit_loop :: "motion_build \<Rightarrow> 'c motion_io \<Rightarrow> nat list \<Rightarrow> 'c motion_run \<Rightarrow> 'c loop_exit" where
  "limit_loop b io [] run = Inr run"
| "limit_loop b io (axis # axes) (q, c) =
     (case io_limit_active io of
        None \<Rightarrow> Inr (q, c)
      | Some f \<Rightarrow>
          (case f c axis False of
             (False, active, c1) \<Rightarrow> Inl (False, stop_with b io MF_Aborted (q, c1))
           | (True, active, c1) \<Rightarrow>
               if active \<and> fq_state q = MS_Running
               then Inl (True, stop_with b io MF_LimitTriggered (q, c1))
               else limit_loop b io axes (q, c1)))"

fun direction_loop ::
  "motion_build \<Rightarrow> 'c motion_io \<Rightarrow> fw_segment \<Rightarrow> nat list \<Rightarrow> 'c motion_run \<Rightarrow> 'c loop_exit" where
  "direction_loop b io seg [] run = Inr run"
| "direction_loop b io seg (axis # axes) (q, c) =
     (let positive = (0 \<le> sint (fw_steps seg ! axis)) in
      case call_io (io_set_direction io) axis positive c of
        (False, c1) \<Rightarrow> Inl (False, stop_with b io MF_Aborted (q, c1))
      | (True, c1) \<Rightarrow> direction_loop b io seg axes
          (q\<lparr>fq_direction_positive := (fq_direction_positive q)[axis := positive]\<rparr>, c1))"

text \<open>\<^verbatim>\<open>set_segment_enabled\<close>, which fails at the first callback that does.\<close>

fun enable_loop ::
  "motion_build \<Rightarrow> 'c motion_io \<Rightarrow> fw_segment \<Rightarrow> nat list \<Rightarrow> 'c motion_run \<Rightarrow> 'c loop_exit" where
  "enable_loop b io seg [] run = Inr run"
| "enable_loop b io seg (axis # axes) (q, c) =
     (let enabled = (fw_steps seg ! axis \<noteq> 0) in
      if fq_enabled q ! axis = enabled then enable_loop b io seg axes (q, c)
      else case call_io (io_set_enable io) axis enabled c of
        (False, c1) \<Rightarrow> Inl (False, stop_with b io MF_Aborted (q, c1))
      | (True, c1) \<Rightarrow> enable_loop b io seg axes
          (q\<lparr>fq_enabled := (fq_enabled q)[axis := enabled]\<rparr>, c1))"

definition chain_exit :: "'c loop_exit \<Rightarrow> ('c motion_run \<Rightarrow> 'c loop_exit) \<Rightarrow> 'c loop_exit" where
  "chain_exit r f = (case r of Inl e \<Rightarrow> Inl e | Inr run \<Rightarrow> f run)"

text \<open>The start of an armed segment that is due.\<close>

definition begin_segment :: "motion_build \<Rightarrow> 'c motion_io \<Rightarrow> fw_segment \<Rightarrow> 'c motion_run \<Rightarrow> 'c loop_exit" where
  "begin_segment b io seg = (\<lambda>(q, c).
     let q1 = q\<lparr>fq_active_emitted := replicate (mb_max_axes b) 0,
           fq_active_phase := replicate (mb_max_axes b) 0,
           fq_active_last_tick_ns := fw_start_time_ns seg\<rparr>;
         axes = [0..<fq_axis_count q]
     in chain_exit (direction_loop b io seg axes (q1, c)) (\<lambda>run.
        chain_exit (enable_loop b io seg axes run) (\<lambda>(q2, c2).
          Inr (q2\<lparr>fq_state := MS_Running\<rparr>, c2))))"

subsection \<open>The tick\<close>

text \<open>One axis: end its pulse, advance its phase by the time of the tick, begin a pulse if one is due.\<close>

definition lower_step :: "motion_build \<Rightarrow> 'c motion_io \<Rightarrow> nat \<Rightarrow> 'c motion_run \<Rightarrow> 'c loop_exit" where
  "lower_step b io axis = (\<lambda>(q, c).
     if fq_step_high q ! axis then
       (case call_io (io_set_step io) axis False c of
          (False, c1) \<Rightarrow> Inl (False, stop_with b io MF_Aborted (q, c1))
        | (True, c1) \<Rightarrow> Inr (set_step_low axis q, c1))
     else Inr (q, c))"

definition advance_phase ::
  "motion_build \<Rightarrow> 'c motion_io \<Rightarrow> u64 \<Rightarrow> u64 \<Rightarrow> nat \<Rightarrow> 'c motion_run \<Rightarrow> 'c loop_exit" where
  "advance_phase b io steps delta_ns axis = (\<lambda>(q, c).
     if steps \<noteq> 0 \<and> delta_ns \<noteq> 0 then
       (let increment = steps * delta_ns in
        if uint64_max - fq_active_phase q ! axis < increment
        then Inl (False, stop_with b io MF_QueueUnderrun (q, c))
        else Inr (q\<lparr>fq_active_phase := (fq_active_phase q)[axis := fq_active_phase q ! axis + increment]\<rparr>, c))
     else Inr (q, c))"

definition count_pulse :: "nat \<Rightarrow> fw_motion \<Rightarrow> fw_motion" where
  "count_pulse axis q = q\<lparr>fq_step_high := (fq_step_high q)[axis := True],
     fq_active_emitted := (fq_active_emitted q)[axis := fq_active_emitted q ! axis + 1],
     fq_emitted_steps := (fq_emitted_steps q)[axis := fq_emitted_steps q ! axis + 1],
     fq_emitted_edges := fq_emitted_edges q + 1,
     fq_position_steps := (fq_position_steps q)[axis := fq_position_steps q ! axis +
       (if fq_direction_positive q ! axis then 1 else - 1)]\<rparr>"

definition raise_step ::
  "motion_build \<Rightarrow> 'c motion_io \<Rightarrow> u64 \<Rightarrow> u64 \<Rightarrow> nat \<Rightarrow> 'c motion_run \<Rightarrow> 'c loop_exit" where
  "raise_step b io steps duration_ns axis = (\<lambda>(q, c).
     if fq_active_emitted q ! axis < steps \<and> fq_active_phase q ! axis \<ge> duration_ns then
       (let q1 = q\<lparr>fq_active_phase := (fq_active_phase q)[axis := fq_active_phase q ! axis - duration_ns]\<rparr>
        in case call_io (io_set_step io) axis True c of
          (False, c1) \<Rightarrow> Inl (False, stop_with b io MF_Aborted (q1, c1))
        | (True, c1) \<Rightarrow> Inr (count_pulse axis q1, c1))
     else Inr (q, c))"

definition emit_axis ::
  "motion_build \<Rightarrow> 'c motion_io \<Rightarrow> fw_segment \<Rightarrow> u64 \<Rightarrow> nat \<Rightarrow> 'c motion_run \<Rightarrow> 'c loop_exit" where
  "emit_axis b io seg delta_ns axis run =
     (let steps = step_count (fw_steps seg ! axis) in
      chain_exit (lower_step b io axis run) (\<lambda>run1.
      chain_exit (advance_phase b io steps delta_ns axis run1)
        (raise_step b io steps (fw_duration_ns seg) axis)))"

fun emit_loop ::
  "motion_build \<Rightarrow> 'c motion_io \<Rightarrow> fw_segment \<Rightarrow> u64 \<Rightarrow> nat list \<Rightarrow> 'c motion_run \<Rightarrow> 'c loop_exit" where
  "emit_loop b io seg delta_ns [] run = Inr run"
| "emit_loop b io seg delta_ns (axis # axes) run =
     chain_exit (emit_axis b io seg delta_ns axis run) (emit_loop b io seg delta_ns axes)"

text \<open>\<^verbatim>\<open>all_emitted\<close> after the loop, which changes nothing of an axis it has passed.\<close>

definition all_emitted :: "fw_segment \<Rightarrow> fw_motion \<Rightarrow> bool" where
  "all_emitted seg q =
     list_all (\<lambda>axis. fq_active_emitted q ! axis = step_count (fw_steps seg ! axis) \<and>
         \<not> fq_step_high q ! axis) [0..<fq_axis_count q]"

text \<open>The times of a tick: since the start of the segment, within it, and since the last tick.\<close>

definition tick_elapsed :: "fw_segment \<Rightarrow> u64 \<Rightarrow> u64" where
  "tick_elapsed seg now_ns =
     (if now_ns \<le> fw_start_time_ns seg then 0 else now_ns - fw_start_time_ns seg)"

definition tick_time :: "fw_segment \<Rightarrow> u64 \<Rightarrow> u64" where
  "tick_time seg now_ns = fw_start_time_ns seg +
     (if tick_elapsed seg now_ns < fw_duration_ns seg then tick_elapsed seg now_ns else fw_duration_ns seg)"

definition tick_delta :: "fw_segment \<Rightarrow> u64 \<Rightarrow> fw_motion \<Rightarrow> u64" where
  "tick_delta seg now_ns q =
     (if tick_time seg now_ns > fq_active_last_tick_ns q
      then tick_time seg now_ns - fq_active_last_tick_ns q else 0)"

text \<open>After the axes: complete the segment, or give it up when it is overdue by more than a tick.\<close>

definition finish_tick ::
  "motion_build \<Rightarrow> 'c motion_io \<Rightarrow> fw_segment \<Rightarrow> u64 \<Rightarrow> 'c motion_run \<Rightarrow> bool \<times> 'c motion_run" where
  "finish_tick b io seg elapsed = (\<lambda>(q, c).
     if elapsed \<ge> fw_duration_ns seg \<and> all_emitted seg q then
       (case fw_complete_front b q of
          (False, q1) \<Rightarrow> (False, (q1, c))
        | (True, q1) \<Rightarrow>
            if fw_final_segment seg \<or> fq_fault q1 \<noteq> MF_None then (True, stop_outputs io (q1, c))
            else (True, (q1, c)))
     else if elapsed > fw_duration_ns seg + 1000000000 div mb_timer_hz b then
       (let q1 = fw_motion_abort b MF_QueueUnderrun q in
        (True, stop_outputs io (q1\<lparr>fq_queue_underruns := fq_queue_underruns q1 + 1\<rparr>, c)))
     else (True, (q, c)))"

definition run_segment ::
  "motion_build \<Rightarrow> 'c motion_io \<Rightarrow> fw_segment \<Rightarrow> u64 \<Rightarrow> 'c motion_run \<Rightarrow> bool \<times> 'c motion_run" where
  "run_segment b io seg now_ns = (\<lambda>(q, c).
     case emit_loop b io seg (tick_delta seg now_ns q) [0..<fq_axis_count q]
            (q\<lparr>fq_active_last_tick_ns := tick_time seg now_ns\<rparr>, c) of
       Inl exit \<Rightarrow> exit
     | Inr run \<Rightarrow> finish_tick b io seg (tick_elapsed seg now_ns) run)"

definition fw_tick ::
  "motion_build \<Rightarrow> 'c motion_io \<Rightarrow> u64 \<Rightarrow> 'c motion_run \<Rightarrow> bool \<times> 'c motion_run" where
  "fw_tick b io now_ns run =
     (if io_set_enable io = None \<or> io_set_direction io = None \<or> io_set_step io = None then (False, run)
      else if fq_fault (fst run) \<noteq> MF_None then (True, stop_outputs io run)
      else case limit_loop b io [0..<fq_axis_count (fst run)] run of
        Inl exit \<Rightarrow> exit
      | Inr (q, c) \<Rightarrow>
          (case fw_motion_front q of
             None \<Rightarrow> (True, stop_outputs io (q, c))
           | Some seg \<Rightarrow>
               if fq_state q = MS_Armed then
                 (if now_ns < fw_start_time_ns seg then (True, (q, c))
                  else case begin_segment b io seg (q, c) of
                    Inl exit \<Rightarrow> exit
                  | Inr run1 \<Rightarrow> run_segment b io seg now_ns run1)
               else run_segment b io seg now_ns (q, c)))"

end
