(* ===== verification/Firmware_Steps.thy ===== *)
theory Firmware_Steps
  imports Firmware_Motion
begin

text \<open>
  What the firmware's timer tick makes of a segment: the phase accumulator hands out exactly the
  commanded steps, never early, and never overflows for a segment the queue accepted; a tick that
  finds or latches a fault leaves every output off; and ticks that come on time finish a segment.
\<close>

subsection \<open>Shape of the queue\<close>

definition fw_shape :: "motion_build \<Rightarrow> fw_motion \<Rightarrow> bool" where
  "fw_shape b q \<longleftrightarrow>
     fq_axis_count q \<le> mb_max_axes b \<and> length (fq_active_emitted q) = mb_max_axes b \<and>
     length (fq_active_phase q) = mb_max_axes b \<and> length (fq_emitted_steps q) = mb_max_axes b \<and>
     length (fq_position_steps q) = mb_max_axes b \<and> length (fq_step_high q) = mb_max_axes b \<and>
     length (fq_enabled q) = mb_max_axes b \<and> length (fq_direction_positive q) = mb_max_axes b"

text \<open>The ring: what the index arithmetic of the queue relies on.\<close>

definition fw_ring :: "motion_build \<Rightarrow> fw_motion \<Rightarrow> bool" where
  "fw_ring b q \<longleftrightarrow>
     length (fq_segments q) = mb_queue_depth b \<and> fq_head q mod mb_queue_depth b = fq_head q \<and>
     fq_size q \<le> mb_queue_depth b"

text \<open>The part of the queue that the outputs and the pulses of a segment do not touch.\<close>

definition fw_rest :: "fw_motion \<Rightarrow> fw_motion" where
  "fw_rest q = q\<lparr>fq_active_emitted := [], fq_active_phase := [], fq_emitted_steps := [],
     fq_position_steps := [], fq_step_high := [], fq_enabled := [], fq_direction_positive := [],
     fq_emitted_edges := 0\<rparr>"

lemma fw_restD:
  assumes "fw_rest q' = fw_rest q"
  shows "fq_axis_count q' = fq_axis_count q" "fq_state q' = fq_state q" "fq_fault q' = fq_fault q"
    "fq_size q' = fq_size q" "fq_head q' = fq_head q" "fq_segments q' = fq_segments q"
    "fq_completed_segments q' = fq_completed_segments q"
    "fq_active_last_tick_ns q' = fq_active_last_tick_ns q"
  using assms by (cases q, cases q', simp add: fw_rest_def)+

definition outputs_off :: "fw_motion \<Rightarrow> bool" where
  "outputs_off q \<longleftrightarrow>
     (\<forall>axis < fq_axis_count q. \<not> fq_step_high q ! axis \<and> \<not> fq_enabled q ! axis)"

lemma stop_axis_facts:
  assumes "stop_axis io axis (q, c) = (q', c')" "fw_shape b q" "axis < mb_max_axes b"
  shows "fw_shape b q' \<and> fw_rest q' = fw_rest q \<and>
    \<not> fq_step_high q' ! axis \<and> \<not> fq_enabled q' ! axis \<and>
    (\<forall>i. i \<noteq> axis \<longrightarrow> fq_step_high q' ! i = fq_step_high q ! i \<and> fq_enabled q' ! i = fq_enabled q ! i) \<and>
    fq_position_steps q' = fq_position_steps q \<and> fq_emitted_steps q' = fq_emitted_steps q"
  using assms by (auto simp: stop_axis_def set_step_low_def fw_shape_def fw_rest_def Let_def split: if_splits)

lemma stop_axes_facts:
  assumes "fold (stop_axis io) axes (q, c) = (q', c')" "fw_shape b q" "\<forall>axis \<in> set axes. axis < mb_max_axes b"
  shows "fw_shape b q' \<and> fw_rest q' = fw_rest q \<and>
    (\<forall>axis. axis \<in> set axes \<or> \<not> fq_step_high q ! axis \<longrightarrow> \<not> fq_step_high q' ! axis) \<and>
    (\<forall>axis. axis \<in> set axes \<or> \<not> fq_enabled q ! axis \<longrightarrow> \<not> fq_enabled q' ! axis) \<and>
    fq_position_steps q' = fq_position_steps q \<and> fq_emitted_steps q' = fq_emitted_steps q"
  using assms
proof (induction axes arbitrary: q c)
  case Nil
  then show ?case by simp
next
  case (Cons axis axes)
  obtain q1 c1 where s: "stop_axis io axis (q, c) = (q1, c1)" by fastforce
  note f = stop_axis_facts [OF s Cons.prems(2)]
  from Cons.IH [of q1 c1] Cons.prems s f show ?case by (simp, metis)
qed

lemma stop_outputs_facts:
  assumes "stop_outputs io (q, c) = (q', c')" "fw_shape b q"
  shows "fw_shape b q'" "fw_rest q' = fw_rest q" "outputs_off q'"
    "fq_position_steps q' = fq_position_steps q" "fq_emitted_steps q' = fq_emitted_steps q"
proof -
  have run: "fold (stop_axis io) [0..<fq_axis_count q] (q, c) = (q', c')"
    using assms(1) by (simp add: stop_outputs_def)
  note f = stop_axes_facts [OF run assms(2)]
  show "fw_shape b q'" "fw_rest q' = fw_rest q" "fq_position_steps q' = fq_position_steps q"
    "fq_emitted_steps q' = fq_emitted_steps q"
    using f assms(2) by (auto simp: fw_shape_def)
  then show "outputs_off q'"
    using f assms(2) fw_restD(1) [of q' q] by (auto simp: outputs_off_def fw_shape_def)
qed

lemma abort_facts:
  assumes "fault \<noteq> MF_None"
  shows "fq_fault (fw_motion_abort b fault q) = fault" "fq_state (fw_motion_abort b fault q) = MS_Faulted"
    "fq_size (fw_motion_abort b fault q) = 0" "fw_shape b (fw_motion_abort b fault q) = fw_shape b q"
    "fq_completed_segments (fw_motion_abort b fault q) = fq_completed_segments q"
    "fq_axis_count (fw_motion_abort b fault q) = fq_axis_count q" "fw_ring b (fw_motion_abort b fault q)"
  using assms by (auto simp: fw_motion_abort_def fw_shape_def fw_ring_def Let_def)

text \<open>A faulted queue: it holds no segment and its outputs are off.\<close>

definition fw_stopped :: "motion_build \<Rightarrow> fw_motion \<Rightarrow> bool" where
  "fw_stopped b q \<longleftrightarrow>
     fw_shape b q \<and> fw_ring b q \<and> fq_fault q \<noteq> MF_None \<and> fq_state q = MS_Faulted \<and> fq_size q = 0 \<and>
     outputs_off q"

lemma stop_with_stopped:
  assumes "fw_shape b q" "fault \<noteq> MF_None"
  shows "fw_stopped b (fst (stop_with b io fault (q, c)))"
    "fq_completed_segments (fst (stop_with b io fault (q, c))) = fq_completed_segments q"
proof -
  obtain q' c' where s: "stop_outputs io (fw_motion_abort b fault q, c) = (q', c')" by fastforce
  have sh: "fw_shape b (fw_motion_abort b fault q)" using assms abort_facts(4) by simp
  note f = stop_outputs_facts [OF s sh]
  from f fw_restD [OF f(2)] assms s abort_facts [OF assms(2), of b q]
  show "fw_stopped b (fst (stop_with b io fault (q, c)))"
    "fq_completed_segments (fst (stop_with b io fault (q, c))) = fq_completed_segments q"
    by (simp_all add: stop_with_def fw_stopped_def fw_ring_def)
qed

subsection \<open>The phase accumulator\<close>

definition axis_view where
  "axis_view q axis = (fq_active_emitted q ! axis, fq_active_phase q ! axis, fq_emitted_steps q ! axis,
     fq_position_steps q ! axis, fq_step_high q ! axis, fq_enabled q ! axis, fq_direction_positive q ! axis)"

text \<open>A segment the queue accepts: no product of a step count and a time within it overflows.\<close>

abbreviation seg_steps :: "fw_segment \<Rightarrow> nat \<Rightarrow> nat" where
  "seg_steps seg axis \<equiv> unat (step_count (fw_steps seg ! axis))"

definition fw_segment_ok :: "nat \<Rightarrow> fw_segment \<Rightarrow> bool" where
  "fw_segment_ok axis_count seg \<longleftrightarrow>
     fw_duration_ns seg \<noteq> 0 \<and> unat (fw_start_time_ns seg) + unat (fw_duration_ns seg) < 2 ^ 64 \<and>
     (\<forall>axis < axis_count. seg_steps seg axis * unat (fw_duration_ns seg) < 2 ^ 64)"

text \<open>
  \<open>d\<close> nanoseconds into the segment, an axis has emitted the pulses of \<open>e\<close> steps, its phase is the rest of
  \<open>steps * d\<close> and its position has moved by the pulses since the segment began in \<open>q0\<close>.
\<close>

definition axis_progress :: "fw_segment \<Rightarrow> fw_motion \<Rightarrow> nat \<Rightarrow> fw_motion \<Rightarrow> nat \<Rightarrow> bool" where
  "axis_progress seg q0 d q axis \<longleftrightarrow>
     (let e = fq_active_emitted q ! axis; forward = (0 \<le> sint (fw_steps seg ! axis)) in
      unat (fq_active_phase q ! axis) + unat e * unat (fw_duration_ns seg) = seg_steps seg axis * d \<and>
      fq_emitted_steps q ! axis = fq_emitted_steps q0 ! axis + e \<and>
      fq_position_steps q ! axis = fq_position_steps q0 ! axis + (if forward then e else - e) \<and>
      fq_direction_positive q ! axis = forward)"

lemma axis_progress_view:
  "axis_view q' axis = axis_view q axis \<Longrightarrow> axis_progress seg q0 d q' axis = axis_progress seg q0 d q axis"
  by (simp add: axis_view_def axis_progress_def)

lemma lower_step_facts:
  assumes "lower_step b io axis (q, c) = r" "fw_shape b q" "axis < mb_max_axes b"
  shows "case r of
      Inl (res, run) \<Rightarrow> fw_stopped b (fst run) \<and> fq_completed_segments (fst run) = fq_completed_segments q
    | Inr (q', c') \<Rightarrow> fw_shape b q' \<and> fw_rest q' = fw_rest q \<and> \<not> fq_step_high q' ! axis \<and>
        (\<forall>i. i \<noteq> axis \<longrightarrow> axis_view q' i = axis_view q i) \<and>
        (\<forall>seg q0 d. axis_progress seg q0 d q' axis = axis_progress seg q0 d q axis)"
proof (cases "fq_step_high q ! axis")
  case False
  with assms show ?thesis by (auto simp: lower_step_def)
next
  case True
  obtain ok c1 where call: "call_io (io_set_step io) axis False c = (ok, c1)" by fastforce
  show ?thesis
  proof (cases ok)
    case False
    with assms True call stop_with_stopped [OF assms(2), of MF_Aborted io c1]
    show ?thesis by (auto simp: lower_step_def)
  next
    case ok: True
    then have "r = Inr (set_step_low axis q, c1)" using assms(1) True call by (simp add: lower_step_def)
    then show ?thesis
      using assms(2,3) by (simp add: set_step_low_def fw_shape_def fw_rest_def axis_view_def axis_progress_def)
  qed
qed

lemma advance_phase_facts:
  assumes "advance_phase b io (step_count (fw_steps seg ! axis)) delta axis (q, c) = r"
    and "fw_shape b q" "axis < mb_max_axes b" "axis_progress seg q0 d q axis"
    and "d + unat delta \<le> unat (fw_duration_ns seg)"
    and "seg_steps seg axis * unat (fw_duration_ns seg) < 2 ^ 64"
  shows "\<exists>q'. r = Inr (q', c) \<and> fw_shape b q' \<and> fw_rest q' = fw_rest q \<and>
    fq_step_high q' = fq_step_high q \<and> fq_active_emitted q' = fq_active_emitted q \<and> (\<forall>i. i \<noteq> axis \<longrightarrow> axis_view q' i = axis_view q i) \<and>
    axis_progress seg q0 (d + unat delta) q' axis"
proof -
  let ?T = "step_count (fw_steps seg ! axis)" and ?p = "fq_active_phase q ! axis"
    and ?e = "fq_active_emitted q ! axis"
  have bound: "unat ?T * (d + unat delta) < 2 ^ 64"
    using mult_le_mono2 [OF assms(5), of "unat ?T"] assms(6) by linarith
  have eq: "unat ?p + unat ?e * unat (fw_duration_ns seg) = unat ?T * d"
    using assms(4) by (simp add: axis_progress_def Let_def)
  have inc: "unat (?T * delta) = unat ?T * unat delta"
    using bound by (intro unat_mult_small) (simp add: algebra_simps)
  have sum: "unat ?p + unat ?T * unat delta < 2 ^ 64"
    using bound eq by (simp add: algebra_simps)
  have "unat (uint64_max - ?p) = 2 ^ 64 - 1 - unat ?p"
    using u64_bound [of ?p] by (simp add: uint64_max_def unat_diff unsigned_minus_1_eq_mask mask_eq_exp_minus_1)
  then have room: "\<not> uint64_max - ?p < ?T * delta"
    using sum inc by (simp add: word_less_nat_alt)
  show ?thesis
  proof (cases "?T \<noteq> 0 \<and> delta \<noteq> 0")
    case True
    have "unat (?p + ?T * delta) = unat ?p + unat ?T * unat delta"
      using sum inc by (simp add: unat_add_small)
    then have phase: "unat (?p + ?T * delta) + unat ?e * unat (fw_duration_ns seg) = unat ?T * (d + unat delta)"
      using eq by (simp add: add_mult_distrib2)
    define q' where "q' = q\<lparr>fq_active_phase := (fq_active_phase q)[axis := ?p + ?T * delta]\<rparr>"
    have "r = Inr (q', c)"
      using assms(1) True room by (simp add: advance_phase_def Let_def q'_def)
    moreover have "fw_shape b q'" "fw_rest q' = fw_rest q" "fq_step_high q' = fq_step_high q"
      "fq_active_emitted q' = fq_active_emitted q"
      using assms(2) by (simp_all add: q'_def fw_shape_def fw_rest_def)
    moreover have "\<forall>i. i \<noteq> axis \<longrightarrow> axis_view q' i = axis_view q i"
      by (simp add: q'_def axis_view_def)
    moreover have "axis_progress seg q0 (d + unat delta) q' axis"
      using assms(2,3,4) phase by (simp add: q'_def fw_shape_def axis_progress_def Let_def)
    ultimately show ?thesis by blast
  next
    case False
    then have "r = Inr (q, c)" "unat ?T * (d + unat delta) = unat ?T * d"
      using assms(1) by (auto simp: advance_phase_def)
    with assms(2,4) show ?thesis by (simp add: axis_progress_def Let_def)
  qed
qed

lemma raise_step_facts:
  assumes "raise_step b io (step_count (fw_steps seg ! axis)) (fw_duration_ns seg) axis (q, c) = r"
    and "fw_shape b q" "axis < mb_max_axes b" "axis_progress seg q0 d q axis"
  shows "case r of
      Inl (res, run) \<Rightarrow> fw_stopped b (fst run) \<and> fq_completed_segments (fst run) = fq_completed_segments q
    | Inr (q', c') \<Rightarrow> fw_shape b q' \<and> fw_rest q' = fw_rest q \<and>
        (\<forall>i. i \<noteq> axis \<longrightarrow> axis_view q' i = axis_view q i) \<and> axis_progress seg q0 d q' axis"
proof (cases "fq_active_emitted q ! axis < step_count (fw_steps seg ! axis) \<and>
    fq_active_phase q ! axis \<ge> fw_duration_ns seg")
  case False
  with assms show ?thesis by (auto simp: raise_step_def)
next
  case True
  let ?p = "fq_active_phase q ! axis" and ?e = "fq_active_emitted q ! axis"
  define q1 where "q1 = q\<lparr>fq_active_phase := (fq_active_phase q)[axis := ?p - fw_duration_ns seg]\<rparr>"
  obtain ok c1 where call: "call_io (io_set_step io) axis True c = (ok, c1)" by fastforce
  have shape: "fw_shape b q1" using assms(2) by (simp add: q1_def fw_shape_def)
  show ?thesis
  proof (cases ok)
    case False
    with assms(1) True call stop_with_stopped [OF shape, of MF_Aborted io c1]
    show ?thesis by (auto simp: raise_step_def q1_def Let_def)
  next
    case ok: True
    then have r: "r = Inr (count_pulse axis q1, c1)"
      using assms(1) True call by (simp add: raise_step_def q1_def)
    have "unat (?p - fw_duration_ns seg) = unat ?p - unat (fw_duration_ns seg)"
      "unat (fw_duration_ns seg) \<le> unat ?p"
      using True by (auto simp: unat_diff word_le_nat_alt)
    moreover have "unat (?e + 1) = unat ?e + 1" using True unat_succ by blast
    ultimately have "unat (?p - fw_duration_ns seg) + unat (?e + 1) * unat (fw_duration_ns seg) =
        unat ?p + unat ?e * unat (fw_duration_ns seg)"
      by simp
    then have "axis_progress seg q0 d (count_pulse axis q1) axis"
      using assms(2,3,4) by (simp add: q1_def count_pulse_def fw_shape_def axis_progress_def Let_def)
    moreover have "fw_shape b (count_pulse axis q1)" "fw_rest (count_pulse axis q1) = fw_rest q"
      "\<forall>i. i \<noteq> axis \<longrightarrow> axis_view (count_pulse axis q1) i = axis_view q i"
      using assms(2) by (simp_all add: q1_def count_pulse_def fw_shape_def fw_rest_def axis_view_def)
    ultimately show ?thesis using r by simp
  qed
qed

lemma emit_axis_facts:
  assumes "fw_shape b q" "axis < mb_max_axes b" "axis_progress seg q0 d q axis"
    and "d + unat delta \<le> unat (fw_duration_ns seg)"
    and "seg_steps seg axis * unat (fw_duration_ns seg) < 2 ^ 64"
  shows "case emit_axis b io seg delta axis (q, c) of
      Inl (res, run) \<Rightarrow> fw_stopped b (fst run) \<and> fq_completed_segments (fst run) = fq_completed_segments q
    | Inr (q', c') \<Rightarrow> fw_shape b q' \<and> fw_rest q' = fw_rest q \<and>
        (\<forall>i. i \<noteq> axis \<longrightarrow> axis_view q' i = axis_view q i) \<and>
        axis_progress seg q0 (d + unat delta) q' axis"
proof (cases "lower_step b io axis (q, c)")
  case (Inl e)
  then show ?thesis
    using lower_step_facts [OF refl assms(1,2), of io c] by (simp add: emit_axis_def chain_exit_def)
next
  case (Inr run1)
  obtain q1 c1 where run1: "run1 = (q1, c1)" by fastforce
  note l = lower_step_facts [OF refl assms(1,2), of io c, unfolded Inr run1, simplified]
  then have p1: "fw_shape b q1" "axis_progress seg q0 d q1 axis" using assms(3) by simp_all
  obtain q2 where q2: "advance_phase b io (step_count (fw_steps seg ! axis)) delta axis (q1, c1) = Inr (q2, c1)"
    and a: "fw_shape b q2" "fw_rest q2 = fw_rest q1" "\<forall>i. i \<noteq> axis \<longrightarrow> axis_view q2 i = axis_view q1 i"
      "axis_progress seg q0 (d + unat delta) q2 axis"
    using advance_phase_facts [OF refl p1(1) assms(2) p1(2) assms(4,5), of io c1] by (elim exE conjE)
  have rest: "fw_rest q2 = fw_rest q" using a(2) l by simp
  have run: "emit_axis b io seg delta axis (q, c) =
      raise_step b io (step_count (fw_steps seg ! axis)) (fw_duration_ns seg) axis (q2, c1)"
    using Inr run1 q2 by (simp add: emit_axis_def chain_exit_def)
  have "i \<noteq> axis \<Longrightarrow> axis_view q2 i = axis_view q i" for i using l a(3) by simp
  with raise_step_facts [OF refl a(1) assms(2) a(4), of io c1] rest fw_restD(7) [OF rest]
  show ?thesis unfolding run by (auto split: sum.splits)
qed

text \<open>The loop over the axes that are left: those before them are already at the new time.\<close>

lemma emit_loop_facts:
  assumes "fw_shape b q" "distinct axes" "fw_segment_ok (fq_axis_count q) seg"
    and "\<forall>axis \<in> set axes. axis < fq_axis_count q \<and> axis_progress seg q0 d q axis"
    and "d + unat delta \<le> unat (fw_duration_ns seg)"
  shows "case emit_loop b io seg delta axes (q, c) of
      Inl (res, run) \<Rightarrow> fw_stopped b (fst run) \<and> fq_completed_segments (fst run) = fq_completed_segments q
    | Inr (q', c') \<Rightarrow> fw_shape b q' \<and> fw_rest q' = fw_rest q \<and>
        (\<forall>i. i \<notin> set axes \<longrightarrow> axis_view q' i = axis_view q i) \<and>
        (\<forall>axis \<in> set axes. axis_progress seg q0 (d + unat delta) q' axis)"
  using assms
proof (induction axes arbitrary: q c)
  case Nil
  then show ?case by simp
next
  case (Cons axis axes)
  have axis: "axis < mb_max_axes b" "axis_progress seg q0 d q axis" "axis \<notin> set axes"
    and small: "seg_steps seg axis * unat (fw_duration_ns seg) < 2 ^ 64"
    using Cons.prems by (auto simp: fw_shape_def fw_segment_ok_def)
  note one = emit_axis_facts [OF Cons.prems(1) axis(1,2) Cons.prems(5) small, of io c]
  show ?case
  proof (cases "emit_axis b io seg delta axis (q, c)")
    case (Inl e)
    then show ?thesis using one by (simp add: chain_exit_def)
  next
    case (Inr run1)
    obtain q1 c1 where run1: "run1 = (q1, c1)" by fastforce
    note f = one [unfolded Inr run1, simplified]
    have rest: "fw_rest q1 = fw_rest q" using f by simp
    have loop: "emit_loop b io seg delta (axis # axes) (q, c) = emit_loop b io seg delta axes (q1, c1)"
      by (simp add: chain_exit_def Inr run1)
    have "axis_progress seg q0 d q1 i = axis_progress seg q0 d q i" if "i \<in> set axes" for i
      using that axis(3) f by (intro axis_progress_view) auto
    then have ready: "\<forall>i \<in> set axes. i < fq_axis_count q1 \<and> axis_progress seg q0 d q1 i"
      using Cons.prems(4) fw_restD(1) [OF rest] by simp
    have ok: "fw_shape b q1" "distinct axes" "fw_segment_ok (fq_axis_count q1) seg"
      using f Cons.prems(2,3) fw_restD(1) [OF rest] by simp_all
    note ih = Cons.IH [OF ok ready Cons.prems(5), of c1]
    show ?thesis
    proof (cases "emit_loop b io seg delta axes (q1, c1)")
      case (Inl e)
      with ih fw_restD(7) [OF rest] show ?thesis unfolding loop by (cases e) simp
    next
      case (Inr run)
      obtain q' c' where run: "run = (q', c')" by fastforce
      note ih' = ih [unfolded Inr run, simplified]
      have "axis_progress seg q0 (d + unat delta) q' axis"
        using ih' axis(3) f axis_progress_view [of q' axis q1] by blast
      moreover have "i \<notin> set (axis # axes) \<Longrightarrow> axis_view q' i = axis_view q i" for i
        using ih' f by simp
      ultimately show ?thesis using ih' rest unfolding loop by (simp add: Inr run)
    qed
  qed
qed

subsection \<open>One tick\<close>

text \<open>The segment at the front since it was armed in \<open>q0\<close>: not begun, or \<open>d\<close> nanoseconds into it.\<close>

definition seg_front :: "motion_build \<Rightarrow> fw_segment \<Rightarrow> fw_motion \<Rightarrow> fw_motion \<Rightarrow> bool" where
  "seg_front b seg q0 q \<longleftrightarrow>
     fw_shape b q \<and> fq_fault q = MF_None \<and> fq_size q \<noteq> 0 \<and> segment_at (fq_head q) q = seg \<and>
     fq_axis_count q = fq_axis_count q0 \<and> fw_segment_ok (fq_axis_count q) seg"

definition seg_armed :: "motion_build \<Rightarrow> fw_segment \<Rightarrow> fw_motion \<Rightarrow> fw_motion \<Rightarrow> bool" where
  "seg_armed b seg q0 q \<longleftrightarrow>
     seg_front b seg q0 q \<and> fq_state q = MS_Armed \<and>
     fq_position_steps q = fq_position_steps q0 \<and> fq_emitted_steps q = fq_emitted_steps q0"

definition seg_running :: "motion_build \<Rightarrow> fw_segment \<Rightarrow> fw_motion \<Rightarrow> nat \<Rightarrow> fw_motion \<Rightarrow> bool" where
  "seg_running b seg q0 d q \<longleftrightarrow>
     seg_front b seg q0 q \<and> fq_state q = MS_Running \<and> d \<le> unat (fw_duration_ns seg) \<and>
     unat (fq_active_last_tick_ns q) = unat (fw_start_time_ns seg) + d \<and>
     (\<forall>axis < fq_axis_count q. axis_progress seg q0 d q axis)"

text \<open>Every axis has made exactly the steps the segment commands.\<close>

definition seg_done :: "fw_segment \<Rightarrow> fw_motion \<Rightarrow> fw_motion \<Rightarrow> bool" where
  "seg_done seg q0 q \<longleftrightarrow>
     (\<forall>axis < fq_axis_count q0.
        fq_position_steps q ! axis = fq_position_steps q0 ! axis + scast (fw_steps seg ! axis) \<and>
        fq_emitted_steps q ! axis = fq_emitted_steps q0 ! axis + step_count (fw_steps seg ! axis))"

text \<open>How far into the segment a tick at \<open>now\<close> is.\<close>

definition seg_elapsed :: "fw_segment \<Rightarrow> u64 \<Rightarrow> nat" where
  "seg_elapsed seg now_ns = min (unat now_ns - unat (fw_start_time_ns seg)) (unat (fw_duration_ns seg))"

definition tick_outcome ::
  "motion_build \<Rightarrow> fw_segment \<Rightarrow> fw_motion \<Rightarrow> u64 \<Rightarrow> fw_motion \<Rightarrow> fw_motion \<Rightarrow> bool" where
  "tick_outcome b seg q0 now_ns q q' \<longleftrightarrow>
     fw_stopped b q' \<and> fq_completed_segments q' = fq_completed_segments q \<or>
     fq_completed_segments q' = fq_completed_segments q + 1 \<and> seg_done seg q0 q' \<and>
       unat (fw_start_time_ns seg) + unat (fw_duration_ns seg) \<le> unat now_ns \<and>
       (fq_fault q' \<noteq> MF_None \<longrightarrow> outputs_off q') \<or>
     fq_completed_segments q' = fq_completed_segments q \<and>
       (seg_armed b seg q0 q' \<and> now_ns < fw_start_time_ns seg \<or>
        seg_running b seg q0 (seg_elapsed seg now_ns) q')"

lemma step_count_signed: "(if 0 \<le> sint w then step_count w else - step_count w) = (scast w :: u64)"
  by (auto simp: step_count_def)

lemma tick_times:
  assumes "seg_running b seg q0 d q" "d \<le> seg_elapsed seg now_ns"
  shows "unat (tick_elapsed seg now_ns) = unat now_ns - unat (fw_start_time_ns seg)"
    and "unat (tick_time seg now_ns) = unat (fw_start_time_ns seg) + seg_elapsed seg now_ns"
    and "d + unat (tick_delta seg now_ns q) = seg_elapsed seg now_ns"
proof -
  let ?e = "tick_elapsed seg now_ns"
  have small: "unat (fw_start_time_ns seg) + unat (fw_duration_ns seg) < 2 ^ 64"
    and last: "unat (fq_active_last_tick_ns q) = unat (fw_start_time_ns seg) + d"
    using assms(1) by (auto simp: seg_running_def seg_front_def fw_segment_ok_def)
  show e: "unat ?e = unat now_ns - unat (fw_start_time_ns seg)"
    by (auto simp: tick_elapsed_def unat_diff word_le_nat_alt)
  have bnd: "unat (if ?e < fw_duration_ns seg then ?e else fw_duration_ns seg) = seg_elapsed seg now_ns"
    using e by (auto simp: seg_elapsed_def word_less_nat_alt)
  show t: "unat (tick_time seg now_ns) = unat (fw_start_time_ns seg) + seg_elapsed seg now_ns"
    unfolding tick_time_def using bnd small by (subst unat_add_small) (auto simp: seg_elapsed_def)
  have "fq_active_last_tick_ns q \<le> tick_time seg now_ns"
    using t last assms(2) by (simp add: word_le_nat_alt)
  then show "d + unat (tick_delta seg now_ns q) = seg_elapsed seg now_ns"
    using t last assms(2) by (auto simp: tick_delta_def word_less_nat_alt dest: unat_diff)
qed

lemma complete_facts:
  assumes "fw_complete_front b q = (done, q')" "fq_size q \<noteq> 0" "fq_fault q = MF_None"
  shows "done" "fq_completed_segments q' = fq_completed_segments q + 1"
    "fq_position_steps q' = fq_position_steps q" "fq_emitted_steps q' = fq_emitted_steps q"
    "fw_shape b' q' = fw_shape b' q" "fq_axis_count q' = fq_axis_count q"
  using assms by (auto simp: fw_complete_front_def Let_def fw_shape_def split: if_splits)

lemma all_emitted_done:
  assumes "all_emitted seg q" "\<forall>axis < fq_axis_count q. axis_progress seg q0 d q axis"
    and "fq_axis_count q = fq_axis_count q0"
  shows "seg_done seg q0 q"
proof -
  have "fq_position_steps q ! axis = fq_position_steps q0 ! axis + scast (fw_steps seg ! axis) \<and>
      fq_emitted_steps q ! axis = fq_emitted_steps q0 ! axis + step_count (fw_steps seg ! axis)"
    if "axis < fq_axis_count q" for axis
    using assms that step_count_signed [of "fw_steps seg ! axis"]
    by (auto simp: all_emitted_def list_all_iff axis_progress_def Let_def)
  with assms(3) show ?thesis by (simp add: seg_done_def)
qed

lemma stop_keeps:
  fixes io :: "'c motion_io" and c :: 'c
  assumes "fw_shape b q"
  defines "q' \<equiv> fst (stop_outputs io (q, c))"
  shows "fw_shape b q'" "outputs_off q'" "fq_fault q' = fq_fault q"
    "fq_completed_segments q' = fq_completed_segments q" "seg_done seg q0 q' = seg_done seg q0 q"
    "fw_rest q' = fw_rest q"
proof -
  obtain c' where "stop_outputs io (q, c) = (q', c')" unfolding q'_def by (metis prod.collapse)
  from stop_outputs_facts [OF this assms(1)] fw_restD [of q' q]
  show "fw_shape b q'" "outputs_off q'" "fq_fault q' = fq_fault q"
    "fq_completed_segments q' = fq_completed_segments q" "seg_done seg q0 q' = seg_done seg q0 q"
    "fw_rest q' = fw_rest q"
    by (simp_all add: seg_done_def)
qed

lemma stop_stopped:
  assumes "fw_shape b q" "fw_ring b q" "fq_fault q \<noteq> MF_None" "fq_state q = MS_Faulted" "fq_size q = 0"
  shows "fw_stopped b (fst (stop_outputs io (q, c)))"
    "fq_completed_segments (fst (stop_outputs io (q, c))) = fq_completed_segments q"
  using assms stop_keeps [OF assms(1), where io = io and c = c]
    fw_restD [OF stop_keeps(6) [OF assms(1), where io = io and c = c]]
  by (simp_all add: fw_stopped_def fw_ring_def)

lemma finish_tick_outcome:
  assumes run: "seg_running b seg q0 (seg_elapsed seg now_ns) q"
    and elapsed: "unat elapsed = unat now_ns - unat (fw_start_time_ns seg)"
  shows "tick_outcome b seg q0 now_ns q (fst (snd (finish_tick b io seg elapsed (q, c))))"
proof -
  have front: "fw_shape b q" "fq_fault q = MF_None" "fq_size q \<noteq> 0" "fq_axis_count q = fq_axis_count q0"
    using run by (auto simp: seg_running_def seg_front_def)
  have axes: "\<forall>axis < fq_axis_count q. axis_progress seg q0 (seg_elapsed seg now_ns) q axis"
    using run by (simp add: seg_running_def)
  show ?thesis
  proof (cases "elapsed \<ge> fw_duration_ns seg \<and> all_emitted seg q")
    case True
    have "seg_done seg q0 q" using all_emitted_done [OF _ axes front(4)] True by simp
    moreover obtain fin q1 where c1: "fw_complete_front b q = (fin, q1)" by fastforce
    note f = complete_facts [OF c1 front(3,2)]
    ultimately have moved: "seg_done seg q0 q1" by (simp add: seg_done_def)
    have shape: "fw_shape b q1" using f(5) front(1) by simp
    have front_done: "fw_complete_front b q = (True, q1)" using c1 f(1) by simp
    have "fst (snd (finish_tick b io seg elapsed (q, c))) =
        (if fw_final_segment seg \<or> fq_fault q1 \<noteq> MF_None then fst (stop_outputs io (q1, c)) else q1)"
      using True front_done by (simp add: finish_tick_def)
    moreover have "unat (fw_start_time_ns seg) + unat (fw_duration_ns seg) \<le> unat now_ns"
    proof -
      have "0 < unat (fw_duration_ns seg)"
        using run by (simp add: seg_running_def seg_front_def fw_segment_ok_def unat_gt_0)
      moreover have "unat (fw_duration_ns seg) \<le> unat elapsed" using True by (simp add: word_le_nat_alt)
      ultimately show ?thesis using elapsed by linarith
    qed
    ultimately show ?thesis
      using f(2) moved stop_keeps [OF shape, where io = io and c = c] by (simp add: tick_outcome_def)
  next
    case False
    define q1 where "q1 = (fw_motion_abort b MF_QueueUnderrun q)
      \<lparr>fq_queue_underruns := fq_queue_underruns (fw_motion_abort b MF_QueueUnderrun q) + 1\<rparr>"
    have "fw_shape b q1" "fw_ring b q1" "fq_fault q1 \<noteq> MF_None" "fq_state q1 = MS_Faulted" "fq_size q1 = 0"
      "fq_completed_segments q1 = fq_completed_segments q"
      using front(1) abort_facts [of MF_QueueUnderrun b q] by (simp_all add: q1_def fw_shape_def fw_ring_def)
    then have "fw_stopped b (fst (stop_outputs io (q1, c))) \<and>
        fq_completed_segments (fst (stop_outputs io (q1, c))) = fq_completed_segments q"
      using stop_stopped [of b q1 io c] by simp
    moreover have "fst (snd (finish_tick b io seg elapsed (q, c))) =
        (if elapsed > fw_duration_ns seg + 1000000000 div mb_timer_hz b then fst (stop_outputs io (q1, c)) else q)"
      unfolding finish_tick_def prod.case if_not_P [OF False] by (simp add: Let_def q1_def)
    ultimately show ?thesis using run by (simp add: tick_outcome_def)
  qed
qed

text \<open>The loop over the axes brings a running segment to the time of the tick, or ends in a stop.\<close>

lemma emitted_running:
  assumes run: "seg_running b seg q0 d q" and now: "d \<le> seg_elapsed seg now_ns"
  shows "case emit_loop b io seg (tick_delta seg now_ns q) [0..<fq_axis_count q]
        (q\<lparr>fq_active_last_tick_ns := tick_time seg now_ns\<rparr>, c) of
      Inl (res, run') \<Rightarrow> fw_stopped b (fst run') \<and> fq_completed_segments (fst run') = fq_completed_segments q
    | Inr (q', c') \<Rightarrow> seg_running b seg q0 (seg_elapsed seg now_ns) q' \<and>
        fq_completed_segments q' = fq_completed_segments q"
proof -
  define q1 where "q1 = q\<lparr>fq_active_last_tick_ns := tick_time seg now_ns\<rparr>"
  note tt = tick_times [OF run now]
  have front: "seg_front b seg q0 q" using run by (simp add: seg_running_def)
  have ready: "fw_shape b q1" "distinct [0..<fq_axis_count q]" "fw_segment_ok (fq_axis_count q1) seg"
    "\<forall>axis \<in> set [0..<fq_axis_count q]. axis < fq_axis_count q1 \<and> axis_progress seg q0 d q1 axis"
    "d + unat (tick_delta seg now_ns q) \<le> unat (fw_duration_ns seg)"
    using run front tt(3) by (auto simp: q1_def seg_running_def seg_front_def fw_shape_def
        axis_progress_def seg_elapsed_def)
  note loop = emit_loop_facts [OF ready(1-5), of io c]
  have same: "fq_completed_segments q1 = fq_completed_segments q" by (simp add: q1_def)
  show ?thesis
  proof (cases "emit_loop b io seg (tick_delta seg now_ns q) [0..<fq_axis_count q] (q1, c)")
    case (Inl e)
    with loop same show ?thesis by (cases e) (simp flip: q1_def)
  next
    case (Inr run2)
    obtain q2 c2 where run2: "run2 = (q2, c2)" by fastforce
    note f = loop [unfolded Inr run2 tt(3), simplified]
    have rest: "fw_rest q2 = fw_rest q1" using f by simp
    have "fq_active_last_tick_ns q2 = tick_time seg now_ns"
      using fw_restD(8) [OF rest] by (simp add: q1_def)
    then have "seg_running b seg q0 (seg_elapsed seg now_ns) q2"
      using f front fw_restD [OF rest] run tt(2)
      by (simp add: seg_running_def seg_front_def q1_def segment_at_def seg_elapsed_def)
    with Inr run2 fw_restD(7) [OF rest] same show ?thesis by (simp flip: q1_def)
  qed
qed

lemma run_segment_outcome:
  assumes run: "seg_running b seg q0 d q" and now: "d \<le> seg_elapsed seg now_ns"
  shows "tick_outcome b seg q0 now_ns q (fst (snd (run_segment b io seg now_ns (q, c))))"
proof -
  let ?loop = "emit_loop b io seg (tick_delta seg now_ns q) [0..<fq_axis_count q]
    (q\<lparr>fq_active_last_tick_ns := tick_time seg now_ns\<rparr>, c)"
  note loop = emitted_running [OF run now, of io c]
  have result: "run_segment b io seg now_ns (q, c) =
      (case ?loop of Inl exit \<Rightarrow> exit | Inr run \<Rightarrow> finish_tick b io seg (tick_elapsed seg now_ns) run)"
    by (simp add: run_segment_def)
  show ?thesis
  proof (cases ?loop)
    case (Inl e)
    with loop show ?thesis unfolding result by (cases e) (simp add: tick_outcome_def)
  next
    case (Inr run2)
    obtain q2 c2 where run2: "run2 = (q2, c2)" by fastforce
    note f = loop [unfolded Inr run2, simplified]
    from finish_tick_outcome [OF conjunct1 [OF f] tick_times(1) [OF run now], of io c2] f
    show ?thesis unfolding result Inr run2 by (simp add: tick_outcome_def)
  qed
qed

text \<open>The three loops before the segment runs.\<close>

lemma limit_loop_facts:
  assumes "fw_shape b q"
  shows "case limit_loop b io axes (q, c) of
      Inl (res, run) \<Rightarrow> fw_stopped b (fst run) \<and> fq_completed_segments (fst run) = fq_completed_segments q
    | Inr (q', c') \<Rightarrow> q' = q"
proof (induction axes arbitrary: c)
  case Nil
  then show ?case by simp
next
  case (Cons axis axes)
  show ?case
  proof (cases "io_limit_active io")
    case None
    then show ?thesis by simp
  next
    case (Some f)
    obtain ok active c1 where "f c axis False = (ok, active, c1)" by (cases "f c axis False") auto
    with Some Cons.IH [of c1] stop_with_stopped [OF assms, where io = io and c = c1] show ?thesis
      by (cases ok) simp_all
  qed
qed

definition same_pulses :: "fw_motion \<Rightarrow> fw_motion \<Rightarrow> bool" where
  "same_pulses q' q \<longleftrightarrow>
     fw_rest q' = fw_rest q \<and> fq_active_emitted q' = fq_active_emitted q \<and>
     fq_active_phase q' = fq_active_phase q \<and> fq_emitted_steps q' = fq_emitted_steps q \<and>
     fq_position_steps q' = fq_position_steps q"

lemma direction_loop_facts:
  assumes "fw_shape b q" "\<forall>axis \<in> set axes. axis < mb_max_axes b"
  shows "case direction_loop b io seg axes (q, c) of
      Inl (res, run) \<Rightarrow> fw_stopped b (fst run) \<and> fq_completed_segments (fst run) = fq_completed_segments q
    | Inr (q', c') \<Rightarrow> fw_shape b q' \<and> same_pulses q' q \<and>
        (\<forall>axis. axis \<notin> set axes \<longrightarrow> fq_direction_positive q' ! axis = fq_direction_positive q ! axis) \<and>
        (\<forall>axis \<in> set axes. fq_direction_positive q' ! axis = (0 \<le> sint (fw_steps seg ! axis)))"
  using assms
proof (induction axes arbitrary: q c)
  case Nil
  then show ?case by (simp add: same_pulses_def)
next
  case (Cons axis axes)
  let ?pos = "0 \<le> sint (fw_steps seg ! axis)"
  define q1 where "q1 = q\<lparr>fq_direction_positive := (fq_direction_positive q)[axis := ?pos]\<rparr>"
  obtain ok c1 where call: "call_io (io_set_direction io) axis ?pos c = (ok, c1)" by fastforce
  show ?case
  proof (cases ok)
    case False
    with call stop_with_stopped [OF Cons.prems(1), of MF_Aborted io c1] show ?thesis by simp
  next
    case True
    then have loop: "direction_loop b io seg (axis # axes) (q, c) = direction_loop b io seg axes (q1, c1)"
      using call by (simp add: q1_def)
    have shape: "fw_shape b q1" using Cons.prems(1) by (simp add: q1_def fw_shape_def)
    have one: "same_pulses q1 q" "fq_completed_segments q1 = fq_completed_segments q"
      by (simp_all add: q1_def same_pulses_def fw_rest_def)
    have set: "fq_direction_positive q1 ! axis = ?pos"
      "\<And>i. i \<noteq> axis \<Longrightarrow> fq_direction_positive q1 ! i = fq_direction_positive q ! i"
      using Cons.prems by (simp_all add: q1_def fw_shape_def)
    from Cons.IH [OF shape, of c1] Cons.prems(2) one set show ?thesis
      unfolding loop by (fastforce simp: same_pulses_def split: sum.splits prod.splits)
  qed
qed

lemma enable_loop_facts:
  assumes "fw_shape b q"
  shows "case enable_loop b io seg axes (q, c) of
      Inl (res, run) \<Rightarrow> fw_stopped b (fst run) \<and> fq_completed_segments (fst run) = fq_completed_segments q
    | Inr (q', c') \<Rightarrow> fw_shape b q' \<and> same_pulses q' q \<and>
        fq_direction_positive q' = fq_direction_positive q"
  using assms
proof (induction axes arbitrary: q c)
  case Nil
  then show ?case by (simp add: same_pulses_def)
next
  case (Cons axis axes)
  let ?en = "fw_steps seg ! axis \<noteq> 0"
  define q1 where "q1 = q\<lparr>fq_enabled := (fq_enabled q)[axis := ?en]\<rparr>"
  obtain ok c1 where call: "call_io (io_set_enable io) axis ?en c = (ok, c1)" by fastforce
  have one: "fw_shape b q1" "same_pulses q1 q" "fq_direction_positive q1 = fq_direction_positive q"
    "fq_completed_segments q1 = fq_completed_segments q"
    using Cons.prems by (simp_all add: q1_def fw_shape_def same_pulses_def fw_rest_def)
  show ?case
  proof (cases "fq_enabled q ! axis = ?en")
    case True
    then show ?thesis using Cons.IH [OF Cons.prems, of c] by simp
  next
    case False
    then have loop: "enable_loop b io seg (axis # axes) (q, c) =
        (if ok then enable_loop b io seg axes (q1, c1) else Inl (False, stop_with b io MF_Aborted (q, c1)))"
      using call by (simp add: q1_def split: if_splits)
    from Cons.IH [OF one(1), of c1] stop_with_stopped [OF Cons.prems, of MF_Aborted io c1] one show ?thesis
      unfolding loop by (auto simp: same_pulses_def split: sum.splits prod.splits)
  qed
qed

lemma begin_segment_facts:
  assumes "seg_armed b seg q0 q"
  shows "case begin_segment b io seg (q, c) of
      Inl (res, run) \<Rightarrow> fw_stopped b (fst run) \<and> fq_completed_segments (fst run) = fq_completed_segments q
    | Inr (q', c') \<Rightarrow> seg_running b seg q0 0 q' \<and> fq_completed_segments q' = fq_completed_segments q"
proof -
  define q1 where "q1 = q\<lparr>fq_active_emitted := replicate (mb_max_axes b) 0,
    fq_active_phase := replicate (mb_max_axes b) 0, fq_active_last_tick_ns := fw_start_time_ns seg\<rparr>"
  let ?axes = "[0..<fq_axis_count q]"
  have front: "fw_shape b q1" "fq_axis_count q \<le> mb_max_axes b"
    using assms by (auto simp: seg_armed_def seg_front_def fw_shape_def q1_def)
  have same: "fq_completed_segments q1 = fq_completed_segments q" by (simp add: q1_def)
  note dir = direction_loop_facts [OF front(1), where io = io and seg = seg and axes = ?axes and c = c]
  show ?thesis
  proof (cases "direction_loop b io seg ?axes (q1, c)")
    case (Inl e)
    with dir front(2) same show ?thesis by (cases e) (simp add: begin_segment_def chain_exit_def q1_def)
  next
    case (Inr run2)
    obtain q2 c2 where run2: "run2 = (q2, c2)" by fastforce
    note d = dir [unfolded Inr run2, simplified]
    have shape2: "fw_shape b q2" using d front(2) by simp
    note en = enable_loop_facts [OF shape2, where io = io and seg = seg and axes = ?axes and c = c2]
    have same2: "fq_completed_segments q2 = fq_completed_segments q"
      using d front(2) same fw_restD(7) [of q2 q1] by (simp add: same_pulses_def)
    have result: "begin_segment b io seg (q, c) =
        chain_exit (enable_loop b io seg ?axes (q2, c2)) (\<lambda>(q3, c3). Inr (q3\<lparr>fq_state := MS_Running\<rparr>, c3))"
      using Inr run2 by (simp add: begin_segment_def chain_exit_def q1_def)
    show ?thesis
    proof (cases "enable_loop b io seg ?axes (q2, c2)")
      case (Inl e)
      with en same2 show ?thesis unfolding result by (cases e) (simp add: chain_exit_def)
    next
      case (Inr run3)
      obtain q3 c3 where run3: "run3 = (q3, c3)" by fastforce
      note e = en [unfolded Inr run3, simplified]
      have pulses: "same_pulses q3 q1" using e d front(2) by (simp add: same_pulses_def)
      have dirs: "\<forall>axis < fq_axis_count q. fq_direction_positive q3 ! axis = (0 \<le> sint (fw_steps seg ! axis))"
        using e d front(2) by simp
      note r = fw_restD [OF pulses [unfolded same_pulses_def, THEN conjunct1]]
      define q4 where "q4 = q3\<lparr>fq_state := MS_Running\<rparr>"
      have shape4: "fw_shape b q4" using conjunct1 [OF e] by (simp add: q4_def fw_shape_def)
      have "seg_front b seg q0 q4"
        using assms shape4 r by (auto simp: seg_armed_def seg_front_def segment_at_def q4_def q1_def)
      moreover have "axis_progress seg q0 0 q4 axis" if "axis < fq_axis_count q" for axis
        using that assms pulses dirs front(2)
        by (simp add: axis_progress_def same_pulses_def seg_armed_def q4_def q1_def)
      ultimately have "seg_running b seg q0 0 q4"
        using r by (simp add: seg_running_def q4_def q1_def)
      then show ?thesis
        using Inr run3 r(7) same unfolding result by (simp add: chain_exit_def q4_def)
    qed
  qed
qed

text \<open>What a tick makes of the segment, whatever the callbacks do.\<close>

lemma fw_tick_outcome:
  assumes io: "io_set_enable io \<noteq> None" "io_set_direction io \<noteq> None" "io_set_step io \<noteq> None"
    and at: "seg_armed b seg q0 q \<or> (\<exists>d \<le> seg_elapsed seg now_ns. seg_running b seg q0 d q)"
  shows "tick_outcome b seg q0 now_ns q (fst (snd (fw_tick b io now_ns (q, c))))"
proof -
  have front: "fw_shape b q" "fq_fault q = MF_None" "fq_size q \<noteq> 0" "segment_at (fq_head q) q = seg"
    using at by (auto simp: seg_armed_def seg_running_def seg_front_def)
  have present: "(io_set_enable io = None \<or> io_set_direction io = None \<or> io_set_step io = None) = False"
    using io by simp
  let ?limits = "limit_loop b io [0..<fq_axis_count q] (q, c)"
  note lim = limit_loop_facts [OF front(1), where io = io and axes = "[0..<fq_axis_count q]" and c = c]
  show ?thesis
  proof (cases ?limits)
    case (Inl e)
    with lim io front(2) show ?thesis by (cases e) (auto simp: fw_tick_def tick_outcome_def)
  next
    case (Inr run1)
    then obtain c1 where lim1: "?limits = Inr (q, c1)" using lim by (cases run1) simp
    have tick: "fw_tick b io now_ns (q, c) =
        (if fq_state q = MS_Armed then
           (if now_ns < fw_start_time_ns seg then (True, (q, c1))
            else case begin_segment b io seg (q, c1) of
              Inl exit \<Rightarrow> exit | Inr run2 \<Rightarrow> run_segment b io seg now_ns run2)
         else run_segment b io seg now_ns (q, c1))"
      unfolding fw_tick_def present if_False using front lim1 by (simp add: fw_motion_front_def)
    show ?thesis
    proof (cases "fq_state q = MS_Armed")
      case False
      then obtain d where "d \<le> seg_elapsed seg now_ns" "seg_running b seg q0 d q"
        using at by (auto simp: seg_armed_def)
      then show ?thesis using False run_segment_outcome [of b seg q0 d q now_ns io c1] tick by simp
    next
      case True
      then have armed: "seg_armed b seg q0 q" using at by (auto simp: seg_running_def)
      note bg = begin_segment_facts [OF armed, of io c1]
      show ?thesis
      proof (cases "begin_segment b io seg (q, c1)")
        case (Inl e)
        with True tick bg armed show ?thesis by (cases e) (auto simp: tick_outcome_def)
      next
        case (Inr run2)
        obtain q2 c2 where run2: "run2 = (q2, c2)" by fastforce
        note r = bg [unfolded Inr run2, simplified]
        from r run_segment_outcome [of b seg q0 0 q2 now_ns io c2]
        have "tick_outcome b seg q0 now_ns q (fst (snd (run_segment b io seg now_ns (q2, c2))))"
          by (simp add: tick_outcome_def)
        with True tick armed Inr run2 show ?thesis by (auto simp: tick_outcome_def)
      qed
    qed
  qed
qed

end
