(* ===== verification/Firmware_Drive.thy ===== *)
theory Firmware_Drive
  imports Firmware_Steps
begin

text \<open>
  The timer's ticks over the life of a segment: the safety of every run, whatever the board's
  callbacks do, and that ticks no more than a timer period apart finish the segment.
\<close>

subsection \<open>Acceptance\<close>

lemma accepted_segment_ok:
  assumes "fw_motion_enqueue b req now_ns q = (Inr seg, q')"
  shows "fw_segment_ok (fq_axis_count q) seg" "fq_fault q = MF_None" "q' = append_segment b seg q"
    "fw_steps seg = fw_steps req" "fw_duration_ns seg = fw_duration_ns req"
    "\<forall>axis < fq_axis_count q. step_count (fw_steps seg ! axis) \<le> maximum_steps_for_duration b (fw_duration_ns seg)"
proof -
  from assms have ok: "fw_duration_ns req \<noteq> 0" "\<not> steps_rejected b q req"
      "seg = req\<lparr>fw_start_time_ns := effective_start b now_ns q req\<rparr>"
      "\<not> uint64_max - fw_start_time_ns seg < fw_duration_ns seg"
    and rest: "fq_fault q = MF_None" "q' = append_segment b seg q"
    by (auto simp: fw_motion_enqueue_def Let_def split: if_splits)
  show "fq_fault q = MF_None" "q' = append_segment b seg q" by (fact rest)+
  show same: "fw_steps seg = fw_steps req" "fw_duration_ns seg = fw_duration_ns req" using ok(3) by simp_all
  have fits: "unat x + unat y < 2 ^ 64" if "\<not> uint64_max - x < y" for x y
    using that u64_bound [of x]
    by (simp add: uint64_max_def word_less_nat_alt unat_diff unsigned_minus_1_eq_mask mask_eq_exp_minus_1)
  have mult: "unat x * unat y < 2 ^ 64" if "\<not> (x \<noteq> 0 \<and> y > uint64_max div x)" for x y
  proof (cases "x = 0")
    case False
    then have "unat y \<le> unat uint64_max div unat x"
      using that by (simp add: word_less_nat_alt unat_div)
    then have "unat x * unat y \<le> unat uint64_max"
      using False by (metis div_times_less_eq_dividend le_trans mult.commute mult_le_mono1)
    then show ?thesis by (simp add: uint64_max_def unsigned_minus_1_eq_mask mask_eq_exp_minus_1)
  qed simp
  have steps: "step_count (fw_steps seg ! axis) \<le> maximum_steps_for_duration b (fw_duration_ns seg) \<and>
      \<not> (step_count (fw_steps seg ! axis) \<noteq> 0 \<and>
         fw_duration_ns seg > uint64_max div step_count (fw_steps seg ! axis))"
    if "axis < fq_axis_count q" for axis
    using ok(2) that by (auto simp: steps_rejected_def list_ex_iff Let_def same not_less)
  then show "\<forall>axis < fq_axis_count q. step_count (fw_steps seg ! axis) \<le> maximum_steps_for_duration b (fw_duration_ns seg)"
    by blast
  show "fw_segment_ok (fq_axis_count q) seg"
    using ok(1) same(2) fits [OF ok(4)] mult steps by (simp add: fw_segment_ok_def)
qed

subsection \<open>What a run of a segment ends in\<close>

text \<open>What a run may end in: the segment made in full and not early, a fault with the outputs off, or a part of it.\<close>

definition partly_made :: "fw_segment \<Rightarrow> fw_motion \<Rightarrow> fw_motion \<Rightarrow> bool" where
  "partly_made seg q0 q \<longleftrightarrow> (\<forall>axis < fq_axis_count q0. \<exists>e \<le> step_count (fw_steps seg ! axis).
     fq_emitted_steps q ! axis = fq_emitted_steps q0 ! axis + e \<and>
     fq_position_steps q ! axis = fq_position_steps q0 ! axis +
       (if 0 \<le> sint (fw_steps seg ! axis) then e else - e))"

lemma progress_partly:
  assumes "axis_progress seg q0 d q axis" "d \<le> unat (fw_duration_ns seg)" "fw_duration_ns seg \<noteq> 0"
  shows "fq_active_emitted q ! axis \<le> step_count (fw_steps seg ! axis)"
proof -
  have "unat (fq_active_emitted q ! axis) * unat (fw_duration_ns seg) \<le> seg_steps seg axis * d"
    using assms(1) unfolding axis_progress_def Let_def by linarith
  also have "\<dots> \<le> seg_steps seg axis * unat (fw_duration_ns seg)" using assms(2) by simp
  finally show ?thesis using assms(3) by (simp add: word_le_nat_alt unat_gt_0)
qed

lemma armed_or_running_partly:
  assumes "seg_armed b seg q0 q \<or> seg_running b seg q0 d q"
  shows "partly_made seg q0 q"
  using assms
proof
  assume armed: "seg_armed b seg q0 q"
  then have "fq_emitted_steps q = fq_emitted_steps q0" "fq_position_steps q = fq_position_steps q0"
    by (simp_all add: seg_armed_def)
  then show ?thesis unfolding partly_made_def by (intro allI impI exI [of _ 0]) simp
next
  assume run: "seg_running b seg q0 d q"
  then have ok: "d \<le> unat (fw_duration_ns seg)" "fw_duration_ns seg \<noteq> 0" "fq_axis_count q = fq_axis_count q0"
    by (auto simp: seg_running_def seg_front_def fw_segment_ok_def)
  show ?thesis unfolding partly_made_def
  proof (intro allI impI)
    fix axis assume "axis < fq_axis_count q0"
    then have p: "axis_progress seg q0 d q axis" using run ok(3) by (simp add: seg_running_def)
    from progress_partly [OF p ok(1,2)] p
    show "\<exists>e \<le> step_count (fw_steps seg ! axis).
        fq_emitted_steps q ! axis = fq_emitted_steps q0 ! axis + e \<and>
        fq_position_steps q ! axis = fq_position_steps q0 ! axis +
          (if 0 \<le> sint (fw_steps seg ! axis) then e else - e)"
      by (intro exI [of _ "fq_active_emitted q ! axis"]) (simp add: axis_progress_def Let_def)
  qed
qed

definition run_outcome :: "fw_segment \<Rightarrow> fw_motion \<Rightarrow> u64 \<Rightarrow> u64 list \<Rightarrow> fw_motion \<Rightarrow> bool" where
  "run_outcome seg q0 n ticks q \<longleftrightarrow>
     (if fq_completed_segments q = n then
        (if fq_fault q = MF_None then partly_made seg q0 q else outputs_off q)
      else fq_completed_segments q = n + 1 \<and> seg_done seg q0 q \<and>
        (\<exists>t \<in> set ticks. unat (fw_start_time_ns seg) + unat (fw_duration_ns seg) \<le> unat t) \<and>
        (fq_fault q \<noteq> MF_None \<longrightarrow> outputs_off q))"

lemma run_outcome_more:
  "run_outcome seg q0 n ticks q \<Longrightarrow> run_outcome seg q0 n (t # ticks) q"
  by (auto simp: run_outcome_def)

subsection \<open>Ticks that come in time\<close>

text \<open>A board whose callbacks succeed and whose limits do not trigger.\<close>

definition io_works :: "'c motion_io \<Rightarrow> bool" where
  "io_works io \<longleftrightarrow>
     (\<exists>f. io_set_enable io = Some f \<and> (\<forall>c axis v. fst (f c axis v))) \<and>
     (\<exists>f. io_set_direction io = Some f \<and> (\<forall>c axis v. fst (f c axis v))) \<and>
     (\<exists>f. io_set_step io = Some f \<and> (\<forall>c axis v. fst (f c axis v))) \<and>
     (\<forall>f. io_limit_active io = Some f \<longrightarrow> (\<forall>c axis v. fst (f c axis v) \<and> \<not> fst (snd (f c axis v))))"

lemma io_worksD:
  assumes "io_works io"
  shows "fst (call_io (io_set_enable io) axis v c)" "fst (call_io (io_set_direction io) axis v c)"
    "fst (call_io (io_set_step io) axis v c)"
    "io_set_enable io \<noteq> None" "io_set_direction io \<noteq> None" "io_set_step io \<noteq> None"
  using assms by (auto simp: io_works_def call_io_def)

lemma works_limits:
  assumes "io_works io"
  shows "\<exists>c'. limit_loop b io axes (q, c) = Inr (q, c')"
proof (induction axes arbitrary: c)
  case Nil
  then show ?case by simp
next
  case (Cons axis axes)
  show ?case
  proof (cases "io_limit_active io")
    case None
    then show ?thesis by simp
  next
    case (Some f)
    obtain ok active c1 where f: "f c axis False = (ok, active, c1)" by (cases "f c axis False") auto
    have "fst (f c axis False) \<and> \<not> fst (snd (f c axis False))"
      using assms Some unfolding io_works_def by simp
    then show ?thesis using Some f Cons.IH [of c1] by simp
  qed
qed

lemma works_directions:
  assumes "io_works io"
  shows "\<exists>run. direction_loop b io seg axes (q, c) = Inr run"
proof (induction axes arbitrary: q c)
  case Nil
  then show ?case by simp
next
  case (Cons axis axes)
  obtain ok c1 where call: "call_io (io_set_direction io) axis (0 \<le> sint (fw_steps seg ! axis)) c = (ok, c1)"
    by fastforce
  then have "ok" using io_worksD(2) [OF assms] by (metis fst_conv)
  then show ?case using call Cons.IH by simp
qed

lemma works_enables:
  assumes "io_works io"
  shows "\<exists>run. enable_loop b io seg axes (q, c) = Inr run"
proof (induction axes arbitrary: q c)
  case Nil
  then show ?case by simp
next
  case (Cons axis axes)
  obtain ok c1 where call: "call_io (io_set_enable io) axis (fw_steps seg ! axis \<noteq> 0) c = (ok, c1)"
    by fastforce
  then have "ok" using io_worksD(1) [OF assms] by (metis fst_conv)
  then show ?case using call Cons.IH by (simp add: Let_def)
qed

text \<open>Phases below the duration: at most one pulse per tick was due so far.\<close>

definition phases_low :: "fw_segment \<Rightarrow> fw_motion \<Rightarrow> bool" where
  "phases_low seg q \<longleftrightarrow> (\<forall>axis < fq_axis_count q. fq_active_phase q ! axis < fw_duration_ns seg)"

lemma works_begin:
  assumes "io_works io" "seg_armed b seg q0 q"
  shows "\<exists>q' c'. begin_segment b io seg (q, c) = Inr (q', c') \<and> seg_running b seg q0 0 q' \<and>
    phases_low seg q' \<and> fq_completed_segments q' = fq_completed_segments q"
proof -
  let ?axes = "[0..<fq_axis_count q]"
  define q1 where "q1 = q\<lparr>fq_active_emitted := replicate (mb_max_axes b) 0,
    fq_active_phase := replicate (mb_max_axes b) 0, fq_active_last_tick_ns := fw_start_time_ns seg\<rparr>"
  obtain q2 c2 where d: "direction_loop b io seg ?axes (q1, c) = Inr (q2, c2)"
    using works_directions [OF assms(1), of b seg ?axes q1 c] by fastforce
  obtain q3 c3 where e: "enable_loop b io seg ?axes (q2, c2) = Inr (q3, c3)"
    using works_enables [OF assms(1), of b seg ?axes q2 c2] by fastforce
  have bg: "begin_segment b io seg (q, c) = Inr (q3\<lparr>fq_state := MS_Running\<rparr>, c3)"
    using d e by (simp add: begin_segment_def chain_exit_def q1_def)
  have run: "seg_running b seg q0 0 (q3\<lparr>fq_state := MS_Running\<rparr>)"
    "fq_completed_segments q3 = fq_completed_segments q"
    using begin_segment_facts [OF assms(2), of io c] bg by simp_all
  have "fw_duration_ns seg \<noteq> 0" using run(1) by (simp add: seg_running_def seg_front_def fw_segment_ok_def)
  then have "phases_low seg (q3\<lparr>fq_state := MS_Running\<rparr>)"
    using run(1) by (auto simp: phases_low_def seg_running_def axis_progress_def Let_def word_less_nat_alt unat_gt_0)
  with bg run show ?thesis by simp
qed

lemma works_axis:
  assumes io: "io_works io" and shape: "fw_shape b q" "axis < mb_max_axes b"
    and progress: "axis_progress seg q0 d q axis" and time: "d + unat delta \<le> unat (fw_duration_ns seg)"
    and small: "seg_steps seg axis * unat (fw_duration_ns seg) < 2 ^ 64"
    and low: "fq_active_phase q ! axis < fw_duration_ns seg"
    and pace: "seg_steps seg axis * unat delta \<le> unat (fw_duration_ns seg)"
  shows "\<exists>q' c'. emit_axis b io seg delta axis (q, c) = Inr (q', c') \<and>
    fq_active_phase q' ! axis < fw_duration_ns seg \<and>
    (d = unat (fw_duration_ns seg) \<longrightarrow> \<not> fq_step_high q' ! axis)"
proof -
  let ?T = "step_count (fw_steps seg ! axis)" and ?D = "unat (fw_duration_ns seg)"
  have "\<exists>run. lower_step b io axis (q, c) = Inr run"
    using io_worksD(3) [OF io, of axis False c] by (auto simp: lower_step_def split: prod.split bool.split)
  then obtain q1 c1 where l1: "lower_step b io axis (q, c) = Inr (q1, c1)" by fastforce
  then have same: "fq_active_phase q1 = fq_active_phase q" by (auto simp: lower_step_def set_step_low_def split: if_splits prod.splits bool.splits)
  note l = lower_step_facts [OF l1 shape, simplified]
  then have p1: "fw_shape b q1" "axis_progress seg q0 d q1 axis" using progress by simp_all
  obtain q2 where a2: "advance_phase b io ?T delta axis (q1, c1) = Inr (q2, c1)" "fw_shape b q2"
      "fq_step_high q2 = fq_step_high q1" "fq_active_emitted q2 = fq_active_emitted q1"
      "axis_progress seg q0 (d + unat delta) q2 axis"
    using advance_phase_facts [OF refl p1(1) shape(2) p1(2) time small, of io c1] by (elim exE conjE)
  define e where "e = unat (fq_active_emitted q2 ! axis)"
  have e1: "unat (fq_active_phase q ! axis) + e * ?D = unat ?T * d"
    using p1(2) a2(4) same by (simp add: axis_progress_def Let_def e_def)
  have e2: "unat (fq_active_phase q2 ! axis) + e * ?D = unat ?T * d + unat ?T * unat delta"
    using a2(5) by (simp add: axis_progress_def Let_def e_def add_mult_distrib2)
  have phase: "unat (fq_active_phase q2 ! axis) = unat (fq_active_phase q ! axis) + unat ?T * unat delta"
    using e1 e2 by linarith
  have D: "0 < ?D" using low by (simp add: word_less_nat_alt)
  have emit: "emit_axis b io seg delta axis (q, c) = raise_step b io ?T (fw_duration_ns seg) axis (q2, c1)"
    using l1 a2(1) by (simp add: emit_axis_def chain_exit_def Let_def)
  show ?thesis
  proof (cases "fq_active_emitted q2 ! axis < ?T \<and> fq_active_phase q2 ! axis \<ge> fw_duration_ns seg")
    case True
    obtain c2 where call: "call_io (io_set_step io) axis True c1 = (True, c2)"
      using io_worksD(3) [OF io, of axis True c1] by (metis prod.collapse)
    define q3 where "q3 = count_pulse axis
      (q2\<lparr>fq_active_phase := (fq_active_phase q2)[axis := fq_active_phase q2 ! axis - fw_duration_ns seg]\<rparr>)"
    have "emit_axis b io seg delta axis (q, c) = Inr (q3, c2)"
      using True call unfolding emit by (simp add: raise_step_def q3_def)
    moreover have "fq_active_phase q3 ! axis = fq_active_phase q2 ! axis - fw_duration_ns seg"
      using a2(2) shape(2) by (simp add: q3_def count_pulse_def fw_shape_def)
    moreover have "fq_active_phase q2 ! axis - fw_duration_ns seg < fw_duration_ns seg"
      using True phase low pace by (auto simp: word_less_nat_alt word_le_nat_alt unat_diff)
    moreover have "d \<noteq> ?D" using True time phase low by (auto simp: word_less_nat_alt word_le_nat_alt)
    ultimately show ?thesis by simp
  next
    case False
    have "fq_active_phase q2 ! axis < fw_duration_ns seg"
    proof (rule ccontr)
      assume "\<not> ?thesis"
      with False have "unat ?T \<le> e" "?D \<le> unat (fq_active_phase q2 ! axis)"
        by (auto simp: e_def word_le_nat_alt not_less)
      moreover have "unat ?T * d + unat ?T * unat delta \<le> unat ?T * ?D"
        using mult_le_mono2 [OF time, of "unat ?T"] by (simp add: add_mult_distrib2)
      moreover have "unat ?T * ?D \<le> e * ?D" using calculation(1) by simp
      ultimately show False using e2 D by linarith
    qed
    moreover have "emit_axis b io seg delta axis (q, c) = Inr (q2, c1)"
      using False unfolding emit by (auto simp: raise_step_def)
    ultimately show ?thesis using l a2(3) by simp
  qed
qed

lemma works_loop:
  assumes "io_works io" "fw_shape b q" "distinct axes" "fw_segment_ok (fq_axis_count q) seg"
    and "\<forall>axis \<in> set axes. axis < fq_axis_count q \<and> axis_progress seg q0 d q axis \<and>
      fq_active_phase q ! axis < fw_duration_ns seg \<and>
      seg_steps seg axis * unat delta \<le> unat (fw_duration_ns seg)"
    and "d + unat delta \<le> unat (fw_duration_ns seg)"
  shows "\<exists>q' c'. emit_loop b io seg delta axes (q, c) = Inr (q', c') \<and>
    (\<forall>axis \<in> set axes. fq_active_phase q' ! axis < fw_duration_ns seg \<and>
      (d = unat (fw_duration_ns seg) \<longrightarrow> \<not> fq_step_high q' ! axis))"
  using assms(2-5)
proof (induction axes arbitrary: q c)
  case Nil
  then show ?case by simp
next
  case (Cons axis axes)
  have axis: "axis < mb_max_axes b" "axis_progress seg q0 d q axis" "axis \<notin> set axes"
      "fq_active_phase q ! axis < fw_duration_ns seg" "seg_steps seg axis * unat delta \<le> unat (fw_duration_ns seg)"
    and small: "seg_steps seg axis * unat (fw_duration_ns seg) < 2 ^ 64"
    using Cons.prems by (auto simp: fw_shape_def fw_segment_ok_def)
  obtain q1 c1 where one: "emit_axis b io seg delta axis (q, c) = Inr (q1, c1)"
      "fq_active_phase q1 ! axis < fw_duration_ns seg"
      "d = unat (fw_duration_ns seg) \<longrightarrow> \<not> fq_step_high q1 ! axis"
    using works_axis [OF assms(1) Cons.prems(1) axis(1,2) assms(6) small axis(4,5), of c]
    by (elim exE conjE)
  note f = emit_axis_facts [OF Cons.prems(1) axis(1,2) assms(6) small, of io c, unfolded one(1), simplified]
  have rest: "fw_rest q1 = fw_rest q" using f by simp
  have view: "axis_view q1 i = axis_view q i" if "i \<in> set axes" for i using that axis(3) f by auto
  have ready: "\<forall>i \<in> set axes. i < fq_axis_count q1 \<and> axis_progress seg q0 d q1 i \<and>
      fq_active_phase q1 ! i < fw_duration_ns seg \<and> seg_steps seg i * unat delta \<le> unat (fw_duration_ns seg)"
  proof
    fix i assume i: "i \<in> set axes"
    note v = view [OF i]
    from axis_progress_view [OF v, of seg q0 d] Cons.prems(4) i v fw_restD(1) [OF rest]
    show "i < fq_axis_count q1 \<and> axis_progress seg q0 d q1 i \<and>
        fq_active_phase q1 ! i < fw_duration_ns seg \<and> seg_steps seg i * unat delta \<le> unat (fw_duration_ns seg)"
      by (simp add: axis_view_def)
  qed
  have ok: "fw_shape b q1" "distinct axes" "fw_segment_ok (fq_axis_count q1) seg"
    using f Cons.prems(2,3) fw_restD(1) [OF rest] by simp_all
  obtain q2 c2 where loop: "emit_loop b io seg delta axes (q1, c1) = Inr (q2, c2)"
      "\<forall>i \<in> set axes. fq_active_phase q2 ! i < fw_duration_ns seg \<and>
        (d = unat (fw_duration_ns seg) \<longrightarrow> \<not> fq_step_high q2 ! i)"
    using Cons.IH [OF ok ready, of c1] by (elim exE conjE)
  have "\<forall>i \<in> set axes. i < fq_axis_count q1 \<and> axis_progress seg q0 d q1 i" using ready by blast
  from emit_loop_facts [OF ok this assms(6), of io c1] loop(1) axis(3)
  have "axis_view q2 axis = axis_view q1 axis" by simp
  then have "fq_active_phase q2 ! axis = fq_active_phase q1 ! axis" "fq_step_high q2 ! axis = fq_step_high q1 ! axis"
    by (simp_all add: axis_view_def)
  moreover have "emit_loop b io seg delta (axis # axes) (q, c) = Inr (q2, c2)"
    using one(1) loop(1) by (simp add: chain_exit_def)
  ultimately show ?case using one(2,3) loop(2) by simp
qed

text \<open>
  The timer period, and what a board's configuration must leave: a rate the arithmetic can hold and
  room for one period after the segment.
\<close>

definition timer_period :: "motion_build \<Rightarrow> nat" where
  "timer_period b = 1000000000 div unat (mb_timer_hz b)"

definition rate_ok :: "motion_build \<Rightarrow> fw_motion \<Rightarrow> fw_segment \<Rightarrow> bool" where
  "rate_ok b q seg \<longleftrightarrow>
     2 \<le> unat (mb_timer_hz b) \<and> unat (mb_timer_hz b) \<le> 1000000000 \<and>
     unat (fw_duration_ns seg) + timer_period b < 2 ^ 64 \<and>
     (\<forall>axis < fq_axis_count q. 2 * (seg_steps seg axis * timer_period b) \<le> unat (fw_duration_ns seg))"

text \<open>A segment of steps within \<open>maximum_steps_for_duration\<close> needs at most half a pulse per period.\<close>

lemma maximum_steps_pace:
  assumes "s \<le> maximum_steps_for_duration b d" "2 \<le> unat (mb_timer_hz b)" "unat (mb_timer_hz b) \<le> 1000000000"
  shows "2 * (unat s * timer_period b) \<le> unat d"
proof -
  define H where "H = unat (mb_timer_hz b)"
  define W where "W = unat d div 1000000000"
  define R where "R = unat d mod 1000000000"
  have H: "2 \<le> H" "H \<le> 1000000000" using assms(2,3) by (simp_all add: H_def)
  have W: "W \<le> 18446744073" using u64_bound [of d] by (simp add: W_def)
  have R: "R < 1000000000" by (simp add: R_def)
  have half: "unat (mb_timer_hz b div 2) = H div 2" by (simp add: unat_div H_def)
  have rem: "unat (d mod 1000000000 * mb_timer_hz b div 2000000000) = R * H div 2000000000"
  proof -
    have "R * H \<le> 1000000000 * 1000000000" using R H(2) by (intro mult_le_mono) simp_all
    then have "unat (d mod 1000000000 * mb_timer_hz b) = R * H"
      by (subst unat_mult_small) (simp_all add: unat_mod R_def H_def)
    then show ?thesis by (simp add: unat_div)
  qed
  have whole: "W * (H div 2) \<le> 18446744073 * 500000000" using W H(2) by (intro mult_le_mono) simp_all
  have part: "R * H div 2000000000 \<le> 500000000"
    using mult_le_mono [of R 1000000000 H 1000000000] R H(2) by simp
  have "\<not> d div 1000000000 > uint64_max div (mb_timer_hz b div 2)"
  proof -
    have "H div 2 \<le> 500000000" "H div 2 \<noteq> 0" using H by simp_all
    then have "18446744073 \<le> (2 ^ 64 - 1) div (H div 2)"
      by (simp add: div_le_mono2 [of "H div 2" 500000000 "18446744073709551615"] order_trans
          [OF _ div_le_mono2 [of "H div 2" 500000000 "18446744073709551615"]])
    then show ?thesis
      using W half by (simp add: word_less_nat_alt unat_div W_def uint64_max_def
          unsigned_minus_1_eq_mask mask_eq_exp_minus_1)
  qed
  moreover have "unat (d div 1000000000 * (mb_timer_hz b div 2)) = W * (H div 2)"
    using whole half by (subst unat_mult_small) (simp_all add: unat_div W_def)
  ultimately have "unat (maximum_steps_for_duration b d) = W * (H div 2) + R * H div 2000000000"
    using rem whole part
    by (auto simp: maximum_steps_for_duration_def Let_def word_less_nat_alt unat_diff uint64_max_def
        unsigned_minus_1_eq_mask mask_eq_exp_minus_1 unat_add_small)
  then have s: "unat s \<le> W * (H div 2) + R * H div 2000000000"
    using assms(1) by (simp add: word_le_nat_alt)
  have "unat s * 2000000000 \<le> (W * (H div 2)) * 2000000000 + (R * H div 2000000000) * 2000000000"
    using mult_le_mono1 [OF s, of 2000000000] by (simp add: add_mult_distrib)
  also have "\<dots> \<le> W * H * 1000000000 + R * H"
  proof (rule add_mono)
    have "W * (2 * (H div 2)) \<le> W * H" by simp
    then show "(W * (H div 2)) * 2000000000 \<le> W * H * 1000000000" by simp
    show "(R * H div 2000000000) * 2000000000 \<le> R * H" by simp
  qed
  also have "\<dots> = (W * 1000000000 + R) * H" by (simp add: add_mult_distrib)
  also have "W * 1000000000 + R = unat d" by (simp add: W_def R_def)
  finally have sH: "unat s * 2000000000 \<le> unat d * H" .
  have "timer_period b * H \<le> 1000000000" by (simp add: timer_period_def H_def)
  then have mid: "unat s * (timer_period b * H) \<le> unat s * 1000000000" by (rule mult_le_mono2)
  have "2 * (unat s * timer_period b) * H = 2 * (unat s * (timer_period b * H))"
    by (simp only: mult.assoc)
  with sH mid have "2 * (unat s * timer_period b) * H \<le> unat d * H" by linarith
  then show ?thesis using H(1) by simp
qed

text \<open>At the end of the segment, with the phases below the duration, no step is missing.\<close>

lemma end_all_emitted:
  assumes run: "seg_running b seg q0 (unat (fw_duration_ns seg)) q" and "phases_low seg q"
    and "\<forall>axis < fq_axis_count q. \<not> fq_step_high q ! axis"
  shows "all_emitted seg q"
proof -
  have "fq_active_emitted q ! axis = step_count (fw_steps seg ! axis)" if axis: "axis < fq_axis_count q" for axis
  proof -
    let ?D = "unat (fw_duration_ns seg)" and ?e = "unat (fq_active_emitted q ! axis)"
    have p: "unat (fq_active_phase q ! axis) + ?e * ?D = seg_steps seg axis * ?D"
      "unat (fq_active_phase q ! axis) < ?D"
      using run assms(2) axis by (simp_all add: seg_running_def axis_progress_def Let_def phases_low_def word_less_nat_alt)
    have "?e * ?D \<le> seg_steps seg axis * ?D" using p(1) by linarith
    moreover have "seg_steps seg axis * ?D < (?e + 1) * ?D" using p by simp
    ultimately have "?e \<le> seg_steps seg axis" "seg_steps seg axis < ?e + 1"
      using p(2) by (simp_all only: mult_less_cancel2 mult_le_cancel2)
    then show ?thesis unfolding word_unat_eq_iff by linarith
  qed
  with assms(3) show ?thesis by (simp add: all_emitted_def list_all_iff)
qed

lemma works_run:
  fixes io :: "'c motion_io" and c :: 'c
  assumes io: "io_works io" and rate: "rate_ok b q seg" and run: "seg_running b seg q0 d q"
    and low: "phases_low seg q" and now: "d \<le> seg_elapsed seg now_ns"
    and pace: "d < unat (fw_duration_ns seg) \<Longrightarrow> unat now_ns \<le> unat (fw_start_time_ns seg) + d + timer_period b"
  defines "q' \<equiv> fst (snd (run_segment b io seg now_ns (q, c)))"
  shows "fq_completed_segments q' = fq_completed_segments q + 1 \<or>
    fq_completed_segments q' = fq_completed_segments q \<and> d < unat (fw_duration_ns seg) \<and>
      seg_running b seg q0 (seg_elapsed seg now_ns) q' \<and> phases_low seg q'"
proof -
  let ?D = "unat (fw_duration_ns seg)" and ?delta = "tick_delta seg now_ns q"
  note tt = tick_times [OF run now]
  have D: "d \<le> ?D" and front: "seg_front b seg q0 q" using run by (simp_all add: seg_running_def)
  define q1 where "q1 = q\<lparr>fq_active_last_tick_ns := tick_time seg now_ns\<rparr>"
  have delta: "unat ?delta \<le> timer_period b"
    using tt(3) D pace by (cases "d < ?D") (auto simp: seg_elapsed_def)
  have steps: "seg_steps seg axis * unat ?delta \<le> ?D" if "axis < fq_axis_count q" for axis
  proof -
    have "seg_steps seg axis * unat ?delta \<le> seg_steps seg axis * timer_period b"
      using delta by (rule mult_le_mono2)
    moreover have "2 * (seg_steps seg axis * timer_period b) \<le> ?D" using rate that by (simp add: rate_ok_def)
    ultimately show ?thesis by linarith
  qed
  have ready: "fw_shape b q1" "distinct [0..<fq_axis_count q]" "fw_segment_ok (fq_axis_count q1) seg"
    "\<forall>axis \<in> set [0..<fq_axis_count q]. axis < fq_axis_count q1 \<and> axis_progress seg q0 d q1 axis \<and>
       fq_active_phase q1 ! axis < fw_duration_ns seg \<and> seg_steps seg axis * unat ?delta \<le> ?D"
    "d + unat ?delta \<le> ?D"
    using run front low steps tt(3) by (auto simp: q1_def seg_running_def seg_front_def fw_shape_def
        axis_progress_def phases_low_def seg_elapsed_def)
  obtain q2 c2 where loop: "emit_loop b io seg ?delta [0..<fq_axis_count q] (q1, c) = Inr (q2, c2)"
      "\<forall>axis \<in> set [0..<fq_axis_count q]. fq_active_phase q2 ! axis < fw_duration_ns seg \<and>
        (d = ?D \<longrightarrow> \<not> fq_step_high q2 ! axis)"
    using works_loop [OF io ready(1-3) ready(4,5), of c] by (elim exE conjE)
  have f: "seg_running b seg q0 (seg_elapsed seg now_ns) q2" "fq_completed_segments q2 = fq_completed_segments q"
    using emitted_running [OF run now, of io c] loop(1) by (simp_all add: q1_def)
  have ends: "fq_size q2 \<noteq> 0" "fq_fault q2 = MF_None" "fq_axis_count q2 = fq_axis_count q"
    using f(1) front by (auto simp: seg_running_def seg_front_def)
  have low2: "phases_low seg q2" using loop(2) ends(3) by (simp add: phases_low_def)
  have result: "run_segment b io seg now_ns (q, c) = finish_tick b io seg (tick_elapsed seg now_ns) (q2, c2)"
    using loop(1) by (simp add: run_segment_def q1_def)
  show ?thesis
  proof (cases "tick_elapsed seg now_ns \<ge> fw_duration_ns seg \<and> all_emitted seg q2")
    case True
    obtain fin q3 where c: "fw_complete_front b q2 = (fin, q3)" by fastforce
    note cf = complete_facts [OF c ends(1,2)]
    have shape: "fw_shape b q3" using cf(5) f(1) by (simp add: seg_running_def seg_front_def)
    have "q' = (if fw_final_segment seg \<or> fq_fault q3 \<noteq> MF_None then fst (stop_outputs io (q3, c2)) else q3)"
      using True c cf(1) by (simp add: q'_def result finish_tick_def)
    then show ?thesis using cf(2) f(2) stop_keeps(4) [OF shape, where io = io and c = c2] by simp
  next
    case False
    have before: "d < ?D"
    proof (rule ccontr)
      assume "\<not> d < ?D"
      with D have over: "d = ?D" by simp
      then have e: "seg_elapsed seg now_ns = ?D" using now by (simp add: seg_elapsed_def)
      then have "all_emitted seg q2"
        using end_all_emitted [of b seg q0 q2] f(1) low2 loop(2) over ends(3) by simp
      moreover have "tick_elapsed seg now_ns \<ge> fw_duration_ns seg"
        using e tt(1) by (simp add: seg_elapsed_def word_le_nat_alt)
      ultimately show False using False by simp
    qed
    have "unat (fw_duration_ns seg + 1000000000 div mb_timer_hz b) = ?D + timer_period b"
      using rate by (subst unat_add_small) (simp_all add: rate_ok_def timer_period_def unat_div)
    then have "\<not> tick_elapsed seg now_ns > fw_duration_ns seg + 1000000000 div mb_timer_hz b"
      using pace [OF before] before tt(1) by (simp add: word_less_nat_alt)
    then have "q' = q2"
      unfolding q'_def result finish_tick_def prod.case if_not_P [OF False] by simp
    with f low2 before show ?thesis by simp
  qed
qed

text \<open>A tick of a segment that is armed, or \<open>d\<close> nanoseconds into it, and not later than a period after that.\<close>

definition on_time :: "motion_build \<Rightarrow> fw_segment \<Rightarrow> fw_motion \<Rightarrow> nat \<Rightarrow> fw_motion \<Rightarrow> bool" where
  "on_time b seg q0 last_ns q \<longleftrightarrow>
     seg_armed b seg q0 q \<and> last_ns \<le> unat (fw_start_time_ns seg) \<or>
     seg_running b seg q0 (last_ns - unat (fw_start_time_ns seg)) q \<and> phases_low seg q \<and>
       unat (fw_start_time_ns seg) \<le> last_ns \<and>
       last_ns < unat (fw_start_time_ns seg) + unat (fw_duration_ns seg)"

definition at_end :: "motion_build \<Rightarrow> fw_segment \<Rightarrow> fw_motion \<Rightarrow> fw_motion \<Rightarrow> bool" where
  "at_end b seg q0 q \<longleftrightarrow> seg_running b seg q0 (unat (fw_duration_ns seg)) q \<and> phases_low seg q"

lemma works_tick:
  fixes io :: "'c motion_io" and c :: 'c
  assumes io: "io_works io" and rate: "rate_ok b q seg"
    and at: "on_time b seg q0 last_ns q \<or> at_end b seg q0 q \<and> unat (fw_start_time_ns seg) + unat (fw_duration_ns seg) \<le> last_ns"
    and now: "last_ns \<le> unat now_ns" "unat now_ns \<le> last_ns + timer_period b"
  defines "q' \<equiv> fst (snd (fw_tick b io now_ns (q, c)))"
  shows "fq_completed_segments q' = fq_completed_segments q + 1 \<or>
    fq_completed_segments q' = fq_completed_segments q \<and> on_time b seg q0 last_ns q \<and>
      (on_time b seg q0 (unat now_ns) q' \<and> unat now_ns < unat (fw_start_time_ns seg) + unat (fw_duration_ns seg) \<or>
       at_end b seg q0 q' \<and> unat (fw_start_time_ns seg) + unat (fw_duration_ns seg) \<le> unat now_ns)"
proof -
  let ?S = "unat (fw_start_time_ns seg)" and ?D = "unat (fw_duration_ns seg)"
  have front: "fw_shape b q" "fq_fault q = MF_None" "fq_size q \<noteq> 0" "segment_at (fq_head q) q = seg"
    and D: "0 < ?D"
    using at by (auto simp: on_time_def at_end_def seg_armed_def seg_running_def seg_front_def
        fw_segment_ok_def unat_gt_0)
  have present: "(io_set_enable io = None \<or> io_set_direction io = None \<or> io_set_step io = None) = False"
    using io_worksD(4-6) [OF io] by simp
  obtain c1 where lim: "limit_loop b io [0..<fq_axis_count q] (q, c) = Inr (q, c1)"
    using works_limits [OF io] by fastforce
  have tick: "fw_tick b io now_ns (q, c) =
      (if fq_state q = MS_Armed then
         (if now_ns < fw_start_time_ns seg then (True, (q, c1))
          else case begin_segment b io seg (q, c1) of
            Inl exit \<Rightarrow> exit | Inr run2 \<Rightarrow> run_segment b io seg now_ns run2)
       else run_segment b io seg now_ns (q, c1))"
    unfolding fw_tick_def present if_False using front lim by (simp add: fw_motion_front_def)
  have elapsed: "on_time b seg q0 (unat now_ns) q1 \<and> unat now_ns < ?S + ?D \<or> at_end b seg q0 q1 \<and> ?S + ?D \<le> unat now_ns"
    if "seg_running b seg q0 (seg_elapsed seg now_ns) q1" "phases_low seg q1" "?S \<le> unat now_ns" for q1
  proof (cases "unat now_ns < ?S + ?D")
    case True
    then have "seg_elapsed seg now_ns = unat now_ns - ?S" using that(3) by (simp add: seg_elapsed_def)
    then show ?thesis using True that by (simp add: on_time_def)
  next
    case False
    then have "seg_elapsed seg now_ns = ?D" by (simp add: seg_elapsed_def)
    then show ?thesis using False that by (simp add: at_end_def)
  qed
  show ?thesis
  proof (cases "fq_state q = MS_Armed")
    case True
    then have armed: "seg_armed b seg q0 q" "last_ns \<le> ?S" and ot: "on_time b seg q0 last_ns q"
      using at by (auto simp: on_time_def at_end_def seg_running_def)
    show ?thesis
    proof (cases "now_ns < fw_start_time_ns seg")
      case early: True
      then have "q' = q" "unat now_ns \<le> ?S" "unat now_ns < ?S + ?D"
        using True tick D by (simp_all add: q'_def word_less_nat_alt)
      then show ?thesis using armed ot by (simp add: on_time_def)
    next
      case False
      then have late: "?S \<le> unat now_ns" by (simp add: word_less_nat_alt)
      obtain q1 c2 where bg: "begin_segment b io seg (q, c1) = Inr (q1, c2)" "seg_running b seg q0 0 q1"
        "phases_low seg q1" "fq_completed_segments q1 = fq_completed_segments q"
        using works_begin [OF io armed(1), of c1] by (elim exE conjE)
      have rate1: "rate_ok b q1 seg"
        using rate bg(2) armed(1) by (auto simp: rate_ok_def seg_running_def seg_armed_def seg_front_def)
      have q': "q' = fst (snd (run_segment b io seg now_ns (q1, c2)))"
        using True False bg(1) by (simp add: q'_def tick)
      have "unat now_ns \<le> ?S + 0 + timer_period b" using now armed(2) by linarith
      with works_run [OF io rate1 bg(2,3), of now_ns c2] elapsed [of q'] late bg(4) ot q' show ?thesis by auto
    qed
  next
    case False
    then have q': "q' = fst (snd (run_segment b io seg now_ns (q, c1)))" by (simp add: q'_def tick)
    define d where "d = (if on_time b seg q0 last_ns q then last_ns - ?S else ?D)"
    have st: "seg_running b seg q0 d q" "phases_low seg q" "?S \<le> last_ns"
      "d < ?D \<Longrightarrow> on_time b seg q0 last_ns q \<and> last_ns = ?S + d" "?S + d \<le> last_ns"
      using at False by (auto simp: d_def on_time_def at_end_def seg_armed_def)
    have le: "d \<le> seg_elapsed seg now_ns"
      using st(1,5) now(1) by (auto simp: seg_elapsed_def seg_running_def)
    have "unat now_ns \<le> ?S + d + timer_period b" if "d < ?D" using st(4) [OF that] now(2) by simp
    from works_run [OF io rate st(1,2) le this, of c1] elapsed [of q'] st(3,4) now(1) q' show ?thesis by auto
  qed
qed

text \<open>Ticks at most a timer period apart, the first at most one after \<open>last_ns\<close>.\<close>

fun evenly :: "motion_build \<Rightarrow> nat \<Rightarrow> u64 list \<Rightarrow> bool" where
  "evenly b last_ns [] = True"
| "evenly b last_ns (now_ns # ticks) =
     (last_ns \<le> unat now_ns \<and> unat now_ns \<le> last_ns + timer_period b \<and> evenly b (unat now_ns) ticks)"

definition ticks_from :: "nat \<Rightarrow> u64 list \<Rightarrow> nat" where
  "ticks_from e ticks = length (filter (\<lambda>t. e \<le> unat t) ticks)"

end
