(* ===== verification/Firmware_Queue.thy ===== *)
theory Firmware_Queue
  imports Firmware_Drive
begin

text \<open>
  The ring of segments as a list, the invariant of the queue under every operation in any order and
  with any callbacks, and the properties of the firmware's step generator.
\<close>

subsection \<open>The ring as a list\<close>

definition fw_queue :: "motion_build \<Rightarrow> fw_motion \<Rightarrow> fw_segment list" where
  "fw_queue b q = map (\<lambda>i. segment_at ((fq_head q + i) mod mb_queue_depth b) q) [0..<fq_size q]"

lemma ring_slots_differ:
  fixes h i j n :: nat
  assumes "i < j" "j < i + n"
  shows "(h + i) mod n \<noteq> (h + j) mod n"
proof
  assume "(h + i) mod n = (h + j) mod n"
  then have "n dvd (h + j) - (h + i)" using assms by (metis mod_eq_dvd_iff_nat add_le_mono le_refl less_imp_le)
  then show False using assms nat_dvd_not_less [of "j - i" n] by simp
qed

lemma fw_queue_hd:
  assumes "fw_ring b q" "fq_size q \<noteq> 0"
  shows "hd (fw_queue b q) = segment_at (fq_head q) q"
  using assms by (simp add: fw_queue_def fw_ring_def upt_conv_Cons)

lemma fw_queue_last:
  "fq_size q \<noteq> 0 \<Longrightarrow>
    last (fw_queue b q) = segment_at ((fq_head q + fq_size q - 1) mod mb_queue_depth b) q"
  by (simp add: fw_queue_def last_map)

lemma fw_queue_rest: "fw_rest q' = fw_rest q \<Longrightarrow> fw_queue b q' = fw_queue b q"
  using fw_restD [of q' q] by (simp add: fw_queue_def segment_at_def)

lemma fw_queue_simps:
  "fw_queue b (q\<lparr>fq_state := s\<rparr>) = fw_queue b q"
  "fw_queue b (q\<lparr>fq_state := s, fq_fault := f\<rparr>) = fw_queue b q"
  "fq_size q = 0 \<Longrightarrow> fw_queue b q = []"
  by (simp_all add: fw_queue_def segment_at_def)

lemma append_segment_fields:
  "fq_segments (append_segment b v q) = (fq_segments q)[tail_index b q := v]"
  "fq_size (append_segment b v q) = fq_size q + 1" "fq_head (append_segment b v q) = fq_head q"
  "fq_state (append_segment b v q) = MS_Armed" "fq_fault (append_segment b v q) = fq_fault q"
  "fq_last_accepted_sequence (append_segment b v q) = fw_sequence v"
  "fq_next_available_time_ns (append_segment b v q) = fw_start_time_ns v + fw_duration_ns v"
  "fq_axis_count (append_segment b v q) = fq_axis_count q"
  "fw_shape b' (append_segment b v q) = fw_shape b' q"
  by (simp_all add: append_segment_def Let_def fw_shape_def)

lemma fw_queue_append:
  assumes "fw_ring b q" "fq_size q < mb_queue_depth b"
  shows "fw_queue b (append_segment b v q) = fw_queue b q @ [v]" "fw_ring b (append_segment b v q)"
proof -
  let ?n = "mb_queue_depth b"
  have "segment_at ((fq_head q + i) mod ?n) (append_segment b v q) = segment_at ((fq_head q + i) mod ?n) q"
    if "i < fq_size q" for i
    using that assms ring_slots_differ [of i "fq_size q" ?n "fq_head q"]
    by (simp add: segment_at_def append_segment_fields tail_index_def)
  moreover have "segment_at ((fq_head q + fq_size q) mod ?n) (append_segment b v q) = v"
    using assms by (simp add: segment_at_def append_segment_fields tail_index_def fw_ring_def)
  ultimately show "fw_queue b (append_segment b v q) = fw_queue b q @ [v]"
    by (simp add: fw_queue_def append_segment_fields)
  show "fw_ring b (append_segment b v q)"
    using assms by (simp add: fw_ring_def append_segment_fields)
qed

text \<open>The queue after its front has left.\<close>

lemma fw_queue_drop:
  assumes "fw_ring b q" "fq_size q \<noteq> 0"
  defines "q' \<equiv> q\<lparr>fq_segments := (fq_segments q)[fq_head q := empty_segment b],
    fq_head := (fq_head q + 1) mod mb_queue_depth b, fq_size := fq_size q - 1\<rparr>"
  shows "fw_queue b q' = tl (fw_queue b q)" "fw_ring b q'"
proof -
  let ?n = "mb_queue_depth b"
  obtain m where m: "fq_size q = Suc m" using assms(2) by (cases "fq_size q") auto
  have "segment_at (((fq_head q + 1) mod ?n + i) mod ?n) q' = segment_at ((fq_head q + Suc i) mod ?n) q"
    if "i < m" for i
  proof -
    have "((fq_head q + 1) mod ?n + i) mod ?n = (fq_head q + Suc i) mod ?n" by (simp add: mod_add_left_eq)
    moreover have "(fq_head q + Suc i) mod ?n \<noteq> fq_head q"
      using that m assms(1) ring_slots_differ [of 0 "Suc i" ?n "fq_head q"] by (simp add: fw_ring_def)
    ultimately show ?thesis by (simp add: segment_at_def q'_def)
  qed
  moreover have "tl [0..<fq_size q] = map Suc [0..<m]"
    using m by (simp add: map_Suc_upt upt_conv_Cons del: upt_Suc)
  ultimately show "fw_queue b q' = tl (fw_queue b q)"
    using m by (simp add: fw_queue_def q'_def o_def del: upt_Suc flip: map_tl)
  show "fw_ring b q'" using assms(1) by (auto simp: fw_ring_def q'_def)
qed

subsection \<open>The invariant\<close>

text \<open>
  Queued segments follow each other without a gap in number and in time, only the last may be final,
  each is within what the timer can make, and the state says whether there is one.
\<close>

definition accepted_ok :: "motion_build \<Rightarrow> nat \<Rightarrow> fw_segment \<Rightarrow> bool" where
  "accepted_ok b axis_count seg \<longleftrightarrow> fw_segment_ok axis_count seg \<and>
     (\<forall>axis < axis_count. step_count (fw_steps seg ! axis) \<le> maximum_steps_for_duration b (fw_duration_ns seg))"

fun fw_chained :: "u32 \<Rightarrow> u64 \<Rightarrow> fw_segment list \<Rightarrow> bool" where
  "fw_chained final_seq final_end [] = True"
| "fw_chained final_seq final_end [s] \<longleftrightarrow>
     fw_sequence s = final_seq \<and> fw_start_time_ns s + fw_duration_ns s = final_end"
| "fw_chained final_seq final_end (s # t # ss) \<longleftrightarrow>
     \<not> fw_final_segment s \<and> fw_sequence t = fw_sequence s + 1 \<and>
     fw_start_time_ns t = fw_start_time_ns s + fw_duration_ns s \<and> fw_chained final_seq final_end (t # ss)"

definition fw_ok :: "motion_build \<Rightarrow> fw_motion \<Rightarrow> bool" where
  "fw_ok b q \<longleftrightarrow>
     fw_shape b q \<and> fw_ring b q \<and>
     (\<forall>seg \<in> set (fw_queue b q). accepted_ok b (fq_axis_count q) seg) \<and>
     fw_chained (fq_last_accepted_sequence q) (fq_next_available_time_ns q) (fw_queue b q) \<and>
     (fq_fault q \<noteq> MF_None \<longleftrightarrow> fq_state q = MS_Faulted) \<and>
     (fq_size q \<noteq> 0 \<longleftrightarrow> fq_state q = MS_Armed \<or> fq_state q = MS_Running)"

lemma fw_chained_append:
  "ss \<noteq> [] \<Longrightarrow> fw_chained n e (ss @ [s]) \<longleftrightarrow>
    fw_sequence s = n \<and> fw_start_time_ns s + fw_duration_ns s = e \<and>
    \<not> fw_final_segment (last ss) \<and> fw_chained (n - 1) (fw_start_time_ns s) ss"
proof (induction n e ss rule: fw_chained.induct)
  case (2 n e t)
  then show ?case by (auto simp: eq_diff_eq)
qed auto

lemma fw_chained_tl: "fw_chained n e ss \<Longrightarrow> fw_chained n e (tl ss)"
  by (cases "(n, e, ss)" rule: fw_chained.cases) auto

text \<open>What it depends on.\<close>

definition fw_queue_view where
  "fw_queue_view q = (fq_segments q, fq_head q, fq_size q, fq_last_accepted_sequence q, fq_next_available_time_ns q,
     fq_state q, fq_fault q, fq_axis_count q)"

lemma fw_ok_core: "fw_ok b q \<Longrightarrow> fw_queue_view q' = fw_queue_view q \<Longrightarrow> fw_shape b q' \<Longrightarrow> fw_ok b q'"
  by (simp add: fw_queue_view_def fw_ok_def fw_ring_def fw_queue_def segment_at_def)

lemma fw_core_rest: "fw_rest q' = fw_rest q \<Longrightarrow> fw_queue_view q' = fw_queue_view q"
  by (cases q, cases q') (simp add: fw_rest_def fw_queue_view_def)

lemma stopped_ok: "fw_stopped b q \<Longrightarrow> fw_ok b q"
  by (simp add: fw_stopped_def fw_ok_def fw_queue_def)

subsection \<open>Every operation keeps it\<close>

lemma init_ok:
  assumes "fw_motion_init b axis_count q = (True, q')"
  shows "fw_ok b q'"
  using assms
  by (auto simp: fw_motion_init_def fw_ok_def fw_shape_def fw_ring_def fw_queue_def zero_motion_def split: if_splits)

lemma enqueue_ok:
  assumes "fw_ok b q" "fw_motion_enqueue b req now_ns q = (r, q')"
  shows "fw_ok b q'"
proof (cases r)
  case (Inl e)
  have "fw_ok b (reject_segment q)"
    using assms(1) by (rule fw_ok_core) (use assms(1) in \<open>simp_all add: reject_segment_def fw_queue_view_def fw_ok_def fw_shape_def\<close>)
  moreover have "q' = q \<or> q' = reject_segment q"
    using assms(2) Inl by (auto simp: fw_motion_enqueue_def Let_def split: if_splits)
  ultimately show ?thesis using assms(1) by auto
next
  case (Inr seg)
  note a = accepted_segment_ok [OF assms(2) [unfolded Inr]]
  have g: "fq_size q < mb_queue_depth b" "fw_sequence seg = fq_last_accepted_sequence q + 1"
    "\<not> last_is_final b q" "fq_size q > 0 \<longrightarrow> fw_start_time_ns seg = fq_next_available_time_ns q"
    using assms(2) Inr by (auto simp: fw_motion_enqueue_def Let_def split: if_splits)
  have ok: "fw_shape b q" "fw_ring b q" "fq_state q \<noteq> MS_Faulted"
      "fw_chained (fq_last_accepted_sequence q) (fq_next_available_time_ns q) (fw_queue b q)"
    using assms(1) a(2) by (auto simp: fw_ok_def)
  note app = fw_queue_append [OF ok(2) g(1), of seg]
  have "fw_chained (fw_sequence seg) (fw_start_time_ns seg + fw_duration_ns seg) (fw_queue b q @ [seg])"
  proof (cases "fq_size q = 0")
    case True
    then show ?thesis by (simp add: fw_queue_def)
  next
    case False
    then have "fw_queue b q \<noteq> []" "\<not> fw_final_segment (last (fw_queue b q))"
      using g(3) fw_queue_last [OF False, of b] by (simp_all add: fw_queue_def last_is_final_def)
    then show ?thesis using ok(4) g(2,4) False by (simp add: fw_chained_append)
  qed
  moreover have "accepted_ok b (fq_axis_count q) seg" using a(1,6) by (simp add: accepted_ok_def)
  ultimately show ?thesis
    using assms(1) app ok a(2) unfolding a(3) by (auto simp: fw_ok_def append_segment_fields)
qed

lemma fw_abort_ok: "fw_ok b q \<Longrightarrow> fw_ok b (fw_motion_abort b fault q)"
  by (auto simp: fw_motion_abort_def Let_def fw_ok_def fw_shape_def fw_ring_def fw_queue_def)

lemma clear_ok:
  "fw_ok b q \<Longrightarrow> fw_clear_fault now_ns q = (r, q') \<Longrightarrow> fw_ok b q'"
  by (auto simp: fw_clear_fault_def fw_ok_def fw_shape_def fw_ring_def fw_queue_def split: if_splits)

lemma complete_ok:
  assumes "fw_ok b q" "fw_complete_front b q = (r, q')"
  shows "fw_ok b q'"
proof (cases "fq_size q = 0 \<or> fq_fault q \<noteq> MF_None")
  case True
  then show ?thesis using assms by (simp add: fw_complete_front_def)
next
  case False
  define q1 where "q1 = q\<lparr>fq_segments := (fq_segments q)[fq_head q := empty_segment b],
    fq_head := (fq_head q + 1) mod mb_queue_depth b, fq_size := fq_size q - 1\<rparr>"
  have ring: "fw_ring b q" "fq_size q \<noteq> 0" using assms(1) False by (simp_all add: fw_ok_def)
  note drop = fw_queue_drop [OF ring, folded q1_def]
  define q2 where "q2 = (if fw_final_segment (segment_at (fq_head q) q) then q1\<lparr>fq_size := 0, fq_state := MS_Idle\<rparr>
    else if fq_size q1 = 0 then q1\<lparr>fq_state := MS_Faulted, fq_fault := MF_QueueUnderrun\<rparr>
    else q1\<lparr>fq_state := MS_Armed\<rparr>)"
  have sub: "set (tl (fw_queue b q)) \<subseteq> set (fw_queue b q)" by (cases "fw_queue b q") auto
  have chain: "fw_chained (fq_last_accepted_sequence q) (fq_next_available_time_ns q) (tl (fw_queue b q))"
    and each: "\<forall>seg \<in> set (tl (fw_queue b q)). accepted_ok b (fq_axis_count q) seg"
    using assms(1) fw_chained_tl sub by (auto simp: fw_ok_def)
  have same: "fq_last_accepted_sequence q1 = fq_last_accepted_sequence q"
    "fq_next_available_time_ns q1 = fq_next_available_time_ns q" "fq_axis_count q1 = fq_axis_count q"
    "fq_fault q1 = MF_None" "fw_shape b q1"
    using False assms(1) by (simp_all add: q1_def fw_ok_def fw_shape_def)
  have ok2: "fw_ok b q2"
    using drop chain each same unfolding q2_def
    by (auto simp: fw_ok_def fw_shape_def fw_ring_def fw_queue_simps)
  have "q' = snd (fw_complete_front b q)" using assms(2) by simp
  then have "fw_queue_view q' = fw_queue_view q2 \<and> fw_shape b q' = fw_shape b q2"
    unfolding fw_complete_front_def if_not_P [OF False] Let_def q2_def q1_def
    by (cases "fw_final_segment (segment_at (fq_head q) q)"; cases "fq_size q - 1 = 0")
      (simp_all add: fw_queue_view_def fw_shape_def)
  then show ?thesis using fw_ok_core [OF ok2] ok2 [unfolded fw_ok_def, THEN conjunct1] by simp
qed

text \<open>The tick: a stage either stops the queue or changes nothing of its core.\<close>

definition stage_kept :: "motion_build \<Rightarrow> fw_motion \<Rightarrow> 'c loop_exit \<Rightarrow> bool" where
  "stage_kept b q r \<longleftrightarrow> (case r of
     Inl (res, run) \<Rightarrow> fw_stopped b (fst run)
   | Inr run \<Rightarrow> fw_shape b (fst run) \<and> fw_rest (fst run) = fw_rest q)"

lemma stage_chain:
  assumes "stage_kept b q r"
    and "\<And>q1 c1. fw_shape b q1 \<Longrightarrow> fw_rest q1 = fw_rest q \<Longrightarrow> stage_kept b q1 (f (q1, c1))"
  shows "stage_kept b q (chain_exit r f)"
proof (cases r)
  case (Inl e)
  with assms(1) show ?thesis by (simp add: chain_exit_def)
next
  case (Inr run)
  obtain q1 c1 where run: "run = (q1, c1)" by fastforce
  then have one: "fw_shape b q1" "fw_rest q1 = fw_rest q" using assms(1) Inr by (simp_all add: stage_kept_def)
  show ?thesis
    using assms(2) [OF one, of c1] unfolding chain_exit_def Inr run stage_kept_def one(2) by simp
qed

lemma emit_axis_kept:
  assumes "fw_shape b q" "axis < mb_max_axes b"
  shows "stage_kept b q (emit_axis b io seg delta axis (q, c))"
proof -
  have lower: "stage_kept b q (lower_step b io axis (q, c))"
    using lower_step_facts [OF refl assms, of io c] by (auto simp: stage_kept_def split: sum.splits)
  have advance: "stage_kept b q1 (advance_phase b io T delta axis (q1, c1))" if "fw_shape b q1" for q1 c1 T
    using that stop_with_stopped(1) [OF that, of MF_QueueUnderrun io c1]
    by (simp add: stage_kept_def advance_phase_def Let_def fw_shape_def fw_rest_def)
  have raise: "stage_kept b q1 (raise_step b io T D axis (q1, c1))" if "fw_shape b q1" for q1 c1 T D
  proof -
    define q2 where "q2 = q1\<lparr>fq_active_phase := (fq_active_phase q1)[axis := fq_active_phase q1 ! axis - D]\<rparr>"
    have shape: "fw_shape b q2" using that by (simp add: q2_def fw_shape_def)
    obtain ok c2 where call: "call_io (io_set_step io) axis True c1 = (ok, c2)" by fastforce
    have "raise_step b io T D axis (q1, c1) =
        (if fq_active_emitted q1 ! axis < T \<and> fq_active_phase q1 ! axis \<ge> D
         then if ok then Inr (count_pulse axis q2, c2) else Inl (False, stop_with b io MF_Aborted (q2, c2))
         else Inr (q1, c1))"
      using call by (simp add: raise_step_def q2_def Let_def)
    moreover have "fw_shape b (count_pulse axis q2)" "fw_rest (count_pulse axis q2) = fw_rest q1"
      using shape by (simp_all add: count_pulse_def fw_shape_def fw_rest_def q2_def)
    ultimately show ?thesis
      using that stop_with_stopped(1) [OF shape, of MF_Aborted io c2] by (simp add: stage_kept_def)
  qed
  show ?thesis
    unfolding emit_axis_def Let_def using lower advance raise by (intro stage_chain) simp_all
qed

lemma emit_loop_kept:
  assumes "fw_shape b q" "\<forall>axis \<in> set axes. axis < mb_max_axes b"
  shows "stage_kept b q (emit_loop b io seg delta axes (q, c))"
  using assms
proof (induction axes arbitrary: q c)
  case Nil
  then show ?case by (simp add: stage_kept_def)
next
  case (Cons axis axes)
  show ?case unfolding emit_loop.simps
    by (rule stage_chain [OF emit_axis_kept]) (use Cons in simp_all)
qed

lemma finish_tick_ok:
  assumes "fw_ok b q"
  shows "fw_ok b (fst (snd (finish_tick b io seg elapsed (q, c))))"
proof (cases "elapsed \<ge> fw_duration_ns seg \<and> all_emitted seg q")
  case True
  obtain fin q1 where c1: "fw_complete_front b q = (fin, q1)" by fastforce
  have ok: "fw_ok b q1" using complete_ok [OF assms c1] .
  then have "fw_shape b q1" by (simp add: fw_ok_def)
  note s = stop_keeps(1,6) [OF this, where io = io and c = c]
  have "fw_ok b (fst (stop_outputs io (q1, c)))" using fw_ok_core [OF ok fw_core_rest [OF s(2)] s(1)] .
  moreover have "fst (snd (finish_tick b io seg elapsed (q, c))) \<in> {q1, fst (stop_outputs io (q1, c))}"
    using True c1 by (cases fin) (simp_all add: finish_tick_def)
  ultimately show ?thesis using ok by auto
next
  case False
  define q1 where "q1 = (fw_motion_abort b MF_QueueUnderrun q)
    \<lparr>fq_queue_underruns := fq_queue_underruns (fw_motion_abort b MF_QueueUnderrun q) + 1\<rparr>"
  have "fw_ok b q1"
    using fw_abort_ok [OF assms, of MF_QueueUnderrun] by (rule fw_ok_core)
      (use fw_abort_ok [OF assms, of MF_QueueUnderrun] in \<open>simp_all add: q1_def fw_queue_view_def fw_ok_def fw_shape_def\<close>)
  moreover from this have "fw_shape b q1" by (simp add: fw_ok_def)
  note s = stop_keeps(1,6) [OF this, where io = io and c = c]
  ultimately have "fw_ok b (fst (stop_outputs io (q1, c)))" using fw_ok_core fw_core_rest s by blast
  moreover have "fst (snd (finish_tick b io seg elapsed (q, c))) \<in> {q, fst (stop_outputs io (q1, c))}"
    unfolding finish_tick_def prod.case if_not_P [OF False] by (simp add: Let_def q1_def)
  ultimately show ?thesis using assms by auto
qed

lemma run_segment_ok:
  assumes "fw_ok b q"
  shows "fw_ok b (fst (snd (run_segment b io seg now_ns (q, c))))"
proof -
  define q1 where "q1 = q\<lparr>fq_active_last_tick_ns := tick_time seg now_ns\<rparr>"
  have ok: "fw_ok b q1"
    using assms by (rule fw_ok_core) (use assms in \<open>simp_all add: q1_def fw_queue_view_def fw_ok_def fw_shape_def\<close>)
  then have shape: "fw_shape b q1" "\<forall>axis \<in> set [0..<fq_axis_count q]. axis < mb_max_axes b"
    by (auto simp: fw_ok_def fw_shape_def q1_def)
  note kept = emit_loop_kept [OF shape, where io = io and seg = seg and delta = "tick_delta seg now_ns q" and c = c]
  show ?thesis
  proof (cases "emit_loop b io seg (tick_delta seg now_ns q) [0..<fq_axis_count q] (q1, c)")
    case (Inl e)
    with kept stopped_ok show ?thesis by (cases e) (simp add: run_segment_def stage_kept_def flip: q1_def)
  next
    case (Inr run)
    obtain q2 c2 where run: "run = (q2, c2)" by fastforce
    have "fw_ok b q2"
      using kept fw_ok_core [OF ok fw_core_rest] by (simp add: Inr run stage_kept_def)
    with Inr run finish_tick_ok show ?thesis by (simp add: run_segment_def flip: q1_def)
  qed
qed

lemma tick_ok:
  assumes "fw_ok b q"
  shows "fw_ok b (fst (snd (fw_tick b io now_ns (q, c))))"
proof -
  have shape: "fw_shape b q" "\<forall>axis \<in> set [0..<fq_axis_count q]. axis < mb_max_axes b"
    using assms by (auto simp: fw_ok_def fw_shape_def)
  have stop: "fw_ok b (fst (stop_outputs io (q, c1)))" for c1
    using fw_ok_core [OF assms fw_core_rest] stop_keeps(1,6) [OF shape(1), where io = io and c = c1] by blast
  have segment: "fw_ok b (fst (snd (case begin_segment b io seg (q, c1) of
      Inl exit \<Rightarrow> exit | Inr run1 \<Rightarrow> run_segment b io seg now_ns run1)))"
    if "fq_state q = MS_Armed" "fq_fault q = MF_None" "fq_size q \<noteq> 0" for seg c1
  proof -
    define q1 where "q1 = q\<lparr>fq_active_emitted := replicate (mb_max_axes b) 0,
      fq_active_phase := replicate (mb_max_axes b) 0, fq_active_last_tick_ns := fw_start_time_ns seg\<rparr>"
    have s1: "fw_shape b q1" "fw_queue_view q1 = fw_queue_view q" using shape(1) by (simp_all add: q1_def fw_shape_def fw_queue_view_def)
    have dir: "stage_kept b q1 (direction_loop b io seg [0..<fq_axis_count q] (q1, c1))"
      using direction_loop_facts [OF s1(1) shape(2), where io = io and seg = seg and c = c1]
      by (auto simp: stage_kept_def same_pulses_def split: sum.splits)
    have en: "stage_kept b q2 (enable_loop b io seg [0..<fq_axis_count q] (q2, c2))" if "fw_shape b q2" for q2 c2
      using enable_loop_facts [OF that, where io = io and seg = seg and axes = "[0..<fq_axis_count q]" and c = c2]
      by (auto simp: stage_kept_def same_pulses_def split: sum.splits)
    have both: "stage_kept b q1 (chain_exit (direction_loop b io seg [0..<fq_axis_count q] (q1, c1))
        (enable_loop b io seg [0..<fq_axis_count q]))"
      using dir en by (rule stage_chain) 
    have begin_is: "begin_segment b io seg (q, c1) =
        chain_exit (chain_exit (direction_loop b io seg [0..<fq_axis_count q] (q1, c1))
          (enable_loop b io seg [0..<fq_axis_count q])) (\<lambda>(q2, c2). Inr (q2\<lparr>fq_state := MS_Running\<rparr>, c2))"
      by (simp add: begin_segment_def chain_exit_def q1_def split: sum.split)
    show ?thesis
    proof (cases "chain_exit (direction_loop b io seg [0..<fq_axis_count q] (q1, c1))
        (enable_loop b io seg [0..<fq_axis_count q])")
      case (Inl e)
      then have bg: "begin_segment b io seg (q, c1) = Inl e" unfolding begin_is by (simp add: chain_exit_def)
      show ?thesis using both stopped_ok unfolding bg Inl by (cases e) (simp add: stage_kept_def)
    next
      case (Inr run)
      obtain q2 c2 where run: "run = (q2, c2)" by fastforce
      then have bg: "begin_segment b io seg (q, c1) = Inr (q2\<lparr>fq_state := MS_Running\<rparr>, c2)"
        using Inr unfolding begin_is by (simp add: chain_exit_def)
      have "fw_shape b q2" "fw_queue_view q2 = fw_queue_view q"
        using both s1(2) fw_core_rest [of q2 q1] unfolding Inr run by (simp_all add: stage_kept_def)
      then have "fw_ok b (q2\<lparr>fq_state := MS_Running\<rparr>)"
        using assms that by (auto simp: fw_ok_def fw_queue_view_def fw_shape_def fw_ring_def fw_queue_def segment_at_def)
      then show ?thesis using run_segment_ok bg by simp
    qed
  qed
  show ?thesis
  proof (cases "io_set_enable io = None \<or> io_set_direction io = None \<or> io_set_step io = None")
    case True
    then show ?thesis using assms unfolding fw_tick_def if_P [OF True] by simp
  next
    case present: False
    note lim = limit_loop_facts [OF shape(1), where io = io and axes = "[0..<fq_axis_count q]" and c = c]
    show ?thesis
    proof (cases "limit_loop b io [0..<fq_axis_count q] (q, c)")
      case (Inl e)
      show ?thesis unfolding fw_tick_def if_not_P [OF present]
        using Inl lim stop stopped_ok by (cases e) simp
    next
      case (Inr run1)
      obtain c1 where run1: "run1 = (q, c1)" using lim Inr by (cases run1) simp
      show ?thesis unfolding fw_tick_def if_not_P [OF present]
        using Inr run1 stop segment run_segment_ok [OF assms] assms
        by (auto simp: fw_motion_front_def)
    qed
  qed
qed

lemma evenly_sorted: "evenly b last_ns ticks \<Longrightarrow> sorted (map unat ticks)"
proof (induction b last_ns ticks rule: evenly.induct)
  case (2 b last_ns now_ns ticks)
  then show ?case by (cases ticks) auto
qed simp

subsection \<open>First in, first out\<close>

lemma enqueue_fifo:
  assumes "fw_ok b q" "fw_ring b q"
  shows "fw_queue b (snd (fw_motion_enqueue b req now_ns q)) =
      (case fst (fw_motion_enqueue b req now_ns q) of
         Inl e \<Rightarrow> fw_queue b q | Inr seg \<Rightarrow> fw_queue b q @ [seg])"
proof (cases "fw_motion_enqueue b req now_ns q")
  case (Pair r q')
  show ?thesis
  proof (cases r)
    case (Inl e)
    then have "q' = q \<or> q' = reject_segment q"
      using Pair by (auto simp: fw_motion_enqueue_def Let_def split: if_splits)
    then have "fw_queue b q' = fw_queue b q" by (auto simp: reject_segment_def fw_queue_def segment_at_def)
    then show ?thesis using Pair Inl by simp
  next
    case (Inr seg)
    have "fq_size q < mb_queue_depth b"
      using Pair Inr by (auto simp: fw_motion_enqueue_def Let_def split: if_splits)
    then show ?thesis
      using Pair Inr accepted_segment_ok(3) [of b req now_ns q seg q'] fw_queue_append(1) [OF assms(2)] by simp
  qed
qed

lemma complete_fifo:
  assumes "fw_ok b q" "fw_ring b q"
  shows "fw_queue b (snd (fw_complete_front b q)) =
      (if fw_motion_front q = None \<or> map_option fw_final_segment (fw_motion_front q) = Some True
       then [] else tl (fw_queue b q))"
proof (cases "fq_size q = 0")
  case True
  then show ?thesis by (simp add: fw_complete_front_def fw_motion_front_def fw_queue_def)
next
  case False
  then have busy: "\<not> (fq_size q = 0 \<or> fq_fault q \<noteq> MF_None)" using assms(1) by (auto simp: fw_ok_def)
  note drop = fw_queue_drop(1) [OF assms(2) False]
  show ?thesis
    using False drop unfolding fw_complete_front_def if_not_P [OF busy] Let_def
    by (cases "fw_final_segment (segment_at (fq_head q) q)"; cases "fq_size q - 1 = 0")
      (simp_all add: fw_motion_front_def fw_queue_def segment_at_def)
qed

subsection \<open>Properties\<close>

text \<open>
  A life of the queue with the board's callbacks: any calls of the operations in any order, while the
  world behind the callbacks changes as it likes.
\<close>

inductive fw_reachable :: "motion_build \<Rightarrow> 'c motion_io \<Rightarrow> fw_motion \<Rightarrow> 'c \<Rightarrow> bool" for b io where
  fw_init: "fw_motion_init b axis_count junk = (True, q) \<Longrightarrow> fw_reachable b io q c"
| fw_world: "fw_reachable b io q c \<Longrightarrow> fw_reachable b io q c'"
| fw_enqueue: "fw_reachable b io q c \<Longrightarrow> fw_motion_enqueue b req now_ns q = (r, q') \<Longrightarrow> fw_reachable b io q' c"
| fw_complete: "fw_reachable b io q c \<Longrightarrow> fw_complete_front b q = (r, q') \<Longrightarrow> fw_reachable b io q' c"
| fw_abort: "fw_reachable b io q c \<Longrightarrow> fw_reachable b io (fw_motion_abort b fault q) c"
| fw_clear: "fw_reachable b io q c \<Longrightarrow> fw_clear_fault now_ns q = (r, q') \<Longrightarrow> fw_reachable b io q' c"
| fw_tick: "fw_reachable b io q c \<Longrightarrow> fw_tick b io now_ns (q, c) = (r, (q', c')) \<Longrightarrow> fw_reachable b io q' c'"

lemma fw_reachable_ok: "fw_reachable b io q c \<Longrightarrow> fw_ok b q"
proof (induction rule: fw_reachable.induct)
  case (fw_tick q c now_ns r q' c')
  then show ?case using tick_ok [of b q io now_ns c] by simp
qed (auto intro: init_ok enqueue_ok complete_ok fw_abort_ok clear_ok)

lemma fw_ok_front:
  assumes "fw_ok b q" "fw_motion_front q = Some seg" "fq_state q = MS_Armed"
  shows "seg_armed b seg q q" "accepted_ok b (fq_axis_count q) seg"
proof -
  have size: "fq_size q \<noteq> 0" "segment_at (fq_head q) q = seg"
    using assms(2) by (auto simp: fw_motion_front_def split: if_splits)
  then have "seg \<in> set (fw_queue b q)"
    using fw_queue_hd [of b q] assms(1) hd_in_set [of "fw_queue b q"] by (auto simp: fw_ok_def fw_queue_def)
  then show "accepted_ok b (fq_axis_count q) seg" using assms(1) by (simp add: fw_ok_def)
  then show "seg_armed b seg q q"
    using assms size by (auto simp: seg_armed_def seg_front_def fw_ok_def accepted_ok_def)
qed

text \<open>An example: one axis, a timer of 1 kHz, a final segment of two steps in 5 ms.\<close>

definition demo_build :: motion_build where
  "demo_build = \<lparr>mb_max_axes = 1, mb_queue_depth = 2, mb_min_lead_time_us = 100, mb_timer_hz = 1000\<rparr>"

definition demo_io :: "unit motion_io" where
  "demo_io = \<lparr>io_set_enable = Some (\<lambda>c axis v. (True, c)), io_set_direction = Some (\<lambda>c axis v. (True, c)),
     io_set_step = Some (\<lambda>c axis v. (True, c)), io_limit_active = None\<rparr>"

definition fw_demo_segment :: fw_segment where
  "fw_demo_segment = \<lparr>fw_sequence = 1, fw_start_time_ns = 1000000, fw_duration_ns = 5000000,
     fw_axis_count = 1, fw_final_segment = True, fw_steps = [2]\<rparr>"

definition demo_empty :: fw_motion where
  "demo_empty = (zero_motion demo_build)\<lparr>fq_axis_count := 1\<rparr>"

definition demo_queue :: fw_motion where
  "demo_queue = append_segment demo_build fw_demo_segment demo_empty"

lemma demo_enqueued: "fw_motion_enqueue demo_build fw_demo_segment 0 demo_empty = (Inr fw_demo_segment, demo_queue)"
  by (simp add: fw_motion_enqueue_def steps_rejected_def step_count_def maximum_steps_for_duration_def
      last_is_final_def effective_start_def minimum_start_time_def demo_build_def fw_demo_segment_def
      demo_empty_def demo_queue_def zero_motion_def uint64_max_def Let_def)

lemma fw_demo_reachable:
  "fw_reachable demo_build io demo_empty c" "fw_reachable demo_build io demo_queue c"
proof -
  have "fw_motion_init demo_build 1 (zero_motion demo_build) = (True, demo_empty)"
    by (simp add: fw_motion_init_def demo_build_def demo_empty_def zero_motion_def)
  then show "fw_reachable demo_build io demo_empty c" by (rule fw_init)
  then show "fw_reachable demo_build io demo_queue c" using demo_enqueued by (rule fw_enqueue)
qed

lemma demo_front:
  "fw_motion_front demo_queue = Some fw_demo_segment" "fq_state demo_queue = MS_Armed"
  "fq_completed_segments demo_queue = 0"
  by (simp_all add: demo_queue_def append_segment_def demo_empty_def zero_motion_def demo_build_def
      fw_demo_segment_def tail_index_def fw_motion_front_def segment_at_def Let_def)

text \<open>
  C36. In every life of the queue, whatever the callbacks do: the queued segments follow each other
  without a gap in sequence number and time up to the last accepted one, only the last may be final,
  none is beyond what the timer or the phase arithmetic can make, a latched fault means the faulted
  state and an empty queue, and the queue is empty exactly when nothing is armed or running.
\<close>

theorem fw_queue_invariant:
  assumes "fw_reachable b io q c"
  shows "fw_ok b q"
  using assms by (rule fw_reachable_ok)

theorem fw_queue_invariant_witness: "fw_ok demo_build demo_queue"
  using fw_queue_invariant [OF fw_demo_reachable(2) [of demo_io "()"]] .

text \<open>
  The ring is a queue: an accepted segment is appended, a rejected one changes nothing, the front is
  the oldest one and completing it removes it, or everything after a final segment.
\<close>

theorem fw_queue_fifo:
  assumes "fw_reachable b io q c"
  shows "fw_motion_front q = (case fw_queue b q of [] \<Rightarrow> None | seg # _ \<Rightarrow> Some seg) \<and>
    fw_queue b (snd (fw_motion_enqueue b req now_ns q)) =
      (case fst (fw_motion_enqueue b req now_ns q) of
         Inl e \<Rightarrow> fw_queue b q | Inr seg \<Rightarrow> fw_queue b q @ [seg]) \<and>
    fw_queue b (snd (fw_complete_front b q)) =
      (if fw_motion_front q = None \<or> map_option fw_final_segment (fw_motion_front q) = Some True
       then [] else tl (fw_queue b q))"
proof -
  have ok: "fw_ok b q" "fw_ring b q" using fw_reachable_ok [OF assms] by (simp_all add: fw_ok_def)
  have front: "fw_motion_front q = (case fw_queue b q of [] \<Rightarrow> None | seg # _ \<Rightarrow> Some seg)"
  proof (cases "fq_size q = 0")
    case True
    then show ?thesis by (simp add: fw_motion_front_def fw_queue_def)
  next
    case False
    then have "fw_queue b q \<noteq> []" by (simp add: fw_queue_def)
    then show ?thesis using False fw_queue_hd [OF ok(2) False]
      by (cases "fw_queue b q") (simp_all add: fw_motion_front_def)
  qed
  show ?thesis using front enqueue_fifo [OF ok] complete_fifo [OF ok] by blast
qed

theorem fw_queue_fifo_witness:
  "fw_queue demo_build (snd (fw_motion_enqueue demo_build fw_demo_segment 0 demo_empty)) = [fw_demo_segment]"
  using fw_queue_fifo [OF fw_demo_reachable(1) [of demo_io "()"], where req = fw_demo_segment and now_ns = 0]
    demo_enqueued by (simp add: fw_queue_def demo_empty_def zero_motion_def)

end
