(* ===== verification/Firmware_Pins.thy ===== *)
theory Firmware_Pins
  imports Firmware_Queue
begin

text \<open>
  What the firmware's step generator does to the board: the calls of the callbacks recorded as the
  levels of the step, direction and enable lines, the commands that arrive between the ticks, and the
  properties of a segment from its arming to its end.
\<close>

subsection \<open>Ticks and commands\<close>

text \<open>The timer's ticks and the segments that arrive meanwhile, each at its time.\<close>

datatype motion_op = MO_Tick u64 | MO_Enqueue fw_segment u64

definition motion_op_run :: "motion_build \<Rightarrow> 'c motion_io \<Rightarrow> motion_op \<Rightarrow> 'c motion_run \<Rightarrow> 'c motion_run" where
  "motion_op_run b io op run = (case op of
     MO_Tick now_ns \<Rightarrow> snd (fw_tick b io now_ns run)
   | MO_Enqueue req now_ns \<Rightarrow> (snd (fw_motion_enqueue b req now_ns (fst run)), snd run))"

abbreviation over :: "u64 \<Rightarrow> fw_motion \<Rightarrow> bool" where
  "over n q \<equiv> fq_completed_segments q \<noteq> n \<or> fq_fault q \<noteq> MF_None"

text \<open>Until the number \<open>n\<close> of completed segments changes or a fault is latched.\<close>

fun drive :: "motion_build \<Rightarrow> 'c motion_io \<Rightarrow> u64 \<Rightarrow> motion_op list \<Rightarrow> 'c motion_run \<Rightarrow> 'c motion_run" where
  "drive b io n [] run = run"
| "drive b io n (op # ops) run =
     (if over n (fst run) then run else drive b io n ops (motion_op_run b io op run))"

text \<open>
  A segment accepted while another one is running: \<^verbatim>\<open>rbsp_motion_enqueue\<close> sets the state to armed, so
  that the next tick begins the running segment again (\<open>rearmed_repeats\<close> below).
\<close>

definition arms_again :: "motion_build \<Rightarrow> motion_op \<Rightarrow> fw_motion \<Rightarrow> bool" where
  "arms_again b op q = (case op of
     MO_Tick now_ns \<Rightarrow> False
   | MO_Enqueue req now_ns \<Rightarrow> fq_state q = MS_Running \<and>
       (case fst (fw_motion_enqueue b req now_ns q) of Inl e \<Rightarrow> False | Inr seg \<Rightarrow> True))"

fun rearmed :: "motion_build \<Rightarrow> 'c motion_io \<Rightarrow> u64 \<Rightarrow> motion_op list \<Rightarrow> 'c motion_run \<Rightarrow> bool" where
  "rearmed b io n [] run = False"
| "rearmed b io n (op # ops) run =
     (\<not> over n (fst run) \<and> (arms_again b op (fst run) \<or> rearmed b io n ops (motion_op_run b io op run)))"

fun ticks_of :: "motion_op list \<Rightarrow> u64 list" where
  "ticks_of [] = []"
| "ticks_of (MO_Tick now_ns # ops) = now_ns # ticks_of ops"
| "ticks_of (MO_Enqueue req now_ns # ops) = ticks_of ops"

lemma drive_over: "over n q \<Longrightarrow> drive b io n ops (q, c) = (q, c)"
  by (cases ops) auto

lemma enqueue_keeps:
  assumes ok: "fw_ok b q" and front: "seg_front b seg q0 q" and run: "fw_motion_enqueue b req now_ns q = (r, q')"
  shows "seg_front b seg q0 q'" "fq_completed_segments q' = fq_completed_segments q"
    "fq_position_steps q' = fq_position_steps q" "fq_emitted_steps q' = fq_emitted_steps q"
    "fq_active_emitted q' = fq_active_emitted q" "fq_active_phase q' = fq_active_phase q"
    "fq_active_last_tick_ns q' = fq_active_last_tick_ns q" "fq_direction_positive q' = fq_direction_positive q"
    "fq_axis_count q' = fq_axis_count q" "fq_state q' = (case r of Inl e \<Rightarrow> fq_state q | Inr v \<Rightarrow> MS_Armed)"
proof -
  have "seg_front b seg q0 q' \<and> fq_completed_segments q' = fq_completed_segments q \<and>
    fq_position_steps q' = fq_position_steps q \<and> fq_emitted_steps q' = fq_emitted_steps q \<and>
    fq_active_emitted q' = fq_active_emitted q \<and> fq_active_phase q' = fq_active_phase q \<and>
    fq_active_last_tick_ns q' = fq_active_last_tick_ns q \<and> fq_direction_positive q' = fq_direction_positive q \<and>
    fq_axis_count q' = fq_axis_count q \<and> fq_state q' = (case r of Inl e \<Rightarrow> fq_state q | Inr v \<Rightarrow> MS_Armed)"
  proof (cases r)
    case (Inl e)
    then have "q' = q \<or> q' = reject_segment q"
      using run by (auto simp: fw_motion_enqueue_def Let_def split: if_splits)
    then show ?thesis using front Inl by (auto simp: reject_segment_def seg_front_def fw_shape_def segment_at_def)
  next
    case (Inr v)
    have q': "q' = append_segment b v q" and room: "fq_size q < mb_queue_depth b"
      using run Inr by (auto simp: fw_motion_enqueue_def Let_def split: if_splits)
    have ring: "fw_ring b q" "fq_size q \<noteq> 0" using ok front by (simp_all add: fw_ok_def seg_front_def)
    then have "tail_index b q \<noteq> fq_head q"
      using room ring_slots_differ [of 0 "fq_size q" "mb_queue_depth b" "fq_head q"]
      by (simp add: tail_index_def fw_ring_def)
    then have "segment_at (fq_head q) q' = segment_at (fq_head q) q"
      by (simp add: q' segment_at_def append_segment_fields)
    then have "seg_front b seg q0 q'" using front by (auto simp: seg_front_def q' append_segment_fields)
    moreover have "fq_state q' = MS_Armed" by (simp add: q' append_segment_fields)
    ultimately show ?thesis using Inr unfolding q' append_segment_def Let_def by simp
  qed
  then show "seg_front b seg q0 q'" "fq_completed_segments q' = fq_completed_segments q"
    "fq_position_steps q' = fq_position_steps q" "fq_emitted_steps q' = fq_emitted_steps q"
    "fq_active_emitted q' = fq_active_emitted q" "fq_active_phase q' = fq_active_phase q"
    "fq_active_last_tick_ns q' = fq_active_last_tick_ns q" "fq_direction_positive q' = fq_direction_positive q"
    "fq_axis_count q' = fq_axis_count q" "fq_state q' = (case r of Inl e \<Rightarrow> fq_state q | Inr v \<Rightarrow> MS_Armed)"
    by blast+
qed

lemma enqueue_segment:
  assumes "fw_ok b q" "fw_motion_enqueue b req now_ns q = (r, q')"
  shows "seg_armed b seg q0 q \<Longrightarrow> seg_armed b seg q0 q'"
    and "seg_running b seg q0 d q \<Longrightarrow> \<not> arms_again b (MO_Enqueue req now_ns) q \<Longrightarrow> seg_running b seg q0 d q'"
    and "phases_low seg q \<Longrightarrow> seg_front b seg q0 q \<Longrightarrow> phases_low seg q'"
proof -
  note k = enqueue_keeps [OF assms(1) _ assms(2)]
  show "seg_armed b seg q0 q'" if "seg_armed b seg q0 q"
    using that k [of seg q0] by (auto simp: seg_armed_def split: sum.split)
  show "seg_running b seg q0 d q'" if "seg_running b seg q0 d q" "\<not> arms_again b (MO_Enqueue req now_ns) q"
    using that k [of seg q0] assms(2)
    by (auto simp: seg_running_def arms_again_def axis_progress_def split: sum.splits)
  show "phases_low seg q'" if "phases_low seg q" "seg_front b seg q0 q"
    using that k [of seg q0] by (simp add: phases_low_def)
qed

lemma drive_outcome:
  assumes io: "io_set_enable io \<noteq> None" "io_set_direction io \<noteq> None" "io_set_step io \<noteq> None"
    and "fw_ok b q" "fq_completed_segments q = n" "sorted (map unat (ticks_of ops))" "\<not> rearmed b io n ops (q, c)"
    and "seg_armed b seg q0 q \<or> (\<exists>now \<le> hd (ticks_of ops @ [- 1]). seg_running b seg q0 (seg_elapsed seg now) q)"
  shows "run_outcome seg q0 n (ticks_of ops) (fst (drive b io n ops (q, c)))"
  using assms(4-8)
proof (induction ops arbitrary: q c)
  case Nil
  then have "partly_made seg q0 q" using armed_or_running_partly by blast
  moreover have "fq_fault q = MF_None" using Nil by (auto simp: seg_armed_def seg_running_def seg_front_def)
  ultimately show ?case using Nil by (simp add: run_outcome_def)
next
  case (Cons op ops)
  have front: "seg_front b seg q0 q" "\<not> over n q"
    using Cons.prems(2,5) by (auto simp: seg_armed_def seg_running_def seg_front_def)
  obtain q1 c1 where step: "motion_op_run b io op (q, c) = (q1, c1)" by fastforce
  have drive: "drive b io n (op # ops) (q, c) = drive b io n ops (q1, c1)" using front(2) step by simp
  have calm: "\<not> rearmed b io n ops (q1, c1)" "\<not> arms_again b op q" using Cons.prems(4) front(2) step by auto
  show ?case
  proof (cases op)
    case (MO_Enqueue req now_ns)
    obtain r where e: "fw_motion_enqueue b req now_ns q = (r, q1)" using step MO_Enqueue
      by (cases "fw_motion_enqueue b req now_ns q") (auto simp: motion_op_run_def)
    note s = enqueue_segment(1,2) [OF Cons.prems(1) e] and k = enqueue_keeps(2) [OF Cons.prems(1) front(1) e]
    have ticks: "ticks_of (op # ops) = ticks_of ops" by (simp add: MO_Enqueue)
    have "seg_armed b seg q0 q1 \<or> (\<exists>now \<le> hd (ticks_of ops @ [- 1]). seg_running b seg q0 (seg_elapsed seg now) q1)"
      using Cons.prems(5) s calm(2) unfolding MO_Enqueue ticks by auto
    from Cons.IH [OF enqueue_ok [OF Cons.prems(1) e] _ _ calm(1) this] Cons.prems(2,3) k
    show ?thesis unfolding drive ticks by simp
  next
    case (MO_Tick t)
    have tick: "snd (fw_tick b io t (q, c)) = (q1, c1)" using step MO_Tick by (simp add: motion_op_run_def)
    have ticks: "ticks_of (op # ops) = t # ticks_of ops" by (simp add: MO_Tick)
    have mono: "seg_elapsed seg s \<le> seg_elapsed seg t" if "s \<le> t" for s
      using that by (auto simp: seg_elapsed_def word_le_nat_alt)
    have at: "seg_armed b seg q0 q \<or> (\<exists>d \<le> seg_elapsed seg t. seg_running b seg q0 d q)"
      using Cons.prems(5) mono unfolding ticks by auto
    have out: "tick_outcome b seg q0 t q q1" using fw_tick_outcome [OF io at, of c] tick by simp
    show ?thesis
    proof (cases "over n q1")
      case True
      then have "fst (drive b io n ops (q1, c1)) = q1" by (simp add: drive_over)
      then show ?thesis using out True Cons.prems(2) unfolding drive ticks
        by (auto simp: tick_outcome_def run_outcome_def fw_stopped_def seg_armed_def seg_running_def seg_front_def)
    next
      case False
      have "t \<le> hd (ticks_of ops @ [- 1])" using Cons.prems(3) unfolding ticks
        by (cases "ticks_of ops") (simp_all add: word_order.extremum flip: word_le_nat_alt)
      then have now: "seg_armed b seg q0 q1 \<or> (\<exists>now \<le> hd (ticks_of ops @ [- 1]). seg_running b seg q0 (seg_elapsed seg now) q1)"
        using out False Cons.prems(2) by (auto simp: tick_outcome_def fw_stopped_def)
      have "fw_ok b q1" using tick_ok [OF Cons.prems(1), of io t c] tick by simp
      from Cons.IH [OF this _ _ calm(1) now] Cons.prems(3) False
      have "run_outcome seg q0 n (ticks_of ops) (fst (drive b io n ops (q1, c1)))" unfolding ticks by simp
      then show ?thesis unfolding drive ticks by (rule run_outcome_more)
    qed
  qed
qed

lemma drive_completes:
  assumes io: "io_works io"
    and "rate_ok b q seg" "fw_ok b q" "fq_completed_segments q = n"
    and "evenly b last_ns (ticks_of ops)" "\<not> rearmed b io n ops (q, c)"
    and "on_time b seg q0 last_ns q \<and> 2 \<le> ticks_from e (ticks_of ops) \<or>
      at_end b seg q0 q \<and> e \<le> last_ns \<and> 1 \<le> ticks_from e (ticks_of ops)"
    and e: "e = unat (fw_start_time_ns seg) + unat (fw_duration_ns seg)"
  shows "fq_completed_segments (fst (drive b io n ops (q, c))) = n + 1"
  using assms(2-7)
proof (induction ops arbitrary: q c last_ns)
  case Nil
  then show ?case by (simp add: ticks_from_def)
next
  case (Cons op ops)
  have at: "on_time b seg q0 last_ns q \<or> at_end b seg q0 q \<and> e \<le> last_ns" using Cons.prems(6) by blast
  have front: "seg_front b seg q0 q" "\<not> over n q"
    using at Cons.prems(3) by (auto simp: on_time_def at_end_def seg_armed_def seg_running_def seg_front_def)
  obtain q1 c1 where step: "motion_op_run b io op (q, c) = (q1, c1)" by fastforce
  have drive: "drive b io n (op # ops) (q, c) = drive b io n ops (q1, c1)" using front(2) step by simp
  have calm: "\<not> rearmed b io n ops (q1, c1)" "\<not> arms_again b op q" using Cons.prems(5) front(2) step by auto
  have rate1: "rate_ok b q1 seg" if "fq_axis_count q1 = fq_axis_count q"
    using Cons.prems(1) that by (simp add: rate_ok_def)
  show ?case
  proof (cases op)
    case (MO_Enqueue req now_ns)
    obtain r where enq: "fw_motion_enqueue b req now_ns q = (r, q1)" using step MO_Enqueue
      by (cases "fw_motion_enqueue b req now_ns q") (auto simp: motion_op_run_def)
    note s = enqueue_segment [OF Cons.prems(2) enq] and k = enqueue_keeps [OF Cons.prems(2) front(1) enq]
    have "on_time b seg q0 last_ns q \<Longrightarrow> on_time b seg q0 last_ns q1" "at_end b seg q0 q \<Longrightarrow> at_end b seg q0 q1"
      using s calm(2) front(1) unfolding MO_Enqueue on_time_def at_end_def by blast+
    then show ?thesis unfolding drive
      using Cons.IH [OF rate1 [OF k(9)] enqueue_ok [OF Cons.prems(2) enq] _ _ calm(1), of last_ns] Cons.prems(3,4,6) k(2)
      unfolding MO_Enqueue ticks_of.simps by metis
  next
    case (MO_Tick t)
    have tick: "snd (fw_tick b io t (q, c)) = (q1, c1)" using step MO_Tick by (simp add: motion_op_run_def)
    have ticks: "ticks_of (op # ops) = t # ticks_of ops" by (simp add: MO_Tick)
    from works_tick [OF io Cons.prems(1) at [unfolded e], of t c] Cons.prems(3,4) tick
    consider "fq_completed_segments q1 = n + 1"
      | "fq_completed_segments q1 = n" "on_time b seg q0 last_ns q"
        "on_time b seg q0 (unat t) q1 \<and> unat t < e \<or> at_end b seg q0 q1 \<and> e \<le> unat t"
      unfolding e ticks by fastforce
    then show ?thesis
    proof cases
      case 1
      then show ?thesis unfolding drive by (subst drive_over) simp_all
    next
      case 2
      have "2 \<le> ticks_from e (ticks_of (op # ops)) \<or> at_end b seg q0 q \<and> e \<le> last_ns"
        using Cons.prems(6) by blast
      then have many: "2 \<le> ticks_from e (t # ticks_of ops)"
        using 2(2) unfolding ticks by (auto simp: at_end_def on_time_def e seg_running_def seg_armed_def)
      have "fq_axis_count q1 = fq_axis_count q"
        using 2(2,3) by (auto simp: on_time_def at_end_def seg_running_def seg_armed_def seg_front_def)
      note rate = rate1 [OF this]
      have ok: "fw_ok b q1" using tick_ok [OF Cons.prems(2), of io t c] tick by simp
      have "on_time b seg q0 (unat t) q1 \<and> 2 \<le> ticks_from e (ticks_of ops) \<or>
          at_end b seg q0 q1 \<and> e \<le> unat t \<and> 1 \<le> ticks_from e (ticks_of ops)"
        using 2(3) many by (auto simp: ticks_from_def split: if_splits)
      from Cons.IH [OF rate ok 2(1) _ calm(1) this] Cons.prems(4) show ?thesis unfolding drive ticks by simp
    qed
  qed
qed

subsection \<open>The lines of the board\<close>

text \<open>
  The lines of an axis as the board was told: a line is on when the callback was asked to switch it on and
  reported success, until it is asked to switch it off, whatever it reports then (the firmware does not ask
  again); the motor moves by a step at a rising edge of the step line, in the direction last set.
\<close>

record board_axis =
  ba_step :: bool
  ba_enabled :: bool
  ba_positive :: bool
  ba_position :: i64

type_synonym board = "nat \<Rightarrow> board_axis"

definition told_step :: "bool \<Rightarrow> bool \<Rightarrow> board_axis \<Rightarrow> board_axis" where
  "told_step v ok a =
     (if \<not> v then a\<lparr>ba_step := False\<rparr>
      else if ok \<and> \<not> ba_step a
      then a\<lparr>ba_step := True, ba_position := ba_position a + (if ba_positive a then 1 else - 1)\<rparr>
      else a)"

definition told_enable :: "bool \<Rightarrow> bool \<Rightarrow> board_axis \<Rightarrow> board_axis" where
  "told_enable v ok a = (if v \<and> \<not> ok then a else a\<lparr>ba_enabled := v\<rparr>)"

definition told_direction :: "bool \<Rightarrow> bool \<Rightarrow> board_axis \<Rightarrow> board_axis" where
  "told_direction v ok a = (if ok then a\<lparr>ba_positive := v\<rparr> else a)"

text \<open>Callbacks whose calls are recorded; what they return and do to their own context is unchanged.\<close>

definition watch ::
  "(bool \<Rightarrow> bool \<Rightarrow> board_axis \<Rightarrow> board_axis) \<Rightarrow> ('c \<Rightarrow> nat \<Rightarrow> bool \<Rightarrow> bool \<times> 'c) \<Rightarrow>
   'c \<times> board \<Rightarrow> nat \<Rightarrow> bool \<Rightarrow> bool \<times> 'c \<times> board" where
  "watch told f = (\<lambda>(c, w) axis v. let (ok, c') = f c axis v in (ok, c', w(axis := told v ok (w axis))))"

definition watched :: "'c motion_io \<Rightarrow> ('c \<times> board) motion_io" where
  "watched io = \<lparr>io_set_enable = map_option (watch told_enable) (io_set_enable io),
     io_set_direction = map_option (watch told_direction) (io_set_direction io),
     io_set_step = map_option (watch told_step) (io_set_step io),
     io_limit_active = map_option (\<lambda>f (c, w) axis v. let (ok, active, c') = f c axis v in (ok, active, c', w))
       (io_limit_active io)\<rparr>"

definition all_present :: "'c motion_io \<Rightarrow> bool" where
  "all_present io \<longleftrightarrow> io_set_enable io \<noteq> None \<and> io_set_direction io \<noteq> None \<and> io_set_step io \<noteq> None"

lemma watched_fields [simp]:
  "io_set_enable (watched io) = None \<longleftrightarrow> io_set_enable io = None"
  "io_set_direction (watched io) = None \<longleftrightarrow> io_set_direction io = None"
  "io_set_step (watched io) = None \<longleftrightarrow> io_set_step io = None"
  by (simp_all add: watched_def)

lemma call_watched:
  assumes "all_present io"
  shows "call_io (io_set_step (watched io)) axis v (c, w) =
      (let (ok, c') = call_io (io_set_step io) axis v c in (ok, c', w(axis := told_step v ok (w axis))))"
    and "call_io (io_set_enable (watched io)) axis v (c, w) =
      (let (ok, c') = call_io (io_set_enable io) axis v c in (ok, c', w(axis := told_enable v ok (w axis))))"
    and "call_io (io_set_direction (watched io)) axis v (c, w) =
      (let (ok, c') = call_io (io_set_direction io) axis v c in (ok, c', w(axis := told_direction v ok (w axis))))"
  using assms by (auto simp: watched_def watch_def call_io_def all_present_def)

text \<open>
  The queue's flags mirror the lines of its \<open>m\<close> axes. While an operation is giving up, a line that the board was told to
  switch off may still be on for the queue, never the other way round.
\<close>

definition nothing_hidden :: "nat \<Rightarrow> fw_motion \<Rightarrow> board \<Rightarrow> bool" where
  "nothing_hidden m q w \<longleftrightarrow> fq_axis_count q = m \<and> (\<forall>axis < fq_axis_count q.
     (ba_step (w axis) \<longrightarrow> fq_step_high q ! axis) \<and> (ba_enabled (w axis) \<longrightarrow> fq_enabled q ! axis) \<and>
     ba_positive (w axis) = fq_direction_positive q ! axis \<and> ba_position (w axis) = fq_position_steps q ! axis)"

definition mirrors :: "nat \<Rightarrow> fw_motion \<Rightarrow> board \<Rightarrow> bool" where
  "mirrors m q w \<longleftrightarrow> nothing_hidden m q w \<and> (\<forall>axis < fq_axis_count q.
     (fq_step_high q ! axis \<longrightarrow> ba_step (w axis)) \<and> (fq_enabled q ! axis \<longrightarrow> ba_enabled (w axis)))"

definition shows_axis :: "fw_motion \<Rightarrow> nat \<Rightarrow> board_axis \<Rightarrow> bool" where
  "shows_axis q axis a \<longleftrightarrow> ba_step a = fq_step_high q ! axis \<and> ba_enabled a = fq_enabled q ! axis \<and>
     ba_positive a = fq_direction_positive q ! axis \<and> ba_position a = fq_position_steps q ! axis"

lemma mirrors_iff: "mirrors m q w \<longleftrightarrow> fq_axis_count q = m \<and> (\<forall>axis < fq_axis_count q. shows_axis q axis (w axis))"
  by (auto simp: mirrors_def nothing_hidden_def shows_axis_def)

lemma mirrors_update:
  assumes "mirrors m q w" "fq_axis_count q' = fq_axis_count q"
    and "\<And>i a. i \<noteq> axis \<Longrightarrow> shows_axis q' i a = shows_axis q i a" "shows_axis q' axis a"
  shows "mirrors m q' (w(axis := a))"
  using assms by (simp add: mirrors_iff)

lemma stop_axis_told:
  assumes io: "all_present io" and shape: "fw_shape b q" "axis < fq_axis_count q" and w: "nothing_hidden m q w"
    and run: "stop_axis (watched io) axis (q, c, w) = (q', c', w')"
  shows "nothing_hidden m q' w'" "fq_axis_count q' = fq_axis_count q" "fw_shape b q'"
    "\<not> ba_step (w' axis) \<and> \<not> ba_enabled (w' axis)" "\<And>i. i \<noteq> axis \<Longrightarrow> w' i = w i"
proof -
  have len: "axis < length (fq_step_high q)" "axis < length (fq_enabled q)"
    using shape by (simp_all add: fw_shape_def)
  obtain ok1 c1 where s: "call_io (io_set_step io) axis False c = (ok1, c1)" by fastforce
  obtain ok2 c2 where e1: "call_io (io_set_enable io) axis False c1 = (ok2, c2)" by fastforce
  obtain ok3 c3 where e: "call_io (io_set_enable io) axis False c = (ok3, c3)" by fastforce
  note defs = stop_axis_def set_step_low_def call_watched [OF io] s e1 e told_step_def told_enable_def
  have off: "fq_step_high q ! axis \<or> \<not> ba_step (w axis)" "fq_enabled q ! axis \<or> \<not> ba_enabled (w axis)"
    using w shape(2) by (auto simp: nothing_hidden_def)
  have q': "q' = (if fq_enabled q ! axis then (if fq_step_high q ! axis then set_step_low axis q else q)
        \<lparr>fq_enabled := (fq_enabled q)[axis := False]\<rparr> else if fq_step_high q ! axis then set_step_low axis q else q)"
    and w': "w' = w(axis := (w axis)\<lparr>ba_step := False, ba_enabled := False\<rparr>)"
    using run off by (auto simp: defs split: if_splits)
  show "fq_axis_count q' = fq_axis_count q" "fw_shape b q'"
    using shape by (simp_all add: q' set_step_low_def fw_shape_def)
  show "\<not> ba_step (w' axis) \<and> \<not> ba_enabled (w' axis)" "\<And>i. i \<noteq> axis \<Longrightarrow> w' i = w i"
    by (simp_all add: w')
  show "nothing_hidden m q' w'" using w len
    by (simp add: nothing_hidden_def q' w' set_step_low_def nth_list_update)
qed

lemma stop_axes_told:
  assumes "all_present io" "fw_shape b q" "\<forall>axis \<in> set axes. axis < fq_axis_count q" "nothing_hidden m q w"
    and "fold (stop_axis (watched io)) axes (q, c, w) = (q', c', w')"
  shows "nothing_hidden m q' w' \<and> fq_axis_count q' = fq_axis_count q \<and>
    (\<forall>axis. axis \<in> set axes \<or> \<not> ba_step (w axis) \<and> \<not> ba_enabled (w axis) \<longrightarrow>
       \<not> ba_step (w' axis) \<and> \<not> ba_enabled (w' axis))"
  using assms(2-5)
proof (induction axes arbitrary: q c w)
  case Nil
  then show ?case by simp
next
  case (Cons axis axes)
  obtain q1 c1 w1 where s: "stop_axis (watched io) axis (q, c, w) = (q1, c1, w1)" by (metis prod_cases3)
  have "axis < fq_axis_count q" using Cons.prems(2) by simp
  note f = stop_axis_told [OF assms(1) Cons.prems(1) this Cons.prems(3) s]
  have "\<forall>axis \<in> set axes. axis < fq_axis_count q1" using Cons.prems(2) f(2) by simp
  from Cons.IH [OF f(3) this f(1)] Cons.prems(4) s f(2,4,5)
  show ?case by (metis (no_types, lifting) fold_simps(2) set_ConsD)
qed

lemma stop_outputs_told:
  assumes "all_present io" "fw_shape b q" "nothing_hidden m q w"
    and "stop_outputs (watched io) (q, c, w) = (q', c', w')"
  shows "mirrors m q' w'" "\<And>axis. axis < fq_axis_count q \<Longrightarrow> \<not> ba_step (w' axis) \<and> \<not> ba_enabled (w' axis)"
proof -
  have "fold (stop_axis (watched io)) [0..<fq_axis_count q] (q, c, w) = (q', c', w')"
    using assms(4) by (simp add: stop_outputs_def)
  note f = stop_axes_told [OF assms(1,2) _ assms(3) this]
  show off: "\<not> ba_step (w' axis) \<and> \<not> ba_enabled (w' axis)" if "axis < fq_axis_count q" for axis
    using f that by simp
  have "outputs_off q'" using stop_outputs_facts(3) [OF assms(4,2)] .
  then show "mirrors m q' w'" using f off by (simp add: mirrors_def outputs_off_def)
qed

subsection \<open>A tick keeps the flags and the lines together\<close>

definition shown :: "nat \<Rightarrow> ('c \<times> board) loop_exit \<Rightarrow> bool" where
  "shown m r \<longleftrightarrow> (case r of Inl (res, q, c, w) \<Rightarrow> mirrors m q w | Inr (q, c, w) \<Rightarrow> mirrors m q w)"

abbreviation run_shown :: "nat \<Rightarrow> fw_motion \<times> 'c \<times> board \<Rightarrow> bool" where
  "run_shown m \<equiv> \<lambda>(q, c, w). mirrors m q w"

lemma stop_shown:
  assumes "all_present io" "fw_shape b q" "nothing_hidden m q w"
  shows "run_shown m (stop_outputs (watched io) (q, c, w))"
  using stop_outputs_told(1) [OF assms] by (metis (mono_tags, lifting) case_prodI2)

lemma stop_with_shown:
  assumes "all_present io" "fw_shape b q" "nothing_hidden m q w"
  shows "run_shown m (stop_with b (watched io) fault (q, c, w))"
proof -
  have "fw_shape b (fw_motion_abort b fault q)" "nothing_hidden m (fw_motion_abort b fault q) w"
    using assms(2,3) by (simp_all add: fw_motion_abort_def fw_shape_def nothing_hidden_def Let_def)
  from stop_shown [OF assms(1) this] show ?thesis by (simp add: stop_with_def)
qed

lemma mirrors_hidden: "mirrors m q w \<Longrightarrow> nothing_hidden m q w"
  by (simp add: mirrors_def)

lemma shown_stop:
  assumes "all_present io" "fw_shape b q" "nothing_hidden m q w"
  shows "shown m (Inl (res, stop_with b (watched io) fault (q, c, w)))"
  using stop_with_shown [OF assms, of fault c] by (auto simp: shown_def split: prod.splits)

lemma limit_shown:
  assumes "all_present io" "fw_shape b q" "mirrors m q w"
  shows "shown m (limit_loop b (watched io) axes (q, c, w))"
proof (induction axes arbitrary: c)
  case Nil
  then show ?case using assms(3) by (simp add: shown_def)
next
  case (Cons axis axes)
  note stop = shown_stop [OF assms(1,2) mirrors_hidden [OF assms(3)]]
  show ?case
  proof (cases "io_limit_active io")
    case None
    then show ?thesis using assms(3) by (simp add: watched_def shown_def)
  next
    case (Some f)
    obtain ok active c1 where f: "f c axis False = (ok, active, c1)" by (metis prod_cases3)
    then have "limit_loop b (watched io) (axis # axes) (q, c, w) =
        (if \<not> ok then Inl (False, stop_with b (watched io) MF_Aborted (q, c1, w))
         else if active \<and> fq_state q = MS_Running
         then Inl (True, stop_with b (watched io) MF_LimitTriggered (q, c1, w))
         else limit_loop b (watched io) axes (q, c1, w))"
      using Some by (cases ok) (simp_all add: watched_def)
    then show ?thesis using stop Cons.IH by simp
  qed
qed

lemma direction_shown:
  assumes "all_present io" "fw_shape b q" "mirrors m q w" "\<forall>axis \<in> set axes. axis < fq_axis_count q"
  shows "shown m (direction_loop b (watched io) seg axes (q, c, w))"
  using assms(2-4)
proof (induction axes arbitrary: q c w)
  case Nil
  then show ?case by (simp add: shown_def)
next
  case (Cons axis axes)
  let ?pos = "0 \<le> sint (fw_steps seg ! axis)"
  obtain ok c1 where call: "call_io (io_set_direction io) axis ?pos c = (ok, c1)" by fastforce
  show ?case
  proof (cases ok)
    case False
    then show ?thesis
      using shown_stop [OF assms(1) Cons.prems(1) mirrors_hidden [OF Cons.prems(2)]] call
      by (simp add: call_watched(3) [OF assms(1)] told_direction_def)
  next
    case True
    define q1 where "q1 = q\<lparr>fq_direction_positive := (fq_direction_positive q)[axis := ?pos]\<rparr>"
    define w1 where "w1 = w(axis := (w axis)\<lparr>ba_positive := ?pos\<rparr>)"
    have "direction_loop b (watched io) seg (axis # axes) (q, c, w) = direction_loop b (watched io) seg axes (q1, c1, w1)"
      using call True by (simp add: call_watched(3) [OF assms(1)] told_direction_def q1_def w1_def Let_def)
    moreover have "fw_shape b q1" "\<forall>axis \<in> set axes. axis < fq_axis_count q1"
      using Cons.prems(1,3) by (simp_all add: q1_def fw_shape_def)
    moreover have "axis < length (fq_direction_positive q)" "axis < fq_axis_count q"
      using Cons.prems(1,3) by (simp_all add: fw_shape_def)
    then have "mirrors m q1 w1" using Cons.prems(2) unfolding w1_def
      by (intro mirrors_update [OF Cons.prems(2)]) (simp_all add: shows_axis_def mirrors_iff q1_def)
    ultimately show ?thesis using Cons.IH by simp
  qed
qed

lemma enable_shown:
  assumes "all_present io" "fw_shape b q" "mirrors m q w" "\<forall>axis \<in> set axes. axis < fq_axis_count q"
  shows "shown m (enable_loop b (watched io) seg axes (q, c, w))"
  using assms(2-4)
proof (induction axes arbitrary: q c w)
  case Nil
  then show ?case by (simp add: shown_def)
next
  case (Cons axis axes)
  let ?on = "fw_steps seg ! axis \<noteq> 0"
  obtain ok c1 where call: "call_io (io_set_enable io) axis ?on c = (ok, c1)" by fastforce
  have axis: "axis < length (fq_enabled q)" "axis < fq_axis_count q" using Cons.prems(1,3) by (simp_all add: fw_shape_def)
  show ?case
  proof (cases "fq_enabled q ! axis = ?on")
    case True
    then show ?thesis using Cons by simp
  next
    case change: False
    show ?thesis
    proof (cases ok)
      case False
      have "nothing_hidden m q (w(axis := told_enable ?on False (w axis)))"
        using mirrors_hidden [OF Cons.prems(2)] by (simp add: nothing_hidden_def told_enable_def)
      note shown_stop [OF assms(1) Cons.prems(1) this]
      then show ?thesis
        using call False change by (simp add: call_watched(2) [OF assms(1)] Let_def)
    next
      case True
      define q1 where "q1 = q\<lparr>fq_enabled := (fq_enabled q)[axis := ?on]\<rparr>"
      define w1 where "w1 = w(axis := (w axis)\<lparr>ba_enabled := ?on\<rparr>)"
      have "enable_loop b (watched io) seg (axis # axes) (q, c, w) = enable_loop b (watched io) seg axes (q1, c1, w1)"
        using call True change by (simp add: call_watched(2) [OF assms(1)] told_enable_def q1_def w1_def Let_def)
      moreover have "fw_shape b q1" "\<forall>axis \<in> set axes. axis < fq_axis_count q1"
        using Cons.prems(1,3) by (simp_all add: q1_def fw_shape_def)
      moreover have "mirrors m q1 w1" using Cons.prems(2) axis unfolding w1_def
        by (intro mirrors_update [OF Cons.prems(2)]) (simp_all add: shows_axis_def mirrors_iff q1_def)
      ultimately show ?thesis using Cons.IH by simp
    qed
  qed
qed

lemma lower_shown:
  assumes "all_present io" "fw_shape b q" "mirrors m q w" "axis < fq_axis_count q"
  shows "shown m (lower_step b (watched io) axis (q, c, w))"
proof -
  obtain ok c1 where call: "call_io (io_set_step io) axis False c = (ok, c1)" by fastforce
  define w1 where "w1 = w(axis := (w axis)\<lparr>ba_step := False\<rparr>)"
  have "axis < length (fq_step_high q)" using assms(2,4) by (simp add: fw_shape_def)
  then have low: "mirrors m (set_step_low axis q) w1" using assms(3,4) unfolding w1_def
    by (intro mirrors_update [OF assms(3)]) (simp_all add: shows_axis_def mirrors_iff set_step_low_def)
  have "nothing_hidden m q w1" using mirrors_hidden [OF assms(3)] by (simp add: nothing_hidden_def w1_def)
  note stop = shown_stop [OF assms(1,2) this]
  have "lower_step b (watched io) axis (q, c, w) =
      (if fq_step_high q ! axis
       then if ok then Inr (set_step_low axis q, c1, w1) else Inl (False, stop_with b (watched io) MF_Aborted (q, c1, w1))
       else Inr (q, c, w))"
    using call by (simp add: lower_step_def call_watched(1) [OF assms(1)] told_step_def w1_def)
  then show ?thesis using stop low assms(3) by (simp add: shown_def [of m "Inr _"])
qed

lemma raise_shown:
  assumes "all_present io" "fw_shape b q" "mirrors m q w" "axis < fq_axis_count q" "\<not> fq_step_high q ! axis"
  shows "shown m (raise_step b (watched io) steps duration_ns axis (q, c, w))"
proof -
  obtain ok c1 where call: "call_io (io_set_step io) axis True c = (ok, c1)" by fastforce
  define q1 where "q1 = q\<lparr>fq_active_phase := (fq_active_phase q)[axis := fq_active_phase q ! axis - duration_ns]\<rparr>"
  define w1 where "w1 = w(axis := (w axis)\<lparr>ba_step := True,
      ba_position := ba_position (w axis) + (if ba_positive (w axis) then 1 else - 1)\<rparr>)"
  have q1: "mirrors m q1 w" "fw_shape b q1" using assms(2,3) by (simp_all add: q1_def mirrors_def nothing_hidden_def fw_shape_def)
  have off: "\<not> ba_step (w axis)" using assms(3-5) by (auto simp: mirrors_def nothing_hidden_def)
  have "axis < length (fq_step_high q)" "axis < length (fq_position_steps q)" using assms(2,4) by (simp_all add: fw_shape_def)
  then have "mirrors m (count_pulse axis q1) w1" using assms(3,4) unfolding w1_def
    by (intro mirrors_update [OF assms(3)]) (simp_all add: shows_axis_def mirrors_iff count_pulse_def q1_def)
  moreover have "raise_step b (watched io) steps duration_ns axis (q, c, w) =
      (if fq_active_emitted q ! axis < steps \<and> fq_active_phase q ! axis \<ge> duration_ns
       then if ok then Inr (count_pulse axis q1, c1, w1) else Inl (False, stop_with b (watched io) MF_Aborted (q1, c1, w))
       else Inr (q, c, w))"
    using call off by (simp add: raise_step_def call_watched(1) [OF assms(1)] told_step_def w1_def q1_def)
  ultimately show ?thesis using shown_stop [OF assms(1) q1(2) mirrors_hidden [OF q1(1)]] assms(3)
    by (simp add: shown_def [of m "Inr _"])
qed

lemma emit_axis_shown:
  assumes io: "all_present io" and q: "fw_shape b q" "mirrors m q w" "axis < fq_axis_count q"
  shows "shown m (emit_axis b (watched io) seg delta axis (q, c, w))"
proof (cases "lower_step b (watched io) axis (q, c, w)")
  case (Inl e)
  then show ?thesis using lower_shown [OF io q, of c] by (simp add: emit_axis_def chain_exit_def)
next
  case (Inr run1)
  obtain q1 c1 w1 where run1: "run1 = (q1, c1, w1)" by (metis prod_cases3)
  have "axis < mb_max_axes b" using q(1,3) by (simp add: fw_shape_def)
  note l = lower_step_facts [OF refl q(1) this, of "watched io" "(c, w)", unfolded Inr run1, simplified]
  have q1: "fw_shape b q1" "mirrors m q1 w1" "axis < fq_axis_count q1" "\<not> fq_step_high q1 ! axis"
    using l lower_shown [OF io q, of c] Inr run1 q(3) fw_restD(1) [of q1 q] by (auto simp: shown_def)
  let ?T = "step_count (fw_steps seg ! axis)"
  define q2 where "q2 = q1\<lparr>fq_active_phase := (fq_active_phase q1)[axis := fq_active_phase q1 ! axis + ?T * delta]\<rparr>"
  have q2: "fw_shape b q2" "mirrors m q2 w1" "axis < fq_axis_count q2" "\<not> fq_step_high q2 ! axis"
    using q1 by (simp_all add: q2_def fw_shape_def mirrors_def nothing_hidden_def)
  have "advance_phase b (watched io) ?T delta axis (q1, c1, w1) \<in>
      {Inr (q1, c1, w1), Inr (q2, c1, w1), Inl (False, stop_with b (watched io) MF_QueueUnderrun (q1, c1, w1))}"
    by (simp add: advance_phase_def Let_def q2_def)
  then show ?thesis
    using raise_shown [OF io q1] raise_shown [OF io q2] shown_stop [OF io q1(1) mirrors_hidden [OF q1(2)]]
    unfolding emit_axis_def Let_def Inr run1 by (auto simp: chain_exit_def)
qed

lemma emit_loop_shown:
  assumes "all_present io" "fw_shape b q" "mirrors m q w" "\<forall>axis \<in> set axes. axis < fq_axis_count q"
  shows "shown m (emit_loop b (watched io) seg delta axes (q, c, w))"
  using assms(2-4)
proof (induction axes arbitrary: q c w)
  case Nil
  then show ?case by (simp add: shown_def)
next
  case (Cons axis axes)
  have axis: "axis < fq_axis_count q" "axis < mb_max_axes b" using Cons.prems(1,3) by (simp_all add: fw_shape_def)
  note one = emit_axis_shown [OF assms(1) Cons.prems(1,2) axis(1), of seg delta c]
  note kept = emit_axis_kept [OF Cons.prems(1) axis(2), of "watched io" seg delta "(c, w)"]
  show ?case
  proof (cases "emit_axis b (watched io) seg delta axis (q, c, w)")
    case (Inl e)
    then show ?thesis using one by (simp add: chain_exit_def)
  next
    case (Inr run1)
    obtain q1 c1 w1 where run1: "run1 = (q1, c1, w1)" by (metis prod_cases3)
    have "fw_shape b q1" "fq_axis_count q1 = fq_axis_count q" "mirrors m q1 w1"
      using one kept fw_restD(1) [of q1 q] by (simp_all add: Inr run1 shown_def stage_kept_def)
    then show ?thesis using Cons.IH [of q1 w1 c1] Cons.prems(3) by (simp add: Inr run1 chain_exit_def)
  qed
qed

lemma chain_shown:
  assumes "shown m r" "stage_kept b q r"
    and "\<And>q1 c1 w1. fw_shape b q1 \<Longrightarrow> fw_rest q1 = fw_rest q \<Longrightarrow> mirrors m q1 w1 \<Longrightarrow> shown m (f (q1, c1, w1))"
  shows "shown m (chain_exit r f)"
proof (cases r)
  case (Inl e)
  then show ?thesis using assms(1) by (simp add: chain_exit_def)
next
  case (Inr run)
  obtain q1 c1 w1 where run: "run = (q1, c1, w1)" by (metis prod_cases3)
  have "fw_shape b q1" "fw_rest q1 = fw_rest q" "mirrors m q1 w1"
    using assms(1,2) by (simp_all add: Inr run shown_def stage_kept_def)
  from assms(3) [OF this] show ?thesis by (simp add: Inr run chain_exit_def)
qed

lemma begin_shown:
  assumes io: "all_present io" and q: "fw_shape b q" "mirrors m q w"
  shows "shown m (begin_segment b (watched io) seg (q, c, w))"
    "case begin_segment b (watched io) seg (q, c, w) of Inl e \<Rightarrow> True
     | Inr run \<Rightarrow> fw_shape b (fst run) \<and> fq_axis_count (fst run) = fq_axis_count q"
proof -
  define q1 where "q1 = q\<lparr>fq_active_emitted := replicate (mb_max_axes b) 0,
    fq_active_phase := replicate (mb_max_axes b) 0, fq_active_last_tick_ns := fw_start_time_ns seg\<rparr>"
  let ?axes = "[0..<fq_axis_count q]"
  have q1: "fw_shape b q1" "mirrors m q1 w" "\<forall>axis \<in> set ?axes. axis < fq_axis_count q1"
      "\<forall>axis \<in> set ?axes. axis < mb_max_axes b" "fq_axis_count q1 = fq_axis_count q"
    using q by (simp_all add: q1_def fw_shape_def mirrors_iff shows_axis_def)
  let ?d = "direction_loop b (watched io) seg ?axes (q1, c, w)"
  have dir: "stage_kept b q1 ?d"
    using direction_loop_facts [OF q1(1,4), where io = "watched io" and seg = seg and c = "(c, w)"]
    by (auto simp: stage_kept_def same_pulses_def split: sum.splits)
  have en: "stage_kept b q2 (enable_loop b (watched io) seg ?axes (q2, c2))" if "fw_shape b q2" for q2 c2
    using enable_loop_facts [OF that, where io = "watched io" and seg = seg and axes = ?axes and c = c2]
    by (auto simp: stage_kept_def same_pulses_def split: sum.splits)
  have both: "stage_kept b q1 (chain_exit ?d (enable_loop b (watched io) seg ?axes))"
    using dir en by (rule stage_chain)
  have shown: "shown m (chain_exit ?d (enable_loop b (watched io) seg ?axes))"
  proof (rule chain_shown [OF direction_shown [OF io q1(1,2,3)] dir])
    fix q2 c2 w2 assume "fw_shape b q2" "fw_rest q2 = fw_rest q1" "mirrors m q2 w2"
    then show "shown m (enable_loop b (watched io) seg ?axes (q2, c2, w2))"
      using q1(3) fw_restD(1) [of q2 q1] by (intro enable_shown [OF io]) simp_all
  qed
  have result: "begin_segment b (watched io) seg (q, c, w) =
      chain_exit (chain_exit ?d (enable_loop b (watched io) seg ?axes)) (\<lambda>(q2, c2). Inr (q2\<lparr>fq_state := MS_Running\<rparr>, c2))"
    by (simp add: begin_segment_def chain_exit_def q1_def split: sum.split)
  show "shown m (begin_segment b (watched io) seg (q, c, w))"
    unfolding result by (rule chain_shown [OF shown both]) (simp add: shown_def mirrors_iff shows_axis_def)
  show "case begin_segment b (watched io) seg (q, c, w) of Inl e \<Rightarrow> True
     | Inr run \<Rightarrow> fw_shape b (fst run) \<and> fq_axis_count (fst run) = fq_axis_count q"
  proof (cases "chain_exit ?d (enable_loop b (watched io) seg ?axes)")
    case (Inl e)
    then show ?thesis unfolding result by (simp add: chain_exit_def)
  next
    case (Inr run)
    obtain q2 c2 where run: "run = (q2, c2)" by (cases run)
    have "fw_shape b q2" "fq_axis_count q2 = fq_axis_count q"
      using both q1(5) fw_restD(1) [of q2 q1] unfolding Inr run by (simp_all add: stage_kept_def)
    then show ?thesis unfolding result Inr run by (simp add: chain_exit_def fw_shape_def)
  qed
qed

lemma finish_shown:
  assumes io: "all_present io" and q: "fw_shape b q" "mirrors m q w"
  shows "run_shown m (snd (finish_tick b (watched io) seg elapsed (q, c, w)))"
proof -
  define q1 where "q1 = snd (fw_complete_front b q)"
  define q2 where "q2 = (fw_motion_abort b MF_QueueUnderrun q)
    \<lparr>fq_queue_underruns := fq_queue_underruns (fw_motion_abort b MF_QueueUnderrun q) + 1\<rparr>"
  have m: "mirrors m q1 w" "fw_shape b q1" "mirrors m q2 w" "fw_shape b q2"
    using q by (simp_all add: q1_def q2_def fw_complete_front_def fw_motion_abort_def mirrors_iff shows_axis_def
        fw_shape_def Let_def)
  have "snd (finish_tick b (watched io) seg elapsed (q, c, w)) \<in>
      {(q, c, w), (q1, c, w), stop_outputs (watched io) (q1, c, w), stop_outputs (watched io) (q2, c, w)}"
    by (simp add: finish_tick_def q1_def q2_def Let_def split: prod.split bool.split)
  then show ?thesis
    using q m stop_shown [OF io m(2) mirrors_hidden [OF m(1)], of c] stop_shown [OF io m(4) mirrors_hidden [OF m(3)], of c]
    by auto
qed

lemma run_segment_shown:
  assumes io: "all_present io" and q: "fw_shape b q" "mirrors m q w"
  shows "run_shown m (snd (run_segment b (watched io) seg now_ns (q, c, w)))"
proof -
  define q1 where "q1 = q\<lparr>fq_active_last_tick_ns := tick_time seg now_ns\<rparr>"
  let ?axes = "[0..<fq_axis_count q]"
  let ?loop = "emit_loop b (watched io) seg (tick_delta seg now_ns q) ?axes (q1, c, w)"
  have q1: "fw_shape b q1" "mirrors m q1 w" "\<forall>axis \<in> set ?axes. axis < fq_axis_count q1"
      "\<forall>axis \<in> set ?axes. axis < mb_max_axes b"
    using q by (simp_all add: q1_def fw_shape_def mirrors_iff shows_axis_def)
  note shown = emit_loop_shown [OF io q1(1,2,3), of seg "tick_delta seg now_ns q" c]
    and kept = emit_loop_kept [OF q1(1,4), of "watched io" seg "tick_delta seg now_ns q" "(c, w)"]
  show ?thesis
  proof (cases ?loop)
    case (Inl e)
    then show ?thesis using shown by (simp add: run_segment_def shown_def split_beta flip: q1_def)
  next
    case (Inr run)
    obtain q2 c2 w2 where run: "run = (q2, c2, w2)" by (metis prod_cases3)
    have "fw_shape b q2" "mirrors m q2 w2" using shown kept by (simp_all add: Inr run shown_def stage_kept_def)
    from finish_shown [OF io this] show ?thesis by (simp add: run_segment_def Inr run flip: q1_def)
  qed
qed

lemma tick_shown:
  assumes q: "fw_shape b q" "mirrors m q w"
  shows "run_shown m (snd (fw_tick b (watched io) now_ns (q, c, w)))"
proof (cases "all_present io")
  case False
  then show ?thesis using q(2) by (auto simp: fw_tick_def all_present_def)
next
  case io: True
  have present: "(io_set_enable (watched io) = None \<or> io_set_direction (watched io) = None \<or>
      io_set_step (watched io) = None) = False" using io by (simp add: all_present_def)
  have stop: "run_shown m (stop_outputs (watched io) (q, c1, w))" for c1
    by (rule stop_shown [OF io q(1) mirrors_hidden [OF q(2)]])
  let ?axes = "[0..<fq_axis_count q]"
  let ?limits = "limit_loop b (watched io) ?axes (q, c, w)"
  note lim = limit_shown [OF io q, of ?axes c]
    limit_loop_facts [OF q(1), where io = "watched io" and axes = ?axes and c = "(c, w)"]
  show ?thesis
  proof (cases ?limits)
    case (Inl e)
    then show ?thesis using lim(1) stop unfolding fw_tick_def present if_False by (simp add: shown_def split_beta)
  next
    case (Inr run1)
    obtain c1 w1 where run1: "run1 = (q, c1, w1)" using lim(2) Inr by (cases run1) auto
    then have w1: "mirrors m q w1" using lim(1) Inr by (simp add: shown_def)
    have begun: "run_shown m (snd (case begin_segment b (watched io) seg (q, c1, w1) of
        Inl exit \<Rightarrow> exit | Inr run2 \<Rightarrow> run_segment b (watched io) seg now_ns run2))" for seg
    proof (cases "begin_segment b (watched io) seg (q, c1, w1)")
      case (Inl e)
      then show ?thesis using begin_shown(1) [OF io q(1) w1, of seg c1] by (simp add: shown_def split_beta)
    next
      case (Inr run2)
      obtain q2 c2 w2 where run2: "run2 = (q2, c2, w2)" by (metis prod_cases3)
      have "fw_shape b q2" "mirrors m q2 w2"
        using begin_shown [OF io q(1) w1, of seg c1] by (simp_all add: Inr run2 shown_def)
      from run_segment_shown [OF io this] show ?thesis by (simp add: Inr run2)
    qed
    show ?thesis unfolding fw_tick_def present if_False
      using Inr run1 stop stop_shown [OF io q(1) mirrors_hidden [OF w1]] begun run_segment_shown [OF io q(1) w1] w1
      by (auto split: option.split)
  qed
qed

subsection \<open>A life of the queue on a board\<close>

text \<open>
  As \<open>fw_reachable\<close>, from the lines of a board that was told nothing yet; the world behind the callbacks
  changes as it likes, the lines only by the calls.
\<close>

definition untouched_axis :: board_axis where
  "untouched_axis = \<lparr>ba_step = False, ba_enabled = False, ba_positive = False, ba_position = 0\<rparr>"

inductive fw_watched :: "motion_build \<Rightarrow> 'c motion_io \<Rightarrow> fw_motion \<Rightarrow> 'c \<Rightarrow> board \<Rightarrow> bool" for b io where
  watched_init: "fw_motion_init b axis_count junk = (True, q) \<Longrightarrow> fw_watched b io q c (\<lambda>axis. untouched_axis)"
| watched_world: "fw_watched b io q c w \<Longrightarrow> fw_watched b io q c' w"
| watched_enqueue: "fw_watched b io q c w \<Longrightarrow> fw_motion_enqueue b req now_ns q = (r, q') \<Longrightarrow> fw_watched b io q' c w"
| watched_complete: "fw_watched b io q c w \<Longrightarrow> fw_complete_front b q = (r, q') \<Longrightarrow> fw_watched b io q' c w"
| watched_abort: "fw_watched b io q c w \<Longrightarrow> fw_watched b io (fw_motion_abort b fault q) c w"
| watched_clear: "fw_watched b io q c w \<Longrightarrow> fw_clear_fault now_ns q = (r, q') \<Longrightarrow> fw_watched b io q' c w"
| watched_tick: "fw_watched b io q c w \<Longrightarrow> fw_tick b (watched io) now_ns (q, c, w) = (r, q', c', w') \<Longrightarrow>
    fw_watched b io q' c' w'"

lemma enqueue_mirrors: "fw_motion_enqueue b req now_ns q = (r, q') \<Longrightarrow> mirrors m q' w = mirrors m q w"
  by (auto simp: fw_motion_enqueue_def append_segment_def reject_segment_def mirrors_iff shows_axis_def Let_def
      split: if_splits)

lemma fw_watched_mirrors: "fw_watched b io q c w \<Longrightarrow> fw_reachable b (watched io) q (c, w) \<and> (\<exists>m. mirrors m q w)"
proof (induction rule: fw_watched.induct)
  case (watched_init axis_count junk q c)
  then have "mirrors axis_count q (\<lambda>axis. untouched_axis)"
    by (auto simp: fw_motion_init_def zero_motion_def mirrors_iff shows_axis_def untouched_axis_def split: if_splits)
  with watched_init show ?case by (blast intro: fw_init)
next
  case (watched_world q c w c')
  then show ?case by (blast intro: fw_world)
next
  case (watched_enqueue q c w req now_ns r q')
  then show ?case using enqueue_mirrors by (blast intro: fw_enqueue)
next
  case (watched_complete q c w r q')
  have "mirrors m q' w = mirrors m q w" for m
    using watched_complete(2) by (auto simp: fw_complete_front_def mirrors_iff shows_axis_def Let_def split: if_splits)
  with watched_complete show ?case by (blast intro: fw_complete)
next
  case (watched_abort q c w fault)
  have "mirrors m (fw_motion_abort b fault q) w = mirrors m q w" for m
    by (simp add: fw_motion_abort_def mirrors_iff shows_axis_def Let_def)
  with watched_abort show ?case by (blast intro: fw_abort)
next
  case (watched_clear q c w now_ns r q')
  have "mirrors m q' w = mirrors m q w" for m
    using watched_clear(2) by (auto simp: fw_clear_fault_def mirrors_iff shows_axis_def split: if_splits)
  with watched_clear show ?case by (blast intro: fw_clear)
next
  case (watched_tick q c w now_ns r q' c' w')
  then have "fw_shape b q" using fw_reachable_ok [of b "watched io" q "(c, w)"] by (simp add: fw_ok_def)
  obtain m where "mirrors m q w" using watched_tick.IH by blast
  from tick_shown [OF \<open>fw_shape b q\<close> this, of io now_ns c] watched_tick show ?case by (auto intro: fw_tick)
qed

lemma drive_mirrors:
  "fw_ok b q \<Longrightarrow> mirrors m q w \<Longrightarrow> drive b (watched io) n ops (q, c, w) = (q', c', w') \<Longrightarrow>
   mirrors m q' w' \<and> fw_ok b q'"
proof (induction ops arbitrary: q c w)
  case Nil
  then show ?case by simp
next
  case (Cons op ops)
  obtain q1 c1 w1 where step: "motion_op_run b (watched io) op (q, c, w) = (q1, c1, w1)" by (metis prod_cases3)
  have "mirrors m q1 w1 \<and> fw_ok b q1"
  proof (cases op)
    case (MO_Tick t)
    have "fw_shape b q" using Cons.prems(1) by (simp add: fw_ok_def)
    from tick_shown [OF this Cons.prems(2), of io t c] tick_ok [OF Cons.prems(1), of "watched io" t "(c, w)"] step
    show ?thesis by (simp add: MO_Tick motion_op_run_def)
  next
    case (MO_Enqueue req t)
    then show ?thesis using step Cons.prems(1,2) enqueue_ok [OF Cons.prems(1)] enqueue_mirrors [of b req t q]
      by (cases "fw_motion_enqueue b req t q") (simp add: motion_op_run_def)
  qed
  with Cons.IH [of q1 w1 c1] Cons.prems step show ?case by (cases "over n q") auto
qed

text \<open>What became of the segment at the lines of the board.\<close>

definition pins_outcome :: "fw_segment \<Rightarrow> u64 \<Rightarrow> fw_motion \<Rightarrow> board \<Rightarrow> fw_motion \<Rightarrow> board \<Rightarrow> bool" where
  "pins_outcome seg n q0 w0 q w \<longleftrightarrow> (\<forall>axis < fq_axis_count q0.
     (fq_fault q \<noteq> MF_None \<longrightarrow> \<not> ba_step (w axis) \<and> \<not> ba_enabled (w axis)) \<and>
     (fq_completed_segments q \<noteq> n \<longrightarrow>
        ba_position (w axis) = ba_position (w0 axis) + scast (fw_steps seg ! axis)) \<and>
     (fq_completed_segments q = n \<and> fq_fault q = MF_None \<longrightarrow> (\<exists>e \<le> step_count (fw_steps seg ! axis).
        ba_position (w axis) = ba_position (w0 axis) + (if 0 \<le> sint (fw_steps seg ! axis) then e else - e))))"

text \<open>
  An armed segment at the front, at the queue and at the lines.
\<close>

lemma pins_of_outcome:
  assumes q0: "mirrors m q0 w0" and q: "mirrors m q w" and out: "run_outcome seg q0 n ticks q"
  shows "pins_outcome seg n q0 w0 q w"
proof -
  have m: "fq_axis_count q0 = m" "fq_axis_count q = m" using q0 q by (simp_all add: mirrors_iff)
  have lines: "shows_axis q0 axis (w0 axis)" "shows_axis q axis (w axis)" if "axis < m" for axis
    using q0 q that m by (simp_all add: mirrors_iff)
  have "fq_fault q \<noteq> MF_None \<Longrightarrow> outputs_off q" "fq_completed_segments q \<noteq> n \<Longrightarrow> seg_done seg q0 q"
    "fq_completed_segments q = n \<and> fq_fault q = MF_None \<Longrightarrow> partly_made seg q0 q"
    using out by (auto simp: run_outcome_def split: if_splits)
  note cases = this [unfolded outputs_off_def seg_done_def partly_made_def m]
  show ?thesis unfolding pins_outcome_def m(1)
  proof (intro allI impI conjI)
    fix axis assume axis: "axis < m"
    note l = lines [OF axis, unfolded shows_axis_def]
    show "\<not> ba_step (w axis)" "\<not> ba_enabled (w axis)" if "fq_fault q \<noteq> MF_None"
      using cases(1) [OF that] axis l by simp_all
    show "ba_position (w axis) = ba_position (w0 axis) + scast (fw_steps seg ! axis)" if "fq_completed_segments q \<noteq> n"
      using cases(2) [OF that] axis l by simp
    show "\<exists>e \<le> step_count (fw_steps seg ! axis).
        ba_position (w axis) = ba_position (w0 axis) + (if 0 \<le> sint (fw_steps seg ! axis) then e else - e)"
      if "fq_completed_segments q = n \<and> fq_fault q = MF_None"
      using cases(3) [OF that] axis l by metis
  qed
qed

lemma armed_front:
  assumes "fw_watched b io q c w" "fw_motion_front q = Some seg" "fq_state q = MS_Armed"
  obtains m where "mirrors m q w" "fw_ok b q" "seg_armed b seg q q" "accepted_ok b (fq_axis_count q) seg"
proof -
  obtain m where m: "fw_reachable b (watched io) q (c, w)" "mirrors m q w" using fw_watched_mirrors [OF assms(1)] by blast
  note ok = fw_reachable_ok [OF m(1)]
  show ?thesis by (rule that [OF m(2) ok fw_ok_front [OF ok assms(2,3)]])
qed

lemma io_works_watched: "io_works io \<Longrightarrow> io_works (watched io)"
  by (auto simp: io_works_def watched_def watch_def split_beta)

subsection \<open>Properties\<close>

text \<open>Examples: an open segment of two steps in 5 ms, and one that follows it without steps.\<close>

definition demo_open :: fw_segment where
  "demo_open = fw_demo_segment\<lparr>fw_final_segment := False\<rparr>"

definition demo_next :: fw_segment where
  "demo_next = \<lparr>fw_sequence = 2, fw_start_time_ns = 6000000, fw_duration_ns = 5000000,
     fw_axis_count = 1, fw_final_segment = True, fw_steps = [0]\<rparr>"

definition demo_armed :: fw_motion where
  "demo_armed = append_segment demo_build demo_open demo_empty"

lemma demo_armed_watched: "fw_watched demo_build io demo_armed c (\<lambda>axis. untouched_axis)"
proof -
  have "fw_motion_init demo_build 1 (zero_motion demo_build) = (True, demo_empty)"
    by (simp add: fw_motion_init_def demo_build_def demo_empty_def zero_motion_def)
  then have "fw_watched demo_build io demo_empty c (\<lambda>axis. untouched_axis)" by (rule watched_init)
  moreover have "fw_motion_enqueue demo_build demo_open 0 demo_empty = (Inr demo_open, demo_armed)"
    by (simp add: fw_motion_enqueue_def steps_rejected_def step_count_def maximum_steps_for_duration_def
        last_is_final_def effective_start_def minimum_start_time_def demo_build_def fw_demo_segment_def
        demo_empty_def demo_armed_def demo_open_def zero_motion_def uint64_max_def Let_def)
  ultimately show ?thesis by (rule watched_enqueue)
qed

lemma demo_armed_front:
  "fw_motion_front demo_armed = Some demo_open" "fq_state demo_armed = MS_Armed"
  "fq_completed_segments demo_armed = 0" "fq_axis_count demo_armed = 1"
  by (simp_all add: demo_armed_def append_segment_def demo_empty_def zero_motion_def demo_build_def
      demo_open_def fw_demo_segment_def tail_index_def fw_motion_front_def segment_at_def Let_def)

text \<open>A board that follows the first segment while the second one arrives before the start, and one that stalls.\<close>

definition demo_ops :: "motion_op list" where
  "demo_ops = MO_Enqueue demo_next 500000 # map MO_Tick
     [1000000, 2000000, 3000000, 4000000, 5000000, 6000000, 7000000]"

definition demo_late :: "motion_op list" where
  "demo_late = MO_Enqueue demo_next 500000 # map MO_Tick [2000000, 9000000]"

lemma ticks_calm: "\<not> rearmed b io n (map MO_Tick ts) run"
  by (induction ts arbitrary: run) (simp_all add: arms_again_def)

lemma demo_calm:
  "\<not> rearmed demo_build io 0 demo_ops (demo_armed, c)" "\<not> rearmed demo_build io 0 demo_late (demo_armed, c)"
proof -
  have "\<not> rearmed demo_build io 0 (MO_Enqueue req t # map MO_Tick ts) (demo_armed, c)" for req t ts
    using demo_armed_front(2) by (simp add: arms_again_def ticks_calm)
  then show "\<not> rearmed demo_build io 0 demo_ops (demo_armed, c)" "\<not> rearmed demo_build io 0 demo_late (demo_armed, c)"
    unfolding demo_ops_def demo_late_def by blast+
qed

text \<open>
  C34. Ticks at any growing times, with segments that arrive between them, whatever the callbacks do,
  from any point in the life of a queue where a segment is armed, as long as no segment is accepted
  while that one runs. At the lines of the board as it was told (a line is on from a call that switches
  it on with success until a call that switches it off; a rising edge of the step line is a step): while
  the segment is not over, each axis has made a part of its steps and in the commanded direction; when it
  is completed, not before its end, each axis has made exactly the commanded steps; when a fault is
  latched, every step line and every driver that was switched on has been switched off. The queue's own
  counts and flags say the same.
\<close>

theorem fw_segment_exact:
  assumes "fw_watched b io q c w" "fw_motion_front q = Some seg" "fq_state q = MS_Armed"
    and "io_set_enable io \<noteq> None" "io_set_direction io \<noteq> None" "io_set_step io \<noteq> None"
    and "sorted (map unat (ticks_of ops))"
    and "\<not> rearmed b (watched io) (fq_completed_segments q) ops (q, c, w)"
    and "drive b (watched io) (fq_completed_segments q) ops (q, c, w) = (q', c', w')"
  shows "pins_outcome seg (fq_completed_segments q) q w q' w' \<and>
    run_outcome seg q (fq_completed_segments q) (ticks_of ops) q'"
proof -
  obtain m where m: "mirrors m q w" "fw_ok b q" "seg_armed b seg q q" using armed_front [OF assms(1-3)] .
  have "run_outcome seg q (fq_completed_segments q) (ticks_of ops) q'"
    using drive_outcome [OF _ _ _ m(2) refl assms(7,8), of seg q] m(3) assms(4-6,9) by simp
  moreover have "mirrors m q' w'" using drive_mirrors [OF m(2,1) assms(9)] by blast
  ultimately show ?thesis using pins_of_outcome [OF m(1)] by blast
qed

theorem fw_segment_exact_witness:
  "(case drive demo_build (watched demo_io) 0 demo_late (demo_armed, (), \<lambda>axis. untouched_axis) of (q, c, w) \<Rightarrow>
     fq_fault q = MF_QueueUnderrun \<and> \<not> ba_step (w 0) \<and> \<not> ba_enabled (w 0))"
proof -
  obtain q c w where d: "drive demo_build (watched demo_io) 0 demo_late (demo_armed, (), \<lambda>axis. untouched_axis) = (q, c, w)"
    by (metis prod_cases3)
  have "fq_fault (fst (drive demo_build (watched demo_io) 0 demo_late (demo_armed, (), \<lambda>axis. untouched_axis))) =
      MF_QueueUnderrun" by code_simp
  moreover have "io_set_enable demo_io \<noteq> None" "io_set_direction demo_io \<noteq> None" "io_set_step demo_io \<noteq> None"
    "sorted (map unat (ticks_of demo_late))" by (simp_all add: demo_io_def demo_late_def)
  note fw_segment_exact [OF demo_armed_watched demo_armed_front(1,2) this, unfolded demo_armed_front(3),
      OF demo_calm(2) d]
  ultimately show ?thesis by (simp add: d pins_outcome_def demo_armed_front(4))
qed

text \<open>
  C35. On a board whose callbacks work, from any point in the life of a queue where a segment is armed:
  ticks no more than a timer period apart, the first within a period of a time before the start, and two
  of them at or after the end complete the segment with exactly its steps, at the lines of the board and
  in the queue's counts, while other segments may arrive and be refused at any time and be accepted until
  the segment begins. The limit that a segment is accepted under is so enough for the timer. A segment
  accepted while this one runs breaks it: \<^verbatim>\<open>rbsp_motion_enqueue\<close> (\<^verbatim>\<open>motion.c:123\<close>) arms the queue again,
  and the next tick starts the running segment over (\<open>rearmed_repeats\<close> below); so the hypothesis that
  none is cannot be left out.
\<close>

theorem fw_segment_completes:
  assumes "fw_watched b io q c w" "fw_motion_front q = Some seg" "fq_state q = MS_Armed"
    and "io_works io" "2 \<le> unat (mb_timer_hz b)" "unat (mb_timer_hz b) \<le> 1000000000"
    and "unat (fw_duration_ns seg) + timer_period b < 2 ^ 64"
    and "last_ns \<le> unat (fw_start_time_ns seg)" "evenly b last_ns (ticks_of ops)"
    and "2 \<le> ticks_from (unat (fw_start_time_ns seg) + unat (fw_duration_ns seg)) (ticks_of ops)"
    and "\<not> rearmed b (watched io) (fq_completed_segments q) ops (q, c, w)"
    and "drive b (watched io) (fq_completed_segments q) ops (q, c, w) = (q', c', w')"
  shows "fq_completed_segments q' = fq_completed_segments q + 1 \<and> seg_done seg q q' \<and>
    (\<forall>axis < fq_axis_count q. ba_position (w' axis) = ba_position (w axis) + scast (fw_steps seg ! axis))"
proof -
  obtain m where m: "mirrors m q w" "fw_ok b q" "seg_armed b seg q q" "accepted_ok b (fq_axis_count q) seg"
    using armed_front [OF assms(1-3)] .
  have "\<forall>axis < fq_axis_count q. 2 * (seg_steps seg axis * timer_period b) \<le> unat (fw_duration_ns seg)"
    using m(4) maximum_steps_pace [OF _ assms(5,6)] by (simp add: accepted_ok_def)
  then have rate: "rate_ok b q seg" using assms(5-7) by (simp add: rate_ok_def)
  have "on_time b seg q last_ns q" using m(3) assms(8) by (simp add: on_time_def)
  then have "fq_completed_segments (fst (drive b (watched io) (fq_completed_segments q) ops (q, c, w))) =
      fq_completed_segments q + 1"
    using drive_completes [OF io_works_watched [OF assms(4)] rate m(2) refl assms(9,11) _ refl] assms(10) by blast
  then have over: "fq_completed_segments q' = fq_completed_segments q + 1" using assms(12) by simp
  have out: "run_outcome seg q (fq_completed_segments q) (ticks_of ops) q'"
    using drive_outcome [OF io_worksD(4-6) [OF io_works_watched [OF assms(4)]] m(2) refl
        evenly_sorted [OF assms(9)] assms(11), of seg q] m(3) assms(12) by simp
  have "mirrors m q' w'" using drive_mirrors [OF m(2,1) assms(12)] by blast
  from pins_of_outcome [OF m(1) this out] over out show ?thesis
    by (simp add: pins_outcome_def run_outcome_def)
qed

theorem fw_segment_completes_witness:
  "(case drive demo_build (watched demo_io) 0 demo_ops (demo_armed, (), \<lambda>axis. untouched_axis) of (q, c, w) \<Rightarrow>
     fq_completed_segments q = 1 \<and> ba_position (w 0) = 2)"
proof -
  obtain q c w where d: "drive demo_build (watched demo_io) 0 demo_ops (demo_armed, (), \<lambda>axis. untouched_axis) = (q, c, w)"
    by (metis prod_cases3)
  have times: "io_works demo_io" "2 \<le> unat (mb_timer_hz demo_build)" "unat (mb_timer_hz demo_build) \<le> 1000000000"
    "unat (fw_duration_ns demo_open) + timer_period demo_build < 2 ^ 64" "0 \<le> unat (fw_start_time_ns demo_open)"
    "evenly demo_build 0 (ticks_of demo_ops)"
    "2 \<le> ticks_from (unat (fw_start_time_ns demo_open) + unat (fw_duration_ns demo_open)) (ticks_of demo_ops)"
    by (simp_all add: io_works_def demo_io_def demo_build_def demo_open_def fw_demo_segment_def timer_period_def
        ticks_from_def demo_ops_def)
  have "scast (fw_steps demo_open ! 0) = (2 :: i64)" by (simp add: demo_open_def fw_demo_segment_def)
  with fw_segment_completes [OF demo_armed_watched demo_armed_front(1,2) times, unfolded demo_armed_front(3,4),
      OF demo_calm(1) d]
  show ?thesis unfolding d by (simp add: untouched_axis_def)
qed

text \<open>
  Enqueuing arms the queue also while a segment is running: the next tick begins that segment again and
  its steps are made twice. Here the queue counts 3 steps of the commanded 2.
\<close>

definition demo_rearmed :: "motion_op list" where
  "demo_rearmed = map MO_Tick [1000000, 2000000, 3000000, 4000000] @
     MO_Enqueue demo_next 4500000 # map MO_Tick [5000000, 6000000, 7000000]"

lemma rearmed_repeats:
  "rearmed demo_build demo_io 0 demo_rearmed (demo_armed, ())"
  "fq_completed_segments (fst (drive demo_build demo_io 0 demo_rearmed (demo_armed, ()))) = 1"
  "fq_position_steps (fst (drive demo_build demo_io 0 demo_rearmed (demo_armed, ()))) = [3]"
  "fw_steps demo_open = [2]"
  by code_simp+

end
