(* ===== verification/Firmware_Core.thy ===== *)
theory Firmware_Core
  imports Firmware_Motion
begin

text \<open>
  \<^verbatim>\<open>firmware/include/remotebsp_embedded/core.h\<close> and \<^verbatim>\<open>firmware/src/core.c\<close>: the node of the real boards,
  from the fragment of a CAN frame to the command handlers, the request cache, serial events and
  heartbeats. The \<^verbatim>\<open>CONFIG_*\<close> values are the record \<open>core_build\<close>; without motion \<open>cb_motion\<close> is \<open>None\<close>,
  and without UARTs \<open>cb_uart_count\<close> is 0. The board's functions are the record \<open>hal\<close> over a context of
  any type, each possibly \<^verbatim>\<open>NULL\<close>; \<^verbatim>\<open>core->hal\<close> never changes and is an argument. A buffer with its
  length (a packet of a slot, a cached response, pending serial bytes) is the list of its bytes;
  \<^verbatim>\<open>tx_packet\<close>, which only holds the packet that is being built, is left out. Sizes of packets are
  natural numbers: they are at most 2048, as the header checks. The tests for null arguments are left
  out.

  Properties are in \<open>Firmware_Node\<close>, \<open>Firmware_State\<close> and \<open>Firmware_Answers\<close>; \<open>Firmware_Frames\<close> relates the
  codec and the fragments to those of the host.
\<close>

subsection \<open>Data\<close>

definition RBSP_PROTOCOL_VERSION :: byte where "RBSP_PROTOCOL_VERSION = 1"
definition RBSP_HEADER_SIZE :: nat where "RBSP_HEADER_SIZE = 24"
definition RBSP_FRAGMENT_HEADER_SIZE :: nat where "RBSP_FRAGMENT_HEADER_SIZE = 5"
definition RBSP_CAN_ID_DISCOVERY :: u32 where "RBSP_CAN_ID_DISCOVERY = 0x700"
definition RBSP_CAN_ID_REQUEST_BASE :: u32 where "RBSP_CAN_ID_REQUEST_BASE = 0x600"
definition RBSP_CAN_ID_RESPONSE_BASE :: u32 where "RBSP_CAN_ID_RESPONSE_BASE = 0x580"
definition RBSP_CAN_ID_EVENT_BASE :: u32 where "RBSP_CAN_ID_EVENT_BASE = 0x500"
definition RBSP_CAN_ID_PROVISIONAL_BASE :: u32 where "RBSP_CAN_ID_PROVISIONAL_BASE = 0x480"

lemmas core_consts = RBSP_PROTOCOL_VERSION_def RBSP_HEADER_SIZE_def RBSP_FRAGMENT_HEADER_SIZE_def
  RBSP_CAN_ID_DISCOVERY_def RBSP_CAN_ID_REQUEST_BASE_def RBSP_CAN_ID_RESPONSE_BASE_def
  RBSP_CAN_ID_EVENT_BASE_def RBSP_CAN_ID_PROVISIONAL_BASE_def

datatype can_mode = RBSP_CAN_CLASSICAL | RBSP_CAN_FD

datatype fw_direction = RBSP_GPIO_INPUT | RBSP_GPIO_OUTPUT

datatype bootloader_mode = RBSP_BOOTLOADER_CAN | RBSP_BOOTLOADER_USB

text \<open>The enumerations of messages, commands and status codes.\<close>

definition RBSP_MESSAGE_REQUEST :: byte where "RBSP_MESSAGE_REQUEST = 1"
definition RBSP_MESSAGE_RESPONSE :: byte where "RBSP_MESSAGE_RESPONSE = 2"
definition RBSP_MESSAGE_EVENT :: byte where "RBSP_MESSAGE_EVENT = 3"

datatype fw_command =
    RC_DiscoveryRequest | RC_DiscoveryResponse | RC_NodeAssign | RC_Heartbeat | RC_GetInfo
  | RC_GetCapability | RC_Ping | RC_BootloaderEnter | RC_BootloaderEnterUsb | RC_GpioCreate
  | RC_GpioRead | RC_GpioWrite | RC_UartCreate | RC_UartRead | RC_UartWrite | RC_UartRxEvent
  | RC_MotionEnqueue | RC_MotionStatus | RC_MotionAbort | RC_MotionClearFault

fun rbsp_command :: "fw_command \<Rightarrow> u16" where
  "rbsp_command RC_DiscoveryRequest = 0x0001"
| "rbsp_command RC_DiscoveryResponse = 0x0002"
| "rbsp_command RC_NodeAssign = 0x0003"
| "rbsp_command RC_Heartbeat = 0x0004"
| "rbsp_command RC_GetInfo = 0x0010"
| "rbsp_command RC_GetCapability = 0x0011"
| "rbsp_command RC_Ping = 0x0012"
| "rbsp_command RC_BootloaderEnter = 0x0013"
| "rbsp_command RC_BootloaderEnterUsb = 0x0014"
| "rbsp_command RC_GpioCreate = 0x0100"
| "rbsp_command RC_GpioRead = 0x0101"
| "rbsp_command RC_GpioWrite = 0x0102"
| "rbsp_command RC_UartCreate = 0x0200"
| "rbsp_command RC_UartRead = 0x0201"
| "rbsp_command RC_UartWrite = 0x0202"
| "rbsp_command RC_UartRxEvent = 0x0280"
| "rbsp_command RC_MotionEnqueue = 0x0900"
| "rbsp_command RC_MotionStatus = 0x0901"
| "rbsp_command RC_MotionAbort = 0x0902"
| "rbsp_command RC_MotionClearFault = 0x0903"

datatype fw_status =
    FS_Ok | FS_UnknownCommand | FS_InvalidPayload | FS_ObjectNotFound | FS_AccessDenied
  | FS_ResourceExhausted | FS_UnsupportedCapability | FS_ResourceFailed | FS_ResourceBusy

fun rbsp_status :: "fw_status \<Rightarrow> byte" where
  "rbsp_status FS_Ok = 0"
| "rbsp_status FS_UnknownCommand = 1"
| "rbsp_status FS_InvalidPayload = 2"
| "rbsp_status FS_ObjectNotFound = 3"
| "rbsp_status FS_AccessDenied = 4"
| "rbsp_status FS_ResourceExhausted = 5"
| "rbsp_status FS_UnsupportedCapability = 6"
| "rbsp_status FS_ResourceFailed = 7"
| "rbsp_status FS_ResourceBusy = 8"

definition RBSP_RESPONSE_ERROR_FLAG :: u16 where "RBSP_RESPONSE_ERROR_FLAG = 0x0001"
definition RBSP_FRAGMENT_FIRST :: byte where "RBSP_FRAGMENT_FIRST = 0x01"
definition RBSP_FRAGMENT_LAST :: byte where "RBSP_FRAGMENT_LAST = 0x02"
definition RBSP_FRAGMENT_FLAG_MASK :: byte where "RBSP_FRAGMENT_FLAG_MASK = 0x03"
definition RBSP_FRAGMENT_LENGTH_SHIFT :: nat where "RBSP_FRAGMENT_LENGTH_SHIFT = 2"
definition RBSP_BOOTLOADER_RESET_DELAY_MS :: u32 where "RBSP_BOOTLOADER_RESET_DELAY_MS = 100"
definition RBSP_UART_RECEIVE_STREAMING :: byte where "RBSP_UART_RECEIVE_STREAMING = 1"

lemmas wire_consts = RBSP_MESSAGE_REQUEST_def RBSP_MESSAGE_RESPONSE_def RBSP_MESSAGE_EVENT_def
  RBSP_RESPONSE_ERROR_FLAG_def RBSP_FRAGMENT_FIRST_def RBSP_FRAGMENT_LAST_def
  RBSP_FRAGMENT_FLAG_MASK_def RBSP_FRAGMENT_LENGTH_SHIFT_def RBSP_BOOTLOADER_RESET_DELAY_MS_def
  RBSP_UART_RECEIVE_STREAMING_def

text \<open>\<^verbatim>\<open>'R', 'B', 'S', 'P', 'B', 'O', 'O', 'T'\<close>.\<close>

definition bootloader_confirmation :: "byte list" where
  "bootloader_confirmation = [0x52, 0x42, 0x53, 0x50, 0x42, 0x4F, 0x4F, 0x54]"

record core_build =
  cb_max_packet_size :: nat
  cb_cache_response_size :: nat
  cb_cache_entries :: nat
  cb_slots :: nat
  cb_slot_timeout_ms :: u32
  cb_gpio_count :: nat
  cb_uart_count :: nat
  cb_uart_chunk :: nat
  cb_uart_flush_ms :: u32
  cb_heartbeat_ms :: u32
  cb_provisional_id :: u32
  cb_motion :: "motion_build option"

record bus_frame =
  bf_identifier :: u32
  bf_length :: byte
  bf_data :: "byte list"

record fw_node_info =
  fi_uuid :: "byte list"
  fi_major :: u16
  fi_minor :: u16
  fi_patch :: u16
  fi_board_type :: u32

text \<open>
  \<open>hal_gpio_read\<close> is given the initial value of the flag it may write; \<open>hal_uart_read\<close> returns its count
  and the contents of the buffer of the given capacity.
\<close>

record 'c hal =
  hal_can_send :: "('c \<Rightarrow> bus_frame \<Rightarrow> bool \<times> 'c) option"
  hal_milliseconds :: "('c \<Rightarrow> u32 \<times> 'c) option"
  hal_gpio_configure :: "('c \<Rightarrow> u16 \<Rightarrow> fw_direction \<Rightarrow> bool \<Rightarrow> bool \<times> 'c) option"
  hal_gpio_write :: "('c \<Rightarrow> u16 \<Rightarrow> bool \<Rightarrow> bool \<times> 'c) option"
  hal_gpio_read :: "('c \<Rightarrow> u16 \<Rightarrow> bool \<Rightarrow> bool \<times> bool \<times> 'c) option"
  hal_uart_configure :: "('c \<Rightarrow> byte \<Rightarrow> u32 \<Rightarrow> byte \<Rightarrow> byte \<Rightarrow> byte \<Rightarrow> bool \<times> 'c) option"
  hal_uart_read :: "('c \<Rightarrow> byte \<Rightarrow> nat \<Rightarrow> nat \<times> byte list \<times> 'c) option"
  hal_uart_write :: "('c \<Rightarrow> byte \<Rightarrow> byte list \<Rightarrow> bool \<times> 'c) option"
  hal_nanoseconds :: "('c \<Rightarrow> u64 \<times> 'c) option"
  hal_motion_axis_count :: nat
  hal_motion_set_enable :: "('c \<Rightarrow> nat \<Rightarrow> bool \<Rightarrow> bool \<times> 'c) option"
  hal_motion_set_direction :: "('c \<Rightarrow> nat \<Rightarrow> bool \<Rightarrow> bool \<times> 'c) option"
  hal_motion_set_step :: "('c \<Rightarrow> nat \<Rightarrow> bool \<Rightarrow> bool \<times> 'c) option"
  hal_motion_limit_active :: "('c \<Rightarrow> nat \<Rightarrow> bool \<Rightarrow> bool \<times> bool \<times> 'c) option"
  hal_enter_bootloader :: "('c \<Rightarrow> bootloader_mode \<Rightarrow> 'c) option"

record reassembly_slot =
  rs_active :: bool
  rs_stream_id :: u32
  rs_transfer_id :: u16
  rs_next_sequence :: u16
  rs_packet :: "byte list"
  rs_last_update_ms :: u32

record cache_entry =
  ce_valid :: bool
  ce_session_id :: u32
  ce_request_id :: u32
  ce_command :: u16
  ce_object_id :: u32
  ce_flags :: u16
  ce_request_crc :: u32
  ce_response :: "byte list"

record fw_gpio_object =
  og_used :: bool
  og_object_id :: u32
  og_pin :: u16
  og_direction :: fw_direction

record fw_uart_object =
  ou_used :: bool
  ou_object_id :: u32
  ou_port :: byte
  ou_streaming :: bool
  ou_first_byte_ms :: u32
  ou_event_sequence :: u32
  ou_pending :: "byte list"

record fw_core =
  fc_can_mode :: can_mode
  fc_info :: fw_node_info
  fc_node_id :: u32
  fc_next_object_id :: u32
  fc_next_transfer_id :: u16
  fc_cache_cursor :: nat
  fc_last_heartbeat_ms :: u32
  fc_bootloader_request_ms :: u32
  fc_bootloader_request_mode :: bootloader_mode
  fc_bootloader_request_pending :: bool
  fc_reassembly :: "reassembly_slot list"
  fc_cache :: "cache_entry list"
  fc_gpio_objects :: "fw_gpio_object list"
  fc_uart_objects :: "fw_uart_object list"
  fc_motion :: fw_motion

record fw_request =
  rq_command :: u16
  rq_session_id :: u32
  rq_request_id :: u32
  rq_object_id :: u32
  rq_flags :: u16
  rq_crc :: u32
  rq_payload :: "byte list"

type_synonym 'c core_run = "fw_core \<times> 'c"

text \<open>A call of a function of the board that is present.\<close>

definition hal_send :: "'c hal \<Rightarrow> bus_frame \<Rightarrow> 'c \<Rightarrow> bool \<times> 'c" where
  "hal_send h frame c = (case hal_can_send h of None \<Rightarrow> (False, c) | Some f \<Rightarrow> f c frame)"

definition hal_ms :: "'c hal \<Rightarrow> 'c \<Rightarrow> u32 \<times> 'c" where
  "hal_ms h c = (case hal_milliseconds h of None \<Rightarrow> (0, c) | Some f \<Rightarrow> f c)"

definition hal_ns :: "'c hal \<Rightarrow> 'c \<Rightarrow> u64 \<times> 'c" where
  "hal_ns h c = (case hal_nanoseconds h of None \<Rightarrow> (0, c) | Some f \<Rightarrow> f c)"

subsection \<open>Packets\<close>

definition fw_crc_bit :: "u32 \<Rightarrow> u32" where
  "fw_crc_bit crc = (let mask = - (crc AND 1) in drop_bit 1 crc XOR (0xEDB88320 AND mask))"

definition crc32_update :: "u32 \<Rightarrow> byte list \<Rightarrow> u32" where
  "crc32_update crc data = foldl (\<lambda>crc b. (fw_crc_bit ^^ 8) (crc XOR ucast b)) crc data"

definition packet_crc :: "byte list \<Rightarrow> u32" where
  "packet_crc packet =
     NOT (crc32_update (crc32_update 0xFFFFFFFF (take 20 packet)) (drop RBSP_HEADER_SIZE packet))"

definition decode_request :: "byte list \<Rightarrow> fw_request option" where
  "decode_request packet =
     (if length packet < RBSP_HEADER_SIZE \<or> packet ! 0 \<noteq> RBSP_PROTOCOL_VERSION \<or>
         packet ! 1 \<noteq> RBSP_MESSAGE_REQUEST
      then None
      else let payload_length = get_u16 (drop 16 packet) in
        if RBSP_HEADER_SIZE + unat payload_length \<noteq> length packet \<or>
           packet_crc packet \<noteq> get_u32 (drop 20 packet)
        then None
        else Some \<lparr>rq_command = get_u16 (drop 2 packet), rq_session_id = get_u32 (drop 4 packet),
               rq_request_id = get_u32 (drop 8 packet), rq_object_id = get_u32 (drop 12 packet),
               rq_flags = get_u16 (drop 18 packet), rq_crc = get_u32 (drop 20 packet),
               rq_payload = drop RBSP_HEADER_SIZE packet\<rparr>)"

text \<open>The CRC is computed over the packet with a zero CRC field, which it skips.\<close>

definition encode_packet ::
  "byte \<Rightarrow> u16 \<Rightarrow> u32 \<Rightarrow> u32 \<Rightarrow> u32 \<Rightarrow> u16 \<Rightarrow> byte list \<Rightarrow> byte list" where
  "encode_packet message_type command session_id request_id object_id flags payload =
     (let head = [RBSP_PROTOCOL_VERSION, message_type] @ put_u16 command @ put_u32 session_id @
            put_u32 request_id @ put_u32 object_id @ put_u16 (word_of_nat (length payload)) @
            put_u16 flags
      in head @ put_u32 (packet_crc (head @ put_u32 0 @ payload)) @ payload)"

subsection \<open>Frames\<close>

definition fd_canonical_length :: "nat \<Rightarrow> nat" where
  "fd_canonical_length len =
     (case find (\<lambda>k. len \<le> k) [0, 1, 2, 3, 4, 5, 6, 7, 8, 12, 16, 20, 24, 32, 48, 64] of
        Some k \<Rightarrow> k | None \<Rightarrow> 64)"

definition fw_mtu :: "can_mode \<Rightarrow> nat" where
  "fw_mtu mode = (if mode = RBSP_CAN_FD then 64 else 8)"

definition fw_capacity :: "can_mode \<Rightarrow> nat" where
  "fw_capacity mode = fw_mtu mode - RBSP_FRAGMENT_HEADER_SIZE"

definition send_frame :: "can_mode \<Rightarrow> u32 \<Rightarrow> u16 \<Rightarrow> u16 \<Rightarrow> byte list \<Rightarrow> bool \<Rightarrow> bus_frame" where
  "send_frame mode can_id transfer_id sequence chunk final =
     (let flags = push_bit RBSP_FRAGMENT_LENGTH_SHIFT (word_of_nat (length chunk)) OR
            (if sequence = 0 then RBSP_FRAGMENT_FIRST else 0) OR
            (if final then RBSP_FRAGMENT_LAST else 0);
          used = put_u16 transfer_id @ put_u16 sequence @ [flags] @ chunk;
          len = (if mode = RBSP_CAN_FD then fd_canonical_length (length used) else length used)
      in \<lparr>bf_identifier = can_id, bf_length = word_of_nat len,
          bf_data = used @ replicate (64 - length used) 0\<rparr>)"

function send_loop ::
  "'c hal \<Rightarrow> can_mode \<Rightarrow> u32 \<Rightarrow> u16 \<Rightarrow> u16 \<Rightarrow> byte list \<Rightarrow> 'c \<Rightarrow> bool \<times> 'c" where
  "send_loop h mode can_id transfer_id sequence rest c =
     (if rest = [] then (True, c)
      else let chunk = take (fw_capacity mode) rest; rest' = drop (fw_capacity mode) rest in
        case hal_send h (send_frame mode can_id transfer_id sequence chunk (rest' = [])) c of
          (False, c1) \<Rightarrow> (False, c1)
        | (True, c1) \<Rightarrow> send_loop h mode can_id transfer_id (sequence + 1) rest' c1)"
  by pat_completeness auto
termination
  by (relation "measure (\<lambda>(h, mode, can_id, transfer_id, sequence, rest, c). length rest)")
    (auto simp: fw_capacity_def fw_mtu_def RBSP_FRAGMENT_HEADER_SIZE_def)

declare send_loop.simps [simp del]

definition send_packet :: "'c hal \<Rightarrow> byte list \<Rightarrow> u16 \<Rightarrow> u32 \<Rightarrow> 'c core_run \<Rightarrow> bool \<times> 'c core_run" where
  "send_packet h packet transfer_id can_id = (\<lambda>(core, c).
     let (sent, c1) = send_loop h (fc_can_mode core) can_id transfer_id 0 packet c in (sent, (core, c1)))"

definition fw_allocate_transfer_id :: "fw_core \<Rightarrow> u16 \<times> fw_core" where
  "fw_allocate_transfer_id core =
     (let n = fc_next_transfer_id core + 1 in
      (fc_next_transfer_id core, core\<lparr>fc_next_transfer_id := (if n = 0 then 1 else n)\<rparr>))"

definition response_can_id :: "core_build \<Rightarrow> fw_core \<Rightarrow> u32" where
  "response_can_id b core =
     (if fc_node_id core = 0 then RBSP_CAN_ID_PROVISIONAL_BASE + cb_provisional_id b
      else RBSP_CAN_ID_RESPONSE_BASE + fc_node_id core)"

subsection \<open>The request cache\<close>

definition same_cached_request :: "cache_entry \<Rightarrow> fw_request \<Rightarrow> bool" where
  "same_cached_request entry request \<longleftrightarrow>
     ce_command entry = rq_command request \<and> ce_object_id entry = rq_object_id request \<and>
     ce_flags entry = rq_flags request \<and> ce_request_crc entry = rq_crc request"

definition caches :: "fw_request \<Rightarrow> cache_entry \<Rightarrow> bool" where
  "caches request entry \<longleftrightarrow> ce_valid entry \<and> ce_session_id entry = rq_session_id request \<and>
     ce_request_id entry = rq_request_id request"

definition find_cache :: "fw_core \<Rightarrow> fw_request \<Rightarrow> cache_entry option" where
  "find_cache core request = find (caches request) (fc_cache core)"

definition cache_record :: "fw_request \<Rightarrow> byte list \<Rightarrow> cache_entry" where
  "cache_record request response = \<lparr>ce_valid = True, ce_session_id = rq_session_id request,
     ce_request_id = rq_request_id request, ce_command = rq_command request,
     ce_object_id = rq_object_id request, ce_flags = rq_flags request,
     ce_request_crc = rq_crc request, ce_response = response\<rparr>"

definition fw_insert_cache :: "core_build \<Rightarrow> fw_request \<Rightarrow> byte list \<Rightarrow> fw_core \<Rightarrow> fw_core" where
  "fw_insert_cache b request response core =
     (if length response > cb_cache_response_size b then core
      else core\<lparr>fc_cache := (fc_cache core)[fc_cache_cursor core := cache_record request response],
             fc_cache_cursor := (fc_cache_cursor core + 1) mod cb_cache_entries b\<rparr>)"

definition make_status_response :: "fw_request \<Rightarrow> fw_status \<Rightarrow> u32 \<Rightarrow> byte list \<Rightarrow> byte list" where
  "make_status_response request status object_id data =
     encode_packet RBSP_MESSAGE_RESPONSE (rq_command request) (rq_session_id request)
       (rq_request_id request) object_id (if status = FS_Ok then 0 else RBSP_RESPONSE_ERROR_FLAG)
       (rbsp_status status # data)"

subsection \<open>Command handlers\<close>

text \<open>
  What a handler makes: no response (the request is dropped), or the packet to send and the boot loader
  it asks for.
\<close>

type_synonym 'c answer = "(byte list \<times> bootloader_mode option) option \<times> 'c core_run"

definition status_answer :: "fw_request \<Rightarrow> fw_status \<Rightarrow> u32 \<Rightarrow> byte list \<Rightarrow> 'c core_run \<Rightarrow> 'c answer" where
  "status_answer request status object_id data run =
     (Some (make_status_response request status object_id data, None), run)"

definition info_bytes :: "fw_node_info \<Rightarrow> byte list" where
  "info_bytes info = fi_uuid info @ put_u16 (fi_major info) @ put_u16 (fi_minor info) @
     put_u16 (fi_patch info) @ put_u32 (fi_board_type info) @ [RBSP_PROTOCOL_VERSION]"

definition on_discovery :: "fw_request \<Rightarrow> 'c core_run \<Rightarrow> 'c answer" where
  "on_discovery request = (\<lambda>(core, c).
     let p = rq_payload request in
     if length p \<noteq> 2 \<or> p ! 0 = 0 \<or> p ! 0 > p ! 1 \<or> RBSP_PROTOCOL_VERSION < p ! 0 \<or>
        RBSP_PROTOCOL_VERSION > p ! 1
     then (None, (core, c))
     else (Some (encode_packet RBSP_MESSAGE_RESPONSE (rbsp_command RC_DiscoveryResponse)
             (rq_session_id request) (rq_request_id request) 0 0 (info_bytes (fc_info core)), None),
           (core, c)))"

definition on_node_assign :: "fw_request \<Rightarrow> 'c core_run \<Rightarrow> 'c answer" where
  "on_node_assign request = (\<lambda>(core, c).
     let p = rq_payload request; node_id = get_u32 (drop 16 p) in
     if length p \<noteq> 20 \<or> take 16 p \<noteq> fi_uuid (fc_info core) \<or> node_id = 0 \<or> node_id > 127
     then (None, (core, c))
     else status_answer request FS_Ok node_id [] (core\<lparr>fc_node_id := node_id\<rparr>, c))"

definition on_get_info :: "fw_request \<Rightarrow> 'c core_run \<Rightarrow> 'c answer" where
  "on_get_info request run =
     (if rq_payload request \<noteq> [] then status_answer request FS_InvalidPayload (rq_object_id request) [] run
      else status_answer request FS_Ok (rq_object_id request) (info_bytes (fc_info (fst run))) run)"

definition gpio_present :: "'c hal \<Rightarrow> bool" where
  "gpio_present h \<longleftrightarrow>
     hal_gpio_configure h \<noteq> None \<and> hal_gpio_read h \<noteq> None \<and> hal_gpio_write h \<noteq> None"

definition uart_present :: "'c hal \<Rightarrow> bool" where
  "uart_present h \<longleftrightarrow>
     hal_uart_configure h \<noteq> None \<and> hal_uart_read h \<noteq> None \<and> hal_uart_write h \<noteq> None"

definition motion_present :: "'c hal \<Rightarrow> bool" where
  "motion_present h \<longleftrightarrow> hal_nanoseconds h \<noteq> None \<and> hal_motion_set_enable h \<noteq> None \<and>
     hal_motion_set_direction h \<noteq> None \<and> hal_motion_set_step h \<noteq> None"

definition capabilities :: "core_build \<Rightarrow> 'c hal \<Rightarrow> u64" where
  "capabilities b h =
     (if gpio_present h then 1 else 0) OR
     (if cb_uart_count b > 0 \<and> uart_present h then push_bit 1 1 else 0) OR
     (if hal_enter_bootloader h \<noteq> None then push_bit 8 1 else 0) OR
     (case cb_motion b of None \<Rightarrow> 0
      | Some mb \<Rightarrow> if motion_present h \<and> 0 < hal_motion_axis_count h \<and>
            hal_motion_axis_count h \<le> mb_max_axes mb then push_bit 9 1 else 0)"

definition on_get_capability :: "core_build \<Rightarrow> 'c hal \<Rightarrow> fw_request \<Rightarrow> 'c core_run \<Rightarrow> 'c answer" where
  "on_get_capability b h request run =
     (if rq_payload request \<noteq> [] then status_answer request FS_InvalidPayload (rq_object_id request) [] run
      else status_answer request FS_Ok (rq_object_id request) (put_u64 (capabilities b h)) run)"

definition on_ping :: "core_build \<Rightarrow> fw_request \<Rightarrow> 'c core_run \<Rightarrow> 'c answer" where
  "on_ping b request run =
     (if length (rq_payload request) + 1 > cb_max_packet_size b - RBSP_HEADER_SIZE
      then status_answer request FS_InvalidPayload (rq_object_id request) [] run
      else status_answer request FS_Ok (rq_object_id request) (rq_payload request) run)"

definition on_bootloader_enter :: "'c hal \<Rightarrow> fw_request \<Rightarrow> 'c core_run \<Rightarrow> 'c answer" where
  "on_bootloader_enter h request run =
     (if rq_object_id request \<noteq> 0 \<or> rq_payload request \<noteq> bootloader_confirmation
      then status_answer request FS_InvalidPayload 0 [] run
      else if hal_enter_bootloader h = None
      then status_answer request FS_UnsupportedCapability 0 [] run
      else (Some (make_status_response request FS_Ok 0 [],
              Some (if rq_command request = rbsp_command RC_BootloaderEnterUsb
                    then RBSP_BOOTLOADER_USB else RBSP_BOOTLOADER_CAN)), run))"

subsection \<open>GPIO\<close>

definition first_free :: "('a \<Rightarrow> bool) \<Rightarrow> 'a list \<Rightarrow> nat option" where
  "first_free used objects = find (\<lambda>i. \<not> used (objects ! i)) [0..<length objects]"

definition find_gpio_object :: "u32 \<Rightarrow> fw_core \<Rightarrow> fw_gpio_object option" where
  "find_gpio_object object_id core =
     find (\<lambda>object. og_used object \<and> og_object_id object = object_id) (fc_gpio_objects core)"

definition on_gpio_create :: "'c hal \<Rightarrow> fw_request \<Rightarrow> 'c core_run \<Rightarrow> 'c answer" where
  "on_gpio_create h request = (\<lambda>(core, c).
     let p = rq_payload request in
     case hal_gpio_configure h of
       None \<Rightarrow> status_answer request FS_UnsupportedCapability 0 [] (core, c)
     | Some configure \<Rightarrow>
         if \<not> gpio_present h then status_answer request FS_UnsupportedCapability 0 [] (core, c)
         else if rq_object_id request \<noteq> 0 \<or> length p \<noteq> 4 \<or> p ! 2 > 1 \<or> p ! 3 > 1
         then status_answer request FS_InvalidPayload 0 [] (core, c)
         else let pin = get_u16 p; direction = (if p ! 2 = 0 then RBSP_GPIO_INPUT else RBSP_GPIO_OUTPUT) in
           if list_ex (\<lambda>object. og_used object \<and> og_pin object = pin) (fc_gpio_objects core)
           then status_answer request FS_ResourceBusy 0 [] (core, c)
           else case first_free og_used (fc_gpio_objects core) of
             None \<Rightarrow> status_answer request FS_ResourceExhausted 0 [] (core, c)
           | Some i \<Rightarrow>
               if fc_next_object_id core = 0 then status_answer request FS_ResourceExhausted 0 [] (core, c)
               else case configure c pin direction (p ! 3 \<noteq> 0) of
                 (False, c1) \<Rightarrow> status_answer request FS_ResourceFailed 0 [] (core, c1)
               | (True, c1) \<Rightarrow>
                   let object = \<lparr>og_used = True, og_object_id = fc_next_object_id core, og_pin = pin,
                         og_direction = direction\<rparr>
                   in status_answer request FS_Ok (og_object_id object) []
                        (core\<lparr>fc_gpio_objects := (fc_gpio_objects core)[i := object],
                              fc_next_object_id := fc_next_object_id core + 1\<rparr>, c1))"

text \<open>Only objects that a present back end created are found, so the functions they call are there.\<close>

definition on_gpio_read :: "'c hal \<Rightarrow> fw_request \<Rightarrow> 'c core_run \<Rightarrow> 'c answer" where
  "on_gpio_read h request = (\<lambda>(core, c).
     let oid = rq_object_id request in
     if rq_payload request \<noteq> [] \<or> oid = 0 then status_answer request FS_InvalidPayload oid [] (core, c)
     else case find_gpio_object oid core of
       None \<Rightarrow> status_answer request FS_ObjectNotFound oid [] (core, c)
     | Some object \<Rightarrow>
         (case (case hal_gpio_read h of None \<Rightarrow> (False, False, c) | Some f \<Rightarrow> f c (og_pin object) False) of
            (False, v, c1) \<Rightarrow> status_answer request FS_ResourceFailed oid [] (core, c1)
          | (True, v, c1) \<Rightarrow> status_answer request FS_Ok oid [if v then 1 else 0] (core, c1)))"

definition on_gpio_write :: "'c hal \<Rightarrow> fw_request \<Rightarrow> 'c core_run \<Rightarrow> 'c answer" where
  "on_gpio_write h request = (\<lambda>(core, c).
     let oid = rq_object_id request; p = rq_payload request in
     if length p \<noteq> 1 \<or> p ! 0 > 1 \<or> oid = 0 then status_answer request FS_InvalidPayload oid [] (core, c)
     else case find_gpio_object oid core of
       None \<Rightarrow> status_answer request FS_ObjectNotFound oid [] (core, c)
     | Some object \<Rightarrow>
         if og_direction object \<noteq> RBSP_GPIO_OUTPUT
         then status_answer request FS_AccessDenied oid [] (core, c)
         else (case (case hal_gpio_write h of None \<Rightarrow> (False, c) | Some f \<Rightarrow> f c (og_pin object) (p ! 0 \<noteq> 0)) of
            (False, c1) \<Rightarrow> status_answer request FS_ResourceFailed oid [] (core, c1)
          | (True, c1) \<Rightarrow> status_answer request FS_Ok oid [] (core, c1)))"

subsection \<open>UART\<close>

definition find_uart_object :: "u32 \<Rightarrow> fw_core \<Rightarrow> fw_uart_object option" where
  "find_uart_object object_id core =
     find (\<lambda>object. ou_used object \<and> ou_object_id object = object_id) (fc_uart_objects core)"

definition uart_payload_bad :: "byte list \<Rightarrow> bool" where
  "uart_payload_bad p \<longleftrightarrow> (length p \<noteq> 8 \<and> length p \<noteq> 9) \<or> get_u32 (drop 1 p) = 0 \<or>
     p ! 5 < 5 \<or> p ! 5 > 8 \<or> (p ! 6 \<noteq> 1 \<and> p ! 6 \<noteq> 2) \<or> p ! 7 > 2 \<or>
     (length p = 9 \<and> p ! 8 > RBSP_UART_RECEIVE_STREAMING)"

definition on_uart_create :: "core_build \<Rightarrow> 'c hal \<Rightarrow> fw_request \<Rightarrow> 'c core_run \<Rightarrow> 'c answer" where
  "on_uart_create b h request = (\<lambda>(core, c).
     let p = rq_payload request in
     case hal_uart_configure h of
       None \<Rightarrow> status_answer request FS_UnsupportedCapability 0 [] (core, c)
     | Some configure \<Rightarrow>
         if \<not> uart_present h then status_answer request FS_UnsupportedCapability 0 [] (core, c)
         else if rq_object_id request \<noteq> 0 \<or> uart_payload_bad p
         then status_answer request FS_InvalidPayload 0 [] (core, c)
         else if unat (p ! 0) \<ge> cb_uart_count b
         then status_answer request FS_ObjectNotFound 0 [] (core, c)
         else if list_ex (\<lambda>object. ou_used object \<and> ou_port object = p ! 0) (fc_uart_objects core)
         then status_answer request FS_ResourceBusy 0 [] (core, c)
         else case first_free ou_used (fc_uart_objects core) of
           None \<Rightarrow> status_answer request FS_ResourceExhausted 0 [] (core, c)
         | Some i \<Rightarrow>
             if fc_next_object_id core = 0 then status_answer request FS_ResourceExhausted 0 [] (core, c)
             else case configure c (p ! 0) (get_u32 (drop 1 p)) (p ! 5) (p ! 6) (p ! 7) of
               (False, c1) \<Rightarrow> status_answer request FS_ResourceFailed 0 [] (core, c1)
             | (True, c1) \<Rightarrow>
                 let object = (fc_uart_objects core ! i)\<lparr>ou_used := True,
                       ou_object_id := fc_next_object_id core, ou_port := p ! 0,
                       ou_streaming := (length p = 9 \<and> p ! 8 = RBSP_UART_RECEIVE_STREAMING),
                       ou_event_sequence := 0, ou_pending := []\<rparr>
                 in status_answer request FS_Ok (ou_object_id object) []
                      (core\<lparr>fc_uart_objects := (fc_uart_objects core)[i := object],
                            fc_next_object_id := fc_next_object_id core + 1\<rparr>, c1))"

definition hal_read_uart :: "'c hal \<Rightarrow> byte \<Rightarrow> nat \<Rightarrow> 'c \<Rightarrow> nat \<times> byte list \<times> 'c" where
  "hal_read_uart h port capacity c =
     (case hal_uart_read h of None \<Rightarrow> (0, [], c) | Some f \<Rightarrow> f c port capacity)"

definition on_uart_read :: "core_build \<Rightarrow> 'c hal \<Rightarrow> fw_request \<Rightarrow> 'c core_run \<Rightarrow> 'c answer" where
  "on_uart_read b h request = (\<lambda>(core, c).
     let oid = rq_object_id request; p = rq_payload request;
         requested = (if length p = 2 then unat (get_u16 p) else 0);
         maximum = cb_cache_response_size b - RBSP_HEADER_SIZE - 1
     in if oid = 0 \<or> length p \<noteq> 2 \<or> requested = 0 \<or> requested > maximum
        then status_answer request FS_InvalidPayload oid [] (core, c)
        else case find_uart_object oid core of
          None \<Rightarrow> status_answer request FS_ObjectNotFound oid [] (core, c)
        | Some object \<Rightarrow>
            if ou_streaming object then status_answer request FS_AccessDenied oid [] (core, c)
            else let (count, data, c1) = hal_read_uart h (ou_port object) requested c in
              if count > requested then status_answer request FS_ResourceFailed oid [] (core, c1)
              else status_answer request FS_Ok oid (take count data) (core, c1))"

definition on_uart_write :: "'c hal \<Rightarrow> fw_request \<Rightarrow> 'c core_run \<Rightarrow> 'c answer" where
  "on_uart_write h request = (\<lambda>(core, c).
     let oid = rq_object_id request; p = rq_payload request in
     if oid = 0 \<or> p = [] then status_answer request FS_InvalidPayload oid [] (core, c)
     else case find_uart_object oid core of
       None \<Rightarrow> status_answer request FS_ObjectNotFound oid [] (core, c)
     | Some object \<Rightarrow>
         (case (case hal_uart_write h of None \<Rightarrow> (False, c) | Some f \<Rightarrow> f c (ou_port object) p) of
            (False, c1) \<Rightarrow> status_answer request FS_ResourceFailed oid [] (core, c1)
          | (True, c1) \<Rightarrow> status_answer request FS_Ok oid [] (core, c1)))"

subsection \<open>Motion\<close>

definition core_motion_io :: "'c hal \<Rightarrow> 'c motion_io" where
  "core_motion_io h = \<lparr>io_set_enable = hal_motion_set_enable h,
     io_set_direction = hal_motion_set_direction h, io_set_step = hal_motion_set_step h,
     io_limit_active = hal_motion_limit_active h\<rparr>"

definition rbsp_core_motion_tick :: "motion_build \<Rightarrow> 'c hal \<Rightarrow> 'c core_run \<Rightarrow> bool \<times> 'c core_run" where
  "rbsp_core_motion_tick mb h = (\<lambda>(core, c).
     if \<not> motion_present h then (False, (core, c))
     else let (now_ns, c1) = hal_ns h c;
              (ticked, (q, c2)) = fw_tick mb (core_motion_io h) now_ns (fc_motion core, c1)
          in (ticked, (core\<lparr>fc_motion := q\<rparr>, c2)))"

text \<open>The loop over the axis entries of a segment: \<open>None\<close> when one is not valid.\<close>

fun motion_entries :: "nat \<Rightarrow> byte list \<Rightarrow> nat list \<Rightarrow> bool list \<Rightarrow> i32 list \<Rightarrow> i32 list option" where
  "motion_entries axis_count p [] seen steps = Some steps"
| "motion_entries axis_count p (i # is) seen steps =
     (let entry = drop (24 + i * 8) p; resource_id = get_u32 entry; axis = unat (ucast resource_id :: byte) in
      if resource_id AND 0xFFFFFF00 \<noteq> 0x09000000 then None
      else if axis \<ge> axis_count \<or> seen ! axis then None
      else motion_entries axis_count p is (seen[axis := True]) (steps[axis := get_u32 (drop 4 entry)]))"

definition accepted_bytes :: "fw_segment \<Rightarrow> byte list" where
  "accepted_bytes seg = put_u32 (fw_sequence seg) @ put_u64 (fw_start_time_ns seg) @
     put_u64 (fw_duration_ns seg) @ [if fw_final_segment seg then 1 else 0, 0] @ put_u16 0"

definition enqueue_status :: "fw_enqueue_result \<Rightarrow> fw_status" where
  "enqueue_status result = (if result = FE_Full then FS_ResourceExhausted
     else if result = FE_Faulted then FS_ResourceFailed else FS_InvalidPayload)"

definition on_motion_enqueue :: "motion_build \<Rightarrow> 'c hal \<Rightarrow> fw_request \<Rightarrow> 'c core_run \<Rightarrow> 'c answer" where
  "on_motion_enqueue mb h request = (\<lambda>(core, c).
     let p = rq_payload request; motion = fc_motion core;
         axis_count = (if length p \<ge> 24 then unat (p ! 21) else 0)
     in if \<not> motion_present h then status_answer request FS_UnsupportedCapability 0 [] (core, c)
        else if rq_object_id request \<noteq> 0 \<or> length p \<noteq> 24 + axis_count * 8 \<or> axis_count = 0 \<or>
                axis_count > fq_axis_count motion \<or> p ! 20 > 1 \<or> get_u16 (drop 22 p) \<noteq> 0
        then status_answer request FS_InvalidPayload 0 [] (core, c)
        else case motion_entries (fq_axis_count motion) p [0..<axis_count]
                    (replicate (mb_max_axes mb) False) (replicate (mb_max_axes mb) 0) of
          None \<Rightarrow> status_answer request FS_ObjectNotFound 0 [] (core, c)
        | Some steps \<Rightarrow>
            let segment = \<lparr>fw_sequence = get_u32 p, fw_start_time_ns = get_u64 (drop 4 p),
                  fw_duration_ns = get_u64 (drop 12 p), fw_axis_count = fq_axis_count motion,
                  fw_final_segment = (p ! 20 \<noteq> 0), fw_steps = steps\<rparr>;
                (now_ns, c1) = hal_ns h c
            in case fw_motion_enqueue mb segment now_ns motion of
              (Inl result, motion1) \<Rightarrow>
                status_answer request (enqueue_status result) 0 [] (core\<lparr>fc_motion := motion1\<rparr>, c1)
            | (Inr accepted, motion1) \<Rightarrow>
                status_answer request FS_Ok 0 (accepted_bytes accepted) (core\<lparr>fc_motion := motion1\<rparr>, c1))"

text \<open>The sum that saturates.\<close>

definition total_steps :: "fw_motion \<Rightarrow> u64" where
  "total_steps q = fold (\<lambda>axis total.
     if uint64_max - total < fq_emitted_steps q ! axis then uint64_max
     else total + fq_emitted_steps q ! axis) [0..<fq_axis_count q] 0"

definition axis_status_bytes :: "fw_motion \<Rightarrow> nat \<Rightarrow> byte list" where
  "axis_status_bytes q axis = put_u32 (0x09000000 + word_of_nat axis) @
     [(if fq_enabled q ! axis then 1 else 0) OR (if fq_direction_positive q ! axis then 2 else 0) OR
        (if fq_step_high q ! axis then 4 else 0), 0, 0, 0] @
     put_u64 (fq_position_steps q ! axis) @ put_u64 (fq_emitted_steps q ! axis)"

definition motion_status_bytes :: "motion_build \<Rightarrow> u64 \<Rightarrow> fw_motion \<Rightarrow> byte list" where
  "motion_status_bytes mb now_ns q =
     [motion_state_code (fq_state q), motion_fault_code (fq_fault q), word_of_nat (fq_axis_count q), 0] @
     put_u64 now_ns @ put_u16 (word_of_nat (fq_size q)) @ put_u16 (word_of_nat (mb_queue_depth mb)) @
     put_u32 (fq_last_accepted_sequence q) @ put_u32 (fq_last_completed_sequence q) @
     put_u64 (fq_accepted_segments q) @ put_u64 (fq_rejected_segments q) @
     put_u64 (fq_completed_segments q) @ put_u64 (fq_emitted_edges q) @ put_u64 (total_steps q) @
     put_u64 (fq_safety_stops q) @ put_u64 (fq_limit_stops q) @ put_u64 (fq_queue_underruns q) @
     put_u16 (word_of_nat (fq_maximum_queue_depth q)) @ [0, 0] @
     concat (map (axis_status_bytes q) [0..<fq_axis_count q])"

definition on_motion_status ::
  "core_build \<Rightarrow> motion_build \<Rightarrow> 'c hal \<Rightarrow> fw_request \<Rightarrow> 'c core_run \<Rightarrow> 'c answer" where
  "on_motion_status b mb h request = (\<lambda>(core, c).
     let data_length = 92 + fq_axis_count (fc_motion core) * 24 in
     if \<not> motion_present h then status_answer request FS_UnsupportedCapability 0 [] (core, c)
     else if rq_object_id request \<noteq> 0 \<or> rq_payload request \<noteq> [] \<or>
             data_length + 1 > cb_max_packet_size b - RBSP_HEADER_SIZE
     then status_answer request FS_InvalidPayload 0 [] (core, c)
     else let (now_ns, c1) = hal_ns h c
       in status_answer request FS_Ok 0 (motion_status_bytes mb now_ns (fc_motion core)) (core, c1))"

definition on_motion_abort :: "motion_build \<Rightarrow> 'c hal \<Rightarrow> fw_request \<Rightarrow> 'c core_run \<Rightarrow> 'c answer" where
  "on_motion_abort mb h request = (\<lambda>(core, c).
     if rq_object_id request \<noteq> 0 \<or> rq_payload request \<noteq> []
     then status_answer request FS_InvalidPayload 0 [] (core, c)
     else let stopped = core\<lparr>fc_motion := fw_motion_abort mb MF_Aborted (fc_motion core)\<rparr>
       in status_answer request FS_Ok 0 [] (snd (rbsp_core_motion_tick mb h (stopped, c))))"

definition on_motion_clear_fault :: "'c hal \<Rightarrow> fw_request \<Rightarrow> 'c core_run \<Rightarrow> 'c answer" where
  "on_motion_clear_fault h request = (\<lambda>(core, c).
     if rq_object_id request \<noteq> 0 \<or> rq_payload request \<noteq> []
     then status_answer request FS_InvalidPayload 0 [] (core, c)
     else let (now_ns, c1) = hal_ns h c in
       case fw_clear_fault now_ns (fc_motion core) of
         (False, q) \<Rightarrow> status_answer request FS_ResourceBusy 0 [] (core\<lparr>fc_motion := q\<rparr>, c1)
       | (True, q) \<Rightarrow> status_answer request FS_Ok 0 [] (core\<lparr>fc_motion := q\<rparr>, c1))"

subsection \<open>A request\<close>

text \<open>The \<^verbatim>\<open>switch\<close>; what is not compiled in falls to \<^verbatim>\<open>default\<close>.\<close>

definition fw_dispatch :: "core_build \<Rightarrow> 'c hal \<Rightarrow> fw_request \<Rightarrow> 'c core_run \<Rightarrow> 'c answer" where
  "fw_dispatch b h request run =
     (let is_cmd = (\<lambda>x. rq_command request = rbsp_command x); uart = (cb_uart_count b > 0) in
      if is_cmd RC_DiscoveryRequest then on_discovery request run
      else if is_cmd RC_NodeAssign then on_node_assign request run
      else if is_cmd RC_GetInfo then on_get_info request run
      else if is_cmd RC_GetCapability then on_get_capability b h request run
      else if is_cmd RC_Ping then on_ping b request run
      else if is_cmd RC_BootloaderEnter \<or> is_cmd RC_BootloaderEnterUsb then on_bootloader_enter h request run
      else if is_cmd RC_GpioCreate then on_gpio_create h request run
      else if is_cmd RC_GpioRead then on_gpio_read h request run
      else if is_cmd RC_GpioWrite then on_gpio_write h request run
      else if uart \<and> is_cmd RC_UartCreate then on_uart_create b h request run
      else if uart \<and> is_cmd RC_UartRead then on_uart_read b h request run
      else if uart \<and> is_cmd RC_UartWrite then on_uart_write h request run
      else case cb_motion b of
        None \<Rightarrow> status_answer request FS_UnknownCommand (rq_object_id request) [] run
      | Some mb \<Rightarrow>
          if is_cmd RC_MotionEnqueue then on_motion_enqueue mb h request run
          else if is_cmd RC_MotionStatus then on_motion_status b mb h request run
          else if is_cmd RC_MotionAbort then on_motion_abort mb h request run
          else if is_cmd RC_MotionClearFault then on_motion_clear_fault h request run
          else status_answer request FS_UnknownCommand (rq_object_id request) [] run)"

text \<open>\<^verbatim>\<open>send_packet\<close> with the next transfer identifier.\<close>

definition send_response :: "core_build \<Rightarrow> 'c hal \<Rightarrow> byte list \<Rightarrow> 'c core_run \<Rightarrow> bool \<times> 'c core_run" where
  "send_response b h packet = (\<lambda>(core, c).
     let (transfer_id, core1) = fw_allocate_transfer_id core
     in send_packet h packet transfer_id (response_can_id b core) (core1, c))"

definition request_bootloader :: "'c hal \<Rightarrow> bootloader_mode \<Rightarrow> 'c core_run \<Rightarrow> 'c core_run" where
  "request_bootloader h mode = (\<lambda>(core, c).
     let (now, c1) = hal_ms h c
     in (core\<lparr>fc_bootloader_request_pending := True, fc_bootloader_request_ms := now,
              fc_bootloader_request_mode := mode\<rparr>, c1))"

definition fw_process_request :: "core_build \<Rightarrow> 'c hal \<Rightarrow> fw_request \<Rightarrow> 'c core_run \<Rightarrow> bool \<times> 'c core_run" where
  "fw_process_request b h request run =
     (case find_cache (fst run) request of
        Some entry \<Rightarrow>
          if \<not> same_cached_request entry request then (False, run)
          else send_response b h (ce_response entry) run
      | None \<Rightarrow>
          (case fw_dispatch b h request run of
             (None, run1) \<Rightarrow> (False, run1)
           | (Some (response, boot), (core1, c1)) \<Rightarrow>
               let (sent, run2) = send_response b h response (fw_insert_cache b request response core1, c1)
               in case boot of
                    None \<Rightarrow> (sent, run2)
                  | Some mode \<Rightarrow> (sent, if sent then request_bootloader h mode run2 else run2)))"

subsection \<open>Incoming frames\<close>

definition slot_of :: "u32 \<Rightarrow> u16 \<Rightarrow> reassembly_slot \<Rightarrow> bool" where
  "slot_of stream_id transfer_id slot \<longleftrightarrow>
     rs_active slot \<and> rs_stream_id slot = stream_id \<and> rs_transfer_id slot = transfer_id"

definition find_slot :: "fw_core \<Rightarrow> u32 \<Rightarrow> u16 \<Rightarrow> nat option" where
  "find_slot core stream_id transfer_id =
     find (\<lambda>i. slot_of stream_id transfer_id (fc_reassembly core ! i)) [0..<length (fc_reassembly core)]"

definition empty_slot :: reassembly_slot where
  "empty_slot = \<lparr>rs_active = False, rs_stream_id = 0, rs_transfer_id = 0, rs_next_sequence = 0,
     rs_packet = [], rs_last_update_ms = 0\<rparr>"

definition set_slot :: "nat \<Rightarrow> reassembly_slot \<Rightarrow> fw_core \<Rightarrow> fw_core" where
  "set_slot i slot core = core\<lparr>fc_reassembly := (fc_reassembly core)[i := slot]\<rparr>"

definition allocate_slot :: "fw_core \<Rightarrow> (nat \<times> fw_core) option" where
  "allocate_slot core =
     map_option (\<lambda>i. (i, set_slot i (empty_slot\<lparr>rs_active := True\<rparr>) core))
       (first_free rs_active (fc_reassembly core))"

text \<open>
  The fragment in a frame that the checks let through: its transfer, its sequence, whether it is the
  first and the last, and its payload.
\<close>

definition accept_frame :: "fw_core \<Rightarrow> bus_frame \<Rightarrow> (u16 \<times> u16 \<times> bool \<times> bool \<times> byte list) option" where
  "accept_frame core frame =
     (let mtu = fw_mtu (fc_can_mode core); capacity = fw_capacity (fc_can_mode core);
          len = unat (bf_length frame); data = bf_data frame
      in if len \<le> RBSP_FRAGMENT_HEADER_SIZE \<or> len > mtu \<or>
            (bf_identifier frame \<noteq> RBSP_CAN_ID_DISCOVERY \<and>
             (fc_node_id core = 0 \<or> bf_identifier frame \<noteq> RBSP_CAN_ID_REQUEST_BASE + fc_node_id core))
         then None
         else let sequence = get_u16 (drop 2 data); flags = data ! 4 AND RBSP_FRAGMENT_FLAG_MASK;
                  payload_length = unat (drop_bit RBSP_FRAGMENT_LENGTH_SHIFT (data ! 4));
                  is_first = (flags AND RBSP_FRAGMENT_FIRST \<noteq> 0); is_last = (flags AND RBSP_FRAGMENT_LAST \<noteq> 0)
           in if payload_length = 0 \<or> payload_length > capacity \<or>
                 RBSP_FRAGMENT_HEADER_SIZE + payload_length > len \<or> is_first \<noteq> (sequence = 0)
              then None
              else if list_ex (\<lambda>i. data ! i \<noteq> 0) [RBSP_FRAGMENT_HEADER_SIZE + payload_length..<len] then None
              else if \<not> is_last \<and> payload_length \<noteq> capacity then None
              else Some (get_u16 data, sequence, is_first, is_last,
                         take payload_length (drop RBSP_FRAGMENT_HEADER_SIZE data)))"

text \<open>The slot of the fragment's transfer, or a new one for a first fragment.\<close>

definition slot_for :: "u32 \<Rightarrow> u16 \<Rightarrow> bool \<Rightarrow> fw_core \<Rightarrow> (nat \<times> fw_core) option" where
  "slot_for stream_id transfer_id is_first core =
     (case find_slot core stream_id transfer_id of
        Some i \<Rightarrow> Some (i, core)
      | None \<Rightarrow>
          if \<not> is_first then None
          else map_option (\<lambda>(i, core1).
            (i, set_slot i ((fc_reassembly core1 ! i)
                  \<lparr>rs_stream_id := stream_id, rs_transfer_id := transfer_id\<rparr>) core1))
            (allocate_slot core))"

text \<open>The repetition of a fragment, which only keeps its transfer alive.\<close>

definition repeated_fragment :: "'c hal \<Rightarrow> nat \<Rightarrow> u16 \<Rightarrow> byte list \<Rightarrow> 'c core_run \<Rightarrow> 'c core_run" where
  "repeated_fragment h i sequence payload = (\<lambda>(core, c).
     let slot = fc_reassembly core ! i; offset = unat sequence * fw_capacity (fc_can_mode core) in
     if offset + length payload \<le> length (rs_packet slot) \<and>
        take (length payload) (drop offset (rs_packet slot)) = payload
     then let (now, c1) = hal_ms h c in (set_slot i (slot\<lparr>rs_last_update_ms := now\<rparr>) core, c1)
     else (core, c))"

definition deactivate :: "nat \<Rightarrow> fw_core \<Rightarrow> fw_core" where
  "deactivate i core = set_slot i ((fc_reassembly core ! i)\<lparr>rs_active := False\<rparr>) core"

text \<open>The next fragment of a transfer.\<close>

definition next_fragment ::
  "core_build \<Rightarrow> 'c hal \<Rightarrow> nat \<Rightarrow> bool \<Rightarrow> byte list \<Rightarrow> 'c core_run \<Rightarrow> 'c core_run" where
  "next_fragment b h i is_last payload = (\<lambda>(core, c).
     let slot = fc_reassembly core ! i; (now, c1) = hal_ms h c;
         slot1 = slot\<lparr>rs_packet := rs_packet slot @ payload,
           rs_next_sequence := rs_next_sequence slot + 1, rs_last_update_ms := now\<rparr>;
         core1 = set_slot i slot1 core
     in if is_last then
          (let (core2, c2) = (case decode_request (rs_packet slot1) of
                 None \<Rightarrow> (core1, c1)
               | Some request \<Rightarrow> snd (fw_process_request b h request (core1, c1)))
           in (deactivate i core2, c2))
        else (core1, c1))"

definition rbsp_core_accept_can :: "core_build \<Rightarrow> 'c hal \<Rightarrow> bus_frame \<Rightarrow> 'c core_run \<Rightarrow> 'c core_run" where
  "rbsp_core_accept_can b h frame = (\<lambda>(core, c).
     case accept_frame core frame of
       None \<Rightarrow> (core, c)
     | Some (transfer_id, sequence, is_first, is_last, payload) \<Rightarrow>
         (case slot_for (bf_identifier frame) transfer_id is_first core of
            None \<Rightarrow> (core, c)
          | Some (i, core1) \<Rightarrow>
              let slot = fc_reassembly core1 ! i in
              if sequence < rs_next_sequence slot then repeated_fragment h i sequence payload (core1, c)
              else if sequence \<noteq> rs_next_sequence slot \<or>
                      length (rs_packet slot) + length payload > cb_max_packet_size b
              then (deactivate i core1, c)
              else next_fragment b h i is_last payload (core1, c)))"

subsection \<open>Start and main loop\<close>

definition zero_core :: "core_build \<Rightarrow> can_mode \<Rightarrow> fw_node_info \<Rightarrow> fw_core" where
  "zero_core b mode info = \<lparr>fc_can_mode = mode, fc_info = info, fc_node_id = 0, fc_next_object_id = 0,
     fc_next_transfer_id = 0, fc_cache_cursor = 0, fc_last_heartbeat_ms = 0,
     fc_bootloader_request_ms = 0, fc_bootloader_request_mode = RBSP_BOOTLOADER_CAN,
     fc_bootloader_request_pending = False, fc_reassembly = replicate (cb_slots b) empty_slot,
     fc_cache = replicate (cb_cache_entries b) \<lparr>ce_valid = False, ce_session_id = 0, ce_request_id = 0,
       ce_command = 0, ce_object_id = 0, ce_flags = 0, ce_request_crc = 0, ce_response = []\<rparr>,
     fc_gpio_objects = replicate (cb_gpio_count b)
       \<lparr>og_used = False, og_object_id = 0, og_pin = 0, og_direction = RBSP_GPIO_INPUT\<rparr>,
     fc_uart_objects = replicate (cb_uart_count b)
       \<lparr>ou_used = False, ou_object_id = 0, ou_port = 0, ou_streaming = False, ou_first_byte_ms = 0,
        ou_event_sequence = 0, ou_pending = []\<rparr>,
     fc_motion = zero_motion (case cb_motion b of Some mb \<Rightarrow> mb
       | None \<Rightarrow> \<lparr>mb_max_axes = 0, mb_queue_depth = 0, mb_min_lead_time_us = 0, mb_timer_hz = 0\<rparr>)\<rparr>"

text \<open>\<open>None\<close> is a failed start, after which the node does not run.\<close>

definition rbsp_core_init ::
  "core_build \<Rightarrow> 'c hal \<Rightarrow> can_mode \<Rightarrow> fw_node_info \<Rightarrow> 'c \<Rightarrow> ('c core_run) option" where
  "rbsp_core_init b h mode info c =
     (if hal_can_send h = None \<or> hal_milliseconds h = None then None
      else let core = (zero_core b mode info)\<lparr>fc_next_object_id := 1\<rparr>;
               started = (case cb_motion b of
                   None \<Rightarrow> (True, fc_motion core)
                 | Some mb \<Rightarrow> fw_motion_init mb (hal_motion_axis_count h) (fc_motion core))
        in case started of
             (False, q) \<Rightarrow> None
           | (True, q) \<Rightarrow>
               let (now, c1) = hal_ms h c
               in Some (core\<lparr>fc_motion := q, fc_next_transfer_id := 1, fc_last_heartbeat_ms := now\<rparr>, c1))"

text \<open>What a poll reads into the buffer of a streaming object.\<close>

definition uart_fill :: "core_build \<Rightarrow> 'c hal \<Rightarrow> u32 \<Rightarrow> fw_uart_object \<Rightarrow> 'c \<Rightarrow> fw_uart_object \<times> 'c" where
  "uart_fill b h now object c =
     (if length (ou_pending object) < cb_uart_chunk b then
        (let capacity = cb_uart_chunk b - length (ou_pending object);
             (count, data, c1) = hal_read_uart h (ou_port object) capacity c
         in if count \<noteq> 0 \<and> count \<le> capacity
            then (object\<lparr>ou_first_byte_ms := (if ou_pending object = [] then now else ou_first_byte_ms object),
                         ou_pending := ou_pending object @ take count data\<rparr>, c1)
            else (object, c1))
      else (object, c))"

definition uart_due :: "core_build \<Rightarrow> u32 \<Rightarrow> fw_uart_object \<Rightarrow> bool" where
  "uart_due b now object \<longleftrightarrow> length (ou_pending object) = cb_uart_chunk b \<or>
     (ou_pending object \<noteq> [] \<and> now - ou_first_byte_ms object \<ge> cb_uart_flush_ms b)"

definition fw_uart_event :: "fw_uart_object \<Rightarrow> byte list" where
  "fw_uart_event object = encode_packet RBSP_MESSAGE_EVENT (rbsp_command RC_UartRxEvent) 0
     (ou_event_sequence object + 1) (ou_object_id object) 0 (ou_pending object)"

definition poll_uart :: "core_build \<Rightarrow> 'c hal \<Rightarrow> u32 \<Rightarrow> nat \<Rightarrow> 'c core_run \<Rightarrow> 'c core_run" where
  "poll_uart b h now i = (\<lambda>(core, c).
     let object = fc_uart_objects core ! i in
     if \<not> ou_used object \<or> \<not> ou_streaming object then (core, c)
     else let (object1, c1) = uart_fill b h now object c;
              core1 = core\<lparr>fc_uart_objects := (fc_uart_objects core)[i := object1]\<rparr>
       in if \<not> uart_due b now object1 then (core1, c1)
          else let (transfer_id, core2) = fw_allocate_transfer_id core1;
                   (sent, (core3, c3)) = send_packet h (fw_uart_event object1) transfer_id
                     (RBSP_CAN_ID_EVENT_BASE + fc_node_id core2) (core2, c1)
            in if sent
               then (core3\<lparr>fc_uart_objects := (fc_uart_objects core3)[i := object1
                       \<lparr>ou_event_sequence := ou_event_sequence object1 + 1, ou_pending := []\<rparr>]\<rparr>, c3)
               else (core3, c3))"

definition expire_slots :: "core_build \<Rightarrow> u32 \<Rightarrow> fw_core \<Rightarrow> fw_core" where
  "expire_slots b now core = core\<lparr>fc_reassembly := map (\<lambda>slot.
     if rs_active slot \<and> now - rs_last_update_ms slot \<ge> cb_slot_timeout_ms b
     then slot\<lparr>rs_active := False\<rparr> else slot) (fc_reassembly core)\<rparr>"

definition heartbeat :: "core_build \<Rightarrow> 'c hal \<Rightarrow> u32 \<Rightarrow> 'c core_run \<Rightarrow> 'c core_run" where
  "heartbeat b h now = (\<lambda>(core, c).
     if fc_node_id core \<noteq> 0 \<and> now - fc_last_heartbeat_ms core \<ge> cb_heartbeat_ms b then
       (let (transfer_id, core1) = fw_allocate_transfer_id core;
            (sent, (core2, c2)) = send_packet h
              (encode_packet RBSP_MESSAGE_EVENT (rbsp_command RC_Heartbeat) 0 0 (fc_node_id core) 0
                (fi_uuid (fc_info core) @ [RBSP_PROTOCOL_VERSION]))
              transfer_id (RBSP_CAN_ID_EVENT_BASE + fc_node_id core) (core1, c)
        in (core2\<lparr>fc_last_heartbeat_ms := now\<rparr>, c2))
     else (core, c))"

definition rbsp_core_poll :: "core_build \<Rightarrow> 'c hal \<Rightarrow> 'c core_run \<Rightarrow> 'c core_run" where
  "rbsp_core_poll b h = (\<lambda>(core, c).
     let (now, c1) = hal_ms h c in
     if fc_bootloader_request_pending core \<and>
        now - fc_bootloader_request_ms core \<ge> RBSP_BOOTLOADER_RESET_DELAY_MS
     then (core\<lparr>fc_bootloader_request_pending := False\<rparr>,
           case hal_enter_bootloader h of None \<Rightarrow> c1
           | Some enter \<Rightarrow> enter c1 (fc_bootloader_request_mode core))
     else let run2 = (expire_slots b now core, c1);
              run3 = (if fc_node_id core \<noteq> 0 \<and> hal_uart_read h \<noteq> None
                      then fold (poll_uart b h now) [0..<cb_uart_count b] run2 else run2)
       in heartbeat b h now run3)"

end
