(* ===== verification/Firmware_Node.thy ===== *)
theory Firmware_Node
  imports Firmware_Core Firmware_Queue
begin

text \<open>
  The firmware's node over everything it may go through: the invariant of its cache, slots, objects
  and motion queue, and that a repeated request is answered from the cache and not executed again.
\<close>

subsection \<open>What a handler may change\<close>

definition core_rest where
  "core_rest core = (fc_cache core, fc_cache_cursor core, fc_reassembly core, fc_can_mode core, fc_info core,
     fc_next_transfer_id core)"

lemma status_answer_simps [simp]:
  "fst (status_answer request status oid data run) = Some (make_status_response request status oid data, None)"
  "snd (status_answer request status oid data run) = run"
  by (simp_all add: status_answer_def)

text \<open>The length of a status response.\<close>

lemma encode_packet_length [simp]:
  "length (encode_packet mt cmd s r oid flags payload) = RBSP_HEADER_SIZE + length payload"
  by (simp add: encode_packet_def Let_def core_consts)

lemma make_status_response_length [simp]:
  "length (make_status_response request status oid data) = RBSP_HEADER_SIZE + 1 + length data"
  by (simp add: make_status_response_def)

text \<open>
  A handler leaves the cache, the slots and the transfer counter alone. When it changes the node or
  calls the board, its response fits a cache entry, except for the answer with the motion status.
\<close>

definition small_answer :: "core_build \<Rightarrow> 'c core_run \<Rightarrow> 'c answer \<Rightarrow> bool" where
  "small_answer b run a \<longleftrightarrow>
     core_rest (fst (snd a)) = core_rest (fst run) \<and>
     (snd a \<noteq> run \<longrightarrow> (\<exists>response boot. fst a = Some (response, boot) \<and>
        length response \<le> cb_cache_response_size b))"

lemma small_status:
  assumes "core_rest core1 = core_rest core" "64 \<le> cb_cache_response_size b" "length data \<le> 39"
  shows "small_answer b (core, c) (status_answer request status oid data (core1, c1))"
  using assms by (simp add: small_answer_def core_consts)

lemma small_same: "small_answer b run (status_answer request status oid data run)"
  by (simp add: small_answer_def)

lemma small_none: "small_answer b run (None, run)" by (simp add: small_answer_def)

lemmas small_intros = small_status small_same small_none

lemma on_discovery_small: "small_answer b run (on_discovery request run)"
  by (cases run) (simp add: on_discovery_def Let_def small_answer_def)

lemma on_node_assign_small:
  "64 \<le> cb_cache_response_size b \<Longrightarrow> small_answer b run (on_node_assign request run)"
  by (cases run) (auto simp: on_node_assign_def Let_def core_rest_def intro!: small_intros)

lemma on_get_info_small: "small_answer b run (on_get_info request run)"
  by (simp add: on_get_info_def small_same)

lemma on_get_capability_small: "small_answer b run (on_get_capability b h request run)"
  by (simp add: on_get_capability_def small_same)

lemma on_ping_small: "small_answer b run (on_ping b request run)"
  by (simp add: on_ping_def small_same)

lemma on_bootloader_small: "small_answer b run (on_bootloader_enter h request run)"
  by (auto simp: on_bootloader_enter_def small_answer_def)

lemma on_gpio_create_small:
  assumes "64 \<le> cb_cache_response_size b"
  shows "small_answer b run (on_gpio_create h request run)"
  using assms by (cases run) (auto simp: on_gpio_create_def Let_def core_rest_def
      intro!: small_intros split: option.split prod.split bool.split)

lemma on_gpio_read_small:
  assumes "64 \<le> cb_cache_response_size b"
  shows "small_answer b run (on_gpio_read h request run)"
  using assms by (cases run) (auto simp: on_gpio_read_def Let_def
      intro!: small_intros split: option.split prod.split bool.split)

lemma on_gpio_write_small:
  assumes "64 \<le> cb_cache_response_size b"
  shows "small_answer b run (on_gpio_write h request run)"
  using assms by (cases run) (auto simp: on_gpio_write_def Let_def
      intro!: small_intros split: option.split prod.split bool.split)

lemma on_uart_create_small:
  assumes "64 \<le> cb_cache_response_size b"
  shows "small_answer b run (on_uart_create b h request run)"
  using assms by (cases run) (auto simp: on_uart_create_def Let_def core_rest_def
      intro!: small_intros split: option.split prod.split bool.split)

lemma on_uart_read_small:
  assumes "64 \<le> cb_cache_response_size b"
  shows "small_answer b run (on_uart_read b h request run)"
proof -
  have ok: "small_answer b (core, c) (status_answer request FS_Ok oid (take n data) (core, c1))"
    if "n \<le> cb_cache_response_size b - RBSP_HEADER_SIZE - 1" for core c oid n data c1
    using that assms by (auto simp: small_answer_def core_consts)
  have fail: "small_answer b (core, c) (status_answer request status oid [] (core, c1))"
    for core c status oid c1 using assms by (intro small_status) simp_all
  show ?thesis
    by (cases run) (auto simp: on_uart_read_def Let_def not_less intro!: ok fail
        split: option.split prod.split)
qed

lemma on_uart_write_small:
  assumes "64 \<le> cb_cache_response_size b"
  shows "small_answer b run (on_uart_write h request run)"
  using assms by (cases run) (auto simp: on_uart_write_def Let_def
      intro!: small_intros split: option.split prod.split bool.split)

lemma accepted_bytes_length [simp]: "length (accepted_bytes seg) = 24"
  by (simp add: accepted_bytes_def)

lemma on_motion_enqueue_small:
  assumes "64 \<le> cb_cache_response_size b"
  shows "small_answer b run (on_motion_enqueue mb h request run)"
  using assms by (cases run) (auto simp: on_motion_enqueue_def Let_def core_rest_def
      intro!: small_intros split: option.split prod.split sum.split)

lemma motion_tick_rest: "core_rest (fst (snd (rbsp_core_motion_tick mb h (core, c)))) = core_rest core"
  by (simp add: rbsp_core_motion_tick_def core_rest_def split: prod.split)

lemma on_motion_abort_small:
  assumes "64 \<le> cb_cache_response_size b"
  shows "small_answer b run (on_motion_abort mb h request run)"
proof -
  obtain core c where run: "run = (core, c)" by fastforce
  define stopped where "stopped = core\<lparr>fc_motion := fw_motion_abort mb MF_Aborted (fc_motion core)\<rparr>"
  obtain core1 c1 where t: "snd (rbsp_core_motion_tick mb h (stopped, c)) = (core1, c1)" by fastforce
  have "core_rest core1 = core_rest core"
    using motion_tick_rest [of mb h stopped c] t by (simp add: stopped_def core_rest_def)
  then show ?thesis using assms t
    by (auto simp: run on_motion_abort_def Let_def simp flip: stopped_def intro!: small_intros)
qed

lemma on_motion_clear_small:
  assumes "64 \<le> cb_cache_response_size b"
  shows "small_answer b run (on_motion_clear_fault h request run)"
  using assms by (cases run) (auto simp: on_motion_clear_fault_def Let_def core_rest_def
      intro!: small_intros split: prod.split bool.split)

lemma on_motion_status_rest: "core_rest (fst (snd (on_motion_status b mb h request run))) = core_rest (fst run)"
  by (cases run) (simp add: on_motion_status_def Let_def split: prod.split)

lemmas handler_small = on_discovery_small on_node_assign_small on_get_info_small on_get_capability_small
  on_ping_small on_bootloader_small on_gpio_create_small on_gpio_read_small on_gpio_write_small
  on_uart_create_small on_uart_read_small on_uart_write_small on_motion_enqueue_small on_motion_abort_small
  on_motion_clear_small small_same

lemma dispatch_small:
  assumes "64 \<le> cb_cache_response_size b" "rq_command request \<noteq> rbsp_command RC_MotionStatus"
  shows "small_answer b run (fw_dispatch b h request run)"
  unfolding fw_dispatch_def Let_def using assms
  by (simp add: handler_small split: option.split)

lemma dispatch_rest:
  assumes "64 \<le> cb_cache_response_size b"
  shows "core_rest (fst (snd (fw_dispatch b h request run))) = core_rest (fst run)"
proof (cases "rq_command request = rbsp_command RC_MotionStatus")
  case False
  then show ?thesis using dispatch_small [OF assms False, of run h] unfolding small_answer_def by blast
next
  case True
  then show ?thesis by (simp add: fw_dispatch_def Let_def on_motion_status_rest split: option.split)
qed

subsection \<open>The cache\<close>

definition config_ok :: "core_build \<Rightarrow> bool" where
  "config_ok b \<longleftrightarrow> 256 \<le> cb_max_packet_size b \<and> cb_max_packet_size b \<le> 2048 \<and>
     64 \<le> cb_cache_response_size b \<and> 2 \<le> cb_cache_entries b \<and>
     cb_uart_chunk b + RBSP_HEADER_SIZE \<le> cb_max_packet_size b"

definition cache_key :: "cache_entry \<Rightarrow> u32 \<times> u32" where
  "cache_key e = (ce_session_id e, ce_request_id e)"

definition fw_cache_ok :: "core_build \<Rightarrow> fw_core \<Rightarrow> bool" where
  "fw_cache_ok b core \<longleftrightarrow>
     length (fc_cache core) = cb_cache_entries b \<and> fc_cache_cursor core < cb_cache_entries b \<and>
     (\<forall>i < cb_cache_entries b. \<forall>j < cb_cache_entries b. i \<noteq> j \<longrightarrow>
        ce_valid (fc_cache core ! i) \<longrightarrow> ce_valid (fc_cache core ! j) \<longrightarrow>
        cache_key (fc_cache core ! i) \<noteq> cache_key (fc_cache core ! j)) \<and>
     (\<forall>e \<in> set (fc_cache core). length (ce_response e) \<le> cb_cache_response_size b)"

lemma find_cache_None:
  "find_cache core r = None \<longleftrightarrow> (\<forall>e \<in> set (fc_cache core). \<not> caches r e)"
  by (auto simp: find_cache_def find_None_iff)

lemma find_cache_at:
  assumes "fw_cache_ok b core" "k < cb_cache_entries b" "fc_cache core ! k = cache_record r response"
  shows "find_cache core r = Some (cache_record r response)"
proof -
  have hit: "caches r (fc_cache core ! k)" using assms(3) by (simp add: caches_def cache_record_def)
  have "\<exists>e. find_cache core r = Some e"
  proof (rule ccontr)
    assume "\<not> ?thesis"
    then have "find_cache core r = None" by simp
    then show False using hit assms(1,2) nth_mem [of k "fc_cache core"]
      by (auto simp: find_cache_None fw_cache_ok_def)
  qed
  then obtain e where e: "find_cache core r = Some e" ..
  then obtain i where i: "i < length (fc_cache core)" "caches r (fc_cache core ! i)" "e = fc_cache core ! i"
    by (auto simp: find_cache_def find_Some_iff)
  have "i = k"
  proof (rule ccontr)
    assume "i \<noteq> k"
    moreover have "cache_key (fc_cache core ! i) = cache_key (fc_cache core ! k)"
      using i(2) hit by (simp add: caches_def cache_key_def)
    ultimately show False using assms(1,2) i(1,2) hit by (auto simp: fw_cache_ok_def caches_def)
  qed
  then show ?thesis using e i(3) assms(3) by simp
qed

text \<open>What any operation does to the cache: nothing, or one new response under a fresh key.\<close>

definition cache_step :: "core_build \<Rightarrow> fw_core \<Rightarrow> fw_core \<Rightarrow> bool" where
  "cache_step b core core' \<longleftrightarrow>
     fc_cache core' = fc_cache core \<and> fc_cache_cursor core' = fc_cache_cursor core \<or>
     (\<exists>r response. find_cache core r = None \<and> length response \<le> cb_cache_response_size b \<and>
        fc_cache core' = (fc_cache core)[fc_cache_cursor core := cache_record r response] \<and>
        fc_cache_cursor core' = (fc_cache_cursor core + 1) mod cb_cache_entries b)"

lemma cache_step_ok:
  assumes "fw_cache_ok b core" "cache_step b core core'"
  shows "fw_cache_ok b core'"
  using assms(2) unfolding cache_step_def
proof (elim disjE exE conjE)
  assume "fc_cache core' = fc_cache core" "fc_cache_cursor core' = fc_cache_cursor core"
  with assms(1) show ?thesis by (simp add: fw_cache_ok_def)
next
  fix r response
  assume fresh: "find_cache core r = None" and len: "length response \<le> cb_cache_response_size b"
    and new: "fc_cache core' = (fc_cache core)[fc_cache_cursor core := cache_record r response]"
      "fc_cache_cursor core' = (fc_cache_cursor core + 1) mod cb_cache_entries b"
  have none: "\<not> (ce_valid (fc_cache core ! i) \<and> cache_key (fc_cache core ! i) = cache_key (cache_record r response))"
    if "i < cb_cache_entries b" for i
    using fresh that assms(1) nth_mem [of i "fc_cache core"]
    by (auto simp: find_cache_None caches_def cache_key_def cache_record_def fw_cache_ok_def)
  show ?thesis
    using assms(1) len none new set_update_subset_insert [of "fc_cache core" "fc_cache_cursor core" "cache_record r response"]
    by (auto simp: fw_cache_ok_def nth_list_update cache_record_def)
      (metis none fw_cache_ok_def)+
qed

subsection \<open>The cache under the operations\<close>

definition cache_view where
  "cache_view core = (fc_cache core, fc_cache_cursor core)"

lemma send_packet_core [simp]: "fst (snd (send_packet h packet tid can_id run)) = fst run"
  by (cases run) (simp add: send_packet_def split: prod.split)

lemma send_response_core:
  "fst (snd (send_response b h packet (core, c))) = snd (fw_allocate_transfer_id core)"
  by (simp add: send_response_def split: prod.split)

lemma allocate_view [simp]: "cache_view (snd (fw_allocate_transfer_id core)) = cache_view core"
  by (simp add: fw_allocate_transfer_id_def cache_view_def Let_def)

lemma cache_step_view:
  "cache_view core1 = cache_view core \<Longrightarrow> cache_view core2 = cache_view core' \<Longrightarrow>
    cache_step b core1 core2 = cache_step b core core'"
  by (simp add: cache_step_def cache_view_def find_cache_def)

lemma cache_step_refl: "cache_view core' = cache_view core \<Longrightarrow> cache_step b core core'"
  by (simp add: cache_step_def cache_view_def)

lemma set_slot_view [simp]: "cache_view (set_slot i slot core) = cache_view core"
  by (simp add: set_slot_def cache_view_def)

lemma deactivate_view [simp]: "cache_view (deactivate i core) = cache_view core"
  by (simp add: deactivate_def)

text \<open>A new request: executed, cached when it fits, and answered.\<close>

lemma fw_process_new:
  assumes "find_cache core r = None" "fw_dispatch b h r (core, c) = (Some (response, boot), (core1, c1))"
  shows "cache_view (fst (snd (fw_process_request b h r (core, c)))) =
    cache_view (fw_insert_cache b r response core1)"
proof -
  obtain sent core2 c2 where s: "send_response b h response (fw_insert_cache b r response core1, c1) =
      (sent, (core2, c2))" by (metis prod.collapse)
  have "cache_view core2 = cache_view (fw_insert_cache b r response core1)"
    using send_response_core [of b h response "fw_insert_cache b r response core1" c1] s by simp
  moreover have "cache_view (fst (request_bootloader h mode (core2, c2))) = cache_view core2" for mode
    by (simp add: request_bootloader_def cache_view_def split: prod.split)
  ultimately show ?thesis
    using assms s by (simp add: fw_process_request_def split: option.split)
qed

lemma fw_process_cache:
  assumes "64 \<le> cb_cache_response_size b"
  shows "cache_step b core (fst (snd (fw_process_request b h r (core, c))))"
proof (cases "find_cache core r")
  case (Some entry)
  have "cache_view (fst (snd (fw_process_request b h r (core, c)))) = cache_view core"
    using Some send_response_core [of b h "ce_response entry" core c] by (simp add: fw_process_request_def)
  then show ?thesis by (rule cache_step_refl)
next
  case None
  obtain a core1 c1 where d: "fw_dispatch b h r (core, c) = (a, (core1, c1))" by (metis prod.collapse)
  have rest: "cache_view core1 = cache_view core"
    using dispatch_rest [OF assms, of h r "(core, c)"] d by (simp add: core_rest_def cache_view_def)
  show ?thesis
  proof (cases a)
    case None': None
    then show ?thesis using None d rest by (simp add: fw_process_request_def cache_step_refl)
  next
    case (Some p)
    obtain response boot where "p = (response, boot)" by fastforce
    then have "cache_view (fst (snd (fw_process_request b h r (core, c)))) =
        cache_view (fw_insert_cache b r response core1)"
      using fw_process_new [OF None] d Some by simp
    then have "cache_step b core (fst (snd (fw_process_request b h r (core, c)))) =
        cache_step b core1 (fw_insert_cache b r response core1)"
      using rest by (intro cache_step_view) simp_all
    moreover have "find_cache core1 r = None" using None rest by (simp add: find_cache_def cache_view_def)
    then have "cache_step b core1 (fw_insert_cache b r response core1)"
      unfolding cache_step_def fw_insert_cache_def
      by (cases "length response > cb_cache_response_size b") (simp, simp add: not_less, blast)
    ultimately show ?thesis by simp
  qed
qed

lemma slot_for_view: "slot_for sid tid fst_frag core = Some (i, core1) \<Longrightarrow> cache_view core1 = cache_view core"
  by (auto simp: slot_for_def allocate_slot_def split: option.splits if_splits)

lemma repeated_view: "cache_view (fst (repeated_fragment h i s payload (core, c))) = cache_view core"
  by (simp add: repeated_fragment_def Let_def split: prod.split)

lemma next_fragment_cache:
  assumes "64 \<le> cb_cache_response_size b"
  shows "cache_step b core (fst (next_fragment b h i is_last payload (core, c)))"
proof -
  obtain now c1 where ms: "hal_ms h c = (now, c1)" by fastforce
  define slot1 where "slot1 = (fc_reassembly core ! i)\<lparr>rs_packet := rs_packet (fc_reassembly core ! i) @ payload,
    rs_next_sequence := rs_next_sequence (fc_reassembly core ! i) + 1, rs_last_update_ms := now\<rparr>"
  define core1 where "core1 = set_slot i slot1 core"
  have view: "cache_view core1 = cache_view core" by (simp add: core1_def)
  have eq: "cache_view (fst (next_fragment b h i is_last payload (core, c))) =
      cache_view (if is_last then case decode_request (rs_packet slot1) of
          None \<Rightarrow> core1 | Some r \<Rightarrow> fst (snd (fw_process_request b h r (core1, c1))) else core1)"
    using ms by (simp add: next_fragment_def Let_def slot1_def core1_def split: option.split prod.split)
  have "cache_step b core1 (if is_last then case decode_request (rs_packet slot1) of
      None \<Rightarrow> core1 | Some r \<Rightarrow> fst (snd (fw_process_request b h r (core1, c1))) else core1)"
    by (simp add: cache_step_refl fw_process_cache [OF assms] split: option.split)
  then show ?thesis using cache_step_view [OF view sym [OF eq]] by simp
qed

lemma accept_cache:
  assumes "64 \<le> cb_cache_response_size b"
  shows "cache_step b core (fst (rbsp_core_accept_can b h frame (core, c)))"
proof (cases "accept_frame core frame")
  case None
  then show ?thesis by (simp add: rbsp_core_accept_can_def cache_step_refl)
next
  case (Some f)
  obtain tid s is_first is_last payload where f: "f = (tid, s, is_first, is_last, payload)" by (cases f)
  show ?thesis
  proof (cases "slot_for (bf_identifier frame) tid is_first core")
    case None
    then show ?thesis using Some f by (simp add: rbsp_core_accept_can_def cache_step_refl)
  next
    case slot: (Some p)
    obtain i core1 where p: "p = (i, core1)" by fastforce
    have view: "cache_view core1 = cache_view core" using slot_for_view slot p by simp
    have "cache_step b core1 (fst (rbsp_core_accept_can b h frame (core, c)))"
      using Some f slot p
      by (simp add: rbsp_core_accept_can_def Let_def next_fragment_cache [OF assms]
          cache_step_refl [OF repeated_view] cache_step_refl [OF deactivate_view])
    then show ?thesis using cache_step_view [OF view refl] by simp
  qed
qed

lemma poll_uart_view: "cache_view (fst (poll_uart b h now i (core, c))) = cache_view core"
proof -
  obtain object c1 where fill: "uart_fill b h now (fc_uart_objects core ! i) c = (object, c1)" by fastforce
  define core1 where "core1 = core\<lparr>fc_uart_objects := (fc_uart_objects core)[i := object]\<rparr>"
  obtain tid core2 where tid: "fw_allocate_transfer_id core1 = (tid, core2)" by fastforce
  have view: "cache_view core2 = cache_view core"
    using allocate_view [of core1] tid by (simp add: core1_def cache_view_def)
  obtain sent core3 c3 where send: "send_packet h (fw_uart_event object) tid
      (RBSP_CAN_ID_EVENT_BASE + fc_node_id core2) (core2, c1) = (sent, (core3, c3))" by (metis prod.collapse)
  have "core3 = core2" using arg_cong [OF send, of "\<lambda>x. fst (snd x)"] by simp
  then show ?thesis
    using fill tid send view by (auto simp: poll_uart_def Let_def core1_def cache_view_def)
qed

lemma polls_view: "cache_view (fst (fold (poll_uart b h now) is run)) = cache_view (fst run)"
proof (induction "is" arbitrary: run)
  case (Cons i "is")
  then show ?case using poll_uart_view [of b h now i "fst run" "snd run"] by simp
qed simp

lemma heartbeat_view: "cache_view (fst (heartbeat b h now (core, c))) = cache_view core"
proof (cases "fc_node_id core \<noteq> 0 \<and> now - fc_last_heartbeat_ms core \<ge> cb_heartbeat_ms b")
  case False
  then show ?thesis by (auto simp: heartbeat_def)
next
  case True
  obtain tid core1 where tid: "fw_allocate_transfer_id core = (tid, core1)" by fastforce
  then have "cache_view core1 = cache_view core" using allocate_view [of core] by simp
  moreover obtain sent core2 c2 where send: "send_packet h
      (encode_packet RBSP_MESSAGE_EVENT (rbsp_command RC_Heartbeat) 0 0 (fc_node_id core) 0
        (fi_uuid (fc_info core) @ [RBSP_PROTOCOL_VERSION]))
      tid (RBSP_CAN_ID_EVENT_BASE + fc_node_id core) (core1, c) = (sent, (core2, c2))"
    by (metis prod.collapse)
  moreover have "core2 = core1"
    using arg_cong [OF send, of "\<lambda>x. fst (snd x)"] by simp
  moreover have "heartbeat b h now (core, c) = (core2\<lparr>fc_last_heartbeat_ms := now\<rparr>, c2)"
    using True tid send by (simp add: heartbeat_def)
  ultimately show ?thesis by (simp add: cache_view_def)
qed

lemma poll_view: "cache_view (fst (rbsp_core_poll b h (core, c))) = cache_view core"
proof -
  obtain now c1 where ms: "hal_ms h c = (now, c1)" by fastforce
  have exp: "cache_view (expire_slots b now core) = cache_view core"
    by (simp add: expire_slots_def cache_view_def)
  have run3: "cache_view (fst (if fc_node_id core \<noteq> 0 \<and> hal_uart_read h \<noteq> None
      then fold (poll_uart b h now) [0..<cb_uart_count b] (expire_slots b now core, c1)
      else (expire_slots b now core, c1))) = cache_view core"
    by (simp add: polls_view exp)
  have hb: "cache_view (fst (heartbeat b h now run)) = cache_view (fst run)" for run
    using heartbeat_view [of b h now "fst run" "snd run"] by simp
  show ?thesis
  proof (cases "fc_bootloader_request_pending core \<and>
      now - fc_bootloader_request_ms core \<ge> RBSP_BOOTLOADER_RESET_DELAY_MS")
    case True
    then show ?thesis using ms by (simp add: rbsp_core_poll_def cache_view_def)
  next
    case False
    then have "rbsp_core_poll b h (core, c) = heartbeat b h now
        (if fc_node_id core \<noteq> 0 \<and> hal_uart_read h \<noteq> None
         then fold (poll_uart b h now) [0..<cb_uart_count b] (expire_slots b now core, c1)
         else (expire_slots b now core, c1))"
      unfolding rbsp_core_poll_def prod.case ms Let_def by (simp only: if_False)
    then show ?thesis using hb run3 by simp
  qed
qed

lemma motion_tick_view: "cache_view (fst (snd (rbsp_core_motion_tick mb h (core, c)))) = cache_view core"
  using motion_tick_rest [of mb h core c] by (simp add: core_rest_def cache_view_def)

subsection \<open>The life of a node\<close>

text \<open>
  Any sequence of frames, polls, timer ticks and changes of the world behind the board's functions;
  the number counts the requests that were entered into the cache on the way.
\<close>

inductive fw_life :: "core_build \<Rightarrow> 'c hal \<Rightarrow> 'c core_run \<Rightarrow> nat \<Rightarrow> 'c core_run \<Rightarrow> bool"
  for b h start where
  fl_start: "fw_life b h start 0 start"
| fl_accept: "fw_life b h start n run \<Longrightarrow>
    fw_life b h start (n + (if fc_cache_cursor (fst (rbsp_core_accept_can b h frame run)) =
        fc_cache_cursor (fst run) then 0 else 1)) (rbsp_core_accept_can b h frame run)"
| fl_poll: "fw_life b h start n run \<Longrightarrow> fw_life b h start n (rbsp_core_poll b h run)"
| fl_tick: "fw_life b h start n run \<Longrightarrow> cb_motion b = Some mb \<Longrightarrow>
    fw_life b h start n (snd (rbsp_core_motion_tick mb h run))"
| fl_world: "fw_life b h start n (core, c) \<Longrightarrow> fw_life b h start n (core, c')"

definition fw_running :: "core_build \<Rightarrow> 'c hal \<Rightarrow> 'c core_run \<Rightarrow> bool" where
  "fw_running b h run \<longleftrightarrow> (\<exists>mode info c start n.
     rbsp_core_init b h mode info c = Some start \<and> fw_life b h start n run)"

lemma fw_cache_ok_view: "cache_view core' = cache_view core \<Longrightarrow> fw_cache_ok b core' = fw_cache_ok b core"
  by (simp add: fw_cache_ok_def cache_view_def)

lemma life_cache_ok:
  assumes "config_ok b" "fw_cache_ok b (fst start)" "fw_life b h start n run"
  shows "fw_cache_ok b (fst run)"
  using assms(3,2)
proof (induction rule: fw_life.induct)
  case (fl_accept n run frame)
  have "64 \<le> cb_cache_response_size b" using assms(1) by (simp add: config_ok_def)
  then have "cache_step b (fst run) (fst (rbsp_core_accept_can b h frame run))"
    using accept_cache [of b "fst run" h frame "snd run"] by simp
  then show ?case using fl_accept cache_step_ok by blast
next
  case (fl_poll n run)
  have "cache_view (fst (rbsp_core_poll b h run)) = cache_view (fst run)"
    using poll_view [of b h "fst run" "snd run"] by simp
  then show ?case using fl_poll fw_cache_ok_view by blast
next
  case (fl_tick n run mb)
  have "cache_view (fst (snd (rbsp_core_motion_tick mb h run))) = cache_view (fst run)"
    using motion_tick_view [of mb h "fst run" "snd run"] by simp
  then show ?case using fl_tick fw_cache_ok_view by blast
qed simp_all

lemma init_fields:
  assumes "rbsp_core_init b h mode info c = Some start"
  shows "\<exists>q now. fst start = (zero_core b mode info)\<lparr>fc_next_object_id := 1, fc_motion := q,
      fc_next_transfer_id := 1, fc_last_heartbeat_ms := now\<rparr> \<and>
    (\<forall>mb. cb_motion b = Some mb \<longrightarrow>
       fw_motion_init mb (hal_motion_axis_count h) (fc_motion (zero_core b mode info)) = (True, q))"
proof -
  obtain now c1 where ms: "hal_ms h c = (now, c1)" by fastforce
  show ?thesis
  proof (cases "cb_motion b")
    case None
    with assms ms show ?thesis
      by (intro exI [of _ "fc_motion (zero_core b mode info)"] exI [of _ now])
        (auto simp: rbsp_core_init_def Let_def split: if_splits)
  next
    case (Some mb)
    with assms ms show ?thesis
      by (auto simp: rbsp_core_init_def Let_def split: if_splits prod.splits bool.splits)
  qed
qed

lemma init_cache_ok:
  assumes "config_ok b" "rbsp_core_init b h mode info c = Some start"
  shows "fw_cache_ok b (fst start)"
proof -
  have "cache_view (fst start) = cache_view (zero_core b mode info)"
    using init_fields [OF assms(2)] by (auto simp: cache_view_def)
  moreover have "fw_cache_ok b (zero_core b mode info)"
    using assms(1) by (simp add: fw_cache_ok_def zero_core_def config_ok_def)
  ultimately show ?thesis using fw_cache_ok_view by blast
qed

lemma running_cache_ok:
  assumes "config_ok b" "fw_running b h run"
  shows "fw_cache_ok b (fst run)"
proof -
  obtain mode info c start n where i: "rbsp_core_init b h mode info c = Some start"
    and l: "fw_life b h start n run"
    using assms(2) unfolding fw_running_def by (elim exE conjE)
  from life_cache_ok [OF assms(1) init_cache_ok [OF assms(1) i] l] show ?thesis .
qed

text \<open>An entry stays until as many new ones have come as the cache holds.\<close>

lemma life_keeps:
  assumes "config_ok b" "fw_life b h start n run" "n < cb_cache_entries b"
    and "fw_cache_ok b (fst start)" "k < cb_cache_entries b"
    and "fc_cache (fst start) ! k = e" "fc_cache_cursor (fst start) = (k + 1) mod cb_cache_entries b"
  shows "fc_cache (fst run) ! k = e \<and> fc_cache_cursor (fst run) = (k + 1 + n) mod cb_cache_entries b"
  using assms(2,3)
proof (induction rule: fw_life.induct)
  case fl_start
  then show ?case using assms(6,7) by simp
next
  case (fl_accept n run frame)
  let ?core = "fst run" and ?core' = "fst (rbsp_core_accept_can b h frame run)" and ?n = "cb_cache_entries b"
  have big: "64 \<le> cb_cache_response_size b" "2 \<le> ?n" using assms(1) by (simp_all add: config_ok_def)
  have step: "cache_step b ?core ?core'" using accept_cache [OF big(1), of ?core h frame "snd run"] by simp
  have ih: "fc_cache ?core ! k = e" "fc_cache_cursor ?core = (k + 1 + n) mod ?n"
    using fl_accept by auto
  show ?case
  proof (cases "fc_cache_cursor ?core' = fc_cache_cursor ?core")
    case True
    have "(fc_cache_cursor ?core + 1) mod ?n \<noteq> fc_cache_cursor ?core"
      using ring_slots_differ [of 0 1 ?n "fc_cache_cursor ?core"] big(2) ih(2) by simp
    then have "fc_cache ?core' = fc_cache ?core" using step True by (auto simp: cache_step_def)
    then show ?thesis using True ih by simp
  next
    case False
    then obtain x where x: "fc_cache ?core' = (fc_cache ?core)[fc_cache_cursor ?core := x]"
      "fc_cache_cursor ?core' = (fc_cache_cursor ?core + 1) mod ?n"
      using step by (auto simp: cache_step_def)
    have "n + 1 < ?n" using fl_accept.prems False by simp
    then have "fc_cache_cursor ?core \<noteq> k"
      using ring_slots_differ [of 0 "1 + n" ?n k] ih(2) assms(5) by (simp add: add.assoc)
    then show ?thesis using x ih False by (simp add: mod_Suc_eq)
  qed
next
  case (fl_poll n run)
  then show ?case using poll_view [of b h "fst run" "snd run"] by (simp add: cache_view_def)
next
  case (fl_tick n run mb)
  then show ?case using motion_tick_view [of mb h "fst run" "snd run"] by (simp add: cache_view_def)
qed simp

subsection \<open>A repeated request\<close>

lemma executed_cached:
  assumes "config_ok b" "fw_cache_ok b core" "find_cache core r = None"
    and "rq_command r \<noteq> rbsp_command RC_MotionStatus"
    and "fw_dispatch b h r (core, c) = (Some (response, boot), (core1, c1))" "(core1, c1) \<noteq> (core, c)"
    and "fw_process_request b h r (core, c) = (sent, run1)"
  shows "fw_cache_ok b (fst run1)" "fc_cache (fst run1) ! fc_cache_cursor core = cache_record r response"
    "fc_cache_cursor (fst run1) = (fc_cache_cursor core + 1) mod cb_cache_entries b"
proof -
  have big: "64 \<le> cb_cache_response_size b" using assms(1) by (simp add: config_ok_def)
  have small: "length response \<le> cb_cache_response_size b" "cache_view core1 = cache_view core"
    using dispatch_small [OF big assms(4), of "(core, c)" h] assms(5,6)
    by (simp_all add: small_answer_def core_rest_def cache_view_def)
  have step: "cache_step b core (fst run1)" using fw_process_cache [OF big, of core h r c] assms(7) by simp
  show "fw_cache_ok b (fst run1)" using cache_step_ok [OF assms(2) step] .
  have "cache_view (fst run1) = cache_view (fw_insert_cache b r response core1)"
    using fw_process_new [OF assms(3,5)] assms(7) by simp
  then show "fc_cache (fst run1) ! fc_cache_cursor core = cache_record r response"
    "fc_cache_cursor (fst run1) = (fc_cache_cursor core + 1) mod cb_cache_entries b"
    using small assms(2) by (simp_all add: fw_insert_cache_def cache_view_def fw_cache_ok_def)
qed

text \<open>An example: a node with pins and neither serial ports nor motion.\<close>

definition demo_core_build :: core_build where
  "demo_core_build = \<lparr>cb_max_packet_size = 256, cb_cache_response_size = 64, cb_cache_entries = 2,
     cb_slots = 1, cb_slot_timeout_ms = 500, cb_gpio_count = 2, cb_uart_count = 0, cb_uart_chunk = 64,
     cb_uart_flush_ms = 10, cb_heartbeat_ms = 500, cb_provisional_id = 1, cb_motion = None\<rparr>"

definition demo_hal :: "unit hal" where
  "demo_hal = \<lparr>hal_can_send = Some (\<lambda>c frame. (True, c)), hal_milliseconds = Some (\<lambda>c. (0, c)),
     hal_gpio_configure = Some (\<lambda>c pin direction v. (True, c)), hal_gpio_write = Some (\<lambda>c pin v. (True, c)),
     hal_gpio_read = Some (\<lambda>c pin v. (True, v, c)), hal_uart_configure = None, hal_uart_read = None,
     hal_uart_write = None, hal_nanoseconds = None, hal_motion_axis_count = 0,
     hal_motion_set_enable = None, hal_motion_set_direction = None, hal_motion_set_step = None,
     hal_motion_limit_active = None, hal_enter_bootloader = None\<rparr>"

definition fw_demo_info :: fw_node_info where
  "fw_demo_info = \<lparr>fi_uuid = replicate 16 7, fi_major = 1, fi_minor = 0, fi_patch = 0, fi_board_type = 3\<rparr>"

definition fw_demo_node :: fw_core where
  "fw_demo_node = (zero_core demo_core_build RBSP_CAN_FD fw_demo_info)
     \<lparr>fc_next_object_id := 1, fc_next_transfer_id := 1\<rparr>"

definition fw_demo_create :: fw_request where
  "fw_demo_create = \<lparr>rq_command = rbsp_command RC_GpioCreate, rq_session_id = 1, rq_request_id = 5,
     rq_object_id = 0, rq_flags = 0, rq_crc = 0, rq_payload = [4, 0, 1, 0]\<rparr>"

lemma demo_config: "config_ok demo_core_build"
  by (simp add: config_ok_def demo_core_build_def core_consts)

lemma demo_running: "fw_running demo_core_build demo_hal (fw_demo_node, ())"
proof -
  have "rbsp_core_init demo_core_build demo_hal RBSP_CAN_FD fw_demo_info () = Some (fw_demo_node, ())"
    by (simp add: rbsp_core_init_def demo_hal_def demo_core_build_def fw_demo_node_def zero_core_def hal_ms_def Let_def)
  then show ?thesis unfolding fw_running_def using fl_start by blast
qed

lemma fw_demo_created:
  "find_cache fw_demo_node fw_demo_create = None"
  "\<exists>core1. fw_dispatch demo_core_build demo_hal fw_demo_create (fw_demo_node, ()) =
    (Some (make_status_response fw_demo_create FS_Ok 1 [], None), (core1, ())) \<and> core1 \<noteq> fw_demo_node"
proof -
  show "find_cache fw_demo_node fw_demo_create = None"
    by (simp add: find_cache_None fw_demo_node_def zero_core_def caches_def demo_core_build_def)
  have "fw_dispatch demo_core_build demo_hal fw_demo_create (fw_demo_node, ()) =
      on_gpio_create demo_hal fw_demo_create (fw_demo_node, ())"
    by (simp add: fw_dispatch_def fw_demo_create_def Let_def)
  moreover have "first_free og_used (fc_gpio_objects fw_demo_node) = Some 0" "fc_next_object_id fw_demo_node = 1"
    "\<not> list_ex (\<lambda>object. og_used object \<and> og_pin object = pin) (fc_gpio_objects fw_demo_node)" for pin
    by (simp_all add: fw_demo_node_def zero_core_def demo_core_build_def first_free_def numeral_2_eq_2)
  ultimately show "\<exists>core1. fw_dispatch demo_core_build demo_hal fw_demo_create (fw_demo_node, ()) =
    (Some (make_status_response fw_demo_create FS_Ok 1 [], None), (core1, ())) \<and> core1 \<noteq> fw_demo_node"
    by (auto simp: on_gpio_create_def gpio_present_def fw_demo_create_def demo_hal_def status_answer_def Let_def
        dest: arg_cong [where f = fc_next_object_id])
qed

text \<open>
  C39. A request whose execution changed anything in the node or the board is not executed again: as
  long as fewer other requests than the cache holds have been entered, whatever frames, polls and
  timer ticks came in between, the repeated request is only answered, with the same response.
\<close>

theorem fw_executed_once:
  assumes "config_ok b" "fw_running b h (core, c)" "find_cache core r = None"
    and "rq_command r \<noteq> rbsp_command RC_MotionStatus"
    and "fw_dispatch b h r (core, c) = (Some (response, boot), (core1, c1))" "(core1, c1) \<noteq> (core, c)"
    and "fw_process_request b h r (core, c) = (sent, run1)"
    and "fw_life b h run1 n run2" "n < cb_cache_entries b"
  shows "fw_process_request b h r run2 = send_response b h response run2"
proof -
  have ok: "fw_cache_ok b core" using running_cache_ok [OF assms(1,2)] by simp
  note cached = executed_cached [OF assms(1) ok assms(3-7)]
  have k: "fc_cache_cursor core < cb_cache_entries b" using ok by (simp add: fw_cache_ok_def)
  have "fc_cache (fst run2) ! fc_cache_cursor core = cache_record r response"
    using life_keeps [OF assms(1,8,9) cached(1) k cached(2,3)] by simp
  then have "find_cache (fst run2) r = Some (cache_record r response)"
    using find_cache_at [OF life_cache_ok [OF assms(1) cached(1) assms(8)] k] by simp
  then show ?thesis by (simp add: fw_process_request_def same_cached_request_def cache_record_def)
qed

theorem fw_executed_once_witness:
  "let run1 = snd (fw_process_request demo_core_build demo_hal fw_demo_create (fw_demo_node, ()))
   in fw_process_request demo_core_build demo_hal fw_demo_create run1 =
     send_response demo_core_build demo_hal (make_status_response fw_demo_create FS_Ok 1 []) run1"
proof -
  obtain core1 where d: "fw_dispatch demo_core_build demo_hal fw_demo_create (fw_demo_node, ()) =
      (Some (make_status_response fw_demo_create FS_Ok 1 [], None), (core1, ()))" "core1 \<noteq> fw_demo_node"
    using fw_demo_created(2) by blast
  obtain sent run1 where p: "fw_process_request demo_core_build demo_hal fw_demo_create (fw_demo_node, ()) = (sent, run1)"
    by (metis prod.collapse)
  have "fw_process_request demo_core_build demo_hal fw_demo_create run1 =
      send_response demo_core_build demo_hal (make_status_response fw_demo_create FS_Ok 1 []) run1"
    by (rule fw_executed_once [OF demo_config demo_running fw_demo_created(1) _ d(1) _ p fl_start])
      (use d(2) in \<open>simp_all add: fw_demo_create_def demo_core_build_def\<close>)
  then show ?thesis using p by simp
qed

end
