(* ===== verification/Firmware_State.thy ===== *)
theory Firmware_State
  imports Firmware_Node
begin

text \<open>
  The invariant of the firmware's node: its objects, serial buffers, reassembly slots, cache and motion
  queue over everything it may go through.
\<close>

subsection \<open>Objects\<close>

lemma first_free_split:
  assumes "first_free used xs = Some i"
  shows "i < length xs" "\<exists>as bs. filter used xs = as @ bs \<and>
    (\<forall>x. used x \<longrightarrow> filter used (xs[i := x]) = as @ x # bs)"
proof -
  have i: "i < length xs" "\<not> used (xs ! i)"
    using assms by (auto simp: first_free_def find_Some_iff)
  show "i < length xs" by (fact i(1))
  have "filter used xs = filter used (take i xs) @ filter used (drop (Suc i) xs)"
    using i by (metis append.right_neutral append_Cons append_assoc filter.simps(2) filter_append id_take_nth_drop)
  moreover have "filter used (xs[i := x]) = filter used (take i xs) @ x # filter used (drop (Suc i) xs)"
    if "used x" for x
    using that i(1) by (simp add: upd_conv_take_nth_drop)
  ultimately show "\<exists>as bs. filter used xs = as @ bs \<and>
      (\<forall>x. used x \<longrightarrow> filter used (xs[i := x]) = as @ x # bs)"
    by blast
qed

abbreviation live_pins :: "fw_core \<Rightarrow> fw_gpio_object list" where
  "live_pins core \<equiv> filter og_used (fc_gpio_objects core)"

abbreviation live_uarts :: "fw_core \<Rightarrow> fw_uart_object list" where
  "live_uarts core \<equiv> filter ou_used (fc_uart_objects core)"

definition object_ids :: "fw_core \<Rightarrow> u32 list" where
  "object_ids core = map og_object_id (live_pins core) @ map ou_object_id (live_uarts core)"

definition objects_ok :: "core_build \<Rightarrow> fw_core \<Rightarrow> bool" where
  "objects_ok b core \<longleftrightarrow>
     length (fc_gpio_objects core) = cb_gpio_count b \<and> length (fc_uart_objects core) = cb_uart_count b \<and>
     distinct (map og_pin (live_pins core)) \<and> distinct (map ou_port (live_uarts core)) \<and>
     distinct (object_ids core) \<and>
     (\<forall>oid \<in> set (object_ids core). oid \<noteq> 0 \<and> (fc_next_object_id core \<noteq> 0 \<longrightarrow> oid < fc_next_object_id core)) \<and>
     (\<forall>object \<in> set (fc_uart_objects core). length (ou_pending object) \<le> cb_uart_chunk b) \<and>
     (\<forall>object \<in> set (live_uarts core). unat (ou_port object) < cb_uart_count b)"

text \<open>The identifier that is handed out is above all others.\<close>

lemma next_id_fresh:
  assumes "objects_ok b core" "fc_next_object_id core \<noteq> 0"
  shows "fc_next_object_id core \<notin> set (object_ids core)"
    "\<forall>oid \<in> set (object_ids core). oid \<noteq> 0 \<and> (fc_next_object_id core + 1 \<noteq> 0 \<longrightarrow> oid < fc_next_object_id core + 1)"
    "fc_next_object_id core + 1 \<noteq> 0 \<longrightarrow> fc_next_object_id core < fc_next_object_id core + 1"
proof -
  show "fc_next_object_id core \<notin> set (object_ids core)" using assms by (auto simp: objects_ok_def)
  have up: "fc_next_object_id core < fc_next_object_id core + 1" if "fc_next_object_id core + 1 \<noteq> 0"
    using that unatSuc [of "fc_next_object_id core"] by (simp add: word_less_nat_alt add.commute)
  then show "fc_next_object_id core + 1 \<noteq> 0 \<longrightarrow> fc_next_object_id core < fc_next_object_id core + 1" by blast
  show "\<forall>oid \<in> set (object_ids core). oid \<noteq> 0 \<and> (fc_next_object_id core + 1 \<noteq> 0 \<longrightarrow> oid < fc_next_object_id core + 1)"
    using assms up by (auto simp: objects_ok_def dest: less_trans)
qed

lemma add_pin_ok:
  assumes "objects_ok b core" "fc_next_object_id core \<noteq> 0" "first_free og_used (fc_gpio_objects core) = Some i"
    and "\<not> list_ex (\<lambda>object. og_used object \<and> og_pin object = og_pin x) (fc_gpio_objects core)"
    and "og_used x" "og_object_id x = fc_next_object_id core"
  shows "objects_ok b (core\<lparr>fc_gpio_objects := (fc_gpio_objects core)[i := x],
    fc_next_object_id := fc_next_object_id core + 1\<rparr>)"
proof -
  obtain as bs where split: "live_pins core = as @ bs" "filter og_used ((fc_gpio_objects core)[i := x]) = as @ x # bs"
    using first_free_split(2) [OF assms(3)] assms(5) by blast
  have "\<forall>o' \<in> set (live_pins core). og_pin o' \<noteq> og_pin x" using assms(4) by (auto simp: list_ex_iff)
  then have pins: "og_pin x \<notin> set (map og_pin (as @ bs))" unfolding split(1) by auto
  note fresh = next_id_fresh [OF assms(1,2)]
  show ?thesis
    using assms(1,2,5,6) pins fresh split
    by (simp add: objects_ok_def object_ids_def)
qed

lemma add_uart_ok:
  assumes "objects_ok b core" "fc_next_object_id core \<noteq> 0" "first_free ou_used (fc_uart_objects core) = Some i"
    and "\<not> list_ex (\<lambda>object. ou_used object \<and> ou_port object = ou_port x) (fc_uart_objects core)"
    and "ou_used x" "ou_object_id x = fc_next_object_id core" "ou_pending x = []" "unat (ou_port x) < cb_uart_count b"
  shows "objects_ok b (core\<lparr>fc_uart_objects := (fc_uart_objects core)[i := x],
    fc_next_object_id := fc_next_object_id core + 1\<rparr>)"
proof -
  obtain as bs where split: "live_uarts core = as @ bs" "filter ou_used ((fc_uart_objects core)[i := x]) = as @ x # bs"
    using first_free_split(2) [OF assms(3)] assms(5) by blast
  have "\<forall>o' \<in> set (live_uarts core). ou_port o' \<noteq> ou_port x" using assms(4) by (auto simp: list_ex_iff)
  then have ports: "ou_port x \<notin> set (map ou_port (as @ bs))" unfolding split(1) by auto
  have pending: "\<forall>object \<in> set ((fc_uart_objects core)[i := x]). length (ou_pending object) \<le> cb_uart_chunk b"
    using assms(1,7) set_update_subset_insert [of "fc_uart_objects core" i x] by (auto simp: objects_ok_def)
  note fresh = next_id_fresh [OF assms(1,2)]
  show ?thesis
    using assms(1,2,5,6,8) ports fresh split pending
    by (simp add: objects_ok_def object_ids_def)
qed

subsection \<open>The handlers\<close>

definition motion_ok :: "core_build \<Rightarrow> fw_core \<Rightarrow> bool" where
  "motion_ok b core \<longleftrightarrow> (\<forall>mb. cb_motion b = Some mb \<longrightarrow> fw_ok mb (fc_motion core))"

definition device_ok :: "core_build \<Rightarrow> fw_core \<Rightarrow> bool" where
  "device_ok b core \<longleftrightarrow> objects_ok b core \<and> fc_node_id core \<le> 127 \<and> motion_ok b core"

text \<open>What the invariant does not look at.\<close>

definition device_view where
  "device_view core = (fc_gpio_objects core, fc_uart_objects core, fc_next_object_id core, fc_node_id core,
     fc_motion core)"

lemma device_ok_view: "device_ok b core \<Longrightarrow> device_view core' = device_view core \<Longrightarrow> device_ok b core'"
  by (simp add: device_ok_def device_view_def objects_ok_def object_ids_def motion_ok_def)

lemma objects_ok_same:
  "objects_ok b core \<Longrightarrow> (fc_gpio_objects core', fc_uart_objects core', fc_next_object_id core') =
    (fc_gpio_objects core, fc_uart_objects core, fc_next_object_id core) \<Longrightarrow> objects_ok b core'"
  by (simp add: objects_ok_def object_ids_def)

lemma answer_core [simp]: "fst (snd (status_answer request status oid data (core, c))) = core"
  by simp

lemma on_node_assign_ok:
  "device_ok b core \<Longrightarrow> device_ok b (fst (snd (on_node_assign request (core, c))))"
  by (auto simp: on_node_assign_def Let_def device_ok_def motion_ok_def not_less
      intro: objects_ok_same)

lemma on_gpio_create_ok:
  assumes "device_ok b core"
  shows "device_ok b (fst (snd (on_gpio_create h request (core, c))))"
proof -
  have ok: "objects_ok b core" "fc_node_id core \<le> 127" "motion_ok b core"
    using assms by (simp_all add: device_ok_def)
  have new: "device_ok b (core\<lparr>fc_gpio_objects := (fc_gpio_objects core)[i := \<lparr>og_used = True,
        og_object_id = fc_next_object_id core, og_pin = pin, og_direction = dir\<rparr>],
      fc_next_object_id := fc_next_object_id core + 1\<rparr>)"
    if "fc_next_object_id core \<noteq> 0" "first_free og_used (fc_gpio_objects core) = Some i"
      "\<not> list_ex (\<lambda>object. og_used object \<and> og_pin object = pin) (fc_gpio_objects core)" for i pin dir
    using add_pin_ok [OF ok(1) that(1,2)] that(3) ok(2,3) by (simp add: device_ok_def motion_ok_def)
  show ?thesis
    using assms by (auto simp: on_gpio_create_def Let_def new split: option.split prod.split bool.split)
qed

lemma on_uart_create_ok:
  assumes "device_ok b core"
  shows "device_ok b (fst (snd (on_uart_create b h request (core, c))))"
proof -
  have ok: "objects_ok b core" "fc_node_id core \<le> 127" "motion_ok b core"
    using assms by (simp_all add: device_ok_def)
  have new: "device_ok b (core\<lparr>fc_uart_objects := (fc_uart_objects core)[i := (fc_uart_objects core ! i)
        \<lparr>ou_used := True, ou_object_id := fc_next_object_id core, ou_port := port, ou_streaming := streaming,
          ou_event_sequence := 0, ou_pending := []\<rparr>],
      fc_next_object_id := fc_next_object_id core + 1\<rparr>)"
    if "fc_next_object_id core \<noteq> 0" "first_free ou_used (fc_uart_objects core) = Some i"
      "\<not> list_ex (\<lambda>object. ou_used object \<and> ou_port object = port) (fc_uart_objects core)"
      "unat port < cb_uart_count b" for i port streaming
    using add_uart_ok [OF ok(1) that(1,2)] that(3,4) ok(2,3) by (simp add: device_ok_def motion_ok_def)
  show ?thesis
    using assms by (auto simp: on_uart_create_def Let_def new not_le split: option.split prod.split bool.split)
qed

lemma motion_change_ok:
  "device_ok b core \<Longrightarrow> (\<And>mb. cb_motion b = Some mb \<Longrightarrow> fw_ok mb q) \<Longrightarrow> device_ok b (core\<lparr>fc_motion := q\<rparr>)"
  by (auto simp: device_ok_def motion_ok_def intro: objects_ok_same)

lemma device_motion: "device_ok b core \<Longrightarrow> cb_motion b = Some mb \<Longrightarrow> fw_ok mb (fc_motion core)"
  by (simp add: device_ok_def motion_ok_def)

lemma motion_tick_ok:
  assumes "device_ok b core" "cb_motion b = Some mb"
  shows "device_ok b (fst (snd (rbsp_core_motion_tick mb h (core, c))))"
proof (cases "motion_present h")
  case False
  then show ?thesis using assms by (simp add: rbsp_core_motion_tick_def)
next
  case True
  obtain now c1 where ns: "hal_ns h c = (now, c1)" by fastforce
  obtain r q c2 where t: "fw_tick mb (core_motion_io h) now (fc_motion core, c1) = (r, (q, c2))"
    by (metis prod.collapse)
  have "fw_ok mb q" using tick_ok [OF device_motion [OF assms], of "core_motion_io h" now c1] t by simp
  then have "device_ok b (core\<lparr>fc_motion := q\<rparr>)" using assms by (intro motion_change_ok) simp_all
  then show ?thesis using True ns t by (simp add: rbsp_core_motion_tick_def)
qed

lemma on_motion_enqueue_ok:
  assumes "device_ok b core" "cb_motion b = Some mb"
  shows "device_ok b (fst (snd (on_motion_enqueue mb h request (core, c))))"
proof -
  have new: "device_ok b (core\<lparr>fc_motion := q\<rparr>)"
    if "fw_motion_enqueue mb segment now (fc_motion core) = (r, q)" for segment now r q
    using assms enqueue_ok [OF device_motion [OF assms] that] by (intro motion_change_ok) simp_all
  show ?thesis
    using assms(1) by (auto simp: on_motion_enqueue_def Let_def
        split: option.split prod.split sum.split dest: new)
qed

lemma on_motion_abort_ok:
  assumes "device_ok b core" "cb_motion b = Some mb"
  shows "device_ok b (fst (snd (on_motion_abort mb h request (core, c))))"
proof -
  have "device_ok b (core\<lparr>fc_motion := fw_motion_abort mb MF_Aborted (fc_motion core)\<rparr>)"
    using assms fw_abort_ok [OF device_motion [OF assms]] by (intro motion_change_ok) simp_all
  from motion_tick_ok [OF this assms(2), of h c] show ?thesis
    using assms(1) by (auto simp: on_motion_abort_def Let_def)
qed

lemma on_motion_clear_ok:
  assumes "device_ok b core" "cb_motion b = Some mb"
  shows "device_ok b (fst (snd (on_motion_clear_fault h request (core, c))))"
proof -
  have new: "device_ok b (core\<lparr>fc_motion := q\<rparr>)" if "fw_clear_fault now (fc_motion core) = (r, q)" for now r q
    using assms clear_ok [OF device_motion [OF assms] that] by (intro motion_change_ok) simp_all
  show ?thesis
    using assms(1) by (auto simp: on_motion_clear_fault_def Let_def split: prod.split bool.split dest: new)
qed

text \<open>The handlers that change nothing of the node.\<close>

lemma still_handlers:
  "fst (snd (on_discovery request (core, c))) = core"
  "fst (snd (on_get_info request (core, c))) = core"
  "fst (snd (on_get_capability b h request (core, c))) = core"
  "fst (snd (on_ping b request (core, c))) = core"
  "fst (snd (on_bootloader_enter h request (core, c))) = core"
  "fst (snd (on_gpio_read h request (core, c))) = core"
  "fst (snd (on_gpio_write h request (core, c))) = core"
  "fst (snd (on_uart_read b h request (core, c))) = core"
  "fst (snd (on_uart_write h request (core, c))) = core"
  "fst (snd (on_motion_status b mb h request (core, c))) = core"
  by (auto simp: on_discovery_def on_get_info_def on_get_capability_def on_ping_def on_bootloader_enter_def
      on_gpio_read_def on_gpio_write_def on_uart_read_def on_uart_write_def on_motion_status_def Let_def
      split: option.split prod.split bool.split)

lemma fw_dispatch_ok:
  assumes "device_ok b core"
  shows "device_ok b (fst (snd (fw_dispatch b h request (core, c))))"
  unfolding fw_dispatch_def Let_def
  by (simp add: assms still_handlers on_node_assign_ok on_gpio_create_ok on_uart_create_ok
      on_motion_enqueue_ok on_motion_abort_ok on_motion_clear_ok split: option.split)

subsection \<open>Requests and frames\<close>

lemma allocate_facts:
  "device_view (snd (fw_allocate_transfer_id core)) = device_view core"
  "fc_reassembly (snd (fw_allocate_transfer_id core)) = fc_reassembly core"
  "fc_next_transfer_id (snd (fw_allocate_transfer_id core)) \<noteq> 0"
  by (simp_all add: fw_allocate_transfer_id_def device_view_def Let_def)

text \<open>The part of the invariant that a request keeps, whichever branch answers it.\<close>

definition serving_ok :: "core_build \<Rightarrow> reassembly_slot list \<Rightarrow> fw_core \<Rightarrow> bool" where
  "serving_ok b slots core \<longleftrightarrow> device_ok b core \<and> fc_reassembly core = slots \<and> fc_next_transfer_id core \<noteq> 0"

lemma send_response_ok:
  assumes "serving_ok b slots core"
  shows "serving_ok b slots (fst (snd (send_response b h packet (core, c))))"
  using assms allocate_facts [of core] device_ok_view [of b core "snd (fw_allocate_transfer_id core)"]
  by (simp add: serving_ok_def send_response_core)

lemma process_request_ok:
  assumes "64 \<le> cb_cache_response_size b" "serving_ok b slots core"
  shows "serving_ok b slots (fst (snd (fw_process_request b h r (core, c))))"
proof (cases "find_cache core r")
  case (Some entry)
  then show ?thesis using assms(2) by (simp add: fw_process_request_def send_response_ok)
next
  case None
  obtain a core1 c1 where d: "fw_dispatch b h r (core, c) = (a, (core1, c1))" by (metis prod.collapse)
  have one: "serving_ok b slots core1"
    using assms(2) fw_dispatch_ok [of b core h r c] dispatch_rest [OF assms(1), of h r "(core, c)"] d
    by (simp add: serving_ok_def core_rest_def)
  show ?thesis
  proof (cases a)
    case None': None
    then show ?thesis using None d one by (simp add: fw_process_request_def)
  next
    case (Some p)
    obtain response boot where p: "p = (response, boot)" by fastforce
    define core2 where "core2 = fw_insert_cache b r response core1"
    have "device_view core2 = device_view core1" "fc_reassembly core2 = fc_reassembly core1"
      "fc_next_transfer_id core2 = fc_next_transfer_id core1"
      by (simp_all add: core2_def fw_insert_cache_def device_view_def)
    then have two: "serving_ok b slots core2"
      using one device_ok_view [of b core1 core2] by (simp add: serving_ok_def)
    obtain sent core3 c3 where s: "send_response b h response (core2, c1) = (sent, (core3, c3))"
      by (metis prod.collapse)
    have three: "serving_ok b slots core3" using send_response_ok [OF two, of h response c1] s by simp
    have boots: "serving_ok b slots (fst (request_bootloader h mode (core3, c3)))" for mode
    proof -
      obtain now c4 where "hal_ms h c3 = (now, c4)" by fastforce
      then show ?thesis
        using three device_ok_view [of b core3] by (simp add: request_bootloader_def serving_ok_def device_view_def)
    qed
    have "fw_process_request b h r (core, c) = (case boot of None \<Rightarrow> (sent, (core3, c3))
        | Some mode \<Rightarrow> (sent, if sent then request_bootloader h mode (core3, c3) else (core3, c3)))"
      using None d Some p s by (simp add: fw_process_request_def core2_def)
    then show ?thesis using three boots by (simp split: option.split)
  qed
qed

definition slots_ok :: "core_build \<Rightarrow> reassembly_slot list \<Rightarrow> bool" where
  "slots_ok b slots \<longleftrightarrow> length slots = cb_slots b \<and>
     (\<forall>slot \<in> set slots. length (rs_packet slot) \<le> cb_max_packet_size b) \<and>
     (\<forall>i < length slots. \<forall>j < length slots. i \<noteq> j \<longrightarrow> rs_active (slots ! i) \<longrightarrow> rs_active (slots ! j) \<longrightarrow>
        (rs_stream_id (slots ! i), rs_transfer_id (slots ! i)) \<noteq> (rs_stream_id (slots ! j), rs_transfer_id (slots ! j)))"

lemma slots_ok_update:
  assumes "slots_ok b slots" "length (rs_packet slot) \<le> cb_max_packet_size b"
    and "rs_active slot \<longrightarrow> (\<forall>j < length slots. j \<noteq> i \<longrightarrow> rs_active (slots ! j) \<longrightarrow>
      (rs_stream_id (slots ! j), rs_transfer_id (slots ! j)) \<noteq> (rs_stream_id slot, rs_transfer_id slot))"
  shows "slots_ok b (slots[i := slot])"
proof -
  have "\<forall>s \<in> set (slots[i := slot]). length (rs_packet s) \<le> cb_max_packet_size b"
    using assms(1,2) set_update_subset_insert [of slots i slot] by (auto simp: slots_ok_def)
  moreover have "(rs_stream_id (slots[i := slot] ! k), rs_transfer_id (slots[i := slot] ! k)) \<noteq>
      (rs_stream_id (slots[i := slot] ! j), rs_transfer_id (slots[i := slot] ! j))"
    if "k < length slots" "j < length slots" "k \<noteq> j" "rs_active (slots[i := slot] ! k)"
      "rs_active (slots[i := slot] ! j)" for k j
  proof -
    consider "k = i" "j \<noteq> i" | "j = i" "k \<noteq> i" | "k \<noteq> i" "j \<noteq> i"
      using \<open>k \<noteq> j\<close> by blast
    then show ?thesis
    proof cases
      case 1
      then have "(rs_stream_id (slots ! j), rs_transfer_id (slots ! j)) \<noteq> (rs_stream_id slot, rs_transfer_id slot)"
        using that assms(3) by simp
      then show ?thesis using 1 that(1) by auto
    next
      case 2
      then have "(rs_stream_id (slots ! k), rs_transfer_id (slots ! k)) \<noteq> (rs_stream_id slot, rs_transfer_id slot)"
        using that assms(3) by simp
      then show ?thesis using 2 that(2) by auto
    next
      case 3
      then show ?thesis using that assms(1) by (simp add: slots_ok_def)
    qed
  qed
  ultimately show ?thesis using assms(1) unfolding slots_ok_def by simp
qed

text \<open>An update that keeps the key of its slot, or lets it go.\<close>

lemma slots_ok_same_key:
  assumes "slots_ok b slots" "i < length slots" "length (rs_packet slot) \<le> cb_max_packet_size b"
    and "rs_active slot \<longrightarrow> rs_active (slots ! i)"
    and "rs_stream_id slot = rs_stream_id (slots ! i)" "rs_transfer_id slot = rs_transfer_id (slots ! i)"
  shows "slots_ok b (slots[i := slot])"
  using assms by (intro slots_ok_update) (auto simp: slots_ok_def)

definition fw_core_ok :: "core_build \<Rightarrow> fw_core \<Rightarrow> bool" where
  "fw_core_ok b core \<longleftrightarrow> fw_cache_ok b core \<and> device_ok b core \<and> slots_ok b (fc_reassembly core) \<and>
     fc_next_transfer_id core \<noteq> 0"

lemma find_slot_Some:
  "find_slot core sid tid = Some i \<Longrightarrow> i < length (fc_reassembly core) \<and> slot_of sid tid (fc_reassembly core ! i)"
  by (auto simp: find_slot_def find_Some_iff)

lemma find_slot_None:
  "find_slot core sid tid = None \<Longrightarrow> j < length (fc_reassembly core) \<Longrightarrow> \<not> slot_of sid tid (fc_reassembly core ! j)"
  by (auto simp: find_slot_def find_None_iff)

lemma slot_for_facts:
  assumes "slots_ok b (fc_reassembly core)" "slot_for sid tid is_first core = Some (i, core1)"
  shows "\<exists>slots. core1 = core\<lparr>fc_reassembly := slots\<rparr> \<and> slots_ok b slots \<and> i < length slots \<and>
    slot_of sid tid (slots ! i)"
proof (cases "find_slot core sid tid")
  case (Some k)
  then have "core1 = core" "i = k" using assms(2) by (simp_all add: slot_for_def)
  then show ?thesis using find_slot_Some [OF Some] assms(1) by (intro exI [of _ "fc_reassembly core"]) simp
next
  case None
  then obtain k where k: "first_free rs_active (fc_reassembly core) = Some k" "i = k"
    and core1: "core1 = set_slot k (empty_slot\<lparr>rs_active := True, rs_stream_id := sid, rs_transfer_id := tid\<rparr>) core"
    using assms(2) first_free_split(1) [of rs_active "fc_reassembly core"]
    by (auto simp: slot_for_def allocate_slot_def set_slot_def split: if_splits)
  define slot where "slot = empty_slot\<lparr>rs_active := True, rs_stream_id := sid, rs_transfer_id := tid\<rparr>"
  have "slots_ok b ((fc_reassembly core)[k := slot])"
    using assms(1) find_slot_None [OF None]
    by (intro slots_ok_update) (auto simp: slot_def empty_slot_def slot_of_def)
  moreover have "k < length (fc_reassembly core)" using first_free_split(1) [OF k(1)] .
  ultimately show ?thesis
    using core1 k(2) by (intro exI [of _ "(fc_reassembly core)[k := slot]"])
      (simp add: set_slot_def slot_def slot_of_def)
qed

lemma fw_core_ok_slots:
  assumes "fw_core_ok b core" "slots_ok b slots"
  shows "fw_core_ok b (core\<lparr>fc_reassembly := slots\<rparr>)"
  using assms device_ok_view [of b core "core\<lparr>fc_reassembly := slots\<rparr>"]
  by (simp add: fw_core_ok_def device_view_def fw_cache_ok_def)

lemma set_slot_ok:
  assumes "fw_core_ok b core" "i < length (fc_reassembly core)"
    and "length (rs_packet slot) \<le> cb_max_packet_size b" "rs_active slot \<longrightarrow> rs_active (fc_reassembly core ! i)"
    and "rs_stream_id slot = rs_stream_id (fc_reassembly core ! i)"
    and "rs_transfer_id slot = rs_transfer_id (fc_reassembly core ! i)"
  shows "fw_core_ok b (set_slot i slot core)"
  unfolding set_slot_def using assms
  by (intro fw_core_ok_slots slots_ok_same_key) (simp_all add: fw_core_ok_def)

lemma deactivate_ok:
  assumes "fw_core_ok b core" "i < length (fc_reassembly core)"
  shows "fw_core_ok b (deactivate i core)"
  unfolding deactivate_def using assms
  by (intro set_slot_ok) (auto simp: fw_core_ok_def slots_ok_def)

lemma repeated_ok:
  assumes "fw_core_ok b core" "i < length (fc_reassembly core)"
  shows "fw_core_ok b (fst (repeated_fragment h i s payload (core, c)))"
proof -
  have "fw_core_ok b (set_slot i ((fc_reassembly core ! i)\<lparr>rs_last_update_ms := now\<rparr>) core)" for now
    using assms by (intro set_slot_ok) (auto simp: fw_core_ok_def slots_ok_def)
  then show ?thesis using assms(1) by (simp add: repeated_fragment_def Let_def split: prod.split)
qed

lemma next_fragment_ok:
  assumes "config_ok b" "fw_core_ok b core" "i < length (fc_reassembly core)"
    and "length (rs_packet (fc_reassembly core ! i)) + length payload \<le> cb_max_packet_size b"
  shows "fw_core_ok b (fst (next_fragment b h i is_last payload (core, c)))"
proof -
  have big: "64 \<le> cb_cache_response_size b" using assms(1) by (simp add: config_ok_def)
  obtain now c1 where ms: "hal_ms h c = (now, c1)" by fastforce
  define slot where "slot = (fc_reassembly core ! i)\<lparr>rs_packet := rs_packet (fc_reassembly core ! i) @ payload,
    rs_next_sequence := rs_next_sequence (fc_reassembly core ! i) + 1, rs_last_update_ms := now\<rparr>"
  define core1 where "core1 = set_slot i slot core"
  have one: "fw_core_ok b core1"
    unfolding core1_def using assms by (intro set_slot_ok) (simp_all add: slot_def)
  have size: "length (fc_reassembly core1) = length (fc_reassembly core)" by (simp add: core1_def set_slot_def)
  have "fw_core_ok b core2" if "core2 = (case decode_request (rs_packet slot) of
      None \<Rightarrow> core1 | Some r \<Rightarrow> fst (snd (fw_process_request b h r (core1, c1))))" for core2
  proof (cases "decode_request (rs_packet slot)")
    case None
    then show ?thesis using that one by simp
  next
    case (Some r)
    have "serving_ok b (fc_reassembly core1) core1" using one by (simp add: serving_ok_def fw_core_ok_def)
    from process_request_ok [OF big this, of h r c1]
    have "serving_ok b (fc_reassembly core1) core2" using that Some by simp
    moreover have "fw_cache_ok b core2"
      using cache_step_ok [OF _ fw_process_cache [OF big, of core1 h r c1]] one that Some by (simp add: fw_core_ok_def)
    ultimately show ?thesis using one by (simp add: fw_core_ok_def serving_ok_def)
  qed
  moreover have "length (fc_reassembly core2) = length (fc_reassembly core1)"
    if "core2 = (case decode_request (rs_packet slot) of
      None \<Rightarrow> core1 | Some r \<Rightarrow> fst (snd (fw_process_request b h r (core1, c1))))" for core2
  proof (cases "decode_request (rs_packet slot)")
    case (Some r)
    have "serving_ok b (fc_reassembly core1) core1" using one by (simp add: serving_ok_def fw_core_ok_def)
    from process_request_ok [OF big this, of h r c1] show ?thesis using that Some by (simp add: serving_ok_def)
  qed (simp add: that)
  ultimately have done2: "fw_core_ok b (deactivate i (case decode_request (rs_packet slot) of
      None \<Rightarrow> core1 | Some r \<Rightarrow> fst (snd (fw_process_request b h r (core1, c1)))))"
    using assms(3) size by (intro deactivate_ok) simp_all
  have "fst (next_fragment b h i is_last payload (core, c)) =
      (if is_last then deactivate i (case decode_request (rs_packet slot) of
          None \<Rightarrow> core1 | Some r \<Rightarrow> fst (snd (fw_process_request b h r (core1, c1)))) else core1)"
    using ms by (simp add: next_fragment_def Let_def slot_def core1_def split: option.split prod.split)
  then show ?thesis using one done2 by simp
qed

lemma fw_accept_ok:
  assumes "config_ok b" "fw_core_ok b core"
  shows "fw_core_ok b (fst (rbsp_core_accept_can b h frame (core, c)))"
proof (cases "accept_frame core frame")
  case None
  then show ?thesis using assms(2) by (simp add: rbsp_core_accept_can_def)
next
  case (Some f)
  obtain tid s is_first is_last payload where f: "f = (tid, s, is_first, is_last, payload)" by (cases f)
  show ?thesis
  proof (cases "slot_for (bf_identifier frame) tid is_first core")
    case None
    then show ?thesis using Some f assms(2) by (simp add: rbsp_core_accept_can_def)
  next
    case slot: (Some p)
    obtain i core1 where p: "p = (i, core1)" by fastforce
    obtain slots where s: "core1 = core\<lparr>fc_reassembly := slots\<rparr>" "slots_ok b slots" "i < length slots"
      using slot_for_facts [OF _ slot [unfolded p], of b] assms(2) unfolding fw_core_ok_def by blast
    have one: "fw_core_ok b core1" "i < length (fc_reassembly core1)"
      using fw_core_ok_slots [OF assms(2) s(2)] s by simp_all
    show ?thesis
      using Some f slot p
      by (simp add: rbsp_core_accept_can_def Let_def not_less repeated_ok [OF one] deactivate_ok [OF one]
          next_fragment_ok [OF assms(1) one])
  qed
qed

subsection \<open>The main loop and the timer\<close>

text \<open>Changes of the serial objects that keep who they are.\<close>

lemma uart_update_ok:
  assumes "fw_core_ok b core" "i < length (fc_uart_objects core)"
    and "ou_used object = ou_used (fc_uart_objects core ! i)" "ou_object_id object = ou_object_id (fc_uart_objects core ! i)"
    and "ou_port object = ou_port (fc_uart_objects core ! i)" "length (ou_pending object) \<le> cb_uart_chunk b"
  shows "fw_core_ok b (core\<lparr>fc_uart_objects := (fc_uart_objects core)[i := object]\<rparr>)"
proof -
  let ?xs = "fc_uart_objects core" and ?ys = "(fc_uart_objects core)[i := object]"
  have same: "map f (filter ou_used ?ys) = map f (filter ou_used ?xs)"
    if "f object = f (?xs ! i)" for f :: "fw_uart_object \<Rightarrow> 'x"
  proof -
    have split: "?xs = take i ?xs @ ?xs ! i # drop (Suc i) ?xs" "?ys = take i ?xs @ object # drop (Suc i) ?xs"
      using assms(2) by (simp_all add: id_take_nth_drop upd_conv_take_nth_drop)
    show ?thesis
      using that assms(3) by (subst split(2), subst (2) split(1)) simp
  qed
  have ports: "map ou_port (filter ou_used ?ys) = map ou_port (filter ou_used ?xs)" using assms(5) by (rule same)
  have "\<forall>x \<in> set ?ys. length (ou_pending x) \<le> cb_uart_chunk b"
    using assms(1,6) set_update_subset_insert [of ?xs i object]
    by (auto simp: fw_core_ok_def device_ok_def objects_ok_def)
  moreover have "\<forall>x \<in> set (filter ou_used ?ys). unat (ou_port x) < cb_uart_count b"
  proof -
    have "\<forall>p \<in> set (map ou_port (filter ou_used ?ys)). unat p < cb_uart_count b"
      unfolding ports using assms(1) by (auto simp: fw_core_ok_def device_ok_def objects_ok_def)
    then show ?thesis by simp
  qed
  moreover have "object_ids (core\<lparr>fc_uart_objects := ?ys\<rparr>) = object_ids core"
    using same [OF assms(4)] by (simp add: object_ids_def)
  ultimately show ?thesis
    using assms(1) ports
    by (simp add: fw_core_ok_def device_ok_def objects_ok_def motion_ok_def fw_cache_ok_def)
qed

lemma uart_fill_facts:
  assumes "uart_fill b h now object c = (object1, c1)" "length (ou_pending object) \<le> cb_uart_chunk b"
  shows "ou_used object1 = ou_used object" "ou_object_id object1 = ou_object_id object"
    "ou_port object1 = ou_port object" "length (ou_pending object1) \<le> cb_uart_chunk b"
  using assms by (auto simp: uart_fill_def Let_def split: if_splits prod.splits)

lemma fw_allocate_ok:
  assumes "fw_core_ok b core" "fw_allocate_transfer_id core = (tid, core1)"
  shows "fw_core_ok b core1" "fc_uart_objects core1 = fc_uart_objects core"
proof -
  have c1: "core1 = snd (fw_allocate_transfer_id core)" using assms(2) by simp
  show "fc_uart_objects core1 = fc_uart_objects core"
    unfolding c1 by (simp add: fw_allocate_transfer_id_def Let_def)
  show "fw_core_ok b core1"
    using assms(1) allocate_facts [of core] device_ok_view [of b core core1]
      fw_cache_ok_view [OF allocate_view [of core], of b]
    unfolding c1 by (simp add: fw_core_ok_def)
qed

lemma poll_uart_ok:
  assumes "fw_core_ok b core" "i < cb_uart_count b"
  shows "fw_core_ok b (fst (poll_uart b h now i (core, c)))"
proof (cases "ou_used (fc_uart_objects core ! i) \<and> ou_streaming (fc_uart_objects core ! i)")
  case False
  then show ?thesis using assms(1) by (auto simp: poll_uart_def Let_def)
next
  case True
  have i: "i < length (fc_uart_objects core)" "length (ou_pending (fc_uart_objects core ! i)) \<le> cb_uart_chunk b"
    using assms by (auto simp: fw_core_ok_def device_ok_def objects_ok_def)
  obtain object c1 where fill: "uart_fill b h now (fc_uart_objects core ! i) c = (object, c1)" by fastforce
  note f = uart_fill_facts [OF fill i(2)]
  define core1 where "core1 = core\<lparr>fc_uart_objects := (fc_uart_objects core)[i := object]\<rparr>"
  have one: "fw_core_ok b core1"
    unfolding core1_def using assms(1) i(1) f by (intro uart_update_ok) simp_all
  obtain tid core2 where tid: "fw_allocate_transfer_id core1 = (tid, core2)" by fastforce
  note two = fw_allocate_ok [OF one tid]
  obtain sent core3 c3 where send: "send_packet h (fw_uart_event object) tid
      (RBSP_CAN_ID_EVENT_BASE + fc_node_id core2) (core2, c1) = (sent, (core3, c3))" by (metis prod.collapse)
  have three: "core3 = core2" using arg_cong [OF send, of "\<lambda>x. fst (snd x)"] by simp
  have at: "fc_uart_objects core2 ! i = object" "i < length (fc_uart_objects core2)"
    using two(2) i(1) by (simp_all add: core1_def)
  have last: "fw_core_ok b (core2\<lparr>fc_uart_objects := (fc_uart_objects core2)[i := object
      \<lparr>ou_event_sequence := ou_event_sequence object + 1, ou_pending := []\<rparr>]\<rparr>)"
    using two(1) at by (intro uart_update_ok) simp_all
  have "poll_uart b h now i (core, c) = (if \<not> uart_due b now object then (core1, c1)
      else if sent then (core3\<lparr>fc_uart_objects := (fc_uart_objects core3)[i := object
        \<lparr>ou_event_sequence := ou_event_sequence object + 1, ou_pending := []\<rparr>]\<rparr>, c3) else (core3, c3))"
    using True fill tid send by (simp add: poll_uart_def core1_def)
  then show ?thesis using one two(1) last three by simp
qed

lemma polls_ok:
  assumes "fw_core_ok b (fst run)" "\<forall>i \<in> set is. i < cb_uart_count b"
  shows "fw_core_ok b (fst (fold (poll_uart b h now) is run))"
  using assms
proof (induction "is" arbitrary: run)
  case (Cons i "is")
  then show ?case using poll_uart_ok [of b "fst run" i h now "snd run"] by simp
qed simp

lemma fw_expire_ok: "fw_core_ok b core \<Longrightarrow> fw_core_ok b (expire_slots b now core)"
  unfolding expire_slots_def
proof (rule fw_core_ok_slots)
  assume "fw_core_ok b core"
  then show "slots_ok b (map (\<lambda>slot. if rs_active slot \<and> now - rs_last_update_ms slot \<ge> cb_slot_timeout_ms b
      then slot\<lparr>rs_active := False\<rparr> else slot) (fc_reassembly core))"
    by (auto simp: fw_core_ok_def slots_ok_def split: if_splits)
qed

lemma fw_heartbeat_ok:
  assumes "fw_core_ok b core"
  shows "fw_core_ok b (fst (heartbeat b h now (core, c)))"
proof (cases "fc_node_id core \<noteq> 0 \<and> now - fc_last_heartbeat_ms core \<ge> cb_heartbeat_ms b")
  case False
  then show ?thesis using assms by (auto simp: heartbeat_def)
next
  case True
  obtain tid core1 where tid: "fw_allocate_transfer_id core = (tid, core1)" by fastforce
  note one = fw_allocate_ok [OF assms tid]
  obtain sent core2 c2 where send: "send_packet h
      (encode_packet RBSP_MESSAGE_EVENT (rbsp_command RC_Heartbeat) 0 0 (fc_node_id core) 0
        (fi_uuid (fc_info core) @ [RBSP_PROTOCOL_VERSION]))
      tid (RBSP_CAN_ID_EVENT_BASE + fc_node_id core) (core1, c) = (sent, (core2, c2))"
    by (metis prod.collapse)
  have "core2 = core1" using arg_cong [OF send, of "\<lambda>x. fst (snd x)"] by simp
  moreover have "heartbeat b h now (core, c) = (core2\<lparr>fc_last_heartbeat_ms := now\<rparr>, c2)"
    using True tid send by (simp add: heartbeat_def)
  ultimately show ?thesis
    using one(1) device_ok_view [of b core1 "core1\<lparr>fc_last_heartbeat_ms := now\<rparr>"]
    by (simp add: fw_core_ok_def device_view_def fw_cache_ok_def)
qed

lemma fw_poll_ok:
  assumes "fw_core_ok b core"
  shows "fw_core_ok b (fst (rbsp_core_poll b h (core, c)))"
proof -
  obtain now c1 where ms: "hal_ms h c = (now, c1)" by fastforce
  define run3 where "run3 = (if fc_node_id core \<noteq> 0 \<and> hal_uart_read h \<noteq> None
    then fold (poll_uart b h now) [0..<cb_uart_count b] (expire_slots b now core, c1)
    else (expire_slots b now core, c1))"
  have three: "fw_core_ok b (fst run3)"
    using fw_expire_ok [OF assms, of now] by (simp add: run3_def polls_ok)
  show ?thesis
  proof (cases "fc_bootloader_request_pending core \<and>
      now - fc_bootloader_request_ms core \<ge> RBSP_BOOTLOADER_RESET_DELAY_MS")
    case True
    then show ?thesis
      using ms assms device_ok_view [of b core "core\<lparr>fc_bootloader_request_pending := False\<rparr>"]
      by (simp add: rbsp_core_poll_def fw_core_ok_def device_view_def fw_cache_ok_def)
  next
    case False
    then have "rbsp_core_poll b h (core, c) = heartbeat b h now run3"
      unfolding rbsp_core_poll_def prod.case ms Let_def run3_def by (simp only: if_False)
    then show ?thesis using fw_heartbeat_ok [OF three, of h now "snd run3"] by simp
  qed
qed

lemma core_tick_ok:
  assumes "fw_core_ok b core" "cb_motion b = Some mb"
  shows "fw_core_ok b (fst (snd (rbsp_core_motion_tick mb h (core, c))))"
  using assms motion_tick_ok [of b core mb h c] motion_tick_rest [of mb h core c]
  by (simp add: fw_core_ok_def core_rest_def fw_cache_ok_def)

lemma init_ok_core:
  assumes "config_ok b" "rbsp_core_init b h mode info c = Some start"
  shows "fw_core_ok b (fst start)"
proof -
  obtain q now where core: "fst start = (zero_core b mode info)\<lparr>fc_next_object_id := 1, fc_motion := q,
      fc_next_transfer_id := 1, fc_last_heartbeat_ms := now\<rparr>"
    and q: "\<forall>mb. cb_motion b = Some mb \<longrightarrow>
      fw_motion_init mb (hal_motion_axis_count h) (fc_motion (zero_core b mode info)) = (True, q)"
    using init_fields [OF assms(2)] by (elim exE conjE)
  have "motion_ok b (fst start)" using q init_ok by (auto simp: core motion_ok_def)
  moreover have "slots_ok b (fc_reassembly (fst start))"
    by (simp add: core zero_core_def slots_ok_def empty_slot_def)
  moreover have "objects_ok b (fst start)"
    by (simp add: core zero_core_def objects_ok_def object_ids_def)
  ultimately show ?thesis
    using init_cache_ok [OF assms] by (simp add: fw_core_ok_def device_ok_def core zero_core_def)
qed

lemma running_ok:
  assumes "config_ok b" "fw_running b h run"
  shows "fw_core_ok b (fst run)"
proof -
  obtain mode info c start n where i: "rbsp_core_init b h mode info c = Some start"
    and l: "fw_life b h start n run"
    using assms(2) unfolding fw_running_def by (elim exE conjE)
  from l init_ok_core [OF assms(1) i] show ?thesis
  proof (induction rule: fw_life.induct)
    case (fl_accept n run frame)
    then show ?case using fw_accept_ok [OF assms(1), of "fst run" h frame "snd run"] by simp
  next
    case (fl_poll n run)
    then show ?case using fw_poll_ok [of b "fst run" h "snd run"] by simp
  next
    case (fl_tick n run mb)
    then show ?case using core_tick_ok [of b "fst run" mb h "snd run"] by simp
  qed simp_all
qed

text \<open>
  C40. Whatever frames, polls, timer ticks and callbacks a node of the real boards goes through: used
  pins and ports have one object each, object identifiers are never zero, never given twice and below
  the next one, every port exists, no serial or packet buffer overflows, every transfer has one slot
  and every request one cache entry, each response fits its entry, and the motion queue keeps its
  invariant.
\<close>

theorem fw_node_invariant:
  assumes "config_ok b" "fw_running b h (core, c)"
  shows "fw_core_ok b core"
  using running_ok [OF assms] by simp

theorem fw_node_invariant_witness: "fw_core_ok demo_core_build fw_demo_node"
  using fw_node_invariant [OF demo_config demo_running] .

end
