(* ===== verification/Firmware_Frames.thy ===== *)
theory Firmware_Frames
  imports Firmware_State Fragmentation
begin

text \<open>
  The firmware and the host on one bus. \<^verbatim>\<open>firmware/src/core.c\<close> has its own packet codec, CRC loop,
  fragmenter and reassembly, written against the same wire format as \<^verbatim>\<open>protocol/src\<close>. The lemmas show
  that the two implementations agree: the packet codecs on every byte sequence, the fragmenters on
  every packet, and that the host's frames of a request make the node execute that request once.
\<close>

subsection \<open>The packet codecs\<close>

lemma fw_crc_bit_eq: "fw_crc_bit = crc_bit"
  by (simp add: fun_eq_iff fw_crc_bit_def crc_bit_def)

lemma crc32_update_eq: "crc32_update crc data = foldl crc_byte crc data"
  unfolding crc32_update_def fw_crc_bit_eq crc_byte_def [symmetric] by (rule refl)

lemma packet_crc_eq: "packet_crc bs = crc32 (take 20 bs @ drop 24 bs)"
  by (simp add: packet_crc_def crc32_update_eq crc32_def RBSP_HEADER_SIZE_def)

text \<open>The firmware's encoder applied to the fields of a packet of the host.\<close>

definition encode_fields :: "packet \<Rightarrow> byte list" where
  "encode_fields p = (let h = header p in encode_packet (ph_message_type h) (ph_command h)
     (ph_session_id h) (ph_request_id h) (ph_object_id h) (ph_flags h) (payload p))"

text \<open>The request the firmware reads from a packet of the host.\<close>

definition fw_request_of :: "packet \<Rightarrow> fw_request" where
  "fw_request_of p = (let h = header p in \<lparr>rq_command = ph_command h, rq_session_id = ph_session_id h,
     rq_request_id = ph_request_id h, rq_object_id = ph_object_id h, rq_flags = ph_flags h,
     rq_crc = ph_crc h, rq_payload = payload p\<rparr>)"

lemma encode_fields_eq:
  assumes "encodable p"
  shows "encode p = Inr (encode_fields p)"
proof -
  let ?head = "write_header_without_crc (header (sealed p))"
  have "ph_version (header p) = 1" using assms by (simp add: encodable_def)
  then have "encode_fields p = ?head @ put_u32 (packet_crc (?head @ put_u32 0 @ payload p)) @ payload p"
    by (simp add: encode_fields_def encode_packet_def sealed_def Let_def write_header_without_crc_def
        RBSP_PROTOCOL_VERSION_def)
  moreover have "packet_crc (?head @ put_u32 0 @ payload p) = ph_crc (header (sealed p))"
    by (simp add: packet_crc_eq sealed_def Let_def)
  ultimately show ?thesis using encode_eq [OF assms] by simp
qed

lemma decode_request_iff:
  "decode_request bs = Some r \<longleftrightarrow> 24 \<le> length bs \<and> bs ! 0 = 1 \<and> bs ! 1 = 1 \<and>
     length bs = 24 + unat (get_u16 (drop 16 bs)) \<and>
     crc32 (take 20 bs @ drop 24 bs) = get_u32 (drop 20 bs) \<and>
     r = \<lparr>rq_command = get_u16 (drop 2 bs), rq_session_id = get_u32 (drop 4 bs),
       rq_request_id = get_u32 (drop 8 bs), rq_object_id = get_u32 (drop 12 bs),
       rq_flags = get_u16 (drop 18 bs), rq_crc = get_u32 (drop 20 bs), rq_payload = drop 24 bs\<rparr>"
  unfolding decode_request_def core_consts wire_consts packet_crc_eq Let_def
  by (simp only: if_split_eq1 not_less option.inject option.distinct de_Morgan_disj not_not simp_thms
      eq_commute [of "24 + unat (get_u16 (drop 16 bs))"]) blast

lemma decode_request_decode:
  assumes "decode bs = Inr p" "ph_message_type (header p) = message_type_code Request"
  shows "decode_request bs = Some (fw_request_of p)"
proof -
  note d = decode_InrD [OF assms(1)]
  have "bs ! 1 = 1" using assms(2) d(7) by simp
  moreover have "fw_request_of p = \<lparr>rq_command = get_u16 (drop 2 bs), rq_session_id = get_u32 (drop 4 bs),
       rq_request_id = get_u32 (drop 8 bs), rq_object_id = get_u32 (drop 12 bs),
       rq_flags = get_u16 (drop 18 bs), rq_crc = get_u32 (drop 20 bs), rq_payload = drop 24 bs\<rparr>"
    unfolding d(7) fw_request_of_def Let_def by simp
  ultimately show ?thesis using d(1,3,5,6) unfolding decode_request_iff by blast
qed

lemma decode_of_request:
  assumes "decode_request bs = Some r" "length bs \<le> 2048"
  shows "\<exists>p. decode bs = Inr p \<and> ph_message_type (header p) = message_type_code Request \<and> r = fw_request_of p"
proof -
  note a = assms(1) [unfolded decode_request_iff]
  have v: "valid_message_type (bs ! 1)" using a by (simp add: valid_message_type_iff)
  have checks: "\<not> length bs < 24" "\<not> length bs > 2048" "\<not> bs ! 0 \<noteq> 1" "\<not> \<not> valid_message_type (bs ! 1)"
    "\<not> length bs \<noteq> 24 + unat (get_u16 (drop 16 bs))"
    "\<not> crc32 (take 20 bs @ drop 24 bs) \<noteq> get_u32 (drop 20 bs)"
    using a v assms(2) by (simp_all only: not_less not_not)
  obtain p where p: "decode bs = Inr p" "ph_message_type (header p) = bs ! 1"
    unfolding decode_def packet_consts Let_def if_not_P [OF checks(1)] if_not_P [OF checks(2)]
      if_not_P [OF checks(3)] if_not_P [OF checks(4)] if_not_P [OF checks(5)] if_not_P [OF checks(6)]
    by simp
  then have "ph_message_type (header p) = message_type_code Request" using a by simp
  then show ?thesis using decode_request_decode [OF p(1)] p(1) assms(1) by simp
qed

text \<open>
  C37. The firmware and the host speak one packet format: what the host's encoder accepts it encodes
  exactly as the firmware's encoder does, and on packets of legal size the firmware's decoder accepts
  exactly the requests the host's decoder accepts, with the same fields.
\<close>

theorem fw_codec_agrees:
  "(encode p = Inr bs \<longleftrightarrow> encodable p \<and> bs = encode_fields p) \<and>
   (decode_request bs = Some r \<and> length bs \<le> kMaximumPacketSize \<longleftrightarrow>
    (\<exists>p. decode bs = Inr p \<and> ph_message_type (header p) = message_type_code Request \<and> r = fw_request_of p))"
proof
  show "encode p = Inr bs \<longleftrightarrow> encodable p \<and> bs = encode_fields p"
    using encode_fields_eq encode_Inr_encodable by fastforce
  show "decode_request bs = Some r \<and> length bs \<le> kMaximumPacketSize \<longleftrightarrow>
    (\<exists>p. decode bs = Inr p \<and> ph_message_type (header p) = message_type_code Request \<and> r = fw_request_of p)"
    using decode_of_request decode_request_decode decode_InrD(2) by (auto simp: packet_consts)
qed

subsection \<open>Incoming frames\<close>

text \<open>The frame on the bus that carries the bytes \<open>d\<close>, padded with zeros to its length.\<close>

definition carries :: "can_mode \<Rightarrow> u32 \<Rightarrow> byte list \<Rightarrow> bus_frame \<Rightarrow> bool" where
  "carries mode can_id d frame \<longleftrightarrow> (let len = unat (bf_length frame) in
     bf_identifier frame = can_id \<and> length d \<le> len \<and> len \<le> fw_mtu mode \<and> len \<le> length (bf_data frame) \<and>
     take len (bf_data frame) = d @ replicate (len - length d) 0)"

definition addressed :: "fw_core \<Rightarrow> u32 \<Rightarrow> bool" where
  "addressed core can_id \<longleftrightarrow> can_id = RBSP_CAN_ID_DISCOVERY \<or>
     (fc_node_id core \<noteq> 0 \<and> can_id = RBSP_CAN_ID_REQUEST_BASE + fc_node_id core)"

lemma mtu_cases: "fw_mtu mode = 8 \<or> fw_mtu mode = 64" "5 < fw_mtu mode" "fw_capacity mode = fw_mtu mode - 5"
  by (simp_all add: fw_mtu_def fw_capacity_def core_consts)

lemma payload_length_eq: "unat (drop_bit RBSP_FRAGMENT_LENGTH_SHIFT b) = encoded_payload_length b"
proof -
  have "drop_bit 2 b = drop_bit 2 (b AND NOT (mask 2))"
    by (rule byte_eqI) (auto simp: bit_drop_bit_eq bit_and_iff bit_not_iff bit_mask_iff dest: bit_imp_le_length)
  then show ?thesis
    by (simp add: encoded_payload_length_def wire_consts kFragmentLengthShift_def flag_mask_eq)
qed

lemma flag_mask_same: "RBSP_FRAGMENT_FLAG_MASK = kFragmentFlagMask" "RBSP_FRAGMENT_FIRST = kFragmentFirst"
  "RBSP_FRAGMENT_LAST = kFragmentLast"
  by (simp_all add: wire_consts fragment_consts)

lemma zero_tail:
  assumes "n \<le> len" "len \<le> length xs"
  shows "list_ex (\<lambda>i. xs ! i \<noteq> 0) [n..<len] \<longleftrightarrow> \<not> list_all (\<lambda>b. b = 0) (drop n (take len xs))"
proof -
  have "drop n (take len xs) = map (\<lambda>i. xs ! i) [n..<len]"
    using assms by (auto simp: list_eq_iff_nth_eq)
  then show ?thesis by (auto simp: list_ex_iff list_all_iff)
qed

text \<open>
  The node lets a frame through exactly when it is addressed to it, the host's decoder accepts the
  frame's bytes as a fragment, and the fragment is the last one or full.
\<close>

definition passes :: "fw_core \<Rightarrow> bus_frame \<Rightarrow> fragment \<Rightarrow> bool" where
  "passes core frame f \<longleftrightarrow> addressed core (bf_identifier frame) \<and>
     decode_fragment (take (unat (bf_length frame)) (bf_data frame)) (fw_mtu (fc_can_mode core)) = Inr f \<and>
     (bit (fr_flags f) 1 \<or> length (fr_payload f) = fw_capacity (fc_can_mode core))"

lemma get_u16_take: "k \<ge> 2 \<Longrightarrow> get_u16 (take k xs) = get_u16 xs"
  by (simp add: get_u16_def)

lemma get_u16_drop_take: "k \<ge> 4 \<Longrightarrow> get_u16 (drop 2 (take k xs)) = get_u16 (drop 2 xs)"
  by (simp add: drop_take get_u16_take)

lemma accept_passes:
  assumes len: "unat (bf_length frame) \<le> length (bf_data frame)" and p: "passes core frame f"
  shows "accept_frame core frame = Some (fr_transfer_id f, fr_sequence f, bit (fr_flags f) 0,
    bit (fr_flags f) 1, fr_payload f)"
proof -
  let ?d = "bf_data frame" and ?len = "unat (bf_length frame)" and ?mode = "fc_can_mode core"
  define n where "n = encoded_payload_length (?d ! 4)"
  have adr: "addressed core (bf_identifier frame)" and
    dec: "decode_fragment (take ?len ?d) (fw_mtu ?mode) = Inr f" and
    full: "bit (fr_flags f) 1 \<or> length (fr_payload f) = fw_capacity ?mode"
    using p by (simp_all add: passes_def)
  note d0 = decode_fragment_InrD [OF dec]
  have l: "length (take ?len ?d) = ?len" using len by simp
  have "5 < ?len" using d0(3,4) unfolding l by linarith
  then have n4: "take ?len ?d ! 4 = ?d ! 4" by simp
  note d = d0 [unfolded n4 l, folded n_def]
  have f: "fr_transfer_id f = get_u16 ?d" "fr_sequence f = get_u16 (drop 2 ?d)"
    "fr_flags f = ?d ! 4 AND kFragmentFlagMask" "fr_payload f = take n (drop 5 ?d)"
    using d(4) \<open>5 < ?len\<close> unfolding d(6) by (simp_all add: get_u16_take get_u16_drop_take drop_take)
  have c1: "\<not> (?len \<le> 5 \<or> ?len > fw_mtu ?mode \<or> (bf_identifier frame \<noteq> RBSP_CAN_ID_DISCOVERY \<and>
      (fc_node_id core = 0 \<or> bf_identifier frame \<noteq> RBSP_CAN_ID_REQUEST_BASE + fc_node_id core)))"
    using adr d(2) \<open>5 < ?len\<close> by (auto simp: addressed_def)
  have c2: "\<not> (n = 0 \<or> n > fw_capacity ?mode \<or> 5 + n > ?len \<or>
      (fr_flags f AND kFragmentFirst \<noteq> 0) \<noteq> (fr_sequence f = 0))"
    using d(2,3,4,7) mtu_cases [of ?mode] by auto
  have c3: "\<not> list_ex (\<lambda>i. ?d ! i \<noteq> 0) [5 + n..<?len]"
    using zero_tail [OF d(4) len] d(5) by simp
  have c4: "\<not> (\<not> (fr_flags f AND kFragmentLast \<noteq> 0) \<and> n \<noteq> fw_capacity ?mode)"
    using full d(4) len by (auto simp: f(4))
  show ?thesis
    unfolding accept_frame_def Let_def payload_length_eq flag_mask_same RBSP_FRAGMENT_HEADER_SIZE_def
      n_def [symmetric] f(1,2,3) [symmetric] if_not_P [OF c1] if_not_P [OF c2] if_not_P [OF c3]
      if_not_P [OF c4]
    by (simp add: f(4))
qed

lemma passes_split:
  assumes s: "splittable (fw_mtu (fc_can_mode core)) bs"
    and i: "i < fragment_count (fw_mtu (fc_can_mode core)) (length bs)"
    and c: "carries (fc_can_mode core) (bf_identifier frame)
      (split_frame (fw_mtu (fc_can_mode core)) bs tid i) frame"
    and a: "addressed core (bf_identifier frame)"
  shows "passes core frame (split_fragment (fw_mtu (fc_can_mode core)) bs tid i)"
proof -
  let ?mtu = "fw_mtu (fc_can_mode core)" and ?len = "unat (bf_length frame)"
  define k where "k = fragment_count ?mtu (length bs)"
  let ?d = "split_frame ?mtu bs tid i" and ?f = "split_fragment ?mtu bs tid i"
  have car: "length ?d \<le> ?len" "?len \<le> ?mtu" "take ?len (bf_data frame) = ?d @ replicate (?len - length ?d) 0"
    using c by (simp_all add: carries_def Let_def)
  have "length ?d + (?len - length ?d) \<le> ?mtu" using car(1,2) by simp
  then have dec: "decode_fragment (take ?len (bf_data frame)) ?mtu = Inr ?f"
    unfolding car(3) using decode_padded [OF split_frame_encoded [OF s i]] by blast
  have "bit (fr_flags ?f) 1 \<or> length (fr_payload ?f) = ?mtu - 5"
  proof (cases "i + 1 = k")
    case True
    then show ?thesis using split_fragment_flags(3) [of ?mtu bs tid i] by (simp add: k_def)
  next
    case False
    have b: "(k - 1) * (?mtu - 5) < length bs"
      using fragment_count_bounds(3) [of ?mtu "length bs"] s by (simp add: k_def splittable_def)
    have "i + 1 \<le> k - 1" using False i by (simp add: k_def)
    then have "(i + 1) * (?mtu - 5) \<le> (k - 1) * (?mtu - 5)" by (rule mult_le_mono1)
    then have "i * (?mtu - 5) + (?mtu - 5) \<le> length bs" using b by simp
    then show ?thesis
      by (simp add: split_fragment_def Let_def kFragmentHeaderSize_def)
  qed
  then show ?thesis using a dec by (simp add: passes_def mtu_cases(3))
qed

subsection \<open>A transfer in its slot\<close>

text \<open>The node \<open>base\<close> while slot \<open>i\<close> holds the first \<open>k\<close> fragments of a transfer.\<close>

definition held :: "fw_core \<Rightarrow> nat \<Rightarrow> u32 \<Rightarrow> u16 \<Rightarrow> nat \<Rightarrow> byte list \<Rightarrow> u32 \<Rightarrow> fw_core" where
  "held base i can_id tid k data updated = set_slot i \<lparr>rs_active = True, rs_stream_id = can_id,
     rs_transfer_id = tid, rs_next_sequence = word_of_nat k, rs_packet = data,
     rs_last_update_ms = updated\<rparr> base"

lemma held_simps [simp]:
  "fc_node_id (held base i can_id tid k data t) = fc_node_id base"
  "fc_can_mode (held base i can_id tid k data t) = fc_can_mode base"
  "i < length (fc_reassembly base) \<Longrightarrow> fc_reassembly (held base i can_id tid k data t) ! i =
     \<lparr>rs_active = True, rs_stream_id = can_id, rs_transfer_id = tid, rs_next_sequence = word_of_nat k,
      rs_packet = data, rs_last_update_ms = t\<rparr>"
  by (simp_all add: held_def set_slot_def)

lemma held_first:
  assumes "find_slot base can_id tid = None" "first_free rs_active (fc_reassembly base) = Some i"
  shows "slot_for can_id tid True base = Some (i, held base i can_id tid 0 [] 0)"
    and "i < length (fc_reassembly base)"
proof -
  show i: "i < length (fc_reassembly base)"
    using assms(2) by (auto simp: first_free_def find_Some_iff)
  show "slot_for can_id tid True base = Some (i, held base i can_id tid 0 [] 0)"
    using assms i by (simp add: slot_for_def allocate_slot_def held_def set_slot_def empty_slot_def)
qed

lemma held_later:
  assumes none: "find_slot base can_id tid = None" and i: "i < length (fc_reassembly base)"
  shows "slot_for can_id tid first (held base i can_id tid k data t) =
    Some (i, held base i can_id tid k data t)"
proof -
  let ?l = "fc_reassembly (held base i can_id tid k data t)"
  have len: "length ?l = length (fc_reassembly base)" by (simp add: held_def set_slot_def)
  have other: "\<not> slot_of can_id tid (?l ! j)" if "j < length (fc_reassembly base)" "j \<noteq> i" for j
    using none that by (auto simp: find_slot_def find_None_iff held_def set_slot_def)
  have own: "slot_of can_id tid (?l ! i)" using i by (simp add: slot_of_def)
  have "find (\<lambda>j. slot_of can_id tid (?l ! j)) [0..<length ?l] = Some i"
    unfolding len find_Some_iff by (rule exI [of _ i]) (use i own other in auto)
  then show ?thesis by (simp add: slot_for_def find_slot_def)
qed

lemma held_fragment:
  assumes slot: "slot_for (bf_identifier frame) tid first core = Some (i, held base i can_id tid k data t)"
    and i: "i < length (fc_reassembly base)"
    and acc: "accept_frame core frame = Some (tid, word_of_nat k, first, final, pl)"
    and fit: "length data + length pl \<le> cb_max_packet_size b"
    and now: "hal_ms h c = (now, c1)"
  shows "rbsp_core_accept_can b h frame (core, c) =
    (let core1 = held base i can_id tid (k + 1) (data @ pl) now in
     if final then
       (let (core2, c2) = (case decode_request (data @ pl) of None \<Rightarrow> (core1, c1)
            | Some r \<Rightarrow> snd (fw_process_request b h r (core1, c1))) in (deactivate i core2, c2))
     else (core1, c1))"
proof -
  have step: "set_slot i \<lparr>rs_active = True, rs_stream_id = can_id, rs_transfer_id = tid,
      rs_next_sequence = word_of_nat k + 1, rs_packet = data @ pl, rs_last_update_ms = now\<rparr>
      (held base i can_id tid k data t) = held base i can_id tid (k + 1) (data @ pl) now"
    using i by (simp add: held_def set_slot_def add.commute)
  have "\<not> length data + length pl > cb_max_packet_size b" using fit by simp
  then show ?thesis
    unfolding rbsp_core_accept_can_def next_fragment_def Let_def prod.case acc option.case slot
      held_simps(3) [OF i] now reassembly_slot.simps step
    by simp
qed

definition clocked :: "'c hal \<Rightarrow> nat \<Rightarrow> 'c \<Rightarrow> 'c" where
  "clocked h n = (\<lambda>c. snd (hal_ms h c)) ^^ n"

lemma clocked_Suc: "clocked h (Suc n) c = snd (hal_ms h (clocked h n c))"
  by (simp add: clocked_def)

text \<open>The frames that carry a packet to the node, as the host cuts it.\<close>

definition host_frames :: "fw_core \<Rightarrow> u32 \<Rightarrow> u16 \<Rightarrow> byte list \<Rightarrow> bus_frame list \<Rightarrow> bool" where
  "host_frames core can_id tid bs frames \<longleftrightarrow> addressed core can_id \<and>
     (\<exists>ds. fragmenter_split (fw_mtu (fc_can_mode core)) bs tid = Inr ds \<and>
           list_all2 (carries (fc_can_mode core) can_id) ds frames)"

lemma host_framesD:
  assumes "host_frames core can_id tid bs frames"
  shows "splittable (fw_mtu (fc_can_mode core)) bs"
    and "length frames = fragment_count (fw_mtu (fc_can_mode core)) (length bs)"
    and "m < length frames \<Longrightarrow>
      carries (fc_can_mode core) can_id (split_frame (fw_mtu (fc_can_mode core)) bs tid m) (frames ! m)"
    and "addressed core can_id"
proof -
  obtain ds where ds: "fragmenter_split (fw_mtu (fc_can_mode core)) bs tid = Inr ds"
      "list_all2 (carries (fc_can_mode core) can_id) ds frames"
    using assms by (auto simp: host_frames_def)
  show s: "splittable (fw_mtu (fc_can_mode core)) bs"
    using fragmenter_split_Inl [OF mtu_cases(2), of "fc_can_mode core" bs tid] ds(1) by fastforce
  have "ds = map (split_frame (fw_mtu (fc_can_mode core)) bs tid)
      [0..<fragment_count (fw_mtu (fc_can_mode core)) (length bs)]"
    using fragmenter_split_Inr [OF s, of tid] ds(1) by simp
  then show "length frames = fragment_count (fw_mtu (fc_can_mode core)) (length bs)"
    and "m < length frames \<Longrightarrow>
      carries (fc_can_mode core) can_id (split_frame (fw_mtu (fc_can_mode core)) bs tid m) (frames ! m)"
    using ds(2) by (auto simp: list_all2_conv_all_nth)
  show "addressed core can_id" using assms by (simp add: host_frames_def)
qed

lemma held_next:
  assumes f: "host_frames base can_id tid bs frames" and m: "m < length frames"
    and slot: "slot_for can_id tid (m = 0) core =
      Some (i, held base i can_id tid m (take (m * fw_capacity (fc_can_mode base)) bs) t)"
    and same: "fc_node_id core = fc_node_id base" "fc_can_mode core = fc_can_mode base"
    and i: "i < length (fc_reassembly base)" and fit: "length bs \<le> cb_max_packet_size b"
    and now: "hal_ms h c = (now, c1)"
  shows "rbsp_core_accept_can b h (frames ! m) (core, c) =
    (let data = take (Suc m * fw_capacity (fc_can_mode base)) bs;
         core1 = held base i can_id tid (m + 1) data now in
     if Suc m = length frames then
       (let (core2, c2) = (case decode_request data of None \<Rightarrow> (core1, c1)
            | Some r \<Rightarrow> snd (fw_process_request b h r (core1, c1))) in (deactivate i core2, c2))
     else (core1, c1))"
proof -
  let ?mode = "fc_can_mode base" and ?f = "frames ! m"
  let ?mtu = "fw_mtu ?mode" and ?cap = "fw_capacity ?mode"
  note d = host_framesD [OF f]
  have car: "carries ?mode can_id (split_frame ?mtu bs tid m) ?f" by (rule d(3) [OF m])
  then have id: "bf_identifier ?f = can_id" and len: "unat (bf_length ?f) \<le> length (bf_data ?f)"
    by (simp_all add: carries_def Let_def)
  have "addressed core can_id" using d(4) same by (simp add: addressed_def)
  then have "passes core ?f (split_fragment ?mtu bs tid m)"
    using passes_split [of core bs m ?f tid] d(1,2) m car same id by simp
  then have acc: "accept_frame core ?f = Some (tid, word_of_nat m, m = 0, Suc m = length frames,
      take (min ?cap (length bs - m * ?cap)) (drop (m * ?cap) bs))"
    using accept_passes [OF len] split_fragment_flags(2,3) [of ?mtu bs tid m] d(2)
    by (simp add: split_fragment_def Let_def mtu_cases(3) kFragmentHeaderSize_def)
  have data: "take (m * ?cap) bs @ take (min ?cap (length bs - m * ?cap)) (drop (m * ?cap) bs) =
      take (Suc m * ?cap) bs"
    using take_add [of "m * ?cap" ?cap bs] by (simp add: min_def add.commute)
  have "length (take (m * ?cap) bs) + length (take (min ?cap (length bs - m * ?cap)) (drop (m * ?cap) bs)) \<le>
      length bs" by simp
  then show ?thesis
    using held_fragment [OF slot [folded id] i acc le_trans [OF _ fit] now] unfolding data id Let_def by simp
qed

lemma held_prefix:
  assumes f: "host_frames base can_id tid bs frames" and m: "m < length frames"
    and free: "find_slot base can_id tid = None" "first_free rs_active (fc_reassembly base) = Some i"
    and fit: "length bs \<le> cb_max_packet_size b"
  shows "\<exists>core t. fold (rbsp_core_accept_can b h) (take m frames) (base, c) = (core, clocked h m c) \<and>
    slot_for can_id tid (m = 0) core =
      Some (i, held base i can_id tid m (take (m * fw_capacity (fc_can_mode base)) bs) t) \<and>
    fc_node_id core = fc_node_id base \<and> fc_can_mode core = fc_can_mode base"
  using m
proof (induction m)
  case 0
  then show ?case using held_first(1) [OF free]
    by (intro exI [of _ base] exI [of _ 0]) (simp add: clocked_def)
next
  case (Suc m)
  note i = held_first(2) [OF free]
  obtain core t where c: "fold (rbsp_core_accept_can b h) (take m frames) (base, c) = (core, clocked h m c)"
    "slot_for can_id tid (m = 0) core =
      Some (i, held base i can_id tid m (take (m * fw_capacity (fc_can_mode base)) bs) t)"
    "fc_node_id core = fc_node_id base" "fc_can_mode core = fc_can_mode base"
    using Suc by auto
  obtain now c1 where now: "hal_ms h (clocked h m c) = (now, c1)" by (metis prod.collapse)
  have m: "m < length frames" using Suc.prems by simp
  let ?core = "held base i can_id tid (m + 1) (take (Suc m * fw_capacity (fc_can_mode base)) bs) now"
  have "rbsp_core_accept_can b h (frames ! m) (core, clocked h m c) = (?core, c1)"
    using held_next [OF f m c(2-4) i fit now] Suc.prems by simp
  then have "fold (rbsp_core_accept_can b h) (take (Suc m) frames) (base, c) = (?core, clocked h (Suc m) c)"
    using c(1) now m by (simp add: take_Suc_conv_app_nth clocked_Suc)
  moreover have "slot_for can_id tid (Suc m = 0) ?core = Some (i, ?core)"
    using held_later [OF free(1) i] .
  ultimately show ?case by (intro exI [of _ ?core] exI [of _ now]) simp
qed

lemma held_all:
  assumes f: "host_frames base can_id tid bs frames"
    and free: "find_slot base can_id tid = None" "first_free rs_active (fc_reassembly base) = Some i"
    and fit: "length bs \<le> cb_max_packet_size b"
    and r: "decode_request bs = Some r"
  shows "\<exists>now. fold (rbsp_core_accept_can b h) frames (base, c) =
    (let (sent, (core2, c2)) = fw_process_request b h r
           (held base i can_id tid (length frames) bs now, clocked h (length frames) c)
     in (deactivate i core2, c2))"
proof -
  let ?cap = "fw_capacity (fc_can_mode base)"
  note d = host_framesD [OF f]
  have s: "0 < length bs" "5 < fw_mtu (fc_can_mode base)" using d(1) by (simp_all add: splittable_def)
  note k = fragment_count_bounds [OF s(2,1), folded d(2), folded mtu_cases(3)]
  obtain m where m: "length frames = Suc m" using k(1) gr0_conv_Suc by blast
  obtain core t where c: "fold (rbsp_core_accept_can b h) (take m frames) (base, c) = (core, clocked h m c)"
    "slot_for can_id tid (m = 0) core = Some (i, held base i can_id tid m (take (m * ?cap) bs) t)"
    "fc_node_id core = fc_node_id base" "fc_can_mode core = fc_can_mode base"
    using held_prefix [OF f _ free fit, of m h c] m by auto
  obtain now c1 where now: "hal_ms h (clocked h m c) = (now, c1)" by (metis prod.collapse)
  have all: "frames = take m frames @ [frames ! m]" using m by (metis lessI take_Suc_conv_app_nth take_all order_refl)
  have "take (Suc m * ?cap) bs = bs" using k(2) m by simp
  then have "rbsp_core_accept_can b h (frames ! m) (core, clocked h m c) =
      (let (core2, c2) = snd (fw_process_request b h r (held base i can_id tid (length frames) bs now, c1))
       in (deactivate i core2, c2))"
    using held_next [OF f _ c(2-4) held_first(2) [OF free] fit now] m r by simp
  then have "fold (rbsp_core_accept_can b h) frames (base, c) =
    (let (core2, c2) = snd (fw_process_request b h r
           (held base i can_id tid (length frames) bs now, clocked h (length frames) c))
     in (deactivate i core2, c2))"
    by (subst all) (use c(1) now m in \<open>simp add: clocked_Suc\<close>)
  then show ?thesis by (intro exI [of _ now]) (simp add: case_prod_beta)
qed

text \<open>
  The host's frames of a request make the node execute that request exactly once: cut by the
  host's fragmenter, carried by the bus with any zero padding, and fed in order to a node with a free
  slot, the frames end in one run of \<^verbatim>\<open>process_request\<close> on the fields the host encoded, on a node that
  differs from the one before only in the slot of the transfer, which is free again afterwards.
\<close>

theorem fw_request_executed:
  assumes "encode p = Inr bs" "ph_message_type (header p) = message_type_code Request"
    and "length bs \<le> cb_max_packet_size b"
    and "host_frames core can_id tid bs frames"
    and "find_slot core can_id tid = None" "first_free rs_active (fc_reassembly core) = Some i"
  shows "\<exists>now. fold (rbsp_core_accept_can b h) frames (core, c) =
    (let (sent, (core2, c2)) = fw_process_request b h (fw_request_of (sealed p))
           (held core i can_id tid (length frames) bs now, clocked h (length frames) c)
     in (deactivate i core2, c2))"
proof -
  have "decode_request bs = Some (fw_request_of (sealed p))"
    using decode_request_decode [OF decode_encode [OF assms(1)]] assms(2)
    by (simp add: sealed_def Let_def)
  then show ?thesis by (rule held_all [OF assms(4-6,3)])
qed

subsection \<open>Outgoing frames\<close>

lemma canonical_bounds:
  assumes "n \<le> 64"
  shows "n \<le> fd_canonical_length n" and "fd_canonical_length n \<le> 64"
  using assms by (auto simp: fd_canonical_length_def)

text \<open>The frames of a packet.\<close>

definition packet_frame :: "can_mode \<Rightarrow> u32 \<Rightarrow> u16 \<Rightarrow> byte list \<Rightarrow> nat \<Rightarrow> bus_frame" where
  "packet_frame mode can_id tid packet i = send_frame mode can_id tid (word_of_nat i)
     (take (fw_capacity mode) (drop (i * fw_capacity mode) packet))
     (i + 1 = fragment_count (fw_mtu mode) (length packet))"

lemma packet_frame_carries:
  assumes s: "splittable (fw_mtu mode) packet" and i: "i < fragment_count (fw_mtu mode) (length packet)"
  shows "carries mode can_id (split_frame (fw_mtu mode) packet tid i) (packet_frame mode can_id tid packet i)"
proof -
  let ?cap = "fw_capacity mode" and ?f = "split_fragment (fw_mtu mode) packet tid i"
  let ?d = "split_frame (fw_mtu mode) packet tid i"
  let ?chunk = "take ?cap (drop (i * ?cap) packet)"
  have chunk: "fr_payload ?f = ?chunk"
    by (simp add: split_fragment_def Let_def mtu_cases(3) kFragmentHeaderSize_def min_def)
  have ok: "frame_ok (fw_mtu mode) ?f" by (rule split_fragment_ok [OF s i])
  have d: "?d = put_u16 tid @ put_u16 (word_of_nat i) @
      [fr_flags ?f OR push_bit 2 (word_of_nat (length ?chunk))] @ ?chunk"
    using split_frame_encoded [OF s i, of tid] unfolding encode_fragment_iff chunk
    by (simp add: split_fragment_def Let_def kFragmentLengthShift_def)
  have "i < 2048" using i splittable_count [OF s] by simp
  then have first: "(word_of_nat i :: u16) = 0 \<longleftrightarrow> i = 0"
    by (simp add: word_unat_eq_iff unat_of_nat_small)
  have flags: "fr_flags ?f = (if i = 0 then RBSP_FRAGMENT_FIRST else 0) OR
      (if i + 1 = fragment_count (fw_mtu mode) (length packet) then RBSP_FRAGMENT_LAST else 0)"
    by (simp add: split_fragment_def Let_def flag_mask_same)
  have len: "length ?d \<le> fw_mtu mode" using ok chunk by (simp add: d frame_ok_def)
  define n where "n = (if mode = RBSP_CAN_FD then fd_canonical_length (length ?d) else length ?d)"
  have n: "length ?d \<le> n" "n \<le> fw_mtu mode" "fw_mtu mode \<le> 64"
    using len canonical_bounds [of "length ?d"] by (auto simp: n_def fw_mtu_def split: if_splits)
  have frame: "packet_frame mode can_id tid packet i =
      \<lparr>bf_identifier = can_id, bf_length = word_of_nat n, bf_data = ?d @ replicate (64 - length ?d) 0\<rparr>"
    unfolding packet_frame_def send_frame_def Let_def first n_def d flags
    by (simp add: or.assoc or.commute or.left_commute RBSP_FRAGMENT_LENGTH_SHIFT_def)
  have "unat (word_of_nat n :: byte) = n" using n(2,3) by (simp add: unat_of_nat_small)
  then show ?thesis using n by (simp add: carries_def frame Let_def min_def)
qed

text \<open>Offering frames to the controller until it refuses one.\<close>

primrec offer :: "'c hal \<Rightarrow> bus_frame list \<Rightarrow> 'c \<Rightarrow> bool \<times> 'c" where
  "offer h [] c = (True, c)"
| "offer h (f # fs) c = (case hal_send h f c of (False, c1) \<Rightarrow> (False, c1) | (True, c1) \<Rightarrow> offer h fs c1)"

lemma send_loop_offers:
  assumes k: "k \<le> fragment_count (fw_mtu mode) (length packet)" and p: "packet \<noteq> []"
  shows "send_loop h mode can_id tid (word_of_nat k) (drop (k * fw_capacity mode) packet) c =
    offer h (map (packet_frame mode can_id tid packet) [k..<fragment_count (fw_mtu mode) (length packet)]) c"
  using k
proof (induction k arbitrary: c rule: inc_induct)
  case base
  have "length packet \<le> fragment_count (fw_mtu mode) (length packet) * fw_capacity mode"
    using fragment_count_bounds(2) [OF mtu_cases(2), of "length packet" mode] p by (simp add: mtu_cases(3))
  then show ?case by (subst send_loop.simps) simp
next
  case (step k)
  let ?n = "fragment_count (fw_mtu mode) (length packet)" and ?cap = "fw_capacity mode"
  have "0 < length packet" using p by simp
  note b = fragment_count_bounds [OF mtu_cases(2) this, of mode, folded mtu_cases(3)]
  have "k * ?cap \<le> (?n - 1) * ?cap" using step.hyps(2) by (intro mult_le_mono1) simp
  then have "k * ?cap < length packet" using b(3) by (rule le_less_trans)
  then have ne: "drop (k * ?cap) packet \<noteq> []" by simp
  have rest: "drop ?cap (drop (k * ?cap) packet) = drop (Suc k * ?cap) packet" by simp
  have last: "drop (Suc k * ?cap) packet = [] \<longleftrightarrow> Suc k = ?n"
  proof
    assume "drop (Suc k * ?cap) packet = []"
    then have out: "length packet \<le> Suc k * ?cap" by simp
    have "\<not> Suc k \<le> ?n - 1"
    proof
      assume "Suc k \<le> ?n - 1"
      then have "Suc k * ?cap \<le> (?n - 1) * ?cap" by (rule mult_le_mono1)
      then show False using b(3) out by linarith
    qed
    then show "Suc k = ?n" using step.hyps(2) by simp
  next
    assume "Suc k = ?n"
    then show "drop (Suc k * ?cap) packet = []" using b(2) by (metis drop_all)
  qed
  have "[k..<?n] = k # [Suc k..<?n]" using step.hyps(2) by (rule upt_conv_Cons)
  moreover have "send_frame mode can_id tid (word_of_nat k) (take ?cap (drop (k * ?cap) packet))
      (drop (Suc k * ?cap) packet = []) = packet_frame mode can_id tid packet k"
    unfolding last packet_frame_def by simp
  moreover have "send_loop h mode can_id tid (word_of_nat k + 1) (drop (Suc k * ?cap) packet) c1 =
      offer h (map (packet_frame mode can_id tid packet) [Suc k..<?n]) c1" for c1
    using step.IH [of c1] by (simp add: add.commute)
  ultimately show ?case
    using ne by (subst send_loop.simps) (simp only: rest Let_def if_False list.map offer.simps)
qed

text \<open>
  The node cuts packets as the host does: sending a packet offers to the CAN controller, in order
  and up to the first refusal, frames that carry exactly what the host's fragmenter makes of it, and
  that the host's decoder reads back as those fragments.
\<close>

theorem fw_frames_agree:
  assumes "packet \<noteq> []" "length packet \<le> kMaximumPacketSize"
  shows "\<exists>ds frames. fragmenter_split (fw_mtu (fc_can_mode core)) packet tid = Inr ds \<and>
    list_all2 (carries (fc_can_mode core) can_id) ds frames \<and>
    send_packet h packet tid can_id (core, c) = (let (sent, c1) = offer h frames c in (sent, (core, c1)))"
proof -
  let ?mode = "fc_can_mode core"
  let ?n = "fragment_count (fw_mtu ?mode) (length packet)"
  have s: "splittable (fw_mtu ?mode) packet"
    using assms mtu_cases [of ?mode] by (auto simp: splittable_def)
  have "list_all2 (carries ?mode can_id) (map (split_frame (fw_mtu ?mode) packet tid) [0..<?n])
      (map (packet_frame ?mode can_id tid packet) [0..<?n])"
    by (auto simp: list_all2_conv_all_nth packet_frame_carries [OF s])
  moreover have "send_packet h packet tid can_id (core, c) =
      (let (sent, c1) = offer h (map (packet_frame ?mode can_id tid packet) [0..<?n]) c in (sent, (core, c1)))"
    using send_loop_offers [of 0 ?mode packet h can_id tid c] assms(1) by (simp add: send_packet_def)
  ultimately show ?thesis using fragmenter_split_Inr [OF s] by blast
qed

end
