(* ===== verification/Firmware_Answers.thy ===== *)
theory Firmware_Answers
  imports Firmware_Frames Node_Exchange
begin

text \<open>
  The exchange of a request and its answer with a node of the real boards: every executed request is
  answered by a legal response, and the request the host sends comes back as that response at the
  host's reassembler.
\<close>

subsection \<open>Every request has an answer\<close>

text \<open>
  The configuration in which responses fit the packet buffer. Kconfig allows a response of the cache
  (64 to 512 bytes) to be longer than a packet (256 to 2048 bytes); \<open>UART_READ\<close> then writes past the
  buffer, so the lemmas ask for the order that every shipped configuration has.
\<close>

definition buffers_fit :: "core_build \<Rightarrow> bool" where
  "buffers_fit b \<longleftrightarrow> config_ok b \<and> cb_cache_response_size b \<le> cb_max_packet_size b"

definition answered :: "core_build \<Rightarrow> fw_request \<Rightarrow> (byte list \<times> bootloader_mode option) option \<Rightarrow> bool" where
  "answered b request a \<longleftrightarrow> (\<exists>status oid data boot. a = Some (make_status_response request status oid data, boot) \<and>
     RBSP_HEADER_SIZE + 1 + length data \<le> cb_max_packet_size b)"

lemma answered_status:
  "25 + length data \<le> cb_max_packet_size b \<Longrightarrow>
    answered b request (Some (make_status_response request st oid data, boot))"
  unfolding answered_def core_consts by (rule exI [of _ st], rule exI [of _ oid], rule exI [of _ data]) simp

lemma answered_short:
  assumes "buffers_fit b" "length data \<le> 39"
  shows "answered b request (Some (make_status_response request st oid data, boot))"
  using assms by (intro answered_status) (simp add: buffers_fit_def config_ok_def)

lemma info_bytes_length: "length (fi_uuid info) \<le> 16 \<Longrightarrow> length (info_bytes info) \<le> 27"
  by (simp add: info_bytes_def)

lemma axis_status_bytes_length [simp]: "length (axis_status_bytes q axis) = 24"
  by (simp add: axis_status_bytes_def)

lemma motion_status_bytes_length: "length (motion_status_bytes mb t q) = 92 + 24 * fq_axis_count q"
  by (simp add: motion_status_bytes_def length_concat comp_def sum_list_triv)

lemma handlers_answer:
  assumes fit: "buffers_fit b" and uuid: "length (fi_uuid (fc_info (fst run))) \<le> 16"
  shows "answered b r (fst (on_get_info r run))"
    and "answered b r (fst (on_get_capability b h r run))"
    and "answered b r (fst (on_ping b r run))"
    and "answered b r (fst (on_bootloader_enter h r run))"
    and "answered b r (fst (on_gpio_create h r run))"
    and "answered b r (fst (on_gpio_read h r run))"
    and "answered b r (fst (on_gpio_write h r run))"
    and "answered b r (fst (on_uart_create b h r run))"
    and "answered b r (fst (on_uart_read b h r run))"
    and "answered b r (fst (on_uart_write h r run))"
    and "answered b r (fst (on_motion_enqueue mb h r run))"
    and "answered b r (fst (on_motion_status b mb h r run))"
    and "answered b r (fst (on_motion_abort mb h r run))"
    and "answered b r (fst (on_motion_clear_fault h r run))"
proof -
  note short = answered_short [OF fit]
  show "answered b r (fst (on_get_info r run))"
    using info_bytes_length [OF uuid] by (auto simp: on_get_info_def intro!: short)
  show "answered b r (fst (on_get_capability b h r run))"
    by (auto simp: on_get_capability_def intro!: short)
  show "answered b r (fst (on_ping b r run))"
    using fit by (auto simp: on_ping_def core_consts buffers_fit_def config_ok_def intro!: answered_status)
  show "answered b r (fst (on_bootloader_enter h r run))"
    by (auto simp: on_bootloader_enter_def intro!: short)
  show "answered b r (fst (on_gpio_create h r run))"
    by (cases run) (auto simp: on_gpio_create_def Let_def intro!: short split: option.split prod.split bool.split)
  show "answered b r (fst (on_gpio_read h r run))"
    by (cases run) (auto simp: on_gpio_read_def Let_def intro!: short split: option.split prod.split bool.split)
  show "answered b r (fst (on_gpio_write h r run))"
    by (cases run) (auto simp: on_gpio_write_def Let_def intro!: short split: option.split prod.split bool.split)
  show "answered b r (fst (on_uart_create b h r run))"
    by (cases run) (auto simp: on_uart_create_def Let_def intro!: short split: option.split prod.split bool.split)
  have read: "answered b r (Some (make_status_response r FS_Ok oid (take n data), None))"
    if "n \<le> cb_cache_response_size b - RBSP_HEADER_SIZE - 1" for oid n and data :: "byte list"
    using that fit by (intro answered_status) (auto simp: buffers_fit_def config_ok_def core_consts)
  show "answered b r (fst (on_uart_read b h r run))"
    by (cases run) (auto simp: on_uart_read_def Let_def not_less intro!: short read split: option.split prod.split)
  show "answered b r (fst (on_uart_write h r run))"
    by (cases run) (auto simp: on_uart_write_def Let_def intro!: short split: option.split prod.split bool.split)
  show "answered b r (fst (on_motion_enqueue mb h r run))"
    by (cases run) (auto simp: on_motion_enqueue_def Let_def intro!: short split: option.split prod.split sum.split)
  show "answered b r (fst (on_motion_status b mb h r run))"
    using fit by (cases run) (auto simp: on_motion_status_def Let_def core_consts motion_status_bytes_length not_less
        buffers_fit_def config_ok_def intro!: answered_status split: prod.split)
  show "answered b r (fst (on_motion_abort mb h r run))"
    by (cases run) (auto simp: on_motion_abort_def Let_def intro!: short)
  show "answered b r (fst (on_motion_clear_fault h r run))"
    by (cases run) (auto simp: on_motion_clear_fault_def Let_def intro!: short split: prod.split bool.split)
qed

lemma dispatch_answers:
  assumes "buffers_fit b" "length (fi_uuid (fc_info (fst run))) \<le> 16"
    and "rq_command r \<noteq> rbsp_command RC_DiscoveryRequest" "rq_command r \<noteq> rbsp_command RC_NodeAssign"
  shows "answered b r (fst (fw_dispatch b h r run))"
  unfolding fw_dispatch_def Let_def using assms(3,4)
  by (simp add: handlers_answer [OF assms(1,2)] answered_short [OF assms(1)] split: option.split)

text \<open>What the host reads in an answer.\<close>

definition fw_answers :: "fw_request \<Rightarrow> packet \<Rightarrow> bool" where
  "fw_answers request p \<longleftrightarrow> (let hd = header p in ph_version hd = kProtocolVersion \<and>
     ph_message_type hd = message_type_code Response \<and> ph_command hd = rq_command request \<and>
     ph_session_id hd = rq_session_id request \<and> ph_request_id hd = rq_request_id request \<and>
     (\<exists>status data. payload p = rbsp_status status # data \<and>
        ph_flags hd = (if status = FS_Ok then 0 else kErrorResponseFlag)))"

lemma answered_decodes:
  assumes "answered b request a" "cb_max_packet_size b \<le> 2048"
  shows "\<exists>response boot p. a = Some (response, boot) \<and> length response \<le> cb_max_packet_size b \<and>
    response \<noteq> [] \<and> decode response = Inr p \<and> fw_answers request p"
proof -
  obtain status oid data boot where a: "a = Some (make_status_response request status oid data, boot)"
    "25 + length data \<le> cb_max_packet_size b"
    using assms(1) by (auto simp: answered_def core_consts)
  define p where "p = \<lparr>header = \<lparr>ph_version = 1, ph_message_type = 2, ph_command = rq_command request,
     ph_session_id = rq_session_id request, ph_request_id = rq_request_id request, ph_object_id = oid,
     ph_payload_length = 0, ph_flags = (if status = FS_Ok then 0 else kErrorResponseFlag), ph_crc = 0\<rparr>,
     payload = rbsp_status status # data\<rparr>"
  have fields: "encode_fields p = make_status_response request status oid data"
    by (simp add: encode_fields_def p_def make_status_response_def wire_consts kErrorResponseFlag_def)
  have "encodable p" using a(2) assms(2) by (simp add: encodable_def p_def)
  then have "decode (make_status_response request status oid data) = Inr (sealed p)"
    using fields by (metis decode_encode encode_fields_eq)
  moreover have "fw_answers request (sealed p)"
    by (auto simp: fw_answers_def sealed_def p_def Let_def packet_consts)
  moreover have "length (make_status_response request status oid data) \<le> cb_max_packet_size b"
    "make_status_response request status oid data \<noteq> []"
    using a(2) make_status_response_length [of request status oid data]
    by (simp_all add: core_consts flip: length_greater_0_conv)
  ultimately show ?thesis using a(1) by blast
qed

text \<open>The bytes of a frame on the bus, as the host's socket gives them.\<close>

definition frame_bytes :: "bus_frame \<Rightarrow> byte list" where
  "frame_bytes frame = take (unat (bf_length frame)) (bf_data frame)"

lemma carries_decodes:
  assumes "fragmenter_split (fw_mtu mode) pkt tid = Inr ds" "list_all2 (carries mode can_id) ds out" "i < length ds"
  shows "decode_fragment (frame_bytes (out ! i)) (fw_mtu mode) = decode_fragment (ds ! i) (fw_mtu mode)"
proof -
  let ?mtu = "fw_mtu mode"
  have s: "splittable ?mtu pkt"
    using fragmenter_split_Inl [OF mtu_cases(2), of mode pkt tid] assms(1) by fastforce
  have ds: "ds = map (split_frame ?mtu pkt tid) [0..<fragment_count ?mtu (length pkt)]"
    using fragmenter_split_Inr [OF s, of tid] assms(1) by simp
  then have e: "encode_fragment (split_fragment ?mtu pkt tid i) ?mtu = Inr (ds ! i)"
    using split_frame_encoded [OF s, of i tid] assms(3) by simp
  let ?len = "unat (bf_length (out ! i))"
  have c: "length (ds ! i) \<le> ?len" "?len \<le> ?mtu" "frame_bytes (out ! i) = ds ! i @ replicate (?len - length (ds ! i)) 0"
    using list_all2_nthD [OF assms(2,3)] by (simp_all add: carries_def frame_bytes_def Let_def)
  have "decode_fragment (frame_bytes (out ! i)) ?mtu = Inr (split_fragment ?mtu pkt tid i)"
    unfolding c(3) using c(1,2) by (intro decode_padded [OF e]) simp
  moreover have "decode_fragment (ds ! i) ?mtu = Inr (split_fragment ?mtu pkt tid i)"
    using decode_padded [OF e, of 0] c(1,2) by simp
  ultimately show ?thesis by simp
qed

lemma run_arrivals_padded:
  assumes "\<forall>i \<in> set is. decode_fragment (fs ! i) (ra_mtu ra) = decode_fragment (ds ! i) (ra_mtu ra)"
  shows "run_arrivals s fs (map (\<lambda>i. Own i now) is) ra = run_arrivals s ds (map (\<lambda>i. Own i now) is) ra"
  using assms
proof (induction "is" arbitrary: ra)
  case (Cons i "is")
  have "decode_fragment (fs ! i) (ra_mtu (snd (expire now ra))) = decode_fragment (ds ! i) (ra_mtu (snd (expire now ra)))"
    using Cons.prems by simp
  then have eq: "accept s (fs ! i) now ra = accept s (ds ! i) now ra"
    by (simp only: accept_def Let_def)
  have "ra_mtu (snd (accept s (ds ! i) now ra)) = ra_mtu ra" by simp
  then show ?case using Cons.IH [of "snd (accept s (ds ! i) now ra)"] Cons.prems eq
    by (simp add: split_beta)
qed simp

subsection \<open>The exchange\<close>

lemma held_view [simp]:
  "fc_info (held core i can_id tid k data t) = fc_info core"
  "find_cache (held core i can_id tid k data t) r = find_cache core r"
  by (simp_all add: held_def set_slot_def find_cache_def)

lemma send_response_offers:
  assumes "response \<noteq> []" "length response \<le> 2048"
  shows "\<exists>tid ds out. fragmenter_split (fw_mtu (fc_can_mode core)) response tid = Inr ds \<and>
    list_all2 (carries (fc_can_mode core) (response_can_id b core)) ds out \<and>
    fst (send_response b h response (core, c)) = fst (offer h out c) \<and>
    snd (snd (send_response b h response (core, c))) = snd (offer h out c)"
proof -
  obtain tid core1 where a: "fw_allocate_transfer_id core = (tid, core1)" by fastforce
  have mode: "fc_can_mode core1 = fc_can_mode core" using a by (auto simp: fw_allocate_transfer_id_def Let_def)
  obtain ds out where d: "fragmenter_split (fw_mtu (fc_can_mode core1)) response tid = Inr ds"
    "list_all2 (carries (fc_can_mode core1) (response_can_id b core)) ds out"
    "send_packet h response tid (response_can_id b core) (core1, c) =
      (let (sent, c1) = offer h out c in (sent, (core1, c1)))"
    using fw_frames_agree [OF assms(1), of core1 tid "response_can_id b core" h c] assms(2)
    by (auto simp: packet_consts)
  then show ?thesis using mode
    by (intro exI [of _ tid] exI [of _ ds] exI [of _ out]) (simp add: send_response_def a split_beta Let_def)
qed

lemma process_new_board:
  assumes "find_cache core r = None" "fw_dispatch b h r (core, c) = (Some (response, boot), (core1, c1))"
  shows "snd (snd (fw_process_request b h r (core, c))) =
    (let (sent, (core2, c2)) = send_response b h response (fw_insert_cache b r response core1, c1)
     in if sent \<and> boot \<noteq> None then snd (hal_ms h c2) else c2)"
  using assms by (auto simp: fw_process_request_def request_bootloader_def split_beta Let_def split: option.split)

lemma received_padded:
  assumes "fragmenter_split (fw_mtu mode) pkt tid = Inr ds" "list_all2 (carries mode can_id) ds out"
    and "reassembler_reachable (fw_mtu mode) timeout ra" "\<forall>tid. map_of (ra_transfers ra) (transfer_key node tid) = None"
  shows "run_arrivals node (map frame_bytes out) (map (\<lambda>i. Own i later) [0..<length out]) ra =
    replicate (length out - 1) (Inr (InProgress, None)) @ [Inr (Complete, Some pkt)]"
proof -
  have ra: "reassembler_ok ra" "ra_mtu ra = fw_mtu mode" using reachable_inv [OF assms(3)] by simp_all
  have n: "length out = length ds" using assms(2) by (simp add: list_all2_lengthD)
  have "\<forall>i \<in> set [0..<length out]. decode_fragment (map frame_bytes out ! i) (ra_mtu ra) =
      decode_fragment (ds ! i) (ra_mtu ra)"
    using carries_decodes [OF assms(1,2)] n ra(2) by simp
  then have "run_arrivals node (map frame_bytes out) (map (\<lambda>i. Own i later) [0..<length out]) ra =
      run_arrivals node ds (map (\<lambda>i. Own i later) [0..<length out]) ra" by (rule run_arrivals_padded)
  then show ?thesis
    using received_in_order [OF assms(1) ra(1,2), of node later] assms(4) n by simp
qed

text \<open>
  C38. A request of the host reaches the handlers of a real board once and its answer comes back. The
  host's frames of a new request, carried with any padding and fed in order to a node with a free
  slot, run the handler once, on the node as it was but for the slot; the board sees nothing else but
  clock readings and the frames of the response, whose bytes the host's reassembler, of any state that
  does not know the transfer, puts together to a packet that answers the request.
\<close>

theorem fw_request_answered:
  assumes b: "buffers_fit b" "length (fi_uuid (fc_info core)) = 16"
    and p: "encode p = Inr bs" "ph_message_type (header p) = message_type_code Request"
      "length bs \<le> cb_max_packet_size b"
      "ph_command (header p) \<noteq> command_code DiscoveryRequest" "ph_command (header p) \<noteq> command_code NodeAssign"
    and f: "host_frames core can_id tid bs frames"
      "find_slot core can_id tid = None" "first_free rs_active (fc_reassembly core) = Some i"
    and new: "find_cache core (fw_request_of (sealed p)) = None"
    and ra: "reassembler_reachable (fw_mtu (fc_can_mode core)) timeout ra"
      "\<forall>tid. map_of (ra_transfers ra) (transfer_key node tid) = None"
  shows "\<exists>now response boot core1 c1 answer out.
    fw_dispatch b h (fw_request_of (sealed p))
      (held core i can_id tid (length frames) bs now, clocked h (length frames) c) =
      (Some (response, boot), (core1, c1)) \<and>
    decode response = Inr answer \<and> fw_answers (fw_request_of (sealed p)) answer \<and>
    snd (fold (rbsp_core_accept_can b h) frames (core, c)) =
      (let (sent, c2) = offer h out c1 in if sent \<and> boot \<noteq> None then snd (hal_ms h c2) else c2) \<and>
    run_arrivals node (map frame_bytes out) (map (\<lambda>i. Own i later) [0..<length out]) ra =
      replicate (length out - 1) (Inr (InProgress, None)) @ [Inr (Complete, Some response)]"
proof -
  let ?r = "fw_request_of (sealed p)"
  have "decode_request bs = Some ?r"
    using decode_request_decode [OF decode_encode [OF p(1)]] p(2) by (simp add: sealed_def Let_def)
  note all = held_all [OF f p(3) this, of h c]
  obtain now where exec: "fold (rbsp_core_accept_can b h) frames (core, c) =
      (let (sent, (core2, c2)) = fw_process_request b h ?r
             (held core i can_id tid (length frames) bs now, clocked h (length frames) c)
       in (deactivate i core2, c2))"
    by (rule exE [OF all])
  let ?core = "held core i can_id tid (length frames) bs now" and ?c = "clocked h (length frames) c"
  have cmd: "rq_command ?r \<noteq> rbsp_command RC_DiscoveryRequest" "rq_command ?r \<noteq> rbsp_command RC_NodeAssign"
    using p(4,5) by (simp_all add: fw_request_of_def sealed_def Let_def)
  have max: "cb_max_packet_size b \<le> 2048" "64 \<le> cb_cache_response_size b"
    using b(1) by (simp_all add: buffers_fit_def config_ok_def)
  have "answered b ?r (fst (fw_dispatch b h ?r (?core, ?c)))"
    using dispatch_answers [OF b(1) _ cmd, of "(?core, ?c)" h] b(2) by simp
  then obtain response boot answer where a: "fst (fw_dispatch b h ?r (?core, ?c)) = Some (response, boot)"
    "length response \<le> cb_max_packet_size b" "response \<noteq> []" "decode response = Inr answer" "fw_answers ?r answer"
    using answered_decodes [OF _ max(1)] by blast
  obtain core1 c1 where d: "fw_dispatch b h ?r (?core, ?c) = (Some (response, boot), (core1, c1))"
    using a(1) by (metis prod.collapse)
  define core2 where "core2 = fw_insert_cache b ?r response core1"
  have "fc_can_mode core2 = fc_can_mode core"
    using dispatch_rest [OF max(2), of h ?r "(?core, ?c)"] d by (simp add: core_rest_def core2_def fw_insert_cache_def)
  moreover have "length response \<le> 2048" using a(2) max(1) by simp
  ultimately obtain tid' ds out where o: "fragmenter_split (fw_mtu (fc_can_mode core)) response tid' = Inr ds"
    "list_all2 (carries (fc_can_mode core) (response_can_id b core2)) ds out"
    "fst (send_response b h response (core2, c1)) = fst (offer h out c1)"
    "snd (snd (send_response b h response (core2, c1))) = snd (offer h out c1)"
    using send_response_offers [OF a(3), of core2 b h c1] by auto
  have "snd (fold (rbsp_core_accept_can b h) frames (core, c)) = snd (snd (fw_process_request b h ?r (?core, ?c)))"
    unfolding exec by (simp add: split_beta Let_def)
  also have "\<dots> = (let (sent, c2) = offer h out c1 in if sent \<and> boot \<noteq> None then snd (hal_ms h c2) else c2)"
    using process_new_board [of ?core ?r b h ?c, OF _ d] new o(3,4)
    by (simp add: split_beta Let_def flip: core2_def)
  finally show ?thesis using d a(4,5) received_padded [OF o(1,2) ra] by blast
qed

text \<open>A request to create an output on pin 4 of the example node, before it has an identifier.\<close>

definition fw_demo_packet :: packet where
  "fw_demo_packet = \<lparr>header = \<lparr>ph_version = 1, ph_message_type = 1, ph_command = command_code GpioCreate,
     ph_session_id = 1, ph_request_id = 5, ph_object_id = 0, ph_payload_length = 0, ph_flags = 0,
     ph_crc = 0\<rparr>, payload = [4, 0, 1, 0]\<rparr>"

theorem fw_request_answered_witness:
  "\<exists>bs frames response answer out. encode fw_demo_packet = Inr bs \<and>
     host_frames fw_demo_node RBSP_CAN_ID_DISCOVERY 3 bs frames \<and>
     decode response = Inr answer \<and> fw_answers (fw_request_of (sealed fw_demo_packet)) answer \<and>
     run_arrivals 1 (map frame_bytes out) (map (\<lambda>i. Own i 9) [0..<length out])
       \<lparr>ra_mtu = 64, ra_timeout = 5, ra_transfers = []\<rparr> =
       replicate (length out - 1) (Inr (InProgress, None)) @ [Inr (Complete, Some response)]"
proof -
  have "encodable fw_demo_packet" by (simp add: encodable_def fw_demo_packet_def)
  then obtain bs where bs: "encode fw_demo_packet = Inr bs" using encode_eq by blast
  have len: "length bs = 28" using encode_length [OF bs] by (simp add: fw_demo_packet_def)
  let ?n = "fragment_count 64 (length bs)"
  define frames where "frames = map (packet_frame RBSP_CAN_FD RBSP_CAN_ID_DISCOVERY 3 bs) [0..<?n]"
  have node: "fc_can_mode fw_demo_node = RBSP_CAN_FD" "fw_mtu RBSP_CAN_FD = 64"
    "fi_uuid (fc_info fw_demo_node) = replicate 16 7"
    "fc_reassembly fw_demo_node = [empty_slot]" "find_cache fw_demo_node r = None" for r
    by (simp_all add: fw_demo_node_def zero_core_def demo_core_build_def fw_mtu_def fw_demo_info_def
        find_cache_None caches_def numeral_2_eq_2)
  have s: "splittable (fw_mtu RBSP_CAN_FD) bs" using len by (simp add: splittable_def node(2) packet_consts)
  have "list_all2 (carries RBSP_CAN_FD RBSP_CAN_ID_DISCOVERY) (map (split_frame 64 bs 3) [0..<?n]) frames"
    using packet_frame_carries [OF s] by (simp add: list_all2_conv_all_nth frames_def node(2))
  moreover have "fragmenter_split 64 bs 3 = Inr (map (split_frame 64 bs 3) [0..<?n])"
    using fragmenter_split_Inr [OF s] by (simp add: node(2))
  ultimately have f: "host_frames fw_demo_node RBSP_CAN_ID_DISCOVERY 3 bs frames"
    unfolding host_frames_def node(1,2) addressed_def by blast
  have slot: "find_slot fw_demo_node RBSP_CAN_ID_DISCOVERY 3 = None"
    "first_free rs_active (fc_reassembly fw_demo_node) = Some 0"
    by (simp_all add: find_slot_def first_free_def node(4) slot_of_def empty_slot_def)
  have b: "buffers_fit demo_core_build"
    using demo_config by (simp add: buffers_fit_def demo_core_build_def)
  have ra: "reassembler_reachable 64 5 \<lparr>ra_mtu = 64, ra_timeout = 5, ra_transfers = []\<rparr>"
    by (rule reassembler_reachable.created) (simp add: reassembler_new_def validate_mtu_def kFragmentHeaderSize_def)
  have p: "ph_message_type (header fw_demo_packet) = message_type_code Request"
    "ph_command (header fw_demo_packet) \<noteq> command_code DiscoveryRequest"
    "ph_command (header fw_demo_packet) \<noteq> command_code NodeAssign"
    "length bs \<le> cb_max_packet_size demo_core_build"
    by (simp_all add: fw_demo_packet_def len demo_core_build_def)
  have "\<exists>now response boot core1 c1 answer out.
      fw_dispatch demo_core_build demo_hal (fw_request_of (sealed fw_demo_packet))
        (held fw_demo_node 0 RBSP_CAN_ID_DISCOVERY 3 (length frames) bs now, clocked demo_hal (length frames) ()) =
        (Some (response, boot), (core1, c1)) \<and>
      decode response = Inr answer \<and> fw_answers (fw_request_of (sealed fw_demo_packet)) answer \<and>
      snd (fold (rbsp_core_accept_can demo_core_build demo_hal) frames (fw_demo_node, ())) =
        (let (sent, c2) = offer demo_hal out c1 in if sent \<and> boot \<noteq> None then snd (hal_ms demo_hal c2) else c2) \<and>
      run_arrivals 1 (map frame_bytes out) (map (\<lambda>i. Own i 9) [0..<length out])
        \<lparr>ra_mtu = 64, ra_timeout = 5, ra_transfers = []\<rparr> =
        replicate (length out - 1) (Inr (InProgress, None)) @ [Inr (Complete, Some response)]"
    by (rule fw_request_answered [OF b _ bs p(1,4,2,3) f slot node(5), where timeout = 5]) (simp_all add: node ra)
  then show ?thesis using bs f by auto
qed

end
