(* ===== verification/Ipc_Socket.thy ===== *)
theory Ipc_Socket
  imports Packet
begin

text \<open>
  \<^verbatim>\<open>toolbusd/src/ipc.cpp\<close>, the lower half: whole messages over a stream socket. What the kernel does
  with a call is data: \<open>so_incoming\<close> lists what \<^verbatim>\<open>recv\<close> will find, in the pieces it finds it, and
  \<open>so_outcomes\<close> what the next calls of \<^verbatim>\<open>send\<close> do; when it is used up, \<^verbatim>\<open>send\<close> takes everything.
  A \<^verbatim>\<open>recv\<close> with nothing left to find does not return, which is the value \<open>IpcBlocked\<close>.
\<close>

subsection \<open>The socket\<close>

datatype recv_event = Received "byte list" | RecvInterrupted | RecvFailed | PeerClosed
datatype send_event = SentSome nat | SendInterrupted | SendFailed

record socket =
  so_incoming :: "recv_event list"
  so_outcomes :: "send_event list"
  so_sent :: "byte list"

datatype ipc_error = IpcException | IpcSystemError | IpcPacketException packet_error | IpcBlocked

datatype recv_outcome = RecvBytes "byte list" | RecvEintr | RecvError | RecvWaits

text \<open>The system calls: no more bytes than asked for, none at all once the peer has closed.\<close>

fun sys_recv :: "nat \<Rightarrow> recv_event list \<Rightarrow> recv_outcome \<times> recv_event list" where
  "sys_recv n [] = (RecvWaits, [])"
| "sys_recv n (RecvInterrupted # es) = (RecvEintr, es)"
| "sys_recv n (RecvFailed # es) = (RecvError, es)"
| "sys_recv n (PeerClosed # es) = (RecvBytes [], PeerClosed # es)"
| "sys_recv n (Received bs # es) =
     (RecvBytes (take n bs), if length bs \<le> n then es else Received (drop n bs) # es)"

datatype send_outcome = SendTook nat | SendEintr | SendError

fun sys_send :: "nat \<Rightarrow> send_event list \<Rightarrow> send_outcome \<times> send_event list" where
  "sys_send n [] = (SendTook n, [])"
| "sys_send n (SendInterrupted # es) = (SendEintr, es)"
| "sys_send n (SendFailed # es) = (SendError, es)"
| "sys_send n (SentSome k # es) = (SendTook (min k n), es)"

text \<open>A call that does not fail makes progress.\<close>

lemma sys_recv_shrinks:
  "sys_recv n es = (RecvEintr, es1) \<Longrightarrow> length es1 < length es"
  "sys_recv n es = (RecvBytes bs, es1) \<Longrightarrow> 0 < n \<Longrightarrow> bs \<noteq> [] \<Longrightarrow> n - length bs + length es1 < n + length es"
  by (cases "(n, es)" rule: sys_recv.cases; auto split: if_splits)+

lemma sys_send_shrinks:
  "sys_send n es = (SendEintr, es1) \<Longrightarrow> length es1 < length es"
  "sys_send n es = (SendTook k, es1) \<Longrightarrow> k \<le> n \<and> length es1 \<le> length es"
  by (cases "(n, es)" rule: sys_send.cases; auto)+

subsection \<open>Whole messages\<close>

definition kMaximumIpcBodySize :: nat where "kMaximumIpcBodySize = 64 * 1024"

text \<open>\<open>data\<close> is what is still to be sent.\<close>

function send_all :: "byte list \<Rightarrow> socket \<Rightarrow> (ipc_error + unit) \<times> socket" where
  "send_all data s =
     (if data = [] then (Inr (), s)
      else let (outcome, es) = sys_send (length data) (so_outcomes s); s1 = s\<lparr>so_outcomes := es\<rparr> in
        case outcome of
          SendEintr \<Rightarrow> send_all data s1
        | SendError \<Rightarrow> (Inl IpcSystemError, s1)
        | SendTook k \<Rightarrow>
            if k = 0 then (Inl IpcException, s1)
            else send_all (drop k data) (s1\<lparr>so_sent := so_sent s1 @ take k data\<rparr>))"
  by auto
termination
  by (relation "measure (\<lambda>(data, s). length data + length (so_outcomes s))")
    (auto dest: sys_send_shrinks [OF sym])

text \<open>\<open>n\<close> bytes are still missing.\<close>

function receive_all :: "nat \<Rightarrow> recv_event list \<Rightarrow> (ipc_error + byte list) \<times> recv_event list" where
  "receive_all n es =
     (if n = 0 then (Inr [], es)
      else case sys_recv n es of
        (RecvWaits, es1) \<Rightarrow> (Inl IpcBlocked, es1)
      | (RecvEintr, es1) \<Rightarrow> receive_all n es1
      | (RecvError, es1) \<Rightarrow> (Inl IpcSystemError, es1)
      | (RecvBytes bs, es1) \<Rightarrow>
          if bs = [] then (Inl IpcException, es1)
          else let (r, es2) = receive_all (n - length bs) es1 in (try_bind r (\<lambda>rest. Inr (bs @ rest)), es2))"
  by auto
termination
  by (relation "measure (\<lambda>(n, es). n + length es)") (auto dest: sys_recv_shrinks [OF sym])

declare send_all.simps [simp del] receive_all.simps [simp del]

definition receive :: "nat \<Rightarrow> socket \<Rightarrow> (ipc_error + byte list) \<times> socket" where
  "receive n s = (let (r, es) = receive_all n (so_incoming s) in (r, s\<lparr>so_incoming := es\<rparr>))"

definition receive_body :: "socket \<Rightarrow> (ipc_error + byte list) \<times> socket" where
  "receive_body s =
     (case receive 4 s of
        (Inl e, s1) \<Rightarrow> (Inl e, s1)
      | (Inr length_bytes, s1) \<Rightarrow>
          let n = unat (get_u32 length_bytes) in
          if n > kMaximumIpcBodySize then (Inl IpcException, s1)
          else if n = 0 then (Inr [], s1) else receive n s1)"

definition send_body :: "byte list \<Rightarrow> socket \<Rightarrow> (ipc_error + unit) \<times> socket" where
  "send_body body s =
     (if length body > kMaximumIpcBodySize then (Inl IpcException, s)
      else case send_all (put_u32 (word_of_nat (length body))) s of
        (Inl e, s1) \<Rightarrow> (Inl e, s1)
      | (Inr _, s1) \<Rightarrow> if body = [] then (Inr (), s1) else send_all body s1)"

subsection \<open>What arrives is what was sent\<close>

text \<open>The bytes of the stream, whatever the pieces, and a stream on which no call fails.\<close>

definition stream_bytes :: "recv_event list \<Rightarrow> byte list" where
  "stream_bytes es = concat (map (\<lambda>e. case e of Received bs \<Rightarrow> bs | _ \<Rightarrow> []) es)"

definition undisturbed_stream :: "recv_event list \<Rightarrow> bool" where
  "undisturbed_stream es \<longleftrightarrow> (\<forall>e \<in> set es. e \<noteq> RecvFailed \<and> e \<noteq> PeerClosed \<and> e \<noteq> Received [])"

lemma send_all_Inr: "send_all data s = (Inr (), s') \<Longrightarrow>
  so_sent s' = so_sent s @ data \<and> so_incoming s' = so_incoming s"
proof (induction data s rule: send_all.induct)
  case (1 data s)
  obtain outcome es where o: "sys_send (length data) (so_outcomes s) = (outcome, es)" by (meson surj_pair)
  show ?case
  proof (cases "data = []")
    case True
    then show ?thesis using "1.prems" by (simp add: send_all.simps [of "[]"])
  next
    case False
    then show ?thesis
    proof (cases outcome)
      case (SendTook k)
      then have "k \<noteq> 0" "send_all (drop k data) (s\<lparr>so_outcomes := es, so_sent := so_sent s @ take k data\<rparr>) = (Inr (), s')"
        using "1.prems" False o by (auto simp: send_all.simps [of data] Let_def split: if_splits)
      then show ?thesis using "1.IH"(1) [OF False o [symmetric] refl refl SendTook] o SendTook by simp
    next
      case SendEintr
      then show ?thesis using "1.prems" False o "1.IH"(2) [OF False o [symmetric] refl refl SendEintr]
        by (simp add: send_all.simps [of data])
    qed (use "1.prems" False o in \<open>auto simp: send_all.simps [of data]\<close>)
  qed
qed

lemma receive_all_Inr:
  "undisturbed_stream es \<Longrightarrow> n \<le> length (stream_bytes es) \<Longrightarrow>
   \<exists>es'. receive_all n es = (Inr (take n (stream_bytes es)), es') \<and>
     stream_bytes es' = drop n (stream_bytes es) \<and> undisturbed_stream es'"
proof (induction n es rule: receive_all.induct)
  case (1 n es)
  show ?case
  proof (cases "n = 0")
    case True
    then show ?thesis using "1.prems" by (simp add: receive_all.simps [of 0])
  next
    case False
    then obtain e es1 where es: "es = e # es1" using "1.prems"(2) by (cases es) (auto simp: stream_bytes_def)
    show ?thesis
    proof (cases e)
      case (Received bs)
      then have bs: "bs \<noteq> []" using "1.prems"(1) es by (auto simp: undisturbed_stream_def)
      define es2 where "es2 = (if length bs \<le> n then es1 else Received (drop n bs) # es1)"
      have recv: "sys_recv n es = (RecvBytes (take n bs), es2)" by (simp add: es Received es2_def)
      have all: "stream_bytes es = take n bs @ stream_bytes es2" "undisturbed_stream es2"
        using "1.prems"(1) by (auto simp: es Received es2_def stream_bytes_def undisturbed_stream_def)
      have ne: "take n bs \<noteq> []" using bs False by simp
      have "n - length (take n bs) \<le> length (stream_bytes es2)" using "1.prems"(2) all(1) by simp
      from "1.IH"(1) [OF False recv [symmetric] refl ne all(2) this]
      obtain es' where es': "receive_all (n - length (take n bs)) es2 =
          (Inr (take (n - length (take n bs)) (stream_bytes es2)), es')"
        "stream_bytes es' = drop (n - length (take n bs)) (stream_bytes es2)" "undisturbed_stream es'"
        by blast
      have "receive_all n es = (Inr (take n bs @ take (n - length (take n bs)) (stream_bytes es2)), es')"
        using False recv ne es'(1) by (subst receive_all.simps) simp
      moreover have "take n (stream_bytes es) = take n bs @ take (n - length (take n bs)) (stream_bytes es2)"
        "drop n (stream_bytes es) = drop (n - length (take n bs)) (stream_bytes es2)"
        by (simp_all add: all(1))
      ultimately show ?thesis using es'(2,3) by simp
    next
      case RecvInterrupted
      then have recv: "sys_recv n es = (RecvEintr, es1)" by (simp add: es)
      have "undisturbed_stream es1" "stream_bytes es = stream_bytes es1"
        using "1.prems"(1) by (auto simp: es RecvInterrupted stream_bytes_def undisturbed_stream_def)
      then show ?thesis using "1.IH"(2) [OF False recv [symmetric] refl] "1.prems"(2) False recv
        by (simp add: receive_all.simps [of n es])
    qed (use "1.prems"(1) es in \<open>auto simp: undisturbed_stream_def\<close>)
  qed
qed

end
