(* ===== verification/Ipc.thy ===== *)
theory Ipc
  imports Ipc_Socket Traffic_Control Discovery_Payload
begin

text \<open>
  \<^verbatim>\<open>toolbusd/src/ipc.cpp\<close>, the upper half: the requests a client sends to the daemon, the responses and
  the bodies of the local responses. The integer a \<open>TrafficBusMode\<close> carries is always one of its two
  values here, so the encoder's test of the mode never fails.
\<close>

subsection \<open>Data\<close>

datatype ipc_status = IPC_Ok | IPC_TimedOut | IPC_Error

fun ipc_status_code :: "ipc_status \<Rightarrow> byte" where
  "ipc_status_code IPC_Ok = 0"
| "ipc_status_code IPC_TimedOut = 1"
| "ipc_status_code IPC_Error = 2"

datatype ipc_request_kind = RemotePacket | ListNodes | NextEvent | TrafficStatus | UartStreamRead

fun ipc_request_code :: "ipc_request_kind \<Rightarrow> byte" where
  "ipc_request_code RemotePacket = 0"
| "ipc_request_code ListNodes = 1"
| "ipc_request_code NextEvent = 2"
| "ipc_request_code TrafficStatus = 3"
| "ipc_request_code UartStreamRead = 4"

definition ipc_request_kind_of :: "byte \<Rightarrow> ipc_request_kind" where
  "ipc_request_kind_of b =
     (if b = 0 then RemotePacket else if b = 1 then ListNodes else if b = 2 then NextEvent
      else if b = 3 then TrafficStatus else UartStreamRead)"

record ipc_response =
  is_status :: ipc_status
  is_body :: "byte list"

record ipc_request =
  iq_kind :: ipc_request_kind
  iq_node_id :: u32
  iq_packet :: packet
  iq_object_id :: u32
  iq_maximum_length :: u32
  iq_timeout_ms :: u32

record uart_stream_chunk =
  uc_data :: "byte list"
  uc_dropped_bytes :: u64
  uc_lost_events :: u64

record ipc_node_info =
  in_uuid :: node_uuid
  in_node_id :: u32
  in_online :: bool
  in_ready :: bool
  in_firmware_major :: u16
  in_firmware_minor :: u16
  in_firmware_patch :: u16
  in_board_type :: u32
  in_protocol_version :: byte

definition kNodeInfoSize :: nat where "kNodeInfoSize = 33"
definition kTrafficStatusHeaderSize :: nat where "kTrafficStatusHeaderSize = 76"
definition kTrafficClassCounterSize :: nat where "kTrafficClassCounterSize = 32"

lemmas ipc_sizes = kNodeInfoSize_def kTrafficStatusHeaderSize_def kTrafficClassCounterSize_def
  kTrafficClassCount_def kMaximumIpcBodySize_def

subsection \<open>Requests\<close>

definition node_id_ok :: "u32 \<Rightarrow> bool" where
  "node_id_ok node_id \<longleftrightarrow> \<not> (node_id = 0 \<or> node_id > 127)"

definition stream_read_ok :: "u32 \<Rightarrow> u32 \<Rightarrow> u32 \<Rightarrow> u32 \<Rightarrow> bool" where
  "stream_read_ok node_id object_id maximum_length timeout_ms \<longleftrightarrow>
     \<not> (node_id = 0 \<or> node_id > 127 \<or> object_id = 0 \<or> maximum_length = 0 \<or>
        unat maximum_length > kMaximumIpcBodySize - 20 \<or> timeout_ms > 60000)"

definition write_ipc_request :: "packet \<Rightarrow> u32 \<Rightarrow> socket \<Rightarrow> (ipc_error + unit) \<times> socket" where
  "write_ipc_request packet node_id s =
     (if \<not> node_id_ok node_id then (Inl IpcException, s)
      else case encode packet of
        Inl e \<Rightarrow> (Inl (IpcPacketException e), s)
      | Inr encoded \<Rightarrow> send_body (ipc_request_code RemotePacket # put_u32 node_id @ encoded) s)"

definition write_ipc_node_list_request :: "socket \<Rightarrow> (ipc_error + unit) \<times> socket" where
  "write_ipc_node_list_request s = send_body [ipc_request_code ListNodes] s"

definition write_ipc_traffic_status_request :: "socket \<Rightarrow> (ipc_error + unit) \<times> socket" where
  "write_ipc_traffic_status_request s = send_body [ipc_request_code TrafficStatus] s"

definition write_ipc_next_event_request :: "u32 \<Rightarrow> socket \<Rightarrow> (ipc_error + unit) \<times> socket" where
  "write_ipc_next_event_request node_id s =
     (if \<not> node_id_ok node_id then (Inl IpcException, s)
      else send_body (ipc_request_code NextEvent # put_u32 node_id) s)"

definition write_ipc_uart_stream_read_request ::
  "u32 \<Rightarrow> u32 \<Rightarrow> u32 \<Rightarrow> u32 \<Rightarrow> socket \<Rightarrow> (ipc_error + unit) \<times> socket" where
  "write_ipc_uart_stream_read_request node_id object_id maximum_length timeout_ms s =
     (if \<not> stream_read_ok node_id object_id maximum_length timeout_ms then (Inl IpcException, s)
      else send_body (ipc_request_code UartStreamRead # put_u32 node_id @ put_u32 object_id @
             put_u32 maximum_length @ put_u32 timeout_ms) s)"

text \<open>The request a body holds: \<^verbatim>\<open>read_ipc_request\<close> after the body has arrived.\<close>

definition parse_ipc_request :: "byte list \<Rightarrow> ipc_error + ipc_request" where
  "parse_ipc_request body =
     (if body = [] \<or> body ! 0 > ipc_request_code UartStreamRead then Inl IpcException
      else let kind = ipc_request_kind_of (body ! 0);
               request = \<lparr>iq_kind = kind, iq_node_id = 0, iq_packet = default_packet, iq_object_id = 0,
                          iq_maximum_length = 0, iq_timeout_ms = 0\<rparr> in
        if kind = ListNodes \<or> kind = TrafficStatus
        then if length body \<noteq> 1 then Inl IpcException else Inr request
        else if kind = NextEvent
        then if length body \<noteq> 5 then Inl IpcException
             else let node_id = get_u32 (drop 1 body) in
               if \<not> node_id_ok node_id then Inl IpcException else Inr (request\<lparr>iq_node_id := node_id\<rparr>)
        else if kind = UartStreamRead
        then if length body \<noteq> 17 then Inl IpcException
             else let node_id = get_u32 (drop 1 body); object_id = get_u32 (drop 5 body);
                      maximum_length = get_u32 (drop 9 body); timeout_ms = get_u32 (drop 13 body) in
               if \<not> stream_read_ok node_id object_id maximum_length timeout_ms then Inl IpcException
               else Inr (request\<lparr>iq_node_id := node_id, iq_object_id := object_id,
                           iq_maximum_length := maximum_length, iq_timeout_ms := timeout_ms\<rparr>)
        else if length body < 1 + 4 then Inl IpcException
        else let node_id = get_u32 (drop 1 body) in
          if \<not> node_id_ok node_id then Inl IpcException
          else try_bind (map_error IpcPacketException (decode (drop (1 + 4) body))) (\<lambda>packet.
            Inr (request\<lparr>iq_node_id := node_id, iq_packet := packet\<rparr>)))"

definition read_ipc_request :: "socket \<Rightarrow> (ipc_error + ipc_request) \<times> socket" where
  "read_ipc_request s =
     (let (r, s1) = receive_body s in (try_bind r parse_ipc_request, s1))"

subsection \<open>Responses\<close>

definition write_ipc_response :: "ipc_status \<Rightarrow> byte list \<Rightarrow> socket \<Rightarrow> (ipc_error + unit) \<times> socket" where
  "write_ipc_response status body s =
     (case send_all [ipc_status_code status] s of
        (Inl e, s1) \<Rightarrow> (Inl e, s1)
      | (Inr _, s1) \<Rightarrow> send_body body s1)"

definition read_ipc_response :: "socket \<Rightarrow> (ipc_error + ipc_response) \<times> socket" where
  "read_ipc_response s =
     (case receive 1 s of
        (Inl e, s1) \<Rightarrow> (Inl e, s1)
      | (Inr status_byte, s1) \<Rightarrow>
          if status_byte ! 0 > ipc_status_code IPC_Error then (Inl IpcException, s1)
          else let status = (if status_byte ! 0 = 0 then IPC_Ok else if status_byte ! 0 = 1 then IPC_TimedOut
                             else IPC_Error);
                   (r, s2) = receive_body s1
            in (try_bind r (\<lambda>body. Inr \<lparr>is_status = status, is_body = body\<rparr>), s2))"

subsection \<open>Bodies\<close>

definition encode_ipc_uart_stream_chunk :: "uart_stream_chunk \<Rightarrow> ipc_error + byte list" where
  "encode_ipc_uart_stream_chunk chunk =
     (if length (uc_data chunk) > kMaximumIpcBodySize - 20 then Inl IpcException
      else Inr (put_u16 1 @ put_u16 0 @ put_u64 (uc_dropped_bytes chunk) @ put_u64 (uc_lost_events chunk) @
             uc_data chunk))"

definition decode_ipc_uart_stream_chunk :: "byte list \<Rightarrow> ipc_error + uart_stream_chunk" where
  "decode_ipc_uart_stream_chunk body =
     (if length body < 20 \<or> get_u16 body \<noteq> 1 \<or> get_u16 (drop 2 body) \<noteq> 0 then Inl IpcException
      else Inr \<lparr>uc_data = drop 20 body, uc_dropped_bytes = get_u64 (drop 4 body),
                uc_lost_events = get_u64 (drop 12 body)\<rparr>)"

definition encode_ipc_node :: "ipc_node_info \<Rightarrow> byte list" where
  "encode_ipc_node n =
     uuid_bytes (in_uuid n) @ put_u32 (in_node_id n) @
     [if in_online n then 1 else 0, if in_ready n then 1 else 0] @
     put_u16 (in_firmware_major n) @ put_u16 (in_firmware_minor n) @ put_u16 (in_firmware_patch n) @
     put_u32 (in_board_type n) @ [in_protocol_version n]"

definition decode_ipc_node :: "byte list \<Rightarrow> ipc_error + ipc_node_info" where
  "decode_ipc_node inp =
     (if inp ! 20 > 1 \<or> inp ! 21 > 1 then Inl IpcException
      else Inr \<lparr>in_uuid = copy_uuid inp, in_node_id = get_u32 (drop 16 inp), in_online = (inp ! 20 \<noteq> 0),
                in_ready = (inp ! 21 \<noteq> 0), in_firmware_major = get_u16 (drop 22 inp),
                in_firmware_minor = get_u16 (drop 24 inp), in_firmware_patch = get_u16 (drop 26 inp),
                in_board_type = get_u32 (drop 28 inp), in_protocol_version = inp ! 32\<rparr>)"

definition encode_ipc_node_list :: "ipc_node_info list \<Rightarrow> ipc_error + byte list" where
  "encode_ipc_node_list nodes =
     (if length nodes > 127 then Inl IpcException
      else Inr ([word_of_nat (length nodes), 0] @ concat (map encode_ipc_node nodes)))"

definition decode_ipc_node_list :: "byte list \<Rightarrow> ipc_error + ipc_node_info list" where
  "decode_ipc_node_list body =
     (if length body < 2 \<or> body ! 1 \<noteq> 0 \<or> length body \<noteq> 2 + unat (body ! 0) * kNodeInfoSize
      then Inl IpcException
      else traverse decode_ipc_node (chunks kNodeInfoSize (unat (body ! 0)) (drop 2 body)))"

fun traffic_bus_mode_code :: "traffic_bus_mode \<Rightarrow> byte" where
  "traffic_bus_mode_code TB_Classical = 0"
| "traffic_bus_mode_code TB_CanFd = 1"

definition encode_class_counters :: "traffic_class_counters \<Rightarrow> byte list" where
  "encode_class_counters c =
     put_u64 (cc_admitted_packets c) @ put_u64 (cc_rejected_packets c) @ put_u64 (cc_admitted_frames c) @
     put_u64 (cc_estimated_wire_time_ns c)"

definition decode_class_counters :: "byte list \<Rightarrow> traffic_class_counters" where
  "decode_class_counters inp =
     \<lparr>cc_admitted_packets = get_u64 inp, cc_rejected_packets = get_u64 (drop 8 inp),
      cc_admitted_frames = get_u64 (drop 16 inp), cc_estimated_wire_time_ns = get_u64 (drop 24 inp)\<rparr>"

definition encode_ipc_traffic_status :: "traffic_snapshot \<Rightarrow> ipc_error + byte list" where
  "encode_ipc_traffic_status t =
     (if ts_version t \<noteq> 1 \<or> traffic_bus_mode_code (ts_mode t) > traffic_bus_mode_code TB_CanFd
      then Inl IpcException
      else Inr (put_u16 (ts_version t) @ [traffic_bus_mode_code (ts_mode t), word_of_nat kTrafficClassCount] @
        put_u32 (ts_arbitration_bits_per_second t) @ put_u32 (ts_data_bits_per_second t) @
        put_u16 (ts_maximum_utilization_permille t) @ put_u16 0 @ put_u32 (ts_burst_window_ms t) @
        put_u64 (ts_global_capacity_ns t) @ put_u64 (ts_global_available_ns t) @
        put_u64 (ts_admitted_packets t) @ put_u64 (ts_rejected_packets t) @
        put_u64 (ts_guaranteed_overruns t) @ put_u64 (ts_admitted_frames t) @
        put_u64 (ts_estimated_wire_time_ns t) @ concat (map encode_class_counters (ts_classes t))))"

definition decode_ipc_traffic_status :: "byte list \<Rightarrow> ipc_error + traffic_snapshot" where
  "decode_ipc_traffic_status body =
     (if length body \<noteq> kTrafficStatusHeaderSize + kTrafficClassCount * kTrafficClassCounterSize \<or>
         get_u16 body \<noteq> 1 \<or> body ! 2 > traffic_bus_mode_code TB_CanFd \<or>
         body ! 3 \<noteq> word_of_nat kTrafficClassCount \<or> get_u16 (drop 14 body) \<noteq> 0
      then Inl IpcException
      else Inr \<lparr>ts_version = get_u16 body,
        ts_mode = (if body ! 2 = 0 then TB_Classical else TB_CanFd),
        ts_arbitration_bits_per_second = get_u32 (drop 4 body),
        ts_data_bits_per_second = get_u32 (drop 8 body),
        ts_maximum_utilization_permille = get_u16 (drop 12 body),
        ts_burst_window_ms = get_u32 (drop 16 body),
        ts_global_capacity_ns = get_u64 (drop 20 body), ts_global_available_ns = get_u64 (drop 28 body),
        ts_admitted_packets = get_u64 (drop 36 body), ts_rejected_packets = get_u64 (drop 44 body),
        ts_guaranteed_overruns = get_u64 (drop 52 body), ts_admitted_frames = get_u64 (drop 60 body),
        ts_estimated_wire_time_ns = get_u64 (drop 68 body),
        ts_classes = map decode_class_counters
          (chunks kTrafficClassCounterSize kTrafficClassCount (drop kTrafficStatusHeaderSize body))\<rparr>)"

subsection \<open>A request arrives\<close>

datatype ipc_message =
  AskPacket packet u32 | AskNodes | AskTraffic | AskEvent u32 | AskUart u32 u32 u32 u32

fun write_message :: "ipc_message \<Rightarrow> socket \<Rightarrow> (ipc_error + unit) \<times> socket" where
  "write_message (AskPacket packet node_id) s = write_ipc_request packet node_id s"
| "write_message AskNodes s = write_ipc_node_list_request s"
| "write_message AskTraffic s = write_ipc_traffic_status_request s"
| "write_message (AskEvent node_id) s = write_ipc_next_event_request node_id s"
| "write_message (AskUart node_id object_id n timeout) s =
     write_ipc_uart_stream_read_request node_id object_id n timeout s"

text \<open>What the daemon should make of it.\<close>

fun request_of :: "ipc_message \<Rightarrow> ipc_request" where
  "request_of (AskPacket packet node_id) = \<lparr>iq_kind = RemotePacket, iq_node_id = node_id,
     iq_packet = sealed packet, iq_object_id = 0, iq_maximum_length = 0, iq_timeout_ms = 0\<rparr>"
| "request_of AskNodes = \<lparr>iq_kind = ListNodes, iq_node_id = 0, iq_packet = default_packet,
     iq_object_id = 0, iq_maximum_length = 0, iq_timeout_ms = 0\<rparr>"
| "request_of AskTraffic = \<lparr>iq_kind = TrafficStatus, iq_node_id = 0, iq_packet = default_packet,
     iq_object_id = 0, iq_maximum_length = 0, iq_timeout_ms = 0\<rparr>"
| "request_of (AskEvent node_id) = \<lparr>iq_kind = NextEvent, iq_node_id = node_id, iq_packet = default_packet,
     iq_object_id = 0, iq_maximum_length = 0, iq_timeout_ms = 0\<rparr>"
| "request_of (AskUart node_id object_id n timeout) = \<lparr>iq_kind = UartStreamRead, iq_node_id = node_id,
     iq_packet = default_packet, iq_object_id = object_id, iq_maximum_length = n, iq_timeout_ms = timeout\<rparr>"

lemma receive_Inr:
  assumes "undisturbed_stream (so_incoming s)" "stream_bytes (so_incoming s) = bs @ rest" "length bs = n"
  shows "\<exists>s'. receive n s = (Inr bs, s') \<and> stream_bytes (so_incoming s') = rest \<and>
    undisturbed_stream (so_incoming s')"
  using receive_all_Inr [OF assms(1), of n] assms(2,3) by (auto simp: receive_def)

lemma send_body_Inr:
  assumes "send_body body s = (Inr (), s')"
  shows "length body \<le> kMaximumIpcBodySize"
    "so_sent s' = so_sent s @ put_u32 (word_of_nat (length body)) @ body"
  using assms send_all_Inr by (auto simp: send_body_def split: if_splits prod.splits sum.splits)

lemma receive_body_Inr:
  assumes "undisturbed_stream (so_incoming s)" "length body \<le> kMaximumIpcBodySize"
    and "stream_bytes (so_incoming s) = put_u32 (word_of_nat (length body)) @ body @ rest"
  shows "\<exists>s'. receive_body s = (Inr body, s') \<and> stream_bytes (so_incoming s') = rest \<and>
    undisturbed_stream (so_incoming s')"
proof -
  obtain s1 where s1: "receive 4 s = (Inr (put_u32 (word_of_nat (length body))), s1)"
    "stream_bytes (so_incoming s1) = body @ rest" "undisturbed_stream (so_incoming s1)"
    using receive_Inr [OF assms(1,3)] by auto
  have "unat (word_of_nat (length body) :: u32) = length body"
    using assms(2) by (simp add: unat_of_nat_small kMaximumIpcBodySize_def)
  then show ?thesis
    using s1 assms(2) receive_Inr [OF s1(3,2) refl] by (auto simp: receive_body_def)
qed

lemma parse_ipc_request_simps:
  "parse_ipc_request [ipc_request_code ListNodes] = Inr (request_of AskNodes)"
  "parse_ipc_request [ipc_request_code TrafficStatus] = Inr (request_of AskTraffic)"
  "node_id_ok node_id \<Longrightarrow>
   parse_ipc_request (ipc_request_code NextEvent # put_u32 node_id) = Inr (request_of (AskEvent node_id))"
  "stream_read_ok node_id object_id n timeout \<Longrightarrow>
   parse_ipc_request (ipc_request_code UartStreamRead # put_u32 node_id @ put_u32 object_id @ put_u32 n @ put_u32 timeout) =
     Inr (request_of (AskUart node_id object_id n timeout))"
  "node_id_ok node_id \<Longrightarrow> encode packet = Inr encoded \<Longrightarrow>
   parse_ipc_request (ipc_request_code RemotePacket # put_u32 node_id @ encoded) = Inr (request_of (AskPacket packet node_id))"
  by (simp_all add: parse_ipc_request_def ipc_request_kind_of_def Let_def packet_wire.dec_enc)

lemma write_message_Inr:
  assumes "write_message m s = (Inr (), s')"
  shows "\<exists>body. length body \<le> kMaximumIpcBodySize \<and>
    so_sent s' = so_sent s @ put_u32 (word_of_nat (length body)) @ body \<and> parse_ipc_request body = Inr (request_of m)"
proof -
  have sent: "\<exists>body. length body \<le> kMaximumIpcBodySize \<and>
      so_sent s' = so_sent s @ put_u32 (word_of_nat (length body)) @ body \<and> parse_ipc_request body = Inr (request_of m)"
    if "send_body body s = (Inr (), s')" "parse_ipc_request body = Inr (request_of m)" for body
    using send_body_Inr [OF that(1)] that(2) by blast
  show ?thesis
  proof (cases m)
    case (AskPacket packet node_id)
    then obtain encoded where "node_id_ok node_id" "encode packet = Inr encoded"
      "send_body (ipc_request_code RemotePacket # put_u32 node_id @ encoded) s = (Inr (), s')"
      using assms by (auto simp: write_ipc_request_def split: if_splits sum.splits)
    then show ?thesis using sent parse_ipc_request_simps(5) AskPacket by blast
  next
    case AskNodes
    then show ?thesis using assms sent parse_ipc_request_simps(1) by (simp add: write_ipc_node_list_request_def)
  next
    case AskTraffic
    then show ?thesis using assms sent parse_ipc_request_simps(2) by (simp add: write_ipc_traffic_status_request_def)
  next
    case (AskEvent node_id)
    then show ?thesis using assms sent parse_ipc_request_simps(3)
      by (auto simp: write_ipc_next_event_request_def split: if_splits)
  next
    case (AskUart node_id object_id n timeout)
    then show ?thesis using assms sent parse_ipc_request_simps(4)
      by (auto simp: write_ipc_uart_stream_read_request_def split: if_splits)
  qed
qed

lemma read_ipc_request_Inr:
  assumes "undisturbed_stream (so_incoming r)" "length body \<le> kMaximumIpcBodySize"
    and "stream_bytes (so_incoming r) = put_u32 (word_of_nat (length body)) @ body @ rest"
    and "parse_ipc_request body = Inr q"
  shows "\<exists>r'. read_ipc_request r = (Inr q, r') \<and> stream_bytes (so_incoming r') = rest \<and>
    undisturbed_stream (so_incoming r')"
  using receive_body_Inr [OF assms(1-3)] assms(4) by (auto simp: read_ipc_request_def)

fun write_messages :: "ipc_message list \<Rightarrow> socket \<Rightarrow> (ipc_error + unit) \<times> socket" where
  "write_messages [] s = (Inr (), s)"
| "write_messages (m # msgs) s =
     (case write_message m s of (Inl e, s1) \<Rightarrow> (Inl e, s1) | (Inr _, s1) \<Rightarrow> write_messages msgs s1)"

fun read_requests :: "nat \<Rightarrow> socket \<Rightarrow> (ipc_error + ipc_request) list \<times> socket" where
  "read_requests 0 s = ([], s)"
| "read_requests (Suc n) s =
     (let (q, s1) = read_ipc_request s; (qs, s2) = read_requests n s1 in (q # qs, s2))"

lemma write_messages_sent: "write_messages msgs s = (Inr (), s') \<Longrightarrow> \<exists>bs. so_sent s' = so_sent s @ bs"
proof (induction msgs arbitrary: s)
  case (Cons m msgs)
  then obtain s1 where "write_message m s = (Inr (), s1)" "write_messages msgs s1 = (Inr (), s')"
    by (auto split: prod.splits sum.splits)
  then show ?case using Cons.IH write_message_Inr by fastforce
qed simp

subsection \<open>Codecs of the bodies\<close>

lemma ipc_node_wire: "length (encode_ipc_node n) = 33" "decode_ipc_node (encode_ipc_node n @ rest) = Inr n"
  by (simp_all add: encode_ipc_node_def decode_ipc_node_def nth_append)

lemma class_counters_wire:
  "length (encode_class_counters c) = 32" "decode_class_counters (encode_class_counters c) = c"
  by (simp_all add: encode_class_counters_def decode_class_counters_def)

lemma node_list_wire:
  assumes "length nodes \<le> 127"
  shows "\<exists>bs. encode_ipc_node_list nodes = Inr bs \<and> decode_ipc_node_list bs = Inr nodes"
proof -
  let ?bs = "map encode_ipc_node nodes"
  have n: "unat (word_of_nat (length nodes) :: byte) = length nodes" using assms by (simp add: unat_of_nat_small)
  have w: "\<And>c. c \<in> set ?bs \<Longrightarrow> length c = 33" by (auto simp: ipc_node_wire)
  have len: "length (concat ?bs) = length nodes * 33" using concat_same_width_length [of ?bs 33] w by auto
  have chunked: "chunks 33 (length nodes) (concat ?bs) = ?bs"
    using chunks_concat [of ?bs 33 "[]"] w by simp
  have "traverse decode_ipc_node ?bs = Inr nodes"
    using ipc_node_wire(2) [where rest = "[]"] by (induction nodes) simp_all
  then show ?thesis using assms n len chunked
    by (simp add: encode_ipc_node_list_def decode_ipc_node_list_def ipc_sizes)
qed

lemma traffic_status_wire:
  assumes "ts_version t = 1" "length (ts_classes t) = 6"
  shows "\<exists>bs. encode_ipc_traffic_status t = Inr bs \<and> decode_ipc_traffic_status bs = Inr t"
proof -
  let ?bs = "map encode_class_counters (ts_classes t)"
  have w: "\<And>c. c \<in> set ?bs \<Longrightarrow> length c = 32" by (auto simp: class_counters_wire)
  have len: "length (concat ?bs) = 192" using concat_same_width_length [of ?bs 32] w assms(2) by auto
  have "chunks 32 6 (concat ?bs) = ?bs"
    using chunks_concat [of ?bs 32 "[]"] w assms(2) by simp
  then have classes: "map decode_class_counters (chunks 32 6 (concat ?bs)) = ts_classes t"
    by (simp add: comp_def class_counters_wire)
  have mode: "(if traffic_bus_mode_code m = 0 then TB_Classical else TB_CanFd) = m"
    "\<not> 1 < traffic_bus_mode_code m" for m by (cases m; simp)+
  show ?thesis using assms(1) len classes mode
    by (simp add: encode_ipc_traffic_status_def decode_ipc_traffic_status_def ipc_sizes nth_append)
qed

subsection \<open>Properties\<close>

text \<open>
  C28. Requests cross the socket whole and in order: whatever requests a client has written without
  an exception, the daemon reads exactly these, one by one, however the kernel has cut the stream
  into pieces and interrupted its calls, and finds the stream after them untouched.
\<close>

theorem ipc_requests_arrive:
  assumes "write_messages msgs s = (Inr (), s')"
    and "undisturbed_stream (so_incoming r)"
    and "stream_bytes (so_incoming r) = drop (length (so_sent s)) (so_sent s') @ rest"
  shows "\<exists>r'. read_requests (length msgs) r = (map (\<lambda>m. Inr (request_of m)) msgs, r') \<and>
    stream_bytes (so_incoming r') = rest"
  using assms
proof (induction msgs arbitrary: s r)
  case (Cons m msgs)
  then obtain s1 where s1: "write_message m s = (Inr (), s1)" "write_messages msgs s1 = (Inr (), s')"
    by (auto split: prod.splits sum.splits)
  obtain body where body: "length body \<le> kMaximumIpcBodySize"
      "so_sent s1 = so_sent s @ put_u32 (word_of_nat (length body)) @ body" "parse_ipc_request body = Inr (request_of m)"
    using write_message_Inr [OF s1(1)] by blast
  obtain bs where bs: "so_sent s' = so_sent s1 @ bs" using write_messages_sent [OF s1(2)] by blast
  have "stream_bytes (so_incoming r) = put_u32 (word_of_nat (length body)) @ body @ bs @ rest"
    using Cons.prems(3) by (simp add: bs body(2))
  from read_ipc_request_Inr [OF Cons.prems(2) body(1) this body(3)]
  obtain r1 where r1: "read_ipc_request r = (Inr (request_of m), r1)" "stream_bytes (so_incoming r1) = bs @ rest"
      "undisturbed_stream (so_incoming r1)"
    by blast
  from Cons.IH [OF s1(2) r1(3)] show ?case using r1 bs by auto
qed simp

theorem ipc_requests_arrive_witness:
  "\<exists>r'. read_requests 2 \<lparr>so_incoming = [Received [5, 0], RecvInterrupted, Received [0, 0, 2, 7], Received [0, 0, 0, 1, 0],
       Received [0, 0, 1, 9]], so_outcomes = [], so_sent = []\<rparr> =
     ([Inr (request_of (AskEvent 7)), Inr (request_of AskNodes)], r') \<and> stream_bytes (so_incoming r') = [9]"
proof -
  let ?s = "\<lparr>so_incoming = [], so_outcomes = [], so_sent = []\<rparr>"
  let ?r = "\<lparr>so_incoming = [Received [5, 0], RecvInterrupted, Received [0, 0, 2, 7], Received [0, 0, 0, 1, 0],
       Received [0, 0, 1, 9]], so_outcomes = [], so_sent = []\<rparr> :: socket"
  have w: "write_messages [AskEvent 7, AskNodes] ?s =
      (Inr (), ?s\<lparr>so_sent := [5, 0, 0, 0, 2, 7, 0, 0, 0, 1, 0, 0, 0, 1]\<rparr>)"
    by (simp add: write_ipc_next_event_request_def write_ipc_node_list_request_def node_id_ok_def send_body_def
        kMaximumIpcBodySize_def send_all.simps put_u32_bytes)
  have u: "undisturbed_stream (so_incoming ?r)" by (simp add: undisturbed_stream_def)
  have b: "stream_bytes (so_incoming ?r) = drop (length (so_sent ?s))
      (so_sent (?s\<lparr>so_sent := [5, 0, 0, 0, 2, 7, 0, 0, 0, 1, 0, 0, 0, 1]\<rparr>)) @ [9]"
    by (simp add: stream_bytes_def)
  have n: "length [AskEvent 7, AskNodes] = 2" by simp
  show ?thesis using ipc_requests_arrive [OF w u b] unfolding n list.map .
qed

text \<open>
  The bodies of the local responses are read back: a chunk of a UART stream that fits a message, a
  list of at most 127 nodes and a snapshot of the current version with its six classes decode to
  themselves, and every other one is refused or comes back different.
\<close>

lemma ipc_bodies_roundtrip:
  "((\<exists>bs. encode_ipc_uart_stream_chunk c = Inr bs \<and> decode_ipc_uart_stream_chunk bs = Inr c) \<longleftrightarrow>
      length (uc_data c) \<le> kMaximumIpcBodySize - 20) \<and>
   ((\<exists>bs. encode_ipc_node_list nodes = Inr bs \<and> decode_ipc_node_list bs = Inr nodes) \<longleftrightarrow> length nodes \<le> 127) \<and>
   ((\<exists>bs. encode_ipc_traffic_status t = Inr bs \<and> decode_ipc_traffic_status bs = Inr t) \<longleftrightarrow>
      ts_version t = 1 \<and> length (ts_classes t) = kTrafficClassCount)"
proof -
  have "length (ts_classes t) = 6" if "decode_ipc_traffic_status bs = Inr t" for bs
    using that by (auto simp: decode_ipc_traffic_status_def ipc_sizes split: if_splits)
  moreover have "(\<exists>bs. encode_ipc_uart_stream_chunk c = Inr bs \<and> decode_ipc_uart_stream_chunk bs = Inr c) \<longleftrightarrow>
      length (uc_data c) \<le> kMaximumIpcBodySize - 20"
    by (auto simp: encode_ipc_uart_stream_chunk_def decode_ipc_uart_stream_chunk_def not_less)
  ultimately show ?thesis
    using node_list_wire [of nodes] traffic_status_wire [of t]
    by (auto simp: encode_ipc_node_list_def encode_ipc_traffic_status_def kTrafficClassCount_def)
qed

end
