(* ===== verification/Daemon.thy ===== *)
theory Daemon
  imports Request_Manager Node_Registry Ipc Reassembly Can_Frame
begin

text \<open>
  \<^verbatim>\<open>toolbusd/src/main.cpp\<close>: the daemon between the local clients and the CAN bus. \<^verbatim>\<open>can_loop\<close> is one
  worker thread; every client connection has a thread that runs \<^verbatim>\<open>handle_client\<close>. The threads meet in two
  mutexes, so an operation here is what one thread does while it holds one of them: the theory gives the
  operations, and \<open>Daemon_Runs\<close> interleaves them. What \<^verbatim>\<open>transport_.send\<close> will do is data, as in
  \<open>Ipc_Socket\<close>: \<open>dm_tx_outcomes\<close> says whether the next calls throw, \<open>dm_tx\<close> collects the messages sent.
  The condition variable only wakes threads, which test their condition again; it has no state. The
  texts of error messages are left out: a client is told an exception.

  In \<^verbatim>\<open>send_packet\<close> the order of the two arguments \<^verbatim>\<open>encode(packet)\<close> and \<^verbatim>\<open>next_transfer_id_++\<close> is
  unspecified; the model encodes first.
\<close>

subsection \<open>Data\<close>

definition kBroadcastRequestCanId :: u32 where "kBroadcastRequestCanId = 0x700"
definition kNodeRequestBaseCanId :: u32 where "kNodeRequestBaseCanId = 0x600"
definition kNodeResponseBaseCanId :: u32 where "kNodeResponseBaseCanId = 0x580"
definition kNodeHeartbeatBaseCanId :: u32 where "kNodeHeartbeatBaseCanId = 0x500"
definition kProvisionalResponseBaseCanId :: u32 where "kProvisionalResponseBaseCanId = 0x480"
definition kMaximumNodeId :: u32 where "kMaximumNodeId = 127"
definition kMaximumQueuedEventsPerNode :: nat where "kMaximumQueuedEventsPerNode = 256"
definition kUartStreamBufferCapacity :: nat where "kUartStreamBufferCapacity = 64 * 1024"
definition kDiscoveryInterval :: time where "kDiscoveryInterval = ms 2000"

lemmas daemon_consts = kBroadcastRequestCanId_def kNodeRequestBaseCanId_def kNodeResponseBaseCanId_def
  kNodeHeartbeatBaseCanId_def kProvisionalResponseBaseCanId_def kMaximumNodeId_def
  kMaximumQueuedEventsPerNode_def kUartStreamBufferCapacity_def kDiscoveryInterval_def

datatype daemon_error =
    DE_Registry registry_error | DE_Requests request_manager_error | DE_Packet packet_error
  | DE_Fragment fragment_error | DE_Reassembly reassembly_error | DE_Traffic traffic_error
  | DE_Ipc ipc_error | DE_Payload discovery_payload_error | DE_TransportFailed | DE_NodeOffline
  | DE_NotRequest | DE_BudgetExceeded | DE_NodeIdsExhausted

record stream_buffer =
  sb_bytes :: "byte list"
  sb_dropped_bytes :: u64
  sb_lost_events :: u64
  sb_last_sequence :: u32
  sb_sequence_initialized :: bool

definition empty_stream :: stream_buffer where
  "empty_stream = \<lparr>sb_bytes = [], sb_dropped_bytes = 0, sb_lost_events = 0, sb_last_sequence = 0,
     sb_sequence_initialized = False\<rparr>"

record daemon =
  dm_mtu :: nat
  dm_fd :: bool
  dm_reassembler :: reassembler
  dm_traffic :: traffic_controller
  dm_requests :: request_manager
  dm_nodes :: node_registry
  dm_running :: bool
  dm_responses :: "(u64, packet) hmap"
  dm_timed_out :: "(u64, unit) hmap"
  dm_request_can_ids :: "(u64, u32) hmap"
  dm_event_queues :: "(u32, packet list) hmap"
  dm_streams :: "(u64, stream_buffer) hmap"
  dm_next_transfer_id :: u16
  dm_next_control_request_id :: u32
  dm_next_node_id :: u32
  dm_session_id :: u32
  dm_tx_outcomes :: "bool list"
  dm_tx :: "can_message list"

definition uart_stream_key :: "u32 \<Rightarrow> u32 \<Rightarrow> u64" where
  "uart_stream_key node_id object_id = push_bit 32 (ucast node_id) OR ucast object_id"

text \<open>The ticks of the clock and the process identifier, mixed to a session identifier that is not 0.\<close>

definition make_session_id :: "u64 \<Rightarrow> u64 \<Rightarrow> u32" where
  "make_session_id ticks pid =
     (let mixed = ticks XOR push_bit 32 pid; mixed1 = mixed XOR drop_bit 33 mixed;
          mixed2 = mixed1 * 0xff51afd7ed558ccd; mixed3 = mixed2 XOR drop_bit 33 mixed2;
          v = ucast mixed3
      in if v = 0 then 1 else v)"

definition daemon_new ::
  "(rat \<Rightarrow> rat) \<Rightarrow> nat \<Rightarrow> bool \<Rightarrow> traffic_config \<Rightarrow> u32 \<Rightarrow> bool list \<Rightarrow> time \<Rightarrow> daemon_error + daemon" where
  "daemon_new rnd mtu fd config session_id outcomes now =
     try_bind (map_error DE_Fragment (fragmenter_new mtu)) (\<lambda>_.
     try_bind (map_error DE_Reassembly (reassembler_new mtu (ms 500))) (\<lambda>reassembler.
     try_bind (map_error DE_Traffic (traffic_controller_new rnd config now)) (\<lambda>traffic.
     try_bind (map_error DE_Requests (request_manager_new (ms 750) 2 (ms 2000))) (\<lambda>requests.
     try_bind (map_error DE_Registry (node_registry_new (ms 2000))) (\<lambda>nodes.
     Inr \<lparr>dm_mtu = mtu, dm_fd = fd, dm_reassembler = reassembler, dm_traffic = traffic,
       dm_requests = requests, dm_nodes = nodes, dm_running = True, dm_responses = [],
       dm_timed_out = [], dm_request_can_ids = [], dm_event_queues = [], dm_streams = [],
       dm_next_transfer_id = 1, dm_next_control_request_id = 0x80000000, dm_next_node_id = 1,
       dm_session_id = session_id, dm_tx_outcomes = outcomes, dm_tx = []\<rparr>)))))"

subsection \<open>Sending\<close>

definition transport_send :: "can_message \<Rightarrow> daemon \<Rightarrow> bool \<times> daemon" where
  "transport_send m d =
     (case dm_tx_outcomes d of
        [] \<Rightarrow> (True, d\<lparr>dm_tx := dm_tx d @ [m]\<rparr>)
      | True # rest \<Rightarrow> (True, d\<lparr>dm_tx_outcomes := rest, dm_tx := dm_tx d @ [m]\<rparr>)
      | False # rest \<Rightarrow> (False, d\<lparr>dm_tx_outcomes := rest\<rparr>))"

fun transmit :: "can_message list \<Rightarrow> daemon \<Rightarrow> bool \<times> daemon" where
  "transmit [] d = (True, d)"
| "transmit (m # rest) d =
     (case transport_send m d of (False, d1) \<Rightarrow> (False, d1) | (True, d1) \<Rightarrow> transmit rest d1)"

definition daemon_send ::
  "(rat \<Rightarrow> rat) \<Rightarrow> packet \<Rightarrow> u32 \<Rightarrow> admission_policy \<Rightarrow> time \<Rightarrow> daemon \<Rightarrow> (daemon_error + bool) \<times> daemon" where
  "daemon_send rnd packet can_id policy now d =
     (case encode packet of
        Inl e \<Rightarrow> (Inl (DE_Packet e), d)
      | Inr bs \<Rightarrow>
          let d1 = d\<lparr>dm_next_transfer_id := dm_next_transfer_id d + 1\<rparr> in
          (case fragmenter_split (dm_mtu d) bs (dm_next_transfer_id d) of
             Inl e \<Rightarrow> (Inl (DE_Fragment e), d1)
           | Inr frames \<Rightarrow>
               let c = classify_traffic packet;
                   policy' = (if c = TC_Safety then AP_Guaranteed else policy)
               in (case admit rnd c (map length frames) policy' now (dm_traffic d1) of
                     (Inl e, t) \<Rightarrow> (Inl (DE_Traffic e), d1\<lparr>dm_traffic := t\<rparr>)
                   | (Inr False, t) \<Rightarrow> (Inr False, d1\<lparr>dm_traffic := t\<rparr>)
                   | (Inr True, t) \<Rightarrow>
                       (case transmit (map (\<lambda>frame. \<lparr>cm_identifier = can_id, cm_extended_identifier = False,
                               cm_data = frame, cm_bit_rate_switch = dm_fd d\<rparr>) frames)
                               (d1\<lparr>dm_traffic := t\<rparr>) of
                          (False, d2) \<Rightarrow> (Inl DE_TransportFailed, d2)
                        | (True, d2) \<Rightarrow> (Inr True, d2)))))"

subsection \<open>The worker\<close>

text \<open>A packet the worker is about to send, and when the next discovery is due once it is sent.\<close>

record outgoing =
  ob_packet :: packet
  ob_can_id :: u32
  ob_policy :: admission_policy
  ob_next_discovery :: "time option"

text \<open>The locked part of \<^verbatim>\<open>send_discovery\<close>.\<close>

definition send_discovery :: "time \<Rightarrow> daemon \<Rightarrow> (daemon_error + outgoing list) \<times> daemon" where
  "send_discovery now d =
     (map_error DE_Registry (try_bind
        (make_discovery_request (dm_next_control_request_id d) kProtocolVersion kProtocolVersion)
        (\<lambda>request. Inr [\<lparr>ob_packet = request, ob_can_id = kBroadcastRequestCanId, ob_policy = AP_Enforce,
           ob_next_discovery = Some (now + kDiscoveryInterval)\<rparr>])),
      d\<lparr>dm_next_control_request_id := dm_next_control_request_id d + 1\<rparr>)"

definition in_id_range :: "u32 \<Rightarrow> u32 \<Rightarrow> bool" where
  "in_id_range base can_id \<longleftrightarrow> base < can_id \<and> can_id \<le> base + kMaximumNodeId"

definition listens_to :: "can_message \<Rightarrow> bool" where
  "listens_to m \<longleftrightarrow> \<not> cm_extended_identifier m \<and>
     (in_id_range kNodeResponseBaseCanId (cm_identifier m) \<or>
      in_id_range kNodeHeartbeatBaseCanId (cm_identifier m) \<or>
      in_id_range kProvisionalResponseBaseCanId (cm_identifier m))"

text \<open>A new node gets the next identifier, one that has not confirmed its own gets it again.\<close>

definition assign_node :: "node_uuid \<Rightarrow> u32 \<Rightarrow> daemon \<Rightarrow> (daemon_error + packet option) \<times> daemon" where
  "assign_node uuid node_id d =
     (let (r, nodes) = make_node_assignment uuid node_id (dm_next_control_request_id d) (dm_nodes d)
      in (map_error DE_Registry (try_bind r (\<lambda>p. Inr (Some p))),
          d\<lparr>dm_nodes := nodes, dm_next_control_request_id := dm_next_control_request_id d + 1\<rparr>))"

definition on_discovery_response ::
  "u32 \<Rightarrow> packet \<Rightarrow> time \<Rightarrow> daemon \<Rightarrow> (daemon_error + packet option) \<times> daemon" where
  "on_discovery_response can_id packet now d =
     (case accept_discovery_response packet now (dm_nodes d) of
        (Inl e, nodes) \<Rightarrow> (Inl (DE_Registry e), d\<lparr>dm_nodes := nodes\<rparr>)
      | (Inr update, nodes) \<Rightarrow>
          (case decode_node_identity (payload packet) of
             Inl e \<Rightarrow> (Inl (DE_Payload e), d\<lparr>dm_nodes := nodes\<rparr>)
           | Inr identity \<Rightarrow>
               let uuid = ni_uuid identity;
                   nodes1 = (if in_id_range kProvisionalResponseBaseCanId can_id
                             then snd (mark_assignment_unconfirmed uuid nodes) else nodes);
                   d1 = d\<lparr>dm_nodes := nodes1\<rparr>
               in if update = Added then
                    (if dm_next_node_id d1 > kMaximumNodeId then (Inl DE_NodeIdsExhausted, d1)
                     else assign_node uuid (dm_next_node_id d1)
                            (d1\<lparr>dm_next_node_id := dm_next_node_id d1 + 1\<rparr>))
                  else (case find_node uuid nodes1 of
                          Some node \<Rightarrow>
                            if \<not> nr_assigned node \<and> nr_node_id node \<noteq> 0
                            then assign_node uuid (nr_node_id node) d1 else (Inr None, d1)
                        | None \<Rightarrow> (Inr None, d1))))"

text \<open>The sequence number of a stream event: whether it is new, and how many events it shows missing.\<close>

definition stream_sequence :: "u32 \<Rightarrow> stream_buffer \<Rightarrow> bool \<times> stream_buffer" where
  "stream_sequence sequence s =
     (if sequence = 0 then (True, s)
      else if \<not> sb_sequence_initialized s
      then (True, s\<lparr>sb_sequence_initialized := True, sb_last_sequence := sequence\<rparr>)
      else let distance = sequence - sb_last_sequence s in
        if distance = 0 \<or> distance \<ge> 0x80000000 then (False, s)
        else (True, s\<lparr>sb_lost_events := sb_lost_events s + (if distance > 1 then ucast (distance - 1) else 0),
                      sb_last_sequence := sequence\<rparr>))"

definition stream_push :: "byte \<Rightarrow> stream_buffer \<Rightarrow> stream_buffer" where
  "stream_push b s =
     (let s1 = (if length (sb_bytes s) = kUartStreamBufferCapacity
                then s\<lparr>sb_bytes := tl (sb_bytes s), sb_dropped_bytes := sb_dropped_bytes s + 1\<rparr> else s)
      in s1\<lparr>sb_bytes := sb_bytes s1 @ [b]\<rparr>)"

definition stream_event :: "u32 \<Rightarrow> byte list \<Rightarrow> stream_buffer \<Rightarrow> stream_buffer" where
  "stream_event sequence bs s =
     (let (accept, s1) = stream_sequence sequence s in if accept then fold stream_push bs s1 else s1)"

definition hfind :: "'v \<Rightarrow> 'k \<Rightarrow> ('k, 'v) hmap \<Rightarrow> 'v" where
  "hfind initial k m = (case map_of m k of None \<Rightarrow> initial | Some v \<Rightarrow> v)"

definition queue_event :: "packet \<Rightarrow> packet list \<Rightarrow> packet list" where
  "queue_event packet queue =
     (if length queue = kMaximumQueuedEventsPerNode then tl queue else queue) @ [packet]"

definition on_event :: "u32 \<Rightarrow> packet \<Rightarrow> daemon \<Rightarrow> daemon" where
  "on_event can_id packet d =
     (if \<not> in_id_range kNodeHeartbeatBaseCanId can_id then d
      else let node_id = can_id - kNodeHeartbeatBaseCanId; k = uart_stream_key node_id (ph_object_id (header packet));
               d1 = (if ph_command (header packet) = command_code UartRxEvent \<and> ph_object_id (header packet) \<noteq> 0
                     then d\<lparr>dm_streams := hput k (stream_event (ph_request_id (header packet)) (payload packet)
                            (hfind empty_stream k (dm_streams d))) (dm_streams d)\<rparr>
                     else d)
        in d1\<lparr>dm_event_queues := hput node_id (queue_event packet (hfind [] node_id (dm_event_queues d1)))
                (dm_event_queues d1)\<rparr>)"

definition on_response :: "u32 \<Rightarrow> packet \<Rightarrow> time \<Rightarrow> daemon \<Rightarrow> daemon" where
  "on_response can_id packet now d =
     (if \<not> in_id_range kNodeResponseBaseCanId can_id then d
      else let k = request_key (ph_session_id (header packet)) (ph_request_id (header packet)) in
        if map_of (dm_request_can_ids d) k \<noteq> Some (kNodeRequestBaseCanId + (can_id - kNodeResponseBaseCanId))
        then d
        else (case accept_response packet now (dm_requests d) of
                ((Matched, Some response), requests) \<Rightarrow>
                  d\<lparr>dm_requests := requests, dm_responses := hput k response (dm_responses d)\<rparr>
              | (_, requests) \<Rightarrow> d\<lparr>dm_requests := requests\<rparr>))"

text \<open>The locked part of \<^verbatim>\<open>handle_can_message\<close>: the assignment to send, if any.\<close>

definition handle_packet ::
  "u32 \<Rightarrow> packet \<Rightarrow> time \<Rightarrow> daemon \<Rightarrow> (daemon_error + packet option) \<times> daemon" where
  "handle_packet can_id packet now d =
     (if ph_command (header packet) = command_code DiscoveryResponse
      then on_discovery_response can_id packet now d
      else if ph_command (header packet) = command_code Heartbeat
      then (let (r, nodes) = accept_heartbeat packet now (dm_nodes d)
            in (map_error DE_Registry (try_bind r (\<lambda>_. Inr None)), d\<lparr>dm_nodes := nodes\<rparr>))
      else if ph_message_type (header packet) = message_type_code Event
      then (Inr None, on_event can_id packet d)
      else (Inr None, on_response can_id packet now d))"

text \<open>What a message completes in the reassembler, which only the worker uses.\<close>

definition hear ::
  "can_message \<Rightarrow> time \<Rightarrow> daemon \<Rightarrow> (daemon_error + packet option) \<times> daemon" where
  "hear m now d =
     (case accept (cm_identifier m) (cm_data m) now (dm_reassembler d) of
        (Inl e, ra) \<Rightarrow> (Inl (DE_Reassembly e), d\<lparr>dm_reassembler := ra\<rparr>)
      | (Inr (Complete, Some bs), ra) \<Rightarrow>
          (map_error DE_Packet (try_bind (decode bs) (\<lambda>p. Inr (Some p))), d\<lparr>dm_reassembler := ra\<rparr>)
      | (Inr _, ra) \<Rightarrow> (Inr None, d\<lparr>dm_reassembler := ra\<rparr>))"

definition handle_can_message ::
  "can_message \<Rightarrow> time \<Rightarrow> time \<Rightarrow> daemon \<Rightarrow> (daemon_error + outgoing list) \<times> daemon" where
  "handle_can_message m heard now d =
     (case hear m heard d of
        (Inl e, d1) \<Rightarrow> (Inl e, d1)
      | (Inr None, d1) \<Rightarrow> (Inr [], d1)
      | (Inr (Some packet), d1) \<Rightarrow>
          (case handle_packet (cm_identifier m) packet now d1 of
             (Inl e, d2) \<Rightarrow> (Inl e, d2)
           | (Inr None, d2) \<Rightarrow> (Inr [], d2)
           | (Inr (Some p), d2) \<Rightarrow> (Inr [\<lparr>ob_packet = p, ob_can_id = kBroadcastRequestCanId,
                 ob_policy = AP_Guaranteed, ob_next_discovery = None\<rparr>], d2)))"

fun timer_events :: "request_event list \<Rightarrow> daemon \<Rightarrow> outgoing list \<times> daemon" where
  "timer_events [] d = ([], d)"
| "timer_events (e # es) d =
     (let k = request_key (re_session_id e) (re_request_id e) in
      case (re_type e, re_packet e) of
        (Retry, Some packet) \<Rightarrow>
          let (retries, d1) = timer_events es d in
          (case map_of (dm_request_can_ids d) k of
             None \<Rightarrow> (retries, d1)
           | Some can_id \<Rightarrow> (\<lparr>ob_packet = packet, ob_can_id = can_id, ob_policy = AP_Guaranteed,
                              ob_next_discovery = None\<rparr> # retries, d1))
      | (TimedOut, _) \<Rightarrow>
          timer_events es (d\<lparr>dm_timed_out := hput k () (dm_timed_out d),
                             dm_request_can_ids := herase k (dm_request_can_ids d)\<rparr>)
      | _ \<Rightarrow> timer_events es d)"

text \<open>The locked part of \<^verbatim>\<open>process_request_timers\<close>: the retries to send.\<close>

definition process_request_timers :: "time \<Rightarrow> time \<Rightarrow> daemon \<Rightarrow> outgoing list \<times> daemon" where
  "process_request_timers polled now d =
     (let (events, requests) = poll polled (dm_requests d);
          (retries, d1) = timer_events events (d\<lparr>dm_requests := requests\<rparr>)
      in (retries, d1\<lparr>dm_nodes := snd (registry_expire now (dm_nodes d1))\<rparr>))"

subsection \<open>A client\<close>

text \<open>What the client is told: \<^verbatim>\<open>write_ipc_response\<close> with its status.\<close>

datatype client_reply = ReplyOk "byte list" | ReplyTimedOut | ReplyError daemon_error

text \<open>Where the thread of a client is: before sending, refused, before it waits, or done.\<close>

datatype client_phase =
    CP_Submitted packet u32
  | CP_Refused packet
  | CP_Awaiting packet u32
  | CP_AwaitingEvent u32 time
  | CP_AwaitingStream u32 u32 u32 time
  | CP_Done client_reply

definition node_ready :: "u32 \<Rightarrow> daemon \<Rightarrow> bool" where
  "node_ready node_id d \<longleftrightarrow> (case find_by_node_id node_id (dm_nodes d) of
     None \<Rightarrow> False | Some node \<Rightarrow> nr_online node \<and> nr_assigned node)"

definition node_gone :: "u32 \<Rightarrow> daemon \<Rightarrow> bool" where
  "node_gone node_id d \<longleftrightarrow> (case find_by_node_id node_id (dm_nodes d) of
     None \<Rightarrow> True | Some node \<Rightarrow> \<not> nr_online node)"

definition ok_reply :: "('e \<Rightarrow> daemon_error) \<Rightarrow> 'e + byte list \<Rightarrow> client_phase" where
  "ok_reply f r = CP_Done (case r of Inl e \<Rightarrow> ReplyError (f e) | Inr bs \<Rightarrow> ReplyOk bs)"

definition list_nodes :: "daemon \<Rightarrow> client_phase" where
  "list_nodes d = ok_reply DE_Ipc (encode_ipc_node_list (map (\<lambda>node. let i = nr_identity node in
     \<lparr>in_uuid = ni_uuid i, in_node_id = nr_node_id node, in_online = nr_online node,
      in_ready = nr_assigned node, in_firmware_major = ni_firmware_major i,
      in_firmware_minor = ni_firmware_minor i, in_firmware_patch = ni_firmware_patch i,
      in_board_type = ni_board_type i, in_protocol_version = ni_protocol_version i\<rparr>) (records (dm_nodes d))))"

definition traffic_status :: "(rat \<Rightarrow> rat) \<Rightarrow> time \<Rightarrow> daemon \<Rightarrow> client_phase \<times> daemon" where
  "traffic_status rnd now d =
     (let (snapshot, t) = traffic_snapshot_at rnd now (dm_traffic d)
      in (ok_reply DE_Ipc (encode_ipc_traffic_status snapshot), d\<lparr>dm_traffic := t\<rparr>))"

text \<open>The wait for an event: its condition, and what follows when it holds or the time is over.\<close>

definition wait_event :: "u32 \<Rightarrow> time \<Rightarrow> time \<Rightarrow> daemon \<Rightarrow> client_phase \<times> daemon" where
  "wait_event node_id deadline now d =
     (case hfind [] node_id (dm_event_queues d) of
        event # queue \<Rightarrow>
          (ok_reply DE_Packet (encode event),
           d\<lparr>dm_event_queues := hput node_id queue (dm_event_queues d)\<rparr>)
      | [] \<Rightarrow>
          (if \<not> dm_running d \<or> node_gone node_id d \<or> now \<ge> deadline
           then CP_Done ReplyTimedOut else CP_AwaitingEvent node_id deadline, d))"

definition wait_stream :: "u32 \<Rightarrow> u32 \<Rightarrow> u32 \<Rightarrow> time \<Rightarrow> time \<Rightarrow> daemon \<Rightarrow> client_phase \<times> daemon" where
  "wait_stream node_id object_id maximum_length deadline now d =
     (let k = uart_stream_key node_id object_id; s = hfind empty_stream k (dm_streams d);
          count = min (unat maximum_length) (length (sb_bytes s))
      in if sb_bytes s \<noteq> []
         then (ok_reply DE_Ipc (encode_ipc_uart_stream_chunk
                 \<lparr>uc_data = take count (sb_bytes s), uc_dropped_bytes = sb_dropped_bytes s,
                  uc_lost_events = sb_lost_events s\<rparr>),
               d\<lparr>dm_streams := hput k (s\<lparr>sb_bytes := drop count (sb_bytes s)\<rparr>) (dm_streams d)\<rparr>)
         else if \<not> dm_running d \<or> node_gone node_id d \<or> now \<ge> deadline
         then (CP_Done ReplyTimedOut, d)
         else (CP_AwaitingStream node_id object_id maximum_length deadline, d))"

text \<open>The locked part of a request for a node: the session is the daemon's.\<close>

definition submit_request :: "ipc_request \<Rightarrow> time \<Rightarrow> daemon \<Rightarrow> client_phase \<times> daemon" where
  "submit_request r now d =
     (let request = iq_packet r;
          request1 = request\<lparr>header := (header request)\<lparr>ph_session_id := dm_session_id d\<rparr>\<rparr>
      in if ph_message_type (header request) \<noteq> message_type_code Request
         then (CP_Done (ReplyError DE_NotRequest), d)
         else if \<not> node_ready (iq_node_id r) d then (CP_Done (ReplyError DE_NodeOffline), d)
         else (case submit request1 now (dm_requests d) of
                 (Inl e, requests) \<Rightarrow> (CP_Done (ReplyError (DE_Requests e)), d\<lparr>dm_requests := requests\<rparr>)
               | (Inr (request_id, packet), requests) \<Rightarrow>
                   (CP_Submitted packet (iq_node_id r),
                    d\<lparr>dm_requests := requests,
                      dm_request_can_ids := hput (request_key (ph_session_id (header packet)) request_id)
                        (kNodeRequestBaseCanId + iq_node_id r) (dm_request_can_ids d)\<rparr>)))"

definition client_start :: "(rat \<Rightarrow> rat) \<Rightarrow> ipc_request \<Rightarrow> time \<Rightarrow> daemon \<Rightarrow> client_phase \<times> daemon" where
  "client_start rnd r now d =
     (case iq_kind r of
        ListNodes \<Rightarrow> (list_nodes d, d)
      | TrafficStatus \<Rightarrow> traffic_status rnd now d
      | NextEvent \<Rightarrow>
          if \<not> node_ready (iq_node_id r) d then (CP_Done (ReplyError DE_NodeOffline), d)
          else wait_event (iq_node_id r) (now + ms 1000) now d
      | UartStreamRead \<Rightarrow>
          if \<not> node_ready (iq_node_id r) d then (CP_Done (ReplyError DE_NodeOffline), d)
          else wait_stream (iq_node_id r) (iq_object_id r) (iq_maximum_length r)
                 (now + ms (uint (iq_timeout_ms r))) now d
      | RemotePacket \<Rightarrow> submit_request r now d)"

definition packet_key :: "packet \<Rightarrow> u64" where
  "packet_key p = request_key (ph_session_id (header p)) (ph_request_id (header p))"

definition client_send :: "(rat \<Rightarrow> rat) \<Rightarrow> packet \<Rightarrow> u32 \<Rightarrow> time \<Rightarrow> daemon \<Rightarrow> client_phase \<times> daemon" where
  "client_send rnd packet node_id now d =
     (let policy = (if classify_traffic packet = TC_Safety then AP_Guaranteed else AP_Enforce) in
      case daemon_send rnd packet (kNodeRequestBaseCanId + node_id) policy now d of
        (Inl e, d1) \<Rightarrow> (CP_Done (ReplyError e), d1)
      | (Inr True, d1) \<Rightarrow> (CP_Awaiting packet node_id, d1)
      | (Inr False, d1) \<Rightarrow> (CP_Refused packet, d1))"

definition client_refused :: "packet \<Rightarrow> daemon \<Rightarrow> client_phase \<times> daemon" where
  "client_refused packet d =
     (CP_Done (ReplyError DE_BudgetExceeded),
      d\<lparr>dm_requests := snd (cancel (ph_session_id (header packet)) (ph_request_id (header packet))
                               (dm_requests d)),
        dm_request_can_ids := herase (packet_key packet) (dm_request_can_ids d)\<rparr>)"

definition wait_response :: "packet \<Rightarrow> u32 \<Rightarrow> daemon \<Rightarrow> client_phase \<times> daemon" where
  "wait_response packet node_id d =
     (let k = packet_key packet in
      case map_of (dm_responses d) k of
        Some response \<Rightarrow>
          (case encode response of
             Inl e \<Rightarrow> (CP_Done (ReplyError (DE_Packet e)), d)
           | Inr bs \<Rightarrow> (CP_Done (ReplyOk bs),
               d\<lparr>dm_responses := herase k (dm_responses d),
                 dm_request_can_ids := herase k (dm_request_can_ids d)\<rparr>))
      | None \<Rightarrow>
          if \<not> dm_running d \<or> map_of (dm_timed_out d) k \<noteq> None
          then (CP_Done ReplyTimedOut, d\<lparr>dm_timed_out := herase k (dm_timed_out d)\<rparr>)
          else (CP_Awaiting packet node_id, d))"

text \<open>The next step of a thread, which does nothing while its condition does not hold.\<close>

fun client_step :: "(rat \<Rightarrow> rat) \<Rightarrow> client_phase \<Rightarrow> time \<Rightarrow> daemon \<Rightarrow> client_phase \<times> daemon" where
  "client_step rnd (CP_Submitted packet node_id) now d = client_send rnd packet node_id now d"
| "client_step rnd (CP_Refused packet) now d = client_refused packet d"
| "client_step rnd (CP_Awaiting packet node_id) now d = wait_response packet node_id d"
| "client_step rnd (CP_AwaitingEvent node_id deadline) now d = wait_event node_id deadline now d"
| "client_step rnd (CP_AwaitingStream node_id object_id n deadline) now d =
     wait_stream node_id object_id n deadline now d"
| "client_step rnd (CP_Done reply) now d = (CP_Done reply, d)"

end
