(* ===== verification/Daemon_Runs.thy ===== *)
theory Daemon_Runs
  imports Daemon
begin

text \<open>
  The threads of the daemon together: \<^verbatim>\<open>can_loop\<close>, \<^verbatim>\<open>run\<close> and the threads of the clients in
  \<^verbatim>\<open>toolbusd/src/main.cpp\<close>, interleaved at the points where a thread holds no mutex. The lemmas follow
  every request from its submission to its reply, in any interleaving.
\<close>

subsection \<open>The system\<close>

text \<open>
  The worker sends what is in \<open>sy_outbox\<close> before it does anything else; \<open>sy_worker\<close> is the part of
  \<^verbatim>\<open>can_loop\<close> that comes next.
\<close>

datatype worker_phase = WP_Round | WP_Receive | WP_Timers | WP_Stopped

record system =
  sy_daemon :: daemon
  sy_worker :: worker_phase
  sy_outbox :: "outgoing list"
  sy_next_discovery :: time
  sy_clients :: "client_phase list"

datatype sys_event =
    SE_Round time
  | SE_Receive "can_message option" time time
  | SE_Timers time time
  | SE_Send time
  | SE_Connect ipc_request time
  | SE_Proceed nat time
  | SE_Stop

definition worker_at :: "worker_phase \<Rightarrow> system \<Rightarrow> bool" where
  "worker_at phase s \<longleftrightarrow> sy_outbox s = [] \<and> sy_worker s = phase"

text \<open>An exception ends the worker's round: what it still had to send is given up.\<close>

definition worker_result :: "worker_phase \<Rightarrow> (daemon_error + outgoing list) \<times> daemon \<Rightarrow> system \<Rightarrow> system" where
  "worker_result next r s =
     (case fst r of
        Inl e \<Rightarrow> s\<lparr>sy_daemon := snd r, sy_worker := WP_Round, sy_outbox := []\<rparr>
      | Inr out \<Rightarrow> s\<lparr>sy_daemon := snd r, sy_worker := next, sy_outbox := out\<rparr>)"

definition worker_send :: "(rat \<Rightarrow> rat) \<Rightarrow> time \<Rightarrow> system \<Rightarrow> system" where
  "worker_send rnd now s =
     (case sy_outbox s of
        [] \<Rightarrow> s
      | out # rest \<Rightarrow>
          (case daemon_send rnd (ob_packet out) (ob_can_id out) (ob_policy out) now (sy_daemon s) of
             (Inl e, d) \<Rightarrow> s\<lparr>sy_daemon := d, sy_worker := WP_Round, sy_outbox := []\<rparr>
           | (Inr sent, d) \<Rightarrow> s\<lparr>sy_daemon := d, sy_outbox := rest,
               sy_next_discovery := (case ob_next_discovery out of None \<Rightarrow> sy_next_discovery s | Some t \<Rightarrow> t)\<rparr>))"

fun sys_step :: "(rat \<Rightarrow> rat) \<Rightarrow> sys_event \<Rightarrow> system \<Rightarrow> system" where
  "sys_step rnd (SE_Round now) s =
     (if \<not> worker_at WP_Round s then s
      else if \<not> dm_running (sy_daemon s) then s\<lparr>sy_worker := WP_Stopped\<rparr>
      else if now \<ge> sy_next_discovery s then worker_result WP_Receive (send_discovery now (sy_daemon s)) s
      else s\<lparr>sy_worker := WP_Receive\<rparr>)"
| "sys_step rnd (SE_Receive received heard now) s =
     (if \<not> worker_at WP_Receive s then s
      else (case received of
              Some m \<Rightarrow> if listens_to m
                then worker_result WP_Timers (handle_can_message m heard now (sy_daemon s)) s
                else s\<lparr>sy_worker := WP_Timers\<rparr>
            | None \<Rightarrow> s\<lparr>sy_worker := WP_Timers\<rparr>))"
| "sys_step rnd (SE_Timers polled now) s =
     (if \<not> worker_at WP_Timers s then s
      else (let (out, d) = process_request_timers polled now (sy_daemon s)
            in worker_result WP_Round (Inr out, d) s))"
| "sys_step rnd (SE_Send now) s = worker_send rnd now s"
| "sys_step rnd (SE_Connect r now) s =
     (let (phase, d) = client_start rnd r now (sy_daemon s)
      in s\<lparr>sy_daemon := d, sy_clients := sy_clients s @ [phase]\<rparr>)"
| "sys_step rnd (SE_Proceed i now) s =
     (if i < length (sy_clients s)
      then (let (phase, d) = client_step rnd (sy_clients s ! i) now (sy_daemon s)
            in s\<lparr>sy_daemon := d, sy_clients := (sy_clients s)[i := phase]\<rparr>)
      else s)"
| "sys_step rnd SE_Stop s = s\<lparr>sy_daemon := (sy_daemon s)\<lparr>dm_running := False\<rparr>\<rparr>"

text \<open>The requests of the clients, and the packets the worker heard with the identifiers they came under.\<close>

fun asked :: "sys_event \<Rightarrow> ipc_request list" where
  "asked (SE_Connect r now) = [r]"
| "asked e = []"

fun hears :: "sys_event \<Rightarrow> system \<Rightarrow> (u32 \<times> packet) list" where
  "hears (SE_Receive (Some m) heard now) s =
     (if worker_at WP_Receive s \<and> listens_to m
      then (case fst (hear m heard (sy_daemon s)) of Inr (Some p) \<Rightarrow> [(cm_identifier m, p)] | _ \<Rightarrow> []) else [])"
| "hears e s = []"

inductive daemon_run :: "(rat \<Rightarrow> rat) \<Rightarrow> ipc_request list \<Rightarrow> (u32 \<times> packet) list \<Rightarrow> system \<Rightarrow> bool" for rnd where
  daemon_started: "daemon_new rnd mtu fd config session_id outcomes now = Inr d \<Longrightarrow>
    daemon_run rnd [] [] \<lparr>sy_daemon = d, sy_worker = WP_Round, sy_outbox = [], sy_next_discovery = now, sy_clients = []\<rparr>"
| daemon_stepped: "daemon_run rnd reqs heard s \<Longrightarrow>
    daemon_run rnd (reqs @ asked e) (heard @ hears e s) (sys_step rnd e s)"

subsection \<open>What the operations leave alone\<close>

text \<open>The part of the daemon that holds the requests.\<close>

definition ledger where
  "ledger d = (dm_requests d, dm_request_can_ids d, dm_responses d, dm_timed_out d, dm_session_id d)"

lemma transmit_ledger: "transmit frames d = (ok, d') \<Longrightarrow> ledger d' = ledger d"
  by (induction frames arbitrary: d)
    (auto simp: transport_send_def ledger_def split: list.splits bool.splits prod.splits)

lemma daemon_send_ledger: "ledger (snd (daemon_send rnd packet can_id policy now d)) = ledger d"
  unfolding daemon_send_def Let_def
  by (auto simp: ledger_def dest!: transmit_ledger split: sum.split prod.split bool.split)

lemma send_discovery_ledger: "ledger (snd (send_discovery now d)) = ledger d"
  by (simp add: send_discovery_def ledger_def)

lemma assign_node_ledger: "ledger (snd (assign_node uuid node_id d)) = ledger d"
  by (simp add: assign_node_def ledger_def split: prod.split)

lemma discovery_response_ledger: "ledger (snd (on_discovery_response can_id packet now d)) = ledger d"
  using assign_node_ledger
  by (auto simp: on_discovery_response_def Let_def ledger_def split: sum.split prod.split option.split)

lemma event_ledger: "ledger (on_event can_id packet d) = ledger d"
  by (simp add: on_event_def Let_def ledger_def)

lemma hear_ledger: "ledger (snd (hear m now d)) = ledger d"
  by (auto simp: hear_def ledger_def split: sum.split prod.split option.split reassembly_status.split)

lemma wait_event_ledger: "ledger (snd (wait_event node_id deadline now d)) = ledger d"
  by (auto simp: wait_event_def ledger_def split: list.split)

lemma wait_stream_ledger: "ledger (snd (wait_stream node_id object_id n deadline now d)) = ledger d"
  by (simp add: wait_stream_def Let_def ledger_def)

lemma traffic_status_ledger: "ledger (snd (traffic_status rnd now d)) = ledger d"
  by (simp add: traffic_status_def ledger_def split: prod.split)

lemmas ledger_kept = daemon_send_ledger send_discovery_ledger discovery_response_ledger event_ledger
  hear_ledger wait_event_ledger wait_stream_ledger traffic_status_ledger

subsection \<open>The ledger of requests\<close>

text \<open>
  What is known of the request with identifier \<open>rid\<close>: the client that submitted it, the packet and the
  node it is for.
\<close>

type_synonym submissions = "u32 \<Rightarrow> (nat \<times> packet \<times> u32) option"

definition submitted_as :: "u32 \<Rightarrow> ipc_request \<Rightarrow> u32 \<Rightarrow> packet" where
  "submitted_as session_id r rid = (iq_packet r)\<lparr>header := (header (iq_packet r))
     \<lparr>ph_session_id := session_id, ph_request_id := rid\<rparr>\<rparr>"

text \<open>A response that belongs to a request and came from the node it was sent to.\<close>

definition answers_from :: "(u32 \<times> packet) list \<Rightarrow> packet \<Rightarrow> u32 \<Rightarrow> packet \<Rightarrow> bool" where
  "answers_from heard p node_id q \<longleftrightarrow>
     ph_message_type (header q) = message_type_code Response \<and>
     ph_session_id (header q) = ph_session_id (header p) \<and>
     ph_request_id (header q) = ph_request_id (header p) \<and>
     ph_command (header q) = ph_command (header p) \<and> object_matches p q \<and>
     (kNodeResponseBaseCanId + node_id, q) \<in> set heard"

definition sub_at :: "submissions \<Rightarrow> u32 \<Rightarrow> u64 \<Rightarrow> nat \<Rightarrow> packet \<Rightarrow> u32 \<Rightarrow> bool" where
  "sub_at sub session_id k i p node_id \<longleftrightarrow>
     (\<exists>rid. k = request_key session_id rid \<and> sub rid = Some (i, p, node_id))"

definition subs_ok :: "submissions \<Rightarrow> u32 \<Rightarrow> ipc_request list \<Rightarrow> bool" where
  "subs_ok sub session_id reqs \<longleftrightarrow>
     (\<forall>rid i p node_id. sub rid = Some (i, p, node_id) \<longrightarrow> i < length reqs \<and>
        iq_kind (reqs ! i) = RemotePacket \<and> node_id = iq_node_id (reqs ! i) \<and>
        p = submitted_as session_id (reqs ! i) rid) \<and>
     (\<forall>rid rid' i p p' n n'. sub rid = Some (i, p, n) \<longrightarrow> sub rid' = Some (i, p', n') \<longrightarrow> rid = rid')"

definition ledger_ok :: "submissions \<Rightarrow> ipc_request list \<Rightarrow> (u32 \<times> packet) list \<Rightarrow> daemon \<Rightarrow> bool" where
  "ledger_ok sub reqs heard d \<longleftrightarrow>
     (let m = dm_requests d; s = dm_session_id d in
      request_manager_ok m \<and> subs_ok sub s reqs \<and>
      (\<forall>rid. sub rid \<noteq> None \<longleftrightarrow> rid \<noteq> 0 \<and> rid < rm_next_request_id m) \<and>
      unat (rm_next_request_id m) \<le> length reqs + 1 \<and>
      (\<forall>k e. map_of (rm_pending m) k = Some e \<longrightarrow> (\<exists>i n. sub_at sub s k i (pr_packet e) n)) \<and>
      (\<forall>k. map_of (rm_completed m) k \<noteq> None \<longrightarrow> (\<exists>i p n. sub_at sub s k i p n)) \<and>
      (\<forall>k c. map_of (dm_request_can_ids d) k = Some c \<longrightarrow>
         (\<exists>i p n. sub_at sub s k i p n \<and> c = kNodeRequestBaseCanId + n)) \<and>
      (\<forall>k q. map_of (dm_responses d) k = Some q \<longrightarrow>
         (\<exists>i p n. sub_at sub s k i p n \<and> answers_from heard p n q)))"

lemma ledger_okD:
  assumes "ledger_ok sub reqs heard d"
  shows "request_manager_ok (dm_requests d)" "subs_ok sub (dm_session_id d) reqs"
    "sub rid \<noteq> None \<longleftrightarrow> rid \<noteq> 0 \<and> rid < rm_next_request_id (dm_requests d)"
    "unat (rm_next_request_id (dm_requests d)) \<le> length reqs + 1"
    "map_of (rm_pending (dm_requests d)) k = Some e \<Longrightarrow> \<exists>i n. sub_at sub (dm_session_id d) k i (pr_packet e) n"
    "map_of (rm_completed (dm_requests d)) k \<noteq> None \<Longrightarrow> \<exists>i p n. sub_at sub (dm_session_id d) k i p n"
    "map_of (dm_request_can_ids d) k = Some c \<Longrightarrow>
      \<exists>i p n. sub_at sub (dm_session_id d) k i p n \<and> c = kNodeRequestBaseCanId + n"
    "map_of (dm_responses d) k = Some q \<Longrightarrow>
      \<exists>i p n. sub_at sub (dm_session_id d) k i p n \<and> answers_from heard p n q"
  using assms by (simp_all add: ledger_ok_def Let_def del: map_of_eq_Some_iff)

lemma ledger_okI:
  assumes "request_manager_ok (dm_requests d)" "subs_ok sub (dm_session_id d) reqs"
    "\<And>rid. sub rid \<noteq> None \<longleftrightarrow> rid \<noteq> 0 \<and> rid < rm_next_request_id (dm_requests d)"
    "unat (rm_next_request_id (dm_requests d)) \<le> length reqs + 1"
    "\<And>k e. map_of (rm_pending (dm_requests d)) k = Some e \<Longrightarrow> \<exists>i n. sub_at sub (dm_session_id d) k i (pr_packet e) n"
    "\<And>k. map_of (rm_completed (dm_requests d)) k \<noteq> None \<Longrightarrow> \<exists>i p n. sub_at sub (dm_session_id d) k i p n"
    "\<And>k c. map_of (dm_request_can_ids d) k = Some c \<Longrightarrow>
      \<exists>i p n. sub_at sub (dm_session_id d) k i p n \<and> c = kNodeRequestBaseCanId + n"
    "\<And>k q. map_of (dm_responses d) k = Some q \<Longrightarrow>
      \<exists>i p n. sub_at sub (dm_session_id d) k i p n \<and> answers_from heard p n q"
  shows "ledger_ok sub reqs heard d"
  using assms by (simp add: ledger_ok_def Let_def del: map_of_eq_Some_iff)

lemma ledger_ok_kept: "ledger d' = ledger d \<Longrightarrow> ledger_ok sub reqs heard d \<Longrightarrow> ledger_ok sub reqs heard d'"
  by (simp add: ledger_ok_def ledger_def)

lemma answers_from_mono: "answers_from heard p n q \<Longrightarrow> answers_from (heard @ news) p n q"
  by (auto simp: answers_from_def)

lemma subs_ok_mono: "subs_ok sub s reqs \<Longrightarrow> subs_ok sub s (reqs @ new)"
  unfolding subs_ok_def by (elim conjE, intro conjI) (fastforce simp: nth_append, assumption)

lemma ledger_ok_mono:
  assumes ok: "ledger_ok sub reqs heard d"
  shows "ledger_ok sub (reqs @ new) (heard @ news) d"
proof (rule ledger_okI, goal_cases)
  case (8 k q)
  then show ?case using ledger_okD(8) [OF ok] answers_from_mono by blast
qed (use ledger_okD [OF ok] subs_ok_mono in \<open>simp_all del: map_of_eq_Some_iff\<close>)

text \<open>What only takes from the tables, or moves a request from pending to completed.\<close>

definition shrinks :: "request_manager \<Rightarrow> request_manager \<Rightarrow> bool" where
  "shrinks m m' \<longleftrightarrow> request_manager_ok m' \<and> rm_next_request_id m' = rm_next_request_id m \<and>
     (\<forall>k e'. map_of (rm_pending m') k = Some e' \<longrightarrow>
        (\<exists>e. map_of (rm_pending m) k = Some e \<and> pr_packet e' = pr_packet e)) \<and>
     (\<forall>k. map_of (rm_completed m') k \<noteq> None \<longrightarrow>
        map_of (rm_completed m) k \<noteq> None \<or> map_of (rm_pending m) k \<noteq> None)"

lemma ledger_ok_shrinks:
  assumes ok: "ledger_ok sub reqs heard d" and m: "shrinks (dm_requests d) (dm_requests d')"
    and c: "\<And>k c. map_of (dm_request_can_ids d') k = Some c \<Longrightarrow> map_of (dm_request_can_ids d) k = Some c"
    and r: "\<And>k q. map_of (dm_responses d') k = Some q \<Longrightarrow> map_of (dm_responses d) k = Some q"
    and s: "dm_session_id d' = dm_session_id d"
  shows "ledger_ok sub reqs heard d'"
proof (rule ledger_okI, goal_cases)
  case (5 k e')
  then obtain e where "map_of (rm_pending (dm_requests d)) k = Some e" "pr_packet e' = pr_packet e"
    using m unfolding shrinks_def by blast
  then show ?case using ledger_okD(5) [OF ok] s by metis
next
  case (6 k)
  then consider "map_of (rm_completed (dm_requests d)) k \<noteq> None" | e where "map_of (rm_pending (dm_requests d)) k = Some e"
    using m unfolding shrinks_def by blast
  then show ?case using ledger_okD(5,6) [OF ok] s by cases metis+
next
  case (7 k c)
  then show ?case using ledger_okD(7) [OF ok assms(3)] s by metis
next
  case (8 k q)
  then show ?case using ledger_okD(8) [OF ok assms(4)] s by metis
qed (use m ledger_okD [OF ok] s in \<open>simp_all add: shrinks_def\<close>)

lemma poll_shrinks:
  assumes "request_manager_ok m"
  shows "shrinks m (snd (poll now m))"
  unfolding shrinks_def
proof (intro conjI allI impI)
  show "request_manager_ok (snd (poll now m))" by (rule poll_ok [OF assms])
  fix k e' assume "map_of (rm_pending (snd (poll now m))) k = Some e'"
  then obtain e where "map_of (rm_pending m) k = Some e" "entry_next (rm_timeout m) now e = Some e'"
    unfolding poll_lookup [OF rm_okD(4) [OF assms]] by (auto simp del: map_of_eq_Some_iff split: option.splits)
  then show "\<exists>e. map_of (rm_pending m) k = Some e \<and> pr_packet e' = pr_packet e"
    using entry_next_packet by blast
next
  fix k assume k: "map_of (rm_completed (snd (poll now m))) k \<noteq> None"
  show "map_of (rm_completed m) k \<noteq> None \<or> map_of (rm_pending m) k \<noteq> None"
  proof (cases "\<exists>p. (k, p) \<in> set (rm_pending m)")
    case True
    then show ?thesis using weak_map_of_SomeI by fastforce
  next
    case False
    then have "map_of (rm_completed (expire_completed now m)) k \<noteq> None"
      using k unfolding poll_completed_lookup by (simp del: map_of_eq_Some_iff expire_completed_fields)
    then show ?thesis using rm_okD(5) [OF assms]
      by (simp add: map_of_hexpire split: option.splits if_splits del: map_of_eq_Some_iff)
  qed
qed simp

lemma cancel_shrinks: "request_manager_ok m \<Longrightarrow> shrinks m (snd (cancel session_id rid m))"
  using cancel_ok [of m session_id rid]
  by (auto simp: shrinks_def cancel_def Let_def simp del: map_of_eq_Some_iff split: if_splits)

lemma expire_shrinks: "request_manager_ok m \<Longrightarrow> shrinks m (expire_completed now m)"
  using expire_completed_ok [of m now] rm_okD(5) [of m]
  by (auto simp: shrinks_def map_of_hexpire simp del: map_of_eq_Some_iff split: option.splits if_splits)

lemma accept_shrinks:
  assumes "request_manager_ok m"
  shows "shrinks m (snd (accept_response response now m))"
proof -
  note e = expire_shrinks [OF assms, of now]
  let ?m1 = "expire_completed now m"
  have "shrinks m (remember_completed k now (?m1\<lparr>rm_pending := herase k (rm_pending ?m1)\<rparr>))"
    if ok: "request_manager_ok (remember_completed k now (?m1\<lparr>rm_pending := herase k (rm_pending ?m1)\<rparr>))"
      and p: "map_of (rm_pending ?m1) k = Some p" for k p
    using e ok p unfolding shrinks_def
    by (simp add: remember_completed_def del: map_of_eq_Some_iff expire_completed_fields(6)
        split: if_splits)
  then show ?thesis
    using accept_response_ok [OF assms, of response now] e
    by (auto simp: accept_response_def Let_def simp del: expire_completed_fields map_of_eq_Some_iff
        split: option.splits if_splits)
qed

lemma accept_matched:
  assumes "accept_response response now m = ((Matched, Some q), m')"
  shows "q = response" "ph_message_type (header response) = message_type_code Response"
    "\<exists>e. map_of (rm_pending m) (packet_key response) = Some e \<and>
       ph_command (header (pr_packet e)) = ph_command (header response) \<and> object_matches (pr_packet e) response"
  using assms
  by (auto simp: accept_response_def Let_def packet_key_def simp del: map_of_eq_Some_iff
      split: option.splits if_splits)

lemma sub_at_unique: "sub_at sub s k i p n \<Longrightarrow> sub_at sub s k i' p' n' \<Longrightarrow> i' = i \<and> p' = p \<and> n' = n"
  by (auto simp: sub_at_def)

lemma sub_at_packet:
  assumes "subs_ok sub s reqs" "sub_at sub s k i p n"
  shows "packet_key p = k" "ph_session_id (header p) = s"
proof -
  obtain rid where r: "k = request_key s rid" "sub rid = Some (i, p, n)" using assms(2) by (auto simp: sub_at_def)
  then have "p = submitted_as s (reqs ! i) rid" using assms(1) unfolding subs_ok_def by blast
  then show "packet_key p = k" "ph_session_id (header p) = s"
    using r(1) by (simp_all add: packet_key_def submitted_as_def)
qed

lemma response_ledger:
  assumes ok: "ledger_ok sub reqs heard d" and h: "(can_id, packet) \<in> set heard"
  shows "ledger_ok sub reqs heard (on_response can_id packet now d)"
proof -
  let ?k = "packet_key packet" and ?n = "can_id - kNodeResponseBaseCanId"
  obtain r m' where a: "accept_response packet now (dm_requests d) = (r, m')" by fastforce
  have m: "shrinks (dm_requests d) m'" using accept_shrinks [OF ledger_okD(1) [OF ok], of packet now] a by simp
  have keep: "ledger_ok sub reqs heard (d\<lparr>dm_requests := m'\<rparr>)"
    by (rule ledger_ok_shrinks [OF ok]) (use m in simp_all)
  have "ledger_ok sub reqs heard (d\<lparr>dm_requests := m', dm_responses := hput ?k q (dm_responses d)\<rparr>)"
    if t: "map_of (dm_request_can_ids d) ?k = Some (kNodeRequestBaseCanId + ?n)" and r: "r = (Matched, Some q)" for q
  proof -
    note acc = accept_matched [OF a [unfolded r]]
    obtain e where e: "map_of (rm_pending (dm_requests d)) ?k = Some e"
      "ph_command (header (pr_packet e)) = ph_command (header packet)" "object_matches (pr_packet e) packet"
      using acc(3) by blast
    obtain i n where s: "sub_at sub (dm_session_id d) ?k i (pr_packet e) n"
      using ledger_okD(5) [OF ok e(1)] by blast
    obtain i' p' n' where s': "sub_at sub (dm_session_id d) ?k i' p' n'"
      "kNodeRequestBaseCanId + ?n = kNodeRequestBaseCanId + n'"
      using ledger_okD(7) [OF ok t] by blast
    then have "n = ?n" using sub_at_unique [OF s s'(1)] by simp
    moreover have "ph_session_id (header packet) = ph_session_id (header (pr_packet e))"
      "ph_request_id (header packet) = ph_request_id (header (pr_packet e))"
      using sub_at_packet(1) [OF ledger_okD(2) [OF ok] s] by (simp_all add: packet_key_def)
    ultimately have "answers_from heard (pr_packet e) n packet"
      using e acc(2) h by (simp add: answers_from_def)
    then have new: "\<exists>i p n. sub_at sub (dm_session_id d) ?k i p n \<and> answers_from heard p n packet" using s by blast
    show ?thesis
    proof (rule ledger_okI, goal_cases)
      case (8 k q')
      then show ?case using new acc(1) ledger_okD(8) [OF ok, of k q'] by (auto split: if_splits simp del: map_of_eq_Some_iff)
    qed (use ledger_okD [OF keep] in \<open>simp_all del: map_of_eq_Some_iff\<close>)
  qed
  then show ?thesis
    using ok keep a
    by (auto simp: on_response_def Let_def packet_key_def [symmetric] simp del: map_of_eq_Some_iff
        split: response_status.splits option.splits prod.splits)
qed

lemma timer_events_ledger:
  "ledger_ok sub reqs heard d \<Longrightarrow> ledger_ok sub reqs heard (snd (timer_events es d))"
proof (induction es arbitrary: d)
  case (Cons e es)
  have "ledger_ok sub reqs heard (d\<lparr>dm_timed_out := t, dm_request_can_ids := herase k (dm_request_can_ids d)\<rparr>)" for k t
    by (rule ledger_ok_shrinks [OF Cons.prems])
      (use ledger_okD(1) [OF Cons.prems] in \<open>auto simp: shrinks_def simp del: map_of_eq_Some_iff split: if_splits\<close>)
  then show ?case using Cons
    by (auto simp: Let_def split_beta split: request_event_type.split option.split)
qed simp

lemma timers_ledger:
  assumes ok: "ledger_ok sub reqs heard d"
  shows "ledger_ok sub reqs heard (snd (process_request_timers polled now d))"
proof -
  define d1 where "d1 = d\<lparr>dm_requests := snd (poll polled (dm_requests d))\<rparr>"
  have one: "ledger_ok sub reqs heard d1"
    by (rule ledger_ok_shrinks [OF ok])
      (use poll_shrinks [OF ledger_okD(1) [OF ok]] in \<open>simp_all add: d1_def\<close>)
  have "ledger (snd (process_request_timers polled now d)) =
      ledger (snd (timer_events (fst (poll polled (dm_requests d))) d1))"
    by (simp add: process_request_timers_def split_beta Let_def ledger_def d1_def del: poll_fields)
  then show ?thesis using ledger_ok_kept timer_events_ledger [OF one] by blast
qed

subsection \<open>Submitting\<close>

text \<open>As long as the counter has not gone round, the next identifier is free.\<close>

lemma submit_next:
  assumes m: "request_manager_ok m" and t: "ph_message_type (header request) = message_type_code Request"
    and free: "map_of (rm_pending m) (request_key (ph_session_id (header request)) (rm_next_request_id m)) = None"
      "map_of (rm_completed m) (request_key (ph_session_id (header request)) (rm_next_request_id m)) = None"
  defines "p \<equiv> request\<lparr>header := (header request)\<lparr>ph_request_id := rm_next_request_id m\<rparr>\<rparr>"
  shows "submit request now m = (Inr (rm_next_request_id m, p), (expire_completed now m)
    \<lparr>rm_next_request_id := next_id (rm_next_request_id m),
     rm_pending := hemplace (packet_key p) \<lparr>pr_packet = p, pr_deadline = now + rm_timeout m,
       pr_retries_remaining = rm_maximum_retries m\<rparr> (rm_pending m)\<rparr>)"
proof -
  let ?m1 = "expire_completed now m" and ?s = "ph_session_id (header request)"
  have free1: "map_of (rm_completed ?m1) (request_key ?s (rm_next_request_id m)) = None"
    using free(2) rm_okD(5) [OF m] by (simp add: map_of_hexpire del: map_of_eq_Some_iff)
  have max: "maximum_attempts = Suc 4294967294" by (simp add: maximum_attempts_def)
  have "allocate_loop maximum_attempts used c = (Inr c, next_id c)" if "\<not> used c" for used c
    unfolding max allocate_loop.simps Let_def using that by simp
  then have "allocate_loop maximum_attempts (\<lambda>candidate. let k = request_key ?s candidate in
       map_of (rm_pending ?m1) k \<noteq> None \<or> map_of (rm_completed ?m1) k \<noteq> None) (rm_next_request_id ?m1) =
      (Inr (rm_next_request_id m), next_id (rm_next_request_id m))"
    using free(1) free1 by (simp add: Let_def del: expire_completed_fields(6))
  then show ?thesis
    using t by (simp add: submit_def allocate_request_id_def Let_def p_def packet_key_def
        del: expire_completed_fields(6))
qed

lemma next_id_up:
  assumes "unat (c :: u32) < 4294967295"
  shows "next_id c = c + 1" "unat (c + 1) = unat c + 1" "rid < c + 1 \<longleftrightarrow> rid \<le> c"
proof -
  show u: "unat (c + 1) = unat c + 1"
    using assms by (simp add: unat_word_ariths)
  then have "c + 1 \<noteq> 0" by (metis Suc_eq_plus1 nat.distinct(1) unat_0)
  then show "next_id c = c + 1" by (simp add: next_id_def)
  show "rid < c + 1 \<longleftrightarrow> rid \<le> c" by (simp add: word_less_nat_alt word_le_nat_alt u less_Suc_eq_le)
qed

lemma submit_ledger:
  assumes ok: "ledger_ok sub reqs heard d" and k: "iq_kind r = RemotePacket"
    and t: "ph_message_type (header (iq_packet r)) = message_type_code Request"
    and few: "length reqs + 1 < 4294967295"
    and ready: "node_ready (iq_node_id r) d"
  shows "\<exists>sub' p d' rid. submit_request r now d = (CP_Submitted p (iq_node_id r), d') \<and>
    (\<forall>rid x. sub rid = Some x \<longrightarrow> sub' rid = Some x) \<and> ledger_ok sub' (reqs @ [r]) heard d' \<and>
    sub' rid = Some (length reqs, p, iq_node_id r)"
proof -
  define m where "m = dm_requests d"
  define c where "c = rm_next_request_id m"
  define s where "s = dm_session_id d"
  define p where "p = submitted_as s r c"
  define e where "e = \<lparr>pr_packet = p, pr_deadline = now + rm_timeout m, pr_retries_remaining = rm_maximum_retries m\<rparr>"
  define m' where "m' = (expire_completed now m)\<lparr>rm_next_request_id := next_id c,
     rm_pending := hemplace (packet_key p) e (rm_pending m)\<rparr>"
  define d' where "d' = d\<lparr>dm_requests := m', dm_request_can_ids :=
     hput (packet_key p) (kNodeRequestBaseCanId + iq_node_id r) (dm_request_can_ids d)\<rparr>"
  define sub' where "sub' = sub(c \<mapsto> (length reqs, p, iq_node_id r))"
  note D = ledger_okD [OF ok, folded m_def s_def]
  have small: "unat c < 4294967295" using D(4) few by (simp add: c_def)
  note up = next_id_up [OF small]
  have c: "c \<noteq> 0" using rm_okD(3) [OF D(1)] by (simp add: c_def)
  have new: "sub c = None" using D(3) [of c] c by (cases "sub c") (auto simp: c_def)
  have key: "packet_key p = request_key s c" by (simp add: p_def packet_key_def submitted_as_def)
  have unknown: "\<not> sub_at sub s (request_key s c) i q n" for i q n using new by (simp add: sub_at_def)
  have free: "map_of (rm_pending m) (request_key s c) = None" "map_of (rm_completed m) (request_key s c) = None"
    using D(5,6) [of "request_key s c"] unknown by (meson option.exhaust)+
  have sub: "submit ((iq_packet r)\<lparr>header := (header (iq_packet r))\<lparr>ph_session_id := s\<rparr>\<rparr>) now m = (Inr (c, p), m')"
    using submit_next [OF D(1), of "(iq_packet r)\<lparr>header := (header (iq_packet r))\<lparr>ph_session_id := s\<rparr>\<rparr>" now]
      t free
    by (simp add: c_def [symmetric] m'_def e_def p_def submitted_as_def)
  have m': "request_manager_ok m'" using submit_ok [OF D(1)] sub by (metis snd_conv)
  have sess: "ph_session_id (header p) = s" by (simp add: p_def submitted_as_def)
  have step: "submit_request r now d = (CP_Submitted p (iq_node_id r), d')"
    using t ready sub by (simp add: submit_request_def Let_def s_def [symmetric] m_def [symmetric] d'_def key sess)
  have keep: "sub_at sub s k i q n \<Longrightarrow> sub_at sub' s k i q n" for k i q n
    using new by (auto simp: sub_at_def sub'_def)
  have mine: "sub_at sub' s (packet_key p) (length reqs) p (iq_node_id r)"
    by (auto simp: sub_at_def sub'_def key)
  have subs: "subs_ok sub' s (reqs @ [r])"
    unfolding subs_ok_def
  proof (intro conjI allI impI)
    fix rid i q n assume "sub' rid = Some (i, q, n)"
    then show "i < length (reqs @ [r])" "iq_kind ((reqs @ [r]) ! i) = RemotePacket"
      "n = iq_node_id ((reqs @ [r]) ! i)" "q = submitted_as s ((reqs @ [r]) ! i) rid"
      using D(2) k unfolding subs_ok_def
      by (auto simp: sub'_def p_def nth_append less_Suc_eq split: if_splits; metis)+
  next
    fix rid rid' i q q' n n' assume "sub' rid = Some (i, q, n)" "sub' rid' = Some (i, q', n')"
    then show "rid = rid'"
      using D(2) unfolding subs_ok_def by (auto simp: sub'_def split: if_splits; metis less_irrefl)
  qed
  have "ledger_ok sub' (reqs @ [r]) heard d'"
  proof (rule ledger_okI, goal_cases)
    case (3 rid)
    show ?case using D(3) [of rid] up c by (auto simp: sub'_def d'_def m'_def c_def [symmetric] order_le_less)
  next
    case (5 k e')
    then show ?case using D(5) [of k e'] keep mine free(1)
      by (auto simp: d'_def m'_def map_of_hemplace key s_def [symmetric] e_def simp del: map_of_eq_Some_iff split: if_splits)
        blast+
  next
    case (6 k)
    then have "map_of (rm_completed m) k \<noteq> None"
      using rm_okD(5) [OF D(1)] by (auto simp: d'_def m'_def map_of_hexpire simp del: map_of_eq_Some_iff split: option.splits if_splits)
    then show ?case using D(6) [of k] keep by (simp add: d'_def s_def [symmetric]) blast
  next
    case (7 k x)
    then show ?case using D(7) [of k x] keep mine
      by (auto simp: d'_def s_def [symmetric] simp del: map_of_eq_Some_iff split: if_splits) blast+
  next
    case (8 k q)
    then show ?case using D(8) [of k q] keep
      by (simp add: d'_def s_def [symmetric] del: map_of_eq_Some_iff) blast
  qed (use m' subs D(4) up small in \<open>simp_all add: d'_def m'_def s_def [symmetric] c_def [symmetric]\<close>)
  moreover have "\<forall>rid x. sub rid = Some x \<longrightarrow> sub' rid = Some x" using new by (auto simp: sub'_def)
  moreover have "sub' c = Some (length reqs, p, iq_node_id r)" by (simp add: sub'_def)
  ultimately show ?thesis using step by blast
qed

subsection \<open>A client\<close>

text \<open>What is known of the thread of client \<open>i\<close>.\<close>

definition phase_ok ::
  "submissions \<Rightarrow> ipc_request list \<Rightarrow> (u32 \<times> packet) list \<Rightarrow> nat \<Rightarrow> client_phase \<Rightarrow> bool" where
  "phase_ok sub reqs heard i phase \<longleftrightarrow>
     (case phase of
        CP_Submitted p n \<Rightarrow> \<exists>rid. sub rid = Some (i, p, n)
      | CP_Refused p \<Rightarrow> \<exists>rid n. sub rid = Some (i, p, n)
      | CP_Awaiting p n \<Rightarrow> \<exists>rid. sub rid = Some (i, p, n)
      | CP_AwaitingEvent n t \<Rightarrow> iq_kind (reqs ! i) \<noteq> RemotePacket
      | CP_AwaitingStream n ob k t \<Rightarrow> iq_kind (reqs ! i) \<noteq> RemotePacket
      | CP_Done (ReplyOk body) \<Rightarrow> iq_kind (reqs ! i) = RemotePacket \<longrightarrow>
          (\<exists>rid p n q. sub rid = Some (i, p, n) \<and> encode q = Inr body \<and> answers_from heard p n q)
      | CP_Done _ \<Rightarrow> True)"

text \<open>A request that has been submitted is pending, answered or timed out until its client takes note.\<close>

definition tracked :: "daemon \<Rightarrow> u64 \<Rightarrow> bool" where
  "tracked d k \<longleftrightarrow> map_of (rm_pending (dm_requests d)) k \<noteq> None \<or>
     map_of (dm_responses d) k \<noteq> None \<or> map_of (dm_timed_out d) k \<noteq> None"

definition phase_live :: "daemon \<Rightarrow> client_phase \<Rightarrow> bool" where
  "phase_live d phase \<longleftrightarrow>
     (case phase of CP_Submitted p n \<Rightarrow> tracked d (packet_key p) | CP_Awaiting p n \<Rightarrow> tracked d (packet_key p)
      | _ \<Rightarrow> True)"

lemma sub_key:
  assumes "ledger_ok sub reqs heard d" "sub rid = Some (i, p, n)"
  shows "packet_key p = request_key (dm_session_id d) rid" "sub_at sub (dm_session_id d) (packet_key p) i p n"
proof -
  have s: "sub_at sub (dm_session_id d) (request_key (dm_session_id d) rid) i p n"
    using assms(2) by (auto simp: sub_at_def)
  show k: "packet_key p = request_key (dm_session_id d) rid"
    by (rule sub_at_packet(1) [OF ledger_okD(2) [OF assms(1)] s])
  show "sub_at sub (dm_session_id d) (packet_key p) i p n" using s k by simp
qed

lemma tracked_ledger: "ledger d' = ledger d \<Longrightarrow> tracked d' k = tracked d k"
  by (simp add: ledger_def tracked_def)

lemma wait_event_phase:
  "iq_kind (reqs ! i) \<noteq> RemotePacket \<Longrightarrow> phase_ok sub reqs heard i (fst (wait_event n t now d))"
  by (auto simp: wait_event_def ok_reply_def phase_ok_def split: list.split sum.split)

lemma wait_stream_phase:
  "iq_kind (reqs ! i) \<noteq> RemotePacket \<Longrightarrow> phase_ok sub reqs heard i (fst (wait_stream n ob k t now d))"
  by (auto simp: wait_stream_def Let_def ok_reply_def phase_ok_def split: sum.split)

lemma phase_live_done:
  "phase_live d (fst (wait_event n t now d'))" "phase_live d (fst (wait_stream n ob k t now d'))"
  by (auto simp: wait_event_def wait_stream_def Let_def ok_reply_def phase_live_def split: list.split)

text \<open>A step of client \<open>i\<close>: it keeps the ledger, and what it takes away is its own.\<close>

definition client_effect ::
  "submissions \<Rightarrow> ipc_request list \<Rightarrow> (u32 \<times> packet) list \<Rightarrow> nat \<Rightarrow> daemon \<Rightarrow> client_phase \<times> daemon \<Rightarrow> bool" where
  "client_effect sub reqs heard i d r \<longleftrightarrow> ledger_ok sub reqs heard (snd r) \<and>
     phase_ok sub reqs heard i (fst r) \<and> phase_live (snd r) (fst r) \<and> dm_session_id (snd r) = dm_session_id d \<and>
     (\<forall>rid j p n. j \<noteq> i \<longrightarrow> sub rid = Some (j, p, n) \<longrightarrow> tracked d (packet_key p) \<longrightarrow> tracked (snd r) (packet_key p))"

lemma effect_kept:
  assumes "ledger_ok sub reqs heard d" "ledger (snd r) = ledger d"
    and "phase_ok sub reqs heard i (fst r)" "phase_live d (fst r)"
  shows "client_effect sub reqs heard i d r"
proof -
  have "phase_live (snd r) (fst r)" using assms(4) tracked_ledger [OF assms(2)]
    by (simp add: phase_live_def split: client_phase.splits)
  moreover have "dm_session_id (snd r) = dm_session_id d" using assms(2) by (simp add: ledger_def)
  ultimately show ?thesis
    using assms(1,3) ledger_ok_kept [OF assms(2)] tracked_ledger [OF assms(2)] by (simp add: client_effect_def)
qed

lemma other_key:
  assumes "ledger_ok sub reqs heard d" "sub rid = Some (i, p, n)" "sub rid' = Some (j, p', n')" "j \<noteq> i"
  shows "packet_key p' \<noteq> packet_key p"
  using sub_key(1) [OF assms(1,2)] sub_key(1) [OF assms(1,3)] assms(2-4) by auto

lemma client_send_effect:
  assumes ok: "ledger_ok sub reqs heard d" and mine: "sub rid = Some (i, p, n)" "tracked d (packet_key p)"
  shows "client_effect sub reqs heard i d (client_send rnd p n now d)"
proof -
  define policy where "policy = (if classify_traffic p = TC_Safety then AP_Guaranteed else AP_Enforce)"
  obtain r d1 where s: "daemon_send rnd p (kNodeRequestBaseCanId + n) policy now d = (r, d1)" by fastforce
  have l: "ledger d1 = ledger d" using daemon_send_ledger [of rnd p "kNodeRequestBaseCanId + n" policy now d] s by simp
  have send: "client_send rnd p n now d = (case r of Inl e \<Rightarrow> (CP_Done (ReplyError e), d1)
      | Inr True \<Rightarrow> (CP_Awaiting p n, d1) | Inr False \<Rightarrow> (CP_Refused p, d1))"
    using s by (simp add: client_send_def policy_def split: sum.split bool.split)
  show ?thesis unfolding send using mine l
    by (intro effect_kept [OF ok]) (auto simp: phase_ok_def phase_live_def split: sum.split bool.split)
qed

lemma client_refused_effect:
  assumes ok: "ledger_ok sub reqs heard d" and mine: "sub rid = Some (i, p, n)"
  shows "client_effect sub reqs heard i d (client_refused p d)"
proof -
  let ?d = "snd (client_refused p d)"
  have "ledger_ok sub reqs heard ?d"
    by (rule ledger_ok_shrinks [OF ok])
      (use cancel_shrinks [OF ledger_okD(1) [OF ok]] in \<open>auto simp: client_refused_def simp del: map_of_eq_Some_iff split: if_splits\<close>)
  moreover have "tracked ?d k \<longleftrightarrow> tracked d k" if "k \<noteq> packet_key p" for k
    using that by (simp add: tracked_def client_refused_def cancel_def Let_def packet_key_def [symmetric] del: map_of_eq_Some_iff)
  ultimately show ?thesis using other_key [OF ok mine]
    by (auto simp: client_refused_def client_effect_def phase_ok_def phase_live_def)
qed

lemma wait_response_effect:
  assumes ok: "ledger_ok sub reqs heard d" and mine: "sub rid = Some (i, p, n)" "tracked d (packet_key p)"
  shows "client_effect sub reqs heard i d (wait_response p n d)"
proof -
  let ?k = "packet_key p"
  have finish: "client_effect sub reqs heard i d (CP_Done reply, d')"
    if l: "ledger_ok sub reqs heard d'" and t: "\<And>k. k \<noteq> ?k \<Longrightarrow> tracked d' k = tracked d k"
      and s: "dm_session_id d' = dm_session_id d" and p: "phase_ok sub reqs heard i (CP_Done reply)" for reply d'
    using l t s p other_key [OF ok mine(1)] by (simp add: client_effect_def phase_live_def)
  show ?thesis
  proof (cases "map_of (dm_responses d) ?k")
    case None
    have "ledger_ok sub reqs heard (d\<lparr>dm_timed_out := t\<rparr>)" for t
      by (rule ledger_ok_shrinks [OF ok]) (use ledger_okD(1) [OF ok] in \<open>auto simp: shrinks_def\<close>)
    then have "client_effect sub reqs heard i d (CP_Done ReplyTimedOut, d\<lparr>dm_timed_out := herase ?k (dm_timed_out d)\<rparr>)"
      by (rule finish) (auto simp: tracked_def phase_ok_def simp del: map_of_eq_Some_iff)
    moreover have "client_effect sub reqs heard i d (CP_Awaiting p n, d)"
      using mine by (intro effect_kept [OF ok]) (auto simp: phase_ok_def phase_live_def)
    ultimately show ?thesis using None by (simp add: wait_response_def Let_def)
  next
    case (Some q)
    then obtain i' p' n' where "sub_at sub (dm_session_id d) ?k i' p' n'" "answers_from heard p' n' q"
      using ledger_okD(8) [OF ok] by blast
    then have a: "answers_from heard p n q" using sub_at_unique sub_key(2) [OF ok mine(1)] by blast
    define d2 where "d2 = d\<lparr>dm_responses := herase ?k (dm_responses d), dm_request_can_ids := herase ?k (dm_request_can_ids d)\<rparr>"
    have l: "ledger_ok sub reqs heard d2"
      by (rule ledger_ok_shrinks [OF ok])
        (use ledger_okD(1) [OF ok] in \<open>auto simp: d2_def shrinks_def simp del: map_of_eq_Some_iff split: if_splits\<close>)
    have "client_effect sub reqs heard i d (CP_Done (ReplyOk bs), d2)" if "encode q = Inr bs" for bs
      by (rule finish [OF l]) (use a mine that in \<open>auto simp: d2_def tracked_def phase_ok_def simp del: map_of_eq_Some_iff\<close>)
    moreover have "client_effect sub reqs heard i d (CP_Done (ReplyError e), d)" for e
      by (rule finish [OF ok]) (simp_all add: phase_ok_def)
    ultimately show ?thesis using Some by (simp add: wait_response_def Let_def d2_def split: sum.split)
  qed
qed

lemma client_step_effect:
  assumes ok: "ledger_ok sub reqs heard d" and p: "phase_ok sub reqs heard i phase" "phase_live d phase"
  shows "client_effect sub reqs heard i d (client_step rnd phase now d)"
proof (cases phase)
  case (CP_Submitted q n)
  then show ?thesis using p client_send_effect [OF ok] by (auto simp: phase_ok_def phase_live_def)
next
  case (CP_Refused q)
  then show ?thesis using p client_refused_effect [OF ok] by (auto simp: phase_ok_def)
next
  case (CP_Awaiting q n)
  then show ?thesis using p wait_response_effect [OF ok] by (auto simp: phase_ok_def phase_live_def)
next
  case (CP_AwaitingEvent n t)
  then show ?thesis using p wait_event_phase wait_event_ledger phase_live_done(1)
    by (auto simp: phase_ok_def intro!: effect_kept [OF ok])
next
  case (CP_AwaitingStream n ob k t)
  then show ?thesis using p wait_stream_phase wait_stream_ledger phase_live_done(2)
    by (auto simp: phase_ok_def intro!: effect_kept [OF ok])
next
  case (CP_Done reply)
  then show ?thesis using p by (auto intro!: effect_kept [OF ok])
qed


text \<open>A new client: what it asks is known of it from then on, and of a request the daemon took, its identifier.\<close>

definition start_effect ::
  "submissions \<Rightarrow> submissions \<Rightarrow> ipc_request list \<Rightarrow> (u32 \<times> packet) list \<Rightarrow> daemon \<Rightarrow> client_phase \<times> daemon \<Rightarrow> bool" where
  "start_effect sub sub' reqs heard d r \<longleftrightarrow> (\<forall>rid x. sub rid = Some x \<longrightarrow> sub' rid = Some x) \<and>
     ledger_ok sub' reqs heard (snd r) \<and> phase_ok sub' reqs heard (length reqs - 1) (fst r) \<and>
     phase_live (snd r) (fst r) \<and> (\<forall>k. tracked d k \<longrightarrow> tracked (snd r) k)"

lemma start_kept:
  assumes "ledger_ok sub reqs heard d" "ledger (snd r) = ledger d"
    and "phase_ok sub (reqs @ [q]) heard (length reqs) (fst r)" "phase_live (snd r) (fst r)"
  shows "start_effect sub sub (reqs @ [q]) heard d r"
  using assms tracked_ledger [OF assms(2)] ledger_ok_kept [OF assms(2) ledger_ok_mono [OF assms(1), of "[q]" "[]"]]
  by (simp add: start_effect_def)

lemma submit_pending:
  "map_of (rm_pending m) k \<noteq> None \<Longrightarrow> map_of (rm_pending (snd (submit p now m))) k \<noteq> None"
  "submit p now m = (Inr (rid, q), m') \<Longrightarrow> map_of (rm_pending m') (packet_key q) \<noteq> None"
  by (auto simp: submit_def allocate_request_id_def packet_key_def Let_def split_beta map_of_hemplace
        simp del: map_of_eq_Some_iff split: sum.splits if_splits)

lemma submit_request_cases:
  obtains e m' where "submit_request r now d = (CP_Done e, d\<lparr>dm_requests := m'\<rparr>)"
      "\<And>k. map_of (rm_pending (dm_requests d)) k \<noteq> None \<Longrightarrow> map_of (rm_pending m') k \<noteq> None"
  | q m' t where "submit_request r now d = (CP_Submitted q (iq_node_id r), d\<lparr>dm_requests := m', dm_request_can_ids := t\<rparr>)"
      "\<And>k. map_of (rm_pending (dm_requests d)) k \<noteq> None \<Longrightarrow> map_of (rm_pending m') k \<noteq> None"
      "map_of (rm_pending m') (packet_key q) \<noteq> None"
proof -
  let ?p = "(iq_packet r)\<lparr>header := (header (iq_packet r))\<lparr>ph_session_id := dm_session_id d\<rparr>\<rparr>"
  obtain x m' where s: "submit ?p now (dm_requests d) = (x, m')" by fastforce
  have keep: "map_of (rm_pending (dm_requests d)) k \<noteq> None \<Longrightarrow> map_of (rm_pending m') k \<noteq> None" for k
    using submit_pending(1) [of "dm_requests d" k ?p now] s by (simp del: map_of_eq_Some_iff)
  show ?thesis
  proof (cases "ph_message_type (header (iq_packet r)) = message_type_code Request \<and> node_ready (iq_node_id r) d")
    case False
    then have "\<exists>e. submit_request r now d = (CP_Done e, d)" by (simp add: submit_request_def Let_def)
    then obtain e where "submit_request r now d = (CP_Done e, d)" by blast
    then show ?thesis using that(1) [of e "dm_requests d"] by simp
  next
    case True
    show ?thesis
    proof (cases x)
      case (Inl e)
      then show ?thesis using True s that(1) keep by (simp add: submit_request_def Let_def del: map_of_eq_Some_iff)
    next
      case (Inr y)
      then obtain rid q where y: "x = Inr (rid, q)" by fastforce
      show ?thesis
        by (rule that(2) [OF _ keep submit_pending(2) [OF s [unfolded y]]])
          (use True s y in \<open>simp_all add: submit_request_def Let_def\<close>)
    qed
  qed
qed

lemma submit_tracked: "tracked d k \<Longrightarrow> tracked (snd (submit_request r now d)) k"
  by (rule submit_request_cases [of r now d]) (auto simp: tracked_def simp del: map_of_eq_Some_iff)

lemma client_start_effect:
  assumes ok: "ledger_ok sub reqs heard d" and few: "length reqs + 1 < 4294967295"
  shows "\<exists>sub'. start_effect sub sub' (reqs @ [r]) heard d (client_start rnd r now d)"
proof (cases "iq_kind r = RemotePacket")
  case False
  have "phase_ok sub (reqs @ [r]) heard (length reqs) (fst (client_start rnd r now d))"
    using False wait_event_phase [of "reqs @ [r]" "length reqs"] wait_stream_phase [of "reqs @ [r]" "length reqs"]
    by (auto simp: client_start_def list_nodes_def traffic_status_def ok_reply_def phase_ok_def
        split: ipc_request_kind.split sum.split prod.split)
  moreover have "ledger (snd (client_start rnd r now d)) = ledger d"
    using False wait_event_ledger wait_stream_ledger traffic_status_ledger
    by (auto simp: client_start_def split: ipc_request_kind.split)
  moreover have "phase_live (snd (client_start rnd r now d)) (fst (client_start rnd r now d))"
    using False phase_live_done
    by (auto simp: client_start_def list_nodes_def traffic_status_def ok_reply_def phase_live_def
        split: ipc_request_kind.split prod.split)
  ultimately show ?thesis using start_kept [OF ok] by blast
next
  case True
  then have start: "client_start rnd r now d = submit_request r now d" by (simp add: client_start_def)
  show ?thesis
  proof (cases "ph_message_type (header (iq_packet r)) = message_type_code Request \<and> node_ready (iq_node_id r) d")
    case False
    then have "start_effect sub sub (reqs @ [r]) heard d (submit_request r now d)"
      by (intro start_kept [OF ok]) (auto simp: submit_request_def Let_def phase_ok_def phase_live_def)
    then show ?thesis using start by metis
  next
    case ready: True
    obtain sub' p d' rid where s: "submit_request r now d = (CP_Submitted p (iq_node_id r), d')"
      "\<forall>rid x. sub rid = Some x \<longrightarrow> sub' rid = Some x" "ledger_ok sub' (reqs @ [r]) heard d'"
      "sub' rid = Some (length reqs, p, iq_node_id r)"
      using submit_ledger [OF ok True _ few] ready by blast
    have "tracked d' (packet_key p)"
      by (rule submit_request_cases [of r now d])
        (use s(1) in \<open>auto simp: tracked_def simp del: map_of_eq_Some_iff\<close>)
    then have "start_effect sub sub' (reqs @ [r]) heard d (submit_request r now d)"
      using s submit_tracked [of d _ r now] by (auto simp: start_effect_def phase_ok_def phase_live_def)
    then show ?thesis using start by metis
  qed
qed

subsection \<open>The worker\<close>

lemma response_tracked: "tracked d k \<Longrightarrow> tracked (on_response can_id packet now d) k"
proof -
  obtain r m' where a: "accept_response packet now (dm_requests d) = (r, m')" by fastforce
  have "map_of (rm_pending (dm_requests d)) k \<noteq> None \<Longrightarrow> map_of (rm_pending m') k \<noteq> None \<or>
      (\<exists>q. r = (Matched, Some q)) \<and> k = packet_key packet"
    "(\<exists>q. r = (Matched, Some q)) \<or> fst r \<noteq> Matched"
    using a by (auto simp: accept_response_def remember_completed_def packet_key_def Let_def
        simp del: map_of_eq_Some_iff split: option.splits if_splits)
  then show "tracked d k \<Longrightarrow> tracked (on_response can_id packet now d) k"
    using a by (auto simp: tracked_def on_response_def Let_def packet_key_def [symmetric]
        simp del: map_of_eq_Some_iff split: response_status.splits option.splits prod.splits)
qed

lemma timer_events_requests [simp]: "dm_requests (snd (timer_events es d)) = dm_requests d"
  "dm_responses (snd (timer_events es d)) = dm_responses d"
  by (induction es arbitrary: d) (auto simp: Let_def split_beta split: request_event_type.split option.split)

lemma timer_events_timed_out:
  "map_of (dm_timed_out d) k \<noteq> None \<or>
     (\<exists>e \<in> set es. re_type e = TimedOut \<and> k = request_key (re_session_id e) (re_request_id e)) \<Longrightarrow>
   map_of (dm_timed_out (snd (timer_events es d))) k \<noteq> None"
proof (induction es arbitrary: d)
  case (Cons e es)
  show ?case
  proof (cases "re_type e = TimedOut")
    case True
    let ?k = "request_key (re_session_id e) (re_request_id e)"
    have step: "timer_events (e # es) d = timer_events es
        (d\<lparr>dm_timed_out := hput ?k () (dm_timed_out d), dm_request_can_ids := herase ?k (dm_request_can_ids d)\<rparr>)"
      using True by (cases "re_packet e") (simp_all add: Let_def)
    show ?thesis using Cons.prems unfolding step
      by (intro Cons.IH) (auto simp del: map_of_eq_Some_iff)
  next
    case False
    then have "map_of (dm_timed_out (snd (timer_events es d))) k \<noteq> None"
      using Cons.prems by (intro Cons.IH) (auto simp del: map_of_eq_Some_iff)
    then show ?thesis using False
      by (cases "re_type e") (auto simp: Let_def split_beta simp del: map_of_eq_Some_iff split: option.split)
  qed
qed simp

lemma timers_tracked:
  assumes ok: "ledger_ok sub reqs heard d" and t: "tracked d k"
  shows "tracked (snd (process_request_timers polled now d)) k"
proof -
  let ?m = "dm_requests d"
  define events where "events = concat (map (entry_events polled) (rm_pending ?m))"
  define d1 where "d1 = snd (timer_events events (d\<lparr>dm_requests := snd (poll polled ?m)\<rparr>))"
  have e: "tracked (snd (process_request_timers polled now d)) k = tracked d1 k"
    by (simp add: process_request_timers_def Let_def split_beta tracked_def d1_def events_def)
  show ?thesis
  proof (cases "map_of (rm_pending ?m) k")
    case None
    then have "map_of (dm_responses d1) k \<noteq> None \<or> map_of (dm_timed_out d1) k \<noteq> None"
      using t timer_events_timed_out [of "d\<lparr>dm_requests := snd (poll polled ?m)\<rparr>" k events]
      by (auto simp: tracked_def d1_def simp del: map_of_eq_Some_iff)
    then have "tracked d1 k" unfolding tracked_def by blast
    then show ?thesis using e by blast
  next
    case (Some x)
    show ?thesis
    proof (cases "entry_next (rm_timeout ?m) polled x")
      case None
      obtain i n where s: "sub_at sub (dm_session_id d) k i (pr_packet x) n"
        using ledger_okD(5) [OF ok Some] by blast
      have p: "packet_key (pr_packet x) = k" "ph_session_id (header (pr_packet x)) = dm_session_id d"
        using sub_at_packet [OF ledger_okD(2) [OF ok] s] by auto
      have due: "\<not> polled < pr_deadline x" "\<not> 0 < pr_retries_remaining x"
        using None by (auto simp: entry_next_def split: if_splits)
      define ev where "ev = \<lparr>re_type = TimedOut, re_session_id = ucast (drop_bit 32 k),
         re_request_id = ph_request_id (header (pr_packet x)), re_packet = None\<rparr>"
      have "ev \<in> set (entry_events polled (k, x))" using due by (simp add: entry_events_def ev_def)
      then have "ev \<in> set events"
        using map_of_SomeD [OF Some] by (force simp: events_def)
      moreover have "request_key (re_session_id ev) (re_request_id ev) = k"
        using p by (auto simp: ev_def packet_key_def)
      ultimately have "map_of (dm_timed_out d1) k \<noteq> None"
        unfolding d1_def by (intro timer_events_timed_out) (metis ev_def request_event.select_convs(1))
      then show ?thesis unfolding e by (simp add: tracked_def)
    next
      case (Some y)
      then have "map_of (rm_pending (snd (poll polled ?m))) k = Some y"
        using \<open>map_of (rm_pending ?m) k = Some x\<close> poll_lookup [OF rm_okD(4) [OF ledger_okD(1) [OF ok]], of polled k]
        by (simp del: map_of_eq_Some_iff)
      then show ?thesis unfolding e by (simp add: tracked_def d1_def del: map_of_eq_Some_iff)
    qed
  qed
qed

text \<open>A step of the worker: it keeps the ledger, and no request is lost from sight.\<close>

definition worker_effect where
  "worker_effect sub reqs heard d d' \<longleftrightarrow>
     ledger_ok sub reqs heard d' \<and> (\<forall>k. tracked d k \<longrightarrow> tracked d' k)"

lemma worker_kept:
  assumes "ledger_ok sub reqs heard d" "ledger d' = ledger d"
  shows "worker_effect sub reqs heard d d'"
  unfolding worker_effect_def tracked_ledger [OF assms(2)] using ledger_ok_kept [OF assms(2,1)] by blast

lemma packet_effect:
  assumes ok: "ledger_ok sub reqs heard d" and h: "(can_id, p) \<in> set heard"
  shows "worker_effect sub reqs heard d (snd (handle_packet can_id p now d))"
proof -
  have "worker_effect sub reqs heard d (snd (on_discovery_response can_id p now d))"
    by (rule worker_kept [OF ok discovery_response_ledger])
  moreover have "worker_effect sub reqs heard d (d\<lparr>dm_nodes := nodes\<rparr>)" for nodes
    by (rule worker_kept [OF ok]) (simp add: ledger_def)
  moreover have "worker_effect sub reqs heard d (on_event can_id p d)"
    by (rule worker_kept [OF ok event_ledger])
  moreover have "worker_effect sub reqs heard d (on_response can_id p now d)"
    using response_ledger [OF ok h] response_tracked by (simp add: worker_effect_def)
  ultimately show ?thesis unfolding handle_packet_def by (simp split: prod.split)
qed

lemma message_effect:
  assumes ok: "ledger_ok sub reqs heard d"
  shows "worker_effect sub reqs (heard @ (case fst (hear m t d) of Inr (Some p) \<Rightarrow> [(cm_identifier m, p)] | _ \<Rightarrow> []))
    d (snd (handle_can_message m t now d))"
proof -
  obtain r d1 where h: "hear m t d = (r, d1)" by fastforce
  have l: "ledger d1 = ledger d" using hear_ledger [of m t d] h by simp
  have ok1: "ledger_ok sub reqs (heard @ news) d1" for news
    using ledger_ok_kept [OF l] ledger_ok_mono [OF ok, of "[]" news] by simp
  consider e where "r = Inl e" | "r = Inr None" | p where "r = Inr (Some p)"
    by (metis option.exhaust sum.exhaust)
  then show ?thesis
  proof cases
    case 1
    then show ?thesis using ok1 [of "[]"] tracked_ledger [OF l] h
      by (simp add: handle_can_message_def worker_effect_def)
  next
    case 2
    then show ?thesis using ok1 [of "[]"] tracked_ledger [OF l] h
      by (simp add: handle_can_message_def worker_effect_def)
  next
    case (3 p)
    have s: "snd (handle_can_message m t now d) = snd (handle_packet (cm_identifier m) p now d1)"
      unfolding handle_can_message_def h 3 by (simp split: sum.split option.split prod.split)
    have "worker_effect sub reqs (heard @ [(cm_identifier m, p)]) d1 (snd (handle_packet (cm_identifier m) p now d1))"
      by (rule packet_effect [OF ok1]) simp
    then show ?thesis unfolding s h 3 using tracked_ledger [OF l] by (simp add: worker_effect_def)
  qed
qed

subsection \<open>Every run\<close>

lemma phase_ok_mono:
  assumes p: "phase_ok sub reqs heard i phase" and i: "i < length reqs"
    and s: "\<And>rid x. sub rid = Some x \<Longrightarrow> sub' rid = Some x"
  shows "phase_ok sub' (reqs @ new) (heard @ news) i phase"
proof (cases phase)
  case (CP_Done reply)
  show ?thesis
  proof (cases reply)
    case (ReplyOk body)
    have "iq_kind (reqs ! i) = RemotePacket \<longrightarrow>
        (\<exists>rid p n q. sub rid = Some (i, p, n) \<and> encode q = Inr body \<and> answers_from heard p n q)"
      using p CP_Done ReplyOk by (simp add: phase_ok_def)
    then show ?thesis
      using CP_Done ReplyOk i s answers_from_mono by (simp add: phase_ok_def nth_append) blast
  qed (simp_all add: phase_ok_def CP_Done)
qed (use p i in \<open>simp_all add: phase_ok_def nth_append\<close>, (use s in blast)+)

lemma phase_live_mono:
  assumes p: "phase_ok sub reqs heard i phase" and l: "phase_live d phase"
    and t: "\<And>rid p n. sub rid = Some (i, p, n) \<Longrightarrow> tracked d (packet_key p) \<Longrightarrow> tracked d' (packet_key p)"
  shows "phase_live d' phase"
  using assms by (cases phase) (auto simp: phase_ok_def phase_live_def)

definition sys_inv :: "submissions \<Rightarrow> ipc_request list \<Rightarrow> (u32 \<times> packet) list \<Rightarrow> system \<Rightarrow> bool" where
  "sys_inv sub reqs heard s \<longleftrightarrow> ledger_ok sub reqs heard (sy_daemon s) \<and> length (sy_clients s) = length reqs \<and>
     (\<forall>i < length reqs. phase_ok sub reqs heard i (sy_clients s ! i) \<and> phase_live (sy_daemon s) (sy_clients s ! i))"

lemma inv_worker:
  assumes inv: "sys_inv sub reqs heard s" and w: "worker_effect sub reqs (heard @ news) (sy_daemon s) (sy_daemon s')"
    and c: "sy_clients s' = sy_clients s"
  shows "sys_inv sub reqs (heard @ news) s'"
proof -
  have "phase_ok sub reqs (heard @ news) i (sy_clients s ! i) \<and> phase_live (sy_daemon s') (sy_clients s ! i)"
    if i: "i < length reqs" for i
  proof -
    have p: "phase_ok sub reqs heard i (sy_clients s ! i)" "phase_live (sy_daemon s) (sy_clients s ! i)"
      using inv i by (simp_all add: sys_inv_def)
    show ?thesis
      using phase_ok_mono [OF p(1) i, of sub "[]" news] phase_live_mono [OF p] w by (simp add: worker_effect_def)
  qed
  then show ?thesis using inv w c by (simp add: sys_inv_def worker_effect_def)
qed

lemma worker_result_fields [simp]: "sy_daemon (worker_result next r s) = snd r"
  "sy_clients (worker_result next r s) = sy_clients s"
  by (simp_all add: worker_result_def split: sum.split)

lemma worker_send_fields:
  "ledger (sy_daemon (worker_send rnd now s)) = ledger (sy_daemon s)"
  "sy_clients (worker_send rnd now s) = sy_clients s"
proof -
  have "ledger (sy_daemon (worker_send rnd now s)) = ledger (sy_daemon s) \<and>
      sy_clients (worker_send rnd now s) = sy_clients s"
  proof (cases "sy_outbox s")
    case (Cons out rest)
    then show ?thesis
      using daemon_send_ledger [of rnd "ob_packet out" "ob_can_id out" "ob_policy out" now "sy_daemon s"]
      by (auto simp: worker_send_def split: sum.split prod.split)
  qed (simp add: worker_send_def)
  then show "ledger (sy_daemon (worker_send rnd now s)) = ledger (sy_daemon s)"
    "sy_clients (worker_send rnd now s) = sy_clients s" by blast+
qed

lemma inv_connect:
  assumes inv: "sys_inv sub reqs heard s" and few: "length reqs + 1 < 4294967295"
  shows "\<exists>sub. sys_inv sub (reqs @ [r]) heard (sys_step rnd (SE_Connect r now) s)"
proof -
  let ?d = "sy_daemon s"
  obtain phase d where start: "client_start rnd r now ?d = (phase, d)" by fastforce
  have ok: "ledger_ok sub reqs heard ?d" using inv by (simp add: sys_inv_def)
  obtain sub' where e: "start_effect sub sub' (reqs @ [r]) heard ?d (phase, d)"
    using client_start_effect [OF ok few, of r rnd now] start by metis
  have "phase_ok sub' (reqs @ [r]) heard i ((sy_clients s @ [phase]) ! i) \<and> phase_live d ((sy_clients s @ [phase]) ! i)"
    if i: "i < length (reqs @ [r])" for i
  proof (cases "i < length reqs")
    case True
    have p: "phase_ok sub reqs heard i (sy_clients s ! i)" "phase_live ?d (sy_clients s ! i)"
      using inv True by (simp_all add: sys_inv_def)
    have "phase_ok sub' (reqs @ [r]) (heard @ []) i (sy_clients s ! i)"
      by (rule phase_ok_mono [OF p(1) True]) (use e in \<open>unfold start_effect_def, blast\<close>)
    moreover have "phase_live d (sy_clients s ! i)"
      by (rule phase_live_mono [OF p]) (use e in \<open>simp add: start_effect_def\<close>)
    ultimately show ?thesis using True inv by (simp add: sys_inv_def nth_append)
  next
    case False
    then have "i = length reqs" using i by simp
    then show ?thesis using e inv by (simp add: start_effect_def sys_inv_def nth_append)
  qed
  then show ?thesis using e inv start by (auto simp: sys_inv_def start_effect_def)
qed

lemma inv_proceed:
  assumes inv: "sys_inv sub reqs heard s"
  shows "sys_inv sub reqs heard (sys_step rnd (SE_Proceed i now) s)"
proof (cases "i < length (sy_clients s)")
  case True
  let ?d = "sy_daemon s"
  obtain phase d where step: "client_step rnd (sy_clients s ! i) now ?d = (phase, d)" by fastforce
  have ok: "ledger_ok sub reqs heard ?d" and n: "length (sy_clients s) = length reqs"
    and each: "j < length reqs \<Longrightarrow> phase_ok sub reqs heard j (sy_clients s ! j) \<and> phase_live ?d (sy_clients s ! j)" for j
    using inv by (simp_all add: sys_inv_def)
  have e: "client_effect sub reqs heard i ?d (phase, d)"
    using client_step_effect [OF ok, of i "sy_clients s ! i" rnd now] each [of i] True n step by simp
  have "phase_ok sub reqs heard j ((sy_clients s)[i := phase] ! j) \<and> phase_live d ((sy_clients s)[i := phase] ! j)"
    if j: "j < length reqs" for j
  proof (cases "j = i")
    case False
    then show ?thesis
      using each [OF j] phase_live_mono [of sub reqs heard j "sy_clients s ! j" ?d d] e by (auto simp: client_effect_def)
  qed (use e True in \<open>simp add: client_effect_def\<close>)
  then show ?thesis using e True n step by (simp add: sys_inv_def client_effect_def)
qed (use inv in simp)

lemma inv_step:
  assumes inv: "sys_inv sub reqs heard s" and few: "length (reqs @ asked e) < 4294967295"
  shows "\<exists>sub. sys_inv sub (reqs @ asked e) (heard @ hears e s) (sys_step rnd e s)"
proof -
  let ?d = "sy_daemon s"
  have ok: "ledger_ok sub reqs heard ?d" using inv by (simp add: sys_inv_def)
  have quiet: "sys_inv sub reqs heard s'" if "ledger (sy_daemon s') = ledger ?d" "sy_clients s' = sy_clients s" for s'
    using inv_worker [OF inv, of "[]" s'] worker_kept [OF ok that(1)] that(2) by simp
  show ?thesis
  proof (cases e)
    case (SE_Round now)
    show ?thesis unfolding SE_Round using quiet [of "sys_step rnd (SE_Round now) s"] send_discovery_ledger [of now ?d] by auto
  next
    case (SE_Receive received t now)
    show ?thesis
    proof (cases "\<exists>m. received = Some m \<and> worker_at WP_Receive s \<and> listens_to m")
      case True
      then obtain m where m: "received = Some m" "worker_at WP_Receive s" "listens_to m" by blast
      have d: "sy_daemon (sys_step rnd e s) = snd (handle_can_message m t now ?d)"
        "sy_clients (sys_step rnd e s) = sy_clients s" using m by (simp_all add: SE_Receive)
      have "worker_effect sub reqs (heard @ hears e s) ?d (sy_daemon (sys_step rnd e s))"
        using message_effect [OF ok, of m t now] m unfolding d by (simp add: SE_Receive)
      from inv_worker [OF inv this d(2)] show ?thesis by (auto simp: SE_Receive)
    next
      case False
      then have "sys_step rnd e s \<in> {s, s\<lparr>sy_worker := WP_Timers\<rparr>}" "hears e s = []"
        unfolding SE_Receive by (cases received; auto)+
      then show ?thesis using quiet [of "sys_step rnd e s"] SE_Receive by (auto intro: exI [of _ sub])
    qed
  next
    case (SE_Timers polled now)
    have w: "worker_effect sub reqs heard ?d (snd (process_request_timers polled now ?d))"
      using timers_ledger [OF ok] timers_tracked [OF ok] by (simp add: worker_effect_def)
    show ?thesis
    proof (cases "worker_at WP_Timers s")
      case True
      then show ?thesis using inv_worker [OF inv, of "[]" "sys_step rnd e s"] w
        unfolding SE_Timers by (auto simp: split_beta intro: exI [of _ sub])
    qed (use inv SE_Timers in auto)
  next
    case (SE_Send now)
    then show ?thesis using quiet [of "sys_step rnd e s"] worker_send_fields by auto
  next
    case (SE_Connect r now)
    then show ?thesis using inv_connect [OF inv] few by simp
  next
    case (SE_Proceed i now)
    then show ?thesis using inv_proceed [OF inv, of rnd i now] by auto
  next
    case SE_Stop
    then show ?thesis using quiet [of "sys_step rnd e s"] by (auto simp: ledger_def)
  qed
qed

lemma inv_start:
  assumes "daemon_new rnd mtu fd config session_id outcomes now = Inr d"
  shows "sys_inv Map.empty [] [] \<lparr>sy_daemon = d, sy_worker = WP_Round, sy_outbox = [], sy_next_discovery = now, sy_clients = []\<rparr>"
proof -
  have m: "request_manager_new (ms 750) 2 (ms 2000) = Inr (dm_requests d)"
    and e: "dm_request_can_ids d = []" "dm_responses d = []"
    using assms by (auto simp: daemon_new_def try_bind_Inr_iff map_error_def split: sum.splits)
  have "request_manager_ok (dm_requests d)" using request_manager_new_ok m by blast
  moreover have "dm_requests d = \<lparr>rm_timeout = ms 750, rm_maximum_retries = 2, rm_duplicate_window = ms 2000,
      rm_next_request_id = 1, rm_pending = [], rm_completed = []\<rparr>"
    using m by (auto simp: request_manager_new_def split: if_splits)
  ultimately have "ledger_ok Map.empty [] [] d"
    using e by (intro ledger_okI) (auto simp: subs_ok_def word_less_1)
  then show ?thesis by (simp add: sys_inv_def)
qed

lemma run_inv:
  assumes "daemon_run rnd reqs heard s" "length reqs < 4294967295"
  shows "\<exists>sub. sys_inv sub reqs heard s"
  using assms
proof (induction rule: daemon_run.induct)
  case daemon_started
  then show ?case using inv_start by blast
next
  case (daemon_stepped reqs heard s e)
  then show ?case using inv_step by fastforce
qed

end
