(* ===== verification/Daemon_Answers.thy ===== *)
theory Daemon_Answers
  imports Daemon_Runs Node_Exchange
begin

text \<open>
  What the daemon promises its clients in every interleaving of its threads, and a run in which it keeps
  the promise: a node is discovered, assigned and heard, a client asks it, and gets its answer.
\<close>

subsection \<open>Packets of one frame\<close>

definition demo_frame :: "packet \<Rightarrow> u32 \<Rightarrow> can_message" where
  "demo_frame p can_id = \<lparr>cm_identifier = can_id, cm_extended_identifier = False,
     cm_data = (case try_bind (map_error DE_Packet (encode p)) (\<lambda>bs. map_error DE_Fragment (fragmenter_split 64 bs 1)) of
       Inr [frame] \<Rightarrow> frame | _ \<Rightarrow> []), cm_bit_rate_switch = True\<rparr>"

definition short :: "packet \<Rightarrow> bool" where
  "short p \<longleftrightarrow> encodable p \<and> length (payload p) \<le> 35"

definition fresh_ids :: "u32 set \<Rightarrow> reassembler \<Rightarrow> bool" where
  "fresh_ids ids ra \<longleftrightarrow> reassembler_ok ra \<and> ra_mtu ra = 64 \<and>
     (\<forall>can_id \<in> ids. map_of (ra_transfers ra) (transfer_key can_id 1) = None)"

lemma short_splits:
  assumes "short p"
  shows "\<exists>bs frame. encode p = Inr bs \<and> fragmenter_split 64 bs tid = Inr [frame] \<and> length frame \<le> 64"
proof -
  obtain bs where bs: "encode p = Inr bs" using assms encode_eq by (auto simp: short_def)
  have n: "length bs = 24 + length (payload p)" by (rule encode_length [OF bs])
  then have len: "0 < length bs" "length bs \<le> 59" using assms by (simp_all add: short_def)
  have sp: "splittable 64 bs" using len by (simp add: splittable_def packet_consts)
  have c: "fragment_count 64 (length bs) = 1" using len
    unfolding fragment_count_def kFragmentHeaderSize_def Let_def by (intro div_nat_eqI) (simp_all add: Suc_le_eq)
  have "length (split_frame 64 bs tid 0) \<le> 64"
    using encode_fragment_length [OF split_frame_encoded [OF sp, of 0 tid]] split_fragment_ok [OF sp, of 0 tid] c
    by (simp add: frame_ok_def)
  then show ?thesis using bs fragmenter_split_Inr [OF sp, of tid] c by simp
qed

lemma hear_short:
  assumes p: "short p" and ra: "fresh_ids ids (dm_reassembler d)" "can_id \<in> ids"
  shows "\<exists>ra. hear (demo_frame p can_id) now d = (Inr (Some (sealed p)), d\<lparr>dm_reassembler := ra\<rparr>) \<and>
    fresh_ids (ids - {can_id}) ra"
proof -
  obtain bs frame where s: "encode p = Inr bs" "fragmenter_split 64 bs 1 = Inr [frame]"
    using short_splits [OF p] by blast
  have data: "cm_data (demo_frame p can_id) = frame" "cm_identifier (demo_frame p can_id) = can_id"
    using s by (simp_all add: demo_frame_def)
  let ?ra = "dm_reassembler d"
  have ok: "reassembler_ok ?ra" "ra_mtu ?ra = 64" "map_of (ra_transfers ?ra) (transfer_key can_id 1) = None"
    using ra by (auto simp: fresh_ids_def simp del: map_of_eq_None_iff)
  have "run_arrivals can_id [frame] [Own 0 now] ?ra = [Inr (Complete, Some bs)]"
    using received_in_order [OF s(2) ok, of now] by simp
  then obtain ra where a: "accept can_id frame now ?ra = (Inr (Complete, Some bs), ra)"
    by (auto split: prod.splits)
  have "map_of (ra_transfers ra) (transfer_key x 1) = None" if "x \<in> ids" "x \<noteq> can_id" for x
    using accept_foreign [of x 1 ?ra can_id frame now] that ra ok a
    by (auto simp: foreign_def fresh_ids_def map_of_hexpire reassembler_ok_def simp del: map_of_eq_None_iff split: sum.split)
  then have "fresh_ids (ids - {can_id}) ra" using accept_ok(1) [OF ok(1), of can_id frame now] accept_fields(1) [of can_id frame now ?ra] a ok(2)
    by (simp add: fresh_ids_def)
  then show ?thesis using a data s(1) by (intro exI [of _ ra]) (simp add: hear_def decode_encode)
qed

text \<open>A controller for a fast bus has an answer for every frame.\<close>

definition fast :: "traffic_config \<Rightarrow> bool" where
  "fast c \<longleftrightarrow> tf_mode c = TB_CanFd \<and> tf_arbitration_bits_per_second c = 1000000 \<and>
     tf_data_bits_per_second c = 1000000"

lemma fast_cost:
  assumes "fast c" "n \<le> 64"
  shows "\<exists>w. total_wire_time c [n] 0 = Inr w"
proof -
  have "\<exists>k. wire_fd_length n = Inr k"
    using assms(2) by (cases "n \<le> 8") (simp_all add: wire_fd_length_def)
  then obtain cost where "estimate_can_frame_cost TB_CanFd n 1000000 1000000 True = Inr cost"
    by (auto simp: estimate_can_frame_cost_def Let_def)
  then show ?thesis using assms(1) by (simp add: fast_def)
qed

lemma admit_answers:
  assumes "class_index c = Inr i" "total_wire_time (tc_config t) lengths 0 = Inr w"
  shows "\<exists>b t'. admit rnd c lengths policy now t = (Inr b, t') \<and> tc_config t' = tc_config t \<and>
    (policy = AP_Guaranteed \<longrightarrow> b)"
proof -
  have "tc_config (traffic_refill rnd now t) = tc_config t" by (simp add: traffic_refill_def Let_def)
  then show ?thesis using assms by (auto simp: admit_def Let_def)
qed

lemma send_short:
  assumes p: "short p" and d: "dm_mtu d = 64" "dm_tx_outcomes d = []" "fast (tc_config (dm_traffic d))"
  shows "\<exists>b t tx. daemon_send rnd p can_id policy now d = (Inr b, d\<lparr>dm_traffic := t, dm_tx := tx,
      dm_next_transfer_id := dm_next_transfer_id d + 1\<rparr>) \<and> tc_config t = tc_config (dm_traffic d) \<and>
    (policy = AP_Guaranteed \<longrightarrow> b)"
proof -
  obtain bs frame where s: "encode p = Inr bs" "fragmenter_split 64 bs (dm_next_transfer_id d) = Inr [frame]" "length frame \<le> 64"
    using short_splits [OF p] by blast
  let ?policy = "if classify_traffic p = TC_Safety then AP_Guaranteed else policy"
  obtain w where w: "total_wire_time (tc_config (dm_traffic d)) [length frame] 0 = Inr w"
    using fast_cost [OF d(3) s(3)] by blast
  obtain i where i: "class_index (classify_traffic p) = Inr i"
    by (auto simp: class_index_def classify_traffic_def Let_def kTrafficClassCount_def)
  obtain b t where a: "admit rnd (classify_traffic p) [length frame] ?policy now (dm_traffic d) = (Inr b, t)"
    "tc_config t = tc_config (dm_traffic d)" "?policy = AP_Guaranteed \<longrightarrow> b"
    using admit_answers [OF i w, of rnd ?policy now] by metis
  let ?d = "d\<lparr>dm_next_transfer_id := dm_next_transfer_id d + 1, dm_traffic := t\<rparr>"
  let ?m = "\<lparr>cm_identifier = can_id, cm_extended_identifier = False, cm_data = frame, cm_bit_rate_switch = dm_fd d\<rparr>"
  have send: "daemon_send rnd p can_id policy now d =
      (Inr b, ?d\<lparr>dm_tx := if b then dm_tx d @ [?m] else dm_tx d\<rparr>)"
    using s(1,2) a(1) d(1,2) by (cases b) (simp_all add: daemon_send_def Let_def transport_send_def)
  have "?d\<lparr>dm_tx := x\<rparr> = d\<lparr>dm_traffic := t, dm_tx := x, dm_next_transfer_id := dm_next_transfer_id d + 1\<rparr>" for x
    by simp
  then show ?thesis unfolding send using a(2,3) by (metis (full_types))
qed

subsection \<open>A run\<close>

definition demo_config :: traffic_config where
  "demo_config = \<lparr>tf_mode = TB_CanFd, tf_arbitration_bits_per_second = 1000000,
     tf_data_bits_per_second = 1000000, tf_maximum_utilization_permille = 1000, tf_burst_window = 100,
     tf_class_limit_permille = [1000, 500, 500, 500, 500, 500]\<rparr>"

definition demo_packet :: "message_type \<Rightarrow> command \<Rightarrow> u32 \<Rightarrow> u32 \<Rightarrow> u32 \<Rightarrow> byte list \<Rightarrow> packet" where
  "demo_packet t c sid rid object_id bs = \<lparr>header = default_header\<lparr>ph_message_type := message_type_code t,
     ph_command := command_code c, ph_session_id := sid, ph_request_id := rid, ph_object_id := object_id\<rparr>, payload = bs\<rparr>"

definition demo_identity :: node_identity where
  "demo_identity = \<lparr>ni_uuid = copy_uuid (replicate 16 7), ni_firmware_major = 1, ni_firmware_minor = 0,
     ni_firmware_patch = 0, ni_board_type = 1, ni_protocol_version = 1\<rparr>"

definition demo_hello :: packet where
  "demo_hello = demo_packet Response DiscoveryResponse 0 0x80000000 0 (encode_node_identity demo_identity)"

definition demo_beat :: packet where
  "demo_beat = demo_packet Event Heartbeat 0 0 1
     (encode_heartbeat \<lparr>hb_uuid = ni_uuid demo_identity, hb_protocol_version = 1\<rparr>)"

definition demo_ask :: ipc_request where
  "demo_ask = \<lparr>iq_kind = RemotePacket, iq_node_id = 1, iq_packet = demo_packet Request MotionAbort 0 0 7 [],
     iq_object_id = 0, iq_maximum_length = 0, iq_timeout_ms = 0\<rparr>"

lemma demo_packet_fields [simp]:
  "ph_message_type (header (sealed (demo_packet t c sid rid ob bs))) = message_type_code t"
  "ph_command (header (sealed (demo_packet t c sid rid ob bs))) = command_code c"
  "ph_session_id (header (sealed (demo_packet t c sid rid ob bs))) = sid"
  "ph_request_id (header (sealed (demo_packet t c sid rid ob bs))) = rid"
  "ph_object_id (header (sealed (demo_packet t c sid rid ob bs))) = ob"
  "ph_flags (header (sealed (demo_packet t c sid rid ob bs))) = 0"
  "payload (sealed (demo_packet t c sid rid ob bs)) = bs"
  by (simp_all add: sealed_def Let_def demo_packet_def default_header_def)

lemma demo_short: "length bs \<le> 35 \<Longrightarrow> short (demo_packet t c sid rid ob bs)"
  by (cases t) (simp_all add: short_def encodable_def demo_packet_def default_header_def packet_consts)

lemma demo_frame_fields [simp]: "cm_identifier (demo_frame p can_id) = can_id"
  "cm_extended_identifier (demo_frame p can_id) = False"
  by (simp_all add: demo_frame_def)

text \<open>The parts of the daemon that the requests of clients use.\<close>

definition idle :: "daemon \<Rightarrow> bool" where
  "idle d \<longleftrightarrow> dm_mtu d = 64 \<and> dm_tx_outcomes d = [] \<and> fast (tc_config (dm_traffic d)) \<and> dm_running d \<and>
     ledger d = (\<lparr>rm_timeout = ms 750, rm_maximum_retries = 2, rm_duplicate_window = ms 2000,
       rm_next_request_id = 1, rm_pending = [], rm_completed = []\<rparr>, [], [], [], 9)"

definition demo_sys :: "daemon \<Rightarrow> worker_phase \<Rightarrow> outgoing list \<Rightarrow> client_phase list \<Rightarrow> system" where
  "demo_sys d phase out clients = \<lparr>sy_daemon = d, sy_worker = phase, sy_outbox = out,
     sy_next_discovery = ms 2000, sy_clients = clients\<rparr>"

lemma demo_steps:
  "process_request_timers polled now d = ([], d') \<Longrightarrow>
    sys_step rnd (SE_Timers polled now) (demo_sys d WP_Timers [] cs) = demo_sys d' WP_Round [] cs"
  "dm_running d \<Longrightarrow> now < ms 2000 \<Longrightarrow>
    sys_step rnd (SE_Round now) (demo_sys d WP_Round [] cs) = demo_sys d WP_Receive [] cs"
  "listens_to m \<Longrightarrow> handle_can_message m t now d = (Inr out, d') \<Longrightarrow>
    sys_step rnd (SE_Receive (Some m) t now) (demo_sys d WP_Receive [] cs) = demo_sys d' WP_Timers out cs"
  "listens_to m \<Longrightarrow> hear m t d = (Inr (Some p), d') \<Longrightarrow>
    hears (SE_Receive (Some m) t now) (demo_sys d WP_Receive [] cs) = [(cm_identifier m, p)]"
  "daemon_send rnd (ob_packet o1) (ob_can_id o1) (ob_policy o1) now d = (Inr b, d') \<Longrightarrow>
    ob_next_discovery o1 = None \<Longrightarrow>
    sys_step rnd (SE_Send now) (demo_sys d phase (o1 # rest) cs) = demo_sys d' phase rest cs"
  by (simp_all add: demo_sys_def worker_at_def worker_result_def worker_send_def)

text \<open>The daemon has just started, and asks who is there.\<close>

lemma demo_started:
  "\<exists>d. daemon_run id [] [] (demo_sys d WP_Receive [] []) \<and> idle d \<and>
     fresh_ids {0x481, 0x501, 0x581} (dm_reassembler d) \<and>
     dm_nodes d = \<lparr>reg_offline_timeout = ms 2000, reg_nodes = []\<rparr> \<and> dm_next_node_id d = 1"
proof -
  obtain t where t: "traffic_controller_new id demo_config 0 = Inr t" "tc_config t = demo_config"
    by (simp add: traffic_controller_new_def demo_config_def Let_def)
  obtain d where new: "daemon_new id 64 True demo_config 9 [] 0 = Inr d" and d: "idle d" "dm_next_node_id d = 1"
    "dm_nodes d = \<lparr>reg_offline_timeout = ms 2000, reg_nodes = []\<rparr>" "fresh_ids ids (dm_reassembler d)" for ids
    using t
    by (simp add: daemon_new_def fragmenter_new_def validate_mtu_def kFragmentHeaderSize_def reassembler_new_def
        request_manager_new_def node_registry_new_def idle_def ledger_def fresh_ids_def reassembler_ok_def
        ms_def demo_config_def fast_def)
  let ?s = "\<lparr>sy_daemon = d, sy_worker = WP_Round, sy_outbox = [], sy_next_discovery = 0, sy_clients = []\<rparr>"
  let ?p = "demo_packet Request DiscoveryRequest 0 (dm_next_control_request_id d) 0 [1, 1]"
  let ?out = "\<lparr>ob_packet = ?p, ob_can_id = kBroadcastRequestCanId, ob_policy = AP_Enforce, ob_next_discovery = Some (ms 2000)\<rparr>"
  let ?d = "d\<lparr>dm_next_control_request_id := dm_next_control_request_id d + 1\<rparr>"
  have one: "daemon_run id [] [] (?s\<lparr>sy_daemon := ?d, sy_worker := WP_Receive, sy_outbox := [?out]\<rparr>)"
    using daemon_stepped [OF daemon_started [OF new], of "SE_Round 0"] d(1)
    by (simp add: worker_at_def idle_def worker_result_def send_discovery_def make_discovery_request_def
        encode_discovery_request_def demo_packet_def default_header_def packet_consts kDiscoveryInterval_def)
  have sh: "short ?p" by (rule demo_short) simp
  obtain b t' tx where sent: "daemon_send id ?p kBroadcastRequestCanId AP_Enforce 0 ?d = (Inr b,
      ?d\<lparr>dm_traffic := t', dm_tx := tx, dm_next_transfer_id := dm_next_transfer_id d + 1\<rparr>)" "tc_config t' = tc_config (dm_traffic d)"
    using send_short [OF sh, of ?d id kBroadcastRequestCanId AP_Enforce 0] d(1) by (auto simp: idle_def)
  show ?thesis
    using daemon_stepped [OF one, of "SE_Send 0"] sent d
    by (intro exI conjI, simp add: worker_send_def demo_sys_def [symmetric]) (simp_all add: idle_def ledger_def)
qed

text \<open>A node answers, is given its identifier, and confirms it.\<close>

definition demo_node_record :: "bool \<Rightarrow> time \<Rightarrow> node_record" where
  "demo_node_record assigned seen = \<lparr>nr_identity = demo_identity, nr_node_id = 1, nr_online = True,
     nr_assigned = assigned, nr_last_seen = seen\<rparr>"

definition demo_nodes :: "bool \<Rightarrow> time \<Rightarrow> node_registry" where
  "demo_nodes assigned seen = \<lparr>reg_offline_timeout = ms 2000,
     reg_nodes = [(ni_uuid demo_identity, demo_node_record assigned seen)]\<rparr>"

lemma demo_hello_packet:
  assumes "dm_nodes d = \<lparr>reg_offline_timeout = ms 2000, reg_nodes = []\<rparr>" "dm_next_node_id d = 1"
  shows "handle_packet 0x481 (sealed demo_hello) 1 d = (Inr (Some (demo_packet Request NodeAssign 0
      (dm_next_control_request_id d) 0 (uuid_bytes (ni_uuid demo_identity) @ put_u32 1))),
    d\<lparr>dm_nodes := demo_nodes False 1, dm_next_node_id := 2,
      dm_next_control_request_id := dm_next_control_request_id d + 1\<rparr>)"
proof -
  let ?u = "ni_uuid demo_identity" and ?new = "(demo_node_record False 1)\<lparr>nr_node_id := 0\<rparr>"
  have h: "ph_message_type (header (sealed demo_hello)) = message_type_code Response"
    "ph_command (header (sealed demo_hello)) = command_code DiscoveryResponse"
    "decode_node_identity (payload (sealed demo_hello)) = Inr demo_identity"
    by (simp_all add: demo_hello_def node_identity_wire.dec_iff)
  have acc: "accept_discovery_response (sealed demo_hello) 1 (dm_nodes d) =
      (Inr Added, \<lparr>reg_offline_timeout = ms 2000, reg_nodes = [(?u, ?new)]\<rparr>)"
    using assms(1) h by (simp add: accept_discovery_response_def hemplace_def demo_node_record_def)
  have mark: "mark_assignment_unconfirmed ?u \<lparr>reg_offline_timeout = ms 2000, reg_nodes = [(?u, ?new)]\<rparr> =
      (True, \<lparr>reg_offline_timeout = ms 2000, reg_nodes = [(?u, ?new)]\<rparr>)"
    by (simp add: mark_assignment_unconfirmed_def hput_def demo_node_record_def)
  show ?thesis
    using assms(2) h acc mark
    by (simp add: handle_packet_def on_discovery_response_def Let_def in_id_range_def daemon_consts assign_node_def
        make_node_assignment_def encode_node_assignment_def hput_def demo_nodes_def demo_node_record_def
        demo_packet_def [of Request NodeAssign] default_header_def)
qed

lemma demo_beat_packet:
  assumes "dm_nodes d = demo_nodes False 1"
  shows "handle_packet 0x501 (sealed demo_beat) 4 d = (Inr None, d\<lparr>dm_nodes := demo_nodes True 4\<rparr>)"
proof -
  have h: "ph_message_type (header (sealed demo_beat)) = message_type_code Event"
    "ph_command (header (sealed demo_beat)) = command_code Heartbeat" "ph_object_id (header (sealed demo_beat)) = 1"
    "decode_heartbeat (payload (sealed demo_beat)) = Inr \<lparr>hb_uuid = ni_uuid demo_identity, hb_protocol_version = 1\<rparr>"
    by (simp_all add: demo_beat_def heartbeat_wire.dec_iff)
  have "ni_protocol_version demo_identity = 1" by (simp add: demo_identity_def)
  then have "accept_heartbeat (sealed demo_beat) 4 (dm_nodes d) = (Inr True, demo_nodes True 4)"
    using assms h by (simp add: accept_heartbeat_def Let_def hput_def demo_nodes_def demo_node_record_def)
  then show ?thesis using h by (simp add: handle_packet_def)
qed

lemma demo_wait: "registry_expire 2 (demo_nodes False 1) = ([], demo_nodes False 1)"
  by (simp add: registry_expire_def demo_nodes_def demo_node_record_def node_silent_def hmap_values_def ms_def)

lemma demo_ready:
  "\<exists>heard d. daemon_run id [] heard (demo_sys d WP_Timers [] []) \<and> idle d \<and>
     fresh_ids {0x581} (dm_reassembler d) \<and> dm_nodes d = demo_nodes True 4"
proof -
  obtain d where s: "daemon_run id [] [] (demo_sys d WP_Receive [] [])" "idle d"
    "fresh_ids {0x481, 0x501, 0x581} (dm_reassembler d)"
    "dm_nodes d = \<lparr>reg_offline_timeout = ms 2000, reg_nodes = []\<rparr>" "dm_next_node_id d = 1"
    using demo_started by blast
  have u: "length (uuid_bytes (ni_uuid demo_identity)) = 16" by (rule length_uuid_bytes)
  have hello: "short demo_hello" unfolding demo_hello_def by (rule demo_short) (simp add: encode_node_identity_def)
  obtain ra where hear1: "hear (demo_frame demo_hello 0x481) 1 d = (Inr (Some (sealed demo_hello)), d\<lparr>dm_reassembler := ra\<rparr>)"
    "fresh_ids {0x501, 0x581} ra"
    using hear_short [OF hello s(3), of "0x481" 1] by auto
  let ?id = "dm_next_control_request_id d"
  let ?p = "demo_packet Request NodeAssign 0 ?id 0 (uuid_bytes (ni_uuid demo_identity) @ put_u32 1)"
  let ?out = "\<lparr>ob_packet = ?p, ob_can_id = kBroadcastRequestCanId, ob_policy = AP_Guaranteed, ob_next_discovery = None\<rparr>"
  let ?d1 = "d\<lparr>dm_reassembler := ra, dm_nodes := demo_nodes False 1, dm_next_node_id := 2, dm_next_control_request_id := ?id + 1\<rparr>"
  have hm1: "handle_can_message (demo_frame demo_hello 0x481) 1 1 d = (Inr [?out], ?d1)"
    using demo_hello_packet [of "d\<lparr>dm_reassembler := ra\<rparr>"] s(4,5) hear1(1) by (simp add: handle_can_message_def)
  have listens: "listens_to (demo_frame p 0x481)" "listens_to (demo_frame p 0x501)" for p
    by (simp_all add: listens_to_def in_id_range_def daemon_consts)
  have one: "daemon_run id [] [(0x481, sealed demo_hello)] (demo_sys ?d1 WP_Timers [?out] [])"
    using daemon_stepped [OF s(1), of "SE_Receive (Some (demo_frame demo_hello 0x481)) 1 1"] hear1(1) hm1
    by (simp add: demo_steps(3) [OF listens(1)] demo_steps(4) [OF listens(1)] del: sys_step.simps hears.simps)
  have sh: "short ?p" by (rule demo_short) (simp add: put_u32_def)
  obtain b t tx where sent: "daemon_send id ?p kBroadcastRequestCanId AP_Guaranteed 1 ?d1 = (Inr b,
      ?d1\<lparr>dm_traffic := t, dm_tx := tx, dm_next_transfer_id := dm_next_transfer_id d + 1\<rparr>)" "tc_config t = tc_config (dm_traffic d)"
    using send_short [OF sh, of ?d1 id kBroadcastRequestCanId AP_Guaranteed 1] s(2) by (auto simp: idle_def)
  let ?d2 = "?d1\<lparr>dm_traffic := t, dm_tx := tx, dm_next_transfer_id := dm_next_transfer_id d + 1\<rparr>"
  have two: "daemon_run id [] [(0x481, sealed demo_hello)] (demo_sys ?d2 WP_Timers [] [])"
    using daemon_stepped [OF one, of "SE_Send 1"] sent(1)
    by (simp add: demo_steps(5) del: sys_step.simps)
  have none: "process_request_timers 2 2 ?d2 = ([], ?d2)"
    using s(2) demo_wait by (simp add: process_request_timers_def idle_def ledger_def poll_def Let_def expire_completed_def)
  have three: "daemon_run id [] [(0x481, sealed demo_hello)] (demo_sys ?d2 WP_Round [] [])"
    using daemon_stepped [OF two, of "SE_Timers 2 2"] none
    by (simp add: demo_steps(1) del: sys_step.simps)
  have four: "daemon_run id [] [(0x481, sealed demo_hello)] (demo_sys ?d2 WP_Receive [] [])"
    using daemon_stepped [OF three, of "SE_Round 3"] s(2)
    by (simp add: demo_steps(2) idle_def ms_def del: sys_step.simps)
  have beat: "short demo_beat" unfolding demo_beat_def by (rule demo_short) (simp add: encode_heartbeat_def)
  obtain ra' where hear2: "hear (demo_frame demo_beat 0x501) 4 ?d2 = (Inr (Some (sealed demo_beat)), ?d2\<lparr>dm_reassembler := ra'\<rparr>)"
    "fresh_ids {0x581} ra'"
    using hear_short [OF beat, of "{0x501, 0x581}" ?d2 "0x501" 4] hear1(2) by auto
  let ?d3 = "?d2\<lparr>dm_reassembler := ra', dm_nodes := demo_nodes True 4\<rparr>"
  have hm2: "handle_can_message (demo_frame demo_beat 0x501) 4 4 ?d2 = (Inr [], ?d3)"
    using demo_beat_packet [of "?d2\<lparr>dm_reassembler := ra'\<rparr>"] hear2(1) by (simp add: handle_can_message_def)
  have five: "daemon_run id [] [(0x481, sealed demo_hello), (0x501, sealed demo_beat)]
      (demo_sys ?d3 WP_Timers [] [])"
    using daemon_stepped [OF four, of "SE_Receive (Some (demo_frame demo_beat 0x501)) 4 4"] hear2(1) hm2
    by (simp add: demo_steps(3) [OF listens(2)] demo_steps(4) [OF listens(2)] del: sys_step.simps hears.simps)
  moreover have "idle ?d3" using s(2) sent(2) by (simp add: idle_def ledger_def)
  moreover have "fresh_ids {0x581} (dm_reassembler ?d3)" "dm_nodes ?d3 = demo_nodes True 4" using hear2(2) by simp_all
  ultimately show ?thesis by blast
qed

text \<open>A client asks the node, and the node answers.\<close>

definition demo_answer :: packet where
  "demo_answer = demo_packet Response MotionAbort 9 1 7 []"

lemma demo_asked:
  "\<exists>heard d. daemon_run id [demo_ask] heard (demo_sys d WP_Timers [] [CP_Awaiting (demo_packet Request MotionAbort 9 1 7 []) 1]) \<and>
     dm_running d \<and> fresh_ids {0x581} (dm_reassembler d) \<and> dm_nodes d = demo_nodes True 4 \<and>
     dm_requests d = \<lparr>rm_timeout = ms 750, rm_maximum_retries = 2, rm_duplicate_window = ms 2000, rm_next_request_id = 2,
       rm_pending = [(request_key 9 1, \<lparr>pr_packet = demo_packet Request MotionAbort 9 1 7 [],
         pr_deadline = 5 + ms 750, pr_retries_remaining = 2\<rparr>)], rm_completed = []\<rparr> \<and>
     dm_request_can_ids d = [(request_key 9 1, 0x601)] \<and> dm_responses d = [] \<and> dm_timed_out d = []"
proof -
  obtain heard d where s: "daemon_run id [] heard (demo_sys d WP_Timers [] [])" "idle d"
    "fresh_ids {0x581} (dm_reassembler d)" "dm_nodes d = demo_nodes True 4"
    using demo_ready by blast
  let ?p = "demo_packet Request MotionAbort 9 1 7 []"
  let ?e = "\<lparr>pr_packet = ?p, pr_deadline = 5 + ms 750, pr_retries_remaining = 2\<rparr>"
  let ?m = "\<lparr>rm_timeout = ms 750, rm_maximum_retries = 2, rm_duplicate_window = ms 2000, rm_next_request_id = 1,
       rm_pending = [], rm_completed = []\<rparr>"
  have m: "dm_requests d = ?m" "dm_request_can_ids d = []" "dm_session_id d = 9" "dm_responses d = []" "dm_timed_out d = []"
    using s(2) by (simp_all add: idle_def ledger_def)
  have ready: "node_ready 1 d" using s(4) by (simp add: node_ready_def find_by_node_id_def demo_nodes_def demo_node_record_def)
  have ask: "(iq_packet demo_ask)\<lparr>header := (header (iq_packet demo_ask))\<lparr>ph_session_id := 9\<rparr>\<rparr> = demo_packet Request MotionAbort 9 0 7 []"
    "ph_message_type (header (iq_packet demo_ask)) = 1"
    by (simp_all add: demo_ask_def demo_packet_def default_header_def)
  have sub: "submit (demo_packet Request MotionAbort 9 0 7 []) 5 ?m =
      (Inr (1, ?p), ?m\<lparr>rm_next_request_id := 2, rm_pending := [(request_key 9 1, ?e)]\<rparr>)"
    using submit_next [of ?m "demo_packet Request MotionAbort 9 0 7 []" 5]
    by (simp add: request_manager_ok_def demo_packet_def default_header_def next_id_def packet_key_def hemplace_def
        expire_completed_def ms_def)
  let ?d1 = "d\<lparr>dm_requests := ?m\<lparr>rm_next_request_id := 2, rm_pending := [(request_key 9 1, ?e)]\<rparr>,
      dm_request_can_ids := [(request_key 9 1, 0x601)]\<rparr>"
  have start: "client_start id demo_ask 5 d = (CP_Submitted ?p 1, ?d1)"
    using sub ready ask m by (simp add: client_start_def submit_request_def demo_ask_def [THEN arg_cong, of iq_kind]
        demo_ask_def [THEN arg_cong, of iq_node_id] Let_def hput_def daemon_consts demo_packet_def default_header_def)
  have one: "daemon_run id [demo_ask] heard (demo_sys ?d1 WP_Timers [] [CP_Submitted ?p 1])"
    using daemon_stepped [OF s(1), of "SE_Connect demo_ask 5"] start by (simp add: demo_sys_def)
  have sh: "short ?p" by (rule demo_short) simp
  obtain b t tx where sent: "daemon_send id ?p 0x601 AP_Guaranteed 6 ?d1 = (Inr b,
      ?d1\<lparr>dm_traffic := t, dm_tx := tx, dm_next_transfer_id := dm_next_transfer_id d + 1\<rparr>)" b
    using send_short [OF sh, of ?d1 id "0x601" AP_Guaranteed 6] s(2) by (auto simp: idle_def)
  let ?d2 = "?d1\<lparr>dm_traffic := t, dm_tx := tx, dm_next_transfer_id := dm_next_transfer_id d + 1\<rparr>"
  have "classify_traffic ?p = TC_Safety" by (simp add: classify_traffic_def demo_packet_def Let_def)
  then have send: "client_send id ?p 1 6 ?d1 = (CP_Awaiting ?p 1, ?d2)"
    using sent by (simp add: client_send_def daemon_consts)
  have "daemon_run id [demo_ask] heard (demo_sys ?d2 WP_Timers [] [CP_Awaiting ?p 1])"
    using daemon_stepped [OF one, of "SE_Proceed 0 6"] send by (simp add: demo_sys_def)
  moreover have "dm_running ?d2" "fresh_ids {0x581} (dm_reassembler ?d2)" "dm_nodes ?d2 = demo_nodes True 4"
    "dm_responses ?d2 = []" "dm_timed_out ?d2 = []"
    using s(2-4) m by (simp_all add: idle_def)
  ultimately show ?thesis by (intro exI [of _ heard] exI [of _ ?d2] conjI) simp_all
qed

lemma demo_replied:
  "\<exists>heard d body. daemon_run id [demo_ask] heard (demo_sys d WP_Timers [] [CP_Done (ReplyOk body)])"
proof -
  let ?p = "demo_packet Request MotionAbort 9 1 7 []" and ?k = "request_key 9 1"
  let ?e = "\<lparr>pr_packet = ?p, pr_deadline = 5 + ms 750, pr_retries_remaining = 2\<rparr>"
  let ?m = "\<lparr>rm_timeout = ms 750, rm_maximum_retries = 2, rm_duplicate_window = ms 2000, rm_next_request_id = 2,
       rm_pending = [(?k, ?e)], rm_completed = []\<rparr>"
  obtain heard d where s: "daemon_run id [demo_ask] heard (demo_sys d WP_Timers [] [CP_Awaiting ?p 1])"
    "dm_running d" "fresh_ids {0x581} (dm_reassembler d)" "dm_nodes d = demo_nodes True 4"
    "dm_requests d = ?m" "dm_request_can_ids d = [(?k, 0x601)]" "dm_responses d = []" "dm_timed_out d = []"
    using demo_asked by blast
  have "poll 7 ?m = ([], ?m)" by (simp add: poll_def expire_completed_def ms_def)
  moreover have "registry_expire 7 (demo_nodes True 4) = ([], demo_nodes True 4)"
    by (simp add: registry_expire_def demo_nodes_def demo_node_record_def node_silent_def hmap_values_def ms_def)
  ultimately have timers: "process_request_timers 7 7 d = ([], d)"
    using s(4,5) by (simp add: process_request_timers_def)
  have one: "daemon_run id [demo_ask] heard (demo_sys d WP_Round [] [CP_Awaiting ?p 1])"
    using daemon_stepped [OF s(1), of "SE_Timers 7 7"] timers by (simp add: demo_steps(1) del: sys_step.simps)
  have two: "daemon_run id [demo_ask] heard (demo_sys d WP_Receive [] [CP_Awaiting ?p 1])"
    using daemon_stepped [OF one, of "SE_Round 8"] s(2) by (simp add: demo_steps(2) ms_def del: sys_step.simps)
  have sh: "short demo_answer" unfolding demo_answer_def by (rule demo_short) simp
  obtain ra where h: "hear (demo_frame demo_answer 0x581) 9 d = (Inr (Some (sealed demo_answer)), d\<lparr>dm_reassembler := ra\<rparr>)"
    using hear_short [OF sh s(3), of "0x581" 9] by auto
  let ?m' = "?m\<lparr>rm_pending := [], rm_completed := [(?k, 9 + ms 2000)]\<rparr>"
  let ?d1 = "d\<lparr>dm_reassembler := ra, dm_requests := ?m', dm_responses := [(?k, sealed demo_answer)]\<rparr>"
  have q: "ph_message_type (header (sealed demo_answer)) = message_type_code Response"
    "ph_command (header (sealed demo_answer)) = command_code MotionAbort"
    "ph_session_id (header (sealed demo_answer)) = 9" "ph_request_id (header (sealed demo_answer)) = 1"
    "ph_object_id (header (sealed demo_answer)) = 7"
    by (simp_all add: demo_answer_def)
  have p: "ph_command (header ?p) = command_code MotionAbort" "ph_object_id (header ?p) = 7"
    "ph_session_id (header ?p) = 9" "ph_request_id (header ?p) = 1"
    by (simp_all add: demo_packet_def default_header_def)
  have acc: "accept_response (sealed demo_answer) 9 ?m = ((Matched, Some (sealed demo_answer)), ?m')"
    using q p by (simp add: accept_response_def expire_completed_def object_matches_def creates_object_def
        remember_completed_def hput_def herase_def)
  have "handle_packet 0x581 (sealed demo_answer) 9 (d\<lparr>dm_reassembler := ra\<rparr>) = (Inr None, ?d1)"
    using q acc s(5-7) by (simp add: handle_packet_def on_response_def in_id_range_def daemon_consts hput_def Let_def)
  then have hm: "handle_can_message (demo_frame demo_answer 0x581) 9 9 d = (Inr [], ?d1)"
    using h by (simp add: handle_can_message_def)
  have listens: "listens_to (demo_frame demo_answer 0x581)" by (simp add: listens_to_def in_id_range_def daemon_consts)
  have three: "daemon_run id [demo_ask] (heard @ [(0x581, sealed demo_answer)]) (demo_sys ?d1 WP_Timers [] [CP_Awaiting ?p 1])"
    using daemon_stepped [OF two, of "SE_Receive (Some (demo_frame demo_answer 0x581)) 9 9"] h hm
    by (simp add: demo_steps(3) [OF listens] demo_steps(4) [OF listens] del: sys_step.simps hears.simps)
  obtain body where "encode (sealed demo_answer) = Inr body"
    using short_splits [OF sh] packet_wire.enc_dec by (metis decode_encode encode_decode)
  then obtain d2 where "wait_response ?p 1 ?d1 = (CP_Done (ReplyOk body), d2)"
    using p by (simp add: wait_response_def packet_key_def Let_def)
  then have "sys_step id (SE_Proceed 0 10) (demo_sys ?d1 WP_Timers [] [CP_Awaiting ?p 1]) =
      demo_sys d2 WP_Timers [] [CP_Done (ReplyOk body)]" by (simp add: demo_sys_def)
  then show ?thesis using daemon_stepped [OF three, of "SE_Proceed 0 10"] by (auto simp del: sys_step.simps)
qed

subsection \<open>Properties\<close>

text \<open>The clients whose request for a node has been answered.\<close>

definition answered :: "ipc_request list \<Rightarrow> system \<Rightarrow> nat set" where
  "answered reqs s = {i. i < length reqs \<and> iq_kind (reqs ! i) = RemotePacket \<and>
     (\<exists>body. sy_clients s ! i = CP_Done (ReplyOk body))}"

text \<open>
  C8. A client that gets a reply to a request for a node gets the reply to its own request: in every
  interleaving of the worker and the clients, the body is the encoding of a response that the worker heard
  from the node the client named, and that carries the daemon's session, the request identifier the
  daemon gave this request, and the command and object of what the client sent; no other client's request
  got that identifier. This holds as long as fewer than \<open>2 ^ 32 - 1\<close> requests have come.
\<close>

theorem daemon_answers_own:
  assumes run: "daemon_run rnd reqs heard s" and few: "length reqs < 4294967295"
  shows "\<exists>rids. inj_on rids (answered reqs s) \<and> (\<forall>i \<in> answered reqs s. \<exists>q body.
      sy_clients s ! i = CP_Done (ReplyOk body) \<and> encode q = Inr body \<and>
      answers_from heard (submitted_as (dm_session_id (sy_daemon s)) (reqs ! i) (rids i)) (iq_node_id (reqs ! i)) q)"
proof -
  obtain sub where inv: "sys_inv sub reqs heard s" using run_inv [OF run few] by blast
  have ok: "ledger_ok sub reqs heard (sy_daemon s)" using inv by (simp add: sys_inv_def)
  note subs = ledger_okD(2) [OF ok, unfolded subs_ok_def]
  have "\<exists>rid. (\<exists>p n. sub rid = Some (i, p, n)) \<and> (\<exists>q body. sy_clients s ! i = CP_Done (ReplyOk body) \<and>
      encode q = Inr body \<and> answers_from heard (submitted_as (dm_session_id (sy_daemon s)) (reqs ! i) rid)
        (iq_node_id (reqs ! i)) q)" if mem: "i \<in> answered reqs s" for i
  proof -
    obtain body where i: "i < length reqs" "iq_kind (reqs ! i) = RemotePacket"
      "sy_clients s ! i = CP_Done (ReplyOk body)" using mem by (auto simp: answered_def)
    have "phase_ok sub reqs heard i (CP_Done (ReplyOk body))" using inv i by (metis sys_inv_def)
    then obtain rid p n q where r: "sub rid = Some (i, p, n)" "encode q = Inr body" "answers_from heard p n q"
      using i(2) by (auto simp: phase_ok_def)
    then have "p = submitted_as (dm_session_id (sy_daemon s)) (reqs ! i) rid" "n = iq_node_id (reqs ! i)"
      using subs by blast+
    then show ?thesis using r i(3) by blast
  qed
  then obtain rids where rids: "\<forall>i \<in> answered reqs s. (\<exists>p n. sub (rids i) = Some (i, p, n)) \<and>
      (\<exists>q body. sy_clients s ! i = CP_Done (ReplyOk body) \<and> encode q = Inr body \<and>
        answers_from heard (submitted_as (dm_session_id (sy_daemon s)) (reqs ! i) (rids i)) (iq_node_id (reqs ! i)) q)"
    by metis
  have "inj_on rids (answered reqs s)"
  proof (rule inj_onI)
    fix i j assume "i \<in> answered reqs s" "j \<in> answered reqs s" "rids i = rids j"
    then show "i = j" using rids by (metis fst_conv option.inject)
  qed
  then show ?thesis using rids by blast
qed

theorem daemon_answers_own_witness:
  "\<exists>heard s rids q body. daemon_run id [demo_ask] heard s \<and> sy_clients s ! 0 = CP_Done (ReplyOk body) \<and>
     encode q = Inr body \<and> answers_from heard (submitted_as (dm_session_id (sy_daemon s)) demo_ask (rids 0)) 1 q"
proof -
  obtain heard d body where r: "daemon_run id [demo_ask] heard (demo_sys d WP_Timers [] [CP_Done (ReplyOk body)])"
    using demo_replied by blast
  have "0 \<in> answered [demo_ask] (demo_sys d WP_Timers [] [CP_Done (ReplyOk body)])"
    by (simp add: answered_def demo_sys_def demo_ask_def)
  moreover have "iq_node_id demo_ask = 1" by (simp add: demo_ask_def)
  ultimately show ?thesis using daemon_answers_own [OF r] r by fastforce
qed

text \<open>
  C9. No client waits for nothing: as long as a client waits for the answer to its request, the daemon
  still has the request pending, with a deadline and retries that \<^verbatim>\<open>poll\<close> works through, or it holds the
  response or the time-out that the client will find at its next look.
\<close>

theorem daemon_no_lost_client:
  assumes "daemon_run rnd reqs heard s" "length reqs < 4294967295"
    and "i < length reqs" "sy_clients s ! i = CP_Awaiting p n"
  shows "map_of (rm_pending (dm_requests (sy_daemon s))) (packet_key p) \<noteq> None \<or>
    map_of (dm_responses (sy_daemon s)) (packet_key p) \<noteq> None \<or>
    map_of (dm_timed_out (sy_daemon s)) (packet_key p) \<noteq> None"
proof -
  obtain sub where "sys_inv sub reqs heard s" using run_inv [OF assms(1,2)] by blast
  then have "phase_live (sy_daemon s) (CP_Awaiting p n)" using assms(3,4) by (metis sys_inv_def)
  then show ?thesis by (simp add: phase_live_def tracked_def)
qed

theorem daemon_no_lost_client_witness:
  "\<exists>heard s p. daemon_run id [demo_ask] heard s \<and> sy_clients s ! 0 = CP_Awaiting p 1 \<and>
    (map_of (rm_pending (dm_requests (sy_daemon s))) (packet_key p) \<noteq> None \<or>
     map_of (dm_responses (sy_daemon s)) (packet_key p) \<noteq> None \<or>
     map_of (dm_timed_out (sy_daemon s)) (packet_key p) \<noteq> None)"
proof -
  obtain heard d where r: "daemon_run id [demo_ask] heard
      (demo_sys d WP_Timers [] [CP_Awaiting (demo_packet Request MotionAbort 9 1 7 []) 1])"
    using demo_asked by blast
  have c: "sy_clients (demo_sys d WP_Timers [] [CP_Awaiting p 1]) ! 0 = CP_Awaiting p 1" for p
    by (simp add: demo_sys_def)
  have "length [demo_ask] < 4294967295" "0 < length [demo_ask]" by simp_all
  then show ?thesis using daemon_no_lost_client [OF r _ _ c] r c by blast
qed

end
