(* ===== verification/Daemon_Streams.thy ===== *)
theory Daemon_Streams
  imports Daemon_Answers "HOL-Library.Sublist"
begin

text \<open>
  The serial streams of the daemon: what the readers of a stream get of the bytes its node sent, when
  events of all nodes and reads of all clients interleave.
\<close>

subsection \<open>A stream\<close>

text \<open>The payloads that the stream takes from events in the order of their arrival.\<close>

fun fresh_payload :: "stream_buffer \<Rightarrow> (u32 \<times> byte list) list \<Rightarrow> byte list" where
  "fresh_payload s [] = []"
| "fresh_payload s ((sequence, bs) # es) =
     (if sequence = 0 then bs @ fresh_payload s es
      else if sb_sequence_initialized s \<and>
        (sequence - sb_last_sequence s = 0 \<or> sequence - sb_last_sequence s \<ge> 0x80000000)
      then fresh_payload s es
      else bs @ fresh_payload (s\<lparr>sb_sequence_initialized := True, sb_last_sequence := sequence\<rparr>) es)"

text \<open>Of the bytes it took, nothing is reordered or repeated, and what it gave up has been counted.\<close>

definition stream_exact :: "byte list \<Rightarrow> byte list \<Rightarrow> stream_buffer \<Rightarrow> stream_buffer \<Rightarrow> bool" where
  "stream_exact got fresh s s' \<longleftrightarrow> length (sb_bytes s') \<le> kUartStreamBufferCapacity \<and>
     subseq (got @ sb_bytes s') (sb_bytes s @ fresh) \<and>
     (\<exists>k. length (sb_bytes s @ fresh) = length (got @ sb_bytes s') + k \<and>
          sb_dropped_bytes s' = sb_dropped_bytes s + word_of_nat k)"

lemma fresh_payload_cong:
  "sb_sequence_initialized s' = sb_sequence_initialized s \<Longrightarrow> sb_last_sequence s' = sb_last_sequence s \<Longrightarrow>
   fresh_payload s' es = fresh_payload s es"
proof (induction s es arbitrary: s' rule: fresh_payload.induct)
  case (2 s sequence bs es)
  show ?case
  proof (cases "sequence = 0")
    case True
    then show ?thesis using "2.IH"(1) [OF True "2.prems"] by (simp only: fresh_payload.simps True if_True)
  next
    case False
    show ?thesis
    proof (cases "sb_sequence_initialized s \<and>
        (sequence - sb_last_sequence s = 0 \<or> sequence - sb_last_sequence s \<ge> 0x80000000)")
      case True
      then show ?thesis using "2.IH"(2) [OF False True "2.prems"] "2.prems" False
        by (simp only: fresh_payload.simps if_True if_False simp_thms)
    next
      case new: False
      have "fresh_payload (s'\<lparr>sb_sequence_initialized := True, sb_last_sequence := sequence\<rparr>) es =
          fresh_payload (s\<lparr>sb_sequence_initialized := True, sb_last_sequence := sequence\<rparr>) es"
        by (rule "2.IH"(3) [OF False new]) simp_all
      then show ?thesis using "2.prems" False new by (simp only: fresh_payload.simps if_False)
    qed
  qed
qed simp

lemma exact_start: "length (sb_bytes s) \<le> kUartStreamBufferCapacity \<Longrightarrow> stream_exact [] [] s s"
  by (simp add: stream_exact_def)

lemma exact_push:
  assumes "stream_exact got fresh s s'"
  shows "stream_exact got (fresh @ [b]) s (stream_push b s')"
proof (cases "length (sb_bytes s') = kUartStreamBufferCapacity")
  case False
  then show ?thesis using assms
    by (auto simp: stream_exact_def stream_push_def Let_def simp flip: append_assoc)
next
  case True
  then obtain x xs where x: "sb_bytes s' = x # xs" by (cases "sb_bytes s'") (auto simp: kUartStreamBufferCapacity_def)
  obtain k where k: "length (sb_bytes s @ fresh) = length (got @ sb_bytes s') + k"
    "sb_dropped_bytes s' = sb_dropped_bytes s + word_of_nat k"
    using assms unfolding stream_exact_def by blast
  have "subseq (got @ xs) (got @ sb_bytes s')" unfolding x
    by (intro list_emb_append_mono) auto
  then have "subseq (got @ xs) (sb_bytes s @ fresh)"
    using assms unfolding stream_exact_def by (meson subseq_order.order_trans)
  then have "subseq ((got @ xs) @ [b]) ((sb_bytes s @ fresh) @ [b])" by (rule list_emb_append_mono) simp
  then show ?thesis using k True x
    by (auto simp: stream_exact_def stream_push_def Let_def intro!: exI [of _ "Suc k"])
qed

lemma exact_pushes:
  "stream_exact got fresh s s' \<Longrightarrow> stream_exact got (fresh @ bs) s (fold stream_push bs s')"
proof (induction bs arbitrary: fresh s')
  case (Cons b bs)
  then show ?case using Cons.IH [OF exact_push [OF Cons.prems, of b]] by simp
qed simp

lemma exact_take:
  assumes "stream_exact got fresh s s'"
  shows "stream_exact (got @ take n (sb_bytes s')) fresh s (s'\<lparr>sb_bytes := drop n (sb_bytes s')\<rparr>)"
  using assms by (auto simp: stream_exact_def)

lemma push_sequence [simp]:
  "sb_sequence_initialized (fold stream_push bs s) = sb_sequence_initialized s"
  "sb_last_sequence (fold stream_push bs s) = sb_last_sequence s"
  by (induction bs arbitrary: s) (simp_all add: stream_push_def Let_def)

lemma exact_event:
  assumes "stream_exact got fresh s s'"
  shows "stream_exact got (fresh @ fresh_payload s' [(sequence, bs)]) s (stream_event sequence bs s')"
    "fresh_payload s' [(sequence, bs)] @ fresh_payload (stream_event sequence bs s') es = fresh_payload s' ((sequence, bs) # es)"
proof -
  let ?old = "sb_sequence_initialized s' \<and>
    (sequence - sb_last_sequence s' = 0 \<or> sequence - sb_last_sequence s' \<ge> 0x80000000)"
  define s1 where "s1 = snd (stream_sequence sequence s')"
  have s1: "stream_sequence sequence s' = (sequence = 0 \<or> \<not> ?old, s1)"
    "sb_bytes s1 = sb_bytes s'" "sb_dropped_bytes s1 = sb_dropped_bytes s'"
    "sb_sequence_initialized s1 = (sb_sequence_initialized s' \<or> sequence \<noteq> 0)"
    "sb_last_sequence s1 = (if sequence = 0 \<or> ?old then sb_last_sequence s' else sequence)"
    by (simp_all add: s1_def stream_sequence_def Let_def)
  have "stream_exact got fresh s s1" using assms s1(2,3) by (simp add: stream_exact_def)
  then show "stream_exact got (fresh @ fresh_payload s' [(sequence, bs)]) s (stream_event sequence bs s')"
    using exact_pushes s1(1) by (auto simp: stream_event_def)
  show "fresh_payload s' [(sequence, bs)] @ fresh_payload (stream_event sequence bs s') es =
      fresh_payload s' ((sequence, bs) # es)"
    using s1 by (auto simp: stream_event_def intro!: fresh_payload_cong)
qed

subsection \<open>The daemon\<close>

text \<open>What the worker and the clients do to the streams, with the stream and the bytes of a read that was answered.\<close>

datatype stream_op = SO_Event u32 packet | SO_Read u32 u32 u32 time time

definition read_reply :: "client_phase \<Rightarrow> byte list" where
  "read_reply phase = (case phase of
     CP_Done (ReplyOk body) \<Rightarrow>
       (case decode_ipc_uart_stream_chunk body of Inl e \<Rightarrow> [] | Inr chunk \<Rightarrow> uc_data chunk)
   | _ \<Rightarrow> [])"

fun stream_ops :: "u64 \<Rightarrow> stream_op list \<Rightarrow> daemon \<Rightarrow> byte list \<times> daemon" where
  "stream_ops k [] d = ([], d)"
| "stream_ops k (SO_Event can_id p # ops) d = stream_ops k ops (on_event can_id p d)"
| "stream_ops k (SO_Read node_id object_id n deadline now # ops) d =
     (let (phase, d1) = wait_stream node_id object_id n deadline now d;
          (got, d2) = stream_ops k ops d1
      in (if uart_stream_key node_id object_id = k then read_reply phase @ got else got, d2))"

text \<open>The events of the stream of a node's object.\<close>

fun events_of :: "u32 \<Rightarrow> u32 \<Rightarrow> stream_op list \<Rightarrow> (u32 \<times> byte list) list" where
  "events_of node_id object_id [] = []"
| "events_of node_id object_id (SO_Event can_id p # ops) =
     (if can_id = kNodeHeartbeatBaseCanId + node_id \<and> ph_command (header p) = command_code UartRxEvent \<and>
         ph_object_id (header p) = object_id
      then [(ph_request_id (header p), payload p)] else []) @ events_of node_id object_id ops"
| "events_of node_id object_id (SO_Read n ob m deadline now # ops) = events_of node_id object_id ops"

fun reads_fit :: "stream_op \<Rightarrow> bool" where
  "reads_fit (SO_Event can_id p) = True"
| "reads_fit (SO_Read n ob m deadline now) = (unat m \<le> kMaximumIpcBodySize - 20)"

abbreviation stream_of :: "daemon \<Rightarrow> u64 \<Rightarrow> stream_buffer" where
  "stream_of d k \<equiv> hfind empty_stream k (dm_streams d)"

lemma uart_stream_key_inject [simp]:
  "uart_stream_key n ob = uart_stream_key n' ob' \<longleftrightarrow> n = n' \<and> ob = ob'"
  using request_key_inject [of n ob n' ob'] by (simp add: uart_stream_key_def request_key_def)

lemma hfind_hput [simp]: "hfind i k (hput k' v m) = (if k = k' then v else hfind i k m)"
  by (simp add: hfind_def del: map_of_eq_Some_iff)

lemma on_event_stream:
  assumes "0 < node_id" "node_id \<le> kMaximumNodeId" "object_id \<noteq> 0"
  shows "stream_of (on_event can_id p d) (uart_stream_key node_id object_id) =
    (if can_id = kNodeHeartbeatBaseCanId + node_id \<and> ph_command (header p) = command_code UartRxEvent \<and>
        ph_object_id (header p) = object_id
     then stream_event (ph_request_id (header p)) (payload p) (stream_of d (uart_stream_key node_id object_id))
     else stream_of d (uart_stream_key node_id object_id))"
proof -
  have "in_id_range kNodeHeartbeatBaseCanId (kNodeHeartbeatBaseCanId + node_id)"
    using assms(1,2) by (simp add: in_id_range_def daemon_consts word_less_nat_alt word_le_nat_alt unat_plus_if')
  moreover have "node_id = can_id - kNodeHeartbeatBaseCanId \<longleftrightarrow> can_id = kNodeHeartbeatBaseCanId + node_id"
    by (auto simp: algebra_simps)
  ultimately show ?thesis using assms(3) by (auto simp: on_event_def Let_def)
qed

lemma wait_stream_reads:
  assumes "unat m \<le> kMaximumIpcBodySize - 20" "wait_stream n ob m deadline now d = (phase, d')"
  defines "k \<equiv> uart_stream_key n ob"
  shows "\<exists>i. read_reply phase = take i (sb_bytes (stream_of d k)) \<and>
      stream_of d' k = (stream_of d k)\<lparr>sb_bytes := drop i (sb_bytes (stream_of d k))\<rparr>"
    "k' \<noteq> k \<Longrightarrow> stream_of d' k' = stream_of d k'"
proof -
  have dec: "decode_ipc_uart_stream_chunk (put_u16 1 @ put_u16 0 @ put_u64 a @ put_u64 b @ bs) =
      Inr \<lparr>uc_data = bs, uc_dropped_bytes = a, uc_lost_events = b\<rparr>" for a b bs
    by (simp add: decode_ipc_uart_stream_chunk_def)
  show "\<exists>i. read_reply phase = take i (sb_bytes (stream_of d k)) \<and>
      stream_of d' k = (stream_of d k)\<lparr>sb_bytes := drop i (sb_bytes (stream_of d k))\<rparr>"
  proof (cases "sb_bytes (stream_of d k) = []")
    case True
    then have "read_reply phase = [] \<and> d' = d"
      using assms(2) by (auto simp: wait_stream_def Let_def k_def read_reply_def split: if_splits)
    then show ?thesis by (intro exI [of _ 0]) simp
  next
    case False
    then show ?thesis
      using assms(1,2) dec
      by (intro exI [of _ "min (unat m) (length (sb_bytes (stream_of d k)))"])
        (auto simp: wait_stream_def Let_def k_def read_reply_def ok_reply_def encode_ipc_uart_stream_chunk_def)
  qed
  show "k' \<noteq> k \<Longrightarrow> stream_of d' k' = stream_of d k'"
    using assms(2) by (auto simp: wait_stream_def Let_def k_def split: if_splits)
qed

lemma stream_ops_exact:
  assumes "0 < node_id" "node_id \<le> kMaximumNodeId" "object_id \<noteq> 0" "list_all reads_fit ops"
    and "stream_ops (uart_stream_key node_id object_id) ops d = (got, d')"
    and "stream_exact got0 fresh0 s (stream_of d (uart_stream_key node_id object_id))"
  shows "stream_exact (got0 @ got)
    (fresh0 @ fresh_payload (stream_of d (uart_stream_key node_id object_id)) (events_of node_id object_id ops))
    s (stream_of d' (uart_stream_key node_id object_id))"
  using assms(4-6)
proof (induction ops arbitrary: d got got0 fresh0)
  case (Cons operation ops)
  let ?k = "uart_stream_key node_id object_id"
  show ?case
  proof (cases operation)
    case (SO_Event can_id p)
    let ?mine = "can_id = kNodeHeartbeatBaseCanId + node_id \<and> ph_command (header p) = command_code UartRxEvent \<and>
      ph_object_id (header p) = object_id"
    note on = on_event_stream [OF assms(1-3), of can_id p d]
    show ?thesis
    proof (cases ?mine)
      case True
      let ?s = "stream_of d ?k" and ?e = "(ph_request_id (header p), payload p)"
      have on': "stream_of (on_event can_id p d) ?k = stream_event (ph_request_id (header p)) (payload p) ?s"
        using on by (simp only: True if_True simp_thms)
      have "stream_exact (got0 @ got) ((fresh0 @ fresh_payload ?s [?e]) @
          fresh_payload (stream_of (on_event can_id p d) ?k) (events_of node_id object_id ops)) s (stream_of d' ?k)"
        by (rule Cons.IH)
          (use Cons.prems exact_event(1) [OF Cons.prems(3)] in \<open>simp_all only: SO_Event on' stream_ops.simps list.pred_inject\<close>)
      moreover have "events_of node_id object_id (operation # ops) = ?e # events_of node_id object_id ops"
        unfolding SO_Event events_of.simps if_P [OF True] by simp
      ultimately show ?thesis
        using exact_event(2) [OF Cons.prems(3), of "ph_request_id (header p)" "payload p" "events_of node_id object_id ops"]
        by (metis append_assoc on')
    next
      case False
      have on': "stream_of (on_event can_id p d) ?k = stream_of d ?k" using on unfolding if_not_P [OF False] .
      have ev: "events_of node_id object_id (operation # ops) = events_of node_id object_id ops"
        unfolding SO_Event events_of.simps if_not_P [OF False] by simp
      show ?thesis unfolding ev on' [symmetric]
        by (rule Cons.IH) (use Cons.prems in \<open>simp_all only: SO_Event on' stream_ops.simps list.pred_inject\<close>)
    qed
  next
    case (SO_Read n ob m deadline now)
    obtain phase d1 where w: "wait_stream n ob m deadline now d = (phase, d1)" by fastforce
    obtain rest d2 where r: "stream_ops ?k ops d1 = (rest, d2)" by fastforce
    have m: "unat m \<le> kMaximumIpcBodySize - 20" "list_all reads_fit ops" using Cons.prems(1) by (simp_all add: SO_Read)
    have d': "d' = d2" "got = (if uart_stream_key n ob = ?k then read_reply phase @ rest else rest)"
      using Cons.prems(2) w r by (simp_all add: SO_Read)
    have r': "stream_ops ?k ops d1 = (rest, d')" using r d'(1) by simp
    show ?thesis
    proof (cases "uart_stream_key n ob = ?k")
      case True
      then obtain i where i: "read_reply phase = take i (sb_bytes (stream_of d ?k))"
        "stream_of d1 ?k = (stream_of d ?k)\<lparr>sb_bytes := drop i (sb_bytes (stream_of d ?k))\<rparr>"
        using wait_stream_reads(1) [OF m(1) w] by metis
      have "fresh_payload (stream_of d1 ?k) es = fresh_payload (stream_of d ?k) es" for es
        by (rule fresh_payload_cong) (simp_all add: i(2))
      then show ?thesis
        using Cons.IH [OF m(2) r', of "got0 @ read_reply phase" fresh0] exact_take [OF Cons.prems(3), of i] d' True i
        by (simp add: SO_Read)
    next
      case False
      then have keep: "stream_of d1 ?k = stream_of d ?k" using wait_stream_reads(2) [OF m(1) w] by metis
      have "stream_exact (got0 @ rest) (fresh0 @ fresh_payload (stream_of d1 ?k) (events_of node_id object_id ops)) s (stream_of d' ?k)"
        by (rule Cons.IH [OF m(2) r']) (use Cons.prems(3) keep in simp)
      then show ?thesis unfolding keep SO_Read events_of.simps d'(2) if_not_P [OF False] .
    qed
  qed
qed simp

subsection \<open>The numbers of the events\<close>

text \<open>
  The node numbers the events of an object 1, 2, 3 and so on. An event is new when its number is above
  all numbers heard before; \<open>heard_before\<close> is the number the stream stands at. A stream that has heard
  nothing yet stands before the first number it hears.
\<close>

fun news :: "nat \<Rightarrow> nat list \<Rightarrow> nat list" where
  "news m [] = []"
| "news m (n # ns) = (if n > m then n # news n ns else news m ns)"

definition heard_before :: "stream_buffer \<Rightarrow> nat list \<Rightarrow> nat" where
  "heard_before s ns = (if sb_sequence_initialized s then unat (sb_last_sequence s)
     else case ns of [] \<Rightarrow> 0 | n # _ \<Rightarrow> n - 1)"

definition numbered :: "(nat \<Rightarrow> byte list) \<Rightarrow> nat list \<Rightarrow> (u32 \<times> byte list) list" where
  "numbered sent ns = map (\<lambda>n. (word_of_nat n, sent n)) ns"

definition stands_at :: "stream_buffer \<Rightarrow> nat \<Rightarrow> bool" where
  "stands_at s m \<longleftrightarrow> sb_sequence_initialized s \<and> sb_last_sequence s = word_of_nat m \<and> m < 2 ^ 31"

lemma number_nonzero: "1 \<le> n \<Longrightarrow> n < 2 ^ 31 \<Longrightarrow> (word_of_nat n :: u32) \<noteq> 0"
  using unat_of_nat_small [of n, where 'a = 32] by (auto simp flip: unat_eq_zero)

lemma pred_unat: "x \<noteq> 0 \<Longrightarrow> unat (x - 1) = unat x - 1" for x :: u32
  using unat_gt_0 [of x] by (simp add: unat_sub_if' Suc_le_eq)

lemma sequence_new:
  assumes "stands_at s m" "1 \<le> n" "n < 2 ^ 31"
  shows "stream_sequence (word_of_nat n) s =
    (if n > m then (True, s\<lparr>sb_lost_events := sb_lost_events s + word_of_nat (n - m - 1), sb_last_sequence := word_of_nat n\<rparr>)
     else (False, s))"
proof -
  let ?n = "word_of_nat n :: u32" and ?m = "word_of_nat m :: u32"
  have u: "unat ?n = n" "unat ?m = m" using assms by (simp_all add: stands_at_def unat_of_nat_small)
  have nz: "?n \<noteq> 0" by (rule number_nonzero [OF assms(2,3)])
  show ?thesis
  proof (cases "n > m")
    case True
    then have d: "unat (?n - ?m) = n - m" using u by (simp add: unat_sub_if')
    then have "?n - ?m \<noteq> 0" "\<not> ?n - ?m \<ge> 0x80000000"
      using True assms(3) by (auto simp: word_le_nat_alt simp flip: unat_gt_0)
    moreover have "(if ?n - ?m > 1 then ucast (?n - ?m - 1) else 0 :: u64) = word_of_nat (n - m - 1)"
    proof (cases "n - m = 1")
      case one: True
      then have "\<not> ?n - ?m > 1" using d by (simp add: word_less_nat_alt)
      then show ?thesis using one by simp
    next
      case False
      then have big: "?n - ?m > 1" using d True by (simp add: word_less_nat_alt)
      then have "?n - ?m \<noteq> 0" by auto
      then have "unat (?n - ?m - 1) = n - m - 1" using d pred_unat [of "?n - ?m"] by argo
      have "unat (word_of_nat (n - m - 1) :: u64) = n - m - 1"
        using assms(3) by (intro unat_of_nat_small) simp
      then show ?thesis using big \<open>unat (?n - ?m - 1) = n - m - 1\<close> by (simp add: word_unat_eq_iff unat_ucast_u32)
    qed
    ultimately show ?thesis using True nz assms(1) by (simp add: stream_sequence_def stands_at_def Let_def)
  next
    case False
    have "?n - ?m = 0 \<or> ?n - ?m \<ge> 0x80000000"
    proof (cases "n = m")
      case eq: False
      then have "unat (?n - ?m) = 4294967296 + n - m" using False u by (simp add: unat_sub_if')
      moreover have "m < 2147483648" using assms(1) by (simp add: stands_at_def)
      ultimately have "2147483648 \<le> unat (?n - ?m)" by arith
      then show ?thesis by (simp add: word_le_nat_alt)
    qed simp
    then show ?thesis using False nz assms(1) by (simp add: stream_sequence_def stands_at_def Let_def)
  qed
qed

lemma fresh_news:
  "stands_at s m \<Longrightarrow> \<forall>n \<in> set ns. 1 \<le> n \<and> n < 2 ^ 31 \<Longrightarrow>
   fresh_payload s (numbered sent ns) = concat (map sent (news m ns))"
proof (induction ns arbitrary: s m)
  case (Cons n ns)
  let ?s = "snd (stream_sequence (word_of_nat n) s)"
  have n: "1 \<le> n" "n < 2 ^ 31" using Cons.prems(2) by simp_all
  note sq = sequence_new [OF Cons.prems(1) n]
  note nz = number_nonzero [OF n]
  show ?case
  proof (cases "n > m")
    case True
    let ?s1 = "s\<lparr>sb_sequence_initialized := True, sb_last_sequence := word_of_nat n\<rparr>"
    have "\<not> (sb_sequence_initialized s \<and> (word_of_nat n - sb_last_sequence s = 0 \<or> word_of_nat n - sb_last_sequence s \<ge> 0x80000000))"
      using sq True nz by (auto simp: stream_sequence_def Let_def split: if_splits)
    then have "fresh_payload s (numbered sent (n # ns)) = sent n @ fresh_payload ?s1 (numbered sent ns)"
      using nz by (simp only: numbered_def list.map fresh_payload.simps if_False)
    moreover have "stands_at ?s1 n" using n by (simp add: stands_at_def)
    ultimately show ?thesis using True Cons.IH [of ?s1 n] Cons.prems(2) by simp
  next
    case False
    have "sb_sequence_initialized s \<and> (word_of_nat n - sb_last_sequence s = 0 \<or> word_of_nat n - sb_last_sequence s \<ge> 0x80000000)"
      using sq False nz by (auto simp: stream_sequence_def Let_def split: if_splits)
    then have "fresh_payload s (numbered sent (n # ns)) = fresh_payload s (numbered sent ns)"
      using nz by (simp only: numbered_def list.map fresh_payload.simps if_False if_True simp_thms)
    then show ?thesis using False Cons.IH [OF Cons.prems(1)] Cons.prems(2) by simp
  qed
qed (simp add: numbered_def)

lemma news_facts:
  "set (news m ns) \<subseteq> {m<..fold max ns m}" "sorted_wrt (<) (news m ns)" "m \<le> fold max ns m"
proof -
  have "set (news m ns) \<subseteq> {m<..fold max ns m} \<and> sorted_wrt (<) (news m ns) \<and> m \<le> fold max ns m"
  proof (induction ns arbitrary: m)
    case (Cons n ns)
    show ?case using Cons.IH [of n] Cons.IH [of m] by (auto simp: max_def)
  qed simp
  then show "set (news m ns) \<subseteq> {m<..fold max ns m}" "sorted_wrt (<) (news m ns)" "m \<le> fold max ns m" by simp_all
qed

lemma news_missing: "card ({m<..fold max ns m} - set (news m ns)) = fold max ns m - m - length (news m ns)"
  using news_facts [of m ns] by (simp add: card_Diff_subset distinct_card strict_sorted_iff)

lemma news_complete:
  assumes "{m<..fold max ns m} - set (news m ns) = {}"
  shows "news m ns = [m + 1..<fold max ns m + 1]"
proof (rule sorted_distinct_set_unique)
  show "set (news m ns) = set [m + 1..<fold max ns m + 1]" using assms news_facts(1) [of m ns] by fastforce
qed (use news_facts(2) [of m ns] in \<open>simp_all add: strict_sorted_iff del: upt_Suc\<close>)

text \<open>What a run does to the count of lost events.\<close>

definition count_event :: "u32 \<times> byte list \<Rightarrow> stream_buffer \<Rightarrow> stream_buffer" where
  "count_event e s = snd (stream_sequence (fst e) s)"

definition same_numbers :: "stream_buffer \<Rightarrow> stream_buffer \<Rightarrow> bool" where
  "same_numbers s s' \<longleftrightarrow> sb_sequence_initialized s = sb_sequence_initialized s' \<and>
     sb_last_sequence s = sb_last_sequence s' \<and> sb_lost_events s = sb_lost_events s'"

lemma push_lost [simp]: "sb_lost_events (fold stream_push bs s) = sb_lost_events s"
  by (induction bs arbitrary: s) (simp_all add: stream_push_def Let_def)

lemma same_numbers_event:
  "same_numbers s s' \<Longrightarrow> same_numbers (stream_event sequence bs s) (count_event (sequence, bs) s')"
  by (auto simp: same_numbers_def stream_event_def count_event_def stream_sequence_def Let_def)

lemma stream_ops_numbers:
  assumes "0 < node_id" "node_id \<le> kMaximumNodeId" "object_id \<noteq> 0" "list_all reads_fit ops"
    and "stream_ops (uart_stream_key node_id object_id) ops d = (got, d')"
    and "same_numbers (stream_of d (uart_stream_key node_id object_id)) s"
  shows "same_numbers (stream_of d' (uart_stream_key node_id object_id))
    (fold count_event (events_of node_id object_id ops) s)"
  using assms(4-6)
proof (induction ops arbitrary: d got s)
  case (Cons operation ops)
  let ?k = "uart_stream_key node_id object_id"
  show ?case
  proof (cases operation)
    case (SO_Event can_id p)
    let ?mine = "can_id = kNodeHeartbeatBaseCanId + node_id \<and> ph_command (header p) = command_code UartRxEvent \<and>
      ph_object_id (header p) = object_id"
    let ?e = "(ph_request_id (header p), payload p)"
    note on = on_event_stream [OF assms(1-3), of can_id p d]
    have "same_numbers (stream_of (on_event can_id p d) ?k) (if ?mine then count_event ?e s else s)"
    proof (cases ?mine)
      case True
      show ?thesis unfolding on if_P [OF True] by (rule same_numbers_event [OF Cons.prems(3)])
    next
      case False
      show ?thesis unfolding on if_not_P [OF False] by (rule Cons.prems(3))
    qed
    moreover have ev: "events_of node_id object_id (operation # ops) = (if ?mine then [?e] else []) @ events_of node_id object_id ops"
      by (simp only: SO_Event events_of.simps)
    have "fold count_event (events_of node_id object_id (operation # ops)) s =
        fold count_event (events_of node_id object_id ops) (if ?mine then count_event ?e s else s)"
    proof (cases ?mine)
      case True
      show ?thesis unfolding ev if_P [OF True] by simp
    next
      case False
      show ?thesis unfolding ev if_not_P [OF False] by simp
    qed
    ultimately show ?thesis using Cons.IH Cons.prems(1,2) unfolding SO_Event
      by (simp only: stream_ops.simps list.pred_inject reads_fit.simps simp_thms)
  next
    case (SO_Read n ob m deadline now)
    obtain phase d1 where w: "wait_stream n ob m deadline now d = (phase, d1)" by fastforce
    have m: "unat m \<le> kMaximumIpcBodySize - 20" "list_all reads_fit ops" using Cons.prems(1) by (simp_all add: SO_Read)
    have "same_numbers (stream_of d1 ?k) s"
    proof (cases "uart_stream_key n ob = ?k")
      case True
      then show ?thesis using wait_stream_reads(1) [OF m(1) w] Cons.prems(3) by (auto simp: same_numbers_def)
    next
      case False
      then show ?thesis using wait_stream_reads(2) [OF m(1) w] Cons.prems(3) by metis
    qed
    moreover have "\<exists>got1. stream_ops ?k ops d1 = (got1, d')"
      using Cons.prems(2) w by (auto simp: SO_Read split_beta Let_def prod_eq_iff)
    ultimately show ?thesis using Cons.IH m(2) by (auto simp: SO_Read)
  qed
qed simp

lemma lost_counted:
  "stands_at s m \<Longrightarrow> \<forall>n \<in> set ns. 1 \<le> n \<and> n < 2 ^ 31 \<Longrightarrow>
   sb_lost_events (fold count_event (numbered sent ns) s) =
     sb_lost_events s + word_of_nat (fold max ns m - m - length (news m ns))"
proof (induction ns arbitrary: s m)
  case (Cons n ns)
  have n: "1 \<le> n" "n < 2 ^ 31" using Cons.prems(2) by simp_all
  let ?s = "count_event (word_of_nat n, sent n) s"
  note sq = sequence_new [OF Cons.prems(1) n]
  show ?case
  proof (cases "n > m")
    case True
    have "stands_at ?s n" using sq True n Cons.prems(1) by (simp add: count_event_def stands_at_def)
    note rest = Cons.IH [OF this]
    have "length (news n ns) \<le> fold max ns n - n"
      using news_facts [of n ns] card_mono [of "{n<..fold max ns n}" "set (news n ns)"]
      by (simp add: distinct_card strict_sorted_iff)
    then have "fold max ns n - m - Suc (length (news n ns)) = (n - m - 1) + (fold max ns n - n - length (news n ns))"
      using True news_facts(3) [of n ns] by linarith
    then have "(word_of_nat (fold max ns n - m - Suc (length (news n ns))) :: u64) =
        word_of_nat (n - m - 1) + word_of_nat (fold max ns n - n - length (news n ns))" by (metis of_nat_add)
    moreover have "sb_lost_events ?s = sb_lost_events s + word_of_nat (n - m - 1)"
      using sq True by (simp add: count_event_def)
    moreover have "max n m = n" using True by simp
    ultimately show ?thesis using rest Cons.prems(2) True
      by (simp add: numbered_def del: of_nat_diff max_def)
  next
    case False
    then have "?s = s" using sq by (simp add: count_event_def)
    moreover have "max n m = m" using False by simp
    ultimately show ?thesis using Cons.IH [OF Cons.prems(1)] Cons.prems(2) False by (simp add: numbered_def)
  qed
qed (simp add: numbered_def)

text \<open>A stream that has heard nothing yet takes the first event and stands at its number.\<close>

lemma first_event:
  assumes "sb_sequence_initialized s \<longrightarrow> sb_last_sequence s < 0x80000000"
    and "\<forall>n \<in> set ns. 1 \<le> n \<and> n < 2 ^ 31"
  defines "m \<equiv> heard_before s ns"
  shows "fresh_payload s (numbered sent ns) = concat (map sent (news m ns))"
    "sb_lost_events (fold count_event (numbered sent ns) s) =
       sb_lost_events s + word_of_nat (fold max ns m - m - length (news m ns))"
    "fold max ns m < 2 ^ 31"
proof -
  have bound: "fold max ns k < 2 ^ 31" if "k < 2 ^ 31" for k
    using that assms(2) by (induction ns arbitrary: k) auto
  have "(fresh_payload s (numbered sent ns) = concat (map sent (news m ns)) \<and>
    sb_lost_events (fold count_event (numbered sent ns) s) =
       sb_lost_events s + word_of_nat (fold max ns m - m - length (news m ns))) \<and> fold max ns m < 2 ^ 31"
  proof (cases "sb_sequence_initialized s")
    case True
    then have "stands_at s m" using assms(1) by (simp add: m_def stands_at_def heard_before_def word_less_nat_alt)
    then show ?thesis using fresh_news lost_counted assms(2) bound by (simp add: stands_at_def)
  next
    case new: False
    show ?thesis
    proof (cases ns)
      case Nil
      then show ?thesis using new by (simp add: numbered_def m_def heard_before_def)
    next
      case (Cons n rest)
      let ?s = "s\<lparr>sb_sequence_initialized := True, sb_last_sequence := word_of_nat n\<rparr>"
      have n: "1 \<le> n" "n < 2 ^ 31" using assms(2) Cons by simp_all
      have m: "m = n - 1" using new Cons by (simp add: m_def heard_before_def)
      have at: "stands_at ?s n" using n by (simp add: stands_at_def)
      have "m < 2 ^ 31" using n m by simp
      note small = bound [OF this]
      have "stream_sequence (word_of_nat n) s = (True, ?s)"
        using new number_nonzero [OF n] by (simp add: stream_sequence_def)
      moreover have "fresh_payload s (numbered sent ns) = sent n @ fresh_payload ?s (numbered sent rest)"
        using new number_nonzero [OF n] by (simp add: Cons numbered_def)
      moreover have "max n (n - 1) = n" "n > n - 1" using n by simp_all
      ultimately show ?thesis
        using fresh_news [OF at, of rest sent] lost_counted [OF at, of rest sent] assms(2) small n news_facts(3) [of n rest]
        by (simp add: Cons m numbered_def count_event_def)
    qed
  qed
  then show "fresh_payload s (numbered sent ns) = concat (map sent (news m ns))"
    "sb_lost_events (fold count_event (numbered sent ns) s) =
       sb_lost_events s + word_of_nat (fold max ns m - m - length (news m ns))"
    "fold max ns m < 2 ^ 31" by blast+
qed

text \<open>
  C10. What the readers of a serial stream get of what its node sent, while the node is not reset: it numbers
  its events from 1 (fewer than 2^31), and the bus may lose, repeat and delay them, while events of other
  nodes and objects and the reads of other clients come in between. What the reads returned and what is
  still buffered is, in order and once, of what was buffered before and the events whose number is above
  all heard before; the buffer keeps to its 64 KiB. The bytes of these that are missing are as many as
  \<^verbatim>\<open>dropped_bytes\<close> has grown. The other events that the node sent up to the last number heard are as many
  as \<^verbatim>\<open>lost_events\<close> has grown. When neither has grown, the readers have or will get exactly every byte the
  node sent from where the stream stood to the last number heard.
\<close>

theorem uart_stream_exact:
  assumes "0 < node_id" "node_id \<le> kMaximumNodeId" "object_id \<noteq> 0" "list_all reads_fit ops"
    and ops: "stream_ops (uart_stream_key node_id object_id) ops d = (got, d')"
    and events: "events_of node_id object_id ops = numbered sent ns" "\<forall>n \<in> set ns. 1 \<le> n \<and> n < 2 ^ 31"
  defines "s \<equiv> stream_of d (uart_stream_key node_id object_id)"
    and "s' \<equiv> stream_of d' (uart_stream_key node_id object_id)"
  defines "first \<equiv> heard_before s ns"
  defines "last_heard \<equiv> fold max ns first"
  defines "due \<equiv> sb_bytes s @ concat (map sent (news first ns))"
  assumes small: "length (sb_bytes s) \<le> kUartStreamBufferCapacity" "length due < 2 ^ 64"
    and low: "sb_sequence_initialized s \<longrightarrow> sb_last_sequence s < 0x80000000"
  shows "length (sb_bytes s') \<le> kUartStreamBufferCapacity \<and> subseq (got @ sb_bytes s') due \<and>
    length due - length (got @ sb_bytes s') = unat (sb_dropped_bytes s' - sb_dropped_bytes s) \<and>
    card ({first<..last_heard} - set (news first ns)) = unat (sb_lost_events s' - sb_lost_events s) \<and>
    (sb_dropped_bytes s' = sb_dropped_bytes s \<and> sb_lost_events s' = sb_lost_events s \<longrightarrow>
       got @ sb_bytes s' = sb_bytes s @ concat (map sent [first + 1..<last_heard + 1]))"
proof -
  note f = first_event(1,2) [OF low events(2), where sent = sent, folded first_def, folded last_heard_def]
  note top = first_event(3) [OF low events(2), folded first_def, folded last_heard_def]
  have "stream_exact got (fresh_payload s (numbered sent ns)) s s'"
    using stream_ops_exact [OF assms(1-4) ops, of "[]" "[]" s] exact_start [OF small(1)]
    by (simp add: s_def s'_def flip: events(1))
  from this [unfolded stream_exact_def f(1), folded due_def]
  obtain k where k: "length (sb_bytes s') \<le> kUartStreamBufferCapacity" "subseq (got @ sb_bytes s') due"
    "length due = length (got @ sb_bytes s') + k" "sb_dropped_bytes s' = sb_dropped_bytes s + word_of_nat k"
    by (elim conjE exE)
  have u: "unat (word_of_nat k :: u64) = k" using small(2) k(3) by (simp add: unat_of_nat_small)
  let ?lost = "last_heard - first - length (news first ns)"
  have "same_numbers s' (fold count_event (numbered sent ns) s)"
    using stream_ops_numbers [OF assms(1-4) ops, of s] by (simp add: same_numbers_def s_def s'_def flip: events(1))
  then have lost: "sb_lost_events s' - sb_lost_events s = word_of_nat ?lost" using f(2) by (simp add: same_numbers_def)
  have "unat (word_of_nat ?lost :: u64) = ?lost" using top by (intro unat_of_nat_small) simp
  then have count: "card ({first<..last_heard} - set (news first ns)) = unat (sb_lost_events s' - sb_lost_events s)"
    unfolding lost last_heard_def news_missing by simp
  have "got @ sb_bytes s' = sb_bytes s @ concat (map sent [first + 1..<last_heard + 1])"
    if same: "sb_dropped_bytes s' = sb_dropped_bytes s" "sb_lost_events s' = sb_lost_events s"
  proof -
    have "k = 0" using k(4) u same(1) by (metis add_cancel_left_right unat_0)
    then have "got @ sb_bytes s' = due" using subseq_same_length [OF k(2)] k(3) by simp
    moreover have "{first<..last_heard} - set (news first ns) = {}" using count same(2) by simp
    ultimately show ?thesis using news_complete [of first ns] by (simp add: due_def last_heard_def)
  qed
  then show ?thesis using k u count by auto
qed

text \<open>One event, a repetition of it, the next one, and a read of two bytes.\<close>

definition demo_serial :: "u32 \<Rightarrow> byte list \<Rightarrow> stream_op" where
  "demo_serial sequence bs = SO_Event 0x503 (demo_packet Event UartRxEvent 0 sequence 9 bs)"

lemma demo_serial_event:
  "on_event 0x503 (demo_packet Event UartRxEvent 0 sequence 9 bs) d = (d\<lparr>
     dm_streams := hput (uart_stream_key 3 9) (stream_event sequence bs (stream_of d (uart_stream_key 3 9))) (dm_streams d),
     dm_event_queues := hput 3 (queue_event (demo_packet Event UartRxEvent 0 sequence 9 bs)
       (hfind [] 3 (dm_event_queues d))) (dm_event_queues d)\<rparr>)"
  by (simp add: on_event_def in_id_range_def daemon_consts Let_def demo_packet_def default_header_def)

theorem uart_stream_exact_witness:
  "\<exists>d d'. daemon_new id 64 True demo_config 9 [] 0 = Inr d \<and>
     stream_ops (uart_stream_key 3 9) [demo_serial 1 [10, 11], demo_serial 1 [10, 11], demo_serial 2 [12], SO_Read 3 9 2 5 1] d =
       ([10, 11], d') \<and> [10, 11] @ sb_bytes (stream_of d' (uart_stream_key 3 9)) = [10, 11, 12]"
proof -
  let ?ops = "[demo_serial 1 [10, 11], demo_serial 1 [10, 11], demo_serial 2 [12], SO_Read 3 9 2 5 1]"
  let ?k = "uart_stream_key 3 9"
  obtain t where t: "traffic_controller_new id demo_config 0 = Inr t"
    by (simp add: traffic_controller_new_def demo_config_def Let_def)
  obtain d where d: "daemon_new id 64 True demo_config 9 [] 0 = Inr d" "stream_of d ?k = empty_stream"
    using t by (simp add: daemon_new_def fragmenter_new_def validate_mtu_def kFragmentHeaderSize_def reassembler_new_def
        request_manager_new_def node_registry_new_def ms_def hfind_def)
  obtain got d' where ops: "stream_ops ?k ?ops d = (got, d')" by fastforce
  define s1 where "s1 = stream_event 1 [10, 11] empty_stream"
  have s1: "s1 = \<lparr>sb_bytes = [10, 11], sb_dropped_bytes = 0, sb_lost_events = 0, sb_last_sequence = 1, sb_sequence_initialized = True\<rparr>"
    by (simp add: s1_def stream_event_def stream_sequence_def empty_stream_def stream_push_def kUartStreamBufferCapacity_def)
  have s2: "stream_event 1 [10, 11] s1 = s1" by (simp add: s1 stream_event_def stream_sequence_def)
  have s3: "stream_event 2 [12] s1 = s1\<lparr>sb_bytes := [10, 11, 12], sb_last_sequence := 2\<rparr>"
    by (simp add: s1 stream_event_def stream_sequence_def stream_push_def kUartStreamBufferCapacity_def word_le_nat_alt)
  obtain d3 where d3: "stream_ops ?k ?ops d = stream_ops ?k [SO_Read 3 9 2 5 1] d3"
    "stream_of d3 ?k = s1\<lparr>sb_bytes := [10, 11, 12], sb_last_sequence := 2\<rparr>"
    using d(2) s1_def s2 s3 by (simp add: demo_serial_def demo_serial_event)
  have "read_reply (fst (wait_stream 3 9 2 5 1 d3)) = [10, 11]"
    "sb_dropped_bytes (stream_of (snd (wait_stream 3 9 2 5 1 d3)) ?k) = 0"
    using d3(2) by (simp_all add: wait_stream_def Let_def read_reply_def ok_reply_def s1
        encode_ipc_uart_stream_chunk_def decode_ipc_uart_stream_chunk_def kMaximumIpcBodySize_def)
  then have got: "got = [10, 11]" "sb_dropped_bytes (stream_of d' ?k) = 0"
    using ops d3(1) by (auto simp: split_beta)
  have events: "events_of 3 9 ?ops = [(1, [10, 11]), (1, [10, 11]), (2, [12])]"
    by (simp add: demo_serial_def demo_packet_def default_header_def daemon_consts)
  have fit: "list_all reads_fit ?ops" by (simp add: demo_serial_def kMaximumIpcBodySize_def)
  have key: "(0 :: u32) < 3" "3 \<le> kMaximumNodeId" "(9 :: u32) \<noteq> 0" by (simp_all add: kMaximumNodeId_def)
  let ?sent = "\<lambda>n :: nat. if n = 1 then [10, 11] else [12 :: byte]"
  have numbers: "events_of 3 9 ?ops = numbered ?sent [1, 1, 2]" "\<forall>n \<in> set [1, 1, 2 :: nat]. 1 \<le> n \<and> n < 2 ^ 31"
    unfolding events by (simp_all add: numbered_def)
  have before: "heard_before (stream_of d ?k) [1, 1, 2] = 0" unfolding heard_before_def d(2) by (simp add: empty_stream_def)
  have small: "length (sb_bytes (stream_of d ?k)) \<le> kUartStreamBufferCapacity"
    "length (sb_bytes (stream_of d ?k) @ concat (map ?sent (news (heard_before (stream_of d ?k) [1, 1, 2]) [1, 1, 2]))) < 2 ^ 64"
    "sb_sequence_initialized (stream_of d ?k) \<longrightarrow> sb_last_sequence (stream_of d ?k) < 0x80000000"
    unfolding before d(2) by (simp_all add: empty_stream_def)
  note exact = uart_stream_exact [OF key fit ops numbers small, unfolded before]
  have "{0<..fold max [1, 1, 2] 0} - set (news 0 [1, 1, 2]) = {}" by auto
  then have "unat (sb_lost_events (stream_of d' ?k) - sb_lost_events (stream_of d ?k)) = 0"
    using exact by (metis card.empty)
  then have "got @ sb_bytes (stream_of d' ?k) =
      sb_bytes (stream_of d ?k) @ concat (map ?sent [0 + 1..<fold max [1, 1, 2] 0 + 1])"
    using exact got(2) d(2) by (simp only: unat_eq_zero right_minus_eq empty_stream_def stream_buffer.simps simp_thms)
  then have "got @ sb_bytes (stream_of d' ?k) = [10, 11, 12]"
    unfolding d(2) by (simp add: empty_stream_def upt_rec)
  then show ?thesis using d(1) ops got(1) by blast
qed

text \<open>
  A node that was reset numbers its events from 1 again. As long as these numbers are not past the last
  one of before, the daemon takes them for repetitions: their bytes are neither delivered nor counted.
\<close>

lemma uart_restart_ignored:
  assumes "sb_sequence_initialized s" "sequence \<noteq> 0" "sequence \<le> sb_last_sequence s" "sb_last_sequence s \<le> 0x80000000"
  shows "stream_event sequence bs s = s"
proof -
  have "sequence - sb_last_sequence s = 0 \<or> sequence - sb_last_sequence s \<ge> 0x80000000"
  proof (cases "sequence = sb_last_sequence s")
    case False
    then have "sequence < sb_last_sequence s" using assms(3) by simp
    then have "unat sequence < unat (sb_last_sequence s)" "unat (sb_last_sequence s) \<le> 2147483648" "0 < unat sequence"
      using assms(2,4) by (simp_all add: word_less_nat_alt word_le_nat_alt unat_gt_0)
    then have "unat (sequence - sb_last_sequence s) = 4294967296 + unat sequence - unat (sb_last_sequence s)"
      using unat_sub_if' [of sequence "sb_last_sequence s"] by simp
    then have "2147483648 \<le> unat (sequence - sb_last_sequence s)"
      using \<open>unat (sb_last_sequence s) \<le> 2147483648\<close> by linarith
    then show ?thesis by (simp add: word_le_nat_alt)
  qed simp
  then show ?thesis using assms(1,2) by (auto simp: stream_event_def stream_sequence_def Let_def)
qed

end
