(* ===== verification/Client.thy ===== *)
theory Client
  imports Ipc Resource_Payload Motion_Payload
begin

text \<open>
  \<^verbatim>\<open>libremotebsp/src/client.cpp\<close>: the library that local programs use. Every call opens a connection of
  its own to the daemon, sends one request and waits for one response. What is outside the process is
  the record \<open>world\<close> over a state \<open>'w\<close>: the system calls that open the connection, what the sends on it
  will do, the bytes that come back for the bytes sent, and the clock. Closing the connection has no
  result and is left out, as are the texts of exceptions other than those the daemon sends.
\<close>

subsection \<open>Data\<close>

datatype client_error =
    CE_Invalid | CE_System | CE_Ipc ipc_error | CE_TimedOut | CE_Daemon "byte list"
  | CE_Packet packet_error | CE_Mismatch | CE_NotEvent | CE_NoStatus | CE_BadLength | CE_Remote byte
  | CE_NoObject | CE_BadLevel | CE_Resource resource_payload_error | CE_Motion motion_payload_error
  | CE_WriteTimeout

record client =
  cl_socket_path :: string
  cl_node_id :: u32

record 'w world =
  wd_socket :: "'w \<Rightarrow> bool \<times> 'w"
  wd_set_timeout :: "bool \<Rightarrow> int \<Rightarrow> 'w \<Rightarrow> bool \<times> 'w"
  wd_connect :: "string \<Rightarrow> 'w \<Rightarrow> bool \<times> 'w"
  wd_outcomes :: "'w \<Rightarrow> send_event list \<times> 'w"
  wd_reply :: "byte list \<Rightarrow> 'w \<Rightarrow> recv_event list \<times> 'w"
  wd_now :: "'w \<Rightarrow> time \<times> 'w"
  wd_sleep :: "time \<Rightarrow> 'w \<Rightarrow> 'w"

type_synonym ('w, 'a) client_result = "(client_error + 'a) \<times> 'w"

text \<open>\<^verbatim>\<open>sizeof(sockaddr_un{}.sun_path)\<close> is 108.\<close>

definition path_ok :: "string \<Rightarrow> bool" where
  "path_ok path \<longleftrightarrow> path \<noteq> [] \<and> length path < 108"

definition client_new :: "string \<Rightarrow> u32 \<Rightarrow> client_error + client" where
  "client_new path node_id =
     (if \<not> path_ok path then Inl CE_Invalid
      else if node_id = 0 \<or> node_id > 127 then Inl CE_Invalid
      else Inr \<lparr>cl_socket_path = path, cl_node_id = node_id\<rparr>)"

subsection \<open>One exchange\<close>

definition connect_socket :: "'w world \<Rightarrow> string \<Rightarrow> 'w \<Rightarrow> ('w, unit) client_result" where
  "connect_socket W path w =
     (if \<not> path_ok path then (Inl CE_Invalid, w)
      else let (made, w1) = wd_socket W w in
        if \<not> made then (Inl CE_System, w1)
        else let (receives, w2) = wd_set_timeout W True 3000 w1 in
          if \<not> receives then (Inl CE_System, w2)
          else let (sends, w3) = wd_set_timeout W False 3000 w2 in
            if \<not> sends then (Inl CE_System, w3)
            else let (connected, w4) = wd_connect W path w3 in
              if \<not> connected then (Inl CE_System, w4) else (Inr (), w4))"

text \<open>A request on an open connection. What was sent has been sent also when sending fails.\<close>

definition ask :: "'w world \<Rightarrow> (socket \<Rightarrow> (ipc_error + unit) \<times> socket) \<Rightarrow> 'w \<Rightarrow> ('w, ipc_response) client_result" where
  "ask W write w =
     (let (outcomes, w1) = wd_outcomes W w;
          (r, s) = write \<lparr>so_incoming = [], so_outcomes = outcomes, so_sent = []\<rparr>;
          (incoming, w2) = wd_reply W (so_sent s) w1
      in case r of
           Inl e \<Rightarrow> (Inl (CE_Ipc e), w2)
         | Inr _ \<Rightarrow> (map_error CE_Ipc (fst (read_ipc_response (s\<lparr>so_incoming := incoming\<rparr>))), w2))"

definition exchange ::
  "'w world \<Rightarrow> client \<Rightarrow> (socket \<Rightarrow> (ipc_error + unit) \<times> socket) \<Rightarrow> 'w \<Rightarrow> ('w, ipc_response) client_result" where
  "exchange W cl write w =
     (case connect_socket W (cl_socket_path cl) w of
        (Inl e, w1) \<Rightarrow> (Inl e, w1) | (Inr _, w1) \<Rightarrow> ask W write w1)"

text \<open>What a call makes of its result: the rest of the call changes nothing outside.\<close>

definition afterwards :: "('w, 'a) client_result \<Rightarrow> ('a \<Rightarrow> client_error + 'b) \<Rightarrow> ('w, 'b) client_result" where
  "afterwards r f = (try_bind (fst r) f, snd r)"

definition as_request :: "packet \<Rightarrow> packet" where
  "as_request p = p\<lparr>header := (header p)\<lparr>ph_version := kProtocolVersion,
     ph_message_type := message_type_code Request\<rparr>\<rparr>"

definition answer_of :: "packet \<Rightarrow> ipc_response \<Rightarrow> client_error + packet" where
  "answer_of request response =
     (if is_status response = IPC_TimedOut then Inl CE_TimedOut
      else if is_status response \<noteq> IPC_Ok then Inl (CE_Daemon (is_body response))
      else try_bind (map_error CE_Packet (decode (is_body response))) (\<lambda>packet.
        if ph_message_type (header packet) \<noteq> message_type_code Response \<or>
           ph_command (header packet) \<noteq> ph_command (header request)
        then Inl CE_Mismatch else Inr packet))"

definition transact :: "'w world \<Rightarrow> client \<Rightarrow> packet \<Rightarrow> 'w \<Rightarrow> ('w, packet) client_result" where
  "transact W cl p w =
     (let request = as_request p
      in afterwards (exchange W cl (write_ipc_request request (cl_node_id cl)) w) (answer_of request))"

definition command_packet :: "command \<Rightarrow> byte list \<Rightarrow> u32 \<Rightarrow> packet" where
  "command_packet c bs object_id = \<lparr>header = default_header\<lparr>ph_message_type := message_type_code Request,
     ph_command := command_code c, ph_object_id := object_id\<rparr>, payload = bs\<rparr>"

definition client_command ::
  "'w world \<Rightarrow> client \<Rightarrow> command \<Rightarrow> byte list \<Rightarrow> u32 \<Rightarrow> 'w \<Rightarrow> ('w, packet) client_result" where
  "client_command W cl c bs object_id w = transact W cl (command_packet c bs object_id) w"

definition body_of :: "nat \<Rightarrow> packet \<Rightarrow> client_error + byte list" where
  "body_of expected response =
     (case payload response of
        [] \<Rightarrow> Inl CE_NoStatus
      | status # rest \<Rightarrow>
          if status \<noteq> 0 then Inl (CE_Remote status)
          else if expected \<noteq> 0 \<and> length rest \<noteq> expected then Inl CE_BadLength
          else Inr rest)"

definition done_of :: "packet \<Rightarrow> client_error + unit" where
  "done_of response = try_bind (body_of 0 response) (\<lambda>_. Inr ())"

subsection \<open>The node\<close>

definition client_ping :: "'w world \<Rightarrow> client \<Rightarrow> byte list \<Rightarrow> 'w \<Rightarrow> ('w, byte list) client_result" where
  "client_ping W cl data w =
     (if length data \<ge> kMaximumPayloadSize then (Inl CE_Invalid, w)
      else afterwards (client_command W cl Ping data 0 w) (body_of 0))"

definition client_get_info :: "'w world \<Rightarrow> client \<Rightarrow> 'w \<Rightarrow> ('w, node_identity) client_result" where
  "client_get_info W cl w = afterwards (client_command W cl GetInfo [] 0 w) (\<lambda>response.
     try_bind (body_of 27 response) (\<lambda>data. Inr
       \<lparr>ni_uuid = copy_uuid data, ni_firmware_major = get_u16 (drop 16 data),
        ni_firmware_minor = get_u16 (drop 18 data), ni_firmware_patch = get_u16 (drop 20 data),
        ni_board_type = get_u32 (drop 22 data), ni_protocol_version = data ! 26\<rparr>))"

definition client_get_capabilities :: "'w world \<Rightarrow> client \<Rightarrow> 'w \<Rightarrow> ('w, u64) client_result" where
  "client_get_capabilities W cl w = afterwards (client_command W cl GetCapability [] 0 w) (\<lambda>response.
     try_bind (body_of 8 response) (\<lambda>data. Inr (get_u64 data)))"

text \<open>The bytes of \<open>RBSPBOOT\<close>.\<close>

definition client_boot_confirmation :: "byte list" where
  "client_boot_confirmation = [0x52, 0x42, 0x53, 0x50, 0x42, 0x4F, 0x4F, 0x54]"

definition client_enter_bootloader :: "'w world \<Rightarrow> client \<Rightarrow> 'w \<Rightarrow> ('w, unit) client_result" where
  "client_enter_bootloader W cl w =
     afterwards (client_command W cl BootloaderEnter client_boot_confirmation 0 w) done_of"

definition client_enter_usb_bootloader :: "'w world \<Rightarrow> client \<Rightarrow> 'w \<Rightarrow> ('w, unit) client_result" where
  "client_enter_usb_bootloader W cl w =
     afterwards (client_command W cl BootloaderEnterUsb client_boot_confirmation 0 w) done_of"

subsection \<open>The daemon\<close>

text \<open>The body of a response that the daemon marked as good.\<close>

definition local_body :: "ipc_response \<Rightarrow> client_error + byte list" where
  "local_body response =
     (if is_status response \<noteq> IPC_Ok then Inl (CE_Daemon (is_body response)) else Inr (is_body response))"

record discovered_node =
  dn_identity :: node_identity
  dn_node_id :: u32
  dn_online :: bool
  dn_ready :: bool

definition discovered :: "ipc_node_info \<Rightarrow> discovered_node" where
  "discovered node = \<lparr>dn_identity = \<lparr>ni_uuid = in_uuid node, ni_firmware_major = in_firmware_major node,
       ni_firmware_minor = in_firmware_minor node, ni_firmware_patch = in_firmware_patch node,
       ni_board_type = in_board_type node, ni_protocol_version = in_protocol_version node\<rparr>,
     dn_node_id = in_node_id node, dn_online = in_online node, dn_ready = in_ready node\<rparr>"

definition client_list_nodes :: "'w world \<Rightarrow> client \<Rightarrow> 'w \<Rightarrow> ('w, discovered_node list) client_result" where
  "client_list_nodes W cl w = afterwards (exchange W cl write_ipc_node_list_request w) (\<lambda>response.
     try_bind (local_body response) (\<lambda>bs.
     try_bind (map_error CE_Ipc (decode_ipc_node_list bs)) (\<lambda>nodes. Inr (map discovered nodes))))"

record can_traffic_status =
  ct_can_fd :: bool
  ct_arbitration_bits_per_second :: u32
  ct_data_bits_per_second :: u32
  ct_maximum_utilization_permille :: u16
  ct_burst_window_ms :: u32
  ct_global_capacity_ns :: u64
  ct_global_available_ns :: u64
  ct_admitted_packets :: u64
  ct_rejected_packets :: u64
  ct_guaranteed_overruns :: u64
  ct_admitted_frames :: u64
  ct_estimated_wire_time_ns :: u64
  ct_classes :: "traffic_class_counters list"

definition traffic_status_of :: "traffic_snapshot \<Rightarrow> can_traffic_status" where
  "traffic_status_of snapshot = \<lparr>ct_can_fd = (ts_mode snapshot = TB_CanFd),
     ct_arbitration_bits_per_second = ts_arbitration_bits_per_second snapshot,
     ct_data_bits_per_second = ts_data_bits_per_second snapshot,
     ct_maximum_utilization_permille = ts_maximum_utilization_permille snapshot,
     ct_burst_window_ms = ts_burst_window_ms snapshot,
     ct_global_capacity_ns = ts_global_capacity_ns snapshot,
     ct_global_available_ns = ts_global_available_ns snapshot,
     ct_admitted_packets = ts_admitted_packets snapshot,
     ct_rejected_packets = ts_rejected_packets snapshot,
     ct_guaranteed_overruns = ts_guaranteed_overruns snapshot,
     ct_admitted_frames = ts_admitted_frames snapshot,
     ct_estimated_wire_time_ns = ts_estimated_wire_time_ns snapshot,
     ct_classes = ts_classes snapshot\<rparr>"

definition client_traffic_status :: "'w world \<Rightarrow> client \<Rightarrow> 'w \<Rightarrow> ('w, can_traffic_status) client_result" where
  "client_traffic_status W cl w = afterwards (exchange W cl write_ipc_traffic_status_request w) (\<lambda>response.
     try_bind (local_body response) (\<lambda>bs.
     try_bind (map_error CE_Ipc (decode_ipc_traffic_status bs)) (\<lambda>snapshot. Inr (traffic_status_of snapshot))))"

definition client_next_event :: "'w world \<Rightarrow> client \<Rightarrow> 'w \<Rightarrow> ('w, packet option) client_result" where
  "client_next_event W cl w =
     afterwards (exchange W cl (write_ipc_next_event_request (cl_node_id cl)) w) (\<lambda>response.
       if is_status response = IPC_TimedOut then Inr None
       else try_bind (local_body response) (\<lambda>bs.
         try_bind (map_error CE_Packet (decode bs)) (\<lambda>packet.
           if ph_message_type (header packet) \<noteq> message_type_code Event then Inl CE_NotEvent
           else Inr (Some packet))))"

subsection \<open>Resources\<close>

text \<open>A command whose good answer is decoded.\<close>

definition decoded :: "(byte list \<Rightarrow> resource_payload_error + 'a) \<Rightarrow> packet \<Rightarrow> client_error + 'a" where
  "decoded f response = try_bind (body_of 0 response) (\<lambda>bs. map_error CE_Resource (f bs))"

definition client_list_resources :: "'w world \<Rightarrow> client \<Rightarrow> 'w \<Rightarrow> ('w, resource_descriptor list) client_result" where
  "client_list_resources W cl w =
     afterwards (client_command W cl ResourceEnum [] 0 w) (decoded decode_resource_list)"

definition client_describe_resource ::
  "'w world \<Rightarrow> client \<Rightarrow> u32 \<Rightarrow> 'w \<Rightarrow> ('w, resource_descriptor) client_result" where
  "client_describe_resource W cl resource_id w =
     afterwards (client_command W cl ResourceDescribe (encode_resource_id resource_id) 0 w) (decoded decode_resource_descriptor)"

definition client_resource_status ::
  "'w world \<Rightarrow> client \<Rightarrow> u32 \<Rightarrow> 'w \<Rightarrow> ('w, resource_status_payload) client_result" where
  "client_resource_status W cl resource_id w =
     afterwards (client_command W cl ResourceStatus (encode_resource_id resource_id) 0 w) (decoded decode_resource_status)"

definition client_reset_resource :: "'w world \<Rightarrow> client \<Rightarrow> u32 \<Rightarrow> 'w \<Rightarrow> ('w, unit) client_result" where
  "client_reset_resource W cl resource_id w =
     afterwards (client_command W cl ResourceReset (encode_resource_id resource_id) 0 w) done_of"

definition client_resource_contract ::
  "'w world \<Rightarrow> client \<Rightarrow> u32 \<Rightarrow> 'w \<Rightarrow> ('w, resource_contract) client_result" where
  "client_resource_contract W cl resource_id w =
     afterwards (client_command W cl ResourceContract (encode_resource_id resource_id) 0 w) (decoded decode_resource_contract)"

definition client_acquire_resource ::
  "'w world \<Rightarrow> client \<Rightarrow> u32 \<Rightarrow> u32 \<Rightarrow> byte \<Rightarrow> 'w \<Rightarrow> ('w, resource_lease_info) client_result" where
  "client_acquire_resource W cl resource_id duration_ms mode w =
     (if duration_ms = 0 \<or> mode = lease_mode_code LM_None then (Inl CE_Invalid, w)
      else case encode_resource_lease_request
          \<lparr>lr_resource_id = resource_id, lr_duration_ms = duration_ms, lr_mode = mode\<rparr> of
        Inl e \<Rightarrow> (Inl (CE_Resource e), w)
      | Inr bs \<Rightarrow> afterwards (client_command W cl ResourceAcquire bs 0 w) (decoded decode_resource_lease_info))"

definition client_renew_resource ::
  "'w world \<Rightarrow> client \<Rightarrow> u32 \<Rightarrow> u64 \<Rightarrow> u32 \<Rightarrow> 'w \<Rightarrow> ('w, resource_lease_info) client_result" where
  "client_renew_resource W cl resource_id lease_id duration_ms w =
     (if lease_id = 0 \<or> duration_ms = 0 then (Inl CE_Invalid, w)
      else afterwards (client_command W cl ResourceRenew (encode_resource_lease_token_request
          \<lparr>lt_resource_id = resource_id, lt_lease_id = lease_id, lt_duration_ms = duration_ms\<rparr>) 0 w)
        (decoded decode_resource_lease_info))"

definition client_release_resource :: "'w world \<Rightarrow> client \<Rightarrow> u32 \<Rightarrow> u64 \<Rightarrow> 'w \<Rightarrow> ('w, unit) client_result" where
  "client_release_resource W cl resource_id lease_id w =
     (if lease_id = 0 then (Inl CE_Invalid, w)
      else afterwards (client_command W cl ResourceRelease (encode_resource_lease_token_request
          \<lparr>lt_resource_id = resource_id, lt_lease_id = lease_id, lt_duration_ms = 0\<rparr>) 0 w) done_of)"

definition client_resource_lease_status ::
  "'w world \<Rightarrow> client \<Rightarrow> u32 \<Rightarrow> 'w \<Rightarrow> ('w, resource_lease_info) client_result" where
  "client_resource_lease_status W cl resource_id w =
     afterwards (client_command W cl ResourceLeaseStatus (encode_resource_id resource_id) 0 w)
       (decoded decode_resource_lease_info)"

subsection \<open>Pins, serial ports and motion\<close>

text \<open>The object a good answer to a create command names.\<close>

definition object_of :: "packet \<Rightarrow> client_error + u32" where
  "object_of response = try_bind (body_of 0 response) (\<lambda>_.
     if ph_object_id (header response) = 0 then Inl CE_NoObject else Inr (ph_object_id (header response)))"

definition client_gpio_create :: "'w world \<Rightarrow> client \<Rightarrow> u16 \<Rightarrow> byte \<Rightarrow> bool \<Rightarrow> 'w \<Rightarrow> ('w, u32) client_result" where
  "client_gpio_create W cl pin direction initial_value w =
     (if direction > 1 then (Inl CE_Invalid, w)
      else afterwards (client_command W cl GpioCreate
        [ucast pin, ucast (drop_bit 8 pin), direction, if initial_value then 1 else 0] 0 w) object_of)"

definition client_gpio_read :: "'w world \<Rightarrow> client \<Rightarrow> u32 \<Rightarrow> 'w \<Rightarrow> ('w, bool) client_result" where
  "client_gpio_read W cl object_id w =
     (if object_id = 0 then (Inl CE_Invalid, w)
      else afterwards (client_command W cl GpioRead [] object_id w) (\<lambda>response.
        try_bind (body_of 1 response) (\<lambda>data. if data ! 0 > 1 then Inl CE_BadLevel else Inr (data ! 0 \<noteq> 0))))"

definition client_gpio_write :: "'w world \<Rightarrow> client \<Rightarrow> u32 \<Rightarrow> bool \<Rightarrow> 'w \<Rightarrow> ('w, unit) client_result" where
  "client_gpio_write W cl object_id v w =
     (if object_id = 0 then (Inl CE_Invalid, w)
      else afterwards (client_command W cl GpioWrite [if v then 1 else 0] object_id w) done_of)"

record client_uart_config =
  cu_port :: byte
  cu_baud_rate :: u32
  cu_data_bits :: byte
  cu_stop_bits :: byte
  cu_parity :: byte
  cu_receive_mode :: byte

definition uart_config_ok :: "client_uart_config \<Rightarrow> bool" where
  "uart_config_ok c \<longleftrightarrow> \<not> (cu_baud_rate c = 0 \<or> cu_data_bits c < 5 \<or> cu_data_bits c > 8 \<or>
     (cu_stop_bits c \<noteq> 1 \<and> cu_stop_bits c \<noteq> 2) \<or> cu_parity c > 2 \<or> cu_receive_mode c > 1)"

definition uart_config_payload :: "client_uart_config \<Rightarrow> byte list" where
  "uart_config_payload c = [cu_port c] @ put_u32 (cu_baud_rate c) @
     [cu_data_bits c, cu_stop_bits c, cu_parity c] @ (if cu_receive_mode c = 1 then [cu_receive_mode c] else [])"

definition client_uart_create :: "'w world \<Rightarrow> client \<Rightarrow> client_uart_config \<Rightarrow> 'w \<Rightarrow> ('w, u32) client_result" where
  "client_uart_create W cl c w =
     (if \<not> uart_config_ok c then (Inl CE_Invalid, w)
      else afterwards (client_command W cl UartCreate (uart_config_payload c) 0 w) object_of)"

definition client_uart_read :: "'w world \<Rightarrow> client \<Rightarrow> u32 \<Rightarrow> nat \<Rightarrow> 'w \<Rightarrow> ('w, byte list) client_result" where
  "client_uart_read W cl object_id maximum_length w =
     (if object_id = 0 \<or> maximum_length = 0 \<or> maximum_length > kMaximumPayloadSize - 1 \<or> maximum_length > 65535
      then (Inl CE_Invalid, w)
      else afterwards (client_command W cl UartRead
        [word_of_nat maximum_length, word_of_nat (maximum_length div 256)] object_id w) (body_of 0))"

definition client_uart_write :: "'w world \<Rightarrow> client \<Rightarrow> u32 \<Rightarrow> byte list \<Rightarrow> 'w \<Rightarrow> ('w, unit) client_result" where
  "client_uart_write W cl object_id data w =
     (if object_id = 0 \<or> data = [] \<or> length data > kMaximumPayloadSize - 1 then (Inl CE_Invalid, w)
      else afterwards (client_command W cl UartWrite data object_id w) done_of)"

text \<open>One round of the loop of \<^verbatim>\<open>uart_write_all\<close>: the next offset.\<close>

definition write_round ::
  "'w world \<Rightarrow> client \<Rightarrow> u32 \<Rightarrow> byte list \<Rightarrow> time \<Rightarrow> nat \<Rightarrow> 'w \<Rightarrow> ('w, nat) client_result" where
  "write_round W cl object_id data deadline offset w =
     (let count = min 64 (length data - offset);
          (r, w1) = client_uart_write W cl object_id (take count (drop offset data)) w;
          (r', w2) = (case r of
             Inr _ \<Rightarrow> (Inr (offset + count), w1)
           | Inl (CE_Remote status) \<Rightarrow>
               if status \<noteq> 5 \<and> status \<noteq> 7 \<and> status \<noteq> 8 then (Inl (CE_Remote status), w1)
               else let (now, w2) = wd_now W w1 in
                 if now \<ge> deadline then (Inl (CE_Remote status), w2) else (Inr offset, wd_sleep W (ms 2) w2)
           | Inl e \<Rightarrow> (Inl e, w1))
      in case r' of
           Inl e \<Rightarrow> (Inl e, w2)
         | Inr offset1 \<Rightarrow> let (now, w3) = wd_now W w2 in
             if now \<ge> deadline \<and> offset1 < length data then (Inl CE_WriteTimeout, w3) else (Inr offset1, w3))"

partial_function (option) write_rounds ::
  "'w world \<Rightarrow> client \<Rightarrow> u32 \<Rightarrow> byte list \<Rightarrow> time \<Rightarrow> nat \<Rightarrow> 'w \<Rightarrow> ('w, unit) client_result option" where
  "write_rounds W cl object_id data deadline offset w =
     (if offset \<ge> length data then Some (Inr (), w)
      else case write_round W cl object_id data deadline offset w of
        (Inl e, w1) \<Rightarrow> Some (Inl e, w1)
      | (Inr offset1, w1) \<Rightarrow> write_rounds W cl object_id data deadline offset1 w1)"

definition client_uart_write_all ::
  "'w world \<Rightarrow> client \<Rightarrow> u32 \<Rightarrow> byte list \<Rightarrow> u32 \<Rightarrow> 'w \<Rightarrow> ('w, unit) client_result option" where
  "client_uart_write_all W cl object_id data timeout_ms w =
     (if object_id = 0 \<or> data = [] \<or> timeout_ms = 0 then Some (Inl CE_Invalid, w)
      else let (now, w1) = wd_now W w in write_rounds W cl object_id data (now + ms (uint timeout_ms)) 0 w1)"

definition client_uart_stream_read ::
  "'w world \<Rightarrow> client \<Rightarrow> u32 \<Rightarrow> nat \<Rightarrow> u32 \<Rightarrow> 'w \<Rightarrow> ('w, uart_stream_chunk option) client_result" where
  "client_uart_stream_read W cl object_id maximum_length timeout_ms w =
     (if object_id = 0 \<or> maximum_length = 0 \<or> maximum_length > 64 * 1024 - 20 \<or> maximum_length > 4294967295 \<or>
         timeout_ms > 60000
      then (Inl CE_Invalid, w)
      else case connect_socket W (cl_socket_path cl) w of
        (Inl e, w1) \<Rightarrow> (Inl e, w1)
      | (Inr _, w1) \<Rightarrow>
          let (receives, w2) = wd_set_timeout W True (uint timeout_ms + 2000) w1 in
          if \<not> receives then (Inl CE_System, w2)
          else afterwards (ask W (write_ipc_uart_stream_read_request (cl_node_id cl) object_id
              (word_of_nat maximum_length) timeout_ms) w2) (\<lambda>response.
            if is_status response = IPC_TimedOut then Inr None
            else try_bind (local_body response) (\<lambda>bs.
              try_bind (map_error CE_Ipc (decode_ipc_uart_stream_chunk bs)) (\<lambda>chunk. Inr (Some chunk)))))"

definition client_motion_enqueue ::
  "'w world \<Rightarrow> client \<Rightarrow> motion_segment_payload \<Rightarrow> 'w \<Rightarrow> ('w, motion_acceptance_payload) client_result" where
  "client_motion_enqueue W cl segment w =
     (case encode_motion_segment segment of
        Inl e \<Rightarrow> (Inl (CE_Motion e), w)
      | Inr bs \<Rightarrow> afterwards (client_command W cl MotionEnqueue bs 0 w) (\<lambda>response.
          try_bind (body_of 0 response) (\<lambda>data. map_error CE_Motion (decode_motion_acceptance data))))"

definition client_motion_status :: "'w world \<Rightarrow> client \<Rightarrow> 'w \<Rightarrow> ('w, motion_status_payload) client_result" where
  "client_motion_status W cl w = afterwards (client_command W cl MotionStatus [] 0 w) (\<lambda>response.
     try_bind (body_of 0 response) (\<lambda>data. map_error CE_Motion (decode_motion_status data)))"

definition client_motion_abort :: "'w world \<Rightarrow> client \<Rightarrow> 'w \<Rightarrow> ('w, unit) client_result" where
  "client_motion_abort W cl w = afterwards (client_command W cl MotionAbort [] 0 w) done_of"

definition client_motion_clear_fault :: "'w world \<Rightarrow> client \<Rightarrow> 'w \<Rightarrow> ('w, unit) client_result" where
  "client_motion_clear_fault W cl w = afterwards (client_command W cl MotionClearFault [] 0 w) done_of"

end
