(* ===== verification/Client_Answers.thy ===== *)
theory Client_Answers
  imports Client Daemon_Runs
begin

text \<open>
  What a call of the client library gives: the request crosses the socket as it is, the answer is the
  node's, and \<^verbatim>\<open>uart_write_all\<close> ends and has delivered what it says.
\<close>

subsection \<open>One exchange\<close>

lemma read_ipc_response_Inr:
  assumes "undisturbed_stream (so_incoming s)" "length body \<le> kMaximumIpcBodySize"
    and "stream_bytes (so_incoming s) = ipc_status_code status # put_u32 (word_of_nat (length body)) @ body"
  shows "fst (read_ipc_response s) = Inr \<lparr>is_status = status, is_body = body\<rparr>"
proof -
  obtain s1 where s1: "receive 1 s = (Inr [ipc_status_code status], s1)"
    "stream_bytes (so_incoming s1) = put_u32 (word_of_nat (length body)) @ body" "undisturbed_stream (so_incoming s1)"
    using receive_Inr [OF assms(1), of "[ipc_status_code status]"] assms(3) by auto
  obtain s2 where "receive_body s1 = (Inr body, s2)"
    using receive_body_Inr [OF s1(3) assms(2), of "[]"] s1(2) by auto
  then show ?thesis using s1(1) by (cases status) (simp_all add: read_ipc_response_def)
qed

lemma write_ipc_response_Inr:
  assumes "write_ipc_response status body d = (Inr (), d')"
  shows "length body \<le> kMaximumIpcBodySize"
    "so_sent d' = so_sent d @ ipc_status_code status # put_u32 (word_of_nat (length body)) @ body"
proof -
  obtain d1 where d1: "send_all [ipc_status_code status] d = (Inr (), d1)" "send_body body d1 = (Inr (), d')"
    using assms by (auto simp: write_ipc_response_def split: prod.splits sum.splits)
  show "length body \<le> kMaximumIpcBodySize"
    "so_sent d' = so_sent d @ ipc_status_code status # put_u32 (word_of_nat (length body)) @ body"
    using send_body_Inr [OF d1(2)] send_all_Inr [OF d1(1)] by simp_all
qed

text \<open>A connection that works: the request is sent, and the daemon's response comes back in any pieces.\<close>

definition connected :: "'w world \<Rightarrow> client \<Rightarrow> 'w \<Rightarrow> packet \<Rightarrow> byte list \<Rightarrow> recv_event list \<Rightarrow> 'w \<Rightarrow> bool" where
  "connected W cl w p sent incoming w' \<longleftrightarrow> (\<exists>w1 w2 outcomes s.
     connect_socket W (cl_socket_path cl) w = (Inr (), w1) \<and> wd_outcomes W w1 = (outcomes, w2) \<and>
     write_ipc_request (as_request p) (cl_node_id cl)
       \<lparr>so_incoming = [], so_outcomes = outcomes, so_sent = []\<rparr> = (Inr (), s) \<and>
     so_sent s = sent \<and> wd_reply W sent w2 = (incoming, w') \<and> undisturbed_stream incoming)"

lemma transact_connected:
  assumes c: "connected W cl w p sent incoming w'"
    and d: "write_ipc_response status body d = (Inr (), d')" "stream_bytes incoming = drop (length (so_sent d)) (so_sent d')"
  shows "transact W cl p w = (answer_of (as_request p) \<lparr>is_status = status, is_body = body\<rparr>, w')"
proof -
  obtain w1 w2 outcomes s where c': "connect_socket W (cl_socket_path cl) w = (Inr (), w1)"
    "wd_outcomes W w1 = (outcomes, w2)" "write_ipc_request (as_request p) (cl_node_id cl)
       \<lparr>so_incoming = [], so_outcomes = outcomes, so_sent = []\<rparr> = (Inr (), s)"
    "so_sent s = sent" "wd_reply W sent w2 = (incoming, w')" "undisturbed_stream incoming"
    using c unfolding connected_def by blast
  have "fst (read_ipc_response (s\<lparr>so_incoming := incoming\<rparr>)) = Inr \<lparr>is_status = status, is_body = body\<rparr>"
    using c'(6) write_ipc_response_Inr [OF d(1)] d(2) by (intro read_ipc_response_Inr) simp_all
  then show ?thesis using c'(1-5) by (simp add: transact_def afterwards_def exchange_def ask_def Let_def)
qed

lemma sent_is_request:
  assumes "connected W cl w p sent incoming w'" "undisturbed_stream (so_incoming r)" "stream_bytes (so_incoming r) = sent"
  shows "fst (read_ipc_request r) = Inr (request_of (AskPacket (as_request p) (cl_node_id cl)))"
proof -
  obtain outcomes s where s: "write_message (AskPacket (as_request p) (cl_node_id cl))
      \<lparr>so_incoming = [], so_outcomes = outcomes, so_sent = []\<rparr> = (Inr (), s)" "so_sent s = sent"
    using assms(1) unfolding connected_def by auto
  obtain body where b: "length body \<le> kMaximumIpcBodySize" "sent = put_u32 (word_of_nat (length body)) @ body"
    "parse_ipc_request body = Inr (request_of (AskPacket (as_request p) (cl_node_id cl)))"
    using write_message_Inr [OF s(1)] s(2) by auto
  show ?thesis
    using read_ipc_request_Inr [OF assms(2) b(1), of "[]"] assms(3) b(2,3) by auto
qed

subsection \<open>Writing a long block\<close>

text \<open>
  What is assumed of the world: the node takes a chunk as a whole when it says so and none of it when it
  refuses, \<open>taken\<close> being the bytes it has taken; the clock does not run backwards, and sleeping takes time.
\<close>

definition serial_line :: "'w world \<Rightarrow> client \<Rightarrow> u32 \<Rightarrow> ('w \<Rightarrow> byte list) \<Rightarrow> ('w \<Rightarrow> time) \<Rightarrow> bool" where
  "serial_line W cl object_id taken clock \<longleftrightarrow>
     (\<forall>bs w w'. client_uart_write W cl object_id bs w = (Inr (), w') \<longrightarrow> taken w' = taken w @ bs) \<and>
     (\<forall>bs w w' status. client_uart_write W cl object_id bs w = (Inl (CE_Remote status), w') \<longrightarrow> taken w' = taken w) \<and>
     (\<forall>bs w. clock w \<le> clock (snd (client_uart_write W cl object_id bs w))) \<and>
     (\<forall>w. fst (wd_now W w) = clock w \<and> clock w \<le> clock (snd (wd_now W w)) \<and> taken (snd (wd_now W w)) = taken w) \<and>
     (\<forall>t w. 0 < t \<longrightarrow> clock w < clock (wd_sleep W t w)) \<and> (\<forall>t w. taken (wd_sleep W t w) = taken w)"

lemma serial_lineD:
  assumes "serial_line W cl object_id taken clock"
  shows "client_uart_write W cl object_id bs w = (Inr (), w') \<Longrightarrow> taken w' = taken w @ bs"
    "client_uart_write W cl object_id bs w = (Inl (CE_Remote status), w') \<Longrightarrow> taken w' = taken w"
    "client_uart_write W cl object_id bs w = (r, w') \<Longrightarrow> clock w \<le> clock w'"
    "wd_now W w = (t, w') \<Longrightarrow> t = clock w \<and> clock w \<le> clock w' \<and> taken w' = taken w"
    "clock w < clock (wd_sleep W (ms 2) w)" "taken (wd_sleep W t w) = taken w"
proof -
  note l = assms [unfolded serial_line_def]
  have three: "clock w \<le> clock (snd (client_uart_write W cl object_id bs w))" using l by blast
  have four: "fst (wd_now W w) = clock w \<and> clock w \<le> clock (snd (wd_now W w)) \<and> taken (snd (wd_now W w)) = taken w"
    using l by blast
  show "client_uart_write W cl object_id bs w = (Inr (), w') \<Longrightarrow> taken w' = taken w @ bs"
    "client_uart_write W cl object_id bs w = (Inl (CE_Remote status), w') \<Longrightarrow> taken w' = taken w"
    "taken (wd_sleep W t w) = taken w" using l by blast+
  show "client_uart_write W cl object_id bs w = (r, w') \<Longrightarrow> clock w \<le> clock w'" using three by simp
  show "wd_now W w = (t, w') \<Longrightarrow> t = clock w \<and> clock w \<le> clock w' \<and> taken w' = taken w" using four by simp
  have "0 < ms 2" by (simp add: ms_def)
  then show "clock w < clock (wd_sleep W (ms 2) w)" using l by blast
qed

lemma write_round_Inr:
  assumes line: "serial_line W cl object_id taken clock" and o: "offset < length data"
    and round: "write_round W cl object_id data deadline offset w = (Inr offset1, w1)"
  shows "clock w \<le> clock w1"
    "(offset1 = offset + min 64 (length data - offset) \<and> taken w1 = taken w @ take (min 64 (length data - offset)) (drop offset data)) \<or>
     (offset1 = offset \<and> taken w1 = taken w \<and> clock w < clock w1 \<and> clock w < deadline)"
proof -
  let ?n = "min 64 (length data - offset)"
  let ?chunk = "take ?n (drop offset data)"
  obtain r wa where u: "client_uart_write W cl object_id ?chunk w = (r, wa)" by fastforce
  note L = serial_lineD [OF line]
  have a: "clock w \<le> clock wa" by (rule L(3) [OF u])
  obtain t wb where now: "wd_now W wa = (t, wb)" by fastforce
  note b = L(4) [OF now]
  have later: "clock w \<le> clock w1 \<and> clock wx \<le> clock w1 \<and> taken w1 = taken wx" if "snd (wd_now W wx) = w1" "clock w \<le> clock wx" for wx
    using L(4) [of wx "fst (wd_now W wx)" w1] that by (metis order_trans prod.collapse)
  consider "r = Inr ()" | status where "r = Inl (CE_Remote status)" | e where "r = Inl e" "\<forall>status. e \<noteq> CE_Remote status"
    by (metis old.unit.exhaust sum.exhaust)
  then have "clock w \<le> clock w1 \<and> ((offset1 = offset + ?n \<and> taken w1 = taken w @ ?chunk) \<or>
     (offset1 = offset \<and> taken w1 = taken w \<and> clock w < clock w1 \<and> clock w < deadline))"
  proof cases
    case 1
    then have "offset1 = offset + ?n" "snd (wd_now W wa) = w1"
      using round u by (auto simp: write_round_def Let_def split: if_splits prod.splits)
    moreover have "taken wa = taken w @ ?chunk" using L(1) u 1 by blast
    ultimately show ?thesis using later [of wa] a by simp
  next
    case (2 status)
    let ?s = "wd_sleep W (ms 2) wb"
    have x: "offset1 = offset" "t < deadline" "snd (wd_now W ?s) = w1"
      using round u 2 now by (auto simp: write_round_def Let_def split: if_splits prod.splits)
    have "clock wb < clock ?s" "taken ?s = taken wb" "taken wa = taken w"
      using L(2) u 2 L(5,6) by blast+
    then show ?thesis using later [of ?s] x a b by auto
  next
    case (3 e)
    then show ?thesis using round u by (cases e) (auto simp: write_round_def Let_def)
  qed
  then show "clock w \<le> clock w1"
    "(offset1 = offset + min 64 (length data - offset) \<and> taken w1 = taken w @ take (min 64 (length data - offset)) (drop offset data)) \<or>
     (offset1 = offset \<and> taken w1 = taken w \<and> clock w < clock w1 \<and> clock w < deadline)" by blast+
qed

definition refusal :: "client_error \<Rightarrow> bool" where
  "refusal e \<longleftrightarrow> e = CE_WriteTimeout \<or> (\<exists>status. e = CE_Remote status)"

lemma exchange_errors:
  "fst (exchange W cl write w) = Inl e \<Longrightarrow> e = CE_Invalid \<or> e = CE_System \<or> (\<exists>x. e = CE_Ipc x)"
  by (auto simp: exchange_def connect_socket_def ask_def Let_def map_error_def
      split: prod.splits sum.splits if_splits)

lemma write_no_deadline: "fst (client_uart_write W cl object_id bs w) \<noteq> Inl CE_WriteTimeout"
proof -
  have "answer_of p response \<noteq> Inl CE_WriteTimeout" for p response
    by (auto simp: answer_of_def try_bind_def map_error_def split: sum.splits if_splits)
  moreover have "done_of response \<noteq> Inl CE_WriteTimeout" for response
    by (auto simp: done_of_def body_of_def split: list.splits if_splits)
  ultimately show ?thesis
    by (auto simp: client_uart_write_def client_command_def transact_def afterwards_def Let_def try_bind_def
        dest!: exchange_errors split: sum.splits if_splits)
qed

lemma write_round_Inl:
  assumes line: "serial_line W cl object_id taken clock" and o: "offset < length data"
    and round: "write_round W cl object_id data deadline offset w = (Inl e, w1)" and e: "refusal e"
  shows "\<exists>n. offset + n < length data \<and> taken w1 = taken w @ take n (drop offset data)"
proof -
  let ?n = "min 64 (length data - offset)"
  let ?chunk = "take ?n (drop offset data)"
  obtain r wa where u: "client_uart_write W cl object_id ?chunk w = (r, wa)" by fastforce
  obtain t wb where now: "wd_now W wa = (t, wb)" by fastforce
  note L = serial_lineD [OF line]
  have later: "taken (snd (wd_now W wx)) = taken wx" for wx using L(4) by (metis prod.collapse)
  consider "r = Inr ()" | status where "r = Inl (CE_Remote status)" | e' where "r = Inl e'" "\<forall>status. e' \<noteq> CE_Remote status"
    by (metis old.unit.exhaust sum.exhaust)
  then show ?thesis
  proof cases
    case 1
    then have "offset + ?n < length data" "w1 = snd (wd_now W wa)"
      using round u by (auto simp: write_round_def Let_def split: if_splits prod.splits)
    moreover have "taken wa = taken w @ ?chunk" using L(1) u 1 by blast
    ultimately show ?thesis using later by metis
  next
    case (2 status)
    have "taken wa = taken w" using L(2) u 2 by blast
    then have "taken w1 = taken w"
      using round u 2 now later [of "wd_sleep W (ms 2) wb"] later [of wa] L(6)
      by (auto simp: write_round_def Let_def split: if_splits prod.splits)
    then show ?thesis using o by (intro exI [of _ 0]) simp
  next
    case (3 e')
    then have "e = e' \<or> e = CE_WriteTimeout" using round u by (cases e') (auto simp: write_round_def Let_def split: if_splits prod.splits)
    moreover have "e \<noteq> CE_WriteTimeout \<or> e' = CE_WriteTimeout"
      using 3 round u by (cases e') (auto simp: write_round_def Let_def)
    moreover have "e' \<noteq> CE_WriteTimeout" using write_no_deadline [of W cl object_id ?chunk w] u 3 by simp
    ultimately show ?thesis using e 3 unfolding refusal_def by blast
  qed
qed

lemma write_rounds_deliver:
  assumes line: "serial_line W cl object_id taken clock" and o: "offset \<le> length data"
  shows "\<exists>r w'. write_rounds W cl object_id data deadline offset w = Some (r, w') \<and>
    (r = Inr () \<longrightarrow> taken w' = taken w @ drop offset data) \<and>
    (\<forall>e. r = Inl e \<and> refusal e \<longrightarrow> (\<exists>n. offset + n < length data \<and> taken w' = taken w @ take n (drop offset data)))"
  using o
proof (induction "(length data - offset) + nat (deadline - clock w)" arbitrary: offset w rule: less_induct)
  case less
  show ?case
  proof (cases "offset = length data")
    case True
    then show ?thesis by (simp add: write_rounds.simps)
  next
    case False
    then have o: "offset < length data" using less.prems by simp
    obtain r w1 where round: "write_round W cl object_id data deadline offset w = (r, w1)" by fastforce
    show ?thesis
    proof (cases r)
      case (Inl e)
      then have "write_rounds W cl object_id data deadline offset w = Some (Inl e, w1)"
        using o round by (simp add: write_rounds.simps)
      then show ?thesis using write_round_Inl [OF line o] round Inl by auto
    next
      case (Inr offset1)
      then have step: "write_rounds W cl object_id data deadline offset w = write_rounds W cl object_id data deadline offset1 w1"
        using o round by (subst write_rounds.simps) simp
      note R = write_round_Inr [OF line o round [unfolded Inr]]
      define n where "n = offset1 - offset"
      have n: "offset1 = offset + n" "taken w1 = taken w @ take n (drop offset data)" "offset1 \<le> length data"
        using R(2) o by (auto simp: n_def)
      have "length data - offset1 + nat (deadline - clock w1) < length data - offset + nat (deadline - clock w)"
        using R o by auto
      from less.hyps [OF this n(3)] obtain r' w' where r':
        "write_rounds W cl object_id data deadline offset1 w1 = Some (r', w')"
        "r' = Inr () \<longrightarrow> taken w' = taken w1 @ drop offset1 data"
        "\<forall>e. r' = Inl e \<and> refusal e \<longrightarrow> (\<exists>m. offset1 + m < length data \<and> taken w' = taken w1 @ take m (drop offset1 data))"
        by blast
      have whole: "take n (drop offset data) @ drop offset1 data = drop offset data"
        using n(1) append_take_drop_id [of n "drop offset data"] by (simp add: add.commute)
      have part: "take n (drop offset data) @ take m (drop offset1 data) = take (n + m) (drop offset data)" for m
        unfolding take_add n(1) by (simp add: add.commute)
      show ?thesis
      proof (rule exI [of _ r'], rule exI [of _ w'], intro conjI impI allI)
        show "write_rounds W cl object_id data deadline offset w = Some (r', w')" using step r'(1) by simp
        show "taken w' = taken w @ drop offset data" if "r' = Inr ()"
          using r'(2) that n(2) whole by simp
        show "\<exists>n. offset + n < length data \<and> taken w' = taken w @ take n (drop offset data)" if "r' = Inl e \<and> refusal e" for e
        proof -
          obtain m where "offset1 + m < length data" "taken w' = taken w1 @ take m (drop offset1 data)"
            using r'(3) \<open>r' = Inl e \<and> refusal e\<close> by blast
          then show ?thesis using n part by (intro exI [of _ "n + m"]) simp
        qed
      qed
    qed
  qed
qed

subsection \<open>A line that works\<close>

text \<open>The node takes every chunk; the state of the world is what it has taken, and the time.\<close>

definition demo_reply :: packet where
  "demo_reply = \<lparr>header = default_header\<lparr>ph_message_type := message_type_code Response,
     ph_command := command_code UartWrite, ph_object_id := 9\<rparr>, payload = [0]\<rparr>"

definition demo_reply_bytes :: "byte list" where
  "demo_reply_bytes = (case encode demo_reply of Inl e \<Rightarrow> [] | Inr bs \<Rightarrow> 0 # put_u32 (word_of_nat (length bs)) @ bs)"

definition demo_line :: "(byte list \<times> time) world" where
  "demo_line = \<lparr>wd_socket = Pair True, wd_set_timeout = (\<lambda>receive t. Pair True), wd_connect = (\<lambda>path. Pair True),
     wd_outcomes = Pair [], wd_reply = (\<lambda>sent w. ([Received demo_reply_bytes], (fst w @ drop 33 sent, snd w + 1))),
     wd_now = (\<lambda>w. (snd w, w)), wd_sleep = (\<lambda>t w. (fst w, snd w + t))\<rparr>"

definition demo_client :: client where
  "demo_client = \<lparr>cl_socket_path = ''/tmp/toolbusd.sock'', cl_node_id = 3\<rparr>"

lemma send_all_free: "send_all data \<lparr>so_incoming = i, so_outcomes = [], so_sent = bs\<rparr> =
    (Inr (), \<lparr>so_incoming = i, so_outcomes = [], so_sent = bs @ data\<rparr>)"
  by (cases "data = []") (simp_all add: send_all.simps)

lemma demo_connected:
  assumes "encode (as_request p) = Inr encoded"
  shows "connected demo_line demo_client w p (put_u32 (word_of_nat (5 + length encoded)) @ 0 # put_u32 3 @ encoded)
    [Received demo_reply_bytes] (fst w @ drop 24 encoded, snd w + 1)"
proof -
  have n: "length encoded \<le> 2048" using encode_length_le [OF assms] by (simp add: packet_consts)
  have sent: "write_ipc_request (as_request p) 3 \<lparr>so_incoming = [], so_outcomes = [], so_sent = []\<rparr> =
      (Inr (), \<lparr>so_incoming = [], so_outcomes = [],
        so_sent = put_u32 (word_of_nat (5 + length encoded)) @ 0 # put_u32 3 @ encoded\<rparr>)"
    using assms n by (simp add: write_ipc_request_def node_id_ok_def send_body_def kMaximumIpcBodySize_def send_all_free)
  have reply: "demo_reply_bytes \<noteq> []"
    using encode_eq [of demo_reply]
    by (simp add: demo_reply_bytes_def demo_reply_def encodable_def default_header_def packet_consts)
  show ?thesis unfolding connected_def
    by (intro exI conjI, simp add: connect_socket_def demo_line_def demo_client_def path_ok_def,
        simp add: demo_line_def, simp add: demo_client_def sent, simp, simp add: demo_line_def)
      (use reply in \<open>simp_all add: undisturbed_stream_def\<close>)
qed

lemma demo_write:
  "client_uart_write demo_line demo_client 9 bs w =
     (if bs = [] \<or> length bs > kMaximumPayloadSize - 1 then (Inl CE_Invalid, w) else (Inr (), (fst w @ bs, snd w + 1)))"
proof (cases "bs = [] \<or> length bs > kMaximumPayloadSize - 1")
  case False
  let ?p = "command_packet UartWrite bs 9"
  have e: "encodable (as_request ?p)"
    using False by (simp add: encodable_def as_request_def command_packet_def packet_consts)
  obtain encoded where enc: "encode (as_request ?p) = Inr encoded" "drop 24 encoded = bs"
    using encode_eq [OF e] by (simp add: as_request_def command_packet_def)
  have "encodable demo_reply" by (simp add: demo_reply_def encodable_def default_header_def packet_consts)
  then obtain rs where rs: "encode demo_reply = Inr rs" using encode_eq by blast
  let ?d = "\<lparr>so_incoming = [], so_outcomes = [], so_sent = []\<rparr>"
  have "length rs = 25" using encode_length [OF rs] by (simp add: demo_reply_def)
  then have d: "write_ipc_response IPC_Ok rs ?d = (Inr (), ?d\<lparr>so_sent := demo_reply_bytes\<rparr>)"
    by (simp add: write_ipc_response_def send_body_def send_all_free kMaximumIpcBodySize_def demo_reply_bytes_def rs)
  have "transact demo_line demo_client ?p w =
      (answer_of (as_request ?p) \<lparr>is_status = IPC_Ok, is_body = rs\<rparr>, (fst w @ bs, snd w + 1))"
    using transact_connected [OF demo_connected [OF enc(1), of w] d] enc(2) by (simp add: stream_bytes_def)
  moreover have "answer_of (as_request ?p) \<lparr>is_status = IPC_Ok, is_body = rs\<rparr> = Inr (sealed demo_reply)"
    by (simp add: answer_of_def decode_encode [OF rs])
      (simp add: sealed_def Let_def demo_reply_def as_request_def command_packet_def default_header_def)
  moreover have "done_of (sealed demo_reply) = Inr ()"
    by (simp add: done_of_def body_of_def sealed_def Let_def demo_reply_def)
  ultimately show ?thesis using False by (simp add: client_uart_write_def client_command_def afterwards_def)
qed (auto simp: client_uart_write_def)

lemma demo_serial_line: "serial_line demo_line demo_client 9 fst snd"
  unfolding serial_line_def demo_write by (auto simp: demo_line_def)

subsection \<open>Properties\<close>

text \<open>
  C29. A call of the client library is answered by the node: over a connection that works the daemon
  reads exactly the client's packet for the client's node, however the kernel cuts the stream; and when
  the daemon replies with a response it took for this request (as in \<open>daemon_answers_own\<close>), the call
  returns that packet. A time-out and an error of the daemon come out as these exceptions.
\<close>

theorem client_answered:
  assumes c: "connected W cl w p sent incoming w'"
    and r: "undisturbed_stream (so_incoming r)" "stream_bytes (so_incoming r) = sent"
    and d: "write_ipc_response status body d = (Inr (), d')" "stream_bytes incoming = drop (length (so_sent d)) (so_sent d')"
  defines "request \<equiv> request_of (AskPacket (as_request p) (cl_node_id cl))"
  shows "fst (read_ipc_request r) = Inr request \<and>
    (status = IPC_Ok \<and> encode q = Inr body \<and>
       answers_from heard (submitted_as session_id request request_id) (iq_node_id request) q \<longrightarrow>
     transact W cl p w = (Inr (sealed q), w')) \<and>
    (status = IPC_TimedOut \<longrightarrow> transact W cl p w = (Inl CE_TimedOut, w')) \<and>
    (status = IPC_Error \<longrightarrow> transact W cl p w = (Inl (CE_Daemon body), w'))"
proof -
  have t: "transact W cl p w = (answer_of (as_request p) \<lparr>is_status = status, is_body = body\<rparr>, w')"
    by (rule transact_connected [OF c d])
  have "answer_of (as_request p) \<lparr>is_status = IPC_Ok, is_body = body\<rparr> = Inr (sealed q)"
    if "encode q = Inr body" "answers_from heard (submitted_as session_id request request_id) (iq_node_id request) q"
    using that by (simp add: answer_of_def packet_wire.dec_enc answers_from_def submitted_as_def request_def sealed_def Let_def)
  then show ?thesis
    using sent_is_request [OF c r] t by (auto simp: request_def answer_of_def)
qed

theorem client_answered_witness:
  "\<exists>sent w' d' bs. connected demo_line demo_client ([], 0) (command_packet UartWrite [5] 9) sent [Received demo_reply_bytes] w' \<and>
     encode demo_reply = Inr bs \<and> write_ipc_response IPC_Ok bs \<lparr>so_incoming = [], so_outcomes = [], so_sent = []\<rparr> = (Inr (), d') \<and>
     transact demo_line demo_client (command_packet UartWrite [5] 9) ([], 0) = (Inr (sealed demo_reply), w')"
proof -
  let ?p = "command_packet UartWrite [5] 9"
  let ?d = "\<lparr>so_incoming = [], so_outcomes = [], so_sent = []\<rparr>"
  have "encodable (as_request ?p)" by (simp add: encodable_def as_request_def command_packet_def packet_consts default_header_def)
  then obtain encoded where enc: "encode (as_request ?p) = Inr encoded" using encode_eq by blast
  have "encodable demo_reply" by (simp add: demo_reply_def encodable_def default_header_def packet_consts)
  then obtain rs where rs: "encode demo_reply = Inr rs" using encode_eq by blast
  have "length rs = 25" using encode_length [OF rs] by (simp add: demo_reply_def)
  then have d: "write_ipc_response IPC_Ok rs ?d = (Inr (), ?d\<lparr>so_sent := demo_reply_bytes\<rparr>)"
    by (simp add: write_ipc_response_def send_body_def send_all_free kMaximumIpcBodySize_def demo_reply_bytes_def rs)
  note c = demo_connected [OF enc, of "([], 0)"]
  let ?sent = "put_u32 (word_of_nat (5 + length encoded)) @ 0 # put_u32 3 @ encoded"
  let ?r = "\<lparr>so_incoming = [Received ?sent], so_outcomes = [], so_sent = []\<rparr>"
  have r: "undisturbed_stream (so_incoming ?r)" "stream_bytes (so_incoming ?r) = ?sent"
    by (simp_all add: undisturbed_stream_def stream_bytes_def)
  have b: "stream_bytes [Received demo_reply_bytes] = drop (length (so_sent ?d)) (so_sent (?d\<lparr>so_sent := demo_reply_bytes\<rparr>))"
    by (simp add: stream_bytes_def)
  have "answers_from [(kNodeResponseBaseCanId + 3, demo_reply)]
      (submitted_as 0 (request_of (AskPacket (as_request ?p) (cl_node_id demo_client))) 0)
      (iq_node_id (request_of (AskPacket (as_request ?p) (cl_node_id demo_client)))) demo_reply"
    by (simp add: answers_from_def submitted_as_def demo_reply_def demo_client_def as_request_def command_packet_def
        default_header_def sealed_def Let_def object_matches_def creates_object_def)
  then have "transact demo_line demo_client ?p ([], 0) = (Inr (sealed demo_reply), (fst ([], 0) @ drop 24 encoded, snd ([], 0) + 1))"
    using client_answered [OF c r d b, of demo_reply "[(kNodeResponseBaseCanId + 3, demo_reply)]" 0 0] rs by simp
  then show ?thesis using c rs d by blast
qed

text \<open>
  C30. \<^verbatim>\<open>uart_write_all\<close> returns and tells the truth: over a line whose node takes a chunk as a whole when it
  says so and none of it when it refuses, and with a clock that goes on, the call ends whatever the node
  answers; when it succeeds the node has taken exactly the data, and when it gives up on a refusal or on
  its own deadline, exactly a beginning of the data that is not all of it.
\<close>

theorem client_write_all_delivers:
  assumes line: "serial_line W cl object_id taken clock"
  shows "\<exists>r w'. client_uart_write_all W cl object_id data timeout_ms w = Some (r, w') \<and>
    (r = Inr () \<longrightarrow> taken w' = taken w @ data) \<and>
    (\<forall>e. r = Inl e \<and> refusal e \<longrightarrow> (\<exists>n < length data. taken w' = taken w @ take n data))"
proof (cases "object_id = 0 \<or> data = [] \<or> timeout_ms = 0")
  case True
  then show ?thesis by (auto simp: client_uart_write_all_def refusal_def)
next
  case False
  obtain t w1 where now: "wd_now W w = (t, w1)" by fastforce
  have "client_uart_write_all W cl object_id data timeout_ms w =
      write_rounds W cl object_id data (t + ms (uint timeout_ms)) 0 w1"
    using False now by (simp add: client_uart_write_all_def)
  moreover have "taken w1 = taken w" using serial_lineD(4) [OF line now] by blast
  ultimately show ?thesis using write_rounds_deliver [OF line, of 0 data "t + ms (uint timeout_ms)" w1] by simp
qed

theorem client_write_all_delivers_witness:
  "\<exists>r w'. client_uart_write_all demo_line demo_client 9 (replicate 100 7) 1000 ([], 0) = Some (r, w') \<and>
    (r = Inr () \<longrightarrow> fst w' = replicate 100 7)"
  using client_write_all_delivers [OF demo_serial_line, of "replicate 100 7" 1000 "([], 0)"] by fastforce

end
