(* ===== verification/Json.thy ===== *)
theory Json
  imports Prelude
begin

text \<open>
  The JSON reader of \<^verbatim>\<open>mock_mcu/src/board_manifest.cpp\<close> (class \<^verbatim>\<open>JsonParser\<close>): a recursive descent
  over the text that accepts the subset of JSON the board manifests use (no fractions, exponents
  or negative numbers, no surrogate escapes, no repeated keys).

  The parser's state \<^verbatim>\<open>(input_, position_)\<close> is the rest of the text from the position on; a method
  takes it and returns its value with the new rest, or the exception. Every \<^verbatim>\<open>fail\<close> throws
  \<^verbatim>\<open>InvalidJson\<close>, with a message that carries the offset and is not modelled. A C++ \<^verbatim>\<open>char\<close> is a
  \<open>char\<close>, which has eight bits too. An object is its members in the order they were read,
  with distinct keys: the code keeps them in a \<^verbatim>\<open>std::map\<close> and only looks keys up or visits all of
  them, so that no result depends on the order.

  The last part proves that the parser reads back the text of any value (\<open>json_text\<close>), and that
  what it accepts has no repeated key.
\<close>

datatype manifest_error =
  Manifest_Io | Manifest_InvalidJson | Manifest_InvalidSchema | Manifest_InvalidValue | Manifest_Conflict

datatype json =
  J_Null
| J_Boolean bool
| J_Integer u64
| J_String string
| J_Array "json list"
| J_Object "(string \<times> json) list"

type_synonym 'a parsed = "manifest_error + 'a \<times> string"

abbreviation json_fail :: "manifest_error + 'a" where
  "json_fail \<equiv> Inl Manifest_InvalidJson"

abbreviation quote_char :: char where
  "quote_char \<equiv> CHR 0x22"

abbreviation escape_char :: char where
  "escape_char \<equiv> CHR 0x5C"

subsection \<open>Characters\<close>

definition is_space :: "char \<Rightarrow> bool" where
  "is_space c \<longleftrightarrow> (of_char c :: nat) = 32 \<or> 9 \<le> (of_char c :: nat) \<and> (of_char c :: nat) \<le> 13"

definition is_digit :: "char \<Rightarrow> bool" where
  "is_digit c \<longleftrightarrow> 48 \<le> (of_char c :: nat) \<and> (of_char c :: nat) \<le> 57"

definition skip_space :: "string \<Rightarrow> string" where
  "skip_space s = dropWhile is_space s"

fun take_char :: "string \<Rightarrow> char parsed" where
  "take_char [] = json_fail"
| "take_char (c # s) = Inr (c, s)"

fun consume :: "char \<Rightarrow> string \<Rightarrow> bool \<times> string" where
  "consume c [] = (False, [])"
| "consume c (x # s) = (if x = c then (True, s) else (False, x # s))"

definition expect_literal :: "string \<Rightarrow> string \<Rightarrow> unit parsed" where
  "expect_literal w s = (if take (length w) s \<noteq> w then json_fail else Inr ((), drop (length w) s))"

subsection \<open>Strings\<close>

text \<open>The cast of a code unit to \<^verbatim>\<open>char\<close> keeps its low eight bits.\<close>

definition to_char :: "u32 \<Rightarrow> char" where
  "to_char w = char_of (unat w)"

definition append_utf8 :: "string \<Rightarrow> u32 \<Rightarrow> string" where
  "append_utf8 out w =
     (if w \<le> 0x7F then out @ [to_char w]
      else if w \<le> 0x7FF then
        out @ [to_char (0xC0 OR drop_bit 6 w), to_char (0x80 OR w AND 0x3F)]
      else
        out @ [to_char (0xE0 OR drop_bit 12 w), to_char (0x80 OR drop_bit 6 w AND 0x3F),
               to_char (0x80 OR w AND 0x3F)])"

definition hex_digit :: "char \<Rightarrow> u32 option" where
  "hex_digit c =
     (let n = of_char c :: nat in
      if 48 \<le> n \<and> n \<le> 57 then Some (of_nat (n - 48))
      else if 97 \<le> n \<and> n \<le> 102 then Some (of_nat (n - 97 + 10))
      else if 65 \<le> n \<and> n \<le> 70 then Some (of_nat (n - 65 + 10))
      else None)"

fun hex_loop :: "nat \<Rightarrow> u32 \<Rightarrow> string \<Rightarrow> u32 parsed" where
  "hex_loop 0 v s = Inr (v, s)"
| "hex_loop (Suc n) v [] = json_fail"
| "hex_loop (Suc n) v (c # s) =
     (case hex_digit c of None \<Rightarrow> json_fail | Some d \<Rightarrow> hex_loop n (push_bit 4 v OR d) s)"

definition parse_hex4 :: "string \<Rightarrow> u32 parsed" where
  "parse_hex4 s = (if length s < 4 then json_fail else hex_loop 4 0 s)"

lemma hex_loop_rest: "hex_loop n v s = Inr (w, r) \<Longrightarrow> length s = length r + n"
  by (induction n v s rule: hex_loop.induct) (auto split: option.splits)

lemma parse_hex4_rest: "parse_hex4 s = Inr (w, r) \<Longrightarrow> length s = length r + 4"
  by (auto simp: parse_hex4_def hex_loop_rest split: if_splits)

text \<open>What one escape sequence adds to the string, after the backslash.\<close>

definition parse_escape :: "string \<Rightarrow> string \<Rightarrow> string parsed" where
  "parse_escape out s =
     try_bind (take_char s) (\<lambda>(c, r).
       if c = quote_char \<or> c = escape_char \<or> c = CHR ''/'' then Inr (out @ [c], r)
       else if c = CHR ''b'' then Inr (out @ [CHR 0x08], r)
       else if c = CHR ''f'' then Inr (out @ [CHR 0x0C], r)
       else if c = CHR ''n'' then Inr (out @ [CHR 0x0A], r)
       else if c = CHR ''r'' then Inr (out @ [CHR 0x0D], r)
       else if c = CHR ''t'' then Inr (out @ [CHR 0x09], r)
       else if c = CHR ''u'' then
         try_bind (parse_hex4 r) (\<lambda>(w, r').
           if 0xD800 \<le> w \<and> w \<le> 0xDFFF then json_fail else Inr (append_utf8 out w, r'))
       else json_fail)"

lemma take_char_rest: "take_char s = Inr (c, r) \<Longrightarrow> s = c # r"
  by (cases s) auto

lemma parse_escape_rest: "parse_escape out s = Inr (out', r) \<Longrightarrow> length r < length s"
proof -
  assume ok: "parse_escape out s = Inr (out', r)"
  then obtain c t where s: "take_char s = Inr (c, t)"
    by (auto simp: parse_escape_def try_bind_Inr_iff)
  have "r = t \<or> (\<exists>w. parse_hex4 t = Inr (w, r))"
    using ok unfolding parse_escape_def s
    by (cases "parse_hex4 t") (simp_all split: if_splits prod.splits)
  with take_char_rest [OF s] show ?thesis by (auto dest: parse_hex4_rest)
qed

text \<open>The loop of \<^verbatim>\<open>parse_string\<close> after the opening quote.\<close>

function string_loop :: "string \<Rightarrow> string \<Rightarrow> string parsed" where
  "string_loop out [] = json_fail"
| "string_loop out (c # s) =
     (if c = quote_char then Inr (out, s)
      else if (of_char c :: nat) < 0x20 then json_fail
      else if c \<noteq> escape_char then string_loop (out @ [c]) s
      else (case parse_escape out s of Inl e \<Rightarrow> Inl e | Inr (out', r) \<Rightarrow> string_loop out' r))"
  by pat_completeness auto
termination
  by (relation "measure (length \<circ> snd)") (auto dest: parse_escape_rest)

definition parse_string :: "string \<Rightarrow> string parsed" where
  "parse_string s =
     try_bind (take_char s) (\<lambda>(c, r). if c \<noteq> quote_char then json_fail else string_loop [] r)"

lemma string_loop_rest: "string_loop out s = Inr (x, r) \<Longrightarrow> length r < length s"
proof (induction out s arbitrary: x r rule: string_loop.induct)
  case (1 out)
  then show ?case by simp
next
  case (2 out c s)
  consider "c = quote_char" | "c \<noteq> quote_char" "\<not> (of_char c :: nat) < 0x20" "c \<noteq> escape_char"
    | out' r' where "c = escape_char" "parse_escape out s = Inr (out', r')"
    using "2.prems" by (fastforce split: if_splits sum.splits prod.splits)
  then show ?case
  proof cases
    case 1
    then show ?thesis using "2.prems" by simp
  next
    case 2
    then show ?thesis using "2.prems" "2.IH"(1) [of x r] by simp
  next
    case (3 out' r')
    then show ?thesis
      using "2.prems" "2.IH"(2) [of "(out', r')" out' r' x r] parse_escape_rest [of out s out' r'] by simp
  qed
qed

lemma parse_string_rest: "parse_string s = Inr (x, r) \<Longrightarrow> length r < length s"
  by (auto simp: parse_string_def try_bind_Inr_iff split: if_splits
      dest!: take_char_rest string_loop_rest)

subsection \<open>Integers\<close>

definition digits_value :: "string \<Rightarrow> nat" where
  "digits_value ds = foldl (\<lambda>v c. 10 * v + (of_char c - 48)) 0 ds"

text \<open>\<^verbatim>\<open>std::from_chars\<close> on a run of digits, which reports a value beyond 64 bits.\<close>

definition integer_value :: "string \<Rightarrow> manifest_error + json" where
  "integer_value ds =
     (if 2 ^ 64 \<le> digits_value ds then json_fail else Inr (J_Integer (of_nat (digits_value ds))))"

definition starts_with :: "(char \<Rightarrow> bool) \<Rightarrow> string \<Rightarrow> bool" where
  "starts_with p s = (case s of [] \<Rightarrow> False | c # _ \<Rightarrow> p c)"

definition parse_integer :: "string \<Rightarrow> json parsed" where
  "parse_integer s =
     (if fst (consume (CHR ''-'') s) then json_fail
      else
        try_bind
          (if fst (consume (CHR ''0'') s) then
             (if starts_with is_digit (snd (consume (CHR ''0'') s)) then json_fail
              else Inr (''0'', snd (consume (CHR ''0'') s)))
           else if \<not> starts_with (\<lambda>c. is_digit c \<and> c \<noteq> CHR ''0'') s then json_fail
           else Inr (takeWhile is_digit s, dropWhile is_digit s))
          (\<lambda>(ds, r).
             if starts_with (\<lambda>c. c = CHR ''.'' \<or> c = CHR ''e'' \<or> c = CHR ''E'') r then json_fail
             else try_bind (integer_value ds) (\<lambda>v. Inr (v, r))))"

lemma consume_rest: "length (snd (consume c s)) \<le> length s"
  by (cases s) auto

lemma consume_rest_True: "consume c s = (True, r) \<Longrightarrow> s = c # r"
  by (cases s) (auto split: if_splits)

lemma skip_space_rest: "length (skip_space s) \<le> length s"
  by (simp add: skip_space_def length_dropWhile_le)

lemma consume_skip:
  "consume c (skip_space s) = (True, r) \<Longrightarrow> length r < length s"
  "consume c (skip_space s) = (b, r) \<Longrightarrow> length r \<le> length s"
  "consume c s = (True, r) \<Longrightarrow> length r < length s"
  "consume c s = (b, r) \<Longrightarrow> length r \<le> length s"
  using consume_rest [of c "skip_space s"] skip_space_rest [of s] consume_rest [of c s]
  by (auto dest!: consume_rest_True)

lemma expect_literal_rest: "expect_literal w s = Inr (u, r) \<Longrightarrow> w \<noteq> [] \<Longrightarrow> length r < length s"
  by (cases s) (auto simp: expect_literal_def split: if_splits)

lemma dropWhile_less: "starts_with p s \<Longrightarrow> (\<And>c. p c \<Longrightarrow> q c) \<Longrightarrow> length (dropWhile q s) < length s"
  using length_dropWhile_le [of q "tl s"] by (cases s) (auto simp: starts_with_def)

lemma parse_integer_rest: "parse_integer s = Inr (v, r) \<Longrightarrow> length r < length s"
proof -
  assume ok: "parse_integer s = Inr (v, r)"
  show ?thesis
  proof (cases "fst (consume (CHR ''0'') s)")
    case True
    then have "length (snd (consume (CHR ''0'') s)) < length s"
      by (cases s) (auto split: if_splits)
    with ok True show ?thesis
      by (auto simp: parse_integer_def try_bind_Inr_iff split: if_splits)
  next
    case False
    with ok have "starts_with (\<lambda>c. is_digit c \<and> c \<noteq> CHR ''0'') s \<and> r = dropWhile is_digit s"
      by (auto simp: parse_integer_def try_bind_Inr_iff split: if_splits)
    then show ?thesis using dropWhile_less [of _ s is_digit] by auto
  qed
qed

subsection \<open>Values, arrays and objects\<close>

text \<open>
  Each of the methods leaves less text than it was given; the recursion is nested (a loop goes on with
  what \<open>parse_value\<close> left), so this is shown within the proof of termination.
\<close>

function (sequential)
  parse_value :: "string \<Rightarrow> json parsed" and
  parse_array :: "string \<Rightarrow> json parsed" and
  array_loop :: "json list \<Rightarrow> string \<Rightarrow> json parsed" and
  parse_object :: "string \<Rightarrow> json parsed" and
  object_loop :: "(string \<times> json) list \<Rightarrow> string \<Rightarrow> json parsed"
where
  "parse_value [] = json_fail"
| "parse_value (c # s) =
     (if c = CHR ''{'' then parse_object (c # s)
      else if c = CHR ''['' then parse_array (c # s)
      else if c = quote_char then try_bind (parse_string (c # s)) (\<lambda>(x, r). Inr (J_String x, r))
      else if c = CHR ''t'' then
        try_bind (expect_literal ''true'' (c # s)) (\<lambda>(u, r). Inr (J_Boolean True, r))
      else if c = CHR ''f'' then
        try_bind (expect_literal ''false'' (c # s)) (\<lambda>(u, r). Inr (J_Boolean False, r))
      else if c = CHR ''n'' then
        try_bind (expect_literal ''null'' (c # s)) (\<lambda>(u, r). Inr (J_Null, r))
      else parse_integer (c # s))"
| "parse_array s =
     (case take_char s of Inl e \<Rightarrow> Inl e
      | Inr (c, r) \<Rightarrow>
        (case consume (CHR '']'') (skip_space r) of
           (True, r') \<Rightarrow> Inr (J_Array [], r')
         | (False, r') \<Rightarrow> array_loop [] r'))"
| "array_loop vs s =
     (case parse_value (skip_space s) of Inl e \<Rightarrow> Inl e
      | Inr (v, r) \<Rightarrow>
        (case consume (CHR '']'') (skip_space r) of
           (True, r') \<Rightarrow> Inr (J_Array (vs @ [v]), r')
         | (False, r') \<Rightarrow>
           (case consume (CHR '','') r' of
              (True, r'') \<Rightarrow> array_loop (vs @ [v]) r''
            | (False, r'') \<Rightarrow> json_fail)))"
| "parse_object s =
     (case take_char s of Inl e \<Rightarrow> Inl e
      | Inr (c, r) \<Rightarrow>
        (case consume (CHR ''}'') (skip_space r) of
           (True, r') \<Rightarrow> Inr (J_Object [], r')
         | (False, r') \<Rightarrow> object_loop [] r'))"
| "object_loop kvs s =
     (if \<not> starts_with (\<lambda>c. c = quote_char) (skip_space s) then json_fail
      else
        (case parse_string (skip_space s) of Inl e \<Rightarrow> Inl e
         | Inr (k, r) \<Rightarrow>
           (case consume (CHR '':'') (skip_space r) of
              (False, r') \<Rightarrow> json_fail
            | (True, r') \<Rightarrow>
              (case parse_value (skip_space r') of Inl e \<Rightarrow> Inl e
               | Inr (v, r'') \<Rightarrow>
                 if map_of kvs k \<noteq> None then json_fail
                 else
                   (case consume (CHR ''}'') (skip_space r'') of
                      (True, t) \<Rightarrow> Inr (J_Object (hemplace k v kvs), t)
                    | (False, t) \<Rightarrow>
                      (case consume (CHR '','') t of
                         (True, t') \<Rightarrow> object_loop (hemplace k v kvs) t'
                       | (False, t') \<Rightarrow> json_fail))))))"
  by pat_completeness auto

termination
proof -
  have shortens:
    "parse_value_parse_array_array_loop_parse_object_object_loop_dom (Inl (Inl s)) \<Longrightarrow>
       parse_value s = Inr (v, r) \<Longrightarrow> length r < length s"
    "parse_value_parse_array_array_loop_parse_object_object_loop_dom (Inl (Inr s)) \<Longrightarrow>
       parse_array s = Inr (v, r) \<Longrightarrow> length r < length s"
    "parse_value_parse_array_array_loop_parse_object_object_loop_dom (Inr (Inl (vs, s))) \<Longrightarrow>
       array_loop vs s = Inr (v, r) \<Longrightarrow> length r < length s"
    "parse_value_parse_array_array_loop_parse_object_object_loop_dom (Inr (Inr (Inl s))) \<Longrightarrow>
       parse_object s = Inr (v, r) \<Longrightarrow> length r < length s"
    "parse_value_parse_array_array_loop_parse_object_object_loop_dom (Inr (Inr (Inr (kvs, s)))) \<Longrightarrow>
       object_loop kvs s = Inr (v, r) \<Longrightarrow> length r < length s"
    for s v r vs kvs
  proof (induction s and s and vs s and s and kvs s arbitrary: v r and v r and v r and v r and v r
      rule: parse_value_parse_array_array_loop_parse_object_object_loop.pinduct)
    case 1
    then show ?case by (simp add: parse_value.psimps)
  next
    case (2 c s)
    then show ?case
      by (auto simp: parse_value.psimps try_bind_Inr_iff
          dest: expect_literal_rest parse_string_rest parse_integer_rest split: if_splits)
  next
    case (3 s)
    then show ?case
      by (fastforce simp: parse_array.psimps split: sum.splits prod.splits bool.splits
          dest!: take_char_rest consume_skip(2))
  next
    case (4 vs s)
    from "4.prems" "4.hyps" obtain w t where w: "parse_value (skip_space s) = Inr (w, t)"
      by (auto simp: array_loop.psimps split: sum.splits)
    have t: "length t < length s"
      using "4.IH"(1) [OF w] skip_space_rest [of s] by linarith
    obtain b r1 where c1: "consume (CHR '']'') (skip_space t) = (b, r1)" by fastforce
    obtain b' r2 where c2: "consume (CHR '','') r1 = (b', r2)" by fastforce
    have r: "length r1 \<le> length t" "length r2 \<le> length r1"
      using consume_skip(2) [OF c1] consume_skip(4) [OF c2] by auto
    show ?case
    proof (cases b)
      case True
      with "4.prems" "4.hyps" w c1 have "r = r1" by (simp add: array_loop.psimps)
      with t r show ?thesis by simp
    next
      case False
      with "4.prems" "4.hyps" w c1 c2 have b': b' and
        "array_loop (vs @ [w]) r2 = Inr (v, r)"
        by (auto simp: array_loop.psimps split: bool.splits)
      with "4.IH"(2) [OF w refl c1 [symmetric] _ c2 [symmetric], of v r] False have "length r < length r2" by simp
      with t r show ?thesis by linarith
    qed
  next
    case (5 s)
    then show ?case
      by (fastforce simp: parse_object.psimps split: sum.splits prod.splits bool.splits
          dest!: take_char_rest consume_skip(2))
  next
    case (6 kvs s)
    have q: "starts_with (\<lambda>c. c = quote_char) (skip_space s)"
      using "6.prems" "6.hyps" by (auto simp: object_loop.psimps split: if_splits)
    from q "6.prems" "6.hyps" obtain k t where k: "parse_string (skip_space s) = Inr (k, t)"
      by (auto simp: object_loop.psimps split: sum.splits)
    obtain b1 r1 where c1: "consume (CHR '':'') (skip_space t) = (b1, r1)" by fastforce
    have b1: "b1" using q k c1 "6.prems" "6.hyps" by (auto simp: object_loop.psimps split: bool.splits)
    from q k c1 b1 "6.prems" "6.hyps" obtain w t2 where w: "parse_value (skip_space r1) = Inr (w, t2)"
      by (auto simp: object_loop.psimps split: sum.splits)
    have new: "map_of kvs k = None"
      using q k c1 b1 w "6.prems" "6.hyps" by (auto simp: object_loop.psimps split: if_splits)
    obtain b2 r2 where c2: "consume (CHR ''}'') (skip_space t2) = (b2, r2)" by fastforce
    obtain b3 r3 where c3: "consume (CHR '','') r2 = (b3, r3)" by fastforce
    have "length t2 < length r1"
      using "6.IH"(1) [of "(k, t)", OF _ k refl] q c1 b1 w skip_space_rest [of r1] by fastforce
    then have bounds: "length r2 < length s" "length r3 \<le> length r2"
      using parse_string_rest [OF k] skip_space_rest [of s] consume_skip(2) [OF c1]
        consume_skip(2) [OF c2] consume_skip(4) [OF c3] by linarith+
    show ?case
    proof (cases b2)
      case True
      with q k c1 b1 w new c2 "6.prems" "6.hyps" have "r = r2" by (simp add: object_loop.psimps)
      with bounds show ?thesis by simp
    next
      case False
      with q k c1 b1 w new c2 c3 "6.prems" "6.hyps" have b3: b3 and
        again: "object_loop (hemplace k w kvs) r3 = Inr (v, r)"
        by (auto simp: object_loop.psimps split: bool.splits)
      have "length r < length r3"
        using "6.IH"(2) [of "(k, t)", OF _ k refl] q c1 b1 w new c2 c3 b3 again False by fastforce
      with bounds show ?thesis by linarith
    qed
  qed
  show ?thesis
  proof (relation "measure (\<lambda>x. case x of
        Inl (Inl s) \<Rightarrow> 4 * length s + 2
      | Inl (Inr s) \<Rightarrow> 4 * length s + 1
      | Inr (Inl (vs, s)) \<Rightarrow> 4 * length s + 3
      | Inr (Inr (Inl s)) \<Rightarrow> 4 * length s + 1
      | Inr (Inr (Inr (kvs, s))) \<Rightarrow> 4 * length s + 3)", simp_all only: in_measure sum.case prod.case,
      goal_cases)
    case (2 s b c r x r')
    then have "s = c # r" by (auto dest: take_char_rest)
    with consume_skip(2) [OF 2(3) [symmetric]] show ?case by simp
  next
    case (3 vs s)
    show ?case using skip_space_rest [of s] by simp
  next
    case (4 vs s b v r x r' y r'')
    have "length r < length (skip_space s)" by (rule shortens(1) [OF 4(7), of v]) (simp add: 4(1,2))
    with consume_skip(2) [OF 4(3) [symmetric]] consume_skip(3) [OF 4(5) [symmetric]]
      skip_space_rest [of s] show ?case by linarith
  next
    case (5 s b c r x r')
    then have "s = c # r" by (auto dest: take_char_rest)
    with consume_skip(2) [OF 5(3) [symmetric]] show ?case by simp
  next
    case (6 kvs s b k r x r')
    have "length r < length (skip_space s)" by (rule parse_string_rest [of _ k]) (simp add: 6(2,3))
    with consume_skip(2) [OF 6(4) [symmetric]] skip_space_rest [of s] skip_space_rest [of r']
    show ?case by linarith
  next
    case (7 kvs s b k r x r1 b' v r2 y r3 z r4)
    have "length r < length (skip_space s)" by (rule parse_string_rest [of _ k]) (simp add: 7(2,3))
    moreover have "length r2 < length (skip_space r1)"
      by (rule shortens(1) [OF 7(13), of v]) (simp add: 7(6,7))
    ultimately show ?case
      using consume_skip(2) [OF 7(4) [symmetric]] consume_skip(2) [OF 7(9) [symmetric]]
        consume_skip(3) [OF 7(11) [symmetric]] skip_space_rest [of s] skip_space_rest [of r1]
      by linarith
  qed simp_all
qed

declare array_loop.simps [simp del] object_loop.simps [simp del]

text \<open>\<^verbatim>\<open>JsonParser(text).parse()\<close>: one value, and nothing but white space around it.\<close>

definition parse_json :: "string \<Rightarrow> manifest_error + json" where
  "parse_json s =
     try_bind (parse_value (skip_space s)) (\<lambda>(v, r).
       if skip_space r \<noteq> [] then json_fail else Inr v)"

subsection \<open>The text of a value\<close>

text \<open>
  A value can have only one entry for a key. The canonical text of a value escapes what must be
  escaped and nothing else.
\<close>

fun json_wf :: "json \<Rightarrow> bool" where
  "json_wf (J_Array vs) \<longleftrightarrow> (\<forall>v\<in>set vs. json_wf v)"
| "json_wf (J_Object kvs) \<longleftrightarrow> distinct (map fst kvs) \<and> (\<forall>kv\<in>set kvs. json_wf (snd kv))"
| "json_wf _ \<longleftrightarrow> True"

definition hex_char :: "nat \<Rightarrow> char" where
  "hex_char n = (if n < 10 then char_of (48 + n) else char_of (87 + n))"

definition char_text :: "char \<Rightarrow> string" where
  "char_text c =
     (if c = quote_char \<or> c = escape_char then [escape_char, c]
      else if (of_char c :: nat) < 0x20 then
        escape_char # ''u00'' @ [hex_char (of_char c div 16), hex_char (of_char c mod 16)]
      else [c])"

definition string_text :: "string \<Rightarrow> string" where
  "string_text x = quote_char # concat (map char_text x) @ [quote_char]"

fun nat_text :: "nat \<Rightarrow> string" where
  "nat_text n = (if n < 10 then [char_of (48 + n)] else nat_text (n div 10) @ [char_of (48 + n mod 10)])"

declare nat_text.simps [simp del]

fun commas :: "string list \<Rightarrow> string" where
  "commas [] = []"
| "commas [x] = x"
| "commas (x # y # xs) = x @ CHR '','' # commas (y # xs)"

fun json_text :: "json \<Rightarrow> string" where
  "json_text J_Null = ''null''"
| "json_text (J_Boolean b) = (if b then ''true'' else ''false'')"
| "json_text (J_Integer n) = nat_text (unat n)"
| "json_text (J_String x) = string_text x"
| "json_text (J_Array vs) = CHR ''['' # commas (map json_text vs) @ '']''"
| "json_text (J_Object kvs) =
     CHR ''{'' # commas (map (\<lambda>kv. string_text (fst kv) @ CHR '':'' # json_text (snd kv)) kvs) @ ''}''"

subsection \<open>Reading back the text of a value\<close>

lemma hex_digit_char: "n < 16 \<Longrightarrow> hex_digit (hex_char n) = Some (of_nat n)"
  by (auto simp: hex_digit_def hex_char_def Let_def)

lemma control_code_bits:
  "list_all (\<lambda>n. push_bit 4 (of_nat (n div 16)) OR of_nat (n mod 16) = (of_nat n :: u32)) [0..<32]"
  by (simp add: upt_conv_Cons)

lemma parse_hex4_control:
  assumes "n < 32"
  shows "parse_hex4 (CHR ''0'' # CHR ''0'' # hex_char (n div 16) # hex_char (n mod 16) # r) = Inr (of_nat n, r)"
proof -
  have "push_bit 4 (of_nat (n div 16)) OR of_nat (n mod 16) = (of_nat n :: u32)"
    using control_code_bits assms by (simp add: list_all_iff)
  moreover have "hex_digit (CHR ''0'') = Some 0" by (simp add: hex_digit_def)
  moreover have "n div 16 < 16" "n mod 16 < 16" using assms by auto
  moreover have "parse_hex4 (a # b # c # d # r) = hex_loop (Suc (Suc (Suc (Suc 0)))) 0 (a # b # c # d # r)"
    for a b c d by (simp add: parse_hex4_def eval_nat_numeral)
  ultimately show ?thesis by (simp add: hex_digit_char)
qed

lemma append_utf8_ascii: "n < 128 \<Longrightarrow> append_utf8 out (of_nat n) = out @ [char_of n]"
  by (simp add: append_utf8_def to_char_def word_le_nat_alt unat_of_nat_small)

lemma string_loop_char: "string_loop out (char_text c @ r) = string_loop (out @ [c]) r"
proof (cases "(of_char c :: nat) < 32")
  case True
  then have "c \<noteq> quote_char" "c \<noteq> escape_char" by auto
  moreover have "\<not> 0xD800 \<le> (of_nat (of_char c) :: u32)"
    using True by (simp add: word_le_nat_alt unat_of_nat_small)
  ultimately show ?thesis
    using True by (simp add: char_text_def parse_escape_def parse_hex4_control append_utf8_ascii)
qed (auto simp: char_text_def parse_escape_def)

lemma string_loop_text: "string_loop out (concat (map char_text x) @ quote_char # r) = Inr (out @ x, r)"
  by (induction x arbitrary: out) (simp_all add: string_loop_char)

lemma parse_string_text [simp]: "parse_string (string_text x @ r) = Inr (x, r)"
  by (simp add: parse_string_def string_text_def string_loop_text)

lemma digits_value_append [simp]: "digits_value (ds @ [c]) = 10 * digits_value ds + (of_char c - 48)"
  by (simp add: digits_value_def)

lemma digits_value_text [simp]: "digits_value (nat_text n) = n"
proof (induction n rule: nat_text.induct)
  case (1 n)
  then show ?case by (subst nat_text.simps) (auto simp: digits_value_def of_char_of)
qed

lemma nat_text_digits: "c \<in> set (nat_text n) \<Longrightarrow> is_digit c"
proof (induction n rule: nat_text.induct)
  case (1 n)
  then show ?case by (subst (asm) (2) nat_text.simps) (auto simp: is_digit_def of_char_of split: if_splits)
qed

lemma nat_text_head:
  obtains c t where "nat_text n = c # t" "is_digit c" "c = CHR ''0'' \<longrightarrow> t = []"
proof -
  have "\<exists>c t. nat_text n = c # t \<and> (c = CHR ''0'' \<longrightarrow> n = 0 \<and> t = [])"
  proof (induction n rule: nat_text.induct)
    case (1 n)
    show ?case
    proof (cases "n < 10")
      case True
      have "n = 0" if "char_of (48 + n) = CHR ''0''"
        using arg_cong [OF that, of "of_char :: char \<Rightarrow> nat"] True by (simp add: of_char_of)
      with True show ?thesis by (subst nat_text.simps) auto
    next
      case False
      with 1 show ?thesis by (subst nat_text.simps) auto
    qed
  qed
  then obtain c t where "nat_text n = c # t" "c = CHR ''0'' \<longrightarrow> n = 0 \<and> t = []" by blast
  with nat_text_digits [of c n] show thesis by (intro that [of c t]) auto
qed

text \<open>What may follow a value without changing how it is read.\<close>

definition value_ends :: "string \<Rightarrow> bool" where
  "value_ends r \<longleftrightarrow>
     \<not> starts_with (\<lambda>c. is_digit c \<or> c = CHR ''.'' \<or> c = CHR ''e'' \<or> c = CHR ''E'') r"

lemma value_ends_simps [simp]:
  "value_ends []"
  "value_ends (CHR '','' # r)"
  "value_ends (CHR '']'' # r)"
  "value_ends (CHR ''}'' # r)"
  by (simp_all add: value_ends_def starts_with_def is_digit_def)

lemma parse_integer_text:
  assumes "n < 2 ^ 64" and "value_ends r"
  shows "parse_integer (nat_text n @ r) = Inr (J_Integer (of_nat n), r)"
proof -
  obtain c t where t: "nat_text n = c # t" "is_digit c" "c = CHR ''0'' \<longrightarrow> t = []"
    by (rule nat_text_head)
  have stop: "\<not> starts_with is_digit r"
    "\<not> starts_with (\<lambda>c. c = CHR ''.'' \<or> c = CHR ''e'' \<or> c = CHR ''E'') r"
    using assms(2) by (auto simp: value_ends_def starts_with_def split: list.splits)
  have v: "integer_value (nat_text n) = Inr (J_Integer (of_nat n))"
    using assms(1) by (simp add: integer_value_def)
  have neg: "c \<noteq> CHR ''-''" using t(2) by (auto simp: is_digit_def)
  show ?thesis
  proof (cases "c = CHR ''0''")
    case True
    with t stop v neg show ?thesis by (simp add: parse_integer_def)
  next
    case False
    have "takeWhile is_digit (nat_text n @ r) = nat_text n" "dropWhile is_digit (nat_text n @ r) = r"
      using nat_text_digits stop(1) by (auto simp: starts_with_def takeWhile_append dropWhile_append split: list.splits)
    with t stop v neg False show ?thesis
      by (simp add: parse_integer_def starts_with_def)
  qed
qed

lemma json_text_head:
  obtains c t where "json_text v = c # t" "\<not> is_space c" "c \<noteq> CHR '']''"
proof -
  have "\<exists>c t. json_text v = c # t \<and> \<not> is_space c \<and> c \<noteq> CHR '']''"
  proof (cases v)
    case (J_Integer n)
    obtain c t where "nat_text (unat n) = c # t" "is_digit c" by (rule nat_text_head)
    moreover have "\<not> is_digit (CHR '']'')" by (simp add: is_digit_def)
    ultimately show ?thesis using J_Integer by (auto simp: is_digit_def is_space_def)
  qed (simp_all add: is_space_def string_text_def)
  then show thesis using that by blast
qed

lemma skip_space_cons [simp]: "\<not> is_space c \<Longrightarrow> skip_space (c # r) = c # r"
  by (simp add: skip_space_def)

lemma skip_space_text [simp]:
  "skip_space (json_text v @ r) = json_text v @ r"
  "skip_space (string_text x @ r) = string_text x @ r"
proof -
  obtain c t where "json_text v = c # t" "\<not> is_space c" by (rule json_text_head)
  then show "skip_space (json_text v @ r) = json_text v @ r" by simp
qed (simp add: string_text_def is_space_def)

lemma consume_hit [simp]: "consume c (skip_space (c # r)) = (True, r)" if "\<not> is_space c"
  using that by simp

text \<open>The loops read the texts of their elements, given that \<open>parse_value\<close> reads each of them.\<close>

lemma commas_head: "xs \<noteq> [] \<Longrightarrow> hd xs = c # t \<Longrightarrow> \<exists>u. commas xs = c # u"
  by (cases xs rule: commas.cases) auto

lemma array_loop_text:
  assumes "ws \<noteq> []"
    and "\<And>w r. w \<in> set ws \<Longrightarrow> value_ends r \<Longrightarrow> parse_value (json_text w @ r) = Inr (w, r)"
  shows "array_loop vs (commas (map json_text ws) @ CHR '']'' # r) = Inr (J_Array (vs @ ws), r)"
  using assms
proof (induction ws arbitrary: vs rule: induct_list012)
  case (2 w)
  then show ?case by (subst array_loop.simps) (simp add: is_space_def)
next
  case (3 w w' ws)
  have "parse_value (json_text w @ CHR '','' # t) = Inr (w, CHR '','' # t)" for t
    using "3.prems"(2) [of w] by simp
  with 3 show ?case by (subst array_loop.simps) (simp add: is_space_def)
qed simp

abbreviation member_text :: "string \<times> json \<Rightarrow> string" where
  "member_text kv \<equiv> string_text (fst kv) @ CHR '':'' # json_text (snd kv)"

lemma starts_string_text [simp]: "starts_with (\<lambda>c. c = quote_char) (string_text x @ r)"
  by (simp add: starts_with_def string_text_def)

lemma object_loop_text:
  assumes "ws \<noteq> []" and "distinct (map fst (vs @ ws))"
    and "\<And>w r. w \<in> set ws \<Longrightarrow> value_ends r \<Longrightarrow> parse_value (json_text (snd w) @ r) = Inr (snd w, r)"
  shows "object_loop vs (commas (map member_text ws) @ CHR ''}'' # r) = Inr (J_Object (vs @ ws), r)"
  using assms
proof (induction ws arbitrary: vs rule: induct_list012)
  case (2 w)
  then have "map_of vs (fst w) = None" by (auto simp: map_of_eq_None_iff)
  with 2 show ?case by (subst object_loop.simps) (simp add: is_space_def hemplace_def)
next
  case (3 w w' ws)
  have "parse_value (json_text (snd w) @ CHR '','' # t) = Inr (snd w, CHR '','' # t)" for t
    using "3.prems"(3) [of w] by simp
  moreover have "map_of vs (fst w) = None" using "3.prems"(2) by (auto simp: map_of_eq_None_iff)
  moreover have "object_loop (vs @ [w]) (commas (map member_text (w' # ws)) @ CHR ''}'' # r) =
      Inr (J_Object (vs @ w # w' # ws), r)"
    using "3.IH"(2) [of "vs @ [w]"] "3.prems" by auto
  ultimately show ?case
    by (subst object_loop.simps) (simp add: is_space_def hemplace_def)
qed simp

lemma parse_value_digit: "is_digit c \<Longrightarrow> parse_value (c # s) = parse_integer (c # s)"
proof -
  assume c: "is_digit c"
  have "\<not> is_digit (CHR ''{'')" "\<not> is_digit (CHR ''['')" "\<not> is_digit quote_char" "\<not> is_digit (CHR ''t'')"
    "\<not> is_digit (CHR ''f'')" "\<not> is_digit (CHR ''n'')" by (simp_all add: is_digit_def)
  with c have "c \<noteq> CHR ''{''" "c \<noteq> CHR ''[''" "c \<noteq> quote_char" "c \<noteq> CHR ''t''" "c \<noteq> CHR ''f''"
    "c \<noteq> CHR ''n''" by metis+
  then show ?thesis by simp
qed

lemma parse_value_text:
  assumes "json_wf v" and "value_ends r"
  shows "parse_value (json_text v @ r) = Inr (v, r)"
  using assms
proof (induction v arbitrary: r)
  case J_Null
  then show ?case by (simp add: expect_literal_def)
next
  case (J_Boolean b)
  then show ?case by (simp add: expect_literal_def)
next
  case (J_Integer n)
  obtain c t where t: "nat_text (unat n) = c # t" "is_digit c" by (rule nat_text_head)
  have "unat n < 2 ^ 64" by (rule order_less_le_trans [OF unsigned_less]) simp
  from parse_integer_text [OF this J_Integer.prems(2)] t(1) show ?case
    by (simp add: parse_value_digit [OF t(2)] del: parse_value.simps)
next
  case (J_String x)
  then show ?case using parse_string_text [of x r] by (simp add: string_text_def)
next
  case (J_Array vs)
  show ?case
  proof (cases "vs = []")
    case False
    have "array_loop [] (commas (map json_text vs) @ CHR '']'' # r) = Inr (J_Array ([] @ vs), r)"
      using J_Array by (intro array_loop_text [OF False]) simp
    moreover obtain c t where "commas (map json_text vs) = c # t" "\<not> is_space c" "c \<noteq> CHR '']''"
      using False json_text_head [of "hd vs"] commas_head [of "map json_text vs"] by (metis hd_map map_is_Nil_conv)
    ultimately show ?thesis by simp
  qed (simp add: is_space_def)
next
  case (J_Object kvs)
  show ?case
  proof (cases "kvs = []")
    case False
    have "object_loop [] (commas (map member_text kvs) @ CHR ''}'' # r) = Inr (J_Object ([] @ kvs), r)"
      using J_Object by (intro object_loop_text [OF False]) (auto simp: snds.simps)
    moreover obtain t where "commas (map member_text kvs) = quote_char # t"
      using False commas_head [of "map member_text kvs" quote_char] by (auto simp: hd_map string_text_def)
    ultimately show ?thesis by (simp add: is_space_def)
  qed (simp add: is_space_def)
qed

text \<open>One round of the member loop that did not throw.\<close>

lemma object_loop_step:
  assumes "object_loop kvs s = Inr (v, r)"
  obtains k t r1 w t2 b2 r2 where
    "starts_with (\<lambda>c. c = quote_char) (skip_space s)" "parse_string (skip_space s) = Inr (k, t)"
    "consume (CHR '':'') (skip_space t) = (True, r1)" "parse_value (skip_space r1) = Inr (w, t2)"
    "map_of kvs k = None" "consume (CHR ''}'') (skip_space t2) = (b2, r2)"
    "b2 \<longrightarrow> v = J_Object (hemplace k w kvs)"
    "\<not> b2 \<longrightarrow> (\<exists>r3. consume (CHR '','') r2 = (True, r3) \<and> object_loop (hemplace k w kvs) r3 = Inr (v, r))"
proof -
  note run = assms [unfolded object_loop.simps [of kvs s]]
  have q: "starts_with (\<lambda>c. c = quote_char) (skip_space s)"
    using run by (auto split: if_splits)
  from q run obtain k t where k: "parse_string (skip_space s) = Inr (k, t)"
    by (auto split: sum.splits)
  from q k run obtain r1 where c1: "consume (CHR '':'') (skip_space t) = (True, r1)"
    by (auto split: prod.splits bool.splits)
  from q k c1 run obtain w t2 where w: "parse_value (skip_space r1) = Inr (w, t2)"
    by (auto split: sum.splits)
  have new: "map_of kvs k = None" using q k c1 w run by (auto split: if_splits)
  obtain b2 r2 where c2: "consume (CHR ''}'') (skip_space t2) = (b2, r2)" by fastforce
  show thesis
    by (rule that [OF q k c1 w new c2]) (use q k c1 w new c2 run in \<open>auto split: prod.splits bool.splits\<close>)
qed

text \<open>A value that was read has no repeated key anywhere.\<close>

lemma hemplace_members:
  "map_of kvs k = None \<Longrightarrow> hemplace k v kvs = kvs @ [(k, v)]"
  "distinct (map fst kvs) \<Longrightarrow> map_of kvs k = None \<Longrightarrow> distinct (map fst (kvs @ [(k, v)]))"
  by (auto simp: hemplace_def map_of_eq_None_iff)

lemma parsed_wf:
  "parse_value s = Inr (v, r) \<Longrightarrow> json_wf v"
  "parse_array s = Inr (v, r) \<Longrightarrow> json_wf v"
  "array_loop vs s = Inr (v, r) \<Longrightarrow> (\<forall>w\<in>set vs. json_wf w) \<Longrightarrow> json_wf v"
  "parse_object s = Inr (v, r) \<Longrightarrow> json_wf v"
  "object_loop kvs s = Inr (v, r) \<Longrightarrow> json_wf (J_Object kvs) \<Longrightarrow> json_wf v"
proof (induction s and s and vs s and s and kvs s arbitrary: v r and v r and v r and v r and v r
    rule: parse_value_parse_array_array_loop_parse_object_object_loop.induct)
  case (2 c s)
  then show ?case
    by (auto simp: try_bind_Inr_iff parse_integer_def integer_value_def split: if_splits)
next
  case (3 s)
  then show ?case by (fastforce split: sum.splits prod.splits bool.splits)
next
  case (4 vs s)
  obtain w t where w: "parse_value (skip_space s) = Inr (w, t)"
    using "4.prems"(1) by (subst (asm) array_loop.simps) (auto split: sum.splits)
  have wf: "\<forall>x\<in>set (vs @ [w]). json_wf x" using "4.IH"(1) [OF w] "4.prems"(2) by auto
  with "4.IH"(2) [OF w refl] "4.prems"(1) w show ?case
    by (subst (asm) array_loop.simps) (auto split: prod.splits bool.splits)
next
  case (5 s)
  then show ?case by (fastforce split: sum.splits prod.splits bool.splits)
next
  case (6 kvs s)
  obtain k t r1 w t2 b2 r2 where
    q: "starts_with (\<lambda>c. c = quote_char) (skip_space s)" and
    k: "parse_string (skip_space s) = Inr (k, t)" and c1: "consume (CHR '':'') (skip_space t) = (True, r1)" and
    w: "parse_value (skip_space r1) = Inr (w, t2)" and new: "map_of kvs k = None" and
    c2: "consume (CHR ''}'') (skip_space t2) = (b2, r2)" and
    fin: "b2 \<longrightarrow> v = J_Object (hemplace k w kvs)" and
    more: "\<not> b2 \<longrightarrow> (\<exists>r3. consume (CHR '','') r2 = (True, r3) \<and> object_loop (hemplace k w kvs) r3 = Inr (v, r))"
    by (rule object_loop_step [OF "6.prems"(1)])
  have "json_wf w" using "6.IH"(1) [of "(k, t)", OF _ k refl] q c1 w by fastforce
  then have wf: "json_wf (J_Object (hemplace k w kvs))"
    using "6.prems"(2) hemplace_members [of kvs k w] new by auto
  show ?case
  proof (cases b2)
    case True
    with fin wf show ?thesis by simp
  next
    case False
    with more obtain r3 where c3: "consume (CHR '','') r2 = (True, r3)"
      and again: "object_loop (hemplace k w kvs) r3 = Inr (v, r)" by blast
    show ?thesis
      by (rule "6.IH"(2) [OF _ k refl c1 [symmetric] _ w refl _ c2 [symmetric] _ c3 [symmetric] _ again wf])
        (use q new False in auto)
  qed
qed simp

lemma parse_json_text: "json_wf v \<Longrightarrow> parse_json (json_text v) = Inr v"
proof -
  assume "json_wf v"
  then have "parse_value (json_text v @ []) = Inr (v, [])" by (rule parse_value_text) simp
  moreover have "skip_space (json_text v) = json_text v" using skip_space_text(1) [of v "[]"] by simp
  ultimately show "parse_json (json_text v) = Inr v" by (simp add: parse_json_def skip_space_def)
qed

lemma parse_json_wf: "parse_json s = Inr w \<Longrightarrow> json_wf w"
  by (auto simp: parse_json_def try_bind_Inr_iff dest: parsed_wf(1) split: if_splits)

text \<open>
  C33. The JSON reader takes the canonical text of every value back to the value, and whatever text
  it accepts, no object in the result has a key twice.
\<close>

theorem json_roundtrip:
  "(json_wf v \<longrightarrow> parse_json (json_text v) = Inr v) \<and> (parse_json s = Inr w \<longrightarrow> json_wf w)"
  using parse_json_text parse_json_wf by blast

lemma json_roundtrip_witness:
  "parse_json (json_text (J_Object [(''id'', J_Integer 7), (''on'', J_Array [J_Boolean True, J_Null])])) =
     Inr (J_Object [(''id'', J_Integer 7), (''on'', J_Array [J_Boolean True, J_Null])]) \<and>
   parse_json ''[]'' = Inr (J_Array []) \<and> json_wf (J_Array [])"
proof (intro conjI)
  show "parse_json (json_text (J_Object [(''id'', J_Integer 7), (''on'', J_Array [J_Boolean True, J_Null])])) =
      Inr (J_Object [(''id'', J_Integer 7), (''on'', J_Array [J_Boolean True, J_Null])])"
    by (rule json_roundtrip [THEN conjunct1, rule_format]) simp
  show empty: "parse_json ''[]'' = Inr (J_Array [])"
    by (simp add: parse_json_def is_space_def skip_space_def)
  show "json_wf (J_Array [])"
    by (rule json_roundtrip [THEN conjunct2, rule_format, OF empty])
qed

end
