(* ===== verification/Board_Manifest.thy ===== *)
theory Board_Manifest
  imports Json Remote_Core
begin

text \<open>
  \<^verbatim>\<open>mock_mcu/include/remotebsp/mock_mcu/board_manifest.hpp\<close> and the schema layer of
  \<^verbatim>\<open>mock_mcu/src/board_manifest.cpp\<close>: a board manifest and a fault scenario are read from the JSON
  value field by field, in the order of the code, so that the first failing check decides the
  exception. Reading the file itself is not modelled: the functions take its text.

  The sets of identifiers the code collects beside the manifest are lists, read only by membership.
  A resource type is stored in a descriptor by its code, as in the other theories.

  \<open>manifest_ok\<close> says what an accepted manifest promises to the node built from it.
\<close>

subsection \<open>Data\<close>

definition kBoardManifestSchemaVersion :: u32 where "kBoardManifestSchemaVersion = 1"
definition kFaultScenarioSchemaVersion :: u32 where "kFaultScenarioSchemaVersion = 1"

record reserved_resource =
  rr_type :: resource_type
  rr_instance :: u16
  rr_owner :: string

record board_manifest =
  bm_schema_version :: u32
  bm_name :: string
  bm_node_info :: node_info
  bm_capabilities :: u64
  bm_resources :: "resource_descriptor list"
  bm_contracts :: "resource_contract list"
  bm_reserved_resources :: "reserved_resource list"
  bm_motion_axes :: "motion_axis_config list"
  bm_motion_queue_capacity :: nat

type_synonym json_object = "(string \<times> json) list"
type_synonym instance_key = "resource_type \<times> u16"

abbreviation schema_error :: "manifest_error + 'a" where
  "schema_error \<equiv> Inl Manifest_InvalidSchema"

abbreviation value_error :: "manifest_error + 'a" where
  "value_error \<equiv> Inl Manifest_InvalidValue"

abbreviation conflict_error :: "manifest_error + 'a" where
  "conflict_error \<equiv> Inl Manifest_Conflict"

subsection \<open>Reading fields\<close>

definition require_object :: "json \<Rightarrow> manifest_error + json_object" where
  "require_object v = (case v of J_Object kvs \<Rightarrow> Inr kvs | _ \<Rightarrow> schema_error)"

definition require_field :: "json_object \<Rightarrow> string \<Rightarrow> manifest_error + json" where
  "require_field obj field = (case map_of obj field of None \<Rightarrow> schema_error | Some v \<Rightarrow> Inr v)"

definition reject_unknown :: "json_object \<Rightarrow> string list \<Rightarrow> manifest_error + unit" where
  "reject_unknown obj allowed =
     (if list_all (\<lambda>entry. fst entry \<in> set allowed) obj then Inr () else schema_error)"

definition require_integer :: "json_object \<Rightarrow> string \<Rightarrow> manifest_error + u64" where
  "require_integer obj field =
     try_bind (require_field obj field) (\<lambda>v. case v of J_Integer n \<Rightarrow> Inr n | _ \<Rightarrow> schema_error)"

definition require_u32 :: "json_object \<Rightarrow> string \<Rightarrow> manifest_error + u32" where
  "require_u32 obj field =
     try_bind (require_integer obj field) (\<lambda>n. if n > 0xFFFFFFFF then value_error else Inr (ucast n))"

definition require_u16 :: "json_object \<Rightarrow> string \<Rightarrow> manifest_error + u16" where
  "require_u16 obj field =
     try_bind (require_integer obj field) (\<lambda>n. if n > 0xFFFF then value_error else Inr (ucast n))"

definition require_string :: "json_object \<Rightarrow> string \<Rightarrow> manifest_error + string" where
  "require_string obj field =
     try_bind (require_field obj field) (\<lambda>v. case v of J_String x \<Rightarrow> Inr x | _ \<Rightarrow> schema_error)"

definition require_boolean :: "json_object \<Rightarrow> string \<Rightarrow> manifest_error + bool" where
  "require_boolean obj field =
     try_bind (require_field obj field) (\<lambda>v. case v of J_Boolean b \<Rightarrow> Inr b | _ \<Rightarrow> schema_error)"

definition require_array :: "json_object \<Rightarrow> string \<Rightarrow> manifest_error + json list" where
  "require_array obj field =
     try_bind (require_field obj field) (\<lambda>v. case v of J_Array vs \<Rightarrow> Inr vs | _ \<Rightarrow> schema_error)"

definition parse_resource_type :: "string \<Rightarrow> manifest_error + resource_type" where
  "parse_resource_type text =
     (if text = ''gpio'' then Inr RT_Gpio
      else if text = ''uart'' then Inr RT_Uart
      else if text = ''spi'' then Inr RT_Spi
      else if text = ''i2c'' then Inr RT_I2c
      else if text = ''adc'' then Inr RT_Adc
      else if text = ''pwm'' then Inr RT_Pwm
      else if text = ''timer'' then Inr RT_Timer
      else if text = ''storage'' then Inr RT_Storage
      else if text = ''stepgen_axis'' then Inr RT_StepgenAxis
      else value_error)"

fun resource_capability :: "resource_type \<Rightarrow> capability" where
  "resource_capability RT_Gpio = Cap_Gpio"
| "resource_capability RT_Uart = Cap_Uart"
| "resource_capability RT_Spi = Cap_Spi"
| "resource_capability RT_I2c = Cap_I2c"
| "resource_capability RT_Adc = Cap_Adc"
| "resource_capability RT_Pwm = Cap_Pwm"
| "resource_capability RT_Timer = Cap_Timer"
| "resource_capability RT_Storage = Cap_Storage"
| "resource_capability RT_StepgenAxis = Cap_Motion"

definition parse_capability :: "string \<Rightarrow> manifest_error + capability" where
  "parse_capability text =
     (if text = ''bootloader'' then Inr Cap_Bootloader
      else if text = ''motion'' then Inr Cap_Motion
      else try_bind (parse_resource_type text) (\<lambda>t. Inr (resource_capability t)))"

text \<open>The loops over the capabilities and the access flags: unknown names and repetitions throw.\<close>

fun capability_loop :: "u64 \<Rightarrow> json list \<Rightarrow> manifest_error + u64" where
  "capability_loop bits [] = Inr bits"
| "capability_loop bits (v # vs) =
     (case v of
        J_String text \<Rightarrow>
          try_bind (parse_capability text) (\<lambda>cap.
            if bits AND capability_mask cap \<noteq> 0 then conflict_error
            else capability_loop (bits OR capability_mask cap) vs)
      | _ \<Rightarrow> schema_error)"

definition access_flag :: "string \<Rightarrow> manifest_error + u16" where
  "access_flag text =
     (if text = ''read'' then Inr kResourceAccessReadable
      else if text = ''write'' then Inr kResourceAccessWritable
      else if text = ''shared_read'' then Inr kResourceAccessSharedRead
      else if text = ''exclusive_write'' then Inr kResourceAccessExclusiveWrite
      else if text = ''lease_supported'' then Inr kResourceAccessLeaseSupported
      else if text = ''lease_required'' then Inr kResourceAccessLeaseRequired
      else value_error)"

fun access_loop :: "u16 \<Rightarrow> json list \<Rightarrow> manifest_error + u16" where
  "access_loop flags [] = Inr flags"
| "access_loop flags (v # vs) =
     (case v of
        J_String text \<Rightarrow>
          try_bind (access_flag text) (\<lambda>flag.
            if flags AND flag \<noteq> 0 then conflict_error else access_loop (flags OR flag) vs)
      | _ \<Rightarrow> schema_error)"

definition parse_access_flags :: "json list \<Rightarrow> manifest_error + u16" where
  "parse_access_flags vs =
     try_bind (access_loop 0 vs) (\<lambda>flags.
       if flags AND kResourceAccessLeaseRequired \<noteq> 0 \<and> flags AND kResourceAccessLeaseSupported = 0
       then conflict_error else Inr flags)"

text \<open>Two hexadecimal characters for each byte: \<^verbatim>\<open>std::from_chars\<close> must consume both.\<close>

fun uuid_loop :: "string \<Rightarrow> manifest_error + byte list" where
  "uuid_loop (hi # lo # rest) =
     (case (hex_digit hi, hex_digit lo) of
        (Some h, Some l) \<Rightarrow>
          try_bind (uuid_loop rest) (\<lambda>bytes. Inr (ucast (push_bit 4 h OR l) # bytes))
      | _ \<Rightarrow> value_error)"
| "uuid_loop _ = Inr []"

definition parse_uuid :: "string \<Rightarrow> manifest_error + node_uuid" where
  "parse_uuid text =
     (if length text \<noteq> 32 then value_error
      else try_bind (uuid_loop text) (\<lambda>bytes. Inr (copy_uuid bytes)))"

definition manifest_resource :: "board_manifest \<Rightarrow> u32 \<Rightarrow> resource_descriptor option" where
  "manifest_resource m resource_id = find (\<lambda>r. rd_resource_id r = resource_id) (bm_resources m)"

subsection \<open>The board manifest\<close>

fun version_loop :: "json list \<Rightarrow> manifest_error + u16 list" where
  "version_loop [] = Inr []"
| "version_loop (v # vs) =
     (case v of
        J_Integer n \<Rightarrow>
          if n > 0xFFFF then value_error
          else try_bind (version_loop vs) (\<lambda>ws. Inr (ucast n # ws))
      | _ \<Rightarrow> value_error)"

text \<open>The head of the manifest: everything before the resource groups.\<close>

definition parse_head :: "json_object \<Rightarrow> manifest_error + board_manifest" where
  "parse_head root =
     try_bind (require_u32 root ''schema_version'') (\<lambda>schema_version.
     if schema_version \<noteq> kBoardManifestSchemaVersion then schema_error else
     try_bind (require_string root ''name'') (\<lambda>name.
     if name = [] \<or> length name > 64 then value_error else
     try_bind (require_u32 root ''board_type'') (\<lambda>board_type.
     try_bind (require_string root ''uuid'') (\<lambda>uuid_text.
     try_bind (parse_uuid uuid_text) (\<lambda>uuid.
     try_bind (require_array root ''firmware_version'') (\<lambda>firmware.
     if length firmware \<noteq> 3 then value_error else
     try_bind (version_loop firmware) (\<lambda>version.
     try_bind (require_array root ''capabilities'') (\<lambda>names.
     try_bind (capability_loop 0 names) (\<lambda>capabilities.
       Inr \<lparr>bm_schema_version = schema_version, bm_name = name,
         bm_node_info = \<lparr>nf_uuid = uuid, nf_firmware_major = version ! 0,
           nf_firmware_minor = version ! 1, nf_firmware_patch = version ! 2,
           nf_board_type = board_type, nf_protocol_version = kProtocolVersion\<rparr>,
         bm_capabilities = capabilities, bm_resources = [], bm_contracts = [],
         bm_reserved_resources = [], bm_motion_axes = [], bm_motion_queue_capacity = 32\<rparr>)))))))))"

text \<open>The contract of a resource group, shared by its resources: the fields but the identifier.\<close>

definition parse_contract :: "json_object \<Rightarrow> manifest_error + (u32 \<Rightarrow> resource_contract)" where
  "parse_contract obj =
     try_bind (reject_unknown obj
       [''access'', ''timing_resolution_ns'', ''worst_case_latency_us'',
        ''maximum_operations_per_second'', ''queue_capacity'', ''maximum_rx_bits_per_second'',
        ''maximum_tx_bits_per_second'']) (\<lambda>_.
     try_bind (require_array obj ''access'') (\<lambda>access.
     try_bind (parse_access_flags access) (\<lambda>access_flags.
     try_bind (require_u32 obj ''timing_resolution_ns'') (\<lambda>timing.
     try_bind (require_u32 obj ''worst_case_latency_us'') (\<lambda>latency.
     try_bind (require_u32 obj ''maximum_operations_per_second'') (\<lambda>operations.
     try_bind (require_u32 obj ''queue_capacity'') (\<lambda>queue_capacity.
     try_bind (require_u32 obj ''maximum_rx_bits_per_second'') (\<lambda>rx_bits.
     try_bind (require_u32 obj ''maximum_tx_bits_per_second'') (\<lambda>tx_bits.
       Inr (\<lambda>resource_id. \<lparr>rc_resource_id = resource_id, rc_version = kResourceContractVersion,
         rc_access_flags = access_flags, rc_timing_resolution_ns = timing,
         rc_worst_case_latency_us = latency, rc_maximum_operations_per_second = operations,
         rc_queue_capacity = queue_capacity, rc_maximum_rx_bits_per_second = rx_bits,
         rc_maximum_tx_bits_per_second = tx_bits\<rparr>))))))))))"

text \<open>The values read from one resource group.\<close>

record resource_group =
  rg_type :: resource_type
  rg_first_instance :: u16
  rg_count :: u16
  rg_id_base :: u32
  rg_flags :: u16
  rg_rx_capacity :: u32
  rg_tx_capacity :: u32
  rg_contract :: "u32 \<Rightarrow> resource_contract"

definition parse_source :: "string \<Rightarrow> manifest_error + u16" where
  "parse_source source =
     (if source = ''native'' then Inr kResourceFlagNative
      else if source = ''expanded'' then Inr kResourceFlagExpanded
      else value_error)"

text \<open>The ranges of a group; the sums are computed in 32 bits.\<close>

definition check_group_ranges :: "resource_type \<Rightarrow> u16 \<Rightarrow> u16 \<Rightarrow> u32 \<Rightarrow> manifest_error + unit" where
  "check_group_ranges t first_instance num id_base =
     (if num = 0 \<or> num > 256 then value_error
      else if (ucast first_instance :: u32) + ucast num > 65536 then value_error
      else if t = RT_Uart \<and> (ucast first_instance :: u32) + ucast num > 256 then value_error
      else if id_base > 0xFFFFFFFF - (ucast num - 1) then value_error
      else Inr ())"

definition parse_group_fields :: "json \<Rightarrow> manifest_error + resource_group" where
  "parse_group_fields group_value =
     try_bind (require_object group_value) (\<lambda>group.
     try_bind (reject_unknown group
       [''type'', ''first_instance'', ''count'', ''id_base'', ''source'', ''rx_capacity'',
        ''tx_capacity'', ''contract'']) (\<lambda>_.
     try_bind (require_string group ''type'') (\<lambda>type_text.
     try_bind (parse_resource_type type_text) (\<lambda>t.
     try_bind (require_u16 group ''first_instance'') (\<lambda>first_instance.
     try_bind (require_u16 group ''count'') (\<lambda>num.
     try_bind (require_u32 group ''id_base'') (\<lambda>id_base.
     try_bind (check_group_ranges t first_instance num id_base) (\<lambda>_.
     try_bind (require_string group ''source'') (\<lambda>source.
     try_bind (parse_source source) (\<lambda>flags.
     try_bind (require_u32 group ''rx_capacity'') (\<lambda>rx_capacity.
     try_bind (require_u32 group ''tx_capacity'') (\<lambda>tx_capacity.
     try_bind (require_field group ''contract'') (\<lambda>contract_value.
     try_bind (require_object contract_value) (\<lambda>contract_object.
     try_bind (parse_contract contract_object) (\<lambda>contract.
       Inr \<lparr>rg_type = t, rg_first_instance = first_instance, rg_count = num,
         rg_id_base = id_base, rg_flags = flags, rg_rx_capacity = rx_capacity,
         rg_tx_capacity = tx_capacity, rg_contract = contract\<rparr>)))))))))))))))"

text \<open>
  The state of the loop over the groups: the manifest, \<^verbatim>\<open>resource_ids\<close> and
  \<^verbatim>\<open>resource_instances\<close>.
\<close>

type_synonym catalogue = "board_manifest \<times> u32 list \<times> instance_key list"

definition group_descriptor :: "resource_group \<Rightarrow> u32 \<Rightarrow> u16 \<Rightarrow> resource_descriptor" where
  "group_descriptor g resource_id inst =
     \<lparr>rd_resource_id = resource_id, rd_type = resource_type_code (rg_type g), rd_instance = inst,
      rd_flags = rg_flags g, rd_rx_capacity = rg_rx_capacity g, rd_tx_capacity = rg_tx_capacity g\<rparr>"

fun add_instances :: "resource_group \<Rightarrow> nat list \<Rightarrow> catalogue \<Rightarrow> manifest_error + catalogue" where
  "add_instances g [] cat = Inr cat"
| "add_instances g (offset # offsets) (m, ids, insts) =
     (let inst = ucast ((ucast (rg_first_instance g) :: u32) + of_nat offset);
          resource_id = rg_id_base g + of_nat offset in
      if resource_id \<in> set ids \<or> (rg_type g, inst) \<in> set insts then conflict_error
      else add_instances g offsets
        (m\<lparr>bm_resources := bm_resources m @ [group_descriptor g resource_id inst],
           bm_contracts := bm_contracts m @ [rg_contract g resource_id]\<rparr>,
         resource_id # ids, (rg_type g, inst) # insts))"

definition add_group :: "json \<Rightarrow> catalogue \<Rightarrow> manifest_error + catalogue" where
  "add_group group_value cat =
     try_bind (parse_group_fields group_value) (\<lambda>g.
       if bm_capabilities (fst cat) AND capability_mask (resource_capability (rg_type g)) = 0
       then conflict_error
       else if length (bm_resources (fst cat)) > 0xFFFF - unat (rg_count g) then value_error
       else add_instances g [0..<unat (rg_count g)] cat)"

fun add_groups :: "json list \<Rightarrow> catalogue \<Rightarrow> manifest_error + catalogue" where
  "add_groups [] cat = Inr cat"
| "add_groups (v # vs) cat = try_bind (add_group v cat) (add_groups vs)"

text \<open>Resources the node keeps for itself.\<close>

definition parse_reserved :: "json \<Rightarrow> manifest_error + reserved_resource" where
  "parse_reserved reserved_value =
     try_bind (require_object reserved_value) (\<lambda>reserved.
     try_bind (reject_unknown reserved [''type'', ''instance'', ''owner'']) (\<lambda>_.
     try_bind (require_string reserved ''type'') (\<lambda>type_text.
     try_bind (parse_resource_type type_text) (\<lambda>t.
     try_bind (require_u16 reserved ''instance'') (\<lambda>inst.
     try_bind (require_string reserved ''owner'') (\<lambda>owner.
       if owner = [] \<or> length owner > 64 then value_error
       else Inr \<lparr>rr_type = t, rr_instance = inst, rr_owner = owner\<rparr>))))))"

abbreviation reserved_key :: "reserved_resource \<Rightarrow> instance_key" where
  "reserved_key r \<equiv> (rr_type r, rr_instance r)"

fun add_reserved ::
  "instance_key list \<Rightarrow> json list \<Rightarrow> instance_key list \<Rightarrow> board_manifest \<Rightarrow>
   manifest_error + board_manifest" where
  "add_reserved insts [] keys m = Inr m"
| "add_reserved insts (v # vs) keys m =
     try_bind (parse_reserved v) (\<lambda>entry.
       if reserved_key entry \<in> set keys then conflict_error
       else if reserved_key entry \<in> set insts then conflict_error
       else add_reserved insts vs (reserved_key entry # keys)
         (m\<lparr>bm_reserved_resources := bm_reserved_resources m @ [entry]\<rparr>))"

text \<open>
  The motion axes: each configures one declared \<^verbatim>\<open>STEPGEN_AXIS\<close> resource. The loop keeps
  \<^verbatim>\<open>configured_motion_axes\<close> and the manifest.
\<close>

definition parse_axis :: "json \<Rightarrow> manifest_error + motion_axis_config" where
  "parse_axis axis_value =
     try_bind (require_object axis_value) (\<lambda>axis.
     try_bind (reject_unknown axis
       [''resource_id'', ''maximum_step_rate_hz'', ''step_pulse_width_ns'', ''minimum_step_low_ns'',
        ''direction_setup_ns'']) (\<lambda>_.
     try_bind (require_u32 axis ''resource_id'') (\<lambda>resource_id.
     try_bind (require_u32 axis ''maximum_step_rate_hz'') (\<lambda>rate.
     try_bind (require_u32 axis ''step_pulse_width_ns'') (\<lambda>pulse.
     try_bind (require_u32 axis ''minimum_step_low_ns'') (\<lambda>low.
     try_bind (require_u32 axis ''direction_setup_ns'') (\<lambda>direction.
       Inr \<lparr>cf_resource_id = resource_id, cf_maximum_step_rate_hz = rate,
         cf_step_pulse_width_ns = pulse, cf_minimum_step_low_ns = low,
         cf_direction_setup_ns = direction\<rparr>)))))))"

definition is_stepgen :: "resource_descriptor \<Rightarrow> bool" where
  "is_stepgen r \<longleftrightarrow> rd_type r = resource_type_code RT_StepgenAxis"

fun add_motion_axes ::
  "json list \<Rightarrow> u32 list \<Rightarrow> board_manifest \<Rightarrow> manifest_error + board_manifest" where
  "add_motion_axes [] configured m = Inr m"
| "add_motion_axes (v # vs) configured m =
     try_bind (parse_axis v) (\<lambda>config.
       case manifest_resource m (cf_resource_id config) of
         None \<Rightarrow> conflict_error
       | Some r \<Rightarrow>
           if \<not> is_stepgen r then conflict_error
           else if cf_resource_id config \<in> set configured then conflict_error
           else add_motion_axes vs (cf_resource_id config # configured)
             (m\<lparr>bm_motion_axes := bm_motion_axes m @ [config]\<rparr>))"

definition parse_motion_axes :: "json_object \<Rightarrow> board_manifest \<Rightarrow> manifest_error + board_manifest" where
  "parse_motion_axes root m =
     (case map_of root ''motion_axes'' of
        None \<Rightarrow> Inr m
      | Some (J_Array vs) \<Rightarrow> add_motion_axes vs [] m
      | Some _ \<Rightarrow> schema_error)"

definition check_axes_configured :: "board_manifest \<Rightarrow> manifest_error + unit" where
  "check_axes_configured m =
     (if list_ex (\<lambda>r. is_stepgen r \<and> rd_resource_id r \<notin> set (map cf_resource_id (bm_motion_axes m)))
           (bm_resources m)
      then conflict_error else Inr ())"

text \<open>The queue capacity all axes of a node must share.\<close>

fun queue_capacity_loop ::
  "resource_contract list \<Rightarrow> resource_descriptor list \<Rightarrow> u32 option \<Rightarrow>
   manifest_error + u32 option" where
  "queue_capacity_loop contracts [] capacity = Inr capacity"
| "queue_capacity_loop contracts (r # rs) capacity =
     (if \<not> is_stepgen r then queue_capacity_loop contracts rs capacity
      else case find (\<lambda>k. rc_resource_id k = rd_resource_id r) contracts of
        None \<Rightarrow> value_error
      | Some k \<Rightarrow>
          if rc_queue_capacity k = 0 \<or> rc_queue_capacity k > 1024 then value_error
          else if capacity \<noteq> None \<and> capacity \<noteq> Some (rc_queue_capacity k) then conflict_error
          else queue_capacity_loop contracts rs (Some (rc_queue_capacity k)))"

definition finish_motion :: "board_manifest \<Rightarrow> manifest_error + board_manifest" where
  "finish_motion m =
     try_bind (check_axes_configured m) (\<lambda>_.
     try_bind (queue_capacity_loop (bm_contracts m) (bm_resources m) None) (\<lambda>capacity.
       if length (bm_motion_axes m) > kMaximumMotionAxes then value_error
       else Inr (case capacity of
           Some n \<Rightarrow> m\<lparr>bm_motion_queue_capacity := unat n\<rparr>
         | None \<Rightarrow> m)))"

definition parse_board_manifest :: "string \<Rightarrow> manifest_error + board_manifest" where
  "parse_board_manifest input =
     try_bind (parse_json input) (\<lambda>root_value.
     try_bind (require_object root_value) (\<lambda>root.
     try_bind (reject_unknown root
       [''schema_version'', ''name'', ''board_type'', ''uuid'', ''firmware_version'',
        ''capabilities'', ''resource_groups'', ''reserved_resources'', ''motion_axes'']) (\<lambda>_.
     try_bind (parse_head root) (\<lambda>m0.
     try_bind (require_array root ''resource_groups'') (\<lambda>groups.
     try_bind (add_groups groups (m0, [], [])) (\<lambda>(m1, ids, insts).
     try_bind (require_array root ''reserved_resources'') (\<lambda>reserved.
     try_bind (add_reserved insts reserved [] m1) (\<lambda>m2.
     try_bind (parse_motion_axes root m2) finish_motion))))))))"

definition instantiate_node_info :: "board_manifest \<Rightarrow> u32 \<Rightarrow> manifest_error + node_info" where
  "instantiate_node_info m inst =
     (if inst = 0 \<or> inst > 127 then value_error
      else Inr ((bm_node_info m)\<lparr>nf_uuid :=
        copy_uuid ((uuid_bytes (nf_uuid (bm_node_info m)))[15 := ucast inst])\<rparr>))"

subsection \<open>Fault scenarios\<close>

datatype fault_action = FA_SetUartFailed | FA_SetGpioInput | FA_SetNodeOnline | FA_TriggerMotionLimit

record fault_event =
  fe_at_ms :: u64
  fe_action :: fault_action
  fe_resource_id :: u32
  fe_value :: bool

record fault_scenario =
  fs_schema_version :: u32
  fs_events :: "fault_event list"

text \<open>The action of an event and the resource it names.\<close>

definition parse_action :: "json_object \<Rightarrow> manifest_error + fault_action \<times> u32" where
  "parse_action event =
     try_bind (require_string event ''action'') (\<lambda>action.
       if action = ''uart_failed'' then
         try_bind (require_u32 event ''resource_id'') (\<lambda>rid. Inr (FA_SetUartFailed, rid))
       else if action = ''gpio_input'' then
         try_bind (require_u32 event ''resource_id'') (\<lambda>rid. Inr (FA_SetGpioInput, rid))
       else if action = ''node_online'' then
         (if map_of event ''resource_id'' \<noteq> None then schema_error else Inr (FA_SetNodeOnline, 0))
       else if action = ''motion_limit'' then
         try_bind (require_u32 event ''resource_id'') (\<lambda>rid.
           if map_of event ''value'' \<noteq> None then schema_error
           else Inr (FA_TriggerMotionLimit, rid))
       else value_error)"

definition parse_event :: "json \<Rightarrow> manifest_error + fault_event" where
  "parse_event event_value =
     try_bind (require_object event_value) (\<lambda>event.
     try_bind (reject_unknown event [''at_ms'', ''action'', ''resource_id'', ''value'']) (\<lambda>_.
     try_bind (require_integer event ''at_ms'') (\<lambda>at_ms.
     if at_ms > 0x7FFFFFFFFFFFFFFF then value_error else
     try_bind (parse_action event) (\<lambda>(action, rid).
     try_bind (if action = FA_TriggerMotionLimit then Inr False else require_boolean event ''value'')
       (\<lambda>v. Inr \<lparr>fe_at_ms = at_ms, fe_action = action, fe_resource_id = rid, fe_value = v\<rparr>)))))"

fun event_loop ::
  "json list \<Rightarrow> bool \<Rightarrow> u64 \<Rightarrow> fault_event list \<Rightarrow> manifest_error + fault_event list" where
  "event_loop [] first previous_time events = Inr events"
| "event_loop (v # vs) first previous_time events =
     (if length events \<ge> 0xFFFF then value_error
      else try_bind (parse_event v) (\<lambda>event.
        if \<not> first \<and> fe_at_ms event < previous_time then value_error
        else event_loop vs False (fe_at_ms event) (events @ [event])))"

definition parse_fault_scenario :: "string \<Rightarrow> manifest_error + fault_scenario" where
  "parse_fault_scenario input =
     try_bind (parse_json input) (\<lambda>root_value.
     try_bind (require_object root_value) (\<lambda>root.
     try_bind (reject_unknown root [''schema_version'', ''events'']) (\<lambda>_.
     try_bind (require_u32 root ''schema_version'') (\<lambda>schema_version.
     if schema_version \<noteq> kFaultScenarioSchemaVersion then schema_error else
     try_bind (require_array root ''events'') (\<lambda>values.
     try_bind (event_loop values True 0 []) (\<lambda>events.
       Inr \<lparr>fs_schema_version = schema_version, fs_events = events\<rparr>))))))"

end
