(* ===== verification/Manifest_Ok.thy ===== *)
theory Manifest_Ok
  imports Board_Manifest
begin

text \<open>
  What an accepted board manifest promises: \<open>manifest_ok\<close>, and the proof that the parser
  establishes it. The loop over the resource groups keeps \<open>catalogue_ok\<close>; the reserved resources and
  the motion axes are added to a catalogue that no longer changes.
\<close>

abbreviation instance_code :: "resource_descriptor \<Rightarrow> byte \<times> u16" where
  "instance_code r \<equiv> (rd_type r, rd_instance r)"

abbreviation key_code :: "instance_key \<Rightarrow> byte \<times> u16" where
  "key_code k \<equiv> (resource_type_code (fst k), snd k)"

definition contract_matches :: "resource_descriptor \<Rightarrow> resource_contract \<Rightarrow> bool" where
  "contract_matches r k \<longleftrightarrow>
     rc_resource_id k = rd_resource_id r \<and> rc_version k = kResourceContractVersion \<and>
     (has_flag (rc_access_flags k) kResourceAccessLeaseRequired \<longrightarrow>
      has_flag (rc_access_flags k) kResourceAccessLeaseSupported)"

definition descriptor_declared :: "u64 \<Rightarrow> resource_descriptor \<Rightarrow> bool" where
  "descriptor_declared capabilities r \<longleftrightarrow>
     (\<exists>t. rd_type r = resource_type_code t \<and>
        capabilities AND capability_mask (resource_capability t) \<noteq> 0 \<and>
        (t = RT_Uart \<longrightarrow> rd_instance r < 256))"

text \<open>The catalogue: distinct resources of declared capabilities, each with its contract.\<close>

definition resources_ok :: "board_manifest \<Rightarrow> bool" where
  "resources_ok m \<longleftrightarrow>
     distinct (map rd_resource_id (bm_resources m)) \<and>
     distinct (map instance_code (bm_resources m)) \<and>
     length (bm_resources m) \<le> 65535 \<and>
     list_all (descriptor_declared (bm_capabilities m)) (bm_resources m) \<and>
     list_all2 contract_matches (bm_resources m) (bm_contracts m)"

definition reserved_ok :: "board_manifest \<Rightarrow> bool" where
  "reserved_ok m \<longleftrightarrow>
     distinct (map reserved_key (bm_reserved_resources m)) \<and>
     list_all (\<lambda>e. rr_owner e \<noteq> [] \<and> length (rr_owner e) \<le> 64 \<and>
         key_code (reserved_key e) \<notin> set (map instance_code (bm_resources m)))
       (bm_reserved_resources m)"

text \<open>One motion axis for each \<^verbatim>\<open>STEPGEN_AXIS\<close> resource, and one queue capacity for all.\<close>

definition axes_ok :: "board_manifest \<Rightarrow> bool" where
  "axes_ok m \<longleftrightarrow>
     distinct (map cf_resource_id (bm_motion_axes m)) \<and>
     set (map cf_resource_id (bm_motion_axes m)) =
       set (map rd_resource_id (filter is_stepgen (bm_resources m))) \<and>
     length (bm_motion_axes m) \<le> 64 \<and>
     1 \<le> bm_motion_queue_capacity m \<and> bm_motion_queue_capacity m \<le> 1024 \<and>
     (\<forall>r \<in> set (bm_resources m). is_stepgen r \<longrightarrow>
        (\<exists>k \<in> set (bm_contracts m). rc_resource_id k = rd_resource_id r \<and>
           unat (rc_queue_capacity k) = bm_motion_queue_capacity m))"

definition manifest_ok :: "board_manifest \<Rightarrow> bool" where
  "manifest_ok m \<longleftrightarrow>
     bm_name m \<noteq> [] \<and> length (bm_name m) \<le> 64 \<and>
     nf_protocol_version (bm_node_info m) = kProtocolVersion \<and>
     resources_ok m \<and> reserved_ok m \<and> axes_ok m"

subsection \<open>The resource groups\<close>

definition group_ok :: "resource_group \<Rightarrow> bool" where
  "group_ok g \<longleftrightarrow>
     unat (rg_count g) \<le> 256 \<and> unat (rg_first_instance g) + unat (rg_count g) \<le> 65536 \<and>
     (rg_type g = RT_Uart \<longrightarrow> unat (rg_first_instance g) + unat (rg_count g) \<le> 256) \<and>
     (\<forall>i inst. contract_matches (group_descriptor g i inst) (rg_contract g i))"

lemma access_flags_lease:
  "parse_access_flags vs = Inr flags \<Longrightarrow> has_flag flags kResourceAccessLeaseRequired \<Longrightarrow>
     has_flag flags kResourceAccessLeaseSupported"
  by (auto simp: parse_access_flags_def try_bind_Inr_iff has_flag_def split: if_splits)

lemma parse_contract_matches:
  assumes "parse_contract obj = Inr k"
  shows "rc_resource_id (k i) = i" "rc_version (k i) = kResourceContractVersion"
    and "has_flag (rc_access_flags (k i)) kResourceAccessLeaseRequired \<Longrightarrow>
      has_flag (rc_access_flags (k i)) kResourceAccessLeaseSupported"
  using assms by (auto simp: parse_contract_def try_bind_Inr_iff dest: access_flags_lease)

lemma group_ranges:
  assumes "check_group_ranges t first num base = Inr x"
  shows "unat num \<le> 256" "unat first + unat num \<le> 65536"
    and "t = RT_Uart \<Longrightarrow> unat first + unat num \<le> 256"
proof -
  have "unat first < 2 ^ LENGTH(16)" "unat num < 2 ^ LENGTH(16)" by (rule unsigned_less)+
  then have sum: "unat ((ucast first :: u32) + ucast num) = unat first + unat num"
    by (simp add: unat_word_ariths unsigned_ucast_eq take_bit_nat_eq_self)
  show "unat num \<le> 256" "unat first + unat num \<le> 65536"
    "t = RT_Uart \<Longrightarrow> unat first + unat num \<le> 256"
    using assms sum by (auto simp: check_group_ranges_def word_le_nat_alt not_less split: if_splits)
qed

lemma parse_group_ok: "parse_group_fields v = Inr g \<Longrightarrow> group_ok g"
  by (auto simp: parse_group_fields_def try_bind_Inr_iff group_ok_def contract_matches_def
      group_descriptor_def parse_contract_matches dest: group_ranges access_flags_lease)

text \<open>The loop over one group and over all groups.\<close>

definition manifest_rest :: "board_manifest \<Rightarrow> board_manifest" where
  "manifest_rest m = m\<lparr>bm_resources := [], bm_contracts := []\<rparr>"

lemma manifest_rest_fields:
  assumes "manifest_rest m = manifest_rest m0"
  shows "bm_name m = bm_name m0" "bm_node_info m = bm_node_info m0"
    "bm_capabilities m = bm_capabilities m0" "bm_reserved_resources m = bm_reserved_resources m0"
    "bm_motion_axes m = bm_motion_axes m0" "bm_motion_queue_capacity m = bm_motion_queue_capacity m0"
  using assms by (cases m, cases m0, simp add: manifest_rest_def)+

lemma manifest_rest_update [simp]:
  "manifest_rest (m\<lparr>bm_resources := rs, bm_contracts := ks\<rparr>) = manifest_rest m"
  by (simp add: manifest_rest_def)

definition catalogue_ok :: "board_manifest \<Rightarrow> catalogue \<Rightarrow> bool" where
  "catalogue_ok m0 cat \<longleftrightarrow>
     (case cat of (m, ids, insts) \<Rightarrow>
        resources_ok m \<and> set ids = set (map rd_resource_id (bm_resources m)) \<and>
        key_code ` set insts = set (map instance_code (bm_resources m)) \<and>
        manifest_rest m = manifest_rest m0)"

lemma resource_type_code_eq [simp]: "resource_type_code s = resource_type_code t \<longleftrightarrow> s = t"
  by (cases s; cases t) simp_all

lemma group_instance:
  assumes "group_ok g" "offset < unat (rg_count g)" "rg_type g = RT_Uart"
  shows "(ucast ((ucast (rg_first_instance g) :: u32) + of_nat offset) :: u16) < 256"
proof -
  have small: "unat (rg_first_instance g) + offset < 256" using assms by (auto simp: group_ok_def)
  then have "unat ((ucast (rg_first_instance g) :: u32) + of_nat offset) =
      unat (rg_first_instance g) + offset"
    by (simp add: unat_word_ariths unsigned_ucast_eq take_bit_nat_eq_self unat_of_nat_small)
  with small show ?thesis
    by (simp add: word_less_nat_alt unsigned_ucast_eq take_bit_nat_eq_self)
qed

lemma add_instances_ok:
  assumes "add_instances g offsets cat = Inr cat'" "group_ok g" "catalogue_ok m0 cat"
    and "\<forall>offset \<in> set offsets. offset < unat (rg_count g)"
    and "length (bm_resources (fst cat)) + length offsets \<le> 65535"
    and "bm_capabilities m0 AND capability_mask (resource_capability (rg_type g)) \<noteq> 0"
  shows "catalogue_ok m0 cat'"
  using assms
proof (induction g offsets cat rule: add_instances.induct)
  case (1 g cat)
  then show ?case by simp
next
  case (2 g offset offsets m ids insts)
  define inst :: u16 where "inst = ucast ((ucast (rg_first_instance g) :: u32) + of_nat offset)"
  define rid where "rid = rg_id_base g + of_nat offset"
  define m' where "m' = m\<lparr>bm_resources := bm_resources m @ [group_descriptor g rid inst],
    bm_contracts := bm_contracts m @ [rg_contract g rid]\<rparr>"
  have new: "rid \<notin> set ids" "(rg_type g, inst) \<notin> set insts" and
    run: "add_instances g offsets (m', rid # ids, (rg_type g, inst) # insts) = Inr cat'"
    using "2.prems"(1) by (auto simp: Let_def inst_def rid_def m'_def split: if_splits)
  have caps: "bm_capabilities m = bm_capabilities m0"
    using "2.prems"(3) by (auto simp: catalogue_ok_def dest: manifest_rest_fields)
  have code: "key_code (rg_type g, inst) \<notin> key_code ` set insts" using new(2) by (auto)
  have "rg_type g = RT_Uart \<longrightarrow> inst < 256"
    using group_instance [of g offset] "2.prems"(2,4) by (simp add: inst_def)
  then have "descriptor_declared (bm_capabilities m) (group_descriptor g rid inst)"
    using "2.prems"(6) caps by (auto simp: descriptor_declared_def group_descriptor_def)
  moreover have "contract_matches (group_descriptor g rid inst) (rg_contract g rid)"
    using "2.prems"(2) by (simp add: group_ok_def)
  ultimately have "catalogue_ok m0 (m', rid # ids, (rg_type g, inst) # insts)"
    using "2.prems"(3,5) new(1) code
    by (auto simp: catalogue_ok_def resources_ok_def m'_def group_descriptor_def
        intro: list_all2_appendI)
  then show ?case
    using "2.IH" [of inst rid] run new "2.prems"(2,4,5,6) by (simp add: inst_def rid_def m'_def)
qed

lemma add_group_ok:
  assumes "add_group v cat = Inr cat'" "catalogue_ok m0 cat"
  shows "catalogue_ok m0 cat'"
proof -
  obtain g where g: "parse_group_fields v = Inr g"
    and caps: "bm_capabilities (fst cat) AND capability_mask (resource_capability (rg_type g)) \<noteq> 0"
    and room: "\<not> length (bm_resources (fst cat)) > 0xFFFF - unat (rg_count g)"
    and run: "add_instances g [0..<unat (rg_count g)] cat = Inr cat'"
    using assms(1) by (auto simp: add_group_def try_bind_Inr_iff split: if_splits)
  note ok = parse_group_ok [OF g]
  have "bm_capabilities (fst cat) = bm_capabilities m0"
    using assms(2) by (auto simp: catalogue_ok_def dest: manifest_rest_fields)
  moreover have "length (bm_resources (fst cat)) + unat (rg_count g) \<le> 65535"
    using room ok by (auto simp: group_ok_def)
  ultimately show ?thesis
    using add_instances_ok [OF run ok assms(2)] caps by simp
qed

lemma add_groups_ok: "add_groups vs cat = Inr cat' \<Longrightarrow> catalogue_ok m0 cat \<Longrightarrow> catalogue_ok m0 cat'"
  by (induction vs cat rule: add_groups.induct) (auto simp: try_bind_Inr_iff dest: add_group_ok)

subsection \<open>Reserved resources\<close>

lemma parse_reserved_owner:
  "parse_reserved v = Inr e \<Longrightarrow> rr_owner e \<noteq> [] \<and> length (rr_owner e) \<le> 64"
  by (auto simp: parse_reserved_def try_bind_Inr_iff split: if_splits)

lemma add_reserved_ok:
  assumes "add_reserved insts vs keys m = Inr m'" "reserved_ok m"
    and "set keys = set (map reserved_key (bm_reserved_resources m))"
    and "key_code ` set insts = set (map instance_code (bm_resources m))"
  shows "reserved_ok m' \<and> m' = m\<lparr>bm_reserved_resources := bm_reserved_resources m'\<rparr>"
  using assms
proof (induction insts vs keys m rule: add_reserved.induct)
  case (1 insts keys m)
  then show ?case by simp
next
  case (2 insts v vs keys m)
  obtain e where e: "parse_reserved v = Inr e" and new: "reserved_key e \<notin> set keys" "reserved_key e \<notin> set insts"
    and run: "add_reserved insts vs (reserved_key e # keys)
      (m\<lparr>bm_reserved_resources := bm_reserved_resources m @ [e]\<rparr>) = Inr m'"
    using "2.prems"(1) by (auto simp: try_bind_Inr_iff split: if_splits)
  have "key_code (reserved_key e) \<notin> key_code ` set insts" using new(2) by auto
  then have "reserved_ok (m\<lparr>bm_reserved_resources := bm_reserved_resources m @ [e]\<rparr>)"
    using "2.prems"(2,3,4) new(1) parse_reserved_owner [OF e] by (auto simp: reserved_ok_def)
  from "2.IH" [OF new run this] "2.prems"(3,4) show ?case by (cases m) simp
qed

subsection \<open>Motion axes\<close>

definition axes_known :: "board_manifest \<Rightarrow> bool" where
  "axes_known m \<longleftrightarrow>
     distinct (map cf_resource_id (bm_motion_axes m)) \<and>
     set (map cf_resource_id (bm_motion_axes m)) \<subseteq>
       set (map rd_resource_id (filter is_stepgen (bm_resources m)))"

lemma manifest_resource_Some:
  "manifest_resource m i = Some r \<Longrightarrow> r \<in> set (bm_resources m) \<and> rd_resource_id r = i"
  by (auto simp: manifest_resource_def find_Some_iff)

lemma add_motion_axes_known:
  assumes "add_motion_axes vs configured m = Inr m'" "axes_known m"
    and "set configured = set (map cf_resource_id (bm_motion_axes m))"
  shows "axes_known m' \<and> m' = m\<lparr>bm_motion_axes := bm_motion_axes m'\<rparr>"
  using assms
proof (induction vs configured m rule: add_motion_axes.induct)
  case (1 configured m)
  then show ?case by simp
next
  case (2 v vs configured m)
  obtain config r where config: "parse_axis v = Inr config"
    and r: "manifest_resource m (cf_resource_id config) = Some r" "is_stepgen r"
    and new: "cf_resource_id config \<notin> set configured"
    and run: "add_motion_axes vs (cf_resource_id config # configured)
      (m\<lparr>bm_motion_axes := bm_motion_axes m @ [config]\<rparr>) = Inr m'"
    using "2.prems"(1) by (auto simp: try_bind_Inr_iff split: option.splits if_splits)
  have "axes_known (m\<lparr>bm_motion_axes := bm_motion_axes m @ [config]\<rparr>)"
    using "2.prems"(2,3) new r(2) manifest_resource_Some [OF r(1)]
    by (auto simp: axes_known_def intro!: image_eqI [of _ _ r])
  with "2.IH" [OF r(1)] run "2.prems"(3) new r(2) show ?case by (cases m) simp
qed

lemma queue_capacity_loop_ok:
  assumes "queue_capacity_loop contracts rs capacity = Inr capacity'"
    and "capacity \<noteq> None \<Longrightarrow> the capacity \<noteq> 0 \<and> the capacity \<le> 1024"
  shows "(capacity \<noteq> None \<longrightarrow> capacity' = capacity) \<and>
    (capacity' \<noteq> None \<longrightarrow> the capacity' \<noteq> 0 \<and> the capacity' \<le> 1024) \<and>
    (\<forall>r \<in> set rs. is_stepgen r \<longrightarrow> (\<exists>k \<in> set contracts. rc_resource_id k = rd_resource_id r \<and>
       capacity' = Some (rc_queue_capacity k)))"
  using assms
proof (induction contracts rs capacity rule: queue_capacity_loop.induct)
  case (1 contracts capacity)
  then show ?case by simp
next
  case (2 contracts r rs capacity)
  show ?case
  proof (cases "is_stepgen r")
    case False
    with 2 show ?thesis by simp
  next
    case True
    with "2.prems"(1) obtain k where k: "find (\<lambda>k. rc_resource_id k = rd_resource_id r) contracts = Some k"
      and range: "\<not> (rc_queue_capacity k = 0 \<or> rc_queue_capacity k > 1024)"
      and same: "\<not> (capacity \<noteq> None \<and> capacity \<noteq> Some (rc_queue_capacity k))"
      and run: "queue_capacity_loop contracts rs (Some (rc_queue_capacity k)) = Inr capacity'"
      by (auto split: option.splits if_splits)
    have "k \<in> set contracts" "rc_resource_id k = rd_resource_id r" using k by (auto simp: find_Some_iff)
    moreover have range': "rc_queue_capacity k \<noteq> 0" "rc_queue_capacity k \<le> 1024"
      using range by (auto simp: not_less)
    moreover note "2.IH"(2) [OF _ k range same run]
    ultimately show ?thesis using True same by auto
  qed
qed

lemma parse_motion_axes_known:
  assumes "parse_motion_axes root m = Inr m'" "bm_motion_axes m = []"
  shows "axes_known m' \<and> m' = m\<lparr>bm_motion_axes := bm_motion_axes m'\<rparr>"
proof (cases "map_of root ''motion_axes''")
  case None
  with assms show ?thesis by (cases m) (auto simp: parse_motion_axes_def axes_known_def)
next
  case (Some v)
  with assms(1) obtain vs where "add_motion_axes vs [] m = Inr m'"
    by (auto simp: parse_motion_axes_def split: json.splits)
  from add_motion_axes_known [OF this] assms(2) show ?thesis by (simp add: axes_known_def)
qed

lemma finish_motion_ok:
  assumes "finish_motion m = Inr m'" "axes_known m" "bm_motion_queue_capacity m = 32"
  shows "axes_ok m' \<and> m' = m\<lparr>bm_motion_queue_capacity := bm_motion_queue_capacity m'\<rparr>"
proof -
  obtain capacity where all: "\<forall>r \<in> set (bm_resources m). is_stepgen r \<longrightarrow>
      rd_resource_id r \<in> set (map cf_resource_id (bm_motion_axes m))"
    and loop: "queue_capacity_loop (bm_contracts m) (bm_resources m) None = Inr capacity"
    and few: "length (bm_motion_axes m) \<le> 64"
    and m': "m' = (case capacity of Some n \<Rightarrow> m\<lparr>bm_motion_queue_capacity := unat n\<rparr> | None \<Rightarrow> m)"
    using assms(1) by (auto simp: finish_motion_def try_bind_Inr_iff check_axes_configured_def
        kMaximumMotionAxes_def list_ex_iff split: if_splits)
  have ids: "set (map cf_resource_id (bm_motion_axes m)) =
      set (map rd_resource_id (filter is_stepgen (bm_resources m)))"
    using assms(2) all by (auto simp: axes_known_def)
  note capacities = queue_capacity_loop_ok [OF loop, simplified]
  show ?thesis
  proof (cases capacity)
    case None
    with capacities have "\<forall>r \<in> set (bm_resources m). \<not> is_stepgen r" by auto
    with None m' assms(2,3) ids few show ?thesis by (cases m) (auto simp: axes_ok_def axes_known_def)
  next
    case (Some n)
    then have "n \<noteq> 0" "unat n \<le> 1024" using capacities by (auto simp: word_le_nat_alt)
    then have "1 \<le> unat n" by (metis One_nat_def Suc_leI unat_eq_zero neq0_conv)
    with Some m' assms(2) ids few capacities \<open>unat n \<le> 1024\<close> show ?thesis
      by (cases m) (auto simp: axes_ok_def axes_known_def)
  qed
qed

lemma parsed_manifest_ok:
  assumes "parse_board_manifest input = Inr m"
  shows "manifest_ok m"
proof -
  obtain root groups reserved m0 m1 m2 m3 ids insts where m0: "parse_head root = Inr m0"
    and m1: "add_groups groups (m0, [], []) = Inr (m1, ids, insts)"
    and m2: "add_reserved insts reserved [] m1 = Inr m2"
    and m3: "parse_motion_axes root m2 = Inr m3" and m: "finish_motion m3 = Inr m"
    using assms by (auto simp: parse_board_manifest_def try_bind_Inr_iff)
  have head: "bm_name m0 \<noteq> []" "length (bm_name m0) \<le> 64"
    "nf_protocol_version (bm_node_info m0) = kProtocolVersion" "bm_resources m0 = []"
    "bm_contracts m0 = []" "bm_reserved_resources m0 = []" "bm_motion_axes m0 = []"
    "bm_motion_queue_capacity m0 = 32"
    using m0 by (auto simp: parse_head_def try_bind_Inr_iff split: if_splits)
  have "catalogue_ok m0 (m0, [], [])" using head by (simp add: catalogue_ok_def resources_ok_def)
  from add_groups_ok [OF m1 this] have cat: "resources_ok m1"
    "key_code ` set insts = set (map instance_code (bm_resources m1))"
    and rest: "manifest_rest m1 = manifest_rest m0" by (auto simp: catalogue_ok_def)
  have "reserved_ok m1" using manifest_rest_fields [OF rest] head by (simp add: reserved_ok_def)
  from add_reserved_ok [OF m2 this _ cat(2)]
  obtain rs where r2: "reserved_ok m2" "m2 = m1\<lparr>bm_reserved_resources := rs\<rparr>"
    using manifest_rest_fields(4) [OF rest] head(6) by (metis list.map_disc_iff)
  have "bm_motion_axes m2 = []" using r2(2) manifest_rest_fields [OF rest] head by simp
  from parse_motion_axes_known [OF m3 this]
  obtain axes where r3: "axes_known m3" "m3 = m2\<lparr>bm_motion_axes := axes\<rparr>" by blast
  have "bm_motion_queue_capacity m3 = 32" using r2(2) r3(2) manifest_rest_fields [OF rest] head by simp
  from finish_motion_ok [OF m r3(1) this]
  obtain capacity where r4: "axes_ok m" "m = m3\<lparr>bm_motion_queue_capacity := capacity\<rparr>" by blast
  have shape: "m = m2\<lparr>bm_motion_axes := axes, bm_motion_queue_capacity := capacity\<rparr>"
    "m = m1\<lparr>bm_reserved_resources := rs, bm_motion_axes := axes, bm_motion_queue_capacity := capacity\<rparr>"
    using r4(2) r3(2) r2(2) by simp_all
  have "resources_ok m" using cat(1) unfolding shape(2) by (simp add: resources_ok_def)
  moreover have "reserved_ok m" using r2(1) unfolding shape(1) by (simp add: reserved_ok_def)
  moreover have "bm_name m \<noteq> []" "length (bm_name m) \<le> 64"
    "nf_protocol_version (bm_node_info m) = kProtocolVersion"
    using head manifest_rest_fields [OF rest] unfolding shape(2) by simp_all
  ultimately show ?thesis using r4(1) by (simp add: manifest_ok_def)
qed

text \<open>A board with a GPIO pin and a motion axis.\<close>

definition demo_contract :: "nat \<Rightarrow> json" where
  "demo_contract queue = J_Object
     [(''access'', J_Array [J_String ''read'', J_String ''write'']),
      (''timing_resolution_ns'', J_Integer 1), (''worst_case_latency_us'', J_Integer 5),
      (''maximum_operations_per_second'', J_Integer 7), (''queue_capacity'', J_Integer (of_nat queue)),
      (''maximum_rx_bits_per_second'', J_Integer 0), (''maximum_tx_bits_per_second'', J_Integer 0)]"

definition demo_group :: "string \<Rightarrow> u64 \<Rightarrow> nat \<Rightarrow> json" where
  "demo_group t base queue = J_Object
     [(''type'', J_String t), (''first_instance'', J_Integer 0), (''count'', J_Integer 1),
      (''id_base'', J_Integer base), (''source'', J_String ''native''), (''rx_capacity'', J_Integer 0),
      (''tx_capacity'', J_Integer 0), (''contract'', demo_contract queue)]"

definition demo_json :: json where
  "demo_json = J_Object
     [(''schema_version'', J_Integer 1), (''name'', J_String ''demo''), (''board_type'', J_Integer 3),
      (''uuid'', J_String ''000102030405060708090a0B0c0d0e0f''),
      (''firmware_version'', J_Array [J_Integer 1, J_Integer 2, J_Integer 3]),
      (''capabilities'', J_Array [J_String ''gpio'', J_String ''motion'']),
      (''resource_groups'', J_Array [demo_group ''gpio'' 1 0, demo_group ''stepgen_axis'' 9 16]),
      (''reserved_resources'', J_Array []),
      (''motion_axes'', J_Array [J_Object
         [(''resource_id'', J_Integer 9), (''maximum_step_rate_hz'', J_Integer 1000),
          (''step_pulse_width_ns'', J_Integer 2000), (''minimum_step_low_ns'', J_Integer 2000),
          (''direction_setup_ns'', J_Integer 500)]])]"

lemmas manifest_reading = require_object_def reject_unknown_def require_array_def require_field_def
  require_u32_def require_u16_def require_integer_def require_string_def

definition demo_resource :: "resource_type \<Rightarrow> u32 \<Rightarrow> u32 \<Rightarrow> resource_descriptor \<times> resource_contract" where
  "demo_resource t rid queue =
     (\<lparr>rd_resource_id = rid, rd_type = resource_type_code t, rd_instance = 0,
       rd_flags = kResourceFlagNative, rd_rx_capacity = 0, rd_tx_capacity = 0\<rparr>,
      \<lparr>rc_resource_id = rid, rc_version = kResourceContractVersion, rc_access_flags = 3,
       rc_timing_resolution_ns = 1, rc_worst_case_latency_us = 5,
       rc_maximum_operations_per_second = 7, rc_queue_capacity = queue,
       rc_maximum_rx_bits_per_second = 0, rc_maximum_tx_bits_per_second = 0\<rparr>)"

definition demo_manifest :: board_manifest where
  "demo_manifest = \<lparr>bm_schema_version = 1, bm_name = ''demo'',
     bm_node_info = \<lparr>nf_uuid = copy_uuid [0, 1, 2, 3, 4, 5, 6, 7, 8, 9, 10, 11, 12, 13, 14, 15],
       nf_firmware_major = 1, nf_firmware_minor = 2, nf_firmware_patch = 3, nf_board_type = 3,
       nf_protocol_version = kProtocolVersion\<rparr>,
     bm_capabilities = 513,
     bm_resources = [fst (demo_resource RT_Gpio 1 0), fst (demo_resource RT_StepgenAxis 9 16)],
     bm_contracts = [snd (demo_resource RT_Gpio 1 0), snd (demo_resource RT_StepgenAxis 9 16)],
     bm_reserved_resources = [],
     bm_motion_axes = [\<lparr>cf_resource_id = 9, cf_maximum_step_rate_hz = 1000,
       cf_step_pulse_width_ns = 2000, cf_minimum_step_low_ns = 2000, cf_direction_setup_ns = 500\<rparr>],
     bm_motion_queue_capacity = 16\<rparr>"

definition demo_read_group :: "resource_type \<Rightarrow> u32 \<Rightarrow> u32 \<Rightarrow> resource_group" where
  "demo_read_group t base queue = \<lparr>rg_type = t, rg_first_instance = 0, rg_count = 1,
     rg_id_base = base, rg_flags = kResourceFlagNative, rg_rx_capacity = 0, rg_tx_capacity = 0,
     rg_contract = (\<lambda>rid. snd (demo_resource t rid queue))\<rparr>"

lemma demo_groups:
  "parse_group_fields (demo_group ''gpio'' 1 0) = Inr (demo_read_group RT_Gpio 1 0)"
  "parse_group_fields (demo_group ''stepgen_axis'' 9 16) = Inr (demo_read_group RT_StepgenAxis 9 16)"
  by (simp_all add: demo_group_def demo_contract_def demo_read_group_def demo_resource_def
      parse_group_fields_def parse_contract_def manifest_reading parse_resource_type_def
      check_group_ranges_def parse_source_def parse_access_flags_def access_flag_def
      kResourceAccessReadable_def kResourceAccessWritable_def kResourceAccessLeaseRequired_def)

lemma demo_uuid:
  "parse_uuid ''000102030405060708090a0B0c0d0e0f'' =
     Inr (copy_uuid [0, 1, 2, 3, 4, 5, 6, 7, 8, 9, 10, 11, 12, 13, 14, 15])"
  by (simp add: parse_uuid_def hex_digit_def)

definition demo_members :: json_object where
  "demo_members = (case demo_json of J_Object kvs \<Rightarrow> kvs | _ \<Rightarrow> [])"

definition demo_head :: board_manifest where
  "demo_head = demo_manifest\<lparr>bm_resources := [], bm_contracts := [], bm_motion_axes := [],
     bm_motion_queue_capacity := 32\<rparr>"

lemma demo_head_parses: "parse_head demo_members = Inr demo_head"
  by (simp add: demo_members_def demo_json_def parse_head_def manifest_reading demo_uuid demo_head_def
      demo_manifest_def parse_capability_def parse_resource_type_def kBoardManifestSchemaVersion_def
      nth_Cons_numeral)

lemma demo_catalogue:
  "\<exists>ids insts. add_groups [demo_group ''gpio'' 1 0, demo_group ''stepgen_axis'' 9 16] (demo_head, [], []) =
     Inr (demo_head\<lparr>bm_resources := bm_resources demo_manifest, bm_contracts := bm_contracts demo_manifest\<rparr>,
          ids, insts)"
  by (simp add: add_group_def demo_groups demo_read_group_def demo_head_def demo_manifest_def
      group_descriptor_def demo_resource_def)

lemma demo_parses: "parse_board_manifest (json_text demo_json) = Inr demo_manifest"
proof -
  have wf: "json_wf demo_json" by (simp add: demo_json_def demo_group_def demo_contract_def)
  have root: "require_object demo_json = Inr demo_members"
    by (simp add: demo_members_def demo_json_def require_object_def)
  obtain ids insts where cat: "add_groups [demo_group ''gpio'' 1 0, demo_group ''stepgen_axis'' 9 16] (demo_head, [], []) =
      Inr (demo_head\<lparr>bm_resources := bm_resources demo_manifest, bm_contracts := bm_contracts demo_manifest\<rparr>,
           ids, insts)"
    using demo_catalogue by blast
  have fields: "reject_unknown demo_members
      [''schema_version'', ''name'', ''board_type'', ''uuid'', ''firmware_version'', ''capabilities'',
       ''resource_groups'', ''reserved_resources'', ''motion_axes''] = Inr ()"
    "require_array demo_members ''resource_groups'' =
      Inr [demo_group ''gpio'' 1 0, demo_group ''stepgen_axis'' 9 16]"
    "require_array demo_members ''reserved_resources'' = Inr []"
    by (simp_all add: demo_members_def demo_json_def manifest_reading)
  have "try_bind (parse_motion_axes demo_members
      (demo_head\<lparr>bm_resources := bm_resources demo_manifest, bm_contracts := bm_contracts demo_manifest\<rparr>))
      finish_motion = Inr demo_manifest"
    by (simp add: parse_motion_axes_def demo_members_def demo_json_def parse_axis_def manifest_reading
        demo_head_def demo_manifest_def manifest_resource_def demo_resource_def is_stepgen_def
        finish_motion_def check_axes_configured_def kMaximumMotionAxes_def)
  with root cat fields show ?thesis
    by (simp add: parse_board_manifest_def parse_json_text [OF wf] demo_head_parses)
qed

text \<open>
  C31. Every board manifest the parser accepts is well formed: its resources have distinct
  identifiers and distinct type and instance, at most 65535 of them, each of a declared capability
  and with a contract of its own that requires a lease only if it supports leases; no reserved
  resource is also public; and the motion axes are exactly the \<^verbatim>\<open>STEPGEN_AXIS\<close> resources, at most
  64, sharing a queue capacity between 1 and 1024.
\<close>

theorem manifest_accepted_ok:
  assumes "parse_board_manifest input = Inr m"
  shows "manifest_ok m"
  by (rule parsed_manifest_ok [OF assms])

lemma manifest_accepted_ok_witness: "manifest_ok demo_manifest"
  by (rule manifest_accepted_ok [OF demo_parses])

end
