(* ===== verification/Digital_Twin.thy ===== *)
theory Digital_Twin
  imports Manifest_Ok Core_Reachable
begin

text \<open>
  Class \<^verbatim>\<open>DigitalTwin\<close> and \<^verbatim>\<open>make_remote_core\<close> of \<^verbatim>\<open>mock_mcu/src/board_manifest.cpp\<close>: the simulated
  board built from a manifest, and the fault scenario that plays against its back ends.

  The C++ twin and the core share the back ends through \<^verbatim>\<open>shared_ptr\<close>. Here each of the two records
  holds the back ends, and \<open>attach tw c\<close> is the core \<open>c\<close> seen with the back ends of the twin \<open>tw\<close>: an
  operation of the twin turns the view \<open>attach tw c\<close> into \<open>attach tw' c\<close>. Exceptions of the
  components below pass through the twin; \<open>TE_NullMotion\<close> stands for following the null pointer
  \<^verbatim>\<open>motion_\<close>, which is undefined behaviour and which the constructor excludes (\<open>twin_ok\<close>).
\<close>

subsection \<open>State\<close>

datatype twin_exception =
    TE_Manifest manifest_error | TE_Gpio mock_gpio_error | TE_Uart uart_error
  | TE_Motion motion_error | TE_Core core_error | TE_NullMotion

record digital_twin =
  dt_manifest :: board_manifest
  dt_scenario :: fault_scenario
  dt_gpio :: mock_gpio_bsp
  dt_uart :: mock_uart_bsp
  dt_motion :: "motion_executor option"
  dt_pending_motion_edges :: "motion_edge list"
  dt_next_event_index :: nat
  dt_online :: bool

text \<open>The default of the constructor's third parameter in \<^verbatim>\<open>motion_executor.hpp\<close>.\<close>

definition kDefaultLeadTimeNs :: u64 where "kDefaultLeadTimeNs = 1000000"

definition require_resource ::
  "board_manifest \<Rightarrow> u32 \<Rightarrow> resource_type \<Rightarrow> twin_exception + resource_descriptor" where
  "require_resource m resource_id t =
     (case manifest_resource m resource_id of
        None \<Rightarrow> Inl (TE_Manifest Manifest_InvalidValue)
      | Some r \<Rightarrow> if rd_type r \<noteq> resource_type_code t then Inl (TE_Manifest Manifest_InvalidValue) else Inr r)"

definition uart_capacity :: "(resource_descriptor \<Rightarrow> u32) \<Rightarrow> board_manifest \<Rightarrow> u32" where
  "uart_capacity f m =
     fold (\<lambda>r c. if rd_type r = resource_type_code RT_Uart then max c (f r) else c) (bm_resources m) 1"

definition check_event ::
  "board_manifest \<Rightarrow> motion_executor option \<Rightarrow> fault_event \<Rightarrow> twin_exception + unit" where
  "check_event m motion event =
     (case fe_action event of
        FA_SetUartFailed \<Rightarrow> try_bind (require_resource m (fe_resource_id event) RT_Uart) (\<lambda>_. Inr ())
      | FA_SetGpioInput \<Rightarrow> try_bind (require_resource m (fe_resource_id event) RT_Gpio) (\<lambda>_. Inr ())
      | FA_TriggerMotionLimit \<Rightarrow>
          try_bind (require_resource m (fe_resource_id event) RT_StepgenAxis) (\<lambda>_.
            if motion = None then Inl (TE_Manifest Manifest_InvalidValue) else Inr ())
      | FA_SetNodeOnline \<Rightarrow>
          if fe_resource_id event \<noteq> 0 then Inl (TE_Manifest Manifest_InvalidValue) else Inr ())"

definition digital_twin_new :: "board_manifest \<Rightarrow> fault_scenario \<Rightarrow> twin_exception + digital_twin" where
  "digital_twin_new m scenario =
     try_bind (map_error TE_Uart (mock_uart_new (unat (uart_capacity rd_rx_capacity m))
                                                (unat (uart_capacity rd_tx_capacity m)))) (\<lambda>uart.
     try_bind
       (if bm_motion_axes m = [] then Inr None
        else map_error TE_Motion (try_bind
          (motion_executor_new (bm_motion_axes m) (bm_motion_queue_capacity m) kDefaultLeadTimeNs)
          (\<lambda>e. Inr (Some e)))) (\<lambda>motion.
     try_bind (traverse (check_event m motion) (fs_events scenario)) (\<lambda>_.
       Inr \<lparr>dt_manifest = m, dt_scenario = scenario, dt_gpio = mock_gpio_new, dt_uart = uart,
         dt_motion = motion, dt_pending_motion_edges = [], dt_next_event_index = 0,
         dt_online = True\<rparr>)))"

subsection \<open>Operations\<close>

definition next_event_ms :: "digital_twin \<Rightarrow> u64 option" where
  "next_event_ms tw =
     (if dt_next_event_index tw \<ge> length (fs_events (dt_scenario tw)) then None
      else Some (fe_at_ms (fs_events (dt_scenario tw) ! dt_next_event_index tw)))"

definition take_motion_edges :: "digital_twin \<Rightarrow> motion_edge list \<times> digital_twin" where
  "take_motion_edges tw = (dt_pending_motion_edges tw, tw\<lparr>dt_pending_motion_edges := []\<rparr>)"

text \<open>One event; the edges of a limit stop are kept for \<^verbatim>\<open>take_motion_edges\<close>.\<close>

definition apply_event :: "fault_event \<Rightarrow> digital_twin \<Rightarrow> (twin_exception + unit) \<times> digital_twin" where
  "apply_event event tw =
     (case fe_action event of
        FA_SetUartFailed \<Rightarrow>
          (case require_resource (dt_manifest tw) (fe_resource_id event) RT_Uart of
             Inl e \<Rightarrow> (Inl e, tw)
           | Inr r \<Rightarrow>
               (Inr (), tw\<lparr>dt_uart := uart_set_failed (ucast (rd_instance r)) (fe_value event) (dt_uart tw)\<rparr>))
      | FA_SetGpioInput \<Rightarrow>
          (case require_resource (dt_manifest tw) (fe_resource_id event) RT_Gpio of
             Inl e \<Rightarrow> (Inl e, tw)
           | Inr r \<Rightarrow>
               (case set_input_value (rd_instance r) (fe_value event) (dt_gpio tw) of
                  (Inl e, b) \<Rightarrow> (Inl (TE_Gpio e), tw\<lparr>dt_gpio := b\<rparr>)
                | (Inr _, b) \<Rightarrow> (Inr (), tw\<lparr>dt_gpio := b\<rparr>)))
      | FA_TriggerMotionLimit \<Rightarrow>
          (case dt_motion tw of
             None \<Rightarrow> (Inl TE_NullMotion, tw)
           | Some e \<Rightarrow>
               (case trigger_limit (fe_resource_id event) (fe_at_ms event * 1000000) e of
                  (Inl err, e') \<Rightarrow> (Inl (TE_Motion err), tw\<lparr>dt_motion := Some e'\<rparr>)
                | (Inr edges, e') \<Rightarrow>
                    (Inr (), tw\<lparr>dt_motion := Some e',
                       dt_pending_motion_edges := dt_pending_motion_edges tw @ edges\<rparr>)))
      | FA_SetNodeOnline \<Rightarrow> (Inr (), tw\<lparr>dt_online := fe_value event\<rparr>))"

text \<open>
  The loop of \<^verbatim>\<open>advance_to\<close> over the events that are due: \<open>events\<close> are those from the index on. An
  event whose application throws is not passed over.
\<close>

fun advance_events ::
  "u64 \<Rightarrow> fault_event list \<Rightarrow> nat \<Rightarrow> digital_twin \<Rightarrow> (twin_exception + nat) \<times> digital_twin" where
  "advance_events elapsed_ms [] applied tw = (Inr applied, tw)"
| "advance_events elapsed_ms (event # events) applied tw =
     (if fe_at_ms event \<le> elapsed_ms then
        (case apply_event event tw of
           (Inl e, tw') \<Rightarrow> (Inl e, tw')
         | (Inr _, tw') \<Rightarrow>
             advance_events elapsed_ms events (applied + 1)
               (tw'\<lparr>dt_next_event_index := dt_next_event_index tw' + 1\<rparr>))
      else (Inr applied, tw))"

definition twin_advance_to :: "u64 \<Rightarrow> digital_twin \<Rightarrow> (twin_exception + nat) \<times> digital_twin" where
  "twin_advance_to elapsed_ms tw =
     (case advance_events elapsed_ms (drop (dt_next_event_index tw) (fs_events (dt_scenario tw))) 0 tw of
        (Inl e, tw') \<Rightarrow> (Inl e, tw')
      | (Inr applied, tw') \<Rightarrow>
          (case dt_motion tw' of
             None \<Rightarrow> (Inr applied, tw')
           | Some e \<Rightarrow>
               if elapsed_ms > u64_max div 1000000 then (Inl (TE_Manifest Manifest_InvalidValue), tw')
               else (case advance_to (elapsed_ms * 1000000) e of
                   (Inl err, e') \<Rightarrow> (Inl (TE_Motion err), tw'\<lparr>dt_motion := Some e'\<rparr>)
                 | (Inr edges, e') \<Rightarrow>
                     (Inr applied, tw'\<lparr>dt_motion := Some e',
                        dt_pending_motion_edges := dt_pending_motion_edges tw' @ edges\<rparr>))))"

definition make_remote_core :: "digital_twin \<Rightarrow> u32 \<Rightarrow> twin_exception + remote_core" where
  "make_remote_core tw inst =
     try_bind (map_error TE_Manifest (instantiate_node_info (dt_manifest tw) inst)) (\<lambda>info.
       map_error TE_Core (remote_core_new info (bm_capabilities (dt_manifest tw)) (Some (dt_gpio tw))
         (Some (dt_uart tw)) (bm_resources (dt_manifest tw)) (bm_contracts (dt_manifest tw))
         (dt_motion tw)))"

definition attach :: "digital_twin \<Rightarrow> remote_core \<Rightarrow> remote_core" where
  "attach tw c = c\<lparr>co_gpio_bsp := Some (dt_gpio tw), co_uart_bsp := Some (dt_uart tw),
     co_motion := dt_motion tw\<rparr>"

subsection \<open>Booting a node from an accepted manifest\<close>

text \<open>What the constructors check beyond the manifest parser.\<close>

definition axis_valid :: "motion_axis_config \<Rightarrow> bool" where
  "axis_valid config \<longleftrightarrow>
     cf_resource_id config \<noteq> 0 \<and> cf_maximum_step_rate_hz config \<noteq> 0 \<and>
     cf_step_pulse_width_ns config \<noteq> 0 \<and> cf_minimum_step_low_ns config \<noteq> 0 \<and>
     cf_direction_setup_ns config \<noteq> 0 \<and>
     ucast (cf_maximum_step_rate_hz config) *
       (ucast (cf_step_pulse_width_ns config) + ucast (cf_minimum_step_low_ns config)) \<le> (1000000000 :: u64)"

definition resource_is :: "board_manifest \<Rightarrow> u32 \<Rightarrow> resource_type \<Rightarrow> bool" where
  "resource_is m resource_id t \<longleftrightarrow>
     (case manifest_resource m resource_id of None \<Rightarrow> False | Some r \<Rightarrow> rd_type r = resource_type_code t)"

definition event_valid :: "board_manifest \<Rightarrow> fault_event \<Rightarrow> bool" where
  "event_valid m event \<longleftrightarrow>
     (case fe_action event of
        FA_SetUartFailed \<Rightarrow> resource_is m (fe_resource_id event) RT_Uart
      | FA_SetGpioInput \<Rightarrow> resource_is m (fe_resource_id event) RT_Gpio
      | FA_TriggerMotionLimit \<Rightarrow> resource_is m (fe_resource_id event) RT_StepgenAxis
      | FA_SetNodeOnline \<Rightarrow> fe_resource_id event = 0)"

lemma add_axes_accepts:
  "(\<exists>r. add_axes configs axes indices = Inr r) \<longleftrightarrow>
     list_all axis_valid configs \<and> distinct (map cf_resource_id configs) \<and>
     (\<forall>c \<in> set configs. map_of indices (cf_resource_id c) = None)"
proof (induction configs axes indices rule: add_axes.induct)
  case (1 axes indices)
  then show ?case by simp
next
  case (2 config configs axes indices)
  show ?case
  proof (cases "axis_valid config \<and> map_of indices (cf_resource_id config) = None")
    case True
    then have ok1: "\<not> (cf_resource_id config = 0 \<or> cf_maximum_step_rate_hz config = 0 \<or>
        cf_step_pulse_width_ns config = 0 \<or> cf_minimum_step_low_ns config = 0 \<or>
        cf_direction_setup_ns config = 0 \<or> map_of indices (cf_resource_id config) \<noteq> None)"
      by (simp add: axis_valid_def)
    have ok2: "\<not> ucast (cf_maximum_step_rate_hz config) *
        (ucast (cf_step_pulse_width_ns config) + ucast (cf_minimum_step_low_ns config)) > (1000000000 :: u64)"
      using True unfolding axis_valid_def not_less by blast
    have at: "map_of (hemplace (cf_resource_id config) (length axes) indices) i =
        (if i = cf_resource_id config then Some (length axes) else map_of indices i)" for i
      using conjunct2 [OF True] by (simp add: map_of_hemplace)
    have "(\<forall>c \<in> set configs. map_of (hemplace (cf_resource_id config) (length axes) indices) (cf_resource_id c) = None) \<longleftrightarrow>
        cf_resource_id config \<notin> cf_resource_id ` set configs \<and>
        (\<forall>c \<in> set configs. map_of indices (cf_resource_id c) = None)"
      unfolding at by (metis (no_types, lifting) image_iff option.distinct(1))
    moreover have "add_axes (config # configs) axes indices = add_axes configs (axes @ [new_axis config])
        (hemplace (cf_resource_id config) (length axes) indices)"
      unfolding add_axes.simps Let_def if_not_P [OF ok1] if_not_P [OF ok2] ..
    ultimately show ?thesis
      using True "2.IH" [OF ok1 refl ok2] by auto
  next
    case False
    then have "add_axes (config # configs) axes indices = Inl InvalidConfiguration"
      unfolding axis_valid_def not_le [symmetric] add_axes.simps Let_def by argo
    with False show ?thesis by auto
  qed
qed

lemma motion_new_accepts:
  assumes "manifest_ok m" "bm_motion_axes m \<noteq> []"
  shows "(\<exists>e. motion_executor_new (bm_motion_axes m) (bm_motion_queue_capacity m) kDefaultLeadTimeNs = Inr e) \<longleftrightarrow>
    list_all axis_valid (bm_motion_axes m)"
  using assms add_axes_accepts [of "bm_motion_axes m" "[]" "[]"]
  by (auto simp: motion_executor_new_def manifest_ok_def axes_ok_def kMaximumMotionAxes_def
      kDefaultLeadTimeNs_def try_bind_Inr_iff)

lemma uart_capacity_pos: "1 \<le> uart_capacity f m"
proof -
  have "1 \<le> c \<Longrightarrow> 1 \<le> fold (\<lambda>r c. if rd_type r = resource_type_code RT_Uart then max c (f r) else c) rs c"
    for rs and c :: u32
    by (induction rs arbitrary: c) (auto simp: max_def)
  then show ?thesis by (simp add: uart_capacity_def)
qed

lemma twin_uart_new: "\<exists>u. mock_uart_new (unat (uart_capacity f m)) (unat (uart_capacity g m)) = Inr u"
proof -
  have "unat w \<le> uint32_max" for w :: u32
    using unsigned_less [of w, where ?'a = nat] by (simp add: uint32_max_def)
  moreover have "unat (uart_capacity h m) \<noteq> 0" for h
    using uart_capacity_pos [of h m] by (auto simp: word_le_nat_alt)
  ultimately show ?thesis by (auto simp: mock_uart_new_def not_less)
qed

lemma check_event_accepts:
  assumes "manifest_ok m" "motion = None \<longleftrightarrow> bm_motion_axes m = []"
  shows "(\<exists>x. check_event m motion event = Inr x) \<longleftrightarrow> event_valid m event"
proof -
  have known: "(\<exists>r. require_resource m i t = Inr r) \<longleftrightarrow> resource_is m i t" for i t
    by (auto simp: require_resource_def resource_is_def split: option.split)
  have "motion \<noteq> None" if "require_resource m i RT_StepgenAxis = Inr r" for i r
  proof -
    have "r \<in> set (filter is_stepgen (bm_resources m))"
      using that by (auto simp: require_resource_def is_stepgen_def split: option.splits if_splits
          dest: manifest_resource_Some)
    then have "set (map cf_resource_id (bm_motion_axes m)) \<noteq> {}"
      using assms(1) unfolding manifest_ok_def axes_ok_def by (metis empty_iff imageI set_map)
    with assms(2) show ?thesis by auto
  qed
  then have axis: "(\<exists>r. require_resource m i RT_StepgenAxis = Inr r) \<and> motion \<noteq> None \<longleftrightarrow>
      resource_is m i RT_StepgenAxis" for i using known [of i] by metis
  show ?thesis
    using known [of "fe_resource_id event"] axis [of "fe_resource_id event"]
    by (cases "fe_action event") (auto simp: check_event_def event_valid_def try_bind_Inr_iff)
qed

lemma traverse_accepts: "(\<exists>ys. traverse f xs = Inr ys) \<longleftrightarrow> (\<forall>x \<in> set xs. \<exists>y. f x = Inr y)"
  by (induction xs) (auto split: sum.splits)

lemma twin_new_accepts:
  assumes "manifest_ok m"
  shows "(\<exists>tw. digital_twin_new m scenario = Inr tw) \<longleftrightarrow>
    list_all axis_valid (bm_motion_axes m) \<and> list_all (event_valid m) (fs_events scenario)"
proof -
  obtain u where u: "mock_uart_new (unat (uart_capacity rd_rx_capacity m))
      (unat (uart_capacity rd_tx_capacity m)) = Inr u"
    using twin_uart_new by blast
  have events: "(\<exists>ys. traverse (check_event m motion) (fs_events scenario) = Inr ys) \<longleftrightarrow>
      list_all (event_valid m) (fs_events scenario)" if "motion = None \<longleftrightarrow> bm_motion_axes m = []" for motion
    using check_event_accepts [OF assms that] by (simp add: traverse_accepts list_all_iff)
  show ?thesis
  proof (cases "bm_motion_axes m = []")
    case True
    with u events [of None] show ?thesis by (simp add: digital_twin_new_def try_bind_Inr_iff)
  next
    case False
    with u events [of "Some _"] motion_new_accepts [OF assms False] show ?thesis
      by (auto simp: digital_twin_new_def try_bind_Inr_iff)
  qed
qed

lemma check_resources_accepts:
  "(\<exists>ids'. check_resources ids rs = Inr ids') \<longleftrightarrow>
     distinct (map rd_resource_id rs) \<and> 0 \<notin> rd_resource_id ` set rs \<and>
     rd_resource_id ` set rs \<inter> set ids = {}"
  by (induction ids rs rule: check_resources.induct) auto

lemma check_resources_result:
  "check_resources ids rs = Inr ids' \<Longrightarrow> set ids' = set ids \<union> rd_resource_id ` set rs"
  by (induction ids rs rule: check_resources.induct) (auto split: if_splits)

lemma check_contracts_accepts:
  assumes "list_all2 contract_matches rs ks" "distinct (map rd_resource_id rs)"
    and "0 \<notin> rd_resource_id ` set rs" "rd_resource_id ` set rs \<subseteq> set rids"
    and "rd_resource_id ` set rs \<inter> set ids = {}"
  shows "check_contracts rids ids ks = Inr ()"
  using assms
  by (induction rs ks arbitrary: ids rule: list_all2_induct) (auto simp: contract_matches_def)

lemma remote_core_accepts:
  assumes "manifest_ok m" "nf_protocol_version info = kProtocolVersion"
  shows "(\<exists>c. remote_core_new info caps gpio uart (bm_resources m) (bm_contracts m) motion = Inr c) \<longleftrightarrow>
    0 \<notin> rd_resource_id ` set (bm_resources m)"
proof -
  have m: "list_all2 contract_matches (bm_resources m) (bm_contracts m)"
    "distinct (map rd_resource_id (bm_resources m))"
    using assms(1) by (auto simp: manifest_ok_def resources_ok_def)
  have "check_contracts ids [] (bm_contracts m) = Inr ()"
    if "check_resources [] (bm_resources m) = Inr ids" "0 \<notin> rd_resource_id ` set (bm_resources m)" for ids
    using check_contracts_accepts [OF m that(2)] check_resources_result [OF that(1)] by simp
  then show ?thesis
    using assms(2) m(2) check_resources_accepts [of "[]" "bm_resources m"]
    by (fastforce simp: remote_core_new_def try_bind_Inr_iff)
qed

lemma manifest_catalog_ok: "manifest_ok m \<Longrightarrow> catalog_ok (bm_resources m)"
proof -
  assume m: "manifest_ok m"
  have "valid_type (resource_type_code t)" for t by (cases t) (simp_all add: valid_type_def)
  with m show ?thesis
    by (auto simp: catalog_ok_def manifest_ok_def resources_ok_def list_all_iff descriptor_declared_def)
qed

lemma remote_core_new_fields:
  assumes "remote_core_new info caps gpio uart resources contracts motion = Inr c"
  shows "co_resources c = resources" "co_gpio_bsp c = gpio" "co_uart_bsp c = uart" "co_motion c = motion"
  using assms by (auto simp: remote_core_new_def try_bind_Inr_iff split: if_splits)

lemma twin_motion_reachable:
  "digital_twin_new m scenario = Inr tw \<Longrightarrow> dt_motion tw = Some e \<Longrightarrow> executor_reachable e"
  by (auto simp: digital_twin_new_def try_bind_Inr_iff intro: reach_new split: if_splits)

lemma twin_new_manifest: "digital_twin_new m scenario = Inr tw \<Longrightarrow> dt_manifest tw = m"
  by (auto simp: digital_twin_new_def try_bind_Inr_iff)

text \<open>
  C32. A board boots from an accepted manifest, with a scenario and an instance number, exactly when
  the number is between 1 and 127, no resource has identifier 0, every motion axis keeps within the
  pulse limits and every event refers to a resource of its kind; and the core of a board that boots
  is in its initial state with a well-formed catalogue, so that the properties of reachable cores
  apply to it, and shares the back ends with the twin.
\<close>

theorem board_boots:
  assumes "parse_board_manifest input = Inr m"
  shows "((\<exists>tw c. digital_twin_new m scenario = Inr tw \<and> make_remote_core tw inst = Inr c) \<longleftrightarrow>
      1 \<le> inst \<and> inst \<le> 127 \<and> 0 \<notin> set (map rd_resource_id (bm_resources m)) \<and>
      list_all axis_valid (bm_motion_axes m) \<and> list_all (event_valid m) (fs_events scenario)) \<and>
    (\<forall>tw c. digital_twin_new m scenario = Inr tw \<and> make_remote_core tw inst = Inr c \<longrightarrow>
      core_reachable c \<and> catalog_ok (co_resources c) \<and> attach tw c = c)"
proof (intro conjI allI impI)
  note ok = parsed_manifest_ok [OF assms]
  have info: "(\<exists>info. instantiate_node_info m inst = Inr info) \<longleftrightarrow> 1 \<le> inst \<and> inst \<le> 127"
    "instantiate_node_info m inst = Inr info \<Longrightarrow> nf_protocol_version info = kProtocolVersion" for info
    using ok by (auto simp: instantiate_node_info_def manifest_ok_def not_less word_le_nat_alt
        Suc_le_eq unat_gt_0 split: if_splits)
  have core: "(\<exists>c. make_remote_core tw inst = Inr c) \<longleftrightarrow>
      1 \<le> inst \<and> inst \<le> 127 \<and> 0 \<notin> rd_resource_id ` set (bm_resources m)"
    if "digital_twin_new m scenario = Inr tw" for tw
    using remote_core_accepts [OF ok] info twin_new_manifest [OF that]
    by (fastforce simp: make_remote_core_def try_bind_Inr_iff)
  with twin_new_accepts [OF ok, of scenario]
  show "(\<exists>tw c. digital_twin_new m scenario = Inr tw \<and> make_remote_core tw inst = Inr c) \<longleftrightarrow>
      1 \<le> inst \<and> inst \<le> 127 \<and> 0 \<notin> set (map rd_resource_id (bm_resources m)) \<and>
      list_all axis_valid (bm_motion_axes m) \<and> list_all (event_valid m) (fs_events scenario)"
    by auto
  fix tw c assume "digital_twin_new m scenario = Inr tw \<and> make_remote_core tw inst = Inr c"
  then have tw: "digital_twin_new m scenario = Inr tw" and "make_remote_core tw inst = Inr c" by auto
  then obtain info where new: "remote_core_new info (bm_capabilities m) (Some (dt_gpio tw))
      (Some (dt_uart tw)) (bm_resources m) (bm_contracts m) (dt_motion tw) = Inr c"
    using twin_new_manifest [OF tw] by (auto simp: make_remote_core_def try_bind_Inr_iff)
  show "core_reachable c" by (rule core_new [OF new twin_motion_reachable [OF tw]])
  show "catalog_ok (co_resources c)"
    using manifest_catalog_ok [OF ok] remote_core_new_fields(1) [OF new] by simp
  show "attach tw c = c"
    using remote_core_new_fields [OF new] by (simp add: attach_def)
qed

definition demo_scenario :: fault_scenario where
  "demo_scenario = \<lparr>fs_schema_version = 1, fs_events =
     [\<lparr>fe_at_ms = 10, fe_action = FA_SetGpioInput, fe_resource_id = 1, fe_value = True\<rparr>,
      \<lparr>fe_at_ms = 20, fe_action = FA_SetNodeOnline, fe_resource_id = 0, fe_value = False\<rparr>,
      \<lparr>fe_at_ms = 30, fe_action = FA_TriggerMotionLimit, fe_resource_id = 9, fe_value = False\<rparr>]\<rparr>"

lemma board_boots_witness:
  "\<exists>tw c. digital_twin_new demo_manifest demo_scenario = Inr tw \<and> make_remote_core tw 5 = Inr c \<and>
     core_reachable c"
proof -
  have "\<exists>tw c. digital_twin_new demo_manifest demo_scenario = Inr tw \<and> make_remote_core tw 5 = Inr c"
    by (rule board_boots [OF demo_parses, of demo_scenario 5, THEN conjunct1, THEN iffD2])
      (simp add: demo_manifest_def demo_scenario_def demo_resource_def axis_valid_def event_valid_def
        resource_is_def manifest_resource_def)
  then show ?thesis using board_boots [OF demo_parses, of demo_scenario 5] by blast
qed

subsection \<open>Playing a scenario\<close>

text \<open>What an operation of the twin does to the shared back ends is a step of the core.\<close>

lemma attach_steps:
  "core_step (attach tw c) (attach (tw\<lparr>dt_uart := u\<rparr>) c)"
  "core_step (attach tw c) (attach (tw\<lparr>dt_gpio := snd (set_input_value pin v (dt_gpio tw))\<rparr>) c)"
  "dt_motion tw = Some e \<Longrightarrow> executor_step e e' \<Longrightarrow>
     core_step (attach tw c) (attach (tw\<lparr>dt_motion := Some e'\<rparr>) c)"
  using core_uart [of "attach tw c" u] core_input [of "attach tw c" "dt_gpio tw" pin v]
    core_motion [of "attach tw c" e e']
  by (cases c, simp add: attach_def)+

lemma attach_same [simp]:
  "attach (tw\<lparr>dt_pending_motion_edges := es\<rparr>) c = attach tw c"
  "attach (tw\<lparr>dt_motion := e, dt_pending_motion_edges := es\<rparr>) c = attach (tw\<lparr>dt_motion := e\<rparr>) c"
  "attach (tw\<lparr>dt_next_event_index := i\<rparr>) c = attach tw c"
  "attach (tw\<lparr>dt_online := b\<rparr>) c = attach tw c"
  by (simp_all add: attach_def)

lemma apply_event_reachable:
  assumes "apply_event event tw = (r, tw')" "core_reachable (attach tw c)"
  shows "core_reachable (attach tw' c)"
proof (cases "fe_action event")
  case FA_SetUartFailed
  then show ?thesis
    using assms core_next [OF assms(2) attach_steps(1)]
    by (auto simp: apply_event_def split: sum.splits)
next
  case FA_SetGpioInput
  then have "tw' = tw \<or> (\<exists>pin v. tw' = tw\<lparr>dt_gpio := snd (set_input_value pin v (dt_gpio tw))\<rparr>)"
    using assms(1) by (auto simp: apply_event_def split: sum.splits prod.splits) (metis snd_conv)+
  then show ?thesis using assms(2) core_next [OF assms(2) attach_steps(2)] by blast
next
  case FA_SetNodeOnline
  then show ?thesis using assms by (auto simp: apply_event_def)
next
  case FA_TriggerMotionLimit
  then show ?thesis
    using assms core_next [OF assms(2) attach_steps(3) [OF _ step_limit]]
    by (fastforce simp: apply_event_def split: sum.splits prod.splits option.splits)
qed

lemma advance_events_reachable:
  "advance_events t events n tw = (r, tw') \<Longrightarrow> core_reachable (attach tw c) \<Longrightarrow>
     core_reachable (attach tw' c)"
proof (induction t events n tw rule: advance_events.induct)
  case (2 t event events n tw)
  then show ?case
    by (fastforce split: if_splits prod.splits sum.splits dest: apply_event_reachable)
qed simp

lemma twin_advance_reachable:
  assumes "twin_advance_to t tw = (r, tw')" "core_reachable (attach tw c)"
  shows "core_reachable (attach tw' c)"
proof -
  obtain x tw1 where run: "advance_events t (drop (dt_next_event_index tw) (fs_events (dt_scenario tw))) 0 tw = (x, tw1)"
    by fastforce
  note ok = advance_events_reachable [OF run assms(2)]
  show ?thesis
    using assms(1) run ok core_next [OF ok attach_steps(3) [OF _ step_advance]]
    by (fastforce simp: twin_advance_to_def split: sum.splits prod.splits option.splits if_splits)
qed

text \<open>What the due events make of the node's presence on the bus and of the failure of a port.\<close>

definition due_events :: "u64 \<Rightarrow> digital_twin \<Rightarrow> fault_event list" where
  "due_events t tw =
     takeWhile (\<lambda>e. fe_at_ms e \<le> t) (drop (dt_next_event_index tw) (fs_events (dt_scenario tw)))"

definition event_port :: "board_manifest \<Rightarrow> fault_event \<Rightarrow> byte option" where
  "event_port m e = map_option (\<lambda>r. ucast (rd_instance r)) (manifest_resource m (fe_resource_id e))"

definition online_after :: "fault_event list \<Rightarrow> bool \<Rightarrow> bool" where
  "online_after es b = fold (\<lambda>e b. if fe_action e = FA_SetNodeOnline then fe_value e else b) es b"

definition failed_after :: "board_manifest \<Rightarrow> byte \<Rightarrow> fault_event list \<Rightarrow> bool \<Rightarrow> bool" where
  "failed_after m p es b =
     fold (\<lambda>e b. if fe_action e = FA_SetUartFailed \<and> event_port m e = Some p then fe_value e else b) es b"

abbreviation port_failed :: "byte \<Rightarrow> digital_twin \<Rightarrow> bool" where
  "port_failed p tw \<equiv> ps_failed (port_at p (dt_uart tw))"

lemma apply_event_effect:
  assumes "apply_event event tw = (Inr u, tw')"
  shows "dt_manifest tw' = dt_manifest tw \<and> dt_scenario tw' = dt_scenario tw \<and>
    dt_next_event_index tw' = dt_next_event_index tw \<and>
    dt_online tw' = online_after [event] (dt_online tw) \<and>
    port_failed p tw' = failed_after (dt_manifest tw) p [event] (port_failed p tw)"
proof (cases "fe_action event")
  case FA_SetUartFailed
  with assms show ?thesis
    by (auto simp: apply_event_def require_resource_def online_after_def failed_after_def event_port_def
        uart_set_failed_def port_at_def put_port_def split: option.splits if_splits)
next
  case FA_SetGpioInput
  with assms show ?thesis
    by (auto simp: apply_event_def online_after_def failed_after_def split: sum.splits prod.splits)
next
  case FA_SetNodeOnline
  with assms show ?thesis by (auto simp: apply_event_def online_after_def failed_after_def)
next
  case FA_TriggerMotionLimit
  with assms show ?thesis
    by (auto simp: apply_event_def online_after_def failed_after_def
        split: sum.splits prod.splits option.splits)
qed

lemma advance_events_effect:
  assumes "advance_events t events n tw = (Inr k, tw')"
  shows "k = n + length (takeWhile (\<lambda>e. fe_at_ms e \<le> t) events) \<and>
    dt_manifest tw' = dt_manifest tw \<and> dt_scenario tw' = dt_scenario tw \<and>
    dt_next_event_index tw' = dt_next_event_index tw + (k - n) \<and>
    dt_online tw' = online_after (takeWhile (\<lambda>e. fe_at_ms e \<le> t) events) (dt_online tw) \<and>
    port_failed p tw' =
      failed_after (dt_manifest tw) p (takeWhile (\<lambda>e. fe_at_ms e \<le> t) events) (port_failed p tw)"
  using assms
proof (induction t events n tw rule: advance_events.induct)
  case (1 t n tw)
  then show ?case by (simp add: online_after_def failed_after_def)
next
  case (2 t event events n tw)
  show ?case
  proof (cases "fe_at_ms event \<le> t")
    case True
    with "2.prems" obtain u tw1 where run: "apply_event event tw = (Inr u, tw1)"
      and rest: "advance_events t events (n + 1) (tw1\<lparr>dt_next_event_index := dt_next_event_index tw1 + 1\<rparr>) =
        (Inr k, tw')"
      by (auto split: sum.splits prod.splits)
    from "2.IH" [OF True run [symmetric] refl rest] apply_event_effect [OF run, of p] True
    show ?thesis by (simp add: online_after_def failed_after_def)
  next
    case False
    with "2.prems" show ?thesis by (simp add: online_after_def failed_after_def)
  qed
qed

lemma due_events_done:
  assumes "events = drop i es"
  shows "i + length (takeWhile (\<lambda>e. fe_at_ms e \<le> t) events) < length es \<Longrightarrow>
    t < fe_at_ms (es ! (i + length (takeWhile (\<lambda>e. fe_at_ms e \<le> t) events)))"
proof -
  let ?n = "length (takeWhile (\<lambda>e. fe_at_ms e \<le> t) events)"
  assume less: "i + ?n < length es"
  then have "?n < length events" using assms by simp
  from nth_length_takeWhile [OF this] show "t < fe_at_ms (es ! (i + ?n))"
    using assms less by (simp add: not_le)
qed

text \<open>An event that throws is not passed over: it is applied, and throws, again at every call.\<close>

lemma blocked_event:
  assumes "due_events t tw = event # es" "apply_event event tw = (Inl e, tw1)"
  shows "twin_advance_to t tw = (Inl e, tw1)"
proof -
  from assms(1) obtain rest where "drop (dt_next_event_index tw) (fs_events (dt_scenario tw)) = event # rest"
    and "fe_at_ms event \<le> t"
    unfolding due_events_def by (metis list.distinct(1) list.exhaust list.inject takeWhile.simps)
  with assms(2) show ?thesis by (simp add: twin_advance_to_def)
qed

text \<open>
  Advancing the twin to a time applies exactly the scenario's events that are due and not yet
  applied, each once and in order: it returns their number, the node is present on the bus and each
  serial port has failed as the last of them say, and the next event lies in the future. Whatever
  the events do, also when one throws, a reachable core that shares the back ends stays reachable,
  so that no fault scenario breaks the node's invariants.
\<close>

theorem scenario_in_order:
  assumes "twin_advance_to t tw = (r, tw')"
  shows "(\<forall>n. r = Inr n \<longrightarrow> n = length (due_events t tw) \<and>
        dt_next_event_index tw' = dt_next_event_index tw + n \<and>
        dt_online tw' = online_after (due_events t tw) (dt_online tw) \<and>
        (\<forall>p. port_failed p tw' = failed_after (dt_manifest tw) p (due_events t tw) (port_failed p tw)) \<and>
        (\<forall>at_ms. next_event_ms tw' = Some at_ms \<longrightarrow> t < at_ms)) \<and>
    (core_reachable (attach tw c) \<longrightarrow> core_reachable (attach tw' c))"
proof (intro conjI impI allI)
  let ?events = "drop (dt_next_event_index tw) (fs_events (dt_scenario tw))"
  fix n assume n: "r = Inr n"
  with assms obtain tw1 where run: "advance_events t ?events 0 tw = (Inr n, tw1)"
    and same: "dt_scenario tw' = dt_scenario tw1" "dt_next_event_index tw' = dt_next_event_index tw1"
      "dt_online tw' = dt_online tw1" "dt_uart tw' = dt_uart tw1"
    by (fastforce simp: twin_advance_to_def split: sum.splits prod.splits option.splits if_splits)
  note effect = advance_events_effect [OF run]
  show count: "n = length (due_events t tw)" and index: "dt_next_event_index tw' = dt_next_event_index tw + n"
    and "dt_online tw' = online_after (due_events t tw) (dt_online tw)"
    using effect same by (simp_all add: due_events_def)
  show "port_failed p tw' = failed_after (dt_manifest tw) p (due_events t tw) (port_failed p tw)" for p
    using effect [of p] same by (simp add: due_events_def)
  show "t < at_ms" if "next_event_ms tw' = Some at_ms" for at_ms
    using that due_events_done [OF refl, where i = "dt_next_event_index tw" and es = "fs_events (dt_scenario tw)"
          and t = t]
      count index effect same
    by (auto simp: next_event_ms_def due_events_def split: if_splits)
next
  show "core_reachable (attach tw' c)" if "core_reachable (attach tw c)"
    by (rule twin_advance_reachable [OF assms that])
qed

definition demo_twin :: digital_twin where
  "demo_twin = \<lparr>dt_manifest = demo_manifest, dt_scenario = demo_scenario, dt_gpio = mock_gpio_new,
     dt_uart = small_uart, dt_motion = None, dt_pending_motion_edges = [], dt_next_event_index = 0,
     dt_online = True\<rparr>"

lemma demo_twin_runs:
  "twin_advance_to 25 demo_twin = (Inr 2, demo_twin\<lparr>
     dt_gpio := snd (set_input_value 0 True mock_gpio_new), dt_next_event_index := 2, dt_online := False\<rparr>)"
  by (simp add: demo_twin_def demo_scenario_def twin_advance_to_def apply_event_def require_resource_def
      manifest_resource_def demo_manifest_def demo_resource_def set_input_value_def mock_gpio_new_def)

lemma scenario_in_order_witness:
  "fst (twin_advance_to 25 demo_twin) = Inr (length (due_events 25 demo_twin)) \<and>
   next_event_ms (snd (twin_advance_to 25 demo_twin)) = Some 30"
proof
  show "fst (twin_advance_to 25 demo_twin) = Inr (length (due_events 25 demo_twin))"
    using scenario_in_order [OF demo_twin_runs] by (simp add: demo_twin_runs)
  show "next_event_ms (snd (twin_advance_to 25 demo_twin)) = Some 30"
    unfolding demo_twin_runs by (simp add: next_event_ms_def demo_twin_def demo_scenario_def)
qed

end
