(* ===== verification/Spec2Isabelle.thy ===== *)
theory Spec2Isabelle
  imports Request_Manager Node_Registry Core_Sessions Node_Exchange Can_Frame Traffic_Control Tmc2209
    Ring_Race Soft_Uart_Line Firmware_Pins Firmware_Answers Daemon_Streams Client_Answers Ipc Digital_Twin
begin

text \<open>
  RemoteBSP lets a Linux host use the pins, serial ports and motion axes of microcontroller nodes over
  CAN. This development models the parts of the repository that carry its logic and proves what makes
  them correct. Paths are relative to the repository's root.

  \<^bold>\<open>How the program works.\<close> A client talks to the daemon \<^verbatim>\<open>toolbusd\<close> over a local socket. The daemon turns
  its requests into packets, gives each a request identifier, cuts it into fragments that fit a CAN
  frame and sends them to a node; it repeats a request that stays unanswered and keeps a registry of
  the nodes it hears. A node puts the fragments together again, answers a repeated request from a
  cache without executing it twice, and executes a new one on its back ends (GPIO, UART, motion)
  under leases that keep the sessions apart. \<^verbatim>\<open>mock_mcu\<close> is the node as a simulator, booted from a board
  manifest and played against by a fault scenario; \<^verbatim>\<open>firmware\<close> is the node for the real boards.

  \<^bold>\<open>Theories and sources.\<close>
  \<^item> \<open>Prelude\<close>: machine integers, results with errors, hash maps as association lists with distinct keys,
    time points. \<open>Wire\<close>: little-endian integers and the locales \<open>codec\<close>, \<open>canonical_codec\<close>,
    \<open>entry_codec\<close> and \<open>record_codec\<close>, interpreted by every codec below.
  \<^item> \<open>Crc32\<close>, \<open>Packet\<close>, \<open>Fragmentation\<close>, \<open>Reassembly\<close>: \<^verbatim>\<open>protocol/src/{crc32,packet,fragmentation}.cpp\<close>.
    \<open>Discovery_Payload\<close>, \<open>Resource_Payload\<close>, \<open>Motion_Payload\<close>: \<^verbatim>\<open>protocol/src/{discovery,resource,motion}.cpp\<close>.
  \<^item> \<open>Request_Manager\<close>, \<open>Node_Registry\<close>, \<open>Traffic_Control\<close>, \<open>Ipc_Socket\<close> and \<open>Ipc\<close>:
    \<^verbatim>\<open>toolbusd/src/{request_manager,node_registry,traffic_control,ipc}.cpp\<close>.
  \<^item> \<open>Daemon\<close> (what a thread does while it holds a mutex), \<open>Daemon_Runs\<close> (the threads interleaved),
    \<open>Daemon_Answers\<close> and \<open>Daemon_Streams\<close> (properties of requests and of serial streams):
    \<^verbatim>\<open>toolbusd/src/main.cpp\<close>.
  \<^item> \<open>Client\<close> and \<open>Client_Answers\<close>: \<^verbatim>\<open>libremotebsp/src/client.cpp\<close>; the system calls, the daemon's bytes and
    the clock are the fields of the record \<open>world\<close>.
  \<^item> \<open>Can_Frame\<close>: \<^verbatim>\<open>transport/src/can_frame_codec.cpp\<close>. \<open>Tmc2209\<close>: \<^verbatim>\<open>libremotebsp/src/tmc2209.cpp\<close>.
  \<^item> \<open>Gpio_Bsp\<close>, \<open>Uart_Bsp\<close>: the simulated back ends of \<^verbatim>\<open>mock_mcu\<close>, with the locales \<open>gpio_backend\<close>
    and \<open>uart_backend\<close> for their contracts.
  \<^item> \<open>Motion_Executor\<close> (operations), \<open>Motion_Safety\<close> (step timing), \<open>Motion_Queue\<close> (invariant and
    properties), \<open>Motion_Shape\<close> (what never changes): \<^verbatim>\<open>mock_mcu/src/motion_executor.cpp\<close>.
  \<^item> \<open>Remote_Core\<close> (every command handler), \<open>Core_Leases\<close> and \<open>Core_Safety\<close> (invariant and answers),
    \<open>Core_Reachable\<close>, \<open>Core_Isolation\<close> (expiry, pins), \<open>Core_Sessions\<close> (leases, ports, isolation):
    \<^verbatim>\<open>mock_mcu/src/remote_core.cpp\<close>.
  \<^item> \<open>Mock_Node\<close> and \<open>Node_Cache\<close>: \<^verbatim>\<open>mock_mcu/src/mock_node.cpp\<close>. \<open>Node_Exchange\<close> composes client
    fragmentation, node and client reassembly.
  \<^item> \<open>Json\<close>, \<open>Board_Manifest\<close>, \<open>Manifest_Ok\<close>, \<open>Digital_Twin\<close>: \<^verbatim>\<open>mock_mcu/src/board_manifest.cpp\<close>.
  \<^item> \<open>Byte_Ring\<close>, \<open>Ring_Race\<close>, \<open>Soft_Uart\<close>, \<open>Soft_Uart_Line\<close>:
    \<^verbatim>\<open>firmware/src/{byte_ring,soft_half_duplex_uart}.c\<close>.
  \<^item> \<open>Firmware_Motion\<close> (operations), \<open>Firmware_Steps\<close> (what one tick does), \<open>Firmware_Drive\<close> (ticks
    in time), \<open>Firmware_Queue\<close> (the ring and the invariant), \<open>Firmware_Pins\<close> (the lines of the board, and a
    segment from its arming to its end): \<^verbatim>\<open>firmware/src/motion.c\<close>.
  \<^item> \<open>Firmware_Core\<close> (operations), \<open>Firmware_Node\<close> (cache), \<open>Firmware_State\<close> (invariant),
    \<open>Firmware_Frames\<close> (agreement with \<^verbatim>\<open>protocol/src\<close>), \<open>Firmware_Answers\<close> (exchange with the host):
    \<^verbatim>\<open>firmware/src/core.c\<close>.

  \<^bold>\<open>Reading the model.\<close> A C++ class is a record; an operation takes it and returns it updated. One that may
  throw returns \<open>Inl\<close> the exception or \<open>Inr\<close> the value, together with the state it leaves where it
  changes state before throwing. Fixed-width integers are words and wrap around; \<^verbatim>\<open>std::size_t\<close>
  counts of container elements are natural numbers. Pointers that may be null are options. Time is an
  argument: \<^verbatim>\<open>steady_clock\<close> is an integer of nanoseconds, which the callers pass in. The \<^verbatim>\<open>long double\<close>
  token buckets of the traffic controller are rationals with a rounding function as parameter, and the
  bounds hold for every rounding with a relative error and a least absolute one, on the range the code
  uses, as binary floating point has it (\<open>float64\<close> is one with the 64 bits of x87). The board's callbacks (\<^verbatim>\<open>hal\<close>), the
  kernel's partial and interrupted socket calls and the constants of \<^verbatim>\<open>linux/can.h\<close> are parameters,
  data, or their documented values. Exceptions carry no message.

  \<^bold>\<open>What the lemmas show.\<close>
  \<^item> Codecs are canonical: a decoder accepts exactly the encodings of valid values (packets, frames,
    payloads, IPC messages, CAN frames). The CRCs detect the damage they are meant to.
  \<^item> Invariants over everything reachable: \<open>rm_ok\<close>, \<open>registry_ok\<close>, \<open>reassembler_ok\<close>, \<open>executor_ok\<close>,
    \<open>core_ok\<close>, \<open>mock_node_ok\<close>, \<open>traffic_ok\<close>, \<open>manifest_ok\<close>, \<open>fw_ok\<close>, \<open>fw_core_ok\<close>, proved by rule induction over step relations
    whose steps are the operations with any arguments.
  \<^item> End to end: fragments in any order, repeated and interleaved give the packet exactly once; a
    request is executed once and answered; motion emits exactly the commanded steps; leases exclude
    other sessions; expiry leaves outputs low; a fault scenario keeps the node reachable.
  \<^item> The firmware's ring refines a bounded queue, also when an interrupt and the main loop interleave,
    and the single-wire UART returns whatever the board does and samples every frame in tolerance.
    The timer tick's phase accumulator makes exactly the steps of a segment, as counted at the step
    lines, whatever the callbacks do, a fault switches off every line that was switched on, and ticks
    that come in time finish the segment; both as long as no other segment is accepted while it runs,
    which would start it over (\<open>rearmed_repeats\<close>).
  \<^item> The firmware's node and the host agree on packets and frames byte for byte, a request of the host is
    executed once and its answer reassembles at the host, and a repeated request is not executed again.
  \<^item> In every interleaving of the daemon's threads each request is in one place of a ledger, so that a client
    gets the reply to its own request from the node it asked, and one that waits is always still going
    to be answered or timed out. The bytes of a serial stream come to its readers once and in order, and
    while the node is not reset what is missing is counted, in bytes or in events; after a reset it is
    not (\<open>uart_restart_ignored\<close>).
  \<^item> A call of the client library sends its request as it is and returns the node's response;
    \<^verbatim>\<open>uart_write_all\<close> ends, and the node has taken the data it reports.

  \<^bold>\<open>Termination and bounds.\<close> Every definition is total: loops are structural, have a measure, or are
  bounded by what the code bounds them by (256 attempts for an identifier, the queue, the payload). The
  JSON parser terminates because each method leaves less text than it was given. Only the waits of the
  single-wire UART and the rounds of \<^verbatim>\<open>uart_write_all\<close> may run for ever in principle; they are
  \<open>partial_function (option)\<close>, and \<open>write_returns\<close> and \<open>client_write_all_delivers\<close> show that they return. The
  threads of the daemon run for ever; they are a step relation.

  \<^bold>\<open>Atomic steps.\<close> An operation of the firmware's motion queue is one step, although the boards call the
  tick from a timer interrupt that the main loop does not mask; a tick in the middle of an enqueue, an
  abort or a clear is not covered. \<open>Ring_Race\<close> interleaves the accesses of an interrupt and the main loop
  one by one, in the order of the program, so it assumes that the compiler does not move the plain write
  of a byte behind the write of the index. The daemon's threads interleave between their lock regions.

  \<^bold>\<open>Not modelled.\<close> In \<^verbatim>\<open>toolbusd\<close> the opening of the local socket, signals and the command line, which
  are system calls and console text around the modelled threads. \<^verbatim>\<open>remote_cli\<close> and \<^verbatim>\<open>mock_mcu\<close>'s main
  function, which parse arguments, print, and pass data between the modelled parts. The SocketCAN
  transport, which only makes system calls around the modelled frame codec. The boards' register
  accesses, interrupt vectors, USB debug console, linker and build files, whose meaning is the
  hardware's and not in the repository. The text of error messages, and the tests.
\<close>

text \<open>
  C5. Every payload decoder accepts a byte sequence exactly when it is the encoding of the value it
  returns: for discovery, assignment and heartbeat, for resource descriptors, lists, status,
  contracts and leases, and for motion segments, acceptances and status.
\<close>

theorem payload_codecs_canonical:
  "(decode_discovery_request bs = Inr dr \<longleftrightarrow> encode_discovery_request dr = Inr bs) \<and>
   (decode_node_identity bs = Inr i \<longleftrightarrow> encode_node_identity i = bs) \<and>
   (decode_node_assignment bs = Inr a \<longleftrightarrow> encode_node_assignment a = Inr bs) \<and>
   (decode_heartbeat bs = Inr h \<longleftrightarrow> encode_heartbeat h = bs) \<and>
   (decode_resource_id bs = Inr rid \<longleftrightarrow> encode_resource_id rid = bs) \<and>
   (decode_resource_descriptor bs = Inr d \<longleftrightarrow> encode_resource_descriptor d = Inr bs) \<and>
   (decode_resource_list bs = Inr ds \<longleftrightarrow> encode_resource_list ds = Inr bs) \<and>
   (decode_resource_status bs = Inr s \<longleftrightarrow> encode_resource_status s = Inr bs) \<and>
   (decode_resource_contract bs = Inr c \<longleftrightarrow> encode_resource_contract c = Inr bs) \<and>
   (decode_resource_lease_request bs = Inr lr \<longleftrightarrow> encode_resource_lease_request lr = Inr bs) \<and>
   (decode_resource_lease_token_request bs = Inr lt \<longleftrightarrow> encode_resource_lease_token_request lt = bs) \<and>
   (decode_resource_lease_info bs = Inr li \<longleftrightarrow> encode_resource_lease_info li = Inr bs) \<and>
   (decode_motion_segment bs = Inr seg \<longleftrightarrow> encode_motion_segment seg = Inr bs) \<and>
   (decode_motion_acceptance bs = Inr acc \<longleftrightarrow> encode_motion_acceptance acc = Inr bs) \<and>
   (decode_motion_status bs = Inr st \<longleftrightarrow> encode_motion_status st = Inr bs)"
  using discovery_payloads_canonical [of bs dr i a h]
    resource_payloads_canonical [of bs rid d ds s c lr lt li] motion_payloads_canonical [of bs seg acc st]
  by blast

end
